(* ===== verification/Prelude.thy ===== *)
theory Prelude
  imports Main "HOL-Library.Word" "HOL-Library.Monad_Syntax"
begin

text \<open>
  Prelude of the development: the machine types of the C sources, the option-monad
  conventions for code that can stop (a failed assert, \<open>hard_assert\<close>, \<open>panic\<close> or
  \<open>invalid_params_if\<close>), and the list and bit lemmas the component theories share.

  A C function that can stop is modelled with result type \<open>'a option\<close>: \<open>None\<close> is the
  stopped program and \<open>Some\<close> carries the returned value with the new state. Asserts are
  taken as compiled in (a build without \<open>NDEBUG\<close>), so a theorem that an operation returns
  \<open>Some\<close> also says that none of its asserts fails.
\<close>

unbundle bit_operations_syntax

named_theorems step_defs \<open>defining equations of the operations of a component\<close>
named_theorems inv_intros \<open>one lemma per operation: it keeps its component's invariant\<close>

type_synonym u8 = "8 word"
type_synonym u16 = "16 word"
type_synonym u32 = "32 word"
type_synonym u64 = "64 word"

section \<open>Asserts\<close>

definition c_assert :: "bool \<Rightarrow> unit option" where
  "c_assert b = (if b then Some () else None)"

lemma c_assert_True [simp]: "c_assert True = Some ()"
  and c_assert_False [simp]: "c_assert False = None"
  by (simp_all add: c_assert_def)

lemma c_assert_eq_Some [simp]: "c_assert b = Some u \<longleftrightarrow> b"
  by (simp add: c_assert_def)

lemma c_assert_bind [simp]: "Option.bind (c_assert b) f = (if b then f () else None)"
  by (simp add: c_assert_def)

section \<open>Lists read and written by index\<close>

text \<open>
  An array read in C outside the array is undefined; the model stops there. An array
  write is \<open>c_write\<close>, with the same bound.
\<close>

definition c_read :: "'a list \<Rightarrow> nat \<Rightarrow> 'a option" where
  "c_read xs i = (if i < length xs then Some (xs ! i) else None)"

definition c_write :: "'a list \<Rightarrow> nat \<Rightarrow> 'a \<Rightarrow> 'a list option" where
  "c_write xs i x = (if i < length xs then Some (xs[i := x]) else None)"

lemma c_read_in [simp]: "i < length xs \<Longrightarrow> c_read xs i = Some (xs ! i)"
  by (simp add: c_read_def)

lemma c_write_in [simp]: "i < length xs \<Longrightarrow> c_write xs i x = Some (xs[i := x])"
  by (simp add: c_write_def)

lemma c_read_eq_Some: "c_read xs i = Some x \<longleftrightarrow> i < length xs \<and> x = xs ! i"
  by (auto simp: c_read_def)

lemma c_write_eq_Some: "c_write xs i x = Some ys \<longleftrightarrow> i < length xs \<and> ys = xs[i := x]"
  by (auto simp: c_write_def)

lemma nth_list_update_if: "i < length xs \<Longrightarrow> xs[i := x] ! j = (if i = j then x else xs ! j)"
  by simp

lemma list_all_list_update:
  "list_all P xs \<Longrightarrow> P x \<Longrightarrow> list_all P (xs[i := x])"
  by (auto simp: list_all_iff dest: set_update_subset_insert [THEN subsetD])

text \<open>
  \<open>memcpy\<close> between byte arrays: \<open>n\<close> bytes of \<open>src\<close> are written at offset \<open>off\<close> of
  \<open>dst\<close>, or read at that offset. An array that is too short stops the program.
\<close>

definition memcpy_in :: "'a list \<Rightarrow> nat \<Rightarrow> 'a list \<Rightarrow> nat \<Rightarrow> 'a list option" where
  "memcpy_in dst off src n =
     (if off + n \<le> length dst \<and> n \<le> length src then Some (take off dst @ take n src @ drop (off + n) dst)
      else None)"

definition memcpy_out :: "'a list \<Rightarrow> nat \<Rightarrow> nat \<Rightarrow> 'a list option" where
  "memcpy_out src off n = (if off + n \<le> length src then Some (take n (drop off src)) else None)"

lemma memcpy_in_length: "memcpy_in dst off src n = Some d \<Longrightarrow> length d = length dst"
  by (auto simp: memcpy_in_def split: if_splits)

lemma memcpy_in_same:
  "memcpy_in dst off src n = Some d \<Longrightarrow> take n (drop off d) = take n src"
  by (auto simp: memcpy_in_def split: if_splits)

lemma memcpy_in_apart:
  assumes "memcpy_in dst off src n = Some d" and "o1 + m \<le> off \<or> off + n \<le> o1"
  shows "take m (drop o1 d) = take m (drop o1 dst)"
  using assms
  by (auto simp: memcpy_in_def nth_append min_def intro!: nth_equalityI split: if_splits)

lemma map_option_bind_put:
  "Option.bind x (\<lambda>b. Some (f b)) = map_option f x"
  by (cases x) auto

section \<open>Bytes in wider words\<close>

lemma ucast_byte_back [simp]: "ucast (ucast (x :: u8) :: u16) = x" "ucast (ucast (x :: u8) :: u32) = x"
  by (rule bit_word_eqI, simp add: bit_simps)+

end
