(* ===== verification/Claim.thy ===== *)
theory Claim
  imports Prelude
begin

text \<open>
  Bit arrays of claimed hardware resources (\<open>SDK/hardware/claim.c\<close>). The array is the
  list of its bytes. Every operation runs between \<open>hw_claim_lock\<close> and
  \<open>hw_claim_unlock\<close> (hardware spin lock 11, interrupts off), so each is one atomic step
  here. A panic is \<open>None\<close>.
\<close>

section \<open>Operations\<close>

definition claim_bit :: "nat \<Rightarrow> u32" where
  "claim_bit i = push_bit (i AND 7) 1"

definition hw_is_claimed :: "u8 list \<Rightarrow> nat \<Rightarrow> bool option" where
  "hw_is_claimed bits bit_index = do {
     byte \<leftarrow> c_read bits (drop_bit 3 bit_index);
     Some ((ucast byte :: u32) AND claim_bit bit_index \<noteq> 0) }"

definition set_claim_bit :: "u8 list \<Rightarrow> nat \<Rightarrow> u8 list option" where
  "set_claim_bit bits i = do {
     byte \<leftarrow> c_read bits (drop_bit 3 i);
     c_write bits (drop_bit 3 i) (byte OR ucast (claim_bit i)) }"

definition hw_claim_or_assert :: "u8 list \<Rightarrow> nat \<Rightarrow> u8 list option" where
  "hw_claim_or_assert bits bit_index = do {
     taken \<leftarrow> hw_is_claimed bits bit_index;
     if taken then None else set_claim_bit bits bit_index }"

text \<open>The \<open>for\<close> loop over \<open>bit_lsb..bit_msb\<close>: the first free bit is taken.\<close>

function claim_scan :: "u8 list \<Rightarrow> nat \<Rightarrow> nat \<Rightarrow> (int \<times> u8 list) option" where
  "claim_scan bits i bit_msb =
     (if i \<le> bit_msb then do {
        taken \<leftarrow> hw_is_claimed bits i;
        if taken then claim_scan bits (i + 1) bit_msb
        else do { bits' \<leftarrow> set_claim_bit bits i; Some (int i, bits') } }
      else Some (- 1, bits))"
  by pat_completeness auto
termination
  by (relation "measure (\<lambda>(bits, i, m). Suc m - i)") auto

declare claim_scan.simps [simp del]

definition hw_claim_unused_from_range ::
    "u8 list \<Rightarrow> bool \<Rightarrow> nat \<Rightarrow> nat \<Rightarrow> (int \<times> u8 list) option" where
  "hw_claim_unused_from_range bits required bit_lsb bit_msb = do {
     (found_bit, bits') \<leftarrow> claim_scan bits bit_lsb bit_msb;
     if found_bit < 0 \<and> required then None else Some (found_bit, bits') }"

definition hw_claim_clear :: "u8 list \<Rightarrow> nat \<Rightarrow> u8 list option" where
  "hw_claim_clear bits bit_index = do {
     taken \<leftarrow> hw_is_claimed bits bit_index;
     c_assert taken;
     byte \<leftarrow> c_read bits (drop_bit 3 bit_index);
     c_write bits (drop_bit 3 bit_index) (byte AND ucast (NOT (claim_bit bit_index))) }"

section \<open>The abstract view: a finite set of claimed numbers\<close>

definition claimed_set :: "u8 list \<Rightarrow> nat set" where
  "claimed_set bits = {i. i < 8 * length bits \<and> bit (bits ! (i div 8)) (i mod 8)}"

lemma claimed_set_bound: "i \<in> claimed_set bits \<Longrightarrow> i < 8 * length bits"
  by (simp add: claimed_set_def)

lemma finite_claimed_set [simp]: "finite (claimed_set bits)"
  by (rule finite_subset [of _ "{..< 8 * length bits}"]) (auto simp: claimed_set_def)

lemma claimed_set_zero [simp]: "claimed_set (replicate n 0) = {}"
  by (auto simp: claimed_set_def)

lemma byte_index: "drop_bit 3 i = i div 8" for i :: nat
  by (simp add: drop_bit_eq_div)

lemma bit_index: "i AND 7 = i mod 8" for i :: nat
  using take_bit_eq_mask [of 3 i] by (simp add: take_bit_eq_mod mask_numeral)

lemma claim_bit_eq: "claim_bit i = push_bit (i mod 8) 1"
  by (simp add: claim_bit_def bit_index)

lemma bit_claim_byte:
  fixes byte :: u8
  assumes "k < 8"
  shows "bit (byte OR ucast (claim_bit i)) k \<longleftrightarrow> bit byte k \<or> k = i mod 8"
    and "bit (byte AND ucast (NOT (claim_bit i))) k \<longleftrightarrow> bit byte k \<and> k \<noteq> i mod 8"
  using assms by (auto simp: claim_bit_eq bit_simps)

lemma index_split: "i = j \<longleftrightarrow> i div 8 = j div 8 \<and> i mod 8 = j mod 8" for i j :: nat
  by (metis div_mult_mod_eq)

lemma hw_is_claimed_eq:
  assumes i: "i < 8 * length bits"
  shows "hw_is_claimed bits i = Some (i \<in> claimed_set bits)"
proof -
  from i have "i div 8 < length bits" by simp
  moreover have "i mod 8 < 32" using mod_less_divisor [of 8 i] by linarith
  ultimately show ?thesis using i
    by (simp add: hw_is_claimed_def byte_index claim_bit_eq and_exp_eq_0_iff_not_bit
        claimed_set_def bit_simps)
qed

lemma set_claim_bit_eq:
  assumes i: "i < 8 * length bits"
  shows "\<exists>bits'. set_claim_bit bits i = Some bits' \<and> length bits' = length bits
    \<and> claimed_set bits' = insert i (claimed_set bits)"
proof (intro exI conjI)
  let ?b = "bits[i div 8 := bits ! (i div 8) OR ucast (claim_bit i)]"
  from i have j: "i div 8 < length bits" by simp
  then show "set_claim_bit bits i = Some ?b"
    by (simp add: set_claim_bit_def byte_index)
  show "length ?b = length bits" by simp
  show "claimed_set ?b = insert i (claimed_set bits)"
    using i j by (auto simp: claimed_set_def nth_list_update bit_claim_byte index_split [of _ i])
qed

lemma hw_claim_clear_eq:
  assumes i: "i \<in> claimed_set bits"
  shows "\<exists>bits'. hw_claim_clear bits i = Some bits' \<and> length bits' = length bits
    \<and> claimed_set bits' = claimed_set bits - {i}"
proof (intro exI conjI)
  let ?b = "bits[i div 8 := bits ! (i div 8) AND ucast (NOT (claim_bit i))]"
  from i have i8: "i < 8 * length bits" by (rule claimed_set_bound)
  then have j: "i div 8 < length bits" by simp
  then show "hw_claim_clear bits i = Some ?b"
    using i by (simp add: hw_claim_clear_def byte_index hw_is_claimed_eq [OF i8])
  show "length ?b = length bits" by simp
  show "claimed_set ?b = claimed_set bits - {i}"
    using i8 j by (auto simp: claimed_set_def nth_list_update bit_claim_byte index_split [of _ i])
qed

lemma hw_claim_or_assert_free:
  assumes "i < 8 * length bits" and "i \<notin> claimed_set bits"
  shows "\<exists>bits'. hw_claim_or_assert bits i = Some bits' \<and> length bits' = length bits
    \<and> claimed_set bits' = insert i (claimed_set bits)"
  using set_claim_bit_eq [OF assms(1)] assms
  by (simp add: hw_claim_or_assert_def hw_is_claimed_eq)

lemma hw_claim_or_assert_taken:
  "i \<in> claimed_set bits \<Longrightarrow> hw_claim_or_assert bits i = None"
  by (simp add: hw_claim_or_assert_def hw_is_claimed_eq claimed_set_bound)

lemma hw_claim_clear_free:
  "i < 8 * length bits \<Longrightarrow> i \<notin> claimed_set bits \<Longrightarrow> hw_claim_clear bits i = None"
  by (simp add: hw_claim_clear_def hw_is_claimed_eq)

lemma claim_scan_first_free:
  assumes "lo \<le> i" "i \<le> hi" "hi < 8 * length bits" "i \<notin> claimed_set bits"
    and "{lo..<i} \<subseteq> claimed_set bits"
  shows "claim_scan bits lo hi = do { bits' \<leftarrow> set_claim_bit bits i; Some (int i, bits') }"
  using assms
proof (induction "i - lo" arbitrary: lo)
  case 0
  then have "lo = i" by simp
  with 0 show ?case by (simp add: claim_scan.simps [of bits i hi] hw_is_claimed_eq)
next
  case (Suc n)
  then have "lo \<in> claimed_set bits" "{Suc lo..<i} \<subseteq> claimed_set bits" "lo < i" by auto
  with Suc show ?case
    by (simp add: claim_scan.simps [of bits lo hi] hw_is_claimed_eq)
qed

lemma claim_scan_all_taken:
  assumes "hi < 8 * length bits" and "{lo..hi} \<subseteq> claimed_set bits"
  shows "claim_scan bits lo hi = Some (- 1, bits)"
  using assms
proof (induction "Suc hi - lo" arbitrary: lo)
  case 0
  then show ?case by (simp add: claim_scan.simps [of bits lo hi])
next
  case (Suc n)
  then have "lo \<in> {lo..hi}" "{Suc lo..hi} \<subseteq> {lo..hi}" by auto
  with Suc have "lo \<in> claimed_set bits" "{Suc lo..hi} \<subseteq> claimed_set bits" by blast+
  with Suc show ?case
    by (simp add: claim_scan.simps [of bits lo hi] hw_is_claimed_eq)
qed

lemma hw_claim_unused_first_free:
  assumes "lo \<le> i" "i \<le> hi" "hi < 8 * length bits" "i \<notin> claimed_set bits"
    and "{lo..<i} \<subseteq> claimed_set bits"
  shows "\<exists>bits'. hw_claim_unused_from_range bits required lo hi = Some (int i, bits')
    \<and> length bits' = length bits \<and> claimed_set bits' = insert i (claimed_set bits)"
  using set_claim_bit_eq [of i bits] assms
  by (auto simp: hw_claim_unused_from_range_def claim_scan_first_free)

lemma hw_claim_unused_all_taken:
  assumes "hi < 8 * length bits" and "{lo..hi} \<subseteq> claimed_set bits"
  shows "hw_claim_unused_from_range bits required lo hi
    = (if required then None else Some (- 1, bits))"
  using assms by (simp add: hw_claim_unused_from_range_def claim_scan_all_taken)

lemma claim_scan_none:
  "claim_scan bits i m = Some (n, bits') \<Longrightarrow> n < 0 \<Longrightarrow> n = - 1"
proof (induction bits i m rule: claim_scan.induct)
  case (1 bits i m)
  then show ?case
    by (subst (asm) claim_scan.simps) (auto split: if_splits bind_splits)
qed

lemma hw_claim_unused_none:
  "hw_claim_unused_from_range bits required lo hi = Some (n, bits') \<Longrightarrow> n < 0 \<Longrightarrow> n = - 1"
  by (auto simp: hw_claim_unused_from_range_def split: bind_splits if_splits
      dest: claim_scan_none)

section \<open>The interface of a pool of numbered resources\<close>

text \<open>
  \<open>for (uint i = 0; mask; i++, mask >>= 1)\<close>: the loop of every \<open>..._claim_mask\<close>. It
  stops because the mask loses a bit in every round.
\<close>

function claim_mask_loop :: "('s \<Rightarrow> nat \<Rightarrow> 's option) \<Rightarrow> 's \<Rightarrow> nat \<Rightarrow> u32 \<Rightarrow> 's option" where
  "claim_mask_loop claim s i m =
     (if m = 0 then Some s
      else do {
        s' \<leftarrow> (if m AND 1 \<noteq> 0 then claim s i else Some s);
        claim_mask_loop claim s' (i + 1) (drop_bit 1 m) })"
  by pat_completeness auto
termination
proof (relation "measure (\<lambda>(claim, s, i, m). unat m)", goal_cases)
  case 1
  then show ?case by simp
next
  case (2 claim s i m s')
  then have "0 < unat m" by (simp add: unat_gt_0)
  then show ?case by (simp add: drop_bit_eq_div unat_div)
qed

declare claim_mask_loop.simps [simp del]

text \<open>The numbers a mask stands for when its bit 0 is number \<open>i\<close>.\<close>

definition mask_numbers :: "nat \<Rightarrow> u32 \<Rightarrow> nat set" where
  "mask_numbers i m = (\<lambda>k. i + k) ` {k. bit m k}"

lemma mask_numbers_zero [simp]: "mask_numbers i 0 = {}"
  by (simp add: mask_numbers_def)

lemma mask_numbers_step:
  "mask_numbers i m = (if m AND 1 \<noteq> 0 then {i} else {}) \<union> mask_numbers (i + 1) (drop_bit 1 m)"
proof -
  have "{k. bit m k} = (if bit m 0 then {0} else {}) \<union> Suc ` {k. bit m (Suc k)}"
    by (auto simp: image_iff) (metis not0_implies_Suc)+
  moreover have "m AND 1 \<noteq> 0 \<longleftrightarrow> bit m 0"
    using and_exp_eq_0_iff_not_bit [of m 0] by simp
  ultimately show ?thesis
    by (auto simp: mask_numbers_def bit_drop_bit_eq image_iff)
qed

lemma mask_numbers_less: "j \<in> mask_numbers i m \<Longrightarrow> i \<le> j"
  by (auto simp: mask_numbers_def)

text \<open>\<open>grab n s\<close> is a client that asks for \<open>n\<close> unused resources in a row, insisting on each.\<close>

fun grab :: "('s \<Rightarrow> bool \<Rightarrow> (int \<times> 's) option) \<Rightarrow> nat \<Rightarrow> 's \<Rightarrow> (nat list \<times> 's) option" where
  "grab unused 0 s = Some ([], s)"
| "grab unused (Suc n) s = do {
     (i, s1) \<leftarrow> unused s True;
     (is, s2) \<leftarrow> grab unused n s1;
     Some (nat i # is, s2) }"

locale resource_owner =
  fixes inv :: "'s \<Rightarrow> bool"
    and owned :: "'s \<Rightarrow> nat set"
    and valid :: "nat set"
    and claim :: "'s \<Rightarrow> nat \<Rightarrow> 's option"
    and unclaim :: "'s \<Rightarrow> nat \<Rightarrow> 's option"
  assumes claim_free: "inv s \<Longrightarrow> i \<in> valid \<Longrightarrow> i \<notin> owned s \<Longrightarrow>
      \<exists>s'. claim s i = Some s' \<and> inv s' \<and> owned s' = insert i (owned s)"
    and claim_taken: "inv s \<Longrightarrow> i \<in> valid \<Longrightarrow> i \<in> owned s \<Longrightarrow> claim s i = None"
    and unclaim_taken: "inv s \<Longrightarrow> i \<in> valid \<Longrightarrow> i \<in> owned s \<Longrightarrow>
      \<exists>s'. unclaim s i = Some s' \<and> inv s' \<and> owned s' = owned s - {i}"
begin

lemma claim_unclaim:
  assumes "inv s" "i \<in> valid" "i \<notin> owned s"
  shows "\<exists>s1 s2. claim s i = Some s1 \<and> unclaim s1 i = Some s2 \<and> inv s2 \<and> owned s2 = owned s"
  using claim_free [OF assms] unclaim_taken assms(2,3) by (metis Diff_insert_absorb insertI1)

lemma claim_Some_iff:
  "inv s \<Longrightarrow> i \<in> valid \<Longrightarrow> claim s i \<noteq> None \<longleftrightarrow> i \<notin> owned s"
  using claim_free claim_taken by fastforce

lemma claim_SomeD:
  "inv s \<Longrightarrow> i \<in> valid \<Longrightarrow> claim s i = Some s' \<Longrightarrow>
     i \<notin> owned s \<and> inv s' \<and> owned s' = insert i (owned s)"
  using claim_free claim_taken by fastforce

text \<open>Claiming a mask is all or nothing: it stops exactly when one of its numbers is taken.\<close>

lemma claim_mask_loop_spec:
  "inv s \<Longrightarrow> mask_numbers i m \<subseteq> valid \<Longrightarrow>
    (case claim_mask_loop claim s i m of
       None \<Rightarrow> mask_numbers i m \<inter> owned s \<noteq> {}
     | Some s' \<Rightarrow> mask_numbers i m \<inter> owned s = {} \<and> inv s' \<and> owned s' = owned s \<union> mask_numbers i m)"
proof (induction "unat m" arbitrary: s i m rule: less_induct)
  case less
  let ?N = "mask_numbers (i + 1) (drop_bit 1 m)"
  have i: "i \<notin> ?N" by (auto dest: mask_numbers_less)
  show ?case
  proof (cases "m = 0")
    case True
    with less.prems(1) show ?thesis
      by (simp only: True claim_mask_loop.simps [of claim s i 0]) simp
  next
    case False
    then have "unat (drop_bit 1 m) < unat m"
      by (simp add: drop_bit_eq_div unat_div unat_gt_0)
    note IH = less.hyps [OF this, where i = "i + 1"]
    show ?thesis
    proof (cases "m AND 1 = 0")
      case True
      then have N: "mask_numbers i m = ?N" by (subst mask_numbers_step) simp
      have "claim_mask_loop claim s i m = claim_mask_loop claim s (i + 1) (drop_bit 1 m)"
        using \<open>m \<noteq> 0\<close> True by (simp add: claim_mask_loop.simps [of claim s i m])
      with IH [OF less.prems(1)] less.prems(2) show ?thesis by (simp only: N)
    next
      case m1: False
      then have N: "mask_numbers i m = insert i ?N" by (subst mask_numbers_step) simp
      with less.prems have iv: "i \<in> valid" and Nv: "?N \<subseteq> valid" by auto
      have step: "claim_mask_loop claim s i m =
          Option.bind (claim s i) (\<lambda>s'. claim_mask_loop claim s' (i + 1) (drop_bit 1 m))"
        using \<open>m \<noteq> 0\<close> m1 by (simp add: claim_mask_loop.simps [of claim s i m])
      show ?thesis
      proof (cases "i \<in> owned s")
        case True
        with step claim_taken [OF less.prems(1) iv] show ?thesis by (simp add: N split: option.split)
      next
        case False
        from claim_free [OF less.prems(1) iv False] obtain s1 where
          s1: "claim s i = Some s1" "inv s1" "owned s1 = insert i (owned s)" by blast
        from IH [OF s1(2) Nv] i False show ?thesis
          by (simp add: N step s1 split: option.splits)
      qed
    qed
  qed
qed

end

locale resource_pool = resource_owner inv owned valid claim unclaim
  for inv :: "'s \<Rightarrow> bool"
    and owned :: "'s \<Rightarrow> nat set"
    and valid :: "nat set"
    and claim :: "'s \<Rightarrow> nat \<Rightarrow> 's option"
    and unclaim :: "'s \<Rightarrow> nat \<Rightarrow> 's option" +
  fixes lo :: nat
    and hi :: nat
    and claim_unused :: "'s \<Rightarrow> bool \<Rightarrow> (int \<times> 's) option"
  assumes unused_free: "inv s \<Longrightarrow> lo \<le> i \<Longrightarrow> i \<le> hi \<Longrightarrow> i \<notin> owned s \<Longrightarrow> {lo..<i} \<subseteq> owned s \<Longrightarrow>
      \<exists>s'. claim_unused s required = Some (int i, s') \<and> inv s' \<and> owned s' = insert i (owned s)"
    and unused_full: "inv s \<Longrightarrow> {lo..hi} \<subseteq> owned s \<Longrightarrow>
      claim_unused s required = (if required then None else Some (- 1, s))"
begin

lemma least_free:
  assumes "\<not> {lo..hi} \<subseteq> owned s"
  obtains i where "lo \<le> i" "i \<le> hi" "i \<notin> owned s" "{lo..<i} \<subseteq> owned s"
proof -
  let ?P = "\<lambda>i. lo \<le> i \<and> i \<le> hi \<and> i \<notin> owned s"
  from assms have ex: "\<exists>i. ?P i" by auto
  have "{lo..<Least ?P} \<subseteq> owned s"
  proof
    fix j assume j: "j \<in> {lo..<Least ?P}"
    then have "\<not> ?P j" by (auto dest: not_less_Least)
    with j LeastI_ex [OF ex] show "j \<in> owned s" by auto
  qed
  with LeastI_ex [OF ex] show thesis by (blast intro: that)
qed

lemma unused_cases:
  assumes "inv s"
  obtains (full) "{lo..hi} \<subseteq> owned s" "claim_unused s True = None"
    | (free) i s' where "claim_unused s True = Some (int i, s')" "inv s'" "i \<in> {lo..hi}"
        "i \<notin> owned s" "owned s' = insert i (owned s)"
proof (cases "{lo..hi} \<subseteq> owned s")
  case True
  with unused_full [OF assms True] show thesis by (auto intro: full)
next
  case False
  then obtain i where i: "lo \<le> i" "i \<le> hi" "i \<notin> owned s" "{lo..<i} \<subseteq> owned s"
    by (rule least_free)
  from unused_free [OF assms i, of True] i show thesis by (auto intro: free)
qed

text \<open>Whatever a run of claims hands out is distinct, in range, and was free before.\<close>

lemma grab_distinct:
  "inv s \<Longrightarrow> grab claim_unused n s = Some (is, s') \<Longrightarrow>
     inv s' \<and> length is = n \<and> distinct is \<and> set is \<subseteq> {lo..hi} - owned s
     \<and> owned s' = owned s \<union> set is"
proof (induction n arbitrary: s "is" s')
  case 0
  then show ?case by simp
next
  case (Suc n)
  from Suc.prems(1) show ?case
  proof (cases rule: unused_cases)
    case full
    with Suc.prems(2) show ?thesis by simp
  next
    case (free i s1)
    with Suc.prems(2) obtain js where js: "grab claim_unused n s1 = Some (js, s')" "is = i # js"
      by (auto split: bind_splits)
    from Suc.IH [OF free(2) js(1)] js(2) free show ?thesis by auto
  qed
qed

text \<open>The pool grants exactly as many requests as it has free resources.\<close>

lemma grab_succeeds_iff:
  "inv s \<Longrightarrow> grab claim_unused n s \<noteq> None \<longleftrightarrow> n \<le> card ({lo..hi} - owned s)"
proof (induction n arbitrary: s)
  case 0
  then show ?case by simp
next
  case (Suc n)
  from Suc.prems show ?case
  proof (cases rule: unused_cases)
    case full
    then have "card ({lo..hi} - owned s) = 0" by simp
    then have "\<not> Suc n \<le> card ({lo..hi} - owned s)" by linarith
    with full(2) show ?thesis by simp
  next
    case (free i s1)
    have "{lo..hi} - owned s = insert i ({lo..hi} - owned s1)" "i \<notin> {lo..hi} - owned s1"
      using free by auto
    then have "card ({lo..hi} - owned s) = Suc (card ({lo..hi} - owned s1))" by simp
    moreover have "grab claim_unused (Suc n) s \<noteq> None \<longleftrightarrow> grab claim_unused n s1 \<noteq> None"
      using free(1) by (auto split: bind_splits)
    ultimately show ?thesis using Suc.IH [OF free(2)] by simp
  qed
qed

end

section \<open>Hardware blocks built on a claimed-bit array\<close>

text \<open>
  What the blocks have in common: a static bit array inside the block's state
  (\<open>get\<close>, \<open>put\<close>), the block's resources at the bits \<open>base\<close> onwards, and three calls that
  are the \<open>hw_claim_*\<close> operations on that array. Releasing may also reset the resource
  itself first (\<open>rel\<close>).
\<close>

locale claim_bits =
  fixes inv :: "'s \<Rightarrow> bool"
    and get :: "'s \<Rightarrow> u8 list"
    and put :: "u8 list \<Rightarrow> 's \<Rightarrow> 's"
    and rel :: "nat \<Rightarrow> 's \<Rightarrow> 's"
    and nbytes :: nat
    and base :: nat
    and count :: nat
    and claim :: "'s \<Rightarrow> nat \<Rightarrow> 's option"
    and unclaim :: "'s \<Rightarrow> nat \<Rightarrow> 's option"
  assumes room: "base + count \<le> 8 * nbytes"
    and len: "inv s \<Longrightarrow> length (get s) = nbytes"
    and get_put: "get (put b s) = b"
    and put_get: "put (get s) s = s"
    and inv_put: "inv s \<Longrightarrow> length b = nbytes \<Longrightarrow> inv (put b s)"
    and get_rel: "get (rel i s) = get s"
    and inv_rel: "inv s \<Longrightarrow> inv (rel i s)"
    and claim_eq: "inv s \<Longrightarrow> i < count \<Longrightarrow>
      claim s i = map_option (\<lambda>b. put b s) (hw_claim_or_assert (get s) (base + i))"
    and unclaim_eq: "inv s \<Longrightarrow> i < count \<Longrightarrow>
      unclaim s i = map_option (\<lambda>b. put b (rel i s)) (hw_claim_clear (get s) (base + i))"
begin

definition owned :: "'s \<Rightarrow> nat set" where
  "owned s = {i. base + i \<in> claimed_set (get s)}"

lemma index_in: "inv s \<Longrightarrow> i < count \<Longrightarrow> base + i < 8 * length (get s)"
  using room len by fastforce

lemma range_owned:
  assumes "{lo..<i} \<subseteq> owned s"
  shows "{base + lo..<base + i} \<subseteq> claimed_set (get s)"
proof
  fix x assume x: "x \<in> {base + lo..<base + i}"
  then have "x - base \<in> {lo..<i}" by auto
  with assms have "base + (x - base) \<in> claimed_set (get s)" by (auto simp: owned_def)
  with x show "x \<in> claimed_set (get s)" by simp
qed

sublocale resource_owner inv owned "{..<count}" claim unclaim
proof (unfold_locales, goal_cases)
  case (1 s i)
  then have "base + i < 8 * length (get s)" "base + i \<notin> claimed_set (get s)"
    by (auto simp: index_in owned_def)
  from hw_claim_or_assert_free [OF this] 1 show ?case
    by (auto simp: claim_eq owned_def get_put len inv_put)
next
  case (2 s i)
  then show ?case by (simp add: claim_eq owned_def hw_claim_or_assert_taken)
next
  case (3 s i)
  then have "base + i \<in> claimed_set (get s)" by (simp add: owned_def)
  from hw_claim_clear_eq [OF this] 3 show ?case
    by (auto simp: unclaim_eq owned_def get_put get_rel len inv_put inv_rel)
qed

text \<open>Bits outside the block's own range are untouched.\<close>

lemma claim_others:
  assumes "inv s" "i < count" "claim s i = Some s'" "j < base \<or> base + count \<le> j"
  shows "inv s' \<and> (j \<in> claimed_set (get s') \<longleftrightarrow> j \<in> claimed_set (get s))"
proof -
  from assms(1-3) obtain b where b: "hw_claim_or_assert (get s) (base + i) = Some b" "s' = put b s"
    by (auto simp: claim_eq)
  then have free: "base + i \<notin> claimed_set (get s)" by (auto dest: hw_claim_or_assert_taken)
  from hw_claim_or_assert_free [OF index_in [OF assms(1,2)] this] b(1) have "length b = nbytes"
      "claimed_set b = insert (base + i) (claimed_set (get s))"
    by (simp_all add: len [OF assms(1)])
  moreover have "j \<noteq> base + i" using assms(2,4) by auto
  ultimately show ?thesis using b(2) assms(1) by (simp add: get_put inv_put)
qed

lemma unclaim_others:
  assumes "inv s" "i < count" "unclaim s i = Some s'" "j < base \<or> base + count \<le> j"
  shows "inv s' \<and> (j \<in> claimed_set (get s') \<longleftrightarrow> j \<in> claimed_set (get s))"
proof -
  from assms(1-3) obtain b where b: "hw_claim_clear (get s) (base + i) = Some b"
      "s' = put b (rel i s)"
    by (auto simp: unclaim_eq)
  then have "base + i \<in> claimed_set (get s)"
    using hw_claim_clear_free [OF index_in [OF assms(1,2)]] by fastforce
  from hw_claim_clear_eq [OF this] b(1) have "length b = nbytes"
      "claimed_set b = claimed_set (get s) - {base + i}"
    by (simp_all add: len [OF assms(1)])
  moreover have "j \<noteq> base + i" using assms(2,4) by auto
  ultimately show ?thesis using b(2) assms(1) by (simp add: get_put inv_put inv_rel)
qed

end

locale claim_client = claim_bits inv get put rel nbytes base count claim unclaim
  for inv :: "'s \<Rightarrow> bool"
    and get :: "'s \<Rightarrow> u8 list"
    and put :: "u8 list \<Rightarrow> 's \<Rightarrow> 's"
    and rel :: "nat \<Rightarrow> 's \<Rightarrow> 's"
    and nbytes :: nat
    and base :: nat
    and count :: nat
    and claim :: "'s \<Rightarrow> nat \<Rightarrow> 's option"
    and unclaim :: "'s \<Rightarrow> nat \<Rightarrow> 's option" +
  fixes lo :: nat
    and hi :: nat
    and claim_unused :: "'s \<Rightarrow> bool \<Rightarrow> (int \<times> 's) option"
  assumes range: "hi < count"
    and unused_eq: "inv s \<Longrightarrow>
      claim_unused s required = map_option (\<lambda>(n, b). (if n < 0 then - 1 else n - int base, put b s))
        (hw_claim_unused_from_range (get s) required (base + lo) (base + hi))"
begin

sublocale resource_pool inv owned "{..<count}" claim unclaim lo hi claim_unused
proof (unfold_locales, goal_cases)
  case (1 s i required)
  then have "base + hi < 8 * length (get s)" using range by (intro index_in)
  with 1 have "\<exists>b. hw_claim_unused_from_range (get s) required (base + lo) (base + hi)
      = Some (int (base + i), b) \<and> length b = length (get s)
      \<and> claimed_set b = insert (base + i) (claimed_set (get s))"
    by (intro hw_claim_unused_first_free range_owned) (auto simp: owned_def)
  then obtain b where b: "hw_claim_unused_from_range (get s) required (base + lo) (base + hi)
      = Some (int (base + i), b)" "length b = length (get s)"
      "claimed_set b = insert (base + i) (claimed_set (get s))"
    by blast
  then show ?case using 1(1) by (auto simp: unused_eq owned_def get_put len inv_put)
next
  case (2 s required)
  then have "base + hi < 8 * length (get s)" using range by (intro index_in)
  moreover have "{base + lo..base + hi} \<subseteq> claimed_set (get s)"
    using range_owned [of lo "Suc hi" s] 2(2) by (simp add: atLeastLessThanSuc_atLeastAtMost)
  ultimately show ?case using 2(1)
    by (simp add: unused_eq hw_claim_unused_all_taken put_get)
qed

lemma unused_others:
  assumes "inv s" "claim_unused s required = Some (n, s')" "j < base \<or> base + count \<le> j"
  shows "inv s' \<and> (j \<in> claimed_set (get s') \<longleftrightarrow> j \<in> claimed_set (get s))"
proof (cases "{lo..hi} \<subseteq> owned s")
  case True
  from unused_full [OF assms(1) True, of required] assms(1,2) show ?thesis
    by (cases required) simp_all
next
  case False
  then obtain i where i: "lo \<le> i" "i \<le> hi" "i \<notin> owned s" "{lo..<i} \<subseteq> owned s"
    by (rule least_free)
  have hi: "base + hi < 8 * length (get s)" using range assms(1) by (intro index_in)
  have "\<exists>b. hw_claim_unused_from_range (get s) required (base + lo) (base + hi)
      = Some (int (base + i), b) \<and> length b = length (get s)
      \<and> claimed_set b = insert (base + i) (claimed_set (get s))"
    using i hi by (intro hw_claim_unused_first_free range_owned) (auto simp: owned_def)
  then obtain b where b: "hw_claim_unused_from_range (get s) required (base + lo) (base + hi)
      = Some (int (base + i), b)" "length b = nbytes"
      "claimed_set b = insert (base + i) (claimed_set (get s))"
    using len [OF assms(1)] by auto
  then have "s' = put b s" using assms(1,2) by (simp add: unused_eq)
  moreover have "j \<noteq> base + i" using assms(3) i range by auto
  ultimately show ?thesis using b assms(1) by (simp add: get_put inv_put)
qed

end

end
