(* ===== verification/Irq.thy ===== *)
theory Irq
  imports Claim "HOL-Library.Signed_Division"
begin

text \<open>
  The interrupt layer of one core (\<open>SDK/hardware/irq.c\<close>, \<open>irq_handler_chain.S\<close>): the
  vector table, the NVIC registers it writes, and the chains of shared handlers, which are
  slots of executable Thumb code. Code addresses are 32 bit words; \<open>slots_base\<close> and
  \<open>unhandled\<close> are the addresses the linker gives to \<open>irq_handler_chain_slots\<close> and
  \<open>\_\_unhandled\_user\_irq\<close>. The operations run under a hardware spin lock with interrupts
  off, so each is one step.
\<close>

section \<open>State\<close>

record irq_slot =
  inst1 :: u16
  inst2 :: u16
  inst3 :: u16
  link :: u8
  priority :: u8
  handler :: u32

record irq_state =
  vtable :: "u32 list"
  nvic_enabled :: u32
  nvic_pending :: u32
  nvic_ipr :: "u32 list"
  slots :: "irq_slot list"
  free_slot_head :: u8
  current_exception :: nat
  user_irq_claimed :: "u8 list list"
  core_num :: nat
  slots_base :: u32
  unhandled :: u32

definition NUM_IRQS :: nat where "NUM_IRQS = 32"
definition NUM_USER_IRQS :: nat where "NUM_USER_IRQS = 6"
definition PICO_MAX_SHARED_IRQ_HANDLERS :: nat where "PICO_MAX_SHARED_IRQ_HANDLERS = 4"
definition FIRST_USER_IRQ :: nat where "FIRST_USER_IRQ = NUM_IRQS - NUM_USER_IRQS"

definition check_irq_param :: "nat \<Rightarrow> unit option" where
  "check_irq_param num = c_assert (num < NUM_IRQS)"

section \<open>NVIC and vector table\<close>

definition add_thumb_bit :: "u32 \<Rightarrow> u32" where
  "add_thumb_bit a = a OR 1"

definition remove_thumb_bit :: "u32 \<Rightarrow> u32" where
  "remove_thumb_bit a = a AND NOT 1"

text \<open>The NVIC set and clear registers act on the enabled and the pending bits.\<close>

definition irq_set_mask_enabled :: "irq_state \<Rightarrow> u32 \<Rightarrow> bool \<Rightarrow> irq_state" where
  "irq_set_mask_enabled s bits enabled =
     (if enabled
      then s\<lparr>nvic_pending := nvic_pending s AND NOT bits, nvic_enabled := nvic_enabled s OR bits\<rparr>
      else s\<lparr>nvic_enabled := nvic_enabled s AND NOT bits\<rparr>)"

definition irq_set_enabled :: "irq_state \<Rightarrow> nat \<Rightarrow> bool \<Rightarrow> irq_state option" where
  "irq_set_enabled s num enabled = do {
     check_irq_param num;
     Some (irq_set_mask_enabled s (push_bit num 1) enabled) }"

definition irq_is_enabled :: "irq_state \<Rightarrow> nat \<Rightarrow> bool option" where
  "irq_is_enabled s num = do {
     check_irq_param num;
     Some (0 \<noteq> (push_bit num 1 AND nvic_enabled s)) }"

definition irq_set_pending :: "irq_state \<Rightarrow> nat \<Rightarrow> irq_state option" where
  "irq_set_pending s num = do {
     check_irq_param num;
     Some (s\<lparr>nvic_pending := nvic_pending s OR push_bit num 1\<rparr>) }"

definition irq_clear :: "irq_state \<Rightarrow> nat \<Rightarrow> irq_state" where
  "irq_clear s int_num = s\<lparr>nvic_pending := nvic_pending s AND NOT (push_bit (int_num AND 0x1F) 1)\<rparr>"

definition set_raw_irq_handler_and_unlock :: "irq_state \<Rightarrow> nat \<Rightarrow> u32 \<Rightarrow> irq_state option" where
  "set_raw_irq_handler_and_unlock s num h = do {
     v \<leftarrow> c_write (vtable s) (16 + num) h;
     Some (s\<lparr>vtable := v\<rparr>) }"

text \<open>A slot has 12 bytes, the word difference wraps.\<close>

definition is_shared_irq_raw_handler :: "irq_state \<Rightarrow> u32 \<Rightarrow> bool" where
  "is_shared_irq_raw_handler s raw_handler \<longleftrightarrow>
     raw_handler - slots_base s < of_nat (12 * length (slots s))"

definition irq_get_vtable_handler :: "irq_state \<Rightarrow> nat \<Rightarrow> u32 option" where
  "irq_get_vtable_handler s num = do {
     check_irq_param num;
     c_read (vtable s) (16 + num) }"

definition irq_has_shared_handler :: "irq_state \<Rightarrow> nat \<Rightarrow> bool option" where
  "irq_has_shared_handler s irq_num = do {
     check_irq_param irq_num;
     h \<leftarrow> irq_get_vtable_handler s irq_num;
     Some (h \<noteq> 0 \<and> is_shared_irq_raw_handler s h) }"

definition irq_set_exclusive_handler :: "irq_state \<Rightarrow> nat \<Rightarrow> u32 \<Rightarrow> irq_state option" where
  "irq_set_exclusive_handler s num h = do {
     check_irq_param num;
     current \<leftarrow> irq_get_vtable_handler s num;
     c_assert (current = unhandled s \<or> current = h);
     set_raw_irq_handler_and_unlock s num h }"

text \<open>The result 0 is \<open>NULL\<close>.\<close>

definition irq_get_exclusive_handler :: "irq_state \<Rightarrow> nat \<Rightarrow> u32 option" where
  "irq_get_exclusive_handler s num = do {
     check_irq_param num;
     current \<leftarrow> irq_get_vtable_handler s num;
     if current = unhandled s \<or> is_shared_irq_raw_handler s current then Some 0 else Some current }"

section \<open>Thumb branches and slot addresses\<close>

definition make_branch :: "u32 \<Rightarrow> u32 \<Rightarrow> u16 option" where
  "make_branch ui_from ui_to = do {
     let delta = ui_to - ui_from - 4;
     c_assert (sint delta \<ge> - 2048 \<and> sint delta \<le> 2046 \<and> delta AND 1 = 0);
     Some (ucast (0xe000 OR (signed_drop_bit 1 delta AND 0x7ff))) }"

text \<open>The two half words \<open>from[0]\<close> and \<open>from[1]\<close>.\<close>

definition insert_branch_and_link :: "u32 \<Rightarrow> u32 \<Rightarrow> (u16 \<times> u16) option" where
  "insert_branch_and_link ui_from ui_to = do {
     let delta = (ui_to - ui_from - 4) div 2;
     c_assert (drop_bit 11 delta = 0);
     Some (ucast (0xf000 OR (drop_bit 11 delta AND 0x7ff)), ucast (0xf800 OR (delta AND 0x7ff))) }"

text \<open>The instruction \<open>inst\<close> at address \<open>a\<close>; pointer arithmetic on half words.\<close>

definition resolve_branch :: "u32 \<Rightarrow> u16 \<Rightarrow> u32 option" where
  "resolve_branch a inst = do {
     c_assert (0x1c = drop_bit 11 inst);
     let i_addr = sint (push_bit 21 (ucast inst :: u32)) sdiv 2 ^ 21;
     Some (a + 4 + 2 * word_of_int i_addr) }"

text \<open>
  The four Thumb instructions: \<open>adcs\<close> adds the carry of \<open>subs\<close>, which is 1 when the
  subtraction does not borrow; \<open>muls\<close> keeps 32 bits.
\<close>

definition slot_diff :: "u32 \<Rightarrow> u32 \<Rightarrow> u8" where
  "slot_diff to from =
     (let d = to - from; d2 = d + d + (if from \<le> to then 1 else 0)
      in ucast (drop_bit 20 (0xaaaa * d2)))"

definition slot_addr :: "irq_state \<Rightarrow> nat \<Rightarrow> u32" where
  "slot_addr s k = slots_base s + of_nat (12 * k)"

definition get_slot_index :: "irq_state \<Rightarrow> u32 \<Rightarrow> u8" where
  "get_slot_index s slot = slot_diff slot (slots_base s)"

text \<open>The index of the slot an address names: the slot the C pointer stands for.\<close>

definition slot_of :: "irq_state \<Rightarrow> u32 \<Rightarrow> nat" where
  "slot_of s a = unat (a - slots_base s) div 12"

text \<open>The two code fragments follow the slots; the first has five instructions.\<close>

definition irq_handler_chain_first_slot :: "irq_state \<Rightarrow> u32" where
  "irq_handler_chain_first_slot s = slots_base s + of_nat (12 * length (slots s))"

definition irq_handler_chain_remove_tail :: "irq_state \<Rightarrow> u32" where
  "irq_handler_chain_remove_tail s = irq_handler_chain_first_slot s + 10"

definition inst2_addr :: "irq_state \<Rightarrow> nat \<Rightarrow> u32" where
  "inst2_addr s k = slot_addr s k + 2"

definition inst3_addr :: "irq_state \<Rightarrow> nat \<Rightarrow> u32" where
  "inst3_addr s k = slot_addr s k + 4"

definition link_index :: "irq_slot \<Rightarrow> nat option" where
  "link_index c = (if sint (link c) < 0 then None else Some (nat (sint (link c))))"

definition put_slot :: "irq_state \<Rightarrow> nat \<Rightarrow> irq_slot \<Rightarrow> irq_state option" where
  "put_slot s k c = do {
     cs \<leftarrow> c_write (slots s) k c;
     Some (s\<lparr>slots := cs\<rparr>) }"

section \<open>Adding a shared handler\<close>

text \<open>\<open>while (cur_slot->priority > order_priority)\<close>; a cyclic chain would not end.\<close>

partial_function (option) chain_find_insert ::
    "irq_slot list \<Rightarrow> u8 \<Rightarrow> nat option \<Rightarrow> nat \<Rightarrow> (nat option \<times> nat) option" where
  "chain_find_insert cs order_priority prev cur = do {
     c \<leftarrow> c_read cs cur;
     if priority c > order_priority
     then case link_index c of
         None \<Rightarrow> Some (Some cur, cur)
       | Some k \<Rightarrow> chain_find_insert cs order_priority (Some cur) k
     else Some (prev, cur) }"

declare chain_find_insert.simps [code]

definition irq_add_shared_handler :: "irq_state \<Rightarrow> nat \<Rightarrow> u32 \<Rightarrow> u8 \<Rightarrow> irq_state option" where
  "irq_add_shared_handler s num h order_priority = do {
     check_irq_param num;
     c_assert (sint (free_slot_head s) \<ge> 0);
     let slot = nat (sint (free_slot_head s));
     let slot_index = free_slot_head s;
     sl \<leftarrow> c_read (slots s) slot;
     let s1 = s\<lparr>free_slot_head := link sl\<rparr>;
     vtable_handler \<leftarrow> c_read (vtable s1) (16 + num);
     if \<not> is_shared_irq_raw_handler s1 vtable_handler then do {
       c_assert (vtable_handler = unhandled s1);
       b \<leftarrow> make_branch (inst2_addr s1 slot) (irq_handler_chain_first_slot s1);
       s2 \<leftarrow> put_slot s1 slot \<lparr>inst1 = 0xa100, inst2 = b, inst3 = 0xbd00, link = - 1,
         priority = order_priority, handler = h\<rparr>;
       set_raw_irq_handler_and_unlock s2 num (add_thumb_bit (slot_addr s slot)) }
     else do {
       c_assert ((vtable_handler - slots_base s1 - 1) mod 12 = 0);
       let existing = slot_of s1 (remove_thumb_bit vtable_handler);
       (prev, cur) \<leftarrow> chain_find_insert (slots s1) order_priority None existing;
       case prev of
         Some p \<Rightarrow> do {
           ps \<leftarrow> c_read (slots s1) p;
           b \<leftarrow> (if sint (link ps) \<ge> 0
                then do { t \<leftarrow> resolve_branch (inst3_addr s1 p) (inst3 ps);
                          make_branch (inst3_addr s1 slot) t }
                else Some 0xbd00);
           pb \<leftarrow> make_branch (inst3_addr s1 p) (slot_addr s1 slot);
           s2 \<leftarrow> put_slot s1 p (ps\<lparr>inst3 := pb, link := slot_index\<rparr>);
           s3 \<leftarrow> put_slot s2 slot \<lparr>inst1 = 0x4801, inst2 = 0x4780, inst3 = b, link = link ps,
             priority = order_priority, handler = h\<rparr>;
           set_raw_irq_handler_and_unlock s3 num vtable_handler }
       | None \<Rightarrow> do {
           b2 \<leftarrow> make_branch (inst2_addr s1 slot) (irq_handler_chain_first_slot s1);
           b3 \<leftarrow> make_branch (inst3_addr s1 slot) (slot_addr s1 existing);
           s2 \<leftarrow> put_slot s1 slot \<lparr>inst1 = 0xa100, inst2 = b2, inst3 = b3,
             link = get_slot_index s1 (slot_addr s1 existing), priority = order_priority, handler = h\<rparr>;
           e \<leftarrow> c_read (slots s2) existing;
           s3 \<leftarrow> put_slot s2 existing (e\<lparr>inst1 := 0x4801, inst2 := 0x4780\<rparr>);
           set_raw_irq_handler_and_unlock s3 num (add_thumb_bit (slot_addr s slot)) } } }"

section \<open>Removing a handler\<close>

text \<open>\<open>while (to_free_slot->handler != handler)\<close>\<close>

partial_function (option) chain_find_handler ::
    "irq_slot list \<Rightarrow> u32 \<Rightarrow> nat option \<Rightarrow> nat \<Rightarrow> (nat option \<times> nat) option" where
  "chain_find_handler cs h prev cur = do {
     c \<leftarrow> c_read cs cur;
     if handler c \<noteq> h
     then case link_index c of
         None \<Rightarrow> Some (Some cur, cur)
       | Some k \<Rightarrow> chain_find_handler cs h (Some cur) k
     else Some (prev, cur) }"

declare chain_find_handler.simps [code]

text \<open>The body of the search result: unlink slot \<open>k\<close> with predecessor \<open>prev\<close>; the new vector too.\<close>

definition unlink_slot ::
    "irq_state \<Rightarrow> u32 \<Rightarrow> nat option \<Rightarrow> nat \<Rightarrow> (u32 \<times> irq_state) option" where
  "unlink_slot s vtable_handler prev k = do {
     c \<leftarrow> c_read (slots s) k;
     case link_index c of
       Some nx \<Rightarrow> do {
         n \<leftarrow> c_read (slots s) nx;
         b \<leftarrow> (if sint (link n) \<ge> 0
              then do { t \<leftarrow> resolve_branch (inst3_addr s nx) (inst3 n);
                        make_branch (inst3_addr s k) t }
              else Some 0xbd00);
         s1 \<leftarrow> put_slot s k (c\<lparr>handler := handler n, priority := priority n, link := link n, inst3 := b\<rparr>);
         s2 \<leftarrow> put_slot s1 nx (n\<lparr>link := free_slot_head s\<rparr>);
         Some (vtable_handler, s2\<lparr>free_slot_head := link c\<rparr>) }
     | None \<Rightarrow>
         if current_exception s = 0 then do {
           (v, s1) \<leftarrow> (case prev of
               Some p \<Rightarrow> do {
                 ps \<leftarrow> c_read (slots s) p;
                 s1 \<leftarrow> put_slot s p (ps\<lparr>link := - 1, inst3 := 0xbd00\<rparr>);
                 Some (vtable_handler, s1) }
             | None \<Rightarrow> Some (unhandled s, s));
           c1 \<leftarrow> c_read (slots s1) k;
           s2 \<leftarrow> put_slot s1 k (c1\<lparr>link := free_slot_head s\<rparr>);
           Some (v, s2\<lparr>free_slot_head := get_slot_index s (slot_addr s k)\<rparr>) }
         else do {
           (b0, b1) \<leftarrow> insert_branch_and_link (inst3_addr s k) (irq_handler_chain_remove_tail s);
           s1 \<leftarrow> put_slot s k (c\<lparr>inst3 := b0, link := ucast b1, priority := ucast (drop_bit 8 b1)\<rparr>);
           Some (vtable_handler, s1) } }"

definition irq_remove_handler :: "irq_state \<Rightarrow> nat \<Rightarrow> u32 \<Rightarrow> irq_state option" where
  "irq_remove_handler s num h = do {
     vtable_handler \<leftarrow> c_read (vtable s) (16 + num);
     if vtable_handler \<noteq> unhandled s \<and> vtable_handler \<noteq> h then
       if is_shared_irq_raw_handler s vtable_handler then do {
         was_enabled \<leftarrow> irq_is_enabled s num;
         s1 \<leftarrow> irq_set_enabled s num False;
         c_assert (current_exception s = 0 \<or> current_exception s = num + 16);
         (prev, k) \<leftarrow> chain_find_handler (slots s1) h None (slot_of s1 (remove_thumb_bit vtable_handler));
         c \<leftarrow> c_read (slots s1) k;
         c_assert (handler c = h);
         (v, s2) \<leftarrow> unlink_slot s1 vtable_handler prev k;
         s3 \<leftarrow> irq_set_enabled s2 num was_enabled;
         set_raw_irq_handler_and_unlock s3 num v }
       else set_raw_irq_handler_and_unlock s num vtable_handler
     else set_raw_irq_handler_and_unlock s num (unhandled s) }"

text \<open>\<open>for(uint i=0;i<count_of(irq_handler_chain_slots);i++)\<close>: the slot that links to \<open>k\<close>.\<close>

fun find_link_to :: "irq_slot list \<Rightarrow> u8 \<Rightarrow> nat \<Rightarrow> nat option" where
  "find_link_to [] k i = None"
| "find_link_to (c # cs) k i = (if link c = k then Some i else find_link_to cs k (i + 1))"

definition irq_add_tail_to_free_list :: "irq_state \<Rightarrow> nat \<Rightarrow> irq_state option" where
  "irq_add_tail_to_free_list s slot = do {
     let slot_handler = add_thumb_bit (slot_addr s slot);
     c_assert (is_shared_irq_raw_handler s slot_handler);
     c_assert (current_exception s \<noteq> 0);
     let slot_index = get_slot_index s (slot_addr s slot);
     v \<leftarrow> c_read (vtable s) (current_exception s);
     s1 \<leftarrow> (if slot_handler = v then do {
              vt \<leftarrow> c_write (vtable s) (current_exception s) (unhandled s);
              Some (s\<lparr>vtable := vt\<rparr>) }
            else do {
              i \<leftarrow> find_link_to (slots s) slot_index 0;
              ci \<leftarrow> c_read (slots s) i;
              put_slot s i (ci\<lparr>link := - 1, inst3 := 0xbd00\<rparr>) });
     c \<leftarrow> c_read (slots s1) slot;
     s2 \<leftarrow> put_slot s1 slot (c\<lparr>link := free_slot_head s1\<rparr>);
     Some (s2\<lparr>free_slot_head := slot_index\<rparr>) }"

section \<open>Priorities and user interrupts\<close>

definition irq_set_priority :: "irq_state \<Rightarrow> nat \<Rightarrow> u8 \<Rightarrow> irq_state option" where
  "irq_set_priority s num hardware_priority = do {
     check_irq_param num;
     let sh = 8 * (num AND 3);
     p \<leftarrow> c_read (nvic_ipr s) (num div 4);
     ps \<leftarrow> c_write (nvic_ipr s) (num div 4)
       ((p AND NOT (push_bit sh 0xff)) OR push_bit sh (ucast hardware_priority));
     Some (s\<lparr>nvic_ipr := ps\<rparr>) }"

definition irq_get_priority :: "irq_state \<Rightarrow> nat \<Rightarrow> u8 option" where
  "irq_get_priority s num = do {
     check_irq_param num;
     p \<leftarrow> c_read (nvic_ipr s) (num div 4);
     Some (ucast (drop_bit (8 * (num AND 3)) p)) }"

text \<open>The default configuration has \<open>PICO_DEFAULT_IRQ_PRIORITY\<close> 0x80.\<close>

definition irq_init_priorities :: "irq_state \<Rightarrow> irq_state" where
  "irq_init_priorities s = s\<lparr>nvic_ipr :=
     replicate (NUM_IRQS div 4) ((0x80 AND 0xff) * 0x1010101) @ drop (NUM_IRQS div 4) (nvic_ipr s)\<rparr>"

definition get_user_irq_claim_index :: "nat \<Rightarrow> nat option" where
  "get_user_irq_claim_index irq_num = do {
     c_assert (\<not> (irq_num < FIRST_USER_IRQ \<or> irq_num \<ge> NUM_IRQS));
     Some (NUM_IRQS - irq_num - 1) }"

definition user_irq_claim :: "irq_state \<Rightarrow> nat \<Rightarrow> irq_state option" where
  "user_irq_claim s irq_num = do {
     i \<leftarrow> get_user_irq_claim_index irq_num;
     b \<leftarrow> c_read (user_irq_claimed s) (core_num s);
     b' \<leftarrow> hw_claim_or_assert b i;
     Some (s\<lparr>user_irq_claimed := (user_irq_claimed s)[core_num s := b']\<rparr>) }"

definition user_irq_unclaim :: "irq_state \<Rightarrow> nat \<Rightarrow> irq_state option" where
  "user_irq_unclaim s irq_num = do {
     i \<leftarrow> get_user_irq_claim_index irq_num;
     b \<leftarrow> c_read (user_irq_claimed s) (core_num s);
     b' \<leftarrow> hw_claim_clear b i;
     Some (s\<lparr>user_irq_claimed := (user_irq_claimed s)[core_num s := b']\<rparr>) }"

definition user_irq_claim_unused :: "irq_state \<Rightarrow> bool \<Rightarrow> (int \<times> irq_state) option" where
  "user_irq_claim_unused s required = do {
     b \<leftarrow> c_read (user_irq_claimed s) (core_num s);
     (n, b') \<leftarrow> hw_claim_unused_from_range b required 0 (NUM_USER_IRQS - 1);
     Some (if n \<ge> 0 then int NUM_IRQS - n - 1 else n,
       s\<lparr>user_irq_claimed := (user_irq_claimed s)[core_num s := b']\<rparr>) }"

definition user_irq_is_claimed :: "irq_state \<Rightarrow> nat \<Rightarrow> bool option" where
  "user_irq_is_claimed s irq_num = do {
     i \<leftarrow> get_user_irq_claim_index irq_num;
     b \<leftarrow> c_read (user_irq_claimed s) (core_num s);
     hw_is_claimed b i }"

section \<open>The state after start-up\<close>

text \<open>
  The slots as \<open>irq\_handler\_chain.S\<close> lays them out: code zero, links 1, 2, .. and -1 at the
  end; the free list head is a zero-initialised static.
\<close>

definition boot_slot :: "nat \<Rightarrow> irq_slot" where
  "boot_slot k = \<lparr>inst1 = 0, inst2 = 0, inst3 = 0,
     link = (if k + 1 = PICO_MAX_SHARED_IRQ_HANDLERS then 0xff else of_nat (k + 1)),
     priority = 0, handler = 0\<rparr>"

definition irq_boot :: "u32 \<Rightarrow> u32 \<Rightarrow> irq_state" where
  "irq_boot base unhandled_addr =
     \<lparr>vtable = replicate (16 + NUM_IRQS) unhandled_addr, nvic_enabled = 0, nvic_pending = 0,
      nvic_ipr = replicate 8 0, slots = map boot_slot [0..<PICO_MAX_SHARED_IRQ_HANDLERS],
      free_slot_head = 0, current_exception = 0, user_irq_claimed = [[0], [0]], core_num = 0,
      slots_base = base, unhandled = unhandled_addr\<rparr>"

end
