(* ===== verification/Timer.thy ===== *)
theory Timer
  imports Irq
begin

text \<open>
  Timestamps (\<open>pico/types.h\<close>, \<open>pico/time.h\<close>, \<open>timeout\_helper.c\<close>) and the hardware timer
  with its four alarms (\<open>SDK/hardware/timer.c\<close>). The counter is a 64 bit value that is read
  as two 32 bit registers and runs on between two accesses: \<open>raw\_time n\<close> is its value at the
  n-th register access and \<open>fire\_mask n\<close> tells which comparators match just before it.
  Both are unknown to the code; the lemmas assume of \<open>raw\_time\<close> that it does not decrease.
\<close>

section \<open>Timestamps\<close>

datatype absolute_time = Absolute_time (us_since_boot: u64)

instantiation absolute_time :: linorder
begin
definition less_eq_absolute_time where "t \<le> t' \<longleftrightarrow> us_since_boot t \<le> us_since_boot t'"
definition less_absolute_time where "t < t' \<longleftrightarrow> us_since_boot t < us_since_boot t'"
instance
  by standard (auto simp: less_eq_absolute_time_def less_absolute_time_def absolute_time.expand)
end

definition to_us_since_boot :: "absolute_time \<Rightarrow> u64" where
  "to_us_since_boot t = us_since_boot t"

definition INT64_MAX :: u64 where "INT64_MAX = 2 ^ 63 - 1"

definition update_us_since_boot :: "u64 \<Rightarrow> absolute_time option" where
  "update_us_since_boot us = do {
     c_assert (us \<le> INT64_MAX);
     Some (Absolute_time us) }"

definition nil_time :: absolute_time where "nil_time = Absolute_time 0"
definition at_the_end_of_time :: absolute_time where "at_the_end_of_time = Absolute_time INT64_MAX"

definition is_nil_time :: "absolute_time \<Rightarrow> bool" where
  "is_nil_time t \<longleftrightarrow> to_us_since_boot t = 0"

definition is_at_the_end_of_time :: "absolute_time \<Rightarrow> bool" where
  "is_at_the_end_of_time t \<longleftrightarrow> to_us_since_boot t = to_us_since_boot at_the_end_of_time"

definition us_to_ms :: "u64 \<Rightarrow> u32" where
  "us_to_ms us = (if drop_bit 32 us \<noteq> 0 then ucast (us div 1000) else ucast us div 1000)"

definition to_ms_since_boot :: "absolute_time \<Rightarrow> u32" where
  "to_ms_since_boot t = us_to_ms (to_us_since_boot t)"

definition delayed_by_us :: "absolute_time \<Rightarrow> u64 \<Rightarrow> absolute_time option" where
  "delayed_by_us t us = (let base = to_us_since_boot t; delayed = base + us in
     update_us_since_boot (if delayed < base then - 1 else delayed))"

definition delayed_by_ms :: "absolute_time \<Rightarrow> u32 \<Rightarrow> absolute_time option" where
  "delayed_by_ms t ms = (let base = to_us_since_boot t; delayed = base + ucast ms * 1000 in
     update_us_since_boot (if delayed < base then - 1 else delayed))"

text \<open>The result is the value of the signed 64 bit difference.\<close>

definition absolute_time_diff_us :: "absolute_time \<Rightarrow> absolute_time \<Rightarrow> int" where
  "absolute_time_diff_us from to = sint (to_us_since_boot to - to_us_since_boot from)"

definition valid_time :: "absolute_time \<Rightarrow> bool" where
  "valid_time t \<longleftrightarrow> to_us_since_boot t \<le> INT64_MAX"

lemma uint_INT64_MAX: "uint INT64_MAX = 2 ^ 63 - 1"
  by (simp add: INT64_MAX_def)

lemma max_not_in_range: "\<not> (- 1 :: u64) \<le> INT64_MAX"
  by (simp add: word_le_def uint_INT64_MAX unsigned_minus_1_eq_mask mask_eq_exp_minus_1)

lemma valid_time_iff: "valid_time t \<longleftrightarrow> uint (us_since_boot t) < 2 ^ 63"
  by (auto simp: valid_time_def to_us_since_boot_def word_le_def uint_INT64_MAX)

lemma update_us_since_boot_Some:
  "update_us_since_boot us = Some t \<longleftrightarrow> t = Absolute_time us \<and> valid_time t"
  by (auto simp: update_us_since_boot_def valid_time_def to_us_since_boot_def c_assert_def)

lemma absolute_time_diff_us_eq:
  assumes "valid_time t" and "valid_time t'"
  shows "absolute_time_diff_us t t' = uint (us_since_boot t') - uint (us_since_boot t)"
proof -
  let ?a = "uint (us_since_boot t)" and ?b = "uint (us_since_boot t')"
  have ab: "?a < 2 ^ 63" "?b < 2 ^ 63" "0 \<le> ?a" "0 \<le> ?b" using assms by (simp_all add: valid_time_iff)
  have "us_since_boot t' - us_since_boot t = word_of_int (?b - ?a)"
    by (simp add: wi_hom_sub [symmetric])
  then have "sint (us_since_boot t' - us_since_boot t) = signed_take_bit 63 (?b - ?a)"
    by (simp only: signed_of_int) simp
  also have "\<dots> = ?b - ?a"
    by (rule signed_take_bit_int_eq_self) (use ab in linarith)+
  finally show ?thesis
    by (simp add: absolute_time_diff_us_def to_us_since_boot_def)
qed

lemma absolute_time_diff_us_le:
  "valid_time t \<Longrightarrow> valid_time t' \<Longrightarrow> absolute_time_diff_us t t' \<le> 0 \<longleftrightarrow> t' \<le> t"
  by (auto simp: absolute_time_diff_us_eq less_eq_absolute_time_def word_le_def)

lemma delayed_by_us_Some:
  assumes "delayed_by_us t us = Some t'"
  shows "valid_time t'" "uint (us_since_boot t') = uint (us_since_boot t) + uint us" "t \<le> t'"
proof -
  have ne: "\<not> us_since_boot t + us < us_since_boot t"
    using assms max_not_in_range by (auto simp: delayed_by_us_def Let_def update_us_since_boot_def
        to_us_since_boot_def)
  then have t': "t' = Absolute_time (us_since_boot t + us) \<and> valid_time t'"
    using assms by (auto simp: delayed_by_us_def Let_def update_us_since_boot_Some to_us_since_boot_def)
  then show "valid_time t'" by (rule conjunct2)
  show u: "uint (us_since_boot t') = uint (us_since_boot t) + uint us"
    using ne t' by (simp add: uint_plus_simple [symmetric] not_less)
  then show "t \<le> t'" by (simp add: less_eq_absolute_time_def word_le_def)
qed

lemma delayed_by_us_in_range:
  "uint (us_since_boot t) + uint us < 2 ^ 63 \<Longrightarrow>
     delayed_by_us t us = Some (Absolute_time (us_since_boot t + us))"
proof -
  assume s: "uint (us_since_boot t) + uint us < 2 ^ 63"
  then have u: "uint (us_since_boot t + us) = uint (us_since_boot t) + uint us"
    by (simp add: uint_add_lem [THEN iffD1])
  then have "\<not> us_since_boot t + us < us_since_boot t" by (simp add: word_less_def)
  moreover have "us_since_boot t + us \<le> INT64_MAX"
    using s u by (simp add: word_le_def uint_INT64_MAX)
  ultimately show ?thesis
    by (simp add: delayed_by_us_def Let_def to_us_since_boot_def update_us_since_boot_def)
qed

section \<open>The timer block\<close>

record timer_state =
  raw_time :: "nat \<Rightarrow> u64"
  fire_mask :: "nat \<Rightarrow> u32"
  accesses :: nat
  intr :: u32
  armed :: u32
  inte :: u32
  alarm_reg :: "u32 list"
  alarm_callbacks :: "nat list"
  target_hi :: "u32 list"
  timer_callbacks_pending :: u8
  alarms_claimed :: "u8 list"
  timer_irq :: irq_state
  alarm_irq_handler :: u32

definition NUM_TIMERS :: nat where "NUM_TIMERS = 4"
definition TIMER_IRQ_0 :: nat where "TIMER_IRQ_0 = 0"

definition check_hardware_alarm_num_param :: "nat \<Rightarrow> unit option" where
  "check_hardware_alarm_num_param alarm_num = c_assert (alarm_num < NUM_TIMERS)"

text \<open>
  A register access: the comparators of armed alarms that match clear \<open>armed\<close> and raise
  \<open>intr\<close>, which is what the data sheet says of the block.
\<close>

definition timer_access :: "timer_state \<Rightarrow> timer_state" where
  "timer_access s = (let fired = fire_mask s (accesses s) AND armed s in
     s\<lparr>accesses := accesses s + 1, armed := armed s AND NOT fired, intr := intr s OR fired\<rparr>)"

definition the_time :: "timer_state \<Rightarrow> u64" where
  "the_time s = raw_time s (accesses s)"

definition read_timerawh :: "timer_state \<Rightarrow> u32 \<times> timer_state" where
  "read_timerawh s = (ucast (drop_bit 32 (the_time s)), timer_access s)"

definition read_timerawl :: "timer_state \<Rightarrow> u32 \<times> timer_state" where
  "read_timerawl s = (ucast (the_time s), timer_access s)"

definition read_armed :: "timer_state \<Rightarrow> u32 \<times> timer_state" where
  "read_armed s = (let s' = timer_access s in (armed s', s'))"

definition read_ints :: "timer_state \<Rightarrow> u32 \<times> timer_state" where
  "read_ints s = (let s' = timer_access s in (intr s' AND inte s', s'))"

text \<open>Both are write-1-to-clear.\<close>

definition write_intr :: "timer_state \<Rightarrow> u32 \<Rightarrow> timer_state" where
  "write_intr s v = (let s' = timer_access s in s'\<lparr>intr := intr s' AND NOT v\<rparr>)"

definition write_armed :: "timer_state \<Rightarrow> u32 \<Rightarrow> timer_state" where
  "write_armed s v = (let s' = timer_access s in s'\<lparr>armed := armed s' AND NOT v\<rparr>)"

text \<open>Writing the alarm time arms the alarm.\<close>

definition write_alarm :: "timer_state \<Rightarrow> nat \<Rightarrow> u32 \<Rightarrow> timer_state option" where
  "write_alarm s n v = do {
     let s' = timer_access s;
     a \<leftarrow> c_write (alarm_reg s') n v;
     Some (s'\<lparr>alarm_reg := a, armed := armed s' OR push_bit n 1\<rparr>) }"

section \<open>Reading the time and waiting\<close>

partial_function (option) time_us_64_loop :: "timer_state \<Rightarrow> u32 \<Rightarrow> (u64 \<times> timer_state) option" where
  "time_us_64_loop s hi =
     (let (lo, s1) = read_timerawl s; (next_hi, s2) = read_timerawh s1 in
      if hi = next_hi then Some (push_bit 32 (ucast hi) OR ucast lo, s2)
      else time_us_64_loop s2 next_hi)"

declare time_us_64_loop.simps [code]

definition time_us_64 :: "timer_state \<Rightarrow> (u64 \<times> timer_state) option" where
  "time_us_64 s = (let (hi, s1) = read_timerawh s in time_us_64_loop s1 hi)"

definition time_us_32 :: "timer_state \<Rightarrow> u32 \<times> timer_state" where
  "time_us_32 s = read_timerawl s"

definition time_reached :: "timer_state \<Rightarrow> absolute_time \<Rightarrow> bool \<times> timer_state" where
  "time_reached s t =
     (let target = to_us_since_boot t; hi_target = ucast (drop_bit 32 target) :: u32;
          (hi, s1) = read_timerawh s
      in if hi \<ge> hi_target
         then let (lo, s2) = read_timerawl s1 in (lo \<ge> ucast target \<or> hi \<noteq> hi_target, s2)
         else (False, s1))"

partial_function (option) wait_hi :: "timer_state \<Rightarrow> u32 \<Rightarrow> u32 \<Rightarrow> (u32 \<times> timer_state) option" where
  "wait_hi s hi hi_target =
     (if hi < hi_target then let (hi', s1) = read_timerawh s in wait_hi s1 hi' hi_target
      else Some (hi, s))"

partial_function (option) wait_lo :: "timer_state \<Rightarrow> u32 \<Rightarrow> u32 \<Rightarrow> u32 \<Rightarrow> timer_state option" where
  "wait_lo s hi hi_target lo_target =
     (if hi = hi_target then
        let (lo, s1) = read_timerawl s in
        if lo < lo_target then let (hi', s2) = read_timerawh s1 in wait_lo s2 hi' hi_target lo_target
        else Some s1
      else Some s)"

declare wait_hi.simps [code] wait_lo.simps [code]

definition busy_wait_until :: "timer_state \<Rightarrow> absolute_time \<Rightarrow> timer_state option" where
  "busy_wait_until s t = do {
     let target = to_us_since_boot t;
     let hi_target = ucast (drop_bit 32 target);
     let (hi, s1) = read_timerawh s;
     (hi', s2) \<leftarrow> wait_hi s1 hi hi_target;
     wait_lo s2 hi' hi_target (ucast target) }"

definition busy_wait_us :: "timer_state \<Rightarrow> u64 \<Rightarrow> timer_state option" where
  "busy_wait_us s delay_us = do {
     (base, s1) \<leftarrow> time_us_64 s;
     let target = base + delay_us;
     t \<leftarrow> update_us_since_boot (if target < base then - 1 else target);
     busy_wait_until s1 t }"

partial_function (option) wait_32 :: "timer_state \<Rightarrow> u32 \<Rightarrow> u32 \<Rightarrow> timer_state option" where
  "wait_32 s start delay_us =
     (let (lo, s1) = read_timerawl s in
      if lo - start < delay_us then wait_32 s1 start delay_us else Some s1)"

declare wait_32.simps [code]

definition busy_wait_us_32 :: "timer_state \<Rightarrow> u32 \<Rightarrow> timer_state option" where
  "busy_wait_us_32 s delay_us =
     (if 0 \<le> sint delay_us then let (start, s1) = read_timerawl s in wait_32 s1 start delay_us
      else busy_wait_us s (ucast delay_us))"

definition busy_wait_ms :: "timer_state \<Rightarrow> u32 \<Rightarrow> timer_state option" where
  "busy_wait_ms s delay_ms =
     (if delay_ms \<le> 0x7fffffff div 1000 then busy_wait_us_32 s (delay_ms * 1000)
      else busy_wait_us s (ucast delay_ms * 1000))"

definition get_absolute_time :: "timer_state \<Rightarrow> (absolute_time \<times> timer_state) option" where
  "get_absolute_time s = do {
     (us, s1) \<leftarrow> time_us_64 s;
     t \<leftarrow> update_us_since_boot us;
     Some (t, s1) }"

definition make_timeout_time_us :: "timer_state \<Rightarrow> u64 \<Rightarrow> (absolute_time \<times> timer_state) option" where
  "make_timeout_time_us s us = do {
     (now, s1) \<leftarrow> get_absolute_time s;
     t \<leftarrow> delayed_by_us now us;
     Some (t, s1) }"

definition make_timeout_time_ms :: "timer_state \<Rightarrow> u32 \<Rightarrow> (absolute_time \<times> timer_state) option" where
  "make_timeout_time_ms s ms = do {
     (now, s1) \<leftarrow> get_absolute_time s;
     t \<leftarrow> delayed_by_ms now ms;
     Some (t, s1) }"

section \<open>Timeouts of blocking calls\<close>

record timeout_state =
  next_timeout :: absolute_time
  param :: u64

definition check_single_timeout_us :: "timer_state \<Rightarrow> timeout_state \<Rightarrow> bool \<times> timer_state" where
  "check_single_timeout_us s ts = time_reached s (next_timeout ts)"

definition init_single_timeout_until :: "timeout_state \<Rightarrow> absolute_time \<Rightarrow> timeout_state" where
  "init_single_timeout_until ts target = ts\<lparr>next_timeout := target\<rparr>"

definition check_per_iteration_timeout_us ::
    "timer_state \<Rightarrow> timeout_state \<Rightarrow> (bool \<times> timeout_state \<times> timer_state) option" where
  "check_per_iteration_timeout_us s ts =
     (let (reached, s1) = time_reached s (next_timeout ts) in
      if reached then Some (True, ts, s1)
      else do {
        (t, s2) \<leftarrow> make_timeout_time_us s1 (param ts);
        Some (False, ts\<lparr>next_timeout := t\<rparr>, s2) })"

definition init_per_iteration_timeout_us ::
    "timer_state \<Rightarrow> timeout_state \<Rightarrow> u64 \<Rightarrow> (timeout_state \<times> timer_state) option" where
  "init_per_iteration_timeout_us s ts us = do {
     (t, s1) \<leftarrow> make_timeout_time_us s us;
     Some (ts\<lparr>next_timeout := t, param := us\<rparr>, s1) }"

section \<open>Hardware alarms\<close>

definition hardware_alarm_claim :: "timer_state \<Rightarrow> nat \<Rightarrow> timer_state option" where
  "hardware_alarm_claim s alarm_num = do {
     check_hardware_alarm_num_param alarm_num;
     b \<leftarrow> hw_claim_or_assert (alarms_claimed s) alarm_num;
     Some (s\<lparr>alarms_claimed := b\<rparr>) }"

definition hardware_alarm_unclaim :: "timer_state \<Rightarrow> nat \<Rightarrow> timer_state option" where
  "hardware_alarm_unclaim s alarm_num = do {
     check_hardware_alarm_num_param alarm_num;
     b \<leftarrow> hw_claim_clear (alarms_claimed s) alarm_num;
     Some (s\<lparr>alarms_claimed := b\<rparr>) }"

definition hardware_alarm_is_claimed :: "timer_state \<Rightarrow> nat \<Rightarrow> bool option" where
  "hardware_alarm_is_claimed s alarm_num = do {
     check_hardware_alarm_num_param alarm_num;
     hw_is_claimed (alarms_claimed s) alarm_num }"

definition hardware_alarm_irq_number :: "nat \<Rightarrow> nat" where
  "hardware_alarm_irq_number alarm_num = TIMER_IRQ_0 + alarm_num"

definition alarm_bit :: "nat \<Rightarrow> u32" where
  "alarm_bit n = push_bit n 1"

text \<open>The first result is the callback to call after the lock is released (0 for none).\<close>

definition hardware_alarm_irq_handler :: "timer_state \<Rightarrow> nat \<Rightarrow> (nat \<times> timer_state) option" where
  "hardware_alarm_irq_handler s alarm_num = do {
     check_hardware_alarm_num_param alarm_num;
     let s1 = write_intr s (alarm_bit alarm_num);
     if timer_callbacks_pending s1 AND ucast (alarm_bit alarm_num) \<noteq> 0 then do {
       let (hi, s2) = read_timerawh s1;
       thi \<leftarrow> c_read (target_hi s2) alarm_num;
       if hi \<ge> thi then do {
         cb \<leftarrow> c_read (alarm_callbacks s2) alarm_num;
         Some (cb, s2\<lparr>timer_callbacks_pending :=
           timer_callbacks_pending s2 AND ucast (NOT (alarm_bit alarm_num))\<rparr>) }
       else do {
         let s3 = timer_access s2;
         a \<leftarrow> c_read (alarm_reg s3) alarm_num;
         s4 \<leftarrow> write_alarm s3 alarm_num a;
         Some (0, s4) } }
     else Some (0, s1) }"

definition hardware_alarm_set_callback :: "timer_state \<Rightarrow> nat \<Rightarrow> nat \<Rightarrow> timer_state option" where
  "hardware_alarm_set_callback s alarm_num cb = do {
     check_hardware_alarm_num_param alarm_num;
     let irq_num = hardware_alarm_irq_number alarm_num;
     if cb \<noteq> 0 then do {
       h \<leftarrow> irq_get_vtable_handler (timer_irq s) irq_num;
       s1 \<leftarrow> (if alarm_irq_handler s \<noteq> h then do {
                i1 \<leftarrow> irq_set_exclusive_handler (timer_irq s) irq_num (alarm_irq_handler s);
                i2 \<leftarrow> irq_set_enabled i1 irq_num True;
                let s1 = timer_access s;
                Some (s1\<lparr>timer_irq := i2, inte := inte s1 OR alarm_bit alarm_num\<rparr>) }
             else Some s);
       cs \<leftarrow> c_write (alarm_callbacks s1) alarm_num cb;
       Some (s1\<lparr>alarm_callbacks := cs\<rparr>) }
     else do {
       cs \<leftarrow> c_write (alarm_callbacks s) alarm_num 0;
       i1 \<leftarrow> irq_remove_handler (timer_irq s) irq_num (alarm_irq_handler s);
       i2 \<leftarrow> irq_set_enabled i1 irq_num False;
       Some (s\<lparr>alarm_callbacks := cs, timer_irq := i2, timer_callbacks_pending :=
         timer_callbacks_pending s AND ucast (NOT (alarm_bit alarm_num))\<rparr>) } }"

definition hardware_alarm_set_target :: "timer_state \<Rightarrow> nat \<Rightarrow> absolute_time \<Rightarrow> (bool \<times> timer_state) option" where
  "hardware_alarm_set_target s alarm_num target = do {
     (now, s0) \<leftarrow> time_us_64 s;
     let t = to_us_since_boot target;
     if now \<ge> t then Some (True, s0)
     else do {
       let old_pending = timer_callbacks_pending s0;
       let s1 = s0\<lparr>timer_callbacks_pending := old_pending OR ucast (alarm_bit alarm_num)\<rparr>;
       let s2 = write_intr s1 (alarm_bit alarm_num);
       s3 \<leftarrow> write_alarm s2 alarm_num (ucast t);
       th \<leftarrow> c_write (target_hi s3) alarm_num (ucast (drop_bit 32 t));
       let s4 = s3\<lparr>target_hi := th\<rparr>;
       let (ar, s5) = read_armed s4;
       if ar AND alarm_bit alarm_num = 0 then do {
         let (ints, s6) = read_ints s5;
         c_assert (ints AND alarm_bit alarm_num \<noteq> 0);
         Some (False, s6) }
       else do {
         (now2, s6) \<leftarrow> time_us_64 s5;
         if now2 \<ge> t then
           if timer_callbacks_pending s6 \<noteq> old_pending then
             let s7 = write_armed s6 (alarm_bit alarm_num);
                 s8 = write_intr s7 (alarm_bit alarm_num)
             in Some (True, s8\<lparr>timer_irq := irq_clear (timer_irq s8) (hardware_alarm_irq_number alarm_num),
                  timer_callbacks_pending := old_pending\<rparr>)
           else Some (True, s6)
         else Some (False, s6) } } }"

definition hardware_alarm_cancel :: "timer_state \<Rightarrow> nat \<Rightarrow> timer_state option" where
  "hardware_alarm_cancel s alarm_num = do {
     check_hardware_alarm_num_param alarm_num;
     let s1 = write_armed s (alarm_bit alarm_num);
     Some (s1\<lparr>timer_callbacks_pending :=
       timer_callbacks_pending s1 AND ucast (NOT (alarm_bit alarm_num))\<rparr>) }"

section \<open>The state after start-up\<close>

definition timer_boot :: "(nat \<Rightarrow> u64) \<Rightarrow> irq_state \<Rightarrow> u32 \<Rightarrow> timer_state" where
  "timer_boot rt irq h = \<lparr>raw_time = rt, fire_mask = (\<lambda>_. 0), accesses = 0, intr = 0, armed = 0,
     inte = 0, alarm_reg = replicate NUM_TIMERS 0, alarm_callbacks = replicate NUM_TIMERS 0,
     target_hi = replicate NUM_TIMERS 0, timer_callbacks_pending = 0, alarms_claimed = [0],
     timer_irq = irq, alarm_irq_handler = h\<rparr>"

end
