(* ===== verification/Timer_Correct.thy ===== *)
theory Timer_Correct
  imports Timer
begin

text \<open>
  What the timer code guarantees when the counter does not decrease: a 64 bit reading is the
  value of the counter at some access during the call, waits end and never end early, and
  setting an alarm reports a missed target only when the target has passed.
\<close>

section \<open>High and low words\<close>

abbreviation hi_word :: "u64 \<Rightarrow> u32" where "hi_word w \<equiv> ucast (drop_bit 32 w)"
abbreviation lo_word :: "u64 \<Rightarrow> u32" where "lo_word w \<equiv> ucast w"

lemma unat_hi_word: "unat (hi_word w) = unat w div 2 ^ 32"
proof -
  have "unat w < 2 ^ 64" using unsigned_less [of w, where ?'a = nat] by simp
  then have "unat w div 2 ^ 32 < 2 ^ 32" by (simp add: div_less_iff_less_mult)
  then show ?thesis by (simp add: unsigned_ucast_eq take_bit_nat_eq_self drop_bit_eq_div unat_div)
qed

lemma unat_lo_word: "unat (lo_word w) = unat w mod 2 ^ 32"
  by (simp add: unsigned_ucast_eq take_bit_eq_mod)

lemma hi_word_mono: "w \<le> w' \<Longrightarrow> hi_word w \<le> hi_word w'"
  unfolding word_le_nat_alt unat_hi_word by (rule div_le_mono)

lemma join_words: "push_bit 32 (ucast (hi_word w)) OR ucast (lo_word w) = w"
  by (rule bit_word_eqI) (auto simp: bit_simps)

lemma nat_le_split:
  fixes a b :: nat
  shows "a \<le> b \<longleftrightarrow> a div n < b div n \<or> (a div n = b div n \<and> a mod n \<le> b mod n)"
proof (cases "a div n = b div n")
  case True
  have "a = a div n * n + a mod n" "b = b div n * n + b mod n" by simp_all
  with True have "a \<le> b \<longleftrightarrow> a mod n \<le> b mod n" by (metis nat_add_left_cancel_le)
  with True show ?thesis by simp
next
  case False
  then show ?thesis by (metis div_le_mono le_less nat_le_linear not_less)
qed

lemma word_le_split:
  "w \<le> w' \<longleftrightarrow> hi_word w < hi_word w' \<or> (hi_word w = hi_word w' \<and> lo_word w \<le> lo_word w')"
  unfolding word_le_nat_alt word_less_nat_alt word_unat_eq_iff [of "hi_word w"] unat_hi_word
    unat_lo_word [of w] unat_lo_word [of w']
  by (rule nat_le_split)

section \<open>Register accesses\<close>

text \<open>\<open>adv n s\<close>: \<open>n\<close> further accesses that write nothing.\<close>

definition adv :: "nat \<Rightarrow> timer_state \<Rightarrow> timer_state" where
  "adv n s = (timer_access ^^ n) s"

lemma adv_0 [simp]: "adv 0 s = s"
  and adv_access: "timer_access (adv n s) = adv (Suc n) s"
  by (simp_all add: adv_def)

lemma access_adv1: "timer_access s = adv 1 s"
  by (simp add: adv_def)

lemma adv_adv [simp]: "adv m (adv n s) = adv (m + n) s"
  by (simp add: adv_def funpow_add)

lemma timer_access_simps [simp]:
  "raw_time (timer_access s) = raw_time s" "fire_mask (timer_access s) = fire_mask s"
  "accesses (timer_access s) = Suc (accesses s)" "inte (timer_access s) = inte s"
  "alarm_reg (timer_access s) = alarm_reg s" "alarm_callbacks (timer_access s) = alarm_callbacks s"
  "target_hi (timer_access s) = target_hi s"
  "timer_callbacks_pending (timer_access s) = timer_callbacks_pending s"
  "alarms_claimed (timer_access s) = alarms_claimed s" "timer_irq (timer_access s) = timer_irq s"
  "alarm_irq_handler (timer_access s) = alarm_irq_handler s"
  by (simp_all add: timer_access_def Let_def)

lemma adv_simps [simp]:
  "raw_time (adv n s) = raw_time s" "fire_mask (adv n s) = fire_mask s"
  "accesses (adv n s) = accesses s + n" "inte (adv n s) = inte s"
  "alarm_reg (adv n s) = alarm_reg s" "alarm_callbacks (adv n s) = alarm_callbacks s"
  "target_hi (adv n s) = target_hi s"
  "timer_callbacks_pending (adv n s) = timer_callbacks_pending s"
  "alarms_claimed (adv n s) = alarms_claimed s" "timer_irq (adv n s) = timer_irq s"
  "alarm_irq_handler (adv n s) = alarm_irq_handler s"
  by (induction n) (simp_all add: adv_def)

lemma read_adv:
  "read_timerawh (adv n s) = (hi_word (raw_time s (accesses s + n)), adv (Suc n) s)"
  "read_timerawl (adv n s) = (lo_word (raw_time s (accesses s + n)), adv (Suc n) s)"
  by (simp_all add: read_timerawh_def read_timerawl_def the_time_def adv_access)

lemma read_adv0:
  "read_timerawh s = (hi_word (raw_time s (accesses s)), adv 1 s)"
  "read_timerawl s = (lo_word (raw_time s (accesses s)), adv 1 s)"
  using read_adv [of 0 s] by simp_all

section \<open>The 64 bit reading\<close>

definition steady :: "timer_state \<Rightarrow> bool" where
  "steady s \<longleftrightarrow> mono (raw_time s)"

lemma steadyD: "steady s \<Longrightarrow> m \<le> n \<Longrightarrow> raw_time s m \<le> raw_time s n"
  by (simp add: steady_def monoD)

lemma steady_adv [simp]: "steady (adv n s) = steady s"
  by (simp add: steady_def)

lemma time_us_64_loop_eq:
  assumes "steady s" and "hi = hi_word (raw_time s (accesses s + k))"
  shows "\<exists>n. time_us_64_loop (adv (Suc k) s) hi = Some (raw_time s (accesses s + n), adv (Suc (Suc n)) s) \<and> k < n"
  using assms(2)
proof (induction "2 ^ 32 - unat hi" arbitrary: k hi rule: less_induct)
  case less
  let ?hi' = "hi_word (raw_time s (accesses s + (k + 2)))"
  have le: "hi \<le> ?hi'"
    unfolding less.prems by (rule hi_word_mono) (rule steadyD [OF assms(1)], simp)
  show ?case
  proof (cases "hi = ?hi'")
    case True
    have "hi \<le> hi_word (raw_time s (accesses s + (k + 1)))"
      "hi_word (raw_time s (accesses s + (k + 1))) \<le> ?hi'"
      unfolding less.prems by (rule hi_word_mono, rule steadyD [OF assms(1)], simp)+
    with True have "hi = hi_word (raw_time s (accesses s + Suc k))" by simp
    then have "push_bit 32 (ucast hi) OR ucast (lo_word (raw_time s (accesses s + Suc k)))
        = raw_time s (accesses s + Suc k)"
      by (simp only: join_words)
    with True have "time_us_64_loop (adv (Suc k) s) hi
        = Some (raw_time s (accesses s + Suc k), adv (Suc (Suc (Suc k))) s)"
      by (subst time_us_64_loop.simps) (simp add: read_adv Let_def del: adv_adv)
    then show ?thesis by blast
  next
    case False
    with le have "hi < ?hi'" by simp
    then have "unat hi < unat ?hi'" by (simp only: word_less_nat_alt)
    moreover have "unat ?hi' < 2 ^ 32" using unsigned_less [of ?hi', where ?'a = nat] by simp
    ultimately have "2 ^ 32 - unat ?hi' < 2 ^ 32 - unat hi" by linarith
    from less.hyps [OF this refl] obtain n
      where "time_us_64_loop (adv (Suc (k + 2)) s) ?hi'
          = Some (raw_time s (accesses s + n), adv (Suc (Suc n)) s)" and "k + 2 < n" by blast
    moreover have "time_us_64_loop (adv (Suc k) s) hi = time_us_64_loop (adv (Suc (k + 2)) s) ?hi'"
      using False by (subst time_us_64_loop.simps) (simp add: read_adv Let_def del: adv_adv)
    ultimately show ?thesis by (intro exI [of _ n]) simp
  qed
qed

lemma time_us_64_eq:
  assumes "steady s"
  obtains n where "time_us_64 s = Some (raw_time s (accesses s + n), adv (Suc (Suc n)) s)" "0 < n"
  using time_us_64_loop_eq [OF assms refl, of 0]
  by (auto simp: time_us_64_def read_adv0)

section \<open>Waiting\<close>

abbreviation target_us :: "absolute_time \<Rightarrow> u64" where
  "target_us t \<equiv> to_us_since_boot t"

lemma time_reached_True:
  assumes st: "steady s" and r: "time_reached s t = (True, s')"
  shows "target_us t \<le> raw_time s (accesses s' - 1)"
proof -
  let ?a = "raw_time s (accesses s)" and ?b = "raw_time s (accesses s + 1)"
  have ab: "?a \<le> ?b" by (rule steadyD [OF st]) simp
  have "hi_word (target_us t) \<le> hi_word ?a"
    using r by (auto simp: time_reached_def read_adv0 Let_def split: if_splits)
  then have s': "s' = adv 2 s"
    and c: "lo_word (target_us t) \<le> lo_word ?b \<or> hi_word ?a \<noteq> hi_word (target_us t)"
    using r read_adv(2) [of 1 s] by (auto simp: time_reached_def read_adv0 Let_def numeral_2_eq_2)
  have "target_us t \<le> ?b"
    using c hi_word_mono [OF ab] \<open>hi_word (target_us t) \<le> hi_word ?a\<close>
    unfolding word_le_split [of "target_us t"] by auto
  then show ?thesis by (simp add: s')
qed

text \<open>
  The other direction holds only without a carry into the high word between the two
  reads: with one, a target that has passed can be reported as not reached.
\<close>

lemma time_reached_False:
  assumes r: "time_reached s t = (False, s')"
    and same: "hi_word (raw_time s (accesses s)) = hi_word (raw_time s (accesses s + 1))"
    and st: "steady s"
  shows "raw_time s (accesses s) < target_us t"
proof (rule ccontr)
  let ?a = "raw_time s (accesses s)" and ?b = "raw_time s (accesses s + 1)"
  assume "\<not> ?a < target_us t"
  then have ta: "target_us t \<le> ?a" by simp
  moreover have "?a \<le> ?b" by (rule steadyD [OF st]) simp
  ultimately have tb: "target_us t \<le> ?b" by simp
  have "hi_word (target_us t) \<le> hi_word ?a" by (rule hi_word_mono [OF ta])
  then have "\<not> lo_word (target_us t) \<le> lo_word ?b" "hi_word ?a = hi_word (target_us t)"
    using r read_adv(2) [of 1 s] by (auto simp: time_reached_def read_adv0 Let_def)
  with tb same show False unfolding word_le_split [of "target_us t"] by auto
qed

lemma wait_hi_eq:
  assumes st: "steady s" and N: "hi_target \<le> hi_word (raw_time s (accesses s + n))"
    and hi: "hi = hi_word (raw_time s (accesses s + k))"
  shows "\<exists>m. wait_hi (adv (Suc k) s) hi hi_target = Some (hi_word (raw_time s (accesses s + m)), adv (Suc m) s)
    \<and> hi_target \<le> hi_word (raw_time s (accesses s + m))"
  using hi
proof (induction "n - k" arbitrary: k hi)
  case 0
  have "raw_time s (accesses s + n) \<le> raw_time s (accesses s + k)"
    by (rule steadyD [OF st]) (use 0 in simp)
  then have "hi_target \<le> hi" using N hi_word_mono order_trans unfolding 0(2) by blast
  with 0 show ?case by (subst wait_hi.simps) (auto simp: not_less)
next
  case (Suc j)
  show ?case
  proof (cases "hi < hi_target")
    case True
    from Suc.hyps(2) have "j = n - Suc k" by simp
    from Suc.hyps(1) [OF this refl] obtain m
      where "wait_hi (adv (Suc (Suc k)) s) (hi_word (raw_time s (accesses s + Suc k))) hi_target
          = Some (hi_word (raw_time s (accesses s + m)), adv (Suc m) s)"
        "hi_target \<le> hi_word (raw_time s (accesses s + m))" by auto
    with True show ?thesis by (subst wait_hi.simps) (auto simp: read_adv Let_def simp del: adv_adv)
  next
    case False
    with Suc.prems show ?thesis by (subst wait_hi.simps) (auto simp: not_less)
  qed
qed

lemma wait_lo_eq:
  assumes st: "steady s" and N: "t \<le> raw_time s (accesses s + n)"
    and hi: "hi = hi_word (raw_time s (accesses s + k))" and ge: "hi_word t \<le> hi"
  shows "\<exists>m. wait_lo (adv (Suc k) s) hi (hi_word t) (lo_word t) = Some (adv (Suc m) s)
    \<and> t \<le> raw_time s (accesses s + m)"
  using hi ge
proof (induction "Suc n - k" arbitrary: k hi rule: less_induct)
  case less
  let ?R = "\<lambda>i. raw_time s (accesses s + i)"
  have m: "?R i \<le> ?R j" if "i \<le> j" for i j by (rule steadyD [OF st]) (use that in simp)
  show ?case
  proof (cases "hi = hi_word t")
    case False
    with less.prems have "t \<le> ?R k" unfolding word_le_split [of t] by auto
    with False show ?thesis by (subst wait_lo.simps) auto
  next
    case eq: True
    show ?thesis
    proof (cases "lo_word (?R (Suc k)) < lo_word t")
      case False
      have "hi_word t \<le> hi_word (?R (Suc k))"
        using less.prems hi_word_mono [OF m [of k "Suc k"]] by simp
      with False have "t \<le> ?R (Suc k)" unfolding word_le_split [of t] by auto
      moreover have "wait_lo (adv (Suc k) s) hi (hi_word t) (lo_word t) = Some (adv (Suc (Suc k)) s)"
        using eq False by (subst wait_lo.simps) (simp add: read_adv Let_def del: adv_adv)
      ultimately show ?thesis by blast
    next
      case lt: True
      let ?hi' = "hi_word (?R (Suc (Suc k)))"
      have step: "wait_lo (adv (Suc k) s) hi (hi_word t) (lo_word t)
          = wait_lo (adv (Suc (Suc (Suc k))) s) ?hi' (hi_word t) (lo_word t)"
        using eq lt by (subst wait_lo.simps) (simp add: read_adv Let_def del: adv_adv)
      have ge': "hi_word t \<le> ?hi'"
        using less.prems hi_word_mono [OF m [of k "Suc (Suc k)"]] by simp
      show ?thesis
      proof (cases "k < Suc n")
        case True
        then have "Suc n - Suc (Suc k) < Suc n - k" by simp
        from less.hyps [OF this refl ge'] step show ?thesis by simp
      next
        case False
        then have "t \<le> ?R (Suc k)" using N m [of n "Suc k"] by (meson not_less order_trans Suc_leD le_SucI)
        with lt have "hi_word t < hi_word (?R (Suc k))" unfolding word_le_split [of t] by auto
        then have ne: "hi_word t < ?hi'"
          using hi_word_mono [OF m [of "Suc k" "Suc (Suc k)"]] by (simp add: less_le_trans)
        then have "wait_lo (adv (Suc (Suc (Suc k))) s) ?hi' (hi_word t) (lo_word t)
            = Some (adv (Suc (Suc (Suc k))) s)"
          by (subst wait_lo.simps) auto
        moreover have "t \<le> ?R (Suc (Suc k))" using ne unfolding word_le_split [of t] by auto
        ultimately show ?thesis using step by auto
      qed
    qed
  qed
qed

lemma busy_wait_until_eq:
  assumes st: "steady s" and N: "target_us t \<le> raw_time s (accesses s + n)"
  shows "\<exists>m. busy_wait_until s t = Some (adv (Suc m) s) \<and> target_us t \<le> raw_time s (accesses s + m)"
proof -
  from wait_hi_eq [OF st hi_word_mono [OF N] refl, of 0] obtain j
    where j: "wait_hi (adv 1 s) (hi_word (raw_time s (accesses s))) (hi_word (target_us t))
        = Some (hi_word (raw_time s (accesses s + j)), adv (Suc j) s)"
      "hi_word (target_us t) \<le> hi_word (raw_time s (accesses s + j))"
    by auto
  from wait_lo_eq [OF st N refl j(2)] obtain m
    where "wait_lo (adv (Suc j) s) (hi_word (raw_time s (accesses s + j))) (hi_word (target_us t))
        (lo_word (target_us t)) = Some (adv (Suc m) s)" "target_us t \<le> raw_time s (accesses s + m)"
    by blast
  with j(1) show ?thesis by (intro exI [of _ m]) (simp add: busy_wait_until_def read_adv0)
qed

section \<open>Setting an alarm\<close>

lemma and_alarm_bit: "w AND alarm_bit n = 0 \<longleftrightarrow> \<not> bit w n" for w :: u32
  by (simp add: alarm_bit_def and_exp_eq_0_iff_not_bit)

lemma bit_alarm_bit [simp]: "n < 4 \<Longrightarrow> bit (alarm_bit n) k \<longleftrightarrow> k = n"
  by (auto simp: alarm_bit_def bit_simps)

lemma live_access:
  "bit (armed s) a \<or> bit (intr s) a \<Longrightarrow> bit (armed (timer_access s)) a \<or> bit (intr (timer_access s)) a"
  by (auto simp: timer_access_def Let_def bit_simps dest: bit_imp_le_length)

lemma live_adv:
  "bit (armed s) a \<or> bit (intr s) a \<Longrightarrow> bit (armed (adv n s)) a \<or> bit (intr (adv n s)) a"
  by (induction n) (simp_all add: adv_access [symmetric] live_access)

lemma intr_access: "bit (intr s) a \<Longrightarrow> bit (intr (timer_access s)) a"
  by (auto simp: timer_access_def Let_def bit_simps)

definition timer_ok :: "timer_state \<Rightarrow> bool" where
  "timer_ok s \<longleftrightarrow> steady s \<and> length (alarm_reg s) = NUM_TIMERS \<and> length (target_hi s) = NUM_TIMERS
     \<and> length (alarm_callbacks s) = NUM_TIMERS"

text \<open>The alarm is set: it will fire, or its interrupt is pending, for this target.\<close>

definition alarm_set :: "timer_state \<Rightarrow> nat \<Rightarrow> u64 \<Rightarrow> bool" where
  "alarm_set s n t \<longleftrightarrow> bit (timer_callbacks_pending s) n \<and> target_hi s ! n = hi_word t
     \<and> alarm_reg s ! n = lo_word t \<and> (bit (armed s) n \<or> bit (intr s) n)"

lemma hardware_alarm_set_target_eq:
  assumes ok: "timer_ok s" and n: "n < NUM_TIMERS" and en: "bit (inte s) n"
  shows "\<exists>missed s'. hardware_alarm_set_target s n t = Some (missed, s') \<and> timer_ok s'
    \<and> raw_time s' = raw_time s \<and> accesses s < accesses s' \<and> inte s' = inte s
    \<and> (if missed then target_us t \<le> raw_time s (accesses s' - 1) else alarm_set s' n (target_us t))
    \<and> (target_us t \<le> raw_time s (accesses s) \<longrightarrow> missed)"
proof -
  let ?t = "target_us t"
  from ok have st: "steady s" by (simp add: timer_ok_def)
  from n have n4: "n < 4" by (simp add: NUM_TIMERS_def)
  obtain k where k: "time_us_64 s = Some (raw_time s (accesses s + k), adv (Suc (Suc k)) s)"
    using time_us_64_eq [OF st] by blast
  show ?thesis
  proof (cases "?t \<le> raw_time s (accesses s + k)")
    case True
    moreover have "raw_time s (accesses s + k) \<le> raw_time s (accesses s + Suc k)"
      by (rule steadyD [OF st]) simp
    ultimately have "?t \<le> raw_time s (accesses s + Suc k)" by (rule order_trans)
    with True k ok show ?thesis
      by (intro exI [of _ True] exI [of _ "adv (Suc (Suc k)) s"])
        (simp add: hardware_alarm_set_target_def timer_ok_def)
  next
    case False
    moreover have "raw_time s (accesses s) \<le> raw_time s (accesses s + k)"
      by (rule steadyD [OF st]) simp
    ultimately have early: "\<not> ?t \<le> raw_time s (accesses s)" using order_trans by blast
    let ?s0 = "adv (Suc (Suc k)) s"
    let ?old = "timer_callbacks_pending s"
    let ?s1 = "?s0\<lparr>timer_callbacks_pending := ?old OR ucast (alarm_bit n)\<rparr>"
    let ?s2 = "write_intr ?s1 (alarm_bit n)"
    let ?a2 = "timer_access ?s2"
    let ?s4 = "?a2\<lparr>alarm_reg := (alarm_reg s)[n := lo_word ?t], armed := armed ?a2 OR push_bit n 1,
      target_hi := (target_hi s)[n := hi_word ?t]\<rparr>"
    let ?s5 = "timer_access ?s4"
    have len: "length (alarm_reg s) = 4" "length (target_hi s) = 4" "length (alarm_callbacks s) = 4"
      using ok by (simp_all add: timer_ok_def NUM_TIMERS_def)
    have s4: "write_alarm ?s2 n (lo_word ?t) = Some (?a2\<lparr>alarm_reg := (alarm_reg s)[n := lo_word ?t],
        armed := armed ?a2 OR push_bit n 1\<rparr>)"
      using n4 len by (simp add: write_alarm_def write_intr_def Let_def)
    have live4: "bit (armed ?s4) n" using n4 by (simp add: bit_simps)
    then have live5: "bit (armed ?s5) n \<or> bit (intr ?s5) n" by (intro live_access) simp
    have f5: "raw_time ?s5 = raw_time s" "accesses ?s5 = accesses s + k + 5" "inte ?s5 = inte s"
      "timer_callbacks_pending ?s5 = ?old OR ucast (alarm_bit n)"
      "alarm_reg ?s5 = (alarm_reg s)[n := lo_word ?t]" "target_hi ?s5 = (target_hi s)[n := hi_word ?t]"
      "alarm_callbacks ?s5 = alarm_callbacks s"
      by (simp_all add: write_intr_def Let_def)
    have pend: "bit (?old OR ucast (alarm_bit n)) n" using n4 by (simp add: bit_simps)
    have st5: "steady ?s5" using st f5(1) by (simp add: steady_def)
    have run: "hardware_alarm_set_target s n t =
        (if armed ?s5 AND alarm_bit n = 0 then do {
           let (ints, s6) = read_ints ?s5;
           c_assert (ints AND alarm_bit n \<noteq> 0);
           Some (False, s6) }
         else do {
           (now2, s6) \<leftarrow> time_us_64 ?s5;
           if now2 \<ge> ?t then
             if timer_callbacks_pending s6 \<noteq> ?old then
               let s7 = write_armed s6 (alarm_bit n); s8 = write_intr s7 (alarm_bit n)
               in Some (True, s8\<lparr>timer_irq := irq_clear (timer_irq s8) (hardware_alarm_irq_number n),
                    timer_callbacks_pending := ?old\<rparr>)
             else Some (True, s6)
           else Some (False, s6) })"
      using False k s4 len n4
      by (simp add: hardware_alarm_set_target_def read_armed_def Let_def write_intr_def cong: if_cong)
    show ?thesis
    proof (cases "bit (armed ?s5) n")
      case armed: True
      obtain m where m: "time_us_64 ?s5 = Some (raw_time ?s5 (accesses ?s5 + m), adv (Suc (Suc m)) ?s5)"
        using time_us_64_eq [OF st5] by blast
      let ?s6 = "adv (Suc (Suc m)) ?s5"
      have f6: "raw_time ?s6 = raw_time s" "inte ?s6 = inte s" "timer_ok ?s6"
        using f5 st5 len by (simp_all add: timer_ok_def NUM_TIMERS_def)
      have acc6: "accesses ?s6 = accesses s + k + m + 7" using f5 by simp
      show ?thesis
      proof (cases "?t \<le> raw_time s (accesses ?s5 + m)")
        case False
        have "hardware_alarm_set_target s n t = Some (False, ?s6)"
          using armed m False f5(1) by (simp add: run and_alarm_bit)
        moreover have "alarm_set ?s6 n ?t"
          unfolding alarm_set_def using f5 pend n4 len live_adv [OF live5] by simp
        ultimately show ?thesis using f6 acc6 early
          by (intro exI [of _ False] exI [of _ ?s6]) simp
      next
        case True
        have later: "?t \<le> raw_time s j" if "accesses s + k + 5 + m \<le> j" for j
          using True steadyD [OF st that] unfolding f5(2) by (rule order_trans)
        show ?thesis
        proof (cases "timer_callbacks_pending ?s6 \<noteq> ?old")
          case ne: True
          let ?s8 = "write_intr (write_armed ?s6 (alarm_bit n)) (alarm_bit n)"
          let ?s' = "?s8\<lparr>timer_irq := irq_clear (timer_irq ?s8) (hardware_alarm_irq_number n),
            timer_callbacks_pending := ?old\<rparr>"
          have "hardware_alarm_set_target s n t = Some (True, ?s')"
            using armed m True f5(1) ne by (simp add: run and_alarm_bit Let_def)
          moreover have "raw_time ?s' = raw_time s" "inte ?s' = inte s" "accesses ?s' = accesses s + k + m + 9"
            "timer_ok ?s'"
            using f6 f5 acc6 by (simp_all add: write_intr_def write_armed_def Let_def timer_ok_def steady_def)
          moreover have "?t \<le> raw_time s (accesses s + k + m + 9 - 1)"
            by (rule later) simp
          ultimately show ?thesis by (intro exI [of _ True] exI [of _ ?s']) simp
        next
          case False
          have "hardware_alarm_set_target s n t = Some (True, ?s6)"
            using armed m True f5(1) False by (simp add: run and_alarm_bit)
          moreover have "?t \<le> raw_time s (accesses ?s6 - 1)"
            unfolding acc6 by (rule later) simp
          ultimately show ?thesis using f6 acc6 by (intro exI [of _ True] exI [of _ ?s6]) simp
        qed
      qed
    next
      case not_armed: False
      with live5 have "bit (intr ?s5) n" by blast
      then have "bit (intr (timer_access ?s5)) n" by (rule intr_access)
      with en f5 have "(intr (timer_access ?s5) AND inte (timer_access ?s5)) AND alarm_bit n \<noteq> 0"
        by (simp add: and_alarm_bit bit_simps)
      then have "hardware_alarm_set_target s n t = Some (False, timer_access ?s5)"
        using not_armed by (simp add: run and_alarm_bit read_ints_def Let_def)
      moreover have "alarm_set (timer_access ?s5) n ?t"
        unfolding alarm_set_def using f5 pend n4 len live_access [OF live5] by simp
      moreover have "timer_ok (timer_access ?s5)" "raw_time (timer_access ?s5) = raw_time s"
        "inte (timer_access ?s5) = inte s" "accesses s < accesses (timer_access ?s5)"
        using f5 st5 len by (simp_all add: timer_ok_def NUM_TIMERS_def steady_def)
      ultimately show ?thesis using early
        by (intro exI [of _ False] exI [of _ "timer_access ?s5"]) simp
    qed
  qed
qed

section \<open>Claims of the alarms\<close>

interpretation hw_alarms: claim_bits "\<lambda>s. length (alarms_claimed s) = 1" alarms_claimed
  "\<lambda>b. alarms_claimed_update (\<lambda>_. b)" "\<lambda>i s. s" 1 0 NUM_TIMERS hardware_alarm_claim hardware_alarm_unclaim
  by unfold_locales (simp_all add: hardware_alarm_claim_def hardware_alarm_unclaim_def
      check_hardware_alarm_num_param_def map_option_bind_put NUM_TIMERS_def)

section \<open>Properties\<close>

text \<open>
  C7. \<open>time\_us\_64\<close> is a linearizable read of the 64 bit counter through its two halves: with
  a counter that does not decrease it returns, and its result is the value of the whole
  counter at one access between the first and the last access of the call.
\<close>

theorem time_us_64_linearizable:
  assumes "mono (raw_time s)"
  shows "\<exists>k s'. time_us_64 s = Some (raw_time s k, s') \<and> accesses s < k \<and> k < accesses s'
    \<and> raw_time s' = raw_time s"
proof -
  from assms have "steady s" by (simp add: steady_def)
  then obtain n where "time_us_64 s = Some (raw_time s (accesses s + n), adv (Suc (Suc n)) s)" "0 < n"
    by (rule time_us_64_eq)
  then show ?thesis by (intro exI [of _ "accesses s + n"] exI [of _ "adv (Suc (Suc n)) s"]) simp
qed

text \<open>A counter that carries into its high word after the first access.\<close>

definition carry_time :: "nat \<Rightarrow> u64" where
  "carry_time n = (if n < 1 then 0xFFFFFFFF else 0x100000000)"

lemma mono_carry_time: "mono carry_time"
  by (rule monoI) (simp add: carry_time_def)

definition carry_timer :: timer_state where
  "carry_timer = timer_boot carry_time (irq_boot 0x20000000 0x10000001) 0x10000101"

lemma carry_timer_simps [simp]:
  "raw_time carry_timer = carry_time" "accesses carry_timer = 0" "inte carry_timer = 0"
  "length (alarm_reg carry_timer) = 4" "length (target_hi carry_timer) = 4"
  "length (alarm_callbacks carry_timer) = 4"
  by (simp_all add: carry_timer_def timer_boot_def NUM_TIMERS_def)

theorem time_us_64_linearizable_witness:
  "\<exists>k s'. time_us_64 carry_timer = Some (carry_time k, s') \<and> 0 < k \<and> k < accesses s'
    \<and> raw_time s' = carry_time"
  using time_us_64_linearizable [of carry_timer] mono_carry_time by simp

text \<open>
  C33. \<open>busy\_wait\_until\<close> returns once the counter has reached the target, and never before:
  at its last access the counter is at or past the target, also across a carry.
\<close>

theorem busy_wait_until_reaches:
  assumes "mono (raw_time s)" and "to_us_since_boot t \<le> raw_time s (accesses s + n)"
  shows "\<exists>s'. busy_wait_until s t = Some s' \<and> to_us_since_boot t \<le> raw_time s (accesses s' - 1)
    \<and> raw_time s' = raw_time s"
proof -
  from assms(1) have "steady s" by (simp add: steady_def)
  from busy_wait_until_eq [OF this assms(2)] obtain m where
    "busy_wait_until s t = Some (adv (Suc m) s)" "to_us_since_boot t \<le> raw_time s (accesses s + m)"
    by blast
  then show ?thesis by (intro exI [of _ "adv (Suc m) s"]) simp
qed

theorem busy_wait_until_reaches_witness:
  "\<exists>s'. busy_wait_until carry_timer (Absolute_time 0x100000000) = Some s'
    \<and> (0x100000000 :: u64) \<le> carry_time (accesses s' - 1) \<and> raw_time s' = carry_time"
  using busy_wait_until_reaches [of carry_timer "Absolute_time 0x100000000" 1] mono_carry_time
  by (simp add: to_us_since_boot_def carry_time_def)

text \<open>
  C34. \<open>hardware\_alarm\_set\_target\<close> does not lose a target: it returns (its assert holds), and
  either it reports the target as missed and the counter has passed it, or the alarm is set
  for this target and is still armed or has its interrupt pending.
\<close>

theorem hardware_alarm_set_target_sound:
  assumes "timer_ok s" and "n < NUM_TIMERS" and "bit (inte s) n"
  shows "\<exists>missed s'. hardware_alarm_set_target s n t = Some (missed, s') \<and> timer_ok s'
    \<and> (if missed then to_us_since_boot t \<le> raw_time s (accesses s' - 1)
        else alarm_set s' n (to_us_since_boot t))"
  using hardware_alarm_set_target_eq [OF assms, of t] by blast

theorem hardware_alarm_set_target_sound_witness:
  "\<exists>missed s'. hardware_alarm_set_target (carry_timer\<lparr>inte := 8\<rparr>) 3 (Absolute_time 0x100000000)
      = Some (missed, s') \<and> timer_ok s'
    \<and> (if missed then to_us_since_boot (Absolute_time 0x100000000)
          \<le> raw_time (carry_timer\<lparr>inte := 8\<rparr>) (accesses s' - 1)
        else alarm_set s' 3 (to_us_since_boot (Absolute_time 0x100000000)))"
proof (rule hardware_alarm_set_target_sound)
  show "timer_ok (carry_timer\<lparr>inte := 8\<rparr>)"
    using mono_carry_time by (simp add: timer_ok_def steady_def NUM_TIMERS_def)
  have "bit (8 :: u32) 3" by code_simp
  then show "bit (inte (carry_timer\<lparr>inte := 8\<rparr>)) 3" by simp
qed (simp add: NUM_TIMERS_def)

text \<open>
  A delay that overflows 64 bits is not turned into a time in the far future: the
  saturated value is outside the range a timestamp may have, so the assert of
  \<open>update\_us\_since\_boot\<close> stops the program in \<open>delayed\_by\_us\<close>.
\<close>

theorem delayed_by_us_saturation_stops:
  assumes "uint (to_us_since_boot t) + uint us \<ge> 2 ^ 64"
  shows "delayed_by_us t us = None"
proof -
  have "to_us_since_boot t + us < to_us_since_boot t"
    using assms uint_plus_simple_iff [of "to_us_since_boot t" us] uint_add_lem [of "to_us_since_boot t" us]
    by (simp add: not_le [symmetric])
  then show ?thesis
    using max_not_in_range by (simp add: delayed_by_us_def Let_def update_us_since_boot_def)
qed

theorem delayed_by_us_saturation_stops_witness:
  "delayed_by_us (Absolute_time 1) (- 1) = None"
  by (rule delayed_by_us_saturation_stops)
    (simp add: to_us_since_boot_def unsigned_minus_1_eq_mask mask_eq_exp_minus_1)

end
