(* ===== verification/Pheap.thy ===== *)
theory Pheap
  imports Prelude "HOL-Library.Tree" "HOL-Library.Tree_Multiset"
begin

text \<open>
  The pairing heap of \<open>SDK/pico/pico_util/pheap.c\<close> and its inline part \<open>pico/util/pheap.h\<close>.
  Nodes live in an array and name each other by ids 1..max\_nodes (0 is "none"); the heap
  stores no keys, the caller gives a comparator on ids. The ids are \<open>uint8_t\<close> in the
  default configuration; no operation computes an id beyond max\_nodes, so \<open>nat\<close> is used.
\<close>

section \<open>The data structure and its operations\<close>

record pheap_node =
  child :: nat
  sibling :: nat
  parent :: nat

record pheap =
  nodes :: "pheap_node list"
  max_nodes :: nat
  root_id :: nat
  free_head_id :: nat
  free_tail_id :: nat

type_synonym comparator = "nat \<Rightarrow> nat \<Rightarrow> bool"

definition ph_get_node :: "pheap \<Rightarrow> nat \<Rightarrow> pheap_node option" where
  "ph_get_node hp nid = do {
     c_assert (nid \<noteq> 0 \<and> nid \<le> max_nodes hp);
     c_read (nodes hp) (nid - 1) }"

text \<open>A store through the pointer \<open>ph_get_node\<close> returns.\<close>

definition ph_set_node :: "pheap \<Rightarrow> nat \<Rightarrow> (pheap_node \<Rightarrow> pheap_node) \<Rightarrow> pheap option" where
  "ph_set_node hp nid f = do {
     n \<leftarrow> ph_get_node hp nid;
     ns \<leftarrow> c_write (nodes hp) (nid - 1) (f n);
     Some (hp\<lparr>nodes := ns\<rparr>) }"

definition ph_add_child_node :: "pheap \<Rightarrow> nat \<Rightarrow> nat \<Rightarrow> pheap option" where
  "ph_add_child_node hp parent_id child_id = do {
     n \<leftarrow> ph_get_node hp parent_id;
     c_assert (parent_id \<noteq> 0);
     c_assert (child_id \<noteq> 0);
     c_assert (parent_id \<noteq> child_id);
     h1 \<leftarrow> ph_set_node hp child_id (\<lambda>c. c\<lparr>parent := parent_id\<rparr>);
     if child n = 0 then ph_set_node h1 parent_id (\<lambda>n. n\<lparr>child := child_id\<rparr>)
     else do {
       h2 \<leftarrow> ph_set_node h1 child_id (\<lambda>c. c\<lparr>sibling := child n\<rparr>);
       ph_set_node h2 parent_id (\<lambda>n. n\<lparr>child := child_id\<rparr>) } }"

definition ph_merge_nodes :: "comparator \<Rightarrow> pheap \<Rightarrow> nat \<Rightarrow> nat \<Rightarrow> (nat \<times> pheap) option" where
  "ph_merge_nodes cmp hp a b =
     (if a = 0 then Some (b, hp)
      else if b = 0 then Some (a, hp)
      else if cmp a b then do { h \<leftarrow> ph_add_child_node hp a b; Some (a, h) }
      else do { h \<leftarrow> ph_add_child_node hp b a; Some (b, h) })"

text \<open>
  C leaves open in which order the two arguments of the outer \<open>ph_merge_nodes\<close> are
  evaluated; they work on disjoint nodes. The model evaluates them from left to right.
\<close>

partial_function (option) ph_merge_two_pass ::
    "comparator \<Rightarrow> pheap \<Rightarrow> nat \<Rightarrow> (nat \<times> pheap) option" where
  "ph_merge_two_pass cmp hp nid =
     (if nid = 0 then Some (nid, hp)
      else do {
        n \<leftarrow> ph_get_node hp nid;
        if sibling n = 0 then Some (nid, hp)
        else do {
          let a = nid;
          let b = sibling n;
          nb \<leftarrow> ph_get_node hp b;
          let new_node = sibling nb;
          h1 \<leftarrow> ph_set_node hp b (\<lambda>n. n\<lparr>sibling := 0\<rparr>);
          h2 \<leftarrow> ph_set_node h1 a (\<lambda>n. n\<lparr>sibling := 0\<rparr>);
          (m, h3) \<leftarrow> ph_merge_nodes cmp h2 a b;
          (r, h4) \<leftarrow> ph_merge_two_pass cmp h3 new_node;
          ph_merge_nodes cmp h4 m r } })"

declare ph_merge_two_pass.simps [code]

definition ph_append_free :: "pheap \<Rightarrow> nat \<Rightarrow> pheap option" where
  "ph_append_free hp nid = do {
     h \<leftarrow> (if free_tail_id hp \<noteq> 0
          then ph_set_node hp (free_tail_id hp) (\<lambda>n. n\<lparr>sibling := nid\<rparr>) else Some hp);
     Some (h\<lparr>free_tail_id := nid\<rparr>) }"

definition ph_remove_any_head ::
    "comparator \<Rightarrow> pheap \<Rightarrow> nat \<Rightarrow> bool \<Rightarrow> (nat \<times> pheap) option" where
  "ph_remove_any_head cmp hp rid free = do {
     c_assert (rid \<noteq> 0);
     n \<leftarrow> ph_get_node hp rid;
     c_assert (sibling n = 0);
     c_assert (parent n = 0);
     (new_root_id, h1) \<leftarrow> ph_merge_two_pass cmp hp (child n);
     h2 \<leftarrow> (if free then ph_append_free h1 rid else Some h1);
     h3 \<leftarrow> (if new_root_id \<noteq> 0 then ph_set_node h2 new_root_id (\<lambda>n. n\<lparr>parent := 0\<rparr>) else Some h2);
     h4 \<leftarrow> ph_set_node h3 rid (\<lambda>n. n\<lparr>sibling := 0\<rparr>);
     Some (new_root_id, h4) }"

definition ph_peek_head :: "pheap \<Rightarrow> nat" where
  "ph_peek_head hp = root_id hp"

definition ph_remove_head :: "comparator \<Rightarrow> pheap \<Rightarrow> bool \<Rightarrow> (nat \<times> pheap) option" where
  "ph_remove_head cmp hp free = do {
     let old_root_id = ph_peek_head hp;
     (r, h) \<leftarrow> ph_remove_any_head cmp hp old_root_id free;
     Some (old_root_id, h\<lparr>root_id := r\<rparr>) }"

definition ph_remove_and_free_head :: "comparator \<Rightarrow> pheap \<Rightarrow> (nat \<times> pheap) option" where
  "ph_remove_and_free_head cmp hp = ph_remove_head cmp hp True"

text \<open>The \<open>do ... while\<close> search for the previous sibling in \<open>ph_remove_and_free_node\<close>.\<close>

partial_function (option) ph_unlink_sibling ::
    "pheap \<Rightarrow> nat \<Rightarrow> nat \<Rightarrow> (bool \<times> pheap) option" where
  "ph_unlink_sibling hp prev_sibling_id nid = do {
     prev_sibling \<leftarrow> ph_get_node hp prev_sibling_id;
     if sibling prev_sibling = nid then do {
       node \<leftarrow> ph_get_node hp nid;
       h \<leftarrow> ph_set_node hp prev_sibling_id (\<lambda>n. n\<lparr>sibling := sibling node\<rparr>);
       Some (True, h) }
     else if sibling prev_sibling = 0 then Some (False, hp)
     else ph_unlink_sibling hp (sibling prev_sibling) nid }"

declare ph_unlink_sibling.simps [code]

definition ph_remove_and_free_node :: "comparator \<Rightarrow> pheap \<Rightarrow> nat \<Rightarrow> (bool \<times> pheap) option" where
  "ph_remove_and_free_node cmp hp nid =
     (if nid = 0 then Some (False, hp)
      else if nid = root_id hp then do {
        (_, h) \<leftarrow> ph_remove_and_free_head cmp hp; Some (True, h) }
      else do {
        node \<leftarrow> ph_get_node hp nid;
        if parent node = 0 then Some (False, hp)
        else do {
          par \<leftarrow> ph_get_node hp (parent node);
          h1 \<leftarrow> (if child par = nid
                then ph_set_node hp (parent node) (\<lambda>n. n\<lparr>child := sibling node\<rparr>)
                else do {
                  (found, h) \<leftarrow> ph_unlink_sibling hp (child par) nid;
                  c_assert found;
                  Some h });
          h2 \<leftarrow> ph_set_node h1 nid (\<lambda>n. n\<lparr>parent := 0, sibling := 0\<rparr>);
          (new_sub_tree, h3) \<leftarrow> ph_remove_any_head cmp h2 nid True;
          c_assert (new_sub_tree \<noteq> root_id h3);
          (r, h4) \<leftarrow> ph_merge_nodes cmp h3 (root_id h3) new_sub_tree;
          Some (True, h4\<lparr>root_id := r\<rparr>) } })"

definition ph_new_node :: "pheap \<Rightarrow> (nat \<times> pheap) option" where
  "ph_new_node hp =
     (if free_head_id hp = 0 then Some (0, hp)
      else do {
        let nid = free_head_id hp;
        hn \<leftarrow> ph_get_node hp nid;
        let h1 = hp\<lparr>free_head_id := sibling hn\<rparr>;
        let h2 = (if free_head_id h1 = 0 then h1\<lparr>free_tail_id := 0\<rparr> else h1);
        h3 \<leftarrow> ph_set_node h2 nid (\<lambda>n. n\<lparr>parent := 0, sibling := 0, child := 0\<rparr>);
        Some (nid, h3) })"

definition ph_insert_node :: "comparator \<Rightarrow> pheap \<Rightarrow> nat \<Rightarrow> (nat \<times> pheap) option" where
  "ph_insert_node cmp hp nid = do {
     c_assert (nid \<noteq> 0);
     h1 \<leftarrow> ph_set_node hp nid (\<lambda>n. n\<lparr>parent := 0, sibling := 0, child := 0\<rparr>);
     (r, h2) \<leftarrow> ph_merge_nodes cmp h1 (root_id h1) nid;
     let h3 = h2\<lparr>root_id := r\<rparr>;
     Some (root_id h3, h3) }"

definition ph_contains_node :: "pheap \<Rightarrow> nat \<Rightarrow> bool option" where
  "ph_contains_node hp nid =
     (if nid = root_id hp then Some True
      else do { n \<leftarrow> ph_get_node hp nid; Some (parent n \<noteq> 0) })"

definition ph_free_node :: "pheap \<Rightarrow> nat \<Rightarrow> pheap option" where
  "ph_free_node hp nid = do {
     c_assert (nid \<noteq> 0);
     inside \<leftarrow> ph_contains_node hp nid;
     c_assert (\<not> inside);
     ph_append_free hp nid }"

text \<open>\<open>for (i = 1; i < max_nodes; i++)\<close>: the free list runs through all ids in order.\<close>

fun ph_link_free :: "nat list \<Rightarrow> pheap \<Rightarrow> pheap option" where
  "ph_link_free [] hp = Some hp"
| "ph_link_free (i # is) hp = do {
     h \<leftarrow> ph_set_node hp i (\<lambda>n. n\<lparr>sibling := i + 1\<rparr>);
     ph_link_free is h }"

definition ph_clear :: "pheap \<Rightarrow> pheap option" where
  "ph_clear hp = do {
     let h0 = hp\<lparr>root_id := 0, free_head_id := 1, free_tail_id := max_nodes hp\<rparr>;
     h1 \<leftarrow> ph_link_free [1..<max_nodes h0] h0;
     ph_set_node h1 (max_nodes h1) (\<lambda>n. n\<lparr>sibling := 0\<rparr>) }"

definition ph_post_alloc_init :: "pheap \<Rightarrow> nat \<Rightarrow> pheap option" where
  "ph_post_alloc_init hp n = do {
     c_assert (\<not> (n = 0 \<or> n \<ge> 2 ^ 8));
     ph_clear (hp\<lparr>max_nodes := n\<rparr>) }"

definition zero_node :: pheap_node where
  "zero_node = \<lparr>child = 0, sibling = 0, parent = 0\<rparr>"

text \<open>\<open>calloc\<close> gives zeroed memory; a failed allocation is not modelled.\<close>

definition ph_create :: "nat \<Rightarrow> pheap option" where
  "ph_create n = do {
     c_assert (\<not> (n = 0 \<or> n \<ge> 2 ^ 8));
     ph_post_alloc_init \<lparr>nodes = replicate n zero_node, max_nodes = 0, root_id = 0,
       free_head_id = 0, free_tail_id = 0\<rparr> n }"

end
