(* ===== verification/Pheap_Tree.thy ===== *)
theory Pheap_Tree
  imports Pheap
begin

text \<open>
  The abstract view of the pairing heap: a forest of siblings is a binary tree whose left
  child is the forest of children and whose right child is the forest of later siblings.
  The pointer operations of \<open>Pheap\<close> are shown to compute the functional operations on
  these trees, and these to keep the ids and the heap order.
\<close>

section \<open>Functional pairing heap\<close>

fun tmerge :: "(nat \<Rightarrow> 'k :: linorder) \<Rightarrow> nat tree \<Rightarrow> nat tree \<Rightarrow> nat tree" where
  "tmerge key Leaf t = t"
| "tmerge key t Leaf = t"
| "tmerge key (Node ca a sa) (Node cb b sb) =
     (if key a < key b then Node (Node cb b ca) a Leaf else Node (Node ca a cb) b Leaf)"

fun ttwo :: "(nat \<Rightarrow> 'k :: linorder) \<Rightarrow> nat tree \<Rightarrow> nat tree" where
  "ttwo key Leaf = Leaf"
| "ttwo key (Node c i Leaf) = Node c i Leaf"
| "ttwo key (Node c i (Node d j s)) =
     tmerge key (tmerge key (Node c i Leaf) (Node d j Leaf)) (ttwo key s)"

fun root_of :: "nat tree \<Rightarrow> nat" where
  "root_of Leaf = 0"
| "root_of (Node c i s) = i"

text \<open>A tree that stands for a heap: one root, no siblings.\<close>

fun single :: "nat tree \<Rightarrow> bool" where
  "single Leaf = True"
| "single (Node c i s) = (s = Leaf)"

fun ordered :: "(nat \<Rightarrow> 'k :: linorder) \<Rightarrow> nat tree \<Rightarrow> bool" where
  "ordered key Leaf = True"
| "ordered key (Node c i s) =
     ((\<forall>j \<in> set_tree c. key i \<le> key j) \<and> ordered key c \<and> ordered key s)"

text \<open>The children of \<open>i\<close>, and the forest without the subtree of \<open>i\<close>.\<close>

fun kids_of :: "nat \<Rightarrow> nat tree \<Rightarrow> nat tree" where
  "kids_of i Leaf = Leaf"
| "kids_of i (Node c j s) =
     (if i = j then c else if i \<in> set_tree c then kids_of i c else kids_of i s)"

fun unlink :: "nat \<Rightarrow> nat tree \<Rightarrow> nat tree" where
  "unlink i Leaf = Leaf"
| "unlink i (Node c j s) = (if i = j then s else Node (unlink i c) j (unlink i s))"

lemma mset_tmerge:
  "single t1 \<Longrightarrow> single t2 \<Longrightarrow> mset_tree (tmerge key t1 t2) = mset_tree t1 + mset_tree t2"
  by (induction key t1 t2 rule: tmerge.induct) auto

lemma single_tmerge: "single t1 \<Longrightarrow> single t2 \<Longrightarrow> single (tmerge key t1 t2)"
  by (induction key t1 t2 rule: tmerge.induct) auto

lemma single_ttwo: "single (ttwo key t)"
  by (induction key t rule: ttwo.induct) (auto simp: single_tmerge)

lemma mset_ttwo: "mset_tree (ttwo key t) = mset_tree t"
  by (induction key t rule: ttwo.induct) (auto simp: mset_tmerge single_tmerge single_ttwo)

lemma set_mset_tree_eq: "mset_tree t = mset_tree u \<Longrightarrow> set_tree t = set_tree u"
  by (metis set_mset_tree)

lemma set_tmerge:
  "single t1 \<Longrightarrow> single t2 \<Longrightarrow> set_tree (tmerge key t1 t2) = set_tree t1 \<union> set_tree t2"
  by (metis mset_tmerge set_mset_tree set_mset_union)

lemma set_ttwo [simp]: "set_tree (ttwo key t) = set_tree t"
  by (rule set_mset_tree_eq) (rule mset_ttwo)

lemma ordered_tmerge:
  "ordered key t1 \<Longrightarrow> ordered key t2 \<Longrightarrow> single t1 \<Longrightarrow> single t2 \<Longrightarrow> ordered key (tmerge key t1 t2)"
proof (induction key t1 t2 rule: tmerge.induct)
  case (3 key ca a sa cb b sb)
  then show ?case by (auto intro: order_trans less_imp_le simp: not_less)
qed auto

lemma ordered_ttwo: "ordered key t \<Longrightarrow> ordered key (ttwo key t)"
  by (induction key t rule: ttwo.induct)
    (auto intro!: ordered_tmerge single_tmerge single_ttwo simp del: tmerge.simps)

lemma ordered_root: "ordered key t \<Longrightarrow> single t \<Longrightarrow> j \<in> set_tree t \<Longrightarrow> key (root_of t) \<le> key j"
  by (cases t) auto

lemma ordered_cong:
  "(\<And>i. i \<in> set_tree t \<Longrightarrow> key i = key' i) \<Longrightarrow> ordered key t = ordered key' t"
  by (induction t) auto

lemma distinct_mset_eq: "mset_tree t = mset_tree u \<Longrightarrow> distinct (inorder t) = distinct (inorder u)"
  by (rule mset_eq_imp_distinct_iff) simp

lemma unlink_notin: "i \<notin> set_tree t \<Longrightarrow> unlink i t = t"
  by (induction t) auto

lemma kids_of_notin: "i \<notin> set_tree t \<Longrightarrow> kids_of i t = Leaf"
  by (induction t) auto

lemma mset_unlink:
  "i \<in> set_tree t \<Longrightarrow> distinct (inorder t) \<Longrightarrow>
     mset_tree t = add_mset i (mset_tree (unlink i t) + mset_tree (kids_of i t))"
proof (induction t)
  case Leaf
  then show ?case by simp
next
  case (Node c j s)
  have d: "distinct (inorder c)" "distinct (inorder s)" "set_tree c \<inter> set_tree s = {}"
    using Node.prems(2) by auto
  consider "i = j" | "i \<noteq> j" "i \<in> set_tree c" "i \<notin> set_tree s"
    | "i \<noteq> j" "i \<notin> set_tree c" "i \<in> set_tree s"
    using Node.prems(1) d(3) by auto
  then show ?case
  proof cases
    case 1
    then show ?thesis by (simp add: ac_simps)
  next
    case 2
    with Node.IH(1) [OF 2(2) d(1)] show ?thesis by (simp add: unlink_notin)
  next
    case 3
    with Node.IH(2) [OF 3(3) d(2)] show ?thesis by (simp add: unlink_notin)
  qed
qed

lemma ordered_kids_of: "ordered key t \<Longrightarrow> ordered key (kids_of i t)"
  by (induction t) auto

lemma set_unlink_subset: "set_tree (unlink i t) \<subseteq> set_tree t"
  by (induction t) auto

lemma ordered_unlink: "ordered key t \<Longrightarrow> ordered key (unlink i t)"
proof (induction t)
  case (Node c j s)
  then show ?case using set_unlink_subset [of i c] by auto
qed simp

lemma single_unlink: "single t \<Longrightarrow> i \<noteq> root_of t \<Longrightarrow> single (unlink i t)"
  by (cases t) auto

section \<open>Trees in the node array\<close>

text \<open>\<open>rep N p i t\<close>: the sibling list that starts at id \<open>i\<close> is \<open>t\<close>, and its nodes have parent \<open>p\<close>.\<close>

primrec rep :: "(nat \<Rightarrow> pheap_node) \<Rightarrow> nat \<Rightarrow> nat \<Rightarrow> nat tree \<Rightarrow> bool" where
  "rep N p i Leaf = (i = 0)"
| "rep N p i (Node c j s) =
     (i = j \<and> i \<noteq> 0 \<and> parent (N i) = p \<and> rep N i (child (N i)) c \<and> rep N p (sibling (N i)) s)"

text \<open>A heap whose root is \<open>i\<close>; the parent field of the root is not constrained.\<close>

definition rooted :: "(nat \<Rightarrow> pheap_node) \<Rightarrow> nat \<Rightarrow> nat tree \<Rightarrow> bool" where
  "rooted N i t = (case t of Leaf \<Rightarrow> i = 0
     | Node c j s \<Rightarrow> i = j \<and> i \<noteq> 0 \<and> s = Leaf \<and> sibling (N i) = 0 \<and> rep N i (child (N i)) c)"

lemma rooted_Leaf [simp]: "rooted N i Leaf = (i = 0)"
  and rooted_Node [simp]: "rooted N i (Node c j s) =
    (i = j \<and> i \<noteq> 0 \<and> s = Leaf \<and> sibling (N i) = 0 \<and> rep N i (child (N i)) c)"
  by (simp_all add: rooted_def)

lemma rooted_single: "rooted N i t \<Longrightarrow> single t"
  by (cases t) auto

lemma rooted_root: "rooted N i t \<Longrightarrow> root_of t = i"
  by (cases t) auto

lemma rooted_zero: "rooted N 0 t \<longleftrightarrow> t = Leaf"
  by (cases t) auto

lemma rooted_nonzero: "rooted N i t \<Longrightarrow> i \<noteq> 0 \<Longrightarrow> \<exists>c. t = Node c i Leaf"
  by (cases t) auto

lemma rep_cong:
  "(\<And>j. j \<in> set_tree t \<Longrightarrow> N j = M j) \<Longrightarrow> rep N p i t = rep M p i t"
proof (induction t arbitrary: p i)
  case (Node c j s)
  have "N j = M j" by (rule Node.prems) simp
  moreover have "rep N q k c = rep M q k c" "rep N q k s = rep M q k s" for q k
    by (rule Node.IH; simp add: Node.prems)+
  ultimately show ?case by (cases "i = j") simp_all
qed simp

lemma rooted_cong:
  "(\<And>j. j \<in> set_tree t \<Longrightarrow> N j = M j) \<Longrightarrow> rooted N i t = rooted M i t"
proof (cases t)
  case (Node c j s)
  assume eq: "\<And>j. j \<in> set_tree t \<Longrightarrow> N j = M j"
  then have "N j = M j" by (simp add: Node)
  moreover have "rep N q k c = rep M q k c" for q k
    by (rule rep_cong) (simp add: eq Node)
  ultimately show ?thesis by (cases "i = j") (simp_all add: Node)
qed simp

lemma rep_nonzero: "rep N p i t \<Longrightarrow> j \<in> set_tree t \<Longrightarrow> j \<noteq> 0"
  by (induction t arbitrary: p i) auto

lemma rooted_nz: "rooted N i t \<Longrightarrow> j \<in> set_tree t \<Longrightarrow> j \<noteq> 0"
  by (cases t) (auto dest: rep_nonzero)

lemma rep_root: "rep N p i t \<Longrightarrow> i = root_of t"
  by (cases t) auto

section \<open>Node updates\<close>

definition nd :: "pheap \<Rightarrow> nat \<Rightarrow> pheap_node" where
  "nd h i = nodes h ! (i - 1)"

definition wf_nodes :: "pheap \<Rightarrow> bool" where
  "wf_nodes h \<longleftrightarrow> length (nodes h) = max_nodes h"

definition put_node :: "pheap \<Rightarrow> nat \<Rightarrow> (pheap_node \<Rightarrow> pheap_node) \<Rightarrow> pheap" where
  "put_node h i f = h\<lparr>nodes := (nodes h)[i - 1 := f (nd h i)]\<rparr>"

text \<open>\<open>frame h h' A\<close>: from \<open>h\<close> to \<open>h'\<close> only nodes of \<open>A\<close> changed, and nothing but nodes.\<close>

definition frame :: "pheap \<Rightarrow> pheap \<Rightarrow> nat set \<Rightarrow> bool" where
  "frame h h' A \<longleftrightarrow> h' = h\<lparr>nodes := nodes h'\<rparr> \<and> wf_nodes h'
     \<and> (\<forall>j. j \<noteq> 0 \<longrightarrow> j \<notin> A \<longrightarrow> nd h' j = nd h j)"

lemma ph_get_node_eq [simp]:
  "wf_nodes h \<Longrightarrow> i \<noteq> 0 \<Longrightarrow> i \<le> max_nodes h \<Longrightarrow> ph_get_node h i = Some (nd h i)"
  by (simp add: ph_get_node_def wf_nodes_def nd_def)

lemma ph_set_node_eq [simp]:
  "wf_nodes h \<Longrightarrow> i \<noteq> 0 \<Longrightarrow> i \<le> max_nodes h \<Longrightarrow> ph_set_node h i f = Some (put_node h i f)"
  by (simp add: ph_set_node_def put_node_def) (simp add: wf_nodes_def)

lemma put_node_simps [simp]:
  "max_nodes (put_node h i f) = max_nodes h" "root_id (put_node h i f) = root_id h"
  "free_head_id (put_node h i f) = free_head_id h" "free_tail_id (put_node h i f) = free_tail_id h"
  "wf_nodes (put_node h i f) = wf_nodes h"
  by (simp_all add: put_node_def wf_nodes_def)

lemma meta_update_simps [simp]:
  "nd (h\<lparr>root_id := r\<rparr>) = nd h" "nd (h\<lparr>free_head_id := r\<rparr>) = nd h" "nd (h\<lparr>free_tail_id := r\<rparr>) = nd h"
  "wf_nodes (h\<lparr>root_id := r\<rparr>) = wf_nodes h" "wf_nodes (h\<lparr>free_head_id := r\<rparr>) = wf_nodes h"
  "wf_nodes (h\<lparr>free_tail_id := r\<rparr>) = wf_nodes h"
  by (simp_all add: nd_def fun_eq_iff wf_nodes_def)

lemma nd_put_node:
  "wf_nodes h \<Longrightarrow> i \<noteq> 0 \<Longrightarrow> i \<le> max_nodes h \<Longrightarrow> j \<noteq> 0 \<Longrightarrow>
     nd (put_node h i f) j = (if i = j then f (nd h i) else nd h j)"
  by (auto simp: nd_def put_node_def wf_nodes_def nth_list_update)

lemma frame_refl: "wf_nodes h \<Longrightarrow> frame h h A"
  by (simp add: frame_def)

lemma frame_put: "wf_nodes h \<Longrightarrow> i \<noteq> 0 \<Longrightarrow> i \<le> max_nodes h \<Longrightarrow> i \<in> A \<Longrightarrow> frame h (put_node h i f) A"
  unfolding frame_def by (intro conjI allI impI) (simp add: put_node_def, simp, auto simp: nd_put_node)

lemma frame_trans:
  "frame h h1 A \<Longrightarrow> frame h1 h2 B \<Longrightarrow> A \<union> B \<subseteq> insert 0 C \<Longrightarrow> frame h h2 C"
proof -
  assume f1: "frame h h1 A" and f2: "frame h1 h2 B" and s: "A \<union> B \<subseteq> insert 0 C"
  from f1 have e1: "h1 = h\<lparr>nodes := nodes h1\<rparr>" by (simp add: frame_def)
  from f2 have e2: "h2 = h1\<lparr>nodes := nodes h2\<rparr>" by (simp add: frame_def)
  have "h2 = h\<lparr>nodes := nodes h2\<rparr>" by (subst e2, subst e1) simp
  moreover have "nd h2 j = nd h j" if "j \<noteq> 0" "j \<notin> C" for j
  proof -
    from that s have "j \<notin> A" "j \<notin> B" by auto
    with that f1 f2 show ?thesis unfolding frame_def by metis
  qed
  moreover from f2 have "wf_nodes h2" by (simp add: frame_def)
  ultimately show ?thesis unfolding frame_def by blast
qed

lemma frame_mono: "frame h h1 A \<Longrightarrow> A \<subseteq> insert 0 B \<Longrightarrow> frame h h1 B"
  by (auto simp: frame_def)

lemma frame_meta:
  assumes "frame h h' A"
  shows "max_nodes h' = max_nodes h" "root_id h' = root_id h"
    "free_head_id h' = free_head_id h" "free_tail_id h' = free_tail_id h" "wf_nodes h'"
proof -
  from assms have e: "h' = h\<lparr>nodes := nodes h'\<rparr>" and w: "wf_nodes h'" by (simp_all add: frame_def)
  show "max_nodes h' = max_nodes h" by (subst e) simp
  show "root_id h' = root_id h" by (subst e) simp
  show "free_head_id h' = free_head_id h" by (subst e) simp
  show "free_tail_id h' = free_tail_id h" by (subst e) simp
  show "wf_nodes h'" by (rule w)
qed

lemma frame_nd: "frame h h' A \<Longrightarrow> j \<noteq> 0 \<Longrightarrow> j \<notin> A \<Longrightarrow> nd h' j = nd h j"
  by (simp add: frame_def)

lemma frame_rep:
  "frame h h' A \<Longrightarrow> rep (nd h) p i t \<Longrightarrow> set_tree t \<inter> A = {} \<Longrightarrow> rep (nd h') p i t"
  by (subst rep_cong [of t "nd h'" "nd h"]) (auto dest: rep_nonzero intro: frame_nd)

lemma frame_rooted:
  "frame h h' A \<Longrightarrow> rooted (nd h) i t \<Longrightarrow> set_tree t \<inter> A = {} \<Longrightarrow> rooted (nd h') i t"
  by (subst rooted_cong [of t "nd h'" "nd h"]) (auto dest: rooted_nz intro: frame_nd)

section \<open>Merging\<close>

abbreviation key_less :: "(nat \<Rightarrow> 'k :: linorder) \<Rightarrow> comparator" where
  "key_less key \<equiv> \<lambda>a b. key a < key b"

lemma ph_add_child_node_rep:
  assumes wf: "wf_nodes h"
    and a: "rooted (nd h) a (Node ca a Leaf)" and b: "rooted (nd h) b (Node cb b Leaf)"
    and d: "distinct (inorder (Node ca a Leaf) @ inorder (Node cb b Leaf))"
    and v: "a \<le> max_nodes h" "b \<le> max_nodes h"
  shows "\<exists>h'. ph_add_child_node h a b = Some h' \<and> frame h h' {a, b}
    \<and> rooted (nd h') a (Node (Node cb b ca) a Leaf) \<and> parent (nd h' a) = parent (nd h a)"
proof -
  from a b have nz: "a \<noteq> 0" "b \<noteq> 0" by auto
  from d have ab: "a \<noteq> b" by auto
  let ?h1 = "put_node h b (\<lambda>c. c\<lparr>parent := a\<rparr>)"
  let ?h2 = "put_node ?h1 b (\<lambda>c. c\<lparr>sibling := child (nd h a)\<rparr>)"
  let ?h' = "put_node (if child (nd h a) = 0 then ?h1 else ?h2) a (\<lambda>n. n\<lparr>child := b\<rparr>)"
  have eq: "ph_add_child_node h a b = Some ?h'"
    using wf nz ab v by (simp add: ph_add_child_node_def)
  have f1: "frame h ?h1 {a, b}"
    by (rule frame_put) (use wf nz v in auto)
  have f2: "frame ?h1 ?h2 {a, b}"
    by (rule frame_put) (use wf nz v in auto)
  have "frame h (if child (nd h a) = 0 then ?h1 else ?h2) {a, b}"
    using f1 frame_trans [OF f1 f2] by simp
  moreover have "frame (if child (nd h a) = 0 then ?h1 else ?h2) ?h' {a, b}"
    by (rule frame_put) (use wf nz v in auto)
  ultimately have fr: "frame h ?h' {a, b}"
    by (rule frame_trans) simp
  have na: "nd ?h' a = (nd h a)\<lparr>child := b\<rparr>"
    and nb: "nd ?h' b = (nd h b)\<lparr>parent := a, sibling := child (nd h a)\<rparr>"
    using wf nz v ab b by (auto simp: nd_put_node)
  have "rep (nd ?h') a (child (nd h a)) ca"
    using a d by (intro frame_rep [OF fr]) auto
  moreover have "rep (nd ?h') b (child (nd h b)) cb"
    using b d by (intro frame_rep [OF fr]) auto
  ultimately have "rooted (nd ?h') a (Node (Node cb b ca) a Leaf)"
    using a nz by (simp add: na nb)
  with eq fr na show ?thesis by (intro exI [of _ ?h']) simp
qed

lemma ph_merge_nodes_rep:
  assumes wf: "wf_nodes h"
    and a: "rooted (nd h) a ta" and b: "rooted (nd h) b tb"
    and d: "distinct (inorder ta @ inorder tb)"
    and v: "set_tree ta \<union> set_tree tb \<subseteq> {1..max_nodes h}"
  shows "\<exists>h'. ph_merge_nodes (key_less key) h a b = Some (root_of (tmerge key ta tb), h')
    \<and> frame h h' {a, b} \<and> rooted (nd h') (root_of (tmerge key ta tb)) (tmerge key ta tb)
    \<and> parent (nd h' (root_of (tmerge key ta tb))) = parent (nd h (root_of (tmerge key ta tb)))"
proof (cases "a = 0 \<or> b = 0")
  case True
  then show ?thesis
  proof
    assume "a = 0"
    with a b wf show ?thesis
      by (auto simp: rooted_zero ph_merge_nodes_def rooted_root frame_refl)
  next
    assume b0: "b = 0"
    show ?thesis
    proof (cases "a = 0")
      case True
      with a b wf b0 show ?thesis
        by (auto simp: rooted_zero ph_merge_nodes_def frame_refl)
    next
      case False
      then obtain ca where "ta = Node ca a Leaf" using a rooted_nonzero by blast
      with a b wf b0 False show ?thesis
        by (auto simp: rooted_zero ph_merge_nodes_def frame_refl)
    qed
  qed
next
  case False
  then obtain ca cb where t: "ta = Node ca a Leaf" "tb = Node cb b Leaf"
    using a b rooted_nonzero by metis
  with v have ab: "a \<le> max_nodes h" "b \<le> max_nodes h" by auto
  show ?thesis
  proof (cases "key a < key b")
    case True
    from ph_add_child_node_rep [OF wf a [unfolded t] b [unfolded t] d [unfolded t] ab] True False
    show ?thesis by (auto simp: ph_merge_nodes_def t)
  next
    case k: False
    from d have d': "distinct (inorder tb @ inorder ta)" by auto
    from ph_add_child_node_rep [OF wf b [unfolded t] a [unfolded t] d' [unfolded t] ab(2,1)] k False
    show ?thesis by (auto simp: ph_merge_nodes_def t insert_commute)
  qed
qed

end
