(* ===== verification/Pheap_Correct.thy ===== *)
theory Pheap_Correct
  imports Pheap_Tree
begin

text \<open>
  The operations of \<open>pheap.c\<close> on a heap that represents a tree and a free list: they never
  stop, they compute the functional operations of \<open>Pheap_Tree\<close>, and they keep the heap
  order. From this follow the properties of the heap as a priority queue of ids.
\<close>

section \<open>The two-pass merge\<close>

lemma root_of_in: "t \<noteq> Leaf \<Longrightarrow> root_of t \<in> set_tree t"
  by (cases t) auto

lemma root_of_sub: "root_of t \<in> insert 0 (set_tree t)"
  by (cases t) auto

lemma ph_merge_nodes_sub:
  assumes "wf_nodes h" and a: "rooted (nd h) a ta" and b: "rooted (nd h) b tb"
    and "distinct (inorder ta @ inorder tb)" and "set_tree ta \<union> set_tree tb \<subseteq> {1..max_nodes h}"
  shows "\<exists>h'. ph_merge_nodes (key_less key) h a b = Some (root_of (tmerge key ta tb), h')
    \<and> frame h h' (set_tree ta \<union> set_tree tb)
    \<and> rooted (nd h') (root_of (tmerge key ta tb)) (tmerge key ta tb)
    \<and> parent (nd h' (root_of (tmerge key ta tb))) = parent (nd h (root_of (tmerge key ta tb)))"
proof -
  from rooted_root [OF a] rooted_root [OF b] root_of_sub [of ta] root_of_sub [of tb]
  have "{a, b} \<subseteq> insert 0 (set_tree ta \<union> set_tree tb)" by auto
  with ph_merge_nodes_rep [OF assms] show ?thesis by (blast intro: frame_mono)
qed

lemma ph_merge_two_pass_rep:
  assumes "wf_nodes h" and "rep (nd h) p i t" and "distinct (inorder t)"
    and "set_tree t \<subseteq> {1..max_nodes h}"
  shows "\<exists>h'. ph_merge_two_pass (key_less key) h i = Some (root_of (ttwo key t), h')
    \<and> frame h h' (set_tree t) \<and> rooted (nd h') (root_of (ttwo key t)) (ttwo key t)"
  using assms
proof (induction key t arbitrary: h i rule: ttwo.induct)
  case (1 key)
  then show ?case by (simp add: ph_merge_two_pass.simps frame_refl)
next
  case (2 key c i')
  then have "ph_merge_two_pass (key_less key) h i = Some (i', h)"
    by (subst ph_merge_two_pass.simps) auto
  with 2 show ?case by (intro exI [of _ h]) (auto simp: frame_refl)
next
  case (3 key c a d b s)
  let ?h1 = "put_node h b (\<lambda>n. n\<lparr>sibling := 0\<rparr>)"
  let ?h2 = "put_node ?h1 a (\<lambda>n. n\<lparr>sibling := 0\<rparr>)"
  let ?ta = "Node c a Leaf" and ?tb = "Node d b Leaf"
  let ?S = "{a} \<union> {b} \<union> set_tree c \<union> set_tree d"
  from "3.prems" have wf: "wf_nodes h" and ia: "i = a" and nz: "a \<noteq> 0" "b \<noteq> 0"
    and v: "a \<le> max_nodes h" "b \<le> max_nodes h" and sib: "sibling (nd h a) = b"
    and ra: "rep (nd h) a (child (nd h a)) c" and rb: "rep (nd h) b (child (nd h b)) d"
    and rs: "rep (nd h) p (sibling (nd h b)) s"
    and ds: "distinct (inorder s)" and dd: "distinct (inorder ?ta @ inorder ?tb)"
    and dis: "set_tree s \<inter> ?S = {}"
    by auto
  from dd have ab: "a \<noteq> b" by auto
  have f2: "frame h ?h2 {a, b}"
    by (rule frame_trans [OF frame_put frame_put]) (use wf nz v in auto)
  have na: "nd ?h2 a = (nd h a)\<lparr>sibling := 0\<rparr>" and nb: "nd ?h2 b = (nd h b)\<lparr>sibling := 0\<rparr>"
    using wf nz v ab by (auto simp: nd_put_node)
  have "rep (nd ?h2) a (child (nd h a)) c" "rep (nd ?h2) b (child (nd h b)) d"
    using ra rb dd by (auto intro!: frame_rep [OF f2])
  then have t2: "rooted (nd ?h2) a ?ta" "rooted (nd ?h2) b ?tb"
    by (simp_all add: na nb nz)
  define tm where "tm = tmerge key ?ta ?tb"
  have tt: "ttwo key (Node c a (Node d b s)) = tmerge key tm (ttwo key s)"
    by (simp add: tm_def)
  have "set_tree ?ta \<union> set_tree ?tb \<subseteq> {1..max_nodes ?h2}" using "3.prems"(4) by auto
  from ph_merge_nodes_sub [OF _ t2 dd this, of key] wf
  obtain h3 where m1: "ph_merge_nodes (key_less key) ?h2 a b = Some (root_of tm, h3)"
    and f3: "frame ?h2 h3 (set_tree ?ta \<union> set_tree ?tb)"
    and r3: "rooted (nd h3) (root_of tm) tm"
    unfolding tm_def by (simp del: tmerge.simps) blast
  have fh3: "frame h h3 ?S"
    by (rule frame_trans [OF f2 f3]) auto
  have "rep (nd h3) p (sibling (nd h b)) s"
    using rs dis by (intro frame_rep [OF fh3]) auto
  from "3.IH" [OF frame_meta(5) [OF fh3] this ds] "3.prems"(4)
  obtain h4 where p4: "ph_merge_two_pass (key_less key) h3 (sibling (nd h b)) = Some (root_of (ttwo key s), h4)"
    and f4: "frame h3 h4 (set_tree s)" and r4: "rooted (nd h4) (root_of (ttwo key s)) (ttwo key s)"
    by (auto simp: frame_meta(1) [OF fh3])
  have tset: "set_tree tm = ?S" unfolding tm_def by (subst set_tmerge) auto
  have r3': "rooted (nd h4) (root_of tm) tm"
    using dis by (intro frame_rooted [OF f4 r3]) (auto simp: tset)
  have "distinct (inorder tm)"
    using dd unfolding tm_def by (subst distinct_mset_eq [of _ "Node (Node c a Leaf) b d"]) (auto simp: mset_tmerge simp del: tmerge.simps)
  then have d4: "distinct (inorder tm @ inorder (ttwo key s))"
    using ds dis distinct_mset_eq [OF mset_ttwo [of key s]] tset by (auto simp: Int_commute)
  have "set_tree tm \<union> set_tree (ttwo key s) \<subseteq> {1..max_nodes h4}"
    using "3.prems"(4) by (auto simp: tset frame_meta(1) [OF f4] frame_meta(1) [OF fh3])
  from ph_merge_nodes_sub [OF frame_meta(5) [OF f4] r3' r4 d4 this, of key]
  obtain h5 where m5: "ph_merge_nodes (key_less key) h4 (root_of tm) (root_of (ttwo key s))
      = Some (root_of (ttwo key (Node c a (Node d b s))), h5)"
    and f5: "frame h4 h5 (?S \<union> set_tree s)"
    and r5: "rooted (nd h5) (root_of (ttwo key (Node c a (Node d b s)))) (ttwo key (Node c a (Node d b s)))"
    unfolding tt by (simp add: tset del: tmerge.simps) blast
  have "frame h h5 (set_tree (Node c a (Node d b s)))"
    by (rule frame_trans [OF frame_trans [OF fh3 f4 subset_insertI] f5]) auto
  moreover have "ph_merge_two_pass (key_less key) h i = Some (root_of (ttwo key (Node c a (Node d b s))), h5)"
    using wf nz v ia by (subst ph_merge_two_pass.simps) (simp add: sib m1 p4 m5)
  ultimately show ?case using r5 by blast
qed

section \<open>Unlinking a node\<close>

text \<open>The part of \<open>ph_remove_and_free_node\<close> that takes a node out of its sibling list.\<close>

definition unlink_at :: "pheap \<Rightarrow> nat \<Rightarrow> pheap option" where
  "unlink_at h x = do {
     par \<leftarrow> ph_get_node h (parent (nd h x));
     if child par = x
     then ph_set_node h (parent (nd h x)) (\<lambda>n. n\<lparr>child := sibling (nd h x)\<rparr>)
     else do {
       (found, h') \<leftarrow> ph_unlink_sibling h (child par) x;
       c_assert found;
       Some h' } }"

lemma rep_parent: "rep N p i t \<Longrightarrow> j \<in> set_tree t \<Longrightarrow> parent (N j) \<in> insert p (set_tree t)"
  by (induction t arbitrary: p i) auto

lemma rep_kids_of:
  "rep N p i t \<Longrightarrow> j \<in> set_tree t \<Longrightarrow> rep N j (child (N j)) (kids_of j t)"
  by (induction t arbitrary: p i) auto

lemma rep_unlink_first: "rep N p x t \<Longrightarrow> x \<noteq> 0 \<Longrightarrow> rep N p (sibling (N x)) (unlink x t)"
  by (cases t) auto

lemma ph_unlink_sibling_rep:
  assumes "wf_nodes h" and "rep (nd h) p i t" and "distinct (inorder t)"
    and "set_tree t \<subseteq> {1..max_nodes h}" and "x \<in> set_tree t" and "parent (nd h x) = p"
    and "p \<notin> set_tree t" and "i \<noteq> x"
  shows "\<exists>h'. ph_unlink_sibling h i x = Some (True, h') \<and> frame h h' (set_tree (unlink x t))
    \<and> rep (nd h') p i (unlink x t)"
  using assms
proof (induction t arbitrary: i)
  case Leaf
  then show ?case by simp
next
  case (Node c j s)
  from Node.prems have ij: "j = i" and i: "i \<noteq> 0" "i \<le> max_nodes h" "i \<noteq> x"
    and rc: "rep (nd h) i (child (nd h i)) c" and rs: "rep (nd h) p (sibling (nd h i)) s"
    and ds: "distinct (inorder s)" and dis: "i \<notin> set_tree c \<union> set_tree s" "set_tree c \<inter> set_tree s = {}"
    by auto
  have xc: "x \<notin> set_tree c"
  proof
    assume "x \<in> set_tree c"
    from rep_parent [OF rc this] Node.prems(6,7) ij show False by auto
  qed
  with Node.prems(5) i ij have xs: "x \<in> set_tree s" by auto
  with Node.prems(4) have x: "x \<noteq> 0" "x \<le> max_nodes h" by auto
  show ?case
  proof (cases "sibling (nd h i) = x")
    case True
    let ?h' = "put_node h i (\<lambda>n. n\<lparr>sibling := sibling (nd h x)\<rparr>)"
    have fr: "frame h ?h' {i}"
      by (rule frame_put) (use Node.prems(1) i in auto)
    have "rep (nd ?h') p (sibling (nd h x)) (unlink x s)"
      using rs True x dis set_unlink_subset [of x s]
      by (intro frame_rep [OF fr rep_unlink_first]) auto
    moreover have "rep (nd ?h') i (child (nd h i)) c"
      using dis by (intro frame_rep [OF fr rc]) auto
    moreover have "ph_unlink_sibling h i x = Some (True, ?h')"
      using True Node.prems(1) i x by (subst ph_unlink_sibling.simps) simp
    moreover have "frame h ?h' (set_tree (unlink x (Node c j s)))"
      by (rule frame_mono [OF fr]) (use ij i in auto)
    ultimately show ?thesis
      using ij i Node.prems(1,2) by (intro exI [of _ ?h']) (auto simp: nd_put_node unlink_notin [OF xc])
  next
    case False
    have "set_tree s \<subseteq> {1..max_nodes h}" "p \<notin> set_tree s" using Node.prems(4,7) by auto
    from Node.IH(2) [OF Node.prems(1) rs ds this(1) xs Node.prems(6) this(2) False]
    obtain h' where h': "ph_unlink_sibling h (sibling (nd h i)) x = Some (True, h')"
      and fr: "frame h h' (set_tree (unlink x s))" and r': "rep (nd h') p (sibling (nd h i)) (unlink x s)"
      by blast
    have ne: "sibling (nd h i) \<noteq> 0" using rs xs by (cases s) auto
    have "nd h' i = nd h i" using frame_nd [OF fr i(1)] dis set_unlink_subset [of x s] by auto
    moreover have "rep (nd h') i (child (nd h i)) c"
      using dis set_unlink_subset [of x s] by (intro frame_rep [OF fr rc]) auto
    moreover have "ph_unlink_sibling h i x = Some (True, h')"
      using False h' ne Node.prems(1) i by (subst ph_unlink_sibling.simps) simp
    moreover have "frame h h' (set_tree (unlink x (Node c j s)))"
      by (rule frame_mono [OF fr]) (use ij i in auto)
    ultimately show ?thesis
      using ij i r' Node.prems(2) by (intro exI [of _ h']) (auto simp: unlink_notin [OF xc])
  qed
qed

lemma unlink_at_rep:
  assumes "wf_nodes h" and "rep (nd h) p i t" and "distinct (inorder t)"
    and "set_tree t \<subseteq> {1..max_nodes h}" and "x \<in> set_tree t" and "parent (nd h x) \<noteq> p"
    and "p \<notin> set_tree t"
  shows "\<exists>h'. unlink_at h x = Some h' \<and> frame h h' (set_tree (unlink x t))
    \<and> rep (nd h') p i (unlink x t)"
  using assms
proof (induction t arbitrary: p i)
  case Leaf
  then show ?case by simp
next
  case (Node c j s)
  from Node.prems have ij: "j = i" and i: "i \<noteq> 0" "i \<le> max_nodes h"
    and par: "parent (nd h i) = p"
    and rc: "rep (nd h) i (child (nd h i)) c" and rs: "rep (nd h) p (sibling (nd h i)) s"
    and dc: "distinct (inorder c)" and ds: "distinct (inorder s)"
    and dis: "i \<notin> set_tree c \<union> set_tree s" "set_tree c \<inter> set_tree s = {}"
    and sc: "set_tree c \<subseteq> {1..max_nodes h}" and ss: "set_tree s \<subseteq> {1..max_nodes h}"
    and ps: "p \<notin> set_tree s" and ic: "i \<notin> set_tree c"
    by auto
  from Node.prems(6) par have xi: "x \<noteq> i" by auto
  show ?case
  proof (cases "x \<in> set_tree c")
    case xc: True
    with dis have xs: "x \<notin> set_tree s" by auto
    have "\<exists>h'. unlink_at h x = Some h' \<and> frame h h' (insert i (set_tree (unlink x c)))
      \<and> rep (nd h') i (child (nd h' i)) (unlink x c) \<and> parent (nd h' i) = parent (nd h i)
      \<and> sibling (nd h' i) = sibling (nd h i)"
    proof (cases "parent (nd h x) = i")
      case pi: True
      show ?thesis
      proof (cases "child (nd h i) = x")
        case True
        let ?h' = "put_node h i (\<lambda>n. n\<lparr>child := sibling (nd h x)\<rparr>)"
        have fr: "frame h ?h' {i}"
          by (rule frame_put) (use Node.prems(1) i in auto)
        have "rep (nd ?h') i (sibling (nd h x)) (unlink x c)"
          using rc True ic xc sc set_unlink_subset [of x c]
          by (intro frame_rep [OF fr rep_unlink_first]) auto
        moreover have "frame h ?h' (insert i (set_tree (unlink x c)))"
          by (rule frame_mono [OF fr]) (use xi in auto)
        ultimately show ?thesis
          using True pi Node.prems(1) i by (intro exI [of _ ?h']) (simp add: unlink_at_def nd_put_node)
      next
        case False
        from ph_unlink_sibling_rep [OF Node.prems(1) rc dc sc xc pi ic False]
        obtain h' where h': "ph_unlink_sibling h (child (nd h i)) x = Some (True, h')"
          and fr: "frame h h' (set_tree (unlink x c))" and r': "rep (nd h') i (child (nd h i)) (unlink x c)"
          by blast
        have "nd h' i = nd h i" using frame_nd [OF fr i(1)] ic set_unlink_subset [of x c] by auto
        moreover have "frame h h' (insert i (set_tree (unlink x c)))"
          by (rule frame_mono [OF fr]) auto
        ultimately show ?thesis
          using h' r' pi Node.prems(1) i False by (simp add: unlink_at_def)
      qed
    next
      case False
      from Node.IH(1) [OF Node.prems(1) rc dc sc xc False ic]
      obtain h' where "unlink_at h x = Some h'" and fr: "frame h h' (set_tree (unlink x c))"
        and "rep (nd h') i (child (nd h i)) (unlink x c)" by blast
      moreover have "nd h' i = nd h i" using frame_nd [OF fr i(1)] ic set_unlink_subset [of x c] by auto
      moreover have "frame h h' (insert i (set_tree (unlink x c)))"
        by (rule frame_mono [OF fr]) auto
      ultimately show ?thesis by simp
    qed
    then obtain h' where h': "unlink_at h x = Some h'"
      and fr: "frame h h' (insert i (set_tree (unlink x c)))"
      and r': "rep (nd h') i (child (nd h' i)) (unlink x c)"
      and pi': "parent (nd h' i) = parent (nd h i)" "sibling (nd h' i) = sibling (nd h i)"
      by blast
    have "rep (nd h') p (sibling (nd h i)) s"
      using dis set_unlink_subset [of x c] by (intro frame_rep [OF fr rs]) auto
    moreover have "frame h h' (set_tree (unlink x (Node c j s)))"
      by (rule frame_mono [OF fr]) (use ij xi in auto)
    ultimately show ?thesis
      using h' r' pi' ij i xi par by (intro exI [of _ h']) (auto simp: unlink_notin [OF xs])
  next
    case xc: False
    with Node.prems(5) xi ij have xs: "x \<in> set_tree s" by auto
    from Node.IH(2) [OF Node.prems(1) rs ds ss xs Node.prems(6) ps]
    obtain h' where h': "unlink_at h x = Some h'" and fr: "frame h h' (set_tree (unlink x s))"
      and r': "rep (nd h') p (sibling (nd h i)) (unlink x s)" by blast
    have "nd h' i = nd h i" using frame_nd [OF fr i(1)] dis set_unlink_subset [of x s] by auto
    moreover have "rep (nd h') i (child (nd h i)) c"
      using dis set_unlink_subset [of x s] by (intro frame_rep [OF fr rc]) auto
    moreover have "frame h h' (set_tree (unlink x (Node c j s)))"
      by (rule frame_mono [OF fr]) (use ij i xi in auto)
    ultimately show ?thesis
      using h' r' ij i xi par by (intro exI [of _ h']) (auto simp: unlink_notin [OF xc])
  qed
qed

section \<open>The free list\<close>

primrec chain :: "(nat \<Rightarrow> pheap_node) \<Rightarrow> nat \<Rightarrow> nat list \<Rightarrow> bool" where
  "chain N i [] = (i = 0)"
| "chain N i (x # xs) = (i = x \<and> x \<noteq> 0 \<and> chain N (sibling (N x)) xs)"

definition hd0 :: "nat list \<Rightarrow> nat" where
  "hd0 fl = (case fl of [] \<Rightarrow> 0 | x # _ \<Rightarrow> x)"

lemma hd0_simps [simp]: "hd0 [] = 0" "hd0 (x # xs) = x"
  by (simp_all add: hd0_def)

text \<open>
  The list of freed ids in the order in which they were freed. It is \<open>starved\<close> when it
  once was empty and an id was freed after that: the append code then writes
  \<open>free_tail_id\<close> only, so that \<open>free_head_id\<close> stays 0 and the ids cannot be reached.
\<close>

definition free_ok :: "pheap \<Rightarrow> nat list \<Rightarrow> bool \<Rightarrow> bool" where
  "free_ok h fl starved \<longleftrightarrow> chain (nd h) (hd0 fl) fl
     \<and> free_head_id h = (if starved then 0 else hd0 fl)
     \<and> free_tail_id h = (if fl = [] then 0 else last fl)"

lemma chain_cong: "(\<And>j. j \<in> set fl \<Longrightarrow> N j = M j) \<Longrightarrow> chain N i fl = chain M i fl"
proof (induction fl arbitrary: i)
  case (Cons x xs)
  then show ?case by (cases "i = x") simp_all
qed simp

lemma chain_hd0: "chain N i fl \<Longrightarrow> i = hd0 fl"
  by (cases fl) auto

lemma chain_append:
  "chain N i fl \<Longrightarrow> fl \<noteq> [] \<Longrightarrow> distinct fl \<Longrightarrow> x \<noteq> 0 \<Longrightarrow> x \<notin> set fl \<Longrightarrow> sibling (M x) = 0 \<Longrightarrow>
     M (last fl) = (N (last fl))\<lparr>sibling := x\<rparr> \<Longrightarrow>
     (\<And>j. j \<in> set fl \<Longrightarrow> j \<noteq> last fl \<Longrightarrow> M j = N j) \<Longrightarrow> chain M i (fl @ [x])"
proof (induction fl arbitrary: i)
  case (Cons y ys)
  show ?case
  proof (cases "ys = []")
    case True
    with Cons.prems show ?thesis by simp
  next
    case False
    then have "last ys \<in> set ys" by simp
    with Cons.prems(3) False have "y \<noteq> last (y # ys)" by auto
    with Cons.prems(8) [of y] have "M y = N y" by simp
    moreover have "chain M (sibling (N y)) (ys @ [x])"
    proof (rule Cons.IH)
      show "M (last ys) = (N (last ys))\<lparr>sibling := x\<rparr>" using Cons.prems(7) False by simp
      show "M j = N j" if "j \<in> set ys" "j \<noteq> last ys" for j
        using Cons.prems(8) [of j] that False by simp
    qed (use Cons.prems(1,3-6) False in simp_all)
    ultimately show ?thesis using Cons.prems(1) by simp
  qed
qed simp

lemma free_ok_same:
  assumes "free_ok h fl st" and "\<And>j. j \<in> set fl \<Longrightarrow> nd h' j = nd h j"
    and "free_head_id h' = free_head_id h" and "free_tail_id h' = free_tail_id h"
  shows "free_ok h' fl st"
proof -
  have "chain (nd h') (hd0 fl) fl = chain (nd h) (hd0 fl) fl"
    by (rule chain_cong) (rule assms(2))
  with assms show ?thesis by (simp add: free_ok_def)
qed

lemma free_ok_append:
  assumes "free_ok h fl st" and "distinct fl" and "0 \<notin> set fl" and "x \<noteq> 0" and "x \<notin> set fl"
    and "sibling (nd h' x) = 0"
    and nd: "\<And>j. j \<in> set fl \<Longrightarrow>
      nd h' j = (if j = free_tail_id h then (nd h j)\<lparr>sibling := x\<rparr> else nd h j)"
    and "free_head_id h' = free_head_id h" and "free_tail_id h' = x"
  shows "free_ok h' (fl @ [x]) (st \<or> fl = [])"
proof (cases "fl = []")
  case True
  with assms show ?thesis by (simp add: free_ok_def)
next
  case False
  with assms(1) have t: "free_tail_id h = last fl" by (simp add: free_ok_def)
  have "chain (nd h') (hd0 fl) (fl @ [x])"
    by (rule chain_append [where N = "nd h"]) (use assms False t in \<open>auto simp: free_ok_def\<close>)
  moreover have "hd0 (fl @ [x]) = hd0 fl" using False by (cases fl) auto
  ultimately show ?thesis using assms False by (simp add: free_ok_def)
qed

lemma ph_append_free_eq:
  assumes "wf_nodes h" and "free_tail_id h \<le> max_nodes h"
  shows "\<exists>h'. ph_append_free h x = Some h' \<and> wf_nodes h' \<and> max_nodes h' = max_nodes h
    \<and> root_id h' = root_id h \<and> free_head_id h' = free_head_id h \<and> free_tail_id h' = x
    \<and> (\<forall>j. j \<noteq> 0 \<longrightarrow> nd h' j = (if j = free_tail_id h then (nd h j)\<lparr>sibling := x\<rparr> else nd h j))"
proof (cases "free_tail_id h = 0")
  case True
  then have "ph_append_free h x = Some (h\<lparr>free_tail_id := x\<rparr>)"
    by (simp add: ph_append_free_def)
  with True assms show ?thesis by (intro exI [of _ "h\<lparr>free_tail_id := x\<rparr>"]) simp
next
  case False
  let ?h = "(put_node h (free_tail_id h) (\<lambda>n. n\<lparr>sibling := x\<rparr>))\<lparr>free_tail_id := x\<rparr>"
  from False assms have "ph_append_free h x = Some ?h"
    by (simp add: ph_append_free_def)
  with False assms show ?thesis by (intro exI [of _ ?h]) (simp add: nd_put_node)
qed

section \<open>Taking off a root\<close>

lemma rooted_rep: "rooted N r t \<Longrightarrow> parent (N r) = 0 \<Longrightarrow> rep N 0 r t"
  by (cases t) auto

lemma ph_remove_any_head_rep:
  assumes wf: "wf_nodes h" and x: "x \<noteq> 0" "x \<le> max_nodes h"
    and nx: "sibling (nd h x) = 0" "parent (nd h x) = 0"
    and c: "rep (nd h) x (child (nd h x)) c" "distinct (inorder c)" "x \<notin> set_tree c"
      "set_tree c \<subseteq> {1..max_nodes h}"
    and t: "free_tail_id h \<le> max_nodes h" "free_tail_id h \<notin> set_tree c" "free_tail_id h \<noteq> x"
  shows "\<exists>h'. ph_remove_any_head (key_less key) h x free = Some (root_of (ttwo key c), h')
    \<and> rep (nd h') 0 (root_of (ttwo key c)) (ttwo key c) \<and> wf_nodes h'
    \<and> max_nodes h' = max_nodes h \<and> root_id h' = root_id h \<and> free_head_id h' = free_head_id h
    \<and> free_tail_id h' = (if free then x else free_tail_id h)
    \<and> (\<forall>j. j \<noteq> 0 \<longrightarrow> j \<notin> set_tree c \<longrightarrow>
         nd h' j = (if free \<and> j = free_tail_id h then (nd h j)\<lparr>sibling := x\<rparr> else nd h j))"
proof -
  let ?u = "ttwo key c"
  from ph_merge_two_pass_rep [OF wf c(1,2,4), of key]
  obtain h1 where h1: "ph_merge_two_pass (key_less key) h (child (nd h x)) = Some (root_of ?u, h1)"
    and f1: "frame h h1 (set_tree c)" and r1: "rooted (nd h1) (root_of ?u) ?u" by blast
  note m1 = frame_meta [OF f1]
  obtain h2 where h2: "(if free then ph_append_free h1 x else Some h1) = Some h2"
    and m2: "wf_nodes h2" "max_nodes h2 = max_nodes h" "root_id h2 = root_id h"
      "free_head_id h2 = free_head_id h" "free_tail_id h2 = (if free then x else free_tail_id h)"
    and n2: "\<And>j. j \<noteq> 0 \<Longrightarrow>
      nd h2 j = (if free \<and> j = free_tail_id h then (nd h1 j)\<lparr>sibling := x\<rparr> else nd h1 j)"
    using ph_append_free_eq [of h1 x] m1 t(1) by (cases free) (auto simp del: neq0_conv)
  have cn: "nd h2 j = nd h1 j" if "j \<in> set_tree c" for j
    using n2 [of j] that t(2) rep_nonzero [OF c(1) that] by auto
  have r2: "rooted (nd h2) (root_of ?u) ?u"
    using r1 by (subst rooted_cong [of _ "nd h2" "nd h1"]) (auto intro: cn)
  define h3 where "h3 = (if root_of ?u \<noteq> 0 then put_node h2 (root_of ?u) (\<lambda>n. n\<lparr>parent := 0\<rparr>) else h2)"
  have ru: "root_of ?u \<noteq> 0 \<Longrightarrow> root_of ?u \<in> set_tree c"
    using root_of_sub [of ?u] by auto
  then have rv: "root_of ?u \<le> max_nodes h2" using c(4) m2 by fastforce
  have h3: "(if root_of ?u \<noteq> 0 then ph_set_node h2 (root_of ?u) (\<lambda>n. n\<lparr>parent := 0\<rparr>) else Some h2) = Some h3"
    using m2 rv by (simp add: h3_def)
  have n3: "nd h3 j = (if j = root_of ?u then (nd h2 j)\<lparr>parent := 0\<rparr> else nd h2 j)" if "j \<noteq> 0" for j
    using m2 rv that by (auto simp: h3_def nd_put_node)
  have m3: "wf_nodes h3" "max_nodes h3 = max_nodes h" "root_id h3 = root_id h"
      "free_head_id h3 = free_head_id h" "free_tail_id h3 = (if free then x else free_tail_id h)"
    using m2 by (auto simp: h3_def)
  have r3: "rep (nd h3) 0 (root_of ?u) ?u"
  proof (cases ?u)
    case (Node l r q)
    with r2 have q: "q = Leaf" and rl: "rep (nd h2) r (child (nd h2 r)) l" and r0: "r \<noteq> 0"
      and sr: "sibling (nd h2 r) = 0" by auto
    have du: "distinct (inorder ?u)"
      using distinct_mset_eq [OF mset_ttwo [of key c]] c(2) by simp
    have "rep (nd h3) r (child (nd h2 r)) l"
    proof (subst rep_cong [of l "nd h3" "nd h2"])
      fix j assume "j \<in> set_tree l"
      with du Node have "j \<noteq> r" by auto
      moreover have "j \<noteq> 0" using rep_nonzero [OF rl] \<open>j \<in> set_tree l\<close> by blast
      ultimately show "nd h3 j = nd h2 j" using n3 Node by simp
    qed (rule rl)
    with Node q r0 sr n3 [of r] show ?thesis by simp
  qed simp
  let ?h4 = "put_node h3 x (\<lambda>n. n\<lparr>sibling := 0\<rparr>)"
  have n4: "nd ?h4 j = nd h3 j" if "j \<noteq> 0" for j
  proof (cases "j = x")
    case True
    have "nd h3 x = nd h x"
      using n3 [of x] n2 [of x] frame_nd [OF f1, of x] x(1) c(3) t(3) ru by auto
    with True nx m3 x show ?thesis by (simp add: nd_put_node)
  next
    case False
    with m3 x that show ?thesis by (simp add: nd_put_node)
  qed
  have r4: "rep (nd ?h4) 0 (root_of ?u) ?u"
    by (subst rep_cong [of _ "nd ?h4" "nd h3"]) (auto intro!: n4 r3 dest: rep_nonzero [OF c(1)])
  have "ph_remove_any_head (key_less key) h x free = Some (root_of ?u, ?h4)"
    using wf x nx h1 h2 h3 m3 by (simp add: ph_remove_any_head_def)
  moreover have "nd ?h4 j = (if free \<and> j = free_tail_id h then (nd h j)\<lparr>sibling := x\<rparr> else nd h j)"
    if "j \<noteq> 0" "j \<notin> set_tree c" for j
    using n4 [OF that(1)] n3 [OF that(1)] n2 [OF that(1)] frame_nd [OF f1 that] ru that by auto
  ultimately show ?thesis using r4 m3 by (intro exI [of _ ?h4]) simp
qed

end
