(* ===== verification/Pheap_Queue.thy ===== *)
theory Pheap_Queue
  imports Pheap_Correct
begin

text \<open>
  The pairing heap as a priority queue of ids with a free list. \<open>ph_rel\<close> relates a heap to
  its tree and free list; \<open>ph_abs\<close> keeps only the set of ids in the heap. The locale
  \<open>id_heap\<close> states what a caller (the alarm pool) relies on, and is interpreted on the
  operations of \<open>pheap.c\<close>.
\<close>

section \<open>The representation relation\<close>

definition ph_rel ::
    "(nat \<Rightarrow> 'k :: linorder) \<Rightarrow> pheap \<Rightarrow> nat tree \<Rightarrow> nat list \<Rightarrow> bool \<Rightarrow> bool" where
  "ph_rel key h t fl st \<longleftrightarrow> wf_nodes h \<and> rep (nd h) 0 (root_id h) t \<and> single t \<and> ordered key t
     \<and> distinct (inorder t @ fl) \<and> set_tree t \<union> set fl \<subseteq> {1..max_nodes h} \<and> free_ok h fl st
     \<and> (\<forall>j \<in> {1..max_nodes h} - set_tree t. parent (nd h j) = 0)
     \<and> (\<forall>j \<in> {1..max_nodes h} - set_tree t - set fl. sibling (nd h j) = 0)"

lemma ph_relD:
  assumes "ph_rel key h t fl st"
  shows "wf_nodes h" "rep (nd h) 0 (root_id h) t" "single t" "ordered key t"
    "distinct (inorder t)" "distinct fl" "set_tree t \<inter> set fl = {}"
    "set_tree t \<subseteq> {1..max_nodes h}" "set fl \<subseteq> {1..max_nodes h}" "free_ok h fl st"
    "\<And>j. j \<noteq> 0 \<Longrightarrow> j \<le> max_nodes h \<Longrightarrow> j \<notin> set_tree t \<Longrightarrow> parent (nd h j) = 0"
    "\<And>j. j \<noteq> 0 \<Longrightarrow> j \<le> max_nodes h \<Longrightarrow> j \<notin> set_tree t \<Longrightarrow> j \<notin> set fl \<Longrightarrow> sibling (nd h j) = 0"
  using assms unfolding ph_rel_def by auto

lemma ph_relI:
  assumes "wf_nodes h" "rep (nd h) 0 (root_id h) t" "single t" "ordered key t"
    "distinct (inorder t)" "distinct fl" "set_tree t \<inter> set fl = {}"
    "set_tree t \<subseteq> {1..max_nodes h}" "set fl \<subseteq> {1..max_nodes h}" "free_ok h fl st"
    "\<And>j. j \<noteq> 0 \<Longrightarrow> j \<le> max_nodes h \<Longrightarrow> j \<notin> set_tree t \<Longrightarrow> parent (nd h j) = 0"
    "\<And>j. j \<noteq> 0 \<Longrightarrow> j \<le> max_nodes h \<Longrightarrow> j \<notin> set_tree t \<Longrightarrow> j \<notin> set fl \<Longrightarrow> sibling (nd h j) = 0"
  shows "ph_rel key h t fl st"
  using assms unfolding ph_rel_def by auto

lemma ph_rel_root: "ph_rel key h t fl st \<Longrightarrow> root_id h = root_of t"
  by (rule rep_root [OF ph_relD(2)])

lemma ph_rel_root_in: "ph_rel key h t fl st \<Longrightarrow> root_id h \<in> insert 0 (set_tree t)"
  using root_of_sub [of t] by (simp add: ph_rel_root)

lemma ph_rel_rooted: "ph_rel key h t fl st \<Longrightarrow> rooted (nd h) (root_id h) t"
  using ph_relD(2,3) [of key h t fl st] by (cases t) auto

lemma ph_rel_tail:
  assumes "ph_rel key h t fl st"
  shows "free_tail_id h \<in> insert 0 (set fl)" "free_tail_id h \<le> max_nodes h"
    "free_tail_id h \<notin> set_tree t"
proof -
  note D = ph_relD [OF assms]
  show 1: "free_tail_id h \<in> insert 0 (set fl)" using D(10) by (simp add: free_ok_def)
  then show "free_tail_id h \<le> max_nodes h" using D(9) by auto
  show "free_tail_id h \<notin> set_tree t" using 1 D(7,8) by auto
qed

lemma ph_rel_free:
  "ph_rel key h t fl st \<Longrightarrow> j \<in> set fl \<Longrightarrow> j \<noteq> 0 \<and> j \<le> max_nodes h \<and> j \<notin> set_tree t"
  unfolding ph_rel_def by auto

lemma ph_rel_cong:
  assumes "ph_rel key h t fl st" and "\<And>i. i \<in> set_tree t \<Longrightarrow> key i = key' i"
  shows "ph_rel key' h t fl st"
  using assms ordered_cong [of t key key'] by (simp add: ph_rel_def)

section \<open>The operations on represented heaps\<close>

lemma ph_peek_head_rel:
  assumes "ph_rel key h t fl st" and "set_tree t \<noteq> {}"
  shows "ph_peek_head h \<in> set_tree t" "j \<in> set_tree t \<Longrightarrow> key (ph_peek_head h) \<le> key j"
  using ph_rel_root [OF assms(1)] root_of_in [of t] ordered_root [OF ph_relD(4) [OF assms(1)] ph_relD(3) [OF assms(1)]]
    assms(2) by (auto simp: ph_peek_head_def)

lemma ph_contains_node_rel:
  assumes r: "ph_rel key h t fl st" and i: "i \<noteq> 0" "i \<le> max_nodes h"
  shows "ph_contains_node h i = Some (i \<in> set_tree t)"
proof (cases "i = root_id h")
  case True
  with ph_rel_root_in [OF r] i show ?thesis by (auto simp: ph_contains_node_def)
next
  case False
  note D = ph_relD [OF r]
  have "parent (nd h i) \<noteq> 0" if it: "i \<in> set_tree t"
  proof (cases t)
    case (Node c rt s)
    with D(2,3) False it have "i \<in> set_tree c" "rep (nd h) rt (child (nd h rt)) c" "rt \<noteq> 0"
      by auto
    with rep_parent [OF this(2,1)] rep_nonzero [OF this(2)] show ?thesis by auto
  qed (use it in simp)
  with D(11) [OF i] D(1) i False show ?thesis
    by (cases "i \<in> set_tree t") (simp_all add: ph_contains_node_def)
qed

lemma rep_tmerge:
  assumes "rooted M (root_of (tmerge key a b)) (tmerge key a b)"
    and "parent (M (root_of (tmerge key a b))) = parent (N (root_of (tmerge key a b)))"
    and "rep N 0 i a" and "rep N 0 j b"
  shows "rep M 0 (root_of (tmerge key a b)) (tmerge key a b)"
proof (cases "tmerge key a b = Leaf")
  case False
  then have "(a \<noteq> Leaf \<and> root_of (tmerge key a b) = root_of a) \<or>
      (b \<noteq> Leaf \<and> root_of (tmerge key a b) = root_of b)"
    by (cases a; cases b) auto
  moreover have "a \<noteq> Leaf \<Longrightarrow> parent (N (root_of a)) = 0" "b \<noteq> Leaf \<Longrightarrow> parent (N (root_of b)) = 0"
    using assms(3,4) by (cases a; cases b; auto)+
  ultimately have "parent (M (root_of (tmerge key a b))) = 0"
    using assms(2) by metis
  with assms(1) show ?thesis by (rule rooted_rep)
qed simp

lemma ph_insert_node_rel:
  assumes r: "ph_rel key h t fl st" and x: "x \<in> {1..max_nodes h} - set_tree t - set fl"
  shows "\<exists>h' t'. ph_insert_node (key_less key) h x = Some (root_id h', h') \<and> ph_rel key h' t' fl st
    \<and> set_tree t' = insert x (set_tree t) \<and> max_nodes h' = max_nodes h"
proof -
  note D = ph_relD [OF r]
  from x have x0: "x \<noteq> 0" "x \<le> max_nodes h" "x \<notin> set_tree t" "x \<notin> set fl" by auto
  let ?h1 = "put_node h x (\<lambda>n. n\<lparr>parent := 0, sibling := 0, child := 0\<rparr>)"
  let ?b = "Node Leaf x Leaf"
  have f1: "frame h ?h1 {x}" by (rule frame_put) (use D(1) x0 in auto)
  have nx: "nd ?h1 x = (nd h x)\<lparr>parent := 0, sibling := 0, child := 0\<rparr>"
    using D(1) x0 by (simp add: nd_put_node)
  have a1: "rooted (nd ?h1) (root_id h) t"
    by (rule frame_rooted [OF f1 ph_rel_rooted [OF r]]) (use x0 in auto)
  have b1: "rooted (nd ?h1) x ?b" using nx x0 by simp
  have d: "distinct (inorder t @ inorder ?b)" using D(5) x0 by simp
  have v: "set_tree t \<union> set_tree ?b \<subseteq> {1..max_nodes ?h1}" using D(8) x by auto
  let ?t = "tmerge key t ?b"
  from ph_merge_nodes_sub [OF _ a1 b1 d v, of key] D(1)
  obtain h2 where h2: "ph_merge_nodes (key_less key) ?h1 (root_id h) x = Some (root_of ?t, h2)"
    and f2: "frame ?h1 h2 (set_tree t \<union> set_tree ?b)" and r2: "rooted (nd h2) (root_of ?t) ?t"
    and p2: "parent (nd h2 (root_of ?t)) = parent (nd ?h1 (root_of ?t))"
    by (simp del: tmerge.simps) blast
  have fr: "frame h h2 (insert x (set_tree t))" by (rule frame_trans [OF f1 f2]) auto
  note M = frame_meta [OF fr]
  let ?h' = "h2\<lparr>root_id := root_of ?t\<rparr>"
  have st: "set_tree ?t = insert x (set_tree t)" using D(3) by (subst set_tmerge) auto
  have "parent (nd ?h1 (root_of ?t)) = 0"
  proof (cases "root_of ?t = x")
    case True
    with nx show ?thesis by simp
  next
    case False
    have ne: "?t \<noteq> Leaf" using st by auto
    have "root_of ?t = root_of t"
      using False by (cases t) (auto split: if_splits)
    with False D(2) frame_nd [OF f1, of "root_of t"] show ?thesis by (cases t) auto
  qed
  with r2 p2 have rr: "rep (nd h2) 0 (root_of ?t) ?t" by (simp add: rooted_rep)
  have n2: "nd h2 j = nd h j" if "j \<noteq> 0" "j \<notin> insert x (set_tree t)" for j
    using frame_nd [OF fr that] .
  have "distinct (inorder ?t)"
    using d by (subst distinct_mset_eq [of _ "Node t x Leaf"]) (auto simp: mset_tmerge D(3))
  have "ph_rel key ?h' ?t fl st"
  proof (rule ph_relI)
    show "single ?t" using D(3) by (simp add: single_tmerge)
    show "ordered key ?t" using D(3,4) by (simp add: ordered_tmerge)
    show "free_ok ?h' fl st"
    proof (rule free_ok_same [OF D(10)])
      show "nd ?h' j = nd h j" if "j \<in> set fl" for j
        using n2 [of j] ph_rel_free [OF r that] that x0 by auto
    qed (simp_all add: M)
    show "parent (nd ?h' j) = 0" if "j \<noteq> 0" "j \<le> max_nodes ?h'" "j \<notin> set_tree ?t" for j
      using n2 [OF that(1)] that D(11) [OF that(1)] M(1) by (simp add: st)
    show "sibling (nd ?h' j) = 0"
      if "j \<noteq> 0" "j \<le> max_nodes ?h'" "j \<notin> set_tree ?t" "j \<notin> set fl" for j
      using n2 [OF that(1)] that D(12) [OF that(1)] M(1) by (simp add: st)
    show "set_tree ?t \<subseteq> {1..max_nodes ?h'}" using D(8) x M(1) by (auto simp: st)
    show "set fl \<subseteq> {1..max_nodes ?h'}" using D(9) M(1) by simp
    show "set_tree ?t \<inter> set fl = {}" using D(7) x0 by (simp add: st)
  qed (use M rr D(6) \<open>distinct (inorder ?t)\<close> in simp_all)
  moreover have "ph_insert_node (key_less key) h x = Some (root_id ?h', ?h')"
    using D(1) x0 h2 by (simp add: ph_insert_node_def)
  ultimately show ?thesis using st M(1) by (intro exI [of _ ?h'] exI [of _ ?t]) simp
qed

lemma ph_rel_split_root:
  assumes r: "ph_rel key h t fl st" and ne: "set_tree t \<noteq> {}"
  obtains c where "t = Node c (root_id h) Leaf" "rep (nd h) (root_id h) (child (nd h (root_id h))) c"
    "root_id h \<noteq> 0" "root_id h \<le> max_nodes h" "sibling (nd h (root_id h)) = 0"
    "parent (nd h (root_id h)) = 0" "set_tree c = set_tree t - {root_id h}" "root_id h \<notin> set_tree c"
    "distinct (inorder c)" "ordered key c"
proof (cases t)
  case Leaf
  with ne show ?thesis by simp
next
  case (Node c rt s)
  with ph_relD [OF r] show ?thesis by (intro that [of c]) auto
qed

lemma ph_remove_head_rel:
  assumes r: "ph_rel key h t fl st" and ne: "set_tree t \<noteq> {}"
  shows "\<exists>h' t'. ph_remove_head (key_less key) h free = Some (root_id h, h')
    \<and> ph_rel key h' t' (if free then fl @ [root_id h] else fl) (st \<or> (free \<and> fl = []))
    \<and> set_tree t' = set_tree t - {root_id h} \<and> max_nodes h' = max_nodes h"
proof -
  note D = ph_relD [OF r] and T = ph_rel_tail [OF r]
  let ?x = "root_id h"
  obtain c where t: "t = Node c ?x Leaf" and rc: "rep (nd h) ?x (child (nd h ?x)) c"
    and x: "?x \<noteq> 0" "?x \<le> max_nodes h" and nx: "sibling (nd h ?x) = 0" "parent (nd h ?x) = 0"
    and sc: "set_tree c = set_tree t - {?x}" and xc: "?x \<notin> set_tree c" and dc: "distinct (inorder c)"
    and oc: "ordered key c"
    by (rule ph_rel_split_root [OF r ne])
  have xf: "?x \<notin> set fl" using D(7) t by auto
  have "set_tree c \<subseteq> {1..max_nodes h}" "free_tail_id h \<notin> set_tree c" "free_tail_id h \<noteq> ?x"
    using D(8) T(3) by (auto simp: t)
  from ph_remove_any_head_rep [OF D(1) x nx rc dc xc this(1) T(2) this(2,3), of key free]
  obtain h1 where h1: "ph_remove_any_head (key_less key) h ?x free = Some (root_of (ttwo key c), h1)"
    and r1: "rep (nd h1) 0 (root_of (ttwo key c)) (ttwo key c)" and w1: "wf_nodes h1"
    and M: "max_nodes h1 = max_nodes h" "root_id h1 = ?x" "free_head_id h1 = free_head_id h"
      "free_tail_id h1 = (if free then ?x else free_tail_id h)"
    and n1: "\<And>j. j \<noteq> 0 \<Longrightarrow> j \<notin> set_tree c \<Longrightarrow>
      nd h1 j = (if free \<and> j = free_tail_id h then (nd h j)\<lparr>sibling := ?x\<rparr> else nd h j)"
    by blast
  let ?u = "ttwo key c" and ?h' = "h1\<lparr>root_id := root_of (ttwo key c)\<rparr>"
  let ?fl = "if free then fl @ [?x] else fl"
  have nf: "nd h1 j = (if free \<and> j = free_tail_id h then (nd h j)\<lparr>sibling := ?x\<rparr> else nd h j)"
    if "j \<in> set fl" for j
    using n1 [of j] ph_rel_free [OF r that] sc by auto
  have nxx: "nd h1 ?x = nd h ?x" using n1 [OF x(1) xc] T(3) t by auto
  have "free_ok h1 ?fl (st \<or> (free \<and> fl = []))"
  proof (cases free)
    case True
    have "free_ok h1 (fl @ [?x]) (st \<or> fl = [])"
      by (rule free_ok_append [OF D(10,6)]) (use True nf M x xf nxx nx D(9) in auto)
    with True show ?thesis by simp
  next
    case False
    have "free_ok h1 fl st"
      by (rule free_ok_same [OF D(10)]) (use False nf M in auto)
    with False show ?thesis by simp
  qed
  then have fok: "free_ok ?h' ?fl (st \<or> (free \<and> fl = []))" by (simp add: free_ok_def)
  have "ph_rel key ?h' ?u ?fl (st \<or> (free \<and> fl = []))"
  proof (rule ph_relI)
    show "distinct (inorder ?u)" using dc distinct_mset_eq [OF mset_ttwo [of key c]] by simp
    show "parent (nd ?h' j) = 0" if "j \<noteq> 0" "j \<le> max_nodes ?h'" "j \<notin> set_tree ?u" for j
    proof -
      have j: "j \<notin> set_tree c" "j \<le> max_nodes h" using that M(1) by auto
      have "parent (nd ?h' j) = parent (nd h j)" using n1 [OF that(1) j(1)] by simp
      moreover have "j = ?x \<or> j \<notin> set_tree t" using j sc by blast
      ultimately show ?thesis using nx D(11) [OF that(1) j(2)] by presburger
    qed
    show "sibling (nd ?h' j) = 0"
      if "j \<noteq> 0" "j \<le> max_nodes ?h'" "j \<notin> set_tree ?u" "j \<notin> set ?fl" for j
    proof (cases "j = ?x")
      case True
      with nx nxx show ?thesis by simp
    next
      case False
      with that have "j \<notin> set fl" by (auto split: if_splits)
      with T(1) that(1) have "j \<noteq> free_tail_id h" by auto
      moreover have "j \<notin> set_tree c" "j \<notin> set_tree t" "j \<le> max_nodes h"
        using that M(1) False sc by auto
      ultimately show ?thesis using n1 [OF that(1)] D(12) [OF that(1)] \<open>j \<notin> set fl\<close> by simp
    qed
    show "set_tree ?u \<subseteq> {1..max_nodes ?h'}" using D(8) sc M(1) by auto
    show "set ?fl \<subseteq> {1..max_nodes ?h'}" using D(9) M(1) x by auto
    show "set_tree ?u \<inter> set ?fl = {}" using D(7) sc by auto
    show "distinct ?fl" using D(6) xf by simp
  qed (use w1 r1 oc fok in \<open>simp_all add: single_ttwo ordered_ttwo\<close>)
  moreover have "ph_remove_head (key_less key) h free = Some (?x, ?h')"
    by (simp add: ph_remove_head_def ph_peek_head_def h1)
  ultimately show ?thesis using sc M(1) by (intro exI [of _ ?h'] exI [of _ ?u]) simp
qed

lemma ph_remove_and_free_node_unfold:
  assumes "wf_nodes h" "x \<noteq> 0" "x \<le> max_nodes h" "x \<noteq> root_id h" "parent (nd h x) \<noteq> 0"
  shows "ph_remove_and_free_node cmp h x = do {
     h1 \<leftarrow> unlink_at h x;
     h2 \<leftarrow> ph_set_node h1 x (\<lambda>n. n\<lparr>parent := 0, sibling := 0\<rparr>);
     (new_sub_tree, h3) \<leftarrow> ph_remove_any_head cmp h2 x True;
     c_assert (new_sub_tree \<noteq> root_id h3);
     (r, h4) \<leftarrow> ph_merge_nodes cmp h3 (root_id h3) new_sub_tree;
     Some (True, h4\<lparr>root_id := r\<rparr>) }"
  using assms by (simp add: ph_remove_and_free_node_def unlink_at_def Let_def)

lemma ph_remove_and_free_node_out:
  assumes "ph_rel key h t fl st" "x = 0 \<or> x \<le> max_nodes h" "x \<notin> set_tree t"
  shows "ph_remove_and_free_node cmp h x = Some (False, h)"
  using ph_relD [OF assms(1)] ph_rel_root_in [OF assms(1)] assms(2,3)
  by (cases "x = 0") (auto simp: ph_remove_and_free_node_def)

lemma ph_remove_and_free_node_rel:
  assumes r: "ph_rel key h t fl st" and xt: "x \<in> set_tree t"
  shows "\<exists>h' t'. ph_remove_and_free_node (key_less key) h x = Some (True, h')
    \<and> ph_rel key h' t' (fl @ [x]) (st \<or> fl = [])
    \<and> set_tree t' = set_tree t - {x} \<and> max_nodes h' = max_nodes h"
proof (cases "x = root_id h")
  case True
  from xt have "set_tree t \<noteq> {}" by auto
  from ph_remove_head_rel [OF r this, of True] True xt ph_relD(8) [OF r] show ?thesis
    by (auto simp: ph_remove_and_free_node_def ph_remove_and_free_head_def)
next
  case False
  note D = ph_relD [OF r] and T = ph_rel_tail [OF r]
  from xt D(8) have x: "x \<noteq> 0" "x \<le> max_nodes h" by auto
  from xt D(7) have xf: "x \<notin> set fl" by auto
  have px: "parent (nd h x) \<noteq> 0"
    using ph_contains_node_rel [OF r x] xt False D(1) x by (simp add: ph_contains_node_def)
  have z: "0 \<notin> set_tree t" using D(8) by auto
  let ?t = "unlink x t" and ?c = "kids_of x t"
  have ms: "mset_tree t = add_mset x (mset_tree ?t + mset_tree ?c)"
    by (rule mset_unlink [OF xt D(5)])
  have dd: "distinct (x # inorder ?t @ inorder ?c)"
    using D(5) by (subst mset_eq_imp_distinct_iff [of _ "inorder t"]) (simp_all add: ms)
  have ss: "set_tree t = insert x (set_tree ?t \<union> set_tree ?c)"
    using arg_cong [OF ms, of set_mset] by simp
  obtain h1 where h1: "unlink_at h x = Some h1" and f1: "frame h h1 (set_tree ?t)"
    and r1: "rep (nd h1) 0 (root_id h) ?t"
    using unlink_at_rep [OF D(1,2,5,8) xt px z] by blast
  note M1 = frame_meta [OF f1]
  let ?h2 = "put_node h1 x (\<lambda>n. n\<lparr>parent := 0, sibling := 0\<rparr>)"
  have f2: "frame h1 ?h2 {x}" by (rule frame_put) (use M1 x in auto)
  have nx: "nd ?h2 x = (nd h x)\<lparr>parent := 0, sibling := 0\<rparr>"
    using M1 x frame_nd [OF f1 x(1)] dd by (simp add: nd_put_node)
  have c2: "rep (nd ?h2) x (child (nd ?h2 x)) ?c"
    unfolding nx using rep_kids_of [OF D(2) xt] dd
    by (intro frame_rep [OF f2] frame_rep [OF f1]) (auto simp: Int_commute)
  have t2: "rep (nd ?h2) 0 (root_id h) ?t"
    by (rule frame_rep [OF f2 r1]) (use dd in auto)
  have cc: "distinct (inorder ?c)" "x \<notin> set_tree ?c" "set_tree ?c \<subseteq> {1..max_nodes ?h2}"
    and tt: "free_tail_id ?h2 \<le> max_nodes ?h2" "free_tail_id ?h2 \<notin> set_tree ?c" "free_tail_id ?h2 \<noteq> x"
    and w2: "wf_nodes ?h2" and x2: "x \<le> max_nodes ?h2"
    using dd ss D(8) T(2,3) M1 xt x by auto
  have nx': "sibling (nd ?h2 x) = 0" "parent (nd ?h2 x) = 0" by (simp_all add: nx)
  obtain h3 where h3: "ph_remove_any_head (key_less key) ?h2 x True = Some (root_of (ttwo key ?c), h3)"
    and r3: "rep (nd h3) 0 (root_of (ttwo key ?c)) (ttwo key ?c)" and w3: "wf_nodes h3"
    and M3: "max_nodes h3 = max_nodes h" "root_id h3 = root_id h" "free_head_id h3 = free_head_id h"
      "free_tail_id h3 = x"
    and n3: "\<And>j. j \<noteq> 0 \<Longrightarrow> j \<notin> set_tree ?c \<Longrightarrow>
      nd h3 j = (if j = free_tail_id h then (nd ?h2 j)\<lparr>sibling := x\<rparr> else nd ?h2 j)"
    using ph_remove_any_head_rep [OF w2 x(1) x2 nx' c2 cc tt, of key True] M1 by auto
  let ?u = "ttwo key ?c"
  have t3: "rep (nd h3) 0 (root_id h) ?t"
  proof (subst rep_cong [of _ "nd h3" "nd ?h2"])
    fix j assume j: "j \<in> set_tree ?t"
    with dd have "j \<notin> set_tree ?c" by auto
    moreover from j ss T(3) have "j \<noteq> free_tail_id h" by auto
    moreover have "j \<noteq> 0" using j ss z by auto
    ultimately show "nd h3 j = nd ?h2 j" using n3 [of j] by simp
  qed (rule t2)
  have ne: "root_of ?u \<noteq> root_id h3"
  proof
    assume e: "root_of ?u = root_id h3"
    have "root_id h \<in> set_tree t" "root_id h \<noteq> 0"
      using xt ph_rel_root [OF r] root_of_in [of t] z by (cases t; auto)+
    with e M3 root_of_sub [of ?u] have "root_id h \<in> set_tree ?c" by auto
    moreover have "root_id h \<in> set_tree ?t"
      using \<open>root_id h \<noteq> 0\<close> r1 by (cases ?t) auto
    ultimately show False using dd by auto
  qed
  have st': "single ?t" using single_unlink [OF D(3), of x] False ph_rel_root [OF r] by simp
  have a3: "rooted (nd h3) (root_id h3) ?t" "rooted (nd h3) (root_of ?u) ?u"
    using t3 r3 st' single_ttwo [of key ?c] M3 by (cases ?t; cases ?u; auto)+
  have d3: "distinct (inorder ?t @ inorder ?u)"
    using dd distinct_mset_eq [OF mset_ttwo [of key ?c]] by auto
  have v3: "set_tree ?t \<union> set_tree ?u \<subseteq> {1..max_nodes h3}" using ss D(8) M3 by auto
  let ?w = "tmerge key ?t ?u"
  obtain h4 where h4: "ph_merge_nodes (key_less key) h3 (root_id h3) (root_of ?u) = Some (root_of ?w, h4)"
    and f4: "frame h3 h4 (set_tree ?t \<union> set_tree ?c)" and r4: "rooted (nd h4) (root_of ?w) ?w"
    and p4: "parent (nd h4 (root_of ?w)) = parent (nd h3 (root_of ?w))"
    using ph_merge_nodes_sub [OF w3 a3 d3 v3, of key] by auto
  note M4 = frame_meta [OF f4]
  let ?h' = "h4\<lparr>root_id := root_of ?w\<rparr>"
  have sw: "set_tree ?w = set_tree t - {x}"
    using ss dd st' by (subst set_tmerge) (auto simp: single_ttwo)
  have eq: "ph_remove_and_free_node (key_less key) h x = Some (True, ?h')"
    using ne h1 h3 h4 M1 x by (simp add: ph_remove_and_free_node_unfold [OF D(1) x False px])
  have nj: "nd h4 j = (if j = free_tail_id h then (nd ?h2 j)\<lparr>sibling := x\<rparr> else nd ?h2 j)"
    if "j \<noteq> 0" "j \<notin> set_tree t - {x}" for j
    using frame_nd [OF f4 that(1)] n3 [OF that(1)] ss dd that by auto
  have n2: "nd ?h2 j = (if j = x then nd ?h2 x else nd h j)" if "j \<noteq> 0" "j \<notin> set_tree t - {x}" for j
    using frame_nd [OF f2 that(1)] frame_nd [OF f1 that(1)] ss that by auto
  have r4': "rep (nd h4) 0 (root_of ?w) ?w"
    by (rule rep_tmerge [OF r4 p4 t3 r3])
  have nf: "nd h4 j = (if j = free_tail_id h then (nd h j)\<lparr>sibling := x\<rparr> else nd h j)"
    if "j \<in> set fl" for j
    using nj [of j] n2 [of j] ph_rel_free [OF r that] xf that by auto
  have nxx: "nd h4 x = nd ?h2 x" using nj [OF x(1)] tt M1 by auto
  have "free_ok h4 (fl @ [x]) (st \<or> fl = [])"
    by (rule free_ok_append [OF D(10,6)]) (use nf M3 M4 x xf nxx nx' D(9) in auto)
  then have fok: "free_ok ?h' (fl @ [x]) (st \<or> fl = [])" by (simp add: free_ok_def)
  have "ph_rel key ?h' ?w (fl @ [x]) (st \<or> fl = [])"
  proof (rule ph_relI)
    have "mset (inorder ?w) = mset (inorder ?t @ inorder ?u)"
      using st' by (simp add: mset_tmerge single_ttwo)
    with d3 show "distinct (inorder ?w)" by (metis mset_eq_imp_distinct_iff)
    show "single ?w" using st' by (simp add: single_tmerge single_ttwo)
    show "ordered key ?w"
      using D(4) st' by (intro ordered_tmerge ordered_unlink ordered_ttwo ordered_kids_of single_ttwo)
    show "parent (nd ?h' j) = 0" if "j \<noteq> 0" "j \<le> max_nodes ?h'" "j \<notin> set_tree ?w" for j
    proof -
      have j: "j \<notin> set_tree t - {x}" "j \<le> max_nodes h" using that M3 M4 sw by auto
      have "parent (nd ?h' j) = parent (nd ?h2 j)" using nj [OF that(1) j(1)] by simp
      also have "\<dots> = 0"
        using n2 [OF that(1) j(1)] nx' D(11) [OF that(1) j(2)] j(1) by (cases "j = x") simp_all
      finally show ?thesis .
    qed
    show "sibling (nd ?h' j) = 0"
      if "j \<noteq> 0" "j \<le> max_nodes ?h'" "j \<notin> set_tree ?w" "j \<notin> set (fl @ [x])" for j
    proof -
      have j: "j \<notin> set_tree t - {x}" "j \<le> max_nodes h" "j \<noteq> x" "j \<notin> set fl"
        using that M3 M4 sw by auto
      have "j \<noteq> free_tail_id h" using T(1) j that(1) by auto
      with nj [OF that(1) j(1)] n2 [OF that(1) j(1)] j D(12) [OF that(1) j(2)] show ?thesis by simp
    qed
    show "set_tree ?w \<subseteq> {1..max_nodes ?h'}" using D(8) sw M3 M4 by auto
    show "set (fl @ [x]) \<subseteq> {1..max_nodes ?h'}" using D(9) M3 M4 x by auto
    show "set_tree ?w \<inter> set (fl @ [x]) = {}" using D(7) sw by auto
    show "distinct (fl @ [x])" using D(6) xf by simp
  qed (use M4 r4' fok in simp_all)
  with eq show ?thesis using sw M3 M4 by (intro exI [of _ ?h'] exI [of _ ?w]) simp
qed

lemma ph_new_node_rel:
  assumes r: "ph_rel key h t (x # fl) False"
  shows "\<exists>h'. ph_new_node h = Some (x, h') \<and> ph_rel key h' t fl False \<and> max_nodes h' = max_nodes h"
proof -
  note D = ph_relD [OF r]
  from D(10) have fh: "free_head_id h = x" and ch: "chain (nd h) (sibling (nd h x)) fl"
    by (auto simp: free_ok_def)
  from D(9) have x: "x \<noteq> 0" "x \<le> max_nodes h" by auto
  from D(6,7) have xf: "x \<notin> set fl" "x \<notin> set_tree t" by auto
  let ?h1 = "h\<lparr>free_head_id := sibling (nd h x)\<rparr>"
  let ?h2 = "if free_head_id ?h1 = 0 then ?h1\<lparr>free_tail_id := 0\<rparr> else ?h1"
  let ?h' = "put_node ?h2 x (\<lambda>n. n\<lparr>parent := 0, sibling := 0, child := 0\<rparr>)"
  have w2: "wf_nodes ?h2" "max_nodes ?h2 = max_nodes h" "nd ?h2 = nd h" using D(1) by auto
  have eq: "ph_new_node h = Some (x, ?h')"
    using fh x D(1) w2 by (simp add: ph_new_node_def Let_def)
  have nj: "nd ?h' j = (if j = x then (nd h x)\<lparr>parent := 0, sibling := 0, child := 0\<rparr> else nd h j)"
    if "j \<noteq> 0" for j
    using w2 x that by (auto simp: nd_put_node)
  have s0: "sibling (nd h x) = hd0 fl" by (rule chain_hd0 [OF ch])
  have f0: "hd0 fl = 0 \<longleftrightarrow> fl = []" using D(9) by (cases fl) auto
  have "free_ok ?h' fl False"
    unfolding free_ok_def
  proof (intro conjI)
    show "chain (nd ?h') (hd0 fl) fl"
      using ch s0 by (subst chain_cong [of fl _ "nd h"]) (use nj xf ph_rel_free [OF r] in auto)
    show "free_head_id ?h' = (if False then 0 else hd0 fl)" using s0 by simp
    show "free_tail_id ?h' = (if fl = [] then 0 else last fl)"
      using D(10) s0 f0 by (auto simp: free_ok_def)
  qed
  moreover have "rep (nd ?h') 0 (root_id h) t"
    by (subst rep_cong [of _ "nd ?h'" "nd h"]) (use nj xf D(2,8) in auto)
  ultimately have "ph_rel key ?h' t fl False"
    using w2 D nj by (intro ph_relI) (auto simp: nj)
  with eq w2 show ?thesis by (intro exI [of _ ?h']) simp
qed

lemma ph_new_node_none:
  "ph_rel key h t fl st \<Longrightarrow> st \<or> fl = [] \<Longrightarrow> ph_new_node h = Some (0, h)"
  using ph_relD(10) [of key h t fl st] by (auto simp: free_ok_def ph_new_node_def)

lemma ph_free_node_rel:
  assumes r: "ph_rel key h t fl st" and x: "x \<in> {1..max_nodes h} - set_tree t - set fl"
  shows "\<exists>h'. ph_free_node h x = Some h' \<and> ph_rel key h' t (fl @ [x]) (st \<or> fl = [])
    \<and> max_nodes h' = max_nodes h"
proof -
  note D = ph_relD [OF r] and T = ph_rel_tail [OF r]
  from x have x0: "x \<noteq> 0" "x \<le> max_nodes h" "x \<notin> set_tree t" "x \<notin> set fl" by auto
  from ph_append_free_eq [OF D(1) T(2), of x]
  obtain h' where h': "ph_append_free h x = Some h'" and M: "wf_nodes h'" "max_nodes h' = max_nodes h"
      "root_id h' = root_id h" "free_head_id h' = free_head_id h" "free_tail_id h' = x"
    and n: "\<And>j. j \<noteq> 0 \<Longrightarrow> nd h' j = (if j = free_tail_id h then (nd h j)\<lparr>sibling := x\<rparr> else nd h j)"
    by blast
  have nt: "x \<noteq> free_tail_id h" using T(1) x0 by auto
  have "free_ok h' (fl @ [x]) (st \<or> fl = [])"
    by (rule free_ok_append [OF D(10,6)]) (use n M x0 nt D(9,12) in auto)
  moreover have "rep (nd h') 0 (root_id h) t"
    by (subst rep_cong [of _ "nd h'" "nd h"]) (use n D(2,8) T(3) in auto)
  moreover have "sibling (nd h' j) = 0"
    if "j \<noteq> 0" "j \<le> max_nodes h" "j \<notin> set_tree t" "j \<notin> set fl" for j
    using n [OF that(1)] D(12) [OF that] T(1) that by auto
  moreover have "parent (nd h' j) = 0" if "j \<noteq> 0" "j \<le> max_nodes h" "j \<notin> set_tree t" for j
    using n [OF that(1)] D(11) [OF that] by (cases "j = free_tail_id h") simp_all
  ultimately have "ph_rel key h' t (fl @ [x]) (st \<or> fl = [])"
    using D(3-9) M x0 by (intro ph_relI) auto
  moreover have "ph_free_node h x = Some h'"
    using x0 ph_contains_node_rel [OF r x0(1,2)] h' by (simp add: ph_free_node_def)
  ultimately show ?thesis using M(2) by blast
qed

section \<open>A fresh heap\<close>

lemma ph_link_free_eq:
  assumes "wf_nodes h" and "set is \<subseteq> {1..max_nodes h}" and "distinct is"
  shows "\<exists>h'. ph_link_free is h = Some h' \<and> frame h h' (set is)
    \<and> (\<forall>i \<in> set is. nd h' i = (nd h i)\<lparr>sibling := i + 1\<rparr>)"
  using assms
proof (induction "is" arbitrary: h)
  case Nil
  then show ?case by (simp add: frame_refl)
next
  case (Cons i xs)
  let ?h1 = "put_node h i (\<lambda>n. n\<lparr>sibling := i + 1\<rparr>)"
  from Cons.prems have i: "i \<noteq> 0" "i \<le> max_nodes h" "i \<notin> set xs" "distinct xs"
    and sx: "set xs \<subseteq> {1..max_nodes ?h1}" and w: "wf_nodes ?h1" by auto
  have f1: "frame h ?h1 {i}" by (rule frame_put) (use Cons.prems i in auto)
  from Cons.IH [OF w sx i(4)]
  obtain h' where h': "ph_link_free xs ?h1 = Some h'" and f2: "frame ?h1 h' (set xs)"
    and n: "\<forall>j \<in> set xs. nd h' j = (nd ?h1 j)\<lparr>sibling := j + 1\<rparr>" by blast
  have "frame h h' (set (i # xs))" by (rule frame_trans [OF f1 f2]) auto
  moreover have "nd h' i = (nd h i)\<lparr>sibling := i + 1\<rparr>"
    using frame_nd [OF f2 i(1,3)] Cons.prems(1) i by (simp add: nd_put_node)
  moreover have "nd h' j = (nd h j)\<lparr>sibling := j + 1\<rparr>" if "j \<in> set xs" for j
  proof -
    from that sx i(3) have "j \<noteq> 0" "j \<noteq> i" by auto
    with n that Cons.prems(1) i show ?thesis by (simp add: nd_put_node)
  qed
  ultimately show ?case using h' Cons.prems(1) i by (intro exI [of _ h']) simp
qed

lemma chain_upt:
  "(\<And>i. lo \<le> i \<Longrightarrow> i < n \<Longrightarrow> sibling (N i) = Suc i) \<Longrightarrow> sibling (N n) = 0 \<Longrightarrow> 0 < lo \<Longrightarrow> lo \<le> n \<Longrightarrow>
     chain N lo [lo..<Suc n]"
proof (induction "n - lo" arbitrary: lo)
  case 0
  then have "lo = n" by simp
  with 0 show ?case by simp
next
  case (Suc k)
  then have "lo < n" by simp
  moreover have "chain N (Suc lo) [Suc lo..<Suc n]"
    by (rule Suc.hyps(1)) (use Suc.prems Suc.hyps(2) in auto)
  ultimately show ?case using Suc.prems(1) [of lo] Suc.prems(3) by (simp add: upt_conv_Cons)
qed

lemma ph_create_rel:
  assumes n: "0 < n" "n < 2 ^ 8"
  shows "\<exists>h. ph_create n = Some h \<and> ph_rel key h Leaf [1..<Suc n] False \<and> max_nodes h = n"
proof -
  let ?h = "\<lparr>nodes = replicate n zero_node, max_nodes = n, root_id = 0,
    free_head_id = 1, free_tail_id = n\<rparr>"
  have w: "wf_nodes ?h" by (simp add: wf_nodes_def)
  have z: "nd ?h j = zero_node" if "j \<noteq> 0" "j \<le> n" for j using that by (simp add: nd_def)
  have "set [1..<n] \<subseteq> {1..max_nodes ?h}" by auto
  from ph_link_free_eq [OF w this distinct_upt]
  obtain h1 where h1: "ph_link_free [1..<n] ?h = Some h1" and f1: "frame ?h h1 (set [1..<n])"
    and l1: "\<forall>i \<in> set [1..<n]. nd h1 i = (nd ?h i)\<lparr>sibling := i + 1\<rparr>"
    by blast
  have n1: "nd h1 i = zero_node\<lparr>sibling := i + 1\<rparr>" if "1 \<le> i" "i < n" for i
  proof -
    have "i \<in> set [1..<n]" using that by simp
    then have "nd h1 i = (nd ?h i)\<lparr>sibling := i + 1\<rparr>" by (rule bspec [OF l1])
    also have "nd ?h i = zero_node" by (rule z) (use that in simp_all)
    finally show ?thesis .
  qed
  note M = frame_meta [OF f1]
  let ?h' = "put_node h1 n (\<lambda>n. n\<lparr>sibling := 0\<rparr>)"
  have nn: "nd ?h' n = zero_node"
    using M n frame_nd [OF f1, of n] z [of n] by (simp add: nd_put_node zero_node_def)
  have ni: "nd ?h' i = zero_node\<lparr>sibling := i + 1\<rparr>" if "1 \<le> i" "i < n" for i
    using n1 [OF that] M n that by (simp add: nd_put_node)
  have eq: "ph_create n = Some ?h'"
    using n h1 M by (simp add: ph_create_def ph_post_alloc_init_def ph_clear_def)
  have "ph_rel key ?h' Leaf [1..<Suc n] False"
  proof (rule ph_relI)
    have "chain (nd ?h') 1 [1..<Suc n]"
      by (rule chain_upt) (use ni nn n in \<open>auto simp: zero_node_def\<close>)
    moreover have "hd0 [1..<Suc n] = 1" "last [1..<Suc n] = n" "[1..<Suc n] \<noteq> []"
      using n by (simp_all add: upt_conv_Cons del: upt_Suc)
    ultimately show "free_ok ?h' [1..<Suc n] False"
      using M unfolding free_ok_def by simp
    show "parent (nd ?h' j) = 0" if "j \<noteq> 0" "j \<le> max_nodes ?h'" for j
    proof (cases "j = n")
      case True
      with nn show ?thesis by (simp add: zero_node_def)
    next
      case False
      with that M have "1 \<le> j" "j < n" by simp_all
      from ni [OF this] show ?thesis by (simp add: zero_node_def)
    qed
  qed (use M in auto)
  with eq M show ?thesis by (intro exI [of _ ?h']) simp
qed

section \<open>The contract of a heap of ids\<close>

datatype ph_call = Call_new | Call_insert nat | Call_remove_head bool
  | Call_remove_and_free nat | Call_free nat | Call_contains nat

text \<open>One call of the interface, its result as a number (a bool as 0 or 1).\<close>

fun ph_exec :: "comparator \<Rightarrow> pheap \<Rightarrow> ph_call \<Rightarrow> (nat \<times> pheap) option" where
  "ph_exec cmp h Call_new = ph_new_node h"
| "ph_exec cmp h (Call_insert x) = ph_insert_node cmp h x"
| "ph_exec cmp h (Call_remove_head free) = ph_remove_head cmp h free"
| "ph_exec cmp h (Call_remove_and_free x) =
     do { (b, h') \<leftarrow> ph_remove_and_free_node cmp h x; Some (of_bool b, h') }"
| "ph_exec cmp h (Call_free x) = do { h' \<leftarrow> ph_free_node h x; Some (0, h') }"
| "ph_exec cmp h (Call_contains x) = do { b \<leftarrow> ph_contains_node h x; Some (of_bool b, h) }"

text \<open>
  What the code does, defect included: the state is the ids in the heap, the freed ids, and
  whether an id was freed while none was free, after which the code finds none of
  them again. The contract the header file documents has no such flag; it is \<open>pq_rel\<close> and \<open>pq_result\<close> below.
\<close>

type_synonym ph_spec = "nat set \<times> nat list \<times> bool"

fun ph_allowed :: "nat \<Rightarrow> ph_spec \<Rightarrow> ph_call \<Rightarrow> bool" where
  "ph_allowed m (A, fl, st) Call_new = True"
| "ph_allowed m (A, fl, st) (Call_insert x) = (x \<in> {1..m} - A - set fl)"
| "ph_allowed m (A, fl, st) (Call_remove_head free) = (A \<noteq> {})"
| "ph_allowed m (A, fl, st) (Call_remove_and_free x) = (x \<le> m)"
| "ph_allowed m (A, fl, st) (Call_free x) = (x \<in> {1..m} - A - set fl)"
| "ph_allowed m (A, fl, st) (Call_contains x) = (x \<in> {1..m})"

definition is_least :: "(nat \<Rightarrow> 'k :: linorder) \<Rightarrow> nat set \<Rightarrow> nat \<Rightarrow> bool" where
  "is_least key A x \<longleftrightarrow> x \<in> A \<and> (\<forall>j \<in> A. key x \<le> key j)"

fun ph_result :: "(nat \<Rightarrow> 'k :: linorder) \<Rightarrow> ph_spec \<Rightarrow> ph_call \<Rightarrow> nat \<Rightarrow> bool" where
  "ph_result key (A, fl, st) Call_new r = (r = (if st \<or> fl = [] then 0 else hd fl))"
| "ph_result key (A, fl, st) (Call_insert x) r = is_least key (insert x A) r"
| "ph_result key (A, fl, st) (Call_remove_head free) r = is_least key A r"
| "ph_result key (A, fl, st) (Call_remove_and_free x) r = (r = of_bool (x \<in> A))"
| "ph_result key (A, fl, st) (Call_free x) r = True"
| "ph_result key (A, fl, st) (Call_contains x) r = (r = of_bool (x \<in> A))"

fun ph_next :: "ph_spec \<Rightarrow> ph_call \<Rightarrow> nat \<Rightarrow> ph_spec" where
  "ph_next (A, fl, st) Call_new r = (A, if r = 0 then fl else tl fl, st)"
| "ph_next (A, fl, st) (Call_insert x) r = (insert x A, fl, st)"
| "ph_next (A, fl, st) (Call_remove_head free) r =
     (A - {r}, if free then fl @ [r] else fl, st \<or> (free \<and> fl = []))"
| "ph_next (A, fl, st) (Call_remove_and_free x) r =
     (if x \<in> A then (A - {x}, fl @ [x], st \<or> fl = []) else (A, fl, st))"
| "ph_next (A, fl, st) (Call_free x) r = (A, fl @ [x], st \<or> fl = [])"
| "ph_next (A, fl, st) (Call_contains x) r = (A, fl, st)"

definition ph_abs :: "(nat \<Rightarrow> 'k :: linorder) \<Rightarrow> pheap \<Rightarrow> nat \<Rightarrow> ph_spec \<Rightarrow> bool" where
  "ph_abs key h m = (\<lambda>(A, fl, st). \<exists>t. ph_rel key h t fl st \<and> set_tree t = A \<and> max_nodes h = m)"

lemma ph_absI: "ph_rel key h t fl st \<Longrightarrow> max_nodes h = m \<Longrightarrow> set_tree t = A \<Longrightarrow> ph_abs key h m (A, fl, st)"
  by (auto simp: ph_abs_def)

lemma is_least_root:
  assumes r: "ph_rel key h t fl st" and "set_tree t \<noteq> {}"
  shows "is_least key (set_tree t) (root_id h)"
  using ph_peek_head_rel [OF assms] by (simp add: is_least_def ph_peek_head_def)

lemma ph_exec_step:
  assumes a: "ph_abs key h m a" and ok: "ph_allowed m a c"
  shows "\<exists>r h'. ph_exec (key_less key) h c = Some (r, h') \<and> ph_result key a c r
    \<and> ph_abs key h' m (ph_next a c r)"
proof -
  obtain A fl st where aa: "a = (A, fl, st)" by (cases a)
  with a obtain t where r: "ph_rel key h t fl st" and A: "set_tree t = A" and m: "max_nodes h = m"
    by (auto simp: ph_abs_def)
  show ?thesis
  proof (cases c)
    case Call_new
    show ?thesis
    proof (cases "st \<or> fl = []")
      case True
      with Call_new aa a ph_new_node_none [OF r] show ?thesis by simp
    next
      case False
      then obtain x xs where fl: "fl = x # xs" by (cases fl) auto
      with r have "x \<noteq> 0" using ph_rel_free [OF r, of x] by simp
      with Call_new aa False fl ph_new_node_rel [of key h t x xs] r A m show ?thesis
        by (auto intro: ph_absI)
    qed
  next
    case (Call_insert x)
    with ok aa A m have "x \<in> {1..max_nodes h} - set_tree t - set fl" by simp
    from ph_insert_node_rel [OF r this] Call_insert aa A m show ?thesis
      by (force intro: ph_absI dest: is_least_root)
  next
    case (Call_remove_head free)
    with ok aa A have "set_tree t \<noteq> {}" by simp
    from ph_remove_head_rel [OF r this, of free] is_least_root [OF r this] Call_remove_head aa A m
    show ?thesis by (intro exI [of _ "root_id h"]) (cases free; auto intro: ph_absI)
  next
    case (Call_remove_and_free x)
    show ?thesis
    proof (cases "x \<in> A")
      case True
      with ph_remove_and_free_node_rel [OF r, of x] Call_remove_and_free aa A m show ?thesis
        by (auto intro: ph_absI)
    next
      case False
      with ph_remove_and_free_node_out [OF r, of x] Call_remove_and_free aa A m ok a show ?thesis
        by simp
    qed
  next
    case (Call_free x)
    with ok aa A m have "x \<in> {1..max_nodes h} - set_tree t - set fl" by simp
    from ph_free_node_rel [OF r this] Call_free aa A m show ?thesis
      by (auto intro: ph_absI)
  next
    case (Call_contains x)
    with ok aa m have "x \<noteq> 0" "x \<le> max_nodes h" by auto
    from ph_contains_node_rel [OF r this] Call_contains aa A a show ?thesis by simp
  qed
qed

text \<open>
  What a client sees: any implementation of the calls that follows the specification. The
  client lemmas are about sequences of calls, about emptying the heap and about the loss
  of the free list.
\<close>

primrec ph_run :: "(ph_call \<Rightarrow> 's \<Rightarrow> (nat \<times> 's) option) \<Rightarrow> ph_call list \<Rightarrow> 's \<Rightarrow> (nat list \<times> 's) option" where
  "ph_run ex [] s = Some ([], s)"
| "ph_run ex (c # cs) s = do {
     (r, s1) \<leftarrow> ex c s;
     (rs, s2) \<leftarrow> ph_run ex cs s1;
     Some (r # rs, s2) }"

lemma ph_run_append:
  "ph_run ex cs s = Some (rs, s1) \<Longrightarrow> ph_run ex ds s1 = Some (rs', s2) \<Longrightarrow>
     ph_run ex (cs @ ds) s = Some (rs @ rs', s2)"
  by (induction cs arbitrary: s rs) (auto split: bind_splits)

text \<open>The calls are allowed one after the other when their results are \<open>rs\<close>.\<close>

fun ph_allowed_run :: "nat \<Rightarrow> ph_spec \<Rightarrow> ph_call list \<Rightarrow> nat list \<Rightarrow> bool" where
  "ph_allowed_run m a (c # cs) (r # rs) = (ph_allowed m a c \<and> ph_allowed_run m (ph_next a c r) cs rs)"
| "ph_allowed_run m a [] [] = True"
| "ph_allowed_run m a cs rs = False"

fun ph_starved :: "ph_spec \<Rightarrow> bool" where
  "ph_starved (A, fl, st) = st"

lemma ph_starved_next: "ph_starved a \<Longrightarrow> ph_starved (ph_next a c r)"
  by (cases a; cases c) auto

locale id_heap =
  fixes R :: "(nat \<Rightarrow> 'k :: linorder) \<Rightarrow> 's \<Rightarrow> nat \<Rightarrow> ph_spec \<Rightarrow> bool"
    and exec :: "(nat \<Rightarrow> 'k) \<Rightarrow> ph_call \<Rightarrow> 's \<Rightarrow> (nat \<times> 's) option"
  assumes step: "R key s m a \<Longrightarrow> ph_allowed m a c \<Longrightarrow>
      \<exists>r s'. exec key c s = Some (r, s') \<and> ph_result key a c r \<and> R key s' m (ph_next a c r)"
begin

lemma insert_all:
  "R key s m (A, fl, st) \<Longrightarrow> distinct xs \<Longrightarrow> set xs \<subseteq> {1..m} - A - set fl \<Longrightarrow>
     \<exists>rs s'. ph_run (exec key) (map Call_insert xs) s = Some (rs, s') \<and> R key s' m (A \<union> set xs, fl, st)"
proof (induction xs arbitrary: s A)
  case Nil
  then show ?case by simp
next
  case (Cons x xs)
  then have "ph_allowed m (A, fl, st) (Call_insert x)" by simp
  from step [OF Cons.prems(1) this] obtain r s1
    where "exec key (Call_insert x) s = Some (r, s1)" and R1: "R key s1 m (insert x A, fl, st)" by auto
  moreover from Cons.IH [OF R1] Cons.prems(2,3) obtain rs s2
    where "ph_run (exec key) (map Call_insert xs) s1 = Some (rs, s2)"
      and "R key s2 m (insert x A \<union> set xs, fl, st)" by auto
  ultimately show ?case by simp
qed

lemma alloc:
  "R key s m (A, fl, False) \<Longrightarrow> k \<le> length fl \<Longrightarrow> 0 \<notin> set fl \<Longrightarrow>
     \<exists>s'. ph_run (exec key) (replicate k Call_new) s = Some (take k fl, s')
       \<and> R key s' m (A, drop k fl, False)"
proof (induction k arbitrary: s fl)
  case 0
  then show ?case by simp
next
  case (Suc k)
  then obtain x xs where fl: "fl = x # xs" by (cases fl) auto
  from step [OF Suc.prems(1), of Call_new] fl Suc.prems(3) obtain s1
    where "exec key Call_new s = Some (x, s1)" and R1: "R key s1 m (A, xs, False)" by auto
  moreover from Suc.IH [OF R1] Suc.prems(2,3) fl obtain s2
    where "ph_run (exec key) (replicate k Call_new) s1 = Some (take k xs, s2)"
      and "R key s2 m (A, drop k xs, False)" by auto
  ultimately show ?case by (simp add: fl)
qed

lemma drain:
  "R key s m (A, fl, st) \<Longrightarrow> finite A \<Longrightarrow> card A = n \<Longrightarrow>
     \<exists>rs s'. ph_run (exec key) (replicate n (Call_remove_head False)) s = Some (rs, s')
       \<and> R key s' m ({}, fl, st) \<and> sorted (map key rs) \<and> distinct rs \<and> set rs = A"
proof (induction n arbitrary: s A)
  case 0
  then show ?case by simp
next
  case (Suc n)
  then have "A \<noteq> {}" by auto
  then have "ph_allowed m (A, fl, st) (Call_remove_head False)" by simp
  from step [OF Suc.prems(1) this] obtain r s1
    where e: "exec key (Call_remove_head False) s = Some (r, s1)" and l: "is_least key A r"
      and R1: "R key s1 m (A - {r}, fl, st)" by auto
  from l have rA: "r \<in> A" and least: "\<And>j. j \<in> A \<Longrightarrow> key r \<le> key j" by (auto simp: is_least_def)
  from Suc.prems rA have "finite (A - {r})" "card (A - {r}) = n" by auto
  from Suc.IH [OF R1 this] obtain rs s2
    where "ph_run (exec key) (replicate n (Call_remove_head False)) s1 = Some (rs, s2)"
      and "R key s2 m ({}, fl, st)" "sorted (map key rs)" "distinct rs" "set rs = A - {r}" by blast
  with e rA least show ?case by auto
qed

lemma starved_run:
  "R key s m a \<Longrightarrow> ph_run (exec key) cs s = Some (rs, s') \<Longrightarrow> ph_allowed_run m a cs rs \<Longrightarrow>
     ph_starved a \<Longrightarrow> i < length cs \<Longrightarrow> cs ! i = Call_new \<Longrightarrow> rs ! i = 0"
proof (induction cs arbitrary: s a rs i)
  case (Cons c cs)
  from Cons.prems(2) obtain r s1 rs'
    where e: "exec key c s = Some (r, s1)" and rs: "rs = r # rs'"
      and run: "ph_run (exec key) cs s1 = Some (rs', s')"
    by (auto split: bind_splits)
  from Cons.prems(3) rs have ok: "ph_allowed m a c" and oks: "ph_allowed_run m (ph_next a c r) cs rs'"
    by auto
  from step [OF Cons.prems(1) ok] e have res: "ph_result key a c r"
    and R1: "R key s1 m (ph_next a c r)" by auto
  show ?case
  proof (cases i)
    case 0
    with Cons.prems(4,6) res rs show ?thesis by (cases a) simp
  next
    case (Suc k)
    with Cons.IH [OF R1 run oks ph_starved_next [OF Cons.prems(4)], of k] Cons.prems(5,6) rs
    show ?thesis by simp
  qed
qed simp

end

interpretation phq: id_heap ph_abs "\<lambda>key c h. ph_exec (key_less key) h c"
  by unfold_locales (rule ph_exec_step)

section \<open>Properties\<close>

lemma ph_create_abs:
  "0 < n \<Longrightarrow> n < 2 ^ 8 \<Longrightarrow> \<exists>h. ph_create n = Some h \<and> ph_abs key h n ({}, [1..<Suc n], False)"
  using ph_create_rel [of n key] by (force intro: ph_absI)

subsection \<open>The documented priority queue\<close>

text \<open>
  The contract \<open>pheap.h\<close> documents: a set of ids with a minimum, and a list of the free ids
  from which \<open>ph_new_node\<close> takes the first, returning 0 when no id is free. The relation
  \<open>pq_rel\<close> says that a heap stands for such a pair and that its free list is intact.
\<close>

type_synonym pq_spec = "nat set \<times> nat list"

fun pq_allowed :: "nat \<Rightarrow> pq_spec \<Rightarrow> ph_call \<Rightarrow> bool" where
  "pq_allowed m (A, fl) Call_new = True"
| "pq_allowed m (A, fl) (Call_insert x) = (x \<in> {1..m} - A - set fl)"
| "pq_allowed m (A, fl) (Call_remove_head free) = (A \<noteq> {})"
| "pq_allowed m (A, fl) (Call_remove_and_free x) = (x \<le> m)"
| "pq_allowed m (A, fl) (Call_free x) = (x \<in> {1..m} - A - set fl)"
| "pq_allowed m (A, fl) (Call_contains x) = (x \<in> {1..m})"

fun pq_result :: "(nat \<Rightarrow> 'k :: linorder) \<Rightarrow> pq_spec \<Rightarrow> ph_call \<Rightarrow> nat \<Rightarrow> bool" where
  "pq_result key (A, fl) Call_new r = (r = (case fl of [] \<Rightarrow> 0 | x # _ \<Rightarrow> x))"
| "pq_result key (A, fl) (Call_insert x) r = is_least key (insert x A) r"
| "pq_result key (A, fl) (Call_remove_head free) r = is_least key A r"
| "pq_result key (A, fl) (Call_remove_and_free x) r = (r = of_bool (x \<in> A))"
| "pq_result key (A, fl) (Call_free x) r = True"
| "pq_result key (A, fl) (Call_contains x) r = (r = of_bool (x \<in> A))"

fun pq_next :: "pq_spec \<Rightarrow> ph_call \<Rightarrow> nat \<Rightarrow> pq_spec" where
  "pq_next (A, fl) Call_new r = (A, tl fl)"
| "pq_next (A, fl) (Call_insert x) r = (insert x A, fl)"
| "pq_next (A, fl) (Call_remove_head free) r = (A - {r}, if free then fl @ [r] else fl)"
| "pq_next (A, fl) (Call_remove_and_free x) r = (if x \<in> A then (A - {x}, fl @ [x]) else (A, fl))"
| "pq_next (A, fl) (Call_free x) r = (A, fl @ [x])"
| "pq_next (A, fl) (Call_contains x) r = (A, fl)"

text \<open>The calls that put an id on the free list.\<close>

fun pq_frees :: "pq_spec \<Rightarrow> ph_call \<Rightarrow> bool" where
  "pq_frees (A, fl) (Call_remove_head free) = free"
| "pq_frees (A, fl) (Call_remove_and_free x) = (x \<in> A)"
| "pq_frees (A, fl) (Call_free x) = True"
| "pq_frees (A, fl) c = False"

definition pq_rel :: "(nat \<Rightarrow> 'k :: linorder) \<Rightarrow> pheap \<Rightarrow> nat \<Rightarrow> pq_spec \<Rightarrow> bool" where
  "pq_rel key h m = (\<lambda>(A, fl). ph_abs key h m (A, fl, False))"

lemma pq_rel_free_nonzero: "pq_rel key h m (A, fl) \<Longrightarrow> 0 \<notin> set fl"
  by (auto simp: pq_rel_def ph_abs_def dest: ph_rel_free)

lemma pq_allowed_ph: "pq_allowed m (A, fl) c = ph_allowed m (A, fl, False) c"
  by (cases c) auto

lemma pq_result_ph: "ph_result key (A, fl, False) c r = pq_result key (A, fl) c r"
  by (cases c) (auto split: list.splits)

lemma pq_next_ph:
  "pq_result key (A, fl) c r \<Longrightarrow> 0 \<notin> set fl \<Longrightarrow> pq_frees (A, fl) c \<longrightarrow> fl \<noteq> [] \<Longrightarrow>
     ph_next (A, fl, False) c r = (fst (pq_next (A, fl) c r), snd (pq_next (A, fl) c r), False)"
  by (cases c) (auto split: list.splits)

lemma pq_rel_create:
  assumes "ph_create n = Some h"
  shows "pq_rel key h n ({}, [1..<Suc n])"
proof -
  from assms have "0 < n" "n < 2 ^ 8" by (auto simp: ph_create_def split: if_splits)
  from ph_create_abs [OF this, of key] assms show ?thesis by (auto simp: pq_rel_def simp del: upt_Suc)
qed

lemma pq_rel_step:
  assumes r: "pq_rel key h m (A, fl)" and ok: "pq_allowed m (A, fl) c"
  shows "\<exists>r h'. ph_exec (key_less key) h c = Some (r, h') \<and> pq_result key (A, fl) c r
    \<and> ((pq_frees (A, fl) c \<longrightarrow> fl \<noteq> []) \<longrightarrow> pq_rel key h' m (pq_next (A, fl) c r))"
proof -
  from phq.step [of key h m "(A, fl, False)" c] r ok obtain x h'
    where e: "ph_exec (key_less key) h c = Some (x, h')" and res: "pq_result key (A, fl) c x"
      and n: "ph_abs key h' m (ph_next (A, fl, False) c x)"
    by (auto simp: pq_rel_def pq_allowed_ph pq_result_ph)
  have "pq_rel key h' m (pq_next (A, fl) c x)" if "pq_frees (A, fl) c \<longrightarrow> fl \<noteq> []"
    using pq_next_ph [OF res pq_rel_free_nonzero [OF r] that] n
    by (cases "pq_next (A, fl) c x") (simp add: pq_rel_def)
  with e res show ?thesis by blast
qed

text \<open>
  C1. The pairing heap implements the priority queue its header documents: a heap of capacity
  \<open>n\<close> starts with no id in it and all of \<open>1..n\<close> free, and from a heap that stands for the ids
  \<open>A\<close> and the free list \<open>fl\<close> every allowed call returns (no assert fails, every loop ends)
  with the documented result (\<open>ph_new_node\<close> the first free id, 0 exactly when none is free)
  and a heap that stands for the next state. The next state is claimed except for a
  call that frees an id while no id is free: what holds from there on
  is stated by \<open>ph_new_node_after_exhaustion\<close> below.
\<close>

theorem pheap_refines_spec:
  fixes key :: "nat \<Rightarrow> 'k :: linorder"
  shows "(ph_create n = Some h0 \<longrightarrow> pq_rel key h0 n ({}, [1..<Suc n]))
    \<and> (pq_rel key h m (A, fl) \<and> pq_allowed m (A, fl) c \<longrightarrow>
        (\<exists>r h'. ph_exec (\<lambda>i j. key i < key j) h c = Some (r, h') \<and> pq_result key (A, fl) c r
          \<and> ((pq_frees (A, fl) c \<longrightarrow> fl \<noteq> []) \<longrightarrow> pq_rel key h' m (pq_next (A, fl) c r))))"
  using pq_rel_create [of n h0 key] pq_rel_step [of key h m A fl c] by blast

text \<open>A heap of two: both ids are allocated, the first is inserted, found and removed.\<close>

theorem pheap_refines_spec_witness:
  "\<exists>h0 r1 h1 r2 h2. ph_create 2 = Some h0 \<and> pq_rel id h0 2 ({}, [1, 2])
    \<and> ph_exec (\<lambda>i j. id i < id j) h0 Call_new = Some (r1, h1) \<and> r1 = 1 \<and> pq_rel id h1 2 ({}, [2])
    \<and> ph_exec (\<lambda>i j. id i < id j) h1 (Call_insert 1) = Some (r2, h2) \<and> r2 = 1
    \<and> pq_rel id h2 2 ({1}, [2])
    \<and> (\<exists>h3. ph_exec (\<lambda>i j. id i < id j) h2 (Call_remove_head True) = Some (1, h3)
        \<and> pq_rel id h3 2 ({}, [2, 1]))"
proof -
  have u: "[1..<Suc 2] = [1, 2]" by code_simp
  obtain h0 where h0: "ph_create 2 = Some h0" using ph_create_abs [of 2 id] by auto
  have r0: "pq_rel id h0 2 ({}, [1, 2])"
    using pheap_refines_spec [of 2 h0 id] h0 by (simp only: u)
  obtain h1 where h1: "ph_exec (\<lambda>i j. id i < id j) h0 Call_new = Some (1, h1)" "pq_rel id h1 2 ({}, [2])"
    using pheap_refines_spec [of 2 h0 id h0 2 "{}" "[1, 2]" Call_new] r0 by auto
  obtain h2 where h2: "ph_exec (\<lambda>i j. id i < id j) h1 (Call_insert 1) = Some (1, h2)" "pq_rel id h2 2 ({1}, [2])"
    using pheap_refines_spec [of 2 h0 id h1 2 "{}" "[2]" "Call_insert 1"] h1(2)
    by (auto simp: is_least_def)
  obtain h3 where h3: "ph_exec (\<lambda>i j. id i < id j) h2 (Call_remove_head True) = Some (1, h3)"
      "pq_rel id h3 2 ({}, [2, 1])"
    using pheap_refines_spec [of 2 h0 id h2 2 "{1}" "[2]" "Call_remove_head True"] h2(2)
    by (auto simp: is_least_def)
  show ?thesis using h0 r0 h1 h2 h3 by blast
qed

text \<open>
  C15. Heap sort: from a fresh heap of capacity \<open>n\<close>, \<open>k\<close> allocated and inserted ids come
  out of \<open>k\<close> calls of \<open>ph_remove_head\<close> in the order of their keys, each id once.
\<close>

theorem pheap_sorts:
  fixes key :: "nat \<Rightarrow> 'k :: linorder"
  assumes "0 < n" and "n < 2 ^ 8" and "k \<le> n"
  shows "\<exists>outs. do {
      h0 \<leftarrow> ph_create n;
      (ids, h1) \<leftarrow> ph_run (\<lambda>c h. ph_exec (\<lambda>i j. key i < key j) h c) (replicate k Call_new) h0;
      (_, h2) \<leftarrow> ph_run (\<lambda>c h. ph_exec (\<lambda>i j. key i < key j) h c) (map Call_insert ids) h1;
      (outs, _) \<leftarrow> ph_run (\<lambda>c h. ph_exec (\<lambda>i j. key i < key j) h c)
        (replicate k (Call_remove_head False)) h2;
      Some outs } = Some outs \<and> sorted (map key outs) \<and> mset outs = mset [1..<Suc k]"
proof -
  obtain h0 where h0: "ph_create n = Some h0" "ph_abs key h0 n ({}, [1..<Suc n], False)"
    using ph_create_abs [OF assms(1,2)] by blast
  have t: "take k [1..<Suc n] = [1..<Suc k]" "drop k [1..<Suc n] = [Suc k..<Suc n]"
    using assms(3) by (simp_all add: take_upt del: upt_Suc)
  from phq.alloc [OF h0(2), of k] assms(3) t obtain h1
    where h1: "ph_run (\<lambda>c h. ph_exec (key_less key) h c) (replicate k Call_new) h0 = Some ([1..<Suc k], h1)"
      "ph_abs key h1 n ({}, [Suc k..<Suc n], False)" by (auto simp del: upt_Suc)
  have "set [1..<Suc k] \<subseteq> {1..n} - {} - set [Suc k..<Suc n]" using assms(3) by auto
  from phq.insert_all [OF h1(2) distinct_upt this] obtain r2 h2
    where h2: "ph_run (\<lambda>c h. ph_exec (key_less key) h c) (map Call_insert [1..<Suc k]) h1 = Some (r2, h2)"
      "ph_abs key h2 n (set [1..<Suc k], [Suc k..<Suc n], False)" by (auto simp del: upt_Suc set_upt)
  have "finite (set [1..<Suc k])" by (rule finite_set)
  moreover have "card (set [1..<Suc k]) = k" by (subst distinct_card) simp_all
  ultimately obtain outs h3
    where h3: "ph_run (\<lambda>c h. ph_exec (key_less key) h c) (replicate k (Call_remove_head False)) h2 = Some (outs, h3)"
      "sorted (map key outs)" "distinct outs" "set outs = set [1..<Suc k]"
    using phq.drain [OF h2(2)] by blast
  have "mset outs = mset [1..<Suc k]"
    using set_eq_iff_mset_eq_distinct [OF h3(3) distinct_upt] h3(4) by blast
  with h0(1) h1(1) h2(1) h3 show ?thesis
    by (intro exI [of _ outs]) (simp del: upt_Suc)
qed

theorem pheap_sorts_witness:
  "\<exists>outs. do {
      h0 \<leftarrow> ph_create 3;
      (ids, h1) \<leftarrow> ph_run (\<lambda>c h. ph_exec (\<lambda>i j. (5 - i :: nat) < 5 - j) h c) (replicate 3 Call_new) h0;
      (_, h2) \<leftarrow> ph_run (\<lambda>c h. ph_exec (\<lambda>i j. (5 - i :: nat) < 5 - j) h c) (map Call_insert ids) h1;
      (outs, _) \<leftarrow> ph_run (\<lambda>c h. ph_exec (\<lambda>i j. (5 - i :: nat) < 5 - j) h c)
        (replicate 3 (Call_remove_head False)) h2;
      Some outs } = Some outs \<and> sorted (map (\<lambda>i. 5 - i) outs) \<and> mset outs = mset [1..<Suc 3]"
  by (rule pheap_sorts) simp_all

text \<open>
  The free list of the pairing heap does not recover from being empty: after all \<open>n\<close>
  nodes were allocated and one was freed, no call of \<open>ph_new_node\<close> in any further
  sequence of allowed calls finds a node, although nodes are free.
\<close>

theorem ph_new_node_after_exhaustion:
  fixes key :: "nat \<Rightarrow> 'k :: linorder"
  assumes "ph_create n = Some h0"
    and "ph_run (\<lambda>c h. ph_exec (\<lambda>i j. key i < key j) h c) (replicate n Call_new @ [Call_free x]) h0
      = Some (ids, h1)" and "x \<in> {1..n}"
    and "ph_run (\<lambda>c h. ph_exec (\<lambda>i j. key i < key j) h c) cs h1 = Some (rs, h2)"
    and "ph_allowed_run n ({}, [x], True) cs rs"
    and "i < length cs" and "cs ! i = Call_new"
  shows "rs ! i = 0"
proof -
  from assms(1) have n: "0 < n" "n < 2 ^ 8" by (auto simp: ph_create_def split: if_splits)
  then obtain h0' where "ph_create n = Some h0'" "ph_abs key h0' n ({}, [1..<Suc n], False)"
    using ph_create_abs by blast
  with assms(1) have a0: "ph_abs key h0 n ({}, [1..<Suc n], False)" by simp
  let ?ex = "\<lambda>c h. ph_exec (key_less key) h c"
  from phq.alloc [OF a0, of n] obtain h'
    where h': "ph_run ?ex (replicate n Call_new) h0 = Some ([1..<Suc n], h')"
      and a1: "ph_abs key h' n ({}, [], False)" by (auto simp del: upt_Suc)
  from assms(3) have "ph_allowed n ({}, [], False) (Call_free x)" by simp
  from phq.step [OF a1 this] obtain r h''
    where f: "?ex (Call_free x) h' = Some (r, h'')" and a2: "ph_abs key h'' n ({}, [x], True)" by auto
  have "ph_run ?ex (replicate n Call_new @ [Call_free x]) h0 = Some ([1..<Suc n] @ [r], h'')"
    by (rule ph_run_append [OF h']) (use f in simp)
  with assms(2) a2 have "ph_abs key h1 n ({}, [x], True)" by simp
  from phq.starved_run [OF this assms(4,5) _ assms(6,7)] show ?thesis by simp
qed

theorem ph_new_node_after_exhaustion_witness:
  "\<exists>h0 ids h1 rs h2. ph_create 2 = Some h0
    \<and> ph_run (\<lambda>c h. ph_exec (<) h c) (replicate 2 Call_new @ [Call_free 1]) h0 = Some (ids, h1)
    \<and> ph_run (\<lambda>c h. ph_exec (<) h c) [Call_free 2, Call_new] h1 = Some (rs, h2) \<and> rs ! 1 = 0"
proof -
  let ?ex = "\<lambda>c h. ph_exec (<) h c"
  define h0 where "h0 = the (ph_create 2)"
  define i1 where "i1 = the (ph_run ?ex (replicate 2 Call_new @ [Call_free 1]) h0)"
  define i2 where "i2 = the (ph_run ?ex [Call_free 2, Call_new] (snd i1))"
  have h0: "ph_create 2 = Some h0" unfolding h0_def by code_simp
  have i1: "ph_run ?ex (replicate 2 Call_new @ [Call_free 1]) h0 = Some (fst i1, snd i1)"
    unfolding i1_def h0_def by code_simp
  have i2: "ph_run ?ex [Call_free 2, Call_new] (snd i1) = Some (fst i2, snd i2)"
    unfolding i2_def i1_def h0_def by code_simp
  have "ph_allowed_run 2 ({}, [1], True) [Call_free 2, Call_new] (fst i2)"
    unfolding i2_def i1_def h0_def by code_simp
  from ph_new_node_after_exhaustion [where key = id, OF h0, of 1 "fst i1" "snd i1"
      "[Call_free 2, Call_new]" "fst i2" "snd i2" 1] this i1 i2
  have "fst i2 ! 1 = 0" by simp
  with h0 i1 i2 show ?thesis by blast
qed

end
