(* ===== verification/Alarm_Pool.thy ===== *)
theory Alarm_Pool
  imports Timer_Correct Pheap_Queue
begin

text \<open>
  Alarm pools (\<open>SDK/pico/pico\_time/time.c\<close>): a pairing heap of timer entries ordered by
  target, driven by one hardware alarm. The state of the timer block is carried with the
  pool. What runs under the pool's spin lock is one operation here; the interrupt handler is
  split at its two unlocks into \<open>alarm\_pick\<close>, the user callback, and \<open>alarm\_finish\<close>, so that
  calls from the other core or from the callback can come in between. Callbacks are code of
  the user: a number names one, 0 is \<open>NULL\<close>, and the functions that call one take its meaning
  as an argument.
\<close>

section \<open>State\<close>

record alarm_pool_entry =
  target :: absolute_time
  callback :: nat
  user_data :: nat

record alarm_pool =
  heap :: pheap
  entries :: "alarm_pool_entry list"
  entry_ids_high :: "u8 list"
  alarm_in_progress :: u32
  hardware_alarm_num :: nat
  ap_timer :: timer_state

text \<open>An \<open>alarm\_id\_t\<close> is a signed 32 bit number; -1 is the error.\<close>

type_synonym alarm_id = u32

text \<open>What a callback does: from its id and user data to the repeat interval (an \<open>int64\_t\<close>).\<close>

type_synonym run_callback = "nat \<Rightarrow> alarm_id \<Rightarrow> nat \<Rightarrow> alarm_pool \<Rightarrow> (int \<times> alarm_pool) option"

definition get_entry :: "alarm_pool \<Rightarrow> nat \<Rightarrow> alarm_pool_entry option" where
  "get_entry p nid = do {
     c_assert (nid \<noteq> 0 \<and> nid \<le> max_nodes (heap p));
     c_read (entries p) (nid - 1) }"

definition get_entry_id_high :: "alarm_pool \<Rightarrow> nat \<Rightarrow> u8 option" where
  "get_entry_id_high p nid = do {
     c_assert (nid \<noteq> 0 \<and> nid \<le> max_nodes (heap p));
     c_read (entry_ids_high p) (nid - 1) }"

definition entry_us :: "alarm_pool \<Rightarrow> nat \<Rightarrow> u64" where
  "entry_us p nid = (case get_entry p nid of None \<Rightarrow> 0 | Some e \<Rightarrow> to_us_since_boot (target e))"

text \<open>The heap passes node ids only, so the asserts of \<open>get\_entry\<close> hold in the comparator.\<close>

definition timer_pool_entry_comparator :: "alarm_pool \<Rightarrow> comparator" where
  "timer_pool_entry_comparator p a b \<longleftrightarrow> entry_us p a < entry_us p b"

definition make_public_id :: "u8 \<Rightarrow> nat \<Rightarrow> alarm_id" where
  "make_public_id id_high nid = push_bit 8 (ucast id_high) OR of_nat nid"

section \<open>Adding and cancelling\<close>

text \<open>
  The second result is what is written through \<open>missed\<close>: \<open>None\<close> when it is not written.
\<close>

definition add_alarm_under_lock ::
    "alarm_pool \<Rightarrow> absolute_time \<Rightarrow> nat \<Rightarrow> nat \<Rightarrow> nat \<Rightarrow> bool \<Rightarrow> (nat \<times> bool option \<times> alarm_pool) option" where
  "add_alarm_under_lock p time cb ud reuse_id create_if_past = do {
     (nid, h1) \<leftarrow> (if reuse_id \<noteq> 0 then do {
                     inside \<leftarrow> ph_contains_node (heap p) reuse_id;
                     c_assert (\<not> inside);
                     Some (reuse_id, heap p) }
                   else ph_new_node (heap p));
     let p1 = p\<lparr>heap := h1\<rparr>;
     if nid \<noteq> 0 then do {
       _ \<leftarrow> get_entry p1 nid;
       es \<leftarrow> c_write (entries p1) (nid - 1) \<lparr>target = time, callback = cb, user_data = ud\<rparr>;
       let p2 = p1\<lparr>entries := es\<rparr>;
       (root, h2) \<leftarrow> ph_insert_node (timer_pool_entry_comparator p2) (heap p2) nid;
       let p3 = p2\<lparr>heap := h2\<rparr>;
       if nid = root then do {
         (is_missed, t) \<leftarrow> hardware_alarm_set_target (ap_timer p3) (hardware_alarm_num p3) time;
         let p4 = p3\<lparr>ap_timer := t\<rparr>;
         p5 \<leftarrow> (if is_missed \<and> \<not> create_if_past then do {
                  (_, h3) \<leftarrow> ph_remove_and_free_node (timer_pool_entry_comparator p4) (heap p4) nid;
                  Some (p4\<lparr>heap := h3\<rparr>) }
                else Some p4);
         Some (nid, Some is_missed, p5) }
       else Some (nid, None, p3) }
     else Some (0, None, p1) }"

text \<open>One round under the lock: the id (0 if there is no room), its high byte and \<open>missed\<close>.\<close>

definition add_alarm_round ::
    "alarm_pool \<Rightarrow> absolute_time \<Rightarrow> nat \<Rightarrow> nat \<Rightarrow> bool \<Rightarrow> (nat \<times> u8 \<times> bool \<times> alarm_pool) option" where
  "add_alarm_round p time cb ud missed = do {
     (nid, m, p1) \<leftarrow> add_alarm_under_lock p time cb ud 0 False;
     let missed' = (case m of None \<Rightarrow> missed | Some b \<Rightarrow> b);
     id_high \<leftarrow> (if nid \<noteq> 0 then get_entry_id_high p1 nid else Some 0);
     Some (nid, id_high, missed', p1) }"

text \<open>
  The loop of \<open>alarm\_pool\_add\_alarm\_at\<close>. As in the code, \<open>missed\<close> keeps its value from one
  round to the next.
\<close>

partial_function (option) add_alarm_loop ::
    "run_callback \<Rightarrow> alarm_pool \<Rightarrow> absolute_time \<Rightarrow> nat \<Rightarrow> nat \<Rightarrow> bool \<Rightarrow> bool \<Rightarrow> (alarm_id \<times> alarm_pool) option" where
  "add_alarm_loop run p time cb ud fire_if_past missed = do {
     (nid, id_high, missed', p1) \<leftarrow> add_alarm_round p time cb ud missed;
     if nid = 0 then Some (- 1, p1)
     else do {
       let public_id = (if missed' then 0 else make_public_id id_high nid);
       if missed' \<and> fire_if_past then do {
         (repeat, p2) \<leftarrow> run cb public_id ud p1;
         if repeat = 0 then Some (0, p2)
         else if repeat < 0 then do {
           t \<leftarrow> delayed_by_us time (word_of_int (- repeat));
           add_alarm_loop run p2 t cb ud fire_if_past missed' }
         else do {
           (now, tm) \<leftarrow> get_absolute_time (ap_timer p2);
           t \<leftarrow> delayed_by_us now (word_of_int repeat);
           add_alarm_loop run (p2\<lparr>ap_timer := tm\<rparr>) t cb ud fire_if_past missed' } }
       else Some (public_id, p1) } }"

declare add_alarm_loop.simps [code]

definition alarm_pool_add_alarm_at ::
    "run_callback \<Rightarrow> alarm_pool \<Rightarrow> absolute_time \<Rightarrow> nat \<Rightarrow> nat \<Rightarrow> bool \<Rightarrow> (alarm_id \<times> alarm_pool) option" where
  "alarm_pool_add_alarm_at run p time cb ud fire_if_past =
     add_alarm_loop run p time cb ud fire_if_past False"

definition alarm_pool_add_alarm_in_us ::
    "run_callback \<Rightarrow> alarm_pool \<Rightarrow> u64 \<Rightarrow> nat \<Rightarrow> nat \<Rightarrow> bool \<Rightarrow> (alarm_id \<times> alarm_pool) option" where
  "alarm_pool_add_alarm_in_us run p us cb ud fire_if_past = do {
     (t, tm) \<leftarrow> make_timeout_time_us (ap_timer p) us;
     alarm_pool_add_alarm_at run (p\<lparr>ap_timer := tm\<rparr>) t cb ud fire_if_past }"

definition alarm_pool_add_alarm_in_ms ::
    "run_callback \<Rightarrow> alarm_pool \<Rightarrow> u32 \<Rightarrow> nat \<Rightarrow> nat \<Rightarrow> bool \<Rightarrow> (alarm_id \<times> alarm_pool) option" where
  "alarm_pool_add_alarm_in_ms run p ms cb ud fire_if_past = do {
     (t, tm) \<leftarrow> make_timeout_time_ms (ap_timer p) ms;
     alarm_pool_add_alarm_at run (p\<lparr>ap_timer := tm\<rparr>) t cb ud fire_if_past }"

definition alarm_pool_cancel_alarm :: "alarm_pool \<Rightarrow> alarm_id \<Rightarrow> (bool \<times> alarm_pool) option" where
  "alarm_pool_cancel_alarm p alarm_id = do {
     let nid = unat (ucast alarm_id :: u8);
     inside \<leftarrow> ph_contains_node (heap p) nid;
     if inside then do {
       c_assert (alarm_id \<noteq> alarm_in_progress p);
       let id_high = (ucast (drop_bit 8 alarm_id) :: u8);
       h \<leftarrow> get_entry_id_high p nid;
       if id_high = h then do {
         (rc, hp) \<leftarrow> ph_remove_and_free_node (timer_pool_entry_comparator p) (heap p) nid;
         c_assert rc;
         Some (rc, p\<lparr>heap := hp\<rparr>) }
       else Some (False, p) }
     else if alarm_id = alarm_in_progress p then Some (False, p\<lparr>alarm_in_progress := 0\<rparr>)
     else Some (False, p) }"

section \<open>The interrupt handler\<close>

text \<open>What the handler keeps in local variables while it calls the callback.\<close>

record fired =
  f_id :: nat
  f_id_high :: u8
  f_target :: absolute_time
  f_callback :: nat
  f_user_data :: nat

definition alarm_pick :: "alarm_pool \<Rightarrow> (fired option \<times> bool \<times> alarm_pool) option" where
  "alarm_pick p = do {
     (now, t) \<leftarrow> get_absolute_time (ap_timer p);
     let p1 = p\<lparr>ap_timer := t\<rparr>;
     let next_id = ph_peek_head (heap p1);
     if next_id \<noteq> 0 then do {
       entry \<leftarrow> get_entry p1 next_id;
       if absolute_time_diff_us now (target entry) \<le> 0 then do {
         (removed_id, h) \<leftarrow> ph_remove_head (timer_pool_entry_comparator p1) (heap p1) False;
         c_assert (removed_id = next_id);
         c_assert (callback entry \<noteq> 0);
         let p2 = p1\<lparr>heap := h\<rparr>;
         id_high \<leftarrow> get_entry_id_high p2 next_id;
         Some (Some \<lparr>f_id = next_id, f_id_high = id_high, f_target = target entry,
             f_callback = callback entry, f_user_data = user_data entry\<rparr>, False,
           p2\<lparr>alarm_in_progress := make_public_id id_high removed_id\<rparr>) }
       else do {
         (m, t') \<leftarrow> hardware_alarm_set_target (ap_timer p1) (hardware_alarm_num p1) (target entry);
         Some (None, m, p1\<lparr>ap_timer := t'\<rparr>) } }
     else Some (None, False, p1) }"

definition alarm_finish :: "alarm_pool \<Rightarrow> fired \<Rightarrow> int \<Rightarrow> alarm_pool option" where
  "alarm_finish p f repeat = do {
     p' \<leftarrow> (if repeat < 0 \<and> alarm_in_progress p \<noteq> 0 then do {
              c_assert (alarm_in_progress p = make_public_id (f_id_high f) (f_id f));
              t \<leftarrow> delayed_by_us (f_target f) (word_of_int (- repeat));
              (_, _, p1) \<leftarrow> add_alarm_under_lock p t (f_callback f) (f_user_data f) (f_id f) True;
              Some p1 }
            else if repeat > 0 \<and> alarm_in_progress p \<noteq> 0 then do {
              c_assert (alarm_in_progress p = make_public_id (f_id_high f) (f_id f));
              (now, tm) \<leftarrow> get_absolute_time (ap_timer p);
              t \<leftarrow> delayed_by_us now (word_of_int repeat);
              (_, _, p1) \<leftarrow> add_alarm_under_lock (p\<lparr>ap_timer := tm\<rparr>) t (f_callback f) (f_user_data f) (f_id f) True;
              Some p1 }
            else do {
              h \<leftarrow> ph_free_node (heap p) (f_id f);
              let p1 = p\<lparr>heap := h\<rparr>;
              hi \<leftarrow> get_entry_id_high p1 (f_id f);
              hs \<leftarrow> c_write (entry_ids_high p1) (f_id f - 1) (hi + 1);
              Some (p1\<lparr>entry_ids_high := hs\<rparr>) });
     Some (p'\<lparr>alarm_in_progress := 0\<rparr>) }"

partial_function (option) alarm_pool_alarm_callback :: "run_callback \<Rightarrow> alarm_pool \<Rightarrow> alarm_pool option" where
  "alarm_pool_alarm_callback run p = do {
     (f, again, p1) \<leftarrow> alarm_pick p;
     case f of
       Some fi \<Rightarrow> do {
         (repeat, p2) \<leftarrow> run (f_callback fi) (make_public_id (f_id_high fi) (f_id fi)) (f_user_data fi) p1;
         p3 \<leftarrow> alarm_finish p2 fi repeat;
         alarm_pool_alarm_callback run p3 }
     | None \<Rightarrow> if again then alarm_pool_alarm_callback run p1 else Some p1 }"

declare alarm_pool_alarm_callback.simps [code]

section \<open>Creating a pool\<close>

text \<open>
  \<open>pool\_handler\<close> is the address of \<open>alarm\_pool\_alarm\_callback\<close>. The choice of the pool's
  spin lock is \<open>next\_striped\_spin\_lock\_num\<close> and does not matter here.
\<close>

definition alarm_pool_post_alloc_init :: "nat \<Rightarrow> alarm_pool \<Rightarrow> nat \<Rightarrow> alarm_pool option" where
  "alarm_pool_post_alloc_init pool_handler p alarm_num = do {
     t1 \<leftarrow> hardware_alarm_claim (ap_timer p) alarm_num;
     t2 \<leftarrow> hardware_alarm_cancel t1 alarm_num;
     t3 \<leftarrow> hardware_alarm_set_callback t2 alarm_num pool_handler;
     Some (p\<lparr>ap_timer := t3, hardware_alarm_num := unat (of_nat alarm_num :: u8)\<rparr>) }"

definition zero_entry :: alarm_pool_entry where
  "zero_entry = \<lparr>target = Absolute_time 0, callback = 0, user_data = 0\<rparr>"

definition alarm_pool_create :: "nat \<Rightarrow> timer_state \<Rightarrow> nat \<Rightarrow> nat \<Rightarrow> alarm_pool option" where
  "alarm_pool_create pool_handler tm alarm_num max_timers = do {
     hp \<leftarrow> ph_create max_timers;
     alarm_pool_post_alloc_init pool_handler
       \<lparr>heap = hp, entries = replicate max_timers zero_entry, entry_ids_high = replicate max_timers 0,
         alarm_in_progress = 0, hardware_alarm_num = 0, ap_timer = tm\<rparr> alarm_num }"

definition alarm_pool_destroy :: "alarm_pool \<Rightarrow> timer_state option" where
  "alarm_pool_destroy p = do {
     t1 \<leftarrow> hardware_alarm_set_callback (ap_timer p) (hardware_alarm_num p) 0;
     hardware_alarm_unclaim t1 (hardware_alarm_num p) }"

section \<open>Repeating timers and sleeping\<close>

record repeating_timer =
  delay_us :: int
  rt_alarm_id :: alarm_id
  rt_callback :: nat
  rt_user_data :: nat

text \<open>\<open>keep\<close> is the result of the user's function, called on the timer.\<close>

definition repeating_timer_callback ::
    "(repeating_timer \<Rightarrow> bool \<times> repeating_timer) \<Rightarrow> alarm_id \<Rightarrow> repeating_timer \<Rightarrow> (int \<times> repeating_timer) option" where
  "repeating_timer_callback keep aid rt = do {
     c_assert (rt_alarm_id rt = aid);
     let (go_on, rt1) = keep rt;
     if go_on then Some (delay_us rt1, rt1) else Some (0, rt1\<lparr>rt_alarm_id := 0\<rparr>) }"

definition alarm_pool_add_repeating_timer_us ::
    "run_callback \<Rightarrow> nat \<Rightarrow> alarm_pool \<Rightarrow> int \<Rightarrow> nat \<Rightarrow> nat \<Rightarrow> nat \<Rightarrow> (bool \<times> repeating_timer \<times> alarm_pool) option" where
  "alarm_pool_add_repeating_timer_us run rt_handler p delay cb ud out = do {
     let d = (if delay = 0 then 1 else delay);
     (t, tm) \<leftarrow> make_timeout_time_us (ap_timer p) (word_of_int (if d \<ge> 0 then d else - d));
     (aid, p1) \<leftarrow> alarm_pool_add_alarm_at run (p\<lparr>ap_timer := tm\<rparr>) t rt_handler out True;
     Some (sint aid \<ge> 0,
       \<lparr>delay_us = d, rt_alarm_id = aid, rt_callback = cb, rt_user_data = ud\<rparr>, p1) }"

definition cancel_repeating_timer ::
    "alarm_pool \<Rightarrow> repeating_timer \<Rightarrow> (bool \<times> repeating_timer \<times> alarm_pool) option" where
  "cancel_repeating_timer p rt =
     (if rt_alarm_id rt \<noteq> 0 then do {
        (rc, p1) \<leftarrow> alarm_pool_cancel_alarm p (rt_alarm_id rt);
        Some (rc, rt\<lparr>rt_alarm_id := 0\<rparr>, p1) }
      else Some (False, rt, p))"

text \<open>
  \<open>while (!time\_reached(t\_before)) \{ ... wait ... \}\<close>: waiting for an event only lets time
  pass, so a round is one look at the clock.
\<close>

partial_function (option) sleep_loop :: "timer_state \<Rightarrow> absolute_time \<Rightarrow> timer_state option" where
  "sleep_loop s t = (let (b, s1) = time_reached s t in if b then Some s1 else sleep_loop s1 t)"

declare sleep_loop.simps [code]

definition PICO_TIME_SLEEP_OVERHEAD_ADJUST_US :: u64 where
  "PICO_TIME_SLEEP_OVERHEAD_ADJUST_US = 6"

text \<open>\<open>cb\<close> stands for \<open>sleep\_until\_callback\<close>; the code runs outside of exception handlers.\<close>

definition sleep_until :: "run_callback \<Rightarrow> nat \<Rightarrow> alarm_pool \<Rightarrow> absolute_time \<Rightarrow> alarm_pool option" where
  "sleep_until run cb p t = do {
     let t_us = to_us_since_boot t;
     let d = t_us - PICO_TIME_SLEEP_OVERHEAD_ADJUST_US;
     let t_before_us = (if d > t_us then 0 else d);
     t_before \<leftarrow> update_us_since_boot t_before_us;
     (now, tm) \<leftarrow> get_absolute_time (ap_timer p);
     let p1 = p\<lparr>ap_timer := tm\<rparr>;
     p2 \<leftarrow> (if absolute_time_diff_us now t_before > 0 then do {
              (aid, p2) \<leftarrow> alarm_pool_add_alarm_at run p1 t_before cb 0 False;
              if sint aid \<ge> 0 then do {
                tm' \<leftarrow> sleep_loop (ap_timer p2) t_before;
                Some (p2\<lparr>ap_timer := tm'\<rparr>) }
              else Some p2 }
            else Some p1);
     tm'' \<leftarrow> busy_wait_until (ap_timer p2) t;
     Some (p2\<lparr>ap_timer := tm''\<rparr>) }"

definition sleep_us :: "run_callback \<Rightarrow> nat \<Rightarrow> alarm_pool \<Rightarrow> u64 \<Rightarrow> alarm_pool option" where
  "sleep_us run cb p us = do {
     (t, tm) \<leftarrow> make_timeout_time_us (ap_timer p) us;
     sleep_until run cb (p\<lparr>ap_timer := tm\<rparr>) t }"

definition sleep_ms :: "run_callback \<Rightarrow> nat \<Rightarrow> alarm_pool \<Rightarrow> u32 \<Rightarrow> alarm_pool option" where
  "sleep_ms run cb p ms = sleep_us run cb p (ucast ms * 1000)"

definition best_effort_wfe_or_timeout ::
    "run_callback \<Rightarrow> nat \<Rightarrow> alarm_pool \<Rightarrow> absolute_time \<Rightarrow> (bool \<times> alarm_pool) option" where
  "best_effort_wfe_or_timeout run cb p timeout_timestamp = do {
     (aid, p1) \<leftarrow> alarm_pool_add_alarm_at run p timeout_timestamp cb 0 False;
     p2 \<leftarrow> (if sint aid \<le> 0 then Some p1
          else do { (_, p2) \<leftarrow> alarm_pool_cancel_alarm p1 aid; Some p2 });
     let (b, tm) = time_reached (ap_timer p2) timeout_timestamp;
     Some (b, p2\<lparr>ap_timer := tm\<rparr>) }"

end
