(* ===== verification/Hw_Claims.thy ===== *)
theory Hw_Claims
  imports Claim
begin

text \<open>
  The hardware blocks that hand out numbered resources through \<open>hw_claim_*\<close>: the spin
  locks (\<open>SDK/hardware/sync.c\<close>), the DMA channels and timers (\<open>dma.c\<close>), the PIO state
  machines (\<open>pio.c\<close>), the interpolator lanes (\<open>interp.c\<close>) and the timer alarms
  (\<open>timer.c\<close>). Each is an interpretation of the locale \<open>resource_pool\<close>.
  The C code keeps each bit set in a static integer and passes its address as a byte
  array, so the state here is the list of those bytes.
\<close>

section \<open>Spin locks\<close>

abbreviation "NUM_SPIN_LOCKS \<equiv> 32 :: nat"
abbreviation "PICO_SPINLOCK_ID_STRIPED_FIRST \<equiv> 16 :: nat"
abbreviation "PICO_SPINLOCK_ID_STRIPED_LAST \<equiv> 23 :: nat"
abbreviation "PICO_SPINLOCK_ID_CLAIM_FREE_FIRST \<equiv> 24 :: nat"
abbreviation "PICO_SPINLOCK_ID_CLAIM_FREE_LAST \<equiv> 31 :: nat"

text \<open>
  \<open>spin_held\<close> is the 32 lock registers of the SIO block (True: taken);
  \<open>sync_claimed\<close> is the static word \<open>claimed\<close> seen as four bytes.
\<close>

record sync_state =
  striped_spin_lock_num :: u8
  sync_claimed :: "u8 list"
  spin_held :: "bool list"

definition check_lock_num :: "nat \<Rightarrow> unit option" where
  "check_lock_num lock_num = c_assert (\<not> lock_num \<ge> 32)"

definition spin_unlock_unsafe :: "sync_state \<Rightarrow> nat \<Rightarrow> sync_state option" where
  "spin_unlock_unsafe s lock_num = do {
     held \<leftarrow> c_write (spin_held s) lock_num False;
     Some (s\<lparr>spin_held := held\<rparr>) }"

fun spin_locks_reset_from :: "nat list \<Rightarrow> sync_state \<Rightarrow> sync_state option" where
  "spin_locks_reset_from [] s = Some s"
| "spin_locks_reset_from (i # is) s = do {
     s' \<leftarrow> spin_unlock_unsafe s i; spin_locks_reset_from is s' }"

definition spin_locks_reset :: "sync_state \<Rightarrow> sync_state option" where
  "spin_locks_reset s = spin_locks_reset_from [0..<NUM_SPIN_LOCKS] s"

definition spin_lock_init :: "sync_state \<Rightarrow> nat \<Rightarrow> (nat \<times> sync_state) option" where
  "spin_lock_init s lock_num = do {
     c_assert (lock_num < NUM_SPIN_LOCKS);
     s' \<leftarrow> spin_unlock_unsafe s lock_num;
     Some (lock_num, s') }"

definition next_striped_spin_lock_num :: "sync_state \<Rightarrow> nat \<times> sync_state" where
  "next_striped_spin_lock_num s =
     (let rc = striped_spin_lock_num s;
          n = rc + 1;
          n = (if unat n > PICO_SPINLOCK_ID_STRIPED_LAST
               then of_nat PICO_SPINLOCK_ID_STRIPED_FIRST else n)
      in (unat rc, s\<lparr>striped_spin_lock_num := n\<rparr>))"

definition spin_lock_claim :: "sync_state \<Rightarrow> nat \<Rightarrow> sync_state option" where
  "spin_lock_claim s lock_num = do {
     check_lock_num lock_num;
     bits \<leftarrow> hw_claim_or_assert (sync_claimed s) lock_num;
     Some (s\<lparr>sync_claimed := bits\<rparr>) }"

definition spin_lock_claim_mask :: "sync_state \<Rightarrow> u32 \<Rightarrow> sync_state option" where
  "spin_lock_claim_mask s m = claim_mask_loop spin_lock_claim s 0 m"

definition spin_lock_unclaim :: "sync_state \<Rightarrow> nat \<Rightarrow> sync_state option" where
  "spin_lock_unclaim s lock_num = do {
     check_lock_num lock_num;
     s' \<leftarrow> spin_unlock_unsafe s lock_num;
     bits \<leftarrow> hw_claim_clear (sync_claimed s') lock_num;
     Some (s'\<lparr>sync_claimed := bits\<rparr>) }"

definition spin_lock_claim_unused :: "sync_state \<Rightarrow> bool \<Rightarrow> (int \<times> sync_state) option" where
  "spin_lock_claim_unused s required = do {
     (n, bits) \<leftarrow> hw_claim_unused_from_range (sync_claimed s) required
       PICO_SPINLOCK_ID_CLAIM_FREE_FIRST PICO_SPINLOCK_ID_CLAIM_FREE_LAST;
     Some (n, s\<lparr>sync_claimed := bits\<rparr>) }"

definition spin_lock_is_claimed :: "sync_state \<Rightarrow> nat \<Rightarrow> bool option" where
  "spin_lock_is_claimed s lock_num = do {
     check_lock_num lock_num;
     hw_is_claimed (sync_claimed s) lock_num }"

definition sync_inv :: "sync_state \<Rightarrow> bool" where
  "sync_inv s \<longleftrightarrow> length (sync_claimed s) = 4 \<and> length (spin_held s) = NUM_SPIN_LOCKS
     \<and> PICO_SPINLOCK_ID_STRIPED_FIRST \<le> unat (striped_spin_lock_num s)
     \<and> unat (striped_spin_lock_num s) \<le> PICO_SPINLOCK_ID_STRIPED_LAST"

definition sync_boot :: sync_state where
  "sync_boot = \<lparr>striped_spin_lock_num = of_nat PICO_SPINLOCK_ID_STRIPED_FIRST,
     sync_claimed = replicate 4 0, spin_held = replicate NUM_SPIN_LOCKS False\<rparr>"

lemma sync_inv_boot [simp]: "sync_inv sync_boot"
  by (simp add: sync_inv_def sync_boot_def)

lemma spin_unlock_unsafe_in:
  "sync_inv s \<Longrightarrow> i < NUM_SPIN_LOCKS \<Longrightarrow>
     spin_unlock_unsafe s i = Some (s\<lparr>spin_held := (spin_held s)[i := False]\<rparr>)"
  by (simp add: spin_unlock_unsafe_def sync_inv_def)

interpretation spin_locks: claim_client sync_inv sync_claimed "\<lambda>b. sync_claimed_update (\<lambda>_. b)"
  "\<lambda>i. spin_held_update (\<lambda>h. h[i := False])" 4 0 NUM_SPIN_LOCKS spin_lock_claim spin_lock_unclaim
  PICO_SPINLOCK_ID_CLAIM_FREE_FIRST PICO_SPINLOCK_ID_CLAIM_FREE_LAST spin_lock_claim_unused
proof (unfold_locales, goal_cases)
  case (8 s i)
  then show ?case
    by (cases "hw_claim_or_assert (sync_claimed s) i") (auto simp: spin_lock_claim_def check_lock_num_def)
next
  case (9 s i)
  then show ?case
    by (cases "hw_claim_clear (sync_claimed s) i")
      (auto simp: spin_lock_unclaim_def check_lock_num_def spin_unlock_unsafe_in)
next
  case (11 s required)
  then show ?case
    by (auto simp: spin_lock_claim_unused_def map_option_case dest: hw_claim_unused_none
        split: option.splits)
qed (auto simp: sync_inv_def)

section \<open>DMA channels and timers\<close>

abbreviation "NUM_DMA_CHANNELS \<equiv> 12 :: nat"
abbreviation "NUM_DMA_TIMERS \<equiv> 4 :: nat"

record dma_state =
  dma_claimed :: "u8 list"
  dma_timer_claimed_bits :: "u8 list"

definition check_dma_channel_param :: "nat \<Rightarrow> unit option" where
  "check_dma_channel_param channel = c_assert (channel < NUM_DMA_CHANNELS)"

definition check_dma_timer_param :: "nat \<Rightarrow> unit option" where
  "check_dma_timer_param timer = c_assert (timer < NUM_DMA_TIMERS)"

definition dma_channel_claim :: "dma_state \<Rightarrow> nat \<Rightarrow> dma_state option" where
  "dma_channel_claim s channel = do {
     check_dma_channel_param channel;
     bits \<leftarrow> hw_claim_or_assert (dma_claimed s) channel;
     Some (s\<lparr>dma_claimed := bits\<rparr>) }"

definition dma_claim_mask :: "dma_state \<Rightarrow> u32 \<Rightarrow> dma_state option" where
  "dma_claim_mask s m = claim_mask_loop dma_channel_claim s 0 m"

definition dma_channel_unclaim :: "dma_state \<Rightarrow> nat \<Rightarrow> dma_state option" where
  "dma_channel_unclaim s channel = do {
     check_dma_channel_param channel;
     bits \<leftarrow> hw_claim_clear (dma_claimed s) channel;
     Some (s\<lparr>dma_claimed := bits\<rparr>) }"

definition dma_unclaim_mask :: "dma_state \<Rightarrow> u32 \<Rightarrow> dma_state option" where
  "dma_unclaim_mask s m = claim_mask_loop dma_channel_unclaim s 0 m"

definition dma_claim_unused_channel :: "dma_state \<Rightarrow> bool \<Rightarrow> (int \<times> dma_state) option" where
  "dma_claim_unused_channel s required = do {
     (n, bits) \<leftarrow> hw_claim_unused_from_range (dma_claimed s) required 0 (NUM_DMA_CHANNELS - 1);
     Some (n, s\<lparr>dma_claimed := bits\<rparr>) }"

definition dma_channel_is_claimed :: "dma_state \<Rightarrow> nat \<Rightarrow> bool option" where
  "dma_channel_is_claimed s channel = do {
     check_dma_channel_param channel;
     hw_is_claimed (dma_claimed s) channel }"

definition dma_timer_claim :: "dma_state \<Rightarrow> nat \<Rightarrow> dma_state option" where
  "dma_timer_claim s timer = do {
     check_dma_timer_param timer;
     bits \<leftarrow> hw_claim_or_assert (dma_timer_claimed_bits s) timer;
     Some (s\<lparr>dma_timer_claimed_bits := bits\<rparr>) }"

definition dma_timer_unclaim :: "dma_state \<Rightarrow> nat \<Rightarrow> dma_state option" where
  "dma_timer_unclaim s timer = do {
     check_dma_timer_param timer;
     bits \<leftarrow> hw_claim_clear (dma_timer_claimed_bits s) timer;
     Some (s\<lparr>dma_timer_claimed_bits := bits\<rparr>) }"

definition dma_claim_unused_timer :: "dma_state \<Rightarrow> bool \<Rightarrow> (int \<times> dma_state) option" where
  "dma_claim_unused_timer s required = do {
     (n, bits) \<leftarrow>
       hw_claim_unused_from_range (dma_timer_claimed_bits s) required 0 (NUM_DMA_TIMERS - 1);
     Some (n, s\<lparr>dma_timer_claimed_bits := bits\<rparr>) }"

definition dma_timer_is_claimed :: "dma_state \<Rightarrow> nat \<Rightarrow> bool option" where
  "dma_timer_is_claimed s timer = do {
     check_dma_timer_param timer;
     hw_is_claimed (dma_timer_claimed_bits s) timer }"

definition dma_inv :: "dma_state \<Rightarrow> bool" where
  "dma_inv s \<longleftrightarrow> length (dma_claimed s) = 2 \<and> length (dma_timer_claimed_bits s) = 1"

definition dma_boot :: dma_state where
  "dma_boot = \<lparr>dma_claimed = replicate 2 0, dma_timer_claimed_bits = replicate 1 0\<rparr>"

lemma dma_inv_boot [simp]: "dma_inv dma_boot"
  by (simp add: dma_inv_def dma_boot_def)

lemma claim_unused_bind:
  "Option.bind (hw_claim_unused_from_range bits required lo hi) (\<lambda>(n, b). Some (n, f b))
   = map_option (\<lambda>(n, b). (if n < 0 then - 1 else n - int 0, f b))
       (hw_claim_unused_from_range bits required lo hi)"
  by (cases "hw_claim_unused_from_range bits required lo hi") (auto dest: hw_claim_unused_none)

interpretation dma_channels: claim_client dma_inv dma_claimed "\<lambda>b. dma_claimed_update (\<lambda>_. b)"
  "\<lambda>i s. s" 2 0 NUM_DMA_CHANNELS dma_channel_claim dma_channel_unclaim
  0 "NUM_DMA_CHANNELS - 1" dma_claim_unused_channel
  by unfold_locales (simp_all add: dma_inv_def dma_channel_claim_def dma_channel_unclaim_def
      check_dma_channel_param_def map_option_bind_put claim_unused_bind dma_claim_unused_channel_def
      del: diff_numeral_special)

interpretation dma_timers: claim_client dma_inv dma_timer_claimed_bits
  "\<lambda>b. dma_timer_claimed_bits_update (\<lambda>_. b)"
  "\<lambda>i s. s" 1 0 NUM_DMA_TIMERS dma_timer_claim dma_timer_unclaim
  0 "NUM_DMA_TIMERS - 1" dma_claim_unused_timer
  by unfold_locales (simp_all add: dma_inv_def dma_timer_claim_def dma_timer_unclaim_def
      check_dma_timer_param_def map_option_bind_put claim_unused_bind dma_claim_unused_timer_def)

section \<open>PIO state machines\<close>

abbreviation "NUM_PIO_STATE_MACHINES \<equiv> 4 :: nat"

datatype PIO = pio0 | pio1

definition pio_get_index :: "PIO \<Rightarrow> nat" where
  "pio_get_index pio = (if pio = pio1 then 1 else 0)"

definition check_sm_param :: "nat \<Rightarrow> unit option" where
  "check_sm_param sm = c_assert (sm < NUM_PIO_STATE_MACHINES)"

text \<open>The state is the static byte \<open>claimed\<close> of \<open>pio.c\<close>: bits 0-3 for PIO 0, 4-7 for PIO 1.\<close>

definition pio_sm_claim :: "PIO \<Rightarrow> u8 list \<Rightarrow> nat \<Rightarrow> u8 list option" where
  "pio_sm_claim pio claimed sm = do {
     check_sm_param sm;
     let which = pio_get_index pio;
     if which \<noteq> 0 then hw_claim_or_assert claimed (NUM_PIO_STATE_MACHINES + sm)
     else hw_claim_or_assert claimed sm }"

definition pio_claim_sm_mask :: "PIO \<Rightarrow> u8 list \<Rightarrow> u32 \<Rightarrow> u8 list option" where
  "pio_claim_sm_mask pio claimed sm_mask = claim_mask_loop (pio_sm_claim pio) claimed 0 sm_mask"

definition pio_sm_unclaim :: "PIO \<Rightarrow> u8 list \<Rightarrow> nat \<Rightarrow> u8 list option" where
  "pio_sm_unclaim pio claimed sm = do {
     check_sm_param sm;
     let which = pio_get_index pio;
     hw_claim_clear claimed (which * NUM_PIO_STATE_MACHINES + sm) }"

definition pio_claim_unused_sm :: "PIO \<Rightarrow> u8 list \<Rightarrow> bool \<Rightarrow> (int \<times> u8 list) option" where
  "pio_claim_unused_sm pio claimed required = do {
     let which = pio_get_index pio;
     let base = which * NUM_PIO_STATE_MACHINES;
     (index, claimed') \<leftarrow> hw_claim_unused_from_range claimed required base
       (base + NUM_PIO_STATE_MACHINES - 1);
     Some (if index \<ge> int base then index - int base else - 1, claimed') }"

definition pio_sm_is_claimed :: "PIO \<Rightarrow> u8 list \<Rightarrow> nat \<Rightarrow> bool option" where
  "pio_sm_is_claimed pio claimed sm = do {
     check_sm_param sm;
     let which = pio_get_index pio;
     hw_is_claimed claimed (which * NUM_PIO_STATE_MACHINES + sm) }"

abbreviation pio_claims_inv :: "u8 list \<Rightarrow> bool" where
  "pio_claims_inv claimed \<equiv> length claimed = 1"

lemma claim_scan_range:
  "claim_scan bits lo hi = Some (n, bits') \<Longrightarrow> n < 0 \<or> int lo \<le> n"
proof (induction bits lo hi rule: claim_scan.induct)
  case (1 bits i m)
  then show ?case
    by (subst (asm) claim_scan.simps) (fastforce split: if_splits bind_splits)
qed

lemma hw_claim_unused_range:
  "hw_claim_unused_from_range bits required lo hi = Some (n, bits') \<Longrightarrow> n < 0 \<or> int lo \<le> n"
  by (auto simp: hw_claim_unused_from_range_def split: bind_splits if_splits
      dest: claim_scan_range)

lemma pio_claim_client:
  "claim_client pio_claims_inv (\<lambda>c. c) (\<lambda>b c. b) (\<lambda>i c. c) 1 (pio_get_index pio * NUM_PIO_STATE_MACHINES)
     NUM_PIO_STATE_MACHINES (pio_sm_claim pio) (pio_sm_unclaim pio) 0 (NUM_PIO_STATE_MACHINES - 1)
     (pio_claim_unused_sm pio)"
proof (unfold_locales, goal_cases)
  case (11 s required)
  then show ?case
    by (cases pio; cases "hw_claim_unused_from_range s required (pio_get_index pio * 4) (pio_get_index pio * 4 + 3)")
      (auto simp: pio_claim_unused_sm_def pio_get_index_def
        dest: hw_claim_unused_none hw_claim_unused_range)
qed (auto simp: pio_get_index_def pio_sm_claim_def pio_sm_unclaim_def check_sm_param_def
      option.map_ident add.commute)

interpretation pio0_sms: claim_client pio_claims_inv "\<lambda>c. c" "\<lambda>b c. b" "\<lambda>i c. c" 1
  "pio_get_index pio0 * NUM_PIO_STATE_MACHINES" NUM_PIO_STATE_MACHINES "pio_sm_claim pio0"
  "pio_sm_unclaim pio0" 0 "NUM_PIO_STATE_MACHINES - 1" "pio_claim_unused_sm pio0"
  by (rule pio_claim_client)

interpretation pio1_sms: claim_client pio_claims_inv "\<lambda>c. c" "\<lambda>b c. b" "\<lambda>i c. c" 1
  "pio_get_index pio1 * NUM_PIO_STATE_MACHINES" NUM_PIO_STATE_MACHINES "pio_sm_claim pio1"
  "pio_sm_unclaim pio1" 0 "NUM_PIO_STATE_MACHINES - 1" "pio_claim_unused_sm pio1"
  by (rule pio_claim_client)

section \<open>Interpolator lanes\<close>

datatype interp_inst = interp0 | interp1

text \<open>The registers of an interpolator that \<open>interp_save\<close> and \<open>interp_restore\<close> copy.\<close>

record interp_hw =
  interp_accum :: "u32 list"
  interp_base :: "u32 list"
  interp_ctrl :: "u32 list"

definition interp_index :: "interp_inst \<Rightarrow> nat" where
  "interp_index interp = (if interp = interp1 then 1 else 0)"

definition interp_lane_bit :: "interp_inst \<Rightarrow> nat \<Rightarrow> nat" where
  "interp_lane_bit interp lane = push_bit 1 (interp_index interp) OR lane"

definition interp_claim_lane :: "interp_inst \<Rightarrow> u8 list \<Rightarrow> nat \<Rightarrow> u8 list option" where
  "interp_claim_lane interp claimed lane = do {
     c_assert (lane < 2);
     hw_claim_or_assert claimed (interp_lane_bit interp lane) }"

definition interp_claim_lane_mask :: "interp_inst \<Rightarrow> u8 list \<Rightarrow> nat \<Rightarrow> u8 list option" where
  "interp_claim_lane_mask interp claimed lane_mask = do {
     c_assert (lane_mask \<noteq> 0 \<and> lane_mask \<le> 3);
     c1 \<leftarrow> (if lane_mask AND 1 \<noteq> 0 then interp_claim_lane interp claimed 0 else Some claimed);
     if lane_mask AND 2 \<noteq> 0 then interp_claim_lane interp c1 1 else Some c1 }"

definition interp_unclaim_lane :: "interp_inst \<Rightarrow> u8 list \<Rightarrow> nat \<Rightarrow> u8 list option" where
  "interp_unclaim_lane interp claimed lane = do {
     c_assert (lane < 2);
     hw_claim_clear claimed (interp_lane_bit interp lane) }"

definition interp_lane_is_claimed :: "interp_inst \<Rightarrow> u8 list \<Rightarrow> nat \<Rightarrow> bool option" where
  "interp_lane_is_claimed interp claimed lane = do {
     c_assert (lane < 2);
     hw_is_claimed claimed (interp_lane_bit interp lane) }"

definition interp_unclaim_lane_mask :: "interp_inst \<Rightarrow> u8 list \<Rightarrow> nat \<Rightarrow> u8 list option" where
  "interp_unclaim_lane_mask interp claimed lane_mask = do {
     c_assert (lane_mask \<le> 3);
     c1 \<leftarrow> (if lane_mask AND 1 \<noteq> 0 then interp_unclaim_lane interp claimed 0 else Some claimed);
     if lane_mask AND 2 \<noteq> 0 then interp_unclaim_lane interp c1 1 else Some c1 }"

text \<open>\<open>interp_save\<close> writes the save area, \<open>interp_restore\<close> writes the registers.\<close>

definition interp_save :: "interp_hw \<Rightarrow> interp_hw \<Rightarrow> interp_hw" where
  "interp_save interp saver = saver\<lparr>
     interp_accum := (interp_accum saver)[0 := interp_accum interp ! 0, 1 := interp_accum interp ! 1],
     interp_base := (interp_base saver)[0 := interp_base interp ! 0, 1 := interp_base interp ! 1,
       2 := interp_base interp ! 2],
     interp_ctrl := (interp_ctrl saver)[0 := interp_ctrl interp ! 0, 1 := interp_ctrl interp ! 1]\<rparr>"

definition interp_restore :: "interp_hw \<Rightarrow> interp_hw \<Rightarrow> interp_hw" where
  "interp_restore interp saver = interp\<lparr>
     interp_accum := (interp_accum interp)[0 := interp_accum saver ! 0, 1 := interp_accum saver ! 1],
     interp_base := (interp_base interp)[0 := interp_base saver ! 0, 1 := interp_base saver ! 1,
       2 := interp_base saver ! 2],
     interp_ctrl := (interp_ctrl interp)[0 := interp_ctrl saver ! 0, 1 := interp_ctrl saver ! 1]\<rparr>"

lemma interp_lane_bit_eq: "lane < 2 \<Longrightarrow> interp_lane_bit interp lane = interp_index interp * 2 + lane"
  by (cases interp; cases "lane = 0") (auto simp: interp_lane_bit_def interp_index_def less_2_cases_iff)

lemma interp_claim_bits:
  "claim_bits pio_claims_inv (\<lambda>c. c) (\<lambda>b c. b) (\<lambda>i c. c) 1 (interp_index interp * 2) 2
     (interp_claim_lane interp) (interp_unclaim_lane interp)"
  by unfold_locales (auto simp: interp_index_def interp_claim_lane_def interp_unclaim_lane_def
      interp_lane_bit_eq option.map_ident)

interpretation interp0_lanes: claim_bits pio_claims_inv "\<lambda>c. c" "\<lambda>b c. b" "\<lambda>i c. c" 1
  "interp_index interp0 * 2" 2 "interp_claim_lane interp0" "interp_unclaim_lane interp0"
  by (rule interp_claim_bits)

interpretation interp1_lanes: claim_bits pio_claims_inv "\<lambda>c. c" "\<lambda>b c. b" "\<lambda>i c. c" 1
  "interp_index interp1 * 2" 2 "interp_claim_lane interp1" "interp_unclaim_lane interp1"
  by (rule interp_claim_bits)

section \<open>Properties\<close>

text \<open>
  A run of \<open>n\<close> calls of \<open>spin_lock_claim_unused(true)\<close> succeeds exactly when at least
  \<open>n\<close> of the spin locks 24..31 are unclaimed; it then returns \<open>n\<close> distinct, previously
  unclaimed locks of that range and adds exactly those to the claimed set. When the range
  runs out the call panics.
\<close>

theorem spin_lock_claim_unused_run:
  assumes "sync_inv s"
  shows "case grab spin_lock_claim_unused n s of
      None \<Rightarrow> card ({24..31} - claimed_set (sync_claimed s)) < n
    | Some (is, s') \<Rightarrow> n \<le> card ({24..31} - claimed_set (sync_claimed s))
        \<and> length is = n \<and> distinct is \<and> set is \<subseteq> {24..31} - claimed_set (sync_claimed s)
        \<and> claimed_set (sync_claimed s') = claimed_set (sync_claimed s) \<union> set is \<and> sync_inv s'"
proof (cases "grab spin_lock_claim_unused n s")
  case None
  with spin_locks.grab_succeeds_iff [OF assms, of n] show ?thesis
    by (simp add: spin_locks.owned_def)
next
  case (Some r)
  obtain "is" s' where r: "r = (is, s')" by (cases r)
  from spin_locks.grab_succeeds_iff [OF assms, of n]
    spin_locks.grab_distinct [OF assms Some [unfolded r]] Some r show ?thesis
    by (simp add: spin_locks.owned_def)
qed

theorem spin_lock_claim_unused_run_witness:
  "(case grab spin_lock_claim_unused 3 sync_boot of
      None \<Rightarrow> False
    | Some (is, s') \<Rightarrow> length is = 3 \<and> distinct is
        \<and> claimed_set (sync_claimed s') = set is)"
  using spin_lock_claim_unused_run [OF sync_inv_boot, of 3]
  by (auto simp: sync_boot_def split: option.splits)

text \<open>
  \<open>dma_claim_mask\<close> with a mask of existing channels is all or nothing: it panics exactly
  when one of the channels of the mask is already claimed, and otherwise claims exactly the
  channels of the mask and touches nothing else.
\<close>

theorem dma_claim_mask_all_or_nothing:
  assumes "dma_inv s" and "\<forall>k. bit m k \<longrightarrow> k < NUM_DMA_CHANNELS"
  shows "case dma_claim_mask s m of
      None \<Rightarrow> \<exists>k. bit m k \<and> k \<in> claimed_set (dma_claimed s)
    | Some s' \<Rightarrow> (\<forall>k. bit m k \<longrightarrow> k \<notin> claimed_set (dma_claimed s)) \<and> dma_inv s'
        \<and> claimed_set (dma_claimed s') = claimed_set (dma_claimed s) \<union> {k. bit m k}"
proof -
  have m: "mask_numbers 0 m = {k. bit m k}" by (simp add: mask_numbers_def)
  with assms(2) have "mask_numbers 0 m \<subseteq> {..<NUM_DMA_CHANNELS}" by auto
  from dma_channels.claim_mask_loop_spec [OF assms(1) this] show ?thesis
    unfolding m dma_claim_mask_def by (auto simp: dma_channels.owned_def split: option.splits)
qed

theorem dma_claim_mask_all_or_nothing_witness:
  "dma_inv dma_boot \<and> {k. bit (1 :: u32) k} \<subseteq> {..<NUM_DMA_CHANNELS}
   \<and> (\<exists>s'. dma_claim_mask dma_boot 1 = Some s' \<and> claimed_set (dma_claimed s') = {0})"
proof -
  have v: "\<forall>k. bit (1 :: u32) k \<longrightarrow> k < NUM_DMA_CHANNELS" by (simp add: bit_1_iff)
  have "claimed_set (dma_claimed dma_boot) = {}" by (simp add: dma_boot_def)
  with dma_claim_mask_all_or_nothing [OF dma_inv_boot v] v show ?thesis
    by (auto simp: bit_1_iff split: option.splits)
qed

text \<open>
  The two PIO blocks share one byte of claims without interfering: claiming, releasing
  or auto-claiming a state machine of one PIO never changes which state machines of the
  other are claimed.
\<close>

theorem pio_sm_claims_independent:
  assumes "pio_claims_inv c" and "sm < NUM_PIO_STATE_MACHINES" and "pio \<noteq> other"
    and "pio_sm_claim pio c sm = Some c' \<or> pio_sm_unclaim pio c sm = Some c'
      \<or> pio_claim_unused_sm pio c required = Some (n, c')"
    and "k < NUM_PIO_STATE_MACHINES"
  shows "pio_sm_is_claimed other c' k = pio_sm_is_claimed other c k"
proof -
  let ?j = "pio_get_index other * NUM_PIO_STATE_MACHINES + k"
  from assms(3,5) have out: "?j < pio_get_index pio * NUM_PIO_STATE_MACHINES
      \<or> pio_get_index pio * NUM_PIO_STATE_MACHINES + NUM_PIO_STATE_MACHINES \<le> ?j"
    by (cases pio; cases other) (auto simp: pio_get_index_def)
  from assms(4) have "pio_claims_inv c' \<and> (?j \<in> claimed_set c' \<longleftrightarrow> ?j \<in> claimed_set c)"
    using claim_bits.claim_others [OF claim_client.axioms(1) [OF pio_claim_client] assms(1,2) _ out]
      claim_bits.unclaim_others [OF claim_client.axioms(1) [OF pio_claim_client] assms(1,2) _ out]
      claim_client.unused_others [OF pio_claim_client assms(1) _ out] by blast
  moreover have "?j < 8" using assms(5) by (cases other) (auto simp: pio_get_index_def)
  ultimately show ?thesis using assms(1,5)
    by (simp add: pio_sm_is_claimed_def check_sm_param_def hw_is_claimed_eq)
qed

theorem pio_sm_claims_independent_witness:
  "pio_sm_claim pio1 [9] 1 = Some [41] \<and> pio_sm_is_claimed pio0 [41] 3 = Some True"
proof -
  have s: "pio_sm_claim pio1 [9] 1 = Some [41]" by code_simp
  have "pio_sm_is_claimed pio0 [41] 3 = pio_sm_is_claimed pio0 [9] 3"
    by (rule pio_sm_claims_independent [of _ 1 pio1 _ _ False 0]) (simp_all add: s [simplified])
  moreover have "pio_sm_is_claimed pio0 [9] 3 = Some True" by code_simp
  ultimately show ?thesis using s by simp
qed

end
