(* ===== verification/Sync.thy ===== *)
theory Sync
  imports Alarm_Pool Hw_Claims
begin

text \<open>
  The synchronisation primitives of \<open>SDK/pico/pico\_sync\<close>: lock cores, mutexes, recursive
  mutexes, semaphores and critical sections. Each keeps its data behind a spin lock, so
  what happens between \<open>spin\_lock\_blocking\<close> and the unlock is one step here. A blocking
  operation tries such a step, and if it did not get what it wants it waits and tries again;
  meanwhile the other core and the interrupt handlers run: \<open>others n\<close> is what they do to the
  primitive during the n-th wait. The build is the default one, without
  \<open>PICO\_MUTEX\_ENABLE\_SDK120\_COMPATIBILITY\<close>.
\<close>

section \<open>Lock core\<close>

text \<open>The address of a spin lock register is given by its number; \<open>None\<close> is NULL.\<close>

record lock_core =
  spin_lock :: "nat option"

type_synonym lock_owner_id = u8

definition LOCK_INVALID_OWNER_ID :: lock_owner_id where
  "LOCK_INVALID_OWNER_ID = - 1"

definition lock_get_caller_owner_id :: "nat \<Rightarrow> lock_owner_id" where
  "lock_get_caller_owner_id this_core = of_nat this_core"

definition lock_is_owner_id_valid :: "lock_owner_id \<Rightarrow> bool" where
  "lock_is_owner_id_valid i \<longleftrightarrow> 0 \<le> sint i"

definition lock_init :: "nat \<Rightarrow> lock_core option" where
  "lock_init lock_num = do {
     c_assert (lock_num < NUM_SPIN_LOCKS);
     Some \<lparr>spin_lock = Some lock_num\<rparr> }"

section \<open>The retry loop of the blocking operations\<close>

text \<open>
  The world of a blocking call: the memory of the primitive and the default alarm pool,
  which the waits with a timeout use. An attempt gives \<open>Some r\<close> when it got what it wanted,
  and a wait tells whether it timed out.
\<close>

record 'm world =
  memory :: 'm
  alarms :: alarm_pool

partial_function (option) retry ::
    "('m \<Rightarrow> ('r option \<times> 'm) option) \<Rightarrow> (nat \<Rightarrow> 'm world \<Rightarrow> (bool \<times> 'm world) option) \<Rightarrow> nat
      \<Rightarrow> 'm world \<Rightarrow> ('r option \<times> 'm world) option" where
  "retry attempt wait n w = do {
     (r, x) \<leftarrow> attempt (memory w);
     let w1 = w\<lparr>memory := x\<rparr>;
     (case r of
        Some y \<Rightarrow> Some (Some y, w1)
      | None \<Rightarrow> do {
          (timed_out, w2) \<leftarrow> wait n w1;
          if timed_out then Some (None, w2) else retry attempt wait (n + 1) w2 }) }"

declare retry.simps [code]

definition unlock_with_wait ::
    "(nat \<Rightarrow> 'm \<Rightarrow> 'm) \<Rightarrow> nat \<Rightarrow> 'm world \<Rightarrow> (bool \<times> 'm world) option" where
  "unlock_with_wait others n w = Some (False, w\<lparr>memory := others n (memory w)\<rparr>)"

definition unlock_with_wait_or_timeout ::
    "run_callback \<Rightarrow> nat \<Rightarrow> absolute_time \<Rightarrow> (nat \<Rightarrow> 'm \<Rightarrow> 'm) \<Rightarrow> nat \<Rightarrow> 'm world
      \<Rightarrow> (bool \<times> 'm world) option" where
  "unlock_with_wait_or_timeout run cb until others n w = do {
     (b, p) \<leftarrow> best_effort_wfe_or_timeout run cb (alarms w) until;
     Some (b, w\<lparr>memory := others n (memory w), alarms := p\<rparr>) }"

section \<open>Mutexes\<close>

record mutex =
  mtx_core :: lock_core
  owner :: lock_owner_id

definition mutex_init :: "sync_state \<Rightarrow> (mutex \<times> sync_state) option" where
  "mutex_init s = (let (n, s1) = next_striped_spin_lock_num s in do {
     core \<leftarrow> lock_init n;
     Some (\<lparr>mtx_core = core, owner = LOCK_INVALID_OWNER_ID\<rparr>, s1) })"

definition mutex_attempt :: "lock_owner_id \<Rightarrow> mutex \<Rightarrow> (unit option \<times> mutex) option" where
  "mutex_attempt caller mtx = Some
     (if \<not> lock_is_owner_id_valid (owner mtx) then (Some (), mtx\<lparr>owner := caller\<rparr>) else (None, mtx))"

definition mutex_enter_blocking ::
    "nat \<Rightarrow> (nat \<Rightarrow> mutex \<Rightarrow> mutex) \<Rightarrow> mutex world \<Rightarrow> mutex world option" where
  "mutex_enter_blocking this_core others w = do {
     let caller = lock_get_caller_owner_id this_core;
     (_, w') \<leftarrow> retry (mutex_attempt caller) (unlock_with_wait others) 0 w;
     Some w' }"

text \<open>The second component is what is stored through \<open>owner\_out\<close>, if anything.\<close>

definition mutex_try_enter :: "nat \<Rightarrow> mutex \<Rightarrow> bool \<times> u32 option \<times> mutex" where
  "mutex_try_enter this_core mtx =
     (if \<not> lock_is_owner_id_valid (owner mtx)
      then (True, None, mtx\<lparr>owner := lock_get_caller_owner_id this_core\<rparr>)
      else (False, Some (scast (owner mtx)), mtx))"

definition mutex_enter_block_until ::
    "run_callback \<Rightarrow> nat \<Rightarrow> nat \<Rightarrow> (nat \<Rightarrow> mutex \<Rightarrow> mutex) \<Rightarrow> mutex world \<Rightarrow> absolute_time
      \<Rightarrow> (bool \<times> mutex world) option" where
  "mutex_enter_block_until run cb this_core others w until = do {
     c_assert (spin_lock (mtx_core (memory w)) \<noteq> None);
     let caller = lock_get_caller_owner_id this_core;
     (r, w') \<leftarrow> retry (mutex_attempt caller) (unlock_with_wait_or_timeout run cb until others) 0 w;
     Some (r \<noteq> None, w') }"

definition mutex_enter_timeout_ms ::
    "run_callback \<Rightarrow> nat \<Rightarrow> nat \<Rightarrow> (nat \<Rightarrow> mutex \<Rightarrow> mutex) \<Rightarrow> mutex world \<Rightarrow> u32 \<Rightarrow> (bool \<times> mutex world) option" where
  "mutex_enter_timeout_ms run cb this_core others w timeout_ms = do {
     (t, tm) \<leftarrow> make_timeout_time_ms (ap_timer (alarms w)) timeout_ms;
     mutex_enter_block_until run cb this_core others (w\<lparr>alarms := (alarms w)\<lparr>ap_timer := tm\<rparr>\<rparr>) t }"

definition mutex_enter_timeout_us ::
    "run_callback \<Rightarrow> nat \<Rightarrow> nat \<Rightarrow> (nat \<Rightarrow> mutex \<Rightarrow> mutex) \<Rightarrow> mutex world \<Rightarrow> u32 \<Rightarrow> (bool \<times> mutex world) option" where
  "mutex_enter_timeout_us run cb this_core others w timeout_us = do {
     (t, tm) \<leftarrow> make_timeout_time_us (ap_timer (alarms w)) (ucast timeout_us);
     mutex_enter_block_until run cb this_core others (w\<lparr>alarms := (alarms w)\<lparr>ap_timer := tm\<rparr>\<rparr>) t }"

definition mutex_exit :: "mutex \<Rightarrow> mutex option" where
  "mutex_exit mtx = do {
     c_assert (lock_is_owner_id_valid (owner mtx));
     Some (mtx\<lparr>owner := LOCK_INVALID_OWNER_ID\<rparr>) }"

definition mutex_is_initialized :: "mutex \<Rightarrow> bool" where
  "mutex_is_initialized mtx \<longleftrightarrow> spin_lock (mtx_core mtx) \<noteq> None"

section \<open>Recursive mutexes\<close>

record recursive_mutex =
  rmtx_core :: lock_core
  rowner :: lock_owner_id
  enter_count :: u8

definition recursive_mutex_init :: "sync_state \<Rightarrow> (recursive_mutex \<times> sync_state) option" where
  "recursive_mutex_init s = (let (n, s1) = next_striped_spin_lock_num s in do {
     core \<leftarrow> lock_init n;
     Some (\<lparr>rmtx_core = core, rowner = LOCK_INVALID_OWNER_ID, enter_count = 0\<rparr>, s1) })"

definition recursive_mutex_attempt ::
    "lock_owner_id \<Rightarrow> recursive_mutex \<Rightarrow> (unit option \<times> recursive_mutex) option" where
  "recursive_mutex_attempt caller mtx =
     (if rowner mtx = caller \<or> \<not> lock_is_owner_id_valid (rowner mtx) then do {
        let total = enter_count mtx + 1;
        c_assert (total \<noteq> 0);
        Some (Some (), mtx\<lparr>rowner := caller, enter_count := total\<rparr>) }
      else Some (None, mtx))"

definition recursive_mutex_enter_blocking ::
    "nat \<Rightarrow> (nat \<Rightarrow> recursive_mutex \<Rightarrow> recursive_mutex) \<Rightarrow> recursive_mutex world
      \<Rightarrow> recursive_mutex world option" where
  "recursive_mutex_enter_blocking this_core others w = do {
     let caller = lock_get_caller_owner_id this_core;
     (_, w') \<leftarrow> retry (recursive_mutex_attempt caller) (unlock_with_wait others) 0 w;
     Some w' }"

definition recursive_mutex_try_enter ::
    "nat \<Rightarrow> recursive_mutex \<Rightarrow> (bool \<times> u32 option \<times> recursive_mutex) option" where
  "recursive_mutex_try_enter this_core mtx = (let caller = lock_get_caller_owner_id this_core in
     if \<not> lock_is_owner_id_valid (rowner mtx) \<or> rowner mtx = caller then do {
       let total = enter_count mtx + 1;
       c_assert (total \<noteq> 0);
       Some (True, None, mtx\<lparr>rowner := caller, enter_count := total\<rparr>) }
     else Some (False, Some (scast (rowner mtx)), mtx))"

definition recursive_mutex_enter_block_until ::
    "run_callback \<Rightarrow> nat \<Rightarrow> nat \<Rightarrow> (nat \<Rightarrow> recursive_mutex \<Rightarrow> recursive_mutex) \<Rightarrow> recursive_mutex world
      \<Rightarrow> absolute_time \<Rightarrow> (bool \<times> recursive_mutex world) option" where
  "recursive_mutex_enter_block_until run cb this_core others w until = do {
     c_assert (spin_lock (rmtx_core (memory w)) \<noteq> None);
     let caller = lock_get_caller_owner_id this_core;
     (r, w') \<leftarrow> retry (recursive_mutex_attempt caller)
       (unlock_with_wait_or_timeout run cb until others) 0 w;
     Some (r \<noteq> None, w') }"

definition recursive_mutex_enter_timeout_ms ::
    "run_callback \<Rightarrow> nat \<Rightarrow> nat \<Rightarrow> (nat \<Rightarrow> recursive_mutex \<Rightarrow> recursive_mutex) \<Rightarrow> recursive_mutex world
      \<Rightarrow> u32 \<Rightarrow> (bool \<times> recursive_mutex world) option" where
  "recursive_mutex_enter_timeout_ms run cb this_core others w timeout_ms = do {
     (t, tm) \<leftarrow> make_timeout_time_ms (ap_timer (alarms w)) timeout_ms;
     recursive_mutex_enter_block_until run cb this_core others
       (w\<lparr>alarms := (alarms w)\<lparr>ap_timer := tm\<rparr>\<rparr>) t }"

definition recursive_mutex_enter_timeout_us ::
    "run_callback \<Rightarrow> nat \<Rightarrow> nat \<Rightarrow> (nat \<Rightarrow> recursive_mutex \<Rightarrow> recursive_mutex) \<Rightarrow> recursive_mutex world
      \<Rightarrow> u32 \<Rightarrow> (bool \<times> recursive_mutex world) option" where
  "recursive_mutex_enter_timeout_us run cb this_core others w timeout_us = do {
     (t, tm) \<leftarrow> make_timeout_time_us (ap_timer (alarms w)) (ucast timeout_us);
     recursive_mutex_enter_block_until run cb this_core others
       (w\<lparr>alarms := (alarms w)\<lparr>ap_timer := tm\<rparr>\<rparr>) t }"

definition recursive_mutex_exit :: "recursive_mutex \<Rightarrow> recursive_mutex option" where
  "recursive_mutex_exit mtx = do {
     c_assert (lock_is_owner_id_valid (rowner mtx));
     c_assert (enter_count mtx \<noteq> 0);
     let c = enter_count mtx - 1;
     Some (if c = 0 then mtx\<lparr>enter_count := c, rowner := LOCK_INVALID_OWNER_ID\<rparr>
           else mtx\<lparr>enter_count := c\<rparr>) }"

definition recursive_mutex_is_initialized :: "recursive_mutex \<Rightarrow> bool" where
  "recursive_mutex_is_initialized mtx \<longleftrightarrow> spin_lock (rmtx_core mtx) \<noteq> None"

section \<open>Semaphores\<close>

text \<open>Both counts are signed 16 bit integers.\<close>

record semaphore =
  sem_core :: lock_core
  permits :: u16
  max_permits :: u16

definition sem_init :: "sync_state \<Rightarrow> u16 \<Rightarrow> u16 \<Rightarrow> (semaphore \<times> sync_state) option" where
  "sem_init s initial_permits maximum = (let (n, s1) = next_striped_spin_lock_num s in do {
     core \<leftarrow> lock_init n;
     Some (\<lparr>sem_core = core, permits = initial_permits, max_permits = maximum\<rparr>, s1) })"

definition sem_available :: "semaphore \<Rightarrow> int" where
  "sem_available sem = sint (permits sem)"

definition sem_attempt :: "semaphore \<Rightarrow> (unit option \<times> semaphore) option" where
  "sem_attempt sem = Some
     (if sint (permits sem) > 0 then (Some (), sem\<lparr>permits := permits sem - 1\<rparr>) else (None, sem))"

definition sem_acquire_blocking ::
    "(nat \<Rightarrow> semaphore \<Rightarrow> semaphore) \<Rightarrow> semaphore world \<Rightarrow> semaphore world option" where
  "sem_acquire_blocking others w = do {
     (_, w') \<leftarrow> retry sem_attempt (unlock_with_wait others) 0 w;
     Some w' }"

definition sem_acquire_block_until ::
    "run_callback \<Rightarrow> nat \<Rightarrow> (nat \<Rightarrow> semaphore \<Rightarrow> semaphore) \<Rightarrow> semaphore world \<Rightarrow> absolute_time
      \<Rightarrow> (bool \<times> semaphore world) option" where
  "sem_acquire_block_until run cb others w until = do {
     (r, w') \<leftarrow> retry sem_attempt (unlock_with_wait_or_timeout run cb until others) 0 w;
     Some (r \<noteq> None, w') }"

definition sem_acquire_timeout_ms ::
    "run_callback \<Rightarrow> nat \<Rightarrow> (nat \<Rightarrow> semaphore \<Rightarrow> semaphore) \<Rightarrow> semaphore world \<Rightarrow> u32
      \<Rightarrow> (bool \<times> semaphore world) option" where
  "sem_acquire_timeout_ms run cb others w timeout_ms = do {
     (t, tm) \<leftarrow> make_timeout_time_ms (ap_timer (alarms w)) timeout_ms;
     sem_acquire_block_until run cb others (w\<lparr>alarms := (alarms w)\<lparr>ap_timer := tm\<rparr>\<rparr>) t }"

definition sem_acquire_timeout_us ::
    "run_callback \<Rightarrow> nat \<Rightarrow> (nat \<Rightarrow> semaphore \<Rightarrow> semaphore) \<Rightarrow> semaphore world \<Rightarrow> u32
      \<Rightarrow> (bool \<times> semaphore world) option" where
  "sem_acquire_timeout_us run cb others w timeout_us = do {
     (t, tm) \<leftarrow> make_timeout_time_us (ap_timer (alarms w)) (ucast timeout_us);
     sem_acquire_block_until run cb others (w\<lparr>alarms := (alarms w)\<lparr>ap_timer := tm\<rparr>\<rparr>) t }"

definition sem_try_acquire :: "semaphore \<Rightarrow> bool \<times> semaphore" where
  "sem_try_acquire sem =
     (if sint (permits sem) > 0 then (True, sem\<lparr>permits := permits sem - 1\<rparr>) else (False, sem))"

definition sem_release :: "semaphore \<Rightarrow> bool \<times> semaphore" where
  "sem_release sem = (let count = sint (permits sem) in
     if count < sint (max_permits sem) then (True, sem\<lparr>permits := word_of_int (count + 1)\<rparr>)
     else (False, sem))"

definition sem_reset :: "semaphore \<Rightarrow> u16 \<Rightarrow> semaphore option" where
  "sem_reset sem p = do {
     c_assert (sint p \<ge> 0 \<and> sint p \<le> sint (max_permits sem));
     Some (sem\<lparr>permits := p\<rparr>) }"

section \<open>Critical sections\<close>

text \<open>
  The pointer is again the lock's number; the poison value of \<open>critical\_section\_deinit\<close> is
  \<open>None\<close>. Entering is blocking only while another core holds the lock.
\<close>

record critical_section =
  cs_spin_lock :: "nat option"
  cs_save :: u32

definition critical_section_init_with_lock_num :: "critical_section \<Rightarrow> nat \<Rightarrow> critical_section" where
  "critical_section_init_with_lock_num cs lock_num = cs\<lparr>cs_spin_lock := Some lock_num\<rparr>"

definition critical_section_init ::
    "sync_state \<Rightarrow> critical_section \<Rightarrow> (critical_section \<times> sync_state) option" where
  "critical_section_init s cs = do {
     (n, s1) \<leftarrow> spin_lock_claim_unused s True;
     Some (critical_section_init_with_lock_num cs (nat n), s1) }"

definition critical_section_deinit ::
    "sync_state \<Rightarrow> critical_section \<Rightarrow> (critical_section \<times> sync_state) option" where
  "critical_section_deinit s cs = do {
     n \<leftarrow> cs_spin_lock cs;
     s1 \<leftarrow> spin_lock_unclaim s n;
     Some (cs\<lparr>cs_spin_lock := None\<rparr>, s1) }"

end
