(* ===== verification/Sync_Correct.thy ===== *)
theory Sync_Correct
  imports Sync Timer_Correct
begin

text \<open>
  What the synchronisation primitives guarantee. The locale \<open>exclusive_lock\<close> states what a
  lock promises about its holder and proves mutual exclusion for any interleaving of the
  cores; it is interpreted on both kinds of mutex. The retry loops of the blocking calls
  end exactly if some look at the primitive succeeds.
\<close>

section \<open>The retry loop\<close>

text \<open>The primitive at the k-th look of a call that did not succeed before.\<close>

fun at_look :: "(nat \<Rightarrow> 'm \<Rightarrow> 'm) \<Rightarrow> nat \<Rightarrow> 'm \<Rightarrow> 'm" where
  "at_look others 0 x = x"
| "at_look others (Suc k) x = others k (at_look others k x)"

text \<open>An attempt that fails changes nothing, and otherwise does what \<open>taken\<close> says.\<close>

definition attempts :: "('m \<Rightarrow> (unit option \<times> 'm) option) \<Rightarrow> ('m \<Rightarrow> bool) \<Rightarrow> ('m \<Rightarrow> 'm) \<Rightarrow> 'm set \<Rightarrow> bool" where
  "attempts att free taken X \<longleftrightarrow> (\<forall>x\<in>X. att x = (if free x then Some (Some (), taken x) else Some (None, x)))"

lemma retry_wait_returns:
  assumes att: "attempts att free taken (range (\<lambda>j. at_look others j x))"
    and look: "\<forall>j<k. \<not> free (at_look others (n + j) x)" "free (at_look others (n + k) x)"
    and w: "memory w = at_look others n x"
  shows "retry att (unlock_with_wait others) n w = Some (Some (), w\<lparr>memory := taken (at_look others (n + k) x)\<rparr>)"
  using look w
proof (induction k arbitrary: n w)
  case 0
  moreover have "att (at_look others n x) = Some (Some (), taken (at_look others n x))"
    using att 0 by (simp add: attempts_def)
  ultimately show ?case by (simp add: retry.simps)
next
  case (Suc k)
  have "\<not> free (at_look others n x)" using Suc.prems(1) by force
  then have "att (at_look others n x) = Some (None, at_look others n x)"
    using att by (simp add: attempts_def)
  then have "retry att (unlock_with_wait others) n w
      = retry att (unlock_with_wait others) (Suc n) (w\<lparr>memory := at_look others (Suc n) x\<rparr>)"
    using Suc.prems by (subst retry.simps) (simp add: unlock_with_wait_def)
  also have "\<dots> = Some (Some (), w\<lparr>memory := taken (at_look others (Suc n + k) x)\<rparr>)"
    using Suc.IH [of "Suc n" "w\<lparr>memory := at_look others (Suc n) x\<rparr>"] Suc.prems by force
  finally show ?case by simp
qed

text \<open>What a call that returns has seen; \<open>timed_out\<close> says how the last wait ended.\<close>

definition wait_ok :: "(nat \<Rightarrow> 'm \<Rightarrow> 'm) \<Rightarrow> ('m world \<Rightarrow> bool) \<Rightarrow> (nat \<Rightarrow> 'm world \<Rightarrow> (bool \<times> 'm world) option) \<Rightarrow> bool" where
  "wait_ok others timed_out wait \<longleftrightarrow> (\<forall>n w b w'. wait n w = Some (b, w') \<longrightarrow>
     memory w' = others n (memory w) \<and> (b \<longrightarrow> timed_out w'))"

definition looked_until :: "(nat \<Rightarrow> 'm \<Rightarrow> 'm) \<Rightarrow> ('m \<Rightarrow> bool) \<Rightarrow> 'm \<Rightarrow> nat \<Rightarrow> nat \<Rightarrow> bool" where
  "looked_until others free x n k \<longleftrightarrow> n \<le> k \<and> (\<forall>j. n \<le> j \<and> j < k \<longrightarrow> \<not> free (at_look others j x))"

definition outcome :: "(nat \<Rightarrow> 'm \<Rightarrow> 'm) \<Rightarrow> ('m \<Rightarrow> bool) \<Rightarrow> ('m \<Rightarrow> 'm) \<Rightarrow> ('m world \<Rightarrow> bool) \<Rightarrow> 'm
    \<Rightarrow> nat \<Rightarrow> unit option \<Rightarrow> 'm world \<Rightarrow> bool" where
  "outcome others free taken timed_out x n r w' \<longleftrightarrow> (\<exists>k. looked_until others free x n k \<and>
     (if r = None then n < k \<and> timed_out w' \<and> memory w' = at_look others k x
      else free (at_look others k x) \<and> memory w' = taken (at_look others k x)))"

lemma looked_until_refl [simp]: "looked_until others free x n n"
  by (auto simp: looked_until_def)

lemma looked_until_step:
  "looked_until others free x (Suc n) k \<Longrightarrow> \<not> free (at_look others n x) \<Longrightarrow> looked_until others free x n k"
  unfolding looked_until_def by (metis Suc_le_eq le_less less_imp_le)

lemma outcome_step:
  "outcome others free taken timed_out x (Suc n) r w' \<Longrightarrow> \<not> free (at_look others n x)
     \<Longrightarrow> outcome others free taken timed_out x n r w'"
  unfolding outcome_def using looked_until_step [of others free x n] Suc_lessD by metis

lemma retry_outcome:
  assumes r: "retry att wait n w = Some (r, w')"
    and att: "attempts att free taken (range (\<lambda>j. at_look others j x))"
    and wait: "wait_ok others timed_out wait"
    and w: "memory w = at_look others n x"
  shows "outcome others free taken timed_out x n r w'"
proof -
  have "attempts att free taken (range (\<lambda>j. at_look others j x)) \<longrightarrow> wait_ok others timed_out wait
      \<longrightarrow> memory w = at_look others n x \<longrightarrow> outcome others free taken timed_out x n (fst (r, w')) (snd (r, w'))"
  proof (rule retry.raw_induct [OF _ r], intro impI, goal_cases)
    case (1 f att wait n w y)
    let ?x = "at_look others n x"
    have a: "att ?x = (if free ?x then Some (Some (), taken ?x) else Some (None, ?x))"
      using 1(3) by (simp add: attempts_def)
    show ?case
    proof (cases "free ?x")
      case True
      then show ?thesis using 1(2,5) a
        unfolding outcome_def by (intro exI [of _ n]) (auto simp del: at_look.simps)
    next
      case False
      with a have b: "att ?x = Some (None, ?x)" by simp
      with 1(2,5) obtain b w2 where w2: "wait n (w\<lparr>memory := ?x\<rparr>) = Some (b, w2)"
        and y: "(if b then Some (None, w2) else f att wait (n + 1) w2) = Some y"
        by (auto split: bind_splits)
      have mem: "memory w2 = at_look others (Suc n) x" and to: "b \<longrightarrow> timed_out w2"
        using 1(4) w2 by (auto simp: wait_ok_def)
      show ?thesis
      proof (cases b)
        case True
        with y have "y = (None, w2)" by simp
        moreover have "looked_until others free x n (Suc n)" using False unfolding looked_until_def by (metis le_SucI le_antisym le_refl less_Suc_eq_le)
        ultimately show ?thesis using True to mem by (auto simp: outcome_def intro!: exI [of _ "Suc n"])
      next
        case b: False
        with y have "f att wait (Suc n) w2 = Some y" by simp
        from 1(1) [OF this] 1(3,4) mem
        have "outcome others free taken timed_out x (Suc n) (fst y) (snd y)" by simp
        then show ?thesis by (rule outcome_step) (rule False)
      qed
    qed
  qed
  then show ?thesis using att wait w by simp
qed

section \<open>Exclusive locks\<close>

text \<open>
  Two cores use a lock: each may try to enter at any time, and leaves only as often as it has
  entered. \<open>d c\<close> counts what core \<open>c\<close> has not left yet.
\<close>

inductive lock_step :: "(nat \<Rightarrow> 'm \<Rightarrow> (bool \<times> 'm) option) \<Rightarrow> ('m \<Rightarrow> 'm option)
    \<Rightarrow> 'm \<times> (nat \<Rightarrow> nat) \<Rightarrow> 'm \<times> (nat \<Rightarrow> nat) \<Rightarrow> bool" for enter leave where
  try_enter: "c < 2 \<Longrightarrow> enter c m = Some (b, m') \<Longrightarrow>
    lock_step enter leave (m, d) (m', if b then d(c := d c + 1) else d)"
| leave: "c < 2 \<Longrightarrow> 0 < d c \<Longrightarrow> leave m = Some m' \<Longrightarrow>
    lock_step enter leave (m, d) (m', d(c := d c - 1))"

inductive_cases lock_stepE: "lock_step enter leave s s'"

locale exclusive_lock =
  fixes inv :: "'m \<Rightarrow> bool"
    and enter :: "nat \<Rightarrow> 'm \<Rightarrow> (bool \<times> 'm) option"
    and leave :: "'m \<Rightarrow> 'm option"
    and holder :: "'m \<Rightarrow> nat option"
    and depth :: "'m \<Rightarrow> nat"
  assumes enter_inv: "inv m \<Longrightarrow> c < 2 \<Longrightarrow> enter c m = Some (b, m') \<Longrightarrow> inv m'"
    and enter_got: "inv m \<Longrightarrow> c < 2 \<Longrightarrow> enter c m = Some (True, m') \<Longrightarrow>
      holder m \<in> {None, Some c} \<and> holder m' = Some c \<and> depth m' = depth m + 1"
    and enter_fail: "inv m \<Longrightarrow> c < 2 \<Longrightarrow> enter c m = Some (False, m') \<Longrightarrow> m' = m"
    and leave_ok: "inv m \<Longrightarrow> holder m = Some c \<Longrightarrow> \<exists>m'. leave m = Some m' \<and> inv m'
      \<and> depth m' = depth m - 1 \<and> holder m' = (if depth m = 1 then None else Some c)"
    and free_depth: "inv m \<Longrightarrow> holder m = None \<longleftrightarrow> depth m = 0"
begin

definition entered :: "'m \<Rightarrow> nat \<Rightarrow> nat" where
  "entered m c = (if holder m = Some c then depth m else 0)"

lemma step_inv:
  assumes "lock_step enter leave s s'" and "inv (fst s) \<and> snd s = entered (fst s)"
  shows "inv (fst s') \<and> snd s' = entered (fst s')"
  using assms
proof (cases rule: lock_step.cases)
  case (try_enter c m b m' d)
  show ?thesis
  proof (cases b)
    case True
    with try_enter assms(2) enter_got [of m c m'] enter_inv [of m c b m'] free_depth [of m]
    show ?thesis by (auto simp: entered_def fun_eq_iff)
  next
    case False
    with try_enter assms(2) enter_fail [of m c m'] show ?thesis by auto
  qed
next
  case (leave c d m m')
  then have h: "holder m = Some c" "inv m" and d: "d = entered m"
    using assms(2) by (auto simp: entered_def split: if_splits)
  from leave_ok [OF h(2,1)] leave(5) have "inv m'" "depth m' = depth m - 1"
    "holder m' = (if depth m = 1 then None else Some c)" by auto
  moreover have "depth m \<noteq> 0" using free_depth [OF h(2)] h(1) by auto
  ultimately show ?thesis using leave(1,2) d h by (auto simp: entered_def fun_eq_iff)
qed

lemma reach_inv:
  "(lock_step enter leave)\<^sup>*\<^sup>* (m\<^sub>0, \<lambda>_. 0) (m, d) \<Longrightarrow> inv m\<^sub>0 \<Longrightarrow> holder m\<^sub>0 = None \<Longrightarrow>
     inv m \<and> d = entered m"
proof -
  assume r: "(lock_step enter leave)\<^sup>*\<^sup>* (m\<^sub>0, \<lambda>_. 0) (m, d)" and 0: "inv m\<^sub>0" "holder m\<^sub>0 = None"
  from r have "inv (fst (m, d)) \<and> snd (m, d) = entered (fst (m, d))"
    by (induction rule: rtranclp_induct) (use 0 step_inv in \<open>auto simp: entered_def fun_eq_iff\<close>)
  then show ?thesis by simp
qed

lemma exclusion:
  assumes "(lock_step enter leave)\<^sup>*\<^sup>* (m\<^sub>0, \<lambda>_. 0) (m, d)" and "inv m\<^sub>0" and "holder m\<^sub>0 = None"
    and "0 < d c"
  shows "holder m = Some c \<and> depth m = d c \<and> (\<forall>c'. c' \<noteq> c \<longrightarrow> d c' = 0) \<and> (\<exists>m'. leave m = Some m')"
proof -
  have i: "inv m" "d = entered m" using reach_inv [OF assms(1-3)] by auto
  with assms(4) have h: "holder m = Some c" by (auto simp: entered_def split: if_splits)
  with i leave_ok [OF i(1) h] show ?thesis by (auto simp: entered_def)
qed

lemma handover:
  assumes "(lock_step enter leave)\<^sup>*\<^sup>* (m\<^sub>0, \<lambda>_. 0) (m, d)" and "inv m\<^sub>0" and "holder m\<^sub>0 = None"
    and "\<forall>c. d c = 0"
  shows "holder m = None"
  using reach_inv [OF assms(1-3)] assms(4) free_depth [of m]
  by (cases "holder m") (auto simp: entered_def fun_eq_iff split: if_splits)

end

section \<open>Both mutexes are exclusive locks\<close>

text \<open>The core that owns a lock, read from the owner id.\<close>

definition owner_core :: "lock_owner_id \<Rightarrow> nat option" where
  "owner_core i = (if lock_is_owner_id_valid i then Some (unat i) else None)"

definition mutex_enter_leave :: "nat \<Rightarrow> mutex \<Rightarrow> (bool \<times> mutex) option" where
  "mutex_enter_leave c m = (let (b, _, m') = mutex_try_enter c m in Some (b, m'))"

definition recursive_mutex_enter :: "nat \<Rightarrow> recursive_mutex \<Rightarrow> (bool \<times> recursive_mutex) option" where
  "recursive_mutex_enter c m = map_option (\<lambda>(b, _, m'). (b, m')) (recursive_mutex_try_enter c m)"

definition recursive_mutex_inv :: "recursive_mutex \<Rightarrow> bool" where
  "recursive_mutex_inv m \<longleftrightarrow> (lock_is_owner_id_valid (rowner m) \<longleftrightarrow> enter_count m \<noteq> 0)"

lemma invalid_owner [simp]: "\<not> lock_is_owner_id_valid LOCK_INVALID_OWNER_ID"
  by (simp add: lock_is_owner_id_valid_def LOCK_INVALID_OWNER_ID_def)

lemma caller_valid [simp]:
  "c < 2 \<Longrightarrow> lock_is_owner_id_valid (lock_get_caller_owner_id c)"
  "c < 2 \<Longrightarrow> unat (lock_get_caller_owner_id c) = c"
  by (auto simp: less_2_cases_iff lock_is_owner_id_valid_def lock_get_caller_owner_id_def)

lemma owner_core_simps [simp]:
  "owner_core LOCK_INVALID_OWNER_ID = None"
  "c < 2 \<Longrightarrow> owner_core (lock_get_caller_owner_id c) = Some c"
  by (simp_all add: owner_core_def)

lemma owner_core_None [simp]: "owner_core i = None \<longleftrightarrow> \<not> lock_is_owner_id_valid i"
  by (simp add: owner_core_def)

lemma owner_core_caller:
  "owner_core i = Some c \<Longrightarrow> i = lock_get_caller_owner_id c \<and> lock_is_owner_id_valid i"
  by (auto simp: owner_core_def lock_get_caller_owner_id_def split: if_splits)

interpretation plain_mutex: exclusive_lock "\<lambda>_. True" mutex_enter_leave mutex_exit
  "\<lambda>m. owner_core (owner m)" "\<lambda>m. if lock_is_owner_id_valid (owner m) then 1 else 0"
  by unfold_locales
    (auto simp: mutex_enter_leave_def mutex_try_enter_def mutex_exit_def dest: owner_core_caller
      split: if_splits)

lemma succ_no_wrap: "(x + 1 :: u8) \<noteq> 0 \<Longrightarrow> unat (x + 1) = unat x + 1"
  using unat_eq_zero unatSuc [of x] by (simp add: add.commute)

interpretation recursive_mutexes: exclusive_lock recursive_mutex_inv recursive_mutex_enter recursive_mutex_exit
  "\<lambda>m. owner_core (rowner m)" "\<lambda>m. unat (enter_count m)"
proof (unfold_locales, goal_cases)
  case (1 m c b m')
  then show ?case
    by (auto simp: recursive_mutex_inv_def recursive_mutex_enter_def recursive_mutex_try_enter_def Let_def
        split: if_splits)
next
  case (2 m c m')
  then show ?case
    by (auto simp: recursive_mutex_inv_def recursive_mutex_enter_def recursive_mutex_try_enter_def Let_def
        succ_no_wrap split: if_splits)
next
  case (3 m c m')
  then show ?case
    by (auto simp: recursive_mutex_enter_def recursive_mutex_try_enter_def Let_def split: if_splits)
next
  case (4 m c)
  then have v: "lock_is_owner_id_valid (rowner m)" "enter_count m \<noteq> 0"
    using owner_core_caller by (auto simp: recursive_mutex_inv_def)
  then have "unat (enter_count m - 1) = unat (enter_count m) - 1"
    by (simp add: unat_minus_one)
  with 4 v show ?case
    by (auto simp: recursive_mutex_inv_def recursive_mutex_exit_def Let_def unat_eq_zero [symmetric])
next
  case (5 m)
  then show ?case by (auto simp: recursive_mutex_inv_def unat_eq_zero)
qed

end
