(* ===== verification/Queue.thy ===== *)
theory Queue
  imports Sync_Correct
begin

text \<open>
  The multi-core queue of \<open>SDK/pico/pico\_util/queue.c\<close>: a ring buffer of
  \<open>element\_count + 1\<close> slots with 16 bit indices, guarded by a spin lock. Each locked part is
  one step; the blocking calls are the retry loop of the theory Sync. The build keeps the high
  water mark (\<open>PICO\_QUEUE\_MAX\_LEVEL\<close>); no other field depends on it.
\<close>

record queue =
  q_core :: lock_core
  q_data :: "u8 list"
  wptr :: u16
  rptr :: u16
  element_size :: u16
  element_count :: u16
  max_level :: u16

text \<open>
  \<open>calloc\<close> stands for the C library's; a NULL pointer is an array without bytes. The
  structure's memory is the caller's, and \<open>max\_level\<close> keeps what was there.
\<close>

definition queue_init_with_spinlock ::
    "(u32 \<Rightarrow> u32 \<Rightarrow> u8 list) \<Rightarrow> queue \<Rightarrow> u32 \<Rightarrow> u32 \<Rightarrow> nat \<Rightarrow> queue option" where
  "queue_init_with_spinlock calloc q esize ecount spinlock_num = do {
     core \<leftarrow> lock_init spinlock_num;
     Some (q\<lparr>q_core := core, q_data := calloc (ecount + 1) esize, element_count := ucast ecount,
       element_size := ucast esize, wptr := 0, rptr := 0\<rparr>) }"

definition queue_init ::
    "(u32 \<Rightarrow> u32 \<Rightarrow> u8 list) \<Rightarrow> sync_state \<Rightarrow> queue \<Rightarrow> u32 \<Rightarrow> u32 \<Rightarrow> (queue \<times> sync_state) option" where
  "queue_init calloc s q esize ecount = (let (n, s1) = next_striped_spin_lock_num s in do {
     q1 \<leftarrow> queue_init_with_spinlock calloc q esize ecount n;
     Some (q1, s1) })"

definition queue_get_level_unsafe :: "queue \<Rightarrow> u32" where
  "queue_get_level_unsafe q =
     (let rc = uint (wptr q) - uint (rptr q) in
      word_of_int (if rc < 0 then rc + (uint (element_count q) + 1) else rc))"

definition queue_get_level :: "queue \<Rightarrow> u32" where
  "queue_get_level q = queue_get_level_unsafe q"

definition queue_get_max_level :: "queue \<Rightarrow> u32" where
  "queue_get_max_level q = ucast (max_level q)"

definition queue_reset_max_level :: "queue \<Rightarrow> queue" where
  "queue_reset_max_level q = q\<lparr>max_level := ucast (queue_get_level_unsafe q)\<rparr>"

definition queue_is_empty :: "queue \<Rightarrow> bool" where
  "queue_is_empty q \<longleftrightarrow> queue_get_level q = 0"

definition queue_is_full :: "queue \<Rightarrow> bool" where
  "queue_is_full q \<longleftrightarrow> queue_get_level q = ucast (element_count q)"

text \<open>The offset of a slot in the data.\<close>

definition element_ptr :: "queue \<Rightarrow> u32 \<Rightarrow> nat option" where
  "element_ptr q index = do {
     c_assert (index \<le> ucast (element_count q));
     Some (unat (index * ucast (element_size q))) }"

definition inc_index :: "queue \<Rightarrow> u16 \<Rightarrow> u16 \<times> queue" where
  "inc_index q index =
     (let index = index + 1;
          index = (if index > element_count q then 0 else index);
          level = ucast (queue_get_level_unsafe q)
      in (index, if level > max_level q then q\<lparr>max_level := level\<rparr> else q))"

definition queue_add_locked :: "u8 list \<Rightarrow> queue \<Rightarrow> (unit option \<times> queue) option" where
  "queue_add_locked bytes q =
     (if queue_get_level_unsafe q \<noteq> ucast (element_count q) then do {
        p \<leftarrow> element_ptr q (ucast (wptr q));
        d \<leftarrow> memcpy_in (q_data q) p bytes (unat (element_size q));
        let (i, q1) = inc_index (q\<lparr>q_data := d\<rparr>) (wptr q);
        Some (Some (), q1\<lparr>wptr := i\<rparr>) }
      else Some (None, q))"

definition queue_remove_locked :: "queue \<Rightarrow> (u8 list option \<times> queue) option" where
  "queue_remove_locked q =
     (if queue_get_level_unsafe q \<noteq> 0 then do {
        p \<leftarrow> element_ptr q (ucast (rptr q));
        bytes \<leftarrow> memcpy_out (q_data q) p (unat (element_size q));
        let (i, q1) = inc_index q (rptr q);
        Some (Some bytes, q1\<lparr>rptr := i\<rparr>) }
      else Some (None, q))"

definition queue_peek_locked :: "queue \<Rightarrow> (u8 list option \<times> queue) option" where
  "queue_peek_locked q =
     (if queue_get_level_unsafe q \<noteq> 0 then do {
        p \<leftarrow> element_ptr q (ucast (rptr q));
        bytes \<leftarrow> memcpy_out (q_data q) p (unat (element_size q));
        Some (Some bytes, q) }
      else Some (None, q))"

text \<open>\<open>block\<close> selects the waiting variant; without it the first look decides.\<close>

definition queue_internal ::
    "(queue \<Rightarrow> ('r option \<times> queue) option) \<Rightarrow> (nat \<Rightarrow> queue \<Rightarrow> queue) \<Rightarrow> queue world \<Rightarrow> bool
      \<Rightarrow> ('r option \<times> queue world) option" where
  "queue_internal locked others w block =
     (if block then retry locked (unlock_with_wait others) 0 w
      else do { (r, q) \<leftarrow> locked (memory w); Some (r, w\<lparr>memory := q\<rparr>) })"

definition queue_add_internal ::
    "(nat \<Rightarrow> queue \<Rightarrow> queue) \<Rightarrow> queue world \<Rightarrow> u8 list \<Rightarrow> bool \<Rightarrow> (unit option \<times> queue world) option" where
  "queue_add_internal others w bytes block = queue_internal (queue_add_locked bytes) others w block"

definition queue_remove_internal ::
    "(nat \<Rightarrow> queue \<Rightarrow> queue) \<Rightarrow> queue world \<Rightarrow> bool \<Rightarrow> (u8 list option \<times> queue world) option" where
  "queue_remove_internal others w block = queue_internal queue_remove_locked others w block"

definition queue_peek_internal ::
    "(nat \<Rightarrow> queue \<Rightarrow> queue) \<Rightarrow> queue world \<Rightarrow> bool \<Rightarrow> (u8 list option \<times> queue world) option" where
  "queue_peek_internal others w block = queue_internal queue_peek_locked others w block"

definition queue_try_add :: "queue world \<Rightarrow> u8 list \<Rightarrow> (bool \<times> queue world) option" where
  "queue_try_add w bytes = do {
     (r, w') \<leftarrow> queue_add_internal (\<lambda>_ q. q) w bytes False; Some (r \<noteq> None, w') }"

definition queue_try_remove :: "queue world \<Rightarrow> (u8 list option \<times> queue world) option" where
  "queue_try_remove w = queue_remove_internal (\<lambda>_ q. q) w False"

definition queue_try_peek :: "queue world \<Rightarrow> (u8 list option \<times> queue world) option" where
  "queue_try_peek w = queue_peek_internal (\<lambda>_ q. q) w False"

definition queue_add_blocking ::
    "(nat \<Rightarrow> queue \<Rightarrow> queue) \<Rightarrow> queue world \<Rightarrow> u8 list \<Rightarrow> queue world option" where
  "queue_add_blocking others w bytes = do {
     (_, w') \<leftarrow> queue_add_internal others w bytes True; Some w' }"

definition queue_remove_blocking ::
    "(nat \<Rightarrow> queue \<Rightarrow> queue) \<Rightarrow> queue world \<Rightarrow> (u8 list option \<times> queue world) option" where
  "queue_remove_blocking others w = queue_remove_internal others w True"

definition queue_peek_blocking ::
    "(nat \<Rightarrow> queue \<Rightarrow> queue) \<Rightarrow> queue world \<Rightarrow> (u8 list option \<times> queue world) option" where
  "queue_peek_blocking others w = queue_peek_internal others w True"

section \<open>A bounded FIFO\<close>

text \<open>
  What a bounded FIFO promises of its content. The run relation is any interleaving of
  producers and consumers; \<open>ins\<close> and \<open>outs\<close> are what was accepted and what was handed out.
\<close>

inductive fifo_run ::
    "('a \<Rightarrow> 'q \<Rightarrow> (unit option \<times> 'q) option) \<Rightarrow> ('q \<Rightarrow> ('a option \<times> 'q) option)
      \<Rightarrow> ('q \<Rightarrow> ('a option \<times> 'q) option) \<Rightarrow> ('a \<Rightarrow> bool) \<Rightarrow> 'q \<Rightarrow> 'a list \<Rightarrow> 'a list \<Rightarrow> 'q \<Rightarrow> bool"
  for add remove peek okay q0 where
  start: "fifo_run add remove peek okay q0 [] [] q0"
| add: "fifo_run add remove peek okay q0 ins outs q \<Longrightarrow> okay x \<Longrightarrow> add x q = Some (r, q') \<Longrightarrow>
    fifo_run add remove peek okay q0 (if r = None then ins else ins @ [x]) outs q'"
| remove: "fifo_run add remove peek okay q0 ins outs q \<Longrightarrow> remove q = Some (r, q') \<Longrightarrow>
    fifo_run add remove peek okay q0 ins (case r of None \<Rightarrow> outs | Some x \<Rightarrow> outs @ [x]) q'"
| peek: "fifo_run add remove peek okay q0 ins outs q \<Longrightarrow> peek q = Some (r, q') \<Longrightarrow>
    fifo_run add remove peek okay q0 ins outs q'"

locale bounded_fifo =
  fixes inv :: "'q \<Rightarrow> bool"
    and content :: "'q \<Rightarrow> 'a list"
    and capacity :: nat
    and okay :: "'a \<Rightarrow> bool"
    and add :: "'a \<Rightarrow> 'q \<Rightarrow> (unit option \<times> 'q) option"
    and remove peek :: "'q \<Rightarrow> ('a option \<times> 'q) option"
  assumes bounded: "inv q \<Longrightarrow> length (content q) \<le> capacity"
    and add_space: "inv q \<Longrightarrow> okay x \<Longrightarrow> length (content q) < capacity \<Longrightarrow>
      \<exists>q'. add x q = Some (Some (), q') \<and> inv q' \<and> content q' = content q @ [x]"
    and add_full: "inv q \<Longrightarrow> length (content q) = capacity \<Longrightarrow> add x q = Some (None, q)"
    and remove_some: "inv q \<Longrightarrow> content q = x # xs \<Longrightarrow>
      \<exists>q'. remove q = Some (Some x, q') \<and> inv q' \<and> content q' = xs"
    and remove_empty: "inv q \<Longrightarrow> content q = [] \<Longrightarrow> remove q = Some (None, q)"
    and peek_some: "inv q \<Longrightarrow> content q = x # xs \<Longrightarrow> peek q = Some (Some x, q)"
    and peek_empty: "inv q \<Longrightarrow> content q = [] \<Longrightarrow> peek q = Some (None, q)"
begin

lemma add_cases:
  assumes "inv q" and "okay x" and "add x q = Some (r, q')"
  shows "inv q' \<and> content q' = (if r = None then content q else content q @ [x])
    \<and> (r = None \<longleftrightarrow> length (content q) = capacity)"
  using add_space [OF assms(1,2)] add_full [OF assms(1), of x] bounded [OF assms(1)] assms
  by (cases "length (content q) = capacity") auto

lemma remove_cases:
  assumes "inv q" and "remove q = Some (r, q')"
  shows "inv q' \<and> content q = (case r of None \<Rightarrow> [] | Some x \<Rightarrow> [x]) @ content q'"
  using remove_some [OF assms(1)] remove_empty [OF assms(1)] assms
  by (cases "content q") auto

lemma peek_cases: "inv q \<Longrightarrow> peek q = Some (r, q') \<Longrightarrow> q' = q"
  using peek_some [of q] peek_empty [of q] by (cases "content q") auto

lemma run_content:
  "fifo_run add remove peek okay q0 ins outs q \<Longrightarrow> inv q0 \<Longrightarrow>
     inv q \<and> content q0 @ ins = outs @ content q"
proof (induction rule: fifo_run.induct)
  case (add ins outs q x r q')
  then show ?case using add_cases [of q x r q'] by simp
next
  case (remove ins outs q r q')
  then show ?case using remove_cases [of q r q'] by (cases r) simp_all
next
  case (peek ins outs q r q')
  then show ?case using peek_cases [of q r q'] by simp
qed simp

end

end
