(* ===== verification/Alarm_Pool_Correct.thy ===== *)
theory Alarm_Pool_Correct
  imports Alarm_Pool
begin

text \<open>
  The invariant of an alarm pool and the effect of each locked section of its code: every
  node id is in exactly one of the heap, the free list and the hands of the running
  interrupt handler; the handler takes the earliest alarm and never one whose time has not
  come; a cancelled alarm is out of the heap.
\<close>

section \<open>Time of the pool\<close>

definition time_ok :: "timer_state \<Rightarrow> bool" where
  "time_ok t \<longleftrightarrow> timer_ok t \<and> (\<forall>k. raw_time t k \<le> INT64_MAX)"

text \<open>\<open>t'\<close> is a later state of the same timer.\<close>

definition later :: "timer_state \<Rightarrow> timer_state \<Rightarrow> bool" where
  "later t t' \<longleftrightarrow> raw_time t' = raw_time t \<and> accesses t \<le> accesses t' \<and> inte t' = inte t \<and> time_ok t'"

lemma later_refl: "time_ok t \<Longrightarrow> later t t"
  by (simp add: later_def)

lemma later_trans: "later t t' \<Longrightarrow> later t' t'' \<Longrightarrow> later t t''"
  by (simp add: later_def)

lemma get_absolute_time_eq:
  assumes ok: "time_ok t"
  obtains now t' k where "get_absolute_time t = Some (now, t')" "later t t'" "valid_time now"
    "us_since_boot now = raw_time t k" "accesses t \<le> k" "k < accesses t'"
proof -
  from ok have st: "steady t" by (simp add: time_ok_def timer_ok_def)
  obtain n where n: "time_us_64 t = Some (raw_time t (accesses t + n), adv (Suc (Suc n)) t)"
    using time_us_64_eq [OF st] by blast
  have v: "raw_time t (accesses t + n) \<le> INT64_MAX" using ok by (simp add: time_ok_def)
  show thesis
  proof (rule that)
    show "get_absolute_time t = Some (Absolute_time (raw_time t (accesses t + n)), adv (Suc (Suc n)) t)"
      using n v by (simp add: get_absolute_time_def update_us_since_boot_def)
    show "later t (adv (Suc (Suc n)) t)"
      using ok by (simp add: later_def time_ok_def timer_ok_def)
    show "valid_time (Absolute_time (raw_time t (accesses t + n)))"
      using v by (simp add: valid_time_def to_us_since_boot_def)
    show "accesses t \<le> accesses t + n" by simp
    show "accesses t + n < accesses (adv (Suc (Suc n)) t)" by simp
  qed simp
qed

lemma set_target_later:
  assumes ok: "time_ok t" and n: "n < NUM_TIMERS" and en: "bit (inte t) n"
  obtains m t' where "hardware_alarm_set_target t n tg = Some (m, t')" "later t t'" "accesses t < accesses t'"
    "m \<Longrightarrow> to_us_since_boot tg \<le> raw_time t (accesses t' - 1)"
    "\<not> m \<Longrightarrow> alarm_set t' n (to_us_since_boot tg)"
    "to_us_since_boot tg \<le> raw_time t (accesses t) \<Longrightarrow> m"
proof -
  from ok have tk: "timer_ok t" by (simp add: time_ok_def)
  from hardware_alarm_set_target_eq [OF tk n en, of tg] obtain m t'
    where st: "hardware_alarm_set_target t n tg = Some (m, t')" and t': "timer_ok t'"
      "raw_time t' = raw_time t" "accesses t < accesses t'" "inte t' = inte t"
      and r: "if m then to_us_since_boot tg \<le> raw_time t (accesses t' - 1)
        else alarm_set t' n (to_us_since_boot tg)"
      and e: "to_us_since_boot tg \<le> raw_time t (accesses t) \<longrightarrow> m"
    by blast
  have l: "later t t'" using t' ok by (simp add: later_def time_ok_def)
  show thesis by (rule that [OF st l t'(3)]) (use r e in simp_all)
qed

section \<open>The invariant\<close>

definition ap_base :: "alarm_pool \<Rightarrow> bool" where
  "ap_base p \<longleftrightarrow> length (entry_ids_high p) = length (entries p) \<and> length (entries p) < 2 ^ 8
     \<and> time_ok (ap_timer p) \<and> hardware_alarm_num p < NUM_TIMERS
     \<and> bit (inte (ap_timer p)) (hardware_alarm_num p)"

definition entry_ok :: "alarm_pool_entry \<Rightarrow> bool" where
  "entry_ok e \<longleftrightarrow> callback e \<noteq> 0 \<and> valid_time (target e)"

text \<open>
  \<open>A\<close>: ids in the heap; \<open>fl\<close>, \<open>st\<close>: the free list and whether it is lost; \<open>H\<close>: ids held
  by a running handler.
\<close>

definition ap_rel :: "alarm_pool \<Rightarrow> nat set \<Rightarrow> nat list \<Rightarrow> bool \<Rightarrow> nat set \<Rightarrow> bool" where
  "ap_rel p A fl st H \<longleftrightarrow> ap_base p \<and> ph_abs (entry_us p) (heap p) (length (entries p)) (A, fl, st)
     \<and> A \<union> set fl \<union> H = {1..length (entries p)} \<and> A \<inter> set fl = {} \<and> H \<inter> (A \<union> set fl) = {}
     \<and> (\<forall>i \<in> A. entry_ok (entries p ! (i - 1)))"

lemma ap_relD:
  assumes "ap_rel p A fl st H"
  shows "ap_base p" "ph_abs (entry_us p) (heap p) (length (entries p)) (A, fl, st)"
    "A \<union> set fl \<union> H = {1..length (entries p)}" "A \<inter> set fl = {}" "H \<inter> (A \<union> set fl) = {}"
    "\<And>i. i \<in> A \<Longrightarrow> entry_ok (entries p ! (i - 1))"
  using assms by (simp_all add: ap_rel_def)

lemma ph_abs_max: "ph_abs key h m a \<Longrightarrow> max_nodes h = m"
  by (auto simp: ph_abs_def)

lemma ap_max: "ap_rel p A fl st H \<Longrightarrow> max_nodes (heap p) = length (entries p)"
  using ap_relD(2) ph_abs_max by blast

lemma ph_abs_cong:
  assumes "ph_abs key h m (A, fl, st)" and "\<And>i. i \<in> A \<Longrightarrow> key i = key' i"
  shows "ph_abs key' h m (A, fl, st)"
proof -
  from assms(1) obtain t where "ph_rel key h t fl st" "set_tree t = A" "max_nodes h = m"
    by (auto simp: ph_abs_def)
  with ph_rel_cong [of key h t fl st key'] assms(2) show ?thesis by (auto simp: ph_abs_def)
qed

lemma comparator_eq: "timer_pool_entry_comparator p = key_less (entry_us p)"
  by (simp add: fun_eq_iff timer_pool_entry_comparator_def)

lemma entry_us_eq:
  "i \<noteq> 0 \<Longrightarrow> i \<le> length (entries p) \<Longrightarrow> max_nodes (heap p) = length (entries p) \<Longrightarrow>
     entry_us p i = to_us_since_boot (target (entries p ! (i - 1)))"
  by (simp add: entry_us_def get_entry_def)

lemma entry_us_heap [simp]:
  "max_nodes h = max_nodes (heap p) \<Longrightarrow> entry_us (p\<lparr>heap := h\<rparr>) = entry_us p"
  by (simp add: fun_eq_iff entry_us_def get_entry_def)

lemma entry_us_other [simp]:
  "entry_us (p\<lparr>ap_timer := t\<rparr>) = entry_us p" "entry_us (p\<lparr>alarm_in_progress := a\<rparr>) = entry_us p"
  "entry_us (p\<lparr>entry_ids_high := hs\<rparr>) = entry_us p"
  by (simp_all add: fun_eq_iff entry_us_def get_entry_def)

lemma ap_rel_timer:
  "ap_rel p A fl st H \<Longrightarrow> later (ap_timer p) t \<Longrightarrow> ap_rel (p\<lparr>ap_timer := t\<rparr>) A fl st H"
  by (simp add: ap_rel_def ap_base_def later_def)

lemma ap_rel_progress: "ap_rel p A fl st H \<Longrightarrow> ap_rel (p\<lparr>alarm_in_progress := a\<rparr>) A fl st H"
  by (simp add: ap_rel_def ap_base_def)

lemma ap_rel_ids:
  "ap_rel p A fl st H \<Longrightarrow> length hs = length (entry_ids_high p) \<Longrightarrow> ap_rel (p\<lparr>entry_ids_high := hs\<rparr>) A fl st H"
  by (simp add: ap_rel_def ap_base_def)

lemma ap_rel_heap:
  assumes "ap_rel p A fl st H" and "ph_abs (entry_us p) h (length (entries p)) (A', fl', st')"
    and "A' \<union> set fl' \<union> H' = A \<union> set fl \<union> H" and "A' \<inter> set fl' = {}" and "H' \<inter> (A' \<union> set fl') = {}"
    and "A' \<subseteq> A"
  shows "ap_rel (p\<lparr>heap := h\<rparr>) A' fl' st' H'"
proof -
  have "max_nodes h = max_nodes (heap p)" using ap_max [OF assms(1)] ph_abs_max [OF assms(2)] by simp
  with assms show ?thesis by (auto simp: ap_rel_def ap_base_def)
qed

section \<open>Adding an alarm\<close>

text \<open>The part of \<open>add\_alarm\_under\_lock\<close> after the node id is known.\<close>

definition add_with_id ::
    "alarm_pool \<Rightarrow> absolute_time \<Rightarrow> nat \<Rightarrow> nat \<Rightarrow> nat \<Rightarrow> bool \<Rightarrow> (nat \<times> bool option \<times> alarm_pool) option" where
  "add_with_id p1 time cb ud nid create_if_past = do {
     _ \<leftarrow> get_entry p1 nid;
     es \<leftarrow> c_write (entries p1) (nid - 1) \<lparr>target = time, callback = cb, user_data = ud\<rparr>;
     let p2 = p1\<lparr>entries := es\<rparr>;
     (root, h2) \<leftarrow> ph_insert_node (timer_pool_entry_comparator p2) (heap p2) nid;
     let p3 = p2\<lparr>heap := h2\<rparr>;
     if nid = root then do {
       (is_missed, t) \<leftarrow> hardware_alarm_set_target (ap_timer p3) (hardware_alarm_num p3) time;
       let p4 = p3\<lparr>ap_timer := t\<rparr>;
       p5 \<leftarrow> (if is_missed \<and> \<not> create_if_past then do {
                (_, h3) \<leftarrow> ph_remove_and_free_node (timer_pool_entry_comparator p4) (heap p4) nid;
                Some (p4\<lparr>heap := h3\<rparr>) }
              else Some p4);
       Some (nid, Some is_missed, p5) }
     else Some (nid, None, p3) }"

text \<open>What adding leaves alone, and how time and \<open>missed\<close> are related.\<close>

definition added :: "alarm_pool \<Rightarrow> absolute_time \<Rightarrow> nat \<Rightarrow> nat \<Rightarrow> nat \<Rightarrow> bool option \<Rightarrow> alarm_pool \<Rightarrow> bool" where
  "added p time cb ud nid m p' \<longleftrightarrow> entry_ids_high p' = entry_ids_high p
     \<and> alarm_in_progress p' = alarm_in_progress p \<and> hardware_alarm_num p' = hardware_alarm_num p
     \<and> entries p' = (entries p)[nid - 1 := \<lparr>target = time, callback = cb, user_data = ud\<rparr>]
     \<and> later (ap_timer p) (ap_timer p')
     \<and> (m = Some True \<longrightarrow> to_us_since_boot time \<le> raw_time (ap_timer p) (accesses (ap_timer p') - 1))
     \<and> (m = Some False \<longrightarrow> alarm_set (ap_timer p') (hardware_alarm_num p) (to_us_since_boot time)
          \<and> raw_time (ap_timer p) (accesses (ap_timer p)) < to_us_since_boot time)"

text \<open>\<open>missed\<close> is written exactly when the new alarm comes first.\<close>

definition first_iff :: "alarm_pool \<Rightarrow> nat set \<Rightarrow> absolute_time \<Rightarrow> bool option \<Rightarrow> bool" where
  "first_iff p A time m \<longleftrightarrow>
     (if m = None then \<exists>j \<in> A. target (entries p ! (j - 1)) \<le> time
      else \<forall>j \<in> A. time \<le> target (entries p ! (j - 1)))"

lemma first_iff_heap [simp]: "first_iff (p\<lparr>heap := h\<rparr>) A time m = first_iff p A time m"
  by (simp add: first_iff_def)

lemma ap_rel_entry:
  assumes r: "ap_rel p A fl st (insert nid H)" and nH: "nid \<notin> H" and e: "entry_ok e"
  defines "p2 \<equiv> p\<lparr>entries := (entries p)[nid - 1 := e]\<rparr>"
  shows "ph_abs (entry_us p2) (heap p2) (length (entries p2)) (A, fl, st)"
    "nid \<in> {1..length (entries p)} - A - set fl" "ap_base p2"
    "\<And>i. i \<in> insert nid A \<Longrightarrow> entry_ok (entries p2 ! (i - 1))"
proof -
  note D = ap_relD [OF r]
  show n: "nid \<in> {1..length (entries p)} - A - set fl" using D(3,5) by blast
  have nA: "nid \<notin> A" "nid \<noteq> 0" "nid \<le> length (entries p)" using n by auto
  have A: "A \<subseteq> {1..length (entries p)}" using D(3) by blast
  have p2: "heap p2 = heap p" "length (entries p2) = length (entries p)" by (simp_all add: p2_def)
  have "entry_us p i = entry_us p2 i" if "i \<in> A" for i
  proof -
    from that nA A have i: "i \<noteq> nid" "i \<noteq> 0" "i \<le> length (entries p)" by auto
    then have "nid - 1 \<noteq> i - 1" using nA(2) by linarith
    then have "entries p2 ! (i - 1) = entries p ! (i - 1)" by (simp add: p2_def)
    with i p2 ap_max [OF r] show ?thesis by (simp add: entry_us_eq)
  qed
  from ph_abs_cong [OF D(2) this] p2
  show "ph_abs (entry_us p2) (heap p2) (length (entries p2)) (A, fl, st)" by simp
  show "ap_base p2" using D(1) by (simp add: ap_base_def p2_def)
  show "entry_ok (entries p2 ! (i - 1))" if "i \<in> insert nid A" for i
  proof (cases "i = nid")
    case True
    with nA e show ?thesis by (simp add: p2_def)
  next
    case False
    with that A have i: "i \<in> A" "i \<noteq> 0" by auto
    with False nA(2) have "nid - 1 \<noteq> i - 1" by linarith
    then show ?thesis using D(6) [OF i(1)] by (simp add: p2_def)
  qed
qed

lemma add_with_id_rel:
  assumes r: "ap_rel p A fl st (insert nid H)" and nH: "nid \<notin> H"
    and cb: "cb \<noteq> 0" and v: "valid_time time"
  shows "\<exists>m p'. add_with_id p time cb ud nid c = Some (nid, m, p') \<and> added p time cb ud nid m p'
    \<and> first_iff p A time m
    \<and> (if m = Some True \<and> \<not> c then ap_rel p' A (fl @ [nid]) (st \<or> fl = []) H
        else ap_rel p' (insert nid A) fl st H)"
proof -
  let ?e = "\<lparr>target = time, callback = cb, user_data = ud\<rparr>"
  let ?p2 = "p\<lparr>entries := (entries p)[nid - 1 := ?e]\<rparr>"
  have e: "entry_ok ?e" using cb v by (simp add: entry_ok_def)
  note D = ap_relD [OF r] and E = ap_rel_entry [OF r nH e]
  let ?n = "length (entries p)"
  have mx: "max_nodes (heap p) = ?n" by (rule ap_max [OF r])
  have nid: "nid \<noteq> 0" "nid \<le> ?n" "nid \<notin> A" "nid \<notin> set fl" using E(2) by auto
  have ok: "ph_allowed (length (entries ?p2)) (A, fl, st) (Call_insert nid)" using E(2) by simp
  from phq.step [OF E(1) ok] obtain r' h2
    where ins: "ph_insert_node (timer_pool_entry_comparator ?p2) (heap p) nid = Some (r', h2)"
      and a2: "ph_abs (entry_us ?p2) h2 ?n (insert nid A, fl, st)"
      and least: "is_least (entry_us ?p2) (insert nid A) r'"
    unfolding comparator_eq by auto
  have A: "A \<subseteq> {1..?n}" using D(3) by blast
  have key: "entry_us ?p2 i = to_us_since_boot (target (entries p ! (i - 1)))" if "i \<in> A" for i
  proof -
    from that A nid have i: "i \<noteq> nid" "i \<noteq> 0" "i \<le> ?n" by auto
    then have "nid - 1 \<noteq> i - 1" using nid(1) by linarith
    with i mx show ?thesis by (simp add: entry_us_eq)
  qed
  have keyn: "entry_us ?p2 nid = to_us_since_boot time" using nid mx by (simp add: entry_us_eq)
  have first: "nid = r' \<Longrightarrow> j \<in> A \<Longrightarrow> time \<le> target (entries p ! (j - 1))" for j
    using least key [of j] keyn by (auto simp: is_least_def less_eq_absolute_time_def to_us_since_boot_def)
  have later_one: "\<exists>j \<in> A. target (entries p ! (j - 1)) \<le> time" if "nid \<noteq> r'"
    using least that key [of r'] keyn
    by (intro bexI [of _ r']) (auto simp: is_least_def less_eq_absolute_time_def to_us_since_boot_def)
  have mx2: "max_nodes h2 = ?n" by (rule ph_abs_max [OF a2])
  let ?p3 = "?p2\<lparr>heap := h2\<rparr>"
  have us3: "entry_us ?p3 = entry_us ?p2" by (rule entry_us_heap) (simp add: mx mx2)
  have r3: "ap_rel ?p3 (insert nid A) fl st H"
    unfolding ap_rel_def us3 using a2 E(3,4) D(3,4,5) nid nH by (auto simp: ap_base_def)
  have ge: "get_entry p nid = Some (entries p ! (nid - 1))"
    using nid mx by (simp add: get_entry_def)
  have run: "add_with_id p time cb ud nid c = (if nid = r' then do {
       (is_missed, t) \<leftarrow> hardware_alarm_set_target (ap_timer p) (hardware_alarm_num p) time;
       let p4 = ?p3\<lparr>ap_timer := t\<rparr>;
       p5 \<leftarrow> (if is_missed \<and> \<not> c then do {
                (_, h3) \<leftarrow> ph_remove_and_free_node (timer_pool_entry_comparator p4) (heap p4) nid;
                Some (p4\<lparr>heap := h3\<rparr>) }
              else Some p4);
       Some (nid, Some is_missed, p5) }
     else Some (nid, None, ?p3))"
    using nid ge ins by (simp add: add_with_id_def Let_def cong: if_cong)
  have tk: "time_ok (ap_timer p)" "hardware_alarm_num p < NUM_TIMERS"
    "bit (inte (ap_timer p)) (hardware_alarm_num p)"
    using D(1) by (simp_all add: ap_base_def)
  show ?thesis
  proof (cases "nid = r'")
    case False
    with r3 run tk(1) later_one show ?thesis
      by (intro exI [of _ None] exI [of _ ?p3]) (simp add: added_def later_refl first_iff_def)
  next
    case True
    from set_target_later [OF tk, of time] obtain m t
      where t: "hardware_alarm_set_target (ap_timer p) (hardware_alarm_num p) time = Some (m, t)"
        "later (ap_timer p) t" "m \<Longrightarrow> to_us_since_boot time \<le> raw_time (ap_timer p) (accesses t - 1)"
        "\<not> m \<Longrightarrow> alarm_set t (hardware_alarm_num p) (to_us_since_boot time)"
        "to_us_since_boot time \<le> raw_time (ap_timer p) (accesses (ap_timer p)) \<Longrightarrow> m" by metis
    have early: "\<not> m \<Longrightarrow> raw_time (ap_timer p) (accesses (ap_timer p)) < to_us_since_boot time"
      using t(5) by (meson not_le)
    have fi: "first_iff p A time (Some m)" using first [OF True] by (simp add: first_iff_def)
    let ?p4 = "?p3\<lparr>ap_timer := t\<rparr>"
    have r4: "ap_rel ?p4 (insert nid A) fl st H" by (rule ap_rel_timer [OF r3]) (simp add: t)
    show ?thesis
    proof (cases "m \<and> \<not> c")
      case keep: False
      have "add_with_id p time cb ud nid c = Some (nid, Some m, ?p4)"
        using keep True t(1) unfolding run by auto
      moreover have "added p time cb ud nid (Some m) ?p4"
        using t early by (auto simp: added_def)
      ultimately show ?thesis using keep r4 fi
        by (intro exI [of _ "Some m"] exI [of _ ?p4]) auto
    next
      case drop: True
      have "ph_allowed ?n (insert nid A, fl, st) (Call_remove_and_free nid)" using nid by simp
      from phq.step [OF a2 this] obtain rr h3
        where rm: "ph_remove_and_free_node (timer_pool_entry_comparator ?p4) h2 nid = Some (rr, h3)"
          and a3: "ph_abs (entry_us ?p2) h3 ?n (A, fl @ [nid], st \<or> fl = [])"
        unfolding comparator_eq using nid(3) us3
        by (auto simp: insert_Diff_if split: bind_splits)
      let ?p5 = "?p4\<lparr>heap := h3\<rparr>"
      have "ap_rel ?p5 A (fl @ [nid]) (st \<or> fl = []) H"
        by (rule ap_rel_heap [OF r4]) (use a3 us3 D(3,4,5) nid nH in auto)
      moreover have "add_with_id p time cb ud nid c = Some (nid, Some m, ?p5)"
        using drop True t(1) rm unfolding run by simp
      moreover have "added p time cb ud nid (Some m) ?p5"
        using t drop by (auto simp: added_def)
      ultimately show ?thesis using drop fi
        by (intro exI [of _ "Some m"] exI [of _ ?p5]) simp
    qed
  qed
qed

lemma add_alarm_unfold:
  "add_alarm_under_lock p time cb ud reuse_id c = do {
     (nid, h1) \<leftarrow> (if reuse_id \<noteq> 0 then do {
                     inside \<leftarrow> ph_contains_node (heap p) reuse_id;
                     c_assert (\<not> inside);
                     Some (reuse_id, heap p) }
                   else ph_new_node (heap p));
     if nid \<noteq> 0 then add_with_id (p\<lparr>heap := h1\<rparr>) time cb ud nid c
     else Some (0, None, p\<lparr>heap := h1\<rparr>) }"
  unfolding add_alarm_under_lock_def add_with_id_def Let_def by (rule refl)

lemma add_alarm_reuse_rel:
  assumes r: "ap_rel p A fl st (insert nid H)" and nH: "nid \<notin> H"
    and cb: "cb \<noteq> 0" and v: "valid_time time"
  shows "\<exists>m p'. add_alarm_under_lock p time cb ud nid True = Some (nid, m, p')
    \<and> added p time cb ud nid m p' \<and> ap_rel p' (insert nid A) fl st H"
proof -
  note D = ap_relD [OF r]
  have "nid \<in> {1..length (entries p)}" unfolding D(3) [symmetric] by simp
  then have nid: "nid \<noteq> 0" "nid \<le> length (entries p)" "nid \<notin> A" using D(5) by auto
  then have "ph_allowed (length (entries p)) (A, fl, st) (Call_contains nid)" by simp
  from phq.step [OF D(2) this] nid have "ph_contains_node (heap p) nid = Some False"
    by (auto split: bind_splits)
  with nid add_with_id_rel [OF assms, of ud True] show ?thesis
    by (auto simp: add_alarm_unfold)
qed

lemma add_alarm_new_rel:
  assumes r: "ap_rel p A (nid # fl) False H" and cb: "cb \<noteq> 0" and v: "valid_time time"
  shows "\<exists>m p'. add_alarm_under_lock p time cb ud 0 c = Some (nid, m, p') \<and> nid \<noteq> 0
    \<and> added p time cb ud nid m p' \<and> first_iff p A time m
    \<and> (if m = Some True \<and> \<not> c then ap_rel p' A (fl @ [nid]) (fl = []) H
        else ap_rel p' (insert nid A) fl False H)"
proof -
  note D = ap_relD [OF r]
  have "nid \<in> {1..length (entries p)}" unfolding D(3) [symmetric] by simp
  then have nid: "nid \<noteq> 0" "nid \<notin> H" "nid \<notin> A" using D(4,5) by auto
  have df: "nid \<notin> set fl" using D(2) by (auto simp: ph_abs_def dest!: ph_relD(6))
  from phq.step [OF D(2), of Call_new] nid obtain h
    where new: "ph_new_node (heap p) = Some (nid, h)"
      and a: "ph_abs (entry_us p) h (length (entries p)) (A, fl, False)" by auto
  let ?p = "p\<lparr>heap := h\<rparr>"
  have "ap_rel ?p A fl False (insert nid H)"
    by (rule ap_rel_heap [OF r a]) (use D(3,4,5) nid df in auto)
  from add_with_id_rel [OF this nid(2) cb v, of ud c, unfolded simp_thms] obtain m p'
    where "add_with_id ?p time cb ud nid c = Some (nid, m, p')" and ad: "added ?p time cb ud nid m p'"
      and "first_iff ?p A time m"
      and "if m = Some True \<and> \<not> c then ap_rel p' A (fl @ [nid]) (fl = []) H
        else ap_rel p' (insert nid A) fl False H" by blast
  moreover from ad have "added p time cb ud nid m p'" by (simp add: added_def)
  ultimately show ?thesis using new nid(1)
    by (intro exI [of _ m] exI [of _ p']) (simp add: add_alarm_unfold)
qed

lemma add_alarm_full_rel:
  assumes r: "ap_rel p A fl st H" and full: "st \<or> fl = []"
  shows "add_alarm_under_lock p time cb ud 0 c = Some (0, None, p)"
proof -
  from ap_relD(2) [OF r] full have "ph_new_node (heap p) = Some (0, heap p)"
    by (auto simp: ph_abs_def intro: ph_new_node_none)
  then show ?thesis by (simp add: add_alarm_unfold)
qed

section \<open>Taking and finishing an alarm\<close>

text \<open>What \<open>alarm\_pick\<close> hands to the callback.\<close>

definition picked :: "alarm_pool \<Rightarrow> nat set \<Rightarrow> fired \<Rightarrow> alarm_pool \<Rightarrow> bool" where
  "picked p A f p' \<longleftrightarrow> f_id f \<in> A \<and> target (entries p ! (f_id f - 1)) = f_target f
     \<and> callback (entries p ! (f_id f - 1)) = f_callback f
     \<and> user_data (entries p ! (f_id f - 1)) = f_user_data f
     \<and> f_id_high f = entry_ids_high p ! (f_id f - 1)
     \<and> (\<forall>j \<in> A. f_target f \<le> target (entries p ! (j - 1)))
     \<and> us_since_boot (f_target f) \<le> raw_time (ap_timer p) (accesses (ap_timer p') - 1)
     \<and> alarm_in_progress p' = make_public_id (f_id_high f) (f_id f)"

lemma alarm_pick_rel:
  assumes r: "ap_rel p A fl st H"
  shows "\<exists>fo again p'. alarm_pick p = Some (fo, again, p') \<and> later (ap_timer p) (ap_timer p')
    \<and> entries p' = entries p \<and> entry_ids_high p' = entry_ids_high p
    \<and> (case fo of
        Some f \<Rightarrow> picked p A f p' \<and> ap_rel p' (A - {f_id f}) fl st (insert (f_id f) H)
      | None \<Rightarrow> ap_rel p' A fl st H \<and> alarm_in_progress p' = alarm_in_progress p
          \<and> (A = {} \<or> (\<exists>i \<in> A. raw_time (ap_timer p) (accesses (ap_timer p))
                < us_since_boot (target (entries p ! (i - 1))))))"
proof -
  note D = ap_relD [OF r]
  have tk: "time_ok (ap_timer p)" "hardware_alarm_num p < NUM_TIMERS"
    "bit (inte (ap_timer p)) (hardware_alarm_num p)"
    using D(1) by (simp_all add: ap_base_def)
  obtain now t k where g: "get_absolute_time (ap_timer p) = Some (now, t)" and lt: "later (ap_timer p) t"
    and vn: "valid_time now" and uk: "us_since_boot now = raw_time (ap_timer p) k" "k < accesses t"
    and ka: "accesses (ap_timer p) \<le> k"
    using get_absolute_time_eq [OF tk(1)] by metis
  let ?p1 = "p\<lparr>ap_timer := t\<rparr>"
  have r1: "ap_rel ?p1 A fl st H" by (rule ap_rel_timer [OF r lt])
  obtain tr where tr: "ph_rel (entry_us p) (heap p) tr fl st" and trA: "set_tree tr = A"
    using D(2) by (auto simp: ph_abs_def)
  show ?thesis
  proof (cases "A = {}")
    case True
    with tr trA ph_rel_root [OF tr] have "ph_peek_head (heap p) = 0"
      by (cases tr) (auto simp: ph_peek_head_def)
    with g r1 lt True show ?thesis
      by (intro exI [of _ None] exI [of _ False] exI [of _ ?p1]) (simp add: alarm_pick_def)
  next
    case False
    let ?x = "ph_peek_head (heap p)"
    let ?e = "entries p ! (?x - 1)"
    from False ph_peek_head_rel [OF tr] trA have xA: "?x \<in> A"
      and least: "\<And>j. j \<in> A \<Longrightarrow> entry_us p ?x \<le> entry_us p j" by auto
    have A: "A \<subseteq> {1..length (entries p)}" using D(3) by blast
    have x: "?x \<noteq> 0" "?x \<le> length (entries p)" using xA A by auto
    have ge: "get_entry ?p1 ?x = Some ?e" using x ap_max [OF r] by (simp add: get_entry_def)
    have eo: "entry_ok ?e" by (rule D(6) [OF xA])
    then have vt: "valid_time (target ?e)" "callback ?e \<noteq> 0" by (simp_all add: entry_ok_def)
    show ?thesis
    proof (cases "absolute_time_diff_us now (target ?e) \<le> 0")
      case False
      from lt tk have tk': "time_ok t" "bit (inte t) (hardware_alarm_num p)" by (simp_all add: later_def)
      from set_target_later [OF tk'(1) tk(2) tk'(2), of "target ?e"] obtain m t'
        where m: "hardware_alarm_set_target t (hardware_alarm_num p) (target ?e) = Some (m, t')"
          "later t t'" by metis
      have lt': "later (ap_timer p) t'" by (rule later_trans [OF lt m(2)])
      have "raw_time (ap_timer p) (accesses (ap_timer p)) \<le> us_since_boot now"
        using tk(1) ka uk(1) steadyD [of "ap_timer p" "accesses (ap_timer p)" k]
        by (simp add: time_ok_def timer_ok_def)
      moreover have "us_since_boot now < us_since_boot (target ?e)"
        using False absolute_time_diff_us_le [OF vn vt(1)]
        by (simp add: less_eq_absolute_time_def not_le)
      ultimately have "raw_time (ap_timer p) (accesses (ap_timer p)) < us_since_boot (target ?e)"
        by (rule order_le_less_trans)
      with xA have ex: "\<exists>i \<in> A. raw_time (ap_timer p) (accesses (ap_timer p))
          < us_since_boot (target (entries p ! (i - 1)))" by blast
      with lt' ap_rel_timer [OF r lt'] g x ge False m(1) show ?thesis
        by (intro exI [of _ None] exI [of _ m] exI [of _ "p\<lparr>ap_timer := t'\<rparr>"])
          (simp add: alarm_pick_def)
    next
      case True
      have "set_tree tr \<noteq> {}" using xA trA by auto
      from ph_remove_head_rel [OF tr this, of False] trA ph_rel_root [OF tr] obtain h
        where h: "ph_remove_head (timer_pool_entry_comparator ?p1) (heap p) False = Some (?x, h)"
          and a: "ph_abs (entry_us p) h (length (entries p)) (A - {?x}, fl, st)"
        unfolding comparator_eq using ph_abs_max [OF D(2)]
        by (auto simp: ph_peek_head_def intro: ph_absI)
      let ?hi = "entry_ids_high p ! (?x - 1)"
      let ?f = "\<lparr>f_id = ?x, f_id_high = ?hi, f_target = target ?e, f_callback = callback ?e,
        f_user_data = user_data ?e\<rparr>"
      let ?p' = "?p1\<lparr>heap := h, alarm_in_progress := make_public_id ?hi ?x\<rparr>"
      have gh: "get_entry_id_high (?p1\<lparr>heap := h\<rparr>) ?x = Some ?hi"
        using x D(1) ph_abs_max [OF a] by (simp add: get_entry_id_high_def ap_base_def)
      have "alarm_pick p = Some (Some ?f, False, ?p')"
        using g x ge True h vt(2) gh by (simp add: alarm_pick_def Let_def)
      moreover have "ap_rel ?p' (A - {?x}) fl st (insert ?x H)"
        by (intro ap_rel_progress ap_rel_heap [OF r1]) (use a D(3,4,5) xA in auto)
      moreover have "picked p A ?f ?p'"
        unfolding picked_def
      proof (intro conjI ballI)
        show "f_target ?f \<le> target (entries p ! (j - 1))" if "j \<in> A" for j
        proof -
          from that A have "j \<noteq> 0" "j \<le> length (entries p)" by auto
          with least [OF that] x ap_max [OF r] show ?thesis
            by (simp add: entry_us_eq less_eq_absolute_time_def to_us_since_boot_def)
        qed
        have "target ?e \<le> now" using True vn vt(1) by (simp add: absolute_time_diff_us_le)
        then have "us_since_boot (target ?e) \<le> raw_time (ap_timer p) k"
          by (simp add: less_eq_absolute_time_def uk)
        also have "\<dots> \<le> raw_time (ap_timer p) (accesses (ap_timer ?p') - 1)"
          using tk(1) uk(2) by (intro steadyD) (simp_all add: time_ok_def timer_ok_def)
        finally show "us_since_boot (f_target ?f) \<le> \<dots>" by simp
      qed (use xA in simp_all)
      ultimately show ?thesis using lt
        by (intro exI [of _ "Some ?f"] exI [of _ False] exI [of _ ?p']) simp
    qed
  qed
qed

text \<open>The repeated target is representable: the asserts of \<open>update\_us\_since\_boot\<close> hold.\<close>

definition repeat_ok :: "alarm_pool \<Rightarrow> fired \<Rightarrow> int \<Rightarrow> bool" where
  "repeat_ok p f repeat \<longleftrightarrow> (repeat < 0 \<longrightarrow> uint (us_since_boot (f_target f)) - repeat < 2 ^ 63)
     \<and> (repeat > 0 \<longrightarrow> (\<forall>k. uint (raw_time (ap_timer p) k) + repeat < 2 ^ 63))"

lemma delayed_by_repeat:
  assumes "0 < d" and "uint (us_since_boot t) + d < 2 ^ 63"
  obtains t' where "delayed_by_us t (word_of_int d) = Some t'" "valid_time t'"
    "uint (us_since_boot t') = uint (us_since_boot t) + d"
proof -
  have "0 \<le> uint (us_since_boot t)" by simp
  with assms have "d < 2 ^ 63" by linarith
  with assms(1) have "0 \<le> d" "d < 2 ^ 64" by simp_all
  then have u: "uint (word_of_int d :: u64) = d"
    by (simp add: unsigned_of_int take_bit_int_eq_self)
  with assms have "delayed_by_us t (word_of_int d) = Some (Absolute_time (us_since_boot t + word_of_int d))"
    by (intro delayed_by_us_in_range) simp
  note S = this delayed_by_us_Some(1,2) [OF this]
  show thesis by (rule that [OF S(1,2)]) (simp only: S(3) u)
qed

lemma alarm_finish_rel:
  assumes r: "ap_rel p A fl st (insert (f_id f) H)" and nH: "f_id f \<notin> H"
    and prog: "alarm_in_progress p = 0 \<or> alarm_in_progress p = make_public_id (f_id_high f) (f_id f)"
    and f: "f_callback f \<noteq> 0" "valid_time (f_target f)"
    and rp: "repeat_ok p f repeat \<or> alarm_finish p f repeat \<noteq> None"
  shows "\<exists>p'. alarm_finish p f repeat = Some p' \<and> alarm_in_progress p' = 0
    \<and> later (ap_timer p) (ap_timer p') \<and> length (entries p') = length (entries p)
    \<and> (if repeat \<noteq> 0 \<and> alarm_in_progress p \<noteq> 0
        then ap_rel p' (insert (f_id f) A) fl st H \<and> entry_ids_high p' = entry_ids_high p
        else ap_rel p' A (fl @ [f_id f]) (st \<or> fl = []) H \<and> entry_ids_high p'
          = (entry_ids_high p)[f_id f - 1 := entry_ids_high p ! (f_id f - 1) + 1])"
proof -
  note D = ap_relD [OF r]
  have tk: "time_ok (ap_timer p)" using D(1) by (simp add: ap_base_def)
  consider (neg) "repeat < 0" "alarm_in_progress p \<noteq> 0" | (pos) "repeat > 0" "alarm_in_progress p \<noteq> 0"
    | (stop) "repeat = 0 \<or> alarm_in_progress p = 0" by linarith
  then show ?thesis
  proof cases
    case neg
    obtain t where t: "delayed_by_us (f_target f) (word_of_int (- repeat)) = Some t" "valid_time t"
    proof (cases "repeat_ok p f repeat")
      case True
      with neg have "0 < - repeat" "uint (us_since_boot (f_target f)) + - repeat < 2 ^ 63"
        by (simp_all add: repeat_ok_def)
      then show thesis by (rule delayed_by_repeat) (rule that)
    next
      case False
      with rp neg obtain t where d: "delayed_by_us (f_target f) (word_of_int (- repeat)) = Some t"
        by (auto simp: alarm_finish_def split: bind_splits)
      show thesis by (rule that [OF d delayed_by_us_Some(1) [OF d]])
    qed
    from add_alarm_reuse_rel [OF r nH f(1) t(2)] obtain m p'
      where a: "add_alarm_under_lock p t (f_callback f) (f_user_data f) (f_id f) True = Some (f_id f, m, p')"
        "added p t (f_callback f) (f_user_data f) (f_id f) m p'" "ap_rel p' (insert (f_id f) A) fl st H"
      by blast
    with neg prog t(1) show ?thesis
      by (intro exI [of _ "p'\<lparr>alarm_in_progress := 0\<rparr>"])
        (auto simp: alarm_finish_def added_def ap_rel_progress)
  next
    case pos
    obtain now tm k where g: "get_absolute_time (ap_timer p) = Some (now, tm)" "later (ap_timer p) tm"
      and k: "us_since_boot now = raw_time (ap_timer p) k"
      using get_absolute_time_eq [OF tk] by metis
    obtain t where t: "delayed_by_us now (word_of_int repeat) = Some t" "valid_time t"
    proof (cases "repeat_ok p f repeat")
      case True
      with pos have "uint (us_since_boot now) + repeat < 2 ^ 63" by (simp add: repeat_ok_def k)
      with pos(1) show thesis by (rule delayed_by_repeat) (rule that)
    next
      case False
      with rp pos g(1) obtain t where d: "delayed_by_us now (word_of_int repeat) = Some t"
        by (auto simp: alarm_finish_def split: bind_splits)
      show thesis by (rule that [OF d delayed_by_us_Some(1) [OF d]])
    qed
    let ?p = "p\<lparr>ap_timer := tm\<rparr>"
    from add_alarm_reuse_rel [OF ap_rel_timer [OF r g(2)] nH f(1) t(2)] obtain m p'
      where a: "add_alarm_under_lock ?p t (f_callback f) (f_user_data f) (f_id f) True = Some (f_id f, m, p')"
        "added ?p t (f_callback f) (f_user_data f) (f_id f) m p'" "ap_rel p' (insert (f_id f) A) fl st H"
      by blast
    from a(2) g(2) have "later (ap_timer p) (ap_timer p')" by (auto simp: added_def intro: later_trans)
    with a pos prog t(1) g(1) show ?thesis
      by (intro exI [of _ "p'\<lparr>alarm_in_progress := 0\<rparr>"])
        (auto simp: alarm_finish_def added_def ap_rel_progress)
  next
    case stop
    let ?n = "length (entries p)"
    have "f_id f \<in> {1..?n}" unfolding D(3) [symmetric] by simp
    with D(5) have id: "f_id f \<noteq> 0" "f_id f \<le> ?n" "f_id f \<in> {1..?n} - A - set fl" by auto
    then have "ph_allowed ?n (A, fl, st) (Call_free (f_id f))" by simp
    from phq.step [OF D(2) this] obtain h where h: "ph_free_node (heap p) (f_id f) = Some h"
      and a: "ph_abs (entry_us p) h ?n (A, fl @ [f_id f], st \<or> fl = [])"
      by (auto split: bind_splits)
    have r1: "ap_rel (p\<lparr>heap := h\<rparr>) A (fl @ [f_id f]) (st \<or> fl = []) H"
      by (rule ap_rel_heap [OF r a]) (use D(3,4,5) id nH in auto)
    let ?hi = "entry_ids_high p ! (f_id f - 1)"
    let ?hs = "(entry_ids_high p)[f_id f - 1 := ?hi + 1]"
    have len: "length (entry_ids_high p) = ?n" using D(1) by (simp add: ap_base_def)
    have "get_entry_id_high (p\<lparr>heap := h\<rparr>) (f_id f) = Some ?hi"
      using id len ph_abs_max [OF a] by (simp add: get_entry_id_high_def)
    with stop h id len have "alarm_finish p f repeat
        = Some (p\<lparr>heap := h, entry_ids_high := ?hs, alarm_in_progress := 0\<rparr>)"
      by (auto simp: alarm_finish_def)
    moreover have "ap_rel (p\<lparr>heap := h, entry_ids_high := ?hs, alarm_in_progress := 0\<rparr>)
        A (fl @ [f_id f]) (st \<or> fl = []) H"
      by (intro ap_rel_progress ap_rel_ids [OF r1]) simp
    ultimately show ?thesis using stop later_refl [OF tk]
      by (intro exI [of _ "p\<lparr>heap := h, entry_ids_high := ?hs, alarm_in_progress := 0\<rparr>"]) auto
  qed
qed

section \<open>Cancelling\<close>

lemma low_byte_public_id: "nid < 2 ^ 8 \<Longrightarrow> unat (ucast (make_public_id h nid) :: u8) = nid"
proof -
  assume n: "nid < 2 ^ 8"
  have "(ucast (make_public_id h nid) :: u8) = of_nat nid"
    by (rule bit_word_eqI) (auto simp: make_public_id_def bit_simps)
  with n show ?thesis by (simp add: unat_of_nat take_bit_eq_mod)
qed

lemma public_id_nonzero: "0 < nid \<Longrightarrow> nid < 2 ^ 8 \<Longrightarrow> make_public_id h nid \<noteq> 0"
  using low_byte_public_id [of nid h] by auto

text \<open>The alarm in progress is one the handler holds.\<close>

definition prog_ok :: "alarm_pool \<Rightarrow> nat set \<Rightarrow> bool" where
  "prog_ok p H \<longleftrightarrow> alarm_in_progress p = 0 \<or> unat (ucast (alarm_in_progress p) :: u8) \<in> H"

lemma alarm_pool_cancel_alarm_rel:
  assumes r: "ap_rel p A fl st H" and pr: "prog_ok p H"
    and nid: "nid = unat (ucast aid :: u8)" "nid \<in> {1..length (entries p)}"
  shows "if nid \<in> A \<and> ucast (drop_bit 8 aid) = entry_ids_high p ! (nid - 1)
    then \<exists>h. alarm_pool_cancel_alarm p aid = Some (True, p\<lparr>heap := h\<rparr>)
      \<and> ap_rel (p\<lparr>heap := h\<rparr>) (A - {nid}) (fl @ [nid]) (st \<or> fl = []) H
    else alarm_pool_cancel_alarm p aid = Some (False,
      if nid \<notin> A \<and> aid = alarm_in_progress p then p\<lparr>alarm_in_progress := 0\<rparr> else p)"
proof -
  note D = ap_relD [OF r]
  let ?n = "length (entries p)"
  from nid(2) have "ph_allowed ?n (A, fl, st) (Call_contains nid)" by simp
  from phq.step [OF D(2) this] have ct: "ph_contains_node (heap p) nid = Some (nid \<in> A)"
    by (cases "ph_contains_node (heap p) nid") (auto simp: of_bool_def split: if_splits)
  have gh: "get_entry_id_high p nid = Some (entry_ids_high p ! (nid - 1))"
    using nid(2) ap_max [OF r] D(1) by (auto simp: get_entry_id_high_def ap_base_def)
  show ?thesis
  proof (cases "nid \<in> A")
    case False
    with ct nid(1) show ?thesis by (auto simp: alarm_pool_cancel_alarm_def)
  next
    case True
    have ne: "aid \<noteq> alarm_in_progress p"
    proof
      assume e: "aid = alarm_in_progress p"
      from nid have "aid \<noteq> 0" by auto
      with pr e nid(1) have "nid \<in> H" by (simp add: prog_ok_def)
      with D(5) True show False by auto
    qed
    show ?thesis
    proof (cases "ucast (drop_bit 8 aid) = entry_ids_high p ! (nid - 1)")
      case False
      with True ct gh ne nid(1) show ?thesis by (simp add: alarm_pool_cancel_alarm_def)
    next
      case hi: True
      from nid(2) have "ph_allowed ?n (A, fl, st) (Call_remove_and_free nid)" by simp
      from phq.step [OF D(2) this] True obtain h
        where h: "ph_remove_and_free_node (timer_pool_entry_comparator p) (heap p) nid = Some (True, h)"
          and a: "ph_abs (entry_us p) h ?n (A - {nid}, fl @ [nid], st \<or> fl = [])"
        unfolding comparator_eq by (auto split: bind_splits simp: of_bool_def split: if_splits)
      have "ap_rel (p\<lparr>heap := h\<rparr>) (A - {nid}) (fl @ [nid]) (st \<or> fl = []) H"
        by (rule ap_rel_heap [OF r a]) (use D(3,4,5) True in auto)
      moreover have "alarm_pool_cancel_alarm p aid = Some (True, p\<lparr>heap := h\<rparr>)"
        using True hi ct gh ne nid(1) h by (simp add: alarm_pool_cancel_alarm_def)
      ultimately show ?thesis using True hi by auto
    qed
  qed
qed

section \<open>Any interleaving of calls and interrupts\<close>

text \<open>
  The pool with the handler's local state. Adds and cancels come from either core at any
  time, also between \<open>alarm\_pick\<close> and \<open>alarm\_finish\<close> (from the callback or the other core),
  and the callback returns any interval.
\<close>

type_synonym pool_state = "alarm_pool \<times> fired option"

inductive pool_step :: "pool_state \<Rightarrow> pool_state \<Rightarrow> bool" where
  step_add: "cb \<noteq> 0 \<Longrightarrow> valid_time time \<Longrightarrow>
    add_alarm_round p time cb ud missed = Some (nid, hi, m, p') \<Longrightarrow> pool_step (p, h) (p', h)"
| step_cancel: "unat (ucast aid :: u8) \<in> {1..length (entries p)} \<Longrightarrow>
    alarm_pool_cancel_alarm p aid = Some (rc, p') \<Longrightarrow> pool_step (p, h) (p', h)"
| step_pick: "alarm_pick p = Some (fo, again, p') \<Longrightarrow> pool_step (p, None) (p', fo)"
| step_finish: "alarm_finish p f repeat = Some p' \<Longrightarrow> pool_step (p, Some f) (p', None)"

inductive_cases pool_stepE: "pool_step s s'"

definition held :: "fired option \<Rightarrow> nat set" where
  "held h = (case h of None \<Rightarrow> {} | Some f \<Rightarrow> {f_id f})"

lemma held_simps [simp]: "held None = {}" "held (Some f) = {f_id f}"
  by (simp_all add: held_def)

definition handler_ok :: "pool_state \<Rightarrow> bool" where
  "handler_ok s = (case s of (p, None) \<Rightarrow> alarm_in_progress p = 0
     | (p, Some f) \<Rightarrow> f_callback f \<noteq> 0 \<and> valid_time (f_target f)
         \<and> alarm_in_progress p \<in> {0, make_public_id (f_id_high f) (f_id f)})"

definition pool_inv :: "nat \<Rightarrow> pool_state \<Rightarrow> bool" where
  "pool_inv n s \<longleftrightarrow> (\<exists>A fl st. ap_rel (fst s) A fl st (held (snd s))) \<and> handler_ok s
     \<and> length (entries (fst s)) = n"

lemma handler_prog_ok:
  assumes "ap_rel p A fl st (held h)" and "handler_ok (p, h)"
  shows "prog_ok p (held h)"
proof (cases h)
  case None
  with assms show ?thesis by (simp add: prog_ok_def handler_ok_def)
next
  case (Some f)
  have "f_id f \<in> {1..length (entries p)}" using ap_relD(3) [OF assms(1)] Some by auto
  moreover have "length (entries p) < 2 ^ 8" using ap_relD(1) [OF assms(1)] by (simp add: ap_base_def)
  ultimately have "f_id f < 2 ^ 8" by auto
  with Some assms(2) low_byte_public_id [of "f_id f" "f_id_high f"] show ?thesis
    by (auto simp: prog_ok_def handler_ok_def)
qed

lemma add_alarm_round_rel:
  assumes r: "ap_rel p A fl st H" and cb: "cb \<noteq> 0" and v: "valid_time time"
  shows "\<exists>nid hi m p' A' fl' st'. add_alarm_round p time cb ud missed = Some (nid, hi, m, p')
    \<and> ap_rel p' A' fl' st' H \<and> alarm_in_progress p' = alarm_in_progress p
    \<and> length (entries p') = length (entries p)"
proof (cases "st \<or> fl = []")
  case True
  from add_alarm_full_rel [OF r True, of time cb ud False] r show ?thesis
    by (auto simp: add_alarm_round_def)
next
  case False
  then obtain nid xs where fl: "fl = nid # xs" "\<not> st" by (cases fl) auto
  from r fl have r': "ap_rel p A (nid # xs) False H" by simp
  from add_alarm_new_rel [OF r' cb v, of ud False] obtain m p'
    where a: "add_alarm_under_lock p time cb ud 0 False = Some (nid, m, p')" "nid \<noteq> 0"
      "added p time cb ud nid m p'"
      and c: "if m = Some True then ap_rel p' A (xs @ [nid]) (xs = []) H
        else ap_rel p' (insert nid A) xs False H" by auto
  have n: "nid \<in> {1..length (entries p)}" using ap_relD(3) [OF r'] by auto
  from c obtain A' fl' st' where r2: "ap_rel p' A' fl' st' H" by (meson)
  have len: "length (entries p') = length (entries p)" "length (entry_ids_high p') = length (entries p)"
    using a(3) ap_relD(1) [OF r] by (simp_all add: added_def ap_base_def)
  have "get_entry_id_high p' nid = Some (entry_ids_high p' ! (nid - 1))"
    using n len ap_max [OF r2] by (auto simp: get_entry_id_high_def)
  with a have "\<exists>hi mm. add_alarm_round p time cb ud missed = Some (nid, hi, mm, p')"
    by (simp add: add_alarm_round_def)
  moreover have "alarm_in_progress p' = alarm_in_progress p" using a(3) by (simp add: added_def)
  ultimately show ?thesis using r2 len(1) by blast
qed

lemma pool_inv_step:
  assumes "pool_inv n s" and "pool_step s s'"
  shows "pool_inv n s'"
proof -
  obtain p h where s: "s = (p, h)" by (cases s)
  with assms(1) obtain A fl st where r: "ap_rel p A fl st (held h)" and ok: "handler_ok (p, h)"
    and n: "length (entries p) = n" by (auto simp: pool_inv_def)
  from assms(2) [unfolded s] show ?thesis
  proof (cases rule: pool_step.cases)
    case (step_add cb time ud missed nid hi m p')
    from add_alarm_round_rel [OF r step_add(2,3), of ud missed] step_add(4)
    obtain A' fl' st' where "ap_rel p' A' fl' st' (held h)" "alarm_in_progress p' = alarm_in_progress p"
      "length (entries p') = length (entries p)" by auto
    with step_add(1) ok n show ?thesis
      by (auto simp: pool_inv_def handler_ok_def split: option.splits)
  next
    case (step_cancel aid rc p')
    let ?nid = "unat (ucast aid :: u8)"
    from alarm_pool_cancel_alarm_rel [OF r handler_prog_ok [OF r ok] refl step_cancel(2)] step_cancel(3)
    have "(\<exists>h'. p' = p\<lparr>heap := h'\<rparr> \<and> ap_rel p' (A - {?nid}) (fl @ [?nid]) (st \<or> fl = []) (held h))
        \<or> p' = p \<or> p' = p\<lparr>alarm_in_progress := 0\<rparr>"
      by (auto split: if_splits)
    with r ok n step_cancel(1) ap_rel_progress [OF r, of 0] show ?thesis
      by (auto simp: pool_inv_def handler_ok_def split: option.splits)
  next
    case (step_pick fo again p')
    from r step_pick(1) have r0: "ap_rel p A fl st {}" by simp
    from alarm_pick_rel [OF r0] step_pick(3)
    have e: "entries p' = entries p" and c: "case fo of
        Some f \<Rightarrow> picked p A f p' \<and> ap_rel p' (A - {f_id f}) fl st (insert (f_id f) {})
      | None \<Rightarrow> ap_rel p' A fl st {} \<and> alarm_in_progress p' = alarm_in_progress p"
      by (auto split: option.splits)
    show ?thesis
    proof (cases fo)
      case None
      with c e n ok step_pick show ?thesis
        by (auto simp: pool_inv_def handler_ok_def)
    next
      case (Some f)
      with c have pk: "picked p A f p'" and r': "ap_rel p' (A - {f_id f}) fl st {f_id f}" by auto
      from ap_relD(6) [OF r, of "f_id f"] pk have "f_callback f \<noteq> 0" "valid_time (f_target f)"
        by (auto simp: picked_def entry_ok_def)
      with Some pk r' e n step_pick(2) show ?thesis
        by (auto simp: pool_inv_def handler_ok_def picked_def)
    qed
  next
    case (step_finish f repeat p')
    from r step_finish(1) have r': "ap_rel p A fl st (insert (f_id f) {})" by simp
    from ok step_finish(1) have f: "f_callback f \<noteq> 0" "valid_time (f_target f)"
      and pr: "alarm_in_progress p = 0 \<or> alarm_in_progress p = make_public_id (f_id_high f) (f_id f)"
      by (auto simp: handler_ok_def)
    from alarm_finish_rel [OF r' _ pr f, of repeat] step_finish(3)
    have "alarm_in_progress p' = 0" "length (entries p') = length (entries p)"
      "\<exists>A' fl' st'. ap_rel p' A' fl' st' {}"
      by (auto split: if_splits)
    with step_finish(2) n show ?thesis by (auto simp: pool_inv_def handler_ok_def)
  qed
qed

lemma pool_inv_reachable: "pool_step\<^sup>*\<^sup>* s s' \<Longrightarrow> pool_inv n s \<Longrightarrow> pool_inv n s'"
  by (induction rule: rtranclp_induct) (auto intro: pool_inv_step)

end
