(* ===== verification/Alarm_Pool_Props.thy ===== *)
theory Alarm_Pool_Props
  imports Alarm_Pool_Correct
begin

text \<open>
  The properties of alarm pools: the invariant of every reachable state, the choice of the
  handler, cancelling, and two places where the code does not do what it means to.
\<close>

section \<open>A pool on a freshly booted chip\<close>

definition boot_timer :: "(nat \<Rightarrow> u64) \<Rightarrow> timer_state" where
  "boot_timer rt = timer_boot rt (irq_boot 0x20000000 0x10000001) 0x10000101"

text \<open>The number that stands for \<open>alarm\_pool\_alarm\_callback\<close> as a timer callback.\<close>

definition pool_handler :: nat where "pool_handler = 1"

lemma boot_set_callback:
  assumes a: "a < NUM_TIMERS" and ok: "timer_ok t"
    and irq: "timer_irq t = irq_boot 0x20000000 0x10000001" "alarm_irq_handler t = 0x10000101"
  shows "\<exists>t'. hardware_alarm_set_callback t a pool_handler = Some t' \<and> raw_time t' = raw_time t
    \<and> timer_ok t' \<and> bit (inte t') a"
proof -
  have a4: "a < 4" using a by (simp add: NUM_TIMERS_def)
  have v: "irq_get_vtable_handler (irq_boot 0x20000000 0x10000001) a = Some 0x10000001"
    using a4 by (simp add: irq_get_vtable_handler_def check_irq_param_def NUM_IRQS_def irq_boot_def
        del: replicate.simps)
  have x: "\<exists>i. irq_set_exclusive_handler (irq_boot 0x20000000 0x10000001) a 0x10000101 = Some i"
    using a4 v by (simp add: irq_set_exclusive_handler_def check_irq_param_def NUM_IRQS_def
        set_raw_irq_handler_and_unlock_def irq_boot_def)
  then obtain i where i: "irq_set_exclusive_handler (irq_boot 0x20000000 0x10000001) a 0x10000101 = Some i"
    by blast
  obtain i2 where i2: "irq_set_enabled i a True = Some i2"
    using a4 by (auto simp: irq_set_enabled_def check_irq_param_def NUM_IRQS_def)
  have "length (alarm_callbacks t) = 4" using ok by (simp add: timer_ok_def NUM_TIMERS_def)
  then have "hardware_alarm_set_callback t a pool_handler = Some ((timer_access t)\<lparr>timer_irq := i2,
      inte := inte t OR alarm_bit a, alarm_callbacks := (alarm_callbacks t)[a := pool_handler]\<rparr>)"
    using a4 v i i2 irq
    by (simp add: hardware_alarm_set_callback_def check_hardware_alarm_num_param_def NUM_TIMERS_def
        hardware_alarm_irq_number_def TIMER_IRQ_0_def pool_handler_def)
  moreover have "bit (alarm_bit a) a" using a4 by simp
  ultimately show ?thesis using ok
    by (simp add: timer_ok_def steady_def bit_simps)
qed

lemma hardware_alarm_cancel_eq:
  assumes "a < NUM_TIMERS" and "timer_ok t"
  obtains t' where "hardware_alarm_cancel t a = Some t'" "timer_ok t'" "raw_time t' = raw_time t"
    "timer_irq t' = timer_irq t" "alarm_irq_handler t' = alarm_irq_handler t"
  using assms by (simp add: hardware_alarm_cancel_def check_hardware_alarm_num_param_def write_armed_def
      Let_def timer_ok_def steady_def)

lemma alarm_pool_create_rel:
  assumes rt: "mono rt" "\<And>k. rt k \<le> INT64_MAX" and a: "a < NUM_TIMERS" and n: "0 < n" "n < 2 ^ 8"
  shows "\<exists>p. alarm_pool_create pool_handler (boot_timer rt) a n = Some p
    \<and> ap_rel p {} [1..<Suc n] False {} \<and> alarm_in_progress p = 0 \<and> length (entries p) = n
    \<and> raw_time (ap_timer p) = rt \<and> entry_ids_high p = replicate n 0"
proof -
  obtain hp where hp: "ph_create n = Some hp"
    and abs: "ph_abs (\<lambda>i. entry_us (undefined :: alarm_pool) i) hp n ({}, [1..<Suc n], False)"
    using ph_create_abs [OF n] by blast
  let ?t = "boot_timer rt"
  have ok: "timer_ok ?t" using rt(1)
    by (simp add: timer_ok_def steady_def boot_timer_def timer_boot_def NUM_TIMERS_def)
  have a4: "a < 4" using a by (simp add: NUM_TIMERS_def)
  have "a \<notin> claimed_set (alarms_claimed ?t)"
    by (simp add: boot_timer_def timer_boot_def claimed_set_def)
  moreover have "a < 8 * length (alarms_claimed ?t)"
    using a4 by (simp add: boot_timer_def timer_boot_def)
  ultimately obtain b where "hw_claim_or_assert (alarms_claimed ?t) a = Some b"
    using hw_claim_or_assert_free by blast
  then have c: "hardware_alarm_claim ?t a = Some (?t\<lparr>alarms_claimed := b\<rparr>)"
    using a by (simp add: hardware_alarm_claim_def check_hardware_alarm_num_param_def)
  let ?c = "?t\<lparr>alarms_claimed := b\<rparr>"
  have okc: "timer_ok ?c" using ok by (simp add: timer_ok_def steady_def)
  obtain t2 where k: "hardware_alarm_cancel ?c a = Some t2" and t2: "timer_ok t2" "raw_time t2 = rt"
      "timer_irq t2 = irq_boot 0x20000000 0x10000001" "alarm_irq_handler t2 = 0x10000101"
    by (rule hardware_alarm_cancel_eq [OF a okc]) (simp add: boot_timer_def timer_boot_def)
  obtain t3 where t3: "hardware_alarm_set_callback t2 a pool_handler = Some t3" "raw_time t3 = rt"
      "timer_ok t3" "bit (inte t3) a"
    using boot_set_callback [OF a t2(1,3,4)] t2(2) by auto
  let ?p = "\<lparr>heap = hp, entries = replicate n zero_entry, entry_ids_high = replicate n 0,
    alarm_in_progress = 0, hardware_alarm_num = a, ap_timer = t3\<rparr>"
  have ua: "unat (of_nat a :: u8) = a" using a4 by (simp add: unat_of_nat take_bit_eq_mod)
  have "alarm_pool_create pool_handler ?t a n = Some ?p"
    using hp c k t3(1) by (simp add: alarm_pool_create_def alarm_pool_post_alloc_init_def ua)
  moreover have "ap_rel ?p {} [1..<Suc n] False {}"
    unfolding ap_rel_def
  proof (intro conjI)
    show "ap_base ?p" using n a t3 rt(2) by (simp add: ap_base_def time_ok_def)
    show "ph_abs (entry_us ?p) (heap ?p) (length (entries ?p)) ({}, [1..<Suc n], False)"
      using ph_abs_cong [OF abs, of "entry_us ?p"] by simp
    show "{} \<union> set [1..<Suc n] \<union> {} = {1..length (entries ?p)}" by auto
  qed simp_all
  ultimately show ?thesis using t3(2) by (intro exI [of _ ?p]) simp
qed

section \<open>The invariant\<close>

lemma ap_rel_contains:
  assumes r: "ap_rel p A fl st H" and i: "i \<in> {1..length (entries p)}"
  shows "ph_contains_node (heap p) i = Some (i \<in> A)"
proof -
  have "ph_allowed (length (entries p)) (A, fl, st) (Call_contains i)" using i by simp
  from phq.step [OF ap_relD(2) [OF r] this] show ?thesis
    by (cases "ph_contains_node (heap p) i") (auto simp: of_bool_def split: if_splits)
qed

text \<open>The ids \<open>ph\_new\_node\<close> will hand out: the list that starts at \<open>free\_head\_id\<close>.\<close>

primrec walk_free :: "nat \<Rightarrow> pheap \<Rightarrow> nat \<Rightarrow> nat list" where
  "walk_free 0 h i = []"
| "walk_free (Suc k) h i = (if i = 0 then [] else
     case ph_get_node h i of None \<Rightarrow> [] | Some node \<Rightarrow> i # walk_free k h (sibling node))"

definition ph_free_list :: "pheap \<Rightarrow> nat list" where
  "ph_free_list h = walk_free (max_nodes h) h (free_head_id h)"

lemma walk_free_chain:
  "chain (nd h) i fl \<Longrightarrow> wf_nodes h \<Longrightarrow> set fl \<subseteq> {1..max_nodes h} \<Longrightarrow> length fl \<le> k \<Longrightarrow>
     walk_free k h i = fl"
proof (induction fl arbitrary: i k)
  case Nil
  then show ?case by (cases k) auto
next
  case (Cons x xs)
  then obtain k' where "k = Suc k'" by (cases k) auto
  with Cons show ?case by simp
qed

lemma ph_free_list_rel:
  assumes r: "ph_rel key h t fl st"
  shows "ph_free_list h = (if st then [] else fl)"
proof (cases st)
  case True
  with ph_relD(10) [OF r] have "free_head_id h = 0" by (simp add: free_ok_def)
  with True show ?thesis by (cases "max_nodes h") (simp_all add: ph_free_list_def)
next
  case False
  note D = ph_relD [OF r]
  have "length fl \<le> max_nodes h"
    using card_mono [OF _ D(9)] distinct_card [OF D(6)] by simp
  with False D(1,9,10) show ?thesis
    by (simp add: ph_free_list_def free_ok_def walk_free_chain)
qed

lemma ap_rel_free_list:
  assumes "ap_rel p A fl st H"
  shows "ph_free_list (heap p) = (if st then [] else fl)" "distinct fl"
    "free_head_id (heap p) \<noteq> 0 \<or> free_tail_id (heap p) = 0 \<Longrightarrow> ph_free_list (heap p) = fl"
proof -
  from ap_relD(2) [OF assms] obtain t where r: "ph_rel (entry_us p) (heap p) t fl st"
    by (auto simp: ph_abs_def)
  show 1: "ph_free_list (heap p) = (if st then [] else fl)" by (rule ph_free_list_rel [OF r])
  show "distinct fl" by (rule ph_relD(6) [OF r])
  show "ph_free_list (heap p) = fl" if "free_head_id (heap p) \<noteq> 0 \<or> free_tail_id (heap p) = 0"
    using that 1 ph_relD(10) [OF r] ph_rel_free [OF r, of "last fl"]
    by (cases "fl = []") (auto simp: free_ok_def split: if_splits)
qed

text \<open>The next steps of a pool state: none of them stops at a failing assert.\<close>

definition pool_goes_on :: "nat \<Rightarrow> alarm_pool \<Rightarrow> fired option \<Rightarrow> bool" where
  "pool_goes_on n p h \<longleftrightarrow>
     (\<forall>time cb ud missed. cb \<noteq> 0 \<and> valid_time time \<longrightarrow> add_alarm_round p time cb ud missed \<noteq> None)
     \<and> (\<forall>aid. unat (ucast aid :: u8) \<in> {1..n} \<longrightarrow> alarm_pool_cancel_alarm p aid \<noteq> None)
     \<and> (case h of None \<Rightarrow> alarm_pick p \<noteq> None
        | Some f \<Rightarrow> (\<forall>repeat. repeat_ok p f repeat \<or> alarm_in_progress p = 0 \<longrightarrow>
            alarm_finish p f repeat \<noteq> None))"

lemma pool_inv_goes_on:
  assumes "pool_inv n (p, h)"
  shows "pool_goes_on n p h"
proof -
  from assms obtain A fl st where r: "ap_rel p A fl st (held h)" and ok: "handler_ok (p, h)"
    and n: "length (entries p) = n" by (auto simp: pool_inv_def)
  have "add_alarm_round p time cb ud missed \<noteq> None" if "cb \<noteq> 0" "valid_time time" for time cb ud missed
    using add_alarm_round_rel [OF r that, of ud missed] by auto
  moreover have "alarm_pool_cancel_alarm p aid \<noteq> None" if "unat (ucast aid :: u8) \<in> {1..n}" for aid
    using alarm_pool_cancel_alarm_rel [OF r handler_prog_ok [OF r ok] refl, of aid] that n
    by (auto split: if_splits)
  moreover have "alarm_pick p \<noteq> None" using alarm_pick_rel [OF r] by auto
  moreover have "alarm_finish p f repeat \<noteq> None"
    if h: "h = Some f" and rp: "repeat_ok p f repeat \<or> alarm_in_progress p = 0" for f repeat
  proof -
    from ok h have f: "f_callback f \<noteq> 0" "valid_time (f_target f)"
      "alarm_in_progress p = 0 \<or> alarm_in_progress p = make_public_id (f_id_high f) (f_id f)"
      by (auto simp: handler_ok_def)
    have r': "ap_rel p A fl st (insert (f_id f) {})" using r h by simp
    have "alarm_in_progress p = 0 \<Longrightarrow> alarm_finish p f repeat = alarm_finish p f 0"
      by (simp add: alarm_finish_def)
    with rp alarm_finish_rel [OF r' _ f(3,1,2), of repeat] alarm_finish_rel [OF r' _ f(3,1,2), of 0]
    show ?thesis by (auto simp: repeat_ok_def)
  qed
  ultimately show ?thesis by (auto simp: pool_goes_on_def split: option.split)
qed

text \<open>
  C9. In every state that adding, cancelling and interrupts can reach, in any interleaving,
  from a new pool of \<open>n\<close> timers, the ids in the heap (which \<open>ph\_contains\_node\<close> tells), the
  ids on the pool's own free list (which starts at \<open>free\_head\_id\<close>) and the id the running
  handler holds are different ids of 1..n, and they are all of 1..n: no node leaks. The
  exception is a free list that ran empty and got an id back (\<open>free\_head\_id\<close> 0 with
  \<open>free\_tail\_id\<close> set, see \<open>ph\_new\_node\_after\_exhaustion\<close>). And no next step stops: no
  add or cancel, and no step of the handler whose repeated time can be represented.
\<close>

theorem alarm_pool_ids_accounted:
  assumes "mono rt" and "range rt \<subseteq> {..INT64_MAX}" and "a < NUM_TIMERS" and "0 < n" and "n < 2 ^ 8"
    and "alarm_pool_create pool_handler (boot_timer rt) a n = Some p0"
    and "pool_step\<^sup>*\<^sup>* (p0, None) (p, h)"
  defines "inside \<equiv> {i \<in> {1..n}. ph_contains_node (heap p) i = Some True}"
    and "unused \<equiv> ph_free_list (heap p)"
  shows "distinct unused \<and> inside \<inter> set unused = {} \<and> held h \<inter> (inside \<union> set unused) = {}
    \<and> inside \<union> set unused \<union> held h \<subseteq> {1..n}
    \<and> (free_head_id (heap p) \<noteq> 0 \<or> free_tail_id (heap p) = 0 \<longrightarrow> inside \<union> set unused \<union> held h = {1..n})
    \<and> pool_goes_on n p h"
proof -
  from assms(2) have "\<And>k. rt k \<le> INT64_MAX" by auto
  from alarm_pool_create_rel [OF assms(1) this assms(3-5)] assms(6)
  have "pool_inv n (p0, None)" by (auto simp: pool_inv_def handler_ok_def)
  from pool_inv_reachable [OF assms(7) this] have inv: "pool_inv n (p, h)" .
  then obtain A fl st where r: "ap_rel p A fl st (held h)" and n: "length (entries p) = n"
    by (auto simp: pool_inv_def)
  note D = ap_relD [OF r] and F = ap_rel_free_list [OF r]
  have "A \<subseteq> {1..n}" using D(3) n by blast
  with ap_rel_contains [OF r] n have "inside = A" by (auto simp: inside_def)
  moreover have "set unused \<subseteq> set fl" "distinct unused" using F(1,2) by (auto simp: unused_def)
  ultimately show ?thesis using D(3-5) n F(3) pool_inv_goes_on [OF inv] by (auto simp: unused_def)
qed

definition slow_clock :: "nat \<Rightarrow> u64" where "slow_clock n = (if n < 40 then 1000 else 2000)"

lemma slow_clock: "mono slow_clock" "range slow_clock \<subseteq> {..INT64_MAX}" "slow_clock n \<le> INT64_MAX"
  "1000 \<le> slow_clock n" "slow_clock n \<le> 2000"
proof -
  show "mono slow_clock" by (rule monoI) (simp add: slow_clock_def)
  show "range slow_clock \<subseteq> {..INT64_MAX}" by (auto simp: slow_clock_def INT64_MAX_def)
qed (simp_all add: slow_clock_def INT64_MAX_def)

lemma slow_pool:
  obtains p where "alarm_pool_create pool_handler (boot_timer slow_clock) 3 4 = Some p"
    "ap_rel p {} [1, 2, 3, 4] False {}" "raw_time (ap_timer p) = slow_clock" "length (entries p) = 4"
    "alarm_in_progress p = 0" "entry_ids_high p = replicate 4 0"
proof -
  have "\<exists>p. alarm_pool_create pool_handler (boot_timer slow_clock) 3 4 = Some p
      \<and> ap_rel p {} [1..<Suc 4] False {} \<and> alarm_in_progress p = 0 \<and> length (entries p) = 4
      \<and> raw_time (ap_timer p) = slow_clock \<and> entry_ids_high p = replicate 4 0"
    by (rule alarm_pool_create_rel) (use slow_clock in \<open>simp_all add: NUM_TIMERS_def\<close>)
  moreover have "[1..<Suc 4] = [1, 2, 3, 4]" by (simp add: upt_conv_Cons)
  ultimately show thesis using that by auto
qed

lemma round_of_added:
  assumes r: "ap_rel p A fl st H" and a: "add_alarm_under_lock p time cb ud 0 False = Some (nid, m, p')"
    and n: "nid \<in> {1..length (entries p)}" and d: "added p time cb ud nid m p'"
    and mx: "max_nodes (heap p') = length (entries p)"
  shows "add_alarm_round p time cb ud missed
    = Some (nid, entry_ids_high p ! (nid - 1), case m of None \<Rightarrow> missed | Some b \<Rightarrow> b, p')"
proof -
  have "length (entry_ids_high p') = length (entries p)" "entry_ids_high p' = entry_ids_high p"
    using d ap_relD(1) [OF r] by (simp_all add: added_def ap_base_def)
  then have "get_entry_id_high p' nid = Some (entry_ids_high p ! (nid - 1))"
    using n mx by (auto simp: get_entry_id_high_def)
  with a n show ?thesis by (simp add: add_alarm_round_def)
qed

theorem alarm_pool_ids_accounted_witness:
  "\<exists>p0 p m. alarm_pool_create pool_handler (boot_timer slow_clock) 3 4 = Some p0
    \<and> add_alarm_round p0 (Absolute_time 900) 1 0 False = Some m
    \<and> p = snd (snd (snd m)) \<and> free_head_id (heap p) \<noteq> 0
    \<and> {i \<in> {1..4}. ph_contains_node (heap p) i = Some True} \<union> set (ph_free_list (heap p)) = {1..4}
    \<and> pool_goes_on 4 p None"
proof -
  obtain p0 where p0: "alarm_pool_create pool_handler (boot_timer slow_clock) 3 4 = Some p0"
    and r: "ap_rel p0 {} [1, 2, 3, 4] False {}" by (rule slow_pool)
  have v: "valid_time (Absolute_time 900)" by (simp add: valid_time_iff)
  from add_alarm_new_rel [OF r _ v, of 1 0 False] obtain m p
    where a: "add_alarm_under_lock p0 (Absolute_time 900) 1 0 0 False = Some (1, m, p)"
      "added p0 (Absolute_time 900) 1 0 1 m p"
      and c: "if m = Some True then ap_rel p {} ([2, 3, 4] @ [1]) ([2, 3, 4 :: nat] = []) {}
        else ap_rel p {1} [2, 3, 4] False {}" by auto
  from c obtain A fl where r2: "ap_rel p A (2 # fl) False {}" by (cases "m = Some True") auto
  have len: "length (entries p) = length (entries p0)" using a(2) by (simp add: added_def)
  have one: "1 \<in> {1..length (entries p0)}" using ap_relD(3) [OF r] by auto
  obtain hi m' where rd: "add_alarm_round p0 (Absolute_time 900) 1 0 False = Some (1, hi, m', p)"
    using round_of_added [OF r a(1) one a(2)] ap_max [OF r2] len by auto
  have c4: "3 < NUM_TIMERS" "0 < (4 :: nat)" "(4 :: nat) < 2 ^ 8" by (simp_all add: NUM_TIMERS_def)
  have "pool_step\<^sup>*\<^sup>* (p0, None) (p, None)"
    using step_add [OF _ v rd] by (intro r_into_rtranclp) simp
  note W = alarm_pool_ids_accounted [OF slow_clock(1,2) c4 p0 this]
  have "free_head_id (heap p) \<noteq> 0"
    using ap_relD(2) [OF r2] by (auto simp: ph_abs_def free_ok_def dest: ph_relD(10))
  with W p0 rd show ?thesis by (intro exI [of _ p0] exI [of _ p] exI [of _ "(1, hi, m', p)"]) simp
qed

text \<open>
  C3. The interrupt handler takes an alarm whose time has come, and of all alarms of the
  pool one with the earliest target; the alarm leaves the heap and becomes the one in
  progress, under its public id.
\<close>

theorem alarm_pick_earliest:
  assumes "pool_inv n (p, None)" and "alarm_pick p = Some (Some f, again, p')"
  shows "f_id f \<in> {1..n} \<and> ph_contains_node (heap p) (f_id f) = Some True
    \<and> ph_contains_node (heap p') (f_id f) = Some False
    \<and> f_target f = target (entries p ! (f_id f - 1))
    \<and> us_since_boot (f_target f) \<le> raw_time (ap_timer p) (accesses (ap_timer p') - 1)
    \<and> (\<forall>j \<in> {1..n}. ph_contains_node (heap p) j = Some True \<longrightarrow> f_target f \<le> target (entries p ! (j - 1)))
    \<and> alarm_in_progress p' = make_public_id (entry_ids_high p ! (f_id f - 1)) (f_id f)"
proof -
  from assms(1) obtain A fl st where r: "ap_rel p A fl st {}" and n: "length (entries p) = n"
    by (auto simp: pool_inv_def)
  from alarm_pick_rel [OF r] assms(2) have pk: "picked p A f p'"
    and r': "ap_rel p' (A - {f_id f}) fl st (insert (f_id f) {})" and e: "entries p' = entries p"
    by auto
  from pk have fA: "f_id f \<in> A" by (simp add: picked_def)
  then have i: "f_id f \<in> {1..n}" using ap_relD(3) [OF r] n by blast
  with ap_rel_contains [OF r] ap_rel_contains [OF r'] n e fA pk show ?thesis
    by (auto simp: picked_def)
qed

text \<open>One alarm in the pool of four; the clock says 1000 and later 2000.\<close>

lemma one_alarm_pool:
  assumes v: "valid_time t"
  obtains p where "ap_rel p {1} [2, 3, 4] False {}" "alarm_in_progress p = 0" "length (entries p) = 4"
    "raw_time (ap_timer p) = slow_clock" "target (entries p ! 0) = t"
    "entry_ids_high p ! 0 = 0"
proof -
  obtain p where p: "ap_rel p {} [1, 2, 3, 4] False {}" "raw_time (ap_timer p) = slow_clock"
      "length (entries p) = 4" "alarm_in_progress p = 0" "entry_ids_high p = replicate 4 0"
    by (rule slow_pool)
  from add_alarm_new_rel [OF p(1) _ v, of 1 0 True] obtain m p'
    where a: "added p t 1 0 1 m p'" "ap_rel p' {1} [2, 3, 4] False {}" by auto
  from a(1) p(2-5) have "alarm_in_progress p' = 0" "length (entries p') = 4"
    "raw_time (ap_timer p') = slow_clock" "target (entries p' ! 0) = t" "entry_ids_high p' ! 0 = 0"
    by (auto simp: added_def later_def)
  with a(2) show thesis by (rule that)
qed

lemma due_alarm_picked:
  obtains p f again p' where "pool_inv 4 (p, None)" "target (entries p ! 0) = Absolute_time 900"
    "alarm_pick p = Some (Some f, again, p')" "f_id f = 1" "raw_time (ap_timer p') = slow_clock"
    "ap_rel p' {} [2, 3, 4] False {1}"
proof -
  obtain p where p: "ap_rel p {1} [2, 3, 4] False {}" "alarm_in_progress p = 0"
      "length (entries p) = 4" "raw_time (ap_timer p) = slow_clock" "target (entries p ! 0) = Absolute_time 900"
    by (rule one_alarm_pool [of "Absolute_time 900"]) (simp add: valid_time_iff)
  have inv: "pool_inv 4 (p, None)" using p by (auto simp: pool_inv_def handler_ok_def)
  have "(900 :: u64) \<le> slow_clock k" for k using slow_clock(4) [of k] by (rule order_trans [rotated]) simp
  then have "\<not> slow_clock k < 900" for k by (simp add: not_less)
  with alarm_pick_rel [OF p(1)] p(4,5) obtain f again p'
    where f: "alarm_pick p = Some (Some f, again, p')" and pk: "picked p {1} f p'"
      and r: "ap_rel p' ({1} - {f_id f}) [2, 3, 4] False (insert (f_id f) {})"
      and l: "later (ap_timer p) (ap_timer p')"
    by (auto split: option.splits)
  from pk have i: "f_id f = 1" by (simp add: picked_def)
  show thesis by (rule that [OF inv p(5) f i]) (use l r i p(4) in \<open>simp_all add: later_def\<close>)
qed

theorem alarm_pick_earliest_witness:
  "\<exists>p f again p'. alarm_pick p = Some (Some f, again, p') \<and> f_target f = Absolute_time 900
    \<and> ph_contains_node (heap p') 1 = Some False"
proof -
  obtain p f again p' where p: "pool_inv 4 (p, None)" "target (entries p ! 0) = Absolute_time 900"
    "alarm_pick p = Some (Some f, again, p')" "f_id f = 1"
    by (rule due_alarm_picked)
  from alarm_pick_earliest [OF p(1,3)] p show ?thesis by auto
qed

section \<open>Cancelling\<close>

text \<open>
  C14. \<open>alarm\_pool\_cancel\_alarm\<close> returns true exactly when the id's node is in the heap with
  this high byte; then this alarm, and no other, has left the heap. Otherwise the heap is as
  before, and an alarm whose callback is running is marked not to repeat.
\<close>

theorem alarm_pool_cancel_exact:
  assumes "pool_inv n (p, h)" and "unat (ucast aid :: u8) \<in> {1..n}"
  defines "nid \<equiv> unat (ucast aid :: u8)"
  shows "\<exists>rc p'. alarm_pool_cancel_alarm p aid = Some (rc, p')
    \<and> rc = (ph_contains_node (heap p) nid = Some True
           \<and> ucast (drop_bit 8 aid) = entry_ids_high p ! (nid - 1))
    \<and> {i \<in> {1..n}. ph_contains_node (heap p') i = Some True}
        = {i \<in> {1..n}. ph_contains_node (heap p) i = Some True} - (if rc then {nid} else {})
    \<and> (ph_contains_node (heap p) nid = Some False \<and> aid = alarm_in_progress p
        \<longrightarrow> alarm_in_progress p' = 0)"
proof -
  from assms(1) obtain A fl st where r: "ap_rel p A fl st (held h)" and n: "length (entries p) = n"
    and ok: "handler_ok (p, h)" by (auto simp: pool_inv_def)
  have nr: "nid \<in> {1..length (entries p)}" using assms(2) n by (simp add: nid_def)
  have A: "A \<subseteq> {1..n}" using ap_relD(3) [OF r] n by blast
  have set: "{i \<in> {1..n}. ph_contains_node (heap q) i = Some True} = B"
    if "ap_rel q B fl' st' H" "length (entries q) = n" "B \<subseteq> {1..n}" for q B fl' st' H
    using ap_rel_contains [OF that(1)] that(2,3) by auto
  have ct: "ph_contains_node (heap p) nid = Some (nid \<in> A)" by (rule ap_rel_contains [OF r nr])
  note C = alarm_pool_cancel_alarm_rel [OF r handler_prog_ok [OF r ok] nid_def [THEN meta_eq_to_obj_eq] nr]
  show ?thesis
  proof (cases "nid \<in> A \<and> ucast (drop_bit 8 aid) = entry_ids_high p ! (nid - 1)")
    case True
    with C obtain h' where c: "alarm_pool_cancel_alarm p aid = Some (True, p\<lparr>heap := h'\<rparr>)"
      and r': "ap_rel (p\<lparr>heap := h'\<rparr>) (A - {nid}) (fl @ [nid]) (st \<or> fl = []) (held h)" by auto
    from set [OF r'] set [OF r n A] A n True ct c show ?thesis
      by (intro exI [of _ True] exI [of _ "p\<lparr>heap := h'\<rparr>"]) auto
  next
    case False
    with C ct show ?thesis
      by (intro exI [of _ False]) (auto split: if_splits)
  qed
qed

theorem alarm_pool_cancel_exact_witness:
  "\<exists>p p'. alarm_pool_cancel_alarm p 1 = Some (True, p') \<and> ph_contains_node (heap p) 1 = Some True
    \<and> {i \<in> {1..4}. ph_contains_node (heap p') i = Some True}
      = {i \<in> {1..4}. ph_contains_node (heap p) i = Some True} - {1}"
proof -
  obtain p where p: "ap_rel p {1} [2, 3, 4] False {}" "alarm_in_progress p = 0"
      "length (entries p) = 4" "entry_ids_high p ! 0 = 0"
    by (rule one_alarm_pool [of "Absolute_time 900"]) (simp add: valid_time_iff)
  have inv: "pool_inv 4 (p, None)" using p by (auto simp: pool_inv_def handler_ok_def)
  have one: "unat (ucast (1 :: u32) :: u8) = 1" "(ucast (drop_bit 8 (1 :: u32)) :: u8) = 0"
    by code_simp+
  have c: "ph_contains_node (heap p) 1 = Some True" using ap_rel_contains [OF p(1), of 1] p(3) by simp
  from alarm_pool_cancel_exact [OF inv, of 1, unfolded one] p(4) c show ?thesis by auto
qed

text \<open>
  C35. An alarm that is cancelled while its callback runs does not repeat: whatever interval
  the callback returns, \<open>alarm\_finish\<close> gives its node back and leaves the rest of the heap alone.
\<close>

theorem cancel_in_callback_stops_repeat:
  assumes "pool_inv n (p, Some f)" and "alarm_pool_cancel_alarm p (make_public_id (f_id_high f) (f_id f)) = Some (rc, p1)"
  shows "\<exists>p2. alarm_finish p1 f repeat = Some p2 \<and> alarm_in_progress p2 = 0
    \<and> {i \<in> {1..n}. ph_contains_node (heap p2) i = Some True}
      = {i \<in> {1..n}. ph_contains_node (heap p) i = Some True}"
proof -
  from assms(1) obtain A fl st where r: "ap_rel p A fl st {f_id f}" and n: "length (entries p) = n"
    and ok: "handler_ok (p, Some f)" by (auto simp: pool_inv_def)
  from ok have f: "f_callback f \<noteq> 0" "valid_time (f_target f)"
    and pr: "alarm_in_progress p \<in> {0, make_public_id (f_id_high f) (f_id f)}"
    by (auto simp: handler_ok_def)
  have i: "f_id f \<in> {1..n}" "f_id f \<notin> A" using ap_relD(3,5) [OF r] n by auto
  have "n < 2 ^ 8" using ap_relD(1) [OF r] n by (simp add: ap_base_def)
  with i have low: "unat (ucast (make_public_id (f_id_high f) (f_id f)) :: u8) = f_id f"
    by (intro low_byte_public_id) auto
  have A: "A \<subseteq> {1..n}" using ap_relD(3) [OF r] n by blast
  from r have r': "ap_rel p A fl st (held (Some f))" by simp
  have "f_id f \<in> {1..length (entries p)}" using i n by simp
  from alarm_pool_cancel_alarm_rel [OF r' handler_prog_ok [OF r' ok] low [symmetric] this] i(2) assms(2) pr
  have p1: "p1 = p\<lparr>alarm_in_progress := 0\<rparr> \<or> p1 = p \<and> alarm_in_progress p = 0" by (auto split: if_splits)
  then have z: "alarm_in_progress p1 = 0" and e: "heap p1 = heap p" "length (entries p1) = n" using n by auto
  have r1: "ap_rel p1 A fl st (insert (f_id f) {})" using p1 r ap_rel_progress [OF r, of 0] by auto
  have fin: "alarm_finish p1 f repeat = alarm_finish p1 f 0" using z by (simp add: alarm_finish_def)
  from alarm_finish_rel [OF r1 _ _ f, of 0] z obtain p2 where p2: "alarm_finish p1 f repeat = Some p2"
    "alarm_in_progress p2 = 0" "length (entries p2) = n" "ap_rel p2 A (fl @ [f_id f]) (st \<or> fl = []) {}"
    using e fin by (auto simp: repeat_ok_def)
  from ap_rel_contains [OF p2(4)] ap_rel_contains [OF r] p2(3) n
  have "{i \<in> {1..n}. ph_contains_node (heap p2) i = Some True}
      = {i \<in> {1..n}. ph_contains_node (heap p) i = Some True}" by auto
  with p2 show ?thesis by blast
qed

theorem cancel_in_callback_stops_repeat_witness:
  "\<exists>p f p1 p2. alarm_pool_cancel_alarm p (make_public_id (f_id_high f) (f_id f)) = Some (False, p1)
    \<and> alarm_finish p1 f (2 ^ 63 - 1) = Some p2 \<and> alarm_in_progress p2 = 0"
proof -
  obtain q f again p where q: "pool_inv 4 (q, None)" "alarm_pick q = Some (Some f, again, p)"
    "f_id f = 1" "raw_time (ap_timer p) = slow_clock" and r: "ap_rel p {} [2, 3, 4] False {1}"
    by (rule due_alarm_picked)
  have inv: "pool_inv 4 (p, Some f)" by (rule pool_inv_step [OF q(1) step_pick [OF q(2)]])
  then have ok: "handler_ok (p, Some f)" and n: "length (entries p) = 4" by (simp_all add: pool_inv_def)
  have low: "unat (ucast (make_public_id (f_id_high f) (f_id f)) :: u8) = 1"
    unfolding q(3) by (rule low_byte_public_id) simp
  have r': "ap_rel p {} [2, 3, 4] False (held (Some f))" using r q(3) by simp
  have "(1 :: nat) \<in> {1..length (entries p)}" using n by simp
  from alarm_pool_cancel_alarm_rel [OF r' handler_prog_ok [OF r' ok] low [symmetric] this]
  obtain p1 where c: "alarm_pool_cancel_alarm p (make_public_id (f_id_high f) (f_id f)) = Some (False, p1)"
    by (auto split: if_splits)
  from cancel_in_callback_stops_repeat [OF inv c, of "2 ^ 63 - 1"] c show ?thesis by blast
qed

section \<open>A missed alarm whose callback repeats\<close>

text \<open>A callback that always asks for the same interval.\<close>

definition constant_repeat :: "int \<Rightarrow> run_callback" where
  "constant_repeat d = (\<lambda>cb aid ud p. Some (d, p))"

lemma stale_missed_loop:
  assumes r: "ap_rel p A fl False H" and cb: "cb \<noteq> 0" and v: "valid_time time"
    and j: "j \<in> A" "target (entries p ! (j - 1)) < time" and d: "0 < d"
    and fits: "\<And>k. uint (raw_time (ap_timer p) k) + d < 2 ^ 63"
    and pending: "\<And>k. uint (us_since_boot (target (entries p ! (j - 1)))) < uint (raw_time (ap_timer p) k) + d"
  shows "\<exists>p'. add_alarm_loop (constant_repeat d) p time cb ud True True = Some (- 1, p')
    \<and> ap_rel p' (A \<union> set fl) [] False H \<and> length (entries p') = length (entries p)"
  using assms
proof (induction fl arbitrary: p A time)
  case Nil
  from add_alarm_full_rel [OF Nil.prems(1), of time cb ud False]
  have "add_alarm_loop (constant_repeat d) p time cb ud True True = Some (- 1, p)"
    by (subst add_alarm_loop.simps) (simp add: add_alarm_round_def)
  with Nil.prems(1) show ?case by auto
next
  case (Cons nid fl)
  note r = Cons.prems(1)
  from add_alarm_new_rel [OF r Cons.prems(2,3), of ud False] obtain m p1
    where a: "add_alarm_under_lock p time cb ud 0 False = Some (nid, m, p1)" "nid \<noteq> 0"
      "added p time cb ud nid m p1" "first_iff p A time m"
      and c: "if m = Some True then ap_rel p1 A (fl @ [nid]) (fl = []) H
        else ap_rel p1 (insert nid A) fl False H" by auto
  have m: "m = None"
    using a(4) Cons.prems(4,5) by (cases m) (auto simp: first_iff_def not_le [symmetric])
  with c have r1: "ap_rel p1 (insert nid A) fl False H" by simp
  have nA: "nid \<notin> A" "nid \<in> {1..length (entries p)}" using ap_relD(3,4) [OF r] by auto
  have len: "length (entries p1) = length (entries p)" using a(3) by (simp add: added_def)
  have lt: "later (ap_timer p) (ap_timer p1)" using a(3) by (simp add: added_def)
  have round: "add_alarm_round p time cb ud True = Some (nid, entry_ids_high p ! (nid - 1), True, p1)"
    using round_of_added [OF r a(1) nA(2) a(3), of True] ap_max [OF r1] len m by simp
  have tk: "time_ok (ap_timer p1)" using lt by (simp add: later_def)
  have rt: "raw_time (ap_timer p1) = raw_time (ap_timer p)" using lt by (simp add: later_def)
  obtain now tm k where g: "get_absolute_time (ap_timer p1) = Some (now, tm)" "later (ap_timer p1) tm"
    and nk: "us_since_boot now = raw_time (ap_timer p1) k"
    using get_absolute_time_eq [OF tk] by metis
  have "uint (us_since_boot now) + d < 2 ^ 63" using Cons.prems(7) [of k] by (simp add: nk rt)
  with Cons.prems(6) obtain t where t: "delayed_by_us now (word_of_int d) = Some t" "valid_time t"
    "uint (us_since_boot t) = uint (us_since_boot now) + d" by (rule delayed_by_repeat)
  let ?q = "p1\<lparr>ap_timer := tm\<rparr>"
  have "j \<in> {1..length (entries p)}" using ap_relD(3) [OF r] Cons.prems(4) by blast
  with nA Cons.prems(4) have "1 \<le> j" "1 \<le> nid" "nid \<noteq> j" by auto
  then have jn: "nid - 1 \<noteq> j - 1" by linarith
  then have tj: "target (entries ?q ! (j - 1)) = target (entries p ! (j - 1))"
    using a(3) by (simp add: added_def)
  have rq: "ap_rel ?q (insert nid A) fl False H" by (rule ap_rel_timer [OF r1 g(2)])
  have rtq: "raw_time (ap_timer ?q) = raw_time (ap_timer p)" using g(2) rt by (simp add: later_def)
  have "target (entries ?q ! (j - 1)) < t"
    unfolding tj using Cons.prems(8) [of k] t(3) nk rt
    by (simp add: less_absolute_time_def word_less_def)
  from Cons.IH [OF rq Cons.prems(2) t(2) _ this Cons.prems(6)] Cons.prems(4,7,8)
  obtain p' where p': "add_alarm_loop (constant_repeat d) ?q t cb ud True True = Some (- 1, p')"
    "ap_rel p' (insert nid A \<union> set fl) [] False H" "length (entries p') = length (entries ?q)"
    unfolding rtq tj by auto
  have "add_alarm_loop (constant_repeat d) p time cb ud True True
      = add_alarm_loop (constant_repeat d) ?q t cb ud True True"
    using round a(2) Cons.prems(6) g(1) t(1)
    by (subst add_alarm_loop.simps) (simp add: constant_repeat_def)
  with p' len show ?case by auto
qed

text \<open>
  \<open>alarm\_pool\_add\_alarm\_at\<close> does not reset \<open>missed\<close> between its rounds. If an alarm is
  added whose time has passed, with \<open>fire\_if\_past\<close>, its callback asks to repeat after \<open>d\<close>
  microseconds, and another alarm of the pool is due before that, then the repeated alarm is
  put into the heap but still taken for missed: the callback runs again and again, the heap
  is filled with copies until no free node is left, and the call returns -1.
\<close>

theorem missed_repeat_fills_pool:
  assumes "ap_rel p A (nid # fl) False H" and "fl \<noteq> []" and "j \<in> A" and "cb \<noteq> 0" and "valid_time time"
    and "to_us_since_boot time \<le> raw_time (ap_timer p) (accesses (ap_timer p))"
    and "\<forall>i \<in> A. time < target (entries p ! (i - 1))" and "0 < d"
    and "\<forall>k. uint (raw_time (ap_timer p) k) + d < 2 ^ 63"
    and "\<forall>k. uint (us_since_boot (target (entries p ! (j - 1)))) < uint (raw_time (ap_timer p) k) + d"
  shows "\<exists>p'. alarm_pool_add_alarm_at (constant_repeat d) p time cb ud True = Some (- 1, p')
    \<and> {i \<in> {1..length (entries p)}. ph_contains_node (heap p') i = Some True}
        = {1..length (entries p)} - H"
proof -
  note r = assms(1)
  from add_alarm_new_rel [OF r assms(4,5), of ud False] obtain m p1
    where a: "add_alarm_under_lock p time cb ud 0 False = Some (nid, m, p1)" "nid \<noteq> 0"
      "added p time cb ud nid m p1" "first_iff p A time m"
      and c: "if m = Some True then ap_rel p1 A (fl @ [nid]) (fl = []) H
        else ap_rel p1 (insert nid A) fl False H" by auto
  have "m \<noteq> None"
  proof
    assume "m = None"
    with a(4) obtain i where "i \<in> A" "target (entries p ! (i - 1)) \<le> time"
      unfolding first_iff_def by auto
    with assms(7) show False by (meson not_le)
  qed
  moreover have "m \<noteq> Some False" using a(3) assms(6) by (auto simp: added_def)
  ultimately have m: "m = Some True" by (cases m) auto
  with c assms(2) have r1: "ap_rel p1 A (fl @ [nid]) False H" by simp
  have nA: "nid \<notin> A" "nid \<in> {1..length (entries p)}" using ap_relD(3,4) [OF r] by auto
  have jp: "j \<in> {1..length (entries p)}" using ap_relD(3) [OF r] assms(3) by blast
  have len: "length (entries p1) = length (entries p)" using a(3) by (simp add: added_def)
  have lt: "later (ap_timer p) (ap_timer p1)" using a(3) by (simp add: added_def)
  have round: "add_alarm_round p time cb ud False = Some (nid, entry_ids_high p ! (nid - 1), True, p1)"
    using round_of_added [OF r a(1) nA(2) a(3), of False] ap_max [OF r1] len m by simp
  have tk: "time_ok (ap_timer p1)" and rt: "raw_time (ap_timer p1) = raw_time (ap_timer p)"
    using lt by (simp_all add: later_def)
  obtain now tm k where g: "get_absolute_time (ap_timer p1) = Some (now, tm)" "later (ap_timer p1) tm"
    and nk: "us_since_boot now = raw_time (ap_timer p1) k"
    using get_absolute_time_eq [OF tk] by metis
  have "uint (us_since_boot now) + d < 2 ^ 63" using assms(9) by (simp add: nk rt)
  with assms(8) obtain t where t: "delayed_by_us now (word_of_int d) = Some t" "valid_time t"
    "uint (us_since_boot t) = uint (us_since_boot now) + d" by (rule delayed_by_repeat)
  let ?q = "p1\<lparr>ap_timer := tm\<rparr>"
  have "1 \<le> j" "1 \<le> nid" "nid \<noteq> j" using nA jp assms(3) by auto
  then have "nid - 1 \<noteq> j - 1" by linarith
  then have tj: "target (entries ?q ! (j - 1)) = target (entries p ! (j - 1))"
    using a(3) by (simp add: added_def)
  have rq: "ap_rel ?q A (fl @ [nid]) False H" by (rule ap_rel_timer [OF r1 g(2)])
  have rtq: "raw_time (ap_timer ?q) = raw_time (ap_timer p)" using g(2) rt by (simp add: later_def)
  have dt: "target (entries ?q ! (j - 1)) < t"
    unfolding tj using assms(10) t(3) nk rt by (simp add: less_absolute_time_def word_less_def)
  obtain p' where p': "add_alarm_loop (constant_repeat d) ?q t cb ud True True = Some (- 1, p')"
    "ap_rel p' (A \<union> set (fl @ [nid])) [] False H" "length (entries p') = length (entries ?q)"
    using stale_missed_loop [OF rq assms(4) t(2) assms(3) dt assms(8), unfolded rtq tj, of ud]
      assms(9,10) by blast
  have "alarm_pool_add_alarm_at (constant_repeat d) p time cb ud True
      = add_alarm_loop (constant_repeat d) ?q t cb ud True True"
    unfolding alarm_pool_add_alarm_at_def
    using round a(2) assms(8) g(1) t(1)
    by (subst add_alarm_loop.simps) (simp add: constant_repeat_def)
  moreover have "A \<union> set (fl @ [nid]) = {1..length (entries p)} - H"
    using ap_relD(3,5) [OF r] by auto
  ultimately show ?thesis using p' ap_rel_contains [OF p'(2)] len by auto
qed

theorem missed_repeat_fills_pool_witness:
  "\<exists>p p'. alarm_pool_add_alarm_at (constant_repeat 10000) p (Absolute_time 800) 2 0 True = Some (- 1, p')
    \<and> {i \<in> {1..4}. ph_contains_node (heap p') i = Some True} = {1..4}"
proof -
  obtain p where p: "ap_rel p {1} [2, 3, 4] False {}" "length (entries p) = 4"
      "raw_time (ap_timer p) = slow_clock" "target (entries p ! 0) = Absolute_time 5000"
    by (rule one_alarm_pool [of "Absolute_time 5000"]) (simp add: valid_time_iff)
  have b: "uint (slow_clock k) \<le> 2000" "1000 \<le> uint (slow_clock k)" for k
    using slow_clock(4,5) [of k] by (simp_all add: word_le_def)
  have "(800 :: u64) \<le> slow_clock k" for k
    using slow_clock(4) [of k] by (rule order_trans [rotated]) simp
  moreover have "uint (slow_clock k) + 10000 < 2 ^ 63" "5000 < uint (slow_clock k) + 10000" for k
    using b [of k] by simp_all
  ultimately show ?thesis
    using missed_repeat_fills_pool [OF p(1), of 1 2 "Absolute_time 800" 10000 0] p(2-4)
    by (simp add: valid_time_iff to_us_since_boot_def less_absolute_time_def) blast
qed

section \<open>Ids after a cancel\<close>

text \<open>\<open>k\<close> alarms added one after the other.\<close>

fun add_many :: "nat \<Rightarrow> absolute_time \<Rightarrow> nat \<Rightarrow> nat \<Rightarrow> alarm_pool \<Rightarrow> alarm_pool option" where
  "add_many 0 time cb ud p = Some p"
| "add_many (Suc k) time cb ud p = do {
     (_, _, _, p1) \<leftarrow> add_alarm_round p time cb ud False;
     add_many k time cb ud p1 }"

lemma high_byte_public_id: "nid < 2 ^ 8 \<Longrightarrow> ucast (drop_bit 8 (make_public_id h nid)) = h"
proof -
  assume n: "nid < 2 ^ 8"
  then have "take_bit 8 nid = nid" by (simp add: take_bit_nat_eq_self)
  then have z: "\<not> bit nid (m + 8)" "\<not> bit nid (8 + m)" for m
    using bit_take_bit_iff [of 8 nid "m + 8"] by (simp_all add: add.commute)
  show ?thesis
    by (rule bit_word_eqI) (auto simp: make_public_id_def bit_simps z)
qed

lemma add_future:
  assumes r: "ap_rel p A (nid # fl) False H" and cb: "cb \<noteq> 0" and v: "valid_time time"
    and fut: "\<And>k. raw_time (ap_timer p) k < us_since_boot time"
  obtains p' where "add_alarm_round p time cb ud False = Some (nid, entry_ids_high p ! (nid - 1), False, p')"
    "ap_rel p' (insert nid A) fl False H" "entry_ids_high p' = entry_ids_high p"
    "raw_time (ap_timer p') = raw_time (ap_timer p)" "nid \<noteq> 0"
proof -
  from add_alarm_new_rel [OF r cb v, of ud False] obtain m p1
    where a: "add_alarm_under_lock p time cb ud 0 False = Some (nid, m, p1)" "nid \<noteq> 0"
      "added p time cb ud nid m p1"
      and c: "if m = Some True then ap_rel p1 A (fl @ [nid]) (fl = []) H
        else ap_rel p1 (insert nid A) fl False H" by auto
  have m: "m \<noteq> Some True"
  proof
    assume "m = Some True"
    with a(3) have "us_since_boot time \<le> raw_time (ap_timer p) (accesses (ap_timer p1) - 1)"
      by (simp add: added_def to_us_since_boot_def)
    with fut show False by (meson not_le)
  qed
  with c have r1: "ap_rel p1 (insert nid A) fl False H" by simp
  have n: "nid \<in> {1..length (entries p)}" using ap_relD(3) [OF r] by auto
  have len: "length (entries p1) = length (entries p)" using a(3) by (simp add: added_def)
  have "(case m of None \<Rightarrow> False | Some b \<Rightarrow> b) = False" using m by (auto split: option.splits)
  with round_of_added [OF r a(1) n a(3), of False] ap_max [OF r1] len
  have "add_alarm_round p time cb ud False = Some (nid, entry_ids_high p ! (nid - 1), False, p1)"
    by simp
  then show thesis by (rule that [OF _ r1]) (use a in \<open>simp_all add: added_def later_def\<close>)
qed

lemma add_many_future:
  assumes "ap_rel p A (xs @ ys) False H" and "cb \<noteq> 0" and "valid_time time"
    and "\<And>k. raw_time (ap_timer p) k < us_since_boot time"
  shows "\<exists>p'. add_many (length xs) time cb ud p = Some p' \<and> ap_rel p' (A \<union> set xs) ys False H
    \<and> entry_ids_high p' = entry_ids_high p \<and> raw_time (ap_timer p') = raw_time (ap_timer p)"
  using assms
proof (induction xs arbitrary: p A)
  case (Cons x xs)
  from Cons.prems(1) have "ap_rel p A (x # xs @ ys) False H" by simp
  from add_future [OF this Cons.prems(2-4)] obtain p1
    where p1: "add_alarm_round p time cb ud False = Some (x, entry_ids_high p ! (x - 1), False, p1)"
      "ap_rel p1 (insert x A) (xs @ ys) False H" "entry_ids_high p1 = entry_ids_high p"
      "raw_time (ap_timer p1) = raw_time (ap_timer p)" by blast
  from Cons.IH [OF p1(2) Cons.prems(2,3)] Cons.prems(4) p1 show ?case by auto
qed simp

text \<open>
  The high byte of an alarm id is not advanced when an alarm is cancelled. In a pool with
  \<open>k\<close> free nodes, after an alarm is cancelled and \<open>k\<close> others are added, the next new alarm
  gets the very id of the cancelled one, so a stale id then names someone else's alarm.
\<close>

theorem cancelled_id_is_reissued:
  assumes "ap_rel p A fl False H" and "fl \<noteq> []" and "nid \<in> A" and "cb \<noteq> 0" and "valid_time time"
    and "\<forall>k. raw_time (ap_timer p) k < us_since_boot time"
    and "alarm_in_progress p = 0"
  defines "aid \<equiv> make_public_id (entry_ids_high p ! (nid - 1)) nid"
  shows "\<exists>p1 p2 p3. alarm_pool_cancel_alarm p aid = Some (True, p1)
    \<and> add_many (length fl) time cb ud p1 = Some p2
    \<and> alarm_pool_add_alarm_at run p2 time cb ud False = Some (aid, p3)"
proof -
  note D = ap_relD [OF assms(1)]
  have nr: "nid \<in> {1..length (entries p)}" using D(3) assms(3) by blast
  then have n8: "nid < 2 ^ 8" using D(1) by (auto simp: ap_base_def)
  have low: "unat (ucast aid :: u8) = nid" unfolding aid_def by (rule low_byte_public_id [OF n8])
  have hi: "ucast (drop_bit 8 aid) = entry_ids_high p ! (nid - 1)"
    unfolding aid_def by (rule high_byte_public_id [OF n8])
  have "prog_ok p H" using assms(7) by (simp add: prog_ok_def)
  from alarm_pool_cancel_alarm_rel [OF assms(1) this low [symmetric] nr] assms(2,3) hi
  obtain h where c: "alarm_pool_cancel_alarm p aid = Some (True, p\<lparr>heap := h\<rparr>)"
    and r1: "ap_rel (p\<lparr>heap := h\<rparr>) (A - {nid}) (fl @ [nid]) False H" by auto
  have fut: "raw_time (ap_timer (p\<lparr>heap := h\<rparr>)) k < us_since_boot time" for k using assms(6) by simp
  from add_many_future [OF r1 assms(4,5) fut, of ud] obtain p2
    where p2: "add_many (length fl) time cb ud (p\<lparr>heap := h\<rparr>) = Some p2"
      "ap_rel p2 (A - {nid} \<union> set fl) [nid] False H" "entry_ids_high p2 = entry_ids_high p"
      "raw_time (ap_timer p2) = raw_time (ap_timer p)" by auto
  have fut2: "raw_time (ap_timer p2) k < us_since_boot time" for k using assms(6) p2(4) by simp
  obtain p3 where p3: "add_alarm_round p2 time cb ud False = Some (nid, entry_ids_high p2 ! (nid - 1), False, p3)"
    using add_future [OF p2(2) assms(4,5) fut2] by blast
  have "alarm_pool_add_alarm_at run p2 time cb ud False = Some (aid, p3)"
    unfolding alarm_pool_add_alarm_at_def using p3 nr p2(3)
    by (subst add_alarm_loop.simps) (simp add: aid_def)
  with c p2(1) show ?thesis by blast
qed

theorem cancelled_id_is_reissued_witness:
  "\<exists>p p1 p2 p3. alarm_pool_cancel_alarm p 1 = Some (True, p1)
    \<and> add_many 3 (Absolute_time 9000) 5 0 p1 = Some p2
    \<and> alarm_pool_add_alarm_at (constant_repeat 0) p2 (Absolute_time 9000) 5 0 False = Some (1, p3)"
proof -
  obtain p where p: "ap_rel p {1} [2, 3, 4] False {}" "alarm_in_progress p = 0"
      "raw_time (ap_timer p) = slow_clock" "entry_ids_high p ! 0 = 0"
    by (rule one_alarm_pool [of "Absolute_time 5000"]) (simp add: valid_time_iff)
  have "slow_clock k < 9000" for k
    using slow_clock(5) [of k] by (rule order_le_less_trans) simp
  moreover have "make_public_id 0 1 = 1" by (simp add: make_public_id_def)
  ultimately show ?thesis
    using cancelled_id_is_reissued [OF p(1), of 1 5 "Absolute_time 9000" 0 "constant_repeat 0"] p(2-4)
    by (simp add: valid_time_iff numeral_3_eq_3 del: add_many.simps) blast
qed

end
