(* ===== verification/Sync_Props.thy ===== *)
theory Sync_Props
  imports Sync_Correct Alarm_Pool_Props
begin

text \<open>
  The properties of the synchronisation primitives: mutual exclusion and recursion depth of
  the mutexes, when a blocking call returns, the permits of a semaphore, and what the two
  results of a wait with a timeout mean.
\<close>

section \<open>Mutexes\<close>

lemma mutex_init_owner: "mutex_init s = Some (m, s1) \<Longrightarrow> owner m = LOCK_INVALID_OWNER_ID"
  by (auto simp: mutex_init_def split: prod.splits bind_splits)

lemma recursive_mutex_init_owner:
  "recursive_mutex_init s = Some (m, s1) \<Longrightarrow> rowner m = LOCK_INVALID_OWNER_ID \<and> enter_count m = 0"
  by (auto simp: recursive_mutex_init_def split: prod.splits bind_splits)

text \<open>
  C8. In every state that two cores can reach from a new mutex by trying to enter and by
  leaving what they have entered, a core that is inside is the recorded owner, is inside
  once, is the only one inside, and can leave without a failing assert.
\<close>

theorem mutex_excludes:
  assumes "mutex_init s = Some (m0, s1)"
    and "(lock_step mutex_enter_leave mutex_exit)\<^sup>*\<^sup>* (m0, \<lambda>_. 0) (m, d)"
    and "0 < d c"
  shows "owner m = lock_get_caller_owner_id c \<and> d c = 1 \<and> {c'. 0 < d c'} = {c} \<and> (\<exists>m'. mutex_exit m = Some m')"
  using plain_mutex.exclusion [OF assms(2) TrueI _ assms(3)] mutex_init_owner [OF assms(1)] assms(3)
  by (auto dest: owner_core_caller split: if_splits)

lemma enter_free_mutex: "\<exists>m0 s1 m. mutex_init sync_boot = Some (m0, s1) \<and>
    (lock_step mutex_enter_leave mutex_exit)\<^sup>*\<^sup>* (m0, \<lambda>_. 0) (m, (\<lambda>_. 0)(1 := 1))"
proof -
  obtain m0 s1 where i: "mutex_init sync_boot = Some (m0, s1)"
    by (auto simp: mutex_init_def lock_init_def next_striped_spin_lock_num_def sync_boot_def)
  let ?m = "m0\<lparr>owner := lock_get_caller_owner_id 1\<rparr>"
  have "mutex_enter_leave 1 m0 = Some (True, ?m)"
    using mutex_init_owner [OF i] by (simp add: mutex_enter_leave_def mutex_try_enter_def)
  then have "lock_step mutex_enter_leave mutex_exit (m0, \<lambda>_. 0) (?m, (\<lambda>_. 0)(1 := 1))"
    using lock_step.try_enter [of 1 mutex_enter_leave m0 True ?m mutex_exit "\<lambda>_. 0"] by simp
  with i show ?thesis by blast
qed

theorem mutex_excludes_witness:
  "\<exists>m. owner m = lock_get_caller_owner_id 1 \<and> (\<exists>m'. mutex_exit m = Some m')"
proof -
  obtain m0 s1 m where "mutex_init sync_boot = Some (m0, s1)"
    "(lock_step mutex_enter_leave mutex_exit)\<^sup>*\<^sup>* (m0, \<lambda>_. 0) (m, (\<lambda>_. 0)(1 := 1))"
    using enter_free_mutex by auto
  from mutex_excludes [OF this, of 1] show ?thesis by auto
qed

text \<open>
  C29. A recursive mutex counts: in every reachable state a core that is inside owns it, its
  count is how often that core has entered without leaving, at most 255, nobody else is
  inside, and it can leave without a failing assert.
\<close>

theorem recursive_mutex_counts:
  assumes "recursive_mutex_init s = Some (m0, s1)"
    and "(lock_step recursive_mutex_enter recursive_mutex_exit)\<^sup>*\<^sup>* (m0, \<lambda>_. 0) (m, d)"
    and "0 < d c"
  shows "rowner m = lock_get_caller_owner_id c \<and> unat (enter_count m) = d c \<and> d c \<le> 255
    \<and> {c'. 0 < d c'} = {c} \<and> (\<exists>m'. recursive_mutex_exit m = Some m')"
proof -
  have "recursive_mutex_inv m0" "owner_core (rowner m0) = None"
    using recursive_mutex_init_owner [OF assms(1)] by (auto simp: recursive_mutex_inv_def)
  from recursive_mutexes.exclusion [OF assms(2) this assms(3)]
  have *: "owner_core (rowner m) = Some c" "unat (enter_count m) = d c" "\<forall>c'. c' \<noteq> c \<longrightarrow> d c' = 0"
    "\<exists>m'. recursive_mutex_exit m = Some m'" by auto
  moreover have "unat (enter_count m) \<le> 255"
    using unsigned_less [of "enter_count m", where ?'a = nat] by simp
  ultimately show ?thesis using assms(3) owner_core_caller [OF *(1)] by auto
qed

theorem recursive_mutex_counts_witness:
  "\<exists>m m'. rowner m = lock_get_caller_owner_id 0 \<and> unat (enter_count m) = 2
     \<and> recursive_mutex_exit m = Some m'"
proof -
  obtain m0 s1 where i: "recursive_mutex_init sync_boot = Some (m0, s1)"
    by (auto simp: recursive_mutex_init_def lock_init_def next_striped_spin_lock_num_def sync_boot_def)
  let ?m1 = "m0\<lparr>rowner := lock_get_caller_owner_id 0, enter_count := 1\<rparr>"
  let ?m2 = "m0\<lparr>rowner := lock_get_caller_owner_id 0, enter_count := 2\<rparr>"
  have "recursive_mutex_enter 0 m0 = Some (True, ?m1)" "recursive_mutex_enter 0 ?m1 = Some (True, ?m2)"
    using recursive_mutex_init_owner [OF i]
    by (simp_all add: recursive_mutex_enter_def recursive_mutex_try_enter_def)
  then have "lock_step recursive_mutex_enter recursive_mutex_exit (m0, \<lambda>_. 0) (?m1, (\<lambda>_. 0)(0 := 1))"
    "lock_step recursive_mutex_enter recursive_mutex_exit (?m1, (\<lambda>_. 0)(0 := 1)) (?m2, (\<lambda>_. 0)(0 := 2))"
    using lock_step.try_enter [of 0 recursive_mutex_enter m0 True ?m1 recursive_mutex_exit "\<lambda>_. 0"]
      lock_step.try_enter [of 0 recursive_mutex_enter ?m1 True ?m2 recursive_mutex_exit "(\<lambda>_. 0)(0 := 1)"]
    by (simp_all add: eval_nat_numeral)
  then have "(lock_step recursive_mutex_enter recursive_mutex_exit)\<^sup>*\<^sup>* (m0, \<lambda>_. 0) (?m2, (\<lambda>_. 0)(0 := 2))"
    by (meson rtranclp.rtrancl_into_rtrancl rtranclp.rtrancl_refl)
  from recursive_mutex_counts [OF i this, of 0] show ?thesis by auto
qed

section \<open>Blocking\<close>

lemma mutex_attempts:
  "attempts (mutex_attempt c) (\<lambda>m. \<not> lock_is_owner_id_valid (owner m)) (\<lambda>m. m\<lparr>owner := c\<rparr>) X"
  by (simp add: attempts_def mutex_attempt_def)

lemma sem_attempts:
  "attempts sem_attempt (\<lambda>m. 0 < sint (permits m)) (\<lambda>m. m\<lparr>permits := permits m - 1\<rparr>) X"
  by (simp add: attempts_def sem_attempt_def)

lemma wait_event_ok: "wait_ok others (\<lambda>_. False) (unlock_with_wait others)"
  by (simp add: wait_ok_def unlock_with_wait_def)

text \<open>
  C30. \<open>mutex\_enter\_blocking\<close> returns exactly if the mutex is free at some look, whatever the
  others do to it between the looks, and then the caller has become the owner of the mutex
  as it was at the first such look.
\<close>

theorem mutex_enter_blocking_iff:
  "mutex_enter_blocking c others w =
     (if \<exists>k. \<not> lock_is_owner_id_valid (owner (at_look others k (memory w)))
      then Some (w\<lparr>memory := (at_look others (LEAST k. \<not> lock_is_owner_id_valid (owner (at_look others k (memory w))))
        (memory w))\<lparr>owner := lock_get_caller_owner_id c\<rparr>\<rparr>)
      else None)"
proof (cases "\<exists>k. \<not> lock_is_owner_id_valid (owner (at_look others k (memory w)))")
  case True
  let ?k = "LEAST k. \<not> lock_is_owner_id_valid (owner (at_look others k (memory w)))"
  from True have "\<not> lock_is_owner_id_valid (owner (at_look others ?k (memory w)))" by (rule LeastI_ex)
  then have "retry (mutex_attempt (lock_get_caller_owner_id c)) (unlock_with_wait others) 0 w
      = Some (Some (), w\<lparr>memory := (at_look others (0 + ?k) (memory w))\<lparr>owner := lock_get_caller_owner_id c\<rparr>\<rparr>)"
    by (intro retry_wait_returns [OF mutex_attempts]) (auto dest: not_less_Least)
  with True show ?thesis by (simp add: mutex_enter_blocking_def)
next
  case False
  have "retry (mutex_attempt (lock_get_caller_owner_id c)) (unlock_with_wait others) 0 w = None"
  proof (rule ccontr)
    assume "retry (mutex_attempt (lock_get_caller_owner_id c)) (unlock_with_wait others) 0 w \<noteq> None"
    then obtain r w' where
      "retry (mutex_attempt (lock_get_caller_owner_id c)) (unlock_with_wait others) 0 w = Some (r, w')" by auto
    from retry_outcome [OF this mutex_attempts wait_event_ok, of "memory w"] False
    show False by (simp add: outcome_def split: if_splits)
  qed
  with False show ?thesis by (simp add: mutex_enter_blocking_def)
qed

section \<open>Semaphores\<close>

text \<open>
  Any sequence of the operations, by any callers. The last argument counts what the results
  say: a permit less for a successful acquire, one more for a successful release, and a
  reset starts anew.
\<close>

inductive sem_run :: "semaphore \<Rightarrow> int \<Rightarrow> semaphore \<Rightarrow> int \<Rightarrow> bool" for s0 n0 where
  start: "sem_run s0 n0 s0 n0"
| acquire: "sem_run s0 n0 s n \<Longrightarrow> sem_try_acquire s = (b, s') \<Longrightarrow> sem_run s0 n0 s' (if b then n - 1 else n)"
| release: "sem_run s0 n0 s n \<Longrightarrow> sem_release s = (b, s') \<Longrightarrow> sem_run s0 n0 s' (if b then n + 1 else n)"
| reset: "sem_run s0 n0 s n \<Longrightarrow> sem_reset s p = Some s' \<Longrightarrow> sem_run s0 n0 s' (sint p)"

lemma sint16_bounds: "- (2 ^ 15) \<le> sint (x :: u16)" "sint x < 2 ^ 15"
  using sint_range_size [of x] by (simp_all add: word_size)

lemma sint16_word: "- (2 ^ 15) \<le> i \<Longrightarrow> i < 2 ^ 15 \<Longrightarrow> sint (word_of_int i :: u16) = i"
  by (simp add: signed_of_int signed_take_bit_int_eq_self)

lemma sint16_pred: "0 < sint (x :: u16) \<Longrightarrow> sint (x - 1) = sint x - 1"
proof -
  assume "0 < sint x"
  then have "sint (word_of_int (sint x - 1) :: u16) = sint x - 1"
    using sint16_bounds [of x] by (intro sint16_word) linarith+
  then show ?thesis by (simp add: wi_hom_sub [symmetric])
qed

lemma sem_run_inv:
  "sem_run s0 n0 s n \<Longrightarrow> n0 = sem_available s0 \<Longrightarrow> 0 \<le> n0 \<Longrightarrow> n0 \<le> sint (max_permits s0) \<Longrightarrow>
     n = sem_available s \<and> 0 \<le> n \<and> n \<le> sint (max_permits s0) \<and> max_permits s = max_permits s0"
proof (induction rule: sem_run.induct)
  case (acquire s n b s')
  then show ?case
    by (auto simp: sem_try_acquire_def sem_available_def sint16_pred split: if_splits)
next
  case (release s n b s')
  then show ?case using sint16_bounds [of "max_permits s0"] sint16_word [of "n + 1"]
    by (auto simp: sem_release_def sem_available_def Let_def split: if_splits)
qed (auto simp: sem_reset_def sem_available_def split: if_splits)

text \<open>
  C10. The permits of a semaphore are accounted for: after any sequence of operations the
  available permits are the initial ones less the acquired plus the released ones (since
  the last reset), between 0 and the maximum; an acquire succeeds exactly if one is left and
  a release exactly if the maximum is not reached.
\<close>

theorem sem_permits_accounted:
  assumes "sem_init st p maxp = Some (s0, st')" and "0 \<le> sint p" and "sint p \<le> sint maxp"
    and "sem_run s0 (sint p) s n"
  shows "sem_available s = n \<and> n \<in> {0..sint maxp} \<and> (fst (sem_try_acquire s) \<longleftrightarrow> n \<noteq> 0)
    \<and> (fst (sem_release s) \<longleftrightarrow> n \<noteq> sint maxp)"
proof -
  have "sint p = sem_available s0" "max_permits s0 = maxp"
    using assms(1) by (auto simp: sem_init_def sem_available_def split: prod.splits bind_splits)
  with sem_run_inv [OF assms(4)] assms(2,3)
  have "n = sem_available s" "0 \<le> n" "n \<le> sint maxp" "max_permits s = maxp" by auto
  then show ?thesis by (auto simp: sem_try_acquire_def sem_release_def sem_available_def Let_def)
qed

theorem sem_permits_accounted_witness:
  "\<exists>s. sem_available s = 0 \<and> \<not> fst (sem_try_acquire s) \<and> fst (sem_release s)"
proof -
  obtain s0 st' where i: "sem_init sync_boot 1 2 = Some (s0, st')"
    and s0: "permits s0 = 1" "max_permits s0 = 2"
    by (auto simp: sem_init_def lock_init_def next_striped_spin_lock_num_def sync_boot_def)
  have "sem_try_acquire s0 = (True, s0\<lparr>permits := 0\<rparr>)" using s0 by (simp add: sem_try_acquire_def)
  from sem_run.acquire [OF sem_run.start [of s0 "sint (1 :: u16)"] this]
  have "sem_run s0 (sint (1 :: u16)) (s0\<lparr>permits := 0\<rparr>) 0" by simp
  from sem_permits_accounted [OF i _ _ this] show ?thesis
    by (intro exI [of _ "s0\<lparr>permits := 0\<rparr>"]) simp
qed

section \<open>Timeouts\<close>

text \<open>The last access of the pool's timer has seen the counter at the given time or later.\<close>

definition clock_saw :: "absolute_time \<Rightarrow> 'm world \<Rightarrow> bool" where
  "clock_saw t w \<longleftrightarrow> (let tm = ap_timer (alarms w) in
     steady tm \<longrightarrow> to_us_since_boot t \<le> raw_time tm (accesses tm - 1))"

lemma time_reached_raw: "time_reached s t = (b, s') \<Longrightarrow> raw_time s' = raw_time s"
  by (auto simp: time_reached_def read_timerawh_def read_timerawl_def Let_def split: if_splits)

lemma wait_or_timeout_ok: "wait_ok others (clock_saw t) (unlock_with_wait_or_timeout run cb t others)"
proof -
  have "clock_saw t w2" if "unlock_with_wait_or_timeout run cb t others n w = Some (True, w2)" for n w w2
  proof -
    from that obtain s where s: "time_reached s t = (True, ap_timer (alarms w2))"
      by (auto simp: unlock_with_wait_or_timeout_def best_effort_wfe_or_timeout_def split: bind_splits prod.splits)
    then show ?thesis
      using time_reached_True [OF _ s] time_reached_raw [OF s] by (simp add: clock_saw_def steady_def)
  qed
  moreover have "memory w2 = others n (memory w)"
    if "unlock_with_wait_or_timeout run cb t others n w = Some (b, w2)" for n w w2 b
    using that by (auto simp: unlock_with_wait_or_timeout_def split: bind_splits)
  ultimately show ?thesis by (auto simp: wait_ok_def)
qed

text \<open>
  C32. When \<open>sem\_acquire\_block\_until\<close> returns true, the caller has taken exactly one permit,
  at the first look that found one; when it returns false no look found a permit, the
  semaphore is as the others left it, and a timer that does not run backwards has been seen
  at the deadline or later.
\<close>

theorem sem_acquire_block_until_outcome:
  assumes "sem_acquire_block_until run cb others w t = Some (b, w')"
  shows "\<exists>k. looked_until others (\<lambda>s. 0 < sem_available s) (memory w) 0 k \<and>
    (if b then 0 < sem_available (at_look others k (memory w))
         \<and> sem_available (memory w') = sem_available (at_look others k (memory w)) - 1
     else memory w' = at_look others k (memory w) \<and> clock_saw t w')"
proof -
  from assms obtain r where r: "b = (r \<noteq> None)"
    and "retry sem_attempt (unlock_with_wait_or_timeout run cb t others) 0 w = Some (r, w')"
    by (auto simp: sem_acquire_block_until_def split: bind_splits)
  from retry_outcome [OF this(2) sem_attempts wait_or_timeout_ok, of "memory w"] r show ?thesis
    by (auto simp: outcome_def sem_available_def sint16_pred split: if_splits)
qed

theorem sem_acquire_block_until_outcome_witness:
  "\<exists>p w w'. alarm_pool_create pool_handler (boot_timer slow_clock) 3 4 = Some p \<and> alarms w = p
     \<and> sem_acquire_block_until (constant_repeat 0) 2 (\<lambda>_ s. s) w (Absolute_time 900) = Some (True, w')
     \<and> sem_available (memory w) = 1 \<and> sem_available (memory w') = 0"
proof -
  obtain p where p: "alarm_pool_create pool_handler (boot_timer slow_clock) 3 4 = Some p"
    by (rule slow_pool)
  obtain s st where "sem_init sync_boot 1 2 = Some (s, st)" and s: "permits s = 1"
    by (auto simp: sem_init_def lock_init_def next_striped_spin_lock_num_def sync_boot_def)
  let ?w = "\<lparr>memory = s, alarms = p\<rparr>"
  have at: "at_look (\<lambda>_ s. s) k x = x" for k and x :: semaphore by (induction k) simp_all
  obtain w' where w': "sem_acquire_block_until (constant_repeat 0) 2 (\<lambda>_ s. s) ?w (Absolute_time 900) = Some (True, w')"
    using s by (auto simp: sem_acquire_block_until_def retry.simps sem_attempt_def)
  from sem_acquire_block_until_outcome [OF w'] have "sem_available (memory w') = sem_available s - 1"
    by (simp add: at)
  then show ?thesis using p w' s
    by (intro exI [of _ p] exI [of _ ?w] exI [of _ w']) (simp add: sem_available_def)
qed

end
