(* ===== verification/Queue_Correct.thy ===== *)
theory Queue_Correct
  imports Queue Sync_Props
begin

text \<open>
  The queue of \<open>queue.c\<close> is a bounded FIFO: the interpretation of \<open>bounded\_fifo\<close> on its
  locked operations, with the properties that follow for any interleaving of producers and
  consumers, and the high water mark.
\<close>

section \<open>Slots and levels\<close>

abbreviation nslots :: "queue \<Rightarrow> nat" where
  "nslots q \<equiv> unat (element_count q) + 1"

definition slot :: "queue \<Rightarrow> nat \<Rightarrow> u8 list" where
  "slot q i = take (unat (element_size q)) (drop (i * unat (element_size q)) (q_data q))"

definition level :: "queue \<Rightarrow> nat" where
  "level q = (if unat (rptr q) \<le> unat (wptr q) then unat (wptr q) - unat (rptr q)
     else unat (wptr q) + nslots q - unat (rptr q))"

definition queue_content :: "queue \<Rightarrow> u8 list list" where
  "queue_content q = map (\<lambda>i. slot q ((unat (rptr q) + i) mod nslots q)) [0..<level q]"

definition queue_inv :: "queue \<Rightarrow> bool" where
  "queue_inv q \<longleftrightarrow> unat (wptr q) < nslots q \<and> unat (rptr q) < nslots q
     \<and> nslots q * unat (element_size q) \<le> length (q_data q)"

lemma u16_bound: "unat (x :: u16) < 65536"
  using unsigned_less [of x, where ?'a = nat] by simp

lemma level_less: "queue_inv q \<Longrightarrow> level q < nslots q"
  by (auto simp: queue_inv_def level_def)

lemma unat_level: "queue_inv q \<Longrightarrow> unat (queue_get_level_unsafe q) = level q"
proof -
  assume i: "queue_inv q"
  have b: "unat (element_count q) < 65536" by (rule u16_bound)
  let ?i = "if uint (wptr q) - uint (rptr q) < 0
     then uint (wptr q) - uint (rptr q) + (uint (element_count q) + 1) else uint (wptr q) - uint (rptr q)"
  have le: "unat (rptr q) \<le> unat (wptr q) \<longleftrightarrow> uint (rptr q) \<le> uint (wptr q)"
    by (simp add: word_le_def [symmetric] word_le_nat_alt)
  have "unat (rptr q) \<le> unat (wptr q) + nslots q" using i by (simp add: queue_inv_def)
  then have "?i = int (level q)"
    unfolding level_def le by (simp add: of_nat_diff le)
  then have "queue_get_level_unsafe q = word_of_int (int (level q))"
    by (simp only: queue_get_level_unsafe_def Let_def)
  then have "queue_get_level_unsafe q = word_of_nat (level q)" by simp
  moreover have "level q < 2 ^ 32" using level_less [OF i] b by simp
  ultimately show ?thesis by (simp add: unat_of_nat)
qed

lemma unat_ucast_16_32 [simp]: "unat (ucast (x :: u16) :: u32) = unat x"
  unfolding unsigned_ucast_eq by (rule take_bit_nat_eq_self) (use u16_bound [of x] in simp)

lemma level_full: "queue_inv q \<Longrightarrow> queue_get_level_unsafe q = ucast (element_count q) \<longleftrightarrow> level q = unat (element_count q)"
  by (simp add: unat_level [symmetric] word_unat_eq_iff)

lemma level_empty: "queue_inv q \<Longrightarrow> queue_get_level_unsafe q = 0 \<longleftrightarrow> level q = 0"
  by (simp add: unat_level [symmetric] unat_eq_zero)

lemma element_ptr_in:
  fixes i :: u16
  assumes "unat i < nslots q"
  shows "element_ptr q (ucast i) = Some (unat i * unat (element_size q))"
proof -
  have "unat i * unat (element_size q) \<le> 65535 * 65535"
    using u16_bound [of i] u16_bound [of "element_size q"] by (intro mult_le_mono) simp_all
  then have "unat (ucast i * ucast (element_size q) :: u32) = unat i * unat (element_size q)"
    by (simp add: unat_mult_lem [THEN iffD1])
  moreover have "(ucast i :: u32) \<le> ucast (element_count q)"
    using assms by (simp add: word_le_nat_alt)
  ultimately show ?thesis by (simp add: element_ptr_def)
qed

lemma slot_in_data: "queue_inv q \<Longrightarrow> i < nslots q \<Longrightarrow> i * unat (element_size q) + unat (element_size q) \<le> length (q_data q)"
proof -
  assume q: "queue_inv q" and "i < nslots q"
  then have "(i + 1) * unat (element_size q) \<le> nslots q * unat (element_size q)" by (intro mult_le_mono) simp_all
  also have "\<dots> \<le> length (q_data q)" using q by (simp add: queue_inv_def)
  finally show ?thesis by (simp add: add.commute)
qed

text \<open>The index is advanced modulo the number of slots, also when there are 65536.\<close>

lemma inc_index_mod:
  assumes "unat i < nslots q"
  shows "unat (fst (inc_index q i)) = (unat i + 1) mod nslots q"
proof (cases "unat i + 1 = nslots q")
  case True
  show ?thesis
  proof (cases "unat i = 65535")
    case True
    then have "i = - 1" by (simp add: word_unat_eq_iff unsigned_minus_1_eq_mask mask_eq_exp_minus_1)
    with True \<open>unat i + 1 = nslots q\<close> show ?thesis by (simp add: inc_index_def Let_def)
  next
    case False
    then have "unat (i + 1) = unat i + 1" using u16_bound [of i] by (simp add: unat_word_ariths)
    with True show ?thesis by (simp add: inc_index_def Let_def word_less_nat_alt)
  qed
next
  case False
  with assms have l: "unat i + 1 < nslots q" by simp
  then have "unat (i + 1) = unat i + 1" using u16_bound [of "element_count q"] by (simp add: unat_word_ariths)
  with l show ?thesis by (simp add: inc_index_def Let_def word_less_nat_alt)
qed

lemma inc_index_fields [simp]:
  "q_data (snd (inc_index q i)) = q_data q" "wptr (snd (inc_index q i)) = wptr q"
  "rptr (snd (inc_index q i)) = rptr q" "element_size (snd (inc_index q i)) = element_size q"
  "element_count (snd (inc_index q i)) = element_count q"
  by (simp_all add: inc_index_def Let_def)

text \<open>The write index is the level ahead of the read index.\<close>

lemma wptr_eq: "queue_inv q \<Longrightarrow> unat (wptr q) = (unat (rptr q) + level q) mod nslots q"
  by (auto simp: queue_inv_def level_def mod_if)

lemma level_unique:
  assumes "queue_inv q" and "n < nslots q" and "unat (wptr q) = (unat (rptr q) + n) mod nslots q"
  shows "level q = n"
  using assms by (auto simp: queue_inv_def level_def mod_if split: if_splits)

lemma slot_cong:
  "q_data q' = q_data q \<Longrightarrow> element_size q' = element_size q \<Longrightarrow> slot q' i = slot q i"
  by (simp add: slot_def)

lemma mod_add_neq: "i < l \<Longrightarrow> l < n \<Longrightarrow> (r + i) mod n \<noteq> (r + l) mod (n :: nat)"
proof
  assume il: "i < l" "l < n" and eq: "(r + i) mod n = (r + l) mod n"
  from eq il(1) have "n dvd (r + l) - (r + i)" by (metis mod_eq_dvd_iff_nat add_le_mono le_refl less_imp_le)
  with il show False by (auto dest: dvd_imp_le)
qed

section \<open>The operations on the content\<close>

lemma queue_add_content:
  assumes q: "queue_inv q" and b: "length bytes = unat (element_size q)"
    and sp: "level q < unat (element_count q)"
  shows "\<exists>q'. queue_add_locked bytes q = Some (Some (), q') \<and> queue_inv q'
    \<and> queue_content q' = queue_content q @ [bytes] \<and> level q' = level q + 1
    \<and> element_size q' = element_size q \<and> element_count q' = element_count q"
proof -
  have w: "unat (wptr q) < nslots q" using q by (simp add: queue_inv_def)
  let ?o = "unat (wptr q) * unat (element_size q)"
  have "?o + unat (element_size q) \<le> length (q_data q)" by (rule slot_in_data [OF q w])
  then obtain d where d: "memcpy_in (q_data q) ?o bytes (unat (element_size q)) = Some d"
    using b by (simp add: memcpy_in_def)
  let ?q1 = "q\<lparr>q_data := d\<rparr>"
  let ?q' = "(snd (inc_index ?q1 (wptr q)))\<lparr>wptr := fst (inc_index ?q1 (wptr q))\<rparr>"
  have e: "queue_add_locked bytes q = Some (Some (), ?q')"
    using sp level_full [OF q] element_ptr_in [OF w] d by (simp add: queue_add_locked_def split: prod.splits)
  have w': "unat (wptr ?q') = (unat (wptr q) + 1) mod nslots q"
    using inc_index_mod [of "wptr q" ?q1] w by simp
  have inv': "queue_inv ?q'"
    using q w' memcpy_in_length [OF d] by (simp add: queue_inv_def)
  have lv: "level ?q' = level q + 1"
    by (rule level_unique [OF inv']) (use sp w' wptr_eq [OF q] in \<open>simp_all add: mod_simps\<close>)
  have s_new: "slot ?q' ((unat (rptr q) + level q) mod nslots q) = bytes"
    using memcpy_in_same [OF d] b wptr_eq [OF q] by (simp add: slot_def)
  have s_old: "slot ?q' ((unat (rptr q) + i) mod nslots q) = slot q ((unat (rptr q) + i) mod nslots q)"
    if "i < level q" for i
  proof -
    let ?i = "(unat (rptr q) + i) mod nslots q"
    have "?i \<noteq> unat (wptr q)" unfolding wptr_eq [OF q] by (rule mod_add_neq [OF that level_less [OF q]])
    then have "(?i + 1) * unat (element_size q) \<le> ?o \<or> (unat (wptr q) + 1) * unat (element_size q) \<le> ?i * unat (element_size q)"
      unfolding nat_neq_iff by (metis Suc_eq_plus1 Suc_leI mult_le_mono1)
    then show ?thesis
      by (simp add: slot_def algebra_simps memcpy_in_apart [OF d])
  qed
  have "queue_content ?q' = queue_content q @ [bytes]"
    using s_new s_old by (simp add: queue_content_def lv)
  with e inv' lv show ?thesis by auto
qed

lemma queue_content_Cons:
  assumes q: "queue_inv q" and c: "queue_content q = x # xs"
  shows "x = slot q (unat (rptr q))" "level q \<noteq> 0"
    "xs = map (\<lambda>i. slot q ((unat (rptr q) + Suc i) mod nslots q)) [0..<level q - 1]"
proof -
  show l: "level q \<noteq> 0" by (rule notI) (use c in \<open>simp add: queue_content_def\<close>)
  then have "[0..<level q] = 0 # map Suc [0..<level q - 1]"
    by (simp add: upt_conv_Cons map_Suc_upt)
  then have "queue_content q = slot q (unat (rptr q) mod nslots q)
      # map (\<lambda>i. slot q ((unat (rptr q) + Suc i) mod nslots q)) [0..<level q - 1]"
    unfolding queue_content_def by simp
  with c q show "x = slot q (unat (rptr q))"
    "xs = map (\<lambda>i. slot q ((unat (rptr q) + Suc i) mod nslots q)) [0..<level q - 1]"
    by (auto simp: queue_inv_def)
qed

lemma read_slot:
  assumes q: "queue_inv q"
  shows "element_ptr q (ucast (rptr q)) = Some (unat (rptr q) * unat (element_size q))"
    "memcpy_out (q_data q) (unat (rptr q) * unat (element_size q)) (unat (element_size q)) = Some (slot q (unat (rptr q)))"
proof -
  have r: "unat (rptr q) < nslots q" using q by (simp add: queue_inv_def)
  show "element_ptr q (ucast (rptr q)) = Some (unat (rptr q) * unat (element_size q))"
    by (rule element_ptr_in [OF r])
  show "memcpy_out (q_data q) (unat (rptr q) * unat (element_size q)) (unat (element_size q)) = Some (slot q (unat (rptr q)))"
    using slot_in_data [OF q r] by (simp add: memcpy_out_def slot_def)
qed

lemma queue_remove_content:
  assumes q: "queue_inv q" and c: "queue_content q = x # xs"
  shows "\<exists>q'. queue_remove_locked q = Some (Some x, q') \<and> queue_inv q' \<and> queue_content q' = xs
    \<and> level q' = level q - 1 \<and> element_size q' = element_size q \<and> element_count q' = element_count q"
proof -
  note cc = queue_content_Cons [OF q c]
  let ?q' = "(snd (inc_index q (rptr q)))\<lparr>rptr := fst (inc_index q (rptr q))\<rparr>"
  have e: "queue_remove_locked q = Some (Some x, ?q')"
    using level_empty [OF q] cc read_slot [OF q] by (simp add: queue_remove_locked_def split: prod.splits)
  have r: "unat (rptr q) < nslots q" using q by (simp add: queue_inv_def)
  have r': "unat (rptr ?q') = (unat (rptr q) + 1) mod nslots q" using inc_index_mod [OF r] by simp
  have inv': "queue_inv ?q'" using q r' by (simp add: queue_inv_def)
  obtain l where "level q = Suc l" using cc(2) not0_implies_Suc by auto
  then have "unat (wptr ?q') = (unat (rptr ?q') + (level q - 1)) mod nslots ?q'"
    using wptr_eq [OF q] r' by (simp add: mod_simps)
  then have lv: "level ?q' = level q - 1"
    by (intro level_unique [OF inv']) (use level_less [OF q] in simp_all)
  have "(unat (rptr ?q') + i) mod nslots ?q' = (unat (rptr q) + Suc i) mod nslots q" for i
    using r' by (simp add: mod_simps)
  then have "queue_content ?q' = xs"
    unfolding queue_content_def lv cc(3) by (simp add: slot_cong [of ?q' q])
  with e inv' lv show ?thesis by auto
qed

lemma queue_peek_content:
  assumes q: "queue_inv q" and c: "queue_content q = x # xs"
  shows "queue_peek_locked q = Some (Some x, q)"
  using queue_content_Cons [OF q c] read_slot [OF q] level_empty [OF q]
  by (simp add: queue_peek_locked_def)

lemma length_content [simp]: "length (queue_content q) = level q"
  by (simp add: queue_content_def)

lemma content_Nil: "queue_content q = [] \<longleftrightarrow> level q = 0"
  by (simp flip: length_0_conv)

text \<open>The invariant with the two sizes, which no operation changes.\<close>

definition queue_of :: "u16 \<Rightarrow> u16 \<Rightarrow> queue \<Rightarrow> bool" where
  "queue_of esize ecount q \<longleftrightarrow> queue_inv q \<and> element_size q = esize \<and> element_count q = ecount"

interpretation pico_queue: bounded_fifo "queue_of esize ecount" queue_content "unat ecount"
  "\<lambda>bytes. length bytes = unat esize" queue_add_locked queue_remove_locked queue_peek_locked
  for esize ecount
proof (unfold_locales, goal_cases)
  case (1 q)
  then show ?case using level_less [of q] by (simp add: queue_of_def)
next
  case (2 q x)
  then show ?case using queue_add_content [of q x] by (auto simp: queue_of_def)
next
  case (3 q x)
  then show ?case using level_full [of q] by (auto simp: queue_of_def queue_add_locked_def)
next
  case (4 q x xs)
  then show ?case using queue_remove_content [of q x xs] by (auto simp: queue_of_def)
next
  case (5 q)
  then show ?case using level_empty [of q] by (auto simp: queue_of_def queue_remove_locked_def content_Nil)
next
  case (6 q x xs)
  then show ?case using queue_peek_content by (auto simp: queue_of_def)
next
  case (7 q)
  then show ?case using level_empty [of q] by (auto simp: queue_of_def queue_peek_locked_def content_Nil)
qed

lemma queue_init_inv:
  assumes "queue_init_with_spinlock calloc q0 esize ecount n = Some q"
    and "length (calloc (ecount + 1) esize) = unat (ecount + 1) * unat esize"
    and "unat ecount < 2 ^ 16" and "unat esize < 2 ^ 16"
  shows "queue_of (ucast esize) (ucast ecount) q \<and> queue_content q = []"
proof -
  have s: "unat (ucast ecount :: u16) = unat ecount" "unat (ucast esize :: u16) = unat esize"
    using assms(3,4) by (simp_all add: unsigned_ucast_eq take_bit_nat_eq_self)
  moreover have "unat (ecount + 1) = unat ecount + 1"
    using assms(3) by (simp add: unat_word_ariths)
  ultimately show ?thesis
    using assms(1,2) by (auto simp: queue_init_with_spinlock_def queue_of_def queue_inv_def content_Nil
        level_def split: bind_splits)
qed

section \<open>Properties\<close>

text \<open>
  C2. The queue is a first-in first-out channel: after any interleaving of locked adds,
  removes and peeks on a new queue, what was accepted is what was handed out followed by
  the content, the content never exceeds \<open>element\_count\<close>, the level is its length, and the
  next add is refused exactly if the queue is full, the next remove exactly if it is empty.
\<close>

theorem queue_is_fifo:
  assumes "queue_init_with_spinlock calloc q0 esize ecount n = Some q1"
    and "length (calloc (ecount + 1) esize) = unat (ecount + 1) * unat esize"
    and "unat ecount < 2 ^ 16" and "unat esize < 2 ^ 16"
    and "fifo_run queue_add_locked queue_remove_locked queue_peek_locked (\<lambda>b. length b = unat esize)
      q1 ins outs q"
  shows "\<exists>rest. ins = outs @ rest \<and> length rest \<le> unat ecount
    \<and> unat (queue_get_level q) = length rest
    \<and> (\<forall>b. length b = unat esize \<longrightarrow> (\<exists>r q'. queue_add_locked b q = Some (r, q')
          \<and> (r = None \<longleftrightarrow> queue_is_full q)))
    \<and> (\<exists>q'. queue_remove_locked q = Some (if queue_is_empty q then None else Some (hd rest), q'))"
proof -
  have z: "unat (ucast esize :: u16) = unat esize" "unat (ucast ecount :: u16) = unat ecount"
    using assms(3,4) by (simp_all add: unsigned_ucast_eq take_bit_nat_eq_self)
  have i: "queue_of (ucast esize) (ucast ecount) q1" "queue_content q1 = []"
    using queue_init_inv [OF assms(1-4)] by auto
  have "fifo_run queue_add_locked queue_remove_locked queue_peek_locked (\<lambda>b. length b = unat (ucast esize :: u16))
      q1 ins outs q" using assms(5) by (simp only: z)
  from pico_queue.run_content [OF this i(1)] i(2)
  have q: "queue_of (ucast esize) (ucast ecount) q" and c: "ins = outs @ queue_content q" by auto
  then have qi: "queue_inv q" by (simp add: queue_of_def)
  have full: "queue_is_full q \<longleftrightarrow> length (queue_content q) = unat ecount"
    using level_full [OF qi] q z by (simp add: queue_is_full_def queue_get_level_def queue_of_def)
  have empty: "queue_is_empty q \<longleftrightarrow> queue_content q = []"
    using level_empty [OF qi] by (simp add: queue_is_empty_def queue_get_level_def content_Nil)
  have "\<exists>r q'. queue_add_locked b q = Some (r, q') \<and> (r = None \<longleftrightarrow> queue_is_full q)"
    if b: "length b = unat esize" for b
    using pico_queue.add_space [OF q, of b] pico_queue.add_full [OF q, of b] pico_queue.bounded [OF q] b z full
    by (cases "length (queue_content q) = unat ecount") auto
  moreover have "\<exists>q'. queue_remove_locked q = Some (if queue_is_empty q then None else Some (hd (queue_content q)), q')"
    using pico_queue.remove_some [OF q] pico_queue.remove_empty [OF q] empty
    by (cases "queue_content q") auto
  ultimately show ?thesis
    using c pico_queue.bounded [OF q] unat_level [OF qi] z
    by (intro exI [of _ "queue_content q"]) (simp add: queue_get_level_def)
qed

theorem queue_is_fifo_witness:
  "\<exists>q1 q q'. queue_init_with_spinlock (\<lambda>n m. replicate (unat n * unat m) 0)
       \<lparr>q_core = \<lparr>spin_lock = None\<rparr>, q_data = [], wptr = 9, rptr = 7, element_size = 0, element_count = 0,
         max_level = 0\<rparr> 2 1 5 = Some q1
     \<and> queue_add_locked [3, 4] q1 = Some (Some (), q) \<and> queue_remove_locked q = Some (Some [3, 4], q')
     \<and> unat (queue_get_level q) = 1"
proof -
  let ?calloc = "\<lambda>n m. replicate (unat n * unat m) 0"
  let ?q0 = "\<lparr>q_core = \<lparr>spin_lock = None\<rparr>, q_data = [], wptr = 9, rptr = 7, element_size = 0,
    element_count = 0, max_level = 0\<rparr>"
  obtain q1 where q1: "queue_init_with_spinlock ?calloc ?q0 2 1 5 = Some q1"
    by (simp add: queue_init_with_spinlock_def lock_init_def)
  have run0: "fifo_run queue_add_locked queue_remove_locked queue_peek_locked (\<lambda>b. length b = unat (2 :: u32))
      q1 [] [] q1" by (rule fifo_run.start)
  have new: "queue_of 2 1 q1" "queue_content q1 = []" using queue_init_inv [OF q1] by auto
  then obtain q where q: "queue_add_locked [3, 4] q1 = Some (Some (), q)"
    using pico_queue.add_space [of 2 1 q1 "[3, 4]"] by auto
  from fifo_run.add [OF run0 _ q]
  have run: "fifo_run queue_add_locked queue_remove_locked queue_peek_locked (\<lambda>b. length b = unat (2 :: u32))
      q1 [[3, 4]] [] q" by simp
  from queue_is_fifo [OF q1 _ _ _ run] obtain q' where
    "unat (queue_get_level q) = 1"
    "queue_remove_locked q = Some (if queue_is_empty q then None else Some [3, 4], q')" by auto
  with q1 q show ?thesis by (auto simp: queue_is_empty_def)
qed

text \<open>
  C31. \<open>queue\_add\_blocking\<close> returns exactly if some look finds room, whatever the others do
  to the queue meanwhile; it has then appended the element, once, at the first such look.
\<close>

theorem queue_add_blocking_iff:
  assumes "\<And>k. queue_of esize ecount (at_look others k (memory w))" and "length bytes = unat esize"
  shows "(queue_add_blocking others w bytes \<noteq> None \<longleftrightarrow> (\<exists>k. \<not> queue_is_full (at_look others k (memory w))))
    \<and> (queue_add_blocking others w bytes = Some w' \<longrightarrow>
        (\<exists>k. looked_until others (\<lambda>q. \<not> queue_is_full q) (memory w) 0 k \<and>
          queue_content (memory w') = queue_content (at_look others k (memory w)) @ [bytes]))"
proof -
  let ?free = "\<lambda>q. \<not> queue_is_full q" and ?taken = "\<lambda>q. snd (the (queue_add_locked bytes q))"
  let ?X = "range (\<lambda>k. at_look others k (memory w))"
  have full: "queue_is_full q \<longleftrightarrow> length (queue_content q) = unat ecount" if "queue_of esize ecount q" for q
    using that level_full [of q] by (simp add: queue_is_full_def queue_get_level_def queue_of_def)
  have add: "queue_add_locked bytes q = (if ?free q then Some (Some (), ?taken q) else Some (None, q))
      \<and> (?free q \<longrightarrow> queue_content (?taken q) = queue_content q @ [bytes])"
    if q: "queue_of esize ecount q" for q
    using pico_queue.add_space [OF q assms(2)] pico_queue.add_full [OF q, of bytes] pico_queue.bounded [OF q] full [OF q]
    by (cases "length (queue_content q) = unat ecount") auto
  have att: "attempts (queue_add_locked bytes) ?free ?taken ?X"
    unfolding attempts_def using add assms(1) by blast
  have ret: "queue_add_blocking others w bytes \<noteq> None" if "?free (at_look others k (memory w))" for k
  proof -
    let ?k = "LEAST k. ?free (at_look others k (memory w))"
    have "?free (at_look others (0 + ?k) (memory w))"
      using that LeastI_ex [of "\<lambda>k. ?free (at_look others k (memory w))"] by auto
    then have "retry (queue_add_locked bytes) (unlock_with_wait others) 0 w
        = Some (Some (), w\<lparr>memory := ?taken (at_look others (0 + ?k) (memory w))\<rparr>)"
      by (intro retry_wait_returns [OF att]) (auto dest: not_less_Least)
    then show ?thesis by (simp add: queue_add_blocking_def queue_add_internal_def queue_internal_def)
  qed
  have out: "\<exists>k. looked_until others ?free (memory w) 0 k \<and> ?free (at_look others k (memory w))
      \<and> queue_content (memory v) = queue_content (at_look others k (memory w)) @ [bytes]"
    if v: "queue_add_blocking others w bytes = Some v" for v
  proof -
    from v obtain r where "retry (queue_add_locked bytes) (unlock_with_wait others) 0 w = Some (r, v)"
      by (auto simp: queue_add_blocking_def queue_add_internal_def queue_internal_def split: bind_splits)
    from retry_outcome [OF this att wait_event_ok]
    show ?thesis using add [OF assms(1)] by (auto simp: outcome_def split: if_splits)
  qed
  show ?thesis using ret out by blast
qed

theorem queue_add_blocking_iff_witness:
  "\<exists>w w'. alarm_pool_create pool_handler (boot_timer slow_clock) 3 4 = Some (alarms w)
     \<and> queue_content (memory w) = [] \<and> queue_add_blocking (\<lambda>_ q. q) w [7] = Some w'
     \<and> queue_content (memory w') = [[7]]"
proof -
  obtain p where p: "alarm_pool_create pool_handler (boot_timer slow_clock) 3 4 = Some p"
    by (rule slow_pool)
  let ?q = "\<lparr>q_core = \<lparr>spin_lock = Some 5\<rparr>, q_data = [0, 0, 0 :: u8], wptr = 0, rptr = 0,
      element_size = 1, element_count = 2, max_level = 0\<rparr>"
  let ?w = "\<lparr>memory = ?q, alarms = p\<rparr>"
  have at: "at_look (\<lambda>_ q. q) k x = x" for k and x :: queue by (induction k) simp_all
  have q: "queue_of 1 2 ?q" "queue_content ?q = []" "\<not> queue_is_full ?q"
    by (simp_all add: queue_of_def queue_inv_def content_Nil level_def queue_is_full_def queue_get_level_def
        queue_get_level_unsafe_def)
  from queue_add_blocking_iff [of 1 2 "\<lambda>_ q. q" ?w "[7]"] q
  have r: "queue_add_blocking (\<lambda>_ q. q) ?w [7] \<noteq> None" by (simp add: at)
  then obtain w' where w': "queue_add_blocking (\<lambda>_ q. q) ?w [7] = Some w'" by auto
  from queue_add_blocking_iff [of 1 2 "\<lambda>_ q. q" ?w "[7]" w'] q w'
  have "queue_content (memory w') = [[7]]" by (auto simp: at)
  with p w' q show ?thesis by (intro exI [of _ ?w] exI [of _ w']) simp
qed

text \<open>
  The high water mark lags: an add counts the level before it, so after an add that
  makes a new maximum, \<open>queue\_get\_max\_level\<close> is one less than the level reached.
\<close>

theorem queue_max_level_lags:
  assumes "queue_inv q" and "length bytes = unat (element_size q)"
    and "level q < unat (element_count q)" and "unat (max_level q) \<le> level q"
  shows "\<exists>q'. queue_add_locked bytes q = Some (Some (), q') \<and> unat (queue_get_level q') = level q + 1
    \<and> unat (queue_get_max_level q') = level q"
proof -
  from queue_add_content [OF assms(1-3)] obtain q' where
    q': "queue_add_locked bytes q = Some (Some (), q')" "queue_inv q'" "level q' = level q + 1" by auto
  have b: "level q < 65536" using level_less [OF assms(1)] u16_bound [of "element_count q"] by simp
  have lv: "unat (ucast (queue_get_level_unsafe q) :: u16) = level q"
    using b unat_level [OF assms(1)] by (simp add: unsigned_ucast_eq take_bit_nat_eq_self)
  have "queue_get_level_unsafe (q\<lparr>q_data := d\<rparr>) = queue_get_level_unsafe q" for d
    by (simp add: queue_get_level_unsafe_def Let_def)
  with q'(1) have "max_level q' = (if max_level q < ucast (queue_get_level_unsafe q)
      then ucast (queue_get_level_unsafe q) else max_level q)"
    by (auto simp: queue_add_locked_def inc_index_def Let_def split: bind_splits if_splits)
  then have "unat (max_level q') = level q"
    using assms(4) lv by (auto simp: word_less_nat_alt)
  with q' unat_level [OF q'(2)] show ?thesis by (auto simp: queue_get_level_def queue_get_max_level_def)
qed

theorem queue_max_level_lags_witness:
  "\<exists>q'. queue_add_locked [7] \<lparr>q_core = \<lparr>spin_lock = Some 5\<rparr>, q_data = [0, 0, 0], wptr = 0, rptr = 0,
      element_size = 1, element_count = 2, max_level = 0\<rparr> = Some (Some (), q')
    \<and> unat (queue_get_level q') = 1 \<and> unat (queue_get_max_level q') = 0"
proof -
  let ?q = "\<lparr>q_core = \<lparr>spin_lock = Some 5\<rparr>, q_data = [0, 0, 0 :: u8], wptr = 0, rptr = 0,
      element_size = 1, element_count = 2, max_level = 0\<rparr>"
  have "queue_inv ?q" "level ?q = 0" by (simp_all add: queue_inv_def level_def)
  with queue_max_level_lags [of ?q "[7]"] show ?thesis by simp
qed

end
