(* ===== verification/Heap4.thy ===== *)
theory Heap4
  imports Prelude
begin

text \<open>
  The allocator behind \<open>malloc\<close> of the bare-metal Arduino builds
  (\<open>arduino/cores/RP2040/arduino\_heap\_4.c\<close>) and the C library calls on it
  (\<open>wizio/pico/memory.c\<close>). Memory is seen through the block headers: \<open>mem a\<close> is the
  \<open>BlockLink\_t\<close> at address \<open>a\<close>. The static structure \<open>xStart\<close> lies at the address \<open>xStart h\<close>.
  Every operation runs with the interrupts off and is one step.
\<close>

record block_link =
  pxNextFreeBlock :: u32
  xBlockSize :: u32

record heap4 =
  mem :: "u32 \<Rightarrow> block_link"
  xStart :: u32
  pxEnd :: u32
  ucHeap :: u32
  ucHeapEnd :: u32
  xFreeBytesRemaining :: u32
  xMinimumEverFreeBytesRemaining :: u32
  xNumberOfSuccessfulAllocations :: u32
  xNumberOfSuccessfulFrees :: u32
  xBlockAllocatedBit :: u32

definition portBYTE_ALIGNMENT :: u32 where "portBYTE_ALIGNMENT = 8"
definition portBYTE_ALIGNMENT_MASK :: u32 where "portBYTE_ALIGNMENT_MASK = 7"

text \<open>\<open>sizeof(BlockLink\_t)\<close> is 8, a pointer and a \<open>size\_t\<close>.\<close>

definition xHeapStructSize :: u32 where
  "xHeapStructSize = (8 + (portBYTE_ALIGNMENT - 1)) AND NOT portBYTE_ALIGNMENT_MASK"

definition heapMINIMUM_BLOCK_SIZE :: u32 where
  "heapMINIMUM_BLOCK_SIZE = push_bit 1 xHeapStructSize"

definition ucHeapSize :: "heap4 \<Rightarrow> u32" where
  "ucHeapSize h = ucHeapEnd h - ucHeap h"

abbreviation next_of :: "heap4 \<Rightarrow> u32 \<Rightarrow> u32" where
  "next_of h a \<equiv> pxNextFreeBlock (mem h a)"

abbreviation size_of :: "heap4 \<Rightarrow> u32 \<Rightarrow> u32" where
  "size_of h a \<equiv> xBlockSize (mem h a)"

definition set_next :: "u32 \<Rightarrow> u32 \<Rightarrow> heap4 \<Rightarrow> heap4" where
  "set_next a v h = h\<lparr>mem := (mem h)(a := (mem h a)\<lparr>pxNextFreeBlock := v\<rparr>)\<rparr>"

definition set_size :: "u32 \<Rightarrow> u32 \<Rightarrow> heap4 \<Rightarrow> heap4" where
  "set_size a v h = h\<lparr>mem := (mem h)(a := (mem h a)\<lparr>xBlockSize := v\<rparr>)\<rparr>"

section \<open>Initialisation\<close>

definition prvHeapInit :: "heap4 \<Rightarrow> heap4" where
  "prvHeapInit h =
     (let total = ucHeapSize h;
          addr = ucHeap h;
          (addr, total) =
            (if addr AND portBYTE_ALIGNMENT_MASK \<noteq> 0
             then let a = (addr + (portBYTE_ALIGNMENT - 1)) AND NOT portBYTE_ALIGNMENT_MASK
                  in (a, total - (a - ucHeap h))
             else (addr, total));
          aligned = addr;
          h1 = set_size (xStart h) 0 (set_next (xStart h) aligned h);
          end = (aligned + total - xHeapStructSize) AND NOT portBYTE_ALIGNMENT_MASK;
          h2 = set_next end 0 (set_size end 0 (h1\<lparr>pxEnd := end\<rparr>));
          h3 = set_next aligned end (set_size aligned (end - aligned) h2)
      in h3\<lparr>xMinimumEverFreeBytesRemaining := size_of h3 aligned,
            xFreeBytesRemaining := size_of h3 aligned,
            xBlockAllocatedBit := push_bit (4 * 8 - 1) 1\<rparr>)"

section \<open>The free list\<close>

text \<open>The loop that looks for the last free block below the address \<open>x\<close>.\<close>

partial_function (option) find_insert :: "heap4 \<Rightarrow> u32 \<Rightarrow> u32 \<Rightarrow> u32 option" where
  "find_insert h it x = (if next_of h it < x then find_insert h (next_of h it) x else Some it)"

declare find_insert.simps [code]

definition prvInsertBlockIntoFreeList :: "heap4 \<Rightarrow> u32 \<Rightarrow> heap4 option" where
  "prvInsertBlockIntoFreeList h x = do {
     it \<leftarrow> find_insert h (xStart h) x;
     let (x, h) = (if it + size_of h it = x
       then (it, set_size it (size_of h it + size_of h x) h) else (x, h));
     let h = (if x + size_of h x = next_of h it
       then if next_of h it \<noteq> pxEnd h
         then let nx = next_of h it;
                  h = set_size x (size_of h x + size_of h nx) h
              in set_next x (next_of h (next_of h it)) h
         else set_next x (pxEnd h) h
       else set_next x (next_of h it) h);
     Some (if it \<noteq> x then set_next it x h else h) }"

section \<open>Allocating and freeing\<close>

text \<open>The request with room for the header, rounded up.\<close>

definition rounded_request :: "u32 \<Rightarrow> u32 option" where
  "rounded_request w =
     (if w > 0 then
        let w = w + xHeapStructSize in
        if w AND portBYTE_ALIGNMENT_MASK \<noteq> 0 then do {
          let w = w + (portBYTE_ALIGNMENT - (w AND portBYTE_ALIGNMENT_MASK));
          c_assert (w AND portBYTE_ALIGNMENT_MASK = 0);
          Some w }
        else Some w
      else Some w)"

text \<open>The loop over the free blocks gives the previous block and the block.\<close>

partial_function (option) first_fit :: "heap4 \<Rightarrow> u32 \<Rightarrow> u32 \<Rightarrow> u32 \<Rightarrow> (u32 \<times> u32) option" where
  "first_fit h prev blk w =
     (if size_of h blk < w \<and> next_of h blk \<noteq> 0 then first_fit h blk (next_of h blk) w
      else Some (prev, blk))"

declare first_fit.simps [code]

text \<open>Accounting for the block and giving it to the application.\<close>

definition own_block :: "heap4 \<Rightarrow> u32 \<Rightarrow> heap4" where
  "own_block h blk =
     (let rest = xFreeBytesRemaining h - size_of h blk;
          h = h\<lparr>xFreeBytesRemaining := rest, xMinimumEverFreeBytesRemaining :=
            (if rest < xMinimumEverFreeBytesRemaining h then rest else xMinimumEverFreeBytesRemaining h)\<rparr>;
          h = set_size blk (size_of h blk OR xBlockAllocatedBit h) h;
          h = set_next blk 0 h
      in h\<lparr>xNumberOfSuccessfulAllocations := xNumberOfSuccessfulAllocations h + 1\<rparr>)"

text \<open>Taking the block out of the list, and splitting off what is not needed.\<close>

definition take_block :: "heap4 \<Rightarrow> u32 \<Rightarrow> u32 \<Rightarrow> u32 \<Rightarrow> heap4 option" where
  "take_block h prev blk w = do {
     let h = set_next prev (next_of h blk) h;
     h \<leftarrow> (if size_of h blk - w > heapMINIMUM_BLOCK_SIZE then do {
            let new = blk + w;
            c_assert (new AND portBYTE_ALIGNMENT_MASK = 0);
            let h = set_size new (size_of h blk - w) h;
            let h = set_size blk w h;
            prvInsertBlockIntoFreeList h new }
          else Some h);
     Some (own_block h blk) }"

definition pvPortMalloc :: "heap4 \<Rightarrow> u32 \<Rightarrow> (u32 \<times> heap4) option" where
  "pvPortMalloc h wanted = do {
     let h = (if pxEnd h = 0 then prvHeapInit h else h);
     (ret, h) \<leftarrow>
       (if wanted AND xBlockAllocatedBit h = 0 then do {
          w \<leftarrow> rounded_request wanted;
          if w > 0 \<and> w \<le> xFreeBytesRemaining h then do {
            (prev, blk) \<leftarrow> first_fit h (xStart h) (next_of h (xStart h)) w;
            if blk \<noteq> pxEnd h then do {
              let ret = next_of h prev + xHeapStructSize;
              h \<leftarrow> take_block h prev blk w;
              Some (ret, h) }
            else Some (0, h) }
          else Some (0, h) }
        else Some (0, h));
     c_assert (ret AND portBYTE_ALIGNMENT_MASK = 0);
     Some (ret, h) }"

definition vPortFree :: "heap4 \<Rightarrow> u32 \<Rightarrow> heap4 option" where
  "vPortFree h pv =
     (if pv \<noteq> 0 then do {
        let link = pv - xHeapStructSize;
        c_assert (size_of h link AND xBlockAllocatedBit h \<noteq> 0);
        c_assert (next_of h link = 0);
        if size_of h link AND xBlockAllocatedBit h \<noteq> 0 then
          if next_of h link = 0 then do {
            let h = set_size link (size_of h link AND NOT (xBlockAllocatedBit h)) h;
            let h = h\<lparr>xFreeBytesRemaining := xFreeBytesRemaining h + size_of h link\<rparr>;
            h \<leftarrow> prvInsertBlockIntoFreeList h link;
            Some (h\<lparr>xNumberOfSuccessfulFrees := xNumberOfSuccessfulFrees h + 1\<rparr>) }
          else Some h
        else Some h }
      else Some h)"

definition xPortGetFreeHeapSize :: "heap4 \<Rightarrow> u32" where
  "xPortGetFreeHeapSize h = xFreeBytesRemaining h"

definition xPortGetMinimumEverFreeHeapSize :: "heap4 \<Rightarrow> u32" where
  "xPortGetMinimumEverFreeHeapSize h = xMinimumEverFreeBytesRemaining h"

section \<open>The C library calls\<close>

text \<open>
  The bytes of the memory are a separate function here: the calls below touch only bytes
  behind a header.
\<close>

record c_heap =
  blocks :: heap4
  bytes :: "u32 \<Rightarrow> u8"

definition malloc :: "c_heap \<Rightarrow> u32 \<Rightarrow> (u32 \<times> c_heap) option" where
  "malloc c n = do { (p, h) \<leftarrow> pvPortMalloc (blocks c) n; Some (p, c\<lparr>blocks := h\<rparr>) }"

definition free :: "c_heap \<Rightarrow> u32 \<Rightarrow> c_heap option" where
  "free c p = (if p \<noteq> 0 then do { h \<leftarrow> vPortFree (blocks c) p; Some (c\<lparr>blocks := h\<rparr>) } else Some c)"

definition copy_bytes :: "u32 \<Rightarrow> u32 \<Rightarrow> u32 \<Rightarrow> (u32 \<Rightarrow> u8) \<Rightarrow> u32 \<Rightarrow> u8" where
  "copy_bytes to from n b = (\<lambda>a. if a - to < n then b (from + (a - to)) else b a)"

definition realloc :: "c_heap \<Rightarrow> u32 \<Rightarrow> u32 \<Rightarrow> (u32 \<times> c_heap) option" where
  "realloc c old newsize = do {
     (new, c) \<leftarrow> malloc c newsize;
     let c = (if new \<noteq> 0 \<and> old \<noteq> 0 then c\<lparr>bytes := copy_bytes new old newsize (bytes c)\<rparr> else c);
     c \<leftarrow> free c old;
     Some (new, c) }"

definition calloc :: "c_heap \<Rightarrow> u32 \<Rightarrow> u32 \<Rightarrow> (u32 \<times> c_heap) option" where
  "calloc c element n = do {
     let total = element * n;
     (ret, c) \<leftarrow> malloc c total;
     let c = (if ret \<noteq> 0 then c\<lparr>bytes := (\<lambda>a. if a - ret < total then 0 else bytes c a)\<rparr> else c);
     Some (ret, c) }"

end
