(* ===== verification/Heap4_Correct.thy ===== *)
theory Heap4_Correct
  imports Heap4
begin

text \<open>
  The memory between the heap's ends is a list of adjacent blocks, in address order, each
  free, used by the application or held by the operation that is running. The free list is
  exactly the free blocks of this list; inserting a block merges it with free neighbours.
\<close>

section \<open>Blocks\<close>

datatype blk_use = Free | Used | Held

type_synonym blk = "nat \<times> nat \<times> blk_use"

fun tiles :: "nat \<Rightarrow> blk list \<Rightarrow> nat \<Rightarrow> bool" where
  "tiles a [] e \<longleftrightarrow> a = e"
| "tiles a ((x, n, u) # bs) e \<longleftrightarrow> x = a \<and> 0 < n \<and> tiles (a + n) bs e"

fun frees :: "blk list \<Rightarrow> nat list" where
  "frees [] = []"
| "frees ((x, n, u) # bs) = (if u = Free then x # frees bs else frees bs)"

abbreviation is_free :: "blk \<Rightarrow> bool" where "is_free b \<equiv> snd (snd b) = Free"

fun coalesced :: "blk list \<Rightarrow> bool" where
  "coalesced [] \<longleftrightarrow> True"
| "coalesced (b # bs) \<longleftrightarrow> coalesced bs \<and> \<not> (is_free b \<and> bs \<noteq> [] \<and> is_free (hd bs))"

definition used :: "blk list \<Rightarrow> (nat \<times> nat) set" where
  "used bs = {(x, n). (x, n, Used) \<in> set bs}"

fun free_bytes :: "blk list \<Rightarrow> nat" where
  "free_bytes [] = 0"
| "free_bytes ((x, n, u) # bs) = (if u = Free then n else 0) + free_bytes bs"

lemma tiles_append: "tiles a (L @ R) e \<longleftrightarrow> (\<exists>m. tiles a L m \<and> tiles m R e)"
  by (induction a L e rule: tiles.induct) auto

lemma tiles_le: "tiles a bs e \<Longrightarrow> a \<le> e"
  by (induction a bs e rule: tiles.induct) auto

lemma tiles_mem: "tiles a bs e \<Longrightarrow> (x, n, u) \<in> set bs \<Longrightarrow> a \<le> x \<and> 0 < n \<and> x + n \<le> e"
  by (induction a bs e rule: tiles.induct) (auto dest: tiles_le)

lemma tiles_at:
  assumes "tiles a (L @ (x, n, u) # R) e"
  shows "tiles a L x" "tiles (x + n) R e" "0 < n" "a \<le> x" "x + n \<le> e"
  using assms by (auto simp: tiles_append dest: tiles_le)

lemma frees_append [simp]: "frees (L @ R) = frees L @ frees R"
  by (induction L rule: frees.induct) auto

lemma free_bytes_append [simp]: "free_bytes (L @ R) = free_bytes L + free_bytes R"
  by (induction L rule: free_bytes.induct) auto

lemma in_frees: "x \<in> set (frees bs) \<longleftrightarrow> (\<exists>n. (x, n, Free) \<in> set bs)"
  by (induction bs rule: frees.induct) auto

lemma free_bytes_le: "tiles a bs e \<Longrightarrow> free_bytes bs \<le> e - a"
  by (induction a bs e rule: tiles.induct) (auto dest: tiles_le)

lemma frees_below: "tiles a L x \<Longrightarrow> f \<in> set (frees L) \<Longrightarrow> a \<le> f \<and> f < x"
  using tiles_mem by (fastforce simp: in_frees)

lemma coalesced_append:
  "coalesced (L @ R) \<longleftrightarrow> coalesced L \<and> coalesced R \<and>
     \<not> (L \<noteq> [] \<and> R \<noteq> [] \<and> is_free (last L) \<and> is_free (hd R))"
  by (induction L) auto

section \<open>Memory words\<close>

abbreviation wd :: "nat \<Rightarrow> u32" where "wd \<equiv> of_nat"

lemma unat_wd: "a < 2 ^ 32 \<Longrightarrow> unat (wd a) = a"
  by (simp add: unat_of_nat take_bit_nat_eq_self)

lemma wd_eq: "a < 2 ^ 32 \<Longrightarrow> b < 2 ^ 32 \<Longrightarrow> wd a = wd b \<longleftrightarrow> a = b"
  by (metis unat_wd)

lemma wd_less: "a < 2 ^ 32 \<Longrightarrow> b < 2 ^ 32 \<Longrightarrow> wd a < wd b \<longleftrightarrow> a < b"
  by (simp add: word_less_nat_alt unat_wd)

section \<open>The free list in memory\<close>

fun chain :: "heap4 \<Rightarrow> u32 \<Rightarrow> nat list \<Rightarrow> bool" where
  "chain h q [] \<longleftrightarrow> next_of h q = pxEnd h"
| "chain h q (x # xs) \<longleftrightarrow> next_of h q = wd x \<and> chain h (wd x) xs"

fun path :: "heap4 \<Rightarrow> u32 \<Rightarrow> nat list \<Rightarrow> bool" where
  "path h q [] \<longleftrightarrow> True"
| "path h q (x # xs) \<longleftrightarrow> next_of h q = wd x \<and> path h (wd x) xs"

definition last_of :: "u32 \<Rightarrow> nat list \<Rightarrow> u32" where
  "last_of q xs = (if xs = [] then q else wd (last xs))"

lemma last_of_simps [simp]: "last_of q [] = q" "last_of q (x # xs) = last_of (wd x) xs"
  "last_of q (xs @ [x]) = wd x"
  by (auto simp: last_of_def)

lemma free_chain_append: "chain h q (xs @ ys) \<longleftrightarrow> path h q xs \<and> chain h (last_of q xs) ys"
  by (induction h q xs rule: path.induct) auto

lemma path_append: "path h q (xs @ ys) \<longleftrightarrow> path h q xs \<and> path h (last_of q xs) ys"
  by (induction h q xs rule: path.induct) auto

lemma chain_next: "chain h q fs \<Longrightarrow> next_of h q = (case fs of [] \<Rightarrow> pxEnd h | f # _ \<Rightarrow> wd f)"
  by (cases fs) auto

text \<open>A path or chain depends on the links of its nodes; the last node's link is not part of a path.\<close>

lemma path_cong:
  "(\<forall>a \<in> set (butlast (q # map wd xs)). next_of h' a = next_of h a) \<Longrightarrow> path h' q xs \<longleftrightarrow> path h q xs"
  by (induction h q xs rule: path.induct) auto

lemma free_chain_cong:
  "pxEnd h' = pxEnd h \<Longrightarrow> (\<forall>a \<in> set (q # map wd xs). next_of h' a = next_of h a) \<Longrightarrow>
     chain h' q xs \<longleftrightarrow> chain h q xs"
  by (induction h q xs rule: chain.induct) auto

lemma find_insert_path:
  assumes "path h q fs" and "\<forall>f \<in> set fs. wd f < x" and "\<not> next_of h (last_of q fs) < x"
  shows "find_insert h q x = Some (last_of q fs)"
  using assms
proof (induction h q fs rule: path.induct)
  case (1 h q)
  then show ?case by (simp add: find_insert.simps [of h q])
next
  case (2 h q f fs)
  then show ?case by (simp add: find_insert.simps [of h q])
qed

section \<open>Writes\<close>

lemma set_next_simps [simp]:
  "next_of (set_next a v h) b = (if b = a then v else next_of h b)"
  "size_of (set_next a v h) b = size_of h b"
  "xStart (set_next a v h) = xStart h" "pxEnd (set_next a v h) = pxEnd h"
  "ucHeap (set_next a v h) = ucHeap h" "ucHeapEnd (set_next a v h) = ucHeapEnd h"
  "xFreeBytesRemaining (set_next a v h) = xFreeBytesRemaining h"
  "xMinimumEverFreeBytesRemaining (set_next a v h) = xMinimumEverFreeBytesRemaining h"
  "xBlockAllocatedBit (set_next a v h) = xBlockAllocatedBit h"
  by (simp_all add: set_next_def)

lemma set_size_simps [simp]:
  "next_of (set_size a v h) b = next_of h b"
  "size_of (set_size a v h) b = (if b = a then v else size_of h b)"
  "xStart (set_size a v h) = xStart h" "pxEnd (set_size a v h) = pxEnd h"
  "ucHeap (set_size a v h) = ucHeap h" "ucHeapEnd (set_size a v h) = ucHeapEnd h"
  "xFreeBytesRemaining (set_size a v h) = xFreeBytesRemaining h"
  "xMinimumEverFreeBytesRemaining (set_size a v h) = xMinimumEverFreeBytesRemaining h"
  "xBlockAllocatedBit (set_size a v h) = xBlockAllocatedBit h"
  by (simp_all add: set_size_def)

lemma path_set_size [simp]: "path (set_size a v h) q xs \<longleftrightarrow> path h q xs"
  by (rule path_cong) simp

lemma chain_set_size [simp]: "chain (set_size a v h) q xs \<longleftrightarrow> chain h q xs"
  by (rule free_chain_cong) simp_all

lemma path_set_next: "a \<notin> set (butlast (q # map wd xs)) \<Longrightarrow> path (set_next a v h) q xs \<longleftrightarrow> path h q xs"
  by (rule path_cong) auto

lemma chain_set_next: "a \<noteq> q \<Longrightarrow> a \<notin> wd ` set xs \<Longrightarrow> chain (set_next a v h) q xs \<longleftrightarrow> chain h q xs"
  by (rule free_chain_cong) auto

section \<open>The layout of the heap\<close>

definition allocated_bit :: u32 where "allocated_bit = push_bit 31 1"

definition header_ok :: "heap4 \<Rightarrow> blk \<Rightarrow> bool" where
  "header_ok h b \<longleftrightarrow> (case b of (x, n, u) \<Rightarrow>
     size_of h (wd x) = (if u = Used then wd n OR allocated_bit else wd n) \<and> (u = Used \<longrightarrow> next_of h (wd x) = 0))"

lemma header_ok_simp [simp]: "header_ok h (x, n, u) \<longleftrightarrow>
  size_of h (wd x) = (if u = Used then wd n OR allocated_bit else wd n) \<and> (u = Used \<longrightarrow> next_of h (wd x) = 0)"
  by (simp add: header_ok_def)

text \<open>What does not depend on the blocks.\<close>

definition frame_ok :: "heap4 \<Rightarrow> nat \<Rightarrow> nat \<Rightarrow> bool" where
  "frame_ok h s e \<longleftrightarrow> pxEnd h = wd e \<and> next_of h (wd e) = 0 \<and> size_of h (wd e) = 0
     \<and> size_of h (xStart h) = 0 \<and> unat (xStart h) < s \<and> e + 8 < 2 ^ 32 \<and> e - s < 2 ^ 31
     \<and> xBlockAllocatedBit h = allocated_bit \<and> 8 dvd s"

definition layout :: "heap4 \<Rightarrow> nat \<Rightarrow> blk list \<Rightarrow> nat \<Rightarrow> bool" where
  "layout h s bs e \<longleftrightarrow> frame_ok h s e \<and> tiles s bs e \<and> chain h (xStart h) (frees bs)
     \<and> (\<forall>b \<in> set bs. header_ok h b) \<and> (\<forall>b \<in> set bs. 8 dvd fst (snd b))"

lemma start_not_block: "frame_ok h s e \<Longrightarrow> s \<le> x \<Longrightarrow> x < 2 ^ 32 \<Longrightarrow> wd x \<noteq> xStart h"
  by (auto simp: frame_ok_def unat_wd dest: sym)

text \<open>Facts about one block of a layout and its neighbours in the free list.\<close>

lemma layoutD:
  assumes "layout h s (L @ (x, n, u) # R) e"
  shows "tiles s L x" "tiles (x + n) R e" "0 < n" "s \<le> x" "x + n \<le> e" "e + 8 < 2 ^ 32" "e - s < 2 ^ 31"
    "path h (xStart h) (frees L)" "wd x \<noteq> xStart h" "pxEnd h = wd e"
    "\<forall>f \<in> set (frees L). f < x" "\<forall>f \<in> set (frees R). x + n \<le> f \<and> f < e" "frame_ok h s e"
    "8 dvd n"
proof -
  have t: "tiles s (L @ (x, n, u) # R) e" and f: "frame_ok h s e"
    and c: "chain h (xStart h) (frees (L @ (x, n, u) # R))"
    using assms by (auto simp: layout_def)
  note tt = tiles_at [OF t]
  show "tiles s L x" "tiles (x + n) R e" "0 < n" "s \<le> x" "x + n \<le> e" "frame_ok h s e" by (fact tt f)+
  show e: "e + 8 < 2 ^ 32" "e - s < 2 ^ 31" "pxEnd h = wd e" using f by (auto simp: frame_ok_def)
  show "path h (xStart h) (frees L)" using c by (simp add: free_chain_append split: if_splits)
  show "wd x \<noteq> xStart h" by (rule start_not_block [OF f]) (use tt e in auto)
  show "\<forall>f \<in> set (frees L). f < x" using frees_below [OF tt(1)] by blast
  show "\<forall>f \<in> set (frees R). x + n \<le> f \<and> f < e" using frees_below [OF tt(2)] by blast
  show "8 dvd n" using assms by (auto simp: layout_def)
qed

text \<open>Distinct blocks have distinct addresses as words.\<close>

lemma wd_notin: "x < 2 ^ 32 \<Longrightarrow> \<forall>f \<in> set fs. f < 2 ^ 32 \<and> f \<noteq> x \<Longrightarrow> wd x \<notin> wd ` set fs"
  using wd_eq by blast

definition rest_next :: "nat list \<Rightarrow> nat \<Rightarrow> nat" where
  "rest_next fs e = (case fs of [] \<Rightarrow> e | f # _ \<Rightarrow> f)"

lemma chain_rest_next: "chain h q fs \<Longrightarrow> pxEnd h = wd e \<Longrightarrow> next_of h q = wd (rest_next fs e)"
  by (cases fs) (auto simp: rest_next_def)

lemma rest_next_bounds:
  "tiles a R e \<Longrightarrow> a \<le> rest_next (frees R) e \<and> rest_next (frees R) e \<le> e"
  using frees_below [of a R e] tiles_le [of a R e] by (cases "frees R") (force simp: rest_next_def)+

lemma rest_next_adjacent:
  "tiles a R e \<Longrightarrow> rest_next (frees R) e = a \<longleftrightarrow> R = [] \<or> is_free (hd R)"
proof (cases R)
  case (Cons b R')
  assume t: "tiles a R e"
  obtain x n u where b: "b = (x, n, u)" by (cases b)
  have "a < rest_next (frees R') e" using rest_next_bounds [of "a + n" R' e] t Cons b by auto
  then show ?thesis using t Cons b by (auto simp: rest_next_def)
qed (simp add: rest_next_def)

lemma distinct_frees: "tiles a bs e \<Longrightarrow> distinct (frees bs)"
proof (induction a bs e rule: tiles.induct)
  case (2 a x n u bs e)
  then have t: "tiles (a + n) bs e" "0 < n" "x = a" by auto
  have "x \<notin> set (frees bs)"
  proof
    assume "x \<in> set (frees bs)"
    from frees_below [OF t(1) this] t(2,3) show False by simp
  qed
  with 2 show ?case by simp
qed simp

lemma tiles_unique:
  "tiles a bs e \<Longrightarrow> (x, n, u) \<in> set bs \<Longrightarrow> (x, n', u') \<in> set bs \<Longrightarrow> n = n' \<and> u = u'"
proof (induction bs arbitrary: a)
  case (Cons b bs)
  obtain y m v where b: "b = (y, m, v)" by (cases b)
  with Cons.prems(1) have t: "tiles (a + m) bs e" "0 < m" "y = a" by simp_all
  have later: "a < z" if "(z, k, w) \<in> set bs" for z k w using tiles_mem [OF t(1) that] t(2) by simp
  show ?case
  proof (cases "x = a")
    case True
    then have "(x, n, u) \<notin> set bs" "(x, n', u') \<notin> set bs" using later [of x] by (metis less_irrefl)+
    with Cons.prems(2,3) have "(x, n, u) = b" "(x, n', u') = b" by simp_all
    with b show ?thesis by simp
  next
    case False
    with Cons.prems(2) b t(3) have i: "(x, n, u) \<in> set bs" by simp
    from False Cons.prems(3) b t(3) have j: "(x, n', u') \<in> set bs" by simp
    show ?thesis by (rule Cons.IH [OF t(1) i j])
  qed
qed simp

lemma nodes_distinct:
  assumes "frame_ok h s e" and "tiles s bs m" and "m \<le> e"
  shows "distinct (xStart h # map wd (frees bs))"
proof -
  have f: "s \<le> f \<and> f < 2 ^ 32" if "f \<in> set (frees bs)" for f
    using frees_below [OF assms(2) that] assms by (auto simp: frame_ok_def)
  have "inj_on wd (set (frees bs))"
    by (rule inj_onI) (use wd_eq f in metis)
  moreover have "xStart h \<notin> wd ` set (frees bs)"
  proof
    assume "xStart h \<in> wd ` set (frees bs)"
    then obtain y where y: "y \<in> set (frees bs)" "xStart h = wd y" by blast
    from start_not_block [OF assms(1), of y] f [OF y(1)] y(2) show False by simp
  qed
  ultimately show ?thesis using distinct_frees [OF assms(2)] by (simp add: distinct_map)
qed

lemma last_of_last: "last_of q xs = last (q # map wd xs)"
  by (simp add: last_of_def last_map)

lemma last_of_notin_butlast:
  "distinct (q # map wd xs) \<Longrightarrow> last_of q xs \<notin> set (butlast (q # map wd xs))"
  unfolding last_of_last
  by (metis append_butlast_last_id disjoint_iff distinct_append list.set_intros(1) list.discI)

text \<open>Changing links of free blocks and of \<open>xStart\<close> keeps the headers.\<close>

lemma headers_links:
  assumes h: "\<forall>b \<in> set bs. header_ok h b" and f: "frame_ok h s e" and t: "tiles s bs e"
    and "\<And>a. size_of h' a = size_of h a"
    and n: "\<And>a. next_of h' a = next_of h a \<or> a = xStart h \<or> a \<in> wd ` set (frees bs)"
  shows "\<forall>b \<in> set bs. header_ok h' b"
proof (intro ballI)
  fix b assume b: "b \<in> set bs"
  obtain x k u where x: "b = (x, k, u)" by (cases b)
  have xk: "s \<le> x" "x < 2 ^ 32" using tiles_mem [OF t, of x k u] b x f by (auto simp: frame_ok_def)
  have "next_of h' (wd x) = next_of h (wd x)" if u: "u = Used"
  proof -
    have "x \<noteq> y \<and> y < 2 ^ 32" if y: "y \<in> set (frees bs)" for y
    proof -
      from y obtain m where m: "(y, m, Free) \<in> set bs" by (auto simp: in_frees)
      from tiles_mem [OF t m] tiles_unique [OF t, of x k u m Free] b x u m f show ?thesis
        by (auto simp: frame_ok_def)
    qed
    then have "wd x \<notin> wd ` set (frees bs)" using xk wd_eq by blast
    with n [of "wd x"] start_not_block [OF f xk] show ?thesis by auto
  qed
  with h b x assms(4) show "header_ok h' b" by auto
qed

text \<open>The predecessor of a block in the free list.\<close>

definition prev_free :: "heap4 \<Rightarrow> blk list \<Rightarrow> u32" where
  "prev_free h L = last_of (xStart h) (frees L)"

definition link :: "u32 \<Rightarrow> u32 \<Rightarrow> heap4 \<Rightarrow> heap4" where
  "link it x h = set_next it x (set_next x (next_of h it) h)"

lemma link_simps [simp]:
  "xStart (link it x h) = xStart h" "pxEnd (link it x h) = pxEnd h"
  "size_of (link it x h) a = size_of h a"
  by (simp_all add: link_def)

lemma prev_free_cases:
  "prev_free h L = xStart h \<and> frees L = [] \<or> (\<exists>f \<in> set (frees L). prev_free h L = wd f)"
  by (auto simp: prev_free_def last_of_def)

lemma prev_free_not:
  assumes "frame_ok h s e" and "tiles s L x" and "x \<le> y" and "y < 2 ^ 32"
  shows "prev_free h L \<noteq> wd y"
proof (cases "frees L = []")
  case True
  then show ?thesis using start_not_block [OF assms(1), of y] tiles_le [OF assms(2)] assms(3,4)
    by (auto simp: prev_free_def)
next
  case False
  then obtain f where f: "f \<in> set (frees L)" "prev_free h L = wd f"
    using prev_free_cases [of h L] by fastforce
  from frees_below [OF assms(2) f(1)] f(2) assms(3,4) show ?thesis by (simp add: wd_eq)
qed

lemma frame_ok_links:
  assumes "frame_ok h s e" and "mem h' (wd e) = mem h (wd e)" and "size_of h' (xStart h) = 0"
    and "pxEnd h' = pxEnd h" and "xStart h' = xStart h" and "xBlockAllocatedBit h' = xBlockAllocatedBit h"
  shows "frame_ok h' s e"
  using assms by (simp add: frame_ok_def)

lemma mem_set [simp]:
  "mem (set_next a v h) b = (if b = a then (mem h a)\<lparr>pxNextFreeBlock := v\<rparr> else mem h b)"
  "mem (set_size a v h) b = (if b = a then (mem h a)\<lparr>xBlockSize := v\<rparr> else mem h b)"
  by (simp_all add: set_next_def set_size_def)

lemma layout_chain:
  assumes "layout h s (L @ (x, n, u) # R) e"
  shows "chain h (prev_free h L) (if u = Free then x # frees R else frees R)"
    "next_of h (prev_free h L) = wd (if u = Free then x else rest_next (frees R) e)"
proof -
  from assms have "chain h (xStart h) (frees L @ (if u = Free then x # frees R else frees R))"
    by (auto simp: layout_def split: if_splits)
  then show c: "chain h (prev_free h L) (if u = Free then x # frees R else frees R)"
    by (simp add: free_chain_append prev_free_def)
  show "next_of h (prev_free h L) = wd (if u = Free then x else rest_next (frees R) e)"
    using chain_rest_next [OF c layoutD(10) [OF assms]] by (auto simp: rest_next_def)
qed

lemma link_layout:
  assumes l: "layout h s (L @ (x, n, Held) # R) e"
  shows "layout (link (prev_free h L) (wd x) h) s (L @ (x, n, Free) # R) e"
proof -
  let ?q = "xStart h" and ?it = "prev_free h L"
  let ?h' = "link ?it (wd x) h"
  note d = layoutD [OF l]
  have x: "x < 2 ^ 32" "x \<le> e" using d(5,6) by auto
  have it: "?it \<noteq> wd x" "?it \<noteq> wd e"
    using prev_free_not [OF d(13,1)] x d(6) by auto
  have xe: "wd x \<noteq> wd e" using d(3,5,6) by (simp add: wd_eq)
  have itR: "?it \<notin> wd ` set (frees R)" "wd x \<notin> wd ` set (frees R)"
  proof -
    have "?it \<noteq> wd f \<and> wd x \<noteq> wd f" if "f \<in> set (frees R)" for f
      using prev_free_not [OF d(13,1), of f] d(3,6,12) that x by (auto simp: wd_eq)
    then show "?it \<notin> wd ` set (frees R)" "wd x \<notin> wd ` set (frees R)" by auto
  qed
  have dist: "distinct (?q # map wd (frees L))"
    by (rule nodes_distinct [OF d(13,1)]) (use d in simp)
  have xL: "wd x \<notin> set (butlast (?q # map wd (frees L)))"
  proof -
    have "wd x \<notin> set (?q # map wd (frees L))"
      using d(9,11) x by (fastforce simp: wd_eq)
    then show ?thesis by (meson in_set_butlastD)
  qed
  have "path ?h' ?q (frees L)"
    using d(8) path_set_next [OF xL] path_set_next [OF last_of_notin_butlast [OF dist]]
    by (simp add: link_def prev_free_def)
  moreover have "chain ?h' (wd x) (frees R)"
  proof -
    have c: "chain h ?it (frees R)" using layout_chain(1) [OF l] by simp
    then have "chain (set_next (wd x) (next_of h ?it) h) (wd x) (frees R)"
      using itR(2) by (cases "frees R") (auto simp: chain_set_next)
    then show ?thesis unfolding link_def using it(1) itR(1) by (simp add: chain_set_next)
  qed
  moreover have "next_of ?h' ?it = wd x" by (simp add: link_def)
  ultimately have "chain ?h' ?q (frees (L @ (x, n, Free) # R))"
    by (simp add: free_chain_append prev_free_def)
  moreover have "frame_ok ?h' s e"
    by (rule frame_ok_links [OF d(13)]) (use it xe d(13) in \<open>auto simp: link_def frame_ok_def\<close>)
  moreover have "\<forall>b \<in> set (L @ (x, n, Free) # R). header_ok ?h' b"
  proof (rule headers_links [OF _ d(13)])
    show "\<forall>b \<in> set (L @ (x, n, Free) # R). header_ok h b" using l by (auto simp: layout_def)
    show "tiles s (L @ (x, n, Free) # R) e" using l by (simp add: layout_def tiles_append)
    fix a
    show "size_of ?h' a = size_of h a" by (simp add: link_def)
    show "next_of ?h' a = next_of h a \<or> a = xStart h \<or> a \<in> wd ` set (frees (L @ (x, n, Free) # R))"
      using prev_free_cases [of h L] by (auto simp: link_def)
  qed
  ultimately show ?thesis using l by (simp add: layout_def tiles_append)
qed

section \<open>Merging neighbours\<close>

lemma layout_append: "layout h s (L @ (x, n, u) # R) e \<longleftrightarrow>
    frame_ok h s e \<and> tiles s L x \<and> 0 < n \<and> tiles (x + n) R e \<and> 8 dvd n
    \<and> chain h (xStart h) (frees L @ (if u = Free then x # frees R else frees R))
    \<and> header_ok h (x, n, u) \<and> (\<forall>b \<in> set L \<union> set R. header_ok h b) \<and> (\<forall>b \<in> set L \<union> set R. 8 dvd fst (snd b))"
  by (auto simp: layout_def tiles_append)

lemma other_block_at:
  assumes "layout h s (L @ (x, n, u) # R) e" and "b \<in> set L \<union> set R" and "x \<le> z" "z < x + n"
  shows "wd (fst b) \<noteq> wd z"
proof -
  note d = layoutD [OF assms(1)]
  obtain y m v where b: "b = (y, m, v)" by (cases b)
  have "y < x \<or> x + n \<le> y" "y < 2 ^ 32"
    using assms(2) tiles_mem [OF d(1), of y m v] tiles_mem [OF d(2), of y m v] b d(3,5,6) by auto
  with b assms(3,4) d(5,6) show ?thesis by (auto simp: wd_eq)
qed

lemma other_block:
  assumes "layout h s (L @ (x, n, u) # R) e" and "b \<in> set L \<union> set R"
  shows "wd (fst b) \<noteq> wd x"
  by (rule other_block_at [OF assms]) (use layoutD(3) [OF assms(1)] in auto)

lemma header_ok_cong: "mem h' (wd (fst b)) = mem h (wd (fst b)) \<Longrightarrow> header_ok h' b \<longleftrightarrow> header_ok h b"
  by (cases b) simp

lemma headers_other:
  assumes "layout h s (L @ (x, n, u) # R) e" and "\<And>a. a \<noteq> wd x \<Longrightarrow> mem h' a = mem h a"
    and "b \<in> set L \<union> set R"
  shows "header_ok h' b"
proof -
  have "mem h' (wd (fst b)) = mem h (wd (fst b))" by (rule assms(2)) (rule other_block [OF assms(1,3)])
  moreover have "header_ok h b" using assms(1,3) by (auto simp: layout_append)
  ultimately show ?thesis by (simp add: header_ok_cong [of h' b h])
qed

definition grow :: "u32 \<Rightarrow> u32 \<Rightarrow> heap4 \<Rightarrow> heap4" where
  "grow p x h = set_size p (size_of h p + size_of h x) h"

lemma grow_layout:
  assumes l: "layout h s (L @ (p, m, Free) # (x, n, Held) # R) e"
  shows "layout (grow (wd p) (wd x) h) s (L @ (p, m + n, Free) # R) e"
proof -
  note d = layoutD [OF l]
  have h: "size_of h (wd p) = wd m" "size_of h (wd x) = wd n" and t: "x = p + m" "0 < n" "8 dvd n"
    using l by (auto simp: layout_append)
  have "\<forall>b \<in> set L \<union> set R. header_ok (grow (wd p) (wd x) h) b"
    using headers_other [OF l, of "grow (wd p) (wd x) h"] by (simp add: grow_def)
  moreover have "frame_ok (grow (wd p) (wd x) h) s e"
    by (rule frame_ok_links [OF d(13)]) (use d in \<open>auto simp: grow_def frame_ok_def wd_eq\<close>)
  ultimately show ?thesis
    using l h t by (simp add: layout_append grow_def add.assoc)
qed

definition fuse :: "u32 \<Rightarrow> heap4 \<Rightarrow> heap4" where
  "fuse x h = (let nx = next_of h x in
     if x + size_of h x = nx \<and> nx \<noteq> pxEnd h
     then set_next x (next_of h nx) (set_size x (size_of h x + size_of h nx) h) else h)"

fun absorb_right :: "nat \<Rightarrow> nat \<Rightarrow> blk list \<Rightarrow> blk list" where
  "absorb_right x n ((y, k, Free) # R) = (x, n + k, Free) # R"
| "absorb_right x n R = (x, n, Free) # R"

lemma absorb_right_if:
  "absorb_right x n R = (if R \<noteq> [] \<and> is_free (hd R) then (x, n + fst (snd (hd R)), Free) # tl R else (x, n, Free) # R)"
  by (cases "(x, n, R)" rule: absorb_right.cases) auto

lemma fuse_layout:
  assumes l: "layout h s (L @ (x, n, Free) # R) e"
  shows "layout (fuse (wd x) h) s (L @ absorb_right x n R) e"
proof -
  note d = layoutD [OF l]
  let ?nx = "rest_next (frees R) e"
  have nx: "next_of h (wd x) = wd ?nx"
    by (rule chain_rest_next [OF _ d(10)]) (use l in \<open>auto simp: layout_append free_chain_append\<close>)
  have sz: "size_of h (wd x) = wd n" using l by (simp add: layout_append)
  have b: "x + n \<le> ?nx" "?nx \<le> e" using rest_next_bounds [OF d(2)] by auto
  have adj: "wd x + size_of h (wd x) = wd ?nx \<and> wd ?nx \<noteq> pxEnd h \<longleftrightarrow> R \<noteq> [] \<and> is_free (hd R)"
  proof -
    have "wd x + size_of h (wd x) = wd ?nx \<longleftrightarrow> ?nx = x + n"
    proof -
      have "wd (x + n) = wd ?nx \<longleftrightarrow> x + n = ?nx" by (rule wd_eq) (use b d(6) in auto)
      then show ?thesis by (auto simp: sz)
    qed
    moreover have "?nx \<noteq> e" if "R \<noteq> []" "is_free (hd R)"
      using that d(12) by (cases R) (auto simp: rest_next_def)
    moreover have "wd ?nx = pxEnd h \<longleftrightarrow> ?nx = e" using b d(6,10) by (simp add: wd_eq)
    moreover have "R = [] \<Longrightarrow> ?nx = e" by (simp add: rest_next_def)
    ultimately show ?thesis using rest_next_adjacent [OF d(2)] by auto
  qed
  show ?thesis
  proof (cases "R \<noteq> [] \<and> is_free (hd R)")
    case False
    then show ?thesis using adj l nx by (auto simp: fuse_def absorb_right_if Let_def)
  next
    case True
    then obtain y k R' where R: "R = (y, k, Free) # R'"
      by (metis list.collapse prod.collapse)
    let ?h' = "fuse (wd x) h"
    have l2: "layout h s ((L @ [(x, n, Free)]) @ (y, k, Free) # R') e" using l R by simp
    have y: "y = x + n" "0 < k" "8 dvd k" "size_of h (wd y) = wd k" "?nx = y"
      using l R by (auto simp: layout_append rest_next_def)
    have f: "?h' = set_next (wd x) (next_of h (wd y)) (set_size (wd x) (wd n + wd k) h)"
      using adj True nx sz y by (simp add: fuse_def Let_def)
    have hd: "\<forall>b \<in> set L \<union> set R'. header_ok ?h' b"
      using headers_other [OF l, of ?h'] R by (simp add: f)
    have fr: "frame_ok ?h' s e"
      by (rule frame_ok_links [OF d(13)]) (use d in \<open>auto simp: f frame_ok_def wd_eq\<close>)
    have "\<forall>g \<in> set (frees R'). y + k \<le> g \<and> g < e" using layoutD(12) [OF l2] by auto
    then have xR: "wd x \<notin> wd ` set (frees R')" using y d(3,5,6) by (auto simp: wd_eq)
    have "chain h (xStart h) (frees (L @ [(x, n, Free)]) @ y # frees R')"
      using l2 unfolding layout_append by (simp only: if_True refl simp_thms)
    then have c: "chain h (wd y) (frees R')" unfolding free_chain_append chain.simps by blast
    have "chain ?h' (wd x) (frees R')"
      unfolding f using c xR by (cases "frees R'") (auto simp: chain_set_next)
    moreover have "path ?h' (xStart h) (frees L @ [x])"
    proof -
      have "distinct (xStart h # map wd (frees (L @ [(x, n, Free)])))"
        by (rule nodes_distinct [OF d(13), of _ "x + n"]) (use d in \<open>auto simp: tiles_append\<close>)
      from last_of_notin_butlast [OF this]
      have "wd x \<notin> set (butlast (xStart h # map wd (frees L @ [x])))" by (simp del: butlast.simps)
      moreover have "path h (xStart h) (frees L @ [x])"
        using l by (simp add: layout_append free_chain_append path_append)
      ultimately show ?thesis unfolding f
        by (intro path_set_next [THEN iffD2] path_set_size [THEN iffD2])
    qed
    ultimately have "chain ?h' (xStart h) (frees L @ x # frees R')"
      by (simp add: free_chain_append path_append)
    moreover have "xStart ?h' = xStart h" by (simp add: f)
    moreover have "header_ok ?h' (x, n + k, Free)" by (simp add: f)
    ultimately show ?thesis using l R y hd fr d
      by (simp add: layout_append absorb_right_if add.assoc)
  qed
qed

section \<open>Inserting a block\<close>

lemma set_next_same: "next_of h a = v \<Longrightarrow> set_next a v h = h"
  by (auto simp: set_next_def)

lemma fuse_link:
  assumes "it \<noteq> x" and "next_of h it \<noteq> it" and "next_of h it \<noteq> x"
  shows "fuse x (link it x h) =
    set_next it x (if x + size_of h x = next_of h it
       then if next_of h it \<noteq> pxEnd h
         then set_next x (next_of h (next_of h it)) (set_size x (size_of h x + size_of h (next_of h it)) h)
         else set_next x (pxEnd h) h
       else set_next x (next_of h it) h)"
proof -
  have c: "set_next x v (set_size x k (set_next it x (set_next x u h))) = set_next it x (set_next x v (set_size x k h))"
    for u v k using assms(1) by (intro heap4.equality ext) (simp_all add: set_next_def set_size_def)
  have d: "set_next it x (set_next x u h) = set_next it x (set_next x u h)" for u by simp
  show ?thesis
    using assms c by (auto simp: fuse_def link_def Let_def)
qed

lemma prev_block:
  assumes l: "layout h s (L @ (x, n, Held) # R) e" and f: "f \<in> set (frees L)" "prev_free h L = wd f"
  shows "\<exists>m. (f, m, Free) \<in> set L \<and> size_of h (wd f) = wd m \<and> f + m \<le> x \<and>
    (f + m = x \<longleftrightarrow> L \<noteq> [] \<and> is_free (last L) \<and> last L = (f, m, Free))"
proof -
  note d = layoutD [OF l]
  from f(1) obtain m where m: "(f, m, Free) \<in> set L" by (auto simp: in_frees)
  then obtain A B where L: "L = A @ (f, m, Free) # B" by (auto dest: split_list)
  with d(1) have B: "tiles (f + m) B x" by (auto simp: tiles_append)
  have "header_ok h (f, m, Free)" using l m by (auto simp: layout_append simp del: header_ok_simp)
  then have "size_of h (wd f) = wd m" by simp
  moreover have "f + m = x \<longleftrightarrow> L \<noteq> [] \<and> is_free (last L) \<and> last L = (f, m, Free)"
  proof (cases "B = []")
    case True
    with B L show ?thesis by simp
  next
    case False
    have "f + m < x" using B False by (cases B) (fastforce dest: tiles_le)+
    moreover have "last L \<noteq> (f, m, Free)"
    proof
      assume "last L = (f, m, Free)"
      with L False have "(f, m, Free) \<in> set B" by (metis last_appendR last_ConsR last_in_set list.distinct(1))
      from tiles_mem [OF B this] tiles_mem [OF d(1) m] show False by simp
    qed
    ultimately show ?thesis by simp
  qed
  ultimately show ?thesis using m tiles_mem [OF d(1) m] by auto
qed

lemma prev_of_last [simp]: "prev_free h (L' @ [(p, m, Free)]) = wd p"
  by (simp add: prev_free_def)

lemma insert_eq:
  assumes l: "layout h s (L @ (x, n, Held) # R) e"
  shows "prvInsertBlockIntoFreeList h (wd x) = Some
    (if L \<noteq> [] \<and> is_free (last L) then fuse (prev_free h L) (grow (prev_free h L) (wd x) h)
     else fuse (wd x) (link (prev_free h L) (wd x) h))"
proof -
  note d = layoutD [OF l]
  let ?it = "prev_free h L" and ?nx = "rest_next (frees R) e"
  have nx: "next_of h ?it = wd ?nx" using layout_chain(2) [OF l] by simp
  have b: "x + n \<le> ?nx" "?nx \<le> e" using rest_next_bounds [OF d(2)] by auto
  have x: "x < 2 ^ 32" "?nx < 2 ^ 32" using d(5,6) b by auto
  have find: "find_insert h (xStart h) (wd x) = Some ?it"
    unfolding prev_free_def
  proof (rule find_insert_path [OF d(8)])
    show "\<forall>f \<in> set (frees L). wd f < wd x" using d(11) x by (auto simp: wd_less)
    show "\<not> next_of h (last_of (xStart h) (frees L)) < wd x"
      using nx b x by (simp add: prev_free_def wd_less)
  qed
  have it: "?it \<noteq> wd x" "wd ?nx \<noteq> ?it" "wd ?nx \<noteq> wd x"
    using prev_free_not [OF d(13,1), of x] prev_free_not [OF d(13,1), of ?nx] x b d(3)
    by (auto simp: wd_eq)
  show ?thesis
  proof (cases "L \<noteq> [] \<and> is_free (last L)")
    case True
    then obtain L' p m where L: "L = L' @ [(p, m, Free)]"
      by (metis append_butlast_last_id prod.collapse)
    have "p + m = x" "size_of h (wd p) = wd m" using l L by (auto simp: layout_append tiles_append)
    then have "?it + size_of h ?it = wd x" using L by (auto simp: of_nat_add [symmetric] simp del: of_nat_add)
    then show ?thesis using True find it
      by (auto simp: prvInsertBlockIntoFreeList_def Let_def grow_def fuse_def set_next_same)
  next
    case False
    have "?it + size_of h ?it \<noteq> wd x"
    proof (cases "frees L = []")
      case True
      then show ?thesis using d(9,13) by (auto simp: prev_free_def frame_ok_def)
    next
      case ne: False
      then obtain f where f: "f \<in> set (frees L)" "?it = wd f" using prev_free_cases [of h L] by auto
      from prev_block [OF l f] obtain m where m: "size_of h (wd f) = wd m" "f + m \<le> x"
        and "f + m = x \<longleftrightarrow> L \<noteq> [] \<and> is_free (last L) \<and> last L = (f, m, Free)" by blast
      with False have ne: "f + m \<noteq> x" by blast
      have "wd (f + m) = wd x \<longleftrightarrow> f + m = x" by (rule wd_eq) (use m x in auto)
      then show ?thesis using m(1) f(2) ne by simp
    qed
    then show ?thesis unfolding fuse_link [OF it(1) it(2,3) [folded nx]] using False find it
      by (auto simp: prvInsertBlockIntoFreeList_def Let_def)
  qed
qed

text \<open>Only the headers differ.\<close>

definition same_rest :: "heap4 \<Rightarrow> heap4 \<Rightarrow> bool" where
  "same_rest h h' \<longleftrightarrow> h' = h\<lparr>mem := mem h'\<rparr>"

lemma same_rest_trans: "same_rest a b \<Longrightarrow> same_rest b c \<Longrightarrow> same_rest a c"
  unfolding same_rest_def by (cases a; cases b; cases c) simp

lemma same_rest_writes [simp]: "same_rest h h" "same_rest h (set_next a v h)" "same_rest h (set_size a v h)"
  by (simp_all add: same_rest_def set_next_def set_size_def)

lemma same_rest_ops [simp]: "same_rest h (fuse x h)" "same_rest h (link it x h)" "same_rest h (grow it x h)"
  unfolding fuse_def link_def grow_def Let_def by (auto intro: same_rest_trans same_rest_writes)

text \<open>The list of blocks after the insertion.\<close>

definition insert_free :: "blk list \<Rightarrow> nat \<Rightarrow> nat \<Rightarrow> blk list \<Rightarrow> blk list" where
  "insert_free L x n R =
     (if L \<noteq> [] \<and> is_free (last L)
      then butlast L @ absorb_right (fst (last L)) (fst (snd (last L)) + n) R
      else L @ absorb_right x n R)"

lemma insert_layout:
  assumes l: "layout h s (L @ (x, n, Held) # R) e"
  shows "\<exists>h'. prvInsertBlockIntoFreeList h (wd x) = Some h' \<and> layout h' s (insert_free L x n R) e
    \<and> same_rest h h'"
proof -
  show ?thesis
  proof (cases "L \<noteq> [] \<and> is_free (last L)")
    case True
    then obtain L' p k where L: "L = L' @ [(p, k, Free)]"
      by (metis append_butlast_last_id prod.collapse)
    have "layout (fuse (wd p) (grow (wd p) (wd x) h)) s (L' @ absorb_right p (k + n) R) e"
      by (rule fuse_layout [OF grow_layout]) (use l L in simp)
    moreover have "same_rest h (fuse (wd p) (grow (wd p) (wd x) h))"
      by (rule same_rest_trans [of _ "grow (wd p) (wd x) h"]) simp_all
    ultimately show ?thesis using insert_eq [OF l] L by (simp add: insert_free_def)
  next
    case False
    have "layout (fuse (wd x) (link (prev_free h L) (wd x) h)) s (L @ absorb_right x n R) e"
      by (rule fuse_layout [OF link_layout [OF l]])
    moreover have "same_rest h (fuse (wd x) (link (prev_free h L) (wd x) h))"
      by (rule same_rest_trans [of _ "link (prev_free h L) (wd x) h"]) simp_all
    ultimately show ?thesis using insert_eq [OF l] False by (auto simp: insert_free_def)
  qed
qed

end
