(* ===== verification/Heap4_Ops.thy ===== *)
theory Heap4_Ops
  imports Heap4_Correct
begin

text \<open>
  The operations of the allocator on the list of blocks: freeing a block, finding the first
  fit, splitting it, and what initialisation leaves.
\<close>

section \<open>Insertion and the other parts of the invariant\<close>

lemma absorb_right_split:
  obtains "R = []" "absorb_right x n R = [(x, n, Free)]"
  | y k R' where "R = (y, k, Free) # R'" "absorb_right x n R = (x, n + k, Free) # R'"
  | y k u R' where "R = (y, k, u) # R'" "u \<noteq> Free" "absorb_right x n R = (x, n, Free) # R"
proof (cases R)
  case (Cons b R')
  obtain y k u where "b = (y, k, u)" by (cases b)
  with Cons that show ?thesis by (cases "u = Free") (auto simp: absorb_right_if)
qed (use that in simp)

lemma free_bytes_absorb [simp]: "free_bytes (absorb_right x n R) = n + free_bytes R"
  by (cases rule: absorb_right_split [of R x n]) auto

lemma used_absorb [simp]: "used (absorb_right x n R) = used R"
  by (cases rule: absorb_right_split [of R x n]) (auto simp: used_def)

lemma used_append [simp]: "used (L @ R) = used L \<union> used R"
  and used_Cons [simp]: "used ((x, n, u) # R) = (if u = Used then insert (x, n) (used R) else used R)"
  and used_Nil [simp]: "used [] = {}"
  by (auto simp: used_def)

lemma free_bytes_insert: "free_bytes (insert_free L x n R) = free_bytes L + n + free_bytes R"
proof (cases "L \<noteq> [] \<and> is_free (last L)")
  case True
  then obtain L' p k where "L = L' @ [(p, k, Free)]" by (metis append_butlast_last_id prod.collapse)
  then show ?thesis by (simp add: insert_free_def)
qed (auto simp: insert_free_def)

lemma used_insert: "used (insert_free L x n R) = used L \<union> used R"
proof (cases "L \<noteq> [] \<and> is_free (last L)")
  case True
  then obtain L' p k where "L = L' @ [(p, k, Free)]" by (metis append_butlast_last_id prod.collapse)
  then show ?thesis by (simp add: insert_free_def)
qed (auto simp: insert_free_def)

lemma absorb_coalesced: "coalesced R \<Longrightarrow> coalesced (absorb_right x n R) \<and> is_free (hd (absorb_right x n R))"
  by (cases rule: absorb_right_split [of R x n]) auto

lemma absorb_not_Nil [simp]: "absorb_right x n R \<noteq> []"
  by (cases rule: absorb_right_split [of R x n]) auto

lemma coalesced_insert: "coalesced L \<Longrightarrow> coalesced R \<Longrightarrow> coalesced (insert_free L x n R)"
proof (cases "L \<noteq> [] \<and> is_free (last L)")
  case True
  assume c: "coalesced L" "coalesced R"
  from True obtain L' p k where "L = L' @ [(p, k, Free)]" by (metis append_butlast_last_id prod.collapse)
  then show ?thesis using c absorb_coalesced [OF c(2)] by (simp add: insert_free_def coalesced_append)
next
  case False
  assume "coalesced L" "coalesced R"
  then show ?thesis using absorb_coalesced False by (auto simp: insert_free_def coalesced_append)
qed

definition no_held :: "blk list \<Rightarrow> bool" where
  "no_held bs \<longleftrightarrow> (\<forall>b \<in> set bs. snd (snd b) \<noteq> Held)"

lemma no_held_simps [simp]: "no_held []" "no_held (b # bs) \<longleftrightarrow> snd (snd b) \<noteq> Held \<and> no_held bs"
  "no_held (L @ R) \<longleftrightarrow> no_held L \<and> no_held R"
  by (auto simp: no_held_def)

lemma no_held_insert: "no_held L \<Longrightarrow> no_held R \<Longrightarrow> no_held (insert_free L x n R)"
proof -
  assume "no_held L" "no_held R"
  moreover have a: "no_held (absorb_right x n R)" if "no_held R" for x n
    using that by (cases rule: absorb_right_split [of R x n]) auto
  moreover have "no_held (butlast L)" using \<open>no_held L\<close> by (auto simp: no_held_def dest: in_set_butlastD)
  ultimately show ?thesis by (simp add: insert_free_def)
qed

section \<open>The invariant\<close>

definition heap_ok :: "heap4 \<Rightarrow> nat \<Rightarrow> blk list \<Rightarrow> nat \<Rightarrow> bool" where
  "heap_ok h s bs e \<longleftrightarrow> layout h s bs e \<and> coalesced bs \<and> no_held bs
     \<and> unat (xFreeBytesRemaining h) = free_bytes bs"

text \<open>Layouts do not depend on the counters.\<close>

lemma chain_counters [simp]:
  "chain (h\<lparr>xFreeBytesRemaining := v\<rparr>) q fs = chain h q fs"
  "chain (h\<lparr>xMinimumEverFreeBytesRemaining := v\<rparr>) q fs = chain h q fs"
  "chain (h\<lparr>xNumberOfSuccessfulAllocations := v\<rparr>) q fs = chain h q fs"
  "chain (h\<lparr>xNumberOfSuccessfulFrees := v\<rparr>) q fs = chain h q fs"
  by (rule free_chain_cong; simp)+

lemma layout_counters [simp]:
  "layout (h\<lparr>xFreeBytesRemaining := v\<rparr>) s bs e = layout h s bs e"
  "layout (h\<lparr>xMinimumEverFreeBytesRemaining := v\<rparr>) s bs e = layout h s bs e"
  "layout (h\<lparr>xNumberOfSuccessfulAllocations := v\<rparr>) s bs e = layout h s bs e"
  "layout (h\<lparr>xNumberOfSuccessfulFrees := v\<rparr>) s bs e = layout h s bs e"
  by (simp_all add: layout_def frame_ok_def header_ok_def)

text \<open>A size is below the allocated bit.\<close>

lemma size_small: "layout h s (L @ (x, n, u) # R) e \<Longrightarrow> n < 2 ^ 31"
  using layoutD(4,5,7) [of h s L x n u R e] by linarith

lemma bit_allocated_bit: "bit allocated_bit k \<longleftrightarrow> k = 31"
  unfolding allocated_bit_def push_bit_of_1 bit_exp_iff by auto

lemma allocated_bit_facts:
  assumes "n < 2 ^ 31"
  shows "wd n AND allocated_bit = 0" "(wd n OR allocated_bit) AND NOT allocated_bit = wd n"
    "(wd n OR allocated_bit) AND allocated_bit \<noteq> 0"
proof -
  have "n div 2 ^ 31 = 0" using assms by simp
  then have "\<not> bit n 31" by (simp add: bit_iff_odd)
  moreover have "bit n 31 \<longleftrightarrow> bit (unat (wd n)) 31" using assms by (simp add: unat_wd)
  ultimately have b: "\<not> bit (wd n) 31" by (simp add: bit_unsigned_iff)
  show "wd n AND allocated_bit = 0" "(wd n OR allocated_bit) AND NOT allocated_bit = wd n"
    using b by (auto intro!: bit_word_eqI simp: bit_and_iff bit_or_iff bit_not_iff bit_allocated_bit)
  have "bit ((wd n OR allocated_bit) AND allocated_bit) 31"
    by (simp add: bit_and_iff bit_or_iff bit_allocated_bit)
  then show "(wd n OR allocated_bit) AND allocated_bit \<noteq> 0" by auto
qed

lemma tiles_use: "tiles a (L @ (x, n, u) # R) e \<longleftrightarrow> tiles a (L @ (x, n, u') # R) e"
  by (simp add: tiles_append)

lemma free_total: "layout h s (L @ (x, n, u) # R) e \<Longrightarrow> free_bytes L + n + free_bytes R \<le> e - s"
  using free_bytes_le [of s "L @ (x, n, Free) # R" e] tiles_use [of s L x n u R e Free]
  by (simp add: layout_def)

lemma aligned: "tiles a bs e \<Longrightarrow> 8 dvd a \<Longrightarrow> \<forall>b \<in> set bs. 8 dvd fst (snd b) \<Longrightarrow> (x, n, u) \<in> set bs \<Longrightarrow> 8 dvd x"
  by (induction a bs e rule: tiles.induct) (auto intro: dvd_add)

section \<open>Freeing\<close>

lemma hold_layout:
  assumes l: "layout h s (L @ (x, n, Used) # R) e"
  shows "layout (set_size (wd x) (wd n) h) s (L @ (x, n, Held) # R) e"
proof -
  note d = layoutD [OF l]
  have "frame_ok (set_size (wd x) (wd n) h) s e"
    by (rule frame_ok_links [OF d(13)]) (use d in \<open>auto simp: frame_ok_def wd_eq\<close>)
  moreover have "\<forall>b \<in> set L \<union> set R. header_ok (set_size (wd x) (wd n) h) b"
    using headers_other [OF l, of "set_size (wd x) (wd n) h"] by simp
  ultimately show ?thesis using l by (simp add: layout_append)
qed

lemma same_rest_fields:
  "same_rest h h' \<Longrightarrow> xFreeBytesRemaining h' = xFreeBytesRemaining h"
  "same_rest h h' \<Longrightarrow> xMinimumEverFreeBytesRemaining h' = xMinimumEverFreeBytesRemaining h"
  "same_rest h h' \<Longrightarrow> xBlockAllocatedBit h' = xBlockAllocatedBit h"
  unfolding same_rest_def by (metis heap4.select_convs heap4.surjective heap4.update_convs(1))+

lemma vPortFree_ok:
  assumes h: "heap_ok h s (L @ (x, n, Used) # R) e"
  shows "\<exists>h'. vPortFree h (wd (x + 8)) = Some h' \<and> heap_ok h' s (insert_free L x n R) e"
proof -
  have l: "layout h s (L @ (x, n, Used) # R) e" and c: "coalesced (L @ (x, n, Used) # R)"
    and nh: "no_held (L @ (x, n, Used) # R)"
    and f: "unat (xFreeBytesRemaining h) = free_bytes L + free_bytes R"
    using h by (auto simp: heap_ok_def)
  note d = layoutD [OF l] and bits = allocated_bit_facts [OF size_small [OF l]]
  have n: "unat (wd n) = n" by (rule unat_wd) (use d in auto)
  have hd: "size_of h (wd x) = wd n OR allocated_bit" "next_of h (wd x) = 0"
    "xBlockAllocatedBit h = allocated_bit" using l by (auto simp: layout_append frame_ok_def)
  let ?h1 = "set_size (wd x) (wd n) h"
  let ?h2 = "?h1\<lparr>xFreeBytesRemaining := xFreeBytesRemaining h + wd n\<rparr>"
  have "layout ?h2 s (L @ (x, n, Held) # R) e" using hold_layout [OF l] by simp
  from insert_layout [OF this] obtain h3 where h3: "prvInsertBlockIntoFreeList ?h2 (wd x) = Some h3"
    "layout h3 s (insert_free L x n R) e" "same_rest ?h2 h3" by auto
  have xf: "unat (xFreeBytesRemaining h3) = free_bytes L + n + free_bytes R"
  proof -
    have "free_bytes L + n + free_bytes R < 2 ^ 32" using free_total [OF l] d(7) by simp
    then have "unat (xFreeBytesRemaining h + wd n) = free_bytes L + n + free_bytes R"
      using f n by (simp add: unat_add_lem [THEN iffD1])
    then show ?thesis using same_rest_fields(1) [OF h3(3)] by simp
  qed
  have pv: "wd (x + 8) \<noteq> 0" "wd (x + 8) - xHeapStructSize = wd x"
  proof -
    have "unat (wd (x + 8)) = x + 8" by (rule unat_wd) (use d in auto)
    then show "wd (x + 8) \<noteq> 0" by auto
    have "xHeapStructSize = 8" by (simp add: xHeapStructSize_def portBYTE_ALIGNMENT_def portBYTE_ALIGNMENT_MASK_def)
    then show "wd (x + 8) - xHeapStructSize = wd x" by simp
  qed
  have "vPortFree h (wd (x + 8)) = Some (h3\<lparr>xNumberOfSuccessfulFrees := xNumberOfSuccessfulFrees h3 + 1\<rparr>)"
    using h3(1) hd bits pv by (simp add: vPortFree_def Let_def)
  moreover have "coalesced (insert_free L x n R)" "no_held (insert_free L x n R)"
    using c nh coalesced_insert no_held_insert by (auto simp: coalesced_append)
  ultimately show ?thesis using h3(2) xf by (simp add: heap_ok_def free_bytes_insert)
qed

section \<open>The request\<close>

definition block_size :: "nat \<Rightarrow> nat" where
  "block_size n = (n + 8 + 7) div 8 * 8"

lemma block_size_bounds: "n + 8 \<le> block_size n" "block_size n < n + 16" "8 dvd block_size n"
  unfolding block_size_def by presburger+

lemma and_7: "unat ((w :: u32) AND 7) = unat w mod 8"
proof -
  have "(7 :: u32) = mask 3" by (simp add: mask_eq_exp_minus_1)
  then have "w AND 7 = take_bit 3 w" by (simp add: take_bit_eq_mask)
  then show ?thesis by (simp add: unsigned_take_bit_eq take_bit_eq_mod unat_mod)
qed

lemma struct_size [simp]: "xHeapStructSize = 8"
  by (simp add: xHeapStructSize_def portBYTE_ALIGNMENT_def portBYTE_ALIGNMENT_MASK_def)

lemma minimum_block [simp]: "heapMINIMUM_BLOCK_SIZE = 16"
  by (simp add: heapMINIMUM_BLOCK_SIZE_def)

lemma aligned_and_7: "(w :: u32) AND 7 = 0 \<longleftrightarrow> 8 dvd unat w"
  by (simp add: and_7 [symmetric] dvd_eq_mod_eq_0 flip: unat_eq_zero)

lemma unat_add32: "unat (a :: u32) + unat b < 2 ^ 32 \<Longrightarrow> unat (a + b) = unat a + unat b"
  by (simp add: unat_add_lem [THEN iffD1])

lemma round_up_8: "(k :: nat) mod 8 \<noteq> 0 \<Longrightarrow> k + (8 - k mod 8) = (k + 7) div 8 * 8"
proof -
  assume k: "k mod 8 \<noteq> 0"
  define q r where "q = k div 8" and "r = k mod 8"
  have kq: "k = 8 * q + r" "0 < r" "r < 8" using k by (simp_all add: q_def r_def)
  then have "k + 7 = 8 * (q + 1) + (r - 1)" "r - 1 < 8" by auto
  then have "(k + 7) div 8 = q + 1" by (metis div_mult_self4 div_less add_0_right zero_neq_numeral)
  with kq show ?thesis by (simp add: r_def [symmetric])
qed

lemma rounded_request_ok:
  assumes "0 < w" and "unat w < 2 ^ 31"
  shows "\<exists>r. rounded_request w = Some r \<and> unat r = block_size (unat w)"
proof -
  let ?w = "w + 8"
  have w: "unat ?w = unat w + 8" using assms(2) by (simp add: unat_add_lem [THEN iffD1])
  show ?thesis
  proof (cases "?w AND 7 = 0")
    case True
    then have "8 dvd unat w + 8" using w by (simp add: aligned_and_7)
    then have "block_size (unat w) = unat w + 8" unfolding block_size_def by presburger
    then show ?thesis using True w assms(1)
      by (simp add: rounded_request_def portBYTE_ALIGNMENT_MASK_def Let_def)
  next
    case False
    let ?m = "(unat w + 8) mod 8"
    have m: "unat (?w AND 7) = ?m" unfolding and_7 w ..
    have m8: "0 < ?m" "?m < 8" using False by (auto simp: aligned_and_7 w dvd_eq_mod_eq_0)
    have d: "unat (8 - (?w AND 7)) = 8 - ?m"
      using m m8 by (simp add: unat_sub word_le_nat_alt)
    have "unat ?w + unat (8 - (?w AND 7)) < 2 ^ 32" unfolding d w using assms(2) by simp
    then have "unat (?w + (8 - (?w AND 7))) = unat ?w + unat (8 - (?w AND 7))"
      by (rule unat_add32)
    then have r: "unat (?w + (8 - (?w AND 7))) = block_size (unat w)"
      unfolding d w block_size_def using m8 round_up_8 [of "unat w + 8"] by simp
    then have "(?w + (8 - (?w AND 7))) AND 7 = 0" using block_size_bounds(3) by (simp add: aligned_and_7)
    with False r assms(1) show ?thesis
      by (simp add: rounded_request_def portBYTE_ALIGNMENT_MASK_def portBYTE_ALIGNMENT_def Let_def)
  qed
qed

section \<open>The first fit\<close>

lemma first_fit_some:
  assumes "chain h q (as @ b # cs)" and "\<forall>a \<in> set as. size_of h (wd a) < w \<and> next_of h (wd a) \<noteq> 0"
    and "\<not> size_of h (wd b) < w"
  shows "first_fit h q (next_of h q) w = Some (last_of q as, wd b)"
  using assms
proof (induction as arbitrary: q)
  case Nil
  then show ?case by (simp add: first_fit.simps [of h q "wd b"])
next
  case (Cons a as)
  then show ?case by (simp add: first_fit.simps [of h q "wd a"])
qed

lemma first_fit_none:
  assumes "chain h q as" and "\<forall>a \<in> set as. size_of h (wd a) < w \<and> next_of h (wd a) \<noteq> 0"
    and "next_of h (pxEnd h) = 0"
  shows "first_fit h q (next_of h q) w = Some (last_of q as, pxEnd h)"
  using assms
proof (induction as arbitrary: q)
  case Nil
  then show ?case by (simp add: first_fit.simps [of h q "pxEnd h"])
next
  case (Cons a as)
  then show ?case by (simp add: first_fit.simps [of h q "wd a"])
qed

lemma frees_split:
  "frees bs = as @ b # cs \<Longrightarrow> \<exists>L n R. bs = L @ (b, n, Free) # R \<and> frees L = as \<and> frees R = cs"
proof (induction bs arbitrary: as)
  case (Cons c bs)
  obtain x n u where c: "c = (x, n, u)" by (cases c)
  show ?case
  proof (cases "u = Free \<and> as = []")
    case True
    then show ?thesis using Cons.prems c by (intro exI [of _ "[]"]) auto
  next
    case False
    then obtain as' where "frees bs = as' @ b # cs" "as = (if u = Free then x # as' else as')"
      using Cons.prems c by (cases as) (auto split: if_splits)
    with Cons.IH obtain L m R where "bs = L @ (b, m, Free) # R" "frees L = as'" "frees R = cs" by blast
    with c \<open>as = _\<close> show ?thesis by (intro exI [of _ "c # L"]) auto
  qed
qed simp

text \<open>Every free block has a successor, a block or the end marker.\<close>

lemma free_next:
  assumes l: "layout h s bs e" and x: "(x, n, Free) \<in> set bs"
  shows "next_of h (wd x) \<noteq> 0" "size_of h (wd x) = wd n"
proof -
  from x obtain L R where bs: "bs = L @ (x, n, Free) # R" by (auto dest: split_list)
  note d = layoutD [OF l [unfolded bs]]
  have "next_of h (wd x) = wd (rest_next (frees R) e)"
    by (rule chain_rest_next [OF _ d(10)]) (use l bs in \<open>auto simp: layout_append free_chain_append\<close>)
  moreover have "0 < rest_next (frees R) e" "rest_next (frees R) e < 2 ^ 32"
    using rest_next_bounds [OF d(2)] d(3,6) by auto
  ultimately show "next_of h (wd x) \<noteq> 0" using wd_eq [of "rest_next (frees R) e" 0] by auto
  show "size_of h (wd x) = wd n" using l bs by (simp add: layout_append)
qed

lemma first_fit_cases:
  assumes l: "layout h s bs e"
  obtains "\<forall>(x, n, u) \<in> set bs. u = Free \<longrightarrow> n < unat w"
    "first_fit h (xStart h) (next_of h (xStart h)) w = Some (last_of (xStart h) (frees bs), pxEnd h)"
  | L b n R where "bs = L @ (b, n, Free) # R" "unat w \<le> n"
    "\<forall>(x, m, u) \<in> set L. u = Free \<longrightarrow> m < unat w"
    "first_fit h (xStart h) (next_of h (xStart h)) w = Some (prev_free h L, wd b)"
proof -
  have c: "chain h (xStart h) (frees bs)" and e: "pxEnd h = wd e" "next_of h (wd e) = 0"
    using l by (auto simp: layout_def frame_ok_def)
  have small: "size_of h (wd x) < w \<longleftrightarrow> n < unat w" if "(x, n, Free) \<in> set bs" for x n
  proof -
    from that obtain L R where bs: "bs = L @ (x, n, Free) # R" by (auto dest: split_list)
    have "n < 2 ^ 32" using size_small [OF l [unfolded bs]] by simp
    then show ?thesis using free_next(2) [OF l that] by (simp add: word_less_nat_alt unat_wd)
  qed
  show ?thesis
  proof (cases "\<exists>a \<in> set (frees bs). \<not> size_of h (wd a) < w")
    case False
    then have all: "\<forall>a \<in> set (frees bs). size_of h (wd a) < w \<and> next_of h (wd a) \<noteq> 0"
      using free_next(1) [OF l] by (auto simp: in_frees)
    have "\<forall>(x, n, u) \<in> set bs. u = Free \<longrightarrow> n < unat w"
    proof clarify
      fix x n assume x: "(x, n, Free) \<in> set bs"
      then have "x \<in> set (frees bs)" by (auto simp only: in_frees)
      with all small [OF x] show "n < unat w" by blast
    qed
    then show ?thesis
      by (rule that(1)) (rule first_fit_none [OF c all], use e in simp)
  next
    case True
    from split_list_first_prop [OF this, unfolded not_not] obtain as b cs where f: "frees bs = as @ b # cs"
      and b: "\<not> size_of h (wd b) < w" and as: "\<forall>a \<in> set as. size_of h (wd a) < w" by (elim exE conjE)
    from frees_split [OF f] obtain L n R where bs: "bs = L @ (b, n, Free) # R" and L: "frees L = as" by blast
    have as': "\<forall>a \<in> set as. size_of h (wd a) < w \<and> next_of h (wd a) \<noteq> 0"
    proof
      fix a assume a: "a \<in> set as"
      then obtain m where "(a, m, Free) \<in> set bs" unfolding L [symmetric] bs by (auto simp: in_frees)
      from free_next(1) [OF l this] as a show "size_of h (wd a) < w \<and> next_of h (wd a) \<noteq> 0" by blast
    qed
    show ?thesis
    proof (rule that(2) [OF bs])
      show "unat w \<le> n" using b small [of b n] bs by simp
      show "\<forall>(x, m, u) \<in> set L. u = Free \<longrightarrow> m < unat w"
      proof clarify
        fix x m assume x: "(x, m, Free) \<in> set L"
        then have "x \<in> set as" unfolding L [symmetric] by (auto simp only: in_frees)
        moreover have "(x, m, Free) \<in> set bs" using x bs by simp
        ultimately show "m < unat w" using as small by blast
      qed
      show "first_fit h (xStart h) (next_of h (xStart h)) w = Some (prev_free h L, wd b)"
        unfolding prev_free_def L by (rule first_fit_some [OF c [unfolded f] as' b])
    qed
  qed
qed

end
