(* ===== verification/Heap4_Malloc.thy ===== *)
theory Heap4_Malloc
  imports Heap4_Ops
begin

text \<open>
  Allocation on the list of blocks: taking a block out of the free list, splitting it, and
  \<open>pvPortMalloc\<close> as a whole; what \<open>prvHeapInit\<close> builds.
\<close>

section \<open>Taking a block\<close>

lemma unlink_layout:
  assumes l: "layout h s (L @ (b, n, Free) # R) e"
  shows "layout (set_next (prev_free h L) (next_of h (wd b)) h) s (L @ (b, n, Held) # R) e"
proof -
  let ?q = "xStart h" and ?it = "prev_free h L"
  let ?h' = "set_next ?it (next_of h (wd b)) h"
  note d = layoutD [OF l]
  have b: "b < 2 ^ 32" using d by auto
  have it: "?it \<noteq> wd b" "?it \<noteq> wd e" using prev_free_not [OF d(13,1)] d by auto
  have itR: "?it \<notin> wd ` set (frees R)"
  proof -
    have "?it \<noteq> wd f" if "f \<in> set (frees R)" for f
      using prev_free_not [OF d(13,1), of f] d(3,6,12) that by auto
    then show ?thesis by auto
  qed
  have dist: "distinct (?q # map wd (frees L))"
    by (rule nodes_distinct [OF d(13,1)]) (use d in simp)
  have "path ?h' ?q (frees L)"
    using d(8) path_set_next [OF last_of_notin_butlast [OF dist]] by (simp add: prev_free_def)
  moreover have "chain h (wd b) (frees R)"
    using l by (simp add: layout_append free_chain_append)
  then have "chain ?h' ?it (frees R)"
    using itR by (cases "frees R") (auto simp: chain_set_next)
  ultimately have c: "chain ?h' ?q (frees L @ frees R)" by (simp add: free_chain_append prev_free_def)
  have "\<forall>c \<in> set (L @ (b, n, Free) # R). header_ok ?h' c"
  proof (rule headers_links [OF _ d(13)])
    show "\<forall>c \<in> set (L @ (b, n, Free) # R). header_ok h c" "tiles s (L @ (b, n, Free) # R) e"
      using l by (simp_all add: layout_def)
    fix a
    show "size_of ?h' a = size_of h a" by simp
    show "next_of ?h' a = next_of h a \<or> a = xStart h \<or> a \<in> wd ` set (frees (L @ (b, n, Free) # R))"
      using prev_free_cases [of h L] by auto
  qed
  moreover have "frame_ok ?h' s e"
    by (rule frame_ok_links [OF d(13)]) (use it d(13) in \<open>auto simp: frame_ok_def\<close>)
  ultimately show ?thesis using l c by (simp add: layout_append)
qed

lemma split_layout:
  assumes l: "layout h s (L @ (b, n, Held) # R) e" and w: "0 < w" "w < n" "8 dvd w"
  shows "layout (set_size (wd b) (wd w) (set_size (wd (b + w)) (wd (n - w)) h)) s
    ((L @ [(b, w, Held)]) @ (b + w, n - w, Held) # R) e"
proof -
  let ?h' = "set_size (wd b) (wd w) (set_size (wd (b + w)) (wd (n - w)) h)"
  note d = layoutD [OF l]
  have "wd (b + w) = wd b \<longleftrightarrow> b + w = b" by (rule wd_eq) (use d w in auto)
  then have ne: "wd (b + w) \<noteq> wd b" using w(1) by simp
  have ee: "wd (b + w) \<noteq> wd e"
  proof -
    have "wd (b + w) = wd e \<longleftrightarrow> b + w = e" by (rule wd_eq) (use d w in auto)
    then show ?thesis using d(5) w by simp
  qed
  have "wd b \<noteq> wd e" using d by (simp add: wd_eq)
  moreover have "wd (b + w) \<noteq> xStart h" by (rule start_not_block [OF d(13)]) (use d w in auto)
  ultimately have fr: "frame_ok ?h' s e"
    by (intro frame_ok_links [OF d(13)]) (use d(9,13) ee in \<open>auto simp: frame_ok_def\<close>)
  have hd: "header_ok ?h' c" if "c \<in> set L \<union> set R" for c
  proof -
    have "wd (fst c) \<noteq> wd b" "wd (fst c) \<noteq> wd (b + w)"
      using other_block [OF l that] other_block_at [OF l that, of "b + w"] w by auto
    then have "mem ?h' (wd (fst c)) = mem h (wd (fst c))" by simp
    moreover have "header_ok h c" using l that by (auto simp: layout_append)
    ultimately show ?thesis by (rule header_ok_cong [THEN iffD2])
  qed
  have "8 dvd n - w" using d(14) w(3) by (rule dvd_diff_nat)
  moreover have "tiles (b + w + (n - w)) R e" using d(2) w by simp
  moreover have "size_of ?h' (wd (b + w)) = wd (n - w)" using ne by simp
  moreover have "size_of ?h' (wd b) = wd w" by simp
  moreover have "tiles s (L @ [(b, w, Held)]) (b + w)" using d(1) w by (simp add: tiles_append)
  moreover have "chain ?h' (xStart h) (frees L @ frees R)" using l by (simp add: layout_append)
  ultimately show ?thesis
    unfolding layout_append using fr hd w l by (auto simp: layout_append simp del: set_size_simps(2) of_nat_add)
qed

lemma use_layout:
  assumes l: "layout h s (L @ (b, n, Held) # R) e"
  shows "layout (set_next (wd b) 0 (set_size (wd b) (wd n OR allocated_bit) h)) s (L @ (b, n, Used) # R) e"
proof -
  let ?h' = "set_next (wd b) 0 (set_size (wd b) (wd n OR allocated_bit) h)"
  note d = layoutD [OF l]
  have "f \<noteq> b \<and> f < 2 ^ 32" if f: "f \<in> set (frees L @ frees R)" for f
  proof -
    from f have "f \<in> set (frees L) \<or> f \<in> set (frees R)" by simp
    then have "f < b \<or> b + n \<le> f \<and> f < e" using d(11,12) by blast
    with d(3,5,6) show ?thesis by auto
  qed
  then have "wd b \<notin> wd ` set (frees L @ frees R)" by (intro wd_notin ballI) (use d(5,6) in auto)
  then have "chain ?h' (xStart h) (frees L @ frees R) \<longleftrightarrow> chain h (xStart h) (frees L @ frees R)"
    using d(9) by (simp add: chain_set_next)
  moreover have "frame_ok ?h' s e"
    by (rule frame_ok_links [OF d(13)]) (use d in \<open>auto simp: frame_ok_def wd_eq\<close>)
  moreover have "\<forall>c \<in> set L \<union> set R. header_ok ?h' c"
    using headers_other [OF l, of ?h'] by simp
  ultimately show ?thesis using l by (simp add: layout_append)
qed

text \<open>Minimum and counters after an allocation are not part of the layout.\<close>

lemma size_wd: "layout h s (L @ (x, n, u) # R) e \<Longrightarrow> unat (wd n) = n"
  using size_small [of h s L x n u R e] by (intro unat_wd) simp

lemma take_block_ok:
  assumes h: "heap_ok h s (L @ (b, n, Free) # R) e" and w: "0 < unat w" "unat w \<le> n" "8 dvd unat w"
  shows "\<exists>h' bs' m. take_block h (prev_free h L) (wd b) w = Some h' \<and> heap_ok h' s bs' e
    \<and> used bs' = insert (b, m) (used (L @ (b, n, Free) # R)) \<and> unat w \<le> m \<and> m \<le> unat w + 16 \<and> (b, m, Used) \<in> set bs'"
proof -
  let ?bs = "L @ (b, n, Free) # R"
  have l: "layout h s ?bs e" and c: "coalesced ?bs" and nh: "no_held ?bs"
    and f: "unat (xFreeBytesRemaining h) = free_bytes L + n + free_bytes R"
    using h by (auto simp: heap_ok_def)
  note d = layoutD [OF l] and n = size_wd [OF l]
  have sz: "size_of h (wd b) = wd n" using l by (simp add: layout_append)
  have it: "prev_free h L \<noteq> wd b" "wd b \<noteq> prev_free h L" using prev_free_not [OF d(13,1), of b] d(5,6) by auto
  have bit: "xBlockAllocatedBit h = allocated_bit" using d(13) by (simp add: frame_ok_def)
  let ?h1 = "set_next (prev_free h L) (next_of h (wd b)) h"
  have l1: "layout ?h1 s (L @ (b, n, Held) # R) e" by (rule unlink_layout [OF l])
  have fin: "heap_ok (own_block g (wd b)) s (L @ (b, m, Used) # R') e"
    if g: "layout g s (L @ (b, m, Held) # R') e" and "same_rest h g"
      and cc: "coalesced (L @ (b, m, Used) # R')" and nn: "no_held R'" and fb: "free_bytes R' + m = n + free_bytes R" for g m R'
  proof -
    have sm: "size_of g (wd b) = wd m" using g by (simp add: layout_append)
    have xf: "xFreeBytesRemaining g = xFreeBytesRemaining h" "xBlockAllocatedBit g = allocated_bit"
      using same_rest_fields \<open>same_rest h g\<close> bit by auto
    have "unat (wd m) \<le> unat (xFreeBytesRemaining h)" using f fb size_wd [OF g] by simp
    then have "unat (xFreeBytesRemaining h - wd m) = free_bytes L + free_bytes R'"
      using f fb size_wd [OF g] by (simp add: unat_sub word_le_nat_alt)
    moreover have "layout (own_block g (wd b)) s (L @ (b, m, Used) # R') e"
      using use_layout [of "g\<lparr>xFreeBytesRemaining := xFreeBytesRemaining h - wd m,
          xMinimumEverFreeBytesRemaining := (if xFreeBytesRemaining h - wd m < xMinimumEverFreeBytesRemaining g
            then xFreeBytesRemaining h - wd m else xMinimumEverFreeBytesRemaining g)\<rparr>" s L b m R' e] g
      by (simp add: own_block_def Let_def sm xf)
    moreover have "no_held L" using nh by simp
    ultimately show ?thesis using cc nn xf sm by (simp add: heap_ok_def own_block_def Let_def)
  qed
  have wle: "unat (wd n - w) = n - unat w" using w n by (simp add: unat_sub word_le_nat_alt)
  show ?thesis
  proof (cases "n - unat w > 16")
    case False
    then have "\<not> wd n - w > 16" using wle by (simp add: word_less_nat_alt)
    then have "take_block h (prev_free h L) (wd b) w = Some (own_block ?h1 (wd b))"
      by (simp add: take_block_def Let_def sz it)
    moreover have "heap_ok (own_block ?h1 (wd b)) s (L @ (b, n, Used) # R) e"
      by (rule fin [OF l1]) (use c nh in \<open>auto simp: coalesced_append\<close>)
    moreover have "used (L @ (b, n, Used) # R) = insert (b, n) (used ?bs)" by auto
    ultimately show ?thesis using w False by (intro exI conjI) auto
  next
    case True
    then have big: "wd n - w > 16" using wle by (simp add: word_less_nat_alt)
    have ww: "wd (unat w) = w" by simp
    have new: "wd b + w = wd (b + unat w)" "wd n - w = wd (n - unat w)"
      using wle by (simp_all add: of_nat_diff w)
    have "8 dvd b" using aligned [of s ?bs e b n Free] l d(13) by (simp add: layout_def frame_ok_def)
    then have "8 dvd unat (wd (b + unat w))" using w(2,3) d(5,6) by (subst unat_wd) auto
    then have al: "(wd b + w) AND portBYTE_ALIGNMENT_MASK = 0"
      unfolding new(1) portBYTE_ALIGNMENT_MASK_def by (rule aligned_and_7 [THEN iffD2])
    let ?h2 = "set_size (wd b) w (set_size (wd b + w) (wd n - w) ?h1)"
    have "layout ?h2 s ((L @ [(b, unat w, Held)]) @ (b + unat w, n - unat w, Held) # R) e"
      using split_layout [OF l1 w(1) _ w(3)] True unfolding new ww by simp
    from insert_layout [OF this] obtain h3 where h3: "prvInsertBlockIntoFreeList ?h2 (wd (b + unat w)) = Some h3"
      "layout h3 s (insert_free (L @ [(b, unat w, Held)]) (b + unat w) (n - unat w) R) e" "same_rest ?h2 h3" by blast
    have R: "R = [] \<or> \<not> is_free (hd R)" using c by (auto simp: coalesced_append)
    then have ins: "insert_free (L @ [(b, unat w, Held)]) (b + unat w) (n - unat w) R
        = L @ (b, unat w, Held) # (b + unat w, n - unat w, Free) # R"
      by (auto simp: insert_free_def absorb_right_if)
    have sr: "same_rest h h3"
      by (rule same_rest_trans [OF _ h3(3)], rule same_rest_trans [OF _ same_rest_writes(3)],
          rule same_rest_trans [OF _ same_rest_writes(3)], rule same_rest_writes(2))
    have h3': "prvInsertBlockIntoFreeList ?h2 (wd b + w) = Some h3" using h3(1) unfolding new(1) .
    have "take_block h (prev_free h L) (wd b) w = Some (own_block h3 (wd b))"
      using big by (simp add: take_block_def Let_def sz it al h3' del: mem_set)
    moreover have "heap_ok (own_block h3 (wd b)) s (L @ (b, unat w, Used) # (b + unat w, n - unat w, Free) # R) e"
      by (rule fin [OF _ sr]) (use h3(2) ins c nh R w in \<open>auto simp: coalesced_append\<close>)
    ultimately show ?thesis
      by (intro exI [of _ "own_block h3 (wd b)"] exI [of _ "L @ (b, unat w, Used) # (b + unat w, n - unat w, Free) # R"]
          exI [of _ "unat w"]) auto
  qed
qed

section \<open>Initialisation\<close>

text \<open>
  What the linker script and the start of the program guarantee: \<open>xStart\<close> lies below the
  heap area, the area holds at least a block and the end marker, and it ends below the top
  of the address space.
\<close>

definition heap_boot :: "heap4 \<Rightarrow> bool" where
  "heap_boot h \<longleftrightarrow> pxEnd h = 0 \<and> xBlockAllocatedBit h = 0 \<and> xFreeBytesRemaining h = 0
     \<and> unat (xStart h) < unat (ucHeap h) \<and> unat (ucHeap h) + 32 \<le> unat (ucHeapEnd h)
     \<and> unat (ucHeapEnd h) - unat (ucHeap h) < 2 ^ 31 \<and> unat (ucHeapEnd h) < 2 ^ 32 - 16"

lemma and_not_7: "unat ((w :: u32) AND NOT 7) = unat w div 8 * 8"
proof -
  have m: "(7 :: u32) = mask 3" by (simp add: mask_eq_exp_minus_1)
  have "w AND NOT 7 = push_bit 3 (drop_bit 3 w)"
    unfolding m by (rule bit_word_eqI) (auto simp: bit_simps)
  also have "\<dots> = (w div 8) * 8" by (simp add: push_bit_eq_mult drop_bit_eq_div)
  finally have e: "w AND NOT 7 = (w div 8) * 8" .
  have "unat w div 8 * 8 < 2 ^ 32"
    using unsigned_less [of w, where ?'a = nat] div_times_less_eq_dividend [of "unat w" 8] by simp
  then have "unat ((w div 8) * 8) = unat (w div 8) * unat (8 :: u32)"
    by (intro unat_mult_lem [THEN iffD1]) (simp add: unat_div)
  then show ?thesis unfolding e by (simp add: unat_div)
qed

lemma and_minus_8: "unat ((w :: u32) AND - 8) = unat w div 8 * 8"
  using and_not_7 [of w] by simp

text \<open>The area the allocator manages: both ends rounded to multiples of 8.\<close>

definition heap_first :: "heap4 \<Rightarrow> nat" where
  "heap_first h = (unat (ucHeap h) + 7) div 8 * 8"

definition heap_last :: "heap4 \<Rightarrow> nat" where
  "heap_last h = (unat (ucHeapEnd h) - 8) div 8 * 8"

lemma prvHeapInit_fields:
  assumes b: "heap_boot h"
  defines "s \<equiv> wd (heap_first h)" and "e \<equiv> wd (heap_last h)"
  shows "prvHeapInit h = (set_next s e (set_size s (e - s) (set_next e 0 (set_size e 0
      (set_size (xStart h) 0 (set_next (xStart h) s h)\<lparr>pxEnd := e\<rparr>)))))
    \<lparr>xMinimumEverFreeBytesRemaining := e - s, xFreeBytesRemaining := e - s, xBlockAllocatedBit := allocated_bit\<rparr>"
proof -
  let ?a = "ucHeap h"
  have a: "unat ?a + 7 < 2 ^ 32" using b by (simp add: heap_boot_def)
  then have a7: "unat (?a + 7) = unat ?a + 7" by (simp add: unat_add32)
  let ?al = "if ?a AND 7 \<noteq> 0 then (?a + 7) AND NOT 7 else ?a"
  have "unat ?al = heap_first h"
  proof (cases "?a AND 7 = 0")
    case True
    then have "8 dvd unat ?a" by (simp add: aligned_and_7)
    then show ?thesis using True by (auto simp: heap_first_def elim!: dvdE)
  qed (simp add: and_minus_8 a7 heap_first_def)
  then have "wd (unat ?al) = s" by (simp only: s_def)
  then have al: "?al = s" by (simp only: of_nat_unat ucast_id)
  have f: "unat ?a \<le> heap_first h" "heap_first h < unat ?a + 8"
    unfolding heap_first_def by presburger+
  have tot: "?al + (if ?a AND 7 \<noteq> 0 then ucHeapSize h - (((?a + 7) AND NOT 7) - ?a) else ucHeapSize h) = ucHeapEnd h"
    by (simp add: ucHeapSize_def)
  have "unat (ucHeapEnd h - 8) = unat (ucHeapEnd h) - 8"
    using b by (simp add: heap_boot_def unat_sub word_le_nat_alt)
  then have "unat ((ucHeapEnd h - 8) AND NOT 7) = heap_last h" by (simp add: and_minus_8 heap_last_def)
  then have "wd (unat ((ucHeapEnd h - 8) AND NOT 7)) = e" by (simp only: e_def)
  then have e: "(ucHeapEnd h - 8) AND NOT 7 = e" by (simp only: of_nat_unat ucast_id)
  show ?thesis
    using al tot e
    by (simp add: prvHeapInit_def Let_def portBYTE_ALIGNMENT_MASK_def portBYTE_ALIGNMENT_def
        allocated_bit_def split: if_splits)
qed

lemma prvHeapInit_ok:
  assumes b: "heap_boot h"
  shows "heap_ok (prvHeapInit h) (heap_first h) [(heap_first h, heap_last h - heap_first h, Free)] (heap_last h)
    \<and> unat (ucHeap h) \<le> heap_first h \<and> heap_last h + 8 \<le> unat (ucHeapEnd h)"
proof -
  let ?s = "heap_first h" and ?e = "heap_last h"
  have s: "unat (ucHeap h) \<le> ?s" "?s < unat (ucHeap h) + 8" "8 dvd ?s"
    unfolding heap_first_def by presburger+
  have e: "unat (ucHeapEnd h) - 16 < ?e" "?e \<le> unat (ucHeapEnd h) - 8" "8 dvd ?e"
  proof -
    have n: "16 \<le> unat (ucHeapEnd h)" using b by (simp add: heap_boot_def)
    show "unat (ucHeapEnd h) - 16 < ?e" "?e \<le> unat (ucHeapEnd h) - 8" "8 dvd ?e"
      unfolding heap_last_def using n by presburger+
  qed
  have se: "?s < ?e" "?e + 8 < 2 ^ 32" "?e - ?s < 2 ^ 31" "unat (xStart h) < ?s" "?s < 2 ^ 32" "?e < 2 ^ 32"
    using b s e unfolding heap_boot_def by auto
  have ne: "wd ?s \<noteq> wd ?e" "wd ?e \<noteq> wd ?s" using se by (auto simp: wd_eq)
  have "unat (wd ?s) = ?s" "unat (wd ?e) = ?e" using se by (auto intro: unat_wd)
  then have nx: "wd ?s \<noteq> xStart h" "wd ?e \<noteq> xStart h" using se by auto
  have d: "wd ?e - wd ?s = wd (?e - ?s)" using se by (simp add: of_nat_diff)
  have "unat (wd ?e - wd ?s) = ?e - ?s" unfolding d by (rule unat_wd) (use se in simp)
  then have free: "unat (wd ?e - wd ?s) = ?e - ?s" .
  let ?h = "prvHeapInit h"
  note f = prvHeapInit_fields [OF b]
  have n: "next_of ?h (xStart h) = wd ?s" "size_of ?h (xStart h) = 0" "xStart ?h = xStart h"
    "next_of ?h (wd ?s) = wd ?e" "size_of ?h (wd ?s) = wd ?e - wd ?s"
    "next_of ?h (wd ?e) = 0" "size_of ?h (wd ?e) = 0" "pxEnd ?h = wd ?e"
    "xFreeBytesRemaining ?h = wd ?e - wd ?s" "xBlockAllocatedBit ?h = allocated_bit"
    using ne nx by (simp_all add: f nx [symmetric])
  have "8 dvd ?e - ?s" using s(3) e(3) by (rule dvd_diff_nat [rotated])
  moreover have "frame_ok ?h ?s ?e"
    unfolding frame_ok_def n using se(2-4) s(3) by blast
  moreover have "tiles ?s [(?s, ?e - ?s, Free)] ?e" using se(1) by simp
  moreover have "header_ok ?h (?s, ?e - ?s, Free)" using n(5) d by (simp only: header_ok_simp) simp
  ultimately have "layout ?h ?s [(?s, ?e - ?s, Free)] ?e"
    using n(1,3,4,8) by (simp add: layout_def del: tiles.simps of_nat_diff)
  then have "heap_ok ?h ?s [(?s, ?e - ?s, Free)] ?e"
    using n(9) free by (simp add: heap_ok_def)
  moreover have "32 \<le> unat (ucHeapEnd h)" using b by (simp add: heap_boot_def)
  then have "?e + 8 \<le> unat (ucHeapEnd h)" using e(2) by linarith
  ultimately show ?thesis using s(1) by blast
qed

end
