(* ===== verification/Heap4_Props.thy ===== *)
theory Heap4_Props
  imports Heap4_Malloc
begin

text \<open>
  The properties of the allocator: what an allocation returns and when it fails, that the
  blocks an application holds never overlap whatever it allocates and frees, that freeing
  everything gives back one block, and two defects of the C library calls on top of it.
\<close>

section \<open>Allocation\<close>

lemma end_nonzero: "frame_ok h s e \<Longrightarrow> s \<le> e \<Longrightarrow> pxEnd h \<noteq> 0"
proof -
  assume f: "frame_ok h s e" and "s \<le> e"
  then have "unat (pxEnd h) = e" "0 < e" by (auto simp: frame_ok_def unat_wd)
  then show ?thesis by auto
qed

lemma layout_end: "layout h s bs e \<Longrightarrow> frame_ok h s e \<and> s \<le> e"
  by (auto simp: layout_def dest: tiles_le)

lemma heap_ok_end: "heap_ok h s bs e \<Longrightarrow> pxEnd h \<noteq> 0"
  using layout_end end_nonzero unfolding heap_ok_def by blast

lemma no_top_bit:
  assumes "unat (n :: u32) < 2 ^ 31"
  shows "n AND allocated_bit = 0"
  using allocated_bit_facts(1) [OF assms] by simp

lemma pvPortMalloc_cases:
  assumes h: "heap_ok h s bs e" and n: "0 < n" "unat n < 2 ^ 31"
  obtains "pvPortMalloc h n = Some (0, h)" "\<forall>(x, m, u) \<in> set bs. u = Free \<longrightarrow> m < block_size (unat n)"
  | x m h' bs' where "pvPortMalloc h n = Some (wd (x + 8), h')" "heap_ok h' s bs' e"
    "used bs' = insert (x, m) (used bs)" "(x, m, Used) \<in> set bs'" "block_size (unat n) \<le> m"
    "m \<le> block_size (unat n) + 16" "8 dvd x" "(x, m) \<notin> used bs" "wd (x + 8) \<noteq> 0"
proof -
  have l: "layout h s bs e" and f: "unat (xFreeBytesRemaining h) = free_bytes bs" using h by (auto simp: heap_ok_def)
  have fr: "frame_ok h s e" and e: "pxEnd h \<noteq> 0"
    using layout_end [OF l] end_nonzero by auto
  have bit: "n AND xBlockAllocatedBit h = 0" using no_top_bit [OF n(2)] fr by (simp add: frame_ok_def)
  obtain w where w: "rounded_request n = Some w" "unat w = block_size (unat n)"
    using rounded_request_ok [OF n] by blast
  have w0: "0 < w" using w(2) block_size_bounds(1) [of "unat n"] by (auto simp: word_less_nat_alt)
  show ?thesis
  proof (cases rule: first_fit_cases [OF l, of w])
    case 1
    have "pvPortMalloc h n = Some (0, h)" using e bit w w0 1(2) by (simp add: pvPortMalloc_def)
    then show ?thesis by (rule that(1)) (use 1(1) w in simp)
  next
    case (2 L b k R)
    note d = layoutD [OF l [unfolded 2(1)]]
    have wf: "w \<le> xFreeBytesRemaining h"
      using 2(1,2) f by (simp add: word_le_nat_alt)
    have al: "8 dvd b" using aligned [of s bs e b k Free] l fr 2(1) by (simp add: layout_def frame_ok_def)
    have be: "wd b \<noteq> pxEnd h" using d(3,5,6,10) by (simp add: wd_eq)
    have w8: "0 < unat w" "8 dvd unat w" using w0 w(2) block_size_bounds(3) by (simp_all add: word_less_nat_alt)
    from take_block_ok [OF h [unfolded 2(1)] w8(1) 2(2) w8(2)]
    obtain h' bs' m where t: "take_block h (prev_free h L) (wd b) w = Some h'" "heap_ok h' s bs' e"
      "used bs' = insert (b, m) (used bs)" "unat w \<le> m" "m \<le> unat w + 16" "(b, m, Used) \<in> set bs'"
      unfolding 2(1) by (elim exE conjE)
    have nx: "next_of h (prev_free h L) = wd b" using layout_chain(2) [OF l [unfolded 2(1)]] by simp
    have ub: "unat (wd (b + 8)) = b + 8" by (rule unat_wd) (use d in auto)
    have "8 dvd unat (wd (b + 8))" using al unfolding ub by simp
    then have ra: "(wd b + 8) AND portBYTE_ALIGNMENT_MASK = 0"
      using aligned_and_7 [of "wd b + 8"] by (simp add: portBYTE_ALIGNMENT_MASK_def)
    have "pvPortMalloc h n = Some (wd (b + 8), h')"
      using e bit w w0 wf 2(4) be t(1) nx ra by (simp add: pvPortMalloc_def)
    moreover have "(b, m) \<notin> used bs"
    proof
      assume "(b, m) \<in> used bs"
      then have "(b, m, Used) \<in> set bs" by (simp add: used_def)
      from tiles_unique [OF _ this, of s e k Free] l 2(1) show False by (simp add: layout_def)
    qed
    moreover have "wd (b + 8) \<noteq> 0" using ub by auto
    ultimately show ?thesis
      by (intro that(2) [of b h' bs' m]) (use t w(2) al in simp_all)
  qed
qed

lemma pvPortMalloc_first_fit_fail:
  assumes "heap_ok h s bs e" and "0 < n" and "unat n < 2 ^ 31"
    and "\<forall>(x, m, u) \<in> set bs. u = Free \<longrightarrow> m < block_size (unat n)"
  shows "pvPortMalloc h n = Some (0, h)"
proof -
  have l: "layout h s bs e" using assms(1) by (simp add: heap_ok_def)
  obtain w where w: "rounded_request n = Some w" "unat w = block_size (unat n)"
    using rounded_request_ok [OF assms(2,3)] by blast
  show ?thesis
  proof (cases rule: first_fit_cases [OF l, of w])
    case 1
    then show ?thesis using heap_ok_end [OF assms(1)] w by (simp add: pvPortMalloc_def)
  next
    case (2 L b k R)
    then show ?thesis using assms(4) w by auto
  qed
qed

text \<open>
  C23. A request of \<open>n\<close> bytes fails, changing nothing, exactly if no free block can hold it
  with its header, rounded up to 8; otherwise it returns an 8-aligned address behind the
  header of a new block that is large enough and at most 16 bytes larger than needed, and
  the application's other blocks are as before.
\<close>

theorem pvPortMalloc_first_fit:
  assumes "heap_ok h s bs e" and "0 < n" and "unat n < 2 ^ 31"
  shows "if \<forall>(x, m, u) \<in> set bs. u = Free \<longrightarrow> m < block_size (unat n)
    then pvPortMalloc h n = Some (0, h)
    else \<exists>x m h' bs'. pvPortMalloc h n = Some (wd (x + 8), h') \<and> wd (x + 8) \<noteq> 0 \<and> heap_ok h' s bs' e
      \<and> (x, m) \<notin> used bs \<and> used bs' = insert (x, m) (used bs)
      \<and> 8 dvd x \<and> unat n + 8 \<le> m \<and> m \<le> block_size (unat n) + 16"
proof (cases rule: pvPortMalloc_cases [OF assms])
  case 1
  then show ?thesis by simp
next
  case (2 x m h' bs')
  have "\<not> (\<forall>(x, m, u) \<in> set bs. u = Free \<longrightarrow> m < block_size (unat n))"
  proof
    assume "\<forall>(x, m, u) \<in> set bs. u = Free \<longrightarrow> m < block_size (unat n)"
    from pvPortMalloc_first_fit_fail [OF assms this] 2(1,9) show False by simp
  qed
  moreover have "unat n + 8 \<le> m" using 2(5) block_size_bounds(1) [of "unat n"] by simp
  ultimately show ?thesis using 2 by auto
qed

text \<open>A heap area of 4 KB for the witnesses.\<close>

definition small_heap :: heap4 where
  "small_heap = \<lparr>mem = (\<lambda>_. \<lparr>pxNextFreeBlock = 0, xBlockSize = 0\<rparr>), xStart = 0x100, pxEnd = 0,
     ucHeap = 0x1004, ucHeapEnd = 0x2000, xFreeBytesRemaining = 0, xMinimumEverFreeBytesRemaining = 0,
     xNumberOfSuccessfulAllocations = 0, xNumberOfSuccessfulFrees = 0, xBlockAllocatedBit = 0\<rparr>"

lemma small_heap_boot: "heap_boot small_heap"
  by (simp add: heap_boot_def small_heap_def)

lemma small_heap_ends: "heap_first small_heap = 4104" "heap_last small_heap = 8184"
  by (simp_all add: heap_first_def heap_last_def small_heap_def)

theorem pvPortMalloc_first_fit_witness:
  "\<exists>h h' x. pvPortMalloc (prvHeapInit small_heap) 100 = Some (wd (x + 8), h) \<and> wd (x + 8) \<noteq> 0
     \<and> pvPortMalloc (prvHeapInit small_heap) 4090 = Some (0, h')"
proof -
  let ?bs = "[(4104, 4080, Free)]"
  have ok: "heap_ok (prvHeapInit small_heap) 4104 ?bs 8184"
    using prvHeapInit_ok [OF small_heap_boot] by (simp add: small_heap_ends)
  have "block_size (unat (100 :: u32)) = 112" "block_size (unat (4090 :: u32)) = 4104"
    by (simp_all add: block_size_def)
  with pvPortMalloc_first_fit [OF ok, of 100] pvPortMalloc_first_fit [OF ok, of 4090] show ?thesis
    by auto
qed

section \<open>Any sequence of allocations and frees\<close>

text \<open>The set holds the pointers the application has not freed, with the requested sizes.\<close>

inductive heap_run :: "heap4 \<Rightarrow> heap4 \<Rightarrow> (u32 \<times> u32) set \<Rightarrow> bool" for h0 where
  start: "heap_run h0 h0 {}"
| alloc: "heap_run h0 h A \<Longrightarrow> pvPortMalloc h n = Some (p, h') \<Longrightarrow>
    heap_run h0 h' (if p = 0 then A else insert (p, n) A)"
| dealloc: "heap_run h0 h A \<Longrightarrow> (p, n) \<in> A \<Longrightarrow> vPortFree h p = Some h' \<Longrightarrow>
    heap_run h0 h' {a \<in> A. fst a \<noteq> p}"

text \<open>The application's pointers are exactly those behind the headers of the used blocks.\<close>

definition owns :: "(u32 \<times> u32) set \<Rightarrow> blk list \<Rightarrow> bool" where
  "owns A bs \<longleftrightarrow> (\<forall>p n. (p, n) \<in> A \<longrightarrow> (\<exists>x m. (x, m) \<in> used bs \<and> p = wd (x + 8) \<and> unat n + 8 \<le> m))
     \<and> (\<forall>x m. (x, m) \<in> used bs \<longrightarrow> (\<exists>n. (wd (x + 8), n) \<in> A))
     \<and> (\<forall>p n m. (p, n) \<in> A \<longrightarrow> (p, m) \<in> A \<longrightarrow> n = m)"

lemma owns_block: "owns A bs \<Longrightarrow> (p, n) \<in> A \<Longrightarrow> \<exists>x m. (x, m) \<in> used bs \<and> p = wd (x + 8) \<and> unat n + 8 \<le> m"
  unfolding owns_def by blast

definition run_inv :: "heap4 \<Rightarrow> heap4 \<Rightarrow> (u32 \<times> u32) set \<Rightarrow> bool" where
  "run_inv h0 h A \<longleftrightarrow> (\<exists>bs. heap_ok h (heap_first h0) bs (heap_last h0) \<and> owns A bs)"

lemma used_addr:
  assumes "layout h s bs e" and "(x, m) \<in> used bs"
  shows "(x, m, Used) \<in> set bs" "s \<le> x" "x + m \<le> e" "x + 8 < 2 ^ 32" "8 dvd x"
proof -
  show u: "(x, m, Used) \<in> set bs" using assms(2) by (simp add: used_def)
  have t: "tiles s bs e" and f: "frame_ok h s e" using assms(1) by (auto simp: layout_def)
  show "s \<le> x" "x + m \<le> e" "x + 8 < 2 ^ 32" using tiles_mem [OF t u] f by (auto simp: frame_ok_def)
  show "8 dvd x" by (rule aligned [OF t _ _ u]) (use assms(1) f in \<open>auto simp: layout_def frame_ok_def\<close>)
qed

lemma used_pointer_inj:
  assumes l: "layout h s bs e" and "(x, m) \<in> used bs" "(y, k) \<in> used bs" and "wd (x + 8) = wd (y + 8)"
  shows "x = y \<and> m = k"
proof -
  have "x + 8 = y + 8" using assms(4) wd_eq used_addr(4) [OF l] assms(2,3) by blast
  moreover have "tiles s bs e" using l by (simp add: layout_def)
  ultimately show ?thesis
    using tiles_unique [of s bs e x m Used k Used] used_addr(1) [OF l] assms(2,3) by auto
qed

lemma owns_alloc:
  assumes o: "owns A bs" and l: "layout h s bs' e" and u: "used bs' = insert (x, m) (used bs)"
    and new: "(x, m) \<notin> used bs" and n: "unat n + 8 \<le> m"
  shows "owns (insert (wd (x + 8), n) A) bs'"
proof -
  have fresh: "(wd (x + 8), k) \<notin> A" for k
  proof
    assume "(wd (x + 8), k) \<in> A"
    then obtain y j where "(y, j) \<in> used bs" "wd (x + 8) = wd (y + 8)" using o unfolding owns_def by blast
    with used_pointer_inj [OF l, of x m y j] u new show False by auto
  qed
  show ?thesis unfolding owns_def u
  proof (intro conjI allI impI)
    fix p k assume "(p, k) \<in> insert (wd (x + 8), n) A"
    then show "\<exists>y j. (y, j) \<in> insert (x, m) (used bs) \<and> p = wd (y + 8) \<and> unat k + 8 \<le> j"
      using o n unfolding owns_def by blast
  next
    fix y j assume "(y, j) \<in> insert (x, m) (used bs)"
    then show "\<exists>n'. (wd (y + 8), n') \<in> insert (wd (x + 8), n) A" using o unfolding owns_def by blast
  next
    fix p k j assume "(p, k) \<in> insert (wd (x + 8), n) A" "(p, j) \<in> insert (wd (x + 8), n) A"
    then show "k = j" using o fresh unfolding owns_def by blast
  qed
qed

lemma owns_free:
  assumes o: "owns A bs" and l: "layout h s bs e" and xm: "(x, m) \<in> used bs" and u: "used bs' = used bs - {(x, m)}"
  shows "owns {a \<in> A. fst a \<noteq> wd (x + 8)} bs'"
  unfolding owns_def u
proof (intro conjI allI impI)
  fix p k assume "(p, k) \<in> {a \<in> A. fst a \<noteq> wd (x + 8)}"
  then have "(p, k) \<in> A" "p \<noteq> wd (x + 8)" by auto
  then show "\<exists>y j. (y, j) \<in> used bs - {(x, m)} \<and> p = wd (y + 8) \<and> unat k + 8 \<le> j"
    using o unfolding owns_def by blast
next
  fix y j assume yj: "(y, j) \<in> used bs - {(x, m)}"
  then have "wd (y + 8) \<noteq> wd (x + 8)" using used_pointer_inj [OF l _ xm, of y j] by auto
  then show "\<exists>n'. (wd (y + 8), n') \<in> {a \<in> A. fst a \<noteq> wd (x + 8)}" using o yj unfolding owns_def by auto
next
  fix p k j assume "(p, k) \<in> {a \<in> A. fst a \<noteq> wd (x + 8)}" "(p, j) \<in> {a \<in> A. fst a \<noteq> wd (x + 8)}"
  then show "k = j" using o unfolding owns_def by blast
qed

text \<open>An allocation on an initialised heap; a size with the top bit or 0 fails.\<close>

lemma malloc_run_inv:
  assumes i: "run_inv h0 h A" and a: "pvPortMalloc h n = Some (p, h')"
  shows "run_inv h0 h' (if p = 0 then A else insert (p, n) A)"
proof -
  from i obtain bs where h: "heap_ok h (heap_first h0) bs (heap_last h0)" and o: "owns A bs"
    by (auto simp: run_inv_def)
  have l: "layout h (heap_first h0) bs (heap_last h0)" using h by (simp add: heap_ok_def)
  have e: "pxEnd h \<noteq> 0" and bit: "xBlockAllocatedBit h = allocated_bit"
    using layout_end [OF l] end_nonzero by (auto simp: frame_ok_def)
  show ?thesis
  proof (cases "0 < n \<and> unat n < 2 ^ 31")
    case True
    then have n: "0 < n" "unat n < 2 ^ 31" by auto
    show ?thesis
    proof (cases rule: pvPortMalloc_cases [OF h n])
      case 1
      with a h o show ?thesis by (auto simp: run_inv_def)
    next
      case (2 x m g bs')
      have "layout g (heap_first h0) bs' (heap_last h0)" using 2(2) by (simp add: heap_ok_def)
      moreover have "unat n + 8 \<le> m" using 2(5) block_size_bounds(1) [of "unat n"] by simp
      ultimately have "owns (insert (wd (x + 8), n) A) bs'" by (intro owns_alloc [OF o _ 2(3,8)])
      with a 2 show ?thesis by (auto simp: run_inv_def)
    qed
  next
    case False
    then have "n = 0 \<or> n AND allocated_bit \<noteq> 0"
    proof -
      have "unat n < 2 ^ 31" if "n AND allocated_bit = 0"
      proof -
        have "\<not> bit n 31" using that bit_and_iff [of n allocated_bit 31] bit_allocated_bit by auto
        then have "take_bit 31 n = n"
        proof (intro bit_word_eqI)
          fix k assume "k < LENGTH(32)"
          then have "k < 31 \<or> k = 31" by auto
          then show "bit (take_bit 31 n) k \<longleftrightarrow> bit n k" using \<open>\<not> bit n 31\<close> by (auto simp: bit_take_bit_iff)
        qed
        then have "unat n = take_bit 31 (unat n)" by (metis unsigned_take_bit_eq)
        then show ?thesis by (metis take_bit_nat_less_exp)
      qed
      then show ?thesis using False by (auto simp: word_gt_0)
    qed
    then have "pvPortMalloc h n = Some (0, h)"
      using e bit by (auto simp: pvPortMalloc_def rounded_request_def)
    with a h o show ?thesis by (auto simp: run_inv_def)
  qed
qed

lemma free_run_inv:
  assumes i: "run_inv h0 h A" and p: "(p, n) \<in> A"
  shows "\<exists>h'. vPortFree h p = Some h' \<and> run_inv h0 h' {a \<in> A. fst a \<noteq> p}"
proof -
  from i obtain bs where h: "heap_ok h (heap_first h0) bs (heap_last h0)" and o: "owns A bs"
    by (auto simp: run_inv_def)
  have l: "layout h (heap_first h0) bs (heap_last h0)" using h by (simp add: heap_ok_def)
  from o p obtain x m where xm: "(x, m) \<in> used bs" "p = wd (x + 8)" unfolding owns_def by blast
  then obtain L R where bs: "bs = L @ (x, m, Used) # R" using used_addr(1) [OF l xm(1)] by (metis split_list)
  from vPortFree_ok [OF h [unfolded bs]] obtain h' where
    h': "vPortFree h (wd (x + 8)) = Some h'" "heap_ok h' (heap_first h0) (insert_free L x m R) (heap_last h0)" by blast
  have "(x, m) \<notin> used L \<union> used R"
    using layoutD(1-3) [OF l [unfolded bs]] tiles_mem by (fastforce simp: used_def)
  then have "used (insert_free L x m R) = used bs - {(x, m)}" by (auto simp: used_insert bs)
  from owns_free [OF o l xm(1) this] h' xm(2) show ?thesis by (auto simp: run_inv_def)
qed

lemma init_run_inv:
  assumes b: "heap_boot h0"
  shows "run_inv h0 (prvHeapInit h0) {}" "pvPortMalloc h0 n = pvPortMalloc (prvHeapInit h0) n"
proof -
  have ok: "heap_ok (prvHeapInit h0) (heap_first h0) [(heap_first h0, heap_last h0 - heap_first h0, Free)] (heap_last h0)"
    using prvHeapInit_ok [OF b] by blast
  then show "run_inv h0 (prvHeapInit h0) {}" unfolding run_inv_def owns_def by force
  have "pxEnd (prvHeapInit h0) \<noteq> 0" by (rule heap_ok_end [OF ok])
  moreover have "pxEnd h0 = 0" using b by (simp add: heap_boot_def)
  ultimately show "pvPortMalloc h0 n = pvPortMalloc (prvHeapInit h0) n" by (simp add: pvPortMalloc_def Let_def)
qed

lemma heap_run_inv:
  assumes r: "heap_run h0 h A" and b: "heap_boot h0"
  shows "h = h0 \<and> A = {} \<or> run_inv h0 h A"
  using r
proof (induction rule: heap_run.induct)
  case (alloc h A n p h')
  then show ?case using malloc_run_inv [of h0 h A n p h'] malloc_run_inv [OF init_run_inv(1) [OF b], of n p h']
      init_run_inv(2) [OF b, of n] by auto
next
  case (dealloc h A p n h')
  then have "run_inv h0 h A" by auto
  from free_run_inv [OF this dealloc(2)] dealloc(3) show ?case by auto
qed simp

text \<open>
  C5. Whatever the application allocates and frees, in any order, the pointers it holds are
  8-aligned, the bytes it asked for lie inside the heap area and never overlap those of
  another pointer it holds, and each of them can be freed without a failing assert.
\<close>

theorem heap_blocks_disjoint:
  assumes "heap_boot h0" and "heap_run h0 h A" and "(p, n) \<in> A"
  shows "8 dvd unat p \<and> unat (ucHeap h0) + 8 \<le> unat p \<and> unat p + unat n \<le> unat (ucHeapEnd h0) - 8
    \<and> (\<forall>q m. (q, m) \<in> A \<and> q \<noteq> p \<longrightarrow> {unat p..<unat p + unat n} \<inter> {unat q..<unat q + unat m} = {})
    \<and> (\<exists>h'. vPortFree h p = Some h')"
proof -
  have inv: "run_inv h0 h A" using heap_run_inv [OF assms(2,1)] assms(3) by auto
  then obtain bs where h: "heap_ok h (heap_first h0) bs (heap_last h0)" and o: "owns A bs"
    by (auto simp: run_inv_def)
  have l: "layout h (heap_first h0) bs (heap_last h0)" using h by (simp add: heap_ok_def)
  have t: "tiles (heap_first h0) bs (heap_last h0)" using l by (simp add: layout_def)
  note ends = prvHeapInit_ok [OF assms(1)]
  have blk: "\<exists>x m. (x, m, Used) \<in> set bs \<and> q = wd (x + 8) \<and> unat q = x + 8 \<and> unat k + 8 \<le> m
      \<and> heap_first h0 \<le> x \<and> x + m \<le> heap_last h0 \<and> 8 dvd x" if "(q, k) \<in> A" for q k
  proof -
    from o that obtain x m where x: "(x, m) \<in> used bs" "q = wd (x + 8)" "unat k + 8 \<le> m"
      unfolding owns_def by blast
    note a = used_addr [OF l x(1)]
    have "unat q = x + 8" unfolding x(2) by (rule unat_wd [OF a(4)])
    with a x show ?thesis by blast
  qed
  from blk [OF assms(3)] obtain x m where x: "(x, m, Used) \<in> set bs" "p = wd (x + 8)" "unat p = x + 8"
    "unat n + 8 \<le> m" "heap_first h0 \<le> x" "x + m \<le> heap_last h0" "8 dvd x" by blast
  have "{unat p..<unat p + unat n} \<inter> {unat q..<unat q + unat k} = {}" if q: "(q, k) \<in> A" "q \<noteq> p" for q k
  proof -
    from blk [OF q(1)] obtain y j where y: "(y, j, Used) \<in> set bs" "q = wd (y + 8)" "unat q = y + 8"
      "unat k + 8 \<le> j" by blast
    have "y \<noteq> x" using q(2) x(2) y(2) by auto
    from x(1) obtain L R where bs: "bs = L @ (x, m, Used) # R" by (metis split_list)
    note tt = tiles_at [OF t [unfolded bs]]
    have "y + j \<le> x \<or> x + m \<le> y"
    proof -
      from y(1) \<open>y \<noteq> x\<close> bs have "(y, j, Used) \<in> set L \<or> (y, j, Used) \<in> set R" by auto
      then show ?thesis using tiles_mem [OF tt(1)] tiles_mem [OF tt(2)] by blast
    qed
    with x(3,4) y(3,4) show ?thesis by auto
  qed
  moreover have "8 dvd unat p" using x(3,7) by simp
  moreover have "unat (ucHeap h0) + 8 \<le> unat p" using x(3,5) ends by simp
  moreover have "unat p + unat n \<le> unat (ucHeapEnd h0) - 8" using x(3,4,6) ends by linarith
  moreover have "\<exists>h'. vPortFree h p = Some h'" using free_run_inv [OF inv assms(3)] by blast
  ultimately show ?thesis by blast
qed

lemma small_heap_run: "\<exists>p h. heap_run small_heap h {(p, 100)} \<and> p \<noteq> 0"
proof -
  have ok: "heap_ok (prvHeapInit small_heap) 4104 [(4104, 4080, Free)] 8184"
    using prvHeapInit_ok [OF small_heap_boot] by (simp add: small_heap_ends)
  have b: "block_size (unat (100 :: u32)) = 112" by (simp add: block_size_def)
  have "\<exists>p h. pvPortMalloc (prvHeapInit small_heap) 100 = Some (p, h) \<and> p \<noteq> 0"
    by (cases rule: pvPortMalloc_cases [OF ok, of 100]) (use b in auto)
  then obtain p h where p: "pvPortMalloc small_heap 100 = Some (p, h)" "p \<noteq> 0"
    using init_run_inv(2) [OF small_heap_boot] by auto
  from heap_run.alloc [OF heap_run.start p(1)] p(2) show ?thesis by auto
qed

theorem heap_blocks_disjoint_witness:
  "\<exists>p h h'. heap_run small_heap h {(p, 100)} \<and> 8 dvd unat p \<and> unat p + 100 \<le> 8184 \<and> vPortFree h p = Some h'"
proof -
  obtain p h where r: "heap_run small_heap h {(p, 100)}" using small_heap_run by blast
  from heap_blocks_disjoint [OF small_heap_boot r, of p 100] r show ?thesis
    by (auto simp: small_heap_def)
qed

text \<open>
  C11. Freeing everything leaves no fragmentation: after any sequence that ends with nothing
  allocated, the free list of the initialised heap is one block that spans the whole area,
  and all its bytes are counted as free.
\<close>

theorem heap_all_freed:
  assumes "heap_boot h0" and "heap_run h0 h {}" and "pxEnd h \<noteq> 0"
  shows "next_of h (xStart h) = wd (heap_first h0) \<and> next_of h (wd (heap_first h0)) = pxEnd h
    \<and> size_of h (wd (heap_first h0)) = wd (heap_last h0 - heap_first h0)
    \<and> unat (xPortGetFreeHeapSize h) = heap_last h0 - heap_first h0"
proof -
  have "pxEnd h0 = 0" using assms(1) by (simp add: heap_boot_def)
  with heap_run_inv [OF assms(2,1)] assms(3) have "run_inv h0 h {}" by auto
  then obtain bs where h: "heap_ok h (heap_first h0) bs (heap_last h0)" and o: "owns {} bs"
    by (auto simp: run_inv_def)
  have l: "layout h (heap_first h0) bs (heap_last h0)" and c: "coalesced bs" "no_held bs"
    using h by (auto simp: heap_ok_def)
  have lt: "heap_first h0 < heap_last h0"
    using prvHeapInit_ok [OF assms(1)] by (simp add: heap_ok_def layout_def)
  have "used bs = {}" using o unfolding owns_def by auto
  then have f: "\<forall>b \<in> set bs. is_free b"
  proof (intro ballI)
    fix b assume b: "b \<in> set bs"
    obtain x n u where x: "b = (x, n, u)" by (cases b)
    have "u \<noteq> Held" "u \<noteq> Used" using b x c(2) \<open>used bs = {}\<close> by (auto simp: no_held_def used_def)
    then show "is_free b" using x by (cases u) auto
  qed
  have "\<exists>n. bs = [(heap_first h0, n, Free)]"
  proof (cases bs)
    case Nil
    then show ?thesis using l lt by (simp add: layout_def)
  next
    case (Cons b bs')
    obtain x n u where b: "b = (x, n, u)" by (cases b)
    have "bs' = []" using c(1) f Cons by (cases bs') auto
    then show ?thesis using Cons b l f by (auto simp: layout_def)
  qed
  then obtain n where bs: "bs = [(heap_first h0, n, Free)]" by blast
  have "heap_first h0 + n = heap_last h0" using l bs by (simp add: layout_def)
  then have "n = heap_last h0 - heap_first h0" by simp
  with l h bs show ?thesis by (auto simp: layout_def heap_ok_def xPortGetFreeHeapSize_def)
qed

theorem heap_all_freed_witness:
  "\<exists>h. heap_run small_heap h {} \<and> pxEnd h \<noteq> 0 \<and> unat (xPortGetFreeHeapSize h) = 4080"
proof -
  obtain p h where r: "heap_run small_heap h {(p, 100)}" using small_heap_run by blast
  then have i: "run_inv small_heap h {(p, 100)}" using heap_run_inv [OF _ small_heap_boot] by auto
  obtain h' where h': "vPortFree h p = Some h'" "run_inv small_heap h' {a \<in> {(p, 100)}. fst a \<noteq> p}"
    using free_run_inv [OF i, of p 100] by auto
  have none: "{a \<in> {(p, 100 :: u32)}. fst a \<noteq> p} = {}" by auto
  have r': "heap_run small_heap h' {}"
    using heap_run.dealloc [OF r _ h'(1)] unfolding none by blast
  have "run_inv small_heap h' {}" using h'(2) unfolding none .
  then have e: "pxEnd h' \<noteq> 0" using heap_ok_end unfolding run_inv_def by blast
  from heap_all_freed [OF small_heap_boot r' e] r' e show ?thesis by (auto simp: small_heap_ends)
qed

section \<open>The C library calls\<close>

text \<open>
  \<open>calloc\<close> multiplies without a check: when the product does not fit 32 bits and what is
  left of it can be allocated, the caller gets a block smaller than the memory it asked for.
\<close>

theorem calloc_overflow_too_small:
  assumes "heap_ok (blocks c) s bs e" and "2 ^ 32 \<le> unat element * unat n"
    and "0 < element * n" and "unat (element * n) < 2 ^ 31"
    and "calloc c element n = Some (p, c')" and "p \<noteq> 0"
  shows "\<exists>x m bs'. p = wd (x + 8) \<and> heap_ok (blocks c') s bs' e \<and> (x, m) \<in> used bs' \<and> m < unat element * unat n"
proof -
  from assms(5) obtain h' where h': "pvPortMalloc (blocks c) (element * n) = Some (p, h')"
    and c': "blocks c' = h'"
    by (auto simp: calloc_def malloc_def Let_def split: bind_splits if_splits)
  show ?thesis
  proof (cases rule: pvPortMalloc_cases [OF assms(1,3,4)])
    case 1
    with h' assms(6) show ?thesis by simp
  next
    case (2 x m g bs')
    have "block_size (unat (element * n)) < unat (element * n) + 16" by (rule block_size_bounds)
    with 2(6) assms(2,4) have "m < unat element * unat n" by simp
    with 2 h' c' show ?thesis by auto
  qed
qed

theorem calloc_overflow_too_small_witness:
  "\<exists>c p c' x m bs'. calloc c 0x10001 0x10000 = Some (p, c') \<and> p \<noteq> 0 \<and> p = wd (x + 8)
     \<and> heap_ok (blocks c') 4104 bs' 131064 \<and> (x, m) \<in> used bs' \<and> m < 0x10001 * 0x10000"
proof -
  let ?h = "small_heap\<lparr>ucHeapEnd := 0x20000\<rparr>"
  let ?c = "\<lparr>blocks = prvHeapInit ?h, bytes = (\<lambda>_. 7)\<rparr>"
  have "heap_boot ?h" by (simp add: heap_boot_def small_heap_def)
  from prvHeapInit_ok [OF this] have ok0: "heap_ok (prvHeapInit ?h) 4104 [(4104, 126960, Free)] 131064"
    by (simp add: heap_first_def heap_last_def small_heap_def)
  then have ok: "heap_ok (blocks ?c) 4104 [(4104, 126960, Free)] 131064" by simp
  have t: "(0x10001 :: u32) * 0x10000 = 0x10000" by simp
  have "\<exists>p g. pvPortMalloc (prvHeapInit ?h) 0x10000 = Some (p, g) \<and> p \<noteq> 0"
  proof -
    have n: "0 < (0x10000 :: u32)" "unat (0x10000 :: u32) < 2 ^ 31" by simp_all
    show ?thesis by (rule pvPortMalloc_cases [OF ok0 n]) (auto simp: block_size_def)
  qed
  then obtain p g where g: "pvPortMalloc (prvHeapInit ?h) 0x10000 = Some (p, g)" "p \<noteq> 0" by blast
  then obtain c' where c': "calloc ?c 0x10001 0x10000 = Some (p, c')"
    unfolding calloc_def t by (simp add: malloc_def)
  from calloc_overflow_too_small [OF ok _ _ _ c' g(2)]
  obtain x m bs' where "p = wd (x + 8)" "heap_ok (blocks c') 4104 bs' 131064" "(x, m) \<in> used bs'"
    "m < unat (0x10001 :: u32) * unat (0x10000 :: u32)" unfolding t by auto
  then show ?thesis using c' g(2)
    by (intro exI [of _ ?c] exI [of _ p] exI [of _ c'] exI [of _ x] exI [of _ m] exI [of _ bs']) simp
qed

text \<open>
  When \<open>realloc\<close> cannot get the new block it returns NULL and has freed the old one,
  which the caller must by the C standard still own.
\<close>

theorem realloc_failure_frees_old:
  assumes "heap_ok (blocks c) s bs e" and "(x, m) \<in> used bs"
    and "0 < newsize" and "unat newsize < 2 ^ 31"
    and "\<forall>(y, k, u) \<in> set bs. u = Free \<longrightarrow> k < block_size (unat newsize)"
  shows "\<exists>c' bs'. realloc c (wd (x + 8)) newsize = Some (0, c') \<and> heap_ok (blocks c') s bs' e
    \<and> used bs' = used bs - {(x, m)}"
proof -
  have l: "layout (blocks c) s bs e" using assms(1) by (simp add: heap_ok_def)
  have "pvPortMalloc (blocks c) newsize = Some (0, blocks c)"
    using pvPortMalloc_first_fit_fail [OF assms(1,3-5)] .
  then have m: "malloc c newsize = Some (0, c)" by (simp add: malloc_def)
  obtain L R where bs: "bs = L @ (x, m, Used) # R" using used_addr(1) [OF l assms(2)] by (metis split_list)
  from vPortFree_ok [OF assms(1) [unfolded bs]] obtain h' where
    h': "vPortFree (blocks c) (wd (x + 8)) = Some h'" "heap_ok h' s (insert_free L x m R) e" by blast
  have nz: "wd (x + 8) \<noteq> 0"
  proof -
    have "unat (wd (x + 8)) = x + 8" by (rule unat_wd [OF used_addr(4) [OF l assms(2)]])
    then show ?thesis by auto
  qed
  have "(x, m) \<notin> used L \<union> used R"
    using layoutD(1-3) [OF l [unfolded bs]] tiles_mem by (fastforce simp: used_def)
  then have "used (insert_free L x m R) = used bs - {(x, m)}" by (auto simp: used_insert bs)
  then show ?thesis using m h' nz
    by (intro exI [of _ "c\<lparr>blocks := h'\<rparr>"] exI [of _ "insert_free L x m R"])
      (simp add: realloc_def free_def del: of_nat_add)
qed

theorem realloc_failure_frees_old_witness:
  "\<exists>c p c' bs'. heap_run small_heap (blocks c) {(p, 100)} \<and> realloc c p 5000 = Some (0, c')
     \<and> heap_ok (blocks c') 4104 bs' 8184"
proof -
  obtain p h where r: "heap_run small_heap h {(p, 100)}" using small_heap_run by blast
  then have "run_inv small_heap h {(p, 100)}" using heap_run_inv [OF _ small_heap_boot] by auto
  then obtain bs where h: "heap_ok h 4104 bs 8184" and o: "owns {(p, 100)} bs"
    unfolding run_inv_def small_heap_ends by blast
  from owns_block [OF o, of p 100] obtain x m where xm: "(x, m) \<in> used bs" "p = wd (x + 8)" by blast
  let ?c = "\<lparr>blocks = h, bytes = (\<lambda>_. 7)\<rparr>"
  have t: "tiles 4104 bs 8184" using h by (simp add: heap_ok_def layout_def)
  have "\<forall>(y, k, u) \<in> set bs. u = Free \<longrightarrow> k < block_size (unat (5000 :: u32))"
  proof clarify
    fix y k assume "(y, k, Free) \<in> set bs"
    from tiles_mem [OF t this] show "k < block_size (unat (5000 :: u32))" by (simp add: block_size_def)
  qed
  moreover have n: "0 < (5000 :: u32)" "unat (5000 :: u32) < 2 ^ 31" and "heap_ok (blocks ?c) 4104 bs 8184"
    using h by simp_all
  ultimately obtain c' bs' where "realloc ?c (wd (x + 8)) 5000 = Some (0, c')" "heap_ok (blocks c') 4104 bs' 8184"
    using realloc_failure_frees_old [OF _ xm(1) n] by blast
  with r xm(2) show ?thesis
    by (intro exI [of _ ?c] exI [of _ p] exI [of _ c'] exI [of _ bs']) simp
qed

end
