(* ===== verification/Printf.thy ===== *)
theory Printf
  imports Prelude "HOL-Library.Signed_Division"
begin

text \<open>
  The formatted output of \<open>SDK/pico/pico_printf/printf.c\<close>. A C string is the HOL string of
  the characters before its terminator: \<open>deref\<close> reads the terminator at its end and a step
  past it is undefined, which is \<open>None\<close>. \<open>char\<close> is the 8-bit character of the ARM ABI,
  \<open>unsigned int\<close>, \<open>unsigned long\<close> and \<open>size_t\<close> are 32-bit words.

  An output function takes the character, the buffer, the index and the length limit and
  returns the buffer, or \<open>None\<close> if it writes outside of it. The conversions pass
  (buffer, index) on as a pair. The local array \<open>buf\<close> with its fill count \<open>len\<close> is the list
  of the characters written so far, so \<open>len\<close> is its length.

  The arithmetic of \<open>double\<close> is a parameter (\<open>double_ops\<close>): the compiler's run-time library
  provides it.
\<close>

section \<open>Flags, output functions and C strings\<close>

definition PICO_PRINTF_NTOA_BUFFER_SIZE :: nat where "PICO_PRINTF_NTOA_BUFFER_SIZE = 32"
definition PICO_PRINTF_FTOA_BUFFER_SIZE :: nat where "PICO_PRINTF_FTOA_BUFFER_SIZE = 32"
definition PICO_PRINTF_DEFAULT_FLOAT_PRECISION :: u32 where "PICO_PRINTF_DEFAULT_FLOAT_PRECISION = 6"

definition FLAGS_ZEROPAD :: u32 where "FLAGS_ZEROPAD = push_bit 0 1"
definition FLAGS_LEFT :: u32 where "FLAGS_LEFT = push_bit 1 1"
definition FLAGS_PLUS :: u32 where "FLAGS_PLUS = push_bit 2 1"
definition FLAGS_SPACE :: u32 where "FLAGS_SPACE = push_bit 3 1"
definition FLAGS_HASH :: u32 where "FLAGS_HASH = push_bit 4 1"
definition FLAGS_UPPERCASE :: u32 where "FLAGS_UPPERCASE = push_bit 5 1"
definition FLAGS_CHAR :: u32 where "FLAGS_CHAR = push_bit 6 1"
definition FLAGS_SHORT :: u32 where "FLAGS_SHORT = push_bit 7 1"
definition FLAGS_LONG :: u32 where "FLAGS_LONG = push_bit 8 1"
definition FLAGS_LONG_LONG :: u32 where "FLAGS_LONG_LONG = push_bit 9 1"
definition FLAGS_PRECISION :: u32 where "FLAGS_PRECISION = push_bit 10 1"
definition FLAGS_ADAPT_EXP :: u32 where "FLAGS_ADAPT_EXP = push_bit 11 1"

text \<open>\<open>has flags b\<close> is the C condition \<open>flags & b\<close>.\<close>

definition has :: "u32 \<Rightarrow> u32 \<Rightarrow> bool" where
  "has flags b \<longleftrightarrow> flags AND b \<noteq> 0"

abbreviation NUL :: char where "NUL \<equiv> CHR 0x00"

definition deref :: "string \<Rightarrow> char" where
  "deref s = (case s of [] \<Rightarrow> NUL | c # _ \<Rightarrow> c)"

definition advance :: "string \<Rightarrow> string option" where
  "advance s = (case s of [] \<Rightarrow> None | _ # s' \<Rightarrow> Some s')"

type_synonym 'b out_fct = "char \<Rightarrow> 'b \<Rightarrow> u32 \<Rightarrow> u32 \<Rightarrow> 'b option"

definition out_buffer :: "string out_fct" where
  "out_buffer character buffer idx maxlen =
     (if idx < maxlen then c_write buffer (unat idx) character else Some buffer)"

definition out_null :: "'b out_fct" where
  "out_null character buffer idx maxlen = Some buffer"

definition out_char :: "(char \<Rightarrow> 'w \<Rightarrow> 'w option) \<Rightarrow> 'w out_fct" where
  "out_char putchar character world idx maxlen =
     (if character \<noteq> NUL then putchar character world else Some world)"

definition out_fct :: "(char \<Rightarrow> 'w \<Rightarrow> 'w option) \<Rightarrow> 'w out_fct" where
  "out_fct fct character arg idx maxlen =
     (if character \<noteq> NUL then fct character arg else Some arg)"

text \<open>\<open>out(c, buffer, idx++, maxlen)\<close>, and a sequence of such calls.\<close>

definition putc :: "'b out_fct \<Rightarrow> u32 \<Rightarrow> char \<Rightarrow> 'b \<times> u32 \<Rightarrow> ('b \<times> u32) option" where
  "putc out maxlen c st = map_option (\<lambda>b. (b, snd st + 1)) (out c (fst st) (snd st) maxlen)"

primrec put_string :: "'b out_fct \<Rightarrow> u32 \<Rightarrow> string \<Rightarrow> 'b \<times> u32 \<Rightarrow> ('b \<times> u32) option" where
  "put_string out maxlen [] st = Some st"
| "put_string out maxlen (c # s) st = Option.bind (putc out maxlen c st) (put_string out maxlen s)"

text \<open>The padding loops: up to a width, and until that many characters follow \<open>start_idx\<close>.\<close>

function pad_from :: "'b out_fct \<Rightarrow> u32 \<Rightarrow> u32 \<Rightarrow> u32 \<Rightarrow> 'b \<times> u32 \<Rightarrow> ('b \<times> u32) option" where
  "pad_from out maxlen i width st =
     (if i < width then
        (case putc out maxlen (CHR '' '') st of
           None \<Rightarrow> None
         | Some st' \<Rightarrow> pad_from out maxlen (i + 1) width st')
      else Some st)"
  by auto

lemma unat_suc_below: "(i :: u32) < w \<Longrightarrow> unat (i + 1) = Suc (unat i)"
proof -
  assume "i < w"
  then have "unat i + 1 < 2 ^ 32"
    using unsigned_less [of w, where ?'a = nat] by (simp add: word_less_nat_alt)
  then show ?thesis
    by (simp add: unat_word_ariths)
qed

termination pad_from
  by (relation "measure (\<lambda>(out, maxlen, i, width, st). unat width - unat i)")
     (auto simp: unat_suc_below word_less_nat_alt)

declare pad_from.simps [simp del]

function pad_behind :: "'b out_fct \<Rightarrow> u32 \<Rightarrow> u32 \<Rightarrow> u32 \<Rightarrow> 'b \<Rightarrow> u32 \<Rightarrow> ('b \<times> u32) option" where
  "pad_behind out maxlen start_idx width b idx =
     (if idx - start_idx < width then
        (case out (CHR '' '') b idx maxlen of
           None \<Rightarrow> None
         | Some b' \<Rightarrow> pad_behind out maxlen start_idx width b' (idx + 1))
      else Some (b, idx))"
  by auto

lemma suc_minus_start: "(idx :: u32) + 1 - start = (idx - start) + 1"
  by (simp add: algebra_simps)

termination pad_behind
  by (relation "measure (\<lambda>(out, maxlen, start, width, b, idx). unat width - unat (idx - start))")
     (auto simp: suc_minus_start unat_suc_below word_less_nat_alt)

declare pad_behind.simps [simp del]

fun strnlen_s :: "string \<Rightarrow> u32 \<Rightarrow> u32" where
  "strnlen_s [] maxsize = 0"
| "strnlen_s (c # s) maxsize = (if c \<noteq> NUL \<and> maxsize \<noteq> 0 then 1 + strnlen_s s (maxsize - 1) else 0)"

definition is_digit :: "char \<Rightarrow> bool" where
  "is_digit ch \<longleftrightarrow> (48 :: nat) \<le> of_char ch \<and> of_char ch \<le> (57 :: nat)"


text \<open>\<open>_atoi\<close> returns the value and the moved string pointer.\<close>

fun atoi_loop :: "u32 \<Rightarrow> string \<Rightarrow> u32 \<times> string" where
  "atoi_loop i [] = (i, [])"
| "atoi_loop i (c # s) =
     (if is_digit c then atoi_loop (i * 10 + (of_nat (of_char c) - 48)) s else (i, c # s))"

definition atoi :: "string \<Rightarrow> u32 \<times> string" where
  "atoi str = atoi_loop 0 str"

section \<open>Integers\<close>

definition out_rev ::
  "'b out_fct \<Rightarrow> u32 \<Rightarrow> string \<Rightarrow> u32 \<Rightarrow> u32 \<Rightarrow> 'b \<times> u32 \<Rightarrow> ('b \<times> u32) option" where
  "out_rev out maxlen buf width flags st =
     do {
       let start_idx = snd st;
       st1 \<leftarrow> (if \<not> has flags FLAGS_LEFT \<and> \<not> has flags FLAGS_ZEROPAD
              then pad_from out maxlen (of_nat (length buf)) width st else Some st);
       st2 \<leftarrow> put_string out maxlen (rev buf) st1;
       (if has flags FLAGS_LEFT then pad_behind out maxlen start_idx width (fst st2) (snd st2)
        else Some st2)
     }"

text \<open>The loops \<open>while ((len < n) && (len < PICO_PRINTF_NTOA_BUFFER_SIZE)) buf[len++] = '0'\<close>.\<close>

function pad_zeros :: "nat \<Rightarrow> u32 \<Rightarrow> string \<Rightarrow> string" where
  "pad_zeros sz n buf =
     (if of_nat (length buf) < n \<and> length buf < sz then pad_zeros sz n (buf @ ''0'') else buf)"
  by auto

termination pad_zeros
  by (relation "measure (\<lambda>(sz, n, buf). sz - length buf)") auto

declare pad_zeros.simps [simp del]

definition put_in :: "nat \<Rightarrow> char \<Rightarrow> string \<Rightarrow> string" where
  "put_in sz c buf = (if length buf < sz then buf @ [c] else buf)"

definition ntoa_lead ::
  "string \<Rightarrow> bool \<Rightarrow> u32 \<Rightarrow> u32 \<Rightarrow> u32 \<Rightarrow> string \<times> u32" where
  "ntoa_lead buf negative prec width flags =
     (if \<not> has flags FLAGS_LEFT then
        (let width' = (if width \<noteq> 0 \<and> has flags FLAGS_ZEROPAD \<and>
                          (negative \<or> has flags (FLAGS_PLUS OR FLAGS_SPACE)) then width - 1 else width);
             buf1 = pad_zeros PICO_PRINTF_NTOA_BUFFER_SIZE prec buf;
             buf2 = (if has flags FLAGS_ZEROPAD then pad_zeros PICO_PRINTF_NTOA_BUFFER_SIZE width' buf1
                     else buf1)
         in (buf2, width'))
      else (buf, width))"

definition ntoa_hash :: "string \<Rightarrow> u32 \<Rightarrow> u32 \<Rightarrow> u32 \<Rightarrow> u32 \<Rightarrow> string" where
  "ntoa_hash buf base prec width flags =
     (if has flags FLAGS_HASH then
        (let len = of_nat (length buf);
             buf1 = (if \<not> has flags FLAGS_PRECISION \<and> len \<noteq> 0 \<and> (len = prec \<or> len = width) then
                       (let b = butlast buf in if b \<noteq> [] \<and> base = 16 then butlast b else b)
                     else buf);
             room = length buf1 < PICO_PRINTF_NTOA_BUFFER_SIZE;
             buf2 = (if base = 16 \<and> \<not> has flags FLAGS_UPPERCASE \<and> room then buf1 @ ''x''
                     else if base = 16 \<and> has flags FLAGS_UPPERCASE \<and> room then buf1 @ ''X''
                     else if base = 2 \<and> room then buf1 @ ''b''
                     else buf1)
         in put_in PICO_PRINTF_NTOA_BUFFER_SIZE (CHR ''0'') buf2)
      else buf)"

definition put_sign :: "nat \<Rightarrow> string \<Rightarrow> bool \<Rightarrow> u32 \<Rightarrow> string" where
  "put_sign sz buf negative flags =
     (if length buf < sz then
        (if negative then buf @ ''-''
         else if has flags FLAGS_PLUS then buf @ ''+''
         else if has flags FLAGS_SPACE then buf @ '' ''
         else buf)
      else buf)"

definition ntoa_format ::
  "'b out_fct \<Rightarrow> u32 \<Rightarrow> string \<Rightarrow> bool \<Rightarrow> u32 \<Rightarrow> u32 \<Rightarrow> u32 \<Rightarrow> u32 \<Rightarrow> 'b \<times> u32 \<Rightarrow> ('b \<times> u32) option"
  where
  "ntoa_format out maxlen buf negative base prec width flags st =
     (let (buf1, width1) = ntoa_lead buf negative prec width flags;
          buf2 = ntoa_hash buf1 base prec width1 flags;
          buf3 = put_sign PICO_PRINTF_NTOA_BUFFER_SIZE buf2 negative flags
      in out_rev out maxlen buf3 width1 flags st)"

text \<open>The digit loop, the same code at 32 and at 64 bits.\<close>

definition digit_char :: "'a::len word \<Rightarrow> u32 \<Rightarrow> char" where
  "digit_char v flags =
     (let digit = unat v mod 256 in
      if digit < 10 then char_of (48 + digit)
      else char_of ((if has flags FLAGS_UPPERCASE then 65 else 97) + digit - 10))"

function digit_loop :: "'a::len word \<Rightarrow> 'a word \<Rightarrow> u32 \<Rightarrow> string \<Rightarrow> string" where
  "digit_loop value base flags buf =
     (let buf' = buf @ [digit_char (value mod base) flags];
          value' = value div base
      in if value' \<noteq> 0 \<and> length buf' < PICO_PRINTF_NTOA_BUFFER_SIZE
         then digit_loop value' base flags buf' else buf')"
  by auto

termination digit_loop
  by (relation "measure (\<lambda>(value, base, flags, buf). PICO_PRINTF_NTOA_BUFFER_SIZE - length buf)") auto

declare digit_loop.simps [simp del]

definition ntoa_long ::
  "'b out_fct \<Rightarrow> u32 \<Rightarrow> u32 \<Rightarrow> bool \<Rightarrow> u32 \<Rightarrow> u32 \<Rightarrow> u32 \<Rightarrow> u32 \<Rightarrow> 'b \<times> u32 \<Rightarrow> ('b \<times> u32) option"
  where
  "ntoa_long out maxlen value negative base prec width flags0 st =
     (let flags = (if value = 0 then flags0 AND NOT FLAGS_HASH else flags0);
          buf = (if \<not> has flags FLAGS_PRECISION \<or> value \<noteq> 0 then digit_loop value base flags [] else [])
      in ntoa_format out maxlen buf negative base prec width flags st)"

definition ntoa_long_long ::
  "'b out_fct \<Rightarrow> u32 \<Rightarrow> u64 \<Rightarrow> bool \<Rightarrow> u64 \<Rightarrow> u32 \<Rightarrow> u32 \<Rightarrow> u32 \<Rightarrow> 'b \<times> u32 \<Rightarrow> ('b \<times> u32) option"
  where
  "ntoa_long_long out maxlen value negative base prec width flags0 st =
     (let flags = (if value = 0 then flags0 AND NOT FLAGS_HASH else flags0);
          buf = (if \<not> has flags FLAGS_PRECISION \<or> value \<noteq> 0 then digit_loop value base flags [] else [])
      in ntoa_format out maxlen buf negative (ucast base) prec width flags st)"


section \<open>Floating point\<close>

text \<open>
  The operations of \<open>double\<close> the code uses: comparisons, arithmetic, the conversions to and
  from \<open>int\<close> and \<open>unsigned long\<close>, the decimal literals (\<open>d_lit m k\<close> is the literal of value
  m / 10^k), \<open>DBL_MAX\<close> and the union with \<open>uint64_t\<close>.
\<close>

record 'd double_ops =
  d_isnan :: "'d \<Rightarrow> bool"
  d_less :: "'d \<Rightarrow> 'd \<Rightarrow> bool"
  d_le :: "'d \<Rightarrow> 'd \<Rightarrow> bool"
  d_add :: "'d \<Rightarrow> 'd \<Rightarrow> 'd"
  d_sub :: "'d \<Rightarrow> 'd \<Rightarrow> 'd"
  d_mul :: "'d \<Rightarrow> 'd \<Rightarrow> 'd"
  d_div :: "'d \<Rightarrow> 'd \<Rightarrow> 'd"
  d_neg :: "'d \<Rightarrow> 'd"
  d_lit :: "int \<Rightarrow> nat \<Rightarrow> 'd"
  d_of_int :: "int \<Rightarrow> 'd"
  d_to_int :: "'d \<Rightarrow> int"
  d_of_ulong :: "u32 \<Rightarrow> 'd"
  d_to_ulong :: "'d \<Rightarrow> u32"
  d_max :: "'d"
  d_bits :: "'d \<Rightarrow> u64"
  d_of_bits :: "u64 \<Rightarrow> 'd"

definition pow10 :: "'d double_ops \<Rightarrow> u32 \<Rightarrow> 'd option" where
  "pow10 F k = c_read (map (\<lambda>m. d_lit F m 0)
     [1, 10, 100, 1000, 10000, 100000, 1000000, 10000000, 100000000, 1000000000]) (unat k)"

function ftoa_limit :: "u32 \<Rightarrow> string \<Rightarrow> u32 \<times> string" where
  "ftoa_limit prec buf =
     (if length buf < PICO_PRINTF_FTOA_BUFFER_SIZE \<and> 9 < prec then ftoa_limit (prec - 1) (buf @ ''0'')
      else (prec, buf))"
  by auto

termination ftoa_limit
  by (relation "measure (\<lambda>(prec, buf). PICO_PRINTF_FTOA_BUFFER_SIZE - length buf)") auto

declare ftoa_limit.simps [simp del]

definition ftoa_round :: "'d double_ops \<Rightarrow> 'd \<Rightarrow> u32 \<Rightarrow> (int \<times> u32) option" where
  "ftoa_round F value prec =
     do {
       p \<leftarrow> pow10 F prec;
       let whole = d_to_int F value;
       let tmp = d_mul F (d_sub F value (d_of_int F whole)) p;
       let frac = d_to_ulong F tmp;
       let diff = d_sub F tmp (d_of_ulong F frac);
       let half = d_lit F 5 1;
       Some (if d_less F half diff then
               (if d_le F p (d_of_ulong F (frac + 1)) then (whole + 1, 0) else (whole, frac + 1))
             else if d_less F diff half then (whole, frac)
             else if frac = 0 \<or> frac AND 1 \<noteq> 0 then (whole, frac + 1)
             else (whole, frac))
     }"

function frac_loop :: "u32 \<Rightarrow> u32 \<Rightarrow> string \<Rightarrow> u32 \<times> string" where
  "frac_loop count frac buf =
     (if length buf < PICO_PRINTF_FTOA_BUFFER_SIZE then
        (let count' = count - 1; buf' = buf @ [char_of (48 + unat (frac mod 10))]; frac' = frac div 10
         in if frac' = 0 then (count', buf') else frac_loop count' frac' buf')
      else (count, buf))"
  by auto

termination frac_loop
  by (relation "measure (\<lambda>(count, frac, buf). PICO_PRINTF_FTOA_BUFFER_SIZE - length buf)") auto

declare frac_loop.simps [simp del]

function extra_zeros :: "u32 \<Rightarrow> string \<Rightarrow> string" where
  "extra_zeros count buf =
     (if length buf < PICO_PRINTF_FTOA_BUFFER_SIZE \<and> 0 < count then extra_zeros (count - 1) (buf @ ''0'')
      else buf)"
  by auto

termination extra_zeros
  by (relation "measure (\<lambda>(count, buf). PICO_PRINTF_FTOA_BUFFER_SIZE - length buf)") auto

declare extra_zeros.simps [simp del]

function whole_loop :: "int \<Rightarrow> string \<Rightarrow> string" where
  "whole_loop whole buf =
     (if length buf < PICO_PRINTF_FTOA_BUFFER_SIZE then
        (let buf' = buf @ [char_of (48 + whole smod 10)]; whole' = whole sdiv 10
         in if whole' = 0 then buf' else whole_loop whole' buf')
      else buf)"
  by auto

termination whole_loop
  by (relation "measure (\<lambda>(whole, buf). PICO_PRINTF_FTOA_BUFFER_SIZE - length buf)") auto

declare whole_loop.simps [simp del]

definition ftoa_frac :: "'d double_ops \<Rightarrow> 'd \<Rightarrow> u32 \<Rightarrow> int \<Rightarrow> u32 \<Rightarrow> string \<Rightarrow> int \<times> string" where
  "ftoa_frac F value prec whole frac buf =
     (if prec = 0 then
        (let diff = d_sub F value (d_of_int F whole); half = d_lit F 5 1
         in (if \<not> (d_less F diff half \<or> d_less F half diff) \<and> whole AND 1 \<noteq> 0 then whole + 1 else whole, buf))
      else
        (let (count, buf1) = frac_loop prec frac buf;
             buf2 = extra_zeros count buf1
         in (whole, put_in PICO_PRINTF_FTOA_BUFFER_SIZE (CHR ''.'') buf2)))"

definition ftoa_lead :: "string \<Rightarrow> bool \<Rightarrow> u32 \<Rightarrow> u32 \<Rightarrow> string \<times> u32" where
  "ftoa_lead buf negative width flags =
     (if \<not> has flags FLAGS_LEFT \<and> has flags FLAGS_ZEROPAD then
        (let width' = (if width \<noteq> 0 \<and> (negative \<or> has flags (FLAGS_PLUS OR FLAGS_SPACE)) then width - 1 else width)
         in (pad_zeros PICO_PRINTF_FTOA_BUFFER_SIZE width' buf, width'))
      else (buf, width))"

text \<open>The finite, not too large numbers: the reversed text of \<open>buf\<close> and the width left.\<close>

definition ftoa_text :: "'d double_ops \<Rightarrow> 'd \<Rightarrow> u32 \<Rightarrow> u32 \<Rightarrow> u32 \<Rightarrow> (string \<times> u32) option" where
  "ftoa_text F value0 prec0 width flags =
     do {
       let negative = d_less F value0 (d_of_int F 0);
       let value = (if negative then d_sub F (d_of_int F 0) value0 else value0);
       let (prec, buf0) = ftoa_limit (if \<not> has flags FLAGS_PRECISION then PICO_PRINTF_DEFAULT_FLOAT_PRECISION
                                     else prec0) [];
       (whole0, frac) \<leftarrow> ftoa_round F value prec;
       let (whole, buf1) = ftoa_frac F value prec whole0 frac buf0;
       let (buf2, width') = ftoa_lead (whole_loop whole buf1) negative width flags;
       Some (put_sign PICO_PRINTF_FTOA_BUFFER_SIZE buf2 negative flags, width')
     }"

text \<open>
  \<open>_ftoa\<close> and \<open>_etoa\<close> call each other; each is written with the other one as an argument.
\<close>

type_synonym ('d, 'b) float_out = "'d \<Rightarrow> u32 \<Rightarrow> u32 \<Rightarrow> u32 \<Rightarrow> 'b \<times> u32 \<Rightarrow> ('b \<times> u32) option"

definition ftoa_with ::
  "('d, 'b) float_out \<Rightarrow> 'd double_ops \<Rightarrow> 'b out_fct \<Rightarrow> u32 \<Rightarrow> ('d, 'b) float_out" where
  "ftoa_with etoa F out maxlen value prec width flags st =
     (if d_isnan F value then out_rev out maxlen ''nan'' width flags st
      else if d_less F value (d_neg F (d_max F)) then out_rev out maxlen ''fni-'' width flags st
      else if d_less F (d_max F) value then
        out_rev out maxlen (if has flags FLAGS_PLUS then ''fni+'' else ''fni'') width flags st
      else if d_less F (d_lit F 1000000000 0) value \<or> d_less F value (d_neg F (d_lit F 1000000000 0)) then
        etoa value prec width flags st
      else
        (case ftoa_text F value prec width flags of
           None \<Rightarrow> None
         | Some (buf, width') \<Rightarrow> out_rev out maxlen buf width' flags st))"


text \<open>The decimal exponent, with the power of ten left in the union.\<close>

definition etoa_exp :: "'d double_ops \<Rightarrow> 'd \<Rightarrow> int \<times> 'd" where
  "etoa_exp F value =
     (let U = d_bits F value in
      if U \<noteq> 0 then
        (let exp2 = uint (drop_bit 52 U AND 0x7FF) - 1023;
             F1 = d_of_bits F ((U AND (push_bit 52 1 - 1)) OR push_bit 52 1023);
             expval = d_to_int F (d_add F
                        (d_add F (d_lit F 1760912590558 13)
                                 (d_mul F (d_of_int F exp2) (d_lit F 301029995663981 15)))
                        (d_mul F (d_sub F F1 (d_lit F 15 1)) (d_lit F 289529654602168 15)));
             exp2' = d_to_int F (d_add F (d_mul F (d_of_int F expval) (d_lit F 3321928094887362 15)) (d_lit F 5 1));
             z = d_sub F (d_mul F (d_of_int F expval) (d_lit F 2302585092994046 15))
                         (d_mul F (d_of_int F exp2') (d_lit F 6931471805599453 16));
             z2 = d_mul F z z;
             F2 = d_of_bits F (push_bit 52 (word_of_int (exp2' + 1023)));
             frac = d_div F z2 (d_add F (d_of_int F 6)
                      (d_div F z2 (d_add F (d_of_int F 10) (d_div F z2 (d_of_int F 14)))));
             F3 = d_mul F F2 (d_add F (d_of_int F 1)
                    (d_div F (d_mul F (d_of_int F 2) z)
                             (d_add F (d_sub F (d_of_int F 2) z) frac)))
         in if d_less F value F3 then (expval - 1, d_div F F3 (d_of_int F 10)) else (expval, F3))
      else (0, value))"

text \<open>The \<open>%g\<close> adaptation: precision, flags, the width of the exponent and the exponent.\<close>

definition etoa_adapt ::
  "'d double_ops \<Rightarrow> 'd \<Rightarrow> u32 \<Rightarrow> u32 \<Rightarrow> int \<times> 'd \<Rightarrow> u32 \<times> u32 \<times> u32 \<times> int" where
  "etoa_adapt F value prec flags e =
     (let expval = fst e;
          minwidth = (if expval < 100 \<and> - 100 < expval then 4 else 5)
      in if has flags FLAGS_ADAPT_EXP then
           (if d_bits F (snd e) = 0 \<or> (d_le F (d_lit F 1 4) value \<and> d_less F value (d_lit F 1000000 0)) then
              (if expval < sint prec then prec - of_int expval - 1 else 0, flags OR FLAGS_PRECISION, 0, 0)
            else (if 0 < prec \<and> has flags FLAGS_PRECISION then prec - 1 else prec, flags, minwidth, expval))
         else (prec, flags, minwidth, expval))"

definition etoa_with ::
  "('d, 'b) float_out \<Rightarrow> 'd double_ops \<Rightarrow> 'b out_fct \<Rightarrow> u32 \<Rightarrow> ('d, 'b) float_out" where
  "etoa_with ftoa F out maxlen value0 prec0 width flags0 st =
     (if d_isnan F value0 \<or> d_less F (d_max F) value0 \<or> d_less F value0 (d_neg F (d_max F)) then
        ftoa value0 prec0 width flags0 st
      else
        (let negative = d_less F value0 (d_of_int F 0);
             value = (if negative then d_neg F value0 else value0);
             e = etoa_exp F value;
             (prec, flags, minwidth, expval) =
               etoa_adapt F value (if \<not> has flags0 FLAGS_PRECISION then PICO_PRINTF_DEFAULT_FLOAT_PRECISION
                                   else prec0) flags0 e;
             fwidth = (if has flags FLAGS_LEFT \<and> minwidth \<noteq> 0 then 0
                       else if minwidth < width then width - minwidth else 0);
             value' = (if expval \<noteq> 0 then d_div F value (snd e) else value);
             start_idx = snd st
         in do {
           st1 \<leftarrow> ftoa (if negative then d_neg F value' else value') prec fwidth
                     (flags AND NOT FLAGS_ADAPT_EXP) st;
           if minwidth \<noteq> 0 then do {
             st2 \<leftarrow> putc out maxlen (if has flags FLAGS_UPPERCASE then CHR ''E'' else CHR ''e'') st1;
             st3 \<leftarrow> ntoa_long out maxlen (of_int (if expval < 0 then - expval else expval)) (expval < 0) 10 0
                       (minwidth - 1) (FLAGS_ZEROPAD OR FLAGS_PLUS) st2;
             (if has flags FLAGS_LEFT then pad_behind out maxlen start_idx width (fst st3) (snd st3)
              else Some st3)
           } else Some st1
         }))"

text \<open>
  The calls tied together, with a depth: \<open>_etoa\<close> of a large number calls \<open>_ftoa\<close> on the number
  scaled to [1, 10), and \<open>_ftoa\<close> of a number above 1e9 calls \<open>_etoa\<close> first, so no call of
  IEEE numbers is nested deeper than three.
\<close>

primrec float_calls ::
  "nat \<Rightarrow> bool \<Rightarrow> 'd double_ops \<Rightarrow> 'b out_fct \<Rightarrow> u32 \<Rightarrow> ('d, 'b) float_out" where
  "float_calls 0 expo F out maxlen value prec width flags st = None"
| "float_calls (Suc k) expo F out maxlen value prec width flags st =
     (if expo then etoa_with (float_calls k False F out maxlen) F out maxlen value prec width flags st
      else ftoa_with (float_calls k True F out maxlen) F out maxlen value prec width flags st)"

definition ftoa :: "'d double_ops \<Rightarrow> 'b out_fct \<Rightarrow> u32 \<Rightarrow> ('d, 'b) float_out" where
  "ftoa = float_calls 4 False"

definition etoa :: "'d double_ops \<Rightarrow> 'b out_fct \<Rightarrow> u32 \<Rightarrow> ('d, 'b) float_out" where
  "etoa = float_calls 4 True"

section \<open>The format string\<close>

text \<open>
  The arguments behind \<open>...\<close>: reading one with the wrong type is undefined. \<open>int\<close>, \<open>long\<close>
  and their unsigned types are one 32-bit word.
\<close>

datatype 'd va = VInt u32 | VLongLong u64 | VDouble 'd | VStr string | VPtr u32

definition va_int :: "'d va list \<Rightarrow> (u32 \<times> 'd va list) option" where
  "va_int va = (case va of VInt x # va' \<Rightarrow> Some (x, va') | _ \<Rightarrow> None)"
definition va_long_long :: "'d va list \<Rightarrow> (u64 \<times> 'd va list) option" where
  "va_long_long va = (case va of VLongLong x # va' \<Rightarrow> Some (x, va') | _ \<Rightarrow> None)"
definition va_double :: "'d va list \<Rightarrow> ('d \<times> 'd va list) option" where
  "va_double va = (case va of VDouble x # va' \<Rightarrow> Some (x, va') | _ \<Rightarrow> None)"
definition va_str :: "'d va list \<Rightarrow> (string \<times> 'd va list) option" where
  "va_str va = (case va of VStr x # va' \<Rightarrow> Some (x, va') | _ \<Rightarrow> None)"
definition va_ptr :: "'d va list \<Rightarrow> (u32 \<times> 'd va list) option" where
  "va_ptr va = (case va of VPtr x # va' \<Rightarrow> Some (x, va') | _ \<Rightarrow> None)"

definition flag_of :: "char \<Rightarrow> u32" where
  "flag_of c = (if c = CHR ''0'' then FLAGS_ZEROPAD else if c = CHR ''-'' then FLAGS_LEFT
     else if c = CHR ''+'' then FLAGS_PLUS else if c = CHR '' '' then FLAGS_SPACE
     else if c = CHR ''#'' then FLAGS_HASH else 0)"

fun parse_flags :: "u32 \<Rightarrow> string \<Rightarrow> u32 \<times> string" where
  "parse_flags flags [] = (flags, [])"
| "parse_flags flags (c # s) =
     (if flag_of c \<noteq> 0 then parse_flags (flags OR flag_of c) s else (flags, c # s))"

definition parse_width ::
  "u32 \<Rightarrow> string \<Rightarrow> 'd va list \<Rightarrow> (u32 \<times> u32 \<times> string \<times> 'd va list) option" where
  "parse_width flags s va =
     (if is_digit (deref s) then (let (w, s') = atoi s in Some (w, flags, s', va))
      else if deref s = CHR ''*'' then do {
        (w, va') \<leftarrow> va_int va;
        s' \<leftarrow> advance s;
        Some (if w <s 0 then (- w, flags OR FLAGS_LEFT, s', va') else (w, flags, s', va'))
      } else Some (0, flags, s, va))"

definition parse_precision ::
  "u32 \<Rightarrow> string \<Rightarrow> 'd va list \<Rightarrow> (u32 \<times> u32 \<times> string \<times> 'd va list) option" where
  "parse_precision flags s va =
     (if deref s = CHR ''.'' then do {
        let flags' = flags OR FLAGS_PRECISION;
        s1 \<leftarrow> advance s;
        if is_digit (deref s1) then (let (p, s2) = atoi s1 in Some (p, flags', s2, va))
        else if deref s1 = CHR ''*'' then do {
          (p, va') \<leftarrow> va_int va;
          s2 \<leftarrow> advance s1;
          Some (if 0 <s p then p else 0, flags', s2, va')
        } else Some (0, flags', s1, va)
      } else Some (0, flags, s, va))"

definition parse_length :: "u32 \<Rightarrow> string \<Rightarrow> (u32 \<times> string) option" where
  "parse_length flags s =
     (let c = deref s in
      if c = CHR ''l'' then do {
        s1 \<leftarrow> advance s;
        (if deref s1 = CHR ''l'' then
           map_option (Pair (flags OR FLAGS_LONG OR FLAGS_LONG_LONG)) (advance s1)
         else Some (flags OR FLAGS_LONG, s1))
      } else if c = CHR ''h'' then do {
        s1 \<leftarrow> advance s;
        (if deref s1 = CHR ''h'' then map_option (Pair (flags OR FLAGS_SHORT OR FLAGS_CHAR)) (advance s1)
         else Some (flags OR FLAGS_SHORT, s1))
      } else if c = CHR ''t'' then map_option (Pair (flags OR FLAGS_LONG)) (advance s)
      else if c = CHR ''j'' then map_option (Pair (flags OR FLAGS_LONG_LONG)) (advance s)
      else if c = CHR ''z'' then map_option (Pair (flags OR FLAGS_LONG)) (advance s)
      else Some (flags, s))"


section \<open>Conversions\<close>

definition int_base :: "char \<Rightarrow> u32" where
  "int_base c = (if c = CHR ''x'' \<or> c = CHR ''X'' then 16 else if c = CHR ''o'' then 8
     else if c = CHR ''b'' then 2 else 10)"

definition int_flags :: "char \<Rightarrow> u32 \<Rightarrow> u32" where
  "int_flags c flags =
     (let f1 = (if int_base c = 10 then flags AND NOT FLAGS_HASH else flags);
          f2 = (if c = CHR ''X'' then f1 OR FLAGS_UPPERCASE else f1);
          f3 = (if c \<noteq> CHR ''i'' \<and> c \<noteq> CHR ''d'' then f2 AND NOT (FLAGS_PLUS OR FLAGS_SPACE) else f2)
      in if has f3 FLAGS_PRECISION then f3 AND NOT FLAGS_ZEROPAD else f3)"

definition magnitude :: "'a::len word \<Rightarrow> 'a word" where
  "magnitude v = (if 0 <s v then v else 0 - v)"

definition int_arg :: "u32 \<Rightarrow> u32 \<Rightarrow> u32" where
  "int_arg flags x = (if has flags FLAGS_CHAR then ucast (ucast x :: u8)
     else if has flags FLAGS_SHORT then scast (ucast x :: u16) else x)"

definition uint_arg :: "u32 \<Rightarrow> u32 \<Rightarrow> u32" where
  "uint_arg flags x = (if has flags FLAGS_CHAR then ucast (ucast x :: u8)
     else if has flags FLAGS_SHORT then ucast (ucast x :: u16) else x)"

definition conv_int ::
  "'b out_fct \<Rightarrow> u32 \<Rightarrow> char \<Rightarrow> u32 \<Rightarrow> u32 \<Rightarrow> u32 \<Rightarrow> 'd va list \<Rightarrow> 'b \<times> u32
    \<Rightarrow> (('b \<times> u32) \<times> 'd va list) option" where
  "conv_int out maxlen c flags0 width precision va st =
     (let base = int_base c; flags = int_flags c flags0 in
      if c = CHR ''i'' \<or> c = CHR ''d'' then
        (if has flags FLAGS_LONG_LONG then do {
           (value, va') \<leftarrow> va_long_long va;
           st' \<leftarrow> ntoa_long_long out maxlen (magnitude value) (value <s 0) (ucast base) precision width flags st;
           Some (st', va')
         } else if has flags FLAGS_LONG then do {
           (value, va') \<leftarrow> va_int va;
           st' \<leftarrow> ntoa_long out maxlen (magnitude value) (value <s 0) base precision width flags st;
           Some (st', va')
         } else do {
           (x, va') \<leftarrow> va_int va;
           let value = int_arg flags x;
           st' \<leftarrow> ntoa_long out maxlen (magnitude value) (value <s 0) base precision width flags st;
           Some (st', va')
         })
      else
        (if has flags FLAGS_LONG_LONG then do {
           (value, va') \<leftarrow> va_long_long va;
           st' \<leftarrow> ntoa_long_long out maxlen value False (ucast base) precision width flags st;
           Some (st', va')
         } else if has flags FLAGS_LONG then do {
           (value, va') \<leftarrow> va_int va;
           st' \<leftarrow> ntoa_long out maxlen value False base precision width flags st;
           Some (st', va')
         } else do {
           (x, va') \<leftarrow> va_int va;
           st' \<leftarrow> ntoa_long out maxlen (uint_arg flags x) False base precision width flags st;
           Some (st', va')
         }))"

definition conv_char ::
  "'b out_fct \<Rightarrow> u32 \<Rightarrow> u32 \<Rightarrow> u32 \<Rightarrow> 'd va list \<Rightarrow> 'b \<times> u32 \<Rightarrow> (('b \<times> u32) \<times> 'd va list) option" where
  "conv_char out maxlen flags width va st =
     do {
       st1 \<leftarrow> (if \<not> has flags FLAGS_LEFT then pad_from out maxlen 1 width st else Some st);
       (x, va') \<leftarrow> va_int va;
       st2 \<leftarrow> putc out maxlen (char_of (unat x)) st1;
       st3 \<leftarrow> (if has flags FLAGS_LEFT then pad_from out maxlen 1 width st2 else Some st2);
       Some (st3, va')
     }"

fun str_loop :: "'b out_fct \<Rightarrow> u32 \<Rightarrow> u32 \<Rightarrow> string \<Rightarrow> u32 \<Rightarrow> 'b \<times> u32 \<Rightarrow> ('b \<times> u32) option" where
  "str_loop out maxlen flags [] precision st = Some st"
| "str_loop out maxlen flags (c # p) precision st =
     (if c \<noteq> NUL \<and> (\<not> has flags FLAGS_PRECISION \<or> precision \<noteq> 0) then
        (case putc out maxlen c st of
           None \<Rightarrow> None
         | Some st' \<Rightarrow>
             str_loop out maxlen flags p (if has flags FLAGS_PRECISION then precision - 1 else precision) st')
      else Some st)"

definition conv_str ::
  "'b out_fct \<Rightarrow> u32 \<Rightarrow> u32 \<Rightarrow> u32 \<Rightarrow> u32 \<Rightarrow> 'd va list \<Rightarrow> 'b \<times> u32
    \<Rightarrow> (('b \<times> u32) \<times> 'd va list) option" where
  "conv_str out maxlen flags width precision va st =
     do {
       (p, va') \<leftarrow> va_str va;
       let l0 = strnlen_s p (if precision \<noteq> 0 then precision else - 1);
       let l = (if has flags FLAGS_PRECISION then (if l0 < precision then l0 else precision) else l0);
       st1 \<leftarrow> (if \<not> has flags FLAGS_LEFT then pad_from out maxlen l width st else Some st);
       st2 \<leftarrow> str_loop out maxlen flags p precision st1;
       st3 \<leftarrow> (if has flags FLAGS_LEFT then pad_from out maxlen l width st2 else Some st2);
       Some (st3, va')
     }"

definition conv_float ::
  "'d double_ops \<Rightarrow> 'b out_fct \<Rightarrow> u32 \<Rightarrow> char \<Rightarrow> u32 \<Rightarrow> u32 \<Rightarrow> u32 \<Rightarrow> 'd va list \<Rightarrow> 'b \<times> u32
    \<Rightarrow> (('b \<times> u32) \<times> 'd va list) option" where
  "conv_float F out maxlen c flags0 width precision va st =
     do {
       (value, va') \<leftarrow> va_double va;
       st' \<leftarrow> (if c = CHR ''f'' \<or> c = CHR ''F'' then
                ftoa F out maxlen value precision width
                  (if c = CHR ''F'' then flags0 OR FLAGS_UPPERCASE else flags0) st
              else
                (let flags1 = (if c = CHR ''g'' \<or> c = CHR ''G'' then flags0 OR FLAGS_ADAPT_EXP else flags0);
                     flags2 = (if c = CHR ''E'' \<or> c = CHR ''G'' then flags1 OR FLAGS_UPPERCASE else flags1)
                 in etoa F out maxlen value precision width flags2 st));
       Some (st', va')
     }"

definition conv_ptr ::
  "'b out_fct \<Rightarrow> u32 \<Rightarrow> u32 \<Rightarrow> u32 \<Rightarrow> 'd va list \<Rightarrow> 'b \<times> u32 \<Rightarrow> (('b \<times> u32) \<times> 'd va list) option" where
  "conv_ptr out maxlen flags precision va st =
     do {
       (x, va') \<leftarrow> va_ptr va;
       st' \<leftarrow> ntoa_long out maxlen x False 16 precision 8 (flags OR (FLAGS_ZEROPAD OR FLAGS_UPPERCASE)) st;
       Some (st', va')
     }"

definition conv ::
  "'d double_ops \<Rightarrow> 'b out_fct \<Rightarrow> u32 \<Rightarrow> char \<Rightarrow> u32 \<Rightarrow> u32 \<Rightarrow> u32 \<Rightarrow> 'd va list \<Rightarrow> 'b \<times> u32
    \<Rightarrow> (('b \<times> u32) \<times> 'd va list) option" where
  "conv F out maxlen c flags width precision va st =
     (if c \<in> set ''diuxXob'' then conv_int out maxlen c flags width precision va st
      else if c \<in> set ''fFeEgG'' then conv_float F out maxlen c flags width precision va st
      else if c = CHR ''c'' then conv_char out maxlen flags width va st
      else if c = CHR ''s'' then conv_str out maxlen flags width precision va st
      else if c = CHR ''p'' then conv_ptr out maxlen flags precision va st
      else map_option (\<lambda>st'. (st', va)) (putc out maxlen c st))"

text \<open>
  One specification: the string pointer stands behind the \<open>%\<close>; the conversion character is
  passed with \<open>format++\<close> at the end, which is undefined if it is the terminator. The
  specification is read first and the characters are put out afterwards, in both orders the
  same effects: reading has none on the output.
\<close>

definition read_spec ::
  "string \<Rightarrow> 'd va list \<Rightarrow> (u32 \<times> u32 \<times> u32 \<times> char \<times> string \<times> 'd va list) option" where
  "read_spec s va =
     do {
       let (flags1, s1) = parse_flags 0 s;
       (width, flags2, s2, va1) \<leftarrow> parse_width flags1 s1 va;
       (precision, flags3, s3, va2) \<leftarrow> parse_precision flags2 s2 va1;
       (flags, s4) \<leftarrow> parse_length flags3 s3;
       s5 \<leftarrow> advance s4;
       Some (flags, width, precision, deref s4, s5, va2)
     }"


lemma length_atoi_loop: "length (snd (atoi_loop i s)) \<le> length s"
  by (induction i s rule: atoi_loop.induct) auto

lemma length_parse_flags: "length (snd (parse_flags f s)) \<le> length s"
  by (induction f s rule: parse_flags.induct) auto

lemma advance_eq_Some: "advance s = Some s' \<longleftrightarrow> (\<exists>c. s = c # s')"
  by (auto simp: advance_def split: list.splits)

lemma length_advance: "advance s = Some s' \<Longrightarrow> Suc (length s') = length s"
  by (auto simp: advance_eq_Some)

lemma length_parse_width: "parse_width f s va = Some (w, f', s', va') \<Longrightarrow> length s' \<le> length s"
  using length_atoi_loop [of 0 s]
  by (auto simp: parse_width_def atoi_def advance_eq_Some bind_eq_Some_conv Let_def split: if_splits prod.splits)

lemma length_parse_precision: "parse_precision f s va = Some (p, f', s', va') \<Longrightarrow> length s' \<le> length s"
proof (cases "deref s = CHR ''.''")
  case True
  assume r: "parse_precision f s va = Some (p, f', s', va')"
  then obtain s1 where s1: "advance s = Some s1"
    using True by (auto simp: parse_precision_def bind_eq_Some_conv Let_def)
  then have "length s' \<le> length s1"
    using r True length_atoi_loop [of 0 s1]
    by (auto simp: parse_precision_def atoi_def advance_eq_Some bind_eq_Some_conv Let_def
        split: if_splits prod.splits)
  with s1 show ?thesis
    by (auto simp: advance_eq_Some)
qed (simp add: parse_precision_def)

lemma length_parse_length: "parse_length f s = Some (f', s') \<Longrightarrow> length s' \<le> length s"
  by (auto simp: parse_length_def advance_eq_Some bind_eq_Some_conv Let_def split: if_splits)

lemma length_read_spec: "read_spec s va = Some (f, w, p, c, s', va') \<Longrightarrow> length s' < length s"
  by (auto simp: read_spec_def bind_eq_Some_conv split: prod.splits
      dest!: length_parse_width length_parse_precision length_parse_length length_advance)
     (metis length_parse_flags snd_conv le_trans Suc_le_eq)

function vsnprintf_loop ::
  "'d double_ops \<Rightarrow> 'b out_fct \<Rightarrow> u32 \<Rightarrow> string \<Rightarrow> 'd va list \<Rightarrow> 'b \<times> u32 \<Rightarrow> ('b \<times> u32) option" where
  "vsnprintf_loop F out maxlen [] va st = Some st"
| "vsnprintf_loop F out maxlen (c # s) va st =
     (if c = NUL then Some st
      else if c \<noteq> CHR ''%'' then
        (case putc out maxlen c st of
           None \<Rightarrow> None
         | Some st' \<Rightarrow> vsnprintf_loop F out maxlen s va st')
      else
        (case read_spec s va of
           None \<Rightarrow> None
         | Some (flags, width, precision, d, s', va') \<Rightarrow>
             (case conv F out maxlen d flags width precision va' st of
                None \<Rightarrow> None
              | Some (st', va'') \<Rightarrow> vsnprintf_loop F out maxlen s' va'' st')))"
  by pat_completeness auto

termination vsnprintf_loop
  by (relation "measure (\<lambda>(F, out, maxlen, s, va, st). length s)") (auto dest: length_read_spec)

declare vsnprintf_loop.simps(2) [simp del]

text \<open>\<open>_vsnprintf\<close>: the format is run, then the terminator is put out; the count is returned.\<close>

definition vsnprintf_out ::
  "'d double_ops \<Rightarrow> 'b out_fct \<Rightarrow> bool \<Rightarrow> 'b \<Rightarrow> u32 \<Rightarrow> string \<Rightarrow> 'd va list \<Rightarrow> (u32 \<times> 'b) option" where
  "vsnprintf_out F out0 is_null buffer maxlen format va =
     do {
       let out = (if is_null then out_null else out0);
       (b, idx) \<leftarrow> vsnprintf_loop F out maxlen format va (buffer, 0);
       b' \<leftarrow> out NUL b (if idx < maxlen then idx else maxlen - 1) maxlen;
       Some (idx, b')
     }"

text \<open>
  The public calls. The buffer is \<open>None\<close> when the caller passes \<open>NULL\<close>; otherwise it is the
  memory at the pointer, as long as the object behind it.
\<close>

definition vsnprintf ::
  "'d double_ops \<Rightarrow> string option \<Rightarrow> u32 \<Rightarrow> string \<Rightarrow> 'd va list \<Rightarrow> (u32 \<times> string option) option" where
  "vsnprintf F buffer count format va =
     (case buffer of
        None \<Rightarrow> map_option (\<lambda>(n, b). (n, None)) (vsnprintf_out F out_buffer True [] count format va)
      | Some mem \<Rightarrow> map_option (\<lambda>(n, b). (n, Some b)) (vsnprintf_out F out_buffer False mem count format va))"

definition snprintf ::
  "'d double_ops \<Rightarrow> string option \<Rightarrow> u32 \<Rightarrow> string \<Rightarrow> 'd va list \<Rightarrow> (u32 \<times> string option) option" where
  "snprintf F buffer count format va = vsnprintf F buffer count format va"

definition sprintf ::
  "'d double_ops \<Rightarrow> string option \<Rightarrow> string \<Rightarrow> 'd va list \<Rightarrow> (u32 \<times> string option) option" where
  "sprintf F buffer format va = vsnprintf F buffer (- 1) format va"

definition vfctprintf ::
  "'d double_ops \<Rightarrow> (char \<Rightarrow> 'w \<Rightarrow> 'w option) \<Rightarrow> 'w \<Rightarrow> string \<Rightarrow> 'd va list \<Rightarrow> (u32 \<times> 'w) option" where
  "vfctprintf F out arg format va = vsnprintf_out F (out_fct out) False arg (- 1) format va"

definition weak_raw_vprintf ::
  "'d double_ops \<Rightarrow> (char \<Rightarrow> 'w \<Rightarrow> 'w option) \<Rightarrow> (string \<Rightarrow> 'w \<Rightarrow> 'w option) \<Rightarrow> bool \<Rightarrow> 'w \<Rightarrow> string \<Rightarrow> 'd va list
    \<Rightarrow> (bool \<times> 'w) option" where
  "weak_raw_vprintf F putchar puts lazy_set world fmt args =
     (if lazy_set then
        map_option (\<lambda>(n, w). (True, w)) (vsnprintf_out F (out_char putchar) False world (- 1) fmt args)
      else map_option (Pair False) (puts fmt world))"

end
