(* ===== verification/Printf_Correct.thy ===== *)
theory Printf_Correct
  imports Printf
begin

text \<open>
  The text of a format: every conversion puts out one string that depends on its arguments
  only, never on the output function, the buffer, the index or the limit. \<open>format_text\<close> is
  the text of a whole format string, and \<open>vsnprintf_loop_text\<close> shows that running the format
  is putting out that text.
\<close>

section \<open>Flags as bits\<close>

named_theorems flag_simps \<open>conditions on flag words as single bits\<close>

lemma bit_one_push [flag_simps]: "bit (push_bit n 1 :: u32) k \<longleftrightarrow> k = n \<and> n < 32"
  by (auto simp: bit_exp_iff)

lemma has_single [flag_simps]: "n < 32 \<Longrightarrow> has f (push_bit n 1) \<longleftrightarrow> bit f n"
  by (simp add: has_def and_exp_eq_0_iff_not_bit)

lemma has_or: "has f (a OR b) \<longleftrightarrow> has f a \<or> has f b"
  by (auto simp: has_def bit_eq_iff bit_and_iff bit_or_iff)

lemma has_LEFT: "has f FLAGS_LEFT \<longleftrightarrow> bit f 1"
  and has_ZEROPAD: "has f FLAGS_ZEROPAD \<longleftrightarrow> bit f 0"
  and has_PLUS: "has f FLAGS_PLUS \<longleftrightarrow> bit f 2"
  and has_SPACE: "has f FLAGS_SPACE \<longleftrightarrow> bit f 3"
  and has_HASH: "has f FLAGS_HASH \<longleftrightarrow> bit f 4"
  and has_UPPERCASE: "has f FLAGS_UPPERCASE \<longleftrightarrow> bit f 5"
  and has_CHAR: "has f FLAGS_CHAR \<longleftrightarrow> bit f 6"
  and has_SHORT: "has f FLAGS_SHORT \<longleftrightarrow> bit f 7"
  and has_LONG: "has f FLAGS_LONG \<longleftrightarrow> bit f 8"
  and has_LONG_LONG: "has f FLAGS_LONG_LONG \<longleftrightarrow> bit f 9"
  and has_PRECISION: "has f FLAGS_PRECISION \<longleftrightarrow> bit f 10"
  unfolding FLAGS_LEFT_def FLAGS_ZEROPAD_def FLAGS_PLUS_def FLAGS_SPACE_def FLAGS_HASH_def
    FLAGS_UPPERCASE_def FLAGS_CHAR_def FLAGS_SHORT_def FLAGS_LONG_def FLAGS_LONG_LONG_def FLAGS_PRECISION_def
  by (rule has_single, simp)+

lemma bit_flags:
  "bit FLAGS_LEFT k \<longleftrightarrow> k = 1" "bit FLAGS_ZEROPAD k \<longleftrightarrow> k = 0" "bit FLAGS_PLUS k \<longleftrightarrow> k = 2"
  "bit FLAGS_SPACE k \<longleftrightarrow> k = 3" "bit FLAGS_HASH k \<longleftrightarrow> k = 4" "bit FLAGS_UPPERCASE k \<longleftrightarrow> k = 5"
  unfolding FLAGS_LEFT_def FLAGS_ZEROPAD_def FLAGS_PLUS_def FLAGS_SPACE_def FLAGS_HASH_def
      FLAGS_UPPERCASE_def bit_one_push by simp_all

lemmas has_bits = has_or has_LEFT has_ZEROPAD has_PLUS has_SPACE has_HASH has_UPPERCASE has_CHAR
  has_SHORT has_LONG has_LONG_LONG has_PRECISION

lemma bit_clear: "k < 32 \<Longrightarrow> bit (f AND NOT b) k \<longleftrightarrow> bit f k \<and> \<not> bit (b :: u32) k"
  by (auto simp: bit_and_iff bit_not_iff)

section \<open>Putting out a string\<close>

lemma put_string_append:
  "put_string out m (s @ t) st = Option.bind (put_string out m s st) (put_string out m t)"
proof (induction s arbitrary: st)
  case (Cons c s)
  then show ?case by (cases "putc out m c st") simp_all
qed simp

lemma putc_idx: "putc out m c st = Some st' \<Longrightarrow> snd st' = snd st + 1"
  by (auto simp: putc_def)

lemma put_string_idx:
  "put_string out m t st = Some st' \<Longrightarrow> snd st' = snd st + of_nat (length t)"
  by (induction t arbitrary: st) (auto simp: bind_eq_Some_conv dest!: putc_idx)

definition pad :: "u32 \<Rightarrow> u32 \<Rightarrow> string" where
  "pad l width = replicate (unat width - unat l) (CHR '' '')"

lemma pad_done: "\<not> l < width \<Longrightarrow> pad l width = []"
  by (simp add: pad_def word_less_nat_alt)

lemma pad_step: "l < width \<Longrightarrow> pad l width = CHR '' '' # pad (l + 1) width"
  using unat_suc_below [of l width]
  by (simp add: pad_def word_less_nat_alt Suc_diff_Suc flip: replicate_Suc)

lemma pad_from_text: "pad_from out m i width st = put_string out m (pad i width) st"
proof (induction out m i width st rule: pad_from.induct)
  case (1 out m i width st)
  then show ?case
    by (simp add: pad_from.simps [of out m i width st] pad_done pad_step split: option.splits)
qed

lemma pad_behind_text:
  "pad_behind out m start width b idx = put_string out m (pad (idx - start) width) (b, idx)"
proof (induction out m start width b idx rule: pad_behind.induct)
  case (1 out m start width b idx)
  have e: "pad (idx - start) width =
      (if idx - start < width then CHR '' '' # pad (idx + 1 - start) width else [])"
    by (simp add: pad_done pad_step suc_minus_start)
  show ?case
    unfolding pad_behind.simps [of out m start width b idx] e
    using 1 by (auto simp: putc_def split: option.splits)
qed


section \<open>The text of an integer\<close>

abbreviation ulen :: "string \<Rightarrow> u32" where "ulen s \<equiv> of_nat (length s)"

definition rev_text :: "string \<Rightarrow> u32 \<Rightarrow> u32 \<Rightarrow> string" where
  "rev_text buf width flags =
     (if \<not> has flags FLAGS_LEFT \<and> \<not> has flags FLAGS_ZEROPAD then pad (ulen buf) width else [])
     @ rev buf @ (if has flags FLAGS_LEFT then pad (ulen buf) width else [])"

lemma out_rev_text: "out_rev out m buf width flags st = put_string out m (rev_text buf width flags) st"
proof (cases "has flags FLAGS_LEFT")
  case True
  have "pad_behind out m (snd st) width (fst st') (snd st') = put_string out m (pad (ulen buf) width) st'"
    if "put_string out m (rev buf) st = Some st'" for st'
    using put_string_idx [OF that] by (cases st') (simp add: pad_behind_text)
  with True show ?thesis
    by (cases "put_string out m (rev buf) st")
       (simp_all add: out_rev_def rev_text_def put_string_append)
qed (auto simp: out_rev_def rev_text_def put_string_append pad_from_text)

definition format_int :: "string \<Rightarrow> bool \<Rightarrow> u32 \<Rightarrow> u32 \<Rightarrow> u32 \<Rightarrow> u32 \<Rightarrow> string" where
  "format_int buf negative base prec width flags =
     (let (buf1, width1) = ntoa_lead buf negative prec width flags;
          buf2 = ntoa_hash buf1 base prec width1 flags;
          buf3 = put_sign PICO_PRINTF_NTOA_BUFFER_SIZE buf2 negative flags
      in rev_text buf3 width1 flags)"

lemma ntoa_format_text:
  "ntoa_format out m buf negative base prec width flags st =
     put_string out m (format_int buf negative base prec width flags) st"
  by (simp add: ntoa_format_def format_int_def out_rev_text Let_def split: prod.splits)

definition int_text :: "'a::len word \<Rightarrow> bool \<Rightarrow> 'a word \<Rightarrow> u32 \<Rightarrow> u32 \<Rightarrow> u32 \<Rightarrow> string" where
  "int_text value negative base prec width flags0 =
     (let flags = (if value = 0 then flags0 AND NOT FLAGS_HASH else flags0);
          buf = (if \<not> has flags FLAGS_PRECISION \<or> value \<noteq> 0 then digit_loop value base flags [] else [])
      in format_int buf negative (ucast base) prec width flags)"

lemma ntoa_long_text:
  "ntoa_long out m value negative base prec width flags st =
     put_string out m (int_text value negative base prec width flags) st"
  by (simp add: ntoa_long_def int_text_def ntoa_format_text Let_def)

lemma ntoa_long_long_text:
  "ntoa_long_long out m value negative base prec width flags st =
     put_string out m (int_text value negative base prec width flags) st"
  by (simp add: ntoa_long_long_def int_text_def ntoa_format_text Let_def)

section \<open>The text of a number with a fraction\<close>

type_synonym 'd float_text = "'d \<Rightarrow> u32 \<Rightarrow> u32 \<Rightarrow> u32 \<Rightarrow> string option"

text \<open>\<open>puts_text out m r\<close> puts out the text \<open>r\<close>, if there is one.\<close>

definition puts_text :: "'b out_fct \<Rightarrow> u32 \<Rightarrow> string option \<Rightarrow> 'b \<times> u32 \<Rightarrow> ('b \<times> u32) option" where
  "puts_text out m r st = Option.bind r (\<lambda>t. put_string out m t st)"

lemma puts_text_simps [simp]:
  "puts_text out m None st = None" "puts_text out m (Some t) st = put_string out m t st"
  by (simp_all add: puts_text_def)

definition ftoa_spec :: "'d float_text \<Rightarrow> 'd double_ops \<Rightarrow> 'd float_text" where
  "ftoa_spec etoa_t F value prec width flags =
     (if d_isnan F value then Some (rev_text ''nan'' width flags)
      else if d_less F value (d_neg F (d_max F)) then Some (rev_text ''fni-'' width flags)
      else if d_less F (d_max F) value then
        Some (rev_text (if has flags FLAGS_PLUS then ''fni+'' else ''fni'') width flags)
      else if d_less F (d_lit F 1000000000 0) value \<or> d_less F value (d_neg F (d_lit F 1000000000 0)) then
        etoa_t value prec width flags
      else map_option (\<lambda>(buf, width'). rev_text buf width' flags) (ftoa_text F value prec width flags))"

lemma ftoa_with_text:
  assumes "\<And>value prec width flags st.
    call value prec width flags st = puts_text out m (etoa_t value prec width flags) st"
  shows "ftoa_with call F out m value prec width flags st =
    puts_text out m (ftoa_spec etoa_t F value prec width flags) st"
  by (auto simp: ftoa_with_def ftoa_spec_def out_rev_text assms split: option.splits)

definition etoa_spec :: "'d float_text \<Rightarrow> 'd double_ops \<Rightarrow> 'd float_text" where
  "etoa_spec ftoa_t F value0 prec0 width flags0 =
     (if d_isnan F value0 \<or> d_less F (d_max F) value0 \<or> d_less F value0 (d_neg F (d_max F)) then
        ftoa_t value0 prec0 width flags0
      else
        (let negative = d_less F value0 (d_of_int F 0);
             value = (if negative then d_neg F value0 else value0);
             e = etoa_exp F value;
             (prec, flags, minwidth, expval) =
               etoa_adapt F value (if \<not> has flags0 FLAGS_PRECISION then PICO_PRINTF_DEFAULT_FLOAT_PRECISION
                                   else prec0) flags0 e;
             fwidth = (if has flags FLAGS_LEFT \<and> minwidth \<noteq> 0 then 0
                       else if minwidth < width then width - minwidth else 0);
             value' = (if expval \<noteq> 0 then d_div F value (snd e) else value)
         in map_option (\<lambda>t.
              if minwidth \<noteq> 0 then
                (let u = t @ (if has flags FLAGS_UPPERCASE then ''E'' else ''e'')
                       @ int_text (of_int (if expval < 0 then - expval else expval) :: u32) (expval < 0) 10 0
                           (minwidth - 1) (FLAGS_ZEROPAD OR FLAGS_PLUS)
                 in u @ (if has flags FLAGS_LEFT then pad (ulen u) width else []))
              else t)
            (ftoa_t (if negative then d_neg F value' else value') prec fwidth (flags AND NOT FLAGS_ADAPT_EXP))))"


lemma put_string_snoc: "put_string out m [c] st = putc out m c st"
  by (cases "putc out m c st") simp_all

lemma etoa_with_text:
  assumes "\<And>value prec width flags st.
    call value prec width flags st = puts_text out m (ftoa_t value prec width flags) st"
  shows "etoa_with call F out m value prec width flags st =
    puts_text out m (etoa_spec ftoa_t F value prec width flags) st"
proof -
  have tail: "(do {
       st1 \<leftarrow> puts_text out m r st;
       if mw \<noteq> 0 then do {
         st2 \<leftarrow> putc out m c st1;
         st3 \<leftarrow> put_string out m x st2;
         (if b then pad_behind out m (snd st) width (fst st3) (snd st3) else Some st3)
       } else Some st1
     }) = puts_text out m (map_option (\<lambda>t.
         if mw \<noteq> 0 then (let u = t @ [c] @ x in u @ (if b then pad (ulen u) width else [])) else t) r) st"
    for r x b c and mw :: u32
  proof (cases r)
    case (Some t)
    have "pad_behind out m (snd st) width (fst st3) (snd st3) =
        put_string out m (pad (ulen (t @ [c] @ x)) width) st3"
      if "put_string out m (t @ [c] @ x) st = Some st3" for st3
      using put_string_idx [OF that] by (cases st3) (simp add: pad_behind_text algebra_simps)
    then show ?thesis
      unfolding Some put_string_append
      by (cases "put_string out m t st"; simp add: put_string_append Let_def)
         (auto simp: put_string_append put_string_snoc algebra_simps
           split: option.splits bind_splits)
  qed simp
  show ?thesis
    unfolding etoa_with_def etoa_spec_def assms ntoa_long_text
    by (simp add: tail Let_def split: prod.splits)
qed


primrec float_text :: "nat \<Rightarrow> bool \<Rightarrow> 'd double_ops \<Rightarrow> 'd float_text" where
  "float_text 0 expo F value prec width flags = None"
| "float_text (Suc k) expo F value prec width flags =
     (if expo then etoa_spec (float_text k False F) F value prec width flags
      else ftoa_spec (float_text k True F) F value prec width flags)"

lemma float_calls_text:
  "float_calls k expo F out m v prec width flags st =
     puts_text out m (float_text k expo F v prec width flags) st"
proof (induction k arbitrary: expo v prec width flags st)
  case (Suc k)
  show ?case
    unfolding float_calls.simps float_text.simps
    by (simp add: ftoa_with_text [OF Suc.IH] etoa_with_text [OF Suc.IH])
qed simp

section \<open>The text of a format\<close>

definition text_int :: "char \<Rightarrow> u32 \<Rightarrow> u32 \<Rightarrow> u32 \<Rightarrow> 'd va list \<Rightarrow> (string \<times> 'd va list) option" where
  "text_int c flags0 width precision va =
     (let base = int_base c; flags = int_flags c flags0; signed = (c = CHR ''i'' \<or> c = CHR ''d'') in
      if has flags FLAGS_LONG_LONG then
        map_option (\<lambda>(value, va').
          (if signed then int_text (magnitude value) (value <s 0) (ucast base) precision width flags
           else int_text value False (ucast base) precision width flags, va')) (va_long_long va)
      else
        map_option (\<lambda>(x, va').
          (if signed then
             (let value = (if has flags FLAGS_LONG then x else int_arg flags x)
              in int_text (magnitude value) (value <s 0) base precision width flags)
           else int_text (if has flags FLAGS_LONG then x else uint_arg flags x) False base precision width flags,
           va')) (va_int va))"

fun cut_text :: "u32 \<Rightarrow> string \<Rightarrow> u32 \<Rightarrow> string" where
  "cut_text flags [] precision = []"
| "cut_text flags (c # p) precision =
     (if c \<noteq> NUL \<and> (\<not> has flags FLAGS_PRECISION \<or> precision \<noteq> 0)
      then c # cut_text flags p (if has flags FLAGS_PRECISION then precision - 1 else precision) else [])"

definition text_str :: "u32 \<Rightarrow> u32 \<Rightarrow> u32 \<Rightarrow> string \<Rightarrow> string" where
  "text_str flags width precision p =
     (let l0 = strnlen_s p (if precision \<noteq> 0 then precision else - 1);
          l = (if has flags FLAGS_PRECISION then (if l0 < precision then l0 else precision) else l0)
      in (if \<not> has flags FLAGS_LEFT then pad l width else []) @ cut_text flags p precision
         @ (if has flags FLAGS_LEFT then pad l width else []))"

definition text_char :: "u32 \<Rightarrow> u32 \<Rightarrow> u32 \<Rightarrow> string" where
  "text_char flags width x =
     (if \<not> has flags FLAGS_LEFT then pad 1 width else []) @ [char_of (unat x)]
     @ (if has flags FLAGS_LEFT then pad 1 width else [])"

definition text_float ::
  "'d double_ops \<Rightarrow> char \<Rightarrow> u32 \<Rightarrow> u32 \<Rightarrow> u32 \<Rightarrow> 'd va list \<Rightarrow> (string \<times> 'd va list) option" where
  "text_float F c flags0 width precision va =
     do {
       (value, va') \<leftarrow> va_double va;
       t \<leftarrow> (if c = CHR ''f'' \<or> c = CHR ''F'' then
                float_text 4 False F value precision width
                  (if c = CHR ''F'' then flags0 OR FLAGS_UPPERCASE else flags0)
              else
                (let flags1 = (if c = CHR ''g'' \<or> c = CHR ''G'' then flags0 OR FLAGS_ADAPT_EXP else flags0);
                     flags2 = (if c = CHR ''E'' \<or> c = CHR ''G'' then flags1 OR FLAGS_UPPERCASE else flags1)
                 in float_text 4 True F value precision width flags2));
       Some (t, va')
     }"

definition conv_text ::
  "'d double_ops \<Rightarrow> char \<Rightarrow> u32 \<Rightarrow> u32 \<Rightarrow> u32 \<Rightarrow> 'd va list \<Rightarrow> (string \<times> 'd va list) option" where
  "conv_text F c flags width precision va =
     (if c \<in> set ''diuxXob'' then text_int c flags width precision va
      else if c \<in> set ''fFeEgG'' then text_float F c flags width precision va
      else if c = CHR ''c'' then map_option (\<lambda>(x, va'). (text_char flags width x, va')) (va_int va)
      else if c = CHR ''s'' then map_option (\<lambda>(p, va'). (text_str flags width precision p, va')) (va_str va)
      else if c = CHR ''p'' then
        map_option (\<lambda>(x, va'). (int_text x False 16 precision 8 (flags OR (FLAGS_ZEROPAD OR FLAGS_UPPERCASE)), va'))
          (va_ptr va)
      else Some ([c], va))"

text \<open>\<open>puts_conv\<close> puts out the text of a conversion and passes the arguments left on.\<close>

definition puts_conv ::
  "'b out_fct \<Rightarrow> u32 \<Rightarrow> (string \<times> 'd va list) option \<Rightarrow> 'b \<times> u32 \<Rightarrow> (('b \<times> u32) \<times> 'd va list) option" where
  "puts_conv out m r st = do { (t, va) \<leftarrow> r; st' \<leftarrow> put_string out m t st; Some (st', va) }"

lemma puts_conv_simps [simp]:
  "puts_conv out m None st = None"
  "puts_conv out m (Some (t, va)) st = Option.bind (put_string out m t st) (\<lambda>st'. Some (st', va))"
  by (simp_all add: puts_conv_def)

lemma conv_int_text:
  "conv_int out m c flags width precision va st = puts_conv out m (text_int c flags width precision va) st"
  unfolding conv_int_def text_int_def ntoa_long_text ntoa_long_long_text Let_def
  by (cases "va_int va"; cases "va_long_long va") (simp_all split: prod.splits)

lemma str_loop_text:
  "str_loop out m flags p precision st = put_string out m (cut_text flags p precision) st"
  by (induction out m flags p precision st rule: str_loop.induct) (auto split: option.splits)

lemma conv_str_text:
  "conv_str out m flags width precision va st =
     puts_conv out m (map_option (\<lambda>(p, va'). (text_str flags width precision p, va')) (va_str va)) st"
proof (cases "va_str va")
  case (Some r)
  obtain p va' where r: "r = (p, va')" by (cases r)
  show ?thesis
    unfolding conv_str_def text_str_def Some r
    by (auto simp: Let_def pad_from_text str_loop_text put_string_append bind_assoc)
qed (simp add: conv_str_def)

lemma conv_char_text:
  "conv_char out m flags width va st =
     puts_conv out m (map_option (\<lambda>(x, va'). (text_char flags width x, va')) (va_int va)) st"
proof (cases "va_int va")
  case None
  then show ?thesis
    by (cases "pad_from out m 1 width st") (simp_all add: conv_char_def)
next
  case (Some r)
  obtain x va' where r: "r = (x, va')" by (cases r)
  show ?thesis
    unfolding conv_char_def text_char_def Some r
    by (auto simp: pad_from_text put_string_append bind_assoc put_string_snoc)
qed

lemma conv_float_text:
  "conv_float F out m c flags width precision va st = puts_conv out m (text_float F c flags width precision va) st"
  unfolding conv_float_def text_float_def ftoa_def etoa_def float_calls_text Let_def
  by (cases "va_double va") (auto simp: puts_text_def puts_conv_def bind_assoc split: prod.splits)

lemma conv_ptr_text:
  "conv_ptr out m flags precision va st =
     puts_conv out m (map_option (\<lambda>(x, va'). (int_text x False 16 precision 8
       (flags OR (FLAGS_ZEROPAD OR FLAGS_UPPERCASE)), va')) (va_ptr va)) st"
  unfolding conv_ptr_def ntoa_long_text by (cases "va_ptr va") (auto split: prod.splits)

lemma conv_eq_text:
  "conv F out m c flags width precision va st = puts_conv out m (conv_text F c flags width precision va) st"
proof -
  have d: "map_option (\<lambda>st'. (st', va)) (putc out m c st) = puts_conv out m (Some ([c], va)) st"
    by (cases "putc out m c st") simp_all
  show ?thesis
    unfolding conv_def conv_text_def conv_int_text conv_float_text conv_char_text conv_str_text conv_ptr_text d
    by (simp only: split: if_split) blast
qed


function format_text :: "'d double_ops \<Rightarrow> string \<Rightarrow> 'd va list \<Rightarrow> string option" where
  "format_text F [] va = Some []"
| "format_text F (c # s) va =
     (if c = NUL then Some []
      else if c \<noteq> CHR ''%'' then map_option (Cons c) (format_text F s va)
      else
        (case read_spec s va of
           None \<Rightarrow> None
         | Some (flags, width, precision, d, s', va') \<Rightarrow>
             (case conv_text F d flags width precision va' of
                None \<Rightarrow> None
              | Some (t, va'') \<Rightarrow> map_option ((@) t) (format_text F s' va''))))"
  by pat_completeness auto

termination format_text
  by (relation "measure (\<lambda>(F, s, va). length s)") (auto dest: length_read_spec)

declare format_text.simps(2) [simp del]

lemma puts_text_Cons:
  "puts_text out m (map_option (Cons c) r) st = Option.bind (putc out m c st) (puts_text out m r)"
  by (cases r; cases "putc out m c st") simp_all

lemma puts_text_append:
  "puts_text out m (map_option ((@) t) r) st = Option.bind (put_string out m t st) (puts_text out m r)"
  by (cases r; cases "put_string out m t st") (simp_all add: put_string_append)

lemma vsnprintf_loop_text:
  "vsnprintf_loop F out m s va st = puts_text out m (format_text F s va) st"
proof (induction F out m s va st rule: vsnprintf_loop.induct)
  case (2 F out m c s va st)
  show ?case
  proof (cases "c = NUL \<or> c \<noteq> CHR ''%''")
    case True
    then show ?thesis
      using 2(1) by (cases "putc out m c st") (auto simp: vsnprintf_loop.simps(2) format_text.simps(2) puts_text_Cons)
  next
    case c: False
    show ?thesis
    proof (cases "read_spec s va")
      case None
      then show ?thesis
        using c by (simp add: vsnprintf_loop.simps(2) format_text.simps(2))
    next
      case (Some r)
      obtain flags width precision d s' va' where r: "r = (flags, width, precision, d, s', va')"
        by (cases r)
      show ?thesis
      proof (cases "conv_text F d flags width precision va'")
        case None
        then show ?thesis
          using c Some r by (simp add: vsnprintf_loop.simps(2) format_text.simps(2) conv_eq_text)
      next
        case ct: (Some q)
        obtain t va'' where q: "q = (t, va'')" by (cases q)
        show ?thesis
          using c Some r ct q 2(2)
          by (cases "put_string out m t st")
             (auto simp: vsnprintf_loop.simps(2) format_text.simps(2) conv_eq_text puts_text_append)
      qed
    qed
  qed
qed simp

lemma vsnprintf_out_text:
  "vsnprintf_out F out is_null b m s va =
     (let f = (if is_null then out_null else out) in
      case format_text F s va of
        None \<Rightarrow> None
      | Some t \<Rightarrow> do {
          (b', i) \<leftarrow> put_string f m t (b, 0);
          b'' \<leftarrow> f NUL b' (if i < m then i else m - 1) m;
          Some (i, b'')
        })"
  by (simp add: vsnprintf_out_def vsnprintf_loop_text Let_def puts_text_def split: option.splits)

text \<open>An arithmetic for the witnesses that print no floating point numbers.\<close>

definition no_doubles :: "unit double_ops" where
  "no_doubles = \<lparr> d_isnan = (\<lambda>_. False), d_less = (\<lambda>_ _. False), d_le = (\<lambda>_ _. False),
     d_add = (\<lambda>_ _. ()), d_sub = (\<lambda>_ _. ()), d_mul = (\<lambda>_ _. ()), d_div = (\<lambda>_ _. ()), d_neg = (\<lambda>_. ()),
     d_lit = (\<lambda>_ _. ()), d_of_int = (\<lambda>_. ()), d_to_int = (\<lambda>_. 0), d_of_ulong = (\<lambda>_. ()),
     d_to_ulong = (\<lambda>_. 0), d_max = (), d_bits = (\<lambda>_. 0), d_of_bits = (\<lambda>_. ()) \<rparr>"

end
