(* ===== verification/Printf_Props.thy ===== *)
theory Printf_Props
  imports Printf_Correct
begin

text \<open>
  What the formatted output promises: truncation and termination of \<open>snprintf\<close>, the
  conventional layout of integers, reading a printed number back with the parser of the same
  file, and two inputs on which the code leaves its arrays.
\<close>

section \<open>Writing into a buffer\<close>

definition fill :: "nat \<Rightarrow> nat \<Rightarrow> string \<Rightarrow> string \<Rightarrow> string" where
  "fill k m t mem = take k mem @ take (m - k) t @ drop (k + min (length t) (m - k)) mem"

lemma fill_Nil [simp]: "fill k m [] mem = mem"
  by (simp add: fill_def)

lemma fill_Cons_in:
  assumes "k < m" and "m \<le> length mem"
  shows "fill (Suc k) m t (mem[k := c]) = fill k m (c # t) mem"
proof -
  have "take (Suc k) (mem[k := c]) = take k mem @ [c]"
    using assms by (simp add: take_Suc_conv_app_nth)
  moreover have "m - k = Suc (m - Suc k)"
    using assms by simp
  ultimately show ?thesis
    by (simp add: fill_def)
qed

lemma fill_Cons_out: "\<not> k < m \<Longrightarrow> fill (Suc k) m t mem = fill k m (c # t) mem"
  by (simp add: fill_def)

lemma put_string_buffer:
  assumes "k + length t < 2 ^ 32" and "unat m \<le> length mem"
  shows "put_string out_buffer m t (mem, of_nat k) = Some (fill k (unat m) t mem, of_nat (k + length t))"
  using assms
proof (induction t arbitrary: k mem)
  case (Cons c t)
  have k: "unat (of_nat k :: u32) = k"
    using Cons.prems by (simp add: unat_of_nat)
  have s: "(of_nat k :: u32) + 1 = of_nat (Suc k)"
    by simp
  have l: "Suc k + length t = k + length (c # t)" "Suc k + length t < 2 ^ 32"
    using Cons.prems by simp_all
  show ?case
  proof (cases "k < unat m")
    case True
    then have "putc out_buffer m c (mem, of_nat k) = Some (mem[k := c], of_nat (Suc k))"
      using Cons.prems k by (simp add: putc_def out_buffer_def word_less_nat_alt)
    moreover have "put_string out_buffer m t (mem[k := c], of_nat (Suc k)) =
        Some (fill (Suc k) (unat m) t (mem[k := c]), of_nat (Suc k + length t))"
      using Cons.prems l(2) by (intro Cons.IH) simp_all
    ultimately show ?thesis
      using True Cons.prems by (simp only: put_string.simps Option.bind.simps l(1) fill_Cons_in)
  next
    case False
    then have "putc out_buffer m c (mem, of_nat k) = Some (mem, of_nat (Suc k))"
      using Cons.prems k by (simp add: putc_def out_buffer_def word_less_nat_alt)
    moreover have "put_string out_buffer m t (mem, of_nat (Suc k)) =
        Some (fill (Suc k) (unat m) t mem, of_nat (Suc k + length t))"
      using Cons.prems l(2) by (intro Cons.IH) simp_all
    ultimately show ?thesis
      by (simp only: put_string.simps Option.bind.simps l(1) fill_Cons_out [OF False, of t mem c])
  qed
qed simp

text \<open>An output function that records every character it is given.\<close>

definition out_record :: "string out_fct" where
  "out_record character buffer idx maxlen = Some (buffer @ [character])"

lemma put_string_record: "put_string out_record m t (s, i) = Some (s @ t, i + of_nat (length t))"
  by (induction t arbitrary: s i) (simp_all add: putc_def out_record_def algebra_simps)

lemma put_string_null: "put_string out_null m t (b, i) = Some (b, i + of_nat (length t))"
  by (induction t arbitrary: i) (simp_all add: putc_def out_null_def algebra_simps)

lemma recorded_text:
  "vsnprintf_out F out_record False [] m fmt va =
     map_option (\<lambda>t. (of_nat (length t), t @ [NUL])) (format_text F fmt va)"
  by (simp add: vsnprintf_out_text put_string_record out_record_def split: option.splits)

definition snprintf_result :: "string \<Rightarrow> u32 \<Rightarrow> string \<Rightarrow> string" where
  "snprintf_result t count mem =
     (if count = 0 then mem
      else take (unat count - 1) t @ [NUL] @ drop (Suc (min (length t) (unat count - 1))) mem)"

lemma terminated:
  assumes "0 < unat count" and "unat count \<le> length mem"
  shows "(fill 0 (unat count) t mem)[min (length t) (unat count - 1) := NUL] = snprintf_result t count mem"
proof -
  obtain n where n: "unat count = Suc n"
    using assms(1) by (cases "unat count") auto
  have z: "count \<noteq> 0"
    using assms(1) by auto
  show ?thesis
  proof (cases "length t \<le> n")
    case True
    have "drop (length t) mem = mem ! length t # drop (Suc (length t)) mem"
      using True n assms(2) by (intro Cons_nth_drop_Suc [symmetric]) simp
    then show ?thesis
      using True n z by (simp add: fill_def snprintf_result_def min_def)
  next
    case False
    then have "take (Suc n) t = take n t @ [t ! n]"
      by (simp add: take_Suc_conv_app_nth)
    then show ?thesis
      using False n z by (auto simp: fill_def snprintf_result_def min_def list_update_append le_Suc_eq)
  qed
qed

lemma snprintf_text:
  assumes "format_text F fmt va = Some t" and "length t < 2 ^ 32" and "unat count \<le> length mem"
  shows "snprintf F (Some mem) count fmt va = Some (of_nat (length t), Some (snprintf_result t count mem))"
proof -
  have p: "put_string out_buffer count t (mem, 0) = Some (fill 0 (unat count) t mem, of_nat (length t))"
    using put_string_buffer [of 0 t count mem] assms by simp
  have u: "unat (of_nat (length t) :: u32) = length t"
    using assms(2) by (simp add: unat_of_nat)
  let ?i = "if of_nat (length t) < count then of_nat (length t) else count - 1"
  have "out_buffer NUL (fill 0 (unat count) t mem) ?i count = Some (snprintf_result t count mem)"
  proof (cases "count = 0")
    case True
    then show ?thesis
      by (simp add: out_buffer_def snprintf_result_def fill_def)
  next
    case False
    then have c: "0 < unat count"
      by (simp add: unat_gt_0)
    have i: "unat ?i = min (length t) (unat count - 1)"
      using c u False by (auto simp: word_less_nat_alt unat_minus_one min_def)
    have "?i < count"
      using c i by (simp add: word_less_nat_alt)
    then have "out_buffer NUL (fill 0 (unat count) t mem) ?i count =
        Some ((fill 0 (unat count) t mem)[min (length t) (unat count - 1) := NUL])"
      using assms(3) c by (auto simp: out_buffer_def fill_def c_write_def i)
    also have "(fill 0 (unat count) t mem)[min (length t) (unat count - 1) := NUL] =
        snprintf_result t count mem"
      using assms(3) c False by (intro terminated) (simp_all add: unat_gt_0)
    finally show ?thesis .
  qed
  then show ?thesis
    by (simp add: snprintf_def vsnprintf_def vsnprintf_out_text assms(1) p)
qed


section \<open>Integers against a reference\<close>

definition ref_digit :: "bool \<Rightarrow> nat \<Rightarrow> char" where
  "ref_digit upper d = (if d < 10 then char_of (48 + d) else char_of ((if upper then 55 else 87) + d))"

text \<open>The digits of a number, the most significant first.\<close>

fun ref_digits :: "bool \<Rightarrow> nat \<Rightarrow> nat \<Rightarrow> string" where
  "ref_digits upper base n =
     (if base < 2 \<or> n < base then [ref_digit upper n]
      else ref_digits upper base (n div base) @ [ref_digit upper (n mod base)])"

declare ref_digits.simps [simp del]

lemma ref_digits_length_le:
  "2 \<le> base \<Longrightarrow> n < base ^ k \<Longrightarrow> 0 < k \<Longrightarrow> length (ref_digits upper base n) \<le> k"
proof (induction upper base n arbitrary: k rule: ref_digits.induct)
  case (1 upper base n)
  show ?case
  proof (cases "n < base")
    case True
    then show ?thesis
      using 1 by (simp add: ref_digits.simps [of upper base n])
  next
    case False
    have k: "1 < k"
    proof (rule ccontr)
      assume "\<not> 1 < k"
      then have "k = 1" using 1 by simp
      then show False using False 1 by simp
    qed
    then obtain j where j: "k = Suc j" "0 < j"
      by (cases k) auto
    have "n div base < base ^ j"
      using 1 j by (simp add: less_mult_imp_div_less mult.commute)
    then show ?thesis
      using 1 j False by (simp add: ref_digits.simps [of upper base n])
  qed
qed

lemma ref_digits_nonempty: "ref_digits upper base n \<noteq> []"
  by (simp add: ref_digits.simps [of upper base n])

lemma digit_char_ref:
  "unat v < 256 \<Longrightarrow> digit_char v flags = ref_digit (bit flags 5) (unat v)"
  by (auto simp: digit_char_def ref_digit_def has_bits)

lemma digit_loop_ref:
  fixes v base :: "'a::len word"
  assumes "2 \<le> unat base" and "unat base \<le> 256"
    and "length buf + length (ref_digits (bit flags 5) (unat base) (unat v)) \<le> 32"
  shows "digit_loop v base flags buf = buf @ rev (ref_digits (bit flags 5) (unat base) (unat v))"
  using assms
proof (induction v base flags buf rule: digit_loop.induct)
  case (1 v base flags buf)
  let ?d = "ref_digit (bit flags 5) (unat v mod unat base)"
  have m: "unat (v mod base) = unat v mod unat base" and q: "unat (v div base) = unat v div unat base"
    by (simp_all add: unat_mod_distrib unat_div_distrib)
  have lt: "unat v mod unat base < 256"
    using 1(2,3) mod_less_divisor [of "unat base" "unat v"] by linarith
  have d: "digit_char (v mod base) flags = ?d"
    using digit_char_ref [of "v mod base" flags] lt by (simp add: m)
  have z: "v div base = 0 \<longleftrightarrow> unat v < unat base"
    using 1(2) q by (simp add: unat_eq_zero [symmetric] div_eq_0_iff del: unat_eq_zero)
  show ?case
  proof (cases "unat v < unat base")
    case True
    then show ?thesis
      using z d 1(2) by (simp add: digit_loop.simps [of v base] ref_digits.simps [of _ _ "unat v"])
  next
    case False
    have r: "ref_digits (bit flags 5) (unat base) (unat v) =
        ref_digits (bit flags 5) (unat base) (unat v div unat base) @ [?d]"
      using False 1(2) by (simp add: ref_digits.simps [of _ _ "unat v"])
    have l: "length (buf @ [?d]) + length (ref_digits (bit flags 5) (unat base) (unat (v div base))) \<le> 32"
      using 1(4) r q by simp
    have "0 < length (ref_digits (bit flags 5) (unat base) (unat (v div base)))"
      using ref_digits_nonempty by simp
    then have l': "length (buf @ [?d]) < 32"
      using l by linarith
    have "digit_loop v base flags buf = digit_loop (v div base) base flags (buf @ [?d])"
      using z False l' d by (simp add: digit_loop.simps [of v base] PICO_PRINTF_NTOA_BUFFER_SIZE_def)
    also have "\<dots> = (buf @ [?d]) @ rev (ref_digits (bit flags 5) (unat base) (unat (v div base)))"
      using 1(1) [of "buf @ [?d]" "v div base"] 1(2,3) l l' z False d
      by (simp add: PICO_PRINTF_NTOA_BUFFER_SIZE_def)
    finally show ?thesis
      by (simp add: r q)
  qed
qed

lemma pad_zeros_ref:
  assumes "length buf < 2 ^ 32" and "unat n \<le> sz"
  shows "pad_zeros sz n buf = buf @ replicate (unat n - length buf) (CHR ''0'')"
  using assms
proof (induction sz n buf rule: pad_zeros.induct)
  case (1 sz n buf)
  have u: "of_nat (length buf) < n \<longleftrightarrow> length buf < unat n"
    using 1(2) by (simp add: word_less_nat_alt unat_of_nat)
  show ?case
  proof (cases "length buf < unat n")
    case True
    then have s: "length buf < sz" and l: "length (buf @ ''0'') < 2 ^ 32"
      using 1(3) unsigned_less [of n, where ?'a = nat] by simp_all
    have "pad_zeros sz n buf = pad_zeros sz n (buf @ ''0'')"
      using True u s by (simp add: pad_zeros.simps [of sz n buf])
    also have "\<dots> = buf @ CHR ''0'' # replicate (unat n - Suc (length buf)) (CHR ''0'')"
      using 1(1) True u s l 1(3) by simp
    also have "\<dots> = buf @ replicate (unat n - length buf) (CHR ''0'')"
      using True by (simp flip: replicate_Suc add: Suc_diff_Suc)
    finally show ?thesis .
  qed (use u in \<open>simp add: pad_zeros.simps [of sz n buf]\<close>)
qed

text \<open>
  The conventional layout: the sign, the digits, and the rest of the width filled by spaces
  on the right (flag \<open>-\<close>), by zeros behind the sign (flag \<open>0\<close>) or by spaces on the left.
\<close>

definition ref_sign :: "bool \<Rightarrow> u32 \<Rightarrow> string" where
  "ref_sign negative flags =
     (if negative then ''-'' else if has flags FLAGS_PLUS then ''+''
      else if has flags FLAGS_SPACE then '' '' else [])"

definition ref_layout :: "string \<Rightarrow> string \<Rightarrow> u32 \<Rightarrow> u32 \<Rightarrow> string" where
  "ref_layout sign digits width flags =
     (let n = unat width - (length sign + length digits) in
      if has flags FLAGS_LEFT then sign @ digits @ replicate n (CHR '' '')
      else if has flags FLAGS_ZEROPAD then sign @ replicate n (CHR ''0'') @ digits
      else replicate n (CHR '' '') @ sign @ digits)"

lemma put_sign_ref:
  "length buf + length (ref_sign negative flags) \<le> sz \<Longrightarrow>
    put_sign sz buf negative flags = buf @ rev (ref_sign negative flags)"
  by (auto simp: put_sign_def ref_sign_def split: if_splits)

lemma pad_ulen: "length buf < 2 ^ 32 \<Longrightarrow> pad (ulen buf) width = replicate (unat width - length buf) (CHR '' '')"
  by (simp add: pad_def unat_of_nat)

lemma ntoa_lead_ref:
  assumes "length buf \<le> 32" and "unat width \<le> 32" and "\<not> has flags FLAGS_LEFT" and "has flags FLAGS_ZEROPAD"
  shows "fst (ntoa_lead buf negative 0 width flags) =
    buf @ replicate (unat width - (length (ref_sign negative flags) + length buf)) (CHR ''0'')"
proof -
  let ?s = "length (ref_sign negative flags)"
  let ?w = "if width \<noteq> 0 \<and> (negative \<or> has flags (FLAGS_PLUS OR FLAGS_SPACE)) then width - 1 else width"
  have w: "unat ?w = unat width - ?s"
    by (auto simp: ref_sign_def has_or unat_minus_one)
  have "pad_zeros 32 0 buf = buf"
    using assms(1) pad_zeros_ref [of buf 0 32] by simp
  moreover have "pad_zeros 32 ?w buf = buf @ replicate (unat ?w - length buf) (CHR ''0'')"
    using assms(1,2) by (intro pad_zeros_ref) (simp_all only: w, simp_all)
  ultimately have "fst (ntoa_lead buf negative 0 width flags) =
      buf @ replicate (unat ?w - length buf) (CHR ''0'')"
    using assms(3,4) by (simp add: ntoa_lead_def PICO_PRINTF_NTOA_BUFFER_SIZE_def Let_def)
  then show ?thesis
    by (simp only: w diff_diff_left)
qed

lemma ntoa_lead_plain:
  assumes "length buf \<le> 32" and "has flags FLAGS_LEFT \<or> \<not> has flags FLAGS_ZEROPAD"
  shows "ntoa_lead buf negative 0 width flags = (buf, width)"
proof -
  have "pad_zeros 32 0 buf = buf"
    using assms(1) pad_zeros_ref [of buf 0 32] by simp
  then show ?thesis
    using assms(2) by (auto simp: ntoa_lead_def PICO_PRINTF_NTOA_BUFFER_SIZE_def Let_def)
qed

lemma format_int_ref:
  assumes "\<not> has flags FLAGS_HASH" and "has flags FLAGS_ZEROPAD \<and> \<not> has flags FLAGS_LEFT \<longrightarrow> unat width \<le> 32"
    and "length ds + length (ref_sign negative flags) \<le> 32"
  shows "format_int (rev ds) negative base 0 width flags = ref_layout (ref_sign negative flags) ds width flags"
proof -
  let ?s = "ref_sign negative flags"
  have h: "ntoa_hash b base p w flags = b" for b p w
    using assms(1) by (simp add: ntoa_hash_def)
  have l: "length (rev ds) \<le> 32"
    using assms(3) by simp
  show ?thesis
  proof (cases "has flags FLAGS_LEFT \<or> \<not> has flags FLAGS_ZEROPAD")
    case True
    have p: "put_sign 32 (rev ds) negative flags = rev (?s @ ds)"
      using assms(3) by (simp add: put_sign_ref)
    have "length (rev (?s @ ds)) < 2 ^ 32"
      using assms(3) by simp
    note q = pad_ulen [OF this, of width]
    show ?thesis
      unfolding format_int_def ntoa_lead_plain [OF l True] h Let_def prod.case
        PICO_PRINTF_NTOA_BUFFER_SIZE_def p rev_text_def ref_layout_def q
      using True by (auto simp: add.commute)
  next
    case False
    define z where "z = replicate (unat width - (length ?s + length ds)) (CHR ''0'')"
    obtain w where w: "ntoa_lead (rev ds) negative 0 width flags = (rev ds @ z, w)"
      using ntoa_lead_ref [OF l, of width flags negative] assms(2) False
      by (cases "ntoa_lead (rev ds) negative 0 width flags") (simp add: z_def)
    have "length (rev ds @ z) + length ?s \<le> 32"
      using assms(2,3) False by (simp add: z_def)
    then have p: "put_sign 32 (rev ds @ z) negative flags = (rev ds @ z) @ rev ?s"
      by (rule put_sign_ref)
    show ?thesis
      unfolding format_int_def w h Let_def prod.case PICO_PRINTF_NTOA_BUFFER_SIZE_def p rev_text_def
        ref_layout_def
      using False by (simp add: z_def)
  qed
qed

lemma magnitude_eq: "magnitude (v :: 'a::len word) = word_of_int \<bar>sint v\<bar>"
  by (auto simp: magnitude_def word_sless_alt abs_if signed_eq_0_iff)

lemma unat_magnitude: "unat (magnitude (v :: u32)) = nat \<bar>sint v\<bar>"
proof -
  have "- (2 ^ 31) \<le> sint v" "sint v < 2 ^ 31"
    using sint_greater_eq [of v] sint_less [of v] by simp_all
  then have "\<bar>sint v\<bar> < 2 ^ 32"
    by simp
  then show ?thesis
    unfolding magnitude_eq by (simp add: unsigned_of_int take_bit_int_eq_self)
qed

lemma int_text_ref:
  fixes v base :: u32
  assumes "2 \<le> unat base" and "unat base \<le> 16"
    and "\<not> has flags FLAGS_PRECISION" and "\<not> has flags FLAGS_HASH"
    and "has flags FLAGS_ZEROPAD \<and> \<not> has flags FLAGS_LEFT \<longrightarrow> unat width \<le> 32"
    and "length (ref_digits (bit flags 5) (unat base) (unat v)) + length (ref_sign negative flags) \<le> 32"
  shows "int_text v negative base 0 width flags =
    ref_layout (ref_sign negative flags) (ref_digits (bit flags 5) (unat base) (unat v)) width flags"
proof -
  have f: "flags AND NOT FLAGS_HASH = flags"
    using assms(4) by (intro bit_eqI) (auto simp: bit_and_iff bit_not_iff bit_flags has_bits)
  have "digit_loop v base flags [] = rev (ref_digits (bit flags 5) (unat base) (unat v))"
    using digit_loop_ref [of base "[]" flags v] assms by simp
  then have "int_text v negative base 0 width flags =
      format_int (rev (ref_digits (bit flags 5) (unat base) (unat v))) negative base 0 width flags"
    using assms(3) by (auto simp: int_text_def f)
  then show ?thesis
    using assms by (simp add: format_int_ref)
qed

text \<open>
  The number the code prints in an integer conversion, and the sign characters it may use. For
  \<open>%hhd\<close> and \<open>%hhi\<close> this is not the conventional number: the code converts through \<open>char\<close>,
  which has no sign on ARM. The reference is \<open>conventional_value\<close> below.
\<close>

definition printed_value :: "char \<Rightarrow> u32 \<Rightarrow> u32 \<Rightarrow> int" where
  "printed_value c flags x =
     (if c = CHR ''d'' \<or> c = CHR ''i'' then
        (if has flags FLAGS_LONG then sint x
         else if has flags FLAGS_CHAR then uint (ucast x :: u8)
         else if has flags FLAGS_SHORT then sint (ucast x :: u16) else sint x)
      else
        (if has flags FLAGS_LONG then uint x
         else if has flags FLAGS_CHAR then uint (ucast x :: u8)
         else if has flags FLAGS_SHORT then uint (ucast x :: u16) else uint x))"

definition printed_sign :: "char \<Rightarrow> u32 \<Rightarrow> u32 \<Rightarrow> string" where
  "printed_sign c flags x =
     (if c = CHR ''d'' \<or> c = CHR ''i'' then ref_sign (printed_value c flags x < 0) flags else [])"

definition printed_base :: "char \<Rightarrow> nat" where
  "printed_base c = (if c = CHR ''x'' \<or> c = CHR ''X'' then 16 else if c = CHR ''o'' then 8
     else if c = CHR ''b'' then 2 else 10)"

lemma int_flags_bits:
  assumes "\<not> has flags FLAGS_PRECISION"
  shows "bit (int_flags c flags) 0 \<longleftrightarrow> bit flags 0" "bit (int_flags c flags) 1 \<longleftrightarrow> bit flags 1"
    "bit (int_flags c flags) 6 \<longleftrightarrow> bit flags 6" "bit (int_flags c flags) 7 \<longleftrightarrow> bit flags 7"
    "bit (int_flags c flags) 8 \<longleftrightarrow> bit flags 8" "bit (int_flags c flags) 9 \<longleftrightarrow> bit flags 9"
    "bit (int_flags c flags) 10 \<longleftrightarrow> bit flags 10"
    "bit (int_flags c flags) 5 \<longleftrightarrow> c = CHR ''X'' \<or> bit flags 5"
    "bit (int_flags c flags) 4 \<longrightarrow> bit flags 4"
    "bit (int_flags c flags) 2 \<longleftrightarrow> (c = CHR ''d'' \<or> c = CHR ''i'') \<and> bit flags 2"
    "bit (int_flags c flags) 3 \<longleftrightarrow> (c = CHR ''d'' \<or> c = CHR ''i'') \<and> bit flags 3"
  using assms
  by (auto simp: int_flags_def Let_def has_bits bit_and_iff bit_or_iff bit_not_iff bit_flags)

lemma printed_length:
  "length (ref_digits u (printed_base c) (unat (x :: u32))) + length (ref_sign b f) \<le> 32"
  if "c = CHR ''d'' \<or> c = CHR ''i'' \<or> ref_sign b f = []"
proof -
  have x: "unat x < 2 ^ 32"
    using unsigned_less [of x, where ?'a = nat] by simp
  have s: "length (ref_sign b f) \<le> 1"
    by (simp add: ref_sign_def)
  show ?thesis
  proof (cases "c = CHR ''d'' \<or> c = CHR ''i''")
    case True
    have "unat x < 10 ^ 10"
      using x by simp
    then have "length (ref_digits u 10 (unat x)) \<le> 10"
      by (intro ref_digits_length_le) simp_all
    moreover have "printed_base c = 10"
      using True by (auto simp: printed_base_def)
    ultimately show ?thesis
      using s by simp
  next
    case False
    have b: "2 \<le> printed_base c"
      by (simp add: printed_base_def)
    have "unat x < printed_base c ^ 32"
      using x power_mono [OF b, of 32] by linarith
    then have "length (ref_digits u (printed_base c) (unat x)) \<le> 32"
      using b by (intro ref_digits_length_le) simp_all
    with False that show ?thesis
      by simp
  qed
qed

lemma int_base_unat: "unat (int_base c) = printed_base c" "int_base c = of_nat (printed_base c)"
  by (simp_all add: int_base_def printed_base_def)

lemma int_arg_forms:
  "sint (ucast (w :: u8) :: u32) = uint w" "sint (scast (h :: u16) :: u32) = sint h"
  "uint (ucast w :: u32) = uint w" "uint (ucast h :: u32) = uint h"
proof -
  have "0 \<le> uint w"
    by (rule unsigned_greater_eq)
  then have w0: "- 2147483648 \<le> uint w"
    by linarith
  have w: "uint w < 2 ^ 8" "- (2 ^ 31) \<le> uint w"
    using unsigned_less [of w, where ?'a = int] w0 by simp_all
  have h: "- (2 ^ 15) \<le> sint h" "sint h < 2 ^ 15"
    using sint_greater_eq [of h] sint_less [of h] by simp_all
  have h': "uint h < 2 ^ 16"
    using unsigned_less [of h, where ?'a = int] by simp
  show "sint (ucast w :: u32) = uint w"
    unfolding signed_ucast_eq by (rule signed_take_bit_int_eq_self) (use w in simp_all)
  show "sint (scast h :: u32) = sint h"
    unfolding signed_scast_eq by (rule signed_take_bit_int_eq_self) (use h in simp_all)
  show "uint (ucast w :: u32) = uint w"
    unfolding unsigned_ucast_eq by (rule take_bit_int_eq_self) (use w in simp_all)
  show "uint (ucast h :: u32) = uint h"
    unfolding unsigned_ucast_eq by (rule take_bit_int_eq_self) (use h' in simp_all)
qed

lemma signed_int_arg:
  "\<not> has flags FLAGS_PRECISION \<Longrightarrow> c = CHR ''d'' \<or> c = CHR ''i'' \<Longrightarrow>
    sint (if has (int_flags c flags) FLAGS_LONG then x else int_arg (int_flags c flags) x) =
      printed_value c flags x"
  by (simp only: printed_value_def int_arg_def has_bits int_flags_bits int_arg_forms if_distrib [of sint]
      if_True simp_thms split: if_split)

lemma unsigned_int_arg:
  "\<not> has flags FLAGS_PRECISION \<Longrightarrow> c \<noteq> CHR ''d'' \<and> c \<noteq> CHR ''i'' \<Longrightarrow>
    uint (if has (int_flags c flags) FLAGS_LONG then x else uint_arg (int_flags c flags) x) =
      printed_value c flags x"
  by (simp only: printed_value_def uint_arg_def has_bits int_flags_bits int_arg_forms if_distrib [of uint]
      if_False simp_thms split: if_split)

text \<open>The text of an integer conversion without precision and prefix.\<close>

definition printed_text :: "char \<Rightarrow> u32 \<Rightarrow> u32 \<Rightarrow> u32 \<Rightarrow> string" where
  "printed_text c flags width x =
     ref_layout (printed_sign c flags x)
       (ref_digits (c = CHR ''X'' \<or> has flags FLAGS_UPPERCASE) (printed_base c) (nat \<bar>printed_value c flags x\<bar>))
       width flags"

lemma ref_layout_flags:
  "has f FLAGS_LEFT = has g FLAGS_LEFT \<Longrightarrow> has f FLAGS_ZEROPAD = has g FLAGS_ZEROPAD \<Longrightarrow>
    ref_layout s d w f = ref_layout s d w g"
  by (simp add: ref_layout_def Let_def)

lemma printed_base_bounds: "2 \<le> printed_base c" "printed_base c \<le> 16"
  by (simp_all add: printed_base_def)

lemma text_int_ref:
  assumes "\<not> has flags FLAGS_PRECISION" and "\<not> has flags FLAGS_HASH"
    and "\<not> has flags FLAGS_LONG_LONG" and "has flags FLAGS_ZEROPAD \<and> \<not> has flags FLAGS_LEFT \<longrightarrow> unat width \<le> 32"
  shows "text_int c flags width 0 (VInt x # va) = Some (printed_text c flags width x, va)"
proof -
  let ?f = "int_flags c flags"
  note b = int_flags_bits [OF assms(1), of c]
  have w: "has ?f FLAGS_ZEROPAD \<and> \<not> has ?f FLAGS_LEFT \<longrightarrow> unat width \<le> 32"
    using assms(4) by (simp only: has_bits b)
  have f: "\<not> has ?f FLAGS_PRECISION" "\<not> has ?f FLAGS_HASH" "\<not> has ?f FLAGS_LONG_LONG"
    using assms b by (auto simp: has_bits)
  have lay: "ref_layout s d width ?f = ref_layout s d width flags" for s d
    by (rule ref_layout_flags) (simp_all only: has_bits b)
  have up: "bit ?f 5 \<longleftrightarrow> c = CHR ''X'' \<or> has flags FLAGS_UPPERCASE"
    by (simp add: has_bits b)
  have ref: "int_text v neg (int_base c) 0 width ?f =
      ref_layout (ref_sign neg ?f) (ref_digits (bit ?f 5) (printed_base c) (unat v)) width ?f"
    if "c = CHR ''d'' \<or> c = CHR ''i'' \<or> ref_sign neg ?f = []" for v neg
    using printed_length [OF that] f w printed_base_bounds [of c]
    by (subst int_text_ref) (simp_all add: int_base_unat(1))
  show ?thesis
  proof (cases "c = CHR ''d'' \<or> c = CHR ''i''")
    case True
    let ?v = "if has ?f FLAGS_LONG then x else int_arg ?f x"
    have v: "sint ?v = printed_value c flags x"
      by (rule signed_int_arg [OF assms(1) True])
    have s: "ref_sign neg ?f = ref_sign neg flags" for neg
      using True by (auto simp: ref_sign_def has_bits b)
    have m: "unat (magnitude ?v) = nat \<bar>printed_value c flags x\<bar>"
      unfolding unat_magnitude v ..
    have n: "?v <s 0 \<longleftrightarrow> printed_value c flags x < 0"
      by (simp only: word_sless_alt v) simp
    have "text_int c flags width 0 (VInt x # va) =
        Some (int_text (magnitude ?v) (?v <s 0) (int_base c) 0 width ?f, va)"
      using f True by (auto simp: text_int_def va_int_def Let_def)
    also have "int_text (magnitude ?v) (?v <s 0) (int_base c) 0 width ?f = printed_text c flags width x"
      unfolding printed_text_def printed_sign_def if_P [OF True] n [symmetric] m [symmetric] up [symmetric]
        s [symmetric] lay [symmetric]
      by (rule ref) (use True in blast)
    finally show ?thesis .
  next
    case False
    let ?v = "if has ?f FLAGS_LONG then x else uint_arg ?f x"
    have v: "uint ?v = printed_value c flags x"
      using False by (intro unsigned_int_arg [OF assms(1)]) simp
    have pos: "0 \<le> printed_value c flags x"
      unfolding v [symmetric] by (rule unsigned_greater_eq)
    have s: "ref_sign False ?f = []"
      using False by (simp add: ref_sign_def has_bits b)
    have m: "unat ?v = nat \<bar>printed_value c flags x\<bar>"
      using pos by (simp only: unat_eq_nat_uint v abs_of_nonneg)
    have "text_int c flags width 0 (VInt x # va) = Some (int_text ?v False (int_base c) 0 width ?f, va)"
      using f False by (auto simp: text_int_def va_int_def Let_def)
    also have "int_text ?v False (int_base c) 0 width ?f = printed_text c flags width x"
      unfolding printed_text_def printed_sign_def if_not_P [OF False] m [symmetric] up [symmetric]
        s [symmetric] lay [symmetric]
      by (rule ref) (use s in blast)
    finally show ?thesis .
  qed
qed

section \<open>Reading the digits back\<close>

lemma of_char_ref_digit: "d < 10 \<Longrightarrow> (of_char (ref_digit u d) :: nat) = 48 + d"
  by (simp add: ref_digit_def of_char_of)

lemma atoi_loop_digit:
  "d < 10 \<Longrightarrow> atoi_loop i (ref_digit u d # s) = atoi_loop (i * 10 + of_nat d) s"
  by (simp add: is_digit_def of_char_ref_digit)

lemma atoi_loop_digits:
  "atoi_loop i (ref_digits u 10 n @ s) = atoi_loop (i * 10 ^ length (ref_digits u 10 n) + of_nat n) s"
proof (induction u "10 :: nat" n arbitrary: i s rule: ref_digits.induct)
  case (1 u n)
  show ?case
  proof (cases "n < 10")
    case True
    then show ?thesis
      by (simp add: ref_digits.simps [of u 10 n] atoi_loop_digit del: atoi_loop.simps)
  next
    case False
    then have e: "ref_digits u 10 n = ref_digits u 10 (n div 10) @ [ref_digit u (n mod 10)]"
      by (simp add: ref_digits.simps [of u 10 n])
    let ?l = "length (ref_digits u 10 (n div 10))"
    have n: "(of_nat n :: u32) = of_nat (n div 10) * 10 + of_nat (n mod 10)"
      by (metis div_mult_mod_eq of_nat_add of_nat_mult of_nat_numeral)
    have "atoi_loop i (ref_digits u 10 n @ s) =
        atoi_loop ((i * 10 ^ ?l + of_nat (n div 10)) * 10 + of_nat (n mod 10)) s"
      unfolding e append_assoc using 1 False by (simp only: append_Cons append_Nil) (simp add: atoi_loop_digit del: atoi_loop.simps)
    then show ?thesis
      unfolding e n by (simp add: algebra_simps)
  qed
qed

lemma atoi_digits: "\<not> is_digit (deref s) \<Longrightarrow> atoi (ref_digits u 10 n @ s) = (of_nat n, s)"
  unfolding atoi_def atoi_loop_digits by (cases s) (simp_all add: deref_def)

lemma read_single:
  assumes "flag_of c = 0" and "\<not> is_digit c" and "c \<notin> set ''*.lhtjz''"
  shows "read_spec (c # s) va = Some (0, 0, 0, c, s, va)"
  using assms
  by (simp add: read_spec_def parse_width_def parse_precision_def parse_length_def deref_def advance_def)

definition parse_back :: "string \<Rightarrow> u32" where
  "parse_back s = (if deref s = CHR ''-'' then - fst (atoi (tl s)) else fst (atoi s))"

lemma printed_text_decimal:
  "c = CHR ''d'' \<or> c = CHR ''u'' \<Longrightarrow>
    printed_text c 0 0 x = (if c = CHR ''d'' \<and> sint x < 0 then ''-'' else [])
      @ ref_digits False 10 (nat \<bar>if c = CHR ''d'' then sint x else uint x\<bar>)"
  by (auto simp: printed_text_def ref_layout_def printed_sign_def ref_sign_def printed_value_def
      printed_base_def has_def Let_def)

lemma deref_digits: "deref (ref_digits u 10 n @ s) \<noteq> CHR ''-''"
proof -
  have "hd (ref_digits u 10 n) \<noteq> CHR ''-''"
  proof (induction u "10 :: nat" n rule: ref_digits.induct)
    case (1 u n)
    have "ref_digit u d \<noteq> CHR ''-''" if "d < 10" for d
      using of_char_ref_digit [OF that, of u] by auto
    then show ?case
      using 1 ref_digits_nonempty by (cases "n < 10") (simp_all add: ref_digits.simps [of u 10 n])
  qed
  then show ?thesis
    using ref_digits_nonempty [of u 10 n] by (cases "ref_digits u 10 n") (simp_all add: deref_def)
qed

lemma parse_back_printed:
  assumes "c = CHR ''d'' \<or> c = CHR ''u''"
  shows "parse_back (printed_text c 0 0 x @ NUL # rest) = x"
proof -
  have n: "\<not> is_digit (deref (NUL # rest))"
    by (simp add: is_digit_def deref_def)
  note a = atoi_digits [OF n]
  show ?thesis
  proof (cases "c = CHR ''d'' \<and> sint x < 0")
    case True
    have "(of_nat (nat \<bar>sint x\<bar>) :: u32) = - x"
      using True by simp
    then show ?thesis
      using True by (simp add: printed_text_decimal parse_back_def deref_def a)
  next
    case False
    then show ?thesis
      using assms deref_digits [of False _ "NUL # rest"]
      by (auto simp: printed_text_decimal parse_back_def a)
  qed
qed

section \<open>Properties\<close>

lemma recorded_textD:
  "vsnprintf_out F out_record False [] m fmt va = Some (n, t @ [NUL]) \<Longrightarrow>
    format_text F fmt va = Some t \<and> n = of_nat (length t)"
  by (auto simp: recorded_text)

text \<open>
  C6. Whatever the format and its arguments: if they produce the text t (observed with an
  output function that records everything), then \<open>snprintf\<close> into memory of at least \<open>count\<close>
  bytes never writes outside the first \<open>count\<close> bytes, stores the first \<open>count - 1\<close>
  characters of t and a terminator, leaves the memory behind it alone, and returns the
  length of all of t; with \<open>count = 0\<close> nothing is written, and a \<open>NULL\<close> buffer gives the
  same length.
\<close>
theorem snprintf_truncates:
  assumes "vsnprintf_out F out_record False [] maxlen fmt va = Some (n, t @ [NUL])"
    and "length t < 2 ^ 32" and "unat count \<le> length mem"
  shows "snprintf F (Some mem) count fmt va =
      Some (n, Some (if count = 0 then mem
        else take (unat count - 1) t @ [NUL] @ drop (Suc (min (length t) (unat count - 1))) mem)) \<and>
    snprintf F None count fmt va = Some (n, None)"
proof -
  have t: "format_text F fmt va = Some t" "n = of_nat (length t)"
    using recorded_textD [OF assms(1)] by auto
  have "snprintf F None count fmt va = Some (n, None)"
    using t by (simp add: snprintf_def vsnprintf_def vsnprintf_out_text put_string_null out_null_def)
  with snprintf_text [OF t(1) assms(2,3)] t(2) show ?thesis
    by (simp add: snprintf_result_def)
qed

theorem snprintf_truncates_witness:
  "snprintf no_doubles (Some ''????????'') 5 ''ab%5d'' [VInt (- 42)] =
    Some (7, Some (''ab  '' @ [NUL] @ ''???''))"
proof -
  have "vsnprintf_out no_doubles out_record False [] 0 ''ab%5d'' [VInt (- 42)] =
      Some (7, ''ab  -42'' @ [NUL])"
    by code_simp
  from snprintf_truncates [OF this, of 5 "''????????''"] show ?thesis
    by simp
qed

subsection \<open>The conventional text of an integer conversion\<close>

text \<open>
  What a conversion is documented to print: the argument as a number of the type that
  \<open>l\<close>, \<open>h\<close> or \<open>hh\<close> names, signed for \<open>d\<close> and \<open>i\<close> and unsigned for the others.
\<close>

definition conventional_value :: "char \<Rightarrow> u32 \<Rightarrow> u32 \<Rightarrow> int" where
  "conventional_value c flags x =
     (if c = CHR ''d'' \<or> c = CHR ''i'' then
        (if has flags FLAGS_LONG then sint x
         else if has flags FLAGS_CHAR then sint (ucast x :: u8)
         else if has flags FLAGS_SHORT then sint (ucast x :: u16) else sint x)
      else
        (if has flags FLAGS_LONG then uint x
         else if has flags FLAGS_CHAR then uint (ucast x :: u8)
         else if has flags FLAGS_SHORT then uint (ucast x :: u16) else uint x))"

definition conventional_text :: "char \<Rightarrow> u32 \<Rightarrow> u32 \<Rightarrow> u32 \<Rightarrow> string" where
  "conventional_text c flags width x =
     ref_layout
       (if c = CHR ''d'' \<or> c = CHR ''i'' then ref_sign (conventional_value c flags x < 0) flags else [])
       (ref_digits (c = CHR ''X'' \<or> has flags FLAGS_UPPERCASE) (printed_base c)
         (nat \<bar>conventional_value c flags x\<bar>))
       width flags"

text \<open>A conversion to \<open>signed char\<close>, and whether its number is negative.\<close>

definition is_hhd :: "char \<Rightarrow> u32 \<Rightarrow> bool" where
  "is_hhd c flags \<longleftrightarrow> (c = CHR ''d'' \<or> c = CHR ''i'') \<and> has flags FLAGS_CHAR \<and> \<not> has flags FLAGS_LONG"

lemma wrap_char: "s = (u + 128) mod 256 - 128 \<Longrightarrow> 0 \<le> u \<Longrightarrow> u < 256 \<Longrightarrow>
    u = (if s < 0 then s + 256 else s)" for s u :: int
proof (cases "u < 128")
  case False
  assume a: "s = (u + 128) mod 256 - 128" "0 \<le> u" "u < 256"
  have "(u + 128) mod 256 = (u - 128) mod 256"
    using mod_add_self2 [of "u - 128" 256] by (simp add: add.commute)
  also have "\<dots> = u - 128" using a False by (intro mod_pos_pos_trivial) simp_all
  finally show ?thesis using a False by simp
qed (simp add: mod_pos_pos_trivial)

lemma uint_signed_char: "uint (w :: u8) = (if sint w < 0 then sint w + 256 else sint w)"
proof (rule wrap_char)
  show "sint w = (uint w + 128) mod 256 - 128"
    by (simp add: sint_uint signed_take_bit_eq_take_bit_shift take_bit_eq_mod)
qed (use unsigned_less [of w, where ?'a = int] in simp_all)

lemma printed_conventional:
  "printed_value c flags x =
     (if is_hhd c flags \<and> conventional_value c flags x < 0 then conventional_value c flags x + 256
      else conventional_value c flags x)"
  by (simp add: printed_value_def conventional_value_def is_hhd_def uint_signed_char)

lemma conv_int_printed:
  assumes "\<not> has flags FLAGS_PRECISION" and "\<not> has flags FLAGS_HASH"
    and "\<not> has flags FLAGS_LONG_LONG" and "has flags FLAGS_ZEROPAD \<and> \<not> has flags FLAGS_LEFT \<longrightarrow> unat width \<le> 32"
  shows "conv_int out maxlen c flags width 0 (VInt x # va) st =
    map_option (\<lambda>st'. (st', va)) (put_string out maxlen (printed_text c flags width x) st)"
  unfolding conv_int_text text_int_ref [OF assms] puts_conv_simps by (rule map_option_bind_put)

text \<open>A negative number printed by \<open>%hhd\<close> comes out 256 too large, without a sign.\<close>

lemma hhd_negative_wrong:
  assumes "\<not> has flags FLAGS_PRECISION" and "\<not> has flags FLAGS_HASH"
    and "\<not> has flags FLAGS_LONG_LONG" and "has flags FLAGS_ZEROPAD \<and> \<not> has flags FLAGS_LEFT \<longrightarrow> unat width \<le> 32"
    and "is_hhd c flags" and "conventional_value c flags x < 0"
  shows "conv_int out maxlen c flags width 0 (VInt x # va) st =
    map_option (\<lambda>st'. (st', va)) (put_string out maxlen
      (ref_layout (ref_sign False flags)
        (ref_digits (has flags FLAGS_UPPERCASE) 10 (nat (256 + conventional_value c flags x))) width flags) st)"
proof -
  have c: "c = CHR ''d'' \<or> c = CHR ''i''" "c \<noteq> CHR ''X''" "printed_base c = 10"
    using assms(5) by (auto simp: is_hhd_def printed_base_def)
  have p: "printed_value c flags x = 256 + conventional_value c flags x"
    using assms(5,6) by (simp add: printed_conventional)
  moreover have "0 \<le> printed_value c flags x"
    using assms(5) by (auto simp: printed_value_def is_hhd_def)
  ultimately show ?thesis
    unfolding conv_int_printed [OF assms(1-4)] printed_text_def printed_sign_def if_P [OF c(1)] c(3)
    using c(2) by simp
qed

text \<open>
  C25. An integer conversion (\<open>d i u x X o b\<close>, any combination of the flags \<open>- 0 + space\<close>,
  with \<open>l\<close>, \<open>h\<close>, \<open>hh\<close> or none of them) without precision, \<open>#\<close> and \<open>ll\<close>, and with a width of at
  most 32 if it is filled by zeros, puts out exactly the conventional text: sign, digits of
  the magnitude in the base without leading zeros, filled to the width by spaces on the
  left, zeros behind the sign or spaces on the right, also for the most negative number. The
  exception is a negative number by \<open>%hhd\<close> or \<open>%hhi\<close>, see \<open>hhd_negative_wrong\<close>.
\<close>
theorem conv_int_layout:
  assumes "\<not> has flags FLAGS_PRECISION" and "\<not> has flags FLAGS_HASH"
    and "\<not> has flags FLAGS_LONG_LONG"
    and "has flags FLAGS_ZEROPAD \<and> \<not> has flags FLAGS_LEFT \<longrightarrow> unat width \<le> 32"
    and "is_hhd c flags \<longrightarrow> 0 \<le> conventional_value c flags x"
  shows "conv_int out maxlen c flags width 0 (VInt x # va) st =
    map_option (\<lambda>st'. (st', va)) (put_string out maxlen (conventional_text c flags width x) st)"
proof -
  have "printed_value c flags x = conventional_value c flags x"
    using assms(5) by (auto simp: printed_conventional)
  then have "printed_text c flags width x = conventional_text c flags width x"
    by (simp add: printed_text_def conventional_text_def printed_sign_def)
  then show ?thesis
    using conv_int_printed [OF assms(1-4), of out maxlen c x va st] by simp
qed

theorem conv_int_layout_witness:
  "conv_int out_record 0 (CHR ''d'') (FLAGS_ZEROPAD OR FLAGS_PLUS) 14 0 [VInt 0x80000000] ([], 0) =
    Some ((''-0002147483648'', 14), [] :: unit va list)"
proof -
  have "\<not> has (FLAGS_ZEROPAD OR FLAGS_PLUS) FLAGS_PRECISION" "\<not> has (FLAGS_ZEROPAD OR FLAGS_PLUS) FLAGS_HASH"
    "\<not> has (FLAGS_ZEROPAD OR FLAGS_PLUS) FLAGS_LONG_LONG"
    "has (FLAGS_ZEROPAD OR FLAGS_PLUS) FLAGS_ZEROPAD \<and> \<not> has (FLAGS_ZEROPAD OR FLAGS_PLUS) FLAGS_LEFT
      \<longrightarrow> unat (14 :: u32) \<le> 32"
    "is_hhd (CHR ''d'') (FLAGS_ZEROPAD OR FLAGS_PLUS) \<longrightarrow>
      0 \<le> conventional_value (CHR ''d'') (FLAGS_ZEROPAD OR FLAGS_PLUS) 0x80000000"
    by code_simp+
  note w = conv_int_layout [OF this, of out_record 0 "[]" "([], 0)"]
  have "conventional_text (CHR ''d'') (FLAGS_ZEROPAD OR FLAGS_PLUS) 14 0x80000000 = ''-0002147483648''"
    by (simp add: conventional_text_def conventional_value_def ref_sign_def printed_base_def
        ref_layout_def has_bits bit_or_iff bit_flags ref_digits.simps ref_digit_def)
       code_simp
  with w show ?thesis
    by (simp add: put_string_record del: put_string.simps)
qed

text \<open>
  C12. Printing and parsing are inverse: the text of any \<open>int\<close> by \<open>%d\<close>, or of any
  \<open>unsigned\<close> by \<open>%u\<close>, in a buffer of at least 12 bytes, read back by \<open>_atoi\<close> (behind a sign
  if there is one), gives the number.
\<close>
theorem print_then_parse:
  fixes F :: "'d double_ops"
  assumes "c = CHR ''d'' \<or> c = CHR ''u''" and "12 \<le> unat count" and "unat count \<le> length mem"
  shows "\<exists>n mem'. snprintf F (Some mem) count [CHR ''%'', c] [VInt x] = Some (n, Some mem') \<and>
    parse_back mem' = x \<and> length mem' = length mem"
proof -
  let ?t = "printed_text c 0 0 x"
  have z: "\<not> has 0 b" for b
    by (simp add: has_def)
  have "read_spec [c] [VInt x :: 'd va] = Some (0, 0, 0, c, [], [VInt x])"
    using assms(1) by (intro read_single) (auto simp: flag_of_def is_digit_def)
  moreover have "conv_text F c 0 0 0 [VInt x] = Some (?t, [])"
  proof -
    have "c \<in> set ''diuxXob''"
      using assms(1) by auto
    then show ?thesis
      using text_int_ref [OF z z z, of 0 c x "[]"] by (simp only: conv_text_def if_True) simp
  qed
  ultimately have t: "format_text F [CHR ''%'', c] [VInt x] = Some ?t"
    by (simp add: format_text.simps(2))
  have "length ?t \<le> 11"
  proof -
    have "- (2 ^ 31) \<le> sint x" "sint x < 2 ^ 31"
      using sint_greater_eq [of x] sint_less [of x] by simp_all
    moreover have "unat x < 2 ^ 32"
      using unsigned_less [of x, where ?'a = nat] by simp
    ultimately have "nat \<bar>if c = CHR ''d'' then sint x else uint x\<bar> < 10 ^ 10"
      by auto
    then have "length (ref_digits False 10 (nat \<bar>if c = CHR ''d'' then sint x else uint x\<bar>)) \<le> 10"
      by (intro ref_digits_length_le) simp_all
    then show ?thesis
      using assms(1) by (auto simp: printed_text_decimal)
  qed
  then have l: "length ?t \<le> unat count - 1" and l32: "length ?t < 2 ^ 32"
    using assms(2) \<open>length ?t \<le> 11\<close> by simp_all
  have "count \<noteq> 0"
    using assms(2) by auto
  then have r: "snprintf_result ?t count mem = ?t @ NUL # drop (Suc (length ?t)) mem"
    using l by (simp add: snprintf_result_def)
  show ?thesis
    unfolding snprintf_text [OF t l32 assms(3)] r
    using parse_back_printed [OF assms(1)] l assms(2,3) by auto
qed

theorem print_then_parse_witness:
  "\<exists>n mem'. snprintf no_doubles (Some ''????????????'') 12 ''%d'' [VInt 0x80000000] = Some (n, Some mem') \<and>
    parse_back mem' = 0x80000000 \<and> length mem' = length ''????????????''"
  using print_then_parse [of "CHR ''d''" 12 "''????????????''" no_doubles "0x80000000"] by simp

lemma parse_flags_all: "(\<And>c. c \<in> set p \<Longrightarrow> flag_of c \<noteq> 0) \<Longrightarrow> snd (parse_flags f p) = []"
  by (induction p arbitrary: f) simp_all

lemma flag_of_flag: "c \<in> set ''0-+ #'' \<Longrightarrow> flag_of c \<noteq> 0"
  by (auto simp: flag_of_def FLAGS_ZEROPAD_def FLAGS_LEFT_def FLAGS_PLUS_def FLAGS_SPACE_def FLAGS_HASH_def)

lemma read_nothing: "set p \<subseteq> set ''0-+ #'' \<Longrightarrow> read_spec p va = None"
proof -
  assume "set p \<subseteq> set ''0-+ #''"
  then have "snd (parse_flags 0 p) = []"
    using flag_of_flag by (intro parse_flags_all) blast
  moreover have "deref [] = NUL" and "\<not> is_digit NUL"
    by (simp_all add: deref_def is_digit_def)
  ultimately show ?thesis
    by (cases "parse_flags 0 p")
       (simp add: read_spec_def parse_width_def parse_precision_def parse_length_def advance_def)
qed

text \<open>
  A format that ends in \<open>%\<close>, or in \<open>%\<close> and flags, makes the code step over the
  terminator of the format string and read on behind it, whatever the output function.
\<close>
theorem trailing_percent_overruns:
  assumes "CHR ''%'' \<notin> set s" and "NUL \<notin> set s" and "set p \<subseteq> set ''0-+ #''"
  shows "vsnprintf_out F out is_null b maxlen (s @ ''%'' @ p) va = None"
proof -
  have "format_text F (s @ ''%'' @ p) va = None"
    using assms(1,2) by (induction s) (auto simp: format_text.simps(2) read_nothing [OF assms(3)])
  then show ?thesis
    by (simp add: vsnprintf_out_text)
qed

theorem trailing_percent_overruns_witness:
  "vsnprintf_out no_doubles out_record False [] 0 ''100%'' [] = None \<and>
   vsnprintf_out no_doubles out_record False [] 0 ''100%%'' [] = Some (4, ''100%'' @ [NUL])"
  using trailing_percent_overruns [of "''100''" "[]" no_doubles out_record False "[]" 0 "[]"]
  by (simp, code_simp)

lemma ftoa_limit_over:
  assumes "41 < prec"
  shows "ftoa_limit prec [] = (prec - 32, replicate 32 (CHR ''0''))"
proof -
  have "ftoa_limit (prec - of_nat k) (replicate k (CHR ''0'')) =
      (prec - 32, replicate 32 (CHR ''0''))" if "k \<le> 32" for k
    using that
  proof (induction k rule: inc_induct)
    case base
    then show ?case
      by (simp add: ftoa_limit.simps [of "prec - 32"] PICO_PRINTF_FTOA_BUFFER_SIZE_def)
  next
    case (step k)
    have p: "42 \<le> unat prec"
      using assms by (simp add: word_less_nat_alt)
    have "unat (prec - of_nat k) = unat prec - k"
      using step(1,2) p by (simp add: unat_sub word_le_nat_alt unat_of_nat)
    then have "9 < prec - of_nat k"
      using step p by (simp add: word_less_nat_alt)
    moreover have "prec - of_nat (Suc k) = prec - of_nat k - 1"
      by (simp add: algebra_simps)
    moreover have "replicate k (CHR ''0'') @ ''0'' = replicate (Suc k) (CHR ''0'')"
      by (simp add: replicate_append_same)
    ultimately show ?case
      using step(2,3)
      by (simp only: ftoa_limit.simps [of "prec - of_nat k"] PICO_PRINTF_FTOA_BUFFER_SIZE_def
          length_replicate if_True simp_thms)
  qed
  from this [of 0] show ?thesis
    by simp
qed

text \<open>
  The table of powers of ten has ten entries and the loop that limits the precision
  stops when its buffer is full: with a precision above 41, \<open>_ftoa\<close> reads beyond the table,
  for every number it prints in full.
\<close>
theorem ftoa_precision_overruns:
  assumes "has flags FLAGS_PRECISION" and "41 < prec"
    and "\<not> d_isnan F v" and "\<not> d_less F v (d_neg F (d_max F))" and "\<not> d_less F (d_max F) v"
    and "\<not> d_less F (d_lit F 1000000000 0) v" and "\<not> d_less F v (d_neg F (d_lit F 1000000000 0))"
  shows "ftoa F out maxlen v prec width flags st = None"
proof -
  have "42 \<le> unat prec"
    using assms(2) by (simp add: word_less_nat_alt)
  then have "10 \<le> unat (prec - 32)"
    by (simp add: unat_sub word_le_nat_alt)
  then have "ftoa_round F x (prec - 32) = None" for x
    by (simp add: ftoa_round_def pow10_def c_read_def)
  then have "ftoa_text F v prec width flags = None"
    using assms(1) by (simp add: ftoa_text_def ftoa_limit_over [OF assms(2)] Let_def)
  then show ?thesis
    unfolding ftoa_def numeral_eq_Suc using assms(3-7) by (simp add: ftoa_with_def numeral_eq_Suc)
qed

theorem ftoa_precision_overruns_witness:
  "ftoa no_doubles out_record 0 () 42 0 FLAGS_PRECISION ([], 0) = None"
proof -
  have "has FLAGS_PRECISION FLAGS_PRECISION" "(41 :: u32) < 42"
    by code_simp+
  then show ?thesis
    using ftoa_precision_overruns [of FLAGS_PRECISION 42 no_doubles "()" out_record 0 0 "([], 0)"]
    by (simp add: no_doubles_def)
qed

end
