(* ===== verification/Rtc.thy ===== *)
theory Rtc
  imports Irq Alarm_Pool
begin

text \<open>
  The real-time clock (\<open>SDK/hardware/rtc.c\<close>) and the C library's view of time
  (\<open>wizio/newlib/time.c\<close>). The register block is hardware: a parameter \<open>D\<close> of type
  \<open>'w rtc_dev\<close> with a read (which may change the device, time passes), a write and the atomic
  set and clear aliases. The loops that wait for a bit are \<open>rtc_poll\<close>: if the bit never
  shows, the call does not return, which is \<open>None\<close>.
\<close>

section \<open>Registers\<close>

datatype rtc_reg = CLKDIV_M1 | SETUP_0 | SETUP_1 | CTRL | IRQ_SETUP_0 | IRQ_SETUP_1 | RTC_1 | RTC_0 | INTE

record 'w rtc_dev =
  rd :: "rtc_reg \<Rightarrow> 'w \<Rightarrow> u32 \<times> 'w"
  wr :: "rtc_reg \<Rightarrow> u32 \<Rightarrow> 'w \<Rightarrow> 'w"
  hw_set :: "rtc_reg \<Rightarrow> u32 \<Rightarrow> 'w \<Rightarrow> 'w"
  hw_clear :: "rtc_reg \<Rightarrow> u32 \<Rightarrow> 'w \<Rightarrow> 'w"
  hw_reset :: "'w \<Rightarrow> 'w"

partial_function (option) rtc_poll :: "'w rtc_dev \<Rightarrow> rtc_reg \<Rightarrow> u32 \<Rightarrow> bool \<Rightarrow> 'w \<Rightarrow> 'w option" where
  "rtc_poll D r bits want w =
     (let (v, w') = rd D r w in
      if (v AND bits \<noteq> 0) = want then Some w' else rtc_poll D r bits want w')"

definition RTC_CTRL_RTC_ENABLE_BITS :: u32 where "RTC_CTRL_RTC_ENABLE_BITS = 0x00000001"
definition RTC_CTRL_RTC_ACTIVE_BITS :: u32 where "RTC_CTRL_RTC_ACTIVE_BITS = 0x00000002"
definition RTC_CTRL_LOAD_BITS :: u32 where "RTC_CTRL_LOAD_BITS = 0x00000010"
definition MATCH_ENA_BITS :: u32 where "MATCH_ENA_BITS = 0x10000000"
definition MATCH_ACTIVE_BITS :: u32 where "MATCH_ACTIVE_BITS = 0x20000000"
definition RTC_INTE_RTC_BITS :: u32 where "RTC_INTE_RTC_BITS = 0x00000001"
definition RTC_CLKDIV_M1_BITS :: u32 where "RTC_CLKDIV_M1_BITS = 0x0000ffff"
definition RTC_IRQ :: nat where "RTC_IRQ = 25"

section \<open>Date and time\<close>

record datetime =
  year :: u16
  month :: u8
  day :: u8
  dotw :: u8
  hour :: u8
  minute :: u8
  sec :: u8

definition valid_datetime :: "datetime \<Rightarrow> bool" where
  "valid_datetime t \<longleftrightarrow>
     (0 \<le> sint (year t) \<and> sint (year t) \<le> 4095) \<and>
     (1 \<le> sint (month t) \<and> sint (month t) \<le> 12) \<and>
     (1 \<le> sint (day t) \<and> sint (day t) \<le> 31) \<and>
     (0 \<le> sint (dotw t) \<and> sint (dotw t) \<le> 6) \<and>
     (0 \<le> sint (hour t) \<and> sint (hour t) \<le> 23) \<and>
     (0 \<le> sint (minute t) \<and> sint (minute t) \<le> 59) \<and>
     (0 \<le> sint (sec t) \<and> sint (sec t) \<le> 59)"

text \<open>The values written to the setup registers, and the datetime read from the counters.\<close>

definition setup_0_value :: "datetime \<Rightarrow> u32" where
  "setup_0_value t = push_bit 12 (scast (year t)) OR push_bit 8 (scast (month t)) OR push_bit 0 (scast (day t))"

definition setup_1_value :: "datetime \<Rightarrow> u32" where
  "setup_1_value t = push_bit 24 (scast (dotw t)) OR push_bit 16 (scast (hour t))
     OR push_bit 8 (scast (minute t)) OR push_bit 0 (scast (sec t))"

definition datetime_of :: "u32 \<Rightarrow> u32 \<Rightarrow> datetime" where
  "datetime_of rtc_0 rtc_1 =
     \<lparr> year = ucast (drop_bit 12 (rtc_1 AND 0x00fff000)),
       month = ucast (drop_bit 8 (rtc_1 AND 0x00000f00)),
       day = ucast (drop_bit 0 (rtc_1 AND 0x0000001f)),
       dotw = ucast (drop_bit 24 (rtc_0 AND 0x07000000)),
       hour = ucast (drop_bit 16 (rtc_0 AND 0x001f0000)),
       minute = ucast (drop_bit 8 (rtc_0 AND 0x00003f00)),
       sec = ucast (drop_bit 0 (rtc_0 AND 0x0000003f)) \<rparr>"

section \<open>Clock operations\<close>

definition rtc_running :: "'w rtc_dev \<Rightarrow> 'w \<Rightarrow> bool \<times> 'w" where
  "rtc_running D w = (let (v, w') = rd D CTRL w in (v AND RTC_CTRL_RTC_ACTIVE_BITS \<noteq> 0, w'))"

definition rtc_init :: "'w rtc_dev \<Rightarrow> u32 \<Rightarrow> 'w \<Rightarrow> 'w option" where
  "rtc_init D clk_rtc_hz w =
     do {
       c_assert (clk_rtc_hz \<noteq> 0);
       let w1 = hw_reset D w;
       let rtc_freq = clk_rtc_hz - 1;
       c_assert (rtc_freq \<le> RTC_CLKDIV_M1_BITS);
       Some (wr D CLKDIV_M1 rtc_freq w1)
     }"

definition rtc_set_datetime :: "'w rtc_dev \<Rightarrow> datetime \<Rightarrow> 'w \<Rightarrow> (bool \<times> 'w) option" where
  "rtc_set_datetime D t w =
     (if \<not> valid_datetime t then Some (False, w)
      else do {
        w1 \<leftarrow> rtc_poll D CTRL RTC_CTRL_RTC_ACTIVE_BITS False (wr D CTRL 0 w);
        let w2 = wr D SETUP_1 (setup_1_value t) (wr D SETUP_0 (setup_0_value t) w1);
        let w3 = wr D CTRL RTC_CTRL_RTC_ENABLE_BITS (wr D CTRL RTC_CTRL_LOAD_BITS w2);
        w4 \<leftarrow> rtc_poll D CTRL RTC_CTRL_RTC_ACTIVE_BITS True w3;
        Some (True, w4)
      })"

text \<open>\<open>rtc_get_datetime\<close> leaves the caller's structure alone when the clock is not running.\<close>

definition rtc_get_datetime :: "'w rtc_dev \<Rightarrow> datetime option \<Rightarrow> 'w \<Rightarrow> bool \<times> datetime option \<times> 'w" where
  "rtc_get_datetime D t w =
     (let (running, w1) = rtc_running D w in
      if \<not> running then (False, t, w1)
      else
        (let (rtc_0, w2) = rd D RTC_0 w1;
             (rtc_1, w3) = rd D RTC_1 w2
         in (True, Some (datetime_of rtc_0 rtc_1), w3)))"

section \<open>The alarm\<close>

record ('w, 'cb) rtc_state =
  rtc_w :: 'w
  rtc_callback :: "'cb option"
  alarm_repeats :: bool
  rtc_irqs :: irq_state

definition rtc_enable_alarm :: "'w rtc_dev \<Rightarrow> 'w \<Rightarrow> 'w option" where
  "rtc_enable_alarm D w = rtc_poll D IRQ_SETUP_0 MATCH_ACTIVE_BITS True (hw_set D IRQ_SETUP_0 MATCH_ENA_BITS w)"

definition rtc_disable_alarm :: "'w rtc_dev \<Rightarrow> 'w \<Rightarrow> 'w option" where
  "rtc_disable_alarm D w = rtc_poll D IRQ_SETUP_0 MATCH_ACTIVE_BITS False (hw_clear D IRQ_SETUP_0 MATCH_ENA_BITS w)"

definition rtc_alarm_repeats :: "datetime \<Rightarrow> bool" where
  "rtc_alarm_repeats t \<longleftrightarrow> year t <s 0 \<or> month t <s 0 \<or> day t <s 0 \<or> dotw t <s 0 \<or>
     hour t <s 0 \<or> minute t <s 0 \<or> sec t <s 0"

definition alarm_field :: "'a::len word \<Rightarrow> nat \<Rightarrow> u32" where
  "alarm_field x lsb = (if x <s 0 then 0 else push_bit lsb (scast x))"

definition irq_setup_0_value :: "datetime \<Rightarrow> u32" where
  "irq_setup_0_value t = alarm_field (year t) 12 OR alarm_field (month t) 8 OR alarm_field (day t) 0"

definition irq_setup_1_value :: "datetime \<Rightarrow> u32" where
  "irq_setup_1_value t = alarm_field (dotw t) 24 OR alarm_field (hour t) 16
     OR alarm_field (minute t) 8 OR alarm_field (sec t) 0"

definition match_on :: "'w rtc_dev \<Rightarrow> 'a::len word \<Rightarrow> rtc_reg \<Rightarrow> u32 \<Rightarrow> 'w \<Rightarrow> 'w" where
  "match_on D x r bits w = (if 0 \<le>s x then hw_set D r bits w else w)"

definition rtc_set_alarm ::
  "'w rtc_dev \<Rightarrow> u32 \<Rightarrow> datetime \<Rightarrow> 'cb option \<Rightarrow> ('w, 'cb) rtc_state \<Rightarrow> ('w, 'cb) rtc_state option" where
  "rtc_set_alarm D irq_handler_addr t user_callback s =
     do {
       w1 \<leftarrow> rtc_disable_alarm D (rtc_w s);
       let w2 = wr D IRQ_SETUP_1 (irq_setup_1_value t) (wr D IRQ_SETUP_0 (irq_setup_0_value t) w1);
       let w3 = match_on D (day t) IRQ_SETUP_0 0x01000000 (match_on D (month t) IRQ_SETUP_0 0x02000000
                  (match_on D (year t) IRQ_SETUP_0 0x04000000 w2));
       let w4 = match_on D (sec t) IRQ_SETUP_1 0x10000000 (match_on D (minute t) IRQ_SETUP_1 0x20000000
                  (match_on D (hour t) IRQ_SETUP_1 0x40000000 (match_on D (dotw t) IRQ_SETUP_1 0x80000000 w3)));
       q1 \<leftarrow> irq_set_exclusive_handler (rtc_irqs s) RTC_IRQ irq_handler_addr;
       let w5 = wr D INTE RTC_INTE_RTC_BITS w4;
       q2 \<leftarrow> irq_set_enabled q1 RTC_IRQ True;
       w6 \<leftarrow> rtc_enable_alarm D w5;
       Some \<lparr> rtc_w = w6, rtc_callback = user_callback, alarm_repeats = rtc_alarm_repeats t, rtc_irqs = q2 \<rparr>
     }"

definition rtc_irq_handler ::
  "'w rtc_dev \<Rightarrow> ('cb \<Rightarrow> ('w, 'cb) rtc_state \<Rightarrow> ('w, 'cb) rtc_state option) \<Rightarrow> ('w, 'cb) rtc_state
    \<Rightarrow> ('w, 'cb) rtc_state option" where
  "rtc_irq_handler D run s =
     do {
       w1 \<leftarrow> rtc_disable_alarm D (rtc_w s);
       w2 \<leftarrow> (if alarm_repeats s then rtc_enable_alarm D w1 else Some w1);
       let s2 = s\<lparr>rtc_w := w2\<rparr>;
       (case rtc_callback s2 of None \<Rightarrow> Some s2 | Some cb \<Rightarrow> run cb s2)
     }"

section \<open>The C library calls\<close>

text \<open>
  \<open>struct tm\<close>; \<open>mktime\<close> and \<open>localtime\<close> are the C library's. \<open>now\<close> ignores the result of
  \<open>rtc_get_datetime\<close> and uses a local structure that is not written when the clock does not
  run: that is undefined.
\<close>

record tm =
  tm_sec :: u32
  tm_min :: u32
  tm_hour :: u32
  tm_mday :: u32
  tm_mon :: u32
  tm_year :: u32
  tm_wday :: u32

definition tm_of :: "datetime \<Rightarrow> tm" where
  "tm_of t = \<lparr> tm_sec = scast (sec t), tm_min = scast (minute t), tm_hour = scast (hour t),
     tm_mday = scast (day t), tm_mon = scast (month t) - 1, tm_year = scast (year t) - 1900,
     tm_wday = scast (dotw t) \<rparr>"

definition now :: "'w rtc_dev \<Rightarrow> (tm \<Rightarrow> 'time) \<Rightarrow> 'w \<Rightarrow> ('time \<times> 'w) option" where
  "now D mktime w =
     (let (ok, t, w') = rtc_get_datetime D None w
      in case t of None \<Rightarrow> None | Some t \<Rightarrow> Some (mktime (tm_of t), w'))"

definition datetime_of_tm :: "tm \<Rightarrow> datetime" where
  "datetime_of_tm p = \<lparr> year = ucast (tm_year p), month = ucast (tm_mon p), day = ucast (tm_mday p),
     dotw = ucast (tm_wday p), hour = ucast (tm_hour p), minute = ucast (tm_min p), sec = ucast (tm_sec p) \<rparr>"

definition set_now_tm :: "'w rtc_dev \<Rightarrow> tm \<Rightarrow> 'w \<Rightarrow> (bool \<times> 'w) option" where
  "set_now_tm D p w = rtc_set_datetime D (datetime_of_tm p) w"

definition set_now :: "'w rtc_dev \<Rightarrow> ('time \<Rightarrow> tm) \<Rightarrow> 'time \<Rightarrow> 'w \<Rightarrow> (bool \<times> 'w) option" where
  "set_now D localtime t w = set_now_tm D (localtime t) w"

definition include_time :: "'w rtc_dev \<Rightarrow> u32 \<Rightarrow> 'w \<Rightarrow> 'w option" where
  "include_time D clk_rtc_hz w =
     do {
       w1 \<leftarrow> rtc_init D clk_rtc_hz w;
       (ok, w2) \<leftarrow> rtc_set_datetime D \<lparr> year = 2021, month = 3, day = 25, dotw = 0, hour = 0, minute = 0, sec = 0 \<rparr> w1;
       Some w2
     }"

record timeval =
  tv_sec :: u64
  tv_usec :: u32

text \<open>A missing result structure sets \<open>errno\<close> to \<open>EINVAL\<close>: no value and the result -1.\<close>

definition gettimeofday ::
  "'w rtc_dev \<Rightarrow> (tm \<Rightarrow> u64) \<Rightarrow> bool \<Rightarrow> 'w \<times> timer_state \<Rightarrow> (int \<times> timeval option \<times> 'w \<times> timer_state) option" where
  "gettimeofday D mktime has_tv s =
     (if has_tv then
        (let (running, w1) = rtc_running D (fst s) in
         if running then do {
           (t, w2) \<leftarrow> now D mktime w1;
           Some (0, Some \<lparr> tv_sec = t, tv_usec = 0 \<rparr>, w2, snd s)
         } else do {
           (us, tm) \<leftarrow> time_us_64 (snd s);
           Some (0, Some \<lparr> tv_sec = us div 1000000, tv_usec = ucast (us mod 1000000) \<rparr>, w1, tm)
         })
      else Some (- 1, None, s))"

definition times_r ::
  "'w rtc_dev \<Rightarrow> (tm \<Rightarrow> u64) \<Rightarrow> 'w \<times> timer_state \<Rightarrow> (u32 \<times> u64 \<times> 'w \<times> timer_state) option" where
  "times_r D mktime s =
     do {
       (t, tm) \<leftarrow> get_absolute_time (snd s);
       (r, tv, s2) \<leftarrow> gettimeofday D mktime True (fst s, tm);
       sec \<leftarrow> map_option tv_sec tv;
       Some (to_ms_since_boot t, sec, s2)
     }"

datatype clockid = CLOCK_REALTIME | CLOCK_MONOTONIC | CLOCK_OTHER

definition clock_gettime ::
  "'w rtc_dev \<Rightarrow> (tm \<Rightarrow> u64) \<Rightarrow> clockid \<Rightarrow> bool \<Rightarrow> 'w \<times> timer_state
    \<Rightarrow> (int \<times> (u64 \<times> u32) option \<times> 'w \<times> timer_state) option" where
  "clock_gettime D mktime clock_id has_tp s =
     (if \<not> has_tp then Some (- 1, None, s)
      else
        (case clock_id of
           CLOCK_REALTIME \<Rightarrow> do {
             (r, tv, s2) \<leftarrow> gettimeofday D mktime True s;
             tv \<leftarrow> tv;
             Some (0, Some (tv_sec tv, tv_usec tv * 1000), s2)
           }
         | CLOCK_MONOTONIC \<Rightarrow> do {
             (t, tm) \<leftarrow> get_absolute_time (snd s);
             let us = to_us_since_boot t;
             Some (0, Some (us div 1000000, ucast (us mod 1000000 * 1000)), fst s, tm)
           }
         | CLOCK_OTHER \<Rightarrow> Some (- 1, None, s)))"

text \<open>Without FreeRTOS. \<open>seconds * 1000000UL\<close> is a 32-bit product.\<close>

definition usleep :: "run_callback \<Rightarrow> nat \<Rightarrow> alarm_pool \<Rightarrow> u64 \<Rightarrow> (u32 \<times> alarm_pool) option" where
  "usleep run cb p us = map_option (Pair 0) (sleep_us run cb p us)"

definition sleep :: "run_callback \<Rightarrow> nat \<Rightarrow> alarm_pool \<Rightarrow> u32 \<Rightarrow> (u32 \<times> alarm_pool) option" where
  "sleep run cb p seconds = map_option (\<lambda>(r, p'). (0, p')) (usleep run cb p (ucast (seconds * 1000000)))"

definition delayMicroseconds :: "run_callback \<Rightarrow> nat \<Rightarrow> alarm_pool \<Rightarrow> u32 \<Rightarrow> alarm_pool option" where
  "delayMicroseconds run cb p us = sleep_us run cb p (ucast us)"

definition delay :: "run_callback \<Rightarrow> nat \<Rightarrow> alarm_pool \<Rightarrow> u32 \<Rightarrow> alarm_pool option" where
  "delay run cb p ms = sleep_ms run cb p ms"

definition micros :: "timer_state \<Rightarrow> (u32 \<times> timer_state) option" where
  "micros s = do { (t, s') \<leftarrow> get_absolute_time s; Some (ucast (to_us_since_boot t), s') }"

definition millis :: "timer_state \<Rightarrow> (u32 \<times> timer_state) option" where
  "millis s = do { (t, s') \<leftarrow> get_absolute_time s; Some (to_ms_since_boot t, s') }"

definition seconds :: "timer_state \<Rightarrow> (u32 \<times> timer_state) option" where
  "seconds s = map_option (\<lambda>(ms, s'). (ms div 1000, s')) (millis s)"

end
