(* ===== verification/Rtc_Props.thy ===== *)
theory Rtc_Props
  imports Rtc
begin

text \<open>
  Setting the clock and reading it back; the alarm's registers; what the C library layer
  makes of it.
\<close>

section \<open>Fields of a register\<close>

lemma uint_nonneg: "0 \<le> sint x \<Longrightarrow> uint (x :: 'a::len word) = sint x"
proof -
  assume p: "0 \<le> sint x"
  have "sint x < 2 ^ (LENGTH('a) - 1)"
    using sint_less [of x] by simp
  also have "\<dots> \<le> 2 ^ LENGTH('a)"
    by simp
  finally have "uint (word_of_int (sint x) :: 'a word) = sint x"
    using p by (simp only: unsigned_of_int take_bit_int_eq_self)
  then show ?thesis
    by simp
qed

lemma field_bits:
  assumes "0 \<le> sint (x :: 'a::len word)" and "sint x < 2 ^ k" and "bit x j"
  shows "j < k"
proof -
  have "unat x < 2 ^ k"
    using assms(1,2) uint_nonneg [OF assms(1)]
    by (metis nat_less_numeral_power_cancel_iff nat_less_iff of_nat_numeral of_nat_power unat_eq_nat_uint
        unsigned_greater_eq)
  then have "take_bit k (unat x) = unat x"
    by (simp add: take_bit_nat_eq_self)
  moreover have "bit (unat x) j"
    using assms(3) by (simp add: bit_unsigned_iff)
  ultimately show ?thesis
    by (metis bit_take_bit_iff)
qed

lemma field_back:
  fixes x :: "'a::len word"
  assumes "0 \<le> sint x" and "sint x < 2 ^ k" and "k < LENGTH('a)" and "k + l \<le> 32" and "LENGTH('a) \<le> 32"
    and "\<And>j. bit R j \<Longrightarrow> j < l \<or> l + k \<le> j" and "v = push_bit l (scast x) OR R"
  shows "ucast (drop_bit l (v AND push_bit l (mask k)) :: u32) = x"
proof (rule bit_eqI)
  fix n assume "possible_bit TYPE('a word) n"
  note f = field_bits [OF assms(1,2)]
  have "\<not> bit x (LENGTH('a) - 1)"
    using f [of "LENGTH('a) - 1"] assms(3) by linarith
  then show "bit (ucast (drop_bit l (v AND push_bit l (mask k)) :: u32) :: 'a word) n = bit x n"
    using f [of n] assms(3-5) assms(6) [of "l + n"] unfolding assms(7)
    by (auto simp: bit_simps min_def dest: bit_imp_le_length)
qed

lemma field_apart:
  fixes x :: "'a::len word"
  assumes "0 \<le> sint x" and "sint x < 2 ^ k" and "k < LENGTH('a)" and "bit (push_bit l (scast x) :: u32) j"
  shows "l \<le> j \<and> j < l + k"
proof -
  note f = field_bits [OF assms(1,2)]
  have "\<not> bit x (LENGTH('a) - 1)"
    using f [of "LENGTH('a) - 1"] assms(3) by linarith
  then show ?thesis
    using assms(4) f [of "j - l"] by (auto simp: bit_simps min_def split: if_splits)
qed

lemma masks:
  "(0x00fff000 :: u32) = push_bit 12 (mask 12)" "(0x00000f00 :: u32) = push_bit 8 (mask 4)"
  "(0x0000001f :: u32) = push_bit 0 (mask 5)" "(0x07000000 :: u32) = push_bit 24 (mask 3)"
  "(0x001f0000 :: u32) = push_bit 16 (mask 5)" "(0x00003f00 :: u32) = push_bit 8 (mask 6)"
  "(0x0000003f :: u32) = push_bit 0 (mask 6)"
  by code_simp+

lemma valid_fields:
  assumes "valid_datetime t"
  shows "0 \<le> sint (year t)" "sint (year t) < 2 ^ 12" "0 \<le> sint (month t)" "sint (month t) < 2 ^ 4"
    "0 \<le> sint (day t)" "sint (day t) < 2 ^ 5" "0 \<le> sint (dotw t)" "sint (dotw t) < 2 ^ 3"
    "0 \<le> sint (hour t)" "sint (hour t) < 2 ^ 5" "0 \<le> sint (minute t)" "sint (minute t) < 2 ^ 6"
    "0 \<le> sint (sec t)" "sint (sec t) < 2 ^ 6"
  using assms by (auto simp: valid_datetime_def)

lemma datetime_of_setup:
  assumes "valid_datetime t"
  shows "datetime_of (setup_1_value t) (setup_0_value t) = t"
proof -
  note v = valid_fields [OF assms]
  have ap:
    "\<And>l j. bit (push_bit l (scast (year t)) :: u32) j \<Longrightarrow> l \<le> j \<and> j < l + 12"
    "\<And>l j. bit (push_bit l (scast (month t)) :: u32) j \<Longrightarrow> l \<le> j \<and> j < l + 4"
    "\<And>l j. bit (push_bit l (scast (day t)) :: u32) j \<Longrightarrow> l \<le> j \<and> j < l + 5"
    "\<And>l j. bit (push_bit l (scast (dotw t)) :: u32) j \<Longrightarrow> l \<le> j \<and> j < l + 3"
    "\<And>l j. bit (push_bit l (scast (hour t)) :: u32) j \<Longrightarrow> l \<le> j \<and> j < l + 5"
    "\<And>l j. bit (push_bit l (scast (minute t)) :: u32) j \<Longrightarrow> l \<le> j \<and> j < l + 6"
    "\<And>l j. bit (push_bit l (scast (sec t)) :: u32) j \<Longrightarrow> l \<le> j \<and> j < l + 6"
    by (rule field_apart, (rule v)+, simp, assumption)+
  let ?s0 = "setup_0_value t" and ?s1 = "setup_1_value t"
  have "ucast (drop_bit 12 (?s0 AND 0x00fff000)) = year t"
    unfolding masks
    by (rule field_back [OF v(1,2), of _ "push_bit 8 (scast (month t)) OR push_bit 0 (scast (day t))"])
       (auto simp: setup_0_value_def bit_or_iff or.assoc simp del: push_bit_0_id dest!: ap)
  moreover have "ucast (drop_bit 8 (?s0 AND 0x00000f00)) = month t"
    unfolding masks
    by (rule field_back [OF v(3,4), of _ "push_bit 12 (scast (year t)) OR push_bit 0 (scast (day t))"])
       (auto simp: setup_0_value_def bit_or_iff ac_simps simp del: push_bit_0_id dest!: ap)
  moreover have "ucast (drop_bit 0 (?s0 AND 0x0000001f)) = day t"
    unfolding masks
    by (rule field_back [OF v(5,6), of _ "push_bit 12 (scast (year t)) OR push_bit 8 (scast (month t))"])
       (auto simp: setup_0_value_def bit_or_iff ac_simps simp del: push_bit_0_id dest!: ap)
  moreover have "ucast (drop_bit 24 (?s1 AND 0x07000000)) = dotw t"
    unfolding masks
    by (rule field_back [OF v(7,8), of _ "push_bit 16 (scast (hour t)) OR push_bit 8 (scast (minute t))
          OR push_bit 0 (scast (sec t))"])
       (auto simp: setup_1_value_def bit_or_iff ac_simps simp del: push_bit_0_id dest!: ap)
  moreover have "ucast (drop_bit 16 (?s1 AND 0x001f0000)) = hour t"
    unfolding masks
    by (rule field_back [OF v(9,10), of _ "push_bit 24 (scast (dotw t)) OR push_bit 8 (scast (minute t))
          OR push_bit 0 (scast (sec t))"])
       (auto simp: setup_1_value_def bit_or_iff ac_simps simp del: push_bit_0_id dest!: ap)
  moreover have "ucast (drop_bit 8 (?s1 AND 0x00003f00)) = minute t"
    unfolding masks
    by (rule field_back [OF v(11,12), of _ "push_bit 24 (scast (dotw t)) OR push_bit 16 (scast (hour t))
          OR push_bit 0 (scast (sec t))"])
       (auto simp: setup_1_value_def bit_or_iff ac_simps simp del: push_bit_0_id dest!: ap)
  moreover have "ucast (drop_bit 0 (?s1 AND 0x0000003f)) = sec t"
    unfolding masks
    by (rule field_back [OF v(13,14), of _ "push_bit 24 (scast (dotw t)) OR push_bit 16 (scast (hour t))
          OR push_bit 8 (scast (minute t))"])
       (auto simp: setup_1_value_def bit_or_iff ac_simps simp del: push_bit_0_id dest!: ap)
  ultimately show ?thesis
    by (simp add: datetime_of_def)
qed

section \<open>The documented behaviour of the clock hardware\<close>

text \<open>
  What can be said of a state \<open>w\<close> of the device: the contents of SETUP_0 and SETUP_1, the
  values of the last LOAD, the cycle of the RTC clock in which it was done, the present cycle,
  the seconds counted since, whether the clock runs, and what a read of RTC_1 will show.
\<close>

record 'w rtc_view =
  v_setup :: "'w \<Rightarrow> u32 \<times> u32"
  v_loaded :: "'w \<Rightarrow> u32 \<times> u32"
  v_load_cycle :: "'w \<Rightarrow> nat"
  v_cycle :: "'w \<Rightarrow> nat"
  v_ticks :: "'w \<Rightarrow> nat"
  v_active :: "'w \<Rightarrow> bool"
  v_latch :: "'w \<Rightarrow> u32"

text \<open>Time passes while nothing is written: cycles and seconds go on, the rest stays.\<close>

definition rtc_passes :: "'w rtc_view \<Rightarrow> 'w \<Rightarrow> 'w \<Rightarrow> bool" where
  "rtc_passes V w w' \<longleftrightarrow> v_loaded V w' = v_loaded V w \<and> v_load_cycle V w' = v_load_cycle V w
     \<and> v_active V w' = v_active V w \<and> v_cycle V w \<le> v_cycle V w' \<and> v_ticks V w \<le> v_ticks V w'"

text \<open>Three cycles of the RTC clock after the LOAD the new setting can be read (\<open>rtc.h\<close>).\<close>

definition rtc_settled :: "'w rtc_view \<Rightarrow> 'w \<Rightarrow> bool" where
  "rtc_settled V w \<longleftrightarrow> v_load_cycle V w + 3 \<le> v_cycle V w"

text \<open>
  The data sheet: clearing the enable bit makes the active bit go away, the setup registers
  hold what is written, LOAD takes them over in a stopped clock, setting the enable bit makes
  the active bit appear. Every access takes any number of cycles of the RTC clock, and the
  counters may be incremented (\<open>tick\<close>, whatever it does) any number of times meanwhile. In
  the first three cycles after a LOAD a read of the counters may give anything. Then RTC_0
  shows the loaded values after the ticks so far, and this read also fixes what RTC_1 shows.
\<close>

definition rtc_documented :: "'w rtc_dev \<Rightarrow> 'w rtc_view \<Rightarrow> (u32 \<times> u32 \<Rightarrow> u32 \<times> u32) \<Rightarrow> bool" where
  "rtc_documented D V tick \<longleftrightarrow>
     (\<forall>w. \<exists>w'. rtc_poll D CTRL RTC_CTRL_RTC_ACTIVE_BITS False (wr D CTRL 0 w) = Some w' \<and> \<not> v_active V w') \<and>
     (\<forall>w v. v_setup V (wr D SETUP_0 v w) = (v, snd (v_setup V w)) \<and>
        v_active V (wr D SETUP_0 v w) = v_active V w) \<and>
     (\<forall>w v. v_setup V (wr D SETUP_1 v w) = (fst (v_setup V w), v) \<and>
        v_active V (wr D SETUP_1 v w) = v_active V w) \<and>
     (\<forall>w. \<not> v_active V w \<longrightarrow>
        v_loaded V (wr D CTRL RTC_CTRL_LOAD_BITS w) = v_setup V w \<and>
        v_load_cycle V (wr D CTRL RTC_CTRL_LOAD_BITS w) = v_cycle V (wr D CTRL RTC_CTRL_LOAD_BITS w) \<and>
        \<not> v_active V (wr D CTRL RTC_CTRL_LOAD_BITS w)) \<and>
     (\<forall>w. \<not> v_active V w \<longrightarrow>
        (\<exists>w'. rtc_poll D CTRL RTC_CTRL_RTC_ACTIVE_BITS True (wr D CTRL RTC_CTRL_RTC_ENABLE_BITS w) = Some w' \<and>
          v_active V w' \<and> v_loaded V w' = v_loaded V w \<and> v_load_cycle V w' = v_load_cycle V w \<and>
          v_cycle V w \<le> v_cycle V w')) \<and>
     (\<forall>w r. v_active V w \<longrightarrow> rtc_passes V w (snd (rd D r w))) \<and>
     (\<forall>w. v_active V w \<longrightarrow> fst (rd D CTRL w) AND RTC_CTRL_RTC_ACTIVE_BITS \<noteq> 0) \<and>
     (\<forall>w w' v. v_active V w \<longrightarrow> rtc_settled V w \<longrightarrow> rd D RTC_0 w = (v, w') \<longrightarrow>
        (v_latch V w', v) = (tick ^^ v_ticks V w') (v_loaded V w)) \<and>
     (\<forall>w. v_active V w \<longrightarrow> fst (rd D RTC_1 w) = v_latch V w)"

lemmas rtc_documentedD =
  rtc_documented_def [THEN iffD1, THEN conjunct1, rule_format]
  rtc_documented_def [THEN iffD1, THEN conjunct2, THEN conjunct1, rule_format]
  rtc_documented_def [THEN iffD1, THEN conjunct2, THEN conjunct2, THEN conjunct1, rule_format]
  rtc_documented_def [THEN iffD1, THEN conjunct2, THEN conjunct2, THEN conjunct2, THEN conjunct1, rule_format]
  rtc_documented_def [THEN iffD1, THEN conjunct2, THEN conjunct2, THEN conjunct2, THEN conjunct2, THEN conjunct1, rule_format]
  rtc_documented_def [THEN iffD1, THEN conjunct2, THEN conjunct2, THEN conjunct2, THEN conjunct2, THEN conjunct2, THEN conjunct1, rule_format]
  rtc_documented_def [THEN iffD1, THEN conjunct2, THEN conjunct2, THEN conjunct2, THEN conjunct2, THEN conjunct2, THEN conjunct2, THEN conjunct1, rule_format]
  rtc_documented_def [THEN iffD1, THEN conjunct2, THEN conjunct2, THEN conjunct2, THEN conjunct2, THEN conjunct2, THEN conjunct2, THEN conjunct2, THEN conjunct1, rule_format]
  rtc_documented_def [THEN iffD1, THEN conjunct2, THEN conjunct2, THEN conjunct2, THEN conjunct2, THEN conjunct2, THEN conjunct2, THEN conjunct2, THEN conjunct2, rule_format]

text \<open>The state after reading some registers, whatever the values read.\<close>

primrec after_reads :: "'w rtc_dev \<Rightarrow> rtc_reg list \<Rightarrow> 'w \<Rightarrow> 'w" where
  "after_reads D [] w = w"
| "after_reads D (r # rs) w = after_reads D rs (snd (rd D r w))"

lemma rtc_passes_trans: "rtc_passes V w w' \<Longrightarrow> rtc_passes V w' w'' \<Longrightarrow> rtc_passes V w w''"
  by (auto simp: rtc_passes_def)

lemma rtc_passesD:
  "rtc_passes V w w' \<Longrightarrow> v_active V w' = v_active V w" "rtc_passes V w w' \<Longrightarrow> v_loaded V w' = v_loaded V w"
  "rtc_passes V w w' \<Longrightarrow> rtc_settled V w \<Longrightarrow> rtc_settled V w'"
  "rtc_passes V w w' \<Longrightarrow> v_ticks V w \<le> v_ticks V w'"
  by (auto simp: rtc_passes_def rtc_settled_def)

lemma after_reads_passes:
  assumes doc: "rtc_documented D V tick"
  shows "v_active V w \<Longrightarrow> rtc_passes V w (after_reads D rs w)"
proof (induction rs arbitrary: w)
  case Nil
  then show ?case by (simp add: rtc_passes_def)
next
  case (Cons r rs)
  from rtc_documentedD(6) [OF doc Cons.prems, of r] have p: "rtc_passes V w (snd (rd D r w))" .
  with Cons.IH rtc_passesD(1) [OF p] Cons.prems show ?case
    by (auto intro: rtc_passes_trans)
qed

lemma set_datetime_loads:
  assumes "rtc_documented D V tick" and "valid_datetime t"
  shows "\<exists>w'. rtc_set_datetime D t w = Some (True, w') \<and> v_active V w' \<and>
    v_loaded V w' = (setup_0_value t, setup_1_value t)"
proof -
  note D = rtc_documentedD [OF assms(1)]
  obtain w1 where w1: "rtc_poll D CTRL RTC_CTRL_RTC_ACTIVE_BITS False (wr D CTRL 0 w) = Some w1" "\<not> v_active V w1"
    using D(1) by blast
  let ?w2 = "wr D SETUP_1 (setup_1_value t) (wr D SETUP_0 (setup_0_value t) w1)"
  let ?w3 = "wr D CTRL RTC_CTRL_LOAD_BITS ?w2"
  have w2: "v_setup V ?w2 = (setup_0_value t, setup_1_value t)" "\<not> v_active V ?w2"
    using w1(2) by (simp_all add: D(2,3))
  then have w3: "v_loaded V ?w3 = (setup_0_value t, setup_1_value t)" "\<not> v_active V ?w3"
    using D(4) [of ?w2] by simp_all
  obtain w4 where "rtc_poll D CTRL RTC_CTRL_RTC_ACTIVE_BITS True (wr D CTRL RTC_CTRL_RTC_ENABLE_BITS ?w3) =
      Some w4" "v_active V w4" "v_loaded V w4 = v_loaded V ?w3"
    using D(5) [OF w3(2)] by blast
  with w1 w3 assms(2) show ?thesis by (simp add: rtc_set_datetime_def Let_def)
qed

text \<open>
  What \<open>rtc_get_datetime\<close> returns: both registers as they were at one moment, between the
  beginning and the end of the call.
\<close>

lemma get_datetime_consistent:
  assumes "rtc_documented D V tick" and "v_active V w" and "rtc_settled V w"
  shows "\<exists>k w'. v_ticks V w \<le> k \<and> k \<le> v_ticks V w' \<and>
    rtc_get_datetime D t0 w = (True, Some (let (c0, c1) = (tick ^^ k) (v_loaded V w) in datetime_of c1 c0), w')"
proof -
  note D = rtc_documentedD [OF assms(1)]
  obtain v w1 where r: "rd D CTRL w = (v, w1)" by (cases "rd D CTRL w")
  then have p1: "v AND RTC_CTRL_RTC_ACTIVE_BITS \<noteq> 0" "rtc_passes V w w1"
    using D(7) [OF assms(2)] D(6) [OF assms(2), of CTRL] by simp_all
  with assms rtc_passesD [OF p1(2)] have 1: "v_active V w1" "rtc_settled V w1" "v_loaded V w1 = v_loaded V w"
    "v_ticks V w \<le> v_ticks V w1" by auto
  obtain c0 w2 where r2: "rd D RTC_0 w1 = (c0, w2)" by (cases "rd D RTC_0 w1")
  with D(6) [OF 1(1), of RTC_0] D(8) [OF 1(1,2) r2] 1 have
    2: "rtc_passes V w1 w2" "(v_latch V w2, c0) = (tick ^^ v_ticks V w2) (v_loaded V w)" by simp_all
  with 1(1) rtc_passesD(1) [OF 2(1)] have a2: "v_active V w2" by simp
  obtain c1 w3 where r3: "rd D RTC_1 w2 = (c1, w3)" by (cases "rd D RTC_1 w2")
  with D(9) [OF a2] D(6) [OF a2, of RTC_1] have 3: "c1 = v_latch V w2" "rtc_passes V w2 w3" by simp_all
  have "rtc_get_datetime D t0 w = (True, Some (datetime_of c0 c1), w3)"
    using p1(1) by (simp add: rtc_get_datetime_def rtc_running_def r r2 r3)
  moreover have "(case (tick ^^ v_ticks V w2) (v_loaded V w) of (a, b) \<Rightarrow> datetime_of b a) = datetime_of c0 c1"
    unfolding 2(2) [symmetric] 3(1) by simp
  ultimately show ?thesis
    using 1(4) rtc_passesD(4) [OF 2(1)] rtc_passesD(4) [OF 3(2)]
    by (intro exI [of _ "v_ticks V w2"] exI [of _ w3]) (simp add: Let_def)
qed

section \<open>Properties\<close>

text \<open>
  A device for the witnesses. Four accesses take a cycle of its clock, a tick every 50 cycles
  increments RTC_0, and until three cycles after a LOAD the counters read as 0.
\<close>

record sim_rtc =
  sim_setup :: "u32 \<times> u32"
  sim_loaded :: "u32 \<times> u32"
  sim_load_cycle :: nat
  sim_accesses :: nat
  sim_active :: bool
  sim_latch :: u32

definition sim_cycle :: "sim_rtc \<Rightarrow> nat" where
  "sim_cycle w = sim_accesses w div 4"

definition sim_ticks :: "sim_rtc \<Rightarrow> nat" where
  "sim_ticks w = (sim_cycle w - sim_load_cycle w) div 50"

definition sim_tick :: "u32 \<times> u32 \<Rightarrow> u32 \<times> u32" where
  "sim_tick c = (fst c, snd c + 1)"

definition sim_counter :: "sim_rtc \<Rightarrow> u32 \<times> u32" where
  "sim_counter w = (if sim_load_cycle w + 3 \<le> sim_cycle w then (sim_tick ^^ sim_ticks w) (sim_loaded w)
     else (0, 0))"

definition sim_read :: "rtc_reg \<Rightarrow> sim_rtc \<Rightarrow> u32 \<times> sim_rtc" where
  "sim_read r w = (let w1 = w\<lparr>sim_accesses := sim_accesses w + 1\<rparr> in
     case r of CTRL \<Rightarrow> (if sim_active w then 2 else 0, w1)
     | RTC_0 \<Rightarrow> (snd (sim_counter w1), w1\<lparr>sim_latch := fst (sim_counter w1)\<rparr>)
     | RTC_1 \<Rightarrow> (sim_latch w, w1)
     | _ \<Rightarrow> (0, w1))"

definition sim_write :: "rtc_reg \<Rightarrow> u32 \<Rightarrow> sim_rtc \<Rightarrow> sim_rtc" where
  "sim_write r v w = (let w1 = w\<lparr>sim_accesses := sim_accesses w + 1\<rparr> in
     case r of SETUP_0 \<Rightarrow> w1\<lparr>sim_setup := (v, snd (sim_setup w))\<rparr>
     | SETUP_1 \<Rightarrow> w1\<lparr>sim_setup := (fst (sim_setup w), v)\<rparr>
     | CTRL \<Rightarrow> if bit v 4
         then w1\<lparr>sim_loaded := sim_setup w, sim_load_cycle := sim_cycle w1, sim_active := bit v 0\<rparr>
         else w1\<lparr>sim_active := bit v 0\<rparr>
     | _ \<Rightarrow> w1)"

definition rtc_sim :: "sim_rtc rtc_dev" where
  "rtc_sim = \<lparr> rd = sim_read, wr = sim_write, hw_set = (\<lambda>r v w. w), hw_clear = (\<lambda>r v w. w), hw_reset = (\<lambda>w. w) \<rparr>"

definition sim_view :: "sim_rtc rtc_view" where
  "sim_view = \<lparr> v_setup = sim_setup, v_loaded = sim_loaded, v_load_cycle = sim_load_cycle,
     v_cycle = sim_cycle, v_ticks = sim_ticks, v_active = sim_active, v_latch = sim_latch \<rparr>"

lemma sim_poll:
  "sim_active w = want \<Longrightarrow>
    rtc_poll rtc_sim CTRL RTC_CTRL_RTC_ACTIVE_BITS want w = Some (w\<lparr>sim_accesses := sim_accesses w + 1\<rparr>)"
  by (subst rtc_poll.simps) (auto simp: rtc_sim_def sim_read_def Let_def RTC_CTRL_RTC_ACTIVE_BITS_def)

lemma rtc_sim_documented: "rtc_documented rtc_sim sim_view sim_tick"
  unfolding rtc_documented_def
proof (intro conjI allI impI)
  fix w :: sim_rtc and r
  have m: "(a - c) div 50 \<le> (b - c) div 50" if "a \<le> b" for a b c :: nat
    using that by (intro div_le_mono) simp
  have "sim_cycle w \<le> sim_cycle (w\<lparr>sim_accesses := sim_accesses w + 1\<rparr>)"
    unfolding sim_cycle_def by (rule div_le_mono) simp
  with m [OF this] show "rtc_passes sim_view w (snd (rd rtc_sim r w))"
    by (auto simp: rtc_passes_def sim_view_def rtc_sim_def sim_read_def sim_ticks_def sim_cycle_def Let_def
        split: rtc_reg.split)
next
  fix w w' v
  assume a: "v_active sim_view w" "rtc_settled sim_view w" "rd rtc_sim RTC_0 w = (v, w')"
  have "sim_cycle w \<le> sim_cycle (w\<lparr>sim_accesses := sim_accesses w + 1\<rparr>)"
    unfolding sim_cycle_def by (rule div_le_mono) simp
  with a show "(v_latch sim_view w', v) = (sim_tick ^^ v_ticks sim_view w') (v_loaded sim_view w)"
    by (auto simp: rtc_settled_def sim_view_def rtc_sim_def sim_read_def sim_counter_def sim_ticks_def
        sim_cycle_def Let_def)
next
  fix w
  show "\<exists>w'. rtc_poll rtc_sim CTRL RTC_CTRL_RTC_ACTIVE_BITS False (wr rtc_sim CTRL 0 w) = Some w' \<and>
      \<not> v_active sim_view w'"
    by (subst sim_poll) (simp_all add: rtc_sim_def sim_write_def sim_view_def)
  assume "\<not> v_active sim_view w"
  show "\<exists>w'. rtc_poll rtc_sim CTRL RTC_CTRL_RTC_ACTIVE_BITS True (wr rtc_sim CTRL RTC_CTRL_RTC_ENABLE_BITS w) =
      Some w' \<and> v_active sim_view w' \<and> v_loaded sim_view w' = v_loaded sim_view w \<and>
      v_load_cycle sim_view w' = v_load_cycle sim_view w \<and> v_cycle sim_view w \<le> v_cycle sim_view w'"
    by (subst sim_poll)
      (simp_all add: rtc_sim_def sim_write_def sim_view_def RTC_CTRL_RTC_ENABLE_BITS_def sim_cycle_def div_le_mono)
qed (simp_all add: rtc_sim_def sim_view_def sim_write_def sim_read_def sim_cycle_def Let_def
    RTC_CTRL_RTC_ACTIVE_BITS_def RTC_CTRL_LOAD_BITS_def RTC_CTRL_RTC_ENABLE_BITS_def)

definition sim_start :: sim_rtc where
  "sim_start = \<lparr> sim_setup = (0, 0), sim_loaded = (0, 0), sim_load_cycle = 0, sim_accesses = 7,
     sim_active = True, sim_latch = 0 \<rparr>"

definition sim_loaded_with :: "datetime \<Rightarrow> sim_rtc" where
  "sim_loaded_with t = \<lparr> sim_setup = (setup_0_value t, setup_1_value t),
     sim_loaded = (setup_0_value t, setup_1_value t), sim_load_cycle = 3, sim_accesses = 14,
     sim_active = True, sim_latch = 0 \<rparr>"

lemma sim_set:
  assumes "valid_datetime t"
  shows "rtc_set_datetime rtc_sim t sim_start = Some (True, sim_loaded_with t)"
proof -
  have w: "wr rtc_sim = sim_write" by (simp add: rtc_sim_def)
  have p: "rtc_poll rtc_sim CTRL RTC_CTRL_RTC_ACTIVE_BITS False (sim_write CTRL 0 sim_start)
      = Some (sim_start\<lparr>sim_active := False, sim_accesses := 9\<rparr>)"
    by (subst sim_poll) (simp_all add: sim_write_def sim_start_def)
  show ?thesis
    using assms
    by (simp add: rtc_set_datetime_def w p Let_def)
      (simp add: sim_poll sim_write_def sim_start_def sim_cycle_def sim_loaded_with_def
        RTC_CTRL_LOAD_BITS_def RTC_CTRL_RTC_ENABLE_BITS_def)
qed

text \<open>
  C13. On a clock that behaves as documented, setting any valid date and time returns true
  with the clock running. When three cycles of the RTC clock have passed since the load (the
  delay \<open>rtc.h\<close> warns of), whatever was read meanwhile, \<open>rtc_get_datetime\<close> gives the time set
  as \<open>k\<close> ticks of the counters have changed it, where \<open>k\<close> is the number of ticks at one
  moment of the call, also if a tick falls between its two reads; before the first tick it
  gives exactly the date and time set, in all seven fields.
\<close>
theorem rtc_set_then_get:
  assumes "rtc_documented D V tick" and "valid_datetime t"
  shows "\<exists>w1. rtc_set_datetime D t w = Some (True, w1) \<and> v_active V w1 \<and>
    (\<forall>rs t0. rtc_settled V (after_reads D rs w1) \<longrightarrow>
      (\<exists>k d w3. rtc_get_datetime D t0 (after_reads D rs w1) = (True, Some d, w3) \<and>
        v_ticks V (after_reads D rs w1) \<le> k \<and> k \<le> v_ticks V w3 \<and>
        d = (let (c0, c1) = (tick ^^ k) (setup_0_value t, setup_1_value t) in datetime_of c1 c0) \<and>
        (k = 0 \<longrightarrow> d = t)))"
proof -
  obtain w1 where w1: "rtc_set_datetime D t w = Some (True, w1)" "v_active V w1"
      "v_loaded V w1 = (setup_0_value t, setup_1_value t)"
    using set_datetime_loads [OF assms] by blast
  have "\<exists>k d w3. rtc_get_datetime D t0 (after_reads D rs w1) = (True, Some d, w3) \<and>
        v_ticks V (after_reads D rs w1) \<le> k \<and> k \<le> v_ticks V w3 \<and>
        d = (let (c0, c1) = (tick ^^ k) (setup_0_value t, setup_1_value t) in datetime_of c1 c0) \<and>
        (k = 0 \<longrightarrow> d = t)" if s: "rtc_settled V (after_reads D rs w1)" for rs t0
  proof -
    note p = after_reads_passes [OF assms(1) w1(2), of rs]
    have "v_active V (after_reads D rs w1)" using rtc_passesD(1) [OF p] w1(2) by simp
    from get_datetime_consistent [OF assms(1) this s, of t0] rtc_passesD(2) [OF p] w1(3)
    show ?thesis by (force simp: datetime_of_setup [OF assms(2)])
  qed
  with w1 show ?thesis by blast
qed

definition new_year :: datetime where
  "new_year = \<lparr> year = 4095, month = 12, day = 31, dotw = 6, hour = 23, minute = 59, sec = 59 \<rparr>"

text \<open>Read at once, the device shows nothing of the new time yet; after ten reads it does.\<close>

theorem rtc_set_then_get_witness:
  "\<exists>w1 w3. rtc_set_datetime rtc_sim new_year sim_start = Some (True, w1)
     \<and> fst (snd (rtc_get_datetime rtc_sim None w1)) \<noteq> Some new_year
     \<and> rtc_get_datetime rtc_sim None (after_reads rtc_sim (replicate 10 CTRL) w1) = (True, Some new_year, w3)"
proof -
  have v: "valid_datetime new_year"
    by (simp add: valid_datetime_def new_year_def)
  let ?w1 = "sim_loaded_with new_year" and ?rs = "replicate 10 CTRL"
  from rtc_set_then_get [OF rtc_sim_documented v, of sim_start] sim_set [OF v]
  have get: "rtc_settled sim_view (after_reads rtc_sim rs ?w1) \<Longrightarrow>
        (\<exists>k d w3. rtc_get_datetime rtc_sim None (after_reads rtc_sim rs ?w1) = (True, Some d, w3)
          \<and> k \<le> v_ticks sim_view w3 \<and> (k = 0 \<longrightarrow> d = new_year))" for rs
    by fastforce
  have "rtc_settled sim_view (after_reads rtc_sim ?rs ?w1)"
    "v_ticks sim_view (snd (snd (rtc_get_datetime rtc_sim None (after_reads rtc_sim ?rs ?w1)))) = 0"
    "fst (snd (rtc_get_datetime rtc_sim None ?w1)) \<noteq> Some new_year"
    by code_simp+
  with get [of ?rs] sim_set [OF v] show ?thesis by auto
qed

definition tm_in_range :: "tm \<Rightarrow> bool" where
  "tm_in_range p \<longleftrightarrow> tm_sec p \<le> 59 \<and> tm_min p \<le> 59 \<and> tm_hour p \<le> 23 \<and> 1 \<le> tm_mday p \<and> tm_mday p \<le> 31 \<and>
     tm_mon p \<le> 11 \<and> tm_year p \<le> 4095 \<and> tm_wday p \<le> 6"

lemma narrow_back:
  fixes x :: u32
  assumes "x \<le> 4095"
  shows "scast (ucast x :: u16) = x" and "sint (ucast x :: u16) = uint x"
proof -
  have "0 \<le> uint x"
    by (rule unsigned_greater_eq)
  then have "- 32768 \<le> uint x"
    by linarith
  then have u: "uint x < 2 ^ 15" "- (2 ^ 15) \<le> uint x"
    using assms by (simp_all add: word_le_def)
  show s: "sint (ucast x :: u16) = uint x"
    unfolding signed_ucast_eq using u by (intro signed_take_bit_int_eq_self) simp_all
  have "scast (ucast x :: u16) = (of_int (sint (ucast x :: u16)) :: u32)"
    by simp
  then show "scast (ucast x :: u16) = x"
    unfolding s by simp
qed

lemma narrow_back8:
  fixes x :: u32
  assumes "x \<le> 127"
  shows "scast (ucast x :: u8) = x" and "sint (ucast x :: u8) = uint x"
proof -
  have "0 \<le> uint x"
    by (rule unsigned_greater_eq)
  then have "- 128 \<le> uint x"
    by linarith
  then have u: "uint x < 2 ^ 7" "- (2 ^ 7) \<le> uint x"
    using assms by (simp_all add: word_le_def)
  show s: "sint (ucast x :: u8) = uint x"
    unfolding signed_ucast_eq using u by (intro signed_take_bit_int_eq_self) simp_all
  have "scast (ucast x :: u8) = (of_int (sint (ucast x :: u8)) :: u32)"
    by simp
  then show "scast (ucast x :: u8) = x"
    unfolding s by simp
qed

lemma tm_of_datetime_of_tm:
  assumes "tm_in_range p"
  shows "tm_of (datetime_of_tm p) = p\<lparr>tm_mon := tm_mon p - 1, tm_year := tm_year p - 1900\<rparr>"
proof -
  have "tm_sec p \<le> 127" "tm_min p \<le> 127" "tm_hour p \<le> 127" "tm_mday p \<le> 127" "tm_mon p \<le> 127"
    "tm_wday p \<le> 127" "tm_year p \<le> 4095"
    using assms by (auto simp: tm_in_range_def elim: order_trans)
  then show ?thesis
    by (simp add: tm_of_def datetime_of_tm_def narrow_back narrow_back8)
qed

lemma valid_datetime_of_tm:
  assumes "tm_in_range p"
  shows "valid_datetime (datetime_of_tm p) \<longleftrightarrow> tm_mon p \<noteq> 0"
proof -
  have r: "tm_sec p \<le> 127" "tm_min p \<le> 127" "tm_hour p \<le> 127" "tm_mday p \<le> 127" "tm_mon p \<le> 127"
    "tm_wday p \<le> 127" "tm_year p \<le> 4095"
    using assms by (auto simp: tm_in_range_def elim: order_trans)
  have z: "1 \<le> uint (tm_mon p) \<longleftrightarrow> tm_mon p \<noteq> 0"
    using unsigned_greater_eq [of "tm_mon p", where ?'a = int] by (auto simp: unsigned_eq_0_iff int_one_le_iff_zero_less order_le_less)
  show ?thesis
    using assms unsigned_greater_eq [where ?'a = int]
    by (simp add: valid_datetime_def datetime_of_tm_def narrow_back narrow_back8 r z tm_in_range_def word_le_def)
qed

text \<open>
  \<open>set_now_tm\<close> passes the month (0 to 11 in C) and the year (since 1900) to the clock
  unchanged, while \<open>now\<close> converts back from 1 to 12 and from the full year: in January it
  fails and the clock is left as it was; otherwise \<open>now\<close>, before the first tick, gives the
  time one month and 1900 years before the one set.
\<close>
theorem set_now_tm_shifts:
  assumes "rtc_documented D V tick" and "tm_in_range p"
  shows "if tm_mon p = 0 then set_now_tm D p w = Some (False, w)
    else \<exists>w1. set_now_tm D p w = Some (True, w1) \<and>
      (\<forall>rs. rtc_settled V (after_reads D rs w1) \<longrightarrow> (\<exists>x w3. now D mktime (after_reads D rs w1) = Some (x, w3) \<and>
        (v_ticks V w3 = 0 \<longrightarrow> x = mktime (p\<lparr>tm_mon := tm_mon p - 1, tm_year := tm_year p - 1900\<rparr>))))"
proof (cases "tm_mon p = 0")
  case True
  then show ?thesis
    using valid_datetime_of_tm [OF assms(2)] by (simp add: set_now_tm_def rtc_set_datetime_def)
next
  case False
  then have v: "valid_datetime (datetime_of_tm p)"
    using valid_datetime_of_tm [OF assms(2)] by simp
  obtain w1 where w1: "rtc_set_datetime D (datetime_of_tm p) w = Some (True, w1)" "v_active V w1"
      "v_loaded V w1 = (setup_0_value (datetime_of_tm p), setup_1_value (datetime_of_tm p))"
    using set_datetime_loads [OF assms(1) v] by blast
  have "\<exists>x w3. now D mktime (after_reads D rs w1) = Some (x, w3) \<and>
      (v_ticks V w3 = 0 \<longrightarrow> x = mktime (p\<lparr>tm_mon := tm_mon p - 1, tm_year := tm_year p - 1900\<rparr>))"
    if s: "rtc_settled V (after_reads D rs w1)" for rs
  proof -
    note q = after_reads_passes [OF assms(1) w1(2), of rs]
    have "v_active V (after_reads D rs w1)" using rtc_passesD(1) [OF q] w1(2) by simp
    from get_datetime_consistent [OF assms(1) this s, of None] rtc_passesD(2) [OF q] w1(3)
    obtain k d w3 where g: "rtc_get_datetime D None (after_reads D rs w1) = (True, Some d, w3)"
        "k \<le> v_ticks V w3" "k = 0 \<longrightarrow> d = datetime_of_tm p"
      by (force simp: datetime_of_setup [OF v])
    with tm_of_datetime_of_tm [OF assms(2)] show ?thesis
      by (intro exI [of _ "mktime (tm_of d)"] exI [of _ w3]) (simp add: now_def)
  qed
  with False w1(1) show ?thesis by (auto simp: set_now_tm_def)
qed

definition christmas :: tm where
  "christmas = \<lparr> tm_sec = 0, tm_min = 30, tm_hour = 18, tm_mday = 24, tm_mon = 11, tm_year = 124, tm_wday = 2 \<rparr>"

theorem set_now_tm_shifts_witness:
  "\<exists>w1. set_now_tm rtc_sim christmas sim_start = Some (True, w1) \<and>
     map_option fst (now rtc_sim (\<lambda>p. (tm_mon p, tm_year p)) (after_reads rtc_sim (replicate 10 CTRL) w1))
       = Some (10, - 1776)"
proof -
  have r: "tm_in_range christmas" "tm_mon christmas \<noteq> 0"
    by (simp_all add: tm_in_range_def christmas_def)
  let ?w1 = "sim_loaded_with (datetime_of_tm christmas)" and ?rs = "replicate 10 CTRL"
  have w1: "set_now_tm rtc_sim christmas sim_start = Some (True, ?w1)"
    using r valid_datetime_of_tm [OF r(1)] by (simp add: set_now_tm_def sim_set)
  from set_now_tm_shifts [OF rtc_sim_documented r(1), of sim_start "\<lambda>p. (tm_mon p, tm_year p)"] r(2) w1
  have n: "rtc_settled sim_view (after_reads rtc_sim rs ?w1) \<Longrightarrow> \<exists>x w3.
        now rtc_sim (\<lambda>p. (tm_mon p, tm_year p)) (after_reads rtc_sim rs ?w1) = Some (x, w3) \<and>
        (v_ticks sim_view w3 = 0 \<longrightarrow> x = (10, - 1776))" for rs
    by (auto simp: christmas_def)
  have "rtc_settled sim_view (after_reads rtc_sim ?rs ?w1)"
    "v_ticks sim_view (snd (the (now rtc_sim (\<lambda>p. (tm_mon p, tm_year p)) (after_reads rtc_sim ?rs ?w1)))) = 0"
    by code_simp+
  with n [of ?rs] w1 show ?thesis by auto
qed

end
