(* ===== verification/Crc.thy ===== *)
theory Crc
  imports Prelude
begin

text \<open>
  The checksum of the file system, \<open>lfs_crc\<close> of \<open>library/lfs/lfs_util.c\<close>: two table look-ups
  per byte, against the bit-serial shift register of the CRC-32 polynomial.
\<close>

definition rtable :: "u32 list" where
  "rtable = [
     0x00000000, 0x1db71064, 0x3b6e20c8, 0x26d930ac,
     0x76dc4190, 0x6b6b51f4, 0x4db26158, 0x5005713c,
     0xedb88320, 0xf00f9344, 0xd6d6a3e8, 0xcb61b38c,
     0x9b64c2b0, 0x86d3d2d4, 0xa00ae278, 0xbdbdf21c]"

definition crc_nibble :: "u32 \<Rightarrow> u32 \<Rightarrow> u32" where
  "crc_nibble crc d = drop_bit 4 crc XOR rtable ! unat ((crc XOR d) AND 0xf)"

fun crc_loop :: "u32 \<Rightarrow> u8 list \<Rightarrow> u32" where
  "crc_loop crc [] = crc"
| "crc_loop crc (b # data) =
     crc_loop (crc_nibble (crc_nibble crc (drop_bit 0 (ucast b))) (drop_bit 4 (ucast b))) data"

definition lfs_crc :: "u32 \<Rightarrow> u8 list \<Rightarrow> nat \<Rightarrow> u32 option" where
  "lfs_crc crc buffer len = map_option (crc_loop crc) (memcpy_out buffer 0 len)"

section \<open>The shift register\<close>

definition crc_shift :: "u32 \<Rightarrow> u32" where
  "crc_shift c = drop_bit 1 c XOR (if bit c 0 then 0xedb88320 else 0)"

definition crc_bit :: "u32 \<Rightarrow> bool \<Rightarrow> u32" where
  "crc_bit c b = drop_bit 1 c XOR (if bit c 0 \<noteq> b then 0xedb88320 else 0)"

definition byte_bits :: "u8 \<Rightarrow> bool list" where
  "byte_bits b = map (bit b) [0..<8]"

text \<open>The bits of the message one after the other, each byte with its lowest bit first.\<close>

definition crc_serial :: "u32 \<Rightarrow> u8 list \<Rightarrow> u32" where
  "crc_serial c data = foldl crc_bit c (concat (map byte_bits data))"

lemma crc_shift_xor: "crc_shift (a XOR b) = crc_shift a XOR crc_shift b"
  by (auto simp: crc_shift_def bit_simps drop_bit_xor ac_simps xor.assoc xor.left_commute)

lemma crc_shift_push:
  assumes "\<And>j. bit y j \<Longrightarrow> j + m < 32" and "0 < m"
  shows "crc_shift (push_bit m y) = push_bit (m - 1) y"
proof -
  have "\<not> bit (push_bit m y) 0"
    using assms(2) by (simp add: bit_push_bit_iff)
  then have "crc_shift (push_bit m y) = drop_bit 1 (push_bit m y)"
    by (simp add: crc_shift_def)
  also have "\<dots> = push_bit (m - 1) y"
  proof (rule bit_eqI)
    fix n
    show "bit (drop_bit 1 (push_bit m y)) n = bit (push_bit (m - 1) y) n"
      using assms(1) [of "Suc n - m"] assms(2) by (auto simp: bit_drop_bit_eq bit_push_bit_iff)
  qed
  finally show ?thesis .
qed

lemma crc_shift4_xor:
  "(crc_shift ^^ 4) (a XOR b) = (crc_shift ^^ 4) a XOR (crc_shift ^^ 4) b"
  by (simp add: numeral_eq_Suc crc_shift_xor)

lemma crc_shift4_high: "(crc_shift ^^ 4) (push_bit 4 (drop_bit 4 x)) = drop_bit 4 x"
proof -
  have y: "bit (drop_bit 4 x) j \<Longrightarrow> j + m < 32" if "m \<le> 4" for j m
    using that by (auto simp: bit_simps dest: bit_imp_le_length)
  have four: "(crc_shift ^^ 4) v = crc_shift (crc_shift (crc_shift (crc_shift v)))" for v
    by (simp add: numeral_eq_Suc)
  let ?y = "drop_bit 4 x"
  have p: "crc_shift (push_bit 4 ?y) = push_bit 3 ?y" "crc_shift (push_bit 3 ?y) = push_bit 2 ?y"
    "crc_shift (push_bit 2 ?y) = push_bit 1 ?y" "crc_shift (push_bit 1 ?y) = ?y"
    using crc_shift_push [of ?y 4, OF y] crc_shift_push [of ?y 3, OF y] crc_shift_push [of ?y 2, OF y]
      crc_shift_push [of ?y 1, OF y] by simp_all
  show ?thesis
    unfolding four p ..
qed

lemma crc_shift4_low: "n < 16 \<Longrightarrow> (crc_shift ^^ 4) (of_nat n) = rtable ! n"
proof -
  have "\<forall>n \<in> set [0..<16]. (crc_shift ^^ 4) (of_nat n) = rtable ! n"
    by code_simp
  then show "n < 16 \<Longrightarrow> ?thesis"
    by simp
qed

lemma crc_shift4: "(crc_shift ^^ 4) x = drop_bit 4 x XOR rtable ! unat (x AND 0xf)"
proof -
  have "x = push_bit 4 (drop_bit 4 x) XOR (x AND 0xf)"
  proof (rule bit_eqI)
    fix n
    have "bit (0xf :: u32) n \<longleftrightarrow> n < 4"
    proof -
      have "(0xf :: u32) = mask 4"
        by (simp add: mask_eq_exp_minus_1)
      then show ?thesis
        by (simp only: bit_mask_iff) auto
    qed
    then show "bit x n = bit (push_bit 4 (drop_bit 4 x) XOR (x AND 0xf)) n"
      by (auto simp: bit_simps dest: bit_imp_le_length)
  qed
  moreover have "unat (x AND 0xf) < 16"
    using word_and_le1 [of x 15] by (simp add: word_le_nat_alt)
  then have "(crc_shift ^^ 4) (x AND 0xf) = rtable ! unat (x AND 0xf)"
    using crc_shift4_low [of "unat (x AND 0xf)"] by simp
  ultimately show ?thesis
    by (metis crc_shift4_high crc_shift4_xor)
qed

lemma crc_nibble_shift:
  assumes "drop_bit 8 d = 0"
  shows "crc_nibble c d = (crc_shift ^^ 4) (c XOR d) XOR drop_bit 4 d"
  by (simp add: crc_nibble_def crc_shift4 drop_bit_xor ac_simps xor.assoc xor.left_commute)

lemma crc_byte_shift:
  fixes b :: u8
  shows "crc_nibble (crc_nibble c (drop_bit 0 (ucast b))) (drop_bit 4 (ucast b)) =
    (crc_shift ^^ 8) (c XOR ucast b)"
proof -
  let ?d = "ucast b :: u32"
  have d: "drop_bit 8 ?d = 0"
    by (rule bit_eqI) (auto simp: bit_simps dest: bit_imp_le_length)
  then have d': "drop_bit 8 (drop_bit 4 ?d) = 0"
    by (rule_tac bit_eqI) (auto simp: bit_simps dest: bit_imp_le_length)
  have d4: "drop_bit 4 (drop_bit 4 ?d) = 0"
    using d by simp
  have "(8 :: nat) = 4 + 4"
    by simp
  then have "(crc_shift ^^ 8) v = (crc_shift ^^ 4) ((crc_shift ^^ 4) v)" for v
    by (simp only: funpow_add comp_apply)
  moreover have "crc_nibble c (drop_bit 0 ?d) = (crc_shift ^^ 4) (c XOR ?d) XOR drop_bit 4 ?d"
    using crc_nibble_shift [OF d] by simp
  moreover have "crc_nibble ((crc_shift ^^ 4) (c XOR ?d) XOR drop_bit 4 ?d) (drop_bit 4 ?d) =
      (crc_shift ^^ 4) ((crc_shift ^^ 4) (c XOR ?d))"
    unfolding crc_nibble_shift [OF d'] d4 by (simp add: xor.assoc)
  ultimately show ?thesis
    by simp
qed

text \<open>One byte through the register bit by bit.\<close>

lemma crc_bit_shift: "crc_bit c b = crc_shift (c XOR (if b then 1 else 0))"
  by (cases b) (simp_all add: crc_bit_def crc_shift_def drop_bit_xor bit_xor_iff drop_bit_Suc)

fun bits_word :: "bool list \<Rightarrow> u32" where
  "bits_word [] = 0"
| "bits_word (b # bs) = (if b then 1 else 0) XOR push_bit 1 (bits_word bs)"

lemma bit_bits_word: "length bs \<le> 32 \<Longrightarrow> bit (bits_word bs) j \<longleftrightarrow> j < length bs \<and> bs ! j"
proof (induction bs arbitrary: j)
  case (Cons b bs)
  have b: "bit (if b then 1 else 0 :: u32) j \<longleftrightarrow> b \<and> j = 0"
    by (simp add: bit_1_iff)
  show ?case
  proof (cases j)
    case 0
    then show ?thesis
      unfolding bits_word.simps bit_xor_iff bit_push_bit_iff b by simp
  next
    case (Suc i)
    have "bit (bits_word bs) i \<longleftrightarrow> i < length bs \<and> bs ! i"
      using Cons by simp
    with Suc Cons.prems show ?thesis
      unfolding bits_word.simps bit_xor_iff bit_push_bit_iff b by auto
  qed
qed simp

lemma crc_shift_bits: "length bs \<le> 31 \<Longrightarrow> crc_shift (push_bit 1 (bits_word bs)) = bits_word bs"
  using crc_shift_push [of "bits_word bs" 1] by (auto simp: bit_bits_word)

lemma crc_bits_shift:
  "length bs \<le> 32 \<Longrightarrow> foldl crc_bit c bs = (crc_shift ^^ length bs) (c XOR bits_word bs)"
proof (induction bs arbitrary: c)
  case (Cons b bs)
  let ?b = "if b then 1 else (0 :: u32)"
  have "crc_shift (c XOR bits_word (b # bs)) = crc_shift (c XOR ?b) XOR crc_shift (push_bit 1 (bits_word bs))"
    by (simp only: bits_word.simps crc_shift_xor [symmetric] xor.assoc)
  also have "\<dots> = crc_bit c b XOR bits_word bs"
    using Cons.prems crc_shift_bits [of bs] by (simp add: crc_bit_shift)
  finally show ?case
    using Cons by (simp add: funpow_swap1 del: bits_word.simps)
qed simp

lemma bits_word_byte: "bits_word (byte_bits b) = ucast b"
proof (rule bit_eqI)
  fix n
  show "bit (bits_word (byte_bits b)) n = bit (ucast b :: u32) n"
    using bit_imp_le_length [of b n] by (cases "n < 8") (auto simp: bit_bits_word byte_bits_def bit_simps)
qed

lemma crc_loop_serial: "crc_loop c data = crc_serial c data"
proof (induction c data rule: crc_loop.induct)
  case (2 c b data)
  have "foldl crc_bit c (byte_bits b) = (crc_shift ^^ 8) (c XOR ucast b)"
    using crc_bits_shift [of "byte_bits b" c] by (simp add: bits_word_byte) (simp add: byte_bits_def)
  with 2 show ?case
    by (simp only: crc_loop.simps crc_byte_shift crc_serial_def list.map concat.simps foldl_append)
qed (simp add: crc_serial_def)

section \<open>Properties\<close>

text \<open>
  C26. The table-driven checksum is the CRC-32 of the message: for every start value and
  every buffer it equals feeding the bits of the first \<open>size\<close> bytes, lowest bit first,
  through the shift register of the polynomial 0x04c11db7 (reflected 0xedb88320); and a
  message may be checksummed in two parts.
\<close>
theorem lfs_crc_is_crc32:
  assumes "n \<le> length buffer"
  shows "lfs_crc crc buffer n = Some (crc_serial crc (take n buffer)) \<and>
    (\<exists>c1. lfs_crc crc (take k buffer) (min k n) = Some c1 \<and>
      lfs_crc c1 (drop k buffer) (n - k) = lfs_crc crc buffer n)"
proof -
  have a: "lfs_crc c b l = Some (crc_serial c (take l b))" if "l \<le> length b" for c b l
    using that by (simp add: lfs_crc_def memcpy_out_def crc_loop_serial)
  have "take n buffer = take (min k n) (take k buffer) @ take (n - k) (drop k buffer)"
  proof (cases "k \<le> n")
    case True
    then have "take n buffer = take (k + (n - k)) buffer"
      by simp
    also have "\<dots> = take k buffer @ take (n - k) (drop k buffer)"
      by (rule take_add)
    finally show ?thesis
      using True by (simp add: min_def)
  qed (simp add: min_def)
  then have "crc_serial (crc_serial crc (take (min k n) (take k buffer))) (take (n - k) (drop k buffer)) =
      crc_serial crc (take n buffer)"
    by (simp only: crc_serial_def map_append concat_append foldl_append)
  moreover have "min k n \<le> length (take k buffer)" "n - k \<le> length (drop k buffer)"
    using assms by simp_all
  ultimately show ?thesis
    using assms by (simp only: a) simp
qed

theorem lfs_crc_is_crc32_witness:
  "lfs_crc 0xffffffff [49, 50, 51] 3 = Some (crc_serial 0xffffffff [49, 50, 51]) \<and>
   (\<exists>c1. lfs_crc 0xffffffff [49] 1 = Some c1 \<and> lfs_crc c1 [50, 51] 2 = lfs_crc 0xffffffff [49, 50, 51] 3)"
  using lfs_crc_is_crc32 [of 3 "[49, 50, 51]" "0xffffffff" 1] by (auto simp: numeral_eq_Suc)

end
