(* ===== verification/Pio_Instr.thy ===== *)
theory Pio_Instr
  imports Prelude
begin

text \<open>
  The encoders of PIO instructions (\<open>SDK/include/hardware/pio_instructions.h\<close>). Their
  arguments and results are 32-bit words, as \<open>uint\<close> is; the parameter asserts are on, so the
  source and destination values carry their validity bits, and an invalid argument is \<open>None\<close>.
\<close>

section \<open>Opcodes, sources and destinations\<close>

definition pio_instr_bits_jmp :: u32 where "pio_instr_bits_jmp = 0x0000"
definition pio_instr_bits_wait :: u32 where "pio_instr_bits_wait = 0x2000"
definition pio_instr_bits_in :: u32 where "pio_instr_bits_in = 0x4000"
definition pio_instr_bits_out :: u32 where "pio_instr_bits_out = 0x6000"
definition pio_instr_bits_push :: u32 where "pio_instr_bits_push = 0x8000"
definition pio_instr_bits_pull :: u32 where "pio_instr_bits_pull = 0x8080"
definition pio_instr_bits_mov :: u32 where "pio_instr_bits_mov = 0xa000"
definition pio_instr_bits_irq :: u32 where "pio_instr_bits_irq = 0xc000"
definition pio_instr_bits_set :: u32 where "pio_instr_bits_set = 0xe000"

definition PIO_INVALID_IN_SRC :: u32 where "PIO_INVALID_IN_SRC = 0x08"
definition PIO_INVALID_OUT_DEST :: u32 where "PIO_INVALID_OUT_DEST = 0x10"
definition PIO_INVALID_SET_DEST :: u32 where "PIO_INVALID_SET_DEST = 0x20"
definition PIO_INVALID_MOV_SRC :: u32 where "PIO_INVALID_MOV_SRC = 0x40"
definition PIO_INVALID_MOV_DEST :: u32 where "PIO_INVALID_MOV_DEST = 0x80"

definition pio_pins :: u32 where "pio_pins = 0"
definition pio_x :: u32 where "pio_x = 1"
definition pio_y :: u32 where "pio_y = 2"
definition pio_null :: u32 where
  "pio_null = 3 OR PIO_INVALID_SET_DEST OR PIO_INVALID_MOV_DEST"
definition pio_pindirs :: u32 where
  "pio_pindirs = 4 OR PIO_INVALID_IN_SRC OR PIO_INVALID_MOV_SRC OR PIO_INVALID_MOV_DEST"
definition pio_exec_mov :: u32 where
  "pio_exec_mov = 4 OR PIO_INVALID_IN_SRC OR PIO_INVALID_OUT_DEST OR PIO_INVALID_SET_DEST OR PIO_INVALID_MOV_SRC"
definition pio_status :: u32 where
  "pio_status = 5 OR PIO_INVALID_IN_SRC OR PIO_INVALID_OUT_DEST OR PIO_INVALID_SET_DEST OR PIO_INVALID_MOV_DEST"
definition pio_pc :: u32 where
  "pio_pc = 5 OR PIO_INVALID_IN_SRC OR PIO_INVALID_SET_DEST OR PIO_INVALID_MOV_SRC"
definition pio_isr :: u32 where
  "pio_isr = 6 OR PIO_INVALID_SET_DEST"
definition pio_osr :: u32 where
  "pio_osr = 7 OR PIO_INVALID_OUT_DEST OR PIO_INVALID_SET_DEST"
definition pio_exec_out :: u32 where
  "pio_exec_out = 7 OR PIO_INVALID_IN_SRC OR PIO_INVALID_SET_DEST OR PIO_INVALID_MOV_SRC OR PIO_INVALID_MOV_DEST"

lemmas pio_opcode_defs =
  pio_instr_bits_jmp_def pio_instr_bits_wait_def pio_instr_bits_in_def pio_instr_bits_out_def
  pio_instr_bits_push_def pio_instr_bits_pull_def pio_instr_bits_mov_def pio_instr_bits_irq_def
  pio_instr_bits_set_def

lemmas pio_operand_defs =
  PIO_INVALID_IN_SRC_def PIO_INVALID_OUT_DEST_def PIO_INVALID_SET_DEST_def
  PIO_INVALID_MOV_SRC_def PIO_INVALID_MOV_DEST_def pio_pins_def pio_x_def pio_y_def pio_null_def
  pio_pindirs_def pio_exec_mov_def pio_status_def pio_pc_def pio_isr_def pio_osr_def pio_exec_out_def

section \<open>Encoders\<close>

definition pio_major_instr_bits :: "u32 \<Rightarrow> u32" where
  "pio_major_instr_bits instr = instr AND 0xe000"

definition pio_encode_instr_and_args :: "u32 \<Rightarrow> u32 \<Rightarrow> u32 \<Rightarrow> u32 option" where
  "pio_encode_instr_and_args instr_bits arg1 arg2 = do {
     c_assert (arg1 \<le> 7);
     let major = pio_major_instr_bits instr_bits;
     c_assert (if major = pio_instr_bits_in \<or> major = pio_instr_bits_out
               then arg2 \<noteq> 0 \<and> arg2 \<le> 32 else arg2 \<le> 31);
     Some (instr_bits OR push_bit 5 arg1 OR (arg2 AND 0x1f)) }"

definition pio_encode_instr_and_src_dest :: "u32 \<Rightarrow> u32 \<Rightarrow> u32 \<Rightarrow> u32 option" where
  "pio_encode_instr_and_src_dest instr_bits dest v = pio_encode_instr_and_args instr_bits (dest AND 7) v"

definition pio_encode_delay :: "u32 \<Rightarrow> u32 option" where
  "pio_encode_delay cycles = do { c_assert (cycles \<le> 0x1f); Some (push_bit 8 cycles) }"

definition pio_encode_sideset :: "nat \<Rightarrow> u32 \<Rightarrow> u32 option" where
  "pio_encode_sideset sideset_bit_count v = do {
     c_assert (sideset_bit_count \<ge> 1 \<and> sideset_bit_count \<le> 5);
     c_assert (v \<le> push_bit sideset_bit_count 1 - 1);
     Some (push_bit (13 - sideset_bit_count) v) }"

definition pio_encode_sideset_opt :: "nat \<Rightarrow> u32 \<Rightarrow> u32 option" where
  "pio_encode_sideset_opt sideset_bit_count v = do {
     c_assert (sideset_bit_count \<ge> 1 \<and> sideset_bit_count \<le> 4);
     c_assert (v \<le> push_bit sideset_bit_count 1 - 1);
     Some (0x1000 OR push_bit (12 - sideset_bit_count) v) }"

definition pio_encode_jmp :: "u32 \<Rightarrow> u32 option" where
  "pio_encode_jmp addr = pio_encode_instr_and_args pio_instr_bits_jmp 0 addr"

definition pio_encode_jmp_not_x :: "u32 \<Rightarrow> u32 option" where
  "pio_encode_jmp_not_x addr = pio_encode_instr_and_args pio_instr_bits_jmp 1 addr"

definition pio_encode_jmp_x_dec :: "u32 \<Rightarrow> u32 option" where
  "pio_encode_jmp_x_dec addr = pio_encode_instr_and_args pio_instr_bits_jmp 2 addr"

definition pio_encode_jmp_not_y :: "u32 \<Rightarrow> u32 option" where
  "pio_encode_jmp_not_y addr = pio_encode_instr_and_args pio_instr_bits_jmp 3 addr"

definition pio_encode_jmp_y_dec :: "u32 \<Rightarrow> u32 option" where
  "pio_encode_jmp_y_dec addr = pio_encode_instr_and_args pio_instr_bits_jmp 4 addr"

definition pio_encode_jmp_x_ne_y :: "u32 \<Rightarrow> u32 option" where
  "pio_encode_jmp_x_ne_y addr = pio_encode_instr_and_args pio_instr_bits_jmp 5 addr"

definition pio_encode_jmp_pin :: "u32 \<Rightarrow> u32 option" where
  "pio_encode_jmp_pin addr = pio_encode_instr_and_args pio_instr_bits_jmp 6 addr"

definition pio_encode_jmp_not_osre :: "u32 \<Rightarrow> u32 option" where
  "pio_encode_jmp_not_osre addr = pio_encode_instr_and_args pio_instr_bits_jmp 7 addr"

definition pio_encode_irq :: "bool \<Rightarrow> u32 \<Rightarrow> u32 option" where
  "pio_encode_irq relative irq = do {
     c_assert (irq \<le> 7); Some ((if relative then 0x10 else 0x0) OR irq) }"

definition pio_encode_wait_gpio :: "bool \<Rightarrow> u32 \<Rightarrow> u32 option" where
  "pio_encode_wait_gpio polarity gpio =
     pio_encode_instr_and_args pio_instr_bits_wait (0 OR (if polarity then 4 else 0)) gpio"

definition pio_encode_wait_pin :: "bool \<Rightarrow> u32 \<Rightarrow> u32 option" where
  "pio_encode_wait_pin polarity pin =
     pio_encode_instr_and_args pio_instr_bits_wait (1 OR (if polarity then 4 else 0)) pin"

definition pio_encode_wait_irq :: "bool \<Rightarrow> bool \<Rightarrow> u32 \<Rightarrow> u32 option" where
  "pio_encode_wait_irq polarity relative irq = do {
     c_assert (irq \<le> 7);
     arg2 \<leftarrow> pio_encode_irq relative irq;
     pio_encode_instr_and_args pio_instr_bits_wait (2 OR (if polarity then 4 else 0)) arg2 }"

definition pio_encode_in :: "u32 \<Rightarrow> u32 \<Rightarrow> u32 option" where
  "pio_encode_in src count = do {
     c_assert (src AND PIO_INVALID_IN_SRC = 0);
     pio_encode_instr_and_src_dest pio_instr_bits_in src count }"

definition pio_encode_out :: "u32 \<Rightarrow> u32 \<Rightarrow> u32 option" where
  "pio_encode_out dest count = do {
     c_assert (dest AND PIO_INVALID_OUT_DEST = 0);
     pio_encode_instr_and_src_dest pio_instr_bits_out dest count }"

definition pio_encode_push :: "bool \<Rightarrow> bool \<Rightarrow> u32 option" where
  "pio_encode_push if_full block =
     pio_encode_instr_and_args pio_instr_bits_push ((if if_full then 2 else 0) OR (if block then 1 else 0)) 0"

definition pio_encode_pull :: "bool \<Rightarrow> bool \<Rightarrow> u32 option" where
  "pio_encode_pull if_empty block =
     pio_encode_instr_and_args pio_instr_bits_pull ((if if_empty then 2 else 0) OR (if block then 1 else 0)) 0"

definition pio_encode_mov :: "u32 \<Rightarrow> u32 \<Rightarrow> u32 option" where
  "pio_encode_mov dest src = do {
     c_assert (dest AND PIO_INVALID_MOV_DEST = 0);
     c_assert (src AND PIO_INVALID_MOV_SRC = 0);
     pio_encode_instr_and_src_dest pio_instr_bits_mov dest (src AND 7) }"

definition pio_encode_mov_not :: "u32 \<Rightarrow> u32 \<Rightarrow> u32 option" where
  "pio_encode_mov_not dest src = do {
     c_assert (dest AND PIO_INVALID_MOV_DEST = 0);
     c_assert (src AND PIO_INVALID_MOV_SRC = 0);
     pio_encode_instr_and_src_dest pio_instr_bits_mov dest (push_bit 3 1 OR (src AND 7)) }"

definition pio_encode_mov_reverse :: "u32 \<Rightarrow> u32 \<Rightarrow> u32 option" where
  "pio_encode_mov_reverse dest src = do {
     c_assert (dest AND PIO_INVALID_MOV_DEST = 0);
     c_assert (src AND PIO_INVALID_MOV_SRC = 0);
     pio_encode_instr_and_src_dest pio_instr_bits_mov dest (push_bit 3 2 OR (src AND 7)) }"

definition pio_encode_irq_set :: "bool \<Rightarrow> u32 \<Rightarrow> u32 option" where
  "pio_encode_irq_set relative irq = do {
     arg2 \<leftarrow> pio_encode_irq relative irq;
     pio_encode_instr_and_args pio_instr_bits_irq 0 arg2 }"

definition pio_encode_irq_wait :: "bool \<Rightarrow> u32 \<Rightarrow> u32 option" where
  "pio_encode_irq_wait relative irq = do {
     arg2 \<leftarrow> pio_encode_irq relative irq;
     pio_encode_instr_and_args pio_instr_bits_irq 1 arg2 }"

definition pio_encode_irq_clear :: "bool \<Rightarrow> u32 \<Rightarrow> u32 option" where
  "pio_encode_irq_clear relative irq = do {
     arg2 \<leftarrow> pio_encode_irq relative irq;
     pio_encode_instr_and_args pio_instr_bits_irq 2 arg2 }"

definition pio_encode_set :: "u32 \<Rightarrow> u32 \<Rightarrow> u32 option" where
  "pio_encode_set dest v = do {
     c_assert (dest AND PIO_INVALID_SET_DEST = 0);
     pio_encode_instr_and_src_dest pio_instr_bits_set dest v }"

definition pio_encode_nop :: "u32 option" where
  "pio_encode_nop = pio_encode_mov pio_y pio_y"

lemmas pio_encode_defs =
  pio_encode_jmp_def pio_encode_jmp_not_x_def pio_encode_jmp_x_dec_def pio_encode_jmp_not_y_def
  pio_encode_jmp_y_dec_def pio_encode_jmp_x_ne_y_def pio_encode_jmp_pin_def
  pio_encode_jmp_not_osre_def pio_encode_wait_gpio_def pio_encode_wait_pin_def
  pio_encode_wait_irq_def pio_encode_in_def pio_encode_out_def pio_encode_push_def
  pio_encode_pull_def pio_encode_mov_def pio_encode_mov_not_def pio_encode_mov_reverse_def
  pio_encode_irq_set_def pio_encode_irq_wait_def pio_encode_irq_clear_def pio_encode_set_def

section \<open>Fields of an instruction\<close>

lemma word_less_bit:
  fixes x :: "'a::len word"
  assumes "unat x < 2 ^ n" and "n \<le> j"
  shows "\<not> bit x j"
proof -
  have "take_bit n (unat x) = unat x"
    using assms(1) by (simp add: take_bit_nat_eq_self)
  then have "\<not> bit (unat x) j"
    using assms(2) by (metis bit_take_bit_iff not_le)
  then show ?thesis
    by (simp add: bit_unsigned_iff)
qed

lemma and_mask_word:
  fixes v :: u32
  assumes "unat v < 2 ^ n"
  shows "v AND mask n = v"
proof (rule bit_eqI)
  fix j
  show "bit (v AND mask n) j = bit v j"
    using word_less_bit [OF assms, of j] by (cases "j < n") (auto simp: bit_and_iff bit_mask_iff dest: bit_imp_le_length)
qed

lemma and_0x1f:
  fixes v :: u32
  assumes "v \<le> 31"
  shows "v AND 0x1f = v"
  using and_mask_word [of v 5] assms by (simp add: word_le_nat_alt mask_eq_exp_minus_1)

lemma and_0x7:
  fixes v :: u32
  assumes "v \<le> 7"
  shows "v AND 0x7 = v"
  using and_mask_word [of v 3] assms by (simp add: word_le_nat_alt mask_eq_exp_minus_1)

text \<open>The major bits, the delay and side-set bits, and the two arguments.\<close>

definition instr_arg1 :: "u32 \<Rightarrow> u32" where
  "instr_arg1 i = drop_bit 5 i AND 7"

definition instr_arg2 :: "u32 \<Rightarrow> u32" where
  "instr_arg2 i = i AND 0x1f"

definition instr_delay :: "u32 \<Rightarrow> u32" where
  "instr_delay i = drop_bit 8 i AND 0x1f"

end
