(* ===== verification/Pio_Decode.thy ===== *)
theory Pio_Decode
  imports Pio_Instr
begin

text \<open>
  What the encoders of \<open>pio_instructions.h\<close> mean: a decoder written from the description of
  the instruction formats in the RP2040 data sheet, which \<open>pio_instructions.h\<close> refers to, and
  the round trip from an instruction with its operands through its encoder and back.
\<close>

section \<open>Instructions\<close>

datatype jmp_cond = If_always | If_not_x | If_x_dec | If_not_y | If_y_dec | If_x_ne_y | If_pin | If_not_osre

datatype wait_source = On_gpio u32 | On_pin u32 | On_irq bool u32

datatype pio_loc = L_pins | L_x | L_y | L_null | L_pindirs | L_pc | L_status | L_exec | L_isr | L_osr

datatype mov_op = Plain | Invert | Bit_reverse

datatype irq_mode = Irq_set | Irq_wait | Irq_clear

datatype pio_instr =
    I_jmp jmp_cond u32
  | I_wait bool wait_source
  | I_in pio_loc u32
  | I_out pio_loc u32
  | I_push bool bool
  | I_pull bool bool
  | I_mov pio_loc mov_op pio_loc
  | I_irq irq_mode bool u32
  | I_set pio_loc u32

text \<open>The operands an instruction may have: addresses, counts, interrupt numbers, places.\<close>

definition in_sources :: "pio_loc set" where
  "in_sources = {L_pins, L_x, L_y, L_null, L_isr, L_osr}"

definition out_dests :: "pio_loc set" where
  "out_dests = {L_pins, L_x, L_y, L_null, L_pindirs, L_pc, L_isr, L_exec}"

definition mov_dests :: "pio_loc set" where
  "mov_dests = {L_pins, L_x, L_y, L_exec, L_pc, L_isr, L_osr}"

definition mov_sources :: "pio_loc set" where
  "mov_sources = {L_pins, L_x, L_y, L_null, L_status, L_isr, L_osr}"

definition set_dests :: "pio_loc set" where
  "set_dests = {L_pins, L_x, L_y, L_pindirs}"

lemmas loc_sets = in_sources_def out_dests_def mov_dests_def mov_sources_def set_dests_def

fun pio_valid :: "pio_instr \<Rightarrow> bool" where
  "pio_valid (I_jmp c a) = (a \<le> 31)"
| "pio_valid (I_wait pol (On_gpio n)) = (n \<le> 31)"
| "pio_valid (I_wait pol (On_pin n)) = (n \<le> 31)"
| "pio_valid (I_wait pol (On_irq rel n)) = (n \<le> 7)"
| "pio_valid (I_in src n) = (src \<in> in_sources \<and> 1 \<le> n \<and> n \<le> 32)"
| "pio_valid (I_out dst n) = (dst \<in> out_dests \<and> 1 \<le> n \<and> n \<le> 32)"
| "pio_valid (I_push if_full block) = True"
| "pio_valid (I_pull if_empty block) = True"
| "pio_valid (I_mov dst f src) = (dst \<in> mov_dests \<and> src \<in> mov_sources)"
| "pio_valid (I_irq mode rel n) = (n \<le> 7)"
| "pio_valid (I_set dst v) = (dst \<in> set_dests \<and> v \<le> 31)"

section \<open>The decoder\<close>

text \<open>
  The operand fields: bits 7 to 5 and bits 4 to 0. Reserved codes are \<open>None\<close>. A bit count
  of 32 is written as 0.
\<close>

definition dec_cond :: "u32 \<Rightarrow> jmp_cond" where
  "dec_cond a = [If_always, If_not_x, If_x_dec, If_not_y, If_y_dec, If_x_ne_y, If_pin, If_not_osre] ! unat a"

definition dec_wait :: "u32 \<Rightarrow> u32 \<Rightarrow> pio_instr option" where
  "dec_wait a b = (let polarity = bit a 2; source = a AND 3 in
     if source = 0 then Some (I_wait polarity (On_gpio b))
     else if source = 1 then Some (I_wait polarity (On_pin b))
     else if source = 2 \<and> \<not> bit b 3 then Some (I_wait polarity (On_irq (bit b 4) (b AND 7)))
     else None)"

definition dec_in_source :: "u32 \<Rightarrow> pio_loc option" where
  "dec_in_source a = [Some L_pins, Some L_x, Some L_y, Some L_null, None, None, Some L_isr, Some L_osr] ! unat a"

definition dec_out_dest :: "u32 \<Rightarrow> pio_loc option" where
  "dec_out_dest a = [Some L_pins, Some L_x, Some L_y, Some L_null, Some L_pindirs, Some L_pc, Some L_isr, Some L_exec] ! unat a"

definition dec_mov_dest :: "u32 \<Rightarrow> pio_loc option" where
  "dec_mov_dest a = [Some L_pins, Some L_x, Some L_y, None, Some L_exec, Some L_pc, Some L_isr, Some L_osr] ! unat a"

definition dec_mov_source :: "u32 \<Rightarrow> pio_loc option" where
  "dec_mov_source a = [Some L_pins, Some L_x, Some L_y, Some L_null, None, Some L_status, Some L_isr, Some L_osr] ! unat a"

definition dec_set_dest :: "u32 \<Rightarrow> pio_loc option" where
  "dec_set_dest a = [Some L_pins, Some L_x, Some L_y, None, Some L_pindirs, None, None, None] ! unat a"

definition dec_mov_op :: "u32 \<Rightarrow> mov_op option" where
  "dec_mov_op k = [Some Plain, Some Invert, Some Bit_reverse, None] ! unat k"

definition dec_count :: "u32 \<Rightarrow> u32" where
  "dec_count b = (if b = 0 then 32 else b)"

definition dec_push_pull :: "u32 \<Rightarrow> u32 \<Rightarrow> pio_instr option" where
  "dec_push_pull a b =
     (if b \<noteq> 0 then None
      else Some ((if bit a 2 then I_pull else I_push) (bit a 1) (bit a 0)))"

definition dec_irq :: "u32 \<Rightarrow> u32 \<Rightarrow> pio_instr option" where
  "dec_irq a b =
     (if bit a 2 \<or> bit b 3 then None
      else Some (I_irq (if bit a 1 then Irq_clear else if bit a 0 then Irq_wait else Irq_set) (bit b 4) (b AND 7)))"

definition dec_fields :: "u32 \<Rightarrow> u32 \<Rightarrow> u32 \<Rightarrow> pio_instr option" where
  "dec_fields op a b =
     (if op = 0 then Some (I_jmp (dec_cond a) b)
      else if op = 1 then dec_wait a b
      else if op = 2 then map_option (\<lambda>s. I_in s (dec_count b)) (dec_in_source a)
      else if op = 3 then map_option (\<lambda>d. I_out d (dec_count b)) (dec_out_dest a)
      else if op = 4 then dec_push_pull a b
      else if op = 5 then do {
        d \<leftarrow> dec_mov_dest a; f \<leftarrow> dec_mov_op (drop_bit 3 b); s \<leftarrow> dec_mov_source (b AND 7); Some (I_mov d f s) }
      else if op = 6 then dec_irq a b
      else map_option (\<lambda>d. I_set d b) (dec_set_dest a))"

text \<open>The delay and side-set bits (12 to 8) and the instruction of a 16-bit word.\<close>

definition pio_decode :: "u32 \<Rightarrow> (u32 \<times> pio_instr) option" where
  "pio_decode i =
     (if drop_bit 16 i \<noteq> 0 then None
      else map_option (Pair (drop_bit 8 i AND 0x1f)) (dec_fields (drop_bit 13 i) (drop_bit 5 i AND 7) (i AND 0x1f)))"

section \<open>From an instruction to the call of its encoder\<close>

text \<open>The constant a program names a place by; \<open>EXEC\<close> has one name as a target of \<open>OUT\<close>, one of \<open>MOV\<close>.\<close>

fun loc_code :: "pio_loc \<Rightarrow> u32" where
  "loc_code L_pins = pio_pins"
| "loc_code L_x = pio_x"
| "loc_code L_y = pio_y"
| "loc_code L_null = pio_null"
| "loc_code L_pindirs = pio_pindirs"
| "loc_code L_pc = pio_pc"
| "loc_code L_status = pio_status"
| "loc_code L_exec = pio_exec_mov"
| "loc_code L_isr = pio_isr"
| "loc_code L_osr = pio_osr"

definition out_code :: "pio_loc \<Rightarrow> u32" where
  "out_code l = (if l = L_exec then pio_exec_out else loc_code l)"

fun pio_assemble :: "pio_instr \<Rightarrow> u32 option" where
  "pio_assemble (I_jmp If_always a) = pio_encode_jmp a"
| "pio_assemble (I_jmp If_not_x a) = pio_encode_jmp_not_x a"
| "pio_assemble (I_jmp If_x_dec a) = pio_encode_jmp_x_dec a"
| "pio_assemble (I_jmp If_not_y a) = pio_encode_jmp_not_y a"
| "pio_assemble (I_jmp If_y_dec a) = pio_encode_jmp_y_dec a"
| "pio_assemble (I_jmp If_x_ne_y a) = pio_encode_jmp_x_ne_y a"
| "pio_assemble (I_jmp If_pin a) = pio_encode_jmp_pin a"
| "pio_assemble (I_jmp If_not_osre a) = pio_encode_jmp_not_osre a"
| "pio_assemble (I_wait polarity (On_gpio n)) = pio_encode_wait_gpio polarity n"
| "pio_assemble (I_wait polarity (On_pin n)) = pio_encode_wait_pin polarity n"
| "pio_assemble (I_wait polarity (On_irq rel n)) = pio_encode_wait_irq polarity rel n"
| "pio_assemble (I_in src n) = pio_encode_in (loc_code src) n"
| "pio_assemble (I_out dst n) = pio_encode_out (out_code dst) n"
| "pio_assemble (I_push if_full block) = pio_encode_push if_full block"
| "pio_assemble (I_pull if_empty block) = pio_encode_pull if_empty block"
| "pio_assemble (I_mov dst Plain src) = pio_encode_mov (loc_code dst) (loc_code src)"
| "pio_assemble (I_mov dst Invert src) = pio_encode_mov_not (loc_code dst) (loc_code src)"
| "pio_assemble (I_mov dst Bit_reverse src) = pio_encode_mov_reverse (loc_code dst) (loc_code src)"
| "pio_assemble (I_irq Irq_set rel n) = pio_encode_irq_set rel n"
| "pio_assemble (I_irq Irq_wait rel n) = pio_encode_irq_wait rel n"
| "pio_assemble (I_irq Irq_clear rel n) = pio_encode_irq_clear rel n"
| "pio_assemble (I_set dst v) = pio_encode_set (loc_code dst) v"

text \<open>What is ORed into the five bits 12 to 8, and the value these bits then have.\<close>

datatype pio_extra = Delay u32 | Sideset nat u32 | Sideset_opt nat u32

fun extra_bits :: "pio_extra \<Rightarrow> u32 option" where
  "extra_bits (Delay n) = pio_encode_delay n"
| "extra_bits (Sideset k v) = pio_encode_sideset k v"
| "extra_bits (Sideset_opt k v) = pio_encode_sideset_opt k v"

fun extra_value :: "pio_extra \<Rightarrow> u32" where
  "extra_value (Delay n) = n"
| "extra_value (Sideset k v) = v * 2 ^ (5 - k)"
| "extra_value (Sideset_opt k v) = 16 + v * 2 ^ (4 - k)"

section \<open>The fields of an encoded instruction\<close>

definition pio_layout :: "u32 \<Rightarrow> u32 \<Rightarrow> u32 \<Rightarrow> u32 \<Rightarrow> u32" where
  "pio_layout op a b n = push_bit 13 (take_bit 3 op) OR push_bit 5 (take_bit 3 a) OR take_bit 5 b
     OR push_bit 8 (take_bit 5 n)"

lemma layout_fields:
  "drop_bit 16 (pio_layout op a b n) = 0" "drop_bit 13 (pio_layout op a b n) = take_bit 3 op"
  "drop_bit 5 (pio_layout op a b n) AND 7 = take_bit 3 a" "pio_layout op a b n AND 0x1f = take_bit 5 b"
  "drop_bit 8 (pio_layout op a b n) AND 0x1f = take_bit 5 n"
proof -
  have m: "(7 :: u32) = mask 3" "(0x1f :: u32) = mask 5" by (simp_all add: mask_eq_exp_minus_1)
  show "drop_bit 16 (pio_layout op a b n) = 0"
    by (rule bit_word_eqI) (auto simp: pio_layout_def bit_simps)
  show "drop_bit 13 (pio_layout op a b n) = take_bit 3 op"
    by (rule bit_word_eqI) (auto simp: pio_layout_def bit_simps)
  show "drop_bit 5 (pio_layout op a b n) AND 7 = take_bit 3 a"
    unfolding m by (rule bit_word_eqI) (auto simp: pio_layout_def bit_simps)
  show "pio_layout op a b n AND 0x1f = take_bit 5 b"
    unfolding m by (rule bit_word_eqI) (auto simp: pio_layout_def bit_simps)
  show "drop_bit 8 (pio_layout op a b n) AND 0x1f = take_bit 5 n"
    unfolding m by (rule bit_word_eqI) (auto simp: pio_layout_def bit_simps)
qed

lemma decode_layout:
  "pio_decode (pio_layout op a b n) =
     map_option (Pair (take_bit 5 n)) (dec_fields (take_bit 3 op) (take_bit 3 a) (take_bit 5 b))"
  by (simp add: pio_decode_def layout_fields)

lemma layout_or_delay: "pio_layout op a b 0 OR push_bit 8 (take_bit 5 n) = pio_layout op a b n"
  by (simp add: pio_layout_def or.assoc)

lemma small_field:
  fixes v :: u32
  shows "v \<le> 31 \<Longrightarrow> take_bit 5 v = v" "v \<le> 7 \<Longrightarrow> take_bit 3 v = v"
  using and_0x1f [of v] and_0x7 [of v] by (simp_all add: take_bit_eq_mask mask_eq_exp_minus_1)

lemma args_layout:
  assumes "c = push_bit 13 (take_bit 3 op) OR push_bit 5 (take_bit 3 p)"
  shows "pio_encode_instr_and_args c a b =
    (if a \<le> 7 \<and> (if pio_major_instr_bits c = pio_instr_bits_in \<or> pio_major_instr_bits c = pio_instr_bits_out
                  then b \<noteq> 0 \<and> b \<le> 32 else b \<le> 31)
     then Some (pio_layout op (p OR a) b 0) else None)"
proof -
  have "c OR push_bit 5 a OR (b AND 0x1f) = pio_layout op (p OR a) b 0" if "a \<le> 7"
  proof -
    have "push_bit 5 a = push_bit 5 (take_bit 3 a)" "b AND 0x1f = take_bit 5 b"
      using small_field(2) [OF that] by (simp_all add: take_bit_eq_mask mask_eq_exp_minus_1)
    then show ?thesis
      unfolding assms pio_layout_def by (simp add: push_bit_or or.assoc)
  qed
  then show ?thesis by (auto simp: pio_encode_instr_and_args_def Let_def)
qed

lemma opcode_layouts:
  "pio_instr_bits_jmp = push_bit 13 (take_bit 3 0) OR push_bit 5 (take_bit 3 0)"
  "pio_instr_bits_wait = push_bit 13 (take_bit 3 1) OR push_bit 5 (take_bit 3 0)"
  "pio_instr_bits_in = push_bit 13 (take_bit 3 2) OR push_bit 5 (take_bit 3 0)"
  "pio_instr_bits_out = push_bit 13 (take_bit 3 3) OR push_bit 5 (take_bit 3 0)"
  "pio_instr_bits_push = push_bit 13 (take_bit 3 4) OR push_bit 5 (take_bit 3 0)"
  "pio_instr_bits_pull = push_bit 13 (take_bit 3 4) OR push_bit 5 (take_bit 3 4)"
  "pio_instr_bits_mov = push_bit 13 (take_bit 3 5) OR push_bit 5 (take_bit 3 0)"
  "pio_instr_bits_irq = push_bit 13 (take_bit 3 6) OR push_bit 5 (take_bit 3 0)"
  "pio_instr_bits_set = push_bit 13 (take_bit 3 7) OR push_bit 5 (take_bit 3 0)"
  by code_simp+

lemma opcode_majors:
  "pio_major_instr_bits pio_instr_bits_jmp \<notin> {pio_instr_bits_in, pio_instr_bits_out}"
  "pio_major_instr_bits pio_instr_bits_wait \<notin> {pio_instr_bits_in, pio_instr_bits_out}"
  "pio_major_instr_bits pio_instr_bits_in = pio_instr_bits_in"
  "pio_major_instr_bits pio_instr_bits_out = pio_instr_bits_out"
  "pio_major_instr_bits pio_instr_bits_push \<notin> {pio_instr_bits_in, pio_instr_bits_out}"
  "pio_major_instr_bits pio_instr_bits_pull \<notin> {pio_instr_bits_in, pio_instr_bits_out}"
  "pio_major_instr_bits pio_instr_bits_mov \<notin> {pio_instr_bits_in, pio_instr_bits_out}"
  "pio_major_instr_bits pio_instr_bits_irq \<notin> {pio_instr_bits_in, pio_instr_bits_out}"
  "pio_major_instr_bits pio_instr_bits_set \<notin> {pio_instr_bits_in, pio_instr_bits_out}"
  by code_simp+

lemma encode_args:
  "pio_encode_instr_and_args pio_instr_bits_jmp a b = (if a \<le> 7 \<and> b \<le> 31 then Some (pio_layout 0 a b 0) else None)"
  "pio_encode_instr_and_args pio_instr_bits_wait a b = (if a \<le> 7 \<and> b \<le> 31 then Some (pio_layout 1 a b 0) else None)"
  "pio_encode_instr_and_args pio_instr_bits_in a b =
     (if a \<le> 7 \<and> b \<noteq> 0 \<and> b \<le> 32 then Some (pio_layout 2 a b 0) else None)"
  "pio_encode_instr_and_args pio_instr_bits_out a b =
     (if a \<le> 7 \<and> b \<noteq> 0 \<and> b \<le> 32 then Some (pio_layout 3 a b 0) else None)"
  "pio_encode_instr_and_args pio_instr_bits_push a b = (if a \<le> 7 \<and> b \<le> 31 then Some (pio_layout 4 a b 0) else None)"
  "pio_encode_instr_and_args pio_instr_bits_pull a b =
     (if a \<le> 7 \<and> b \<le> 31 then Some (pio_layout 4 (4 OR a) b 0) else None)"
  "pio_encode_instr_and_args pio_instr_bits_mov a b = (if a \<le> 7 \<and> b \<le> 31 then Some (pio_layout 5 a b 0) else None)"
  "pio_encode_instr_and_args pio_instr_bits_irq a b = (if a \<le> 7 \<and> b \<le> 31 then Some (pio_layout 6 a b 0) else None)"
  "pio_encode_instr_and_args pio_instr_bits_set a b = (if a \<le> 7 \<and> b \<le> 31 then Some (pio_layout 7 a b 0) else None)"
  using opcode_majors by (simp_all add: opcode_layouts [THEN args_layout])

text \<open>The operands: each place the assert lets through is decoded as that place.\<close>

lemmas dec_loc_defs = out_code_def dec_in_source_def dec_out_dest_def dec_mov_dest_def dec_mov_source_def
  dec_set_dest_def dec_mov_op_def

lemma in_source_code:
  "(loc_code l AND PIO_INVALID_IN_SRC = 0) = (l \<in> in_sources)"
  "l \<in> in_sources \<Longrightarrow> dec_in_source (take_bit 3 (loc_code l AND 7)) = Some l"
  by (cases l; simp add: loc_sets pio_operand_defs dec_loc_defs)+

lemma out_dest_code:
  "(out_code l AND PIO_INVALID_OUT_DEST = 0) = (l \<in> out_dests)"
  "l \<in> out_dests \<Longrightarrow> dec_out_dest (take_bit 3 (out_code l AND 7)) = Some l"
  by (cases l; simp add: loc_sets pio_operand_defs dec_loc_defs)+

lemma mov_dest_code:
  "(loc_code l AND PIO_INVALID_MOV_DEST = 0) = (l \<in> mov_dests)"
  "l \<in> mov_dests \<Longrightarrow> dec_mov_dest (take_bit 3 (loc_code l AND 7)) = Some l"
  by (cases l; simp add: loc_sets pio_operand_defs dec_loc_defs)+

lemma set_dest_code:
  "(loc_code l AND PIO_INVALID_SET_DEST = 0) = (l \<in> set_dests)"
  "l \<in> set_dests \<Longrightarrow> dec_set_dest (take_bit 3 (loc_code l AND 7)) = Some l"
  by (cases l; simp add: loc_sets pio_operand_defs dec_loc_defs)+

lemma mov_source_code:
  "(loc_code l AND PIO_INVALID_MOV_SRC = 0) = (l \<in> mov_sources)"
  "l \<in> mov_sources \<Longrightarrow> dec_mov_source (take_bit 5 (loc_code l AND 7) AND 7) = Some l \<and>
     dec_mov_op (drop_bit 3 (take_bit 5 (loc_code l AND 7))) = Some Plain"
  "l \<in> mov_sources \<Longrightarrow> dec_mov_source (take_bit 5 (push_bit 3 1 OR loc_code l AND 7) AND 7) = Some l \<and>
     dec_mov_op (drop_bit 3 (take_bit 5 (push_bit 3 1 OR loc_code l AND 7))) = Some Invert"
  "l \<in> mov_sources \<Longrightarrow> dec_mov_source (take_bit 5 (push_bit 3 2 OR loc_code l AND 7) AND 7) = Some l \<and>
     dec_mov_op (drop_bit 3 (take_bit 5 (push_bit 3 2 OR loc_code l AND 7))) = Some Bit_reverse"
  by (cases l; simp add: loc_sets pio_operand_defs dec_loc_defs)+


section \<open>Round trip\<close>

text \<open>What is shown of every class of instructions: the fields its encoder fills in.\<close>

definition encodes_to :: "pio_instr \<Rightarrow> bool" where
  "encodes_to I \<longleftrightarrow> (if pio_valid I
     then \<exists>op a b. pio_assemble I = Some (pio_layout op a b 0)
       \<and> dec_fields (take_bit 3 op) (take_bit 3 a) (take_bit 5 b) = Some I
     else pio_assemble I = None)"

lemma encodes_toI:
  assumes "pio_assemble I = (if pio_valid I then Some (pio_layout op a b 0) else None)"
    and "pio_valid I \<Longrightarrow> dec_fields (take_bit 3 op) (take_bit 3 a) (take_bit 5 b) = Some I"
  shows "encodes_to I"
  using assms unfolding encodes_to_def by auto

lemma and_7_le: "x AND 7 \<le> (7 :: u32)"
  by (rule word_and_le1)

lemma encodes_jmp: "encodes_to (I_jmp c a)"
  by (cases c; rule encodes_toI [where op = 0 and b = a])
    (auto simp: pio_encode_defs encode_args dec_fields_def dec_cond_def small_field)

lemma irq_field:
  fixes n :: u32 and rel :: bool
  assumes "n \<le> 7"
  defines "b \<equiv> (if rel then 0x10 else 0) OR n"
  shows "take_bit 5 b = b" "bit b 4 = rel" "\<not> bit b 3" "b AND 7 = n" "b \<le> 31"
proof -
  have n: "take_bit 3 n = n" by (rule small_field(2) [OF assms(1)])
  have nb: "\<not> bit n 3" "\<not> bit n 4" by (subst n [symmetric], simp add: bit_simps)+
  from assms(1) have "n \<le> 31" by (rule order_trans) simp
  then show 1: "take_bit 5 b = b" by (simp add: b_def take_bit_or small_field)
  show "bit b 4 = rel" "\<not> bit b 3" using nb by (simp_all add: b_def bit_or_iff)
  show "b AND 7 = n" using and_0x7 [OF assms(1)] by (simp add: b_def bit.conj_disj_distrib2)
  have "b AND 0x1f \<le> 31" by (rule word_and_le1)
  then show "b \<le> 31" using 1 by (simp add: take_bit_eq_mask mask_eq_exp_minus_1)
qed

lemma encode_irq: "pio_encode_irq rel n = (if n \<le> 7 then Some ((if rel then 0x10 else 0) OR n) else None)"
  by (simp add: pio_encode_irq_def)

lemma encodes_wait: "encodes_to (I_wait polarity s)"
proof (cases s)
  case (On_gpio n)
  then show ?thesis
    by (intro encodes_toI [where op = 1 and a = "0 OR (if polarity then 4 else 0)" and b = n])
      (auto simp: pio_encode_defs encode_args dec_fields_def dec_wait_def small_field)
next
  case (On_pin n)
  then show ?thesis
    by (intro encodes_toI [where op = 1 and a = "1 OR (if polarity then 4 else 0)" and b = n])
      (auto simp: pio_encode_defs encode_args dec_fields_def dec_wait_def small_field)
next
  case (On_irq rel n)
  show ?thesis unfolding On_irq
  proof (rule encodes_toI [where op = 1 and a = "2 OR (if polarity then 4 else 0)"
        and b = "(if rel then 0x10 else 0) OR n"])
    show "pio_assemble (I_wait polarity (On_irq rel n)) = (if pio_valid (I_wait polarity (On_irq rel n))
        then Some (pio_layout 1 (2 OR (if polarity then 4 else 0)) ((if rel then 0x10 else 0) OR n) 0) else None)"
      using irq_field(5) [of n rel]
      by (cases polarity) (simp_all add: pio_encode_defs encode_irq encode_args)
  qed (use irq_field [of n rel] in \<open>cases polarity; simp add: dec_fields_def dec_wait_def\<close>)
qed

lemma encodes_irq: "encodes_to (I_irq mode rel n)"
proof -
  define k :: u32 where "k = (case mode of Irq_set \<Rightarrow> 0 | Irq_wait \<Rightarrow> 1 | Irq_clear \<Rightarrow> 2)"
  show ?thesis
  proof (rule encodes_toI [where op = 6 and a = k and b = "(if rel then 0x10 else 0) OR n"])
    show "pio_assemble (I_irq mode rel n) = (if pio_valid (I_irq mode rel n)
        then Some (pio_layout 6 k ((if rel then 0x10 else 0) OR n) 0) else None)"
      using irq_field(5) [of n rel]
      by (cases mode) (simp_all add: pio_encode_defs encode_irq encode_args k_def)
  qed (use irq_field [of n rel] in \<open>cases mode; simp add: dec_fields_def dec_irq_def k_def\<close>)
qed

lemma count_field: "1 \<le> n \<Longrightarrow> n \<le> 32 \<Longrightarrow> dec_count (take_bit 5 n) = n" for n :: u32
proof (cases "n = 32")
  case False
  assume "1 \<le> n" "n \<le> 32"
  with False have "n \<le> 31" "n \<noteq> 0" by (auto simp: word_le_nat_alt word_unat_eq_iff)
  then show ?thesis by (simp add: small_field dec_count_def)
qed (simp add: dec_count_def)

lemma count_nonzero: "(1 \<le> n) = (n \<noteq> 0)" for n :: u32
  by (simp add: word_le_nat_alt unat_gt_0 Suc_le_eq)

lemma encodes_in: "encodes_to (I_in l n)"
  by (rule encodes_toI [where op = 2 and a = "loc_code l AND 7" and b = n])
    (auto simp: pio_encode_defs pio_encode_instr_and_src_dest_def encode_args and_7_le in_source_code
      dec_fields_def count_field count_nonzero simp del: take_bit_and)

lemma encodes_out: "encodes_to (I_out l n)"
  by (rule encodes_toI [where op = 3 and a = "out_code l AND 7" and b = n])
    (auto simp: pio_encode_defs pio_encode_instr_and_src_dest_def encode_args and_7_le out_dest_code
      dec_fields_def count_field count_nonzero simp del: take_bit_and)

lemma encodes_push: "encodes_to (I_push f k)"
  by (rule encodes_toI [where op = 4 and a = "(if f then 2 else 0) OR (if k then 1 else 0)" and b = 0])
    (cases f; cases k; simp add: pio_encode_defs encode_args dec_fields_def dec_push_pull_def)+

lemma encodes_pull: "encodes_to (I_pull f k)"
  by (rule encodes_toI [where op = 4 and a = "4 OR (if f then 2 else 0) OR (if k then 1 else 0)" and b = 0])
    (cases f; cases k; simp add: pio_encode_defs encode_args dec_fields_def dec_push_pull_def)+

lemma mov_arg_le: "x AND 7 \<le> (31 :: u32)" "push_bit 3 1 OR x AND 7 \<le> (31 :: u32)" "push_bit 3 2 OR x AND 7 \<le> (31 :: u32)"
proof -
  have "y AND 0x1f \<le> (31 :: u32)" for y by (rule word_and_le1)
  moreover have "(x AND 7) AND 0x1f = x AND 7" "(push_bit 3 1 OR x AND 7) AND 0x1f = push_bit 3 1 OR x AND 7"
    "(push_bit 3 2 OR x AND 7) AND 0x1f = push_bit 3 2 OR x AND 7" for x :: u32
    by (simp_all add: bit.conj_disj_distrib2 and.assoc)
  ultimately show "x AND 7 \<le> (31 :: u32)" "push_bit 3 1 OR x AND 7 \<le> (31 :: u32)" "push_bit 3 2 OR x AND 7 \<le> (31 :: u32)"
    by metis+
qed

lemma encodes_mov: "encodes_to (I_mov d f s)"
proof -
  define b where "b = (case f of Plain \<Rightarrow> loc_code s AND 7 | Invert \<Rightarrow> push_bit 3 1 OR loc_code s AND 7
    | Bit_reverse \<Rightarrow> push_bit 3 2 OR loc_code s AND 7)"
  have "b \<le> 31" by (cases f) (simp_all only: b_def mov_op.case mov_arg_le)
  show ?thesis
  proof (rule encodes_toI [where op = 5 and a = "loc_code d AND 7" and b = b])
    show "pio_assemble (I_mov d f s) = (if pio_valid (I_mov d f s)
        then Some (pio_layout 5 (loc_code d AND 7) b 0) else None)"
      using \<open>b \<le> 31\<close> by (cases f) (auto simp: pio_encode_defs pio_encode_instr_and_src_dest_def encode_args and_7_le
          mov_dest_code mov_source_code(1) b_def simp del: push_bit_numeral push_bit_of_1)
    assume "pio_valid (I_mov d f s)"
    then have v: "d \<in> mov_dests" "s \<in> mov_sources" by simp_all
    then have "dec_mov_source (take_bit 5 b AND 7) = Some s \<and> dec_mov_op (drop_bit 3 (take_bit 5 b)) = Some f"
      by (cases f) (simp_all only: b_def mov_op.case mov_source_code)
    with mov_dest_code(2) [OF v(1)]
    show "dec_fields (take_bit 3 5) (take_bit 3 (loc_code d AND 7)) (take_bit 5 b) = Some (I_mov d f s)"
      by (simp add: dec_fields_def)
  qed
qed

lemma encodes_set: "encodes_to (I_set l v)"
  by (rule encodes_toI [where op = 7 and a = "loc_code l AND 7" and b = v])
    (auto simp: pio_encode_defs pio_encode_instr_and_src_dest_def encode_args and_7_le set_dest_code
      dec_fields_def small_field(1) simp del: take_bit_and)

lemma encodes: "encodes_to I"
  by (cases I) (simp_all add: encodes_jmp encodes_wait encodes_in encodes_out encodes_push encodes_pull
      encodes_mov encodes_irq encodes_set)


text \<open>The bits for delay and side set.\<close>

lemma shifted_bound:
  fixes v :: u32
  assumes "unat v < 2 ^ k" and "k \<le> 5"
  shows "push_bit 8 (take_bit 5 (v * 2 ^ (5 - k))) = push_bit (13 - k) v" "take_bit 5 (v * 2 ^ (5 - k)) = v * 2 ^ (5 - k)"
proof -
  note z = word_less_bit [OF assms(1)]
  have m: "v * 2 ^ (5 - k) = push_bit (5 - k) v" by (simp add: push_bit_eq_mult)
  show "take_bit 5 (v * 2 ^ (5 - k)) = v * 2 ^ (5 - k)"
    unfolding m by (rule bit_word_eqI) (use z assms(2) in \<open>auto simp: bit_simps intro: ccontr\<close>)
  then show "push_bit 8 (take_bit 5 (v * 2 ^ (5 - k))) = push_bit (13 - k) v"
    unfolding m using assms(2) by simp
qed

lemma field_max: "1 \<le> k \<Longrightarrow> k \<le> 5 \<Longrightarrow> (v \<le> 2 ^ k - 1) = (unat v < 2 ^ k)" for v :: u32
proof -
  assume k: "1 \<le> k" "k \<le> 5"
  then have "k \<in> {1, 2, 3, 4, 5}" by auto
  then show ?thesis by (auto simp: word_le_nat_alt)
qed

lemma extra_layout:
  assumes "extra_bits e = Some d"
  shows "d = push_bit 8 (take_bit 5 (extra_value e)) \<and> take_bit 5 (extra_value e) = extra_value e"
proof (cases e)
  case (Delay n)
  with assms show ?thesis by (auto simp: pio_encode_delay_def small_field split: if_splits)
next
  case (Sideset k v)
  with assms have k: "1 \<le> k" "k \<le> 5" "unat v < 2 ^ k" "d = push_bit (13 - k) v"
    by (auto simp: pio_encode_sideset_def field_max split: if_splits)
  with Sideset shifted_bound [of v k] show ?thesis by simp
next
  case (Sideset_opt k v)
  with assms have k: "1 \<le> k" "k \<le> 4" "unat v < 2 ^ k" "d = 0x1000 OR push_bit (12 - k) v"
    by (auto simp: pio_encode_sideset_opt_def field_max split: if_splits)
  note z = word_less_bit [OF k(3)]
  have m: "v * 2 ^ (4 - k) = push_bit (4 - k) v" by (simp add: push_bit_eq_mult)
  have t: "take_bit 4 (push_bit (4 - k) v) = push_bit (4 - k) v"
    by (rule bit_word_eqI) (use z k(2) in \<open>auto simp: bit_simps intro: ccontr\<close>)
  have "16 AND take_bit 4 x = 0" for x :: u32
    by (simp add: take_bit_eq_mask mask_eq_exp_minus_1 and.left_commute [of 16])
  from this [of "push_bit (4 - k) v"] have p: "16 + v * 2 ^ (4 - k) = 16 OR push_bit (4 - k) v"
    unfolding t m by (rule disjunctive_add_eq_or)
  have "take_bit 5 (take_bit 4 x) = take_bit 4 x" for x :: u32 by simp
  from this [of "push_bit (4 - k) v"] have t5: "take_bit 5 (push_bit (4 - k) v) = push_bit (4 - k) v"
    unfolding t .
  have "d = push_bit 8 (16 OR push_bit (4 - k) v)"
    using k(2) by (simp add: k(4) push_bit_or)
  with Sideset_opt p t5 show ?thesis by (simp add: take_bit_or)
qed

section \<open>Property\<close>

text \<open>
  C37. The encoders are right: for every instruction of the PIO with its operands, its encoder
  returns (no parameter assert fails) exactly when the operands are ones the instruction may
  have, and what it returns is a 16-bit word that the documented instruction format reads as
  this instruction with these operands and clear delay bits. ORed with the result of
  \<open>pio_encode_delay\<close>, \<open>pio_encode_sideset\<close> or \<open>pio_encode_sideset_opt\<close> it reads as the same
  instruction with that delay or side-set value.
\<close>
theorem pio_encode_decode:
  "(pio_assemble I \<noteq> None) = pio_valid I \<and>
   (pio_assemble I = Some i \<longrightarrow> pio_decode i = Some (0, I) \<and>
     (extra_bits e = Some d \<longrightarrow> pio_decode (i OR d) = Some (extra_value e, I)))"
proof -
  have E: "if pio_valid I then \<exists>op a b. pio_assemble I = Some (pio_layout op a b 0)
       \<and> dec_fields (take_bit 3 op) (take_bit 3 a) (take_bit 5 b) = Some I
     else pio_assemble I = None"
    using encodes [of I] by (simp add: encodes_to_def)
  then have v: "(pio_assemble I \<noteq> None) = pio_valid I" by (auto split: if_splits)
  have "pio_decode i = Some (0, I) \<and> (extra_bits e = Some d \<longrightarrow> pio_decode (i OR d) = Some (extra_value e, I))"
    if "pio_assemble I = Some i"
  proof -
    from E that obtain op a b where i: "i = pio_layout op a b 0"
      and d: "dec_fields (take_bit 3 op) (take_bit 3 a) (take_bit 5 b) = Some I" by (auto split: if_splits)
    have "pio_decode (i OR d) = Some (extra_value e, I)" if "extra_bits e = Some d"
      using extra_layout [OF that] d by (metis decode_layout i layout_or_delay option.simps(9))
    with i d show ?thesis by (simp add: decode_layout)
  qed
  with v show ?thesis by blast
qed

text \<open>
  \<open>PULL IFEMPTY BLOCK\<close> and \<open>MOV OSR, ::X\<close> with a delay and a side set; \<open>IRQ CLEAR 4 REL\<close>; an
  interrupt number that does not exist.
\<close>

theorem pio_encode_decode_witness:
  "pio_assemble (I_pull True True) = Some 0x80e0 \<and> pio_decode 0x80e0 = Some (0, I_pull True True)
   \<and> extra_bits (Delay 7) = Some 0x700 \<and> pio_decode (0x80e0 OR 0x700) = Some (7, I_pull True True)
   \<and> extra_bits (Sideset_opt 2 1) = Some 0x1400
   \<and> pio_decode (0xa0f1 OR 0x1400) = Some (20, I_mov L_osr Bit_reverse L_x)
   \<and> pio_decode 0xc054 = Some (0, I_irq Irq_clear True 4)
   \<and> pio_assemble (I_wait True (On_irq False 8)) = None"
proof -
  have a: "pio_assemble (I_pull True True) = Some 0x80e0"
    "pio_assemble (I_mov L_osr Bit_reverse L_x) = Some 0xa0f1"
    "pio_assemble (I_irq Irq_clear True 4) = Some 0xc054"
    "extra_bits (Delay 7) = Some 0x700" "extra_bits (Sideset_opt 2 1) = Some 0x1400"
    by code_simp+
  have w: "pio_assemble (I_wait True (On_irq False 8)) = None"
    using pio_encode_decode [of "I_wait True (On_irq False 8)"] by auto
  show ?thesis
    using pio_encode_decode [of "I_pull True True" "0x80e0" "Delay 7" "0x700"]
      pio_encode_decode [of "I_mov L_osr Bit_reverse L_x" "0xa0f1" "Sideset_opt 2 1" "0x1400"]
      pio_encode_decode [of "I_irq Irq_clear True 4" "0xc054" "Delay 7" "0x700"] a w
    by (simp del: pio_assemble.simps extra_bits.simps)
qed

end
