(* ===== verification/Pio_Config.thy ===== *)
theory Pio_Config
  imports Pio_Instr
begin

text \<open>
  State machine configurations (\<open>SDK/include/hardware/pio.h\<close>, group sm_config): the four
  register values a program prepares before it hands them to \<open>pio_sm_init\<close>. An argument out
  of range fails its assert. A number of type \<open>float\<close> is abstract; the operations the C
  code applies to it are the parameter \<open>float_ops\<close>.
\<close>

record pio_sm_config =
  clkdiv :: u32
  execctrl :: u32
  shiftctrl :: u32
  pinctrl :: u32

definition bool_to_bit :: "bool \<Rightarrow> u32" where
  "bool_to_bit x = (if x then 1 else 0)"

datatype pio_fifo_join = PIO_FIFO_JOIN_NONE | PIO_FIFO_JOIN_TX | PIO_FIFO_JOIN_RX

fun pio_fifo_join_value :: "pio_fifo_join \<Rightarrow> u32" where
  "pio_fifo_join_value PIO_FIFO_JOIN_NONE = 0"
| "pio_fifo_join_value PIO_FIFO_JOIN_TX = 1"
| "pio_fifo_join_value PIO_FIFO_JOIN_RX = 2"

datatype pio_mov_status_type = STATUS_TX_LESSTHAN | STATUS_RX_LESSTHAN

fun pio_mov_status_value :: "pio_mov_status_type \<Rightarrow> u32" where
  "pio_mov_status_value STATUS_TX_LESSTHAN = 0"
| "pio_mov_status_value STATUS_RX_LESSTHAN = 1"

section \<open>Pins\<close>

definition set_out_pins_bits :: "u32 \<Rightarrow> u32 \<Rightarrow> u32 \<Rightarrow> u32" where
  "set_out_pins_bits v out_base out_count =
     (v AND NOT (0x0000001f OR 0x03f00000)) OR push_bit 0 out_base OR push_bit 20 out_count"

definition sm_config_set_out_pins :: "pio_sm_config \<Rightarrow> u32 \<Rightarrow> u32 \<Rightarrow> pio_sm_config option" where
  "sm_config_set_out_pins c out_base out_count = do {
     c_assert (out_base < 32); c_assert (out_count \<le> 32);
     Some (c\<lparr>pinctrl := set_out_pins_bits (pinctrl c) out_base out_count\<rparr>) }"

definition set_set_pins_bits :: "u32 \<Rightarrow> u32 \<Rightarrow> u32 \<Rightarrow> u32" where
  "set_set_pins_bits v set_base set_count =
     (v AND NOT (0x000003e0 OR 0x1c000000)) OR push_bit 5 set_base OR push_bit 26 set_count"

definition sm_config_set_set_pins :: "pio_sm_config \<Rightarrow> u32 \<Rightarrow> u32 \<Rightarrow> pio_sm_config option" where
  "sm_config_set_set_pins c set_base set_count = do {
     c_assert (set_base < 32); c_assert (set_count \<le> 5);
     Some (c\<lparr>pinctrl := set_set_pins_bits (pinctrl c) set_base set_count\<rparr>) }"

definition set_in_pins_bits :: "u32 \<Rightarrow> u32 \<Rightarrow> u32" where
  "set_in_pins_bits v in_base = (v AND NOT 0x000f8000) OR push_bit 15 in_base"

definition sm_config_set_in_pins :: "pio_sm_config \<Rightarrow> u32 \<Rightarrow> pio_sm_config option" where
  "sm_config_set_in_pins c in_base = do {
     c_assert (in_base < 32);
     Some (c\<lparr>pinctrl := set_in_pins_bits (pinctrl c) in_base\<rparr>) }"

definition set_sideset_pins_bits :: "u32 \<Rightarrow> u32 \<Rightarrow> u32" where
  "set_sideset_pins_bits v sideset_base = (v AND NOT 0x00007c00) OR push_bit 10 sideset_base"

definition sm_config_set_sideset_pins :: "pio_sm_config \<Rightarrow> u32 \<Rightarrow> pio_sm_config option" where
  "sm_config_set_sideset_pins c sideset_base = do {
     c_assert (sideset_base < 32);
     Some (c\<lparr>pinctrl := set_sideset_pins_bits (pinctrl c) sideset_base\<rparr>) }"

definition sm_config_set_sideset :: "pio_sm_config \<Rightarrow> u32 \<Rightarrow> bool \<Rightarrow> bool \<Rightarrow> pio_sm_config option" where
  "sm_config_set_sideset c bit_count optional pindirs = do {
     c_assert (bit_count \<le> 5); c_assert (\<not> optional \<or> bit_count \<ge> 1);
     Some (c\<lparr>pinctrl := (pinctrl c AND NOT 0xe0000000) OR push_bit 29 bit_count,
       execctrl := (execctrl c AND NOT (0x40000000 OR 0x20000000))
         OR push_bit 30 (bool_to_bit optional) OR push_bit 29 (bool_to_bit pindirs)\<rparr>) }"

section \<open>Clock divider\<close>

definition clkdiv_value :: "u16 \<Rightarrow> u8 \<Rightarrow> u32" where
  "clkdiv_value div_int div_frac = push_bit 8 (ucast div_frac) OR push_bit 16 (ucast div_int)"

definition sm_config_set_clkdiv_int_frac :: "pio_sm_config \<Rightarrow> u16 \<Rightarrow> u8 \<Rightarrow> pio_sm_config option" where
  "sm_config_set_clkdiv_int_frac c div_int div_frac = do {
     c_assert (\<not> (div_int = 0 \<and> div_frac \<noteq> 0));
     Some (c\<lparr>clkdiv := clkdiv_value div_int div_frac\<rparr>) }"

record 'f float_ops =
  f_le :: "'f \<Rightarrow> 'f \<Rightarrow> bool"
  f_of_nat :: "nat \<Rightarrow> 'f"
  f_to_u16 :: "'f \<Rightarrow> u16"
  f_to_u8 :: "'f \<Rightarrow> u8"
  f_sub :: "'f \<Rightarrow> 'f \<Rightarrow> 'f"
  f_mul :: "'f \<Rightarrow> 'f \<Rightarrow> 'f"

definition pio_calculate_clkdiv_from_float :: "'f float_ops \<Rightarrow> 'f \<Rightarrow> (u16 \<times> u8) option" where
  "pio_calculate_clkdiv_from_float F d = do {
     c_assert (f_le F (f_of_nat F 1) d \<and> f_le F d (f_of_nat F 65536));
     let div_int = f_to_u16 F d;
     Some (div_int,
       if div_int = 0 then 0
       else f_to_u8 F (f_mul F (f_sub F d (f_of_nat F (unat div_int))) (f_of_nat F 256))) }"

definition sm_config_set_clkdiv :: "'f float_ops \<Rightarrow> pio_sm_config \<Rightarrow> 'f \<Rightarrow> pio_sm_config option" where
  "sm_config_set_clkdiv F c d = do {
     (div_int, div_frac) \<leftarrow> pio_calculate_clkdiv_from_float F d;
     sm_config_set_clkdiv_int_frac c div_int div_frac }"

section \<open>Program and shift registers\<close>

definition set_wrap_bits :: "u32 \<Rightarrow> u32 \<Rightarrow> u32 \<Rightarrow> u32" where
  "set_wrap_bits v wrap_target wrap =
     (v AND NOT (0x0001f000 OR 0x00000f80)) OR push_bit 7 wrap_target OR push_bit 12 wrap"

definition sm_config_set_wrap :: "pio_sm_config \<Rightarrow> u32 \<Rightarrow> u32 \<Rightarrow> pio_sm_config option" where
  "sm_config_set_wrap c wrap_target wrap = do {
     c_assert (wrap < 32); c_assert (wrap_target < 32);
     Some (c\<lparr>execctrl := set_wrap_bits (execctrl c) wrap_target wrap\<rparr>) }"

definition sm_config_set_jmp_pin :: "pio_sm_config \<Rightarrow> u32 \<Rightarrow> pio_sm_config option" where
  "sm_config_set_jmp_pin c pin = do {
     c_assert (pin < 32);
     Some (c\<lparr>execctrl := (execctrl c AND NOT 0x1f000000) OR push_bit 24 pin\<rparr>) }"

definition sm_config_set_in_shift :: "pio_sm_config \<Rightarrow> bool \<Rightarrow> bool \<Rightarrow> u32 \<Rightarrow> pio_sm_config option" where
  "sm_config_set_in_shift c shift_right autopush push_threshold = do {
     c_assert (push_threshold \<le> 32);
     Some (c\<lparr>shiftctrl := (shiftctrl c AND NOT (0x00040000 OR 0x00010000 OR 0x01f00000))
       OR push_bit 18 (bool_to_bit shift_right) OR push_bit 16 (bool_to_bit autopush)
       OR push_bit 20 (push_threshold AND 0x1f)\<rparr>) }"

definition sm_config_set_out_shift :: "pio_sm_config \<Rightarrow> bool \<Rightarrow> bool \<Rightarrow> u32 \<Rightarrow> pio_sm_config option" where
  "sm_config_set_out_shift c shift_right autopull pull_threshold = do {
     c_assert (pull_threshold \<le> 32);
     Some (c\<lparr>shiftctrl := (shiftctrl c AND NOT (0x00080000 OR 0x00020000 OR 0x3e000000))
       OR push_bit 19 (bool_to_bit shift_right) OR push_bit 17 (bool_to_bit autopull)
       OR push_bit 25 (pull_threshold AND 0x1f)\<rparr>) }"

definition sm_config_set_fifo_join :: "pio_sm_config \<Rightarrow> pio_fifo_join \<Rightarrow> pio_sm_config" where
  "sm_config_set_fifo_join c join =
     c\<lparr>shiftctrl := (shiftctrl c AND NOT (0x40000000 OR 0x80000000)) OR push_bit 30 (pio_fifo_join_value join)\<rparr>"

definition sm_config_set_out_special :: "pio_sm_config \<Rightarrow> bool \<Rightarrow> bool \<Rightarrow> u32 \<Rightarrow> pio_sm_config" where
  "sm_config_set_out_special c sticky has_enable_pin enable_pin_index =
     c\<lparr>execctrl := (execctrl c AND NOT (0x00020000 OR 0x00040000 OR 0x00f80000))
       OR push_bit 17 (bool_to_bit sticky) OR push_bit 18 (bool_to_bit has_enable_pin)
       OR (push_bit 19 enable_pin_index AND 0x00f80000)\<rparr>"

definition sm_config_set_mov_status :: "pio_sm_config \<Rightarrow> pio_mov_status_type \<Rightarrow> u32 \<Rightarrow> pio_sm_config" where
  "sm_config_set_mov_status c status_sel status_n =
     c\<lparr>execctrl := (execctrl c AND NOT (0x00000010 OR 0x0000000f))
       OR (push_bit 4 (pio_mov_status_value status_sel) AND 0x00000010)
       OR (push_bit 0 status_n AND 0x0000000f)\<rparr>"

definition pio_get_default_sm_config :: "pio_sm_config option" where
  "pio_get_default_sm_config = do {
     let c = \<lparr> clkdiv = 0, execctrl = 0, shiftctrl = 0, pinctrl = 0 \<rparr>;
     c \<leftarrow> sm_config_set_clkdiv_int_frac c 1 0;
     c \<leftarrow> sm_config_set_wrap c 0 31;
     c \<leftarrow> sm_config_set_in_shift c True False 32;
     sm_config_set_out_shift c True False 32 }"

lemma default_sm_config:
  "pio_get_default_sm_config =
     Some \<lparr> clkdiv = 0x00010000, execctrl = 0x0001f000, shiftctrl = 0x000c0000, pinctrl = 0 \<rparr>"
  by code_simp

end
