(* ===== verification/Pio.thy ===== *)
theory Pio
  imports Pio_Config Hw_Claims
begin

text \<open>
  The PIO blocks (\<open>SDK/hardware/pio.c\<close> and the inline functions of
  \<open>SDK/include/hardware/pio.h\<close>), except the claims of state machines (\<open>Hw_Claims\<close>).
  Instruction memory is write-only and has no effect of its own, so it is a list of words
  beside the static \<open>_used_instruction_space\<close>; the lock of \<open>hw_claim_lock\<close> makes each
  operation on them one step. All other registers are hardware: the parameter \<open>D\<close> of type
  \<open>'w pio_dev\<close> reads and writes them, by the atomic aliases where the code does; time may
  pass at every access. A wait loop whose bit never shows does not return: \<open>None\<close>.
\<close>

section \<open>Programs and instruction memory\<close>

abbreviation "PIO_INSTRUCTION_COUNT \<equiv> 32 :: nat"

text \<open>\<open>instructions\<close> is the array behind the pointer; \<open>origin\<close> is signed, negative for none.\<close>

record pio_program =
  instructions :: "u16 list"
  plength :: u8
  origin :: u8

record pio_mem =
  used_instruction_space :: "nat \<Rightarrow> u32"
  instr_mem :: "PIO \<Rightarrow> u32 list"

text \<open>
  \<open>(1u << length) - 1\<close>. For a program of 32 instructions the shift is undefined in C; the
  shift instruction of the Cortex-M0+ then gives 0, as \<open>push_bit\<close> does here.
\<close>

definition program_mask :: "pio_program \<Rightarrow> u32" where
  "program_mask p = push_bit (unat (plength p)) 1 - 1"

fun find_offset_down :: "u32 \<Rightarrow> u32 \<Rightarrow> nat \<Rightarrow> int" where
  "find_offset_down used pmask i =
     (if used AND push_bit i pmask = 0 then int i
      else case i of 0 \<Rightarrow> - 1 | Suc i' \<Rightarrow> find_offset_down used pmask i')"

definition pio_find_offset_for_program :: "PIO \<Rightarrow> pio_program \<Rightarrow> pio_mem \<Rightarrow> int option" where
  "pio_find_offset_for_program pio p s = do {
     c_assert (unat (plength p) \<le> PIO_INSTRUCTION_COUNT);
     let used_mask = used_instruction_space s (pio_get_index pio);
     let pmask = program_mask p;
     Some (if sint (origin p) \<ge> 0 then
             (if sint (origin p) > 32 - int (unat (plength p)) then - 1
              else if used_mask AND push_bit (nat (sint (origin p))) pmask \<noteq> 0 then - 1
              else sint (origin p))
           else find_offset_down used_mask pmask (32 - unat (plength p))) }"

definition pio_can_add_program :: "PIO \<Rightarrow> pio_program \<Rightarrow> pio_mem \<Rightarrow> bool option" where
  "pio_can_add_program pio p s = do {
     offset \<leftarrow> pio_find_offset_for_program pio p s;
     Some (- 1 \<noteq> offset) }"

definition can_add_program_at_offset :: "PIO \<Rightarrow> pio_program \<Rightarrow> nat \<Rightarrow> pio_mem \<Rightarrow> bool option" where
  "can_add_program_at_offset pio p offset s = do {
     c_assert (offset < PIO_INSTRUCTION_COUNT);
     c_assert (offset + unat (plength p) \<le> PIO_INSTRUCTION_COUNT);
     if sint (origin p) \<ge> 0 \<and> nat (sint (origin p)) \<noteq> offset then Some False
     else Some (used_instruction_space s (pio_get_index pio) AND push_bit offset (program_mask p) = 0) }"

definition pio_can_add_program_at_offset :: "PIO \<Rightarrow> pio_program \<Rightarrow> nat \<Rightarrow> pio_mem \<Rightarrow> bool option" where
  "pio_can_add_program_at_offset pio p offset s = can_add_program_at_offset pio p offset s"

definition relocated :: "u16 \<Rightarrow> nat \<Rightarrow> u32" where
  "relocated instr offset =
     (if pio_instr_bits_jmp \<noteq> pio_major_instr_bits (ucast instr) then ucast instr
      else ucast instr + of_nat offset)"

fun write_program :: "u16 list \<Rightarrow> nat \<Rightarrow> nat \<Rightarrow> nat \<Rightarrow> u32 list \<Rightarrow> u32 list option" where
  "write_program is offset 0 i m = Some m"
| "write_program is offset (Suc n) i m = do {
     instr \<leftarrow> c_read is i;
     m' \<leftarrow> c_write m (offset + i) (relocated instr offset);
     write_program is offset n (i + 1) m' }"

definition add_program_at_offset :: "PIO \<Rightarrow> pio_program \<Rightarrow> nat \<Rightarrow> pio_mem \<Rightarrow> pio_mem option" where
  "add_program_at_offset pio p offset s = do {
     ok \<leftarrow> can_add_program_at_offset pio p offset s;
     c_assert ok;
     m \<leftarrow> write_program (instructions p) offset (unat (plength p)) 0 (instr_mem s pio);
     let k = pio_get_index pio;
     Some (s\<lparr>instr_mem := (instr_mem s)(pio := m),
       used_instruction_space := (used_instruction_space s)
         (k := used_instruction_space s k OR push_bit offset (program_mask p))\<rparr>) }"

definition pio_add_program :: "PIO \<Rightarrow> pio_program \<Rightarrow> pio_mem \<Rightarrow> (nat \<times> pio_mem) option" where
  "pio_add_program pio p s = do {
     offset \<leftarrow> pio_find_offset_for_program pio p s;
     c_assert (\<not> offset < 0);
     s' \<leftarrow> add_program_at_offset pio p (nat offset) s;
     Some (nat offset, s') }"

definition pio_add_program_at_offset :: "PIO \<Rightarrow> pio_program \<Rightarrow> nat \<Rightarrow> pio_mem \<Rightarrow> pio_mem option" where
  "pio_add_program_at_offset pio p offset s = add_program_at_offset pio p offset s"

definition pio_remove_program :: "PIO \<Rightarrow> pio_program \<Rightarrow> nat \<Rightarrow> pio_mem \<Rightarrow> pio_mem option" where
  "pio_remove_program pio p loaded_offset s = do {
     let pmask = push_bit loaded_offset (program_mask p);
     let k = pio_get_index pio;
     c_assert (pmask = (used_instruction_space s k AND pmask));
     Some (s\<lparr>used_instruction_space := (used_instruction_space s)
       (k := used_instruction_space s k AND NOT pmask)\<rparr>) }"

fun fill_with_jmps :: "nat list \<Rightarrow> u32 list \<Rightarrow> u32 list option" where
  "fill_with_jmps [] m = Some m"
| "fill_with_jmps (i # is) m = do {
     instr \<leftarrow> pio_encode_jmp (of_nat i);
     m' \<leftarrow> c_write m i instr;
     fill_with_jmps is m' }"

definition pio_clear_instruction_memory :: "PIO \<Rightarrow> pio_mem \<Rightarrow> pio_mem option" where
  "pio_clear_instruction_memory pio s = do {
     m \<leftarrow> fill_with_jmps [0..<PIO_INSTRUCTION_COUNT] (instr_mem s pio);
     Some (s\<lparr>used_instruction_space := (used_instruction_space s)(pio_get_index pio := 0),
       instr_mem := (instr_mem s)(pio := m)\<rparr>) }"

declare find_offset_down.simps [simp del]

section \<open>Registers\<close>

datatype pio_reg =
  PIO_CTRL | PIO_FSTAT | PIO_FDEBUG | PIO_FLEVEL | PIO_TXF nat | PIO_RXF nat | PIO_IRQ | PIO_INTE0 | PIO_INTE1 |
  SM_CLKDIV nat | SM_EXECCTRL nat | SM_SHIFTCTRL nat | SM_ADDR nat | SM_INSTR nat | SM_PINCTRL nat

record 'w pio_dev =
  pio_rd :: "PIO \<Rightarrow> pio_reg \<Rightarrow> 'w \<Rightarrow> u32 \<times> 'w"
  pio_wr :: "PIO \<Rightarrow> pio_reg \<Rightarrow> u32 \<Rightarrow> 'w \<Rightarrow> 'w"
  pio_hw_set :: "PIO \<Rightarrow> pio_reg \<Rightarrow> u32 \<Rightarrow> 'w \<Rightarrow> 'w"
  pio_hw_clear :: "PIO \<Rightarrow> pio_reg \<Rightarrow> u32 \<Rightarrow> 'w \<Rightarrow> 'w"
  pio_hw_xor :: "PIO \<Rightarrow> pio_reg \<Rightarrow> u32 \<Rightarrow> 'w \<Rightarrow> 'w"

text \<open>A read followed by a write of the same register, as in \<open>reg = (reg & ~a) | b\<close>.\<close>

definition pio_modify :: "'w pio_dev \<Rightarrow> PIO \<Rightarrow> pio_reg \<Rightarrow> (u32 \<Rightarrow> u32) \<Rightarrow> 'w \<Rightarrow> 'w" where
  "pio_modify D pio r f w = (let (v, w') = pio_rd D pio r w in pio_wr D pio r (f v) w')"

definition check_sm_mask :: "u32 \<Rightarrow> unit option" where
  "check_sm_mask m = c_assert (m < push_bit NUM_PIO_STATE_MACHINES 1)"

section \<open>Control of the state machines\<close>

definition pio_sm_set_config :: "'w pio_dev \<Rightarrow> PIO \<Rightarrow> nat \<Rightarrow> pio_sm_config \<Rightarrow> 'w \<Rightarrow> 'w option" where
  "pio_sm_set_config D pio sm c w = do {
     check_sm_param sm;
     let w = pio_wr D pio (SM_CLKDIV sm) (clkdiv c) w;
     let w = pio_wr D pio (SM_EXECCTRL sm) (execctrl c) w;
     let w = pio_wr D pio (SM_SHIFTCTRL sm) (shiftctrl c) w;
     Some (pio_wr D pio (SM_PINCTRL sm) (pinctrl c) w) }"

definition pio_get_dreq :: "PIO \<Rightarrow> nat \<Rightarrow> bool \<Rightarrow> nat option" where
  "pio_get_dreq pio sm is_tx = do {
     check_sm_param sm;
     Some (sm + (if is_tx then 0 else NUM_PIO_STATE_MACHINES) + (if pio = pio0 then 0 else 8)) }"

definition pio_sm_set_enabled :: "'w pio_dev \<Rightarrow> PIO \<Rightarrow> nat \<Rightarrow> bool \<Rightarrow> 'w \<Rightarrow> 'w option" where
  "pio_sm_set_enabled D pio sm enabled w = do {
     check_sm_param sm;
     Some (pio_modify D pio PIO_CTRL
       (\<lambda>v. (v AND NOT (push_bit sm 1)) OR push_bit sm (bool_to_bit enabled)) w) }"

definition pio_set_sm_mask_enabled :: "'w pio_dev \<Rightarrow> PIO \<Rightarrow> u32 \<Rightarrow> bool \<Rightarrow> 'w \<Rightarrow> 'w option" where
  "pio_set_sm_mask_enabled D pio m enabled w = do {
     check_sm_mask m;
     Some (pio_modify D pio PIO_CTRL (\<lambda>v. (v AND NOT m) OR (if enabled then m else 0)) w) }"

definition pio_sm_restart :: "'w pio_dev \<Rightarrow> PIO \<Rightarrow> nat \<Rightarrow> 'w \<Rightarrow> 'w option" where
  "pio_sm_restart D pio sm w = do {
     check_sm_param sm;
     Some (pio_modify D pio PIO_CTRL (\<lambda>v. v OR push_bit (4 + sm) 1) w) }"

definition pio_restart_sm_mask :: "'w pio_dev \<Rightarrow> PIO \<Rightarrow> u32 \<Rightarrow> 'w \<Rightarrow> 'w option" where
  "pio_restart_sm_mask D pio m w = do {
     check_sm_mask m;
     Some (pio_modify D pio PIO_CTRL (\<lambda>v. v OR (push_bit 4 m AND 0x000000f0)) w) }"

definition pio_sm_clkdiv_restart :: "'w pio_dev \<Rightarrow> PIO \<Rightarrow> nat \<Rightarrow> 'w \<Rightarrow> 'w option" where
  "pio_sm_clkdiv_restart D pio sm w = do {
     check_sm_param sm;
     Some (pio_modify D pio PIO_CTRL (\<lambda>v. v OR push_bit (8 + sm) 1) w) }"

definition pio_clkdiv_restart_sm_mask :: "'w pio_dev \<Rightarrow> PIO \<Rightarrow> u32 \<Rightarrow> 'w \<Rightarrow> 'w option" where
  "pio_clkdiv_restart_sm_mask D pio m w = do {
     check_sm_mask m;
     Some (pio_modify D pio PIO_CTRL (\<lambda>v. v OR (push_bit 8 m AND 0x00000f00)) w) }"

definition pio_enable_sm_mask_in_sync :: "'w pio_dev \<Rightarrow> PIO \<Rightarrow> u32 \<Rightarrow> 'w \<Rightarrow> 'w option" where
  "pio_enable_sm_mask_in_sync D pio m w = do {
     check_sm_mask m;
     Some (pio_modify D pio PIO_CTRL
       (\<lambda>v. v OR ((push_bit 8 m AND 0x00000f00) OR (push_bit 0 m AND 0x0000000f))) w) }"

section \<open>Interrupt sources\<close>

definition pio_set_irq0_source_enabled :: "'w pio_dev \<Rightarrow> PIO \<Rightarrow> nat \<Rightarrow> bool \<Rightarrow> 'w \<Rightarrow> 'w option" where
  "pio_set_irq0_source_enabled D pio source enabled w = do {
     c_assert (\<not> source \<ge> 12);
     Some ((if enabled then pio_hw_set D else pio_hw_clear D) pio PIO_INTE0 (push_bit source 1) w) }"

definition pio_set_irq1_source_enabled :: "'w pio_dev \<Rightarrow> PIO \<Rightarrow> nat \<Rightarrow> bool \<Rightarrow> 'w \<Rightarrow> 'w option" where
  "pio_set_irq1_source_enabled D pio source enabled w = do {
     c_assert (\<not> source \<ge> 12);
     Some ((if enabled then pio_hw_set D else pio_hw_clear D) pio PIO_INTE1 (push_bit source 1) w) }"

definition pio_set_irq0_source_mask_enabled :: "'w pio_dev \<Rightarrow> PIO \<Rightarrow> u32 \<Rightarrow> bool \<Rightarrow> 'w \<Rightarrow> 'w option" where
  "pio_set_irq0_source_mask_enabled D pio source_mask enabled w = do {
     c_assert (\<not> source_mask > 0x00000fff);
     Some (if enabled then pio_hw_set D pio PIO_INTE0 source_mask w
           else pio_hw_clear D pio PIO_INTE0 source_mask w) }"

definition pio_set_irq1_source_mask_enabled :: "'w pio_dev \<Rightarrow> PIO \<Rightarrow> u32 \<Rightarrow> bool \<Rightarrow> 'w \<Rightarrow> 'w option" where
  "pio_set_irq1_source_mask_enabled D pio source_mask enabled w = do {
     c_assert (\<not> source_mask > 0x00000fff);
     Some (if enabled then pio_hw_set D pio PIO_INTE1 source_mask w
           else pio_hw_clear D pio PIO_INTE1 source_mask w) }"

definition pio_set_irqn_source_enabled :: "'w pio_dev \<Rightarrow> PIO \<Rightarrow> nat \<Rightarrow> nat \<Rightarrow> bool \<Rightarrow> 'w \<Rightarrow> 'w option" where
  "pio_set_irqn_source_enabled D pio irq_index source enabled w = do {
     c_assert (\<not> irq_index > 1);
     if irq_index \<noteq> 0 then pio_set_irq1_source_enabled D pio source enabled w
     else pio_set_irq0_source_enabled D pio source enabled w }"

definition pio_set_irqn_source_mask_enabled :: "'w pio_dev \<Rightarrow> PIO \<Rightarrow> nat \<Rightarrow> u32 \<Rightarrow> bool \<Rightarrow> 'w \<Rightarrow> 'w option" where
  "pio_set_irqn_source_mask_enabled D pio irq_index source_mask enabled w = do {
     c_assert (\<not> irq_index > 1);
     if irq_index \<noteq> 0 then pio_set_irq1_source_mask_enabled D pio source_mask enabled w
     else pio_set_irq0_source_mask_enabled D pio source_mask enabled w }"

definition pio_interrupt_get :: "'w pio_dev \<Rightarrow> PIO \<Rightarrow> nat \<Rightarrow> 'w \<Rightarrow> (bool \<times> 'w) option" where
  "pio_interrupt_get D pio pio_interrupt_num w = do {
     c_assert (\<not> pio_interrupt_num \<ge> 8);
     let (v, w) = pio_rd D pio PIO_IRQ w;
     Some (v AND push_bit pio_interrupt_num 1 \<noteq> 0, w) }"

definition pio_interrupt_clear :: "'w pio_dev \<Rightarrow> PIO \<Rightarrow> nat \<Rightarrow> 'w \<Rightarrow> 'w option" where
  "pio_interrupt_clear D pio pio_interrupt_num w = do {
     c_assert (\<not> pio_interrupt_num \<ge> 8);
     Some (pio_hw_set D pio PIO_IRQ (push_bit pio_interrupt_num 1) w) }"

section \<open>One state machine at run time\<close>

definition pio_sm_get_pc :: "'w pio_dev \<Rightarrow> PIO \<Rightarrow> nat \<Rightarrow> 'w \<Rightarrow> (u8 \<times> 'w) option" where
  "pio_sm_get_pc D pio sm w = do {
     check_sm_param sm;
     let (v, w) = pio_rd D pio (SM_ADDR sm) w;
     Some (ucast v, w) }"

definition pio_sm_exec :: "'w pio_dev \<Rightarrow> PIO \<Rightarrow> nat \<Rightarrow> u32 \<Rightarrow> 'w \<Rightarrow> 'w option" where
  "pio_sm_exec D pio sm instr w = do {
     check_sm_param sm;
     Some (pio_wr D pio (SM_INSTR sm) instr w) }"

definition pio_sm_is_exec_stalled :: "'w pio_dev \<Rightarrow> PIO \<Rightarrow> nat \<Rightarrow> 'w \<Rightarrow> (bool \<times> 'w) option" where
  "pio_sm_is_exec_stalled D pio sm w = do {
     check_sm_param sm;
     let (v, w) = pio_rd D pio (SM_EXECCTRL sm) w;
     Some (v AND 0x80000000 \<noteq> 0, w) }"

partial_function (option) pio_wait_while :: "('w \<Rightarrow> (bool \<times> 'w) option) \<Rightarrow> 'w \<Rightarrow> 'w option" where
  "pio_wait_while cond w = do {
     (b, w) \<leftarrow> cond w;
     if b then pio_wait_while cond w else Some w }"

definition pio_sm_exec_wait_blocking :: "'w pio_dev \<Rightarrow> PIO \<Rightarrow> nat \<Rightarrow> u32 \<Rightarrow> 'w \<Rightarrow> 'w option" where
  "pio_sm_exec_wait_blocking D pio sm instr w = do {
     check_sm_param sm;
     w \<leftarrow> pio_sm_exec D pio sm instr w;
     pio_wait_while (pio_sm_is_exec_stalled D pio sm) w }"

definition pio_sm_set_wrap :: "'w pio_dev \<Rightarrow> PIO \<Rightarrow> nat \<Rightarrow> u32 \<Rightarrow> u32 \<Rightarrow> 'w \<Rightarrow> 'w option" where
  "pio_sm_set_wrap D pio sm wrap_target wrap w = do {
     check_sm_param sm; c_assert (wrap < 32); c_assert (wrap_target < 32);
     Some (pio_modify D pio (SM_EXECCTRL sm) (\<lambda>v. set_wrap_bits v wrap_target wrap) w) }"

definition pio_sm_set_out_pins :: "'w pio_dev \<Rightarrow> PIO \<Rightarrow> nat \<Rightarrow> u32 \<Rightarrow> u32 \<Rightarrow> 'w \<Rightarrow> 'w option" where
  "pio_sm_set_out_pins D pio sm out_base out_count w = do {
     check_sm_param sm; c_assert (out_base < 32); c_assert (out_count \<le> 32);
     Some (pio_modify D pio (SM_PINCTRL sm) (\<lambda>v. set_out_pins_bits v out_base out_count) w) }"

definition pio_sm_set_set_pins :: "'w pio_dev \<Rightarrow> PIO \<Rightarrow> nat \<Rightarrow> u32 \<Rightarrow> u32 \<Rightarrow> 'w \<Rightarrow> 'w option" where
  "pio_sm_set_set_pins D pio sm set_base set_count w = do {
     check_sm_param sm; c_assert (set_base < 32); c_assert (set_count \<le> 5);
     Some (pio_modify D pio (SM_PINCTRL sm) (\<lambda>v. set_set_pins_bits v set_base set_count) w) }"

definition pio_sm_set_in_pins :: "'w pio_dev \<Rightarrow> PIO \<Rightarrow> nat \<Rightarrow> u32 \<Rightarrow> 'w \<Rightarrow> 'w option" where
  "pio_sm_set_in_pins D pio sm in_base w = do {
     check_sm_param sm; c_assert (in_base < 32);
     Some (pio_modify D pio (SM_PINCTRL sm) (\<lambda>v. set_in_pins_bits v in_base) w) }"

definition pio_sm_set_sideset_pins :: "'w pio_dev \<Rightarrow> PIO \<Rightarrow> nat \<Rightarrow> u32 \<Rightarrow> 'w \<Rightarrow> 'w option" where
  "pio_sm_set_sideset_pins D pio sm sideset_base w = do {
     check_sm_param sm; c_assert (sideset_base < 32);
     Some (pio_modify D pio (SM_PINCTRL sm) (\<lambda>v. set_sideset_pins_bits v sideset_base) w) }"

section \<open>The FIFOs\<close>

definition pio_sm_put :: "'w pio_dev \<Rightarrow> PIO \<Rightarrow> nat \<Rightarrow> u32 \<Rightarrow> 'w \<Rightarrow> 'w option" where
  "pio_sm_put D pio sm data w = do {
     check_sm_param sm; Some (pio_wr D pio (PIO_TXF sm) data w) }"

definition pio_sm_get :: "'w pio_dev \<Rightarrow> PIO \<Rightarrow> nat \<Rightarrow> 'w \<Rightarrow> (u32 \<times> 'w) option" where
  "pio_sm_get D pio sm w = do {
     check_sm_param sm; Some (pio_rd D pio (PIO_RXF sm) w) }"

definition pio_sm_is_rx_fifo_full :: "'w pio_dev \<Rightarrow> PIO \<Rightarrow> nat \<Rightarrow> 'w \<Rightarrow> (bool \<times> 'w) option" where
  "pio_sm_is_rx_fifo_full D pio sm w = do {
     check_sm_param sm;
     let (v, w) = pio_rd D pio PIO_FSTAT w;
     Some (v AND push_bit (0 + sm) 1 \<noteq> 0, w) }"

definition pio_sm_is_rx_fifo_empty :: "'w pio_dev \<Rightarrow> PIO \<Rightarrow> nat \<Rightarrow> 'w \<Rightarrow> (bool \<times> 'w) option" where
  "pio_sm_is_rx_fifo_empty D pio sm w = do {
     check_sm_param sm;
     let (v, w) = pio_rd D pio PIO_FSTAT w;
     Some (v AND push_bit (8 + sm) 1 \<noteq> 0, w) }"

definition pio_sm_get_rx_fifo_level :: "'w pio_dev \<Rightarrow> PIO \<Rightarrow> nat \<Rightarrow> 'w \<Rightarrow> (u32 \<times> 'w) option" where
  "pio_sm_get_rx_fifo_level D pio sm w = do {
     check_sm_param sm;
     let bitoffs = 4 + sm * (12 - 4);
     let m = drop_bit 4 0x000000f0;
     let (v, w) = pio_rd D pio PIO_FLEVEL w;
     Some (drop_bit bitoffs v AND m, w) }"

definition pio_sm_is_tx_fifo_full :: "'w pio_dev \<Rightarrow> PIO \<Rightarrow> nat \<Rightarrow> 'w \<Rightarrow> (bool \<times> 'w) option" where
  "pio_sm_is_tx_fifo_full D pio sm w = do {
     check_sm_param sm;
     let (v, w) = pio_rd D pio PIO_FSTAT w;
     Some (v AND push_bit (16 + sm) 1 \<noteq> 0, w) }"

definition pio_sm_is_tx_fifo_empty :: "'w pio_dev \<Rightarrow> PIO \<Rightarrow> nat \<Rightarrow> 'w \<Rightarrow> (bool \<times> 'w) option" where
  "pio_sm_is_tx_fifo_empty D pio sm w = do {
     check_sm_param sm;
     let (v, w) = pio_rd D pio PIO_FSTAT w;
     Some (v AND push_bit (24 + sm) 1 \<noteq> 0, w) }"

definition pio_sm_get_tx_fifo_level :: "'w pio_dev \<Rightarrow> PIO \<Rightarrow> nat \<Rightarrow> 'w \<Rightarrow> (u32 \<times> 'w) option" where
  "pio_sm_get_tx_fifo_level D pio sm w = do {
     check_sm_param sm;
     let bitoffs = 0 + sm * (8 - 0);
     let m = drop_bit 0 0x0000000f;
     let (v, w) = pio_rd D pio PIO_FLEVEL w;
     Some (drop_bit bitoffs v AND m, w) }"

definition pio_sm_put_blocking :: "'w pio_dev \<Rightarrow> PIO \<Rightarrow> nat \<Rightarrow> u32 \<Rightarrow> 'w \<Rightarrow> 'w option" where
  "pio_sm_put_blocking D pio sm data w = do {
     check_sm_param sm;
     w \<leftarrow> pio_wait_while (pio_sm_is_tx_fifo_full D pio sm) w;
     pio_sm_put D pio sm data w }"

definition pio_sm_get_blocking :: "'w pio_dev \<Rightarrow> PIO \<Rightarrow> nat \<Rightarrow> 'w \<Rightarrow> (u32 \<times> 'w) option" where
  "pio_sm_get_blocking D pio sm w = do {
     check_sm_param sm;
     w \<leftarrow> pio_wait_while (pio_sm_is_rx_fifo_empty D pio sm) w;
     pio_sm_get D pio sm w }"

definition pio_sm_set_clkdiv_int_frac :: "'w pio_dev \<Rightarrow> PIO \<Rightarrow> nat \<Rightarrow> u16 \<Rightarrow> u8 \<Rightarrow> 'w \<Rightarrow> 'w option" where
  "pio_sm_set_clkdiv_int_frac D pio sm div_int div_frac w = do {
     check_sm_param sm;
     c_assert (\<not> (div_int = 0 \<and> div_frac \<noteq> 0));
     Some (pio_wr D pio (SM_CLKDIV sm) (clkdiv_value div_int div_frac) w) }"

definition pio_sm_set_clkdiv :: "'w pio_dev \<Rightarrow> 'f float_ops \<Rightarrow> PIO \<Rightarrow> nat \<Rightarrow> 'f \<Rightarrow> 'w \<Rightarrow> 'w option" where
  "pio_sm_set_clkdiv D F pio sm d w = do {
     check_sm_param sm;
     (div_int, div_frac) \<leftarrow> pio_calculate_clkdiv_from_float F d;
     pio_sm_set_clkdiv_int_frac D pio sm div_int div_frac w }"

definition pio_sm_clear_fifos :: "'w pio_dev \<Rightarrow> PIO \<Rightarrow> nat \<Rightarrow> 'w \<Rightarrow> 'w option" where
  "pio_sm_clear_fifos D pio sm w = do {
     check_sm_param sm;
     let w = pio_hw_xor D pio (SM_SHIFTCTRL sm) 0x80000000 w;
     Some (pio_hw_xor D pio (SM_SHIFTCTRL sm) 0x80000000 w) }"

partial_function (option) drain_loop :: "'w pio_dev \<Rightarrow> PIO \<Rightarrow> nat \<Rightarrow> u32 \<Rightarrow> 'w \<Rightarrow> 'w option" where
  "drain_loop D pio sm instr w = do {
     (empty, w) \<leftarrow> pio_sm_is_tx_fifo_empty D pio sm w;
     if empty then Some w
     else do { w \<leftarrow> pio_sm_exec D pio sm instr w; drain_loop D pio sm instr w } }"

text \<open>\<open>pio_sm_drain_tx_fifo\<close> reads \<open>sm[sm]\<close> before any check: a wrong \<open>sm\<close> stops here.\<close>

definition pio_sm_drain_tx_fifo :: "'w pio_dev \<Rightarrow> PIO \<Rightarrow> nat \<Rightarrow> 'w \<Rightarrow> 'w option" where
  "pio_sm_drain_tx_fifo D pio sm w = do {
     c_assert (sm < NUM_PIO_STATE_MACHINES);
     let (v, w) = pio_rd D pio (SM_SHIFTCTRL sm) w;
     instr \<leftarrow> (if v AND 0x00020000 \<noteq> 0 then pio_encode_out pio_null 32 else pio_encode_pull False False);
     drain_loop D pio sm instr w }"

section \<open>Pins set by executed instructions\<close>

text \<open>The \<open>pinctrl\<close> value that selects \<open>count\<close> SET pins from \<open>base\<close>, and nothing else.\<close>

definition set_pinctrl :: "u32 \<Rightarrow> u32 \<Rightarrow> u32" where
  "set_pinctrl count base = push_bit 26 count OR push_bit 5 base"

function set_pins_loop :: "'w pio_dev \<Rightarrow> PIO \<Rightarrow> nat \<Rightarrow> nat \<Rightarrow> nat \<Rightarrow> u32 \<Rightarrow> 'w \<Rightarrow> 'w option" where
  "set_pins_loop D pio sm remaining base pins w =
     (if remaining = 0 then Some w
      else do {
        let decrement = (if remaining > 5 then 5 else remaining);
        let w = pio_wr D pio (SM_PINCTRL sm) (set_pinctrl (of_nat decrement) (of_nat base)) w;
        instr \<leftarrow> pio_encode_set pio_pins (pins AND 0x1f);
        w \<leftarrow> pio_sm_exec D pio sm instr w;
        set_pins_loop D pio sm (remaining - decrement) (base + decrement) (drop_bit 5 pins) w })"
  by auto
termination
  by (relation "measure (\<lambda>(D, pio, sm, remaining, base, pins, w). remaining)") auto

definition pio_sm_set_pins :: "'w pio_dev \<Rightarrow> PIO \<Rightarrow> nat \<Rightarrow> u32 \<Rightarrow> 'w \<Rightarrow> 'w option" where
  "pio_sm_set_pins D pio sm pins w = do {
     check_sm_param sm;
     let (pinctrl_saved, w) = pio_rd D pio (SM_PINCTRL sm) w;
     w \<leftarrow> set_pins_loop D pio sm 32 0 pins w;
     Some (pio_wr D pio (SM_PINCTRL sm) pinctrl_saved w) }"

text \<open>\<open>__builtin_ctz\<close> of a word that is not 0.\<close>

definition builtin_ctz :: "u32 \<Rightarrow> nat" where
  "builtin_ctz x = length (takeWhile (\<lambda>k. \<not> bit x k) [0..<32])"

lemma clear_lowest_less: "m \<noteq> 0 \<Longrightarrow> unat (m AND (m - 1)) < unat (m :: u32)"
proof -
  assume "m \<noteq> 0"
  then have "unat (m - 1) < unat m"
    by (metis unat_gt_0 unat_minus_one diff_less zero_less_one)
  moreover have "m AND (m - 1) \<le> m - 1"
    by (rule word_and_le1)
  ultimately show ?thesis
    by (simp add: word_le_nat_alt)
qed

text \<open>The loop of \<open>pio_sm_set_pins_with_mask\<close> and \<open>pio_sm_set_pindirs_with_mask\<close>.\<close>

function set_mask_loop :: "'w pio_dev \<Rightarrow> PIO \<Rightarrow> nat \<Rightarrow> u32 \<Rightarrow> u32 \<Rightarrow> u32 \<Rightarrow> 'w \<Rightarrow> 'w option" where
  "set_mask_loop D pio sm dest vals pin_mask w =
     (if pin_mask = 0 then Some w
      else do {
        let base = builtin_ctz pin_mask;
        let w = pio_wr D pio (SM_PINCTRL sm) (set_pinctrl 1 (of_nat base)) w;
        instr \<leftarrow> pio_encode_set dest (drop_bit base vals AND 0x1);
        w \<leftarrow> pio_sm_exec D pio sm instr w;
        set_mask_loop D pio sm dest vals (pin_mask AND (pin_mask - 1)) w })"
  by auto
termination
  by (relation "measure (\<lambda>(D, pio, sm, dest, vals, m, w). unat m)") (auto intro: clear_lowest_less)

definition pio_sm_set_pins_with_mask :: "'w pio_dev \<Rightarrow> PIO \<Rightarrow> nat \<Rightarrow> u32 \<Rightarrow> u32 \<Rightarrow> 'w \<Rightarrow> 'w option" where
  "pio_sm_set_pins_with_mask D pio sm pinvals pin_mask w = do {
     check_sm_param sm;
     let (pinctrl_saved, w) = pio_rd D pio (SM_PINCTRL sm) w;
     w \<leftarrow> set_mask_loop D pio sm pio_pins pinvals pin_mask w;
     Some (pio_wr D pio (SM_PINCTRL sm) pinctrl_saved w) }"

definition pio_sm_set_pindirs_with_mask :: "'w pio_dev \<Rightarrow> PIO \<Rightarrow> nat \<Rightarrow> u32 \<Rightarrow> u32 \<Rightarrow> 'w \<Rightarrow> 'w option" where
  "pio_sm_set_pindirs_with_mask D pio sm pindirs pin_mask w = do {
     check_sm_param sm;
     let (pinctrl_saved, w) = pio_rd D pio (SM_PINCTRL sm) w;
     w \<leftarrow> set_mask_loop D pio sm pio_pindirs pindirs pin_mask w;
     Some (pio_wr D pio (SM_PINCTRL sm) pinctrl_saved w) }"

lemma minus_five_less: "count > 5 \<Longrightarrow> unat (count - 5) < unat (count :: u32)"
proof -
  assume c: "count > 5"
  then have "unat (count - 5) = unat count - 5"
    by (subst unat_sub) auto
  moreover have "5 < unat count"
    using c by (simp add: word_less_nat_alt)
  ultimately show ?thesis
    by simp
qed

function consecutive_loop ::
  "'w pio_dev \<Rightarrow> PIO \<Rightarrow> nat \<Rightarrow> u32 \<Rightarrow> u32 \<Rightarrow> u32 \<Rightarrow> 'w \<Rightarrow> (u32 \<times> u32 \<times> 'w) option" where
  "consecutive_loop D pio sm pindir_val pin count w =
     (if count > 5 then do {
        let w = pio_wr D pio (SM_PINCTRL sm) (set_pinctrl 5 pin) w;
        instr \<leftarrow> pio_encode_set pio_pindirs pindir_val;
        w \<leftarrow> pio_sm_exec D pio sm instr w;
        consecutive_loop D pio sm pindir_val ((pin + 5) AND 0x1f) (count - 5) w }
      else Some (pin, count, w))"
  by auto
termination
  by (relation "measure (\<lambda>(D, pio, sm, v, pin, count, w). unat count)") (auto intro: minus_five_less)

definition pio_sm_set_consecutive_pindirs :: "'w pio_dev \<Rightarrow> PIO \<Rightarrow> nat \<Rightarrow> u32 \<Rightarrow> u32 \<Rightarrow> bool \<Rightarrow> 'w \<Rightarrow> 'w option" where
  "pio_sm_set_consecutive_pindirs D pio sm pin count is_out w = do {
     check_sm_param sm; c_assert (pin < 32);
     let (pinctrl_saved, w) = pio_rd D pio (SM_PINCTRL sm) w;
     let pindir_val = (if is_out then 0x1f else 0);
     (pin, count, w) \<leftarrow> consecutive_loop D pio sm pindir_val pin count w;
     let w = pio_wr D pio (SM_PINCTRL sm) (set_pinctrl count pin) w;
     instr \<leftarrow> pio_encode_set pio_pindirs pindir_val;
     w \<leftarrow> pio_sm_exec D pio sm instr w;
     Some (pio_wr D pio (SM_PINCTRL sm) pinctrl_saved w) }"

declare set_pins_loop.simps [simp del] set_mask_loop.simps [simp del] consecutive_loop.simps [simp del]

section \<open>Initialisation\<close>

definition pio_sm_init :: "'w pio_dev \<Rightarrow> PIO \<Rightarrow> nat \<Rightarrow> u32 \<Rightarrow> pio_sm_config option \<Rightarrow> 'w \<Rightarrow> 'w option" where
  "pio_sm_init D pio sm initial_pc config w = do {
     c_assert (initial_pc < 32);
     w \<leftarrow> pio_sm_set_enabled D pio sm False w;
     c \<leftarrow> (case config of Some c \<Rightarrow> Some c | None \<Rightarrow> pio_get_default_sm_config);
     w \<leftarrow> pio_sm_set_config D pio sm c w;
     w \<leftarrow> pio_sm_clear_fifos D pio sm w;
     let fdebug_sm_mask = push_bit 16 1 OR push_bit 8 1 OR push_bit 24 1 OR push_bit 0 1;
     let w = pio_wr D pio PIO_FDEBUG (push_bit sm fdebug_sm_mask) w;
     w \<leftarrow> pio_sm_restart D pio sm w;
     w \<leftarrow> pio_sm_clkdiv_restart D pio sm w;
     instr \<leftarrow> pio_encode_jmp initial_pc;
     pio_sm_exec D pio sm instr w }"

end
