(* ===== verification/Pio_Props.thy ===== *)
theory Pio_Props
  imports Pio
begin

text \<open>
  Properties of the PIO model: the programs in instruction memory never overlap and stay as
  they were placed, and a program without an origin is placed at the highest gap that fits.
\<close>

section \<open>Masks of instruction memory\<close>

definition occupies :: "pio_program \<times> nat \<Rightarrow> nat set" where
  "occupies l = {snd l..<snd l + unat (plength (fst l))}"

lemma program_mask_mask: "program_mask p = mask (unat (plength p))"
  by (simp add: program_mask_def mask_eq_exp_minus_1 push_bit_of_1)

lemma bit_program_mask:
  "bit (push_bit off (program_mask p)) j \<longleftrightarrow> j < 32 \<and> j \<in> occupies (p, off)"
  by (auto simp: program_mask_mask bit_push_bit_iff bit_mask_iff occupies_def)

lemma word_and_eq_0_iff:
  fixes a b :: u32
  shows "a AND b = 0 \<longleftrightarrow> (\<forall>j<32. bit b j \<longrightarrow> \<not> bit a j)"
  by (auto simp: bit_eq_iff bit_and_iff dest: bit_imp_le_length)

lemma find_offset_down_none:
  "find_offset_down used m i = - 1 \<longleftrightarrow> (\<forall>k\<le>i. used AND push_bit k m \<noteq> 0)"
proof (induction used m i rule: find_offset_down.induct)
  case (1 used m i)
  then show ?case
    by (subst find_offset_down.simps) (auto split: nat.splits simp: le_Suc_eq)
qed

lemma find_offset_down_some:
  "find_offset_down used m i \<noteq> - 1 \<Longrightarrow>
   \<exists>k\<le>i. find_offset_down used m i = int k \<and> used AND push_bit k m = 0 \<and>
     (\<forall>k'. k < k' \<and> k' \<le> i \<longrightarrow> used AND push_bit k' m \<noteq> 0)"
proof (induction used m i rule: find_offset_down.induct)
  case (1 used m i)
  show ?case
  proof (cases "used AND push_bit i m = 0")
    case True
    then have "find_offset_down used m i = int i"
      by (simp add: find_offset_down.simps)
    then show ?thesis
      using True by auto
  next
    case False
    then obtain i' where i: "i = Suc i'" "find_offset_down used m i = find_offset_down used m i'"
      using 1(2) by (cases i) (simp_all add: find_offset_down.simps)
    then have "find_offset_down used m i' \<noteq> - 1"
      using 1(2) by simp
    from 1(1) [OF False i(1) this] show ?thesis
      using i False by (auto simp: le_Suc_eq)
  qed
qed

section \<open>What is loaded\<close>

text \<open>
  A run of the operations on instruction memory, with the programs that have been added and
  not removed, each with its offset. A caller removes only what is loaded.
\<close>

inductive pio_run :: "pio_mem \<Rightarrow> (PIO \<Rightarrow> (pio_program \<times> nat) set) \<Rightarrow> bool" where
  start: "used_instruction_space s = (\<lambda>k. 0) \<Longrightarrow> (\<And>pio. length (instr_mem s pio) = 32) \<Longrightarrow>
    pio_run s (\<lambda>pio. {})"
| added: "pio_run s L \<Longrightarrow> pio_add_program pio p s = Some (off, s') \<Longrightarrow>
    pio_run s' (L(pio := insert (p, off) (L pio)))"
| added_at: "pio_run s L \<Longrightarrow> pio_add_program_at_offset pio p off s = Some s' \<Longrightarrow>
    pio_run s' (L(pio := insert (p, off) (L pio)))"
| removed: "pio_run s L \<Longrightarrow> (p, off) \<in> L pio \<Longrightarrow> pio_remove_program pio p off s = Some s' \<Longrightarrow>
    pio_run s' (L(pio := L pio - {(p, off)}))"
| cleared: "pio_run s L \<Longrightarrow> pio_clear_instruction_memory pio s = Some s' \<Longrightarrow>
    pio_run s' (L(pio := {}))"

definition loaded_at :: "u32 list \<Rightarrow> pio_program \<times> nat \<Rightarrow> bool" where
  "loaded_at m l \<longleftrightarrow> snd l + unat (plength (fst l)) \<le> 32 \<and> unat (plength (fst l)) \<le> length (instructions (fst l)) \<and>
     (\<forall>i < unat (plength (fst l)). m ! (snd l + i) = relocated (instructions (fst l) ! i) (snd l))"

definition block_inv :: "u32 \<Rightarrow> u32 list \<Rightarrow> (pio_program \<times> nat) set \<Rightarrow> bool" where
  "block_inv used m L \<longleftrightarrow> length m = 32 \<and> (\<forall>l\<in>L. loaded_at m l) \<and>
     (\<forall>l\<in>L. \<forall>l'\<in>L. l \<noteq> l' \<longrightarrow> occupies l \<inter> occupies l' = {}) \<and>
     (\<forall>j<32. bit used j \<longleftrightarrow> (\<exists>l\<in>L. j \<in> occupies l))"

abbreviation pio_inv :: "pio_mem \<Rightarrow> (PIO \<Rightarrow> (pio_program \<times> nat) set) \<Rightarrow> bool" where
  "pio_inv s L \<equiv> \<forall>pio. block_inv (used_instruction_space s (pio_get_index pio)) (instr_mem s pio) (L pio)"

lemma pio_get_index_eq [simp]: "pio_get_index a = pio_get_index b \<longleftrightarrow> a = b"
  by (cases a; cases b) (simp_all add: pio_get_index_def)

lemma write_program_spec:
  assumes "write_program is off n i m = Some m'"
  shows "length m' = length m \<and> (n = 0 \<or> i + n \<le> length is) \<and>
    (\<forall>j < length m. m' ! j = (if off + i \<le> j \<and> j < off + i + n then relocated (is ! (j - off)) off else m ! j))"
  using assms
proof (induction "is" off n i m rule: write_program.induct)
  case (2 "is" off n i m)
  then have i: "i < length is" "off + i < length m"
    and r: "write_program is off n (i + 1) (m[off + i := relocated (is ! i) off]) = Some m'"
    by (auto simp: c_read_def c_write_def split: if_splits bind_splits)
  have "length m' = length m \<and> (n = 0 \<or> i + 1 + n \<le> length is) \<and>
    (\<forall>j < length m. m' ! j = (if off + (i + 1) \<le> j \<and> j < off + (i + 1) + n then relocated (is ! (j - off)) off
      else m[off + i := relocated (is ! i) off] ! j))"
    using 2(1) [OF _ _ r] i by simp
  then show ?case
    using i by (auto simp: nth_list_update)
qed auto

lemma disjoint_bits:
  assumes "block_inv used m L" and "used AND push_bit off (program_mask p) = 0"
    and "off + unat (plength p) \<le> 32" and "l \<in> L"
  shows "occupies l \<inter> occupies (p, off) = {}"
proof -
  have "j < 32 \<Longrightarrow> j \<in> occupies (p, off) \<Longrightarrow> \<not> bit used j" for j
    using assms(2) by (simp add: word_and_eq_0_iff bit_program_mask)
  moreover have "j < 32 \<Longrightarrow> j \<in> occupies l \<Longrightarrow> bit used j" for j
    using assms(1,4) by (auto simp: block_inv_def)
  moreover have "j < 32" if "j \<in> occupies (p, off)" for j
    using that assms(3) by (simp add: occupies_def)
  ultimately show ?thesis
    by blast
qed

lemma add_block:
  assumes inv: "block_inv used m L" and free: "used AND push_bit off (program_mask p) = 0"
    and fits: "off + unat (plength p) \<le> 32"
    and w: "write_program (instructions p) off (unat (plength p)) 0 m = Some m'"
  shows "block_inv (used OR push_bit off (program_mask p)) m' (insert (p, off) L)"
proof -
  have len: "length m = 32"
    using inv by (simp add: block_inv_def)
  have m': "length m' = 32" "unat (plength p) \<le> length (instructions p)"
    "\<And>j. j < 32 \<Longrightarrow> m' ! j = (if j \<in> occupies (p, off) then relocated (instructions p ! (j - off)) off else m ! j)"
    using write_program_spec [OF w] len by (auto simp: occupies_def split: if_splits)
  have dis: "occupies l \<inter> occupies (p, off) = {}" if "l \<in> L" for l
    using disjoint_bits [OF inv free fits that] .
  have "loaded_at m' (p, off)"
    using m' fits by (auto simp: loaded_at_def occupies_def)
  moreover have "loaded_at m' l" if "l \<in> L" for l
  proof -
    have "loaded_at m l"
      using inv that by (simp add: block_inv_def)
    moreover have "m' ! (snd l + i) = m ! (snd l + i)" if "i < unat (plength (fst l))" for i
    proof -
      have "snd l + i \<in> occupies l"
        using that by (simp add: occupies_def)
      then have "snd l + i \<notin> occupies (p, off)"
        using dis [OF \<open>l \<in> L\<close>] by blast
      moreover have "snd l + i < 32"
        using that \<open>loaded_at m l\<close> by (simp add: loaded_at_def)
      ultimately show ?thesis
        using m'(3) by simp
    qed
    ultimately show ?thesis
      by (simp add: loaded_at_def)
  qed
  moreover have "bit (used OR push_bit off (program_mask p)) j \<longleftrightarrow> (\<exists>l\<in>insert (p, off) L. j \<in> occupies l)"
    if "j < 32" for j
    using inv that by (auto simp: block_inv_def bit_or_iff bit_program_mask)
  moreover have "\<forall>l\<in>insert (p, off) L. \<forall>l'\<in>insert (p, off) L. l \<noteq> l' \<longrightarrow> occupies l \<inter> occupies l' = {}"
    using inv dis by (fastforce simp: block_inv_def Int_commute)
  ultimately show ?thesis
    using m'(1) unfolding block_inv_def by blast
qed

lemma remove_block:
  assumes inv: "block_inv used m L" and l: "(p, off) \<in> L"
  shows "push_bit off (program_mask p) = (used AND push_bit off (program_mask p))"
    and "block_inv (used AND NOT (push_bit off (program_mask p))) m (L - {(p, off)})"
proof -
  have b: "bit used j" if "j < 32" "j \<in> occupies (p, off)" for j
    using inv l that by (auto simp: block_inv_def)
  show "push_bit off (program_mask p) = (used AND push_bit off (program_mask p))"
    by (rule bit_eqI) (auto simp: bit_and_iff bit_program_mask intro: b)
  have "bit (used AND NOT (push_bit off (program_mask p))) j \<longleftrightarrow> (\<exists>l\<in>L - {(p, off)}. j \<in> occupies l)"
    if j: "j < 32" for j
  proof -
    have "bit (used AND NOT (push_bit off (program_mask p))) j \<longleftrightarrow> bit used j \<and> j \<notin> occupies (p, off)"
      using j by (auto simp: bit_and_iff bit_not_iff bit_program_mask)
    also have "\<dots> \<longleftrightarrow> (\<exists>l\<in>L. j \<in> occupies l) \<and> j \<notin> occupies (p, off)"
      using inv j by (simp add: block_inv_def)
    also have "\<dots> \<longleftrightarrow> (\<exists>l\<in>L - {(p, off)}. j \<in> occupies l)"
      using inv l unfolding block_inv_def by blast
    finally show ?thesis .
  qed
  then show "block_inv (used AND NOT (push_bit off (program_mask p))) m (L - {(p, off)})"
    using inv by (simp add: block_inv_def)
qed

lemma fill_with_jmps_length: "fill_with_jmps is m = Some m' \<Longrightarrow> length m' = length m"
  by (induction "is" m rule: fill_with_jmps.induct) (auto simp: c_write_def split: bind_splits if_splits)

lemma find_offset_free:
  assumes "pio_find_offset_for_program pio p s = Some off" and "\<not> off < 0"
  shows "nat off + unat (plength p) \<le> 32" and
    "used_instruction_space s (pio_get_index pio) AND push_bit (nat off) (program_mask p) = 0"
proof -
  let ?used = "used_instruction_space s (pio_get_index pio)" and ?m = "program_mask p"
  let ?n = "32 - unat (plength p)"
  have n: "unat (plength p) \<le> 32" and off: "off = (if sint (origin p) \<ge> 0 then
      (if sint (origin p) > 32 - int (unat (plength p)) then - 1
       else if ?used AND push_bit (nat (sint (origin p))) ?m \<noteq> 0 then - 1 else sint (origin p))
     else find_offset_down ?used ?m ?n)"
    using assms(1) by (simp_all add: pio_find_offset_for_program_def Let_def split: if_splits)
  have "nat off + unat (plength p) \<le> 32 \<and> ?used AND push_bit (nat off) ?m = 0"
  proof (cases "sint (origin p) \<ge> 0")
    case True
    then have "off = sint (origin p)" "\<not> sint (origin p) > 32 - int (unat (plength p))"
      "?used AND push_bit (nat (sint (origin p))) ?m = 0"
      using off assms(2) by (simp_all split: if_splits)
    moreover from this(1,2) True have "nat off + unat (plength p) \<le> 32"
      by linarith
    ultimately show ?thesis
      by simp
  next
    case False
    then have "off = find_offset_down ?used ?m ?n"
      using off by simp
    then show ?thesis
      using find_offset_down_some [of ?used ?m ?n] assms(2) n by auto
  qed
  then show "nat off + unat (plength p) \<le> 32" "?used AND push_bit (nat off) ?m = 0"
    by simp_all
qed

lemma add_at_cases:
  assumes "add_program_at_offset pio p off s = Some s'"
  obtains m where "off + unat (plength p) \<le> 32"
    and "used_instruction_space s (pio_get_index pio) AND push_bit off (program_mask p) = 0"
    and "write_program (instructions p) off (unat (plength p)) 0 (instr_mem s pio) = Some m"
    and "instr_mem s' = (instr_mem s)(pio := m)"
    and "used_instruction_space s' = (used_instruction_space s)(pio_get_index pio :=
      used_instruction_space s (pio_get_index pio) OR push_bit off (program_mask p))"
  using assms by (auto simp: add_program_at_offset_def can_add_program_at_offset_def Let_def
      split: bind_splits if_splits)

lemma add_at_inv:
  assumes "pio_inv s L" and "add_program_at_offset pio p off s = Some s'"
  shows "pio_inv s' (L(pio := insert (p, off) (L pio)))"
  using assms(2)
proof (cases rule: add_at_cases)
  case (1 m)
  then have "block_inv (used_instruction_space s (pio_get_index pio) OR push_bit off (program_mask p)) m
      (insert (p, off) (L pio))"
    using assms(1) by (intro add_block) auto
  then show ?thesis
    using assms(1) 1(4,5) by simp
qed

lemma pio_run_inv: "pio_run s L \<Longrightarrow> pio_inv s L"
proof (induction rule: pio_run.induct)
  case (start s)
  then show ?case
    by (simp add: block_inv_def)
next
  case (added s L pio p off s')
  then have "add_program_at_offset pio p off s = Some s'"
    by (auto simp: pio_add_program_def split: bind_splits if_splits)
  then show ?case
    using added by (intro add_at_inv)
next
  case (added_at s L pio p off s')
  then show ?case
    by (intro add_at_inv) (simp_all add: pio_add_program_at_offset_def)
next
  case (removed s L p off pio s')
  then show ?case
    using remove_block(2) by (auto simp: pio_remove_program_def Let_def split: if_splits)
next
  case (cleared s L pio s')
  then show ?case
    using fill_with_jmps_length by (fastforce simp: pio_clear_instruction_memory_def block_inv_def
        split: bind_splits)
qed

section \<open>Relocation\<close>

lemma jump_bits:
  fixes i :: u16
  assumes "pio_major_instr_bits (ucast i) = pio_instr_bits_jmp"
  shows "unat i < 2 ^ 13"
proof -
  have "\<not> bit i j" if "13 \<le> j" for j
  proof (cases "j < 16")
    case True
    then have "j = 13 \<or> j = 14 \<or> j = 15"
      using that by auto
    moreover have "bit ((ucast i :: u32) AND 0xe000) j = False"
      using assms by (simp add: pio_major_instr_bits_def pio_opcode_defs)
    ultimately show ?thesis
      by (auto simp: bit_and_iff bit_simps)
  qed (use bit_imp_le_length [of i j] in auto)
  then have "take_bit 13 i = i"
    by (intro bit_eqI) (metis bit_take_bit_iff not_le)
  then have "unat i = take_bit 13 (unat i)"
    by (metis unsigned_take_bit_eq)
  then show ?thesis
    using take_bit_nat_less_exp [of 13 "unat i"] by simp
qed

text \<open>A jump whose target stays inside the 32 words has only its address field changed.\<close>

lemma relocated_jump:
  assumes "pio_major_instr_bits (ucast i) = pio_instr_bits_jmp"
    and "unat (instr_arg2 (ucast i)) + off < 32"
  shows "relocated i off = (ucast i AND NOT 0x1f) OR (instr_arg2 (ucast i) + of_nat off)"
proof -
  let ?i = "ucast i :: u32" and ?t = "instr_arg2 (ucast i) + of_nat off"
  have t: "unat ?t < 2 ^ 5"
    using assms(2) by (simp add: unat_word_ariths unat_of_nat)
  have m: "(0x1f :: u32) = mask 5"
    by (simp add: mask_eq_exp_minus_1)
  have "\<not> bit ?t n" if "\<not> n < 5" for n
    using word_less_bit [OF t] that by simp
  then have d: "(?i AND NOT 0x1f) AND ?t = 0"
    unfolding m by (intro bit_eqI) (auto simp: bit_and_iff bit_not_iff bit_mask_iff)
  have o: "?i = (?i AND NOT 0x1f) OR instr_arg2 ?i"
    unfolding m instr_arg2_def by (intro bit_eqI) (auto simp: bit_and_iff bit_or_iff bit_not_iff bit_mask_iff)
  have z: "(?i AND NOT 0x1f) AND instr_arg2 ?i = 0"
    unfolding m instr_arg2_def by (intro bit_eqI) (auto simp: bit_and_iff bit_not_iff bit_mask_iff)
  have "?i = (?i AND NOT 0x1f) + instr_arg2 ?i"
    by (rule trans [OF o disjunctive_add_eq_or [OF z, symmetric]])
  from arg_cong [OF this, of "\<lambda>x. x + of_nat off"] have "?i + of_nat off = (?i AND NOT 0x1f) + ?t"
    by (simp only: add.assoc)
  also have "\<dots> = (?i AND NOT 0x1f) OR ?t"
    using d by (simp add: disjunctive_add_eq_or)
  finally show ?thesis
    using assms(1) by (simp add: relocated_def)
qed

section \<open>Programs do not overlap\<close>

text \<open>The word \<open>v\<close> that a program's instruction becomes at offset \<open>a\<close>.\<close>

definition placed :: "u16 \<Rightarrow> nat \<Rightarrow> u32 \<Rightarrow> bool" where
  "placed i a v \<longleftrightarrow>
     (if pio_major_instr_bits (ucast i) = pio_instr_bits_jmp
      then unat (instr_arg2 (ucast i)) + a < 32 \<longrightarrow>
        v = (ucast i AND NOT 0x1f) OR (instr_arg2 (ucast i) + of_nat a)
      else v = ucast i)"

text \<open>
  C21. In every run of the operations on instruction memory, each program that was added and
  not removed lies inside the 32 words, overlaps no other loaded program, is still in memory
  instruction by instruction (a jump with its address moved by the offset and all other bits
  kept, when the moved address is below 32), and can be removed without failing the assert.
\<close>
theorem pio_programs_loaded:
  assumes "pio_run s L" and "(p, a) \<in> L pio"
  shows "a + unat (plength p) \<le> 32 \<and>
    (\<forall>l\<in>L pio - {(p, a)}. occupies l \<inter> occupies (p, a) = {}) \<and>
    (\<forall>i < unat (plength p). placed (instructions p ! i) a (instr_mem s pio ! (a + i))) \<and>
    (\<exists>s'. pio_remove_program pio p a s = Some s')"
proof -
  have inv: "block_inv (used_instruction_space s (pio_get_index pio)) (instr_mem s pio) (L pio)"
    using pio_run_inv [OF assms(1)] by blast
  then have l: "loaded_at (instr_mem s pio) (p, a)"
    using assms(2) by (simp add: block_inv_def)
  have "placed i a (relocated i a)" for i
    using relocated_jump [of i a] by (simp add: placed_def relocated_def)
  moreover have "\<exists>s'. pio_remove_program pio p a s = Some s'"
    using remove_block(1) [OF inv assms(2)] by (simp add: pio_remove_program_def Let_def)
  ultimately show ?thesis
    using l inv assms(2) by (auto simp: loaded_at_def block_inv_def)
qed

text \<open>A program of four instructions that ends with a jump to its third.\<close>

definition square_wave :: pio_program where
  "square_wave = \<lparr> instructions = [0xe081, 0xe101, 0xe000, 0x0002], plength = 4, origin = - 1 \<rparr>"

definition pio_boot :: pio_mem where
  "pio_boot = \<lparr> used_instruction_space = \<lambda>k. 0, instr_mem = \<lambda>pio. replicate 32 0 \<rparr>"

definition pio_once :: pio_mem where
  "pio_once = snd (the (pio_add_program pio0 square_wave pio_boot))"

definition pio_twice :: pio_mem where
  "pio_twice = snd (the (pio_add_program pio0 square_wave pio_once))"

lemma map_option_fst_some: "map_option fst x = Some a \<Longrightarrow> x = Some (a, snd (the x))"
  by (cases x) auto

lemma pio_once: "pio_add_program pio0 square_wave pio_boot = Some (28, pio_once)"
  unfolding pio_once_def by (rule map_option_fst_some) code_simp

lemma pio_twice: "pio_add_program pio0 square_wave pio_once = Some (24, pio_twice)"
  unfolding pio_twice_def by (rule map_option_fst_some) code_simp

lemma pio_twice_run:
  "pio_run pio_twice ((\<lambda>pio. {})(pio0 := {(square_wave, 24), (square_wave, 28)}))"
proof -
  have "pio_run pio_boot (\<lambda>pio. {})"
    by (intro pio_run.start) (simp_all add: pio_boot_def)
  from pio_run.added [OF pio_run.added [OF this pio_once] pio_twice] show ?thesis
    by simp
qed

theorem pio_programs_loaded_witness:
  "instr_mem pio_twice pio0 ! 27 = 26 \<and> occupies (square_wave, 28) \<inter> occupies (square_wave, 24) = {}"
proof -
  have "(square_wave, 24) \<in> ((\<lambda>pio. {})(pio0 := {(square_wave, 24), (square_wave, 28)})) pio0"
    by simp
  note p = pio_programs_loaded [OF pio_twice_run this]
  have "3 < unat (plength square_wave)" "instructions square_wave ! 3 = 2"
    by (simp_all add: square_wave_def)
  then have "placed 2 24 (instr_mem pio_twice pio0 ! (24 + 3))"
    using p by metis
  moreover have "pio_major_instr_bits (ucast (2 :: u16)) = pio_instr_bits_jmp" "instr_arg2 (ucast (2 :: u16)) = 2"
    "((2 :: u32) AND NOT 0x1f) OR (2 + 24) = 26"
    by code_simp+
  ultimately have "instr_mem pio_twice pio0 ! 27 = 26"
    by (simp add: placed_def)
  then show ?thesis
    using p by simp
qed

section \<open>The highest gap\<close>

lemma gap_iff:
  assumes "block_inv used m L" and "a + unat (plength p) \<le> 32"
  shows "used AND push_bit a (program_mask p) = 0 \<longleftrightarrow> (\<forall>l\<in>L. occupies l \<inter> occupies (p, a) = {})"
proof
  assume "\<forall>l\<in>L. occupies l \<inter> occupies (p, a) = {}"
  then show "used AND push_bit a (program_mask p) = 0"
    using assms(1) by (fastforce simp: word_and_eq_0_iff bit_program_mask block_inv_def)
qed (use disjoint_bits [OF assms(1) _ assms(2)] in blast)

lemma write_program_total:
  "i + n \<le> length is \<Longrightarrow> off + i + n \<le> length m \<Longrightarrow> \<exists>m'. write_program is off n i m = Some m'"
  by (induction "is" off n i m rule: write_program.induct) auto

lemma add_program_unplaced:
  assumes "block_inv (used_instruction_space s (pio_get_index pio)) (instr_mem s pio) L"
    and "0 < unat (plength p)" "unat (plength p) \<le> 32" "unat (plength p) \<le> length (instructions p)"
    and "sint (origin p) < 0"
    and f: "f = find_offset_down (used_instruction_space s (pio_get_index pio)) (program_mask p) (32 - unat (plength p))"
  shows "f = - 1 \<Longrightarrow> pio_add_program pio p s = None" and
    "f \<noteq> - 1 \<Longrightarrow> \<exists>s'. pio_add_program pio p s = Some (nat f, s')" and
    "pio_can_add_program pio p s = Some (f \<noteq> - 1)"
proof -
  have o: "pio_find_offset_for_program pio p s = Some f"
    using assms by (simp add: pio_find_offset_for_program_def Let_def)
  then show "f = - 1 \<Longrightarrow> pio_add_program pio p s = None" "pio_can_add_program pio p s = Some (f \<noteq> - 1)"
    by (auto simp: pio_add_program_def pio_can_add_program_def)
  assume "f \<noteq> - 1"
  then have k: "\<not> f < 0" "nat f + unat (plength p) \<le> 32"
      "used_instruction_space s (pio_get_index pio) AND push_bit (nat f) (program_mask p) = 0"
    using find_offset_down_some [of "used_instruction_space s (pio_get_index pio)" "program_mask p"
        "32 - unat (plength p)"] assms(3) f by auto
  moreover obtain m' where "write_program (instructions p) (nat f) (unat (plength p)) 0 (instr_mem s pio) = Some m'"
    using write_program_total [of 0 "unat (plength p)" "instructions p" "nat f" "instr_mem s pio"] assms k(2)
    by (auto simp: block_inv_def)
  ultimately show "\<exists>s'. pio_add_program pio p s = Some (nat f, s')"
    using o assms(2,5) by (auto simp: pio_add_program_def add_program_at_offset_def can_add_program_at_offset_def Let_def)
qed

text \<open>
  C24. A program without an origin is placed at the highest offset at which it overlaps no
  loaded program; only when no offset is free does \<open>pio_add_program\<close> panic, and
  \<open>pio_can_add_program\<close> tells beforehand which of the two happens.
\<close>
theorem pio_add_program_highest_gap:
  assumes "pio_run s L"
    and "0 < unat (plength p)" "unat (plength p) \<le> 32" "unat (plength p) \<le> length (instructions p)"
    and "sint (origin p) < 0"
  shows "(case pio_add_program pio p s of
      None \<Rightarrow> \<forall>a. a + unat (plength p) \<le> 32 \<longrightarrow> (\<exists>l\<in>L pio. occupies l \<inter> occupies (p, a) \<noteq> {})
    | Some (a, s') \<Rightarrow> a + unat (plength p) \<le> 32 \<and> (\<forall>l\<in>L pio. occupies l \<inter> occupies (p, a) = {}) \<and>
        (\<forall>b. a < b \<and> b + unat (plength p) \<le> 32 \<longrightarrow> (\<exists>l\<in>L pio. occupies l \<inter> occupies (p, b) \<noteq> {}))) \<and>
    pio_can_add_program pio p s = Some (pio_add_program pio p s \<noteq> None)"
proof -
  let ?used = "used_instruction_space s (pio_get_index pio)"
  define f where f: "f = find_offset_down ?used (program_mask p) (32 - unat (plength p))"
  have inv: "block_inv ?used (instr_mem s pio) (L pio)"
    using pio_run_inv [OF assms(1)] by blast
  note r = add_program_unplaced [OF inv assms(2-5) f] and gap = gap_iff [OF inv]
  show ?thesis
  proof (cases "f = - 1")
    case True
    then have u: "\<forall>k\<le>32 - unat (plength p). ?used AND push_bit k (program_mask p) \<noteq> 0"
      unfolding f find_offset_down_none .
    have "\<exists>l\<in>L pio. occupies l \<inter> occupies (p, a) \<noteq> {}" if "a + unat (plength p) \<le> 32" for a
    proof -
      have "a \<le> 32 - unat (plength p)"
        using that by linarith
      then show ?thesis
        using u gap [OF that] by blast
    qed
    then show ?thesis
      using r(1,3) True by simp
  next
    case False
    then obtain k s' where k: "k \<le> 32 - unat (plength p)" "f = int k" "?used AND push_bit k (program_mask p) = 0"
        "\<forall>k'. k < k' \<and> k' \<le> 32 - unat (plength p) \<longrightarrow> ?used AND push_bit k' (program_mask p) \<noteq> 0"
        "pio_add_program pio p s = Some (k, s')"
      using find_offset_down_some [of ?used "program_mask p" "32 - unat (plength p)"] r(2) [OF False] f False
      by (metis nat_int)
    then have "k + unat (plength p) \<le> 32"
      using assms(3) by simp
    moreover have "\<exists>l\<in>L pio. occupies l \<inter> occupies (p, b) \<noteq> {}" if "k < b \<and> b + unat (plength p) \<le> 32" for b
    proof -
      have "k < b \<and> b \<le> 32 - unat (plength p)"
        using that by linarith
      then show ?thesis
        using k(4) gap [OF conjunct2 [OF that]] by blast
    qed
    ultimately show ?thesis
      using r(3) False k(3,5) gap [of k] by simp
  qed
qed

theorem pio_add_program_highest_gap_witness:
  "(\<exists>s'. pio_add_program pio0 square_wave pio_twice = Some (20, s')) \<and>
   pio_can_add_program pio0 square_wave pio_twice = Some True"
proof -
  have h: "0 < unat (plength square_wave)" "unat (plength square_wave) \<le> 32"
    "unat (plength square_wave) \<le> length (instructions square_wave)" "sint (origin square_wave) < 0"
    by (simp_all add: square_wave_def)
  have "map_option fst (pio_add_program pio0 square_wave pio_twice) = Some 20"
    by code_simp
  then show ?thesis
    using pio_add_program_highest_gap [OF pio_twice_run h, of pio0] by (auto split: option.splits)
qed

end
