(* ===== verification/Pio_Pins.thy ===== *)
theory Pio_Pins
  imports Pio
begin

text \<open>
  What the pin functions of \<open>pio.c\<close> do to the pins: they execute SET instructions on a state
  machine, so their effect is that of the hardware. \<open>pio_pins_documented\<close> states the part of
  the data sheet they rely on, for a block on which nothing else drives the pins meanwhile.
\<close>

section \<open>The SET instruction\<close>

text \<open>
  The pins after a SET of \<open>count\<close> pins from \<open>base\<close> on (counting past pin 31 starts again at
  pin 0): those pins take the bits of \<open>data\<close>, the others keep their value.
\<close>

definition set_result :: "nat \<Rightarrow> nat \<Rightarrow> u32 \<Rightarrow> u32 \<Rightarrow> u32" where
  "set_result base count data old =
     (old AND NOT (word_rotl base (mask count))) OR word_rotl base (data AND mask count)"

text \<open>
  \<open>pctrl\<close> gives the PINCTRL registers and \<open>latch\<close> the pin outputs (0) and directions (4) of
  each block: PINCTRL can be read and written, and writing a SET instruction without delay
  and side-set bits to INSTR executes it with the SET pins of PINCTRL, when PINCTRL has no
  side-set pins.
\<close>

definition pio_pins_documented ::
  "'w pio_dev \<Rightarrow> ('w \<Rightarrow> PIO \<Rightarrow> nat \<Rightarrow> u32) \<Rightarrow> ('w \<Rightarrow> PIO \<Rightarrow> u32 \<Rightarrow> u32) \<Rightarrow> bool" where
  "pio_pins_documented D pctrl latch \<longleftrightarrow>
     (\<forall>pio sm w. sm < 4 \<longrightarrow>
        fst (pio_rd D pio (SM_PINCTRL sm) w) = pctrl w pio sm \<and>
        pctrl (snd (pio_rd D pio (SM_PINCTRL sm) w)) = pctrl w \<and>
        latch (snd (pio_rd D pio (SM_PINCTRL sm) w)) = latch w) \<and>
     (\<forall>pio sm v w. sm < 4 \<longrightarrow>
        pctrl (pio_wr D pio (SM_PINCTRL sm) v w) = (pctrl w)(pio := (pctrl w pio)(sm := v)) \<and>
        latch (pio_wr D pio (SM_PINCTRL sm) v w) = latch w) \<and>
     (\<forall>pio sm i d w. sm < 4 \<longrightarrow> pio_major_instr_bits i = pio_instr_bits_set \<longrightarrow> instr_delay i = 0 \<longrightarrow>
        instr_arg1 i = d \<longrightarrow> d \<in> {0, 4} \<longrightarrow> drop_bit 29 (pctrl w pio sm) = 0 \<longrightarrow>
        pctrl (pio_wr D pio (SM_INSTR sm) i w) = pctrl w \<and>
        latch (pio_wr D pio (SM_INSTR sm) i w) = (latch w)(pio := (latch w pio)(d :=
          set_result (unat (drop_bit 5 (pctrl w pio sm) AND 0x1f)) (unat (drop_bit 26 (pctrl w pio sm) AND 0x7))
            (instr_arg2 i) (latch w pio d))))"

lemma bit_set_result:
  assumes "base < 32" and "j < 32" and "count \<le> 32"
  shows "bit (set_result base count data old) j \<longleftrightarrow>
    (if (j + 32 - base) mod 32 < count then bit data ((j + 32 - base) mod 32) else bit old j)"
  using assms by (auto simp: set_result_def bit_simps)

lemma set_pinctrl_fields:
  assumes "unat c < 8" and "unat b < 32"
  shows "drop_bit 5 (set_pinctrl c b) AND 0x1f = b" "drop_bit 26 (set_pinctrl c b) AND 0x7 = c"
    "drop_bit 29 (set_pinctrl c b) = 0"
proof -
  have m: "(0x1f :: u32) = mask 5" "(0x7 :: u32) = mask 3"
    by (simp_all add: mask_eq_exp_minus_1)
  have bc: "bit c n \<longrightarrow> n < 3" "bit b n \<longrightarrow> n < 5" for n
    using word_less_bit [of c 3 n] word_less_bit [of b 5 n] assms by (cases "n < 3"; cases "n < 5"; simp)+
  show "drop_bit 5 (set_pinctrl c b) AND 0x1f = b"
    unfolding m set_pinctrl_def
    by (intro bit_eqI) (use bc in \<open>fastforce simp: bit_and_iff bit_mask_iff bit_drop_bit_eq bit_or_iff bit_push_bit_iff\<close>)
  show "drop_bit 26 (set_pinctrl c b) AND 0x7 = c"
    unfolding m set_pinctrl_def
    by (intro bit_eqI) (use bc in \<open>fastforce simp: bit_and_iff bit_mask_iff bit_drop_bit_eq bit_or_iff bit_push_bit_iff\<close>)
  show "drop_bit 29 (set_pinctrl c b) = 0"
    unfolding set_pinctrl_def
    by (intro bit_eqI) (use bc in \<open>fastforce simp: bit_drop_bit_eq bit_or_iff bit_push_bit_iff\<close>)
qed

definition set_instr :: "u32 \<Rightarrow> u32 \<Rightarrow> u32" where
  "set_instr d v = pio_instr_bits_set OR push_bit 5 (d AND 7) OR (v AND 0x1f)"

lemma set_instr_fields:
  assumes "d = pio_pins \<or> d = pio_pindirs"
  shows "pio_major_instr_bits (set_instr d v) = pio_instr_bits_set" "instr_delay (set_instr d v) = 0"
    "instr_arg1 (set_instr d v) = d AND 7" "instr_arg2 (set_instr d v) = v AND 0x1f"
proof -
  have "pio_major_instr_bits (set_instr d v) = pio_instr_bits_set \<and> instr_delay (set_instr d v) = 0 \<and>
    instr_arg1 (set_instr d v) = d AND 7 \<and> instr_arg2 (set_instr d v) = v AND 0x1f"
    using assms by (auto simp: set_instr_def pio_major_instr_bits_def instr_delay_def instr_arg1_def
        instr_arg2_def pio_opcode_defs pio_operand_defs bit.conj_disj_distrib2 and.assoc drop_bit_or drop_bit_and)
  then show "pio_major_instr_bits (set_instr d v) = pio_instr_bits_set" "instr_delay (set_instr d v) = 0"
    "instr_arg1 (set_instr d v) = d AND 7" "instr_arg2 (set_instr d v) = v AND 0x1f"
    by simp_all
qed

lemma encode_set:
  assumes "d = pio_pins \<or> d = pio_pindirs" and "v \<le> 31"
  shows "pio_encode_set d v = Some (set_instr d v)"
  using assms by (auto simp: pio_encode_set_def pio_encode_instr_and_src_dest_def pio_encode_instr_and_args_def
      set_instr_def pio_major_instr_bits_def pio_opcode_defs pio_operand_defs)

section \<open>Effect on the pins\<close>

definition pins_effect ::
  "('w \<Rightarrow> PIO \<Rightarrow> nat \<Rightarrow> u32) \<Rightarrow> ('w \<Rightarrow> PIO \<Rightarrow> u32 \<Rightarrow> u32) \<Rightarrow> PIO \<Rightarrow> nat \<Rightarrow> u32 \<Rightarrow> (u32 \<Rightarrow> u32) \<Rightarrow> 'w \<Rightarrow> 'w \<Rightarrow> bool" where
  "pins_effect pctrl latch pio sm d f w w' \<longleftrightarrow>
     (\<exists>x. pctrl w' = (pctrl w)(pio := (pctrl w pio)(sm := x))) \<and>
     latch w' = (latch w)(pio := (latch w pio)(d := f (latch w pio d)))"

lemma pins_effect_refl: "(\<And>p. f p = p) \<Longrightarrow> pins_effect pctrl latch pio sm d f w w"
  by (auto simp: pins_effect_def fun_eq_iff)

lemma pins_effect_trans:
  "pins_effect pctrl latch pio sm d f w w1 \<Longrightarrow> pins_effect pctrl latch pio sm d g w1 w2 \<Longrightarrow>
   (\<And>p. h p = g (f p)) \<Longrightarrow> pins_effect pctrl latch pio sm d h w w2"
  unfolding pins_effect_def by (elim conjE exE) (simp, blast)

lemma set_step:
  assumes doc: "pio_pins_documented D pctrl latch" and sm: "sm < 4"
    and d: "d = pio_pins \<or> d = pio_pindirs" and v: "v \<le> 31" and c: "unat c \<le> 5" and b: "unat b < 32"
  shows "pio_encode_set d v = Some (set_instr d v)" and
    "pio_sm_exec D pio sm (set_instr d v) w =
       Some (pio_wr D pio (SM_INSTR sm) (set_instr d v) w)" and
    "pins_effect pctrl latch pio sm (d AND 7) (set_result (unat b) (unat c) v) w
       (pio_wr D pio (SM_INSTR sm) (set_instr d v) (pio_wr D pio (SM_PINCTRL sm) (set_pinctrl c b) w))"
proof -
  show "pio_encode_set d v = Some (set_instr d v)"
    using d v by (rule encode_set)
  show "pio_sm_exec D pio sm (set_instr d v) w = Some (pio_wr D pio (SM_INSTR sm) (set_instr d v) w)"
    using sm by (simp add: pio_sm_exec_def check_sm_param_def)
  let ?w = "pio_wr D pio (SM_PINCTRL sm) (set_pinctrl c b) w"
  have p: "pctrl ?w = (pctrl w)(pio := (pctrl w pio)(sm := set_pinctrl c b))" "latch ?w = latch w"
    using doc sm by (simp_all add: pio_pins_documented_def)
  have f: "drop_bit 5 (pctrl ?w pio sm) AND 0x1f = b" "drop_bit 26 (pctrl ?w pio sm) AND 0x7 = c"
      "drop_bit 29 (pctrl ?w pio sm) = 0"
    unfolding p(1) using set_pinctrl_fields [of c b] b c by simp_all
  have d7: "d AND 7 \<in> {0, 4}"
    using d by (auto simp: pio_operand_defs)
  have v31: "v AND 0x1f = v"
    using v by (rule and_0x1f)
  show "pins_effect pctrl latch pio sm (d AND 7) (set_result (unat b) (unat c) v) w
       (pio_wr D pio (SM_INSTR sm) (set_instr d v) ?w)"
    using doc sm d7 set_instr_fields [OF d, of v] f p v31
    by (auto simp: pins_effect_def pio_pins_documented_def)
qed

section \<open>The loops\<close>

lemma builtin_ctz:
  assumes "m \<noteq> 0"
  shows "builtin_ctz m < 32" and "bit m (builtin_ctz m)" and "k < builtin_ctz m \<Longrightarrow> \<not> bit m k"
proof -
  let ?l = "takeWhile (\<lambda>k. \<not> bit m k) [0..<32]"
  obtain j where "bit m j" "j < 32"
    using assms by (auto simp: bit_eq_iff)
  then have "?l \<noteq> [0..<32]"
    by (metis atLeastLessThan_iff set_takeWhileD set_upt zero_le)
  then have l: "length ?l < length [0..<32]"
    by (metis length_takeWhile_le le_neq_implies_less takeWhile_eq_take take_all_iff order_refl)
  then show "builtin_ctz m < 32"
    by (simp add: builtin_ctz_def)
  show "bit m (builtin_ctz m)"
    using nth_length_takeWhile [OF l] l by (simp add: builtin_ctz_def)
  show "\<not> bit m k" if "k < builtin_ctz m"
  proof -
    have "k < length ?l"
      using that by (simp add: builtin_ctz_def)
    then have "?l ! k \<in> set ?l" "?l ! k = [0..<32] ! k"
      by (rule nth_mem, rule takeWhile_nth)
    then show ?thesis
      using that l by (auto simp: builtin_ctz_def dest: set_takeWhileD)
  qed
qed

text \<open>\<open>pin_mask &= pin_mask - 1\<close> clears the lowest bit that is set.\<close>

lemma bit_clear_lowest:
  fixes m :: u32
  assumes "m \<noteq> 0"
  shows "bit (m AND (m - 1)) j \<longleftrightarrow> bit m j \<and> j \<noteq> builtin_ctz m"
proof -
  let ?b = "builtin_ctz m" and ?r = "m AND NOT (mask (Suc (builtin_ctz m)))"
  note b = builtin_ctz [OF assms]
  have le: "bit m k \<Longrightarrow> ?b \<le> k" for k
    using b(3) [of k] by (cases "k < ?b") auto
  have "m = ?r OR push_bit ?b 1"
    by (rule bit_eqI) (use b le in \<open>auto simp: bit_simps le_less less_Suc_eq\<close>)
  moreover have "?r AND push_bit ?b 1 = 0"
    by (rule bit_eqI) (auto simp: bit_simps)
  ultimately have "m = ?r + push_bit ?b 1"
    by (rule trans [OF _ disjunctive_add_eq_or [symmetric]])
  then have "m - 1 = ?r + (push_bit ?b 1 - 1)"
    by (metis add_diff_eq)
  also have "push_bit ?b 1 - 1 = (mask ?b :: u32)"
    by (simp add: mask_eq_exp_minus_1 push_bit_of_1)
  also have "?r + mask ?b = ?r OR mask ?b"
    by (rule disjunctive_add_eq_or) (auto simp: bit_simps intro!: bit_eqI)
  finally have "bit (m AND (m - 1)) j \<longleftrightarrow> bit m j \<and> (bit ?r j \<or> bit (mask ?b :: u32) j)"
    by (simp add: bit_and_iff bit_or_iff)
  moreover have "bit m j \<Longrightarrow> j < 32 \<and> ?b \<le> j"
    using le bit_imp_le_length [of m j] by simp
  ultimately show ?thesis
    by (auto simp: bit_and_iff bit_not_iff bit_mask_iff)
qed

lemma set_result_range:
  assumes "b + c \<le> 32" and "b < 32" and "j < 32"
  shows "bit (set_result b c v old) j \<longleftrightarrow> (if b \<le> j \<and> j < b + c then bit v (j - b) else bit old j)"
proof (cases "b \<le> j")
  case True
  then have e: "j + 32 - b = (j - b) + 32"
    by simp
  have "(j + 32 - b) mod 32 = j - b"
    unfolding e mod_add_self2 using assms by simp
  then show ?thesis
    using True bit_set_result [of b j c v old] assms by auto
next
  case False
  then have "(j + 32 - b) mod 32 = j + 32 - b"
    using assms by simp
  then show ?thesis
    using False bit_set_result [of b j c v old] assms by auto
qed

lemma set_result_one:
  assumes "b < 32" and "j < 32"
  shows "bit (set_result b 1 v old) j \<longleftrightarrow> (if j = b then bit v 0 else bit old j)"
  using assms by (subst set_result_range) auto

lemma set_mask_loop_effect:
  assumes doc: "pio_pins_documented D pctrl latch" and sm: "sm < 4"
    and d: "d = pio_pins \<or> d = pio_pindirs"
  shows "\<exists>w'. set_mask_loop D pio sm d vals m w = Some w' \<and>
    pins_effect pctrl latch pio sm (d AND 7) (\<lambda>p. (p AND NOT m) OR (vals AND m)) w w'"
proof (induction m arbitrary: w rule: measure_induct_rule [of unat])
  case (less m)
  show ?case
  proof (cases "m = 0")
    case True
    then show ?thesis
      by (subst set_mask_loop.simps) (auto intro: pins_effect_refl)
  next
    case False
    let ?b = "builtin_ctz m" and ?m = "m AND (m - 1)" and ?v = "drop_bit (builtin_ctz m) vals AND 0x1"
    have b: "?b < 32" "unat (of_nat ?b :: u32) = ?b"
      using builtin_ctz(1) [OF False] by (simp_all add: unat_of_nat)
    have v: "?v \<le> 31"
      by (rule order_trans [OF word_and_le1]) simp
    let ?w = "pio_wr D pio (SM_INSTR sm) (set_instr d ?v) (pio_wr D pio (SM_PINCTRL sm) (set_pinctrl 1 (of_nat ?b)) w)"
    have "unat (1 :: u32) \<le> 5" "unat (of_nat ?b :: u32) < 32"
      using b by simp_all
    note step = set_step [OF doc sm d v this]
    obtain w' where w': "set_mask_loop D pio sm d vals ?m ?w = Some w'"
        "pins_effect pctrl latch pio sm (d AND 7) (\<lambda>p. (p AND NOT ?m) OR (vals AND ?m)) ?w w'"
      using less [OF clear_lowest_less [OF False], of ?w] by blast
    have "(p AND NOT m) OR (vals AND m) =
        (set_result ?b 1 ?v p AND NOT ?m) OR (vals AND ?m)" for p
    proof (rule bit_eqI)
      fix j
      assume "possible_bit TYPE(u32) j"
      then have "bit (set_result ?b 1 ?v p) j \<longleftrightarrow> (if j = ?b then bit vals j else bit p j)"
        using b by (subst set_result_one) (auto simp: bit_simps)
      then show "bit ((p AND NOT m) OR (vals AND m)) j =
          bit ((set_result ?b 1 ?v p AND NOT ?m) OR (vals AND ?m)) j"
        using builtin_ctz(2) [OF False] bit_clear_lowest [OF False, of j] \<open>possible_bit TYPE(u32) j\<close>
        by (auto simp: bit_or_iff bit_and_iff bit_not_iff)
    qed
    then have "pins_effect pctrl latch pio sm (d AND 7) (\<lambda>p. (p AND NOT m) OR (vals AND m)) w w'"
      using pins_effect_trans [OF step(3) w'(2)] b by simp
    then show ?thesis
      using False w'(1) step(1,2) by (subst set_mask_loop.simps) (simp add: Let_def)
  qed
qed

lemma set_pins_loop_effect:
  assumes doc: "pio_pins_documented D pctrl latch" and sm: "sm < 4"
  shows "base + remaining = 32 \<Longrightarrow> \<exists>w'. set_pins_loop D pio sm remaining base pins w = Some w' \<and>
    pins_effect pctrl latch pio sm 0 (\<lambda>p. (p AND mask base) OR push_bit base pins) w w'"
proof (induction remaining arbitrary: base pins w rule: less_induct)
  case (less remaining)
  show ?case
  proof (cases "remaining = 0")
    case True
    then have "(p AND mask base) OR push_bit base pins = p" for p
      using less(2) by (intro bit_eqI) (simp add: bit_simps)
    then show ?thesis
      using True by (subst set_pins_loop.simps) (auto intro: pins_effect_refl)
  next
    case False
    define c where c: "c = (if remaining > 5 then 5 else remaining)"
    then have c5: "0 < c" "c \<le> 5" "base + c \<le> 32" "unat (of_nat c :: u32) = c" "base < 32"
        "unat (of_nat base :: u32) = base" "base + c + (remaining - c) = 32" "remaining - c < remaining"
      using less(2) False by (auto simp: unat_of_nat)
    have v: "pins AND 0x1f \<le> 31"
      by (rule word_and_le1)
    have h: "unat (of_nat c :: u32) \<le> 5" "unat (of_nat base :: u32) < 32"
      using c5 by simp_all
    note step = set_step [OF doc sm _ v h, of pio_pins, OF disjI1, OF refl]
    let ?w = "pio_wr D pio (SM_INSTR sm) (set_instr pio_pins (pins AND 0x1f))
      (pio_wr D pio (SM_PINCTRL sm) (set_pinctrl (of_nat c) (of_nat base)) w)"
    obtain w' where w': "set_pins_loop D pio sm (remaining - c) (base + c) (drop_bit 5 pins) ?w = Some w'"
        "pins_effect pctrl latch pio sm 0 (\<lambda>p. (p AND mask (base + c)) OR push_bit (base + c) (drop_bit 5 pins)) ?w w'"
      using less(1) [OF c5(8) c5(7)] by blast
    have "(p AND mask base) OR push_bit base pins =
      (set_result base c (pins AND 0x1f) p AND mask (base + c)) OR push_bit (base + c) (drop_bit 5 pins)" for p
    proof (rule bit_eqI)
      fix j
      assume "possible_bit TYPE(u32) j"
      then have j: "j < 32"
        by simp
      have m: "(0x1f :: u32) = mask 5"
        by (simp add: mask_eq_exp_minus_1)
      have r: "bit (set_result base c (pins AND 0x1f) p) j \<longleftrightarrow>
          (if base \<le> j \<and> j < base + c then bit pins (j - base) else bit p j)"
        unfolding m using c5 j by (auto simp: set_result_range bit_and_iff bit_mask_iff)
      have "c < 5 \<Longrightarrow> base + c = 32"
        using c less(2) by (auto split: if_splits)
      then have "base + c \<le> j \<Longrightarrow> c = 5"
        using c5(2) j by linarith
      then show "bit ((p AND mask base) OR push_bit base pins) j \<longleftrightarrow>
          bit ((set_result base c (pins AND 0x1f) p AND mask (base + c)) OR push_bit (base + c) (drop_bit 5 pins)) j"
        using j c5(3) by (auto simp: bit_or_iff bit_and_iff bit_mask_iff bit_push_bit_iff bit_drop_bit_eq r)
    qed
    moreover have "pins_effect pctrl latch pio sm 0 (set_result base c (pins AND 0x1f)) w ?w"
      using step(3) [of pio w] c5(4,6) by (simp add: pio_pins_def)
    ultimately have "pins_effect pctrl latch pio sm 0 (\<lambda>p. (p AND mask base) OR push_bit base pins) w w'"
      by (intro pins_effect_trans [OF _ w'(2)])
    then show ?thesis
      using False w'(1) step(1,2) by (subst set_pins_loop.simps) (simp add: Let_def c [symmetric])
  qed
qed

text \<open>The pins \<open>pin\<close>, \<open>pin + 1\<close>, ... (\<open>n\<close> of them, past 31 from 0 on) become \<open>b\<close>.\<close>

definition ring_set :: "nat \<Rightarrow> nat \<Rightarrow> bool \<Rightarrow> u32 \<Rightarrow> u32 \<Rightarrow> bool" where
  "ring_set pin n b p q \<longleftrightarrow>
     (\<forall>j<32. bit q j \<longleftrightarrow> (if (j + 32 - pin) mod 32 < n then b else bit p j))"

lemma ring_set_result:
  assumes "b < 32" and "c \<le> 5" and "v = (if is_out then 0x1f else 0)"
  shows "ring_set b c is_out p (set_result b c v p)"
proof -
  have m: "v = (if is_out then mask 5 else 0)"
    using assms(3) by (simp add: mask_eq_exp_minus_1)
  show ?thesis
    unfolding m using assms(1,2) by (auto simp: ring_set_def bit_set_result bit_mask_iff)
qed

lemma ring_shift:
  assumes "pin < 32" and "j < (32 :: nat)"
  shows "(j + 32 - (pin + 5) mod 32) mod 32 = (if (j + 32 - pin) mod 32 < 5
    then (j + 32 - pin) mod 32 + 27 else (j + 32 - pin) mod 32 - 5)"
proof -
  have "(pin + 5) mod 32 = (if pin < 27 then pin + 5 else pin - 27)"
    using assms by (simp add: mod_if)
  moreover have "(j + 32 - k) mod 32 = (if k \<le> j then j - k else j + 32 - k)" if "k < 32" for k
    using that assms(2) by (auto simp: mod_if)
  ultimately show ?thesis
    using assms by auto
qed

lemma ring_set_trans:
  assumes "ring_set pin 5 b p q" and "ring_set ((pin + 5) mod 32) (n - 5) b q r" and "5 < n" and "pin < 32"
  shows "ring_set pin n b p r"
  using assms ring_shift [OF assms(4)] by (auto simp: ring_set_def)

lemma consecutive_effect:
  assumes doc: "pio_pins_documented D pctrl latch" and sm: "sm < 4"
    and v: "v = (if is_out then 0x1f else 0)"
  shows "unat pin < 32 \<Longrightarrow> \<exists>w'. do {
      (pin, count, w) \<leftarrow> consecutive_loop D pio sm v pin count w;
      let w = pio_wr D pio (SM_PINCTRL sm) (set_pinctrl count pin) w;
      instr \<leftarrow> pio_encode_set pio_pindirs v;
      pio_sm_exec D pio sm instr w } = Some w' \<and>
    (\<exists>f. pins_effect pctrl latch pio sm 4 f w w' \<and> (\<forall>p. ring_set (unat pin) (unat count) is_out p (f p)))"
proof (induction count arbitrary: pin w rule: measure_induct_rule [of unat])
  case (less count)
  have v31: "v \<le> 31"
    using v by simp
  have d4: "pio_pindirs AND 7 = 4"
    by (simp add: pio_operand_defs)
  note step = set_step [OF doc sm _ v31, of pio_pindirs, OF disjI2, OF refl, unfolded d4]
  show ?case
  proof (cases "count > 5")
    case False
    then have c: "unat count \<le> 5"
      by (simp add: word_le_nat_alt not_less)
    then show ?thesis
      using False step(1,2) [OF c less(2)] step(3) [OF c less(2), of pio w] ring_set_result [OF less(2) c v]
      by (subst consecutive_loop.simps) auto
  next
    case True
    let ?w = "pio_wr D pio (SM_INSTR sm) (set_instr pio_pindirs v)
      (pio_wr D pio (SM_PINCTRL sm) (set_pinctrl 5 pin) w)" and ?pin = "(pin + 5) AND 0x1f"
    have p: "unat ?pin = (unat pin + 5) mod 32"
    proof -
      have "?pin = take_bit 5 (pin + 5)"
        by (simp add: take_bit_eq_mask mask_eq_exp_minus_1)
      then show ?thesis
        using less(2) by (simp add: unsigned_take_bit_eq unat_word_ariths take_bit_eq_mod mod_mod_cancel)
    qed
    have n: "unat (count - 5) = unat count - 5" "5 < unat count"
      using True by (simp_all add: unat_sub word_le_nat_alt word_less_nat_alt)
    have "unat (5 :: u32) \<le> 5"
      by simp
    note step = step(1,2) [OF this less(2)] step(3) [OF this less(2), of pio w]
    obtain w' f where w': "do {
        (pin, count, w) \<leftarrow> consecutive_loop D pio sm v ?pin (count - 5) ?w;
        let w = pio_wr D pio (SM_PINCTRL sm) (set_pinctrl count pin) w;
        instr \<leftarrow> pio_encode_set pio_pindirs v;
        pio_sm_exec D pio sm instr w } = Some w'"
        "pins_effect pctrl latch pio sm 4 f ?w w'"
        "\<forall>p. ring_set (unat ?pin) (unat (count - 5)) is_out p (f p)"
      using less(1) [OF minus_five_less [OF True], of ?pin ?w] p by auto
    have "pins_effect pctrl latch pio sm 4 (\<lambda>p. f (set_result (unat pin) 5 v p)) w w'"
      using pins_effect_trans [OF step(3) w'(2)] by simp
    moreover have "ring_set (unat pin) (unat count) is_out p (f (set_result (unat pin) 5 v p))" for p
      using ring_set_trans [OF ring_set_result [OF less(2) _ v] _ n(2) less(2)] w'(3) p n(1) by simp
    ultimately show ?thesis
      using True w'(1) step(1,2) by (subst consecutive_loop.simps) (auto simp: Let_def)
  qed
qed

lemma saved_and_restored:
  assumes doc: "pio_pins_documented D pctrl latch" and sm: "sm < 4"
    and r: "pio_rd D pio (SM_PINCTRL sm) w = (v, w0)" and e: "pins_effect pctrl latch pio sm d f w0 w1"
  shows "pctrl (pio_wr D pio (SM_PINCTRL sm) v w1) = pctrl w"
    and "latch (pio_wr D pio (SM_PINCTRL sm) v w1) = (latch w)(pio := (latch w pio)(d := f (latch w pio d)))"
proof -
  have "fst (pio_rd D pio (SM_PINCTRL sm) w) = pctrl w pio sm \<and>
        pctrl (snd (pio_rd D pio (SM_PINCTRL sm) w)) = pctrl w \<and>
        latch (snd (pio_rd D pio (SM_PINCTRL sm) w)) = latch w"
    using doc sm by (simp add: pio_pins_documented_def)
  then have w0: "v = pctrl w pio sm" "pctrl w0 = pctrl w" "latch w0 = latch w"
    by (simp_all add: r)
  have w1: "pctrl (pio_wr D pio (SM_PINCTRL sm) v w1) = (pctrl w1)(pio := (pctrl w1 pio)(sm := v))"
      "latch (pio_wr D pio (SM_PINCTRL sm) v w1) = latch w1"
    using doc sm by (simp_all add: pio_pins_documented_def)
  show "pctrl (pio_wr D pio (SM_PINCTRL sm) v w1) = pctrl w"
    unfolding w1(1) using e w0 by (auto simp: pins_effect_def)
  show "latch (pio_wr D pio (SM_PINCTRL sm) v w1) = (latch w)(pio := (latch w pio)(d := f (latch w pio d)))"
    unfolding w1(2) using e w0 by (simp add: pins_effect_def)
qed

text \<open>
  C22. On a block that executes SET as documented, \<open>pio_sm_set_pins\<close> gives all 32 pins the
  wanted values, the two functions with a mask change exactly the pins or directions in the
  mask, and \<open>pio_sm_set_consecutive_pindirs\<close> sets the directions of exactly \<open>count\<close> pins from
  \<open>pin\<close> on, past pin 31 from pin 0 on; each returns, and leaves PINCTRL as it was.
\<close>
theorem pio_pins_set_exactly:
  assumes "pio_pins_documented D pctrl latch" and "sm < 4" and "unat pin < 32"
  shows "(\<exists>w'. pio_sm_set_pins D pio sm v w = Some w' \<and> pctrl w' = pctrl w \<and>
      latch w' = (latch w)(pio := (latch w pio)(0 := v))) \<and>
    (\<exists>w'. pio_sm_set_pins_with_mask D pio sm v m w = Some w' \<and> pctrl w' = pctrl w \<and>
      latch w' = (latch w)(pio := (latch w pio)(0 := (latch w pio 0 AND NOT m) OR (v AND m)))) \<and>
    (\<exists>w'. pio_sm_set_pindirs_with_mask D pio sm v m w = Some w' \<and> pctrl w' = pctrl w \<and>
      latch w' = (latch w)(pio := (latch w pio)(4 := (latch w pio 4 AND NOT m) OR (v AND m)))) \<and>
    (\<exists>w' q. pio_sm_set_consecutive_pindirs D pio sm pin count is_out w = Some w' \<and> pctrl w' = pctrl w \<and>
      latch w' = (latch w)(pio := (latch w pio)(4 := q)) \<and>
      (\<forall>j<32. bit q j \<longleftrightarrow> (if (j + 32 - unat pin) mod 32 < unat count then is_out else bit (latch w pio 4) j)))"
proof -
  obtain s w0 where r: "pio_rd D pio (SM_PINCTRL sm) w = (s, w0)"
    by force
  note save = saved_and_restored [OF assms(1,2) r]
  have d: "pio_pins AND 7 = 0" "pio_pindirs AND 7 = 4" "pin < 32"
    using assms(3) by (simp_all add: pio_operand_defs word_less_nat_alt)
  obtain w1 where "set_pins_loop D pio sm 32 0 v w0 = Some w1"
      "pins_effect pctrl latch pio sm 0 (\<lambda>p. v) w0 w1"
    using set_pins_loop_effect [OF assms(1,2), where base = 0 and remaining = 32 and pins = v and w = w0] by auto
  moreover obtain w2 where "set_mask_loop D pio sm pio_pins v m w0 = Some w2"
      "pins_effect pctrl latch pio sm 0 (\<lambda>p. (p AND NOT m) OR (v AND m)) w0 w2"
    using set_mask_loop_effect [OF assms(1,2), where d = pio_pins and vals = v and m = m and w = w0] d by auto
  moreover obtain w3 where "set_mask_loop D pio sm pio_pindirs v m w0 = Some w3"
      "pins_effect pctrl latch pio sm 4 (\<lambda>p. (p AND NOT m) OR (v AND m)) w0 w3"
    using set_mask_loop_effect [OF assms(1,2), where d = pio_pindirs and vals = v and m = m and w = w0] d by auto
  moreover obtain w4 f where w4: "do {
        (pin, count, w) \<leftarrow> consecutive_loop D pio sm (if is_out then 0x1f else 0) pin count w0;
        let w = pio_wr D pio (SM_PINCTRL sm) (set_pinctrl count pin) w;
        instr \<leftarrow> pio_encode_set pio_pindirs (if is_out then 0x1f else 0);
        pio_sm_exec D pio sm instr w } = Some w4"
      "pins_effect pctrl latch pio sm 4 f w0 w4" "\<forall>p. ring_set (unat pin) (unat count) is_out p (f p)"
    using consecutive_effect [OF assms(1,2) refl assms(3), where count = count and w = w0 and is_out = is_out] by blast
  moreover have "pio_sm_set_consecutive_pindirs D pio sm pin count is_out w =
      Some (pio_wr D pio (SM_PINCTRL sm) s w4)"
    using w4(1) assms(2) d(3) r
    by (cases is_out) (auto simp: pio_sm_set_consecutive_pindirs_def check_sm_param_def Let_def split: bind_splits)
  ultimately show ?thesis
    using assms(2) r save by (auto simp: pio_sm_set_pins_def pio_sm_set_pins_with_mask_def
        pio_sm_set_pindirs_with_mask_def check_sm_param_def ring_set_def)
qed

text \<open>A block that only knows PINCTRL and the SET instruction.\<close>

fun sim_wr :: "PIO \<Rightarrow> pio_reg \<Rightarrow> u32 \<Rightarrow> (PIO \<Rightarrow> nat \<Rightarrow> u32) \<times> (PIO \<Rightarrow> u32 \<Rightarrow> u32) \<Rightarrow>
  (PIO \<Rightarrow> nat \<Rightarrow> u32) \<times> (PIO \<Rightarrow> u32 \<Rightarrow> u32)" where
  "sim_wr pio (SM_PINCTRL sm) v (p, l) = (p(pio := (p pio)(sm := v)), l)"
| "sim_wr pio (SM_INSTR sm) i (p, l) =
     (p, l(pio := (l pio)(instr_arg1 i := set_result (unat (drop_bit 5 (p pio sm) AND 0x1f))
       (unat (drop_bit 26 (p pio sm) AND 0x7)) (instr_arg2 i) (l pio (instr_arg1 i)))))"
| "sim_wr pio r v w = w"

definition pio_sim :: "((PIO \<Rightarrow> nat \<Rightarrow> u32) \<times> (PIO \<Rightarrow> u32 \<Rightarrow> u32)) pio_dev" where
  "pio_sim = \<lparr> pio_rd = (\<lambda>pio r w. (case r of SM_PINCTRL sm \<Rightarrow> fst w pio sm | _ \<Rightarrow> 0, w)),
     pio_wr = sim_wr, pio_hw_set = (\<lambda>pio r v w. w), pio_hw_clear = (\<lambda>pio r v w. w),
     pio_hw_xor = (\<lambda>pio r v w. w) \<rparr>"

lemma pio_sim_documented: "pio_pins_documented pio_sim fst snd"
  by (simp add: pio_pins_documented_def pio_sim_def split_paired_all)

theorem pio_pins_set_exactly_witness:
  "\<exists>w'. pio_sm_set_pins_with_mask pio_sim pio1 2 0xf0 0x3c (\<lambda>_ _. 0, \<lambda>_ _. 0x0f) = Some w' \<and> snd w' pio1 0 = 0x33"
proof -
  have "unat (0 :: u32) < 32"
    by simp
  from pio_pins_set_exactly [OF pio_sim_documented _ this, of 2 pio1 "0xf0" "(\<lambda>_ _. 0, \<lambda>_ _. 0x0f)" "0x3c" 0 False]
  obtain w' where "pio_sm_set_pins_with_mask pio_sim pio1 2 0xf0 0x3c (\<lambda>_ _. 0, \<lambda>_ _. 0x0f) = Some w'"
      "snd w' = (\<lambda>_ _. 0x0f)(pio1 := (\<lambda>_. 0x0f)(0 := (0x0f AND NOT 0x3c) OR (0xf0 AND 0x3c)))"
    by auto
  then show ?thesis
    by simp
qed

end
