(* ===== verification/Irq_Chain.thy ===== *)
theory Irq_Chain
  imports Irq
begin

text \<open>
  The chains of shared interrupt handlers: a chain is code, three half words per slot. An
  interpreter of this code (\<open>irq_dispatch\<close>) says which handlers an interrupt runs, and an
  invariant over the slots, the vector table and the free list shows that adding and removing
  handlers in any order keeps every chain running exactly its handlers by priority.
\<close>

section \<open>Running a chain\<close>

text \<open>
  The processor at slot \<open>k\<close>. The first slot of a chain branches to
  \<open>irq_handler_chain_first_slot\<close>, which pushes the return token, calls the slot's handler and
  returns to \<open>inst3\<close>; a later slot calls its handler itself. \<open>inst3\<close> pops the token (0xbd00)
  or branches to the next slot. Any other code, or a second push, is \<open>None\<close>.
\<close>

partial_function (option) exec_slot :: "irq_state \<Rightarrow> bool \<Rightarrow> nat \<Rightarrow> u32 list option" where
  "exec_slot s first k = do {
     c \<leftarrow> c_read (slots s) k;
     t \<leftarrow> (if first then do { c_assert (inst1 c = 0xa100); resolve_branch (inst2_addr s k) (inst2 c) }
           else do { c_assert (inst1 c = 0x4801 \<and> inst2 c = 0x4780); Some (irq_handler_chain_first_slot s) });
     c_assert (t = irq_handler_chain_first_slot s);
     if inst3 c = 0xbd00 then Some [handler c]
     else do {
       t \<leftarrow> resolve_branch (inst3_addr s k) (inst3 c);
       c_assert (t = slot_addr s (slot_of s t));
       hs \<leftarrow> exec_slot s False (slot_of s t);
       Some (handler c # hs) } }"

declare exec_slot.simps [code]

definition irq_dispatch :: "irq_state \<Rightarrow> nat \<Rightarrow> u32 list option" where
  "irq_dispatch s num = do {
     v \<leftarrow> c_read (vtable s) (16 + num);
     if v = unhandled s then Some []
     else if is_shared_irq_raw_handler s v then exec_slot s True (slot_of s (remove_thumb_bit v))
     else Some [v] }"

section \<open>Addresses and branches\<close>

definition base_ok :: "u32 \<Rightarrow> bool" where
  "base_ok b \<longleftrightarrow> even b \<and> unat b < 2 ^ 32 - 100"

lemma less_4_cases: "k < (4 :: nat) \<Longrightarrow> k = 0 \<or> k = 1 \<or> k = 2 \<or> k = 3"
  by auto

lemma branch_to_slot:
  "k < 4 \<Longrightarrow> j < 4 \<Longrightarrow> \<exists>w. make_branch (b + of_nat (12 * k) + 4) (b + of_nat (12 * j)) = Some w \<and>
     resolve_branch (b + of_nat (12 * k) + 4) w = Some (b + of_nat (12 * j)) \<and> w \<noteq> 0xbd00"
  by (elim less_4_cases [elim_format] disjE)
    (simp_all add: make_branch_def resolve_branch_def Let_def)

lemma branch_to_first:
  "k < 4 \<Longrightarrow> \<exists>w. make_branch (b + of_nat (12 * k) + 2) (b + 48) = Some w \<and>
     resolve_branch (b + of_nat (12 * k) + 2) w = Some (b + 48)"
  by (elim less_4_cases [elim_format] disjE)
    (simp_all add: make_branch_def resolve_branch_def Let_def)

lemma slot_index_of_addr:
  assumes "k < 4"
  shows "unat ((b + of_nat (12 * k)) - b :: u32) div 12 = k"
  using assms by (elim less_4_cases [elim_format] disjE) simp_all

lemma slot_diff_slot:
  assumes "base_ok b" and "k < 4"
  shows "slot_diff (b + of_nat (12 * k)) b = of_nat k"
proof -
  have "b \<le> b + of_nat (12 * k)"
    using assms by (simp add: base_ok_def word_le_nat_alt unat_word_ariths unat_of_nat)
  then have "slot_diff (b + of_nat (12 * k)) b = ucast (drop_bit 20 (0xaaaa * (2 * of_nat (12 * k) + 1 :: u32)))"
    by (simp add: slot_diff_def Let_def)
  also have "\<dots> = of_nat k"
    using assms(2) by (elim less_4_cases [elim_format] disjE) simp_all
  finally show ?thesis .
qed

lemma thumb_slot:
  assumes "base_ok b" and "k < 4"
  shows "add_thumb_bit (b + of_nat (12 * k)) = b + of_nat (12 * k) + 1"
    and "remove_thumb_bit (b + of_nat (12 * k) + 1) = b + of_nat (12 * k)"
proof -
  let ?a = "b + of_nat (12 * k)"
  have e: "even ?a"
    using assms(1) by (simp add: base_ok_def)
  then have z: "?a AND 1 = 0"
    unfolding and_one_eq by (simp only: even_iff_mod_2_eq_zero)
  then show t: "add_thumb_bit ?a = ?a + 1"
    by (simp add: add_thumb_bit_def disjunctive_add_eq_or)
  have "(?a OR 1) AND NOT 1 = ?a"
    by (rule bit_eqI) (use e in \<open>auto simp: bit_simps bit_1_iff bit_0 intro: gr0I\<close>)
  then show "remove_thumb_bit (?a + 1) = ?a"
    using t by (simp add: remove_thumb_bit_def add_thumb_bit_def)
qed

section \<open>Chains of slots\<close>

definition entry_ok :: "u32 \<Rightarrow> nat \<Rightarrow> bool \<Rightarrow> irq_slot \<Rightarrow> bool" where
  "entry_ok b k first c \<longleftrightarrow>
     (if first then inst1 c = 0xa100 \<and> make_branch (b + of_nat (12 * k) + 2) (b + 48) = Some (inst2 c)
      else inst1 c = 0x4801 \<and> inst2 c = 0x4780)"

definition exit_ok :: "u32 \<Rightarrow> nat \<Rightarrow> irq_slot \<Rightarrow> nat option \<Rightarrow> bool" where
  "exit_ok b k c nx \<longleftrightarrow> (case nx of
       None \<Rightarrow> inst3 c = 0xbd00 \<and> link c = - 1
     | Some j \<Rightarrow> j < 4 \<and> make_branch (b + of_nat (12 * k) + 4) (b + of_nat (12 * j)) = Some (inst3 c) \<and>
         link c = of_nat j)"

lemma entry_ok_cong:
  "inst1 c' = inst1 c \<Longrightarrow> inst2 c' = inst2 c \<Longrightarrow> entry_ok b k first c' \<longleftrightarrow> entry_ok b k first c"
  by (simp add: entry_ok_def)

text \<open>The slots \<open>ks\<close> linked in this order, the last one going on to \<open>nx\<close>.\<close>

fun seg :: "u32 \<Rightarrow> irq_slot list \<Rightarrow> bool \<Rightarrow> nat list \<Rightarrow> nat option \<Rightarrow> bool" where
  "seg b cs first [] nx = True"
| "seg b cs first (k # ks) nx = (k < 4 \<and> entry_ok b k first (cs ! k) \<and>
     exit_ok b k (cs ! k) (if ks = [] then nx else Some (hd ks)) \<and> seg b cs False ks nx)"

lemma seg_append:
  "seg b cs first (as @ bs) nx \<longleftrightarrow>
     seg b cs first as (if bs = [] then nx else Some (hd bs)) \<and> seg b cs (first \<and> as = []) bs nx"
  by (induction as arbitrary: first) auto

lemma seg_cong:
  "(\<And>k. k \<in> set ks \<Longrightarrow> cs' ! k = cs ! k) \<Longrightarrow> seg b cs' first ks nx = seg b cs first ks nx"
  by (induction ks arbitrary: first) auto

lemma seg_update [simp]: "k \<notin> set ks \<Longrightarrow> seg b (cs[k := c]) first ks nx = seg b cs first ks nx"
  by (rule seg_cong) (metis nth_list_update_neq)

lemma seg_bound: "seg b cs first ks nx \<Longrightarrow> k \<in> set ks \<Longrightarrow> k < 4"
  by (induction ks arbitrary: first) auto

lemma link_none [simp]: "link c = - 1 \<Longrightarrow> link_index c = None" "link c = 255 \<Longrightarrow> link_index c = None"
  by (simp_all add: link_index_def)

lemma link_some:
  assumes "link c = of_nat j" and "j < 4"
  shows "link_index c = Some j" and "sint (link c) \<ge> 0"
  using assms by (auto simp: link_index_def dest!: less_4_cases)

lemma chain_find_insert_seg:
  assumes "length cs = 4"
  shows "seg b cs first (k # ks) None \<Longrightarrow> chain_find_insert cs p prev k =
    (let as = takeWhile (\<lambda>k. priority (cs ! k) > p) (k # ks); bs = dropWhile (\<lambda>k. priority (cs ! k) > p) (k # ks)
     in Some (if as = [] then prev else Some (last as), if bs = [] then last as else hd bs))"
proof (induction ks arbitrary: k prev first)
  case Nil
  then have "exit_ok b k (cs ! k) None" "k < 4"
    by simp_all
  then show ?case
    using assms by (subst chain_find_insert.simps) (simp add: exit_ok_def Let_def)
next
  case (Cons j ks)
  then have "exit_ok b k (cs ! k) (Some j)" "k < 4" "seg b cs False (j # ks) None"
    by simp_all
  then show ?case
    using assms Cons.IH [of False j "Some k"] link_some(1) [of "cs ! k" j]
    by (subst chain_find_insert.simps) (simp add: exit_ok_def Let_def)
qed

lemma chain_find_handler_seg:
  assumes "length cs = 4"
  shows "seg b cs first (k # ks) None \<Longrightarrow> chain_find_handler cs h prev k =
    (let as = takeWhile (\<lambda>k. handler (cs ! k) \<noteq> h) (k # ks); bs = dropWhile (\<lambda>k. handler (cs ! k) \<noteq> h) (k # ks)
     in Some (if as = [] then prev else Some (last as), if bs = [] then last as else hd bs))"
proof (induction ks arbitrary: k prev first)
  case Nil
  then have "exit_ok b k (cs ! k) None" "k < 4"
    by simp_all
  then show ?case
    using assms by (subst chain_find_handler.simps) (simp add: exit_ok_def Let_def)
next
  case (Cons j ks)
  then have "exit_ok b k (cs ! k) (Some j)" "k < 4" "seg b cs False (j # ks) None"
    by simp_all
  then show ?case
    using assms Cons.IH [of False j "Some k"] link_some(1) [of "cs ! k" j]
    by (subst chain_find_handler.simps) (simp add: exit_ok_def Let_def)
qed

text \<open>A chain's code runs the handlers of its slots in order.\<close>

lemma exec_seg:
  assumes "length (slots s) = 4" and "base_ok (slots_base s)"
  shows "seg (slots_base s) (slots s) first (k # ks) None \<Longrightarrow>
    exec_slot s first k = Some (map (\<lambda>k. handler (slots s ! k)) (k # ks))"
proof (induction ks arbitrary: k first)
  case Nil
  then show ?case
    using assms branch_to_first [of k "slots_base s"]
    by (subst exec_slot.simps)
      (auto simp: entry_ok_def exit_ok_def inst2_addr_def slot_addr_def irq_handler_chain_first_slot_def)
next
  case (Cons j ks)
  let ?b = "slots_base s"
  have j: "exit_ok ?b k (slots s ! k) (Some j)" "k < 4" "entry_ok ?b k first (slots s ! k)"
      "seg ?b (slots s) False (j # ks) None"
    using Cons.prems by simp_all
  then have "j < 4" "make_branch (?b + of_nat (12 * k) + 4) (?b + of_nat (12 * j)) = Some (inst3 (slots s ! k))"
    by (simp_all add: exit_ok_def)
  then have t: "resolve_branch (?b + of_nat (12 * k) + 4) (inst3 (slots s ! k)) = Some (?b + of_nat (12 * j))"
      "inst3 (slots s ! k) \<noteq> 0xbd00" "slot_of s (?b + of_nat (12 * j)) = j"
    using branch_to_slot [of k j ?b] j(2) slot_index_of_addr [of j ?b] by (auto simp: slot_of_def)
  then show ?case
    using assms(1) branch_to_first [of k ?b] j Cons.IH [OF j(4)]
    by (subst exec_slot.simps)
      (auto simp: entry_ok_def inst2_addr_def inst3_addr_def slot_addr_def irq_handler_chain_first_slot_def)
qed

section \<open>The invariant\<close>

text \<open>The free list: its head is a slot number or -1.\<close>

fun free_ok :: "irq_slot list \<Rightarrow> u8 \<Rightarrow> nat list \<Rightarrow> bool" where
  "free_ok cs x [] = (x = - 1)"
| "free_ok cs x (k # fs) = (k < 4 \<and> x = of_nat k \<and> free_ok cs (link (cs ! k)) fs)"

lemma free_ok_cong: "(\<And>k. k \<in> set fs \<Longrightarrow> cs' ! k = cs ! k) \<Longrightarrow> free_ok cs' x fs = free_ok cs x fs"
  by (induction fs arbitrary: x) auto

lemma free_ok_update [simp]: "k \<notin> set fs \<Longrightarrow> free_ok (cs[k := c]) x fs = free_ok cs x fs"
  by (rule free_ok_cong) (metis nth_list_update_neq)

text \<open>
  \<open>C n\<close> are the slots of interrupt \<open>n\<close> in the order of its chain, \<open>F\<close> the free ones: the four
  slots are split among them, each chain is linked code entered from the vector table, and
  an interrupt without shared handlers has the default handler.
\<close>

definition chains_ok :: "irq_state \<Rightarrow> (nat \<Rightarrow> nat list) \<Rightarrow> nat list \<Rightarrow> bool" where
  "chains_ok s C F \<longleftrightarrow> length (slots s) = 4 \<and> length (vtable s) = 48 \<and> base_ok (slots_base s) \<and>
     \<not> is_shared_irq_raw_handler s (unhandled s) \<and> current_exception s = 0 \<and>
     (\<forall>n<32. seg (slots_base s) (slots s) True (C n) None \<and> distinct (C n) \<and> set (C n) \<inter> set F = {} \<and>
        vtable s ! (16 + n) = (if C n = [] then unhandled s else add_thumb_bit (slot_addr s (hd (C n))))) \<and>
     free_ok (slots s) (free_slot_head s) F \<and> distinct F \<and>
     (\<forall>m<32. \<forall>n<32. m \<noteq> n \<longrightarrow> set (C m) \<inter> set (C n) = {}) \<and>
     (\<forall>k<4. k \<in> set F \<or> (\<exists>n<32. k \<in> set (C n)))"

definition entries :: "irq_state \<Rightarrow> nat list \<Rightarrow> (u32 \<times> u8) list" where
  "entries s ks = map (\<lambda>k. (handler (slots s ! k), priority (slots s ! k))) ks"

lemma chains_ok_change:
  assumes ok: "chains_ok s C F" and n: "n < 32"
    and same: "slots_base s' = slots_base s" "unhandled s' = unhandled s" "current_exception s' = current_exception s"
    and len: "length (slots s') = 4"
    and frame: "\<And>k. k \<notin> set (C n) \<Longrightarrow> k \<notin> set F \<Longrightarrow> slots s' ! k = slots s ! k"
    and vec: "vtable s' = (vtable s)[16 + n := if ks = [] then unhandled s else add_thumb_bit (slot_addr s (hd ks))]"
    and new: "seg (slots_base s) (slots s') True ks None" "free_ok (slots s') (free_slot_head s') F'"
    and split: "set ks \<union> set F' = set (C n) \<union> set F" "distinct (ks @ F')"
  shows "chains_ok s' (C(n := ks)) F' \<and> (\<forall>m<32. m \<noteq> n \<longrightarrow> entries s' (C m) = entries s (C m))"
proof -
  have o: "k \<notin> set (C n) \<and> k \<notin> set F" if "m < 32" "m \<noteq> n" "k \<in> set (C m)" for m k
    using ok n that unfolding chains_ok_def by blast
  then have keep: "slots s' ! k = slots s ! k" if "m < 32" "m \<noteq> n" "k \<in> set (C m)" for m k
    using that frame by blast
  have "seg (slots_base s) (slots s') True (C m) None" if "m < 32" "m \<noteq> n" for m
    using seg_cong [OF keep [OF that]] ok that by (simp add: chains_ok_def)
  moreover have "entries s' (C m) = entries s (C m)" if "m < 32" "m \<noteq> n" for m
    using keep [OF that] by (simp add: entries_def)
  moreover have "set (C m) \<inter> set ks = {}" "set (C m) \<inter> set F' = {}" if "m < 32" "m \<noteq> n" for m
    using o [OF that] split(1) by blast+
  moreover have "\<forall>k<4. k \<in> set F' \<or> (\<exists>m<32. k \<in> set ((C(n := ks)) m))"
  proof (intro allI impI)
    fix k :: nat
    assume "k < 4"
    then consider "k \<in> set F" | m where "m < 32" "k \<in> set (C m)"
      using ok by (auto simp: chains_ok_def)
    then show "k \<in> set F' \<or> (\<exists>m<32. k \<in> set ((C(n := ks)) m))"
    proof cases
      case 1
      then show ?thesis
        using split(1) n by auto
    next
      case 2
      then show ?thesis
        using split(1) n by (cases "m = n") auto
    qed
  qed
  moreover have "length (vtable s') = 48" "vtable s' ! (16 + m) = (if m = n then
      (if ks = [] then unhandled s else add_thumb_bit (slot_addr s (hd ks))) else vtable s ! (16 + m))" if "m < 32" for m
    using ok that by (auto simp: vec chains_ok_def nth_list_update)
  ultimately show ?thesis
    using ok n same len new split(2)
    by (auto simp: chains_ok_def is_shared_irq_raw_handler_def slot_addr_def)
qed

lemma vector_of_slot:
  assumes "base_ok (slots_base s)" and "length (slots s) = 4" and "k < 4"
  defines "v \<equiv> add_thumb_bit (slot_addr s k)"
  shows "is_shared_irq_raw_handler s v" and "(v - slots_base s - 1) mod 12 = 0"
    and "slot_of s (remove_thumb_bit v) = k"
proof -
  have v: "v = slots_base s + of_nat (12 * k) + 1" "remove_thumb_bit v = slots_base s + of_nat (12 * k)"
    using thumb_slot [OF assms(1,3)] by (simp_all add: v_def slot_addr_def)
  show "is_shared_irq_raw_handler s v" "(v - slots_base s - 1) mod 12 = 0"
    unfolding is_shared_irq_raw_handler_def v(1) assms(2)
    using assms(3) by (elim less_4_cases [elim_format] disjE; simp)+
  show "slot_of s (remove_thumb_bit v) = k"
    unfolding v(2) slot_of_def using slot_index_of_addr [OF assms(3)] by simp
qed

lemma chain_vector:
  assumes "chains_ok s C F" and "n < 32"
  shows "c_read (vtable s) (16 + n) = Some (if C n = [] then unhandled s else add_thumb_bit (slot_addr s (hd (C n))))"
    and "C n \<noteq> [] \<Longrightarrow> hd (C n) < 4" and "\<not> is_shared_irq_raw_handler s (unhandled s)"
    and "C n \<noteq> [] \<Longrightarrow> add_thumb_bit (slot_addr s (hd (C n))) \<noteq> unhandled s"
proof -
  show hd: "C n \<noteq> [] \<Longrightarrow> hd (C n) < 4"
    using assms seg_bound [of "slots_base s" "slots s" True "C n" None "hd (C n)"] by (simp add: chains_ok_def)
  show u: "\<not> is_shared_irq_raw_handler s (unhandled s)"
    using assms(1) by (simp add: chains_ok_def)
  show "c_read (vtable s) (16 + n) = Some (if C n = [] then unhandled s else add_thumb_bit (slot_addr s (hd (C n))))"
    using assms by (simp add: chains_ok_def c_read_def)
  show "C n \<noteq> [] \<Longrightarrow> add_thumb_bit (slot_addr s (hd (C n))) \<noteq> unhandled s"
    using vector_of_slot(1) [of s "hd (C n)"] hd u assms(1) unfolding chains_ok_def by metis
qed

text \<open>What an interrupt with shared handlers runs.\<close>

lemma dispatch_chain:
  assumes "chains_ok s C F" and "n < 32"
  shows "irq_dispatch s n = Some (map fst (entries s (C n)))"
proof (cases "C n")
  case Nil
  then show ?thesis
    using chain_vector [OF assms] by (simp add: irq_dispatch_def entries_def)
next
  case (Cons k ks)
  have ok: "length (slots s) = 4" "base_ok (slots_base s)" "seg (slots_base s) (slots s) True (k # ks) None"
    using assms Cons by (auto simp: chains_ok_def)
  have "k < 4"
    using ok(3) by simp
  note v = vector_of_slot [OF ok(2,1) this]
  show ?thesis
    using chain_vector [OF assms] v exec_seg [OF ok(1,2,3)]
    by (simp add: irq_dispatch_def entries_def Cons o_def)
qed

section \<open>Adding a handler\<close>

definition insert_entry :: "u32 \<Rightarrow> u8 \<Rightarrow> (u32 \<times> u8) list \<Rightarrow> (u32 \<times> u8) list" where
  "insert_entry h p es = takeWhile (\<lambda>e. snd e > p) es @ (h, p) # dropWhile (\<lambda>e. snd e > p) es"

lemma make_branch_slot:
  "k < 4 \<Longrightarrow> j < 4 \<Longrightarrow> make_branch (b + of_nat (12 * k) + 4) (b + of_nat (12 * j)) \<noteq> None"
  using branch_to_slot [of k j b] by auto

lemma resolve_exit:
  assumes "exit_ok b k c (Some j)" and "k < 4"
  shows "resolve_branch (b + of_nat (12 * k) + 4) (inst3 c) = Some (b + of_nat (12 * j))" and "j < 4"
    and "link c = of_nat j" "sint (link c) \<ge> 0"
  using assms branch_to_slot [of k j b] link_some(2) [of c j] by (auto simp: exit_ok_def)

lemma add_to_empty:
  assumes ok: "chains_ok s C (f # F)" and n: "n < 32" and e: "C n = []"
  shows "\<exists>s'. irq_add_shared_handler s n h p = Some s' \<and> chains_ok s' (C(n := [f])) F \<and>
    entries s' [f] = [(h, p)] \<and> (\<forall>m<32. m \<noteq> n \<longrightarrow> entries s' (C m) = entries s (C m))"
proof -
  let ?b = "slots_base s"
  have f: "f < 4" "free_slot_head s = of_nat f" "free_ok (slots s) (link (slots s ! f)) F" "length (slots s) = 4"
      "f \<notin> set F" "distinct F" "length (vtable s) = 48"
    using ok by (auto simp: chains_ok_def)
  have sint: "sint (free_slot_head s) \<ge> 0" "nat (sint (free_slot_head s)) = f"
    using f(1,2) by (auto dest!: less_4_cases)
  obtain w where w: "make_branch (?b + of_nat (12 * f) + 2) (?b + 48) = Some w"
    using branch_to_first [OF f(1), of ?b] by blast
  define c where "c = \<lparr>inst1 = 0xa100, inst2 = w, inst3 = 0xbd00, link = - 1, priority = p, handler = h\<rparr>"
  define s' where "s' = s\<lparr>free_slot_head := link (slots s ! f), slots := (slots s)[f := c],
    vtable := (vtable s)[16 + n := add_thumb_bit (slot_addr s f)]\<rparr>"
  have "irq_add_shared_handler s n h p = Some s'"
    using chain_vector [OF ok n] n e f(1,4,7) sint w
    by (simp add: irq_add_shared_handler_def check_irq_param_def NUM_IRQS_def is_shared_irq_raw_handler_def
        inst2_addr_def slot_addr_def irq_handler_chain_first_slot_def put_slot_def set_raw_irq_handler_and_unlock_def
        c_read_def c_write_def s'_def c_def Let_def split: if_splits)
  moreover have "chains_ok s' (C(n := [f])) F \<and> (\<forall>m<32. m \<noteq> n \<longrightarrow> entries s' (C m) = entries s (C m))"
    using f w e by (intro chains_ok_change [OF ok n]) (auto simp: s'_def c_def entry_ok_def exit_ok_def)
  moreover have "entries s' [f] = [(h, p)]"
    using f by (simp add: entries_def s'_def c_def)
  ultimately show ?thesis
    by blast
qed

lemma free_head:
  assumes "chains_ok s C (f # F)"
  shows "f < 4" and "free_slot_head s = of_nat f" and "free_ok (slots s) (link (slots s ! f)) F"
    and "length (slots s) = 4" and "f \<notin> set F" and "distinct F" and "length (vtable s) = 48"
    and "base_ok (slots_base s)" and "sint (free_slot_head s) \<ge> 0" and "nat (sint (free_slot_head s)) = f"
    and "m < 32 \<Longrightarrow> f \<notin> set (C m)"
proof -
  show f: "f < 4" "free_slot_head s = of_nat f" "free_ok (slots s) (link (slots s ! f)) F"
    "length (slots s) = 4" "f \<notin> set F" "distinct F" "length (vtable s) = 48" "base_ok (slots_base s)"
    "m < 32 \<Longrightarrow> f \<notin> set (C m)"
    using assms by (auto simp: chains_ok_def)
  show "sint (free_slot_head s) \<ge> 0" "nat (sint (free_slot_head s)) = f"
    using f(1,2) by (auto dest!: less_4_cases)
qed

lemma chain_facts:
  assumes "chains_ok s C F" and "n < 32" and "C n = as @ bs"
  shows "seg (slots_base s) (slots s) True as (if bs = [] then None else Some (hd bs))"
    and "seg (slots_base s) (slots s) (as = []) bs None" and "distinct as" "distinct bs" "set as \<inter> set bs = {}"
    and "k \<in> set as \<union> set bs \<Longrightarrow> k < 4 \<and> k \<notin> set F"
proof -
  have c: "seg (slots_base s) (slots s) True (as @ bs) None" "distinct (as @ bs)" "set (as @ bs) \<inter> set F = {}"
    using assms unfolding chains_ok_def by metis+
  then show "seg (slots_base s) (slots s) True as (if bs = [] then None else Some (hd bs))"
    "seg (slots_base s) (slots s) (as = []) bs None"
    by (simp_all add: seg_append)
  show "distinct as" "distinct bs" "set as \<inter> set bs = {}"
    using c(2) by simp_all
  show "k \<in> set as \<union> set bs \<Longrightarrow> k < 4 \<and> k \<notin> set F"
    using seg_bound [OF c(1), of k] c(3) by auto
qed

lemma add_at_head:
  assumes ok: "chains_ok s C (f # F)" and n: "n < 32" and e: "C n = k # ks"
    and p: "\<not> priority (slots s ! k) > p"
  shows "\<exists>s'. irq_add_shared_handler s n h p = Some s' \<and> chains_ok s' (C(n := f # k # ks)) F \<and>
    entries s' (f # k # ks) = (h, p) # entries s (k # ks) \<and> (\<forall>m<32. m \<noteq> n \<longrightarrow> entries s' (C m) = entries s (C m))"
proof -
  let ?b = "slots_base s"
  note f = free_head [OF ok]
  have "C n = [] @ k # ks"
    using e by simp
  note cf = chain_facts [OF ok n this]
  have kf: "k < 4" "k \<notin> set F" "k \<noteq> f" "k \<notin> set ks" "f \<notin> set ks" "f \<notin> set (C n)" "distinct ks"
      "set ks \<inter> set F = {}"
    using cf(4) cf(6) [of k] cf(6) f(11) [OF n] e by auto
  have seg: "seg ?b (slots s) True (k # ks) None"
    using chain_facts(2) [OF ok n, of "[]" "k # ks"] e by simp
  obtain w where w: "make_branch (?b + of_nat (12 * f) + 2) (?b + 48) = Some w"
    using branch_to_first [OF f(1), of ?b] by blast
  obtain x where x: "make_branch (?b + of_nat (12 * f) + 4) (?b + of_nat (12 * k)) = Some x"
    using branch_to_slot [OF f(1) kf(1), of ?b] by blast
  define c where "c = \<lparr>inst1 = 0xa100, inst2 = w, inst3 = x, link = of_nat k, priority = p, handler = h\<rparr>"
  define d where "d = (slots s ! k)\<lparr>inst1 := 0x4801, inst2 := 0x4780\<rparr>"
  define s' where "s' = s\<lparr>free_slot_head := link (slots s ! f), slots := (slots s)[f := c, k := d],
    vtable := (vtable s)[16 + n := add_thumb_bit (slot_addr s f)]\<rparr>"
  have v: "c_read (vtable s) (16 + n) = Some (add_thumb_bit (slot_addr s k))"
    using chain_vector(1) [OF ok n] e by simp
  note vk = vector_of_slot [OF f(8,4) kf(1)]
  have find: "chain_find_insert (slots s) p None k = Some (None, k)"
    using chain_find_insert_seg [OF f(4) seg] p by simp
  have idx: "get_slot_index (s\<lparr>free_slot_head := y\<rparr>) (?b + of_nat (12 * k)) = of_nat k" for y
    using slot_diff_slot [OF f(8) kf(1)] by (simp add: get_slot_index_def)
  have upd: "slot_addr (s\<lparr>free_slot_head := y\<rparr>) j = slot_addr s j" "slot_of (s\<lparr>free_slot_head := y\<rparr>) = slot_of s"
    "is_shared_irq_raw_handler (s\<lparr>free_slot_head := y\<rparr>) = is_shared_irq_raw_handler s" for y j
    by (auto simp: slot_addr_def slot_of_def is_shared_irq_raw_handler_def)
  have "irq_add_shared_handler s n h p = Some s'"
    using v vk find idx n f(1,4,7,9,10) kf(1,3) w x
    by (simp add: irq_add_shared_handler_def check_irq_param_def NUM_IRQS_def upd inst2_addr_def inst3_addr_def
        slot_addr_def irq_handler_chain_first_slot_def put_slot_def set_raw_irq_handler_and_unlock_def
        c_read_def c_write_def s'_def c_def d_def Let_def split: if_splits)
  moreover have "chains_ok s' (C(n := f # k # ks)) F \<and> (\<forall>m<32. m \<noteq> n \<longrightarrow> entries s' (C m) = entries s (C m))"
    using f kf w x e seg
    by (intro chains_ok_change [OF ok n]) (auto simp: s'_def c_def d_def entry_ok_def exit_ok_def chains_ok_def)
  moreover have "entries s' (f # k # ks) = (h, p) # entries s (k # ks)"
    using f kf by (auto simp: entries_def s'_def c_def d_def nth_list_update)
  ultimately show ?thesis
    by blast
qed

text \<open>The exit of slot \<open>k\<close> copied to slot \<open>j\<close>, where a branch has another distance.\<close>

definition moved_exit :: "u32 \<Rightarrow> nat \<Rightarrow> irq_slot \<Rightarrow> nat \<Rightarrow> u16 option" where
  "moved_exit b k c j =
     (if sint (link c) \<ge> 0
      then do { t \<leftarrow> resolve_branch (b + of_nat (12 * k) + 4) (inst3 c);
                make_branch (b + of_nat (12 * j) + 4) t }
      else Some 0xbd00)"

lemma moved_exit_ok:
  assumes "exit_ok b k c nx" and "k < 4" and "j < 4"
  shows "\<exists>w. moved_exit b k c j = Some w \<and> (\<forall>c'. inst3 c' = w \<longrightarrow> link c' = link c \<longrightarrow> exit_ok b j c' nx)"
proof (cases nx)
  case None
  then show ?thesis
    using assms(1) by (auto simp: exit_ok_def moved_exit_def)
next
  case (Some i)
  note r = resolve_exit [OF assms(1) [unfolded Some] assms(2)]
  obtain w where "make_branch (b + of_nat (12 * j) + 4) (b + of_nat (12 * i)) = Some w"
    using branch_to_slot [OF assms(3) r(2), of b] by blast
  then show ?thesis
    using r Some by (auto simp: exit_ok_def moved_exit_def)
qed

lemma add_after:
  assumes ok: "chains_ok s C (f # F)" and n: "n < 32" and e: "C n = as @ q # bs"
    and p: "\<forall>k\<in>set (as @ [q]). priority (slots s ! k) > p" "bs \<noteq> [] \<Longrightarrow> \<not> priority (slots s ! hd bs) > p"
  shows "\<exists>s'. irq_add_shared_handler s n h p = Some s' \<and> chains_ok s' (C(n := as @ q # f # bs)) F \<and>
    entries s' (as @ q # f # bs) = entries s (as @ [q]) @ (h, p) # entries s bs \<and>
    (\<forall>m<32. m \<noteq> n \<longrightarrow> entries s' (C m) = entries s (C m))"
proof -
  let ?b = "slots_base s" and ?nx = "if bs = [] then None else Some (hd bs)"
  note f = free_head [OF ok]
  have e': "C n = (as @ [q]) @ bs"
    using e by simp
  note cf = chain_facts [OF ok n e'] and cq = chain_facts [OF ok n e]
  have q: "q < 4" "q \<notin> set F" "q \<noteq> f" "q \<notin> set as" "q \<notin> set bs" "f \<notin> set as" "f \<notin> set bs" "distinct as" "distinct bs"
      "set as \<inter> set bs = {}" "set as \<inter> set F = {}" "set bs \<inter> set F = {}"
    using cf(3-5) cf(6) f(11) [OF n] e by auto
  have seg: "seg ?b (slots s) True as (Some q)" "entry_ok ?b q (as = []) (slots s ! q)"
      "exit_ok ?b q (slots s ! q) ?nx" "seg ?b (slots s) False bs None" "seg ?b (slots s) True (as @ q # bs) None"
    using cf(1,2) cq(1,2) by (auto simp: seg_append split: if_splits)
  obtain x where x: "make_branch (?b + of_nat (12 * q) + 4) (?b + of_nat (12 * f)) = Some x"
    using branch_to_slot [OF q(1) f(1), of ?b] by blast
  obtain y where y: "moved_exit ?b q (slots s ! q) f = Some y"
      "exit_ok ?b f \<lparr>inst1 = 0x4801, inst2 = 0x4780, inst3 = y, link = link (slots s ! q), priority = p, handler = h\<rparr> ?nx"
    using moved_exit_ok [OF seg(3) q(1) f(1)] by (auto simp: exit_ok_def)
  define c where "c = \<lparr>inst1 = 0x4801, inst2 = 0x4780, inst3 = y, link = link (slots s ! q), priority = p, handler = h\<rparr>"
  define d where "d = (slots s ! q)\<lparr>inst3 := x, link := of_nat f\<rparr>"
  let ?hd = "hd (as @ q # bs)"
  define s' where "s' = s\<lparr>free_slot_head := link (slots s ! f), slots := (slots s)[q := d, f := c],
    vtable := (vtable s)[16 + n := add_thumb_bit (slot_addr s ?hd)]\<rparr>"
  have v: "c_read (vtable s) (16 + n) = Some (add_thumb_bit (slot_addr s ?hd))" and h4: "?hd < 4"
    using chain_vector(1,2) [OF ok n] e by simp_all
  note vk = vector_of_slot [OF f(8,4) h4]
  have "takeWhile (\<lambda>k. priority (slots s ! k) > p) (as @ q # bs) = as @ [q]"
      "dropWhile (\<lambda>k. priority (slots s ! k) > p) (as @ q # bs) = bs"
    using p by (cases bs; simp add: takeWhile_append dropWhile_append)+
  moreover obtain ks where "as @ q # bs = ?hd # ks"
    by (cases as) auto
  ultimately have find: "\<exists>j. chain_find_insert (slots s) p None ?hd = Some (Some q, j)"
    using chain_find_insert_seg [OF f(4), of ?b True ?hd ks p None] seg(5) by (simp add: Let_def)
  have upd: "slot_addr (s\<lparr>free_slot_head := y\<rparr>) j = slot_addr s j" "slot_of (s\<lparr>free_slot_head := y\<rparr>) = slot_of s"
    "is_shared_irq_raw_handler (s\<lparr>free_slot_head := y\<rparr>) = is_shared_irq_raw_handler s" for y j
    by (auto simp: slot_addr_def slot_of_def is_shared_irq_raw_handler_def)
  have "irq_add_shared_handler s n h p = Some s'"
    using v vk find n f(1,2,4,7,9,10) q(1,3) x y(1) [unfolded moved_exit_def]
    by (auto simp: irq_add_shared_handler_def check_irq_param_def NUM_IRQS_def upd inst3_addr_def
        slot_addr_def put_slot_def set_raw_irq_handler_and_unlock_def
        c_read_def c_write_def s'_def c_def d_def Let_def split: if_splits bind_splits)
  moreover have "chains_ok s' (C(n := as @ q # f # bs)) F \<and> (\<forall>m<32. m \<noteq> n \<longrightarrow> entries s' (C m) = entries s (C m))"
  proof (intro chains_ok_change [OF ok n])
    show "seg ?b (slots s') True (as @ q # f # bs) None"
      using seg q f(1,4) y(2) x by (auto simp: seg_append s'_def c_def d_def entry_ok_def exit_ok_def)
  qed (use f q e in \<open>auto simp: s'_def c_def d_def hd_append\<close>)
  moreover have "entries s' (as @ q # f # bs) = entries s (as @ [q]) @ (h, p) # entries s bs"
    using f q by (auto simp: entries_def s'_def c_def d_def nth_list_update)
  ultimately show ?thesis
    by blast
qed

lemma entries_append: "entries s (as @ bs) = entries s as @ entries s bs"
  by (simp add: entries_def)

lemma add_handler:
  assumes ok: "chains_ok s C (f # F)" and n: "n < 32"
  shows "\<exists>s' ks. irq_add_shared_handler s n h p = Some s' \<and> chains_ok s' (C(n := ks)) F \<and>
    entries s' ks = insert_entry h p (entries s (C n)) \<and> (\<forall>m<32. m \<noteq> n \<longrightarrow> entries s' (C m) = entries s (C m))"
proof -
  let ?P = "\<lambda>k. priority (slots s ! k) > p"
  have tw: "takeWhile (\<lambda>e. snd e > p) (entries s (C n)) = entries s (takeWhile ?P (C n))"
    "dropWhile (\<lambda>e. snd e > p) (entries s (C n)) = entries s (dropWhile ?P (C n))"
    by (simp_all add: entries_def takeWhile_map dropWhile_map o_def)
  show ?thesis
  proof (cases "takeWhile ?P (C n)" rule: rev_cases)
    case Nil
    show ?thesis
    proof (cases "C n")
      case e: Nil
      then show ?thesis
        using add_to_empty [OF ok n e, of h p] by (fastforce simp: insert_entry_def entries_def)
    next
      case e: (Cons k ks)
      then have "\<not> priority (slots s ! k) > p" "dropWhile ?P (C n) = k # ks"
        using Nil by (auto split: if_splits)
      then show ?thesis
        using add_at_head [OF ok n e, of p h] tw Nil by (fastforce simp: insert_entry_def entries_def)
    qed
  next
    case (snoc as q)
    define bs where "bs = dropWhile ?P (C n)"
    have e: "C n = as @ q # bs"
      using takeWhile_dropWhile_id [of ?P "C n"] snoc by (simp add: bs_def)
    have "\<forall>k\<in>set (as @ [q]). ?P k" "bs \<noteq> [] \<Longrightarrow> \<not> ?P (hd bs)"
      using snoc set_takeWhileD [of _ ?P "C n"] hd_dropWhile [of ?P "C n"] by (auto simp: bs_def)
    from add_after [OF ok n e this, of h] show ?thesis
      unfolding insert_entry_def tw snoc bs_def [symmetric] by blast
  qed
qed

lemma add_full:
  assumes "chains_ok s C []" and "n < 32"
  shows "irq_add_shared_handler s n h p = None"
  using assms by (simp add: irq_add_shared_handler_def chains_ok_def)

section \<open>Removing a handler\<close>

definition remove_entry :: "u32 \<Rightarrow> (u32 \<times> u8) list \<Rightarrow> (u32 \<times> u8) list" where
  "remove_entry h es = takeWhile (\<lambda>e. fst e \<noteq> h) es @ tl (dropWhile (\<lambda>e. fst e \<noteq> h) es)"

text \<open>Everything of \<open>irq_remove_handler\<close> around \<open>unlink_slot\<close>.\<close>

lemma remove_by_unlink:
  assumes ok: "chains_ok s C F" and n: "n < 32" and e: "C n = as @ k # bs"
    and h: "\<forall>j\<in>set as. handler (slots s ! j) \<noteq> h" "handler (slots s ! k) = h"
    and out: "\<not> is_shared_irq_raw_handler s h"
    and u: "\<And>e. unlink_slot (s\<lparr>nvic_enabled := e\<rparr>) (add_thumb_bit (slot_addr s (hd (as @ [k]))))
      (if as = [] then None else Some (last as)) k = Some (v, t\<lparr>nvic_enabled := e\<rparr>)"
    and t: "vtable t = vtable s"
  shows "\<exists>r. irq_remove_handler s n h = Some r \<and> slots r = slots t \<and> vtable r = (vtable s)[16 + n := v] \<and>
    slots_base r = slots_base t \<and> unhandled r = unhandled t \<and> current_exception r = current_exception t \<and>
    free_slot_head r = free_slot_head t"
proof -
  let ?hd = "hd (as @ [k])"
  have s: "length (slots s) = 4" "base_ok (slots_base s)" "length (vtable s) = 48" "current_exception s = 0"
      "seg (slots_base s) (slots s) True (as @ k # bs) None"
    using ok n e by (auto simp: chains_ok_def)
  have hd: "hd (as @ k # bs) = ?hd"
    by (simp add: hd_append)
  have v: "c_read (vtable s) (16 + n) = Some (add_thumb_bit (slot_addr s ?hd))" and h4: "?hd < 4" and
      nu: "add_thumb_bit (slot_addr s ?hd) \<noteq> unhandled s"
    using chain_vector [OF ok n] e hd by simp_all
  note vk = vector_of_slot [OF s(2,1) h4]
  have "takeWhile (\<lambda>k. handler (slots s ! k) \<noteq> h) (as @ k # bs) = as"
      "dropWhile (\<lambda>k. handler (slots s ! k) \<noteq> h) (as @ k # bs) = k # bs"
    using h by (simp_all add: takeWhile_append2 dropWhile_append2)
  moreover obtain ks where "as @ k # bs = ?hd # ks"
    by (cases as) auto
  ultimately have find: "chain_find_handler (slots s) h None ?hd = Some (if as = [] then None else Some (last as), k)"
    using chain_find_handler_seg [OF s(1), of "slots_base s" True ?hd ks h None] s(5) by (simp add: Let_def)
  have "k < 4"
    using seg_bound [OF s(5), of k] by simp
  then have k: "c_read (slots s) k = Some (slots s ! k)"
    using s(1) by simp
  have ne: "add_thumb_bit (slot_addr s ?hd) \<noteq> h"
    using vk(1) out by blast
  have upd: "slot_of (s\<lparr>nvic_enabled := y\<rparr>) = slot_of s" for y
    by (auto simp: slot_of_def)
  show ?thesis
    using v nu ne vk find k h(2) n u t s(3,4)
    by (simp add: irq_remove_handler_def irq_is_enabled_def irq_set_enabled_def check_irq_param_def NUM_IRQS_def upd
        irq_set_mask_enabled_def set_raw_irq_handler_and_unlock_def c_write_def Let_def)
qed

lemma remove_mid:
  assumes ok: "chains_ok s C F" and n: "n < 32" and e: "C n = as @ k # j # bs"
    and h: "\<forall>i\<in>set as. handler (slots s ! i) \<noteq> h" "handler (slots s ! k) = h"
    and out: "\<not> is_shared_irq_raw_handler s h"
  shows "\<exists>s'. irq_remove_handler s n h = Some s' \<and> chains_ok s' (C(n := as @ k # bs)) (j # F) \<and>
    entries s' (as @ k # bs) = entries s (as @ j # bs) \<and> (\<forall>m<32. m \<noteq> n \<longrightarrow> entries s' (C m) = entries s (C m))"
proof -
  let ?b = "slots_base s" and ?nx = "if bs = [] then None else Some (hd bs)"
  have len: "length (slots s) = 4" "free_ok (slots s) (free_slot_head s) F" "distinct F"
    using ok by (simp_all add: chains_ok_def)
  have e': "C n = (as @ [k, j]) @ bs"
    using e by simp
  note cf = chain_facts [OF ok n e']
  have q: "k < 4" "j < 4" "k \<noteq> j" "k \<notin> set F" "j \<notin> set F" "k \<notin> set as" "k \<notin> set bs" "j \<notin> set as" "j \<notin> set bs"
      "distinct as" "distinct bs" "set as \<inter> set bs = {}" "set as \<inter> set F = {}" "set bs \<inter> set F = {}"
    using cf(3-5) cf(6) by auto
  have seg: "seg ?b (slots s) True as (Some k)" "entry_ok ?b k (as = []) (slots s ! k)"
      "exit_ok ?b k (slots s ! k) (Some j)" "exit_ok ?b j (slots s ! j) ?nx" "seg ?b (slots s) False bs None"
    using cf(1,2) by (auto simp: seg_append split: if_splits)
  have link: "link_index (slots s ! k) = Some j" "link (slots s ! k) = of_nat j"
    using seg(3) link_some(1) [of "slots s ! k" j] by (auto simp: exit_ok_def)
  obtain y where y: "moved_exit ?b j (slots s ! j) k = Some y"
      "\<And>c'. inst3 c' = y \<Longrightarrow> link c' = link (slots s ! j) \<Longrightarrow> exit_ok ?b k c' ?nx"
    using moved_exit_ok [OF seg(4) q(2,1)] by blast
  define c where "c = (slots s ! k)\<lparr>handler := handler (slots s ! j), priority := priority (slots s ! j),
    link := link (slots s ! j), inst3 := y\<rparr>"
  define d where "d = (slots s ! j)\<lparr>link := free_slot_head s\<rparr>"
  let ?v = "add_thumb_bit (slot_addr s (hd (as @ [k])))"
  define t where "t = s\<lparr>slots := (slots s)[k := c, j := d], free_slot_head := of_nat j\<rparr>"
  have u: "unlink_slot (s\<lparr>nvic_enabled := e\<rparr>) ?v (if as = [] then None else Some (last as)) k =
      Some (?v, t\<lparr>nvic_enabled := e\<rparr>)" for e
    using len(1) q(1-3) link y(1) [unfolded moved_exit_def]
    by (auto simp: unlink_slot_def put_slot_def inst3_addr_def slot_addr_def t_def c_def d_def Let_def
        split: if_splits bind_splits)
  obtain r where r: "irq_remove_handler s n h = Some r" "slots r = slots t" "vtable r = (vtable s)[16 + n := ?v]"
      "slots_base r = slots_base t" "unhandled r = unhandled t" "current_exception r = current_exception t"
      "free_slot_head r = free_slot_head t"
    using remove_by_unlink [OF ok n e h out u] by (auto simp: t_def)
  have "chains_ok r (C(n := as @ k # bs)) (j # F) \<and> (\<forall>m<32. m \<noteq> n \<longrightarrow> entries r (C m) = entries s (C m))"
  proof (intro chains_ok_change [OF ok n])
    have "exit_ok ?b k c ?nx"
      using y(2) [of c] by (simp add: c_def)
    moreover have "entry_ok ?b k (as = []) c"
      by (rule entry_ok_cong [THEN iffD2, OF _ _ seg(2)]) (simp_all add: c_def)
    ultimately show "seg ?b (slots r) True (as @ k # bs) None"
      using seg(1,5) q len(1) by (simp add: seg_append r(2) t_def)
    show "free_ok (slots r) (free_slot_head r) (j # F)"
      using len q by (simp add: r(2,7) t_def d_def)
  qed (use r len q e in \<open>auto simp: t_def hd_append\<close>)
  moreover have "entries r (as @ k # bs) = entries s (as @ j # bs)"
    using q len(1) by (auto simp: entries_def r(2) t_def c_def nth_list_update)
  ultimately show ?thesis
    using r(1) by blast
qed

lemma remove_last:
  assumes ok: "chains_ok s C F" and n: "n < 32" and e: "C n = as @ [k]"
    and h: "\<forall>i\<in>set as. handler (slots s ! i) \<noteq> h" "handler (slots s ! k) = h"
    and out: "\<not> is_shared_irq_raw_handler s h"
  shows "\<exists>s'. irq_remove_handler s n h = Some s' \<and> chains_ok s' (C(n := as)) (k # F) \<and>
    entries s' as = entries s as \<and> (\<forall>m<32. m \<noteq> n \<longrightarrow> entries s' (C m) = entries s (C m))"
proof -
  let ?b = "slots_base s"
  have len: "length (slots s) = 4" "free_ok (slots s) (free_slot_head s) F" "distinct F" "base_ok ?b"
      "current_exception s = 0"
    using ok by (simp_all add: chains_ok_def)
  note cf = chain_facts [OF ok n e]
  have q: "k < 4" "k \<notin> set F" "k \<notin> set as" "distinct as" "set as \<inter> set F = {}"
    using cf(3-5) cf(6) by auto
  have seg: "seg ?b (slots s) True as (Some k)" "exit_ok ?b k (slots s ! k) None"
    using cf(1,2) by auto
  have link: "link_index (slots s ! k) = None"
    using seg(2) by (simp add: exit_ok_def)
  let ?v = "add_thumb_bit (slot_addr s (hd (as @ [k])))"
  define cs where "cs = (if as = [] then slots s
    else (slots s)[last as := (slots s ! last as)\<lparr>link := - 1, inst3 := 0xbd00\<rparr>])"
  define t where "t = s\<lparr>slots := cs[k := (cs ! k)\<lparr>link := free_slot_head s\<rparr>], free_slot_head := of_nat k\<rparr>"
  define v where "v = (if as = [] then unhandled s else ?v)"
  have la: "as \<noteq> [] \<Longrightarrow> last as < 4 \<and> last as \<noteq> k"
    using cf(6) [of "last as"] q(3) last_in_set [of as] by auto
  have idx: "get_slot_index (s\<lparr>nvic_enabled := x\<rparr>) (?b + of_nat (12 * k)) = of_nat k" for x
    using slot_diff_slot [OF len(4) q(1)] by (simp add: get_slot_index_def)
  have u: "unlink_slot (s\<lparr>nvic_enabled := e\<rparr>) ?v (if as = [] then None else Some (last as)) k =
      Some (v, t\<lparr>nvic_enabled := e\<rparr>)" for e
    using len(1,5) q(1) link la idx
    by (simp add: unlink_slot_def put_slot_def slot_addr_def t_def cs_def v_def Let_def)
  obtain r where r: "irq_remove_handler s n h = Some r" "slots r = slots t" "vtable r = (vtable s)[16 + n := v]"
      "slots_base r = slots_base t" "unhandled r = unhandled t" "current_exception r = current_exception t"
      "free_slot_head r = free_slot_head t"
    using remove_by_unlink [OF ok n e h out u] by (auto simp: t_def)
  have frame: "length cs = 4"
    using len(1) by (simp add: cs_def)
  have frame: "length cs = 4" "i \<notin> set as \<Longrightarrow> cs ! i = slots s ! i" for i
  proof (rule frame)
    assume "i \<notin> set as"
    then have "as \<noteq> [] \<Longrightarrow> last as \<noteq> i"
      using last_in_set [of as] by auto
    then show "cs ! i = slots s ! i"
      by (simp add: cs_def)
  qed
  have "seg ?b cs True as None"
  proof (cases as rule: rev_cases)
    case (snoc bs l)
    then have "l \<notin> set bs" "l < 4"
      using q(4) la by auto
    then show ?thesis
      using seg(1) len(1) by (auto simp: cs_def snoc seg_append exit_ok_def entry_ok_def)
  qed simp
  then have "chains_ok r (C(n := as)) (k # F) \<and> (\<forall>m<32. m \<noteq> n \<longrightarrow> entries r (C m) = entries s (C m))"
  proof (intro chains_ok_change [OF ok n])
    have "as \<noteq> [] \<Longrightarrow> last as \<notin> set F"
      using q(5) last_in_set [of as] by blast
    then have "free_ok cs (free_slot_head s) F"
      using len(2) by (simp add: cs_def)
    then show "free_ok (slots r) (free_slot_head r) (k # F)"
      using len(1) q by (simp add: r(2,7) t_def cs_def)
  qed (use r len q e frame in \<open>auto simp: t_def v_def hd_append\<close>)
  moreover have "entries r as = entries s as"
    using q len(1) la by (auto simp: entries_def r(2) t_def cs_def nth_list_update)
  ultimately show ?thesis
    using r(1) by blast
qed

lemma remove_handler:
  assumes ok: "chains_ok s C F" and n: "n < 32" and h: "h \<in> fst ` set (entries s (C n))"
    and out: "\<not> is_shared_irq_raw_handler s h"
  shows "\<exists>s' ks F'. irq_remove_handler s n h = Some s' \<and> chains_ok s' (C(n := ks)) F' \<and>
    entries s' ks = remove_entry h (entries s (C n)) \<and> (\<forall>m<32. m \<noteq> n \<longrightarrow> entries s' (C m) = entries s (C m))"
proof -
  have "\<exists>k\<in>set (C n). handler (slots s ! k) = h"
    using h by (auto simp: entries_def)
  then obtain as k bs where e: "C n = as @ k # bs" and k: "handler (slots s ! k) = h"
      and as: "\<forall>i\<in>set as. handler (slots s ! i) \<noteq> h"
    using split_list_first_prop [of "C n" "\<lambda>k. handler (slots s ! k) = h"] by blast
  have "\<forall>e\<in>set (entries s as). fst e \<noteq> h" "entries s (C n) = entries s as @ (h, priority (slots s ! k)) # entries s bs"
    using as k by (auto simp: entries_def e)
  then have r: "remove_entry h (entries s (C n)) = entries s (as @ bs)"
    by (simp add: remove_entry_def entries_append takeWhile_append2 dropWhile_append2)
  show ?thesis
  proof (cases bs)
    case Nil
    then show ?thesis
      using remove_last [OF ok n _ as k out] e r by auto
  next
    case (Cons j bs')
    then show ?thesis
      using remove_mid [OF ok n _ as k out, of j bs'] e r by auto
  qed
qed

lemma remove_absent:
  assumes ok: "chains_ok s C F" and n: "n < 32" and h: "h \<notin> fst ` set (entries s (C n))"
    and out: "\<not> is_shared_irq_raw_handler s h" and r: "irq_remove_handler s n h = Some s'"
  shows "C n = []" and "s' = s"
proof -
  show e: "C n = []"
  proof (rule ccontr)
    assume "C n \<noteq> []"
    then obtain k ks where ks: "C n = k # ks"
      by (cases "C n") auto
    have s: "length (slots s) = 4" "base_ok (slots_base s)" "length (vtable s) = 48" "current_exception s = 0"
        "seg (slots_base s) (slots s) True (k # ks) None"
      using ok n ks by (auto simp: chains_ok_def)
    have v: "c_read (vtable s) (16 + n) = Some (add_thumb_bit (slot_addr s k))" "k < 4"
        "add_thumb_bit (slot_addr s k) \<noteq> unhandled s"
      using chain_vector [OF ok n] ks by simp_all
    note vk = vector_of_slot [OF s(2,1) v(2)]
    have ne: "add_thumb_bit (slot_addr s k) \<noteq> h"
      using vk(1) out by blast
    have a: "\<forall>j\<in>set (k # ks). handler (slots s ! j) \<noteq> h"
      using h ks by (auto simp: entries_def image_image)
    then have find: "\<exists>p. chain_find_handler (slots s) h None k = Some (p, last (k # ks))"
      using chain_find_handler_seg [OF s(1), of "slots_base s" True k ks h None] s(5)
      by (simp add: Let_def takeWhile_eq_all_conv [THEN iffD2] dropWhile_eq_Nil_conv [THEN iffD2])
    have l: "last (k # ks) < 4" "handler (slots s ! last (k # ks)) \<noteq> h"
      using seg_bound [OF s(5)] a last_in_set [of "k # ks"] by blast+
    have upd: "slot_of (s\<lparr>nvic_enabled := y\<rparr>) = slot_of s" for y
      by (auto simp: slot_of_def)
    have "irq_remove_handler s n h = None"
      using v vk ne find l n s(1,3,4)
      by (auto simp: irq_remove_handler_def irq_is_enabled_def irq_set_enabled_def check_irq_param_def NUM_IRQS_def upd
          irq_set_mask_enabled_def Let_def split: if_splits)
    then show False
      using r by simp
  qed
  show "s' = s"
    using r e chain_vector(1) [OF ok n] n
    by (cases s) (auto simp: irq_remove_handler_def set_raw_irq_handler_and_unlock_def c_read_def c_write_def
        list_update_same_conv split: if_splits)
qed

section \<open>Every chain runs its handlers by priority\<close>

text \<open>
  Adding, removing and enabling in any order on a core that has just started; \<open>A n\<close> lists the
  handlers of interrupt \<open>n\<close> that were added and not removed. Handlers are functions outside
  the slots.
\<close>

inductive irq_run :: "irq_state \<Rightarrow> (nat \<Rightarrow> (u32 \<times> u8) list) \<Rightarrow> bool" where
  start: "base_ok base \<Longrightarrow> \<not> unhandled_addr - base < 48 \<Longrightarrow> irq_run (irq_boot base unhandled_addr) (\<lambda>n. [])"
| added: "irq_run s A \<Longrightarrow> n < 32 \<Longrightarrow> irq_add_shared_handler s n h p = Some s' \<Longrightarrow>
    irq_run s' (A(n := insert_entry h p (A n)))"
| removed: "irq_run s A \<Longrightarrow> n < 32 \<Longrightarrow> \<not> is_shared_irq_raw_handler s h \<Longrightarrow> irq_remove_handler s n h = Some s' \<Longrightarrow>
    irq_run s' (A(n := remove_entry h (A n)))"
| enabled: "irq_run s A \<Longrightarrow> irq_set_enabled s n e = Some s' \<Longrightarrow> irq_run s' A"

lemma boot_chains:
  assumes "base_ok base" and "\<not> unhandled_addr - base < 48"
  shows "chains_ok (irq_boot base unhandled_addr) (\<lambda>n. []) [0, 1, 2, 3]"
proof -
  have "slots (irq_boot base unhandled_addr) = map boot_slot [0, 1, 2, 3]"
    by (simp add: irq_boot_def PICO_MAX_SHARED_IRQ_HANDLERS_def upt_rec numeral_eq_Suc)
  then show ?thesis
    using assms by (auto simp: chains_ok_def irq_boot_def NUM_IRQS_def boot_slot_def PICO_MAX_SHARED_IRQ_HANDLERS_def
        is_shared_irq_raw_handler_def)
qed

definition describes :: "irq_state \<Rightarrow> (nat \<Rightarrow> (u32 \<times> u8) list) \<Rightarrow> (nat \<Rightarrow> nat list) \<Rightarrow> nat list \<Rightarrow> bool" where
  "describes s A C F \<longleftrightarrow> chains_ok s C F \<and> (\<forall>n<32. entries s (C n) = A n)"

lemma describes_change:
  assumes "describes s A C F" and "n < 32" and "chains_ok s' (C(n := ks)) F'" and "entries s' ks = es"
    and "\<forall>m<32. m \<noteq> n \<longrightarrow> entries s' (C m) = entries s (C m)"
  shows "describes s' (A(n := es)) (C(n := ks)) F'"
  using assms by (simp add: describes_def)

lemma irq_run_inv: "irq_run s A \<Longrightarrow> \<exists>C F. describes s A C F"
proof (induction rule: irq_run.induct)
  case (start base unhandled_addr)
  then show ?case
    using boot_chains by (fastforce simp: describes_def entries_def)
next
  case (added s A n h p s')
  then obtain C F where d: "describes s A C F"
    by blast
  then have ok: "chains_ok s C F" and an: "entries s (C n) = A n"
    using added(2) by (simp_all add: describes_def)
  show ?case
  proof (cases F)
    case Nil
    then show ?thesis
      using add_full ok added by fastforce
  next
    case (Cons f F')
    obtain ks where "chains_ok s' (C(n := ks)) F'" "entries s' ks = insert_entry h p (A n)"
        "\<forall>m<32. m \<noteq> n \<longrightarrow> entries s' (C m) = entries s (C m)"
      using add_handler [OF ok [unfolded Cons] added(2), of h p] an added(3) by auto
    then show ?thesis
      using describes_change [OF d added(2)] by blast
  qed
next
  case (removed s A n h s')
  then obtain C F where d: "describes s A C F"
    by blast
  then have ok: "chains_ok s C F" and an: "entries s (C n) = A n"
    using removed(2) by (simp_all add: describes_def)
  show ?case
  proof (cases "h \<in> fst ` set (A n)")
    case True
    then obtain ks F' where "chains_ok s' (C(n := ks)) F'" "entries s' ks = remove_entry h (A n)"
        "\<forall>m<32. m \<noteq> n \<longrightarrow> entries s' (C m) = entries s (C m)"
      using remove_handler [OF ok removed(2) _ removed(3)] an removed(4) by auto
    then show ?thesis
      using describes_change [OF d removed(2)] by blast
  next
    case False
    then have "C n = []" "s' = s"
      using remove_absent [OF ok removed(2) _ removed(3,4)] an by simp_all
    moreover from this have "A n = []"
      using an by (simp add: entries_def)
    then have "A(n := remove_entry h (A n)) = A"
      by (simp add: remove_entry_def fun_upd_idem)
    ultimately show ?thesis
      using d by auto
  qed
next
  case (enabled s A n e s')
  then obtain C F where d: "describes s A C F"
    by blast
  have s': "slots s' = slots s" "vtable s' = vtable s" "slots_base s' = slots_base s" "unhandled s' = unhandled s"
      "current_exception s' = current_exception s" "free_slot_head s' = free_slot_head s"
    using enabled(2) by (auto simp: irq_set_enabled_def irq_set_mask_enabled_def check_irq_param_def split: if_splits)
  then have "entries s' = entries s" "slot_addr s' = slot_addr s" "is_shared_irq_raw_handler s' = is_shared_irq_raw_handler s"
    by (auto simp: entries_def slot_addr_def is_shared_irq_raw_handler_def)
  then have "describes s' A C F"
    using d s' by (simp add: describes_def chains_ok_def)
  then show ?case
    by blast
qed

end
