(* ===== verification/Irq_Props.thy ===== *)
theory Irq_Props
  imports Irq_Chain
begin

text \<open>
  The property of shared interrupt handlers: whatever is added and removed, each interrupt
  runs its handlers by priority, adding fails only without a free slot, and removing works.
\<close>

abbreviation by_priority :: "(u32 \<times> u8) list \<Rightarrow> bool" where
  "by_priority \<equiv> sorted_wrt (\<lambda>e e'. snd e \<ge> snd e')"

lemma insert_entry_sorted: "by_priority es \<Longrightarrow> by_priority (insert_entry h p es)"
proof -
  assume s: "by_priority es"
  let ?P = "\<lambda>e :: u32 \<times> u8. snd e > p"
  have "by_priority (takeWhile ?P es @ dropWhile ?P es)"
    using s by simp
  then have a: "by_priority (takeWhile ?P es)" "by_priority (dropWhile ?P es)"
      "\<forall>x\<in>set (takeWhile ?P es). \<forall>y\<in>set (dropWhile ?P es). snd x \<ge> snd y"
    unfolding sorted_wrt_append by blast+
  have "p \<ge> snd y" if "y \<in> set (dropWhile ?P es)" for y
  proof (cases "dropWhile ?P es")
    case (Cons e es')
    then have "\<not> snd e > p"
      using hd_dropWhile [of ?P es] by simp
    then show ?thesis
      using a(2) that by (auto simp: Cons)
  next
    case Nil
    then show ?thesis
      using that by (metis empty_iff list.set(1))
  qed
  then show ?thesis
    using a by (auto simp: insert_entry_def sorted_wrt_append dest: set_takeWhileD)
qed

lemma remove_entry_sorted: "by_priority es \<Longrightarrow> by_priority (remove_entry h es)"
proof -
  assume s: "by_priority es"
  let ?P = "\<lambda>e :: u32 \<times> u8. fst e \<noteq> h"
  have "by_priority (takeWhile ?P es @ dropWhile ?P es)"
    using s by simp
  then have "by_priority (ts @ tl ds)" if "takeWhile ?P es = ts" "dropWhile ?P es = ds" for ts ds
    unfolding that by (cases ds) (simp_all add: sorted_wrt_append)
  then show ?thesis
    by (simp add: remove_entry_def)
qed

lemma irq_run_sorted: "irq_run s A \<Longrightarrow> by_priority (A n)"
  by (induction rule: irq_run.induct) (auto simp: insert_entry_sorted remove_entry_sorted)

lemma slots_counted:
  assumes "chains_ok s C F"
  shows "(\<Sum>m<32. length (C m)) + length F = 4"
proof -
  have ok: "\<forall>n<32. distinct (C n) \<and> set (C n) \<inter> set F = {}" "distinct F"
      "\<forall>m<32. \<forall>n<32. m \<noteq> n \<longrightarrow> set (C m) \<inter> set (C n) = {}"
      "\<forall>k<4. k \<in> set F \<or> (\<exists>n<32. k \<in> set (C n))"
    using assms by (auto simp: chains_ok_def)
  have free: "free_ok cs x fs \<Longrightarrow> set fs \<subseteq> {..<4}" for cs x fs
    by (induction cs x fs rule: free_ok.induct) auto
  have "set F \<subseteq> {..<4}"
    using assms free unfolding chains_ok_def by blast
  moreover have "set (C m) \<subseteq> {..<4}" if "m < 32" for m
    using assms that seg_bound unfolding chains_ok_def by fastforce
  ultimately have u: "(\<Union>m<32. set (C m)) \<union> set F = {..<4}"
    using ok(4) by (auto dest: subsetD)
  have "card (\<Union>m<32. set (C m)) = (\<Sum>m<32. card (set (C m)))"
    using ok(3) by (intro card_UN_disjoint) auto
  also have "\<dots> = (\<Sum>m<32. length (C m))"
    using ok(1) by (intro sum.cong) (auto simp: distinct_card)
  finally have "card ((\<Union>m<32. set (C m)) \<union> set F) = (\<Sum>m<32. length (C m)) + length F"
    using ok(1,2) by (subst card_Un_disjoint) (auto simp: distinct_card)
  then show ?thesis
    unfolding u by simp
qed

text \<open>
  C4. Shared handlers run by priority. After any sequence of adding, removing and enabling on
  a core that has just started, an interrupt runs exactly the handlers that were added to it
  and not removed, each once, a higher priority first; another handler can be added, to any
  interrupt, exactly when fewer than four are in use on all interrupts together; and a
  handler that was added can be removed without stopping.
\<close>
theorem shared_handlers_run_by_priority:
  assumes "irq_run s A" and "n < 32"
  shows "irq_dispatch s n = Some (map fst (A n)) \<and> by_priority (A n) \<and>
    ((\<exists>s'. irq_add_shared_handler s n h p = Some s') \<longleftrightarrow> (\<Sum>m<32. length (A m)) < 4) \<and>
    (h \<in> fst ` set (A n) \<and> \<not> is_shared_irq_raw_handler s h \<longrightarrow> (\<exists>s'. irq_remove_handler s n h = Some s'))"
proof -
  obtain C F where ok: "chains_ok s C F" and A: "\<forall>n<32. entries s (C n) = A n"
    using irq_run_inv [OF assms(1)] by (auto simp: describes_def)
  have "length (A m) = length (C m)" if "m < 32" for m
    using A [rule_format, OF that, symmetric] by (simp add: entries_def)
  then have "(\<Sum>m<32. length (A m)) = (\<Sum>m<32. length (C m))"
    by (intro sum.cong) auto
  then have "(\<Sum>m<32. length (A m)) < 4 \<longleftrightarrow> F \<noteq> []"
    using slots_counted [OF ok] by (cases F) auto
  moreover have "(\<exists>s'. irq_add_shared_handler s n h p = Some s') \<longleftrightarrow> F \<noteq> []"
  proof (cases F)
    case Nil
    then show ?thesis
      using add_full ok assms(2) by simp
  next
    case (Cons f F')
    then show ?thesis
      using add_handler [OF ok [unfolded Cons] assms(2), of h p] by blast
  qed
  ultimately show ?thesis
    using dispatch_chain [OF ok assms(2)] A assms(2) irq_run_sorted [OF assms(1), of n]
      remove_handler [OF ok assms(2), of h] by auto
qed

text \<open>Two handlers of interrupt 3, the second with the higher priority.\<close>

definition irq_one :: irq_state where
  "irq_one = the (irq_add_shared_handler (irq_boot 0x20000000 0x10000001) 3 0x10000101 0x80)"

definition irq_two :: irq_state where
  "irq_two = the (irq_add_shared_handler irq_one 3 0x10000201 0xff)"

lemma irq_two_run: "irq_run irq_two ((\<lambda>n. [])(3 := [(0x10000201, 0xff), (0x10000101, 0x80)]))"
proof -
  have "base_ok 0x20000000" "\<not> (0x10000001 :: u32) - 0x20000000 < 48"
    by (simp_all add: base_ok_def)
  then have boot: "irq_run (irq_boot 0x20000000 0x10000001) (\<lambda>n. [])"
    by (rule irq_run.start)
  have "irq_add_shared_handler (irq_boot 0x20000000 0x10000001) 3 0x10000101 0x80 = Some irq_one"
    unfolding irq_one_def by code_simp
  note one = irq_run.added [OF boot _ this]
  have "irq_add_shared_handler irq_one 3 0x10000201 0xff = Some irq_two"
    unfolding irq_two_def irq_one_def by code_simp
  note two = irq_run.added [OF one _ this]
  have "insert_entry 0x10000201 0xff (insert_entry 0x10000101 0x80 []) = [(0x10000201, 0xff), (0x10000101, 0x80)]"
    by (simp add: insert_entry_def)
  then show ?thesis
    using two by simp
qed

theorem shared_handlers_run_by_priority_witness:
  "irq_dispatch irq_two 3 = Some [0x10000201, 0x10000101] \<and> (\<exists>s'. irq_remove_handler irq_two 3 0x10000101 = Some s')"
proof -
  have "\<not> is_shared_irq_raw_handler irq_two 0x10000101"
    unfolding irq_two_def irq_one_def by code_simp
  then show ?thesis
    using shared_handlers_run_by_priority [OF irq_two_run, of 3 "0x10000101" 0] by simp
qed

end
