(* ===== verification/Vfs.thy ===== *)
theory Vfs
  imports Prelude
begin

text \<open>
  The virtual file system (\<open>library/VFS/VFS.c\<close>) and the system calls of the C library on it
  (\<open>wizio/newlib/syscall.c\<close>, built with \<open>USE_VFS\<close>). Drives are kept in a linked list of
  allocated nodes, open files in a table of \<open>MAX_OPEN_FILES\<close> entries (4, as in the template
  configuration). Pointers are numbers, 0 is \<open>NULL\<close>; reading or writing through \<open>NULL\<close> stops.
  A file system driver is a table of functions that may be missing (\<open>vfs_oper\<close>): the
  parameter \<open>OP\<close> gives the table of a context, \<open>'x\<close> is the drivers' own state. The parameter
  \<open>M\<close> is the allocator.
\<close>

section \<open>Data\<close>

definition FILES_FD_BASE :: int where "FILES_FD_BASE = 3"
definition MAX_OPEN_FILES :: nat where "MAX_OPEN_FILES = 4"

definition ENOENT :: int where "ENOENT = 2"
definition EBADF :: int where "EBADF = 9"
definition ENOMEM :: int where "ENOMEM = 12"
definition EACCES :: int where "EACCES = 13"
definition EINVAL :: int where "EINVAL = 22"

record vfs_fs =
  fs_ctx :: nat
  fs_name :: string

record vfs_file =
  vf_file :: nat
  vf_fs :: nat
  vf_fd :: int
  vf_hash :: u32

record vfs_node =
  node_fs :: nat
  node_prev :: nat
  node_next :: nat

record 'x vfs_oper =
  op_init :: "(vfs_fs \<Rightarrow> 'x \<Rightarrow> 'x) option"
  op_mount :: "(vfs_fs \<Rightarrow> 'x \<Rightarrow> int \<times> 'x) option"
  op_unmount :: "(vfs_fs \<Rightarrow> 'x \<Rightarrow> int \<times> 'x) option"
  op_open :: "(vfs_fs \<Rightarrow> string \<Rightarrow> u32 \<Rightarrow> u32 \<Rightarrow> 'x \<Rightarrow> nat \<times> 'x) option"
  op_close :: "(vfs_file \<Rightarrow> 'x \<Rightarrow> int \<times> 'x) option"
  op_write :: "(vfs_file \<Rightarrow> u8 list \<Rightarrow> 'x \<Rightarrow> int \<times> 'x) option"
  op_read :: "(vfs_file \<Rightarrow> nat \<Rightarrow> 'x \<Rightarrow> int \<times> u8 list \<times> 'x) option"
  op_seek :: "(vfs_file \<Rightarrow> int \<Rightarrow> int \<Rightarrow> 'x \<Rightarrow> int \<times> 'x) option"

text \<open>\<open>malloc\<close> and \<open>free\<close>: the new pointer may be 0.\<close>

record 'h allocator =
  a_malloc :: "'h \<Rightarrow> nat \<times> 'h"
  a_free :: "nat \<Rightarrow> 'h \<Rightarrow> 'h"

record ('x, 'h) vfs_state =
  vfs_open_files :: "vfs_file list"
  list_head :: nat
  list_tail :: nat
  vfs_nodes :: "nat \<Rightarrow> vfs_node option"
  vfs_drives :: "nat \<Rightarrow> vfs_fs option"
  driver_state :: 'x
  vfs_heap :: 'h

text \<open>\<open>strhash\<close> of a path that is not \<open>NULL\<close>; \<open>char\<close> is unsigned on ARM.\<close>

fun strhash_loop :: "u32 \<Rightarrow> string \<Rightarrow> u32" where
  "strhash_loop h [] = h"
| "strhash_loop h (c # cs) =
     (let h = 5527 * h + 7 * of_nat (of_char c);
          v = h AND 0x0000ffff
      in strhash_loop (h XOR (v * v)) cs)"

definition strhash :: "string option \<Rightarrow> u32" where
  "strhash p = (case p of None \<Rightarrow> 0 | Some src \<Rightarrow> strhash_loop 0 src)"

definition is_valid_dev :: "string option \<Rightarrow> bool" where
  "is_valid_dev name = (case name of None \<Rightarrow> False | Some s \<Rightarrow> length s \<ge> 2 \<and> s ! 1 = CHR '':'')"

section \<open>The list of drives\<close>

text \<open>\<open>create_node\<close> writes to the node without looking whether \<open>malloc\<close> gave one.\<close>

definition create_node :: "'h allocator \<Rightarrow> nat \<Rightarrow> ('x, 'h) vfs_state \<Rightarrow> (nat \<times> ('x, 'h) vfs_state) option" where
  "create_node M fs s = do {
     let (node, h) = a_malloc M (vfs_heap s);
     c_assert (node \<noteq> 0);
     Some (node, s\<lparr>vfs_heap := h,
       vfs_nodes := (vfs_nodes s)(node \<mapsto> \<lparr>node_fs = fs, node_prev = 0, node_next = 0\<rparr>)\<rparr>) }"

definition list_add :: "'h allocator \<Rightarrow> nat \<Rightarrow> ('x, 'h) vfs_state \<Rightarrow> ('x, 'h) vfs_state option" where
  "list_add M fs s = do {
     (newNode, s) \<leftarrow> create_node M fs s;
     if list_head s = 0 then Some (s\<lparr>list_head := newNode\<rparr>)
     else do {
       let lastNode = (if list_tail s = 0 then list_head s else list_tail s);
       l \<leftarrow> vfs_nodes s lastNode;
       let s = s\<lparr>vfs_nodes := (vfs_nodes s)(lastNode \<mapsto> l\<lparr>node_next := newNode\<rparr>)\<rparr>;
       n \<leftarrow> vfs_nodes s newNode;
       Some (s\<lparr>vfs_nodes := (vfs_nodes s)(newNode \<mapsto> n\<lparr>node_prev := lastNode\<rparr>), list_tail := newNode\<rparr>) } }"

partial_function (option) list_get_from :: "('x, 'h) vfs_state \<Rightarrow> char \<Rightarrow> nat \<Rightarrow> nat option" where
  "list_get_from s c drive =
     (if drive = 0 then Some 0
      else do {
        n \<leftarrow> vfs_nodes s drive;
        fs \<leftarrow> vfs_drives s (node_fs n);
        if hd (fs_name fs) = c then Some (node_fs n) else list_get_from s c (node_next n) })"

definition list_get :: "('x, 'h) vfs_state \<Rightarrow> string option \<Rightarrow> nat option" where
  "list_get s name = (if is_valid_dev name then list_get_from s (hd (the name)) (list_head s) else Some 0)"

partial_function (option) list_remove_from ::
    "'h allocator \<Rightarrow> nat \<Rightarrow> nat \<Rightarrow> ('x, 'h) vfs_state \<Rightarrow> ('x, 'h) vfs_state option" where
  "list_remove_from M item node s =
     (if node = 0 then Some s
      else do {
        n \<leftarrow> vfs_nodes s node;
        if node_fs n = item then do {
          let prev = node_prev n;
          let next = node_next n;
          c_assert (prev \<noteq> 0);
          p \<leftarrow> vfs_nodes s prev;
          let s = s\<lparr>vfs_nodes := (vfs_nodes s)(prev \<mapsto> p\<lparr>node_next := next\<rparr>)\<rparr>;
          c_assert (next \<noteq> 0);
          x \<leftarrow> vfs_nodes s next;
          Some (s\<lparr>vfs_nodes := (vfs_nodes s)(next \<mapsto> x\<lparr>node_prev := prev\<rparr>, node := None),
            vfs_heap := a_free M node (vfs_heap s)\<rparr>) }
        else list_remove_from M item (node_next n) s })"

definition list_remove :: "'h allocator \<Rightarrow> nat \<Rightarrow> ('x, 'h) vfs_state \<Rightarrow> ('x, 'h) vfs_state option" where
  "list_remove M item s = list_remove_from M item (list_head s) s"

definition vfs_create_list :: "('x, 'h) vfs_state \<Rightarrow> ('x, 'h) vfs_state" where
  "vfs_create_list s = s\<lparr>list_head := 0, list_tail := 0\<rparr>"

text \<open>The string behind \<open>name\<close> is not empty here; the name of a drive is its letter and a colon.\<close>

definition drive_name :: "string \<Rightarrow> string" where
  "drive_name name = [case name of [] \<Rightarrow> CHR 0x00 | c # _ \<Rightarrow> c, CHR '':'', CHR 0x00]"

definition vfs_add_fs :: "'h allocator \<Rightarrow> string \<Rightarrow> nat \<Rightarrow> ('x, 'h) vfs_state \<Rightarrow> (nat \<times> ('x, 'h) vfs_state) option" where
  "vfs_add_fs M name ctx s = do {
     old \<leftarrow> list_get s (Some name);
     if old \<noteq> 0 then Some (0, s)
     else do {
       let (fs, h) = a_malloc M (vfs_heap s);
       let s = s\<lparr>vfs_heap := h\<rparr>;
       if fs \<noteq> 0 then do {
         let s = s\<lparr>vfs_drives := (vfs_drives s)(fs \<mapsto> \<lparr>fs_ctx = 0, fs_name = [CHR 0x00, CHR 0x00, CHR 0x00]\<rparr>)\<rparr>;
         s \<leftarrow> list_add M fs s;
         Some (fs, s\<lparr>vfs_drives := (vfs_drives s)(fs \<mapsto> \<lparr>fs_ctx = ctx, fs_name = drive_name name\<rparr>)\<rparr>) }
       else Some (0, s) } }"

section \<open>The table of open files\<close>

definition no_file :: vfs_file where
  "no_file = \<lparr>vf_file = 0, vf_fs = 0, vf_fd = 0, vf_hash = 0\<rparr>"

definition vfs_clear_file :: "nat \<Rightarrow> ('x, 'h) vfs_state \<Rightarrow> ('x, 'h) vfs_state" where
  "vfs_clear_file i s = s\<lparr>vfs_open_files := (vfs_open_files s)[i := no_file]\<rparr>"

definition vfs_file_is_open :: "string option \<Rightarrow> ('x, 'h) vfs_state \<Rightarrow> bool" where
  "vfs_file_is_open path s \<longleftrightarrow> path \<noteq> None \<and>
     (\<exists>f \<in> set (vfs_open_files s). vf_fd f \<noteq> 0 \<and> vf_file f \<noteq> 0 \<and> vf_hash f \<noteq> 0 \<and> strhash path = vf_hash f)"

definition vfs_get_fs :: "string option \<Rightarrow> bool \<Rightarrow> ('x, 'h) vfs_state \<Rightarrow> nat option" where
  "vfs_get_fs path only_dev s =
     (if is_valid_dev path \<and> (only_dev \<or> length (the path) > 3 \<and> CHR ''/'' = the path ! 2)
      then list_get s path else Some 0)"

fun find_file :: "(vfs_file \<Rightarrow> bool) \<Rightarrow> vfs_file list \<Rightarrow> nat \<Rightarrow> nat option" where
  "find_file P [] i = None"
| "find_file P (f # fs) i = (if P f then Some i else find_file P fs (i + 1))"

definition vfs_file_get_free_index :: "('x, 'h) vfs_state \<Rightarrow> nat option" where
  "vfs_file_get_free_index s = find_file (\<lambda>f. 0 = vf_fd f) (vfs_open_files s) 0"

definition vfs_file_get_index :: "int \<Rightarrow> ('x, 'h) vfs_state \<Rightarrow> nat option" where
  "vfs_file_get_index fd s =
     (if fd \<ge> FILES_FD_BASE \<and> fd < FILES_FD_BASE + int MAX_OPEN_FILES
      then find_file (\<lambda>f. vf_fd f = fd) (vfs_open_files s) 0 else None)"

definition vfs_is_file :: "vfs_file \<Rightarrow> bool" where
  "vfs_is_file f \<longleftrightarrow> vf_fd f \<ge> FILES_FD_BASE \<and> vf_fd f < FILES_FD_BASE + int MAX_OPEN_FILES"

text \<open>
  \<open>vfs_get_file\<close> and the macro \<open>IF_IS_VFS_FILE\<close> up to the operation table: \<open>Some None\<close> is the
  jump to \<open>end\<close>, otherwise the index of the file, the file and the table, if any.
\<close>

definition vfs_get_file :: "int \<Rightarrow> ('x, 'h) vfs_state \<Rightarrow> nat option" where
  "vfs_get_file fd s = vfs_file_get_index fd s"

definition vfs_file_oper ::
    "(nat \<Rightarrow> 'x vfs_oper option) \<Rightarrow> int \<Rightarrow> ('x, 'h) vfs_state \<Rightarrow> (nat \<times> vfs_file \<times> 'x vfs_oper option) option option" where
  "vfs_file_oper OP fd s =
     (case vfs_get_file fd s of
        None \<Rightarrow> Some None
      | Some i \<Rightarrow>
          (let File = vfs_open_files s ! i in
           if \<not> vfs_is_file File then Some None
           else do { fs \<leftarrow> vfs_drives s (vf_fs File); Some (Some (i, File, OP (fs_ctx fs))) }))"

definition vfs_close :: "(nat \<Rightarrow> 'x vfs_oper option) \<Rightarrow> int \<Rightarrow> ('x, 'h) vfs_state \<Rightarrow> (int \<times> ('x, 'h) vfs_state) option" where
  "vfs_close OP fd s = do {
     r \<leftarrow> vfs_file_oper OP fd s;
     case r of
       Some (i, File, Some op) \<Rightarrow>
         (case op_close op of
            Some close \<Rightarrow>
              (let (err, x) = close File (driver_state s)
               in Some (err, vfs_clear_file i (s\<lparr>driver_state := x\<rparr>)))
          | None \<Rightarrow> Some (- EBADF, s))
     | _ \<Rightarrow> Some (- EBADF, s) }"

definition vfs_write :: "(nat \<Rightarrow> 'x vfs_oper option) \<Rightarrow> int \<Rightarrow> u8 list \<Rightarrow> ('x, 'h) vfs_state \<Rightarrow>
    (int \<times> ('x, 'h) vfs_state) option" where
  "vfs_write OP fd buf s = do {
     r \<leftarrow> vfs_file_oper OP fd s;
     case r of
       Some (i, File, Some op) \<Rightarrow>
         (case op_write op of
            Some write \<Rightarrow> (let (err, x) = write File buf (driver_state s) in Some (err, s\<lparr>driver_state := x\<rparr>))
          | None \<Rightarrow> Some (- EBADF, s))
     | _ \<Rightarrow> Some (- EBADF, s) }"

definition vfs_read :: "(nat \<Rightarrow> 'x vfs_oper option) \<Rightarrow> int \<Rightarrow> nat \<Rightarrow> ('x, 'h) vfs_state \<Rightarrow>
    (int \<times> u8 list \<times> ('x, 'h) vfs_state) option" where
  "vfs_read OP fd n s = do {
     r \<leftarrow> vfs_file_oper OP fd s;
     case r of
       Some (i, File, Some op) \<Rightarrow>
         (case op_read op of
            Some read \<Rightarrow>
              (let (err, data, x) = read File n (driver_state s) in Some (err, data, s\<lparr>driver_state := x\<rparr>))
          | None \<Rightarrow> Some (- EBADF, [], s))
     | _ \<Rightarrow> Some (- EBADF, [], s) }"

definition vfs_seek :: "(nat \<Rightarrow> 'x vfs_oper option) \<Rightarrow> int \<Rightarrow> int \<Rightarrow> int \<Rightarrow> ('x, 'h) vfs_state \<Rightarrow>
    (int \<times> ('x, 'h) vfs_state) option" where
  "vfs_seek OP fd pos whence s = do {
     r \<leftarrow> vfs_file_oper OP fd s;
     case r of
       Some (i, File, Some op) \<Rightarrow>
         (case op_seek op of
            Some seek \<Rightarrow> (let (err, x) = seek File pos whence (driver_state s) in Some (err, s\<lparr>driver_state := x\<rparr>))
          | None \<Rightarrow> Some (- EBADF, s))
     | _ \<Rightarrow> Some (- EBADF, s) }"

section \<open>Mounting and opening\<close>

definition vfs_mount :: "'h allocator \<Rightarrow> (nat \<Rightarrow> 'x vfs_oper option) \<Rightarrow> string option \<Rightarrow> nat \<Rightarrow>
    ('x, 'h) vfs_state \<Rightarrow> (int \<times> ('x, 'h) vfs_state) option" where
  "vfs_mount M OP path ctx s =
     (case path of
        Some p \<Rightarrow>
          if ctx \<noteq> 0 then do {
            (fs, s) \<leftarrow> vfs_add_fs M p ctx s;
            if fs \<noteq> 0 then do {
              Fs \<leftarrow> vfs_drives s fs;
              if fs_ctx Fs \<noteq> 0 then
                (let op = OP (fs_ctx Fs);
                     s = (case op of
                            Some op \<Rightarrow> (case op_init op of
                                Some init \<Rightarrow> s\<lparr>driver_state := init Fs (driver_state s)\<rparr> | None \<Rightarrow> s)
                          | None \<Rightarrow> s)
                 in case op of
                      Some op \<Rightarrow> (case op_mount op of
                          Some mount \<Rightarrow> (let (err, x) = mount Fs (driver_state s) in Some (err, s\<lparr>driver_state := x\<rparr>))
                        | None \<Rightarrow> Some (- EACCES, s))
                    | None \<Rightarrow> Some (- EACCES, s))
              else Some (- ENOMEM, s) }
            else Some (- ENOMEM, s) }
          else Some (- ENOENT, s)
      | None \<Rightarrow> Some (- ENOENT, s))"

fun close_all :: "(nat \<Rightarrow> 'x vfs_oper option) \<Rightarrow> nat \<Rightarrow> nat list \<Rightarrow> ('x, 'h) vfs_state \<Rightarrow> ('x, 'h) vfs_state option" where
  "close_all OP Fs [] s = Some s"
| "close_all OP Fs (i # is) s =
     (if vf_fs (vfs_open_files s ! i) = Fs then do {
        (err, s) \<leftarrow> vfs_close OP (vf_fd (vfs_open_files s ! i)) s;
        close_all OP Fs is s }
      else close_all OP Fs is s)"

text \<open>\<open>op->unmount\<close> is read without looking whether there is a table.\<close>

definition vfs_unmount :: "'h allocator \<Rightarrow> (nat \<Rightarrow> 'x vfs_oper option) \<Rightarrow> string option \<Rightarrow>
    ('x, 'h) vfs_state \<Rightarrow> (int \<times> ('x, 'h) vfs_state) option" where
  "vfs_unmount M OP path s =
     (if path = None then Some (- 1, s)
      else do {
        fs \<leftarrow> vfs_get_fs path True s;
        if fs = 0 then Some (- 1, s)
        else do {
          s \<leftarrow> close_all OP fs [0..<MAX_OPEN_FILES] s;
          Fs \<leftarrow> vfs_drives s fs;
          s \<leftarrow> (if fs_ctx Fs \<noteq> 0 then do {
                 op \<leftarrow> OP (fs_ctx Fs);
                 Some (case op_unmount op of
                     Some unmount \<Rightarrow> s\<lparr>driver_state := snd (unmount Fs (driver_state s))\<rparr> | None \<Rightarrow> s) }
               else Some s);
          s \<leftarrow> list_remove M fs s;
          Some (- 1, s) } })"

definition vfs_open :: "(nat \<Rightarrow> 'x vfs_oper option) \<Rightarrow> string option \<Rightarrow> u32 \<Rightarrow> u32 \<Rightarrow>
    ('x, 'h) vfs_state \<Rightarrow> (int \<times> ('x, 'h) vfs_state) option" where
  "vfs_open OP path flags mode s =
     (if vfs_file_is_open path s then Some (- 1, s)
      else do {
        fs \<leftarrow> vfs_get_fs path False s;
        if fs = 0 then Some (- 1, s)
        else case vfs_file_get_free_index s of
            None \<Rightarrow> Some (- 1, s)
          | Some i \<Rightarrow> do {
              Fs \<leftarrow> vfs_drives s fs;
              case OP (fs_ctx Fs) of
                None \<Rightarrow> Some (- 1, s)
              | Some op \<Rightarrow> do {
                  open \<leftarrow> op_open op;
                  let (file, x) = open Fs (the path) flags mode (driver_state s);
                  let File = (vfs_open_files s ! i)\<lparr>vf_file := file\<rparr>;
                  let s = s\<lparr>driver_state := x\<rparr>;
                  if file = 0 then Some (- 1, s\<lparr>vfs_open_files := (vfs_open_files s)[i := File]\<rparr>)
                  else
                    (let fd = int i + 3 in
                     Some (fd, s\<lparr>vfs_open_files := (vfs_open_files s)
                       [i := File\<lparr>vf_fs := fs, vf_hash := strhash path, vf_fd := fd\<rparr>]\<rparr>)) } } })"

section \<open>System calls\<close>

text \<open>
  Each sets \<open>errno\<close>, the first component of the result. \<open>stdout->_write\<close> and \<open>stdin->_read\<close>
  of an Arduino build are the parameters \<open>tty_write\<close> and \<open>tty_read\<close> when a cookie is set.
\<close>

definition errno_of :: "int \<Rightarrow> int" where
  "errno_of err = (if err < 0 then - err else 0)"

definition isatty :: "int \<Rightarrow> bool" where
  "isatty fd = (0 \<le> fd \<and> fd \<le> 2)"

definition lseek_r :: "(nat \<Rightarrow> 'x vfs_oper option) \<Rightarrow> int \<Rightarrow> int \<Rightarrow> int \<Rightarrow> ('x, 'h) vfs_state \<Rightarrow>
    (int \<times> int \<times> ('x, 'h) vfs_state) option" where
  "lseek_r OP fd pos whence s = do {
     (err, s) \<leftarrow> vfs_seek OP fd pos whence s;
     Some (errno_of err, err, s) }"

definition close_r :: "(nat \<Rightarrow> 'x vfs_oper option) \<Rightarrow> int \<Rightarrow> ('x, 'h) vfs_state \<Rightarrow>
    (int \<times> int \<times> ('x, 'h) vfs_state) option" where
  "close_r OP fd s =
     (if fd > 2 then do { (err, s) \<leftarrow> vfs_close OP fd s; Some (errno_of err, err, s) }
      else Some (EINVAL, - EINVAL, s))"

definition open_r :: "(nat \<Rightarrow> 'x vfs_oper option) \<Rightarrow> string option \<Rightarrow> u32 \<Rightarrow> u32 \<Rightarrow> ('x, 'h) vfs_state \<Rightarrow>
    (int \<times> int \<times> ('x, 'h) vfs_state) option" where
  "open_r OP path flags mode s =
     (if path \<noteq> None then do { (err, s) \<leftarrow> vfs_open OP path flags mode s; Some (errno_of err, err, s) }
      else Some (EINVAL, - EINVAL, s))"

text \<open>The call of the terminal driver leaves \<open>errno\<close> alone: \<open>None\<close>.\<close>

definition write_r :: "(nat \<Rightarrow> 'x vfs_oper option) \<Rightarrow> (u8 list \<Rightarrow> 'x \<Rightarrow> int \<times> 'x) option \<Rightarrow> int \<Rightarrow> u8 list option \<Rightarrow>
    ('x, 'h) vfs_state \<Rightarrow> (int option \<times> int \<times> ('x, 'h) vfs_state) option" where
  "write_r OP tty_write fd buf s =
     (case buf of
        Some b \<Rightarrow>
          if fd > - 1 \<and> b \<noteq> [] then
            if isatty fd then
              case tty_write of
                Some w \<Rightarrow> (let (r, x) = w b (driver_state s) in Some (None, r, s\<lparr>driver_state := x\<rparr>))
              | None \<Rightarrow> Some (Some EINVAL, - EINVAL, s)
            else do { (err, s) \<leftarrow> vfs_write OP fd b s; Some (Some (errno_of err), err, s) }
          else Some (Some EINVAL, - EINVAL, s)
      | None \<Rightarrow> Some (Some EINVAL, - EINVAL, s))"

definition read_r :: "(nat \<Rightarrow> 'x vfs_oper option) \<Rightarrow> (nat \<Rightarrow> 'x \<Rightarrow> int \<times> u8 list \<times> 'x) option \<Rightarrow> int \<Rightarrow> bool \<Rightarrow> nat \<Rightarrow>
    ('x, 'h) vfs_state \<Rightarrow> (int option \<times> int \<times> u8 list \<times> ('x, 'h) vfs_state) option" where
  "read_r OP tty_read fd has_buf len s =
     (if fd > - 1 \<and> has_buf \<and> len \<noteq> 0 then
        if fd = 0 then
          case tty_read of
            Some r \<Rightarrow> (let (n, data, x) = r len (driver_state s) in Some (None, n, data, s\<lparr>driver_state := x\<rparr>))
          | None \<Rightarrow> Some (Some EINVAL, - EINVAL, [], s)
        else do { (err, data, s) \<leftarrow> vfs_read OP fd len s; Some (Some (errno_of err), err, data, s) }
      else Some (Some EINVAL, - EINVAL, [], s))"

end
