(* ===== verification/Vfs_Props.thy ===== *)
theory Vfs_Props
  imports Vfs
begin

text \<open>
  The properties of the virtual file system: in every run of mounts, unmounts, opens and
  closes, a descriptor stands for the one file it was opened with, and what is read from or
  written to it reaches the driver of the drive its path names.
\<close>

section \<open>The table of open files\<close>

lemma find_file_none: "find_file P fs i = None \<longleftrightarrow> (\<forall>f\<in>set fs. \<not> P f)"
  by (induction fs arbitrary: i) auto

lemma find_file_some:
  "find_file P fs i = Some k \<Longrightarrow> i \<le> k \<and> k < i + length fs \<and> P (fs ! (k - i))"
proof (induction fs arbitrary: i)
  case (Cons f fs)
  show ?case
  proof (cases "P f")
    case False
    then have "Suc i \<le> k \<and> k < Suc i + length fs \<and> P (fs ! (k - Suc i))"
      using Cons.IH [of "Suc i"] Cons.prems False by simp
    moreover from calculation have "(f # fs) ! (k - i) = fs ! (k - Suc i)"
      by (simp add: nth_Cons' Suc_diff_le)
    ultimately show ?thesis
      by simp
  qed (use Cons.prems in auto)
qed simp

text \<open>What a descriptor was opened with: the path, the drive and the driver's file.\<close>

type_synonym opened = "int \<Rightarrow> (string \<times> nat \<times> nat) option"

definition entry :: "int \<Rightarrow> string \<times> nat \<times> nat \<Rightarrow> vfs_file" where
  "entry fd e = (case e of (p, fs, file) \<Rightarrow>
     \<lparr>vf_file = file, vf_fs = fs, vf_fd = fd, vf_hash = strhash (Some p)\<rparr>)"

definition drive_ok :: "(nat \<Rightarrow> 'x vfs_oper option) \<Rightarrow> ('x, 'h) vfs_state \<Rightarrow> string \<times> nat \<times> nat \<Rightarrow> bool" where
  "drive_ok OP s e \<longleftrightarrow> (case e of (p, fs, file) \<Rightarrow> fs \<noteq> 0 \<and> file \<noteq> 0 \<and>
     (\<exists>Fs op. vfs_drives s fs = Some Fs \<and> OP (fs_ctx Fs) = Some op \<and> hd (fs_name Fs) = hd p))"

definition table_ok :: "(nat \<Rightarrow> 'x vfs_oper option) \<Rightarrow> ('x, 'h) vfs_state \<Rightarrow> opened \<Rightarrow> bool" where
  "table_ok OP s G \<longleftrightarrow> length (vfs_open_files s) = 4 \<and>
     (\<forall>i<4. case G (int i + 3) of
        None \<Rightarrow> vf_fd (vfs_open_files s ! i) = 0 \<and> vf_fs (vfs_open_files s ! i) = 0
      | Some e \<Rightarrow> vfs_open_files s ! i = entry (int i + 3) e \<and> drive_ok OP s e) \<and>
     (\<forall>fd. G fd \<noteq> None \<longrightarrow> 3 \<le> fd \<and> fd < 7) \<and>
     (\<forall>fd fd' p p' r r'. G fd = Some (p, r) \<longrightarrow> G fd' = Some (p', r') \<longrightarrow> fd \<noteq> fd' \<longrightarrow>
        strhash (Some p) \<noteq> strhash (Some p') \<or> strhash (Some p) = 0)"

lemma table_entry:
  assumes "table_ok OP s G" and "G fd = Some e"
  shows "\<exists>i<4. fd = int i + 3 \<and> vfs_open_files s ! i = entry fd e \<and> drive_ok OP s e \<and> nat (fd - 3) = i"
proof -
  have "3 \<le> fd" "fd < 7"
    using assms unfolding table_ok_def by blast+
  then have i: "nat (fd - 3) < 4" "fd = int (nat (fd - 3)) + 3"
    by auto
  have "case G (int (nat (fd - 3)) + 3) of
        None \<Rightarrow> vf_fd (vfs_open_files s ! nat (fd - 3)) = 0 \<and> vf_fs (vfs_open_files s ! nat (fd - 3)) = 0
      | Some e \<Rightarrow> vfs_open_files s ! nat (fd - 3) = entry (int (nat (fd - 3)) + 3) e \<and> drive_ok OP s e"
    using assms(1) i(1) unfolding table_ok_def by blast
  then show ?thesis
    using assms(2) i by (intro exI [of _ "nat (fd - 3)"]) (simp split: option.splits)
qed

lemma table_free:
  assumes "table_ok OP s G" and "i < 4" and "G (int i + 3) = None"
  shows "vf_fd (vfs_open_files s ! i) = 0" "vf_fs (vfs_open_files s ! i) = 0"
  using assms by (auto simp: table_ok_def split: option.splits)

lemma entry_fd [simp]: "vf_fd (entry fd e) = fd" "vf_fs (entry fd (p, fs, file)) = fs"
    "vf_file (entry fd (p, fs, file)) = file" "vf_hash (entry fd (p, fs, file)) = strhash (Some p)"
  by (simp_all add: entry_def split: prod.splits)

text \<open>Looking a descriptor up finds its entry, and only for an open one.\<close>

lemma index_of_open:
  assumes t: "table_ok OP s G" and o: "G fd = Some e"
  shows "vfs_file_get_index fd s = Some (nat (fd - 3))"
proof -
  obtain i where i: "i < 4" "fd = int i + 3" "vfs_open_files s ! i = entry fd e" "nat (fd - 3) = i"
    using table_entry [OF t o] by blast
  have len: "length (vfs_open_files s) = 4"
    using t by (simp add: table_ok_def)
  have other: "vf_fd (vfs_open_files s ! k) \<noteq> fd" if "k < 4" "k \<noteq> i" for k
  proof (cases "G (int k + 3)")
    case None
    then show ?thesis
      using table_free [OF t that(1)] i(2) by simp
  next
    case (Some e')
    then show ?thesis
      using table_entry [OF t Some] that i(2) by auto
  qed
  have "entry fd e \<in> set (vfs_open_files s)"
    using i(1,3) len by (metis nth_mem)
  then have "find_file (\<lambda>f. vf_fd f = fd) (vfs_open_files s) 0 \<noteq> None"
    by (subst find_file_none) (auto intro: bexI [of _ "entry fd e"])
  then obtain k where k: "find_file (\<lambda>f. vf_fd f = fd) (vfs_open_files s) 0 = Some k"
    by blast
  then have "k < 4" "vf_fd (vfs_open_files s ! k) = fd"
    using find_file_some [OF k] len by simp_all
  then have "k = i"
    using other by blast
  then show ?thesis
    using k i by (simp add: vfs_file_get_index_def FILES_FD_BASE_def MAX_OPEN_FILES_def)
qed

lemma index_of_closed:
  assumes t: "table_ok OP s G" and o: "G fd = None"
  shows "vfs_file_get_index fd s = None"
proof (rule ccontr)
  assume "vfs_file_get_index fd s \<noteq> None"
  then obtain k where k: "find_file (\<lambda>f. vf_fd f = fd) (vfs_open_files s) 0 = Some k" "3 \<le> fd"
    by (auto simp: vfs_file_get_index_def FILES_FD_BASE_def split: if_splits)
  then have k4: "k < 4" "vf_fd (vfs_open_files s ! k) = fd"
    using find_file_some [OF k(1)] t by (simp_all add: table_ok_def)
  show False
  proof (cases "G (int k + 3)")
    case None
    then show ?thesis
      using table_free [OF t k4(1)] k(2) k4(2) by simp
  next
    case (Some e)
    then show ?thesis
      using table_entry [OF t Some] k4(2) o by auto
  qed
qed

lemma oper_of_open:
  assumes t: "table_ok OP s G" and o: "G fd = Some (p, fs, file)"
  shows "\<exists>Fs op. vfs_drives s fs = Some Fs \<and> hd (fs_name Fs) = hd p \<and> OP (fs_ctx Fs) = Some op \<and>
    vfs_file_oper OP fd s = Some (Some (nat (fd - 3), entry fd (p, fs, file), Some op))"
proof -
  obtain i where i: "i < 4" "fd = int i + 3" "vfs_open_files s ! i = entry fd (p, fs, file)"
      "drive_ok OP s (p, fs, file)" "nat (fd - 3) = i"
    using table_entry [OF t o] by blast
  then have "vfs_is_file (entry fd (p, fs, file))"
    by (simp add: vfs_is_file_def FILES_FD_BASE_def MAX_OPEN_FILES_def)
  then show ?thesis
    using i index_of_open [OF t o] by (auto simp: vfs_file_oper_def vfs_get_file_def drive_ok_def Let_def)
qed

lemma oper_of_closed: "table_ok OP s G \<Longrightarrow> G fd = None \<Longrightarrow> vfs_file_oper OP fd s = Some None"
  by (simp add: vfs_file_oper_def vfs_get_file_def index_of_closed)


section \<open>Runs\<close>

text \<open>The files of a drive are closed when it is unmounted.\<close>

definition drop_drive :: "nat \<Rightarrow> opened \<Rightarrow> opened" where
  "drop_drive fs G = (\<lambda>fd. case G fd of
     Some (p, fs', file) \<Rightarrow> if fs' = fs then None else Some (p, fs', file) | None \<Rightarrow> None)"

text \<open>
  The runs of the file system, with the record of what is open. The allocator is asked for
  a new drive only: what it returns is not the address of a drive in use.
\<close>

inductive vfs_run :: "'h allocator \<Rightarrow> (nat \<Rightarrow> 'x vfs_oper option) \<Rightarrow> ('x, 'h) vfs_state \<Rightarrow> opened \<Rightarrow> bool"
    for M :: "'h allocator" and OP :: "nat \<Rightarrow> 'x vfs_oper option" where
  run_start: "vfs_open_files s = replicate 4 no_file \<Longrightarrow> vfs_run M OP (vfs_create_list s) (\<lambda>_. None)"
| run_mount: "vfs_run M OP s G \<Longrightarrow> vfs_drives s (fst (a_malloc M (vfs_heap s))) = None \<Longrightarrow>
    vfs_mount M OP path ctx s = Some (r, s') \<Longrightarrow> vfs_run M OP s' G"
| run_unmount: "vfs_run M OP s G \<Longrightarrow> vfs_get_fs path True s = Some fs \<Longrightarrow>
    vfs_unmount M OP path s = Some (r, s') \<Longrightarrow> vfs_run M OP s' (drop_drive fs G)"
| run_open: "vfs_run M OP s G \<Longrightarrow> vfs_get_fs (Some p) False s = Some fs \<Longrightarrow> vfs_drives s fs = Some Fs \<Longrightarrow>
    OP (fs_ctx Fs) = Some op \<Longrightarrow> op_open op = Some f \<Longrightarrow>
    file = fst (f Fs p flags mode (driver_state s)) \<Longrightarrow>
    vfs_open OP (Some p) flags mode s = Some (fd, s') \<Longrightarrow> fd \<noteq> - 1 \<Longrightarrow> vfs_run M OP s' (G(fd \<mapsto> (p, fs, file)))"
| run_open_fails: "vfs_run M OP s G \<Longrightarrow> vfs_open OP path flags mode s = Some (- 1, s') \<Longrightarrow> vfs_run M OP s' G"
| run_close: "vfs_run M OP s G \<Longrightarrow> vfs_close OP fd s = Some (r, s') \<Longrightarrow> vfs_run M OP s' (G(fd := None))"
| run_read: "vfs_run M OP s G \<Longrightarrow> vfs_read OP fd n s = Some (r, data, s') \<Longrightarrow> vfs_run M OP s' G"
| run_write: "vfs_run M OP s G \<Longrightarrow> vfs_write OP fd buf s = Some (r, s') \<Longrightarrow> vfs_run M OP s' G"
| run_seek: "vfs_run M OP s G \<Longrightarrow> vfs_seek OP fd pos whence s = Some (r, s') \<Longrightarrow> vfs_run M OP s' G"

section \<open>Each operation keeps the table\<close>

lemma table_ok_cong:
  "table_ok OP s G \<Longrightarrow> vfs_open_files s' = vfs_open_files s \<Longrightarrow>
   (\<And>i F. vfs_drives s i = Some F \<Longrightarrow> vfs_drives s' i = Some F) \<Longrightarrow> table_ok OP s' G"
  unfolding table_ok_def drive_ok_def by (fastforce split: option.splits prod.splits)

text \<open>A drive that is looked up has the letter of the path.\<close>

lemma list_get_from_hd:
  assumes "list_get_from s c drive = Some fs"
  shows "fs \<noteq> 0 \<longrightarrow> (\<exists>Fs. vfs_drives s fs = Some Fs \<and> hd (fs_name Fs) = c)"
proof (rule list_get_from.raw_induct [where P = "\<lambda>s c drive fs. fs \<noteq> 0 \<longrightarrow>
    (\<exists>Fs. vfs_drives s fs = Some Fs \<and> hd (fs_name Fs) = c)", OF _ assms], goal_cases)
  case (1 get s c drive fs)
  from 1(2) show ?case
    by (cases "drive = 0") (auto simp: bind_eq_Some_conv split: if_splits dest: 1(1))
qed

lemma get_fs_drive:
  "vfs_get_fs (Some p) d s = Some fs \<Longrightarrow> fs \<noteq> 0 \<Longrightarrow>
   \<exists>Fs. vfs_drives s fs = Some Fs \<and> hd (fs_name Fs) = hd p"
  by (auto simp: vfs_get_fs_def list_get_def split: if_splits dest!: list_get_from_hd)


lemma list_add_keeps:
  "list_add M fs s = Some s' \<Longrightarrow> vfs_open_files s' = vfs_open_files s \<and> vfs_drives s' = vfs_drives s"
  by (auto simp: list_add_def create_node_def Let_def bind_eq_Some_conv split: if_splits prod.splits)

lemma add_fs_keeps:
  assumes add: "vfs_add_fs M p ctx s = Some (fs, s1)"
    and free: "vfs_drives s (fst (a_malloc M (vfs_heap s))) = None"
  shows "vfs_open_files s1 = vfs_open_files s \<and> (\<forall>i F. vfs_drives s i = Some F \<longrightarrow> vfs_drives s1 i = Some F)"
proof -
  obtain old where old: "list_get s (Some p) = Some old"
    using add by (auto simp: vfs_add_fs_def bind_eq_Some_conv)
  obtain n h where n: "a_malloc M (vfs_heap s) = (n, h)"
    by fastforce
  show ?thesis
  proof (cases "old \<noteq> 0 \<or> n = 0")
    case False
    then obtain s2 where "list_add M n (s\<lparr>vfs_heap := h, vfs_drives := (vfs_drives s)
          (n \<mapsto> \<lparr>fs_ctx = 0, fs_name = [CHR 0x00, CHR 0x00, CHR 0x00]\<rparr>)\<rparr>) = Some s2"
        "s1 = s2\<lparr>vfs_drives := (vfs_drives s2)(n \<mapsto> \<lparr>fs_ctx = ctx, fs_name = drive_name p\<rparr>)\<rparr>"
      using add old n by (auto simp: vfs_add_fs_def Let_def bind_eq_Some_conv)
    then show ?thesis
      using free n by (auto dest!: list_add_keeps)
  qed (use add old n in \<open>auto simp: vfs_add_fs_def Let_def split: if_splits\<close>)
qed

lemma mount_keeps_table:
  assumes t: "table_ok OP s G" and free: "vfs_drives s (fst (a_malloc M (vfs_heap s))) = None"
    and m: "vfs_mount M OP path ctx s = Some (r, s')"
  shows "table_ok OP s' G"
proof (cases "path = None \<or> ctx = 0")
  case False
  then obtain p fs s1 where add: "path = Some p" "vfs_add_fs M p ctx s = Some (fs, s1)"
    using m by (auto simp: vfs_mount_def bind_eq_Some_conv)
  note keep = add_fs_keeps [OF add(2) free]
  have "vfs_open_files s' = vfs_open_files s1 \<and> vfs_drives s' = vfs_drives s1"
  proof (cases "fs = 0")
    case fs: False
    then obtain Fs where "vfs_drives s1 fs = Some Fs"
      using m False add by (auto simp: vfs_mount_def bind_eq_Some_conv)
    then show ?thesis
      using m False add fs
      by (cases "OP (fs_ctx Fs)") (auto simp: vfs_mount_def Let_def split: option.splits if_splits prod.splits)
  qed (use m False add in \<open>auto simp: vfs_mount_def\<close>)
  then show ?thesis
    using keep by (intro table_ok_cong [OF t]) auto
qed (use t m in \<open>auto simp: vfs_mount_def split: if_splits option.splits\<close>)

lemma close_shape:
  assumes t: "table_ok OP s G" and has: "\<forall>ctx op. OP ctx = Some op \<longrightarrow> op_close op \<noteq> None"
    and c: "vfs_close OP fd s = Some (r, s')"
  shows "G fd = None \<and> s' = s \<or>
    G fd \<noteq> None \<and> (\<exists>x. s' = vfs_clear_file (nat (fd - 3)) (s\<lparr>driver_state := x\<rparr>))"
proof (cases "G fd")
  case None
  then show ?thesis
    using c oper_of_closed [OF t None] by (simp add: vfs_close_def)
next
  case (Some e)
  obtain p fs h where e: "e = (p, fs, h)"
    by (cases e)
  obtain ctx op where op: "OP ctx = Some op"
      "vfs_file_oper OP fd s = Some (Some (nat (fd - 3), entry fd e, Some op))"
    using oper_of_open [OF t Some [unfolded e]] e by auto
  then obtain cl where "op_close op = Some cl"
    using has by blast
  then show ?thesis
    using c op Some by (auto simp: vfs_close_def Let_def split: prod.splits)
qed

lemma close_keeps_table:
  assumes t: "table_ok OP s G" and has: "\<forall>ctx op. OP ctx = Some op \<longrightarrow> op_close op \<noteq> None"
    and c: "vfs_close OP fd s = Some (r, s')"
  shows "table_ok OP s' (G(fd := None)) \<and> vfs_drives s' = vfs_drives s"
  using close_shape [OF t has c]
proof (elim disjE conjE exE)
  assume "G fd = None" "s' = s"
  moreover from this have "G(fd := None) = G"
    by auto
  ultimately show ?thesis
    using t by simp
next
  fix x assume o: "G fd \<noteq> None" and s': "s' = vfs_clear_file (nat (fd - 3)) (s\<lparr>driver_state := x\<rparr>)"
  obtain i where i: "i < 4" "fd = int i + 3" "nat (fd - 3) = i"
    using table_entry [OF t] o by blast
  have files: "vfs_open_files s' = (vfs_open_files s)[i := no_file]" "vfs_drives s' = vfs_drives s"
    by (simp_all add: s' i(3) vfs_clear_file_def)
  have "case (G(fd := None)) (int j + 3) of
        None \<Rightarrow> vf_fd (vfs_open_files s' ! j) = 0 \<and> vf_fs (vfs_open_files s' ! j) = 0
      | Some e \<Rightarrow> vfs_open_files s' ! j = entry (int j + 3) e \<and> drive_ok OP s' e" if "j < 4" for j
    using t that i files
    by (cases "j = i") (auto simp: table_ok_def drive_ok_def no_file_def split: option.splits)
  then show ?thesis
    using t files unfolding table_ok_def by (auto split: if_splits)
qed

text \<open>Unmounting closes the files of the drive, and only those.\<close>

lemma close_all_keeps_table:
  assumes has: "\<forall>ctx op. OP ctx = Some op \<longrightarrow> op_close op \<noteq> None" and fs: "fs \<noteq> 0"
  shows "table_ok OP s G \<Longrightarrow> set is \<subseteq> {..<4} \<Longrightarrow> close_all OP fs is s = Some s' \<Longrightarrow>
    table_ok OP s' (\<lambda>fd. if fd \<in> (\<lambda>i. int i + 3) ` set is then drop_drive fs G fd else G fd) \<and>
    vfs_drives s' = vfs_drives s"
proof (induction "is" arbitrary: s G)
  case (Cons i "is")
  let ?fd = "vf_fd (vfs_open_files s ! i)"
  show ?case
  proof (cases "vf_fs (vfs_open_files s ! i) = fs")
    case True
    have i4: "i < 4"
      using Cons.prems by simp
    then obtain p h where g: "G (int i + 3) = Some (p, fs, h)" "?fd = int i + 3"
      using Cons.prems(1) True fs unfolding table_ok_def by (fastforce split: option.splits)
    obtain r s1 where s1: "vfs_close OP (int i + 3) s = Some (r, s1)" "close_all OP fs is s1 = Some s'"
      using Cons.prems(3) True g(2) by (auto simp: bind_eq_Some_conv)
    have t1: "table_ok OP s1 (G(int i + 3 := None))" "vfs_drives s1 = vfs_drives s"
      using close_keeps_table [OF Cons.prems(1) has s1(1)] by simp_all
    have "(\<lambda>fd. if fd \<in> (\<lambda>i. int i + 3) ` set is then drop_drive fs (G(int i + 3 := None)) fd
            else (G(int i + 3 := None)) fd) =
          (\<lambda>fd. if fd \<in> (\<lambda>i. int i + 3) ` set (i # is) then drop_drive fs G fd else G fd)"
      using g(1) by (auto simp: drop_drive_def fun_eq_iff)
    then show ?thesis
      using Cons.IH [OF t1(1) _ s1(2)] Cons.prems(2) t1(2) by simp
  next
    case False
    have "drop_drive fs G (int i + 3) = G (int i + 3)"
      using Cons.prems(1,2) False unfolding table_ok_def drop_drive_def
      by (fastforce split: option.splits prod.splits)
    then have "(\<lambda>fd. if fd \<in> (\<lambda>i. int i + 3) ` set is then drop_drive fs G fd else G fd) =
          (\<lambda>fd. if fd \<in> (\<lambda>i. int i + 3) ` set (i # is) then drop_drive fs G fd else G fd)"
      by (auto simp: fun_eq_iff)
    then show ?thesis
      using Cons.IH [OF Cons.prems(1)] Cons.prems(2,3) False by simp
  qed
qed simp

lemma list_remove_keeps:
  assumes "list_remove_from M item node s = Some s'"
  shows "vfs_open_files s' = vfs_open_files s \<and> vfs_drives s' = vfs_drives s"
proof (rule list_remove_from.raw_induct [where P = "\<lambda>M item node s s'.
    vfs_open_files s' = vfs_open_files s \<and> vfs_drives s' = vfs_drives s", OF _ assms], goal_cases)
  case (1 remove M item node s s')
  from 1(2) show ?case
    by (cases "node = 0") (auto simp: bind_eq_Some_conv Let_def split: if_splits dest: 1(1))
qed

lemma unmount_keeps_table:
  assumes t: "table_ok OP s G" and has: "\<forall>ctx op. OP ctx = Some op \<longrightarrow> op_close op \<noteq> None"
    and fs: "vfs_get_fs path True s = Some fs" and u: "vfs_unmount M OP path s = Some (r, s')"
  shows "table_ok OP s' (drop_drive fs G)"
proof (cases "fs = 0")
  case True
  have "drop_drive 0 G fd = G fd" for fd
  proof (cases "G fd")
    case (Some e)
    then show ?thesis
      using table_entry [OF t Some] by (auto simp: drop_drive_def drive_ok_def split: prod.splits)
  qed (simp add: drop_drive_def)
  then have "drop_drive 0 G = G"
    by auto
  then show ?thesis
    using t u fs True by (auto simp: vfs_unmount_def split: if_splits)
next
  case False
  then have "path \<noteq> None"
    using fs by (auto simp: vfs_get_fs_def is_valid_dev_def split: if_splits option.splits)
  then obtain s1 where s1: "close_all OP fs [0..<MAX_OPEN_FILES] s = Some s1"
      "vfs_open_files s' = vfs_open_files s1" "vfs_drives s' = vfs_drives s1"
    using u fs False by (auto simp: vfs_unmount_def bind_eq_Some_conv list_remove_def
        dest!: list_remove_keeps split: if_splits option.splits)
  have keep: "table_ok OP s1 (\<lambda>fd. if fd \<in> (\<lambda>i. int i + 3) ` set [0..<MAX_OPEN_FILES] then drop_drive fs G fd else G fd)"
    by (rule conjunct1 [OF close_all_keeps_table [OF has False t _ s1(1)]]) (auto simp: MAX_OPEN_FILES_def)
  have "(if fd \<in> (\<lambda>i. int i + 3) ` set [0..<MAX_OPEN_FILES] then drop_drive fs G fd else G fd) = drop_drive fs G fd" for fd
  proof (cases "G fd")
    case (Some e)
    then obtain i where "fd = int i + 3" "i < MAX_OPEN_FILES"
      using table_entry [OF t Some] unfolding MAX_OPEN_FILES_def by blast
    then have "fd \<in> (\<lambda>i. int i + 3) ` set [0..<MAX_OPEN_FILES]"
      by simp
    then show ?thesis
      by simp
  qed (simp add: drop_drive_def)
  with keep have "table_ok OP s1 (drop_drive fs G)"
    by simp
  then show ?thesis
    by (rule table_ok_cong) (simp_all add: s1)
qed

text \<open>Opening takes a free entry; a path with the hash of an open one is refused.\<close>

lemma open_effect:
  assumes o: "vfs_open OP path flags mode s = Some (r, s')"
  shows "r = - 1 \<and> (\<exists>i h x. vf_fd (vfs_open_files s ! i) = 0 \<and> s' = s\<lparr>driver_state := x,
        vfs_open_files := (vfs_open_files s)[i := (vfs_open_files s ! i)\<lparr>vf_file := h\<rparr>]\<rparr>) \<or> r = - 1 \<and> s' = s \<or>
    (\<exists>i fs Fs op f. \<not> vfs_file_is_open path s \<and> vfs_get_fs path False s = Some fs \<and> fs \<noteq> 0 \<and>
       vfs_file_get_free_index s = Some i \<and> vfs_drives s fs = Some Fs \<and> OP (fs_ctx Fs) = Some op \<and>
       op_open op = Some f \<and> fst (f Fs (the path) flags mode (driver_state s)) \<noteq> 0 \<and> r = int i + 3 \<and>
       s' = s\<lparr>driver_state := snd (f Fs (the path) flags mode (driver_state s)),
         vfs_open_files := (vfs_open_files s)[i := (vfs_open_files s ! i)
           \<lparr>vf_file := fst (f Fs (the path) flags mode (driver_state s)), vf_fs := fs,
            vf_hash := strhash path, vf_fd := int i + 3\<rparr>]\<rparr>)"
proof (cases "vfs_file_is_open path s")
  case False
  obtain fs where fs: "vfs_get_fs path False s = Some fs"
    using o False by (auto simp: vfs_open_def bind_eq_Some_conv)
  show ?thesis
  proof (cases "fs = 0 \<or> vfs_file_get_free_index s = None")
    case False': False
    then obtain i where i: "vfs_file_get_free_index s = Some i"
      by blast
    then have free: "vf_fd (vfs_open_files s ! i) = 0"
      using find_file_some [of "\<lambda>f. 0 = vf_fd f"] unfolding vfs_file_get_free_index_def by fastforce
    obtain Fs where Fs: "vfs_drives s fs = Some Fs"
      using o False fs i False' by (auto simp: vfs_open_def bind_eq_Some_conv)
    show ?thesis
    proof (cases "OP (fs_ctx Fs)")
      case None
      then show ?thesis
        using o False fs i False' Fs by (simp add: vfs_open_def)
    next
      case (Some op)
      then obtain f where f: "op_open op = Some f"
        using o False fs i False' Fs by (auto simp: vfs_open_def bind_eq_Some_conv)
      obtain h x where "f Fs (the path) flags mode (driver_state s) = (h, x)"
        by fastforce
      then show ?thesis
        using o False fs i False' Fs Some f free by (cases "h = 0") (auto simp: vfs_open_def Let_def)
    qed
  next
    case True
    then have "r = - 1 \<and> s' = s"
      using o False fs by (elim disjE) (auto simp: vfs_open_def split: if_splits)
    then show ?thesis
      by blast
  qed
qed (use o in \<open>simp add: vfs_open_def\<close>)


lemma entry_update:
  "F\<lparr>vf_file := h, vf_fs := fs, vf_hash := strhash (Some p), vf_fd := fd\<rparr> = entry fd (p, fs, h)"
  by (cases F) (simp add: entry_def)

lemma open_keeps_table:
  assumes t: "table_ok OP s G" and o: "vfs_open OP (Some p) flags mode s = Some (fd, s')" and ok: "fd \<noteq> - 1"
    and w: "vfs_get_fs (Some p) False s = Some fs" "vfs_drives s fs = Some Fs" "OP (fs_ctx Fs) = Some op"
      "op_open op = Some f" "h = fst (f Fs p flags mode (driver_state s))"
  shows "table_ok OP s' (G(fd \<mapsto> (p, fs, h)))"
proof -
  have len: "length (vfs_open_files s) = 4"
    using t by (simp add: table_ok_def)
  obtain i x where i: "\<not> vfs_file_is_open (Some p) s" "fs \<noteq> 0" "vfs_file_get_free_index s = Some i" "h \<noteq> 0"
      "fd = int i + 3" "s' = s\<lparr>driver_state := x, vfs_open_files := (vfs_open_files s)[i := entry fd (p, fs, h)]\<rparr>"
    using open_effect [OF o] ok w by (auto simp: entry_update)
  then have i4: "i < 4" and free: "vf_fd (vfs_open_files s ! i) = 0"
    using find_file_some [of "\<lambda>f. 0 = vf_fd f" "vfs_open_files s" 0 i] len
    unfolding vfs_file_get_free_index_def by auto
  have none: "G fd = None"
  proof (cases "G fd")
    case (Some e)
    then show ?thesis
      using table_entry [OF t Some] i(5) free by auto
  qed
  have hash: "strhash (Some p) \<noteq> strhash (Some p') \<or> strhash (Some p) = 0" if g: "G fd' = Some (p', r)" for fd' p' r
  proof -
    obtain fs' h' where r: "r = (fs', h')"
      by fastforce
    obtain k where "k < 4" "fd' = int k + 3" "vfs_open_files s ! k = entry fd' (p', fs', h')"
        "drive_ok OP s (p', fs', h')"
      using table_entry [OF t g [unfolded r]] by blast
    then have "entry fd' (p', fs', h') \<in> set (vfs_open_files s)" "fd' \<noteq> 0" "h' \<noteq> 0"
      using len by (auto simp: drive_ok_def in_set_conv_nth intro: exI [of _ k])
    then show ?thesis
      using i(1) unfolding vfs_file_is_open_def by (auto dest: bspec)
  qed
  have "case (G(fd \<mapsto> (p, fs, h))) (int j + 3) of
        None \<Rightarrow> vf_fd (vfs_open_files s' ! j) = 0 \<and> vf_fs (vfs_open_files s' ! j) = 0
      | Some e \<Rightarrow> vfs_open_files s' ! j = entry (int j + 3) e \<and> drive_ok OP s' e" if "j < 4" for j
  proof (cases "j = i")
    case True
    then show ?thesis
      using i(2,4,5,6) i4 len w(2,3) get_fs_drive [OF w(1) i(2)] by (auto simp: drive_ok_def)
  next
    case False
    then show ?thesis
      using t that i(5,6) by (auto simp: table_ok_def drive_ok_def split: option.splits)
  qed
  moreover have "length (vfs_open_files s') = 4"
    using i(6) len by simp
  moreover have "3 \<le> fd'' \<and> fd'' < 7" if "(G(fd \<mapsto> (p, fs, h))) fd'' \<noteq> None" for fd''
    using t that i(5) i4 unfolding table_ok_def by (auto split: if_splits)
  moreover have "strhash (Some p1) \<noteq> strhash (Some p2) \<or> strhash (Some p1) = 0"
    if "(G(fd \<mapsto> (p, fs, h))) f1 = Some (p1, r1)" "(G(fd \<mapsto> (p, fs, h))) f2 = Some (p2, r2)" "f1 \<noteq> f2" for f1 f2 p1 p2 r1 r2
  proof (cases "f1 = fd \<or> f2 = fd")
    case True
    then have "p1 = p \<and> G f2 = Some (p2, r2) \<or> p2 = p \<and> G f1 = Some (p1, r1)"
      using that by (cases "f1 = fd") simp_all
    then show ?thesis
    proof (elim disjE conjE)
      assume "p1 = p" "G f2 = Some (p2, r2)"
      then show ?thesis
        using hash by blast
    next
      assume "p2 = p" "G f1 = Some (p1, r1)"
      then show ?thesis
        using hash [of f1 p1 r1] by argo
    qed
  next
    case False
    then have "G f1 = Some (p1, r1)" "G f2 = Some (p2, r2)"
      using that by simp_all
    then show ?thesis
      using t that(3) unfolding table_ok_def by blast
  qed
  ultimately show ?thesis
    unfolding table_ok_def by blast
qed

lemma open_fails_keeps_table:
  assumes t: "table_ok OP s G" and o: "vfs_open OP path flags mode s = Some (- 1, s')"
  shows "table_ok OP s' G"
proof -
  have "length (vfs_open_files s) = 4"
    using t by (simp add: table_ok_def)
  consider "s' = s" | i h x where "vf_fd (vfs_open_files s ! i) = 0" "s' = s\<lparr>driver_state := x,
        vfs_open_files := (vfs_open_files s)[i := (vfs_open_files s ! i)\<lparr>vf_file := h\<rparr>]\<rparr>"
    using open_effect [OF o] by fastforce
  then show ?thesis
  proof cases
    case (2 i h x)
    have "case G (int j + 3) of
        None \<Rightarrow> vf_fd (vfs_open_files s' ! j) = 0 \<and> vf_fs (vfs_open_files s' ! j) = 0
      | Some e \<Rightarrow> vfs_open_files s' ! j = entry (int j + 3) e \<and> drive_ok OP s' e" if "j < 4" for j
    proof (cases "G (int j + 3)")
      case None
      then show ?thesis
        using 2 table_free [OF t that None] \<open>length _ = _\<close> that by (cases "j = i") auto
    next
      case (Some e)
      then have "j \<noteq> i"
        using table_entry [OF t Some] 2(1) by auto
      then show ?thesis
        using 2(2) table_entry [OF t Some] Some by (auto simp: drive_ok_def split: prod.splits)
    qed
    moreover have "length (vfs_open_files s') = 4"
      using 2(2) \<open>length _ = _\<close> by simp
    ultimately show ?thesis
      using t unfolding table_ok_def by blast
  qed (use t in simp)
qed


text \<open>Reading, writing and seeking change the state of the drivers only.\<close>

lemma read_shape:
  assumes "vfs_read OP fd n s = Some (r, data, s')"
  shows "\<exists>x. s' = s\<lparr>driver_state := x\<rparr>"
proof -
  have same: "\<exists>x. s = s\<lparr>driver_state := x\<rparr>"
    by (rule exI [of _ "driver_state s"]) simp
  obtain q where q: "vfs_file_oper OP fd s = Some q"
    using assms by (auto simp: vfs_read_def bind_eq_Some_conv)
  show ?thesis
  proof (cases "\<exists>i F op f. q = Some (i, F, Some op) \<and> op_read op = Some f")
    case True
    then obtain i F op f where "q = Some (i, F, Some op)" "op_read op = Some f"
      by blast
    then show ?thesis
      using assms q by (cases "f F n (driver_state s)") (auto simp: vfs_read_def)
  next
    case False
    then show ?thesis
      using assms q same by (cases q) (auto simp: vfs_read_def split: option.split_asm)
  qed
qed

lemma write_shape:
  assumes "vfs_write OP fd buf s = Some (r, s')"
  shows "\<exists>x. s' = s\<lparr>driver_state := x\<rparr>"
proof -
  have same: "\<exists>x. s = s\<lparr>driver_state := x\<rparr>"
    by (rule exI [of _ "driver_state s"]) simp
  obtain q where q: "vfs_file_oper OP fd s = Some q"
    using assms by (auto simp: vfs_write_def bind_eq_Some_conv)
  show ?thesis
  proof (cases "\<exists>i F op f. q = Some (i, F, Some op) \<and> op_write op = Some f")
    case True
    then obtain i F op f where "q = Some (i, F, Some op)" "op_write op = Some f"
      by blast
    then show ?thesis
      using assms q by (cases "f F buf (driver_state s)") (auto simp: vfs_write_def)
  next
    case False
    then show ?thesis
      using assms q same by (cases q) (auto simp: vfs_write_def split: option.split_asm)
  qed
qed

lemma seek_shape:
  assumes "vfs_seek OP fd pos whence s = Some (r, s')"
  shows "\<exists>x. s' = s\<lparr>driver_state := x\<rparr>"
proof -
  have same: "\<exists>x. s = s\<lparr>driver_state := x\<rparr>"
    by (rule exI [of _ "driver_state s"]) simp
  obtain q where q: "vfs_file_oper OP fd s = Some q"
    using assms by (auto simp: vfs_seek_def bind_eq_Some_conv)
  show ?thesis
  proof (cases "\<exists>i F op f. q = Some (i, F, Some op) \<and> op_seek op = Some f")
    case True
    then obtain i F op f where "q = Some (i, F, Some op)" "op_seek op = Some f"
      by blast
    then show ?thesis
      using assms q by (cases "f F pos whence (driver_state s)") (auto simp: vfs_seek_def)
  next
    case False
    then show ?thesis
      using assms q same by (cases q) (auto simp: vfs_seek_def split: option.split_asm)
  qed
qed

lemma driver_keeps_table: "table_ok OP s G \<Longrightarrow> \<exists>x. s' = s\<lparr>driver_state := x\<rparr> \<Longrightarrow> table_ok OP s' G"
  by (auto intro: table_ok_cong)

lemma vfs_run_table:
  assumes has: "\<forall>ctx op. OP ctx = Some op \<longrightarrow> op_close op \<noteq> None"
  shows "vfs_run M OP s G \<Longrightarrow> table_ok OP s G"
proof (induction rule: vfs_run.induct)
  case (run_start s)
  then show ?case
    by (auto simp: table_ok_def vfs_create_list_def no_file_def)
next
  case (run_mount s G path ctx r s')
  then show ?case
    by (blast intro: mount_keeps_table)
next
  case (run_unmount s G path fs r s')
  then show ?case
    by (blast intro: unmount_keeps_table [OF _ has])
next
  case (run_open s G p fs Fs op f h flags mode fd s')
  then show ?case
    by (blast intro: open_keeps_table)
next
  case (run_open_fails s G path flags mode s')
  then show ?case
    by (blast intro: open_fails_keeps_table)
next
  case (run_close s G fd r s')
  then show ?case
    by (blast dest: close_keeps_table [OF _ has])
qed (blast intro: driver_keeps_table dest: read_shape write_shape seek_shape)+


section \<open>Properties\<close>

text \<open>What a closed descriptor answers.\<close>

lemma closed_io:
  assumes "table_ok OP s G" and "G fd = None"
  shows "vfs_read OP fd n s = Some (- EBADF, [], s)" "vfs_write OP fd buf s = Some (- EBADF, s)"
    "vfs_seek OP fd pos whence s = Some (- EBADF, s)" "vfs_close OP fd s = Some (- EBADF, s)"
  using oper_of_closed [OF assms] by (simp_all add: vfs_read_def vfs_write_def vfs_seek_def vfs_close_def)

text \<open>
  In every run of mounts, unmounts, opens, closes, reads, writes and seeks of the virtual
  file system over drivers that can close, a descriptor stands for the file it was opened
  with: it is one of 3 to 6, a drive with the letter of its path is still there, and a read or
  a write calls the driver of that drive with exactly the driver's file that its open
  returned, and changes nothing but the drivers' state.
\<close>

theorem vfs_descriptor_reaches_its_file:
  assumes has: "\<forall>ctx op. OP ctx = Some op \<longrightarrow> op_close op \<noteq> None"
    and run: "vfs_run M OP s G" and o: "G fd = Some (p, fs, h)"
  shows "3 \<le> fd \<and> fd \<le> 6 \<and>
    (\<exists>Fs op. vfs_drives s fs = Some Fs \<and> hd (fs_name Fs) = hd p \<and> OP (fs_ctx Fs) = Some op \<and>
       vfs_read OP fd n s = Some (case op_read op of
           Some f \<Rightarrow> (case f \<lparr>vf_file = h, vf_fs = fs, vf_fd = fd, vf_hash = strhash (Some p)\<rparr> n (driver_state s) of
             (r, data, x) \<Rightarrow> (r, data, s\<lparr>driver_state := x\<rparr>))
         | None \<Rightarrow> (- EBADF, [], s)) \<and>
       vfs_write OP fd buf s = Some (case op_write op of
           Some f \<Rightarrow> (case f \<lparr>vf_file = h, vf_fs = fs, vf_fd = fd, vf_hash = strhash (Some p)\<rparr> buf (driver_state s) of
             (r, x) \<Rightarrow> (r, s\<lparr>driver_state := x\<rparr>))
         | None \<Rightarrow> (- EBADF, s)))"
proof -
  have t: "table_ok OP s G"
    by (rule vfs_run_table [OF has run])
  obtain Fs op where op: "vfs_drives s fs = Some Fs" "hd (fs_name Fs) = hd p" "OP (fs_ctx Fs) = Some op"
      "vfs_file_oper OP fd s = Some (Some (nat (fd - 3), entry fd (p, fs, h), Some op))"
    using oper_of_open [OF t o] by blast
  have fd: "3 \<le> fd \<and> fd \<le> 6"
    using t o unfolding table_ok_def by force
  show ?thesis
    by (rule conjI [OF fd [THEN conjunct1]], rule conjI [OF fd [THEN conjunct2]],
        rule exI [of _ Fs], rule exI [of _ op])
      (use op in \<open>simp add: vfs_read_def vfs_write_def entry_def split: option.split prod.split\<close>)
qed

text \<open>
  C28. In every such run a descriptor that is not open, so also one that was closed or whose
  drive was unmounted, reads, writes, seeks and closes nothing: each call returns
  \<open>- EBADF\<close> and leaves the whole state as it is.
\<close>

theorem vfs_closed_descriptor_fails:
  assumes has: "\<forall>ctx op. OP ctx = Some op \<longrightarrow> op_close op \<noteq> None"
    and run: "vfs_run M OP s G" and o: "G fd = None"
  shows "vfs_read OP fd n s = Some (- EBADF, [], s) \<and> vfs_write OP fd buf s = Some (- EBADF, s) \<and>
    vfs_seek OP fd pos whence s = Some (- EBADF, s) \<and> vfs_close OP fd s = Some (- EBADF, s)"
  using closed_io [OF vfs_run_table [OF has run] o] by blast

text \<open>Closing files does not touch the list of drives.\<close>

lemma close_keeps_list:
  assumes "vfs_close OP fd s = Some (r, s')"
  shows "list_head s' = list_head s \<and> vfs_nodes s' = vfs_nodes s"
proof -
  obtain q where q: "vfs_file_oper OP fd s = Some q"
    using assms by (auto simp: vfs_close_def bind_eq_Some_conv)
  show ?thesis
  proof (cases "\<exists>i F op f. q = Some (i, F, Some op) \<and> op_close op = Some f")
    case True
    then obtain i F op f where "q = Some (i, F, Some op)" "op_close op = Some f"
      by blast
    then show ?thesis
      using assms q by (cases "f F (driver_state s)") (auto simp: vfs_close_def vfs_clear_file_def)
  next
    case False
    then show ?thesis
      using assms q by (cases q) (auto simp: vfs_close_def split: option.split_asm)
  qed
qed

lemma close_all_keeps_list:
  "close_all OP fs is s = Some s' \<Longrightarrow> list_head s' = list_head s \<and> vfs_nodes s' = vfs_nodes s"
proof (induction "is" arbitrary: s)
  case (Cons i "is")
  show ?case
  proof (cases "vf_fs (vfs_open_files s ! i) = fs")
    case True
    then obtain r s1 where "vfs_close OP (vf_fd (vfs_open_files s ! i)) s = Some (r, s1)" "close_all OP fs is s1 = Some s'"
      using Cons.prems by (auto simp: bind_eq_Some_conv)
    then show ?thesis
      using Cons.IH close_keeps_list by metis
  qed (use Cons in simp)
qed simp

text \<open>
  The drive mounted first can never be unmounted: \<open>vfs_unmount\<close> of the drive at the head
  of the list, the only one of most programs, never returns, because \<open>list_remove\<close> writes
  through the \<open>NULL\<close> that the head node has for a predecessor.
\<close>

theorem vfs_unmount_first_drive_stops:
  assumes fs: "vfs_get_fs path True s = Some fs" "fs \<noteq> 0"
    and head: "list_head s \<noteq> 0" "vfs_nodes s (list_head s) = Some n" "node_fs n = fs" "node_prev n = 0"
  shows "vfs_unmount M OP path s = None"
proof -
  have "path \<noteq> None"
    using fs by (auto simp: vfs_get_fs_def is_valid_dev_def split: if_splits option.splits)
  moreover have "list_remove M fs s1 = None"
    if "list_head s1 = list_head s" "vfs_nodes s1 = vfs_nodes s" for s1 :: "('a, 'b) vfs_state"
    using that head by (simp add: list_remove_def list_remove_from.simps)
  ultimately have "\<nexists>r. vfs_unmount M OP path s = Some r"
    using fs by (auto simp: vfs_unmount_def bind_eq_Some_conv dest!: close_all_keeps_list
        split: option.split_asm if_splits)
  then show ?thesis
    by (cases "vfs_unmount M OP path s") blast+
qed

text \<open>A run: a drive is mounted, a file is opened on it as descriptor 3, and is closed again.\<close>

definition demo_oper :: "u8 list vfs_oper" where
  "demo_oper = \<lparr>op_init = None, op_mount = Some (\<lambda>_ x. (0, x)), op_unmount = None,
     op_open = Some (\<lambda>_ _ _ _ x. (9, x)), op_close = Some (\<lambda>_ x. (0, x)),
     op_write = Some (\<lambda>_ b x. (int (length b), x @ b)),
     op_read = Some (\<lambda>_ n x. (int (min n (length x)), take n x, drop n x)), op_seek = None\<rparr>"

definition demo_alloc :: "nat allocator" where
  "demo_alloc = \<lparr>a_malloc = (\<lambda>h. (h, h + 1)), a_free = (\<lambda>_ h. h)\<rparr>"

definition demo_start :: "(u8 list, nat) vfs_state" where
  "demo_start = \<lparr>vfs_open_files = replicate 4 no_file, list_head = 0, list_tail = 0, vfs_nodes = Map.empty,
     vfs_drives = Map.empty, driver_state = [97, 98, 99], vfs_heap = 1\<rparr>"

definition demo_mounted :: "(u8 list, nat) vfs_state" where
  "demo_mounted = demo_start\<lparr>list_head := 2, vfs_nodes := [2 \<mapsto> \<lparr>node_fs = 1, node_prev = 0, node_next = 0\<rparr>],
     vfs_drives := [1 \<mapsto> \<lparr>fs_ctx = 7, fs_name = drive_name ''A:''\<rparr>], vfs_heap := 3\<rparr>"

definition demo_opened :: "(u8 list, nat) vfs_state" where
  "demo_opened = demo_mounted\<lparr>vfs_open_files := (replicate 4 no_file)[0 := entry 3 (''A:/f'', 1, 9)]\<rparr>"

lemma demo_mount:
  "vfs_mount demo_alloc (\<lambda>_. Some demo_oper) (Some ''A:'') 7 demo_start = Some (0, demo_mounted)"
  by (simp add: vfs_mount_def vfs_add_fs_def list_get_def is_valid_dev_def list_get_from.simps list_add_def
      create_node_def demo_start_def demo_mounted_def demo_alloc_def demo_oper_def numeral_2_eq_2)

lemma demo_open:
  "vfs_open (\<lambda>_. Some demo_oper) (Some ''A:/f'') 0 0 demo_mounted = Some (3, demo_opened)"
  by (simp add: vfs_open_def vfs_file_is_open_def vfs_get_fs_def list_get_def is_valid_dev_def
      list_get_from.simps drive_name_def vfs_file_get_free_index_def no_file_def entry_def
      demo_start_def demo_mounted_def demo_opened_def demo_oper_def numeral_eq_Suc)

lemma demo_run_mounted: "vfs_run demo_alloc (\<lambda>_. Some demo_oper) demo_mounted (\<lambda>_. None)"
proof (rule run_mount [OF _ _ demo_mount])
  have "vfs_create_list demo_start = demo_start"
    by (simp add: vfs_create_list_def demo_start_def)
  then show "vfs_run demo_alloc (\<lambda>_. Some demo_oper) demo_start (\<lambda>_. None)"
    using run_start [of demo_start demo_alloc "\<lambda>_. Some demo_oper"] by (simp add: demo_start_def)
qed (simp add: demo_start_def)

lemma demo_run_opened:
  "vfs_run demo_alloc (\<lambda>_. Some demo_oper) demo_opened [3 \<mapsto> (''A:/f'', 1, 9)]"
  by (rule run_open [OF demo_run_mounted _ _ _ _ _ demo_open,
        where Fs = "\<lparr>fs_ctx = 7, fs_name = drive_name ''A:''\<rparr>" and op = demo_oper and f = "\<lambda>_ _ _ _ x. (9, x)"])
    (simp_all add: vfs_get_fs_def list_get_def is_valid_dev_def list_get_from.simps drive_name_def
      demo_start_def demo_mounted_def demo_oper_def)

theorem vfs_descriptor_reaches_its_file_witness:
  "vfs_read (\<lambda>_. Some demo_oper) 3 2 demo_opened = Some (2, [97, 98], demo_opened\<lparr>driver_state := [99]\<rparr>)"
  using vfs_descriptor_reaches_its_file [OF _ demo_run_opened, of 3 "''A:/f''" 1 9 2 "[]"]
  by (auto simp: demo_oper_def demo_opened_def demo_mounted_def demo_start_def)

theorem vfs_closed_descriptor_fails_witness:
  "vfs_read (\<lambda>_. Some demo_oper) 4 2 demo_opened = Some (- EBADF, [], demo_opened)"
  using vfs_closed_descriptor_fails [OF _ demo_run_opened, of 4 2 "[]" 0 0]
  by (auto simp: demo_oper_def)

theorem vfs_unmount_first_drive_stops_witness:
  "vfs_unmount demo_alloc (\<lambda>_. Some demo_oper) (Some ''A:'') demo_opened = None"
  by (rule vfs_unmount_first_drive_stops [where fs = 1 and n = "\<lparr>node_fs = 1, node_prev = 0, node_next = 0\<rparr>"])
    (simp_all add: vfs_get_fs_def list_get_def is_valid_dev_def list_get_from.simps drive_name_def
      demo_start_def demo_mounted_def demo_opened_def)

end
