(* ===== verification/Vfs_Drivers.thy ===== *)
theory Vfs_Drivers
  imports Vfs_Props
begin

text \<open>
  The two drivers of the virtual file system: littlefs (\<open>library/VFS/VFS_LFS.c\<close>) and FatFs
  (\<open>library/VFS/VFS_FATFS.c\<close>), each a table of operations that takes the mutex of its context,
  calls the library and translates flags and errors. The libraries are third-party code: the
  parameters \<open>L\<close> and \<open>F\<close> hold their functions over a state of their own. \<open>malloc\<close> and
  \<open>free\<close> are the parameter \<open>M\<close>; the numbers of flags and errors are those of newlib.
\<close>

section \<open>The state the drivers share\<close>

record ('l, 'f, 'h) drivers =
  lfs_world :: 'l
  fat_world :: 'f
  drv_heap :: 'h
  drv_errno :: int
  drv_locked :: "nat \<Rightarrow> bool"

definition MUTEX_LOCK :: "nat \<Rightarrow> ('l, 'f, 'h) drivers \<Rightarrow> ('l, 'f, 'h) drivers" where
  "MUTEX_LOCK m x = x\<lparr>drv_locked := (drv_locked x)(m := True)\<rparr>"

definition MUTEX_UNLOCK :: "nat \<Rightarrow> ('l, 'f, 'h) drivers \<Rightarrow> ('l, 'f, 'h) drivers" where
  "MUTEX_UNLOCK m x = x\<lparr>drv_locked := (drv_locked x)(m := False)\<rparr>"

text \<open>Open flags and error numbers of newlib.\<close>

definition O_RDONLY :: u32 where "O_RDONLY = 0"
definition O_WRONLY :: u32 where "O_WRONLY = 1"
definition O_RDWR :: u32 where "O_RDWR = 2"
definition O_ACCMODE :: u32 where "O_ACCMODE = 3"
definition O_APPEND :: u32 where "O_APPEND = 8"
definition O_CREAT :: u32 where "O_CREAT = 0x200"
definition O_TRUNC :: u32 where "O_TRUNC = 0x400"
definition O_EXCL :: u32 where "O_EXCL = 0x800"

definition EINTR :: int where "EINTR = 4"
definition EIO :: int where "EIO = 5"
definition ENXIO :: int where "ENXIO = 6"
definition EEXIST :: int where "EEXIST = 17"
definition ENODEV :: int where "ENODEV = 19"
definition ENOTDIR :: int where "ENOTDIR = 20"
definition EISDIR :: int where "EISDIR = 21"
definition ENFILE :: int where "ENFILE = 23"
definition ENOSPC :: int where "ENOSPC = 28"
definition ETIMEDOUT :: int where "ETIMEDOUT = 116"
definition EILSEQ :: int where "EILSEQ = 138"

lemmas errno_defs = ENOENT_def EBADF_def ENOMEM_def EACCES_def EINVAL_def EINTR_def EIO_def ENXIO_def
  EEXIST_def ENODEV_def ENOTDIR_def EISDIR_def ENFILE_def ENOSPC_def ETIMEDOUT_def EILSEQ_def

section \<open>littlefs\<close>

text \<open>The functions of littlefs on the file system \<open>lfs\<close> of a context.\<close>

record 'l lfs_api =
  lfs_mount :: "nat \<Rightarrow> 'l \<Rightarrow> int \<times> 'l"
  lfs_format :: "nat \<Rightarrow> 'l \<Rightarrow> int \<times> 'l"
  lfs_file_open :: "nat \<Rightarrow> nat \<Rightarrow> string \<Rightarrow> u32 \<Rightarrow> 'l \<Rightarrow> int \<times> 'l"
  lfs_file_close :: "nat \<Rightarrow> nat \<Rightarrow> 'l \<Rightarrow> int \<times> 'l"
  lfs_file_write :: "nat \<Rightarrow> nat \<Rightarrow> u8 list \<Rightarrow> 'l \<Rightarrow> int \<times> 'l"
  lfs_file_read :: "nat \<Rightarrow> nat \<Rightarrow> nat \<Rightarrow> 'l \<Rightarrow> int \<times> u8 list \<times> 'l"
  lfs_file_seek :: "nat \<Rightarrow> nat \<Rightarrow> int \<Rightarrow> int \<Rightarrow> 'l \<Rightarrow> int \<times> 'l"
  lfs_mkdir :: "nat \<Rightarrow> string \<Rightarrow> 'l \<Rightarrow> int \<times> 'l"

record lfs_context =
  lc_lfs :: nat
  lc_pMutex :: nat

definition lfs_tomode :: "u32 \<Rightarrow> u32" where
  "lfs_tomode mo =
     (let flags = 0;
          flags = (if mo AND 3 = O_RDONLY then flags OR 1 else flags);
          flags = (if mo AND 3 = O_WRONLY then flags OR 2 else flags);
          flags = (if mo AND 3 = O_RDWR then flags OR 3 else flags);
          flags = (if mo AND O_CREAT \<noteq> 0 then flags OR 0x0100 else flags);
          flags = (if mo AND O_EXCL \<noteq> 0 then flags OR 0x0200 else flags);
          flags = (if mo AND O_TRUNC \<noteq> 0 then flags OR 0x0400 else flags);
          flags = (if mo AND O_APPEND \<noteq> 0 then flags OR 0x0800 else flags)
      in flags)"

definition lfs_toerror :: "int \<Rightarrow> int" where
  "lfs_toerror err =
     (if err = 0 then 0
      else if err = - 5 then - EIO
      else if err = - 2 then - ENOENT
      else if err = - 17 then - EEXIST
      else if err = - 20 then - ENOTDIR
      else if err = - 21 then - EISDIR
      else if err = - 22 then - EINVAL
      else if err = - 28 then - ENOSPC
      else if err = - 12 then - ENOMEM
      else if err = - 84 then - EILSEQ
      else err)"

text \<open>A library call under the state the drivers share.\<close>

definition call_lfs :: "('l \<Rightarrow> int \<times> 'l) \<Rightarrow> ('l, 'f, 'h) drivers \<Rightarrow> int \<times> ('l, 'f, 'h) drivers" where
  "call_lfs g x = (let (r, l) = g (lfs_world x) in (r, x\<lparr>lfs_world := l\<rparr>))"

definition s_lfs_mount :: "'l lfs_api \<Rightarrow> lfs_context \<Rightarrow> vfs_fs \<Rightarrow> ('l, 'f, 'h) drivers \<Rightarrow> int \<times> ('l, 'f, 'h) drivers" where
  "s_lfs_mount L c Fs x =
     (let x = MUTEX_LOCK (lc_pMutex c) x;
          (err, x) = call_lfs (lfs_mount L (lc_lfs c)) x;
          (err, x) = (if err \<noteq> 0 then
              (let (err, x) = call_lfs (lfs_format L (lc_lfs c)) x
               in if 0 = err then call_lfs (lfs_mount L (lc_lfs c)) x else (err, x))
            else (err, x));
          x = MUTEX_UNLOCK (lc_pMutex c) x
      in (lfs_toerror err, x))"

definition s_lfs_unmount :: "vfs_fs \<Rightarrow> ('l, 'f, 'h) drivers \<Rightarrow> int \<times> ('l, 'f, 'h) drivers" where
  "s_lfs_unmount Fs x = (0, x)"

definition s_lfs_open :: "'h allocator \<Rightarrow> 'l lfs_api \<Rightarrow> lfs_context \<Rightarrow> vfs_fs \<Rightarrow> string \<Rightarrow> u32 \<Rightarrow> u32 \<Rightarrow>
    ('l, 'f, 'h) drivers \<Rightarrow> nat \<times> ('l, 'f, 'h) drivers" where
  "s_lfs_open M L c Fs path flags mode x =
     (let (f, h) = a_malloc M (drv_heap x);
          x = x\<lparr>drv_heap := h\<rparr>
      in if f \<noteq> 0 then
           (let x = MUTEX_LOCK (lc_pMutex c) x;
                (r, x) = call_lfs (lfs_file_open L (lc_lfs c) f (drop 3 path) (lfs_tomode flags)) x;
                x = x\<lparr>drv_errno := lfs_toerror r\<rparr>;
                (f, x) = (if drv_errno x \<noteq> 0 then (0, x\<lparr>drv_heap := a_free M f (drv_heap x)\<rparr>)
                          else (f, x\<lparr>drv_errno := 0\<rparr>));
                x = MUTEX_UNLOCK (lc_pMutex c) x
            in (f, x))
         else (f, x\<lparr>drv_errno := ENOMEM\<rparr>))"

definition s_lfs_close :: "'h allocator \<Rightarrow> 'l lfs_api \<Rightarrow> lfs_context \<Rightarrow> vfs_file \<Rightarrow>
    ('l, 'f, 'h) drivers \<Rightarrow> int \<times> ('l, 'f, 'h) drivers" where
  "s_lfs_close M L c File x =
     (let x = MUTEX_LOCK (lc_pMutex c) x;
          (r, x) = call_lfs (lfs_file_close L (lc_lfs c) (vf_file File)) x;
          err = lfs_toerror r;
          x = x\<lparr>drv_heap := a_free M (vf_file File) (drv_heap x)\<rparr>;
          x = MUTEX_UNLOCK (lc_pMutex c) x
      in (err, x))"

definition s_lfs_write :: "'l lfs_api \<Rightarrow> lfs_context \<Rightarrow> vfs_file \<Rightarrow> u8 list \<Rightarrow>
    ('l, 'f, 'h) drivers \<Rightarrow> int \<times> ('l, 'f, 'h) drivers" where
  "s_lfs_write L c File buf x =
     (let x = MUTEX_LOCK (lc_pMutex c) x;
          (r, x) = call_lfs (lfs_file_write L (lc_lfs c) (vf_file File) buf) x;
          err = lfs_toerror r;
          x = MUTEX_UNLOCK (lc_pMutex c) x
      in (err, x))"

definition s_lfs_read :: "'l lfs_api \<Rightarrow> lfs_context \<Rightarrow> vfs_file \<Rightarrow> nat \<Rightarrow>
    ('l, 'f, 'h) drivers \<Rightarrow> int \<times> u8 list \<times> ('l, 'f, 'h) drivers" where
  "s_lfs_read L c File n x =
     (let x = MUTEX_LOCK (lc_pMutex c) x;
          (r, data, l) = lfs_file_read L (lc_lfs c) (vf_file File) n (lfs_world x);
          x = x\<lparr>lfs_world := l\<rparr>;
          err = lfs_toerror r;
          x = MUTEX_UNLOCK (lc_pMutex c) x
      in (err, data, x))"

definition s_lfs_seek :: "'l lfs_api \<Rightarrow> lfs_context \<Rightarrow> vfs_file \<Rightarrow> int \<Rightarrow> int \<Rightarrow>
    ('l, 'f, 'h) drivers \<Rightarrow> int \<times> ('l, 'f, 'h) drivers" where
  "s_lfs_seek L c File pos whence x =
     (let x = MUTEX_LOCK (lc_pMutex c) x;
          (r, x) = call_lfs (lfs_file_seek L (lc_lfs c) (vf_file File) pos whence) x;
          err = lfs_toerror r;
          x = MUTEX_UNLOCK (lc_pMutex c) x
      in (err, x))"

definition s_lfs_mkdir :: "'l lfs_api \<Rightarrow> lfs_context \<Rightarrow> vfs_file \<Rightarrow> string \<Rightarrow> u32 \<Rightarrow>
    ('l, 'f, 'h) drivers \<Rightarrow> int \<times> ('l, 'f, 'h) drivers" where
  "s_lfs_mkdir L c File name mode x =
     (let x = MUTEX_LOCK (lc_pMutex c) x;
          (r, x) = call_lfs (lfs_mkdir L (lc_lfs c) name) x;
          err = lfs_toerror r;
          x = MUTEX_UNLOCK (lc_pMutex c) x
      in (err, x))"

text \<open>The table; nothing calls its \<open>mkdir\<close>, which the table type leaves out.\<close>

definition lfs_oper :: "'h allocator \<Rightarrow> 'l lfs_api \<Rightarrow> lfs_context \<Rightarrow> ('l, 'f, 'h) drivers vfs_oper" where
  "lfs_oper M L c = \<lparr>op_init = None, op_mount = Some (s_lfs_mount L c), op_unmount = Some s_lfs_unmount,
     op_open = Some (s_lfs_open M L c), op_close = Some (s_lfs_close M L c), op_write = Some (s_lfs_write L c),
     op_read = Some (s_lfs_read L c), op_seek = Some (s_lfs_seek L c)\<rparr>"

section \<open>FatFs\<close>

datatype FRESULT = FR_OK | FR_DISK_ERR | FR_INT_ERR | FR_NOT_READY | FR_NO_FILE | FR_NO_PATH
  | FR_INVALID_NAME | FR_DENIED | FR_EXIST | FR_INVALID_OBJECT | FR_WRITE_PROTECTED | FR_INVALID_DRIVE
  | FR_NOT_ENABLED | FR_NO_FILESYSTEM | FR_MKFS_ABORTED | FR_TIMEOUT | FR_LOCKED | FR_NOT_ENOUGH_CORE
  | FR_TOO_MANY_OPEN_FILES | FR_INVALID_PARAMETER

text \<open>Writing and reading also return the number of bytes, \<open>f_tell\<close> and \<open>f_size\<close> read the file object.\<close>

record 'f fat_api =
  f_mount :: "string \<Rightarrow> 'f \<Rightarrow> FRESULT \<times> 'f"
  f_unmount :: "string \<Rightarrow> 'f \<Rightarrow> FRESULT \<times> 'f"
  f_open :: "nat \<Rightarrow> string \<Rightarrow> u8 \<Rightarrow> 'f \<Rightarrow> FRESULT \<times> 'f"
  f_close :: "nat \<Rightarrow> 'f \<Rightarrow> FRESULT \<times> 'f"
  f_write :: "nat \<Rightarrow> u8 list \<Rightarrow> 'f \<Rightarrow> FRESULT \<times> u32 \<times> 'f"
  f_read :: "nat \<Rightarrow> nat \<Rightarrow> 'f \<Rightarrow> FRESULT \<times> u8 list \<times> 'f"
  f_lseek :: "nat \<Rightarrow> u32 \<Rightarrow> 'f \<Rightarrow> FRESULT \<times> 'f"
  f_tell :: "nat \<Rightarrow> 'f \<Rightarrow> u32"
  f_size :: "nat \<Rightarrow> 'f \<Rightarrow> u32"

fun ffs_toerror :: "FRESULT \<Rightarrow> int" where
  "ffs_toerror FR_DISK_ERR = - EIO"
| "ffs_toerror FR_INT_ERR = - EIO"
| "ffs_toerror FR_NOT_READY = - ENODEV"
| "ffs_toerror FR_NO_FILE = - ENOENT"
| "ffs_toerror FR_NO_PATH = - ENOENT"
| "ffs_toerror FR_INVALID_NAME = - EINVAL"
| "ffs_toerror FR_DENIED = - EACCES"
| "ffs_toerror FR_EXIST = - EEXIST"
| "ffs_toerror FR_INVALID_OBJECT = - EBADF"
| "ffs_toerror FR_WRITE_PROTECTED = - EACCES"
| "ffs_toerror FR_INVALID_DRIVE = - ENXIO"
| "ffs_toerror FR_NOT_ENABLED = - ENODEV"
| "ffs_toerror FR_NO_FILESYSTEM = - ENODEV"
| "ffs_toerror FR_MKFS_ABORTED = - EINTR"
| "ffs_toerror FR_TIMEOUT = - ETIMEDOUT"
| "ffs_toerror FR_LOCKED = - EACCES"
| "ffs_toerror FR_NOT_ENOUGH_CORE = - ENOMEM"
| "ffs_toerror FR_TOO_MANY_OPEN_FILES = - ENFILE"
| "ffs_toerror FR_INVALID_PARAMETER = - EINVAL"
| "ffs_toerror FR_OK = 0"

definition FA_READ :: u32 where "FA_READ = 1"
definition FA_WRITE :: u32 where "FA_WRITE = 2"
definition FA_OPEN_EXISTING :: u32 where "FA_OPEN_EXISTING = 0"
definition FA_CREATE_NEW :: u32 where "FA_CREATE_NEW = 4"
definition FA_CREATE_ALWAYS :: u32 where "FA_CREATE_ALWAYS = 8"
definition FA_OPEN_ALWAYS :: u32 where "FA_OPEN_ALWAYS = 0x10"

definition ffs_tomode :: "u32 \<Rightarrow> u32" where
  "ffs_tomode mo =
     (let acc_mode = mo AND O_ACCMODE;
          res = (if acc_mode = O_RDONLY then 0 OR FA_READ
                 else if acc_mode = O_WRONLY then 0 OR FA_WRITE
                 else if acc_mode = O_RDWR then 0 OR (FA_READ OR FA_WRITE) else 0)
      in if mo AND O_CREAT \<noteq> 0 \<and> mo AND O_EXCL \<noteq> 0 then res OR FA_CREATE_NEW
         else if mo AND O_CREAT \<noteq> 0 \<and> mo AND O_TRUNC \<noteq> 0 then res OR FA_CREATE_ALWAYS
         else if mo AND O_APPEND \<noteq> 0 then res OR FA_OPEN_ALWAYS
         else res OR FA_OPEN_EXISTING)"

definition call_fat :: "('f \<Rightarrow> 'r \<times> 'f) \<Rightarrow> ('l, 'f, 'h) drivers \<Rightarrow> 'r \<times> ('l, 'f, 'h) drivers" where
  "call_fat g x = (let (r, w) = g (fat_world x) in (r, x\<lparr>fat_world := w\<rparr>))"

definition s_fatfs_mount :: "'f fat_api \<Rightarrow> nat \<Rightarrow> vfs_fs \<Rightarrow> ('l, 'f, 'h) drivers \<Rightarrow> int \<times> ('l, 'f, 'h) drivers" where
  "s_fatfs_mount F m Fs x =
     (let x = MUTEX_LOCK m x;
          (err, x) = call_fat (f_mount F (fs_name Fs)) x;
          x = MUTEX_UNLOCK m x
      in (ffs_toerror err, x))"

definition s_fatfs_unmount :: "'f fat_api \<Rightarrow> nat \<Rightarrow> vfs_fs \<Rightarrow> ('l, 'f, 'h) drivers \<Rightarrow> int \<times> ('l, 'f, 'h) drivers" where
  "s_fatfs_unmount F m Fs x =
     (let x = MUTEX_LOCK m x;
          (err, x) = call_fat (f_unmount F (fs_name Fs)) x;
          x = MUTEX_UNLOCK m x
      in (ffs_toerror err, x))"

definition s_fatfs_open :: "'h allocator \<Rightarrow> 'f fat_api \<Rightarrow> nat \<Rightarrow> vfs_fs \<Rightarrow> string \<Rightarrow> u32 \<Rightarrow> u32 \<Rightarrow>
    ('l, 'f, 'h) drivers \<Rightarrow> nat \<times> ('l, 'f, 'h) drivers" where
  "s_fatfs_open M F m Fs path flags mode x =
     (let (f, h) = a_malloc M (drv_heap x);
          x = x\<lparr>drv_heap := h\<rparr>
      in if f \<noteq> 0 then
           (let x = MUTEX_LOCK m x;
                (r, x) = call_fat (f_open F f path (ucast (ffs_tomode flags))) x;
                x = x\<lparr>drv_errno := ffs_toerror r\<rparr>;
                (f, x) = (if drv_errno x \<noteq> 0 then (0, x\<lparr>drv_heap := a_free M f (drv_heap x)\<rparr>) else (f, x));
                x = MUTEX_UNLOCK m x
            in (f, x))
         else (f, x\<lparr>drv_errno := ENOMEM\<rparr>))"

definition s_fatfs_close :: "'h allocator \<Rightarrow> 'f fat_api \<Rightarrow> nat \<Rightarrow> vfs_file \<Rightarrow>
    ('l, 'f, 'h) drivers \<Rightarrow> int \<times> ('l, 'f, 'h) drivers" where
  "s_fatfs_close M F m File x =
     (let x = MUTEX_LOCK m x;
          (err, x) = call_fat (f_close F (vf_file File)) x;
          x = x\<lparr>drv_heap := a_free M (vf_file File) (drv_heap x)\<rparr>;
          x = MUTEX_UNLOCK m x
      in (ffs_toerror err, x))"

text \<open>The count of bytes is unsigned; \<open>vfs_write\<close> and \<open>vfs_read\<close> keep it in an \<open>int\<close>.\<close>

definition s_fatfs_write :: "'f fat_api \<Rightarrow> nat \<Rightarrow> vfs_file \<Rightarrow> u8 list \<Rightarrow>
    ('l, 'f, 'h) drivers \<Rightarrow> int \<times> ('l, 'f, 'h) drivers" where
  "s_fatfs_write F m File buf x =
     (let x = MUTEX_LOCK m x;
          ((err, wr), x) = call_fat (\<lambda>w. case f_write F (vf_file File) buf w of (r, n, w) \<Rightarrow> ((r, n), w)) x;
          x = MUTEX_UNLOCK m x
      in if wr \<noteq> 0 then (sint wr, x) else (ffs_toerror err, x))"

definition s_fatfs_read :: "'f fat_api \<Rightarrow> nat \<Rightarrow> vfs_file \<Rightarrow> nat \<Rightarrow>
    ('l, 'f, 'h) drivers \<Rightarrow> int \<times> u8 list \<times> ('l, 'f, 'h) drivers" where
  "s_fatfs_read F m File n x =
     (let x = MUTEX_LOCK m x;
          ((err, data), x) = call_fat (\<lambda>w. case f_read F (vf_file File) n w of (r, d, w) \<Rightarrow> ((r, d), w)) x;
          rd = (of_nat (length data) :: u32);
          x = MUTEX_UNLOCK m x
      in if rd \<noteq> 0 then (sint rd, data, x) else (ffs_toerror err, data, x))"

text \<open>\<open>off_t\<close> is a signed 32-bit number; sums are taken as the machine forms them.\<close>

definition s_fatfs_seek :: "'f fat_api \<Rightarrow> nat \<Rightarrow> vfs_file \<Rightarrow> int \<Rightarrow> int \<Rightarrow>
    ('l, 'f, 'h) drivers \<Rightarrow> int \<times> ('l, 'f, 'h) drivers" where
  "s_fatfs_seek F m File offset mode x =
     (let cur = f_tell F (vf_file File) (fat_world x);
          sz = f_size F (vf_file File) (fat_world x);
          new_pos = (if mode = 0 then Some (of_int offset)
                     else if mode = 1 then Some (cur + of_int offset)
                     else if mode = 2 then Some (sz + of_int offset) else None)
      in case new_pos of
           None \<Rightarrow> (- 1, x)
         | Some p \<Rightarrow>
             (let x = MUTEX_LOCK m x;
                  (err, x) = call_fat (f_lseek F (vf_file File) p) x;
                  x = MUTEX_UNLOCK m x
              in if err \<noteq> FR_OK then (ffs_toerror err, x) else (sint p, x)))"

definition fatfs_oper :: "'h allocator \<Rightarrow> 'f fat_api \<Rightarrow> nat \<Rightarrow> ('l, 'f, 'h) drivers vfs_oper" where
  "fatfs_oper M F m = \<lparr>op_init = None, op_mount = Some (s_fatfs_mount F m), op_unmount = Some (s_fatfs_unmount F m),
     op_open = Some (s_fatfs_open M F m), op_close = Some (s_fatfs_close M F m), op_write = Some (s_fatfs_write F m),
     op_read = Some (s_fatfs_read F m), op_seek = Some (s_fatfs_seek F m)\<rparr>"

section \<open>The drives of the template configuration\<close>

text \<open>The static contexts, at addresses of their own, and the tables they begin with.\<close>

definition lfs_ram_ctx :: nat where "lfs_ram_ctx = 1"
definition lfs_rom_ctx :: nat where "lfs_rom_ctx = 2"
definition fatfs_ctx :: nat where "fatfs_ctx = 3"

definition ctx_oper :: "'h allocator \<Rightarrow> 'l lfs_api \<Rightarrow> 'f fat_api \<Rightarrow> nat \<Rightarrow> ('l, 'f, 'h) drivers vfs_oper option" where
  "ctx_oper M L F ctx =
     (if ctx = lfs_ram_ctx then Some (lfs_oper M L \<lparr>lc_lfs = 1, lc_pMutex = 1\<rparr>)
      else if ctx = lfs_rom_ctx then Some (lfs_oper M L \<lparr>lc_lfs = 2, lc_pMutex = 2\<rparr>)
      else if ctx = fatfs_ctx then Some (fatfs_oper M F 3)
      else None)"

definition lfs_init :: "'h allocator \<Rightarrow> (nat \<Rightarrow> 'x vfs_oper option) \<Rightarrow> ('x, 'h) vfs_state \<Rightarrow> (int \<times> ('x, 'h) vfs_state) option" where
  "lfs_init M OP s = do {
     (err, s) \<leftarrow> vfs_mount M OP (Some ''R:'') lfs_ram_ctx s;
     if err \<noteq> 0 then Some (err, s)
     else do {
       (err, s) \<leftarrow> vfs_mount M OP (Some ''F:'') lfs_rom_ctx s;
       Some (err, s) } }"

definition fatfs_init :: "'h allocator \<Rightarrow> (nat \<Rightarrow> 'x vfs_oper option) \<Rightarrow> ('x, 'h) vfs_state \<Rightarrow> (int \<times> ('x, 'h) vfs_state) option" where
  "fatfs_init M OP s = vfs_mount M OP (Some ''0:'') fatfs_ctx s"

definition vfs_init :: "'h allocator \<Rightarrow> (nat \<Rightarrow> 'x vfs_oper option) \<Rightarrow> ('x, 'h) vfs_state \<Rightarrow> (int \<times> ('x, 'h) vfs_state) option" where
  "vfs_init M OP s = do {
     (err, s) \<leftarrow> lfs_init M OP s;
     if err \<noteq> 0 then Some (err, s) else fatfs_init M OP s }"

section \<open>Properties\<close>

text \<open>Both tables have a close operation, which the lemmas on runs ask for.\<close>

lemma ctx_oper_close: "\<forall>ctx op. ctx_oper M L F ctx = Some op \<longrightarrow> op_close op \<noteq> None"
  by (auto simp: ctx_oper_def lfs_oper_def fatfs_oper_def)

lemma ctx_oper_cases:
  "ctx_oper M L F ctx = Some op \<Longrightarrow>
   op = fatfs_oper M F 3 \<and> ctx = fatfs_ctx \<or> op = lfs_oper M L \<lparr>lc_lfs = ctx, lc_pMutex = ctx\<rparr> \<and> ctx \<noteq> fatfs_ctx"
  by (auto simp: ctx_oper_def lfs_ram_ctx_def lfs_rom_ctx_def fatfs_ctx_def split: if_splits)

text \<open>What the drivers leave of the shared state after a library call under their mutex.\<close>

definition lfs_done :: "nat \<Rightarrow> 'l \<Rightarrow> ('l, 'f, 'h) drivers \<Rightarrow> ('l, 'f, 'h) drivers" where
  "lfs_done m l x = x\<lparr>lfs_world := l, drv_locked := (drv_locked x)(m := False)\<rparr>"

definition fat_done :: "'f \<Rightarrow> ('l, 'f, 'h) drivers \<Rightarrow> ('l, 'f, 'h) drivers" where
  "fat_done w x = x\<lparr>fat_world := w, drv_locked := (drv_locked x)(3 := False)\<rparr>"

lemma s_lfs_write_result:
  "s_lfs_write L c File buf x =
     (case lfs_file_write L (lc_lfs c) (vf_file File) buf (lfs_world x) of
        (r, l) \<Rightarrow> (lfs_toerror r, lfs_done (lc_pMutex c) l x))"
  by (auto simp: s_lfs_write_def call_lfs_def MUTEX_LOCK_def MUTEX_UNLOCK_def lfs_done_def Let_def
      split: prod.splits)

lemma s_fatfs_write_result:
  "s_fatfs_write F 3 File buf x =
     (case f_write F (vf_file File) buf (fat_world x) of
        (r, n, w) \<Rightarrow> (if n \<noteq> 0 then sint n else ffs_toerror r, fat_done w x))"
  by (auto simp: s_fatfs_write_def call_fat_def MUTEX_LOCK_def MUTEX_UNLOCK_def fat_done_def Let_def
      split: prod.splits)

text \<open>
  C17. A \<open>write\<close> of the C library to an open descriptor becomes one write of the file system
  library that holds the drive of the file's path, on the file that library opened, with the
  same bytes: littlefs for \<open>R:\<close> and \<open>F:\<close>, FatFs for \<open>0:\<close>. The result is its count or its
  error as a C library error number, which is also put into \<open>errno\<close>; the mutex of the drive is
  free afterwards and nothing else changes. This holds in every run of mounts, unmounts, opens,
  closes and transfers.
\<close>

theorem write_reaches_library:
  assumes run: "vfs_run M (ctx_oper M' L F) s G" and o: "G fd = Some (p, fs, h)" and b: "buf \<noteq> []"
  shows "\<exists>Fs. vfs_drives s fs = Some Fs \<and> hd (fs_name Fs) = hd p \<and>
    write_r (ctx_oper M' L F) tty fd (Some buf) s =
      Some (if fs_ctx Fs = fatfs_ctx
            then (case f_write F h buf (fat_world (driver_state s)) of
                    (r, n, w) \<Rightarrow> (let e = (if n \<noteq> 0 then sint n else ffs_toerror r)
                      in (Some (errno_of e), e, s\<lparr>driver_state := fat_done w (driver_state s)\<rparr>)))
            else (case lfs_file_write L (fs_ctx Fs) h buf (lfs_world (driver_state s)) of
                    (r, l) \<Rightarrow> (let e = lfs_toerror r
                      in (Some (errno_of e), e, s\<lparr>driver_state := lfs_done (fs_ctx Fs) l (driver_state s)\<rparr>))))"
proof -
  have t: "table_ok (ctx_oper M' L F) s G"
    by (rule vfs_run_table [OF ctx_oper_close run])
  obtain Fs op where op: "vfs_drives s fs = Some Fs" "hd (fs_name Fs) = hd p"
      "ctx_oper M' L F (fs_ctx Fs) = Some op"
      "vfs_file_oper (ctx_oper M' L F) fd s = Some (Some (nat (fd - 3), entry fd (p, fs, h), Some op))"
    using oper_of_open [OF t o] by blast
  have "fd > 2"
    using t o unfolding table_ok_def by force
  then have "write_r (ctx_oper M' L F) tty fd (Some buf) s =
      do { (err, s) \<leftarrow> vfs_write (ctx_oper M' L F) fd buf s; Some (Some (errno_of err), err, s) }"
    using b by (simp add: write_r_def isatty_def)
  then show ?thesis
    using op ctx_oper_cases [OF op(3)]
    by (intro exI [of _ Fs])
      (auto simp: vfs_write_def fatfs_oper_def lfs_oper_def s_lfs_write_result s_fatfs_write_result Let_def
        split: prod.splits)
qed

text \<open>
  A failed \<open>open\<close> loses its reason: whatever error the driver met, and also when a path
  names no drive or is open already or the table is full, the result is - 1 and \<open>errno\<close> becomes
  1, \<open>EPERM\<close>.
\<close>

theorem open_error_is_lost:
  assumes "open_r OP (Some p) flags mode s = Some (e, r, s')" and "r < 0"
  shows "e = 1 \<and> r = - 1"
proof -
  have v: "vfs_open OP (Some p) flags mode s = Some (r, s')" "e = errno_of r"
    using assms(1) by (auto simp: open_r_def bind_eq_Some_conv)
  then have "r = - 1"
    using open_effect [OF v(1)] assms(2) by auto
  then show ?thesis
    using v(2) by (simp add: errno_of_def)
qed

text \<open>The modes FatFs gets: creation needs a second flag, and appending starts at the beginning.\<close>

lemma ffs_tomode_surprises:
  "ffs_tomode (O_WRONLY OR O_CREAT) = FA_WRITE OR FA_OPEN_EXISTING"
  "ffs_tomode (O_WRONLY OR O_CREAT OR O_APPEND) = FA_WRITE OR FA_OPEN_ALWAYS"
  by (simp_all add: ffs_tomode_def O_WRONLY_def O_CREAT_def O_APPEND_def O_ACCMODE_def O_RDONLY_def O_EXCL_def
      O_TRUNC_def FA_WRITE_def FA_OPEN_EXISTING_def FA_OPEN_ALWAYS_def)

end
