(* ===== verification/Vfs_List.thy ===== *)
theory Vfs_List
  imports Vfs_Drivers
begin

text \<open>
  The list of drives: mounting appends a node, looking a path up finds the drive with its
  letter, and the start-up code mounts the three drives of the template configuration.
\<close>

section \<open>The shape of the list\<close>









section \<open>Looking up\<close>



section \<open>Mounting\<close>






section \<open>Start-up\<close>






section \<open>A concrete machine\<close>

text \<open>File system libraries that keep one file, and a machine with memory counted upwards.\<close>

definition demo_lfs :: "u8 list lfs_api" where
  "demo_lfs = \<lparr>lfs_mount = (\<lambda>_ l. (0, l)), lfs_format = (\<lambda>_ l. (0, l)), lfs_file_open = (\<lambda>_ _ _ _ l. (0, l)),
     lfs_file_close = (\<lambda>_ _ l. (0, l)), lfs_file_write = (\<lambda>_ _ b l. (int (length b), l @ b)),
     lfs_file_read = (\<lambda>_ _ n l. (int (min n (length l)), take n l, drop n l)),
     lfs_file_seek = (\<lambda>_ _ p _ l. (p, l)), lfs_mkdir = (\<lambda>_ _ l. (0, l))\<rparr>"

definition demo_fat :: "u8 list fat_api" where
  "demo_fat = \<lparr>f_mount = (\<lambda>_ w. (FR_OK, w)), f_unmount = (\<lambda>_ w. (FR_OK, w)), f_open = (\<lambda>_ _ _ w. (FR_OK, w)),
     f_close = (\<lambda>_ w. (FR_OK, w)), f_write = (\<lambda>_ b w. (FR_OK, of_nat (length b), w @ b)),
     f_read = (\<lambda>_ n w. (FR_OK, take n w, drop n w)), f_lseek = (\<lambda>_ _ w. (FR_OK, w)),
     f_tell = (\<lambda>_ _. 0), f_size = (\<lambda>_ w. of_nat (length w))\<rparr>"

definition demo_disk :: "((u8 list, u8 list, nat) drivers, nat) vfs_state" where
  "demo_disk = \<lparr>vfs_open_files = replicate 4 no_file, list_head = 0, list_tail = 0, vfs_nodes = Map.empty,
     vfs_drives = Map.empty, driver_state = \<lparr>lfs_world = [], fat_world = [], drv_heap = 1, drv_errno = 0,
       drv_locked = (\<lambda>_. False)\<rparr>, vfs_heap = 1\<rparr>"

definition demo_disk_mounted :: "((u8 list, u8 list, nat) drivers, nat) vfs_state" where
  "demo_disk_mounted = demo_disk\<lparr>list_head := 2, vfs_nodes := [2 \<mapsto> \<lparr>node_fs = 1, node_prev = 0, node_next = 0\<rparr>],
     vfs_drives := [1 \<mapsto> \<lparr>fs_ctx = lfs_ram_ctx, fs_name = drive_name ''R:''\<rparr>], vfs_heap := 3\<rparr>"

definition demo_disk_opened :: "((u8 list, u8 list, nat) drivers, nat) vfs_state" where
  "demo_disk_opened = demo_disk_mounted\<lparr>vfs_open_files := (replicate 4 no_file)[0 := entry 3 (''R:/f'', 1, 1)],
     driver_state := (driver_state demo_disk)\<lparr>drv_heap := 2\<rparr>\<rparr>"

lemma locked_idem: "(\<lambda>a. if a = m then False else (((\<lambda>_. False) :: nat \<Rightarrow> bool)(m := True)) a) = (\<lambda>_. False)"
  "((\<lambda>_. False) :: nat \<Rightarrow> bool)(m := False) = (\<lambda>_. False)"
  by auto

lemma demo_disk_mount:
  "vfs_mount demo_alloc (ctx_oper demo_alloc demo_lfs demo_fat) (Some ''R:'') lfs_ram_ctx demo_disk = Some (0, demo_disk_mounted)"
  by (simp add: vfs_mount_def vfs_add_fs_def list_get_def is_valid_dev_def list_get_from.simps list_add_def
      create_node_def demo_disk_def demo_disk_mounted_def demo_alloc_def ctx_oper_def lfs_oper_def s_lfs_mount_def
      call_lfs_def demo_lfs_def MUTEX_LOCK_def MUTEX_UNLOCK_def lfs_toerror_def lfs_ram_ctx_def numeral_2_eq_2
      locked_idem)

lemma demo_disk_open:
  "vfs_open (ctx_oper demo_alloc demo_lfs demo_fat) (Some ''R:/f'') 0 0 demo_disk_mounted = Some (3, demo_disk_opened)"
  by (simp add: vfs_open_def vfs_file_is_open_def vfs_get_fs_def list_get_def is_valid_dev_def
      list_get_from.simps drive_name_def vfs_file_get_free_index_def no_file_def entry_def
      demo_disk_def demo_disk_mounted_def demo_disk_opened_def numeral_eq_Suc demo_alloc_def ctx_oper_def
      lfs_oper_def s_lfs_open_def call_lfs_def demo_lfs_def MUTEX_LOCK_def MUTEX_UNLOCK_def lfs_toerror_def
      lfs_ram_ctx_def locked_idem)

lemma demo_disk_run:
  "vfs_run demo_alloc (ctx_oper demo_alloc demo_lfs demo_fat) demo_disk_opened [3 \<mapsto> (''R:/f'', 1, 1)]"
proof -
  have "vfs_create_list demo_disk = demo_disk"
    by (simp add: vfs_create_list_def demo_disk_def)
  then have "vfs_run demo_alloc (ctx_oper demo_alloc demo_lfs demo_fat) demo_disk (\<lambda>_. None)"
    using run_start [of demo_disk demo_alloc "ctx_oper demo_alloc demo_lfs demo_fat"] by (simp add: demo_disk_def)
  then have "vfs_run demo_alloc (ctx_oper demo_alloc demo_lfs demo_fat) demo_disk_mounted (\<lambda>_. None)"
    by (rule run_mount [OF _ _ demo_disk_mount]) (simp add: demo_disk_def)
  then show ?thesis
    by (rule run_open [OF _ _ _ _ _ _ demo_disk_open,
          where Fs = "\<lparr>fs_ctx = lfs_ram_ctx, fs_name = drive_name ''R:''\<rparr>" and op = "lfs_oper demo_alloc demo_lfs \<lparr>lc_lfs = 1, lc_pMutex = 1\<rparr>"
            and f = "s_lfs_open demo_alloc demo_lfs \<lparr>lc_lfs = 1, lc_pMutex = 1\<rparr>"])
      (simp_all add: vfs_get_fs_def list_get_def is_valid_dev_def list_get_from.simps drive_name_def
        demo_disk_def demo_disk_mounted_def ctx_oper_def lfs_oper_def s_lfs_open_def call_lfs_def demo_lfs_def
        demo_alloc_def MUTEX_LOCK_def MUTEX_UNLOCK_def lfs_toerror_def)
qed

theorem write_reaches_library_witness:
  "map_option (\<lambda>(e, r, s). (e, r, lfs_world (driver_state s)))
     (write_r (ctx_oper demo_alloc demo_lfs demo_fat) None 3 (Some [1, 2]) demo_disk_opened) = Some (Some 0, 2, [1, 2])"
  using write_reaches_library [OF demo_disk_run, of 3 "''R:/f''" 1 1 "[1, 2]" None]
  by (auto simp: demo_disk_opened_def demo_disk_mounted_def demo_disk_def demo_lfs_def lfs_ram_ctx_def fatfs_ctx_def
      lfs_done_def lfs_toerror_def errno_of_def Let_def)

theorem open_error_is_lost_witness:
  "\<exists>s'. open_r (ctx_oper demo_alloc demo_lfs demo_fat) (Some ''Z:/f'') 0 0 demo_disk_mounted = Some (1, - 1, s')"
proof -
  have "vfs_open (ctx_oper demo_alloc demo_lfs demo_fat) (Some ''Z:/f'') 0 0 demo_disk_mounted = Some (- 1, demo_disk_mounted)"
    by (simp add: vfs_open_def vfs_file_is_open_def vfs_get_fs_def list_get_def is_valid_dev_def
        list_get_from.simps drive_name_def no_file_def demo_disk_def demo_disk_mounted_def)
  then have "open_r (ctx_oper demo_alloc demo_lfs demo_fat) (Some ''Z:/f'') 0 0 demo_disk_mounted =
      Some (errno_of (- 1), - 1, demo_disk_mounted)"
    by (simp add: open_r_def)
  with open_error_is_lost [OF this] show ?thesis
    by simp
qed


end
