(* ===== verification/Spi.thy ===== *)
theory Spi
  imports Prelude
begin

text \<open>
  The SPI driver (\<open>SDK/hardware/spi.c\<close> and the inline functions of
  \<open>SDK/include/hardware/spi.h\<close>). The registers of the block are hardware: the parameter \<open>D\<close>
  reads and writes them, time may pass at every access. \<open>hz\<close> is \<open>clock_get_hz(clk_peri)\<close>.
  A wait loop whose bit never shows does not return: \<open>None\<close>. The data of a transfer is a list;
  the check that its length is below \<open>2 ^ 31\<close> always holds in this memory.
\<close>

section \<open>Registers\<close>

datatype SPI = spi0 | spi1

datatype spi_reg = SPI_CR0 | SPI_CR1 | SPI_DR | SPI_SR | SPI_CPSR | SPI_ICR | SPI_DMACR
  | RESETS_RESET | RESETS_RESET_DONE

record 'd spi_dev =
  spi_rd :: "spi_reg \<Rightarrow> 'd \<Rightarrow> u32 \<times> 'd"
  spi_wr :: "spi_reg \<Rightarrow> u32 \<Rightarrow> 'd \<Rightarrow> 'd"
  spi_hw_set :: "spi_reg \<Rightarrow> u32 \<Rightarrow> 'd \<Rightarrow> 'd"
  spi_hw_clear :: "spi_reg \<Rightarrow> u32 \<Rightarrow> 'd \<Rightarrow> 'd"
  spi_hw_xor :: "spi_reg \<Rightarrow> u32 \<Rightarrow> 'd \<Rightarrow> 'd"

definition hw_write_masked :: "'d spi_dev \<Rightarrow> spi_reg \<Rightarrow> u32 \<Rightarrow> u32 \<Rightarrow> 'd \<Rightarrow> 'd" where
  "hw_write_masked D r vals write_mask d =
     (let (v, d) = spi_rd D r d in spi_hw_xor D r ((v XOR vals) AND write_mask) d)"

definition spi_is_writable :: "'d spi_dev \<Rightarrow> 'd \<Rightarrow> bool \<times> 'd" where
  "spi_is_writable D d = (let (v, d) = spi_rd D SPI_SR d in (v AND 0x00000002 \<noteq> 0, d))"

definition spi_is_readable :: "'d spi_dev \<Rightarrow> 'd \<Rightarrow> bool \<times> 'd" where
  "spi_is_readable D d = (let (v, d) = spi_rd D SPI_SR d in (v AND 0x00000004 \<noteq> 0, d))"

definition spi_is_busy :: "'d spi_dev \<Rightarrow> 'd \<Rightarrow> bool \<times> 'd" where
  "spi_is_busy D d = (let (v, d) = spi_rd D SPI_SR d in (v AND 0x00000010 \<noteq> 0, d))"

section \<open>Set-up\<close>

definition reset_bits :: "SPI \<Rightarrow> u32" where
  "reset_bits spi = (if spi = spi0 then 0x00010000 else 0x00020000)"

definition spi_reset :: "'d spi_dev \<Rightarrow> SPI \<Rightarrow> 'd \<Rightarrow> 'd" where
  "spi_reset D spi d = spi_hw_set D RESETS_RESET (reset_bits spi) d"

partial_function (option) wait_reset_done :: "'d spi_dev \<Rightarrow> u32 \<Rightarrow> 'd \<Rightarrow> 'd option" where
  "wait_reset_done D bits d =
     (let (v, d) = spi_rd D RESETS_RESET_DONE d in
      if NOT v AND bits \<noteq> 0 then wait_reset_done D bits d else Some d)"

definition spi_unreset :: "'d spi_dev \<Rightarrow> SPI \<Rightarrow> 'd \<Rightarrow> 'd option" where
  "spi_unreset D spi d = wait_reset_done D (reset_bits spi) (spi_hw_clear D RESETS_RESET (reset_bits spi) d)"

text \<open>None of the products of the two loops leaves its type.\<close>

function prescale_loop :: "nat \<Rightarrow> nat \<Rightarrow> nat \<Rightarrow> nat" where
  "prescale_loop freq_in baudrate prescale =
     (if prescale \<le> 254 then
        if freq_in < (prescale + 2) * 256 * baudrate then prescale
        else prescale_loop freq_in baudrate (prescale + 2)
      else prescale)"
  by pat_completeness auto
termination by (relation "measure (\<lambda>(_, _, p). 256 - p)") auto

declare prescale_loop.simps [simp del]

fun postdiv_loop :: "nat \<Rightarrow> nat \<Rightarrow> nat \<Rightarrow> nat \<Rightarrow> nat" where
  "postdiv_loop freq_in baudrate prescale (Suc (Suc p)) =
     (if freq_in div (prescale * Suc p) > baudrate then Suc (Suc p)
      else postdiv_loop freq_in baudrate prescale (Suc p))"
| "postdiv_loop freq_in baudrate prescale postdiv = postdiv"

definition spi_set_baudrate :: "'d spi_dev \<Rightarrow> u32 \<Rightarrow> u32 \<Rightarrow> 'd \<Rightarrow> (u32 \<times> 'd) option" where
  "spi_set_baudrate D hz baudrate d = do {
     let freq_in = unat hz;
     c_assert (\<not> unat baudrate > freq_in);
     let prescale = prescale_loop freq_in (unat baudrate) 2;
     c_assert (\<not> prescale > 254);
     let postdiv = postdiv_loop freq_in (unat baudrate) prescale 256;
     let d = spi_wr D SPI_CPSR (of_nat prescale) d;
     let d = hw_write_masked D SPI_CR0 (push_bit 8 (of_nat (postdiv - 1))) 0x0000ff00 d;
     Some (of_nat (freq_in div (prescale * postdiv)), d) }"

text \<open>A divider of 0, as at reset, stops the division.\<close>

definition spi_get_baudrate :: "'d spi_dev \<Rightarrow> u32 \<Rightarrow> 'd \<Rightarrow> (u32 \<times> 'd) option" where
  "spi_get_baudrate D hz d = do {
     let (prescale, d) = spi_rd D SPI_CPSR d;
     let (v, d) = spi_rd D SPI_CR0 d;
     let postdiv = drop_bit 8 (v AND 0x0000ff00) + 1;
     c_assert (prescale * postdiv \<noteq> 0);
     Some (hz div (prescale * postdiv), d) }"

definition spi_set_format :: "'d spi_dev \<Rightarrow> nat \<Rightarrow> nat \<Rightarrow> nat \<Rightarrow> nat \<Rightarrow> 'd \<Rightarrow> 'd option" where
  "spi_set_format D data_bits cpol cpha order d = do {
     c_assert (\<not> (data_bits < 4 \<or> data_bits > 16));
     c_assert (\<not> order \<noteq> 1);
     c_assert (\<not> (cpol \<noteq> 0 \<and> cpol \<noteq> 1));
     c_assert (\<not> (cpha \<noteq> 0 \<and> cpha \<noteq> 1));
     Some (hw_write_masked D SPI_CR0
       (push_bit 0 (of_nat (data_bits - 1)) OR push_bit 6 (of_nat cpol) OR push_bit 7 (of_nat cpha))
       (0x0000000f OR 0x00000040 OR 0x00000080) d) }"

definition spi_set_slave :: "'d spi_dev \<Rightarrow> bool \<Rightarrow> 'd \<Rightarrow> 'd" where
  "spi_set_slave D slave d =
     (if slave then spi_hw_set D SPI_CR1 0x00000004 d else spi_hw_clear D SPI_CR1 0x00000004 d)"

definition spi_init :: "'d spi_dev \<Rightarrow> SPI \<Rightarrow> u32 \<Rightarrow> u32 \<Rightarrow> 'd \<Rightarrow> (u32 \<times> 'd) option" where
  "spi_init D spi hz baudrate d = do {
     let d = spi_reset D spi d;
     d \<leftarrow> spi_unreset D spi d;
     (baud, d) \<leftarrow> spi_set_baudrate D hz baudrate d;
     d \<leftarrow> spi_set_format D 8 0 0 1 d;
     let d = spi_hw_set D SPI_DMACR (0x00000002 OR 0x00000001) d;
     let d = spi_hw_set D SPI_CR1 0x00000002 d;
     Some (baud, d) }"

definition spi_deinit :: "'d spi_dev \<Rightarrow> SPI \<Rightarrow> 'd \<Rightarrow> 'd" where
  "spi_deinit D spi d =
     (let d = spi_hw_clear D SPI_CR1 0x00000002 d;
          d = spi_hw_clear D SPI_DMACR (0x00000002 OR 0x00000001) d
      in spi_reset D spi d)"

section \<open>Transfers\<close>

text \<open>
  The loop of the transfers that read: \<open>src\<close> is what is still to be written, \<open>rx_remaining\<close> the
  number of frames still to be read, \<open>dst\<close> what has been read. Each test of the status register
  is made only when the test before it holds.
\<close>

abbreviation "fifo_depth \<equiv> 8 :: nat"

definition transfer_put :: "'d spi_dev \<Rightarrow> u32 list \<Rightarrow> nat \<Rightarrow> 'd \<Rightarrow> u32 list \<times> 'd" where
  "transfer_put D src rx_remaining d =
     (case src of
        [] \<Rightarrow> (src, d)
      | v # src' \<Rightarrow>
          (let (w, d) = spi_is_writable D d in
           if w \<and> rx_remaining < length src + fifo_depth then (src', spi_wr D SPI_DR v d) else (src, d)))"

definition transfer_get :: "'d spi_dev \<Rightarrow> nat \<Rightarrow> u32 list \<Rightarrow> 'd \<Rightarrow> nat \<times> u32 list \<times> 'd" where
  "transfer_get D rx_remaining dst d =
     (if rx_remaining \<noteq> 0 then
        (let (r, d) = spi_is_readable D d in
         if r then (let (v, d) = spi_rd D SPI_DR d in (rx_remaining - 1, dst @ [v], d))
         else (rx_remaining, dst, d))
      else (rx_remaining, dst, d))"

partial_function (option) transfer_loop ::
    "'d spi_dev \<Rightarrow> u32 list \<Rightarrow> nat \<Rightarrow> u32 list \<Rightarrow> 'd \<Rightarrow> (u32 list \<times> 'd) option" where
  "transfer_loop D src rx_remaining dst d =
     (if rx_remaining = 0 \<and> src = [] then Some (dst, d)
      else
        (let (src, d) = transfer_put D src rx_remaining d;
             (rx_remaining, dst, d) = transfer_get D rx_remaining dst d
         in transfer_loop D src rx_remaining dst d))"

definition spi_write_read_blocking :: "'d spi_dev \<Rightarrow> u8 list \<Rightarrow> 'd \<Rightarrow> (u8 list \<times> 'd) option" where
  "spi_write_read_blocking D src d = do {
     (dst, d) \<leftarrow> transfer_loop D (map ucast src) (length src) [] d;
     Some (map ucast dst, d) }"

definition spi_read_blocking :: "'d spi_dev \<Rightarrow> u8 \<Rightarrow> nat \<Rightarrow> 'd \<Rightarrow> (u8 list \<times> 'd) option" where
  "spi_read_blocking D repeated_tx_data len d = do {
     (dst, d) \<leftarrow> transfer_loop D (replicate len (ucast repeated_tx_data)) len [] d;
     Some (map ucast dst, d) }"

definition spi_write16_read16_blocking :: "'d spi_dev \<Rightarrow> u16 list \<Rightarrow> 'd \<Rightarrow> (u16 list \<times> 'd) option" where
  "spi_write16_read16_blocking D src d = do {
     (dst, d) \<leftarrow> transfer_loop D (map ucast src) (length src) [] d;
     Some (map ucast dst, d) }"

definition spi_read16_blocking :: "'d spi_dev \<Rightarrow> u16 \<Rightarrow> nat \<Rightarrow> 'd \<Rightarrow> (u16 list \<times> 'd) option" where
  "spi_read16_blocking D repeated_tx_data len d = do {
     (dst, d) \<leftarrow> transfer_loop D (replicate len (ucast repeated_tx_data)) len [] d;
     Some (map ucast dst, d) }"

text \<open>Writing only: what comes back may overflow the receive FIFO and is thrown away.\<close>

partial_function (option) wait_writable :: "'d spi_dev \<Rightarrow> 'd \<Rightarrow> 'd option" where
  "wait_writable D d = (let (w, d) = spi_is_writable D d in if \<not> w then wait_writable D d else Some d)"

fun write_loop :: "'d spi_dev \<Rightarrow> u32 list \<Rightarrow> 'd \<Rightarrow> 'd option" where
  "write_loop D [] d = Some d"
| "write_loop D (v # vs) d = do {
     d \<leftarrow> wait_writable D d;
     write_loop D vs (spi_wr D SPI_DR v d) }"

partial_function (option) drain_rx :: "'d spi_dev \<Rightarrow> 'd \<Rightarrow> 'd option" where
  "drain_rx D d = (let (r, d) = spi_is_readable D d in
     if r then drain_rx D (snd (spi_rd D SPI_DR d)) else Some d)"

partial_function (option) wait_not_busy :: "'d spi_dev \<Rightarrow> 'd \<Rightarrow> 'd option" where
  "wait_not_busy D d = (let (b, d) = spi_is_busy D d in if b then wait_not_busy D d else Some d)"

definition write_and_drain :: "'d spi_dev \<Rightarrow> u32 list \<Rightarrow> 'd \<Rightarrow> 'd option" where
  "write_and_drain D vs d = do {
     d \<leftarrow> write_loop D vs d;
     d \<leftarrow> drain_rx D d;
     d \<leftarrow> wait_not_busy D d;
     d \<leftarrow> drain_rx D d;
     Some (spi_wr D SPI_ICR 0x00000001 d) }"

definition spi_write_blocking :: "'d spi_dev \<Rightarrow> u8 list \<Rightarrow> 'd \<Rightarrow> 'd option" where
  "spi_write_blocking D src d = write_and_drain D (map ucast src) d"

definition spi_write16_blocking :: "'d spi_dev \<Rightarrow> u16 list \<Rightarrow> 'd \<Rightarrow> 'd option" where
  "spi_write16_blocking D src d = write_and_drain D (map ucast src) d"

end
