(* ===== verification/Sd_Card.thy ===== *)
theory Sd_Card
  imports Spi Timer
begin

text \<open>
  The SD card driver under FatFs (\<open>library/VFS/fatfs_sd.c\<close>): commands, data blocks and the disk
  functions, over the SPI driver (\<open>Spi\<close>) and the timer (\<open>Timer\<close>). The card is whatever hangs on
  the SPI block \<open>D\<close>; \<open>G\<close> drives the pins, \<open>hz\<close> and \<open>brg\<close> are the peripheral clock and the
  configured bit rate. No card detect or write protect pin is configured. Debug macros are
  empty.
\<close>

section \<open>State\<close>

record 'd sd_state =
  FATFS_SD_Stat :: u8
  FATFS_SD_CardType :: u8
  sd_timer :: timer_state
  sd_dev :: 'd

text \<open>The chip select pin, and the pin set-up of \<open>init_spi\<close> and \<open>disk_initialize\<close>.\<close>

record 'd sd_pins =
  cs_put :: "bool \<Rightarrow> 'd \<Rightarrow> 'd"
  spi_pins_setup :: "'d \<Rightarrow> 'd"
  cs_pin_setup :: "'d \<Rightarrow> 'd"

datatype DRESULT = RES_OK | RES_ERROR | RES_WRPRT | RES_NOTRDY | RES_PARERR

definition STA_NOINIT :: u8 where "STA_NOINIT = 0x01"
definition STA_NODISK :: u8 where "STA_NODISK = 0x02"
definition STA_PROTECT :: u8 where "STA_PROTECT = 0x04"

definition CT_MMC :: u8 where "CT_MMC = 0x01"
definition CT_SD1 :: u8 where "CT_SD1 = 0x02"
definition CT_SD2 :: u8 where "CT_SD2 = 0x04"
definition CT_SDC :: u8 where "CT_SDC = CT_SD1 OR CT_SD2"
definition CT_BLOCK :: u8 where "CT_BLOCK = 0x08"

definition CMD0 :: u8 where "CMD0 = 0"
definition CMD1 :: u8 where "CMD1 = 1"
definition ACMD41 :: u8 where "ACMD41 = 0x80 + 41"
definition CMD8 :: u8 where "CMD8 = 8"
definition CMD9 :: u8 where "CMD9 = 9"
definition CMD12 :: u8 where "CMD12 = 12"
definition ACMD13 :: u8 where "ACMD13 = 0x80 + 13"
definition CMD16 :: u8 where "CMD16 = 16"
definition CMD17 :: u8 where "CMD17 = 17"
definition CMD18 :: u8 where "CMD18 = 18"
definition ACMD23 :: u8 where "ACMD23 = 0x80 + 23"
definition CMD24 :: u8 where "CMD24 = 24"
definition CMD25 :: u8 where "CMD25 = 25"
definition CMD32 :: u8 where "CMD32 = 32"
definition CMD33 :: u8 where "CMD33 = 33"
definition CMD38 :: u8 where "CMD38 = 38"
definition CMD55 :: u8 where "CMD55 = 55"
definition CMD58 :: u8 where "CMD58 = 58"

definition sd_detect :: bool where "sd_detect = True"
definition sd_enabled :: bool where "sd_enabled = True"

section \<open>Bytes and blocks\<close>

definition sd_spi_send :: "'d spi_dev \<Rightarrow> u8 \<Rightarrow> 'd sd_state \<Rightarrow> (u8 \<times> 'd sd_state) option" where
  "sd_spi_send D data s = do {
     (dst, d) \<leftarrow> spi_write_read_blocking D [data] (sd_dev s);
     x \<leftarrow> c_read dst 0;
     Some (x, s\<lparr>sd_dev := d\<rparr>) }"

definition init_spi :: "'d spi_dev \<Rightarrow> 'd sd_pins \<Rightarrow> u32 \<Rightarrow> u32 \<Rightarrow> 'd sd_state \<Rightarrow> 'd sd_state option" where
  "init_spi D G hz brg s = do {
     let d = spi_pins_setup G (sd_dev s);
     d \<leftarrow> spi_set_format D 8 0 0 1 d;
     (baud, d) \<leftarrow> spi_init D spi0 hz brg d;
     Some (s\<lparr>sd_dev := d\<rparr>) }"

definition rcvr_spi_multi :: "'d spi_dev \<Rightarrow> nat \<Rightarrow> 'd sd_state \<Rightarrow> (u8 list \<times> 'd sd_state) option" where
  "rcvr_spi_multi D btr s = do {
     (buff, d) \<leftarrow> spi_read_blocking D 0xFF btr (sd_dev s);
     Some (buff, s\<lparr>sd_dev := d\<rparr>) }"

definition xmit_spi_multi :: "'d spi_dev \<Rightarrow> u8 list \<Rightarrow> 'd sd_state \<Rightarrow> 'd sd_state option" where
  "xmit_spi_multi D buff s = do {
     d \<leftarrow> spi_write_blocking D buff (sd_dev s);
     Some (s\<lparr>sd_dev := d\<rparr>) }"

text \<open>\<open>make_timeout_time_us\<close>, and the test \<open>0 < absolute_time_diff_us(get_absolute_time(), t)\<close>.\<close>

definition sd_timeout_us :: "u64 \<Rightarrow> 'd sd_state \<Rightarrow> (absolute_time \<times> 'd sd_state) option" where
  "sd_timeout_us us s = do {
     (t, tm) \<leftarrow> make_timeout_time_us (sd_timer s) us;
     Some (t, s\<lparr>sd_timer := tm\<rparr>) }"

definition time_left :: "absolute_time \<Rightarrow> 'd sd_state \<Rightarrow> (bool \<times> 'd sd_state) option" where
  "time_left timeout_time s = do {
     (now, tm) \<leftarrow> get_absolute_time (sd_timer s);
     Some (0 < absolute_time_diff_us now timeout_time, s\<lparr>sd_timer := tm\<rparr>) }"

partial_function (option) wait_ready_loop :: "'d spi_dev \<Rightarrow> absolute_time \<Rightarrow> 'd sd_state \<Rightarrow> (u8 \<times> 'd sd_state) option" where
  "wait_ready_loop D timeout_time s = do {
     (d, s) \<leftarrow> sd_spi_send D 0xFF s;
     if d \<noteq> 0xFF then do {
       (left, s) \<leftarrow> time_left timeout_time s;
       if left then wait_ready_loop D timeout_time s else Some (d, s) }
     else Some (d, s) }"

definition wait_ready :: "'d spi_dev \<Rightarrow> u32 \<Rightarrow> 'd sd_state \<Rightarrow> (bool \<times> 'd sd_state) option" where
  "wait_ready D wt s = do {
     (timeout_time, s) \<leftarrow> sd_timeout_us (ucast (wt * 1000)) s;
     (d, s) \<leftarrow> wait_ready_loop D timeout_time s;
     Some (d = 0xFF, s) }"

definition deselect_card :: "'d spi_dev \<Rightarrow> 'd sd_pins \<Rightarrow> 'd sd_state \<Rightarrow> 'd sd_state option" where
  "deselect_card D G s = do {
     let s = s\<lparr>sd_dev := cs_put G True (sd_dev s)\<rparr>;
     (x, s) \<leftarrow> sd_spi_send D 0xFF s;
     Some s }"

definition select_card :: "'d spi_dev \<Rightarrow> 'd sd_pins \<Rightarrow> 'd sd_state \<Rightarrow> (bool \<times> 'd sd_state) option" where
  "select_card D G s = do {
     let s = s\<lparr>sd_dev := cs_put G False (sd_dev s)\<rparr>;
     (x, s) \<leftarrow> sd_spi_send D 0xFF s;
     (ready, s) \<leftarrow> wait_ready D 500 s;
     if ready then Some (True, s)
     else do {
       s \<leftarrow> deselect_card D G s;
       Some (False, s) } }"

partial_function (option) token_loop :: "'d spi_dev \<Rightarrow> absolute_time \<Rightarrow> 'd sd_state \<Rightarrow> (u8 \<times> 'd sd_state) option" where
  "token_loop D timeout_time s = do {
     (token, s) \<leftarrow> sd_spi_send D 0xFF s;
     if token = 0xFF then do {
       (left, s) \<leftarrow> time_left timeout_time s;
       if left then token_loop D timeout_time s else Some (token, s) }
     else Some (token, s) }"

text \<open>\<open>None\<close> is the result 0, otherwise the bytes stored in the buffer.\<close>

definition rcvr_datablock :: "'d spi_dev \<Rightarrow> nat \<Rightarrow> 'd sd_state \<Rightarrow> (u8 list option \<times> 'd sd_state) option" where
  "rcvr_datablock D btr s = do {
     (timeout_time, s) \<leftarrow> sd_timeout_us (200 * 1000) s;
     (token, s) \<leftarrow> token_loop D timeout_time s;
     if token \<noteq> 0xFE then Some (None, s)
     else do {
       (buff, s) \<leftarrow> rcvr_spi_multi D btr s;
       (x, s) \<leftarrow> sd_spi_send D 0xFF s;
       (x, s) \<leftarrow> sd_spi_send D 0xFF s;
       Some (Some buff, s) } }"

definition xmit_datablock :: "'d spi_dev \<Rightarrow> u8 list \<Rightarrow> u8 \<Rightarrow> 'd sd_state \<Rightarrow> (bool \<times> 'd sd_state) option" where
  "xmit_datablock D buff token s = do {
     (ready, s) \<leftarrow> wait_ready D 500 s;
     if \<not> ready then Some (False, s)
     else do {
       (x, s) \<leftarrow> sd_spi_send D token s;
       if token \<noteq> 0xFD then do {
         c_assert (length buff \<ge> 512);
         s \<leftarrow> xmit_spi_multi D (take 512 buff) s;
         (x, s) \<leftarrow> sd_spi_send D 0xFF s;
         (x, s) \<leftarrow> sd_spi_send D 0xFF s;
         (resp, s) \<leftarrow> sd_spi_send D 0xFF s;
         if resp AND 0x1F \<noteq> 0x05 then Some (False, s) else Some (True, s) }
       else Some (True, s) } }"

section \<open>Commands\<close>

text \<open>The response loop; \<open>n\<close> is how many further bytes may be read.\<close>

fun resp_loop :: "'d spi_dev \<Rightarrow> nat \<Rightarrow> 'd sd_state \<Rightarrow> (u8 \<times> 'd sd_state) option" where
  "resp_loop D n s = do {
     (res, s) \<leftarrow> sd_spi_send D 0xFF s;
     if res AND 0x80 \<noteq> 0 then (case n of 0 \<Rightarrow> Some (res, s) | Suc m \<Rightarrow> resp_loop D m s)
     else Some (res, s) }"

declare resp_loop.simps [simp del]

definition send_frame :: "'d spi_dev \<Rightarrow> u8 \<Rightarrow> u32 \<Rightarrow> 'd sd_state \<Rightarrow> 'd sd_state option" where
  "send_frame D cmd arg s = do {
     (x, s) \<leftarrow> sd_spi_send D (0x40 OR cmd) s;
     (x, s) \<leftarrow> sd_spi_send D (ucast (drop_bit 24 arg)) s;
     (x, s) \<leftarrow> sd_spi_send D (ucast (drop_bit 16 arg)) s;
     (x, s) \<leftarrow> sd_spi_send D (ucast (drop_bit 8 arg)) s;
     (x, s) \<leftarrow> sd_spi_send D (ucast arg) s;
     let n = 0x01;
     let n = (if cmd = CMD0 then 0x95 else n);
     let n = (if cmd = CMD8 then 0x87 else n);
     (x, s) \<leftarrow> sd_spi_send D n s;
     Some s }"

text \<open>\<open>send_cmd\<close> of a command without the flag of the application commands.\<close>

definition send_plain_cmd :: "'d spi_dev \<Rightarrow> 'd sd_pins \<Rightarrow> u8 \<Rightarrow> u32 \<Rightarrow> 'd sd_state \<Rightarrow> (u8 \<times> 'd sd_state) option" where
  "send_plain_cmd D G cmd arg s = do {
     (ok, s) \<leftarrow> (if cmd \<noteq> CMD12 then do {
         s \<leftarrow> deselect_card D G s;
         select_card D G s }
       else Some (True, s));
     if \<not> ok then Some (0xFF, s)
     else do {
       s \<leftarrow> send_frame D cmd arg s;
       s \<leftarrow> (if cmd = CMD12 then do { (x, s) \<leftarrow> sd_spi_send D 0xFF s; Some s } else Some s);
       resp_loop D 9 s } }"

definition send_cmd :: "'d spi_dev \<Rightarrow> 'd sd_pins \<Rightarrow> u8 \<Rightarrow> u32 \<Rightarrow> 'd sd_state \<Rightarrow> (u8 \<times> 'd sd_state) option" where
  "send_cmd D G cmd arg s =
     (if cmd AND 0x80 \<noteq> 0 then do {
        let cmd = cmd AND 0x7F;
        (res, s) \<leftarrow> send_plain_cmd D G CMD55 0 s;
        if res > 1 then Some (res, s) else send_plain_cmd D G cmd arg s }
      else send_plain_cmd D G cmd arg s)"

end
