(* ===== verification/Sd_Disk.thy ===== *)
theory Sd_Disk
  imports Sd_Card
begin

text \<open>
  The disk functions FatFs calls (\<open>library/VFS/fatfs_sd.c\<close>): initialisation, status, reading and
  writing of sectors, and control.
\<close>

section \<open>Initialisation\<close>

fun clock_card :: "'d spi_dev \<Rightarrow> nat \<Rightarrow> 'd sd_state \<Rightarrow> 'd sd_state option" where
  "clock_card D 0 s = Some s"
| "clock_card D (Suc n) s = do { (x, s) \<leftarrow> sd_spi_send D 0xFF s; clock_card D n s }"

text \<open>Four bytes into \<open>ocr\<close>.\<close>

fun read_ocr :: "'d spi_dev \<Rightarrow> nat \<Rightarrow> 'd sd_state \<Rightarrow> (u8 list \<times> 'd sd_state) option" where
  "read_ocr D 0 s = Some ([], s)"
| "read_ocr D (Suc n) s = do {
     (x, s) \<leftarrow> sd_spi_send D 0xFF s;
     (xs, s) \<leftarrow> read_ocr D n s;
     Some (x # xs, s) }"

partial_function (option) acmd41_loop :: "'d spi_dev \<Rightarrow> 'd sd_pins \<Rightarrow> absolute_time \<Rightarrow> 'd sd_state \<Rightarrow> 'd sd_state option" where
  "acmd41_loop D G timeout_time s = do {
     (res, s) \<leftarrow> send_cmd D G ACMD41 (push_bit 30 1) s;
     if res \<noteq> 0 then do {
       (left, s) \<leftarrow> time_left timeout_time s;
       if left then acmd41_loop D G timeout_time s else Some s }
     else Some s }"

text \<open>The branch of SDv2 cards, after \<open>CMD8\<close> was accepted; the result is the card type.\<close>

definition init_v2 :: "'d spi_dev \<Rightarrow> 'd sd_pins \<Rightarrow> 'd sd_state \<Rightarrow> (u8 \<times> 'd sd_state) option" where
  "init_v2 D G s = do {
     (ocr, s) \<leftarrow> read_ocr D 4 s;
     if ocr ! 2 = 0x01 \<and> ocr ! 3 = 0xAA then do {
       (timeout_time, tm) \<leftarrow> make_timeout_time_ms (sd_timer s) (1000 * 1000);
       let s = s\<lparr>sd_timer := tm\<rparr>;
       s \<leftarrow> acmd41_loop D G timeout_time s;
       (res, s) \<leftarrow> send_cmd D G CMD58 0 s;
       if res = 0 then do {
         (ocr, s) \<leftarrow> read_ocr D 4 s;
         Some (if ocr ! 0 AND 0x40 \<noteq> 0 then CT_SD2 OR CT_BLOCK else CT_SD2, s) }
       else Some (0, s) }
     else Some (0, s) }"

partial_function (option) init_loop :: "'d spi_dev \<Rightarrow> 'd sd_pins \<Rightarrow> absolute_time \<Rightarrow> u8 \<Rightarrow> 'd sd_state \<Rightarrow> 'd sd_state option" where
  "init_loop D G timeout_time cmd s = do {
     (left, s) \<leftarrow> time_left timeout_time s;
     if left then do {
       (res, s) \<leftarrow> send_cmd D G cmd 0 s;
       if res \<noteq> 0 then init_loop D G timeout_time cmd s else Some s }
     else Some s }"

text \<open>The branch of the other cards.\<close>

definition init_v1 :: "'d spi_dev \<Rightarrow> 'd sd_pins \<Rightarrow> absolute_time \<Rightarrow> 'd sd_state \<Rightarrow> (u8 \<times> 'd sd_state) option" where
  "init_v1 D G timeout_time s = do {
     (res, s) \<leftarrow> send_cmd D G ACMD41 0 s;
     let (ty, cmd) = (if res \<le> 1 then (CT_SD1, ACMD41) else (CT_MMC, CMD1));
     s \<leftarrow> init_loop D G timeout_time cmd s;
     (left, s) \<leftarrow> time_left timeout_time s;
     if left then Some (0, s)
     else do {
       (res, s) \<leftarrow> send_cmd D G CMD16 512 s;
       Some (if res \<noteq> 0 then 0 else ty, s) } }"

definition card_type :: "'d spi_dev \<Rightarrow> 'd sd_pins \<Rightarrow> 'd sd_state \<Rightarrow> (u8 \<times> 'd sd_state) option" where
  "card_type D G s = do {
     (res, s) \<leftarrow> send_cmd D G CMD0 0 s;
     if res = 1 then do {
       (timeout_time, s) \<leftarrow> sd_timeout_us (1000 * 1000) s;
       (res, s) \<leftarrow> send_cmd D G CMD8 0x1AA s;
       if res = 1 then init_v2 D G s else init_v1 D G timeout_time s }
     else Some (0, s) }"

definition protect_bit :: "'d sd_state \<Rightarrow> 'd sd_state" where
  "protect_bit s =
     (if \<not> sd_enabled then s\<lparr>FATFS_SD_Stat := FATFS_SD_Stat s OR STA_PROTECT\<rparr>
      else s\<lparr>FATFS_SD_Stat := FATFS_SD_Stat s AND NOT STA_PROTECT\<rparr>)"

definition disk_initialize :: "'d spi_dev \<Rightarrow> 'd sd_pins \<Rightarrow> u32 \<Rightarrow> u32 \<Rightarrow> 'd sd_state \<Rightarrow> (u8 \<times> 'd sd_state) option" where
  "disk_initialize D G hz brg s = do {
     let s = s\<lparr>sd_dev := cs_pin_setup G (sd_dev s)\<rparr>;
     s \<leftarrow> init_spi D G hz brg s;
     if \<not> sd_detect then Some (STA_NODISK, s)
     else do {
       s \<leftarrow> clock_card D 10 s;
       (ty, s) \<leftarrow> card_type D G s;
       let s = s\<lparr>FATFS_SD_CardType := ty\<rparr>;
       s \<leftarrow> deselect_card D G s;
       let s = (if ty \<noteq> 0 then s\<lparr>FATFS_SD_Stat := FATFS_SD_Stat s AND NOT STA_NOINIT\<rparr>
                else s\<lparr>FATFS_SD_Stat := STA_NOINIT\<rparr>);
       let s = protect_bit s;
       Some (FATFS_SD_Stat s, s) } }"

definition disk_status :: "'d sd_state \<Rightarrow> u8 \<times> 'd sd_state" where
  "disk_status s =
     (if \<not> sd_detect then (STA_NOINIT, s)
      else (let s = protect_bit s in (FATFS_SD_Stat s, s)))"

section \<open>Reading and writing\<close>

text \<open>How often a body is run that ends in \<open>while (--count)\<close>.\<close>

definition do_while_times :: "u32 \<Rightarrow> nat" where
  "do_while_times count = (if count = 0 then 2 ^ 32 else unat count)"

text \<open>The loops return whether all blocks were transferred, that is, \<open>count\<close> reached 0.\<close>

fun read_blocks :: "'d spi_dev \<Rightarrow> nat \<Rightarrow> u8 list \<Rightarrow> 'd sd_state \<Rightarrow> (bool \<times> u8 list \<times> 'd sd_state) option" where
  "read_blocks D 0 buff s = Some (True, buff, s)"
| "read_blocks D (Suc n) buff s = do {
     (b, s) \<leftarrow> rcvr_datablock D 512 s;
     case b of None \<Rightarrow> Some (False, buff, s) | Some xs \<Rightarrow> read_blocks D n (buff @ xs) s }"

definition sector_arg :: "'d sd_state \<Rightarrow> u32 \<Rightarrow> u32" where
  "sector_arg s sector = (if \<not> (FATFS_SD_CardType s AND CT_BLOCK \<noteq> 0) then sector * 512 else sector)"

definition disk_read :: "'d spi_dev \<Rightarrow> 'd sd_pins \<Rightarrow> u32 \<Rightarrow> u32 \<Rightarrow> 'd sd_state \<Rightarrow> (DRESULT \<times> u8 list \<times> 'd sd_state) option" where
  "disk_read D G sector count s =
     (if \<not> sd_detect \<or> FATFS_SD_Stat s AND STA_NOINIT \<noteq> 0 then Some (RES_NOTRDY, [], s)
      else do {
        let sector = sector_arg s sector;
        (ok, buff, s) \<leftarrow> (if count = 1 then do {
            (res, s) \<leftarrow> send_cmd D G CMD17 sector s;
            if res = 0 then do {
              (b, s) \<leftarrow> rcvr_datablock D 512 s;
              case b of None \<Rightarrow> Some (False, [], s) | Some xs \<Rightarrow> Some (True, xs, s) }
            else Some (False, [], s) }
          else do {
            (res, s) \<leftarrow> send_cmd D G CMD18 sector s;
            if res = 0 then do {
              (ok, buff, s) \<leftarrow> read_blocks D (do_while_times count) [] s;
              (res, s) \<leftarrow> send_cmd D G CMD12 0 s;
              Some (ok, buff, s) }
            else Some (count = 0, [], s) });
        s \<leftarrow> deselect_card D G s;
        Some (if ok then RES_OK else RES_ERROR, buff, s) })"

fun write_blocks :: "'d spi_dev \<Rightarrow> nat \<Rightarrow> u8 list \<Rightarrow> 'd sd_state \<Rightarrow> (bool \<times> 'd sd_state) option" where
  "write_blocks D 0 buff s = Some (True, s)"
| "write_blocks D (Suc n) buff s = do {
     (ok, s) \<leftarrow> xmit_datablock D buff 0xFC s;
     if \<not> ok then Some (False, s) else write_blocks D n (drop 512 buff) s }"

definition disk_write :: "'d spi_dev \<Rightarrow> 'd sd_pins \<Rightarrow> u8 list \<Rightarrow> u32 \<Rightarrow> u32 \<Rightarrow> 'd sd_state \<Rightarrow> (DRESULT \<times> 'd sd_state) option" where
  "disk_write D G buff sector count s =
     (if \<not> sd_detect then Some (RES_ERROR, s)
      else if \<not> sd_enabled then Some (RES_WRPRT, s)
      else if FATFS_SD_Stat s AND STA_NOINIT \<noteq> 0 then Some (RES_NOTRDY, s)
      else if FATFS_SD_Stat s AND STA_PROTECT \<noteq> 0 then Some (RES_WRPRT, s)
      else do {
        let sector = sector_arg s sector;
        (ok, s) \<leftarrow> (if count = 1 then do {
            (res, s) \<leftarrow> send_cmd D G CMD24 sector s;
            if res = 0 then xmit_datablock D buff 0xFE s else Some (False, s) }
          else do {
            s \<leftarrow> (if FATFS_SD_CardType s AND CT_SDC \<noteq> 0 then do {
                (res, s) \<leftarrow> send_cmd D G ACMD23 count s; Some s } else Some s);
            (res, s) \<leftarrow> send_cmd D G CMD25 sector s;
            if res = 0 then do {
              (ok, s) \<leftarrow> write_blocks D (do_while_times count) buff s;
              (stop, s) \<leftarrow> xmit_datablock D [] 0xFD s;
              Some (ok \<and> stop, s) }
            else Some (count = 0, s) });
        s \<leftarrow> deselect_card D G s;
        Some (if ok then RES_OK else RES_ERROR, s) })"

section \<open>Control\<close>

text \<open>Shifts by a negative amount or by 32 and more are undefined.\<close>

definition shift_left :: "u32 \<Rightarrow> int \<Rightarrow> u32 option" where
  "shift_left v n = do { c_assert (0 \<le> n \<and> n < 32); Some (push_bit (nat n) v) }"

text \<open>The number of sectors a CSD register of 16 bytes states.\<close>

definition csd_sectors :: "u8 list \<Rightarrow> u32 option" where
  "csd_sectors csd =
     (if drop_bit 6 (csd ! 0) = 1 then
        (let csize = ucast (csd ! 9) + push_bit 8 (ucast (csd ! 8)) + push_bit 16 (ucast (csd ! 7 AND 63)) + 1
         in shift_left csize 10)
      else
        (let n = (csd ! 5 AND 15) + drop_bit 7 (csd ! 10 AND 128) + push_bit 1 (csd ! 9 AND 3) + 2;
             csize = ucast (drop_bit 6 (csd ! 8)) + push_bit 2 (ucast (csd ! 7)) + push_bit 10 (ucast (csd ! 6 AND 3)) + 1
         in shift_left csize (uint n - 9)))"

text \<open>The erase block size of SDv1 and of MMC cards.\<close>

definition csd_block_v1 :: "u8 list \<Rightarrow> u32 option" where
  "csd_block_v1 csd = shift_left (push_bit 1 (ucast (csd ! 10 AND 63)) + drop_bit 7 (ucast (csd ! 11 AND 128)) + 1)
     (uint (drop_bit 6 (csd ! 13)) - 1)"

definition csd_block_mmc :: "u8 list \<Rightarrow> u32" where
  "csd_block_mmc csd = (ucast (drop_bit 2 (csd ! 10 AND 124)) + 1) *
     (push_bit 3 (ucast (csd ! 11 AND 3)) + ucast (drop_bit 5 (csd ! 11 AND 224)) + 1)"

text \<open>
  The result comes with the word stored through \<open>buff\<close>, if any. \<open>CTRL_ERASE_SECTOR\<close> asks
  \<open>disk_ioctl\<close> itself for the CSD; were that to succeed, it would go on with an array nothing
  has filled, which stops.
\<close>

definition ioctl_csd :: "'d spi_dev \<Rightarrow> 'd sd_pins \<Rightarrow> 'd sd_state \<Rightarrow> (u8 list option \<times> 'd sd_state) option" where
  "ioctl_csd D G s = do {
     (res, s) \<leftarrow> send_cmd D G CMD9 0 s;
     if res = 0 then rcvr_datablock D 16 s else Some (None, s) }"

definition ioctl_block_size :: "'d spi_dev \<Rightarrow> 'd sd_pins \<Rightarrow> 'd sd_state \<Rightarrow> (DRESULT \<times> u32 option \<times> 'd sd_state) option" where
  "ioctl_block_size D G s =
     (if FATFS_SD_CardType s AND CT_SD2 \<noteq> 0 then do {
        (res, s) \<leftarrow> send_cmd D G ACMD13 0 s;
        if res = 0 then do {
          (x, s) \<leftarrow> sd_spi_send D 0xFF s;
          (b, s) \<leftarrow> rcvr_datablock D 16 s;
          case b of
            None \<Rightarrow> Some (RES_ERROR, None, s)
          | Some csd \<Rightarrow> do {
              s \<leftarrow> clock_card D (64 - 16) s;
              v \<leftarrow> shift_left 16 (uint (drop_bit 4 (csd ! 10)));
              Some (RES_OK, Some v, s) } }
        else Some (RES_ERROR, None, s) }
      else do {
        (b, s) \<leftarrow> ioctl_csd D G s;
        case b of
          None \<Rightarrow> Some (RES_ERROR, None, s)
        | Some csd \<Rightarrow> do {
            v \<leftarrow> (if FATFS_SD_CardType s AND CT_SD1 \<noteq> 0 then csd_block_v1 csd else Some (csd_block_mmc csd));
            Some (RES_OK, Some v, s) } })"

fun disk_ioctl_from :: "nat \<Rightarrow> 'd spi_dev \<Rightarrow> 'd sd_pins \<Rightarrow> nat \<Rightarrow> 'd sd_state \<Rightarrow> (DRESULT \<times> u32 option \<times> 'd sd_state) option" where
  "disk_ioctl_from depth D G cmd s =
     (if FATFS_SD_Stat s AND STA_NOINIT \<noteq> 0 then Some (RES_NOTRDY, None, s)
      else if \<not> sd_detect then Some (RES_NOTRDY, None, s)
      else do {
        (res, v, s) \<leftarrow>
          (if cmd = 0 then do {
             (ok, s) \<leftarrow> select_card D G s;
             Some (if ok then RES_OK else RES_ERROR, None, s) }
           else if cmd = 1 then do {
             (b, s) \<leftarrow> ioctl_csd D G s;
             case b of
               None \<Rightarrow> Some (RES_ERROR, None, s)
             | Some csd \<Rightarrow> do { v \<leftarrow> csd_sectors csd; Some (RES_OK, Some v, s) } }
           else if cmd = 3 then ioctl_block_size D G s
           else if cmd = 4 then
             (if \<not> (FATFS_SD_CardType s AND CT_SDC \<noteq> 0) then Some (RES_ERROR, None, s)
              else case depth of
                  0 \<Rightarrow> None
                | Suc depth \<Rightarrow> do {
                    (res, v, s) \<leftarrow> disk_ioctl_from depth D G 11 s;
                    if res \<noteq> RES_OK then Some (RES_ERROR, None, s) else None })
           else Some (RES_PARERR, None, s));
        s \<leftarrow> deselect_card D G s;
        Some (res, v, s) })"

declare disk_ioctl_from.simps [simp del]

text \<open>The only nesting is the one above.\<close>

definition disk_ioctl :: "'d spi_dev \<Rightarrow> 'd sd_pins \<Rightarrow> nat \<Rightarrow> 'd sd_state \<Rightarrow> (DRESULT \<times> u32 option \<times> 'd sd_state) option" where
  "disk_ioctl D G cmd s = disk_ioctl_from 1 D G cmd s"

definition get_fattime :: u32 where
  "get_fattime = push_bit 25 (2021 - 1980) OR push_bit 21 7 OR push_bit 16 10 OR push_bit 11 16 OR
     push_bit 5 0 OR drop_bit 1 0"

end
