(* ===== verification/Spi_Props.thy ===== *)
theory Spi_Props
  imports Spi
begin

text \<open>
  The transfers of the SPI driver over a controller that works as documented: two FIFOs of
  eight frames and a shifter, which exchanges frames with the device on the wire at times of
  its own. A transfer returns what the device answers, frame by frame, and loses nothing.
\<close>

section \<open>The controller\<close>

record 'w pl022 =
  tx_fifo :: "u16 list"
  rx_fifo :: "u16 list"
  wire :: 'w

type_synonym 'w slave = "u16 \<Rightarrow> 'w \<Rightarrow> u16 \<times> 'w"

text \<open>One frame is shifted: the answer is lost if the receive FIFO is full.\<close>

definition shift1 :: "'w slave \<Rightarrow> 'w pl022 \<Rightarrow> 'w pl022" where
  "shift1 S a = (case tx_fifo a of
       [] \<Rightarrow> a
     | x # xs \<Rightarrow> (case S x (wire a) of
         (r, w) \<Rightarrow> \<lparr>tx_fifo = xs, rx_fifo = (if length (rx_fifo a) < 8 then rx_fifo a @ [r] else rx_fifo a), wire = w\<rparr>))"

text \<open>
  What the data sheet says of the registers the transfers use, where \<open>view\<close> reads the state of
  the controller off the register block: any number of frames may be shifted around every
  access, and frames that wait are shifted after finitely many looks at the status
  (\<open>pat\<close> counts down to it).
\<close>

definition spi_documented ::
    "'d spi_dev \<Rightarrow> 'w slave \<Rightarrow> ('d \<Rightarrow> 'w pl022) \<Rightarrow> ('d \<Rightarrow> nat) \<Rightarrow> bool" where
  "spi_documented D S view pat \<longleftrightarrow>
     (\<forall>d v d'. spi_rd D SPI_SR d = (v, d') \<longrightarrow>
        (\<exists>k. view d' = (shift1 S ^^ k) (view d) \<and> (tx_fifo (view d) \<noteq> [] \<longrightarrow> 0 < k \<or> pat d' < pat d)) \<and>
        (v AND 0x00000002 \<noteq> 0 \<longleftrightarrow> length (tx_fifo (view d')) < 8) \<and>
        (v AND 0x00000004 \<noteq> 0 \<longleftrightarrow> rx_fifo (view d') \<noteq> []) \<and>
        (v AND 0x00000010 \<noteq> 0 \<longleftrightarrow> tx_fifo (view d') \<noteq> [])) \<and>
     (\<forall>d v d'. spi_rd D SPI_DR d = (v, d') \<longrightarrow> rx_fifo (view d) \<noteq> [] \<longrightarrow>
        v = ucast (hd (rx_fifo (view d))) \<and>
        (\<exists>j k. let a = (shift1 S ^^ j) (view d) in view d' = (shift1 S ^^ k) (a\<lparr>rx_fifo := tl (rx_fifo a)\<rparr>))) \<and>
     (\<forall>d v. length (tx_fifo (view d)) < 8 \<longrightarrow>
        (\<exists>j k. let a = (shift1 S ^^ j) (view d) in
           view (spi_wr D SPI_DR v d) = (shift1 S ^^ k) (a\<lparr>tx_fifo := tx_fifo a @ [ucast v]\<rparr>))) \<and>
     (\<forall>d v. \<exists>k. view (spi_wr D SPI_ICR v d) = (shift1 S ^^ k) (view d))"

lemma status_documented:
  assumes "spi_documented D S view pat" and "spi_rd D SPI_SR d = (v, d')"
  shows "\<exists>k. view d' = (shift1 S ^^ k) (view d) \<and> (tx_fifo (view d) \<noteq> [] \<longrightarrow> 0 < k \<or> pat d' < pat d)"
    "v AND 0x00000002 \<noteq> 0 \<longleftrightarrow> length (tx_fifo (view d')) < 8"
    "v AND 0x00000004 \<noteq> 0 \<longleftrightarrow> rx_fifo (view d') \<noteq> []"
    "v AND 0x00000010 \<noteq> 0 \<longleftrightarrow> tx_fifo (view d') \<noteq> []"
  using assms(1) [unfolded spi_documented_def, THEN conjunct1, rule_format, OF assms(2)] by blast+

text \<open>What the device answers to a sequence of frames.\<close>

fun answers :: "'w slave \<Rightarrow> u16 list \<Rightarrow> 'w \<Rightarrow> u16 list \<times> 'w" where
  "answers S [] w = ([], w)"
| "answers S (x # xs) w = (let (r, w) = S x w; (rs, w) = answers S xs w in (r # rs, w))"

lemma answers_append:
  "answers S (xs @ ys) w = (case answers S xs w of (rs, w') \<Rightarrow> case answers S ys w' of (rs', w'') \<Rightarrow> (rs @ rs', w''))"
  by (induction xs arbitrary: w) (auto simp: Let_def split: prod.splits)

lemma length_answers: "answers S xs w = (rs, w') \<Longrightarrow> length rs = length xs"
  by (induction xs arbitrary: w rs) (auto simp: Let_def split: prod.splits)

section \<open>A transfer in progress\<close>

text \<open>
  \<open>dst\<close> has been read and \<open>src\<close> is still to be written; together with what is in the FIFOs
  they will give the answers \<open>ans\<close> and leave the device in state \<open>w'\<close>.
\<close>

definition in_flight :: "'w slave \<Rightarrow> u16 list \<Rightarrow> 'w \<Rightarrow> u16 list \<Rightarrow> u16 list \<Rightarrow> 'w pl022 \<Rightarrow> bool" where
  "in_flight S ans w' dst src a \<longleftrightarrow> length (tx_fifo a) + length (rx_fifo a) \<le> 8 \<and>
     (\<exists>rest. answers S (tx_fifo a @ src) (wire a) = (rest, w') \<and> dst @ rx_fifo a @ rest = ans)"

definition weight :: "'a list \<Rightarrow> 'w pl022 \<Rightarrow> nat" where
  "weight src a = 3 * length src + 2 * length (tx_fifo a) + length (rx_fifo a)"

lemma shift1_in_flight:
  assumes "in_flight S ans w' dst src a"
  shows "in_flight S ans w' dst src (shift1 S a)" "tx_fifo a \<noteq> [] \<Longrightarrow> weight src (shift1 S a) < weight src a"
    "tx_fifo a = [] \<Longrightarrow> shift1 S a = a"
    "length (tx_fifo (shift1 S a)) + length (rx_fifo (shift1 S a)) = length (tx_fifo a) + length (rx_fifo a)"
    "rx_fifo a \<noteq> [] \<Longrightarrow> rx_fifo (shift1 S a) \<noteq> [] \<and> hd (rx_fifo (shift1 S a)) = hd (rx_fifo a)"
    "length (tx_fifo (shift1 S a)) \<le> length (tx_fifo a)"
  using assms by (auto simp: in_flight_def shift1_def weight_def Let_def split: list.splits prod.splits)

lemma shifts_in_flight:
  assumes "in_flight S ans w' dst src a"
  shows "in_flight S ans w' dst src ((shift1 S ^^ k) a) \<and>
    (weight src ((shift1 S ^^ k) a) < weight src a \<or> (shift1 S ^^ k) a = a \<and> (k = 0 \<or> tx_fifo a = [])) \<and>
    length (tx_fifo ((shift1 S ^^ k) a)) + length (rx_fifo ((shift1 S ^^ k) a)) = length (tx_fifo a) + length (rx_fifo a) \<and>
    (rx_fifo a \<noteq> [] \<longrightarrow> rx_fifo ((shift1 S ^^ k) a) \<noteq> [] \<and> hd (rx_fifo ((shift1 S ^^ k) a)) = hd (rx_fifo a)) \<and>
    length (tx_fifo ((shift1 S ^^ k) a)) \<le> length (tx_fifo a)"
proof (induction k)
  case 0
  then show ?case
    using assms by simp
next
  case (Suc k)
  let ?b = "(shift1 S ^^ k) a"
  have b: "in_flight S ans w' dst src ?b"
    using Suc by blast
  have "weight src (shift1 S ?b) < weight src a \<or> shift1 S ?b = a \<and> tx_fifo a = []"
  proof (cases "tx_fifo ?b = []")
    case True
    then have "shift1 S ?b = ?b"
      by (rule shift1_in_flight(3) [OF b])
    then show ?thesis
      using Suc True by auto
  next
    case False
    then show ?thesis
      using shift1_in_flight(2) [OF b False] Suc by auto
  qed
  then show ?case
    using Suc shift1_in_flight(1,4,5,6) [OF b] by fastforce
qed


section \<open>Accesses during a transfer\<close>

text \<open>\<open>ahead\<close>: something was done, or the wait for a frame to be shifted has become shorter.\<close>

definition ahead :: "('d \<Rightarrow> 'w pl022) \<Rightarrow> ('d \<Rightarrow> nat) \<Rightarrow> 'a list \<Rightarrow> 'd \<Rightarrow> 'a list \<Rightarrow> 'd \<Rightarrow> bool" where
  "ahead view pat src d src' d' \<longleftrightarrow> weight src' (view d') < weight src (view d) \<or>
     src' = src \<and> view d' = view d \<and> (tx_fifo (view d) \<noteq> [] \<longrightarrow> pat d' < pat d)"

lemma status_in_flight:
  assumes doc: "spi_documented D S view pat" and f: "in_flight S ans w' dst src (view d)"
    and rd: "spi_rd D SPI_SR d = (v, d')"
  shows "in_flight S ans w' dst src (view d') \<and> ahead view pat src d src d' \<and>
    (v AND 0x00000002 \<noteq> 0 \<longleftrightarrow> length (tx_fifo (view d')) < 8) \<and> (v AND 0x00000004 \<noteq> 0 \<longleftrightarrow> rx_fifo (view d') \<noteq> []) \<and>
    length (tx_fifo (view d')) + length (rx_fifo (view d')) = length (tx_fifo (view d)) + length (rx_fifo (view d))"
proof -
  obtain k where k: "view d' = (shift1 S ^^ k) (view d)" "tx_fifo (view d) \<noteq> [] \<longrightarrow> 0 < k \<or> pat d' < pat d"
      "v AND 0x00000002 \<noteq> 0 \<longleftrightarrow> length (tx_fifo (view d')) < 8" "v AND 0x00000004 \<noteq> 0 \<longleftrightarrow> rx_fifo (view d') \<noteq> []"
    using status_documented [OF doc rd] by blast
  then show ?thesis
    using shifts_in_flight [OF f, of k] by (auto simp: ahead_def)
qed

lemma put_in_flight:
  assumes doc: "spi_documented D S view pat" and f: "in_flight S ans w' dst (ucast v # src) (view d)"
    and room: "length (tx_fifo (view d)) + length (rx_fifo (view d)) < 8"
  shows "in_flight S ans w' dst src (view (spi_wr D SPI_DR v d)) \<and>
    weight src (view (spi_wr D SPI_DR v d)) < weight (ucast v # src :: u16 list) (view d) \<and>
    length (tx_fifo (view (spi_wr D SPI_DR v d))) + length (rx_fifo (view (spi_wr D SPI_DR v d))) =
      Suc (length (tx_fifo (view d)) + length (rx_fifo (view d)))"
proof -
  have "length (tx_fifo (view d)) < 8"
    using room by simp
  then obtain j k where jk: "view (spi_wr D SPI_DR v d) =
      (shift1 S ^^ k) ((shift1 S ^^ j) (view d)\<lparr>tx_fifo := tx_fifo ((shift1 S ^^ j) (view d)) @ [ucast v]\<rparr>)"
    using doc unfolding spi_documented_def Let_def by blast
  let ?a = "(shift1 S ^^ j) (view d)"
  let ?b = "?a\<lparr>tx_fifo := tx_fifo ?a @ [ucast v]\<rparr>"
  have a: "in_flight S ans w' dst (ucast v # src) ?a" "weight (ucast v # src :: u16 list) ?a \<le> weight (ucast v # src :: u16 list) (view d)"
      "length (tx_fifo ?a) + length (rx_fifo ?a) = length (tx_fifo (view d)) + length (rx_fifo (view d))"
    using shifts_in_flight [OF f, of j] by auto
  then have b: "in_flight S ans w' dst src ?b"
    using room by (simp add: in_flight_def)
  show ?thesis
    using shifts_in_flight [OF b, of k] a jk by (auto simp: weight_def)
qed

lemma get_in_flight:
  assumes doc: "spi_documented D S view pat" and f: "in_flight S ans w' dst src (view d)"
    and ne: "rx_fifo (view d) \<noteq> []" and rd: "spi_rd D SPI_DR d = (v, d')"
  shows "\<exists>r. v = ucast r \<and> in_flight S ans w' (dst @ [r]) src (view d') \<and> weight src (view d') < weight src (view d) \<and>
    Suc (length (tx_fifo (view d')) + length (rx_fifo (view d'))) = length (tx_fifo (view d)) + length (rx_fifo (view d))"
proof -
  obtain j k where jk: "v = ucast (hd (rx_fifo (view d)))" "view d' =
      (shift1 S ^^ k) ((shift1 S ^^ j) (view d)\<lparr>rx_fifo := tl (rx_fifo ((shift1 S ^^ j) (view d)))\<rparr>)"
    using doc rd ne unfolding spi_documented_def Let_def by metis
  let ?a = "(shift1 S ^^ j) (view d)"
  let ?b = "?a\<lparr>rx_fifo := tl (rx_fifo ?a)\<rparr>"
  have a: "in_flight S ans w' dst src ?a" "weight src ?a \<le> weight src (view d)" "rx_fifo ?a \<noteq> []"
      "hd (rx_fifo ?a) = hd (rx_fifo (view d))"
      "length (tx_fifo ?a) + length (rx_fifo ?a) = length (tx_fifo (view d)) + length (rx_fifo (view d))"
    using shifts_in_flight [OF f, of j] ne by auto
  then obtain r rs where r: "rx_fifo ?a = r # rs"
    by (cases "rx_fifo ?a") auto
  have b: "in_flight S ans w' (dst @ [r]) src ?b"
    using a(1) r by (auto simp: in_flight_def)
  have "weight src ?b < weight src ?a"
    using r by (simp add: weight_def)
  then show ?thesis
    using shifts_in_flight [OF b, of k] a r jk by (intro exI [of _ r]) auto
qed

section \<open>The transfer loop\<close>

definition held :: "'w pl022 \<Rightarrow> nat" where
  "held a = length (tx_fifo a) + length (rx_fifo a)"

lemma transfer_put_step:
  assumes doc: "spi_documented D S view pat" and f: "in_flight S ans w' dst (map ucast src) (view d)"
    and n: "n = length src + held (view d)" and put: "transfer_put D src n d = (src', d')"
  shows "in_flight S ans w' dst (map ucast src') (view d') \<and> n = length src' + held (view d') \<and>
    (weight src' (view d') < weight src (view d) \<or> src' = src \<and> view d' = view d \<and>
       (tx_fifo (view d) \<noteq> [] \<longrightarrow> pat d' \<le> pat d) \<and> (src \<noteq> [] \<longrightarrow> held (view d) \<noteq> 0))"
proof (cases src)
  case Nil
  then show ?thesis
    using f n put by (simp add: transfer_put_def)
next
  case (Cons v vs)
  obtain u d1 where rd: "spi_rd D SPI_SR d = (u, d1)"
    by fastforce
  have s: "in_flight S ans w' dst (map ucast src) (view d1)" "ahead view pat (map ucast src :: u16 list) d (map ucast src) d1"
      "u AND 0x00000002 \<noteq> 0 \<longleftrightarrow> length (tx_fifo (view d1)) < 8" "held (view d1) = held (view d)"
    using status_in_flight [OF doc f rd] by (auto simp: held_def)
  show ?thesis
  proof (cases "u AND 0x00000002 \<noteq> 0 \<and> n < length src + 8")
    case True
    then have e: "src' = vs" "d' = spi_wr D SPI_DR v d1"
      using put Cons rd by (simp_all add: transfer_put_def spi_is_writable_def)
    have "length (tx_fifo (view d1)) + length (rx_fifo (view d1)) < 8"
      using True n s(4) by (simp add: held_def)
    moreover have "in_flight S ans w' dst (ucast v # map ucast vs) (view d1)"
      using s(1) Cons by simp
    ultimately have "in_flight S ans w' dst (map ucast vs) (view d')" "held (view d') = Suc (held (view d1))"
        "weight (map ucast vs :: u16 list) (view d') < weight (ucast v # map ucast vs :: u16 list) (view d1)"
      using put_in_flight [OF doc] e by (auto simp: held_def)
    then show ?thesis
      using e s(2,4) n Cons by (auto simp: ahead_def weight_def)
  next
    case False
    then have e: "src' = src" "d' = d1"
      using put Cons rd by (auto simp: transfer_put_def spi_is_writable_def Let_def)
    have "held (view d) \<noteq> 0"
      using False s(3,4) n Cons by (auto simp: held_def)
    then show ?thesis
      using e s n by (auto simp: ahead_def weight_def)
  qed
qed

lemma transfer_get_step:
  assumes doc: "spi_documented D S view pat" and f: "in_flight S ans w' dst (map ucast src) (view d)"
    and n: "n = length src + held (view d)" "n \<noteq> 0" and got: "transfer_get D n (map ucast dst) d = (n', dst', d')"
  shows "\<exists>dst2. dst' = map ucast dst2 \<and> in_flight S ans w' dst2 (map ucast src) (view d') \<and> n' = length src + held (view d') \<and>
    (weight src (view d') < weight src (view d) \<or>
       view d' = view d \<and> rx_fifo (view d) = [] \<and> (tx_fifo (view d) \<noteq> [] \<longrightarrow> pat d' < pat d))"
proof -
  obtain u d1 where rd: "spi_rd D SPI_SR d = (u, d1)"
    by fastforce
  have s: "in_flight S ans w' dst (map ucast src) (view d1)" "ahead view pat (map ucast src :: u16 list) d (map ucast src) d1"
      "u AND 0x00000004 \<noteq> 0 \<longleftrightarrow> rx_fifo (view d1) \<noteq> []" "held (view d1) = held (view d)"
    using status_in_flight [OF doc f rd] by (auto simp: held_def)
  show ?thesis
  proof (cases "u AND 0x00000004 \<noteq> 0")
    case True
    obtain v d2 where rd2: "spi_rd D SPI_DR d1 = (v, d2)"
      by fastforce
    then have e: "n' = n - 1" "dst' = map ucast dst @ [v]" "d' = d2"
      using got rd True n(2) by (simp_all add: transfer_get_def spi_is_readable_def)
    obtain r where r: "v = ucast r" "in_flight S ans w' (dst @ [r]) (map ucast src) (view d2)"
        "weight (map ucast src :: u16 list) (view d2) < weight (map ucast src :: u16 list) (view d1)" "Suc (held (view d2)) = held (view d1)"
      using get_in_flight [OF doc s(1) _ rd2] True s(3) by (auto simp: held_def)
    then show ?thesis
      using e n s(2,4) by (intro exI [of _ "dst @ [r]"]) (auto simp: ahead_def weight_def)
  next
    case False
    then have e: "n' = n" "dst' = map ucast dst" "d' = d1"
      using got rd n(2) by (simp_all add: transfer_get_def spi_is_readable_def)
    then show ?thesis
      using s n False by (intro exI [of _ dst]) (auto simp: ahead_def weight_def)
  qed
qed

lemma transfer_loop_correct:
  assumes doc: "spi_documented D S view pat"
  shows "in_flight S ans w' dst (map ucast src) (view d) \<Longrightarrow>
    \<exists>d'. transfer_loop D src (length src + held (view d)) (map ucast dst) d = Some (map ucast ans, d') \<and>
      view d' = \<lparr>tx_fifo = [], rx_fifo = [], wire = w'\<rparr>"
proof (induction "(src, d)" arbitrary: src d dst
    rule: wf_induct_rule [OF wf_inv_image [OF wf_lex_prod [OF wf_less_than wf_less_than],
      of "\<lambda>(src :: u32 list, d). (weight src (view d), pat d)"]])
  case (1 src d)
  let ?n = "length src + held (view d)"
  show ?case
  proof (cases "?n = 0")
    case True
    then have z: "src = []" "tx_fifo (view d) = []" "rx_fifo (view d) = []"
      by (simp_all add: held_def)
    then have "dst = ans" "view d = \<lparr>tx_fifo = [], rx_fifo = [], wire = w'\<rparr>"
      using 1(2) by (simp_all add: in_flight_def)
    then show ?thesis
      using z by (simp add: transfer_loop.simps held_def)
  next
    case False
    obtain src1 d1 where put: "transfer_put D src ?n d = (src1, d1)"
      by fastforce
    note p = transfer_put_step [OF doc 1(2) refl put]
    obtain n2 dst2 d2 where got: "transfer_get D ?n (map ucast dst) d1 = (n2, dst2, d2)"
      by (metis prod_cases3)
    have p2: "?n = length src1 + held (view d1)"
      using p by blast
    obtain dst3 where g: "dst2 = map ucast dst3" "in_flight S ans w' dst3 (map ucast src1) (view d2)"
        "n2 = length src1 + held (view d2)"
        "weight src1 (view d2) < weight src1 (view d1) \<or>
          view d2 = view d1 \<and> rx_fifo (view d1) = [] \<and> (tx_fifo (view d1) \<noteq> [] \<longrightarrow> pat d2 < pat d1)"
      using transfer_get_step [OF doc _ p2 False got] p by blast
    have "weight src1 (view d2) < weight src (view d) \<or> weight src1 (view d2) = weight src (view d) \<and> pat d2 < pat d"
    proof (cases "weight src1 (view d2) < weight src (view d)")
      case False2: False
      then have same: "src1 = src" "view d1 = view d" "tx_fifo (view d) \<noteq> [] \<longrightarrow> pat d1 \<le> pat d"
          "src \<noteq> [] \<longrightarrow> held (view d) \<noteq> 0" "view d2 = view d1" "rx_fifo (view d1) = []"
          "tx_fifo (view d1) \<noteq> [] \<longrightarrow> pat d2 < pat d1"
        using p g(4) by auto
      have "tx_fifo (view d) \<noteq> []"
        using same False by (auto simp: held_def)
      then show ?thesis
        using same by simp
    qed simp
    then have "((src1, d2), (src, d)) \<in> inv_image (less_than <*lex*> less_than) (\<lambda>(src, d). (weight src (view d), pat d))"
      by simp
    then obtain d' where "transfer_loop D src1 (length src1 + held (view d2)) (map ucast dst3) d2 = Some (map ucast ans, d')"
        "view d' = \<lparr>tx_fifo = [], rx_fifo = [], wire = w'\<rparr>"
      using 1(1) [OF _ g(2)] by blast
    then show ?thesis
      using False put got g(1,3) by (subst transfer_loop.simps) (auto simp: held_def)
  qed
qed

section \<open>Writing only\<close>

text \<open>What is left of a write: the frames not yet shifted will leave the device in state \<open>w'\<close>.\<close>

definition to_write :: "'w slave \<Rightarrow> 'w \<Rightarrow> u16 list \<Rightarrow> 'w pl022 \<Rightarrow> bool" where
  "to_write S w' src a \<longleftrightarrow> snd (answers S (tx_fifo a @ src) (wire a)) = w'"

lemma shift1_to_write:
  "to_write S w' src a \<Longrightarrow> to_write S w' src (shift1 S a)"
  "tx_fifo a \<noteq> [] \<Longrightarrow> weight src (shift1 S a) < weight src a"
  "tx_fifo a = [] \<Longrightarrow> shift1 S a = a"
  "length (tx_fifo (shift1 S a)) \<le> length (tx_fifo a)"
  by (auto simp: to_write_def shift1_def weight_def Let_def split: list.splits prod.splits)

lemma shifts_to_write:
  assumes "to_write S w' src a"
  shows "to_write S w' src ((shift1 S ^^ k) a) \<and> length (tx_fifo ((shift1 S ^^ k) a)) \<le> length (tx_fifo a) \<and>
    (weight src ((shift1 S ^^ k) a) < weight src a \<or> (shift1 S ^^ k) a = a \<and> (k = 0 \<or> tx_fifo a = []))"
proof (induction k)
  case 0
  then show ?case
    using assms by simp
next
  case (Suc k)
  let ?b = "(shift1 S ^^ k) a"
  have "weight src (shift1 S ?b) < weight src a \<or> shift1 S ?b = a \<and> tx_fifo a = []"
  proof (cases "tx_fifo ?b = []")
    case True
    then have "shift1 S ?b = ?b"
      by (rule shift1_to_write(3))
    then show ?thesis
      using Suc True by auto
  next
    case False
    then show ?thesis
      using shift1_to_write(2) [OF False, of src S] Suc by auto
  qed
  then show ?case
    using Suc shift1_to_write(1) [of S w' src ?b] shift1_to_write(4) [of S ?b] by auto
qed

lemma status_to_write:
  assumes doc: "spi_documented D S view pat" and f: "to_write S w' src (view d)"
    and rd: "spi_rd D SPI_SR d = (v, d')"
  shows "to_write S w' src (view d') \<and> length (tx_fifo (view d')) \<le> length (tx_fifo (view d)) \<and>
    (v AND 0x00000002 \<noteq> 0 \<longleftrightarrow> length (tx_fifo (view d')) < 8) \<and> (v AND 0x00000004 \<noteq> 0 \<longleftrightarrow> rx_fifo (view d') \<noteq> []) \<and>
    (v AND 0x00000010 \<noteq> 0 \<longleftrightarrow> tx_fifo (view d') \<noteq> []) \<and>
    (weight src (view d') < weight src (view d) \<or> view d' = view d \<and> (tx_fifo (view d) \<noteq> [] \<longrightarrow> pat d' < pat d))"
proof -
  obtain k where k: "view d' = (shift1 S ^^ k) (view d)" "tx_fifo (view d) \<noteq> [] \<longrightarrow> 0 < k \<or> pat d' < pat d"
      "v AND 0x00000002 \<noteq> 0 \<longleftrightarrow> length (tx_fifo (view d')) < 8" "v AND 0x00000004 \<noteq> 0 \<longleftrightarrow> rx_fifo (view d') \<noteq> []"
      "v AND 0x00000010 \<noteq> 0 \<longleftrightarrow> tx_fifo (view d') \<noteq> []"
    using status_documented [OF doc rd] by blast
  then show ?thesis
    using shifts_to_write [OF f, of k] by auto
qed

lemma wait_writable_correct:
  assumes doc: "spi_documented D S view pat"
  shows "to_write S w' src (view d) \<Longrightarrow> length (tx_fifo (view d)) \<le> 8 \<Longrightarrow>
    \<exists>d'. wait_writable D d = Some d' \<and> to_write S w' src (view d') \<and> length (tx_fifo (view d')) < 8"
proof (induction d rule: wf_induct_rule [OF wf_inv_image [OF wf_lex_prod [OF wf_less_than wf_less_than],
      of "\<lambda>d. (weight src (view d), pat d)"]])
  case (1 d)
  obtain v d1 where rd: "spi_rd D SPI_SR d = (v, d1)"
    by fastforce
  note s = status_to_write [OF doc 1(2) rd]
  show ?case
  proof (cases "v AND 0x00000002 \<noteq> 0")
    case True
    then show ?thesis
      using s rd by (subst wait_writable.simps) (auto simp: spi_is_writable_def)
  next
    case False
    then have "tx_fifo (view d1) \<noteq> []"
      using s by auto
    then have "(d1, d) \<in> inv_image (less_than <*lex*> less_than) (\<lambda>d. (weight src (view d), pat d))"
      using s by auto
    then show ?thesis
      using 1(1) [of d1] 1(3) False s rd by (subst wait_writable.simps) (auto simp: spi_is_writable_def)
  qed
qed

lemma write_loop_correct:
  assumes doc: "spi_documented D S view pat"
  shows "to_write S w' (map ucast vs) (view d) \<Longrightarrow> length (tx_fifo (view d)) \<le> 8 \<Longrightarrow>
    \<exists>d'. write_loop D vs d = Some d' \<and> to_write S w' [] (view d') \<and> length (tx_fifo (view d')) \<le> 8"
proof (induction vs arbitrary: d)
  case (Cons v vs)
  obtain d1 where d1: "wait_writable D d = Some d1" "to_write S w' (ucast v # map ucast vs) (view d1)"
      "length (tx_fifo (view d1)) < 8"
    using wait_writable_correct [OF doc Cons.prems(1)] Cons.prems(2) by auto
  then obtain j k where jk: "view (spi_wr D SPI_DR v d1) =
      (shift1 S ^^ k) ((shift1 S ^^ j) (view d1)\<lparr>tx_fifo := tx_fifo ((shift1 S ^^ j) (view d1)) @ [ucast v]\<rparr>)"
    using doc unfolding spi_documented_def Let_def by blast
  let ?a = "(shift1 S ^^ j) (view d1)"
  have a: "to_write S w' (ucast v # map ucast vs) ?a" "length (tx_fifo ?a) \<le> length (tx_fifo (view d1))"
    using shifts_to_write [OF d1(2), of j] by auto
  then have "to_write S w' (map ucast vs) (?a\<lparr>tx_fifo := tx_fifo ?a @ [ucast v]\<rparr>)"
    by (simp add: to_write_def)
  then have "to_write S w' (map ucast vs) (view (spi_wr D SPI_DR v d1)) \<and> length (tx_fifo (view (spi_wr D SPI_DR v d1))) \<le> 8"
    using shifts_to_write [of S w' "map ucast vs" _ k] a(2) d1(3) jk by fastforce
  then show ?case
    using Cons.IH d1(1) by simp
qed simp

lemma drain_rx_correct:
  assumes doc: "spi_documented D S view pat"
  shows "to_write S w' [] (view d) \<Longrightarrow> \<exists>d'. drain_rx D d = Some d' \<and> to_write S w' [] (view d') \<and>
    rx_fifo (view d') = [] \<and> (tx_fifo (view d) = [] \<longrightarrow> tx_fifo (view d') = [])"
proof (induction "weight ([] :: u16 list) (view d)" arbitrary: d rule: less_induct)
  case less
  obtain v d1 where rd: "spi_rd D SPI_SR d = (v, d1)"
    by fastforce
  note s = status_to_write [OF doc less.prems rd]
  show ?case
  proof (cases "v AND 0x00000004 \<noteq> 0")
    case True
    obtain u d2 where rd2: "spi_rd D SPI_DR d1 = (u, d2)"
      by fastforce
    obtain j k where jk: "view d2 = (shift1 S ^^ k) ((shift1 S ^^ j) (view d1)\<lparr>rx_fifo := tl (rx_fifo ((shift1 S ^^ j) (view d1)))\<rparr>)"
      using doc rd2 True s unfolding spi_documented_def Let_def by metis
    let ?a = "(shift1 S ^^ j) (view d1)"
    let ?b = "?a\<lparr>rx_fifo := tl (rx_fifo ?a)\<rparr>"
    have a: "to_write S w' [] ?a" "weight ([] :: u16 list) ?a < weight ([] :: u16 list) (view d1) \<or> ?a = view d1"
        "length (tx_fifo ?a) \<le> length (tx_fifo (view d1))"
      using shifts_to_write [of S w' "[]" "view d1" j] s by auto
    have "weight ([] :: u16 list) ?b \<le> weight ([] :: u16 list) ?a" "?a = view d1 \<Longrightarrow> weight ([] :: u16 list) ?b < weight ([] :: u16 list) ?a"
      using True s by (auto simp: weight_def)
    then have "weight ([] :: u16 list) ?b < weight ([] :: u16 list) (view d1)" "to_write S w' [] ?b"
      using a by (auto simp: to_write_def)
    then have d2: "to_write S w' [] (view d2)" "weight ([] :: u16 list) (view d2) < weight ([] :: u16 list) (view d)"
        "tx_fifo (view d) = [] \<longrightarrow> tx_fifo (view d2) = []"
      using shifts_to_write [of S w' "[]" ?b k] jk s a(3) by auto
    show ?thesis
      using less.hyps [OF d2(2,1)] d2(3) True rd rd2 by (subst drain_rx.simps) (auto simp: spi_is_readable_def)
  next
    case False
    then show ?thesis
      using s rd by (subst drain_rx.simps) (auto simp: spi_is_readable_def)
  qed
qed

lemma wait_not_busy_correct:
  assumes doc: "spi_documented D S view pat"
  shows "to_write S w' [] (view d) \<Longrightarrow>
    \<exists>d'. wait_not_busy D d = Some d' \<and> to_write S w' [] (view d') \<and> tx_fifo (view d') = []"
proof (induction d rule: wf_induct_rule [OF wf_inv_image [OF wf_lex_prod [OF wf_less_than wf_less_than],
      of "\<lambda>d. (weight ([] :: u16 list) (view d), pat d)"]])
  case (1 d)
  obtain v d1 where rd: "spi_rd D SPI_SR d = (v, d1)"
    by fastforce
  note s = status_to_write [OF doc 1(2) rd]
  show ?case
  proof (cases "v AND 0x00000010 \<noteq> 0")
    case True
    then have "(d1, d) \<in> inv_image (less_than <*lex*> less_than) (\<lambda>d. (weight ([] :: u16 list) (view d), pat d))"
      using s by auto
    then show ?thesis
      using 1(1) [of d1] True s rd by (subst wait_not_busy.simps) (auto simp: spi_is_busy_def)
  next
    case False
    then show ?thesis
      using s rd by (subst wait_not_busy.simps) (auto simp: spi_is_busy_def)
  qed
qed

lemma write_and_drain_correct:
  assumes doc: "spi_documented D S view pat" and idle: "view d = \<lparr>tx_fifo = [], rx_fifo = [], wire = w\<rparr>"
  shows "\<exists>d'. write_and_drain D vs d = Some d' \<and>
    view d' = \<lparr>tx_fifo = [], rx_fifo = [], wire = snd (answers S (map ucast vs) w)\<rparr>"
proof -
  let ?w = "snd (answers S (map ucast vs) w)"
  have "to_write S ?w (map ucast vs) (view d)"
    using idle by (simp add: to_write_def)
  then obtain d1 where d1: "write_loop D vs d = Some d1" "to_write S ?w [] (view d1)"
    using write_loop_correct [OF doc, of ?w vs d] idle by auto
  obtain d2 where d2: "drain_rx D d1 = Some d2" "to_write S ?w [] (view d2)"
    using drain_rx_correct [OF doc d1(2)] by blast
  obtain d3 where d3: "wait_not_busy D d2 = Some d3" "to_write S ?w [] (view d3)" "tx_fifo (view d3) = []"
    using wait_not_busy_correct [OF doc d2(2)] by blast
  obtain d4 where d4: "drain_rx D d3 = Some d4" "to_write S ?w [] (view d4)" "rx_fifo (view d4) = []" "tx_fifo (view d4) = []"
    using drain_rx_correct [OF doc d3(2)] d3(3) by blast
  obtain k where "view (spi_wr D SPI_ICR 0x00000001 d4) = (shift1 S ^^ k) (view d4)"
    using doc unfolding spi_documented_def by blast
  moreover have "(shift1 S ^^ k) (view d4) = view d4"
    using shift1_to_write(3) [of "view d4" S] d4(4) by (induction k) simp_all
  moreover have "view d4 = \<lparr>tx_fifo = [], rx_fifo = [], wire = ?w\<rparr>"
    using d4 by (simp add: to_write_def)
  ultimately show ?thesis
    using d1(1) d2(1) d3(1) d4(1) by (simp add: write_and_drain_def)
qed

section \<open>Properties of the transfers\<close>

lemma ucast_up_up:
  "map (ucast :: u32 \<Rightarrow> u16) (map (ucast :: u8 \<Rightarrow> u32) xs) = map ucast xs"
  "map (ucast :: u32 \<Rightarrow> u16) (map (ucast :: u16 \<Rightarrow> u32) ys) = ys"
  "map (ucast :: u32 \<Rightarrow> u8) (map (ucast :: u16 \<Rightarrow> u32) ys) = map ucast ys"
proof -
  have "(ucast :: u32 \<Rightarrow> u16) (ucast x) = ucast x" for x :: u8
    by (rule bit_word_eqI) (auto simp: bit_simps)
  then show "map (ucast :: u32 \<Rightarrow> u16) (map (ucast :: u8 \<Rightarrow> u32) xs) = map ucast xs"
    by simp
  have "(ucast :: u32 \<Rightarrow> u16) (ucast y) = y" for y :: u16
    by (rule bit_word_eqI) (simp add: bit_simps)
  then show "map (ucast :: u32 \<Rightarrow> u16) (map (ucast :: u16 \<Rightarrow> u32) ys) = ys"
    by (simp add: map_idI)
  have "(ucast :: u32 \<Rightarrow> u8) (ucast y) = ucast y" for y :: u16
    by (rule bit_word_eqI) (simp add: bit_simps)
  then show "map (ucast :: u32 \<Rightarrow> u8) (map (ucast :: u16 \<Rightarrow> u32) ys) = map ucast ys"
    by simp
qed

lemma transfer_from_idle:
  assumes doc: "spi_documented D S view pat" and idle: "view d = \<lparr>tx_fifo = [], rx_fifo = [], wire = w\<rparr>"
  shows "\<exists>d'. transfer_loop D src (length src) [] d = Some (map ucast (fst (answers S (map ucast src) w)), d') \<and>
    view d' = \<lparr>tx_fifo = [], rx_fifo = [], wire = snd (answers S (map ucast src) w)\<rparr>"
proof -
  obtain rs w' where r: "answers S (map ucast src) w = (rs, w')"
    by fastforce
  then have "in_flight S rs w' [] (map ucast src) (view d)"
    by (simp add: in_flight_def idle)
  from transfer_loop_correct [OF doc this] show ?thesis
    using r idle by (simp add: held_def)
qed

text \<open>
  C20. On a controller that works as documented and is idle, every transfer returns, whatever
  the timing of the hardware, and exchanges with the device exactly the frames it is given, in
  their order: the transfers that read return the device's answer to each frame, none lost to
  a full FIFO, and all leave the controller idle with empty FIFOs.
\<close>

theorem spi_transfers_exchange:
  assumes doc: "spi_documented D S view pat" and idle: "view d = \<lparr>tx_fifo = [], rx_fifo = [], wire = w\<rparr>"
  shows "(\<exists>d'. spi_write_read_blocking D src d = Some (map ucast (fst (answers S (map ucast src) w)), d') \<and>
       view d' = \<lparr>tx_fifo = [], rx_fifo = [], wire = snd (answers S (map ucast src) w)\<rparr>) \<and>
    (\<exists>d'. spi_read_blocking D x n d = Some (map ucast (fst (answers S (replicate n (ucast x)) w)), d') \<and>
       view d' = \<lparr>tx_fifo = [], rx_fifo = [], wire = snd (answers S (replicate n (ucast x)) w)\<rparr>) \<and>
    (\<exists>d'. spi_write_blocking D src d = Some d' \<and>
       view d' = \<lparr>tx_fifo = [], rx_fifo = [], wire = snd (answers S (map ucast src) w)\<rparr>) \<and>
    (\<exists>d'. spi_write16_read16_blocking D src16 d = Some (fst (answers S src16 w), d') \<and>
       view d' = \<lparr>tx_fifo = [], rx_fifo = [], wire = snd (answers S src16 w)\<rparr>) \<and>
    (\<exists>d'. spi_read16_blocking D x16 n d = Some (fst (answers S (replicate n x16) w), d') \<and>
       view d' = \<lparr>tx_fifo = [], rx_fifo = [], wire = snd (answers S (replicate n x16) w)\<rparr>) \<and>
    (\<exists>d'. spi_write16_blocking D src16 d = Some d' \<and>
       view d' = \<lparr>tx_fifo = [], rx_fifo = [], wire = snd (answers S src16 w)\<rparr>)"
proof -
  note tr = transfer_from_idle [OF doc idle] and wr = write_and_drain_correct [OF doc idle]
  note rep = map_replicate [symmetric]
  have rep8: "map (ucast :: u32 \<Rightarrow> u16) (replicate n (ucast x)) = replicate n (ucast x)"
    using ucast_up_up(1) [of "replicate n x"] by simp
  have rep16: "map (ucast :: u32 \<Rightarrow> u16) (replicate n (ucast x16)) = replicate n x16"
    using ucast_up_up(2) [of "replicate n x16"] by simp
  show ?thesis
    using tr [of "map ucast src"] tr [of "replicate n (ucast x)"] wr [of "map ucast src"]
      tr [of "map ucast src16"] tr [of "replicate n (ucast x16)"] wr [of "map ucast src16"]
    unfolding ucast_up_up rep8 rep16
    by (auto simp only: spi_write_read_blocking_def spi_read_blocking_def spi_write_blocking_def
        spi_write16_read16_blocking_def spi_read16_blocking_def spi_write16_blocking_def
        length_map length_replicate bind.bind_lunit prod.case ucast_up_up option.inject prod.inject simp_thms)
qed

section \<open>The clock\<close>

lemma prescale_loop_bounds:
  "even p \<Longrightarrow> 2 \<le> p \<Longrightarrow> prescale_loop f b p \<le> 254 \<Longrightarrow>
   even (prescale_loop f b p) \<and> 2 \<le> prescale_loop f b p \<and> f < (prescale_loop f b p + 2) * 256 * b"
proof (induction f b p rule: prescale_loop.induct)
  case (1 f b p)
  then show ?case
    by (subst (asm) (3) prescale_loop.simps, subst prescale_loop.simps, subst prescale_loop.simps,
        subst prescale_loop.simps) (auto split: if_splits)
qed

lemma postdiv_loop_bounds:
  "1 \<le> n \<Longrightarrow> 1 \<le> postdiv_loop f b p n \<and> postdiv_loop f b p n \<le> n \<and>
   (postdiv_loop f b p n < n \<longrightarrow> f div (p * postdiv_loop f b p n) \<le> b) \<and>
   (1 < postdiv_loop f b p n \<longrightarrow> b < f div (p * (postdiv_loop f b p n - 1)))"
proof (induction f b p n rule: postdiv_loop.induct)
  case (1 f b p q)
  then show ?case
    by (cases "postdiv_loop f b p (Suc q) = Suc q") auto
qed auto

text \<open>
  C39. \<open>spi_set_baudrate\<close> programs an even prescale from 2 to 254 and a divider from 1 to 256
  and returns the rate these give, which no smaller divider would keep down to the rate asked
  for. The rate is at most the one asked for unless the divider is at its end, 256; then it may
  be higher, though never more than twice as high.
\<close>

theorem spi_baudrate_bounds:
  assumes "spi_set_baudrate D hz baudrate d = Some (r, d')"
  shows "\<exists>p q. even p \<and> 2 \<le> p \<and> p \<le> 254 \<and> 1 \<le> q \<and> q \<le> 256 \<and> unat r = unat hz div (p * q) \<and>
    d' = hw_write_masked D SPI_CR0 (push_bit 8 (of_nat (q - 1))) 0x0000ff00 (spi_wr D SPI_CPSR (of_nat p) d) \<and>
    (1 < q \<longrightarrow> unat baudrate < unat hz div (p * (q - 1))) \<and>
    (q < 256 \<longrightarrow> unat r \<le> unat baudrate) \<and> unat r \<le> 2 * unat baudrate"
proof -
  define f b where fb: "f = unat hz" "b = unat baudrate"
  define p where "p = prescale_loop f b 2"
  define q where "q = postdiv_loop f b p 256"
  have p254: "p \<le> 254" and r: "r = of_nat (f div (p * q))"
    and d': "d' = hw_write_masked D SPI_CR0 (push_bit 8 (of_nat (q - 1))) 0x0000ff00 (spi_wr D SPI_CPSR (of_nat p) d)"
    using assms by (auto simp: spi_set_baudrate_def Let_def fb p_def q_def split: if_splits)
  have p: "even p" "2 \<le> p" "f < (p + 2) * 256 * b"
    using prescale_loop_bounds [of 2 f b] p254 unfolding p_def by simp_all
  have q: "1 \<le> q" "q \<le> 256" "q < 256 \<longrightarrow> f div (p * q) \<le> b" "1 < q \<longrightarrow> b < f div (p * (q - 1))"
    using postdiv_loop_bounds [of 256 f b p] unfolding q_def by simp_all
  have "f div (p * q) \<le> f"
    by (rule div_le_dividend)
  moreover have "f < 2 ^ 32"
    using unsigned_less [of hz] by (simp add: fb)
  ultimately have "f div (p * q) < 2 ^ 32"
    by linarith
  then have ur: "unat r = f div (p * q)"
    unfolding r by (simp add: unsigned_of_nat take_bit_nat_eq_self)
  have "f div (p * q) \<le> 2 * b"
  proof (cases "q < 256")
    case True
    then show ?thesis
      using q(3) by simp
  next
    case False
    have "2 * (256 * b) \<le> p * (256 * b)"
      using p(2) by (rule mult_right_mono) simp
    then have "(p + 2) * 256 * b \<le> 2 * b * (p * 256)"
      by (simp add: add_mult_distrib)
    also have "\<dots> \<le> Suc (2 * b) * (p * 256)"
      by (rule mult_right_mono) simp_all
    finally have "f < Suc (2 * b) * (p * 256)"
      using p(3) by (rule order_less_le_trans [rotated])
    then have "f div (p * 256) < Suc (2 * b)"
      by (simp add: less_mult_imp_div_less)
    then show ?thesis
      using False q(2) by (simp add: not_less)
  qed
  then show ?thesis
    using p p254 q ur d' unfolding fb by (intro exI [of _ p] exI [of _ q]) auto
qed

section \<open>A concrete controller\<close>

text \<open>A device that answers with the frame before, and a controller that shifts at every look.\<close>

definition echo :: "u16 slave" where
  "echo x w = (w, x)"

definition pl022_dev :: "'w slave \<Rightarrow> 'w pl022 spi_dev" where
  "pl022_dev S = \<lparr>
     spi_rd = (\<lambda>r a. case r of
         SPI_SR \<Rightarrow> (let b = shift1 S a in
           ((if length (tx_fifo b) < 8 then 2 else 0) OR (if rx_fifo b \<noteq> [] then 4 else 0) OR
            (if tx_fifo b \<noteq> [] then 16 else 0), b))
       | SPI_DR \<Rightarrow> (if rx_fifo a = [] then (0, a) else (ucast (hd (rx_fifo a)), a\<lparr>rx_fifo := tl (rx_fifo a)\<rparr>))
       | _ \<Rightarrow> (0, a)),
     spi_wr = (\<lambda>r v a. if r = SPI_DR \<and> length (tx_fifo a) < 8 then a\<lparr>tx_fifo := tx_fifo a @ [ucast v]\<rparr> else a),
     spi_hw_set = (\<lambda>_ _ a. a), spi_hw_clear = (\<lambda>_ _ a. a), spi_hw_xor = (\<lambda>_ _ a. a)\<rparr>"

lemma pl022_dev_documented:
  fixes S :: "'w slave"
  shows "spi_documented (pl022_dev S) S (\<lambda>a. a) (\<lambda>_. 0)"
proof -
  have sr: "\<exists>k. shift1 S d = (shift1 S ^^ k) d \<and> 0 < k" for d :: "'w pl022"
    by (intro exI [of _ 1]) simp
  have none: "\<exists>j k. P j k" if "P 0 0" for P :: "nat \<Rightarrow> nat \<Rightarrow> bool"
    using that by blast
  show ?thesis
    unfolding spi_documented_def
  proof (intro conjI allI impI)
    fix d v and d' :: "'w pl022"
    assume "spi_rd (pl022_dev S) SPI_SR d = (v, d')"
    then show "\<exists>k. d' = (shift1 S ^^ k) d \<and> (tx_fifo d \<noteq> [] \<longrightarrow> 0 < k \<or> (0 :: nat) < 0)"
      "(v AND 0x00000002 \<noteq> 0) = (length (tx_fifo d') < 8)" "(v AND 0x00000004 \<noteq> 0) = (rx_fifo d' \<noteq> [])"
      "(v AND 0x00000010 \<noteq> 0) = (tx_fifo d' \<noteq> [])"
      using sr [of d] by (auto simp: pl022_dev_def Let_def split: if_splits)
  next
    fix d v and d' :: "'w pl022"
    assume rd: "spi_rd (pl022_dev S) SPI_DR d = (v, d')" "rx_fifo d \<noteq> []"
    then show "v = ucast (hd (rx_fifo d))"
      by (auto simp: pl022_dev_def)
    show "\<exists>j k. let a = (shift1 S ^^ j) d in d' = (shift1 S ^^ k) (a\<lparr>rx_fifo := tl (rx_fifo a)\<rparr>)"
      by (rule none) (use rd in \<open>auto simp: pl022_dev_def\<close>)
  next
    fix d :: "'w pl022" and v
    assume "length (tx_fifo d) < 8"
    then show "\<exists>j k. let a = (shift1 S ^^ j) d in
        spi_wr (pl022_dev S) SPI_DR v d = (shift1 S ^^ k) (a\<lparr>tx_fifo := tx_fifo a @ [ucast v]\<rparr>)"
      by (intro none) (simp add: pl022_dev_def)
  next
    fix d :: "'w pl022" and v
    show "\<exists>k. spi_wr (pl022_dev S) SPI_ICR v d = (shift1 S ^^ k) d"
      by (rule exI [of _ 0]) (simp add: pl022_dev_def)
  qed
qed

theorem spi_transfers_exchange_witness:
  "\<exists>d'. spi_write_read_blocking (pl022_dev echo) [1, 2, 3] \<lparr>tx_fifo = [], rx_fifo = [], wire = 7\<rparr> = Some ([7, 1, 2], d')"
  using spi_transfers_exchange [OF pl022_dev_documented, of "\<lparr>tx_fifo = [], rx_fifo = [], wire = 7\<rparr>" 7 echo "[1, 2, 3]" 0 0 "[]" 0]
  by (auto simp: echo_def)

theorem spi_baudrate_bounds_witness:
  "\<exists>d'. spi_set_baudrate (pl022_dev echo) 125000000 125000 \<lparr>tx_fifo = [], rx_fifo = [], wire = 7\<rparr> = Some (244140, d') \<and>
     unat (244140 :: u32) \<le> 2 * unat (125000 :: u32)"
proof -
  have p: "prescale_loop 125000000 125000 2 = 2"
    by (simp add: prescale_loop.simps)
  have "postdiv_loop 125000000 125000 2 (Suc (Suc 254)) = Suc (Suc 254)"
    by (subst postdiv_loop.simps) simp
  then have q: "postdiv_loop 125000000 125000 2 256 = 256"
    by simp
  have "\<exists>d'. spi_set_baudrate (pl022_dev echo) 125000000 125000 \<lparr>tx_fifo = [], rx_fifo = [], wire = 7\<rparr> = Some (244140, d')"
    using p q by (simp add: spi_set_baudrate_def)
  then obtain d' where d': "spi_set_baudrate (pl022_dev echo) 125000000 125000 \<lparr>tx_fifo = [], rx_fifo = [], wire = 7\<rparr> = Some (244140, d')"
    by blast
  from spi_baudrate_bounds [OF d'] have "unat (244140 :: u32) \<le> 2 * unat (125000 :: u32)"
    by blast
  with d' show ?thesis
    by blast
qed

end
