(* ===== verification/Sd_Protocol.thy ===== *)
theory Sd_Protocol
  imports Sd_Disk Spi_Props Alarm_Pool_Correct
begin

text \<open>
  The other side of the SD card driver: what the SD specification says of a card in SPI mode,
  as an automaton on the bytes exchanged, and what the byte and block operations of the driver
  do on a card that follows it.
\<close>

section \<open>A card in SPI mode\<close>

text \<open>
  The modes of a card: no command in progress (and perhaps busy), ready for a command, in the
  middle of a command frame, before its response, after the frame of \<open>CMD12\<close>, before and
  inside a data block that is read (with the block number and whether more blocks follow), busy
  or ready before a block that is written, inside that block, and before its data response.
  \<open>Unknown\<close> is where the specification, or the part of it used here, says nothing.
\<close>

datatype sd_mode =
    Idle | Ready | Cmd "u8 list" | Resp u8 u32 nat | Stuff
  | Sending nat bool | Data nat nat bool
  | Busy nat bool | Await nat bool | Recv "u8 list" nat bool | DataResp "u8 list" nat bool
  | Unknown

record card =
  mode :: sd_mode
  selected :: bool
  store :: "nat \<Rightarrow> u8 list"

text \<open>The argument of a frame.\<close>

definition frame_arg :: "u8 list \<Rightarrow> u32" where
  "frame_arg bs = push_bit 24 (ucast (bs ! 1)) OR push_bit 16 (ucast (bs ! 2)) OR push_bit 8 (ucast (bs ! 3)) OR ucast (bs ! 4)"

text \<open>The mode after a command was answered with 0; \<open>am\<close> maps an argument to a block number.\<close>

definition accepted :: "(u32 \<Rightarrow> nat) \<Rightarrow> u8 \<Rightarrow> u32 \<Rightarrow> sd_mode" where
  "accepted am cmd arg =
     (if cmd = 17 then Sending (am arg) False
      else if cmd = 18 then Sending (am arg) True
      else if cmd = 24 then Busy (am arg) False
      else if cmd = 25 then Busy (am arg) True
      else if cmd \<in> {12, 16, 23, 55} then Idle else Unknown)"

text \<open>The mode after the byte \<open>x\<close> was sent to a selected card and \<open>r\<close> came back.\<close>

fun mode_next :: "(u32 \<Rightarrow> nat) \<Rightarrow> sd_mode \<Rightarrow> u8 \<Rightarrow> u8 \<Rightarrow> sd_mode" where
  "mode_next am Idle x r = (if x = 0xFF then if r = 0xFF then Ready else Idle else Unknown)"
| "mode_next am Ready x r = (if x = 0xFF then if r = 0xFF then Ready else Idle
     else if x AND 0xC0 = 0x40 then Cmd [x] else Unknown)"
| "mode_next am (Cmd bs) x r = (if length bs < 5 then Cmd (bs @ [x])
     else if hd bs = 0x4C then Stuff else Resp (hd bs AND 0x3F) (frame_arg bs) 0)"
| "mode_next am Stuff x r = (if x = 0xFF then Resp 12 0 0 else Unknown)"
| "mode_next am (Resp cmd arg n) x r = (if x \<noteq> 0xFF then Unknown
     else if r AND 0x80 \<noteq> 0 then Resp cmd arg (n + 1) else if r \<noteq> 0 then Idle else accepted am cmd arg)"
| "mode_next am (Sending b m) x r = (if x = 0xFF then
       (if r = 0xFF then Sending b m else if r = 0xFE then Data 0 b m else Unknown)
     else if x = 0x4C \<and> m then Cmd [x] else Unknown)"
| "mode_next am (Data i b m) x r = (if x \<noteq> 0xFF then Unknown
     else if i < 513 then Data (i + 1) b m else if m then Sending (b + 1) m else Idle)"
| "mode_next am (Busy b m) x r = (if x = 0xFF then if r = 0xFF then Await b m else Busy b m else Unknown)"
| "mode_next am (Await b m) x r = (if x = 0xFF then if r = 0xFF then Await b m else Busy b m
     else if x = (if m then 0xFC else 0xFE) then Recv [] b m
     else if x = 0xFD \<and> m then Idle else Unknown)"
| "mode_next am (Recv bs b m) x r = (if length bs < 513 then Recv (bs @ [x]) b m else DataResp (bs @ [x]) b m)"
| "mode_next am (DataResp bs b m) x r = (if x \<noteq> 0xFF then Unknown
     else if r AND 0x1F = 0x05 then if m then Busy (b + 1) m else Idle
     else if m then Busy b m else Unknown)"
| "mode_next am Unknown x r = Unknown"

text \<open>
  A block is stored when its data response accepts it. Nothing is said of the content of a
  block that is rejected: the driver reports an error then.
\<close>

definition card_next :: "(u32 \<Rightarrow> nat) \<Rightarrow> card \<Rightarrow> u8 \<Rightarrow> u8 \<Rightarrow> card" where
  "card_next am c x r =
     (if \<not> selected c then c
      else c\<lparr>mode := mode_next am (mode c) x r,
        store := (case mode c of
            DataResp bs b m \<Rightarrow> if r AND 0x1F = 0x05 then (store c)(b := take 512 bs) else store c
          | _ \<Rightarrow> store c)\<rparr>)"

text \<open>What a card may answer: a response within nine bytes, and the content of the blocks.\<close>

definition card_ok :: "card \<Rightarrow> u8 \<Rightarrow> u8 \<Rightarrow> bool" where
  "card_ok c x r = (selected c \<and> x = 0xFF \<longrightarrow>
     (case mode c of
        Resp cmd arg n \<Rightarrow> r AND 0x80 \<noteq> 0 \<longrightarrow> n < 8
      | Data i b m \<Rightarrow> i < 512 \<longrightarrow> r = store c b ! i
      | _ \<Rightarrow> True))"

text \<open>When a card makes the driver wait: busy, or before a block it sends.\<close>

definition lagging :: "card \<Rightarrow> u8 \<Rightarrow> u8 \<Rightarrow> bool" where
  "lagging c x r = (selected c \<and> x = 0xFF \<and>
     (case mode c of
        Idle \<Rightarrow> r \<noteq> 0xFF | Ready \<Rightarrow> r \<noteq> 0xFF | Busy b m \<Rightarrow> r \<noteq> 0xFF | Await b m \<Rightarrow> r \<noteq> 0xFF
      | Sending b m \<Rightarrow> r = 0xFF | _ \<Rightarrow> False))"

text \<open>A card that does what it is asked: it accepts commands and data, and sends no error token.\<close>

definition card_willing :: "card \<Rightarrow> u8 \<Rightarrow> u8 \<Rightarrow> bool" where
  "card_willing c x r = (selected c \<and> x = 0xFF \<longrightarrow>
     (case mode c of
        Resp cmd arg n \<Rightarrow> r AND 0x80 = 0 \<longrightarrow> r = 0
      | Sending b m \<Rightarrow> r = 0xFF \<or> r = 0xFE
      | DataResp bs b m \<Rightarrow> r AND 0x1F = 0x05
      | _ \<Rightarrow> True))"

text \<open>
  The level of the chip select pin; low selects. A card that is in the middle of something is
  lost with it.
\<close>

definition card_select :: "bool \<Rightarrow> card \<Rightarrow> card" where
  "card_select b c = c\<lparr>selected := \<not> b, mode := (if mode c \<in> {Idle, Ready} then Idle else Unknown)\<rparr>"

section \<open>The documented hardware\<close>

text \<open>
  The view of the hardware: the device on the wire (\<open>k_slave\<close>), the state of the SPI controller
  (\<open>k_view\<close>, \<open>k_pat\<close>), what the chip select does to the device (\<open>k_cs\<close>), and of the device the
  state of the card (\<open>k_card\<close>), how long it still makes wait (\<open>k_lag\<close>) and the block number an
  argument means (\<open>k_block\<close>).
\<close>

record ('d, 'w) sd_view =
  k_slave :: "'w slave"
  k_view :: "'d \<Rightarrow> 'w pl022"
  k_pat :: "'d \<Rightarrow> nat"
  k_cs :: "bool \<Rightarrow> 'w \<Rightarrow> 'w"
  k_card :: "'w \<Rightarrow> card"
  k_lag :: "'w \<Rightarrow> nat"
  k_block :: "u32 \<Rightarrow> nat"

definition sd_documented :: "'d spi_dev \<Rightarrow> 'd sd_pins \<Rightarrow> ('d, 'w) sd_view \<Rightarrow> bool" where
  "sd_documented D G K \<longleftrightarrow>
     spi_documented D (k_slave K) (k_view K) (k_pat K) \<and>
     (\<forall>d w b. k_view K d = \<lparr>tx_fifo = [], rx_fifo = [], wire = w\<rparr> \<longrightarrow>
        k_view K (cs_put G b d) = \<lparr>tx_fifo = [], rx_fifo = [], wire = k_cs K b w\<rparr>) \<and>
     (\<forall>w b. k_card K (k_cs K b w) = card_select b (k_card K w)) \<and>
     (\<forall>w x r w'. k_slave K (ucast (x :: u8)) w = (r, w') \<longrightarrow>
        card_ok (k_card K w) x (ucast r) \<and> k_card K w' = card_next (k_block K) (k_card K w) x (ucast r) \<and>
        (lagging (k_card K w) x (ucast r) \<longrightarrow> k_lag K w' < k_lag K w))"

text \<open>A willing card that also never makes the driver wait.\<close>

definition willing :: "('d, 'w) sd_view \<Rightarrow> bool" where
  "willing K \<longleftrightarrow> (\<forall>w. k_lag K w = 0) \<and>
     (\<forall>w x r w'. k_slave K (ucast (x :: u8)) w = (r, w') \<longrightarrow> card_willing (k_card K w) x (ucast r))"

text \<open>
  \<open>at K s c\<close>: the controller is idle, the card on the wire is in state \<open>c\<close>, and the timer is
  far enough from its end to set timeouts.
\<close>

definition sd_clock_ok :: "timer_state \<Rightarrow> bool" where
  "sd_clock_ok t \<longleftrightarrow> time_ok t \<and> (\<forall>k. uint (raw_time t k) + 2 ^ 32 < 2 ^ 63)"

definition at :: "('d, 'w) sd_view \<Rightarrow> 'd sd_state \<Rightarrow> card \<Rightarrow> bool" where
  "at K s c \<longleftrightarrow> tx_fifo (k_view K (sd_dev s)) = [] \<and> rx_fifo (k_view K (sd_dev s)) = [] \<and>
     k_card K (wire (k_view K (sd_dev s))) = c \<and> sd_clock_ok (sd_timer s)"

definition sd_lag :: "('d, 'w) sd_view \<Rightarrow> 'd sd_state \<Rightarrow> nat" where
  "sd_lag K s = k_lag K (wire (k_view K (sd_dev s)))"

text \<open>The static variables of the driver are the same.\<close>

definition same_vars :: "'d sd_state \<Rightarrow> 'd sd_state \<Rightarrow> bool" where
  "same_vars s s' \<longleftrightarrow> FATFS_SD_Stat s' = FATFS_SD_Stat s \<and> FATFS_SD_CardType s' = FATFS_SD_CardType s"

lemma same_vars_refl [simp]: "same_vars s s"
  by (simp add: same_vars_def)

lemma same_vars_trans: "same_vars s s' \<Longrightarrow> same_vars s' s'' \<Longrightarrow> same_vars s s''"
  by (simp add: same_vars_def)

section \<open>One byte\<close>

lemma sd_spi_send_at:
  assumes doc: "sd_documented D G K" and a: "at K s c"
  shows "\<exists>r s'. sd_spi_send D x s = Some (r, s') \<and> card_ok c x r \<and> at K s' (card_next (k_block K) c x r) \<and>
    same_vars s s' \<and> (lagging c x r \<longrightarrow> sd_lag K s' < sd_lag K s) \<and>
    (willing K \<longrightarrow> card_willing c x r \<and> \<not> lagging c x r)"
proof -
  have spi: "spi_documented D (k_slave K) (k_view K) (k_pat K)"
    using doc by (simp add: sd_documented_def)
  obtain w where w: "k_view K (sd_dev s) = \<lparr>tx_fifo = [], rx_fifo = [], wire = w\<rparr>" "k_card K w = c"
    using a by (cases "k_view K (sd_dev s)") (auto simp: at_def)
  obtain r w' where rw: "k_slave K (ucast x) w = (r, w')"
    by fastforce
  have card: "card_ok c x (ucast r)" "k_card K w' = card_next (k_block K) c x (ucast r)"
      "lagging c x (ucast r) \<longrightarrow> k_lag K w' < k_lag K w"
    using doc rw w(2) unfolding sd_documented_def by blast+
  have will: "willing K \<longrightarrow> card_willing c x (ucast r) \<and> \<not> lagging c x (ucast r)"
    using card(3) rw w(2) unfolding willing_def by fastforce
  obtain d' where "spi_write_read_blocking D [x] (sd_dev s) = Some ([ucast r], d')"
      "k_view K d' = \<lparr>tx_fifo = [], rx_fifo = [], wire = w'\<rparr>"
    using conjunct1 [OF spi_transfers_exchange [OF spi w(1), of "[x]"]] rw by auto
  then have "sd_spi_send D x s = Some (ucast r, s\<lparr>sd_dev := d'\<rparr>)" "at K (s\<lparr>sd_dev := d'\<rparr>) (card_next (k_block K) c x (ucast r))"
      "sd_lag K (s\<lparr>sd_dev := d'\<rparr>) = k_lag K w'" "sd_lag K s = k_lag K w"
    using a w card(2) by (auto simp: sd_spi_send_def at_def sd_lag_def)
  then show ?thesis
    using card(1,3) will by (auto simp: same_vars_def)
qed

lemma cs_put_at:
  assumes doc: "sd_documented D G K" and a: "at K s c"
  shows "at K (s\<lparr>sd_dev := cs_put G b (sd_dev s)\<rparr>) (card_select b c)"
proof -
  obtain w where w: "k_view K (sd_dev s) = \<lparr>tx_fifo = [], rx_fifo = [], wire = w\<rparr>" "k_card K w = c"
    using a by (cases "k_view K (sd_dev s)") (auto simp: at_def)
  have "k_view K (cs_put G b (sd_dev s)) = \<lparr>tx_fifo = [], rx_fifo = [], wire = k_cs K b w\<rparr>"
      "k_card K (k_cs K b w) = card_select b c"
    using doc w unfolding sd_documented_def by blast+
  then show ?thesis
    using a by (simp add: at_def)
qed

section \<open>Clock and timeouts\<close>

lemma time_left_at:
  assumes "at K s c"
  shows "\<exists>b s'. time_left t s = Some (b, s') \<and> at K s' c \<and> same_vars s s' \<and> sd_lag K s' = sd_lag K s"
proof -
  have "time_ok (sd_timer s)"
    using assms by (simp add: at_def sd_clock_ok_def)
  then obtain now t' k where "get_absolute_time (sd_timer s) = Some (now, t')" "later (sd_timer s) t'"
    by (rule get_absolute_time_eq) blast
  then show ?thesis
    using assms by (auto simp: time_left_def at_def sd_clock_ok_def later_def same_vars_def sd_lag_def)
qed

lemma sd_timeout_us_at:
  assumes a: "at K s c" and us: "uint us < 2 ^ 32"
  shows "\<exists>t s'. sd_timeout_us us s = Some (t, s') \<and> at K s' c \<and> same_vars s s' \<and> sd_lag K s' = sd_lag K s"
proof -
  have ok: "time_ok (sd_timer s)" "\<forall>k. uint (raw_time (sd_timer s) k) + 2 ^ 32 < 2 ^ 63"
    using a by (simp_all add: at_def sd_clock_ok_def)
  obtain now t' k where now: "get_absolute_time (sd_timer s) = Some (now, t')" "later (sd_timer s) t'"
      "us_since_boot now = raw_time (sd_timer s) k"
    by (rule get_absolute_time_eq [OF ok(1)]) blast
  have "uint (us_since_boot now) + 2 ^ 32 < 2 ^ 63"
    using ok(2) now(3) by simp
  then have "uint (us_since_boot now) + uint us < 2 ^ 63"
    using us by linarith
  then have "delayed_by_us now us = Some (Absolute_time (us_since_boot now + us))"
    by (rule delayed_by_us_in_range)
  then show ?thesis
    using a now by (auto simp: sd_timeout_us_def make_timeout_time_us_def at_def sd_clock_ok_def later_def
        same_vars_def sd_lag_def)
qed

end
