(* ===== verification/Sd_Blocks.thy ===== *)
theory Sd_Blocks
  imports Sd_Protocol
begin

text \<open>
  The steps of the SD card driver on a documented card: selecting it, commands and their
  responses, data blocks in both directions. Each lemma says that the step returns, and in
  which state it leaves the card when it succeeds, which a willing card makes it do.
\<close>

section \<open>Waiting for the card\<close>

lemma wait_ready_loop_at:
  assumes doc: "sd_documented D G K" and pair: "(mb, mr) = (Idle, Ready) \<or> (\<exists>b m. (mb, mr) = (Busy b m, Await b m))"
  shows "at K s c \<Longrightarrow> selected c \<Longrightarrow> mode c \<in> {mb, mr} \<Longrightarrow>
    \<exists>r s'. wait_ready_loop D t s = Some (r, s') \<and> at K s' (c\<lparr>mode := if r = 0xFF then mr else mb\<rparr>) \<and>
      same_vars s s' \<and> (willing K \<longrightarrow> r = 0xFF)"
proof (induction "sd_lag K s" arbitrary: s c rule: less_induct)
  case less
  obtain r s1 where r: "sd_spi_send D 0xFF s = Some (r, s1)" "at K s1 (card_next (k_block K) c 0xFF r)"
      "same_vars s s1" "lagging c 0xFF r \<longrightarrow> sd_lag K s1 < sd_lag K s" "willing K \<longrightarrow> \<not> lagging c 0xFF r"
    using sd_spi_send_at [OF doc less.prems(1)] by blast
  let ?c = "c\<lparr>mode := if r = 0xFF then mr else mb\<rparr>"
  have c1: "card_next (k_block K) c 0xFF r = ?c" and lag: "lagging c 0xFF r \<longleftrightarrow> r \<noteq> 0xFF"
    using less.prems(2,3) pair by (auto simp: card_next_def lagging_def)
  show ?case
  proof (cases "r = 0xFF")
    case True
    then show ?thesis
      using r c1 by (subst wait_ready_loop.simps) auto
  next
    case False
    obtain left s2 where s2: "time_left t s1 = Some (left, s2)" "at K s2 ?c" "same_vars s1 s2" "sd_lag K s2 = sd_lag K s1"
      using time_left_at [OF r(2) [unfolded c1], of t] by blast
    have sv: "same_vars s s2"
      using r(3) s2(3) by (rule same_vars_trans)
    show ?thesis
    proof (cases left)
      case True
      have "sd_lag K s2 < sd_lag K s"
        using s2(4) r(4) lag False by simp
      then obtain r' s' where "wait_ready_loop D t s2 = Some (r', s')"
          "at K s' (?c\<lparr>mode := if r' = 0xFF then mr else mb\<rparr>)" "same_vars s2 s'" "willing K \<longrightarrow> r' = 0xFF"
        using less.hyps [OF _ s2(2)] less.prems(2) by fastforce
      then show ?thesis
        using r(1) s2(1) False True same_vars_trans [OF sv] by (subst wait_ready_loop.simps) auto
    next
      case F: False
      then show ?thesis
        using r(1,5) s2(1,2) False sv lag by (subst wait_ready_loop.simps) auto
    qed
  qed
qed

lemma wait_ready_at:
  assumes doc: "sd_documented D G K" and pair: "(mb, mr) = (Idle, Ready) \<or> (\<exists>b m. (mb, mr) = (Busy b m, Await b m))"
    and a: "at K s c" "selected c" "mode c \<in> {mb, mr}"
  shows "\<exists>ok s'. wait_ready D wt s = Some (ok, s') \<and> at K s' (c\<lparr>mode := if ok then mr else mb\<rparr>) \<and>
    same_vars s s' \<and> (willing K \<longrightarrow> ok)"
proof -
  have "uint (ucast (wt * 1000 :: u32) :: u64) < 2 ^ 32"
  proof -
    have "uint (wt * 1000) < 2 ^ LENGTH(32)"
      by (rule unsigned_less)
    then show ?thesis
      by (simp add: unsigned_ucast_eq take_bit_int_eq_self)
  qed
  then obtain t s1 where s1: "sd_timeout_us (ucast (wt * 1000)) s = Some (t, s1)" "at K s1 c" "same_vars s s1"
    using sd_timeout_us_at [OF a(1)] by blast
  obtain r s2 where "wait_ready_loop D t s1 = Some (r, s2)" "at K s2 (c\<lparr>mode := if r = 0xFF then mr else mb\<rparr>)"
      "same_vars s1 s2" "willing K \<longrightarrow> r = 0xFF"
    using wait_ready_loop_at [OF doc pair s1(2) a(2,3)] by blast
  then show ?thesis
    using s1 same_vars_trans [OF s1(3)] by (auto simp: wait_ready_def)
qed

section \<open>Selecting the card\<close>

lemma deselect_card_at:
  assumes doc: "sd_documented D G K" and a: "at K s c"
  shows "\<exists>s'. deselect_card D G s = Some s' \<and> at K s' (card_select True c) \<and> same_vars s s'"
proof -
  let ?s = "s\<lparr>sd_dev := cs_put G True (sd_dev s)\<rparr>"
  obtain r s' where "sd_spi_send D 0xFF ?s = Some (r, s')" "at K s' (card_next (k_block K) (card_select True c) 0xFF r)"
      "same_vars ?s s'"
    using sd_spi_send_at [OF doc cs_put_at [OF doc a, of True]] by blast
  then show ?thesis
    by (auto simp: deselect_card_def card_next_def card_select_def same_vars_def)
qed

lemma select_card_at:
  assumes doc: "sd_documented D G K" and a: "at K s c" and m: "mode c \<in> {Idle, Ready}"
  shows "\<exists>ok s'. select_card D G s = Some (ok, s') \<and> at K s' (c\<lparr>mode := if ok then Ready else Idle, selected := ok\<rparr>) \<and>
    same_vars s s' \<and> (willing K \<longrightarrow> ok)"
proof -
  let ?s = "s\<lparr>sd_dev := cs_put G False (sd_dev s)\<rparr>"
  have c0: "card_select False c = c\<lparr>mode := Idle, selected := True\<rparr>"
    using m by (auto simp: card_select_def)
  have cs1: "at K ?s (c\<lparr>mode := Idle, selected := True\<rparr>)"
    using cs_put_at [OF doc a, where b = False] c0 by simp
  obtain r s1 where s1: "sd_spi_send D 0xFF ?s = Some (r, s1)"
      "at K s1 (card_next (k_block K) (c\<lparr>mode := Idle, selected := True\<rparr>) 0xFF r)" "same_vars ?s s1"
    using sd_spi_send_at [OF doc cs1, where x = "0xFF"] by blast
  let ?c1 = "c\<lparr>mode := if r = 0xFF then Ready else Idle, selected := True\<rparr>"
  have "card_next (k_block K) (c\<lparr>mode := Idle, selected := True\<rparr>) 0xFF r = ?c1"
    by (simp add: card_next_def)
  then have c1: "at K s1 ?c1"
    using s1(2) by simp
  have sel1: "selected ?c1" "mode ?c1 \<in> {Idle, Ready}"
    by simp_all
  obtain ok s2 where s2: "wait_ready D 500 s1 = Some (ok, s2)" "at K s2 (?c1\<lparr>mode := if ok then Ready else Idle\<rparr>)"
      "same_vars s1 s2" "willing K \<longrightarrow> ok"
    using wait_ready_at [OF doc disjI1 [OF refl] c1 sel1(1) sel1(2)] by blast
  have sv: "same_vars s s2"
    using s1(3) s2(3) by (simp add: same_vars_def)
  show ?thesis
  proof (cases ok)
    case True
    have "at K s2 (c\<lparr>mode := Ready, selected := True\<rparr>)"
      using s2(2) True by (cases c) simp
    then show ?thesis
      using s1(1) s2(1,4) sv True by (auto simp: select_card_def)
  next
    case False
    then obtain s3 where "deselect_card D G s2 = Some s3" "at K s3 (card_select True (?c1\<lparr>mode := Idle\<rparr>))" "same_vars s2 s3"
      using deselect_card_at [OF doc s2(2)] by auto
    moreover have "card_select True (?c1\<lparr>mode := Idle\<rparr>) = c\<lparr>mode := Idle, selected := False\<rparr>"
      by (cases c) (simp add: card_select_def)
    ultimately show ?thesis
      using False s1(1) s2(1,4) same_vars_trans [OF sv] by (auto simp: select_card_def)
  qed
qed

section \<open>Commands\<close>

text \<open>Bytes in the middle of a frame.\<close>

lemma send_in_frame:
  assumes doc: "sd_documented D G K" and a: "at K s c" and m: "selected c" "mode c = Cmd bs" "length bs < 5"
  shows "\<exists>r s'. sd_spi_send D x s = Some (r, s') \<and> at K s' (c\<lparr>mode := Cmd (bs @ [x])\<rparr>) \<and> same_vars s s'"
proof -
  obtain r s' where "sd_spi_send D x s = Some (r, s')" "at K s' (card_next (k_block K) c x r)" "same_vars s s'"
    using sd_spi_send_at [OF doc a, of x] by blast
  moreover have "card_next (k_block K) c x r = c\<lparr>mode := Cmd (bs @ [x])\<rparr>"
    using m by (simp add: card_next_def)
  ultimately show ?thesis
    by auto
qed

lemma frame_arg_bytes:
  "frame_arg [x, ucast (drop_bit 24 arg), ucast (drop_bit 16 arg), ucast (drop_bit 8 arg), ucast arg] = arg"
proof (rule bit_word_eqI)
  fix n assume "n < LENGTH(32)"
  then consider "n < 8" | "8 \<le> n" "n < 16" | "16 \<le> n" "n < 24" | "24 \<le> n" "n < 32"
    by fastforce
  then show "bit (frame_arg [x, ucast (drop_bit 24 arg), ucast (drop_bit 16 arg), ucast (drop_bit 8 arg), ucast arg]) n = bit arg n"
    by cases (auto simp: frame_arg_def bit_simps dest: less_imp_diff_less)
qed

lemma send_frame_at:
  assumes doc: "sd_documented D G K" and a: "at K s c" and m: "selected c"
    and first: "\<And>r. mode_next (k_block K) (mode c) (0x40 OR cmd) r = Cmd [0x40 OR cmd]"
    and st: "\<forall>bs b m. mode c \<noteq> DataResp bs b m"
  shows "\<exists>s'. send_frame D cmd arg s = Some s' \<and> same_vars s s' \<and>
    at K s' (c\<lparr>mode := if 0x40 OR cmd = 0x4C then Stuff else Resp ((0x40 OR cmd) AND 0x3F) arg 0\<rparr>)"
proof -
  let ?x = "0x40 OR cmd"
  have c1: "card_next (k_block K) c ?x r = c\<lparr>mode := Cmd [?x]\<rparr>" for r
  proof -
    have "(case mode c of DataResp bs b m \<Rightarrow> if r AND 0x1F = 0x05 then (store c)(b := take 512 bs) else store c
          | _ \<Rightarrow> store c) = store c"
      using st by (cases "mode c") auto
    then show ?thesis
      using first [of r] m by (simp add: card_next_def)
  qed
  obtain r1 s1 where s1: "sd_spi_send D ?x s = Some (r1, s1)" "at K s1 (c\<lparr>mode := Cmd [?x]\<rparr>)" "same_vars s s1"
    using sd_spi_send_at [OF doc a, of ?x] unfolding c1 by blast
  obtain r2 s2 where s2: "sd_spi_send D (ucast (drop_bit 24 arg)) s1 = Some (r2, s2)"
      "at K s2 (c\<lparr>mode := Cmd [?x, ucast (drop_bit 24 arg)]\<rparr>)" "same_vars s1 s2"
    using send_in_frame [OF doc s1(2), of "[?x]" "ucast (drop_bit 24 arg)"] m by simp blast
  obtain r3 s3 where s3: "sd_spi_send D (ucast (drop_bit 16 arg)) s2 = Some (r3, s3)"
      "at K s3 (c\<lparr>mode := Cmd [?x, ucast (drop_bit 24 arg), ucast (drop_bit 16 arg)]\<rparr>)" "same_vars s2 s3"
    using send_in_frame [OF doc s2(2), of "[?x, ucast (drop_bit 24 arg)]" "ucast (drop_bit 16 arg)"] m by simp blast
  obtain r4 s4 where s4: "sd_spi_send D (ucast (drop_bit 8 arg)) s3 = Some (r4, s4)"
      "at K s4 (c\<lparr>mode := Cmd [?x, ucast (drop_bit 24 arg), ucast (drop_bit 16 arg), ucast (drop_bit 8 arg)]\<rparr>)" "same_vars s3 s4"
    using send_in_frame [OF doc s3(2), of "[?x, ucast (drop_bit 24 arg), ucast (drop_bit 16 arg)]" "ucast (drop_bit 8 arg)"] m by simp blast
  let ?bs = "[?x, ucast (drop_bit 24 arg), ucast (drop_bit 16 arg), ucast (drop_bit 8 arg), ucast arg]"
  obtain r5 s5 where s5: "sd_spi_send D (ucast arg) s4 = Some (r5, s5)" "at K s5 (c\<lparr>mode := Cmd ?bs\<rparr>)" "same_vars s4 s5"
    using send_in_frame [OF doc s4(2), of "[?x, ucast (drop_bit 24 arg), ucast (drop_bit 16 arg), ucast (drop_bit 8 arg)]" "ucast arg"] m by simp blast
  let ?n = "let n = 0x01; n = (if cmd = CMD0 then 0x95 else n) in if cmd = CMD8 then 0x87 else n"
  obtain r6 s6 where s6: "sd_spi_send D ?n s5 = Some (r6, s6)" "at K s6 (card_next (k_block K) (c\<lparr>mode := Cmd ?bs\<rparr>) ?n r6)" "same_vars s5 s6"
    using sd_spi_send_at [OF doc s5(2)] by blast
  have "card_next (k_block K) (c\<lparr>mode := Cmd ?bs\<rparr>) ?n r6 =
      c\<lparr>mode := if ?x = 0x4C then Stuff else Resp (?x AND 0x3F) arg 0\<rparr>"
    using m by (simp add: card_next_def frame_arg_bytes)
  moreover have "send_frame D cmd arg s = Some s6"
    using s1(1) s2(1) s3(1) s4(1) s5(1) s6(1) by (simp add: send_frame_def Let_def)
  moreover have "same_vars s s6"
    using s1(3) s2(3) s3(3) s4(3) s5(3) s6(3) by (simp add: same_vars_def)
  ultimately show ?thesis
    using s6(2) by auto
qed

lemma resp_loop_at:
  assumes doc: "sd_documented D G K"
  shows "at K s c \<Longrightarrow> selected c \<Longrightarrow> mode c = Resp cmd arg n \<Longrightarrow> n + k = 9 \<Longrightarrow>
    \<exists>r s'. resp_loop D k s = Some (r, s') \<and> at K s' (c\<lparr>mode := if r = 0 then accepted (k_block K) cmd arg else Idle\<rparr>) \<and>
      same_vars s s' \<and> (willing K \<longrightarrow> r = 0)"
proof (induction k arbitrary: s c n)
  case 0
  obtain r s1 where r: "sd_spi_send D 0xFF s = Some (r, s1)" "at K s1 (card_next (k_block K) c 0xFF r)"
      "same_vars s s1" "card_ok c 0xFF r" "willing K \<longrightarrow> card_willing c 0xFF r"
    using sd_spi_send_at [OF doc 0(1)] by blast
  then have "r AND 0x80 = 0"
    using 0 by (auto simp: card_ok_def)
  then show ?case
    using r 0 by (subst resp_loop.simps) (auto simp: card_next_def card_willing_def)
next
  case (Suc k)
  obtain r s1 where r: "sd_spi_send D 0xFF s = Some (r, s1)" "at K s1 (card_next (k_block K) c 0xFF r)"
      "same_vars s s1" "card_ok c 0xFF r" "willing K \<longrightarrow> card_willing c 0xFF r"
    using sd_spi_send_at [OF doc Suc(2)] by blast
  show ?case
  proof (cases "r AND 0x80 = 0")
    case True
    then show ?thesis
      using r Suc.prems by (subst resp_loop.simps) (auto simp: card_next_def card_willing_def)
  next
    case False
    then have c1: "card_next (k_block K) c 0xFF r = c\<lparr>mode := Resp cmd arg (n + 1)\<rparr>"
      using Suc.prems by (simp add: card_next_def)
    obtain r' s' where "resp_loop D k s1 = Some (r', s')" "same_vars s1 s'" "willing K \<longrightarrow> r' = 0"
        "at K s' (c\<lparr>mode := if r' = 0 then accepted (k_block K) cmd arg else Idle\<rparr>)"
      using Suc.IH [of s1 "c\<lparr>mode := Resp cmd arg (n + 1)\<rparr>" "n + 1"] r(2) c1 Suc.prems by auto
    then show ?thesis
      using r(1) False same_vars_trans [OF r(3)] by (subst resp_loop.simps) auto
  qed
qed

section \<open>Whole commands\<close>

text \<open>The commands of the transfers, with their frame bytes.\<close>

definition transfer_cmd :: "u8 \<Rightarrow> bool" where
  "transfer_cmd cmd \<longleftrightarrow> cmd \<in> {17, 18, 23, 24, 25, 55}"

lemma transfer_cmd_frame:
  assumes "transfer_cmd cmd"
  shows "cmd \<noteq> CMD12" "0x40 OR cmd \<noteq> 0xFF" "(0x40 OR cmd) AND 0xC0 = 0x40" "0x40 OR cmd \<noteq> 0x4C"
    "(0x40 OR cmd) AND 0x3F = cmd"
  using assms by (auto simp: transfer_cmd_def CMD12_def)

lemma send_plain_cmd_at:
  assumes doc: "sd_documented D G K" and a: "at K s c" and m: "mode c \<in> {Idle, Ready}" and cmd: "transfer_cmd cmd"
  shows "\<exists>r s' c'. send_plain_cmd D G cmd arg s = Some (r, s') \<and> at K s' c' \<and> same_vars s s' \<and> store c' = store c \<and>
    (r = 0 \<longrightarrow> selected c' \<and> mode c' = accepted (k_block K) cmd arg) \<and> (r \<noteq> 0 \<longrightarrow> mode c' = Idle) \<and>
    (willing K \<longrightarrow> r = 0)"
proof -
  note frame = transfer_cmd_frame [OF cmd]
  obtain s1 where s1: "deselect_card D G s = Some s1" "at K s1 (card_select True c)" "same_vars s s1"
    using deselect_card_at [OF doc a] by blast
  have c1: "mode (card_select True c) \<in> {Idle, Ready}" "store (card_select True c) = store c"
    using m by (auto simp: card_select_def)
  obtain ok s2 where s2: "select_card D G s1 = Some (ok, s2)" "same_vars s1 s2" "willing K \<longrightarrow> ok"
      "at K s2 ((card_select True c)\<lparr>mode := if ok then Ready else Idle, selected := ok\<rparr>)"
    using select_card_at [OF doc s1(2) c1(1)] by blast
  have sv: "same_vars s s2"
    using s1(3) s2(2) by (rule same_vars_trans)
  show ?thesis
  proof (cases ok)
    case False
    then have "send_plain_cmd D G cmd arg s = Some (0xFF, s2)"
      using s1(1) s2(1) frame(1) by (simp add: send_plain_cmd_def)
    then show ?thesis
      using s2(3,4) False sv c1(2) by fastforce
  next
    case True
    let ?c2 = "(card_select True c)\<lparr>mode := Ready, selected := True\<rparr>"
    have a2: "at K s2 ?c2"
      using s2(4) True by simp
    obtain s3 where s3: "send_frame D cmd arg s2 = Some s3" "same_vars s2 s3"
        "at K s3 (?c2\<lparr>mode := if 0x40 OR cmd = 0x4C then Stuff else Resp ((0x40 OR cmd) AND 0x3F) arg 0\<rparr>)"
      using send_frame_at [OF doc a2, of cmd arg] frame by auto
    have a3: "at K s3 (?c2\<lparr>mode := Resp cmd arg 0\<rparr>)"
      using s3(3) frame by simp
    obtain r s4 where s4: "resp_loop D 9 s3 = Some (r, s4)" "same_vars s3 s4" "willing K \<longrightarrow> r = 0"
        "at K s4 (?c2\<lparr>mode := Resp cmd arg 0, mode := if r = 0 then accepted (k_block K) cmd arg else Idle\<rparr>)"
      using resp_loop_at [OF doc a3, of cmd arg 0 9] by auto
    have "send_plain_cmd D G cmd arg s = Some (r, s4)"
      using s1(1) s2(1) s3(1) s4(1) True frame(1) by (simp add: send_plain_cmd_def)
    moreover have "same_vars s s4"
      using sv s3(2) s4(2) by (simp add: same_vars_def)
    ultimately show ?thesis
      using s4(3,4) c1(2) by fastforce
  qed
qed

text \<open>The application command before writing many blocks; whatever its answer, the card is idle.\<close>

lemma send_acmd23_at:
  assumes doc: "sd_documented D G K" and a: "at K s c" and m: "mode c \<in> {Idle, Ready}"
  shows "\<exists>r s' c'. send_cmd D G ACMD23 arg s = Some (r, s') \<and> at K s' c' \<and> same_vars s s' \<and>
    store c' = store c \<and> mode c' = Idle"
proof -
  obtain r s1 c1 where s1: "send_plain_cmd D G CMD55 0 s = Some (r, s1)" "at K s1 c1" "same_vars s s1"
      "store c1 = store c" "r = 0 \<longrightarrow> mode c1 = accepted (k_block K) CMD55 0" "r \<noteq> 0 \<longrightarrow> mode c1 = Idle"
    using send_plain_cmd_at [OF doc a m, of CMD55 0] by (auto simp: transfer_cmd_def CMD55_def)
  then have m1: "mode c1 = Idle"
    by (auto simp: accepted_def CMD55_def)
  have acmd: "ACMD23 AND 0x80 \<noteq> 0" "ACMD23 AND 0x7F = 23"
    by (simp_all add: ACMD23_def)
  show ?thesis
  proof (cases "r > 1")
    case True
    then show ?thesis
      using s1 m1 acmd by (auto simp: send_cmd_def)
  next
    case False
    obtain r2 s2 c2 where s2: "send_plain_cmd D G 23 arg s1 = Some (r2, s2)" "at K s2 c2" "same_vars s1 s2"
        "store c2 = store c1" "r2 = 0 \<longrightarrow> mode c2 = accepted (k_block K) 23 arg" "r2 \<noteq> 0 \<longrightarrow> mode c2 = Idle"
      using send_plain_cmd_at [OF doc s1(2), of 23 arg] m1 by (auto simp: transfer_cmd_def)
    then have "mode c2 = Idle"
      by (auto simp: accepted_def)
    then show ?thesis
      using s1 s2 acmd False same_vars_trans [OF s1(3) s2(3)] by (auto simp: send_cmd_def)
  qed
qed

text \<open>Any single byte, and the command that stops a transfer, return in whatever state the card is.\<close>

lemma send_any:
  "sd_documented D G K \<Longrightarrow> at K s c \<Longrightarrow> \<exists>r s' c'. sd_spi_send D x s = Some (r, s') \<and> at K s' c' \<and> same_vars s s'"
  using sd_spi_send_at by blast

lemma resp_loop_any:
  assumes doc: "sd_documented D G K"
  shows "at K s c \<Longrightarrow> \<exists>r s' c'. resp_loop D k s = Some (r, s') \<and> at K s' c' \<and> same_vars s s'"
proof (induction k arbitrary: s c)
  case 0
  then show ?case
    using send_any [OF doc 0, of "0xFF"] by (subst resp_loop.simps) auto
next
  case (Suc k)
  obtain r s1 c1 where s1: "sd_spi_send D 0xFF s = Some (r, s1)" "at K s1 c1" "same_vars s s1"
    using send_any [OF doc Suc.prems] by blast
  show ?case
    using Suc.IH [OF s1(2)] s1 same_vars_trans [OF s1(3)] by (subst resp_loop.simps) fastforce
qed

lemma send_frame_any:
  assumes doc: "sd_documented D G K" and a: "at K s c"
  shows "\<exists>s' c'. send_frame D cmd arg s = Some s' \<and> at K s' c' \<and> same_vars s s'"
proof -
  note any = send_any [OF doc]
  obtain r1 s1 c1 where s1: "sd_spi_send D (0x40 OR cmd) s = Some (r1, s1)" "at K s1 c1" "same_vars s s1"
    using any [OF a] by blast
  obtain r2 s2 c2 where s2: "sd_spi_send D (ucast (drop_bit 24 arg)) s1 = Some (r2, s2)" "at K s2 c2" "same_vars s1 s2"
    using any [OF s1(2)] by blast
  obtain r3 s3 c3 where s3: "sd_spi_send D (ucast (drop_bit 16 arg)) s2 = Some (r3, s3)" "at K s3 c3" "same_vars s2 s3"
    using any [OF s2(2)] by blast
  obtain r4 s4 c4 where s4: "sd_spi_send D (ucast (drop_bit 8 arg)) s3 = Some (r4, s4)" "at K s4 c4" "same_vars s3 s4"
    using any [OF s3(2)] by blast
  obtain r5 s5 c5 where s5: "sd_spi_send D (ucast arg) s4 = Some (r5, s5)" "at K s5 c5" "same_vars s4 s5"
    using any [OF s4(2)] by blast
  let ?n = "let n = 0x01; n = (if cmd = CMD0 then 0x95 else n) in if cmd = CMD8 then 0x87 else n"
  obtain r6 s6 c6 where s6: "sd_spi_send D ?n s5 = Some (r6, s6)" "at K s6 c6" "same_vars s5 s6"
    using any [OF s5(2)] by blast
  have "send_frame D cmd arg s = Some s6"
    using s1(1) s2(1) s3(1) s4(1) s5(1) s6(1) by (simp add: send_frame_def Let_def)
  moreover have "same_vars s s6"
    using s1(3) s2(3) s3(3) s4(3) s5(3) s6(3) by (simp add: same_vars_def)
  ultimately show ?thesis
    using s6(2) by blast
qed

lemma cmd12_any:
  assumes doc: "sd_documented D G K" and a: "at K s c"
  shows "\<exists>r s' c'. send_cmd D G CMD12 0 s = Some (r, s') \<and> at K s' c' \<and> same_vars s s'"
proof -
  obtain s1 c1 where s1: "send_frame D CMD12 0 s = Some s1" "at K s1 c1" "same_vars s s1"
    using send_frame_any [OF doc a] by blast
  obtain r2 s2 c2 where s2: "sd_spi_send D 0xFF s1 = Some (r2, s2)" "at K s2 c2" "same_vars s1 s2"
    using send_any [OF doc s1(2)] by blast
  obtain r3 s3 c3 where s3: "resp_loop D 9 s2 = Some (r3, s3)" "at K s3 c3" "same_vars s2 s3"
    using resp_loop_any [OF doc s2(2)] by blast
  have "send_cmd D G CMD12 0 s = Some (r3, s3)"
    using s1(1) s2(1) s3(1) by (simp add: send_cmd_def send_plain_cmd_def CMD12_def)
  then show ?thesis
    using s3(2) s1(3) s2(3) s3(3) by (auto simp: same_vars_def)
qed

lemma cmd12_at:
  assumes doc: "sd_documented D G K" and a: "at K s c" and m: "selected c" "mode c = Sending b True"
  shows "\<exists>r s' c'. send_cmd D G CMD12 0 s = Some (r, s') \<and> at K s' c' \<and> same_vars s s' \<and>
    store c' = store c \<and> mode c' = Idle"
proof -
  have cmd: "0x40 OR CMD12 = 0x4C"
    by (simp add: CMD12_def)
  obtain s1 where s1: "send_frame D CMD12 0 s = Some s1" "at K s1 (c\<lparr>mode := Stuff\<rparr>)" "same_vars s s1"
    using send_frame_at [OF doc a m(1), of CMD12 0] m(2) cmd by auto
  obtain r2 s2 where s2: "sd_spi_send D 0xFF s1 = Some (r2, s2)" "at K s2 (card_next (k_block K) (c\<lparr>mode := Stuff\<rparr>) 0xFF r2)"
      "same_vars s1 s2"
    using sd_spi_send_at [OF doc s1(2)] by blast
  have a2: "at K s2 (c\<lparr>mode := Resp 12 0 0\<rparr>)"
    using s2(2) m(1) by (simp add: card_next_def)
  obtain r3 s3 where s3: "resp_loop D 9 s2 = Some (r3, s3)" "same_vars s2 s3"
      "at K s3 (c\<lparr>mode := if r3 = 0 then accepted (k_block K) 12 0 else Idle\<rparr>)"
    using resp_loop_at [OF doc a2, of 12 0 0 9] m(1) by auto
  have "send_cmd D G CMD12 0 s = Some (r3, s3)"
    using s1(1) s2(1) s3(1) by (simp add: send_cmd_def send_plain_cmd_def CMD12_def)
  then show ?thesis
    using s3(3) s1(3) s2(3) s3(2) by (auto simp: same_vars_def accepted_def)
qed

end
