(* ===== verification/Sd_Transfers.thy ===== *)
theory Sd_Transfers
  imports Sd_Blocks
begin

text \<open>
  Data blocks on a documented card: what the driver receives is the content of the blocks from
  the one the command named, and what it sends is what the card stores.
\<close>

section \<open>Receiving a block\<close>

lemma token_loop_at:
  assumes doc: "sd_documented D G K"
  shows "at K s c \<Longrightarrow> selected c \<Longrightarrow> mode c = Sending b m \<Longrightarrow>
    \<exists>r s' c'. token_loop D t s = Some (r, s') \<and> at K s' c' \<and> same_vars s s' \<and>
      (r = 0xFE \<longrightarrow> c' = c\<lparr>mode := Data 0 b m\<rparr>) \<and> (willing K \<longrightarrow> r = 0xFE)"
proof (induction "sd_lag K s" arbitrary: s rule: less_induct)
  case less
  obtain r s1 where r: "sd_spi_send D 0xFF s = Some (r, s1)" "at K s1 (card_next (k_block K) c 0xFF r)" "same_vars s s1"
      "lagging c 0xFF r \<longrightarrow> sd_lag K s1 < sd_lag K s" "willing K \<longrightarrow> card_willing c 0xFF r \<and> \<not> lagging c 0xFF r"
    using sd_spi_send_at [OF doc less.prems(1)] by blast
  have lag: "lagging c 0xFF r \<longleftrightarrow> r = 0xFF" and will: "card_willing c 0xFF r \<longrightarrow> r = 0xFF \<or> r = 0xFE"
    using less.prems(2,3) by (simp_all add: lagging_def card_willing_def)
  show ?case
  proof (cases "r = 0xFF")
    case False
    have fe: "r = 0xFE \<longrightarrow> card_next (k_block K) c 0xFF r = c\<lparr>mode := Data 0 b m\<rparr>"
      using less.prems(2,3) by (simp add: card_next_def)
    have "token_loop D t s = Some (r, s1)"
      using r(1) False by (subst token_loop.simps) simp
    then show ?thesis
      using r(2,3,5) fe will False by blast
  next
    case True
    have c1: "card_next (k_block K) c 0xFF r = c"
      using True less.prems(2,3) by (cases c) (simp add: card_next_def)
    obtain left s2 where s2: "time_left t s1 = Some (left, s2)" "at K s2 c" "same_vars s1 s2" "sd_lag K s2 = sd_lag K s1"
      using time_left_at [OF r(2) [unfolded c1], of t] by blast
    have sv: "same_vars s s2"
      using r(3) s2(3) by (rule same_vars_trans)
    show ?thesis
    proof (cases left)
      case L: True
      have "sd_lag K s2 < sd_lag K s"
        using s2(4) r(4) lag True by simp
      from less.hyps [OF this s2(2) less.prems(2,3)]
      obtain r' s' c' where IH: "token_loop D t s2 = Some (r', s')" "at K s' c'" "same_vars s2 s'"
          "r' = 0xFE \<longrightarrow> c' = c\<lparr>mode := Data 0 b m\<rparr>" "willing K \<longrightarrow> r' = 0xFE"
        by blast
      have "token_loop D t s = Some (r', s')"
        using r(1) s2(1) True L IH(1) by (subst token_loop.simps) simp
      then show ?thesis
        using IH(2,4,5) same_vars_trans [OF sv IH(3)] by blast
    next
      case L: False
      have "token_loop D t s = Some (r, s2)"
        using r(1) s2(1) True L by (subst token_loop.simps) simp
      then show ?thesis
        using s2(2) sv r(5) lag True by force
    qed
  qed
qed

lemma answers_of_block:
  assumes doc: "sd_documented D G K"
  shows "k_card K w = c \<Longrightarrow> selected c \<Longrightarrow> mode c = Data i b m \<Longrightarrow> length (store c b) = 512 \<Longrightarrow> i + n \<le> 512 \<Longrightarrow>
    answers (k_slave K) (replicate n (ucast (0xFF :: u8))) w = (rs, w') \<Longrightarrow>
    map ucast rs = take n (drop i (store c b)) \<and> k_card K w' = c\<lparr>mode := Data (i + n) b m\<rparr>"
proof (induction n arbitrary: w c i rs)
  case 0
  then show ?case
    by (cases c) auto
next
  case (Suc n)
  obtain r w1 where r: "k_slave K (ucast (0xFF :: u8)) w = (r, w1)"
    by fastforce
  obtain rs' where rs: "answers (k_slave K) (replicate n (ucast (0xFF :: u8))) w1 = (rs', w')" "rs = r # rs'"
    using Suc.prems(6) r by (auto simp: Let_def split: prod.splits)
  have "card_ok c 0xFF (ucast r)" "k_card K w1 = card_next (k_block K) c 0xFF (ucast r)"
    using doc r Suc.prems(1) unfolding sd_documented_def by blast+
  then have one: "ucast r = store c b ! i" "k_card K w1 = c\<lparr>mode := Data (i + 1) b m\<rparr>"
    using Suc.prems by (simp_all add: card_ok_def card_next_def)
  have "map ucast rs' = take n (drop (i + 1) (store c b)) \<and>
      k_card K w' = c\<lparr>mode := Data (i + 1) b m, mode := Data (i + 1 + n) b m\<rparr>"
    using Suc.IH [OF one(2) _ _ _ _ rs(1), of "i + 1"] Suc.prems(2,4,5) by simp
  moreover have "drop i (store c b) = store c b ! i # drop (i + 1) (store c b)"
    using Suc.prems(4,5) by (simp add: Cons_nth_drop_Suc)
  ultimately show ?case
    using one rs(2) by simp
qed

lemma rcvr_spi_multi_at:
  assumes doc: "sd_documented D G K" and a: "at K s c" and m: "selected c" "mode c = Data 0 b m" "length (store c b) = 512"
  shows "\<exists>s'. rcvr_spi_multi D 512 s = Some (store c b, s') \<and> at K s' (c\<lparr>mode := Data 512 b m\<rparr>) \<and> same_vars s s'"
proof -
  have spi: "spi_documented D (k_slave K) (k_view K) (k_pat K)"
    using doc by (simp add: sd_documented_def)
  obtain w where w: "k_view K (sd_dev s) = \<lparr>tx_fifo = [], rx_fifo = [], wire = w\<rparr>" "k_card K w = c"
    using a by (cases "k_view K (sd_dev s)") (auto simp: at_def)
  obtain rs w' where rs: "answers (k_slave K) (replicate 512 (ucast (0xFF :: u8))) w = (rs, w')"
    by fastforce
  have res: "map ucast rs = store c b" "k_card K w' = c\<lparr>mode := Data 512 b m\<rparr>"
    using answers_of_block [OF doc w(2) m(1,2,3) _ rs] m(3) by simp_all
  obtain d' where "spi_read_blocking D 0xFF 512 (sd_dev s) = Some (map ucast (fst (answers (k_slave K) (replicate 512 (ucast (0xFF :: u8))) w)), d')"
      "k_view K d' = \<lparr>tx_fifo = [], rx_fifo = [], wire = snd (answers (k_slave K) (replicate 512 (ucast (0xFF :: u8))) w)\<rparr>"
    using conjunct1 [OF conjunct2 [OF spi_transfers_exchange [OF spi w(1)]]] by blast
  then show ?thesis
    using a rs res by (auto simp: rcvr_spi_multi_def at_def same_vars_def)
qed

lemma rcvr_datablock_at:
  assumes doc: "sd_documented D G K" and a: "at K s c" and m: "selected c" "mode c = Sending b m" "length (store c b) = 512"
  shows "\<exists>x s' c'. rcvr_datablock D 512 s = Some (x, s') \<and> at K s' c' \<and> same_vars s s' \<and>
    (x \<noteq> None \<longrightarrow> x = Some (store c b) \<and> c' = c\<lparr>mode := if m then Sending (b + 1) m else Idle\<rparr>) \<and>
    (willing K \<longrightarrow> x \<noteq> None)"
proof -
  obtain t s1 where s1: "sd_timeout_us (200 * 1000) s = Some (t, s1)" "at K s1 c" "same_vars s s1"
    using sd_timeout_us_at [OF a, of "200 * 1000"] by auto
  obtain r s2 c2 where s2: "token_loop D t s1 = Some (r, s2)" "at K s2 c2" "same_vars s1 s2"
      "r = 0xFE \<longrightarrow> c2 = c\<lparr>mode := Data 0 b m\<rparr>" "willing K \<longrightarrow> r = 0xFE"
    using token_loop_at [OF doc s1(2) m(1,2)] by blast
  have sv2: "same_vars s s2"
    using s1(3) s2(3) by (rule same_vars_trans)
  show ?thesis
  proof (cases "r = 0xFE")
    case False
    then have "rcvr_datablock D 512 s = Some (None, s2)"
      using s1(1) s2(1) by (simp add: rcvr_datablock_def)
    then show ?thesis
      using s2(2,5) sv2 False by blast
  next
    case True
    have a2: "at K s2 (c\<lparr>mode := Data 0 b m\<rparr>)"
      using s2(2,4) True by simp
    obtain s3 where s3: "rcvr_spi_multi D 512 s2 = Some (store c b, s3)" "at K s3 (c\<lparr>mode := Data 512 b m\<rparr>)" "same_vars s2 s3"
      using rcvr_spi_multi_at [OF doc a2, of b m] m by auto
    obtain r4 s4 where s4: "sd_spi_send D 0xFF s3 = Some (r4, s4)"
        "at K s4 (card_next (k_block K) (c\<lparr>mode := Data 512 b m\<rparr>) 0xFF r4)" "same_vars s3 s4"
      using sd_spi_send_at [OF doc s3(2)] by blast
    have a4: "at K s4 (c\<lparr>mode := Data 513 b m\<rparr>)"
      using s4(2) m(1) by (simp add: card_next_def)
    obtain r5 s5 where s5: "sd_spi_send D 0xFF s4 = Some (r5, s5)"
        "at K s5 (card_next (k_block K) (c\<lparr>mode := Data 513 b m\<rparr>) 0xFF r5)" "same_vars s4 s5"
      using sd_spi_send_at [OF doc a4] by blast
    have a5: "at K s5 (c\<lparr>mode := if m then Sending (b + 1) m else Idle\<rparr>)"
      using s5(2) m(1) by (simp add: card_next_def)
    have "rcvr_datablock D 512 s = Some (Some (store c b), s5)"
      using s1(1) s2(1) s3(1) s4(1) s5(1) True by (simp add: rcvr_datablock_def)
    moreover have "same_vars s s5"
      using sv2 s3(3) s4(3) s5(3) by (simp add: same_vars_def)
    ultimately show ?thesis
      using a5 by blast
  qed
qed

lemma read_blocks_at:
  assumes doc: "sd_documented D G K"
  shows "at K s c \<Longrightarrow> selected c \<Longrightarrow> mode c = Sending b True \<Longrightarrow> \<forall>i. length (store c i) = 512 \<Longrightarrow>
    \<exists>ok xs s' c'. read_blocks D n buff s = Some (ok, xs, s') \<and> at K s' c' \<and> same_vars s s' \<and>
      (ok \<longrightarrow> xs = buff @ concat (map (store c) [b..<b + n]) \<and> c' = c\<lparr>mode := Sending (b + n) True\<rparr>) \<and>
      (willing K \<longrightarrow> ok)"
proof (induction n arbitrary: s c b buff)
  case 0
  have "c = c\<lparr>mode := Sending (b + 0) True\<rparr>"
    using 0(3) by (cases c) simp
  moreover have "read_blocks D 0 buff s = Some (True, buff, s)" "buff = buff @ concat (map (store c) [b..<b + 0])"
    by simp_all
  ultimately show ?case
    using 0(1) same_vars_refl by blast
next
  case (Suc n)
  obtain x s1 c1 where s1: "rcvr_datablock D 512 s = Some (x, s1)" "at K s1 c1" "same_vars s s1"
      "x \<noteq> None \<longrightarrow> x = Some (store c b) \<and> c1 = c\<lparr>mode := if True then Sending (b + 1) True else Idle\<rparr>"
      "willing K \<longrightarrow> x \<noteq> None"
    using rcvr_datablock_at [OF doc Suc.prems(1-3)] Suc.prems(4) by blast
  show ?case
  proof (cases x)
    case None
    then have "read_blocks D (Suc n) buff s = Some (False, buff, s1)"
      using s1(1) by simp
    then show ?thesis
      using s1(2,3,5) None by blast
  next
    case (Some xs)
    then have x: "xs = store c b" and c1: "c1 = c\<lparr>mode := Sending (b + 1) True\<rparr>"
      using s1(4) by simp_all
    have p: "selected c1" "mode c1 = Sending (b + 1) True" "\<forall>i. length (store c1 i) = 512"
      using c1 Suc.prems(2,4) by simp_all
    from Suc.IH [OF s1(2) p] obtain ok ys s' c' where IH: "read_blocks D n (buff @ xs) s1 = Some (ok, ys, s')" "at K s' c'"
        "same_vars s1 s'" "ok \<longrightarrow> ys = (buff @ xs) @ concat (map (store c1) [b + 1..<b + 1 + n]) \<and> c' = c1\<lparr>mode := Sending (b + 1 + n) True\<rparr>"
        "willing K \<longrightarrow> ok"
      by blast
    have "ok \<longrightarrow> ys = buff @ concat (map (store c) [b..<b + Suc n]) \<and> c' = c\<lparr>mode := Sending (b + Suc n) True\<rparr>"
      using IH(4) x c1 by (auto simp: upt_rec [of b "Suc (b + n)"] simp del: upt_Suc)
    moreover have "read_blocks D (Suc n) buff s = Some (ok, ys, s')"
      using s1(1) Some IH(1) by simp
    ultimately show ?thesis
      using IH(2,5) same_vars_trans [OF s1(3) IH(3)] by blast
  qed
qed

section \<open>Sending a block\<close>

lemma answers_to_block:
  assumes doc: "sd_documented D G K"
  shows "k_card K w = c \<Longrightarrow> selected c \<Longrightarrow> mode c = Recv bs b m \<Longrightarrow> length bs + length xs \<le> 513 \<Longrightarrow>
    k_card K (snd (answers (k_slave K) (map ucast xs) w)) = c\<lparr>mode := Recv (bs @ xs) b m\<rparr>"
proof (induction xs arbitrary: w c bs)
  case Nil
  then show ?case
    by (cases c) auto
next
  case (Cons x xs)
  obtain r w1 where r: "k_slave K (ucast x) w = (r, w1)"
    by fastforce
  have "k_card K w1 = card_next (k_block K) c x (ucast r)"
    using doc r Cons.prems(1) unfolding sd_documented_def by blast
  then have one: "k_card K w1 = c\<lparr>mode := Recv (bs @ [x]) b m\<rparr>"
    using Cons.prems by (simp add: card_next_def)
  then show ?case
    using Cons.IH [OF one] Cons.prems r by (cases "answers (k_slave K) (map ucast xs) w1") simp
qed

lemma xmit_spi_multi_at:
  assumes doc: "sd_documented D G K" and a: "at K s c" and m: "selected c" "mode c = Recv [] b m" "length xs \<le> 513"
  shows "\<exists>s'. xmit_spi_multi D xs s = Some s' \<and> at K s' (c\<lparr>mode := Recv xs b m\<rparr>) \<and> same_vars s s'"
proof -
  have spi: "spi_documented D (k_slave K) (k_view K) (k_pat K)"
    using doc by (simp add: sd_documented_def)
  obtain w where w: "k_view K (sd_dev s) = \<lparr>tx_fifo = [], rx_fifo = [], wire = w\<rparr>" "k_card K w = c"
    using a by (cases "k_view K (sd_dev s)") (auto simp: at_def)
  obtain d' where "spi_write_blocking D xs (sd_dev s) = Some d'"
      "k_view K d' = \<lparr>tx_fifo = [], rx_fifo = [], wire = snd (answers (k_slave K) (map ucast xs) w)\<rparr>"
    using conjunct1 [OF conjunct2 [OF conjunct2 [OF spi_transfers_exchange [OF spi w(1)]]]] by blast
  then show ?thesis
    using a answers_to_block [OF doc w(2) m(1,2)] m(3) by (auto simp: xmit_spi_multi_def at_def same_vars_def)
qed

text \<open>The token that starts a block, and the one that ends a multiple write.\<close>

lemma xmit_datablock_at:
  assumes doc: "sd_documented D G K" and a: "at K s c" and m: "selected c" "mode c \<in> {Busy b m, Await b m}"
    and buff: "length buff \<ge> 512" and token: "token = (if m then 0xFC else 0xFE)"
  shows "\<exists>ok s' c'. xmit_datablock D buff token s = Some (ok, s') \<and> at K s' c' \<and> same_vars s s' \<and>
    (ok \<longrightarrow> c' = c\<lparr>mode := if m then Busy (b + 1) m else Idle, store := (store c)(b := take 512 buff)\<rparr>) \<and>
    (\<not> ok \<and> m \<longrightarrow> selected c' \<and> mode c' \<in> {Busy b m, Await b m}) \<and> (willing K \<longrightarrow> ok)"
proof -
  obtain ready s1 where s1: "wait_ready D 500 s = Some (ready, s1)" "at K s1 (c\<lparr>mode := if ready then Await b m else Busy b m\<rparr>)"
      "same_vars s s1" "willing K \<longrightarrow> ready"
    using wait_ready_at [OF doc disjI2 a m] by blast
  show ?thesis
  proof (cases ready)
    case False
    then have "xmit_datablock D buff token s = Some (False, s1)"
      using s1(1) by (simp add: xmit_datablock_def)
    then show ?thesis
      using s1 False m(1) by fastforce
  next
    case True
    obtain r2 s2 where s2: "sd_spi_send D token s1 = Some (r2, s2)"
        "at K s2 (card_next (k_block K) (c\<lparr>mode := if ready then Await b m else Busy b m\<rparr>) token r2)" "same_vars s1 s2"
      using sd_spi_send_at [OF doc s1(2)] by blast
    have a2: "at K s2 (c\<lparr>mode := Recv [] b m\<rparr>)"
      using s2(2) True m(1) token by (simp add: card_next_def split: if_splits)
    let ?x = "take 512 buff"
    obtain s3 where s3: "xmit_spi_multi D ?x s2 = Some s3" "at K s3 (c\<lparr>mode := Recv ?x b m\<rparr>)" "same_vars s2 s3"
      using xmit_spi_multi_at [OF doc a2, of b m ?x] m(1) buff by (auto simp: min_absorb2)
    obtain r4 s4 where s4: "sd_spi_send D 0xFF s3 = Some (r4, s4)"
        "at K s4 (card_next (k_block K) (c\<lparr>mode := Recv ?x b m\<rparr>) 0xFF r4)" "same_vars s3 s4"
      using sd_spi_send_at [OF doc s3(2)] by blast
    have a4: "at K s4 (c\<lparr>mode := Recv (?x @ [0xFF]) b m\<rparr>)"
      using s4(2) m(1) buff by (simp add: card_next_def min_absorb2)
    obtain r5 s5 where s5: "sd_spi_send D 0xFF s4 = Some (r5, s5)"
        "at K s5 (card_next (k_block K) (c\<lparr>mode := Recv (?x @ [0xFF]) b m\<rparr>) 0xFF r5)" "same_vars s4 s5"
      using sd_spi_send_at [OF doc a4] by blast
    let ?c5 = "c\<lparr>mode := DataResp (?x @ [0xFF, 0xFF]) b m\<rparr>"
    have a5: "at K s5 ?c5"
      using s5(2) m(1) buff by (simp add: card_next_def min_absorb2)
    obtain r6 s6 where s6: "sd_spi_send D 0xFF s5 = Some (r6, s6)" "at K s6 (card_next (k_block K) ?c5 0xFF r6)"
        "same_vars s5 s6" "willing K \<longrightarrow> card_willing ?c5 0xFF r6"
      using sd_spi_send_at [OF doc a5] by blast
    have "same_vars s s6"
      using s1(3) s2(3) s3(3) s4(3) s5(3) s6(3) by (simp add: same_vars_def)
    moreover have "token \<noteq> 0xFD"
      using token by simp
    then have "xmit_datablock D buff token s = Some (r6 AND 0x1F = 0x05, s6)"
      using s1(1) s2(1) s3(1) s4(1) s5(1) s6(1) True buff by (simp add: xmit_datablock_def c_assert_def)
    moreover have "r6 AND 0x1F = 0x05 \<longrightarrow> card_next (k_block K) ?c5 0xFF r6 =
        c\<lparr>mode := if m then Busy (b + 1) m else Idle, store := (store c)(b := take 512 buff)\<rparr>"
      using m(1) buff by (simp add: card_next_def)
    moreover have "r6 AND 0x1F \<noteq> 0x05 \<and> m \<longrightarrow> selected (card_next (k_block K) ?c5 0xFF r6) \<and>
        mode (card_next (k_block K) ?c5 0xFF r6) \<in> {Busy b m, Await b m}"
      using m(1) by (simp add: card_next_def)
    moreover have "willing K \<longrightarrow> r6 AND 0x1F = 0x05"
      using s6(4) m(1) by (simp add: card_willing_def)
    ultimately show ?thesis
      using s6(2) by blast
  qed
qed

lemma stop_token_at:
  assumes doc: "sd_documented D G K" and a: "at K s c" and m: "selected c" "mode c \<in> {Busy b True, Await b True}"
  shows "\<exists>ok s' c'. xmit_datablock D [] 0xFD s = Some (ok, s') \<and> at K s' c' \<and> same_vars s s' \<and>
    (ok \<longrightarrow> c' = c\<lparr>mode := Idle\<rparr>) \<and> (willing K \<longrightarrow> ok)"
proof -
  obtain ready s1 where s1: "wait_ready D 500 s = Some (ready, s1)"
      "at K s1 (c\<lparr>mode := if ready then Await b True else Busy b True\<rparr>)" "same_vars s s1" "willing K \<longrightarrow> ready"
    using wait_ready_at [OF doc disjI2 a m] by blast
  show ?thesis
  proof (cases ready)
    case False
    then have "xmit_datablock D [] 0xFD s = Some (False, s1)"
      using s1(1) by (simp add: xmit_datablock_def)
    then show ?thesis
      using s1(2,3,4) False by blast
  next
    case True
    obtain r2 s2 where s2: "sd_spi_send D 0xFD s1 = Some (r2, s2)"
        "at K s2 (card_next (k_block K) (c\<lparr>mode := if ready then Await b True else Busy b True\<rparr>) 0xFD r2)" "same_vars s1 s2"
      using sd_spi_send_at [OF doc s1(2)] by blast
    have "at K s2 (c\<lparr>mode := Idle\<rparr>)"
      using s2(2) True m(1) by (simp add: card_next_def)
    moreover have "xmit_datablock D [] 0xFD s = Some (True, s2)"
      using s1(1) s2(1) True by (simp add: xmit_datablock_def)
    ultimately show ?thesis
      using same_vars_trans [OF s1(3) s2(3)] by blast
  qed
qed

text \<open>What writing \<open>n\<close> blocks from \<open>b\<close> makes of the blocks.\<close>

fun put_blocks :: "nat \<Rightarrow> nat \<Rightarrow> u8 list \<Rightarrow> (nat \<Rightarrow> u8 list) \<Rightarrow> nat \<Rightarrow> u8 list" where
  "put_blocks 0 b buff M = M"
| "put_blocks (Suc n) b buff M = put_blocks n (b + 1) (drop 512 buff) (M(b := take 512 buff))"

lemma length_put_blocks:
  "512 * n \<le> length buff \<Longrightarrow> \<forall>i. length (M i) = 512 \<Longrightarrow> length (put_blocks n b buff M i) = 512"
  by (induction n arbitrary: b buff M) auto

lemma write_blocks_at:
  assumes doc: "sd_documented D G K"
  shows "at K s c \<Longrightarrow> selected c \<Longrightarrow> mode c \<in> {Busy b True, Await b True} \<Longrightarrow> 512 * n \<le> length buff \<Longrightarrow>
    \<exists>ok s' c' b'. write_blocks D n buff s = Some (ok, s') \<and> at K s' c' \<and> same_vars s s' \<and>
      selected c' \<and> mode c' \<in> {Busy b' True, Await b' True} \<and>
      (ok \<longrightarrow> store c' = put_blocks n b buff (store c)) \<and> (willing K \<longrightarrow> ok)"
proof (induction n arbitrary: s c b buff)
  case 0
  have "write_blocks D 0 buff s = Some (True, s)" "store c = put_blocks 0 b buff (store c)"
    by simp_all
  then show ?case
    using 0(1,2,3) same_vars_refl by blast
next
  case (Suc n)
  have buff: "512 \<le> length buff" "512 * n \<le> length (drop 512 buff)"
    using Suc.prems(4) by simp_all
  obtain ok s1 c1 where s1: "xmit_datablock D buff 0xFC s = Some (ok, s1)" "at K s1 c1" "same_vars s s1"
      "ok \<longrightarrow> c1 = c\<lparr>mode := if True then Busy (b + 1) True else Idle, store := (store c)(b := take 512 buff)\<rparr>"
      "\<not> ok \<and> True \<longrightarrow> selected c1 \<and> mode c1 \<in> {Busy b True, Await b True}" "willing K \<longrightarrow> ok"
    using xmit_datablock_at [OF doc Suc.prems(1-3) buff(1), of "0xFC"] by auto
  show ?case
  proof (cases ok)
    case False
    then have "write_blocks D (Suc n) buff s = Some (False, s1)"
      using s1(1) by simp
    then show ?thesis
      using s1(2,3,5,6) False by blast
  next
    case True
    then have c1: "selected c1" "mode c1 \<in> {Busy (b + 1) True, Await (b + 1) True}" "store c1 = (store c)(b := take 512 buff)"
      using s1(4) Suc.prems(2) by simp_all
    from Suc.IH [OF s1(2) c1(1,2) buff(2)] obtain ok' s' c' b' where
      IH: "write_blocks D n (drop 512 buff) s1 = Some (ok', s')" "at K s' c'" "same_vars s1 s'"
        "selected c'" "mode c' \<in> {Busy b' True, Await b' True}"
        "ok' \<longrightarrow> store c' = put_blocks n (b + 1) (drop 512 buff) (store c1)" "willing K \<longrightarrow> ok'"
      by blast
    have "write_blocks D (Suc n) buff s = Some (ok', s')" "ok' \<longrightarrow> store c' = put_blocks (Suc n) b buff (store c)"
      using s1(1) True IH(1,6) c1(3) by simp_all
    then show ?thesis
      using IH(2,4,5,7) same_vars_trans [OF s1(3) IH(3)] by blast
  qed
qed

end
