(* ===== verification/Sd_Props.thy ===== *)
theory Sd_Props
  imports Sd_Transfers
begin

text \<open>
  What the disk functions promise FatFs: sectors read are the sectors stored, sectors written
  are stored, and the initialisation of cards of the first version.
\<close>

section \<open>One call\<close>

lemma select_idle: "mode c = Idle \<Longrightarrow> mode (card_select True c) \<in> {Idle, Ready}"
  by (simp add: card_select_def)

lemma store_card_select [simp]: "store (card_select b c) = store c"
  by (simp add: card_select_def)

lemma accepted_transfer:
  "accepted am CMD17 arg = Sending (am arg) False" "accepted am CMD18 arg = Sending (am arg) True"
  "accepted am CMD24 arg = Busy (am arg) False" "accepted am CMD25 arg = Busy (am arg) True"
  by (simp_all add: accepted_def CMD17_def CMD18_def CMD24_def CMD25_def)

lemma send_transfer_cmd_at:
  assumes doc: "sd_documented D G K" and a: "at K s c" and m: "mode c \<in> {Idle, Ready}"
    and cmd: "cmd \<in> {CMD17, CMD18, CMD24, CMD25}"
  shows "\<exists>r s' c'. send_cmd D G cmd arg s = Some (r, s') \<and> at K s' c' \<and> same_vars s s' \<and> store c' = store c \<and>
    (r = 0 \<longrightarrow> selected c' \<and> mode c' = accepted (k_block K) cmd arg) \<and> (willing K \<longrightarrow> r = 0)"
proof -
  have "transfer_cmd cmd" "cmd AND 0x80 = 0"
    using cmd by (auto simp: transfer_cmd_def CMD17_def CMD18_def CMD24_def CMD25_def)
  then show ?thesis
    using send_plain_cmd_at [OF doc a m, of cmd arg] by (auto simp: send_cmd_def)
qed

text \<open>The driver is initialised, and the blocks have 512 bytes.\<close>

definition sd_ready :: "'d sd_state \<Rightarrow> bool" where
  "sd_ready s \<longleftrightarrow> FATFS_SD_Stat s AND STA_NOINIT = 0 \<and> FATFS_SD_Stat s AND STA_PROTECT = 0"

lemma sd_ready_bits:
  assumes "sd_ready s"
  shows "FATFS_SD_Stat s AND STA_NOINIT = 0" "FATFS_SD_Stat s AND STA_PROTECT = 0"
  using assms by (simp_all add: sd_ready_def)

definition disk_ok :: "card \<Rightarrow> bool" where
  "disk_ok c \<longleftrightarrow> mode c \<in> {Idle, Ready} \<and> (\<forall>i. length (store c i) = 512)"

lemma disk_read_at:
  assumes doc: "sd_documented D G K" and a: "at K s c" and c: "disk_ok c" and rdy: "sd_ready s"
    and blk: "k_block K (sector_arg s sector) = unat sector" and n: "n \<noteq> 0"
  shows "\<exists>r xs s' c'. disk_read D G sector n s = Some (r, xs, s') \<and> at K s' c' \<and> same_vars s s' \<and>
    (r = RES_OK \<longrightarrow> xs = concat (map (store c) [unat sector..<unat sector + unat n]) \<and> disk_ok c' \<and> store c' = store c) \<and>
    (willing K \<longrightarrow> r = RES_OK)"
proof -
  have m: "mode c \<in> {Idle, Ready}" and len: "\<forall>i. length (store c i) = 512"
    using c by (simp_all add: disk_ok_def)
  have init: "\<not> (\<not> sd_detect \<or> FATFS_SD_Stat s AND STA_NOINIT \<noteq> 0)"
    using sd_ready_bits [OF rdy] by (simp add: sd_detect_def)
  let ?arg = "sector_arg s sector" and ?b = "unat sector"
  show ?thesis
  proof (cases "n = 1")
    case True
    obtain r s1 c1 where s1: "send_cmd D G CMD17 ?arg s = Some (r, s1)" "at K s1 c1" "same_vars s s1" "store c1 = store c"
        "r = 0 \<longrightarrow> selected c1 \<and> mode c1 = Sending ?b False" "willing K \<longrightarrow> r = 0"
      using send_transfer_cmd_at [OF doc a m, of CMD17 ?arg] unfolding accepted_transfer blk by auto
    show ?thesis
    proof (cases "r = 0")
      case False
      obtain s2 where s2: "deselect_card D G s1 = Some s2" "at K s2 (card_select True c1)" "same_vars s1 s2"
        using deselect_card_at [OF doc s1(2)] by blast
      have "disk_read D G sector n s = Some (RES_ERROR, [], s2)"
        using init True s1(1) s2(1) False by (simp add: disk_read_def)
      then show ?thesis
        using s2(2) same_vars_trans [OF s1(3) s2(3)] s1(6) False by blast
    next
      case r0: True
      obtain x s2 c2 where s2: "rcvr_datablock D 512 s1 = Some (x, s2)" "at K s2 c2" "same_vars s1 s2"
          "x \<noteq> None \<longrightarrow> x = Some (store c1 ?b) \<and> c2 = c1\<lparr>mode := if False then Sending (?b + 1) False else Idle\<rparr>"
          "willing K \<longrightarrow> x \<noteq> None"
        using rcvr_datablock_at [OF doc s1(2), of ?b False] s1(4,5) r0 len by auto
      obtain s3 where s3: "deselect_card D G s2 = Some s3" "at K s3 (card_select True c2)" "same_vars s2 s3"
        using deselect_card_at [OF doc s2(2)] by blast
      have sv: "same_vars s s3"
        using s1(3) s2(3) s3(3) by (simp add: same_vars_def)
      show ?thesis
      proof (cases x)
        case None
        then have "disk_read D G sector n s = Some (RES_ERROR, [], s3)"
          using init True s1(1) s2(1) s3(1) r0 by (simp add: disk_read_def)
        then show ?thesis
          using s3(2) sv s2(5) None by blast
      next
        case (Some xs)
        then have "disk_read D G sector n s = Some (RES_OK, xs, s3)"
          using init True s1(1) s2(1) s3(1) r0 by (simp add: disk_read_def)
        moreover have "xs = concat (map (store c) [?b..<?b + unat n])"
          using s2(4) Some s1(4) True by simp
        moreover have "disk_ok (card_select True c2)" "store (card_select True c2) = store c"
          using s2(4) Some s1(4) len by (simp_all add: disk_ok_def card_select_def)
        ultimately show ?thesis
          using s3(2) sv by blast
      qed
    qed
  next
    case False
    have times: "do_while_times n = unat n"
      using n by (simp add: do_while_times_def)
    obtain r s1 c1 where s1: "send_cmd D G CMD18 ?arg s = Some (r, s1)" "at K s1 c1" "same_vars s s1" "store c1 = store c"
        "r = 0 \<longrightarrow> selected c1 \<and> mode c1 = Sending ?b True" "willing K \<longrightarrow> r = 0"
      using send_transfer_cmd_at [OF doc a m, of CMD18 ?arg] unfolding accepted_transfer blk by auto
    show ?thesis
    proof (cases "r = 0")
      case r0: False
      obtain s2 where s2: "deselect_card D G s1 = Some s2" "at K s2 (card_select True c1)" "same_vars s1 s2"
        using deselect_card_at [OF doc s1(2)] by blast
      have "disk_read D G sector n s = Some (RES_ERROR, [], s2)"
        using init False n s1(1) s2(1) r0 by (simp add: disk_read_def)
      then show ?thesis
        using s2(2) same_vars_trans [OF s1(3) s2(3)] s1(6) r0 by blast
    next
      case r0: True
      obtain ok xs s2 c2 where s2: "read_blocks D (unat n) [] s1 = Some (ok, xs, s2)" "at K s2 c2" "same_vars s1 s2"
          "ok \<longrightarrow> xs = [] @ concat (map (store c1) [?b..<?b + unat n]) \<and> c2 = c1\<lparr>mode := Sending (?b + unat n) True\<rparr>"
          "willing K \<longrightarrow> ok"
        using read_blocks_at [OF doc s1(2), of ?b "unat n" "[]"] s1(4,5) r0 len by auto
      have "\<exists>r' s3 c3. send_cmd D G CMD12 0 s2 = Some (r', s3) \<and> at K s3 c3 \<and> same_vars s2 s3 \<and>
          (ok \<longrightarrow> store c3 = store c \<and> mode c3 = Idle)"
      proof (cases ok)
        case True
        then have "selected c2" "mode c2 = Sending (?b + unat n) True" "store c2 = store c"
          using s2(4) s1(4,5) r0 by simp_all
        then show ?thesis
          using cmd12_at [OF doc s2(2)] by metis
      next
        case False
        then show ?thesis
          using cmd12_any [OF doc s2(2)] by blast
      qed
      then obtain r' s3 c3 where s3: "send_cmd D G CMD12 0 s2 = Some (r', s3)" "at K s3 c3" "same_vars s2 s3"
          "ok \<longrightarrow> store c3 = store c \<and> mode c3 = Idle"
        by blast
      obtain s4 where s4: "deselect_card D G s3 = Some s4" "at K s4 (card_select True c3)" "same_vars s3 s4"
        using deselect_card_at [OF doc s3(2)] by blast
      have "same_vars s s4"
        using s1(3) s2(3) s3(3) s4(3) by (simp add: same_vars_def)
      moreover have "disk_read D G sector n s = Some (if ok then RES_OK else RES_ERROR, xs, s4)"
        using init False times s1(1) s2(1) s3(1) s4(1) r0 by (simp add: disk_read_def)
      moreover have "ok \<longrightarrow> xs = concat (map (store c) [?b..<?b + unat n]) \<and> disk_ok (card_select True c3) \<and>
          store (card_select True c3) = store c"
        using s2(4) s3(4) s1(4) len by (simp add: disk_ok_def card_select_def)
      ultimately show ?thesis
        using s4(2) s2(5) by fastforce
    qed
  qed
qed

lemma acmd23_step_at:
  assumes doc: "sd_documented D G K" and a: "at K s c" and m: "mode c \<in> {Idle, Ready}"
  shows "\<exists>s' c'. (if b then do { (res, s) \<leftarrow> send_cmd D G ACMD23 arg s; Some s } else Some s) = Some s' \<and>
    at K s' c' \<and> same_vars s s' \<and> store c' = store c \<and> mode c' \<in> {Idle, Ready}"
proof (cases b)
  case True
  obtain r s1 c1 where s1: "send_cmd D G ACMD23 arg s = Some (r, s1)" "at K s1 c1" "same_vars s s1" "store c1 = store c" "mode c1 = Idle"
    using send_acmd23_at [OF doc a m] by blast
  then have "(if b then do { (res, s) \<leftarrow> send_cmd D G ACMD23 arg s; Some s } else Some s) = Some s1" "mode c1 \<in> {Idle, Ready}"
    using True by simp_all
  then show ?thesis
    using s1(2,3,4) by blast
next
  case False
  then have "(if b then do { (res, s) \<leftarrow> send_cmd D G ACMD23 arg s; Some s } else Some s) = Some s"
    by simp
  then show ?thesis
    using a m same_vars_refl by blast
qed

lemma disk_write_at:
  assumes doc: "sd_documented D G K" and a: "at K s c" and c: "disk_ok c" and rdy: "sd_ready s"
    and blk: "k_block K (sector_arg s sector) = unat sector" and n: "n \<noteq> 0" "512 * unat n \<le> length buff"
  shows "\<exists>r s' c'. disk_write D G buff sector n s = Some (r, s') \<and> at K s' c' \<and> same_vars s s' \<and>
    (r = RES_OK \<longrightarrow> disk_ok c' \<and> store c' = put_blocks (unat n) (unat sector) buff (store c)) \<and>
    (willing K \<longrightarrow> r = RES_OK)"
proof -
  have m: "mode c \<in> {Idle, Ready}" and len: "\<forall>i. length (store c i) = 512"
    using c by (simp_all add: disk_ok_def)
  have init: "sd_detect" "sd_enabled" "\<not> FATFS_SD_Stat s AND STA_NOINIT \<noteq> 0" "\<not> FATFS_SD_Stat s AND STA_PROTECT \<noteq> 0"
    using sd_ready_bits [OF rdy] by (simp_all add: sd_detect_def sd_enabled_def)
  let ?arg = "sector_arg s sector" and ?b = "unat sector"
  have len': "\<forall>i. length (put_blocks (unat n) ?b buff (store c) i) = 512"
    using length_put_blocks [OF n(2) len] by blast
  show ?thesis
  proof (cases "n = 1")
    case True
    have buff: "512 \<le> length buff"
      using n(2) True by simp
    have one: "put_blocks (unat n) ?b buff (store c) = (store c)(?b := take 512 buff)"
      using True by simp
    obtain r s1 c1 where s1: "send_cmd D G CMD24 ?arg s = Some (r, s1)" "at K s1 c1" "same_vars s s1" "store c1 = store c"
        "r = 0 \<longrightarrow> selected c1 \<and> mode c1 = Busy ?b False" "willing K \<longrightarrow> r = 0"
      using send_transfer_cmd_at [OF doc a m, of CMD24 ?arg] unfolding accepted_transfer blk by auto
    show ?thesis
    proof (cases "r = 0")
      case r0: False
      obtain s2 where s2: "deselect_card D G s1 = Some s2" "at K s2 (card_select True c1)" "same_vars s1 s2"
        using deselect_card_at [OF doc s1(2)] by blast
      have "disk_write D G buff sector n s = Some (RES_ERROR, s2)"
        using init True s1(1) s2(1) r0 by (simp add: disk_write_def)
      then show ?thesis
        using s2(2) same_vars_trans [OF s1(3) s2(3)] s1(6) r0 by blast
    next
      case r0: True
      have c1: "selected c1" "mode c1 \<in> {Busy ?b False, Await ?b False}"
        using s1(5) r0 by simp_all
      obtain ok s2 c2 where s2: "xmit_datablock D buff 0xFE s1 = Some (ok, s2)" "at K s2 c2" "same_vars s1 s2"
          "ok \<longrightarrow> c2 = c1\<lparr>mode := if False then Busy (?b + 1) False else Idle, store := (store c1)(?b := take 512 buff)\<rparr>"
          "willing K \<longrightarrow> ok"
        using xmit_datablock_at [OF doc s1(2) c1 buff, of "0xFE"] by auto
      obtain s3 where s3: "deselect_card D G s2 = Some s3" "at K s3 (card_select True c2)" "same_vars s2 s3"
        using deselect_card_at [OF doc s2(2)] by blast
      have "same_vars s s3"
        using s1(3) s2(3) s3(3) by (simp add: same_vars_def)
      moreover have "disk_write D G buff sector n s = Some (if ok then RES_OK else RES_ERROR, s3)"
        using init True s1(1) s2(1) s3(1) r0 by (simp add: disk_write_def)
      moreover have "ok \<longrightarrow> disk_ok (card_select True c2) \<and> store (card_select True c2) = put_blocks (unat n) ?b buff (store c)"
        using s2(4) s1(4) len' one by (simp add: disk_ok_def card_select_def)
      ultimately show ?thesis
        using s3(2) s2(5) by fastforce
    qed
  next
    case False
    have times: "do_while_times n = unat n"
      using n by (simp add: do_while_times_def)
    let ?sdc = "FATFS_SD_CardType s AND CT_SDC \<noteq> 0"
    obtain s0 c0 where s0: "(if ?sdc then do { (res, s) \<leftarrow> send_cmd D G ACMD23 n s; Some s } else Some s) = Some s0"
        "at K s0 c0" "same_vars s s0" "store c0 = store c" "mode c0 \<in> {Idle, Ready}"
      using acmd23_step_at [OF doc a m, of ?sdc n] by blast
    obtain r s1 c1 where s1: "send_cmd D G CMD25 ?arg s0 = Some (r, s1)" "at K s1 c1" "same_vars s0 s1" "store c1 = store c0"
        "r = 0 \<longrightarrow> selected c1 \<and> mode c1 = Busy ?b True" "willing K \<longrightarrow> r = 0"
      using send_transfer_cmd_at [OF doc s0(2,5), of CMD25 ?arg] unfolding accepted_transfer blk by auto
    show ?thesis
    proof (cases "r = 0")
      case r0: False
      obtain s2 where s2: "deselect_card D G s1 = Some s2" "at K s2 (card_select True c1)" "same_vars s1 s2"
        using deselect_card_at [OF doc s1(2)] by blast
      have "disk_write D G buff sector n s = Some (RES_ERROR, s2)"
        using init False n(1) s0(1) s1(1) s2(1) r0 by (simp add: disk_write_def)
      moreover have "same_vars s s2"
        using s0(3) s1(3) s2(3) by (simp add: same_vars_def)
      ultimately show ?thesis
        using s2(2) s1(6) r0 by blast
    next
      case r0: True
      have c1: "selected c1" "mode c1 \<in> {Busy ?b True, Await ?b True}"
        using s1(5) r0 by simp_all
      obtain ok s2 c2 b' where s2: "write_blocks D (unat n) buff s1 = Some (ok, s2)" "at K s2 c2" "same_vars s1 s2"
          "selected c2" "mode c2 \<in> {Busy b' True, Await b' True}"
          "ok \<longrightarrow> store c2 = put_blocks (unat n) ?b buff (store c1)" "willing K \<longrightarrow> ok"
        using write_blocks_at [OF doc s1(2) c1 n(2)] by blast
      obtain stop s3 c3 where s3: "xmit_datablock D [] 0xFD s2 = Some (stop, s3)" "at K s3 c3" "same_vars s2 s3"
          "stop \<longrightarrow> c3 = c2\<lparr>mode := Idle\<rparr>" "willing K \<longrightarrow> stop"
        using stop_token_at [OF doc s2(2,4,5)] by blast
      obtain s4 where s4: "deselect_card D G s3 = Some s4" "at K s4 (card_select True c3)" "same_vars s3 s4"
        using deselect_card_at [OF doc s3(2)] by blast
      have "same_vars s s4"
        using s0(3) s1(3) s2(3) s3(3) s4(3) by (simp add: same_vars_def)
      moreover have "disk_write D G buff sector n s = Some (if ok \<and> stop then RES_OK else RES_ERROR, s4)"
        using init False times s0(1) s1(1) s2(1) s3(1) s4(1) r0 by (simp add: disk_write_def)
      moreover have "ok \<and> stop \<longrightarrow> disk_ok (card_select True c3) \<and>
          store (card_select True c3) = put_blocks (unat n) ?b buff (store c)"
        using s2(6) s3(4) s1(4) s0(4) len' by (simp add: disk_ok_def card_select_def)
      ultimately show ?thesis
        using s4(2) s2(7) s3(5) by fastforce
    qed
  qed
qed

section \<open>Sequences of calls\<close>

text \<open>What a disk is: an array of blocks.\<close>

datatype disk_call = Read_sectors u32 u32 | Write_sectors u32 u32 "u8 list"

fun spec_calls :: "disk_call list \<Rightarrow> (nat \<Rightarrow> u8 list) \<Rightarrow> u8 list list \<times> (nat \<Rightarrow> u8 list)" where
  "spec_calls [] M = ([], M)"
| "spec_calls (Read_sectors b n # qs) M =
     (concat (map M [unat b..<unat b + unat n]) # fst (spec_calls qs M), snd (spec_calls qs M))"
| "spec_calls (Write_sectors b n buff # qs) M =
     (let M' = put_blocks (unat n) (unat b) buff M in ([] # fst (spec_calls qs M'), snd (spec_calls qs M')))"

text \<open>The calls of the driver, up to the first that fails.\<close>

fun run_calls :: "'d spi_dev \<Rightarrow> 'd sd_pins \<Rightarrow> disk_call list \<Rightarrow> 'd sd_state \<Rightarrow> (bool \<times> u8 list list \<times> 'd sd_state) option" where
  "run_calls D G [] s = Some (True, [], s)"
| "run_calls D G (q # qs) s = do {
     (r, out, s) \<leftarrow> (case q of
         Read_sectors b n \<Rightarrow> disk_read D G b n s
       | Write_sectors b n buff \<Rightarrow> do { (r, s) \<leftarrow> disk_write D G buff b n s; Some (r, [], s) });
     if r \<noteq> RES_OK then Some (False, [], s)
     else do {
       (ok, outs, s) \<leftarrow> run_calls D G qs s;
       Some (ok, out # outs, s) } }"

fun call_ok :: "('d, 'w) sd_view \<Rightarrow> 'd sd_state \<Rightarrow> disk_call \<Rightarrow> bool" where
  "call_ok K s (Read_sectors b n) \<longleftrightarrow> n \<noteq> 0 \<and> k_block K (sector_arg s b) = unat b"
| "call_ok K s (Write_sectors b n buff) \<longleftrightarrow>
     n \<noteq> 0 \<and> k_block K (sector_arg s b) = unat b \<and> 512 * unat n \<le> length buff"

lemma same_vars_keeps:
  assumes "same_vars s s'"
  shows "sd_ready s' = sd_ready s" "call_ok K s' q = call_ok K s q"
  using assms by (cases q; simp add: same_vars_def sd_ready_def sector_arg_def)+

lemma one_call_at:
  assumes doc: "sd_documented D G K" and a: "at K s c" and c: "disk_ok c" and rdy: "sd_ready s" and q: "call_ok K s q"
  shows "\<exists>r out s' c'. (case q of
         Read_sectors b n \<Rightarrow> disk_read D G b n s
       | Write_sectors b n buff \<Rightarrow> do { (r, s) \<leftarrow> disk_write D G buff b n s; Some (r, [], s) }) = Some (r, out, s') \<and>
    at K s' c' \<and> same_vars s s' \<and> (r = RES_OK \<longrightarrow> disk_ok c' \<and>
      spec_calls (q # qs) (store c) = (out # fst (spec_calls qs (store c')), snd (spec_calls qs (store c')))) \<and>
    (willing K \<longrightarrow> r = RES_OK)"
proof (cases q)
  case (Read_sectors b n)
  then have p: "k_block K (sector_arg s b) = unat b" "n \<noteq> 0"
    using q by simp_all
  obtain r xs s' c' where "disk_read D G b n s = Some (r, xs, s')" "at K s' c'" "same_vars s s'"
      "r = RES_OK \<longrightarrow> xs = concat (map (store c) [unat b..<unat b + unat n]) \<and> disk_ok c' \<and> store c' = store c"
      "willing K \<longrightarrow> r = RES_OK"
    using disk_read_at [OF doc a c rdy p] by blast
  then show ?thesis
    using Read_sectors by (cases "r = RES_OK") auto
next
  case (Write_sectors b n buff)
  then have p: "k_block K (sector_arg s b) = unat b" "n \<noteq> 0" "512 * unat n \<le> length buff"
    using q by simp_all
  obtain r s' c' where "disk_write D G buff b n s = Some (r, s')" "at K s' c'" "same_vars s s'"
      "r = RES_OK \<longrightarrow> disk_ok c' \<and> store c' = put_blocks (unat n) (unat b) buff (store c)" "willing K \<longrightarrow> r = RES_OK"
    using disk_write_at [OF doc a c rdy p] by blast
  then show ?thesis
    using Write_sectors by (cases "r = RES_OK") (auto simp: Let_def)
qed

text \<open>
  C16. On a documented SPI controller and a card that follows the SD specification, any
  sequence of sector reads and writes of the initialised driver returns, whatever the card
  answers and however long it takes; up to the first call that reports an error, the data read
  are those of an array of blocks under the same calls; and if no call fails, which is so if the
  card is willing, the blocks stored on the card are those of that array.
\<close>

theorem sd_disk_refines_blocks:
  assumes doc: "sd_documented D G K" and a: "at K s c" and c: "disk_ok c" and rdy: "sd_ready s"
    and calls: "\<forall>q \<in> set qs. call_ok K s q"
  shows "\<exists>ok outs s' c'. run_calls D G qs s = Some (ok, outs, s') \<and> at K s' c' \<and>
    outs = take (length outs) (fst (spec_calls qs (store c))) \<and>
    (ok \<longrightarrow> outs = fst (spec_calls qs (store c)) \<and> store c' = snd (spec_calls qs (store c))) \<and> (willing K \<longrightarrow> ok)"
  using a c rdy calls
proof (induction qs arbitrary: s c)
  case Nil
  then have "run_calls D G [] s = Some (True, [], s)" "at K s c" "([] :: u8 list list) = fst (spec_calls [] (store c))"
      "store c = snd (spec_calls [] (store c))"
    by simp_all
  then show ?case
    by (metis list.size(3) take0)
next
  case (Cons q qs)
  obtain r out s1 c1 where s1: "(case q of
         Read_sectors b n \<Rightarrow> disk_read D G b n s
       | Write_sectors b n buff \<Rightarrow> do { (r, s) \<leftarrow> disk_write D G buff b n s; Some (r, [], s) }) = Some (r, out, s1)"
      "at K s1 c1" "same_vars s s1" "r = RES_OK \<longrightarrow> disk_ok c1 \<and>
        spec_calls (q # qs) (store c) = (out # fst (spec_calls qs (store c1)), snd (spec_calls qs (store c1)))"
      "willing K \<longrightarrow> r = RES_OK"
    using one_call_at [OF doc Cons.prems(1-3), of q qs] Cons.prems(4) by auto
  show ?case
  proof (cases "r = RES_OK")
    case False
    then have "run_calls D G (q # qs) s = Some (False, [], s1)"
      using s1(1) by simp
    then show ?thesis
      using s1(2,5) False by fastforce
  next
    case True
    have p: "disk_ok c1" "sd_ready s1" "\<forall>q \<in> set qs. call_ok K s1 q"
      using s1(4) True Cons.prems(3,4) by (simp_all add: same_vars_keeps [OF s1(3)])
    obtain ok outs s' c' where IH: "run_calls D G qs s1 = Some (ok, outs, s')" "at K s' c'"
        "outs = take (length outs) (fst (spec_calls qs (store c1)))"
        "ok \<longrightarrow> outs = fst (spec_calls qs (store c1)) \<and> store c' = snd (spec_calls qs (store c1))" "willing K \<longrightarrow> ok"
      using Cons.IH [OF s1(2) p] by blast
    have "run_calls D G (q # qs) s = Some (ok, out # outs, s')"
      using s1(1) True IH(1) by simp
    moreover have "out # outs = take (length (out # outs)) (fst (spec_calls (q # qs) (store c)))"
      using s1(4) True IH(3) by simp
    moreover have "ok \<longrightarrow> out # outs = fst (spec_calls (q # qs) (store c)) \<and> store c' = snd (spec_calls (q # qs) (store c))"
      using s1(4) True IH(4) by simp
    ultimately show ?thesis
      using IH(2,5) by blast
  qed
qed

section \<open>A concrete card\<close>

text \<open>A card that answers at once, on the controller of \<open>Spi_Props\<close>.\<close>

definition prompt_reply :: "card \<Rightarrow> u8 \<Rightarrow> u8" where
  "prompt_reply c x = (if \<not> selected c \<or> x \<noteq> 0xFF then 0xFF
     else case mode c of
         Resp cmd arg n \<Rightarrow> 0
       | Sending b m \<Rightarrow> 0xFE
       | Data i b m \<Rightarrow> if i < 512 then store c b ! i else 0xFF
       | DataResp bs b m \<Rightarrow> 0x05
       | _ \<Rightarrow> 0xFF)"

definition prompt_card :: "card slave" where
  "prompt_card x c = (let r = prompt_reply c (ucast x) in (ucast r, card_next unat c (ucast x) r))"

definition prompt_pins :: "card pl022 sd_pins" where
  "prompt_pins = \<lparr>cs_put = (\<lambda>b d. d\<lparr>wire := card_select b (wire d)\<rparr>), spi_pins_setup = (\<lambda>d. d), cs_pin_setup = (\<lambda>d. d)\<rparr>"

definition prompt_view :: "(card pl022, card) sd_view" where
  "prompt_view = \<lparr>k_slave = prompt_card, k_view = (\<lambda>d. d), k_pat = (\<lambda>_. 0), k_cs = card_select, k_card = (\<lambda>c. c),
     k_lag = (\<lambda>_. 0), k_block = unat\<rparr>"

lemma prompt_documented: "sd_documented (pl022_dev prompt_card) prompt_pins prompt_view" and prompt_willing: "willing prompt_view"
proof -
  have reply: "card_ok c x (prompt_reply c x)" "card_willing c x (prompt_reply c x)" "\<not> lagging c x (prompt_reply c x)" for c x
    by (auto simp: card_ok_def card_willing_def lagging_def prompt_reply_def split: sd_mode.splits)
  have doc: "spi_documented (pl022_dev prompt_card) prompt_card (\<lambda>d. d) (\<lambda>_. 0)"
    by (rule pl022_dev_documented)
  show "sd_documented (pl022_dev prompt_card) prompt_pins prompt_view"
    unfolding sd_documented_def
    using doc reply by (auto simp: prompt_view_def prompt_pins_def prompt_card_def Let_def)
  show "willing prompt_view"
    unfolding willing_def using reply by (auto simp: prompt_view_def prompt_card_def Let_def)
qed

definition prompt_state :: "card pl022 sd_state" where
  "prompt_state = \<lparr>FATFS_SD_Stat = 0, FATFS_SD_CardType = CT_SD2 OR CT_BLOCK,
     sd_timer = timer_boot (\<lambda>_. 1000) (irq_boot 0x20000000 0x10000001) 0x10000101,
     sd_dev = \<lparr>tx_fifo = [], rx_fifo = [], wire = \<lparr>mode = Idle, selected = False, store = (\<lambda>_. replicate 512 0)\<rparr>\<rparr>\<rparr>"

lemma put_two_blocks:
  "put_blocks 2 b buff M = (M(b := take 512 buff))(b + 1 := take 512 (drop 512 buff))"
  by (simp add: numeral_2_eq_2 del: fun_upd_apply)

theorem sd_disk_refines_blocks_witness:
  "\<exists>s'. run_calls (pl022_dev prompt_card) prompt_pins
     [Write_sectors 5 2 (replicate 512 7 @ replicate 512 8), Read_sectors 6 1, Read_sectors 4 1] prompt_state =
   Some (True, [[], replicate 512 8, replicate 512 0], s')"
proof -
  let ?qs = "[Write_sectors 5 2 (replicate 512 7 @ replicate 512 8), Read_sectors 6 1, Read_sectors 4 1]"
  let ?c = "\<lparr>mode = Idle, selected = False, store = (\<lambda>_. replicate 512 0)\<rparr>"
  have clock: "sd_clock_ok (sd_timer prompt_state)"
    by (simp add: sd_clock_ok_def time_ok_def timer_ok_def steady_def prompt_state_def timer_boot_def NUM_TIMERS_def INT64_MAX_def mono_def)
  have "at prompt_view prompt_state ?c"
    using clock by (simp add: at_def prompt_view_def prompt_state_def)
  moreover have "disk_ok ?c" "sd_ready prompt_state"
    by (simp_all add: disk_ok_def sd_ready_def prompt_state_def)
  moreover have "\<forall>q \<in> set ?qs. call_ok prompt_view prompt_state q"
    by (simp add: sector_arg_def prompt_state_def prompt_view_def CT_SD2_def CT_BLOCK_def)
  ultimately obtain ok outs s' where "run_calls (pl022_dev prompt_card) prompt_pins ?qs prompt_state = Some (ok, outs, s')"
      "ok \<longrightarrow> outs = fst (spec_calls ?qs (store ?c))" ok
    using sd_disk_refines_blocks [OF prompt_documented] prompt_willing by blast
  moreover have "fst (spec_calls ?qs (store ?c)) = [[], replicate 512 8, replicate 512 0]"
    by (simp add: Let_def put_two_blocks)
  ultimately show ?thesis
    by auto
qed

end
