(* ===== verification/Sd_Init.thy ===== *)
theory Sd_Init
  imports Sd_Disk Alarm_Pool_Correct
begin

text \<open>
  The timeouts of the SD card driver. Nothing is assumed of the card or of the SPI block here:
  whatever they do, the driver only reads the timer, and time passes.
\<close>

section \<open>Time passes\<close>

definition sd_later :: "'d sd_state \<Rightarrow> 'd sd_state \<Rightarrow> bool" where
  "sd_later s s' \<longleftrightarrow> (time_ok (sd_timer s) \<longrightarrow> later (sd_timer s) (sd_timer s'))"

lemma sd_later_refl [simp]: "sd_later s s"
  by (simp add: sd_later_def later_refl)

lemma sd_later_trans: "sd_later s s' \<Longrightarrow> sd_later s' s'' \<Longrightarrow> sd_later s s''"
  using later_trans by (fastforce simp: sd_later_def later_def)

lemma sd_later_timer [simp]: "sd_timer s' = sd_timer s \<Longrightarrow> sd_later s s'"
  by (simp add: sd_later_def later_refl)

lemma sd_later_sd_dev [simp]: "sd_later (s\<lparr>sd_dev := d\<rparr>) s' = sd_later s s'"
  by (simp add: sd_later_def)

named_theorems passes

lemma sd_spi_send_passes [passes]: "sd_spi_send D x s = Some (r, s') \<Longrightarrow> sd_later s s'"
  by (auto simp: sd_spi_send_def split: bind_splits prod.splits)

lemma time_left_passes [passes]: "time_left t s = Some (b, s') \<Longrightarrow> sd_later s s'"
  unfolding sd_later_def
proof (intro impI)
  assume *: "time_left t s = Some (b, s')" "time_ok (sd_timer s)"
  obtain now t' where "get_absolute_time (sd_timer s) = Some (now, t')" "later (sd_timer s) t'"
    by (rule get_absolute_time_eq [OF *(2)]) blast
  then show "later (sd_timer s) (sd_timer s')"
    using *(1) by (auto simp: time_left_def)
qed

lemma sd_timeout_us_passes [passes]: "sd_timeout_us us s = Some (t, s') \<Longrightarrow> sd_later s s'"
  unfolding sd_later_def
proof (intro impI)
  assume *: "sd_timeout_us us s = Some (t, s')" "time_ok (sd_timer s)"
  obtain now t' where "get_absolute_time (sd_timer s) = Some (now, t')" "later (sd_timer s) t'"
    by (rule get_absolute_time_eq [OF *(2)]) blast
  then show "later (sd_timer s) (sd_timer s')"
    using *(1) by (auto simp: sd_timeout_us_def make_timeout_time_us_def split: bind_splits prod.splits)
qed

lemmas passing = sd_later_def later_def

lemma wait_ready_loop_passes [passes]:
  assumes "wait_ready_loop D t s = Some (r, s')"
  shows "sd_later s s'"
proof -
  have "sd_later s (snd (r, s'))"
  proof (rule wait_ready_loop.raw_induct [where P = "\<lambda>D t s y. sd_later s (snd y)", OF _ assms], goal_cases)
    case (1 loop D t s y)
    show ?case
      using 1(2) by (auto simp: bind_eq_Some_conv split: if_splits dest!: passes 1(1) intro: sd_later_trans)
  qed
  then show ?thesis
    by simp
qed

lemma wait_ready_passes [passes]: "wait_ready D wt s = Some (ok, s') \<Longrightarrow> sd_later s s'"
  by (auto simp: wait_ready_def bind_eq_Some_conv dest!: passes intro: sd_later_trans)

lemma deselect_card_passes [passes]: "deselect_card D G s = Some s' \<Longrightarrow> sd_later s s'"
  by (auto simp: deselect_card_def bind_eq_Some_conv dest!: passes)

lemma select_card_passes [passes]: "select_card D G s = Some (ok, s') \<Longrightarrow> sd_later s s'"
  by (auto simp: select_card_def bind_eq_Some_conv split: if_splits dest!: passes intro: sd_later_trans)

lemma resp_loop_passes [passes]: "resp_loop D n s = Some (r, s') \<Longrightarrow> sd_later s s'"
proof (induction n arbitrary: s)
  case 0
  then show ?case
    by (subst (asm) resp_loop.simps) (auto simp: bind_eq_Some_conv split: if_splits dest!: passes)
next
  case (Suc n)
  then show ?case
    by (subst (asm) (2) resp_loop.simps)
      (auto simp: bind_eq_Some_conv split: if_splits dest!: passes Suc.IH intro: sd_later_trans)
qed

lemma send_frame_passes [passes]: "send_frame D cmd arg s = Some s' \<Longrightarrow> sd_later s s'"
  by (auto simp: send_frame_def bind_eq_Some_conv Let_def passing dest!: passes)

lemma send_plain_cmd_passes [passes]: "send_plain_cmd D G cmd arg s = Some (r, s') \<Longrightarrow> sd_later s s'"
  by (auto simp: send_plain_cmd_def bind_eq_Some_conv split: if_splits dest!: passes intro: sd_later_trans)

lemma send_cmd_passes [passes]: "send_cmd D G cmd arg s = Some (r, s') \<Longrightarrow> sd_later s s'"
  by (auto simp: send_cmd_def bind_eq_Some_conv Let_def split: if_splits dest!: passes intro: sd_later_trans)

lemma clock_card_passes [passes]: "clock_card D n s = Some s' \<Longrightarrow> sd_later s s'"
  by (induction n arbitrary: s) (auto simp: bind_eq_Some_conv dest!: passes intro: sd_later_trans)

lemma read_ocr_passes [passes]: "read_ocr D n s = Some (xs, s') \<Longrightarrow> sd_later s s'"
  by (induction n arbitrary: s xs) (auto simp: bind_eq_Some_conv dest!: passes intro: sd_later_trans)

lemma init_loop_passes [passes]:
  assumes "init_loop D G t cmd s = Some s'"
  shows "sd_later s s'"
proof (rule init_loop.raw_induct [where P = "\<lambda>D G t cmd s s'. sd_later s s'", OF _ assms], goal_cases)
  case (1 loop D G t cmd s s')
  show ?case
    using 1(2) by (auto simp: bind_eq_Some_conv split: if_splits dest!: passes 1(1) intro: sd_later_trans)
qed

lemma init_v1_passes [passes]: "init_v1 D G t s = Some (ty, s') \<Longrightarrow> sd_later s s'"
  by (auto simp: init_v1_def bind_eq_Some_conv Let_def split: if_splits prod.splits dest!: passes intro: sd_later_trans)

section \<open>One second\<close>

lemma time_left_value:
  assumes "time_left t s = Some (b, s')" and ok: "time_ok (sd_timer s)"
  shows "\<exists>k. accesses (sd_timer s) \<le> k \<and> k < accesses (sd_timer s') \<and> later (sd_timer s) (sd_timer s') \<and>
    valid_time (Absolute_time (raw_time (sd_timer s) k)) \<and>
    b = (0 < absolute_time_diff_us (Absolute_time (raw_time (sd_timer s) k)) t)"
proof -
  obtain now t' k where "get_absolute_time (sd_timer s) = Some (now, t')" "later (sd_timer s) t'" "valid_time now"
      "us_since_boot now = raw_time (sd_timer s) k" "accesses (sd_timer s) \<le> k" "k < accesses t'"
    by (rule get_absolute_time_eq [OF ok]) blast
  then show ?thesis
    using assms(1) by (cases now) (auto simp: time_left_def)
qed

lemma sd_timeout_us_value:
  assumes "sd_timeout_us us s = Some (t, s')" and ok: "time_ok (sd_timer s)"
  shows "\<exists>k. accesses (sd_timer s) \<le> k \<and> k < accesses (sd_timer s') \<and> later (sd_timer s) (sd_timer s') \<and>
    valid_time t \<and> uint (us_since_boot t) = uint (raw_time (sd_timer s) k) + uint us"
proof -
  obtain now t' k where now: "get_absolute_time (sd_timer s) = Some (now, t')" "later (sd_timer s) t'" "valid_time now"
      "us_since_boot now = raw_time (sd_timer s) k" "accesses (sd_timer s) \<le> k" "k < accesses t'"
    by (rule get_absolute_time_eq [OF ok]) blast
  then have "delayed_by_us now us = Some t" "sd_timer s' = t'"
    using assms(1) by (auto simp: sd_timeout_us_def make_timeout_time_us_def bind_eq_Some_conv)
  then show ?thesis
    using now delayed_by_us_Some [of now us t] by auto
qed

lemma init_v2_type: "init_v2 D G s = Some (ty, s') \<Longrightarrow> ty \<in> {0, CT_SD2, CT_SD2 OR CT_BLOCK}"
  by (auto simp: init_v2_def bind_eq_Some_conv split: if_splits)

lemma init_v1_waits:
  assumes "init_v1 D G t s = Some (ty, s')" and "ty \<noteq> 0" and ok: "time_ok (sd_timer s)" and t: "valid_time t"
  shows "\<exists>k. accesses (sd_timer s) \<le> k \<and> k < accesses (sd_timer s') \<and> us_since_boot t \<le> raw_time (sd_timer s) k"
proof -
  obtain res s1 ty' cmd s2 s3 where s1: "send_cmd D G ACMD41 0 s = Some (res, s1)" "init_loop D G t cmd s1 = Some s2"
      "time_left t s2 = Some (False, s3)" "(do { (res, s) \<leftarrow> send_cmd D G CMD16 512 s3; Some (if res \<noteq> 0 then 0 else ty', s) }) = Some (ty, s')"
    using assms(1,2) by (auto simp: init_v1_def bind_eq_Some_conv Let_def split: if_splits prod.splits)
  have l2: "later (sd_timer s) (sd_timer s2)"
    using sd_later_trans [OF send_cmd_passes [OF s1(1)] init_loop_passes [OF s1(2)]] ok by (simp add: sd_later_def)
  have l4: "sd_later s3 s'"
    using s1(4) by (auto simp: bind_eq_Some_conv dest!: passes)
  obtain k where k: "accesses (sd_timer s2) \<le> k" "k < accesses (sd_timer s3)" "later (sd_timer s2) (sd_timer s3)"
      "valid_time (Absolute_time (raw_time (sd_timer s2) k))"
      "\<not> 0 < absolute_time_diff_us (Absolute_time (raw_time (sd_timer s2) k)) t"
    using time_left_value [OF s1(3)] l2 by (auto simp: later_def)
  have "t \<le> Absolute_time (raw_time (sd_timer s2) k)"
    using k(5) absolute_time_diff_us_le [OF k(4) t] by simp
  then have "us_since_boot t \<le> raw_time (sd_timer s) k"
    using l2 by (cases t) (simp add: less_eq_absolute_time_def later_def)
  then show ?thesis
    using k(1,2,3) l2 l4 by (intro exI [of _ k]) (simp add: sd_later_def later_def)
qed

text \<open>
  C40. A card that the initialisation takes for a first version SD card or an MMC card is
  reported as ready only when at least a second has passed: such a card that finishes its own
  initialisation within the timeout, as it should, is refused.
\<close>

theorem first_version_cards_take_a_second:
  assumes init: "disk_initialize D G hz brg s = Some (st, s')" and ty: "FATFS_SD_CardType s' \<in> {CT_SD1, CT_MMC}"
    and ok: "time_ok (sd_timer s)"
  shows "\<exists>i j. accesses (sd_timer s) \<le> i \<and> i < j \<and> j < accesses (sd_timer s') \<and>
    uint (raw_time (sd_timer s) i) + 1000000 \<le> uint (raw_time (sd_timer s) j)"
proof -
  obtain s1 s2 ty s3 s4 where s1: "init_spi D G hz brg (s\<lparr>sd_dev := cs_pin_setup G (sd_dev s)\<rparr>) = Some s1"
      "clock_card D 10 s1 = Some s2" "card_type D G s2 = Some (ty, s3)"
      "deselect_card D G (s3\<lparr>FATFS_SD_CardType := ty\<rparr>) = Some s4"
      "FATFS_SD_CardType s' = FATFS_SD_CardType s4" "sd_timer s' = sd_timer s4"
    using init by (auto simp: disk_initialize_def bind_eq_Some_conv Let_def sd_detect_def protect_bit_def sd_enabled_def split: if_splits)
  have "FATFS_SD_CardType s4 = ty"
    using s1(4) by (auto simp: deselect_card_def sd_spi_send_def bind_eq_Some_conv)
  then have v1: "ty \<in> {CT_SD1, CT_MMC}"
    using s1(5) ty by simp
  then have not2: "ty \<notin> {0, CT_SD2, CT_SD2 OR CT_BLOCK}"
    by (auto simp: CT_SD1_def CT_MMC_def CT_SD2_def CT_BLOCK_def)
  have t1: "sd_timer s1 = sd_timer s"
    using s1(1) by (auto simp: init_spi_def bind_eq_Some_conv Let_def)
  have t2: "later (sd_timer s) (sd_timer s2)"
    using clock_card_passes [OF s1(2)] ok t1 by (simp add: sd_later_def)
  obtain r a t b c where c: "send_cmd D G CMD0 0 s2 = Some (r, a)" "sd_timeout_us (1000 * 1000) a = Some (t, b)"
      "init_v1 D G t c = Some (ty, s3)" "\<exists>r. send_cmd D G CMD8 0x1AA b = Some (r, c)"
    using s1(3) not2 init_v2_type by (fastforce simp: card_type_def bind_eq_Some_conv split: if_splits)
  have ta: "later (sd_timer s) (sd_timer a)"
    using later_trans [OF t2] send_cmd_passes [OF c(1)] t2 by (auto simp: sd_later_def later_def)
  obtain i where i: "accesses (sd_timer a) \<le> i" "i < accesses (sd_timer b)" "later (sd_timer a) (sd_timer b)"
      "valid_time t" "uint (us_since_boot t) = uint (raw_time (sd_timer a) i) + uint (1000 * 1000 :: u64)"
    using sd_timeout_us_value [OF c(2)] ta by (auto simp: later_def)
  have tc: "later (sd_timer b) (sd_timer c)"
    using c(4) send_cmd_passes i(3) by (fastforce simp: sd_later_def later_def)
  obtain j where j: "accesses (sd_timer c) \<le> j" "j < accesses (sd_timer s3)" "us_since_boot t \<le> raw_time (sd_timer c) j"
    using init_v1_waits [OF c(3)] not2 i(4) tc by (auto simp: later_def)
  have t3: "sd_later (s3\<lparr>FATFS_SD_CardType := ty\<rparr>) s4"
    by (rule deselect_card_passes [OF s1(4)])
  have "later (sd_timer c) (sd_timer s3)"
    using init_v1_passes [OF c(3)] tc by (simp add: sd_later_def later_def)
  then have "j < accesses (sd_timer s')"
    using t3 j(2) s1(6) by (simp add: sd_later_def later_def)
  moreover have "uint (us_since_boot t) \<le> uint (raw_time (sd_timer s) j)"
    using j(3) ta i(3) tc by (simp add: later_def word_le_def)
  ultimately show ?thesis
    using i j(1) ta tc by (intro exI [of _ i] exI [of _ j]) (simp add: later_def)
qed

section \<open>A first version card\<close>

text \<open>
  A device that answers from a list, on a controller that is always ready, and a clock that
  jumps by two seconds after the card has said once more that it is busy.
\<close>

definition scripted :: "u8 list spi_dev" where
  "scripted = \<lparr>
     spi_rd = (\<lambda>r d. if r = SPI_SR then (0x06, d) else if r = SPI_DR then
         (case d of [] \<Rightarrow> (0xFF, []) | x # xs \<Rightarrow> (ucast x, xs)) else (0xFFFFFFFF, d)),
     spi_wr = (\<lambda>_ _ d. d), spi_hw_set = (\<lambda>_ _ d. d), spi_hw_clear = (\<lambda>_ _ d. d), spi_hw_xor = (\<lambda>_ _ d. d)\<rparr>"

definition scripted_pins :: "u8 list sd_pins" where
  "scripted_pins = \<lparr>cs_put = (\<lambda>_ d. d), spi_pins_setup = (\<lambda>d. d), cs_pin_setup = (\<lambda>d. d)\<rparr>"

text \<open>Ten clocks; then each command takes nine bytes before its response.\<close>

definition first_version_card :: "u8 list" where
  "first_version_card = replicate 10 0xFF @ replicate 9 0xFF @ 0x01 # replicate 9 0xFF @ 0x05 # replicate 9 0xFF @ 0x01 #
     replicate 9 0xFF @ 0x01 # replicate 9 0xFF @ 0x01 # replicate 9 0xFF @ 0x01 # replicate 9 0xFF @ 0x00 # []"

definition jump :: "nat \<Rightarrow> u64" where
  "jump k = (if k < 24 then 1000 else 2001000)"

definition jump_timer :: "nat \<Rightarrow> timer_state" where
  "jump_timer n = (timer_boot jump (irq_boot 0x20000000 0x10000001) 0x10000101)\<lparr>accesses := n\<rparr>"

definition scripted_state :: "u8 \<Rightarrow> u8 \<Rightarrow> nat \<Rightarrow> u8 list \<Rightarrow> u8 list sd_state" where
  "scripted_state st ty n d = \<lparr>FATFS_SD_Stat = st, FATFS_SD_CardType = ty, sd_timer = jump_timer n, sd_dev = d\<rparr>"

lemma scripted_state_simps [simp]:
  "sd_dev (scripted_state st ty n d) = d" "FATFS_SD_Stat (scripted_state st ty n d) = st"
  "FATFS_SD_CardType (scripted_state st ty n d) = ty"
  "(scripted_state st ty n d)\<lparr>sd_dev := d'\<rparr> = scripted_state st ty n d'"
  "(scripted_state st ty n d)\<lparr>FATFS_SD_Stat := st'\<rparr> = scripted_state st' ty n d"
  "(scripted_state st ty n d)\<lparr>FATFS_SD_CardType := ty'\<rparr> = scripted_state st ty' n d"
  by (simp_all add: scripted_state_def)

lemma jump_clock: "get_absolute_time (jump_timer n) = Some (Absolute_time (jump (n + 1)), jump_timer (n + 3))"
proof -
  have hi: "ucast (drop_bit 32 (jump k)) = (0 :: u32)" and lo: "ucast (ucast (jump k) :: u32) = jump k"
      and le: "jump k \<le> INT64_MAX" for k
    by (simp_all add: jump_def INT64_MAX_def)
  have "time_us_64 (jump_timer n) = Some (jump (n + 1), jump_timer (n + 3))"
    by (simp add: time_us_64_def time_us_64_loop.simps read_timerawh_def read_timerawl_def the_time_def timer_access_def
        jump_timer_def timer_boot_def hi lo)
  then show ?thesis
    using le by (simp add: get_absolute_time_def update_us_since_boot_def)
qed

lemma scripted_time_left:
  "time_left t (scripted_state st ty n d) =
     Some (0 < absolute_time_diff_us (Absolute_time (jump (n + 1))) t, scripted_state st ty (n + 3) d)"
  by (simp add: time_left_def scripted_state_def jump_clock)

lemma scripted_timeout:
  "uint us < 2 ^ 32 \<Longrightarrow> sd_timeout_us us (scripted_state st ty n d) =
     Some (Absolute_time (jump (n + 1) + us), scripted_state st ty (n + 3) d)"
proof -
  assume us: "uint us < 2 ^ 32"
  have "uint (jump (n + 1)) + uint us < 2 ^ 63"
    using us by (simp add: jump_def)
  then have "delayed_by_us (Absolute_time (jump (n + 1))) us = Some (Absolute_time (jump (n + 1) + us))"
    using delayed_by_us_in_range [of "Absolute_time (jump (n + 1))" us] by simp
  then show ?thesis
    by (simp add: sd_timeout_us_def make_timeout_time_us_def scripted_state_def jump_clock)
qed

lemma scripted_send [simp]:
  "sd_spi_send scripted x (scripted_state st ty n (r # rs)) = Some (r, scripted_state st ty n rs)"
  "sd_spi_send scripted x (scripted_state st ty n []) = Some (0xFF, scripted_state st ty n [])"
  by (simp_all add: sd_spi_send_def spi_write_read_blocking_def transfer_loop.simps transfer_put_def transfer_get_def
      spi_is_writable_def spi_is_readable_def scripted_def c_read_def)

lemma scripted_cs [simp]: "cs_put scripted_pins b d = d"
  by (simp add: scripted_pins_def)

lemma scripted_cmd:
  assumes "cmd \<noteq> CMD12" and "r AND 0x80 = 0"
  shows "send_plain_cmd scripted scripted_pins cmd arg (scripted_state st ty n (replicate 9 0xFF @ r # rs)) =
    Some (r, scripted_state st ty (n + 3) rs)"
proof -
  have nine: "replicate 9 (0xFF :: u8) = [0xFF, 0xFF, 0xFF, 0xFF, 0xFF, 0xFF, 0xFF, 0xFF, 0xFF]"
    by (simp add: eval_nat_numeral)
  have ready: "wait_ready scripted 500 (scripted_state st ty n (0xFF # d)) = Some (True, scripted_state st ty (n + 3) d)" for d
    by (simp add: wait_ready_def scripted_timeout wait_ready_loop.simps)
  show ?thesis
    using assms by (simp add: send_plain_cmd_def deselect_card_def select_card_def ready send_frame_def Let_def
        resp_loop.simps nine)
qed

lemma scripted_init: "init_spi scripted scripted_pins 125000000 125000 (scripted_state st ty n d) = Some (scripted_state st ty n d)"
proof -
  have p: "prescale_loop 125000000 125000 2 = 2"
    by (simp add: prescale_loop.simps)
  have "postdiv_loop 125000000 125000 2 (Suc (Suc 254)) = Suc (Suc 254)"
    by (subst postdiv_loop.simps) simp
  then have q: "postdiv_loop 125000000 125000 2 256 = 256"
    by simp
  show ?thesis
    by (simp add: init_spi_def spi_set_format_def spi_init_def spi_reset_def spi_unreset_def reset_bits_def
        wait_reset_done.simps spi_set_baudrate_def p q hw_write_masked_def scripted_def scripted_pins_def c_assert_def Let_def)
qed

lemma scripted_clocks: "clock_card scripted k (scripted_state st ty n (replicate k 0xFF @ d)) = Some (scripted_state st ty n d)"
  by (induction k) auto

lemma scripted_v1:
  "init_v1 scripted scripted_pins (Absolute_time 1001000) (scripted_state st ty 9
     (replicate 9 0xFF @ 0x01 # replicate 9 0xFF @ 0x01 # replicate 9 0xFF @ 0x01 # replicate 9 0xFF @ 0x01 # replicate 9 0xFF @ 0x00 # [])) =
   Some (CT_SD1, scripted_state st ty 33 [])"
proof -
  have acmd: "send_cmd scripted scripted_pins ACMD41 arg
      (scripted_state st ty n (replicate 9 0xFF @ 0x01 # replicate 9 0xFF @ r # d)) = Some (r, scripted_state st ty (6 + n) d)"
    if "r AND 0x80 = 0" for arg n r d
    using that by (simp add: send_cmd_def ACMD41_def scripted_cmd CMD55_def CMD12_def)
  have diff: "0 < absolute_time_diff_us (Absolute_time 1000) (Absolute_time 1001000)"
      "\<not> 0 < absolute_time_diff_us (Absolute_time 2001000) (Absolute_time 1001000)"
    by (simp_all add: absolute_time_diff_us_def to_us_since_boot_def)
  have loop: "init_loop scripted scripted_pins (Absolute_time 1001000) ACMD41 (scripted_state st ty 15
      (replicate 9 0xFF @ 0x01 # replicate 9 0xFF @ 0x01 # d)) = Some (scripted_state st ty 27 d)" for d
    by (subst init_loop.simps, simp add: scripted_time_left jump_def acmd diff)
      (subst init_loop.simps, simp add: scripted_time_left jump_def diff)
  have cmd16: "send_cmd scripted scripted_pins CMD16 512 (scripted_state st ty n (replicate 9 0xFF @ 0x00 # d)) =
      Some (0, scripted_state st ty (n + 3) d)" for n d
    by (simp add: send_cmd_def scripted_cmd CMD16_def CMD12_def)
  show ?thesis
    by (simp add: init_v1_def acmd loop scripted_time_left jump_def diff cmd16)
qed

theorem first_version_cards_take_a_second_witness:
  "\<exists>s' i j. disk_initialize scripted scripted_pins 125000000 125000 (scripted_state STA_NOINIT 0 0 first_version_card) = Some (0, s') \<and>
     FATFS_SD_CardType s' = CT_SD1 \<and> i < j \<and> uint (jump i) + 1000000 \<le> uint (jump j)"
proof -
  have v1: "card_type scripted scripted_pins (scripted_state STA_NOINIT 0 0 (drop 10 first_version_card)) =
      Some (CT_SD1, scripted_state STA_NOINIT 0 33 [])"
    by (simp add: card_type_def first_version_card_def send_cmd_def CMD0_def CMD8_def CMD12_def scripted_cmd scripted_timeout
        jump_def scripted_v1)
  have clocks: "clock_card scripted 10 (scripted_state STA_NOINIT 0 0 first_version_card) =
      Some (scripted_state STA_NOINIT 0 0 (drop 10 first_version_card))"
    using scripted_clocks [of 10 STA_NOINIT 0 0 "drop 10 first_version_card"] by (simp add: first_version_card_def)
  have sd1: "CT_SD1 \<noteq> 0"
    by (simp add: CT_SD1_def)
  have pins: "cs_pin_setup scripted_pins d = d" for d
    by (simp add: scripted_pins_def)
  have run: "disk_initialize scripted scripted_pins 125000000 125000 (scripted_state STA_NOINIT 0 0 first_version_card) =
      Some (0, scripted_state 0 CT_SD1 33 [])"
    by (simp add: disk_initialize_def pins scripted_init sd_detect_def clocks v1 deselect_card_def protect_bit_def
        sd_enabled_def sd1 Let_def)
  have ok: "time_ok (sd_timer (scripted_state STA_NOINIT 0 0 first_version_card))"
    by (simp add: time_ok_def timer_ok_def steady_def mono_def jump_timer_def scripted_state_def timer_boot_def NUM_TIMERS_def
        jump_def INT64_MAX_def)
  have raw: "raw_time (sd_timer (scripted_state STA_NOINIT 0 0 first_version_card)) = jump"
    by (simp add: scripted_state_def jump_timer_def timer_boot_def)
  show ?thesis
    using first_version_cards_take_a_second [OF run _ ok] run unfolding raw by fastforce
qed

section \<open>Erasing\<close>

text \<open>The driver asks itself for the CSD with a code it does not know: erasing always fails.\<close>

lemma erase_always_fails:
  assumes "disk_ioctl D G 4 s = Some (r, v, s')"
  shows "r \<in> {RES_ERROR, RES_NOTRDY}"
proof -
  have inner: "disk_ioctl_from 0 D G 11 s = Some (r, v, s'') \<Longrightarrow> r \<noteq> RES_OK" for r v s s''
    by (subst (asm) disk_ioctl_from.simps) (auto simp: bind_eq_Some_conv sd_detect_def split: if_splits)
  show ?thesis
    using assms unfolding disk_ioctl_def
    by (subst (asm) disk_ioctl_from.simps) (auto simp: bind_eq_Some_conv sd_detect_def split: if_splits dest: inner)
qed

end
