(* ===== verification/Stdio.thy ===== *)
theory Stdio
  imports Sync Printf
begin

text \<open>
  The standard input and output of \<open>SDK/pico/pico_stdio/stdio.c\<close>: the list of drivers, the
  translation of line feeds, the output calls with their mutex, the buffered \<open>printf\<close> and the
  input calls. A driver is a number, 0 is \<open>NULL\<close>; its functions are the parameter \<open>P\<close>, its
  fields the map \<open>stdio_driver_at\<close>. A text of \<open>len\<close> characters is a list of that length. The
  build is the default one: \<open>PICO_STDOUT_MUTEX\<close> and \<open>PICO_STDIO_ENABLE_CRLF_SUPPORT\<close> are on,
  \<open>PICO_STDIO_IGNORE_NESTED_STDOUT\<close> is not.
\<close>

section \<open>State\<close>

record 'w driver_ops =
  out_chars :: "(string \<Rightarrow> 'w \<Rightarrow> 'w option) option"
  out_flush :: "('w \<Rightarrow> 'w option) option"
  in_chars :: "(int \<Rightarrow> 'w \<Rightarrow> (int \<times> string \<times> 'w) option) option"

record stdio_driver =
  next_driver :: nat
  last_ended_with_cr :: bool
  crlf_enabled :: bool

text \<open>\<open>stdio_mutex\<close> holds \<open>print_mutex\<close> and, for the waits, the alarm pool with the timer.\<close>

record 'w stdio_state =
  drivers :: nat
  filter_driver :: nat
  stdio_driver_at :: "nat \<Rightarrow> stdio_driver"
  stdio_mutex :: "mutex world"
  devices :: 'w

text \<open>
  Where the code runs, and what the other core does while this one waits for \<open>print_mutex\<close>:
  to the mutex at each look, and to the drivers and devices in all.
\<close>

record 'w stdio_env =
  env_core :: nat
  env_others :: "nat \<Rightarrow> mutex \<Rightarrow> mutex"
  env_meanwhile :: "'w stdio_state \<Rightarrow> 'w stdio_state"

abbreviation CR :: char where "CR \<equiv> CHR 0x0D"
abbreviation LF :: char where "LF \<equiv> CHR 0x0A"

definition PICO_STDIO_STACK_BUFFER_SIZE :: nat where "PICO_STDIO_STACK_BUFFER_SIZE = 128"
definition PICO_ERROR_TIMEOUT :: int where "PICO_ERROR_TIMEOUT = -1"

section \<open>Serialising\<close>

definition stdout_serialize_begin :: "'w stdio_env \<Rightarrow> 'w stdio_state \<Rightarrow> (bool \<times> 'w stdio_state) option" where
  "stdout_serialize_begin E s =
     (let caller = lock_get_caller_owner_id (env_core E);
          (ok, owner, m) = mutex_try_enter (env_core E) (memory (stdio_mutex s));
          s = s\<lparr>stdio_mutex := (stdio_mutex s)\<lparr>memory := m\<rparr>\<rparr>
      in if \<not> ok then
           (if owner = Some (scast caller) then Some (False, s)
            else do {
              w \<leftarrow> mutex_enter_blocking (env_core E) (env_others E) (stdio_mutex s);
              Some (True, (env_meanwhile E s)\<lparr>stdio_mutex := w\<rparr>) })
         else Some (True, s))"

definition stdout_serialize_end :: "'w stdio_state \<Rightarrow> 'w stdio_state option" where
  "stdout_serialize_end s = do {
     m \<leftarrow> mutex_exit (memory (stdio_mutex s));
     Some (s\<lparr>stdio_mutex := (stdio_mutex s)\<lparr>memory := m\<rparr>\<rparr>) }"

section \<open>Output to one driver\<close>

text \<open>A call of the driver's \<open>out_chars\<close>; a call through \<open>NULL\<close> stops.\<close>

definition call_out :: "(nat \<Rightarrow> 'w driver_ops) \<Rightarrow> nat \<Rightarrow> string \<Rightarrow> 'w stdio_state \<Rightarrow> 'w stdio_state option" where
  "call_out P driver text s = do {
     f \<leftarrow> out_chars (P driver);
     w \<leftarrow> f text (devices s);
     Some (s\<lparr>devices := w\<rparr>) }"

definition stdio_out_chars_no_crlf :: "(nat \<Rightarrow> 'w driver_ops) \<Rightarrow> nat \<Rightarrow> string \<Rightarrow> 'w stdio_state \<Rightarrow> 'w stdio_state option" where
  "stdio_out_chars_no_crlf P driver text s = call_out P driver text s"

function crlf_loop ::
    "(nat \<Rightarrow> 'w driver_ops) \<Rightarrow> nat \<Rightarrow> string \<Rightarrow> nat \<Rightarrow> nat \<Rightarrow> 'w stdio_state \<Rightarrow> (nat \<times> 'w stdio_state) option" where
  "crlf_loop P driver text i first_of_chunk s =
     (if i < length text then
        (let prev_char_was_cr = (if i > 0 then text ! (i - 1) = CR else last_ended_with_cr (stdio_driver_at s driver))
         in if text ! i = LF \<and> \<not> prev_char_was_cr then
              do {
                s \<leftarrow> (if i > first_of_chunk then call_out P driver (take (i - first_of_chunk) (drop first_of_chunk text)) s
                     else Some s);
                s \<leftarrow> call_out P driver [CR, LF] s;
                crlf_loop P driver text (i + 1) (i + 1) s }
            else crlf_loop P driver text (i + 1) first_of_chunk s)
      else Some (first_of_chunk, s))"
  by pat_completeness auto
termination by (relation "measure (\<lambda>(P, d, text, i, f, s). length text - i)") auto

declare crlf_loop.simps [simp del]

definition stdio_out_chars_crlf :: "(nat \<Rightarrow> 'w driver_ops) \<Rightarrow> nat \<Rightarrow> string \<Rightarrow> 'w stdio_state \<Rightarrow> 'w stdio_state option" where
  "stdio_out_chars_crlf P driver text s =
     (if \<not> crlf_enabled (stdio_driver_at s driver) then call_out P driver text s
      else do {
        (first_of_chunk, s) \<leftarrow> crlf_loop P driver text 0 0 s;
        s \<leftarrow> (if first_of_chunk < length text then call_out P driver (drop first_of_chunk text) s else Some s);
        Some (if length text > 0
              then s\<lparr>stdio_driver_at := (stdio_driver_at s)(driver := (stdio_driver_at s driver)\<lparr>last_ended_with_cr := last text = CR\<rparr>)\<rparr>
              else s) })"

section \<open>Output to all drivers\<close>

text \<open>The loop over the list, which follows \<open>next\<close> after the body.\<close>

partial_function (option) for_drivers ::
    "(nat \<Rightarrow> 'w stdio_state \<Rightarrow> 'w stdio_state option) \<Rightarrow> nat \<Rightarrow> 'w stdio_state \<Rightarrow> 'w stdio_state option" where
  "for_drivers body driver s =
     (if driver = 0 then Some s
      else do {
        s \<leftarrow> body driver s;
        for_drivers body (next_driver (stdio_driver_at s driver)) s })"

declare for_drivers.simps [code]

definition put_driver ::
    "(nat \<Rightarrow> 'w driver_ops) \<Rightarrow> string \<Rightarrow> bool \<Rightarrow> bool \<Rightarrow> nat \<Rightarrow> 'w stdio_state \<Rightarrow> 'w stdio_state option" where
  "put_driver P text newline no_cr driver s =
     (let out_func = (if no_cr then stdio_out_chars_no_crlf P else stdio_out_chars_crlf P) in
      if out_chars (P driver) = None then Some s
      else if filter_driver s \<noteq> 0 \<and> filter_driver s \<noteq> driver then Some s
      else do {
        s \<leftarrow> out_func driver text s;
        if newline then out_func driver [LF] s else Some s })"

definition stdio_put_string ::
    "'w stdio_env \<Rightarrow> (nat \<Rightarrow> 'w driver_ops) \<Rightarrow> string \<Rightarrow> bool \<Rightarrow> bool \<Rightarrow> 'w stdio_state \<Rightarrow> (bool \<times> 'w stdio_state) option" where
  "stdio_put_string E P text newline no_cr s = do {
     (serialized, s) \<leftarrow> stdout_serialize_begin E s;
     s \<leftarrow> for_drivers (put_driver P text newline no_cr) (drivers s) s;
     s \<leftarrow> (if serialized then stdout_serialize_end s else Some s);
     Some (length text \<noteq> 0, s) }"

definition flush_driver :: "(nat \<Rightarrow> 'w driver_ops) \<Rightarrow> nat \<Rightarrow> 'w stdio_state \<Rightarrow> 'w stdio_state option" where
  "flush_driver P d s =
     (case out_flush (P d) of
        None \<Rightarrow> Some s
      | Some f \<Rightarrow> do { w \<leftarrow> f (devices s); Some (s\<lparr>devices := w\<rparr>) })"

definition stdio_flush :: "(nat \<Rightarrow> 'w driver_ops) \<Rightarrow> 'w stdio_state \<Rightarrow> 'w stdio_state option" where
  "stdio_flush P s = for_drivers (flush_driver P) (drivers s) s"

definition wrap_putchar ::
    "'w stdio_env \<Rightarrow> (nat \<Rightarrow> 'w driver_ops) \<Rightarrow> int \<Rightarrow> 'w stdio_state \<Rightarrow> (int \<times> 'w stdio_state) option" where
  "wrap_putchar E P c s = do {
     (_, s) \<leftarrow> stdio_put_string E P [char_of c] False False s;
     Some (c, s) }"

definition wrap_puts ::
    "'w stdio_env \<Rightarrow> (nat \<Rightarrow> 'w driver_ops) \<Rightarrow> string \<Rightarrow> 'w stdio_state \<Rightarrow> (int \<times> 'w stdio_state) option" where
  "wrap_puts E P text s = do {
     (_, s) \<leftarrow> stdio_put_string E P text True False s;
     s \<leftarrow> stdio_flush P s;
     Some (int (length text), s) }"

definition putchar_raw ::
    "'w stdio_env \<Rightarrow> (nat \<Rightarrow> 'w driver_ops) \<Rightarrow> int \<Rightarrow> 'w stdio_state \<Rightarrow> (int \<times> 'w stdio_state) option" where
  "putchar_raw E P c s = do {
     (_, s) \<leftarrow> stdio_put_string E P [char_of c] False True s;
     Some (c, s) }"

definition puts_raw ::
    "'w stdio_env \<Rightarrow> (nat \<Rightarrow> 'w driver_ops) \<Rightarrow> string \<Rightarrow> 'w stdio_state \<Rightarrow> (int \<times> 'w stdio_state) option" where
  "puts_raw E P text s = do {
     (_, s) \<leftarrow> stdio_put_string E P text True True s;
     s \<leftarrow> stdio_flush P s;
     Some (int (length text), s) }"

definition stdio_write ::
    "'w stdio_env \<Rightarrow> (nat \<Rightarrow> 'w driver_ops) \<Rightarrow> int \<Rightarrow> string \<Rightarrow> 'w stdio_state \<Rightarrow> (int \<times> 'w stdio_state) option" where
  "stdio_write E P handle buffer s =
     (if handle = 1 \<or> handle = 2 then do {
        (_, s) \<leftarrow> stdio_put_string E P buffer False False s;
        Some (int (length buffer), s) }
      else Some (-1, s))"

section \<open>Formatted output\<close>

text \<open>The buffer of \<open>printf\<close> is the list of the characters in it.\<close>

definition flush_buffer_driver :: "(nat \<Rightarrow> 'w driver_ops) \<Rightarrow> string \<Rightarrow> nat \<Rightarrow> 'w stdio_state \<Rightarrow> 'w stdio_state option" where
  "flush_buffer_driver P buf d s =
     (if out_chars (P d) = None then Some s
      else if filter_driver s \<noteq> 0 \<and> filter_driver s \<noteq> d then Some s
      else stdio_out_chars_crlf P d buf s)"

definition stdio_stack_buffer_flush ::
    "(nat \<Rightarrow> 'w driver_ops) \<Rightarrow> string \<times> 'w stdio_state \<Rightarrow> (string \<times> 'w stdio_state) option" where
  "stdio_stack_buffer_flush P = (\<lambda>(buf, s).
     if length buf \<noteq> 0 then do {
       s \<leftarrow> for_drivers (flush_buffer_driver P buf) (drivers s) s;
       Some ([], s) }
     else Some (buf, s))"

definition stdio_buffered_printer ::
    "(nat \<Rightarrow> 'w driver_ops) \<Rightarrow> char \<Rightarrow> string \<times> 'w stdio_state \<Rightarrow> (string \<times> 'w stdio_state) option" where
  "stdio_buffered_printer P c b = do {
     (buf, s) \<leftarrow> (if length (fst b) = PICO_STDIO_STACK_BUFFER_SIZE then stdio_stack_buffer_flush P b else Some b);
     Some (buf @ [c], s) }"

definition wrap_vprintf ::
    "'d double_ops \<Rightarrow> 'w stdio_env \<Rightarrow> (nat \<Rightarrow> 'w driver_ops) \<Rightarrow> string \<Rightarrow> 'd va list \<Rightarrow> 'w stdio_state \<Rightarrow> (u32 \<times> 'w stdio_state) option" where
  "wrap_vprintf F E P format va s = do {
     (serialized, s) \<leftarrow> stdout_serialize_begin E s;
     (ret, b) \<leftarrow> vfctprintf F (stdio_buffered_printer P) ([], s) format va;
     (_, s) \<leftarrow> stdio_stack_buffer_flush P b;
     s \<leftarrow> stdio_flush P s;
     s \<leftarrow> (if serialized then stdout_serialize_end s else Some s);
     Some (ret, s) }"

definition wrap_printf ::
    "'d double_ops \<Rightarrow> 'w stdio_env \<Rightarrow> (nat \<Rightarrow> 'w driver_ops) \<Rightarrow> string \<Rightarrow> 'd va list \<Rightarrow> 'w stdio_state \<Rightarrow> (u32 \<times> 'w stdio_state) option" where
  "wrap_printf F E P format va s = wrap_vprintf F E P format va s"

section \<open>Input\<close>

text \<open>One pass over the drivers; \<open>None\<close> in the first component: nothing was read.\<close>

partial_function (option) in_drivers ::
    "(nat \<Rightarrow> 'w driver_ops) \<Rightarrow> int \<Rightarrow> nat \<Rightarrow> 'w stdio_state \<Rightarrow> ((int \<times> string) option \<times> 'w stdio_state) option" where
  "in_drivers P len driver s =
     (if driver = 0 then Some (None, s)
      else if filter_driver s \<noteq> 0 \<and> filter_driver s \<noteq> driver then
        in_drivers P len (next_driver (stdio_driver_at s driver)) s
      else (case in_chars (P driver) of
          None \<Rightarrow> in_drivers P len (next_driver (stdio_driver_at s driver)) s
        | Some f \<Rightarrow> do {
            (n, buf, w) \<leftarrow> f len (devices s);
            let s = s\<lparr>devices := w\<rparr>;
            if n > 0 then Some (Some (n, buf), s)
            else in_drivers P len (next_driver (stdio_driver_at s driver)) s }))"

definition stdio_timer :: "'w stdio_state \<Rightarrow> timer_state" where
  "stdio_timer s = ap_timer (alarms (stdio_mutex s))"

definition set_stdio_timer :: "timer_state \<Rightarrow> 'w stdio_state \<Rightarrow> 'w stdio_state" where
  "set_stdio_timer t s = s\<lparr>stdio_mutex := (stdio_mutex s)\<lparr>alarms := (alarms (stdio_mutex s))\<lparr>ap_timer := t\<rparr>\<rparr>\<rparr>"

partial_function (option) stdio_get_until ::
    "(nat \<Rightarrow> 'w driver_ops) \<Rightarrow> int \<Rightarrow> absolute_time \<Rightarrow> 'w stdio_state \<Rightarrow> (int \<times> string \<times> 'w stdio_state) option" where
  "stdio_get_until P len until s = do {
     (r, s) \<leftarrow> in_drivers P len (drivers s) s;
     case r of
       Some (n, buf) \<Rightarrow> Some (n, buf, s)
     | None \<Rightarrow> do {
         let (reached, t) = time_reached (stdio_timer s) until;
         let s = set_stdio_timer t s;
         if reached then Some (PICO_ERROR_TIMEOUT, [], s)
         else do {
           t \<leftarrow> busy_wait_us (stdio_timer s) 1;
           stdio_get_until P len until (set_stdio_timer t s) } } }"

definition stdio_read ::
    "(nat \<Rightarrow> 'w driver_ops) \<Rightarrow> int \<Rightarrow> int \<Rightarrow> 'w stdio_state \<Rightarrow> (int \<times> string \<times> 'w stdio_state) option" where
  "stdio_read P handle len s =
     (if handle = 0 then stdio_get_until P len at_the_end_of_time s else Some (-1, [], s))"

definition wrap_getchar :: "(nat \<Rightarrow> 'w driver_ops) \<Rightarrow> 'w stdio_state \<Rightarrow> (int \<times> 'w stdio_state) option" where
  "wrap_getchar P s = do {
     (len, buf, s) \<leftarrow> stdio_get_until P 1 at_the_end_of_time s;
     if len < 0 then Some (len, s)
     else do {
       c_assert (len = 1);
       c \<leftarrow> c_read buf 0;
       Some (of_char c, s) } }"

definition getchar_timeout_us ::
    "(nat \<Rightarrow> 'w driver_ops) \<Rightarrow> u32 \<Rightarrow> 'w stdio_state \<Rightarrow> (int \<times> 'w stdio_state) option" where
  "getchar_timeout_us P timeout_us s = do {
     (t, tm) \<leftarrow> make_timeout_time_us (stdio_timer s) (ucast timeout_us);
     (rc, buf, s) \<leftarrow> stdio_get_until P 1 t (set_stdio_timer tm s);
     if rc < 0 then Some (rc, s)
     else do {
       c_assert (rc \<noteq> 0);
       c \<leftarrow> c_read buf 0;
       Some (of_char c, s) } }"

section \<open>The list of drivers\<close>

text \<open>
  \<open>prev\<close> is the place that holds the link: \<open>drivers\<close> itself (0) or the \<open>next\<close> field of a driver.
\<close>

definition get_link :: "nat \<Rightarrow> 'w stdio_state \<Rightarrow> nat" where
  "get_link prev s = (if prev = 0 then drivers s else next_driver (stdio_driver_at s prev))"

definition set_next :: "nat \<Rightarrow> nat \<Rightarrow> 'w stdio_state \<Rightarrow> 'w stdio_state" where
  "set_next d n s = s\<lparr>stdio_driver_at := (stdio_driver_at s)(d := (stdio_driver_at s d)\<lparr>next_driver := n\<rparr>)\<rparr>"

definition set_link :: "nat \<Rightarrow> nat \<Rightarrow> 'w stdio_state \<Rightarrow> 'w stdio_state" where
  "set_link prev n s = (if prev = 0 then s\<lparr>drivers := n\<rparr> else set_next prev n s)"

partial_function (option) set_enabled_from :: "nat \<Rightarrow> bool \<Rightarrow> nat \<Rightarrow> 'w stdio_state \<Rightarrow> 'w stdio_state option" where
  "set_enabled_from driver enable prev s =
     (if get_link prev s \<noteq> 0 then
        (if get_link prev s = driver then
           Some (if \<not> enable then set_next driver 0 (set_link prev (next_driver (stdio_driver_at s driver)) s) else s)
         else set_enabled_from driver enable (get_link prev s) s)
      else Some (if enable then set_link prev driver s else s))"

definition stdio_set_driver_enabled :: "nat \<Rightarrow> bool \<Rightarrow> 'w stdio_state \<Rightarrow> 'w stdio_state option" where
  "stdio_set_driver_enabled driver enable s = set_enabled_from driver enable 0 s"

definition stdio_filter_driver :: "nat \<Rightarrow> 'w stdio_state \<Rightarrow> 'w stdio_state" where
  "stdio_filter_driver driver s = s\<lparr>filter_driver := driver\<rparr>"

definition stdio_set_translate_crlf :: "nat \<Rightarrow> bool \<Rightarrow> 'w stdio_state \<Rightarrow> 'w stdio_state" where
  "stdio_set_translate_crlf driver enabled s =
     (let D = stdio_driver_at s driver;
          D = (if enabled \<and> \<not> crlf_enabled D then D\<lparr>last_ended_with_cr := False\<rparr> else D);
          D = D\<lparr>crlf_enabled := enabled\<rparr>
      in s\<lparr>stdio_driver_at := (stdio_driver_at s)(driver := D)\<rparr>)"

end
