(* ===== verification/Uart.thy ===== *)
theory Uart
  imports Stdio
begin

text \<open>
  The UART driver (\<open>SDK/hardware/uart.c\<close> and the inline functions of
  \<open>SDK/include/hardware/uart.h\<close>) and the standard input and output over it
  (\<open>SDK/pico/pico_stdio_uart/stdio_uart.c\<close>). The registers are hardware: the parameter \<open>D\<close> reads
  and writes them, time may pass at every access; \<open>hz\<close> is \<open>clock_get_hz(clk_peri)\<close>. The only
  instances are \<open>uart0\<close> and \<open>uart1\<close>, so their checks never fail. The translation of line feeds
  is compiled in and off at first, as is the default.
\<close>

section \<open>Registers\<close>

datatype UART = uart0 | uart1

datatype uart_reg = UARTDR | UARTFR | UARTIBRD | UARTFBRD | UARTLCR_H | UARTCR | UARTIFLS | UARTIMSC | UARTDMACR
  | UART_RESET | UART_RESET_DONE

record 'd uart_dev =
  uart_rd :: "UART \<Rightarrow> uart_reg \<Rightarrow> 'd \<Rightarrow> u32 \<times> 'd"
  uart_wr :: "UART \<Rightarrow> uart_reg \<Rightarrow> u32 \<Rightarrow> 'd \<Rightarrow> 'd"
  uart_hw_set :: "UART \<Rightarrow> uart_reg \<Rightarrow> u32 \<Rightarrow> 'd \<Rightarrow> 'd"
  uart_hw_clear :: "UART \<Rightarrow> uart_reg \<Rightarrow> u32 \<Rightarrow> 'd \<Rightarrow> 'd"
  uart_hw_xor :: "UART \<Rightarrow> uart_reg \<Rightarrow> u32 \<Rightarrow> 'd \<Rightarrow> 'd"

text \<open>The state: \<open>uart_char_to_line_feed\<close> and the hardware.\<close>

record 'd uart_state =
  uart_char_to_line_feed :: "UART \<Rightarrow> int"
  uart_hw :: 'd

definition uart_get_index :: "UART \<Rightarrow> nat" where
  "uart_get_index uart = (if uart = uart1 then 1 else 0)"

definition uart_get_instance :: "nat \<Rightarrow> UART option" where
  "uart_get_instance instance = do {
     c_assert (\<not> instance \<ge> 2);
     Some (if instance \<noteq> 0 then uart1 else uart0) }"

definition uart_write_masked :: "'d uart_dev \<Rightarrow> UART \<Rightarrow> uart_reg \<Rightarrow> u32 \<Rightarrow> u32 \<Rightarrow> 'd \<Rightarrow> 'd" where
  "uart_write_masked D uart r vals write_mask d =
     (let (v, d) = uart_rd D uart r d in uart_hw_xor D uart r ((v XOR vals) AND write_mask) d)"

definition bit_of :: "bool \<Rightarrow> u32" where
  "bit_of b = (if b then 1 else 0)"

section \<open>Set-up\<close>

definition uart_reset_bits :: "UART \<Rightarrow> u32" where
  "uart_reset_bits uart = (if uart_get_index uart \<noteq> 0 then 0x00800000 else 0x00400000)"

definition uart_reset :: "'d uart_dev \<Rightarrow> UART \<Rightarrow> 'd \<Rightarrow> 'd" where
  "uart_reset D uart d = uart_hw_set D uart UART_RESET (uart_reset_bits uart) d"

partial_function (option) uart_wait_reset_done :: "'d uart_dev \<Rightarrow> UART \<Rightarrow> 'd \<Rightarrow> 'd option" where
  "uart_wait_reset_done D uart d =
     (let (v, d) = uart_rd D uart UART_RESET_DONE d in
      if NOT v AND uart_reset_bits uart \<noteq> 0 then uart_wait_reset_done D uart d else Some d)"

definition uart_unreset :: "'d uart_dev \<Rightarrow> UART \<Rightarrow> 'd \<Rightarrow> 'd option" where
  "uart_unreset D uart d = uart_wait_reset_done D uart (uart_hw_clear D uart UART_RESET (uart_reset_bits uart) d)"

text \<open>The divisors of a bit rate, integer and fraction.\<close>

definition baud_divisors :: "u32 \<Rightarrow> u32 \<Rightarrow> u32 \<times> u32" where
  "baud_divisors hz baudrate =
     (let baud_rate_div = 8 * hz div baudrate;
          baud_ibrd = drop_bit 7 baud_rate_div
      in if baud_ibrd = 0 then (1, 0)
         else if baud_ibrd \<ge> 65535 then (65535, 0)
         else (baud_ibrd, ((baud_rate_div AND 0x7f) + 1) div 2))"

definition uart_set_baudrate :: "'d uart_dev \<Rightarrow> u32 \<Rightarrow> UART \<Rightarrow> u32 \<Rightarrow> 'd \<Rightarrow> (u32 \<times> 'd) option" where
  "uart_set_baudrate D hz uart baudrate d = do {
     c_assert (\<not> baudrate = 0);
     let (baud_ibrd, baud_fbrd) = baud_divisors hz baudrate;
     let d = uart_wr D uart UARTIBRD baud_ibrd d;
     let d = uart_wr D uart UARTFBRD baud_fbrd d;
     let d = uart_hw_set D uart UARTLCR_H 0 d;
     Some ((4 * hz) div (64 * baud_ibrd + baud_fbrd), d) }"

datatype uart_parity = UART_PARITY_NONE | UART_PARITY_EVEN | UART_PARITY_ODD

definition uart_set_format :: "'d uart_dev \<Rightarrow> UART \<Rightarrow> u32 \<Rightarrow> u32 \<Rightarrow> uart_parity \<Rightarrow> 'd \<Rightarrow> 'd option" where
  "uart_set_format D uart data_bits stop_bits parity d = do {
     c_assert (\<not> (data_bits < 5 \<or> data_bits > 8));
     c_assert (\<not> (stop_bits \<noteq> 1 \<and> stop_bits \<noteq> 2));
     Some (uart_write_masked D uart UARTLCR_H
       (push_bit 5 (data_bits - 5) OR push_bit 3 (stop_bits - 1) OR
        push_bit 1 (bit_of (parity \<noteq> UART_PARITY_NONE)) OR push_bit 2 (bit_of (parity = UART_PARITY_EVEN)))
       (0x60 OR 0x08 OR 0x02 OR 0x04) d) }"

definition uart_set_hw_flow :: "'d uart_dev \<Rightarrow> UART \<Rightarrow> bool \<Rightarrow> bool \<Rightarrow> 'd \<Rightarrow> 'd" where
  "uart_set_hw_flow D uart cts rts d =
     uart_write_masked D uart UARTCR (push_bit 15 (bit_of cts) OR push_bit 14 (bit_of rts)) (0x4000 OR 0x8000) d"

definition uart_set_irq_enables :: "'d uart_dev \<Rightarrow> UART \<Rightarrow> bool \<Rightarrow> bool \<Rightarrow> 'd \<Rightarrow> 'd" where
  "uart_set_irq_enables D uart rx_has_data tx_needs_data d =
     (let d = uart_wr D uart UARTIMSC
            (push_bit 5 (bit_of tx_needs_data) OR push_bit 4 (bit_of rx_has_data) OR push_bit 6 (bit_of rx_has_data)) d;
          d = (if rx_has_data then uart_write_masked D uart UARTIFLS 0 0x38 d else d)
      in if tx_needs_data then uart_write_masked D uart UARTIFLS 0 0x07 d else d)"

definition uart_is_enabled :: "'d uart_dev \<Rightarrow> UART \<Rightarrow> 'd \<Rightarrow> bool \<times> 'd" where
  "uart_is_enabled D uart d = (let (v, d) = uart_rd D uart UARTCR d in (v AND 0x01 \<noteq> 0, d))"

definition uart_set_fifo_enabled :: "'d uart_dev \<Rightarrow> UART \<Rightarrow> bool \<Rightarrow> 'd \<Rightarrow> 'd" where
  "uart_set_fifo_enabled D uart enabled d = uart_write_masked D uart UARTLCR_H (push_bit 4 (bit_of enabled)) 0x10 d"

definition uart_set_break :: "'d uart_dev \<Rightarrow> UART \<Rightarrow> bool \<Rightarrow> 'd \<Rightarrow> 'd" where
  "uart_set_break D uart en d =
     (if en then uart_hw_set D uart UARTLCR_H 0x01 d else uart_hw_clear D uart UARTLCR_H 0x01 d)"

definition uart_set_translate_crlf :: "UART \<Rightarrow> bool \<Rightarrow> 'd uart_state \<Rightarrow> 'd uart_state" where
  "uart_set_translate_crlf uart crlf u =
     u\<lparr>uart_char_to_line_feed := (uart_char_to_line_feed u)(uart := (if crlf then 10 else 0x100))\<rparr>"

definition uart_init :: "'d uart_dev \<Rightarrow> u32 \<Rightarrow> UART \<Rightarrow> u32 \<Rightarrow> 'd uart_state \<Rightarrow> (u32 \<times> 'd uart_state) option" where
  "uart_init D hz uart baudrate u =
     (if hz = 0 then Some (0, u)
      else do {
        let d = uart_reset D uart (uart_hw u);
        d \<leftarrow> uart_unreset D uart d;
        let u = uart_set_translate_crlf uart False u;
        (baud, d) \<leftarrow> uart_set_baudrate D hz uart baudrate d;
        d \<leftarrow> uart_set_format D uart 8 1 UART_PARITY_NONE d;
        let d = uart_wr D uart UARTCR (0x01 OR 0x100 OR 0x200) d;
        let d = uart_hw_set D uart UARTLCR_H 0x10 d;
        let d = uart_wr D uart UARTDMACR (0x02 OR 0x01) d;
        Some (baud, u\<lparr>uart_hw := d\<rparr>) })"

definition uart_deinit :: "'d uart_dev \<Rightarrow> UART \<Rightarrow> 'd \<Rightarrow> 'd" where
  "uart_deinit D uart d = uart_reset D uart d"

definition uart_get_dreq :: "UART \<Rightarrow> bool \<Rightarrow> nat" where
  "uart_get_dreq uart is_tx = 0x14 + uart_get_index uart * 2 + (if is_tx then 0 else 1)"

section \<open>Transfers\<close>

definition uart_is_writable :: "'d uart_dev \<Rightarrow> UART \<Rightarrow> 'd \<Rightarrow> bool \<times> 'd" where
  "uart_is_writable D uart d = (let (v, d) = uart_rd D uart UARTFR d in (\<not> v AND 0x20 \<noteq> 0, d))"

definition uart_is_readable :: "'d uart_dev \<Rightarrow> UART \<Rightarrow> 'd \<Rightarrow> bool \<times> 'd" where
  "uart_is_readable D uart d = (let (v, d) = uart_rd D uart UARTFR d in (\<not> v AND 0x10 \<noteq> 0, d))"

partial_function (option) uart_tx_wait_blocking :: "'d uart_dev \<Rightarrow> UART \<Rightarrow> 'd \<Rightarrow> 'd option" where
  "uart_tx_wait_blocking D uart d =
     (let (v, d) = uart_rd D uart UARTFR d in if v AND 0x08 \<noteq> 0 then uart_tx_wait_blocking D uart d else Some d)"

partial_function (option) uart_wait_writable :: "'d uart_dev \<Rightarrow> UART \<Rightarrow> 'd \<Rightarrow> 'd option" where
  "uart_wait_writable D uart d =
     (let (w, d) = uart_is_writable D uart d in if \<not> w then uart_wait_writable D uart d else Some d)"

fun uart_write_blocking :: "'d uart_dev \<Rightarrow> UART \<Rightarrow> u8 list \<Rightarrow> 'd \<Rightarrow> 'd option" where
  "uart_write_blocking D uart [] d = Some d"
| "uart_write_blocking D uart (b # src) d = do {
     d \<leftarrow> uart_wait_writable D uart d;
     uart_write_blocking D uart src (uart_wr D uart UARTDR (ucast b) d) }"

partial_function (option) uart_wait_readable :: "'d uart_dev \<Rightarrow> UART \<Rightarrow> 'd \<Rightarrow> 'd option" where
  "uart_wait_readable D uart d =
     (let (r, d) = uart_is_readable D uart d in if \<not> r then uart_wait_readable D uart d else Some d)"

fun uart_read_blocking :: "'d uart_dev \<Rightarrow> UART \<Rightarrow> nat \<Rightarrow> 'd \<Rightarrow> (u8 list \<times> 'd) option" where
  "uart_read_blocking D uart 0 d = Some ([], d)"
| "uart_read_blocking D uart (Suc n) d = do {
     d \<leftarrow> uart_wait_readable D uart d;
     let (v, d) = uart_rd D uart UARTDR d;
     (xs, d) \<leftarrow> uart_read_blocking D uart n d;
     Some (ucast v # xs, d) }"

definition uart_putc_raw :: "'d uart_dev \<Rightarrow> UART \<Rightarrow> char \<Rightarrow> 'd uart_state \<Rightarrow> 'd uart_state option" where
  "uart_putc_raw D uart c u = do {
     d \<leftarrow> uart_write_blocking D uart [of_char c] (uart_hw u);
     Some (u\<lparr>uart_hw := d\<rparr>) }"

definition uart_putc :: "'d uart_dev \<Rightarrow> UART \<Rightarrow> char \<Rightarrow> 'd uart_state \<Rightarrow> 'd uart_state option" where
  "uart_putc D uart c u = do {
     u \<leftarrow> (if uart_char_to_line_feed u uart = of_char c then uart_putc_raw D uart CR u else Some u);
     uart_putc_raw D uart c u }"

fun uart_puts_loop :: "'d uart_dev \<Rightarrow> UART \<Rightarrow> bool \<Rightarrow> string \<Rightarrow> 'd uart_state \<Rightarrow> 'd uart_state option" where
  "uart_puts_loop D uart last_was_cr [] u = Some u"
| "uart_puts_loop D uart last_was_cr (c # s) u = do {
     u \<leftarrow> (if last_was_cr then uart_putc_raw D uart c u else uart_putc D uart c u);
     uart_puts_loop D uart (c = CR) s u }"

definition uart_puts :: "'d uart_dev \<Rightarrow> UART \<Rightarrow> string \<Rightarrow> 'd uart_state \<Rightarrow> 'd uart_state option" where
  "uart_puts D uart s u = uart_puts_loop D uart False s u"

definition uart_getc :: "'d uart_dev \<Rightarrow> UART \<Rightarrow> 'd \<Rightarrow> (char \<times> 'd) option" where
  "uart_getc D uart d = do {
     (xs, d) \<leftarrow> uart_read_blocking D uart 1 d;
     x \<leftarrow> c_read xs 0;
     Some (char_of (unat x), d) }"

text \<open>The loop of the wait with a timeout; the timer goes along.\<close>

partial_function (option) readable_within ::
    "'d uart_dev \<Rightarrow> UART \<Rightarrow> u32 \<Rightarrow> u32 \<Rightarrow> timer_state \<Rightarrow> 'd \<Rightarrow> (bool \<times> timer_state \<times> 'd) option" where
  "readable_within D uart t us tm d =
     (let (r, d) = uart_is_readable D uart d in
      if r then Some (True, tm, d)
      else (let (now, tm) = time_us_32 tm in
            if now - t \<le> us then readable_within D uart t us tm d else Some (False, tm, d)))"

definition uart_is_readable_within_us ::
    "'d uart_dev \<Rightarrow> UART \<Rightarrow> u32 \<Rightarrow> timer_state \<Rightarrow> 'd \<Rightarrow> (bool \<times> timer_state \<times> 'd) option" where
  "uart_is_readable_within_us D uart us tm d = (let (t, tm) = time_us_32 tm in readable_within D uart t us tm d)"

section \<open>Standard input and output\<close>

text \<open>\<open>uart_instance\<close> is the argument \<open>uart\<close>.\<close>

fun stdio_uart_out_chars :: "'d uart_dev \<Rightarrow> UART \<Rightarrow> string \<Rightarrow> 'd uart_state \<Rightarrow> 'd uart_state option" where
  "stdio_uart_out_chars D uart [] u = Some u"
| "stdio_uart_out_chars D uart (c # s) u = do {
     u \<leftarrow> uart_putc D uart c u;
     stdio_uart_out_chars D uart s u }"

fun uart_in_loop :: "'d uart_dev \<Rightarrow> UART \<Rightarrow> nat \<Rightarrow> string \<Rightarrow> 'd \<Rightarrow> (string \<times> 'd) option" where
  "uart_in_loop D uart 0 buf d = Some (buf, d)"
| "uart_in_loop D uart (Suc n) buf d =
     (let (r, d) = uart_is_readable D uart d in
      if r then do {
        (c, d) \<leftarrow> uart_getc D uart d;
        uart_in_loop D uart n (buf @ [c]) d }
      else Some (buf, d))"

definition stdio_uart_in_chars :: "'d uart_dev \<Rightarrow> UART \<Rightarrow> int \<Rightarrow> 'd \<Rightarrow> (int \<times> string \<times> 'd) option" where
  "stdio_uart_in_chars D uart len d = do {
     (buf, d) \<leftarrow> uart_in_loop D uart (nat len) [] d;
     Some (if buf \<noteq> [] then int (length buf) else -3, buf, d) }"

text \<open>
  The driver \<open>stdio_uart\<close>, of the number \<open>n\<close>; there is no other. Its devices are the hardware, \<open>lf\<close>
  is \<open>uart_char_to_line_feed\<close>, which the output does not change.
\<close>

definition stdio_uart :: "'d uart_dev \<Rightarrow> (UART \<Rightarrow> int) \<Rightarrow> UART \<Rightarrow> nat \<Rightarrow> nat \<Rightarrow> 'd driver_ops" where
  "stdio_uart D lf uart n d =
     (if d = n then
        \<lparr>out_chars = Some (\<lambda>t h. do {
             u \<leftarrow> stdio_uart_out_chars D uart t \<lparr>uart_char_to_line_feed = lf, uart_hw = h\<rparr>;
             Some (uart_hw u) }),
         out_flush = None, in_chars = Some (stdio_uart_in_chars D uart)\<rparr>
      else \<lparr>out_chars = None, out_flush = None, in_chars = None\<rparr>)"

text \<open>
  The pins are set up by \<open>pins\<close>, the transmit and the receive pin if there is one; the result is
  the new \<open>uart_char_to_line_feed\<close> with the state.
\<close>

definition stdio_uart_init_full ::
    "'d uart_dev \<Rightarrow> (int \<Rightarrow> 'd \<Rightarrow> 'd) \<Rightarrow> u32 \<Rightarrow> (UART \<Rightarrow> int) \<Rightarrow> UART \<Rightarrow> nat \<Rightarrow> u32 \<Rightarrow> int \<Rightarrow> int \<Rightarrow> 'd stdio_state
      \<Rightarrow> ((UART \<Rightarrow> int) \<times> 'd stdio_state) option" where
  "stdio_uart_init_full D pins hz lf uart n baud_rate tx_pin rx_pin s = do {
     (baud, u) \<leftarrow> uart_init D hz uart baud_rate \<lparr>uart_char_to_line_feed = lf, uart_hw = devices s\<rparr>;
     let h = uart_hw u;
     let h = (if tx_pin \<ge> 0 then pins tx_pin h else h);
     let h = (if rx_pin \<ge> 0 then pins rx_pin h else h);
     s \<leftarrow> stdio_set_driver_enabled n True (s\<lparr>devices := h\<rparr>);
     Some (uart_char_to_line_feed u, s) }"

end
