(* ===== verification/Stdio_Props.thy ===== *)
theory Stdio_Props
  imports Stdio Printf_Correct Sync_Correct
begin

text \<open>
  The output calls of \<open>stdio.c\<close> over drivers that put out what they are given: whatever way a
  text is cut into calls, and into the chunks of the \<open>printf\<close> buffer, every enabled driver
  puts out the translation of the whole text. The list of drivers under enabling and disabling.
\<close>

section \<open>The translation\<close>

text \<open>A line feed gets a carriage return unless there is one before it; \<open>cr\<close>: the text before ended with one.\<close>

fun crlf_text :: "bool \<Rightarrow> string \<Rightarrow> string" where
  "crlf_text cr [] = []"
| "crlf_text cr (c # cs) = (if c = LF \<and> \<not> cr then [CR, LF] else [c]) @ crlf_text (c = CR) cs"

definition end_cr :: "bool \<Rightarrow> string \<Rightarrow> bool" where
  "end_cr cr xs = (if xs = [] then cr else last xs = CR)"

lemma end_cr_Nil [simp]: "end_cr cr [] = cr"
  by (simp add: end_cr_def)

lemma end_cr_append [simp]: "end_cr cr (xs @ ys) = end_cr (end_cr cr xs) ys"
  by (simp add: end_cr_def)

lemma end_cr_Cons [simp]: "end_cr cr (c # cs) = end_cr (c = CR) cs"
  by (simp add: end_cr_def)

lemma crlf_text_append: "crlf_text cr (xs @ ys) = crlf_text cr xs @ crlf_text (end_cr cr xs) ys"
  by (induction xs arbitrary: cr) auto

section \<open>Documented drivers\<close>

text \<open>\<open>V\<close> is what each driver has put out.\<close>

definition stdio_documented :: "(nat \<Rightarrow> 'w driver_ops) \<Rightarrow> ('w \<Rightarrow> nat \<Rightarrow> string) \<Rightarrow> bool" where
  "stdio_documented P V \<longleftrightarrow>
     (\<forall>d f t w. out_chars (P d) = Some f \<longrightarrow> (\<exists>w'. f t w = Some w' \<and> V w' = (V w)(d := V w d @ t))) \<and>
     (\<forall>d f w. out_flush (P d) = Some f \<longrightarrow> (\<exists>w'. f w = Some w' \<and> V w' = V w))"

text \<open>Everything but the devices and the note of a carriage return is the same.\<close>

definition same_list :: "'w stdio_state \<Rightarrow> 'w stdio_state \<Rightarrow> bool" where
  "same_list s s' \<longleftrightarrow> drivers s' = drivers s \<and> filter_driver s' = filter_driver s \<and> stdio_mutex s' = stdio_mutex s \<and>
     (\<forall>d. next_driver (stdio_driver_at s' d) = next_driver (stdio_driver_at s d) \<and>
          crlf_enabled (stdio_driver_at s' d) = crlf_enabled (stdio_driver_at s d))"

lemma same_list_refl [simp]: "same_list s s"
  by (simp add: same_list_def)

lemma same_list_trans: "same_list s s' \<Longrightarrow> same_list s' s'' \<Longrightarrow> same_list s s''"
  by (simp add: same_list_def)

text \<open>The driver \<open>d\<close> is given the text \<open>t\<close>, translated if it is set to.\<close>

definition given :: "'w stdio_state \<Rightarrow> nat \<Rightarrow> string \<Rightarrow> string" where
  "given s d t = (if crlf_enabled (stdio_driver_at s d) then crlf_text (last_ended_with_cr (stdio_driver_at s d)) t else t)"

definition ends :: "'w stdio_state \<Rightarrow> nat \<Rightarrow> string \<Rightarrow> bool" where
  "ends s d t = (if crlf_enabled (stdio_driver_at s d) then end_cr (last_ended_with_cr (stdio_driver_at s d)) t
     else last_ended_with_cr (stdio_driver_at s d))"

definition gives :: "('w \<Rightarrow> nat \<Rightarrow> string) \<Rightarrow> (nat \<Rightarrow> bool) \<Rightarrow> string \<Rightarrow> 'w stdio_state \<Rightarrow> 'w stdio_state \<Rightarrow> bool" where
  "gives V A t s s' \<longleftrightarrow> same_list s s' \<and>
     (\<forall>d. V (devices s') d = V (devices s) d @ (if A d then given s d t else []) \<and>
          last_ended_with_cr (stdio_driver_at s' d) = (if A d then ends s d t else last_ended_with_cr (stdio_driver_at s d)))"

lemma gives_same: "gives V A t s s' \<Longrightarrow> same_list s s'"
  by (simp add: gives_def)

lemma gives_nothing [simp]: "gives V A [] s s"
  by (simp add: gives_def given_def ends_def)

lemma gives_append: "gives V A t s s' \<Longrightarrow> gives V A u s' s'' \<Longrightarrow> gives V A (t @ u) s s''"
  by (auto simp: gives_def same_list_def given_def ends_def crlf_text_append)

text \<open>One driver after another.\<close>

lemma gives_union:
  assumes A: "gives V A t s s'" and B: "gives V B t s' s''" and disj: "\<And>d. \<not> (A d \<and> B d)"
  shows "gives V (\<lambda>d. A d \<or> B d) t s s''"
proof -
  have "V (devices s'') d = V (devices s) d @ (if A d \<or> B d then given s d t else []) \<and>
      last_ended_with_cr (stdio_driver_at s'' d) = (if A d \<or> B d then ends s d t else last_ended_with_cr (stdio_driver_at s d))" for d
    using A B disj [of d] by (cases "A d") (simp_all add: gives_def same_list_def given_def ends_def)
  then show ?thesis
    using same_list_trans [OF gives_same [OF A] gives_same [OF B]] by (simp add: gives_def)
qed

section \<open>One driver\<close>

lemma call_out_gives:
  assumes doc: "stdio_documented P V" and f: "out_chars (P d) \<noteq> None"
  shows "\<exists>w. call_out P d t s = Some (s\<lparr>devices := w\<rparr>) \<and> V w = (V (devices s))(d := V (devices s) d @ t)"
proof -
  obtain f where f: "out_chars (P d) = Some f"
    using f by blast
  then obtain w where "f t (devices s) = Some w" "V w = (V (devices s))(d := V (devices s) d @ t)"
    using doc unfolding stdio_documented_def by blast
  then show ?thesis
    using f by (intro exI [of _ w]) (simp add: call_out_def)
qed

lemma take_Suc_end_cr:
  "i < length xs \<Longrightarrow> end_cr cr (take i xs) = (if i > 0 then xs ! (i - 1) = CR else cr)"
  by (cases i) (simp_all add: end_cr_def take_Suc_conv_app_nth)

lemma crlf_loop_gives:
  assumes doc: "stdio_documented P V" and f: "out_chars (P d) \<noteq> None" and cr: "cr = last_ended_with_cr (stdio_driver_at s0 d)"
  shows "s = s0\<lparr>devices := w\<rparr> \<Longrightarrow> first \<le> i \<Longrightarrow> i \<le> length xs \<Longrightarrow>
    V w = (V (devices s0))(d := u) \<Longrightarrow> u @ drop first (take i xs) = V (devices s0) d @ crlf_text cr (take i xs) \<Longrightarrow>
    \<exists>first' w' u'. crlf_loop P d xs i first s = Some (first', s0\<lparr>devices := w'\<rparr>) \<and> first' \<le> length xs \<and>
      V w' = (V (devices s0))(d := u') \<and> u' @ drop first' xs = V (devices s0) d @ crlf_text cr xs"
proof (induction "length xs - i" arbitrary: i first s w u)
  case 0
  have i: "\<not> i < length xs"
    using 0(1) by simp
  have "crlf_loop P d xs i first s = Some (first, s0\<lparr>devices := w\<rparr>)"
    using i 0(2) by (subst crlf_loop.simps) simp
  moreover have "take i xs = xs"
    using i by simp
  ultimately show ?case
    using 0 by (intro exI [of _ first] exI [of _ w] exI [of _ u]) simp
next
  case (Suc n)
  then have i: "i < length xs" and n: "n = length xs - (i + 1)"
    by simp_all
  have prev: "(if i > 0 then xs ! (i - 1) = CR else last_ended_with_cr (stdio_driver_at s d)) = end_cr cr (take i xs)"
    using take_Suc_end_cr [OF i, of cr] cr Suc.prems(1) by simp
  have step: "crlf_loop P d xs i first s =
      (if xs ! i = LF \<and> \<not> end_cr cr (take i xs) then
         do {
           s \<leftarrow> (if i > first then call_out P d (take (i - first) (drop first xs)) s else Some s);
           s \<leftarrow> call_out P d [CR, LF] s;
           crlf_loop P d xs (i + 1) (i + 1) s }
       else crlf_loop P d xs (i + 1) first s)"
    using i unfolding prev [symmetric] by (subst crlf_loop.simps) (simp add: Let_def)
  have tk: "take (i + 1) xs = take i xs @ [xs ! i]"
    using i by (simp add: take_Suc_conv_app_nth)
  show ?case
  proof (cases "xs ! i = LF \<and> \<not> end_cr cr (take i xs)")
    case False
    have "u @ drop first (take (i + 1) xs) = V (devices s0) d @ crlf_text cr (take (i + 1) xs)"
      using Suc.prems(2,3,5) False i unfolding tk by (auto simp: crlf_text_append)
    from Suc.hyps(1) [OF n Suc.prems(1) _ _ Suc.prems(4) this] show ?thesis
      using Suc.prems(2) i step False by simp
  next
    case True
    let ?chunk = "take (i - first) (drop first xs)"
    have chunk: "?chunk = drop first (take i xs)"
      by (simp add: drop_take)
    have "\<exists>w1. (if i > first then call_out P d ?chunk s else Some s) = Some (s0\<lparr>devices := w1\<rparr>) \<and>
        V w1 = (V (devices s0))(d := u @ ?chunk)"
    proof (cases "i > first")
      case True
      then show ?thesis
        using call_out_gives [OF doc f, of ?chunk s] Suc.prems(1,4) by auto
    next
      case False
      then show ?thesis
        using Suc.prems(1,4) by (intro exI [of _ w]) simp
    qed
    then obtain w1 where w1: "(if i > first then call_out P d ?chunk s else Some s) = Some (s0\<lparr>devices := w1\<rparr>)"
        "V w1 = (V (devices s0))(d := u @ ?chunk)"
      by blast
    obtain w2 where w2: "call_out P d [CR, LF] (s0\<lparr>devices := w1\<rparr>) = Some (s0\<lparr>devices := w2\<rparr>)"
        "V w2 = (V (devices s0))(d := u @ ?chunk @ [CR, LF])"
      using call_out_gives [OF doc f, of "[CR, LF]" "s0\<lparr>devices := w1\<rparr>"] w1(2) by auto
    have "(u @ ?chunk @ [CR, LF]) @ drop (i + 1) (take (i + 1) xs) = V (devices s0) d @ crlf_text cr (take (i + 1) xs)"
      using Suc.prems(5) True unfolding tk chunk by (simp add: crlf_text_append flip: append_assoc)
    from Suc.hyps(1) [OF n refl _ _ w2(2) this] show ?thesis
      using i step True w1(1) w2(1) by simp
  qed
qed

lemma out_crlf_gives:
  assumes doc: "stdio_documented P V" and f: "out_chars (P d) \<noteq> None"
  shows "\<exists>s'. stdio_out_chars_crlf P d t s = Some s' \<and> gives V (\<lambda>e. e = d) t s s'"
proof (cases "crlf_enabled (stdio_driver_at s d)")
  case False
  obtain w where "call_out P d t s = Some (s\<lparr>devices := w\<rparr>)" "V w = (V (devices s))(d := V (devices s) d @ t)"
    using call_out_gives [OF doc f] by blast
  then show ?thesis
    using False by (auto simp: stdio_out_chars_crlf_def gives_def same_list_def given_def ends_def)
next
  case True
  let ?cr = "last_ended_with_cr (stdio_driver_at s d)"
  obtain first w u where loop: "crlf_loop P d t 0 0 s = Some (first, s\<lparr>devices := w\<rparr>)" "first \<le> length t"
      "V w = (V (devices s))(d := u)" "u @ drop first t = V (devices s) d @ crlf_text ?cr t"
    using crlf_loop_gives [OF doc f refl [of "last_ended_with_cr (stdio_driver_at s d)"],
        where s = s and w = "devices s" and i = 0 and first = 0 and xs = t and u = "V (devices s) d"] by auto
  have "\<exists>w'. (if first < length t then call_out P d (drop first t) (s\<lparr>devices := w\<rparr>) else Some (s\<lparr>devices := w\<rparr>)) =
      Some (s\<lparr>devices := w'\<rparr>) \<and> V w' = (V (devices s))(d := V (devices s) d @ crlf_text ?cr t)"
  proof (cases "first < length t")
    case True
    then show ?thesis
      using call_out_gives [OF doc f, of "drop first t" "s\<lparr>devices := w\<rparr>"] loop(3,4) by auto
  next
    case False
    then show ?thesis
      using loop(3,4) by (intro exI [of _ w]) simp
  qed
  then obtain w' where w': "(if first < length t then call_out P d (drop first t) (s\<lparr>devices := w\<rparr>) else Some (s\<lparr>devices := w\<rparr>)) =
      Some (s\<lparr>devices := w'\<rparr>)" "V w' = (V (devices s))(d := V (devices s) d @ crlf_text ?cr t)"
    by blast
  let ?s' = "if length t > 0 then (s\<lparr>devices := w'\<rparr>)\<lparr>stdio_driver_at := (stdio_driver_at s)(d := (stdio_driver_at s d)\<lparr>last_ended_with_cr := last t = CR\<rparr>)\<rparr>
      else s\<lparr>devices := w'\<rparr>"
  have "stdio_out_chars_crlf P d t s = Some ?s'"
    using True loop(1) w'(1) by (simp add: stdio_out_chars_crlf_def)
  moreover have "gives V (\<lambda>e. e = d) t s ?s'"
    using True w'(2) by (auto simp: gives_def same_list_def given_def ends_def end_cr_def)
  ultimately show ?thesis
    by blast
qed

section \<open>All drivers\<close>

fun linked :: "(nat \<Rightarrow> nat) \<Rightarrow> nat \<Rightarrow> nat list \<Rightarrow> bool" where
  "linked N d [] \<longleftrightarrow> d = 0"
| "linked N d (x # xs) \<longleftrightarrow> d = x \<and> x \<noteq> 0 \<and> linked N (N x) xs"

definition driver_list :: "'w stdio_state \<Rightarrow> nat list \<Rightarrow> bool" where
  "driver_list s ds \<longleftrightarrow> linked (\<lambda>d. next_driver (stdio_driver_at s d)) (drivers s) ds \<and> distinct ds"

lemma driver_list_same: "same_list s s' \<Longrightarrow> driver_list s' ds = driver_list s ds"
  by (simp add: driver_list_def same_list_def)

text \<open>A driver that gets the output: it can put out, and the filter lets it.\<close>

definition active :: "(nat \<Rightarrow> 'w driver_ops) \<Rightarrow> 'w stdio_state \<Rightarrow> nat \<Rightarrow> bool" where
  "active P s d \<longleftrightarrow> out_chars (P d) \<noteq> None \<and> (filter_driver s = 0 \<or> filter_driver s = d)"

lemma active_same: "same_list s s' \<Longrightarrow> active P s' = active P s"
  by (simp add: active_def same_list_def fun_eq_iff)

lemma gives_nobody: "(\<And>d. \<not> A d) \<Longrightarrow> gives V A t s s"
  by (simp add: gives_def)

lemma gives_cong: "gives V A t s s' \<Longrightarrow> (\<And>d. A d = B d) \<Longrightarrow> gives V B t s s'"
  by (simp add: gives_def)

lemma for_drivers_gives:
  assumes body: "\<And>d s1. same_list s0 s1 \<Longrightarrow> \<exists>s2. body d s1 = Some s2 \<and> gives V (\<lambda>e. e = d \<and> A d) t s1 s2"
  shows "same_list s0 s \<Longrightarrow> linked (\<lambda>d. next_driver (stdio_driver_at s0 d)) d ds \<Longrightarrow> distinct ds \<Longrightarrow>
    \<exists>s'. for_drivers body d s = Some s' \<and> gives V (\<lambda>e. e \<in> set ds \<and> A e) t s s'"
proof (induction ds arbitrary: d s)
  case Nil
  then show ?case
    using gives_nobody [where s = s] by (subst for_drivers.simps) simp
next
  case (Cons x ds)
  obtain s1 where s1: "body x s = Some s1" "gives V (\<lambda>e. e = x \<and> A x) t s s1"
    using body [OF Cons.prems(1)] by blast
  have sl: "same_list s0 s1"
    using same_list_trans [OF Cons.prems(1) gives_same [OF s1(2)]] .
  have "next_driver (stdio_driver_at s1 x) = next_driver (stdio_driver_at s0 x)"
    using sl by (simp add: same_list_def)
  moreover obtain s' where s': "for_drivers body (next_driver (stdio_driver_at s0 x)) s1 = Some s'"
      "gives V (\<lambda>e. e \<in> set ds \<and> A e) t s1 s'"
    using Cons.IH [OF sl] Cons.prems(2,3) by auto
  ultimately have "for_drivers body d s = Some s'"
    using s1(1) Cons.prems(2) by (subst for_drivers.simps) simp
  moreover have "gives V (\<lambda>e. e = x \<and> A x \<or> e \<in> set ds \<and> A e) t s s'"
    by (rule gives_union [OF s1(2) s'(2)]) (use Cons.prems(3) in auto)
  then have "gives V (\<lambda>e. e \<in> set (x # ds) \<and> A e) t s s'"
    by (rule gives_cong) auto
  ultimately show ?case
    by blast
qed

lemma put_driver_gives:
  assumes doc: "stdio_documented P V"
  shows "\<exists>s'. put_driver P t newline False d s = Some s' \<and>
    gives V (\<lambda>e. e = d \<and> active P s d) (t @ (if newline then [LF] else [])) s s'"
proof (cases "active P s d")
  case False
  then have "put_driver P t newline False d s = Some s"
    by (auto simp: put_driver_def active_def Let_def)
  then show ?thesis
    using False gives_nobody [where s = s] by simp
next
  case True
  then have f: "out_chars (P d) \<noteq> None"
    by (simp add: active_def)
  obtain s1 where s1: "stdio_out_chars_crlf P d t s = Some s1" "gives V (\<lambda>e. e = d) t s s1"
    using out_crlf_gives [OF doc f] by blast
  obtain s2 where s2: "stdio_out_chars_crlf P d [LF] s1 = Some s2" "gives V (\<lambda>e. e = d) [LF] s1 s2"
    using out_crlf_gives [OF doc f] by blast
  have "put_driver P t newline False d s = Some (if newline then s2 else s1)"
    using True s1(1) s2(1) by (auto simp: put_driver_def active_def Let_def)
  moreover have "gives V (\<lambda>e. e = d) (t @ (if newline then [LF] else [])) s (if newline then s2 else s1)"
    using s1(2) gives_append [OF s1(2) s2(2)] by simp
  ultimately show ?thesis
    using True by simp
qed

lemma flush_buffer_driver_gives:
  assumes doc: "stdio_documented P V"
  shows "\<exists>s'. flush_buffer_driver P t d s = Some s' \<and> gives V (\<lambda>e. e = d \<and> active P s d) t s s'"
proof (cases "active P s d")
  case False
  then have "flush_buffer_driver P t d s = Some s"
    by (auto simp: flush_buffer_driver_def active_def)
  then show ?thesis
    using False gives_nobody [where s = s] by simp
next
  case True
  then have f: "out_chars (P d) \<noteq> None"
    by (simp add: active_def)
  have "flush_buffer_driver P t d s = stdio_out_chars_crlf P d t s"
    using True by (auto simp: flush_buffer_driver_def active_def)
  then show ?thesis
    using out_crlf_gives [OF doc f, of t s] True by simp
qed

lemma flush_driver_gives:
  assumes doc: "stdio_documented P V"
  shows "\<exists>s'. flush_driver P d s = Some s' \<and> gives V (\<lambda>e. e = d \<and> A d) [] s s'"
proof (cases "out_flush (P d)")
  case None
  then show ?thesis
    by (simp add: flush_driver_def)
next
  case (Some f)
  then obtain w where "f (devices s) = Some w" "V w = V (devices s)"
    using doc unfolding stdio_documented_def by blast
  then show ?thesis
    using Some by (simp add: flush_driver_def gives_def same_list_def given_def ends_def)
qed

text \<open>The text of a call goes to the drivers of the list that are active.\<close>

abbreviation listeners :: "(nat \<Rightarrow> 'w driver_ops) \<Rightarrow> 'w stdio_state \<Rightarrow> nat list \<Rightarrow> nat \<Rightarrow> bool" where
  "listeners P s ds \<equiv> (\<lambda>e. e \<in> set ds \<and> active P s e)"

lemma all_drivers_gives:
  assumes doc: "stdio_documented P V" and l: "driver_list s ds"
  shows "\<exists>s'. for_drivers (put_driver P t newline False) (drivers s) s = Some s' \<and>
      gives V (listeners P s ds) (t @ (if newline then [LF] else [])) s s'"
    "\<exists>s'. for_drivers (flush_buffer_driver P t) (drivers s) s = Some s' \<and> gives V (listeners P s ds) t s s'"
    "\<exists>s'. stdio_flush P s = Some s' \<and> gives V (listeners P s ds) [] s s'"
proof -
  have ld: "linked (\<lambda>d. next_driver (stdio_driver_at s d)) (drivers s) ds" "distinct ds"
    using l by (simp_all add: driver_list_def)
  have put: "\<exists>s2. put_driver P t newline False d s1 = Some s2 \<and>
      gives V (\<lambda>e. e = d \<and> active P s d) (t @ (if newline then [LF] else [])) s1 s2" if "same_list s s1" for d s1
    using put_driver_gives [OF doc, of t newline d s1] unfolding active_same [OF that] .
  have buf: "\<exists>s2. flush_buffer_driver P t d s1 = Some s2 \<and> gives V (\<lambda>e. e = d \<and> active P s d) t s1 s2"
    if "same_list s s1" for d s1
    using flush_buffer_driver_gives [OF doc, of t d s1] unfolding active_same [OF that] .
  show "\<exists>s'. for_drivers (put_driver P t newline False) (drivers s) s = Some s' \<and>
      gives V (listeners P s ds) (t @ (if newline then [LF] else [])) s s'"
    by (rule for_drivers_gives [OF _ same_list_refl ld, where A = "active P s"]) (rule put)
  show "\<exists>s'. for_drivers (flush_buffer_driver P t) (drivers s) s = Some s' \<and> gives V (listeners P s ds) t s s'"
    by (rule for_drivers_gives [OF _ same_list_refl ld, where A = "active P s"]) (rule buf)
  show "\<exists>s'. stdio_flush P s = Some s' \<and> gives V (listeners P s ds) [] s s'"
    unfolding stdio_flush_def by (rule for_drivers_gives [OF _ same_list_refl ld, where A = "active P s"]) (rule flush_driver_gives [OF doc])
qed

section \<open>The mutex\<close>

text \<open>No other core holds it.\<close>

definition stdout_mine :: "'w stdio_env \<Rightarrow> 'w stdio_state \<Rightarrow> bool" where
  "stdout_mine E s \<longleftrightarrow> env_core E < 2 \<and>
     owner (memory (stdio_mutex s)) \<in> {LOCK_INVALID_OWNER_ID, lock_get_caller_owner_id (env_core E)}"

lemma stdout_mine_same: "same_list s s' \<Longrightarrow> stdout_mine E s' = stdout_mine E s"
  by (simp add: stdout_mine_def same_list_def)

lemma serialised:
  assumes mine: "stdout_mine E s"
    and f: "\<And>m. \<exists>r s2. f (s\<lparr>stdio_mutex := m\<rparr>) = Some (r, s2) \<and> R r \<and> gives V A t (s\<lparr>stdio_mutex := m\<rparr>) s2"
  shows "\<exists>r s'. do {
      (serialized, s) \<leftarrow> stdout_serialize_begin E s;
      (r, s) \<leftarrow> f s;
      s \<leftarrow> (if serialized then stdout_serialize_end s else Some s);
      Some (r, s) } = Some (r, s') \<and> R r \<and> gives V A t s s'"
proof (cases "owner (memory (stdio_mutex s)) = LOCK_INVALID_OWNER_ID")
  case True
  let ?c = "lock_get_caller_owner_id (env_core E)"
  let ?m = "(stdio_mutex s)\<lparr>memory := (memory (stdio_mutex s))\<lparr>owner := ?c\<rparr>\<rparr>"
  have inv: "\<not> lock_is_owner_id_valid LOCK_INVALID_OWNER_ID"
    by (simp add: lock_is_owner_id_valid_def LOCK_INVALID_OWNER_ID_def)
  obtain r s2 where s2: "f (s\<lparr>stdio_mutex := ?m\<rparr>) = Some (r, s2)" "R r" "gives V A t (s\<lparr>stdio_mutex := ?m\<rparr>) s2"
    using f by blast
  have m2: "stdio_mutex s2 = ?m"
    using gives_same [OF s2(3)] by (simp add: same_list_def)
  have "stdout_serialize_end s2 = Some (s2\<lparr>stdio_mutex := stdio_mutex s\<rparr>)"
  proof -
    have "?m\<lparr>memory := (memory ?m)\<lparr>owner := LOCK_INVALID_OWNER_ID\<rparr>\<rparr> = stdio_mutex s"
      using True by (cases "stdio_mutex s"; cases "memory (stdio_mutex s)") simp
    then show ?thesis
      using m2 caller_valid mine by (simp add: stdout_serialize_end_def mutex_exit_def stdout_mine_def)
  qed
  moreover have "gives V A t s (s2\<lparr>stdio_mutex := stdio_mutex s\<rparr>)"
    using s2(3) by (simp add: gives_def same_list_def given_def ends_def)
  moreover have "stdout_serialize_begin E s = Some (True, s\<lparr>stdio_mutex := ?m\<rparr>)"
    using True inv by (simp add: stdout_serialize_begin_def mutex_try_enter_def)
  ultimately show ?thesis
    using s2(1,2) by auto
next
  case False
  then have o: "owner (memory (stdio_mutex s)) = lock_get_caller_owner_id (env_core E)"
    using mine by (simp add: stdout_mine_def)
  have "stdout_serialize_begin E s = Some (False, s)"
    using o caller_valid mine by (simp add: stdout_serialize_begin_def mutex_try_enter_def stdout_mine_def)
  moreover obtain r s2 where "f s = Some (r, s2)" "R r" "gives V A t s s2"
    using f [of "stdio_mutex s"] by auto
  ultimately show ?thesis
    by auto
qed

section \<open>The calls\<close>

lemma driver_list_mutex [simp]:
  "driver_list (s\<lparr>stdio_mutex := m\<rparr>) ds = driver_list s ds" "active P (s\<lparr>stdio_mutex := m\<rparr>) = active P s"
  by (simp_all add: driver_list_def active_def fun_eq_iff)

lemma put_string_gives:
  assumes doc: "stdio_documented P V" and l: "driver_list s ds" and mine: "stdout_mine E s"
  shows "\<exists>r s'. stdio_put_string E P t newline False s = Some (r, s') \<and>
    gives V (listeners P s ds) (t @ (if newline then [LF] else [])) s s'"
proof -
  let ?f = "\<lambda>s. do { s \<leftarrow> for_drivers (put_driver P t newline False) (drivers s) s; Some (length t \<noteq> 0, s) }"
  have eq: "stdio_put_string E P t newline False s = do {
      (serialized, s) \<leftarrow> stdout_serialize_begin E s;
      (r, s) \<leftarrow> ?f s;
      s \<leftarrow> (if serialized then stdout_serialize_end s else Some s);
      Some (r, s) }"
    by (simp add: stdio_put_string_def Option.bind_assoc)
  have "\<exists>r s2. ?f (s\<lparr>stdio_mutex := m\<rparr>) = Some (r, s2) \<and> True \<and>
      gives V (listeners P s ds) (t @ (if newline then [LF] else [])) (s\<lparr>stdio_mutex := m\<rparr>) s2" for m
    using all_drivers_gives(1) [OF doc, of "s\<lparr>stdio_mutex := m\<rparr>" ds t newline] l by auto
  from serialised [where f = ?f and R = "\<lambda>_. True", OF mine this] show ?thesis
    unfolding eq by blast
qed

lemma buffered_gives:
  assumes doc: "stdio_documented P V"
  shows "driver_list s ds \<Longrightarrow> length buf \<le> PICO_STDIO_STACK_BUFFER_SIZE \<Longrightarrow>
    \<exists>buf' s' u. put_string (out_fct (stdio_buffered_printer P)) m t ((buf, s), i) = Some ((buf', s'), i + of_nat (length t)) \<and>
      gives V (listeners P s ds) u s s' \<and> u @ buf' = buf @ filter (\<lambda>c. c \<noteq> NUL) t \<and> length buf' \<le> PICO_STDIO_STACK_BUFFER_SIZE"
proof (induction t arbitrary: buf s i)
  case Nil
  then show ?case
    by (intro exI [of _ buf] exI [of _ s] exI [of _ "[]"]) simp
next
  case (Cons c t)
  show ?case
  proof (cases "c = NUL")
    case True
    then have "putc (out_fct (stdio_buffered_printer P)) m c ((buf, s), i) = Some ((buf, s), i + 1)"
      by (simp add: putc_def out_fct_def)
    then show ?thesis
      using Cons.IH [OF Cons.prems, of "i + 1"] True by (simp add: ac_simps)
  next
    case False
    have "\<exists>buf1 s1 u1. stdio_buffered_printer P c (buf, s) = Some (buf1 @ [c], s1) \<and> gives V (listeners P s ds) u1 s s1 \<and>
        u1 @ buf1 = buf \<and> length buf1 < PICO_STDIO_STACK_BUFFER_SIZE"
    proof (cases "length buf = PICO_STDIO_STACK_BUFFER_SIZE")
      case True
      then have ne: "length buf \<noteq> 0"
        by (simp add: PICO_STDIO_STACK_BUFFER_SIZE_def)
      obtain s1 where "for_drivers (flush_buffer_driver P buf) (drivers s) s = Some s1" "gives V (listeners P s ds) buf s s1"
        using all_drivers_gives(2) [OF doc Cons.prems(1)] by blast
      then show ?thesis
        using True ne by - (rule exI [of _ "[]"], rule exI [of _ s1], rule exI [of _ buf],
          auto simp: stdio_buffered_printer_def stdio_stack_buffer_flush_def PICO_STDIO_STACK_BUFFER_SIZE_def)
    next
      case False
      then show ?thesis
        using Cons.prems(2) by - (rule exI [of _ buf], rule exI [of _ s], rule exI [of _ "[]"], simp add: stdio_buffered_printer_def)
    qed
    then obtain buf1 s1 u1 where s1: "stdio_buffered_printer P c (buf, s) = Some (buf1 @ [c], s1)"
        "gives V (listeners P s ds) u1 s s1" "u1 @ buf1 = buf" "length buf1 < PICO_STDIO_STACK_BUFFER_SIZE"
      by blast
    have sl: "same_list s s1"
      by (rule gives_same [OF s1(2)])
    have l1: "driver_list s1 ds" "length (buf1 @ [c]) \<le> PICO_STDIO_STACK_BUFFER_SIZE"
      using Cons.prems(1) driver_list_same [OF sl] s1(4) by simp_all
    obtain buf' s' u where s': "put_string (out_fct (stdio_buffered_printer P)) m t ((buf1 @ [c], s1), i + 1) =
        Some ((buf', s'), i + 1 + of_nat (length t))" "gives V (listeners P s1 ds) u s1 s'"
        "u @ buf' = (buf1 @ [c]) @ filter (\<lambda>c. c \<noteq> NUL) t" "length buf' \<le> PICO_STDIO_STACK_BUFFER_SIZE"
      using Cons.IH [OF l1, of "i + 1"] by blast
    have "put_string (out_fct (stdio_buffered_printer P)) m (c # t) ((buf, s), i) = Some ((buf', s'), i + of_nat (length (c # t)))"
      using s1(1) s'(1) False by (simp add: putc_def out_fct_def ac_simps)
    moreover have "gives V (listeners P s ds) (u1 @ u) s s'"
      using gives_append [OF s1(2) s'(2) [unfolded active_same [OF sl]]] .
    moreover have "(u1 @ u) @ buf' = buf @ filter (\<lambda>c. c \<noteq> NUL) (c # t)"
      using s'(3) s1(3) False by auto
    ultimately show ?thesis
      using s'(4) by blast
  qed
qed

lemma vprintf_gives:
  assumes doc: "stdio_documented P V" and l: "driver_list s ds" and mine: "stdout_mine E s"
    and t: "format_text F format va = Some t"
  shows "\<exists>s'. wrap_vprintf F E P format va s = Some (of_nat (length t), s') \<and>
    gives V (listeners P s ds) (filter (\<lambda>c. c \<noteq> NUL) t) s s'"
proof -
  let ?f = "\<lambda>s. do {
     (ret, b) \<leftarrow> vfctprintf F (stdio_buffered_printer P) ([], s) format va;
     (_, s) \<leftarrow> stdio_stack_buffer_flush P b;
     s \<leftarrow> stdio_flush P s;
     Some (ret, s) }"
  let ?t = "filter (\<lambda>c. c \<noteq> NUL) t"
  have eq: "wrap_vprintf F E P format va s = do {
      (serialized, s) \<leftarrow> stdout_serialize_begin E s;
      (r, s) \<leftarrow> ?f s;
      s \<leftarrow> (if serialized then stdout_serialize_end s else Some s);
      Some (r, s) }"
    by (simp add: wrap_vprintf_def Option.bind_assoc case_prod_beta' cong: if_cong)
  have "\<exists>r s2. ?f (s\<lparr>stdio_mutex := m\<rparr>) = Some (r, s2) \<and> r = of_nat (length t) \<and>
      gives V (listeners P s ds) ?t (s\<lparr>stdio_mutex := m\<rparr>) s2" for m
  proof -
    let ?s = "s\<lparr>stdio_mutex := m\<rparr>"
    have ls: "driver_list ?s ds" "length ([] :: string) \<le> PICO_STDIO_STACK_BUFFER_SIZE"
      using l by simp_all
    obtain buf1 s1 u1 where s1: "put_string (out_fct (stdio_buffered_printer P)) (- 1) t (([], ?s), 0) =
        Some ((buf1, s1), 0 + of_nat (length t))" "gives V (listeners P ?s ds) u1 ?s s1" "u1 @ buf1 = [] @ ?t"
      using buffered_gives [OF doc ls, of "- 1" t 0] by blast
    have run: "vfctprintf F (stdio_buffered_printer P) ([], ?s) format va = Some (of_nat (length t), (buf1, s1))"
      using s1(1) t by (simp add: vfctprintf_def vsnprintf_out_text out_fct_def)
    have sl: "same_list ?s s1"
      by (rule gives_same [OF s1(2)])
    have l1: "driver_list s1 ds"
      using ls(1) driver_list_same [OF sl] by simp
    obtain s2 where s2: "stdio_stack_buffer_flush P (buf1, s1) = Some ([], s2)" "gives V (listeners P s1 ds) buf1 s1 s2"
    proof (cases "buf1 = []")
      case True
      then show ?thesis
        using that [of s1] by (simp add: stdio_stack_buffer_flush_def)
    next
      case False
      then show ?thesis
        using all_drivers_gives(2) [OF doc l1, of buf1] that by (auto simp: stdio_stack_buffer_flush_def)
    qed
    have sl2: "same_list s1 s2"
      by (rule gives_same [OF s2(2)])
    obtain s3 where s3: "stdio_flush P s2 = Some s3" "gives V (listeners P s2 ds) [] s2 s3"
      using all_drivers_gives(3) [OF doc, of s2 ds] l1 driver_list_same [OF sl2] by blast
    have "gives V (listeners P ?s ds) (u1 @ buf1 @ []) ?s s3"
      using gives_append [OF s1(2)] gives_append [OF s2(2)] s3(2)
      unfolding active_same [OF sl2] active_same [OF sl] by blast
    then show ?thesis
      using run s2(1) s3(1) s1(3) by simp
  qed
  from serialised [where f = ?f and R = "\<lambda>r. r = of_nat (length t)", OF mine this] show ?thesis
    unfolding eq by blast
qed

datatype 'd put_call = Out_putchar int | Out_puts string | Out_write string | Out_printf string "'d va list"

fun out_call :: "'d double_ops \<Rightarrow> 'w stdio_env \<Rightarrow> (nat \<Rightarrow> 'w driver_ops) \<Rightarrow> 'd put_call \<Rightarrow> 'w stdio_state \<Rightarrow> 'w stdio_state option" where
  "out_call F E P (Out_putchar c) s = map_option snd (wrap_putchar E P c s)"
| "out_call F E P (Out_puts t) s = map_option snd (wrap_puts E P t s)"
| "out_call F E P (Out_write t) s = map_option snd (stdio_write E P 1 t s)"
| "out_call F E P (Out_printf format va) s = map_option snd (wrap_printf F E P format va s)"

fun text_of :: "'d double_ops \<Rightarrow> 'd put_call \<Rightarrow> string option" where
  "text_of F (Out_putchar c) = Some [char_of c]"
| "text_of F (Out_puts t) = Some (t @ [LF])"
| "text_of F (Out_write t) = Some t"
| "text_of F (Out_printf format va) = map_option (filter (\<lambda>c. c \<noteq> NUL)) (format_text F format va)"

fun out_calls :: "'d double_ops \<Rightarrow> 'w stdio_env \<Rightarrow> (nat \<Rightarrow> 'w driver_ops) \<Rightarrow> 'd put_call list \<Rightarrow> 'w stdio_state \<Rightarrow> 'w stdio_state option" where
  "out_calls F E P [] s = Some s"
| "out_calls F E P (c # cs) s = do { s \<leftarrow> out_call F E P c s; out_calls F E P cs s }"

lemma out_call_gives:
  assumes doc: "stdio_documented P V" and l: "driver_list s ds" and mine: "stdout_mine E s" and t: "text_of F c = Some t"
  shows "\<exists>s'. out_call F E P c s = Some s' \<and> gives V (listeners P s ds) t s s'"
proof (cases c)
  case (Out_putchar x)
  then show ?thesis
    using put_string_gives [OF doc l mine, of "[char_of x]" False] t by (auto simp: wrap_putchar_def)
next
  case (Out_puts u)
  obtain r s1 where s1: "stdio_put_string E P u True False s = Some (r, s1)" "gives V (listeners P s ds) (u @ [LF]) s s1"
    using put_string_gives [OF doc l mine, of u True] by auto
  have sl: "same_list s s1"
    by (rule gives_same [OF s1(2)])
  obtain s2 where s2: "stdio_flush P s1 = Some s2" "gives V (listeners P s1 ds) [] s1 s2"
    using all_drivers_gives(3) [OF doc, of s1 ds] l driver_list_same [OF sl] by blast
  have "gives V (listeners P s ds) (t @ []) s s2"
    using gives_append [OF s1(2) s2(2) [unfolded active_same [OF sl]]] t Out_puts by simp
  then show ?thesis
    using s1(1) s2(1) Out_puts by (simp add: wrap_puts_def)
next
  case (Out_write u)
  then show ?thesis
    using put_string_gives [OF doc l mine, of u False] t by (auto simp: stdio_write_def)
next
  case (Out_printf format va)
  then obtain u where u: "format_text F format va = Some u" "t = filter (\<lambda>c. c \<noteq> NUL) u"
    using t by auto
  then show ?thesis
    using vprintf_gives [OF doc l mine u(1)] Out_printf by (auto simp: wrap_printf_def)
qed

lemma out_calls_gives:
  assumes doc: "stdio_documented P V"
  shows "driver_list s ds \<Longrightarrow> stdout_mine E s \<Longrightarrow> map (text_of F) cs = map Some ts \<Longrightarrow>
    \<exists>s'. out_calls F E P cs s = Some s' \<and> gives V (listeners P s ds) (concat ts) s s'"
proof (induction cs arbitrary: s ts)
  case Nil
  then show ?case
    by simp
next
  case (Cons c cs)
  obtain t ts' where ts: "ts = t # ts'" "text_of F c = Some t" "map (text_of F) cs = map Some ts'"
    using Cons.prems(3) by (cases ts) auto
  obtain s1 where s1: "out_call F E P c s = Some s1" "gives V (listeners P s ds) t s s1"
    using out_call_gives [OF doc Cons.prems(1,2) ts(2)] by blast
  have sl: "same_list s s1"
    by (rule gives_same [OF s1(2)])
  have p: "driver_list s1 ds" "stdout_mine E s1"
    using Cons.prems(1,2) driver_list_same [OF sl] stdout_mine_same [OF sl] by simp_all
  obtain s' where s': "out_calls F E P cs s1 = Some s'" "gives V (listeners P s1 ds) (concat ts') s1 s'"
    using Cons.IH [OF p ts(3)] by blast
  have "gives V (listeners P s ds) (t @ concat ts') s s'"
    by (rule gives_append [OF s1(2) s'(2) [unfolded active_same [OF sl]]])
  then show ?case
    using s1(1) s'(1) ts(1) by simp
qed

text \<open>
  C18. Any sequence of calls of \<open>putchar\<close>, \<open>puts\<close>, \<open>_write\<close> and \<open>printf\<close> returns while no other
  core holds the output mutex, and each enabled driver that can put out and that the filter
  lets gets exactly the translation of the whole text: however the text is cut into calls and
  however \<open>printf\<close> cuts it into the chunks of its buffer, each line feed has one carriage
  return before it, and nothing else is added or lost. Other drivers get nothing.
\<close>

theorem stdio_output_translated:
  assumes doc: "stdio_documented P V" and l: "driver_list s ds" and mine: "stdout_mine E s"
    and texts: "map (text_of F) cs = map Some ts"
  shows "\<exists>s'. out_calls F E P cs s = Some s' \<and> stdio_mutex s' = stdio_mutex s \<and>
    (\<forall>d. V (devices s') d = V (devices s) d @
       (if d \<in> set ds \<and> active P s d then
          if crlf_enabled (stdio_driver_at s d) then crlf_text (last_ended_with_cr (stdio_driver_at s d)) (concat ts)
          else concat ts
        else []))"
  using out_calls_gives [OF doc l mine texts] by (auto simp: gives_def same_list_def given_def)

text \<open>A device that keeps all it is given, with two drivers, the second without translation.\<close>

definition keeping :: "nat \<Rightarrow> (nat \<Rightarrow> string) driver_ops" where
  "keeping d = \<lparr>out_chars = Some (\<lambda>t w. Some (w(d := w d @ t))), out_flush = None, in_chars = None\<rparr>"

definition two_drivers :: "(nat \<Rightarrow> string) stdio_state" where
  "two_drivers = \<lparr>drivers = 1, filter_driver = 0,
     stdio_driver_at = (\<lambda>d. \<lparr>next_driver = (if d = 1 then 2 else 0), last_ended_with_cr = False, crlf_enabled = (d = 1)\<rparr>),
     stdio_mutex = \<lparr>memory = \<lparr>mtx_core = \<lparr>spin_lock = Some 0\<rparr>, owner = LOCK_INVALID_OWNER_ID\<rparr>,
       alarms = \<lparr>heap = the (ph_create 1), entries = [], entry_ids_high = [], alarm_in_progress = 0, hardware_alarm_num = 0,
         ap_timer = timer_boot (\<lambda>_. 0) (irq_boot 0 0) 0\<rparr>\<rparr>,
     devices = (\<lambda>_. [])\<rparr>"

theorem stdio_output_translated_witness:
  "\<exists>s'. out_calls no_doubles \<lparr>env_core = 0, env_others = (\<lambda>_ m. m), env_meanwhile = (\<lambda>s. s)\<rparr> keeping
      [Out_puts ''ab'', Out_write [CR], Out_printf [LF, CHR ''c''] [], Out_putchar 10] two_drivers = Some s' \<and>
    devices s' 1 = [CHR ''a'', CHR ''b'', CR, LF, CR, LF, CHR ''c'', CR, LF] \<and>
    devices s' 2 = [CHR ''a'', CHR ''b'', LF, CR, LF, CHR ''c'', LF] \<and> devices s' 3 = []"
proof -
  have doc: "stdio_documented keeping (\<lambda>w. w)"
    by (simp add: stdio_documented_def keeping_def)
  have l: "driver_list two_drivers [1, 2]"
    by (simp add: driver_list_def two_drivers_def)
  have mine: "stdout_mine \<lparr>env_core = 0, env_others = (\<lambda>_ m. m), env_meanwhile = (\<lambda>s. s)\<rparr> two_drivers"
    by (simp add: stdout_mine_def two_drivers_def)
  have texts: "map (text_of no_doubles) [Out_puts ''ab'', Out_write [CR], Out_printf [LF, CHR ''c''] [], Out_putchar 10] =
      map Some [[CHR ''a'', CHR ''b'', LF], [CR], [LF, CHR ''c''], [LF]]"
    by (simp add: format_text.simps char_of_def)
  show ?thesis
    using stdio_output_translated [OF doc l mine texts] by (auto simp: two_drivers_def active_def keeping_def)
qed

section \<open>Enabling drivers\<close>

text \<open>What enabling and disabling mean for the list; a driver that is not in it has no \<open>next\<close>.\<close>

definition enabled_list :: "nat \<Rightarrow> bool \<Rightarrow> nat list \<Rightarrow> nat list" where
  "enabled_list d enable ds = (if enable then if d \<in> set ds then ds else ds @ [d] else filter (\<lambda>e. e \<noteq> d) ds)"

definition drivers_ok :: "'w stdio_state \<Rightarrow> nat list \<Rightarrow> bool" where
  "drivers_ok s ds \<longleftrightarrow> driver_list s ds \<and> (\<forall>d. d \<notin> set ds \<longrightarrow> next_driver (stdio_driver_at s d) = 0)"

lemma linked_cong: "linked N d xs \<Longrightarrow> (\<And>x. x \<in> set xs \<Longrightarrow> N' x = N x) \<Longrightarrow> linked N' d xs"
  by (induction xs arbitrary: d) auto

lemma linked_nonzero: "linked N d xs \<Longrightarrow> 0 \<notin> set xs"
  by (induction xs arbitrary: d) auto

abbreviation nexts :: "'w stdio_state \<Rightarrow> nat \<Rightarrow> nat" where
  "nexts s \<equiv> (\<lambda>d. next_driver (stdio_driver_at s d))"

lemma set_next_nexts [simp]: "nexts (set_next d n s) = (nexts s)(d := n)"
  by (simp add: set_next_def fun_eq_iff)

lemma set_enabled_from_links:
  assumes d: "driver \<noteq> 0"
  shows "linked (nexts s) (get_link prev s) rest \<Longrightarrow> distinct rest \<Longrightarrow> prev \<notin> set rest \<Longrightarrow> prev \<noteq> driver \<Longrightarrow>
    (driver \<notin> set rest \<longrightarrow> nexts s driver = 0) \<Longrightarrow>
    \<exists>s'. set_enabled_from driver enable prev s = Some s' \<and>
      linked (nexts s') (get_link prev s') (enabled_list driver enable rest) \<and>
      (driver \<notin> set (enabled_list driver enable rest) \<longrightarrow> nexts s' driver = 0) \<and>
      (\<forall>e. e \<notin> set rest \<and> e \<noteq> prev \<and> e \<noteq> driver \<longrightarrow> nexts s' e = nexts s e) \<and>
      (prev \<noteq> 0 \<longrightarrow> drivers s' = drivers s) \<and> (prev = 0 \<longrightarrow> nexts s' 0 = nexts s 0)"
proof (induction rest arbitrary: prev)
  case Nil
  then have "set_enabled_from driver enable prev s = Some (if enable then set_link prev driver s else s)"
    by (subst set_enabled_from.simps) simp
  moreover have "prev \<noteq> 0 \<Longrightarrow> nexts (set_link prev driver s) = (nexts s)(prev := driver)"
      "prev = 0 \<Longrightarrow> nexts (set_link prev driver s) = nexts s"
    by (simp_all add: set_link_def fun_eq_iff set_next_def)
  moreover have "get_link prev (set_link prev driver s) = driver"
    by (simp add: get_link_def set_link_def set_next_def)
  ultimately show ?case
    using Nil d by (cases "prev = 0") (auto simp: enabled_list_def set_link_def set_next_def)
next
  case (Cons x rest)
  have x: "get_link prev s = x" "x \<noteq> 0" "linked (nexts s) (nexts s x) rest"
    using Cons.prems(1) by simp_all
  have x0: "0 \<notin> set rest"
    by (rule linked_nonzero [OF x(3)])
  show ?case
  proof (cases "x = driver")
    case True
    let ?s = "set_next driver 0 (set_link prev (nexts s driver) s)"
    have run: "set_enabled_from driver enable prev s = Some (if \<not> enable then ?s else s)"
      using x True by (subst set_enabled_from.simps) simp
    have N: "nexts ?s e = (if e = driver then 0 else if prev \<noteq> 0 \<and> e = prev then nexts s driver else nexts s e)" for e
      by (simp add: set_link_def set_next_def)
    have L: "get_link prev ?s = nexts s driver"
      using Cons.prems(4) by (simp add: get_link_def set_link_def set_next_def)
    have D: "prev \<noteq> 0 \<longrightarrow> drivers ?s = drivers s"
      by (simp add: set_link_def set_next_def)
    have keep: "linked (nexts ?s) (nexts s driver) rest"
      by (rule linked_cong [OF x(3) [unfolded True]]) (use Cons.prems(2,3) True in \<open>auto simp: set_link_def set_next_def\<close>)
    have rest: "enabled_list driver False (x # rest) = rest" "enabled_list driver True (x # rest) = x # rest"
      using True Cons.prems(2) by (auto simp: enabled_list_def intro: filter_True)
    show ?thesis
    proof (cases enable)
      case True
      then show ?thesis
        using run rest Cons.prems(1) \<open>x = driver\<close> by simp
    next
      case False
      then show ?thesis
        using run rest keep L D d Cons.prems(2,4) \<open>x = driver\<close> N by auto
    qed
  next
    case False
    have run: "set_enabled_from driver enable prev s = set_enabled_from driver enable x s"
      using x False by (subst set_enabled_from.simps) simp
    have gx: "get_link x s = nexts s x"
      using x(2) by (simp add: get_link_def)
    obtain s' where s': "set_enabled_from driver enable x s = Some s'"
        "linked (nexts s') (get_link x s') (enabled_list driver enable rest)"
        "driver \<notin> set (enabled_list driver enable rest) \<longrightarrow> nexts s' driver = 0"
        "\<forall>e. e \<notin> set rest \<and> e \<noteq> x \<and> e \<noteq> driver \<longrightarrow> nexts s' e = nexts s e" "x \<noteq> 0 \<longrightarrow> drivers s' = drivers s"
      using Cons.IH [of x] x(3) gx Cons.prems(2,5) False by auto
    have el: "enabled_list driver enable (x # rest) = x # enabled_list driver enable rest"
      using False by (simp add: enabled_list_def)
    have gx': "get_link x s' = nexts s' x"
      using x(2) by (simp add: get_link_def)
    have px: "get_link prev s' = x"
      using x(1,2) s'(4,5) Cons.prems(3,4) by (auto simp: get_link_def)
    show ?thesis
      using run s'(1-5) el gx' px x(2) x0 Cons.prems(3,4) False d by auto
  qed
qed

lemma distinct_enabled_list: "distinct ds \<Longrightarrow> distinct (enabled_list d enable ds)"
  by (simp add: enabled_list_def)

lemma set_driver_enabled_ok:
  assumes ok: "drivers_ok s ds" and d: "driver \<noteq> 0"
  shows "\<exists>s'. stdio_set_driver_enabled driver enable s = Some s' \<and> drivers_ok s' (enabled_list driver enable ds)"
proof -
  have l: "linked (nexts s) (get_link 0 s) ds" "distinct ds"
    using ok by (simp_all add: drivers_ok_def driver_list_def get_link_def)
  have z: "0 \<notin> set ds"
    by (rule linked_nonzero [OF l(1)])
  have n: "driver \<notin> set ds \<longrightarrow> nexts s driver = 0"
    using ok by (simp add: drivers_ok_def)
  obtain s' where s': "set_enabled_from driver enable 0 s = Some s'"
      "linked (nexts s') (get_link 0 s') (enabled_list driver enable ds)"
      "driver \<notin> set (enabled_list driver enable ds) \<longrightarrow> nexts s' driver = 0"
      "\<forall>e. e \<notin> set ds \<and> e \<noteq> 0 \<and> e \<noteq> driver \<longrightarrow> nexts s' e = nexts s e" "nexts s' 0 = nexts s 0"
    using set_enabled_from_links [OF d l z d [symmetric] n, of enable] by blast
  have "nexts s' e = 0" if e: "e \<notin> set (enabled_list driver enable ds)" for e
  proof (cases "e = driver")
    case True
    then show ?thesis
      using s'(3) e by simp
  next
    case False
    then have "e \<notin> set ds"
      using e by (auto simp: enabled_list_def split: if_splits)
    then show ?thesis
      using False s'(4,5) ok by (cases "e = 0") (auto simp: drivers_ok_def)
  qed
  then show ?thesis
    using s'(1,2) distinct_enabled_list [OF l(2)]
    by (simp add: stdio_set_driver_enabled_def drivers_ok_def driver_list_def get_link_def)
qed

fun set_drivers :: "(nat \<times> bool) list \<Rightarrow> 'w stdio_state \<Rightarrow> 'w stdio_state option" where
  "set_drivers [] s = Some s"
| "set_drivers ((d, e) # qs) s = do { s \<leftarrow> stdio_set_driver_enabled d e s; set_drivers qs s }"

text \<open>
  C36. Any sequence of enablings and disablings of drivers returns and leaves the list of the
  drivers that are enabled, each once, in the order they were last enabled in; so all loops over
  the list end. A driver that is taken out has its link cleared, so that it can be enabled again.
\<close>

theorem stdio_drivers_listed:
  assumes ok: "drivers_ok s ds" and d: "0 \<notin> fst ` set qs"
  shows "\<exists>s'. set_drivers qs s = Some s' \<and> drivers_ok s' (fold (\<lambda>(d, e). enabled_list d e) qs ds)"
  using ok d
proof (induction qs arbitrary: s ds)
  case Nil
  then show ?case
    by simp
next
  case (Cons q qs)
  obtain d e where q: "q = (d, e)"
    by fastforce
  obtain s1 where s1: "stdio_set_driver_enabled d e s = Some s1" "drivers_ok s1 (enabled_list d e ds)"
    using set_driver_enabled_ok [OF Cons.prems(1), of d e] Cons.prems(2) q by auto
  then show ?case
    using Cons.IH [OF s1(2)] Cons.prems(2) q by simp
qed

theorem stdio_drivers_listed_witness:
  "\<exists>s'. set_drivers [(1, False), (3, True), (1, True), (2, True)] two_drivers = Some s' \<and> drivers_ok s' [2, 3, 1]"
proof -
  have "drivers_ok two_drivers [1, 2]"
    by (simp add: drivers_ok_def driver_list_def two_drivers_def)
  from stdio_drivers_listed [OF this, of "[(1, False), (3, True), (1, True), (2, True)]"] show ?thesis
    by (simp add: enabled_list_def)
qed

end
