(* ===== verification/Uart_Props.thy ===== *)
theory Uart_Props
  imports Uart Stdio_Props
begin

text \<open>
  The UART driver over a UART that works as documented: what is written is sent, in order, and
  so is what the output calls of \<open>stdio.c\<close> put out. The divisors of a bit rate.
\<close>

section \<open>The documented UART\<close>

text \<open>
  \<open>sent\<close> is what the UART has been given to send. A full transmit FIFO has room after finitely
  many looks at the flags (\<open>pat\<close> counts down to it), and room stays until the next write.
\<close>

definition uart_documented :: "'d uart_dev \<Rightarrow> UART \<Rightarrow> ('d \<Rightarrow> u8 list) \<Rightarrow> ('d \<Rightarrow> bool) \<Rightarrow> ('d \<Rightarrow> nat) \<Rightarrow> bool" where
  "uart_documented D uart sent room pat \<longleftrightarrow>
     (\<forall>d v d'. uart_rd D uart UARTFR d = (v, d') \<longrightarrow>
        sent d' = sent d \<and> (v AND 0x20 = 0 \<longrightarrow> room d') \<and> (v AND 0x20 \<noteq> 0 \<longrightarrow> pat d' < pat d)) \<and>
     (\<forall>d v. room d \<longrightarrow> sent (uart_wr D uart UARTDR v d) = sent d @ [ucast v])"

lemma uart_wait_writable_room:
  assumes doc: "uart_documented D uart sent room pat"
  shows "\<exists>d'. uart_wait_writable D uart d = Some d' \<and> sent d' = sent d \<and> room d'"
proof (induction "pat d" arbitrary: d rule: less_induct)
  case less
  obtain v d1 where rd: "uart_rd D uart UARTFR d = (v, d1)"
    by fastforce
  then have fr: "sent d1 = sent d" "v AND 0x20 = 0 \<longrightarrow> room d1" "v AND 0x20 \<noteq> 0 \<longrightarrow> pat d1 < pat d"
    using doc unfolding uart_documented_def by blast+
  show ?case
  proof (cases "v AND 0x20 = 0")
    case True
    then show ?thesis
      using rd fr by (subst uart_wait_writable.simps) (simp add: uart_is_writable_def)
  next
    case False
    then obtain d' where "uart_wait_writable D uart d1 = Some d'" "sent d' = sent d1" "room d'"
      using less.hyps fr(3) by blast
    then show ?thesis
      using rd fr(1) False by (subst uart_wait_writable.simps) (simp add: uart_is_writable_def)
  qed
qed

lemma uart_write_blocking_sends:
  assumes doc: "uart_documented D uart sent room pat"
  shows "\<exists>d'. uart_write_blocking D uart src d = Some d' \<and> sent d' = sent d @ src"
proof (induction src arbitrary: d)
  case Nil
  then show ?case
    by simp
next
  case (Cons b src)
  obtain d1 where d1: "uart_wait_writable D uart d = Some d1" "sent d1 = sent d" "room d1"
    using uart_wait_writable_room [OF doc] by blast
  then have "sent (uart_wr D uart UARTDR (ucast b) d1) = sent d @ [b]"
    using doc unfolding uart_documented_def by simp
  moreover obtain d' where "uart_write_blocking D uart src (uart_wr D uart UARTDR (ucast b) d1) = Some d'"
      "sent d' = sent (uart_wr D uart UARTDR (ucast b) d1) @ src"
    using Cons by blast
  ultimately show ?case
    using d1(1) by simp
qed

text \<open>\<open>sends\<close>: the bytes went out and nothing else of the state changed.\<close>

definition sends :: "('d \<Rightarrow> u8 list) \<Rightarrow> string \<Rightarrow> 'd uart_state \<Rightarrow> 'd uart_state \<Rightarrow> bool" where
  "sends sent s u u' \<longleftrightarrow> uart_char_to_line_feed u' = uart_char_to_line_feed u \<and> sent (uart_hw u') = sent (uart_hw u) @ map of_char s"

lemma sends_nothing [simp]: "sends sent [] u u"
  by (simp add: sends_def)

lemma sends_append: "sends sent s u u' \<Longrightarrow> sends sent t u' u'' \<Longrightarrow> sends sent (s @ t) u u''"
  by (simp add: sends_def)

lemma uart_putc_raw_sends:
  assumes doc: "uart_documented D uart sent room pat"
  shows "\<exists>u'. uart_putc_raw D uart c u = Some u' \<and> sends sent [c] u u'"
proof -
  obtain d' where "uart_write_blocking D uart [of_char c] (uart_hw u) = Some d'" "sent d' = sent (uart_hw u) @ [of_char c]"
    using uart_write_blocking_sends [OF doc] by blast
  then show ?thesis
    by (simp add: uart_putc_raw_def sends_def del: uart_write_blocking.simps)
qed

lemma of_char_LF: "of_char c = (10 :: int) \<longleftrightarrow> c = LF"
proof
  assume lf: "of_char c = (10 :: int)"
  have "char_of (10 :: int) = c"
    unfolding lf [symmetric] by (rule char_of_char)
  then show "c = LF"
    by (auto simp: char_of_def)
qed simp

lemma of_char_256: "of_char c \<noteq> (0x100 :: int)"
proof -
  have "of_char c < (256 :: int)"
    using of_char_mod_256 [of c, where ?'a = int] by (metis pos_mod_bound zero_less_numeral)
  then show ?thesis
    by simp
qed

text \<open>With or without translation.\<close>

definition translates :: "UART \<Rightarrow> bool \<Rightarrow> 'd uart_state \<Rightarrow> bool" where
  "translates uart b u \<longleftrightarrow> uart_char_to_line_feed u uart = (if b then 10 else 0x100)"

lemma uart_putc_sends:
  assumes doc: "uart_documented D uart sent room pat" and tr: "translates uart b u"
  shows "\<exists>u'. uart_putc D uart c u = Some u' \<and> sends sent (if b \<and> c = LF then [CR, LF] else [c]) u u'"
proof (cases "b \<and> c = LF")
  case True
  obtain u1 where u1: "uart_putc_raw D uart CR u = Some u1" "sends sent [CR] u u1"
    using uart_putc_raw_sends [OF doc] by blast
  obtain u2 where u2: "uart_putc_raw D uart c u1 = Some u2" "sends sent [c] u1 u2"
    using uart_putc_raw_sends [OF doc] by blast
  have "uart_char_to_line_feed u uart = of_char c"
    using True tr by (simp add: translates_def)
  then have "uart_putc D uart c u = Some u2"
    using u1(1) u2(1) by (simp add: uart_putc_def)
  then show ?thesis
    using sends_append [OF u1(2) u2(2)] True by simp
next
  case False
  have "uart_char_to_line_feed u uart \<noteq> of_char c"
    using False tr of_char_LF [of c] of_char_256 [of c] by (auto simp: translates_def split: if_splits)
  then have "uart_putc D uart c u = uart_putc_raw D uart c u"
    by (simp add: uart_putc_def)
  then show ?thesis
    using uart_putc_raw_sends [OF doc, of c u] False by auto
qed

lemma sends_translates: "sends sent s u u' \<Longrightarrow> translates uart b u' = translates uart b u"
  by (simp add: sends_def translates_def)

lemma uart_puts_loop_sends:
  assumes doc: "uart_documented D uart sent room pat"
  shows "translates uart b u \<Longrightarrow> \<exists>u'. uart_puts_loop D uart cr s u = Some u' \<and>
    sends sent (if b then crlf_text cr s else s) u u'"
proof (induction s arbitrary: cr u)
  case Nil
  then show ?case
    by simp
next
  case (Cons c s)
  have "\<exists>u1. (if cr then uart_putc_raw D uart c u else uart_putc D uart c u) = Some u1 \<and>
      sends sent (if b \<and> c = LF \<and> \<not> cr then [CR, LF] else [c]) u u1"
    using uart_putc_raw_sends [OF doc, of c u] uart_putc_sends [OF doc Cons.prems, of c] by auto
  then obtain u1 where u1: "(if cr then uart_putc_raw D uart c u else uart_putc D uart c u) = Some u1"
      "sends sent (if b \<and> c = LF \<and> \<not> cr then [CR, LF] else [c]) u u1"
    by blast
  have "translates uart b u1"
    using Cons.prems sends_translates [OF u1(2)] by simp
  from Cons.IH [OF this, of "c = CR"] obtain u' where u': "uart_puts_loop D uart (c = CR) s u1 = Some u'"
      "sends sent (if b then crlf_text (c = CR) s else s) u1 u'"
    by blast
  then show ?case
    using u1(1) sends_append [OF u1(2) u'(2)] by (cases b) auto
qed

text \<open>
  \<open>uart_puts\<close> returns on a UART that works as documented and sends exactly its text, with
  a carriage return before each line feed that has none if the translation is on.
\<close>

theorem uart_puts_sends:
  assumes doc: "uart_documented D uart sent room pat" and tr: "translates uart b u"
  shows "\<exists>u'. uart_puts D uart s u = Some u' \<and> sent (uart_hw u') = sent (uart_hw u) @ map of_char (if b then crlf_text False s else s) \<and>
    uart_char_to_line_feed u' = uart_char_to_line_feed u"
  using uart_puts_loop_sends [OF doc tr, of False s] by (auto simp: uart_puts_def sends_def)

text \<open>A UART that always has room.\<close>

definition sending :: "u8 list uart_dev" where
  "sending = \<lparr>uart_rd = (\<lambda>_ r d. (if r = UART_RESET_DONE then - 1 else 0, d)),
     uart_wr = (\<lambda>_ r v d. if r = UARTDR then d @ [ucast v] else d),
     uart_hw_set = (\<lambda>_ _ _ d. d), uart_hw_clear = (\<lambda>_ _ _ d. d), uart_hw_xor = (\<lambda>_ _ _ d. d)\<rparr>"

lemma sending_documented: "uart_documented sending uart (\<lambda>d. d) (\<lambda>_. True) (\<lambda>_. 0)"
  by (auto simp: uart_documented_def sending_def)

theorem uart_puts_sends_witness:
  "\<exists>u'. uart_puts sending uart1 [CHR ''a'', LF] \<lparr>uart_char_to_line_feed = (\<lambda>_. 10), uart_hw = [1]\<rparr> = Some u' \<and>
    uart_hw u' = [1, 97, 13, 10]"
  using uart_puts_sends [OF sending_documented, of uart1 True "\<lparr>uart_char_to_line_feed = (\<lambda>_. 10), uart_hw = [1]\<rparr>"
      "[CHR ''a'', LF]"]
  by (auto simp: translates_def)

section \<open>Output over the UART\<close>

lemma stdio_uart_out_chars_sends:
  assumes doc: "uart_documented D uart sent room pat"
  shows "translates uart False u \<Longrightarrow> \<exists>u'. stdio_uart_out_chars D uart s u = Some u' \<and> sends sent s u u'"
proof (induction s arbitrary: u)
  case Nil
  then show ?case
    by simp
next
  case (Cons c s)
  obtain u1 where u1: "uart_putc D uart c u = Some u1" "sends sent [c] u u1"
    using uart_putc_sends [OF doc Cons.prems, of c] by auto
  have "translates uart False u1"
    using Cons.prems sends_translates [OF u1(2)] by simp
  from Cons.IH [OF this] obtain u' where u': "stdio_uart_out_chars D uart s u1 = Some u'" "sends sent s u1 u'"
    by blast
  then show ?case
    using u1(1) sends_append [OF u1(2) u'(2)] by simp
qed

lemma stdio_uart_documented:
  assumes doc: "uart_documented D uart sent room pat" and lf: "lf uart = 0x100"
  shows "stdio_documented (stdio_uart D lf uart n) (\<lambda>h d. if d = n then map (\<lambda>b. char_of (unat b)) (sent h) else [])"
proof -
  have char: "map (\<lambda>b. char_of (unat b)) (map (of_char :: char \<Rightarrow> u8) t) = t" for t
  proof -
    have "char_of (unat (of_char c :: u8)) = c" for c
    proof -
      have w: "(of_char c :: u8) = of_nat (of_char c)"
        by (rule of_nat_of_char [symmetric])
      have "unat (of_char c :: u8) = take_bit 8 (of_char c :: nat)"
        unfolding w unsigned_of_nat by simp
      also have "\<dots> = of_char c"
        using of_char_mod_256 [of c, where ?'a = nat] by (simp add: take_bit_eq_mod)
      finally show ?thesis
        by simp
    qed
    then show ?thesis
      by (induction t) simp_all
  qed
  have out: "\<exists>h'. do { u \<leftarrow> stdio_uart_out_chars D uart t \<lparr>uart_char_to_line_feed = lf, uart_hw = h\<rparr>; Some (uart_hw u) } = Some h' \<and>
      sent h' = sent h @ map of_char t" for t h
  proof -
    have "translates uart False \<lparr>uart_char_to_line_feed = lf, uart_hw = h\<rparr>"
      using lf by (simp add: translates_def)
    from stdio_uart_out_chars_sends [OF doc this, of t] show ?thesis
      by (auto simp: sends_def)
  qed
  let ?V = "\<lambda>h d. if d = n then map (\<lambda>b. char_of (unat b)) (sent h) else []"
  show ?thesis
    unfolding stdio_documented_def
  proof (intro conjI allI impI)
    fix d f t h
    assume f: "out_chars (stdio_uart D lf uart n d) = Some f"
    obtain h' where h': "do { u \<leftarrow> stdio_uart_out_chars D uart t \<lparr>uart_char_to_line_feed = lf, uart_hw = h\<rparr>; Some (uart_hw u) } = Some h'"
        "sent h' = sent h @ map of_char t"
      using out by blast
    have "d = n" "f t h = Some h'"
      using f h'(1) by (auto simp: stdio_uart_def split: if_splits)
    moreover have "?V h' = (?V h)(n := ?V h n @ t)"
      using h'(2) char [of t] by (simp add: fun_eq_iff)
    ultimately show "\<exists>w'. f t h = Some w' \<and> ?V w' = (?V h)(d := ?V h d @ t)"
      by blast
  next
    fix d f h
    assume "out_flush (stdio_uart D lf uart n d) = Some f"
    then show "\<exists>w'. f h = Some w' \<and> ?V w' = ?V h"
      by (simp add: stdio_uart_def split: if_splits)
  qed
qed

lemma uart_init_translation:
  "uart_init D hz uart baud u = Some (b, u') \<Longrightarrow> hz \<noteq> 0 \<Longrightarrow> uart_char_to_line_feed u' uart = 0x100"
  by (auto simp: uart_init_def uart_set_translate_crlf_def bind_eq_Some_conv Let_def)

lemma map_of_char_back: "map (\<lambda>b. char_of (unat b)) xs = t \<Longrightarrow> xs = map of_char (t :: string)" for xs :: "u8 list"
proof -
  have "of_char (char_of (unat b)) = b" for b :: u8
  proof -
    have "unat b < 256"
      using unsigned_less [of b, where ?'a = nat] by simp
    then have "(of_char (char_of (unat b)) :: nat) = unat b"
      by simp
    then show ?thesis
      by (metis of_nat_of_char of_nat_unat ucast_id)
  qed
  then show "map (\<lambda>b. char_of (unat b)) xs = t \<Longrightarrow> xs = map of_char t"
    by (auto simp: comp_def)
qed

text \<open>
  C19. After \<open>stdio_uart_init_full\<close> any sequence of output calls returns, and the UART is given
  to send exactly the translation of the whole text.
\<close>

theorem printf_reaches_uart:
  assumes doc: "uart_documented D uart sent room pat" and ok: "drivers_ok s []" and n: "n \<noteq> 0" and hz: "hz \<noteq> 0"
    and init: "stdio_uart_init_full D pins hz lf0 uart n baud tx rx s = Some (lf, s1)"
    and flags: "filter_driver s = 0" "crlf_enabled (stdio_driver_at s n)" "\<not> last_ended_with_cr (stdio_driver_at s n)"
    and mine: "stdout_mine E s" and texts: "map (text_of F) cs = map Some ts"
  shows "\<exists>s'. out_calls F E (stdio_uart D lf uart n) cs s1 = Some s' \<and>
    sent (devices s') = sent (devices s1) @ map of_char (crlf_text False (concat ts))"
proof -
  obtain b u h where u: "uart_init D hz uart baud \<lparr>uart_char_to_line_feed = lf0, uart_hw = devices s\<rparr> = Some (b, u)"
      "lf = uart_char_to_line_feed u" "stdio_set_driver_enabled n True (s\<lparr>devices := h\<rparr>) = Some s1"
    using init by (auto simp: stdio_uart_init_full_def bind_eq_Some_conv Let_def)
  have lf: "lf uart = 0x100"
    using uart_init_translation [OF u(1) hz] u(2) by simp
  have "drivers s = 0"
    using ok by (simp add: drivers_ok_def driver_list_def)
  then have s1: "s1 = s\<lparr>devices := h, drivers := n\<rparr>"
    using u(3) by (subst (asm) stdio_set_driver_enabled_def, subst (asm) set_enabled_from.simps)
      (simp add: get_link_def set_link_def)
  have l: "driver_list s1 [n]" "stdout_mine E s1"
    using ok n mine s1 by (simp_all add: drivers_ok_def driver_list_def stdout_mine_def)
  obtain s' where s': "out_calls F E (stdio_uart D lf uart n) cs s1 = Some s'"
      "gives (\<lambda>h d. if d = n then map (\<lambda>b. char_of (unat b)) (sent h) else []) (listeners (stdio_uart D lf uart n) s1 [n]) (concat ts) s1 s'"
    using out_calls_gives [OF stdio_uart_documented [where lf = lf, OF doc lf] l texts] by blast
  have "listeners (stdio_uart D lf uart n) s1 [n] n" "given s1 n (concat ts) = crlf_text False (concat ts)"
    using flags s1 by (simp_all add: active_def stdio_uart_def given_def)
  with spec [OF conjunct2 [OF s'(2) [unfolded gives_def]], of n]
  have "map (\<lambda>b. char_of (unat b)) (sent (devices s')) = map (\<lambda>b. char_of (unat b)) (sent (devices s1)) @ crlf_text False (concat ts)"
    by simp
  from map_of_char_back [OF this] have "sent (devices s') = sent (devices s1) @ map of_char (crlf_text False (concat ts))"
    using map_of_char_back [OF refl, of "sent (devices s1)"] by simp
  then show ?thesis
    using s'(1) by blast
qed

definition no_drivers :: "u8 list stdio_state" where
  "no_drivers = \<lparr>drivers = 0, filter_driver = 0,
     stdio_driver_at = (\<lambda>d. \<lparr>next_driver = 0, last_ended_with_cr = False, crlf_enabled = True\<rparr>),
     stdio_mutex = \<lparr>memory = \<lparr>mtx_core = \<lparr>spin_lock = Some 0\<rparr>, owner = LOCK_INVALID_OWNER_ID\<rparr>,
       alarms = alarms (stdio_mutex two_drivers)\<rparr>,
     devices = []\<rparr>"

theorem printf_reaches_uart_witness:
  "\<exists>lf s1 s'. stdio_uart_init_full sending (\<lambda>_ d. d) 125000000 (\<lambda>_. 0) uart0 3 115200 0 1 no_drivers = Some (lf, s1) \<and>
    out_calls no_doubles \<lparr>env_core = 0, env_others = (\<lambda>_ m. m), env_meanwhile = (\<lambda>s. s)\<rparr> (stdio_uart sending lf uart0 3)
      [Out_printf [CHR ''h'', LF] [], Out_puts ''i''] s1 = Some s' \<and>
    devices s' = [104, 13, 10, 105, 13, 10]"
proof -
  have ok: "drivers_ok no_drivers []"
    by (simp add: drivers_ok_def driver_list_def no_drivers_def)
  have "\<exists>lf s1. stdio_uart_init_full sending (\<lambda>_ d. d) 125000000 (\<lambda>_. 0) uart0 3 115200 0 1 no_drivers = Some (lf, s1) \<and> devices s1 = []"
    by (simp add: stdio_uart_init_full_def uart_init_def uart_reset_def uart_unreset_def uart_wait_reset_done.simps sending_def
      uart_set_translate_crlf_def uart_set_baudrate_def uart_set_format_def uart_write_masked_def stdio_set_driver_enabled_def
      set_enabled_from.simps get_link_def set_link_def no_drivers_def Let_def case_prod_beta')
  then obtain lf s1 where init: "stdio_uart_init_full sending (\<lambda>_ d. d) 125000000 (\<lambda>_. 0) uart0 3 115200 0 1 no_drivers = Some (lf, s1)"
      "devices s1 = []"
    by blast
  have flags: "filter_driver no_drivers = 0" "crlf_enabled (stdio_driver_at no_drivers 3)"
      "\<not> last_ended_with_cr (stdio_driver_at no_drivers 3)"
    by (simp_all add: no_drivers_def)
  have mine: "stdout_mine \<lparr>env_core = 0, env_others = (\<lambda>_ m. m), env_meanwhile = (\<lambda>s. s)\<rparr> no_drivers"
    by (simp add: stdout_mine_def no_drivers_def)
  have texts: "map (text_of no_doubles) [Out_printf [CHR ''h'', LF] [], Out_puts ''i''] = map Some [[CHR ''h'', LF], [CHR ''i'', LF]]"
    by (simp add: format_text.simps)
  show ?thesis
    using printf_reaches_uart [OF sending_documented ok _ _ init(1) flags mine texts] init by auto
qed

section \<open>The bit rate\<close>

lemma rounded_halves: "64 * (q div 128) + (q mod 128 + 1) div 2 = (q + 1) div 2" "(q mod 128 + 1) div 2 = 64 \<longleftrightarrow> q mod 128 = 127"
  "(q mod 128 + 1) div 2 \<le> 64" "2 * ((q + 1) div 2) = q \<or> 2 * ((q + 1) div 2) = q + 1" for q :: nat
proof -
  have "q + 1 = 64 * (q div 128) * 2 + (q mod 128 + 1)"
    using div_mult_mod_eq [of q 128] by linarith
  then have "(q + 1) div 2 = (64 * (q div 128) * 2 + (q mod 128 + 1)) div 2"
    by (rule arg_cong)
  also have "\<dots> = 64 * (q div 128) + (q mod 128 + 1) div 2"
    by (rule div_mult_self3) simp
  finally show "64 * (q div 128) + (q mod 128 + 1) div 2 = (q + 1) div 2"
    by simp
  have "q mod 128 < 128"
    by simp
  then show "(q mod 128 + 1) div 2 = 64 \<longleftrightarrow> q mod 128 = 127" "(q mod 128 + 1) div 2 \<le> 64"
    by linarith+
  show "2 * ((q + 1) div 2) = q \<or> 2 * ((q + 1) div 2) = q + 1"
    by presburger
qed

text \<open>
  C38. The divisor \<open>uart_set_baudrate\<close> computes, in units of 1/64, is the nearest whole number to
  the exact one, for all rates the UART can make. But the fraction fits the six bits of its
  register only if the low seven bits of the scaled divisor are not all set: then it is 64.
\<close>

theorem baud_divisor_nearest:
  assumes hz: "8 * unat hz < 2 ^ 32" and range: "128 * unat baudrate \<le> 8 * unat hz" "8 * unat hz < 65535 * 128 * unat baudrate"
    and div: "baud_divisors hz baudrate = (ibrd, fbrd)"
  shows "\<bar>2 * int (64 * unat ibrd + unat fbrd) * int (unat baudrate) - 8 * int (unat hz)\<bar> \<le> int (unat baudrate) \<and>
    1 \<le> unat ibrd \<and> unat ibrd < 65535 \<and> unat fbrd \<le> 64 \<and>
    (unat fbrd = 64 \<longleftrightarrow> (8 * unat hz div unat baudrate) mod 128 = 127)"
proof -
  let ?h = "8 * unat hz" and ?b = "unat baudrate"
  let ?q = "?h div ?b"
  have b0: "0 < ?b"
    using range by (cases "?b = 0") auto
  have h: "unat (8 * hz) = ?h"
    using hz by (simp add: unat_word_ariths)
  have q: "unat (8 * hz div baudrate) = ?q"
    by (simp add: unat_div h)
  have q1: "128 \<le> ?q" "?q < 65535 * 128"
    using range b0 by (simp_all add: less_eq_div_iff_mult_less_eq div_less_iff_less_mult)
  have i: "unat (drop_bit 7 (8 * hz div baudrate)) = ?q div 128"
    by (simp add: drop_bit_eq_div unat_div h)
  have m: "unat ((8 * hz div baudrate) AND 0x7f) = ?q mod 128"
  proof -
    have "(0x7f :: u32) = mask 7"
      by (simp add: mask_eq_exp_minus_1)
    then have "(8 * hz div baudrate) AND 0x7f = take_bit 7 (8 * hz div baudrate)"
      by (simp add: take_bit_eq_mask)
    then show ?thesis
      by (simp add: take_bit_eq_mod unat_mod unat_div h)
  qed
  have f: "unat ((((8 * hz div baudrate) AND 0x7f) + 1) div 2) = (?q mod 128 + 1) div 2"
    by (simp add: unat_div unat_word_ariths m)
  have "1 \<le> ?q div 128" "?q div 128 < 65535"
    using q1 by (simp_all add: less_eq_div_iff_mult_less_eq div_less_iff_less_mult)
  then have "drop_bit 7 (8 * hz div baudrate) \<noteq> 0" "\<not> drop_bit 7 (8 * hz div baudrate) \<ge> 65535"
    using i by (auto simp: word_le_nat_alt)
  then have res: "unat ibrd = ?q div 128" "unat fbrd = (?q mod 128 + 1) div 2"
    using div i f by (auto simp: baud_divisors_def Let_def)
  have d: "64 * unat ibrd + unat fbrd = (?q + 1) div 2"
    unfolding res by (rule rounded_halves(1))
  have "?q * ?b \<le> ?h" "?h < (?q + 1) * ?b"
    using b0 by (simp_all add: div_times_less_eq_dividend dividend_less_div_times)
  then have e: "int ?q * int ?b \<le> int ?h" "int ?h < (int ?q + 1) * int ?b"
    by (metis of_nat_le_iff of_nat_mult, metis of_nat_less_iff of_nat_mult of_nat_add of_nat_1)
  have "2 * ((?q + 1) div 2) = ?q \<or> 2 * ((?q + 1) div 2) = ?q + 1"
    by (rule rounded_halves(4))
  then have "2 * int ((?q + 1) div 2) = int ?q \<or> 2 * int ((?q + 1) div 2) = int ?q + 1"
    by linarith
  then have near: "\<bar>2 * int ((?q + 1) div 2) * int ?b - int ?h\<bar> \<le> int ?b"
    using e by (auto simp: algebra_simps)
  have "unat fbrd = 64 \<longleftrightarrow> ?q mod 128 = 127"
    unfolding res by (rule rounded_halves(2))
  moreover have "unat fbrd \<le> 64"
    unfolding res by (rule rounded_halves(3))
  ultimately show ?thesis
    using near d \<open>1 \<le> ?q div 128\<close> \<open>?q div 128 < 65535\<close> res(1) by simp
qed

text \<open>At 125 MHz the rate 3921568 gives the divisor 1 and the fraction 64.\<close>

theorem baud_divisor_nearest_witness:
  "baud_divisors 125000000 3921568 = (1, 64) \<and>
    \<bar>2 * int (64 * unat (1 :: u32) + unat (64 :: u32)) * int (unat (3921568 :: u32)) - 8 * int (unat (125000000 :: u32))\<bar> \<le> int (unat (3921568 :: u32)) \<and>
    (unat (64 :: u32) = 64 \<longleftrightarrow> (8 * unat (125000000 :: u32) div unat (3921568 :: u32)) mod 128 = 127)"
proof -
  have d: "baud_divisors 125000000 3921568 = (1, 64)"
    by (simp add: baud_divisors_def Let_def word_le_nat_alt)
  show ?thesis
    using baud_divisor_nearest [OF _ _ _ d] d by simp
qed

end
