(* ===== verification/Multicore.thy ===== *)
theory Multicore
  imports Sync
begin

text \<open>
  The two cores (\<open>SDK/pico/pico_multicore/multicore.c\<close> and the inline functions of
  \<open>SDK/include/pico/multicore.h\<close>): the FIFOs between them, the start of the second core and the
  lockout, by which one core makes the other wait in an interrupt handler. The calling core
  runs the functions; what the other core does before each access of the caller to the FIFO
  registers is the parameter \<open>other_runs\<close>. The handler of the lockout, which runs on the other
  core, is a machine that makes one access at each step.
\<close>

section \<open>The FIFO registers\<close>

text \<open>\<open>fifo s c\<close>: the words on their way to core \<open>c\<close>; \<open>roe\<close> and \<open>wof\<close> are the error flags of each core.\<close>

record sio =
  fifo :: "nat \<Rightarrow> u32 list"
  roe :: "nat \<Rightarrow> bool"
  wof :: "nat \<Rightarrow> bool"

definition fifo_st :: "nat \<Rightarrow> sio \<Rightarrow> u32" where
  "fifo_st c s =
     (if fifo s c \<noteq> [] then 1 else 0) OR (if length (fifo s (1 - c)) < 8 then 2 else 0) OR
     (if wof s c then 4 else 0) OR (if roe s c then 8 else 0)"

text \<open>There is no word to read in an empty FIFO.\<close>

definition fifo_rd :: "nat \<Rightarrow> sio \<Rightarrow> (u32 \<times> sio) option" where
  "fifo_rd c s = (case fifo s c of [] \<Rightarrow> None | x # xs \<Rightarrow> Some (x, s\<lparr>fifo := (fifo s)(c := xs)\<rparr>))"

definition fifo_wr :: "nat \<Rightarrow> u32 \<Rightarrow> sio \<Rightarrow> sio" where
  "fifo_wr c x s =
     (if length (fifo s (1 - c)) < 8 then s\<lparr>fifo := (fifo s)(1 - c := fifo s (1 - c) @ [x])\<rparr>
      else s\<lparr>wof := (wof s)(c := True)\<rparr>)"

definition fifo_st_clear :: "nat \<Rightarrow> sio \<Rightarrow> sio" where
  "fifo_st_clear c s = s\<lparr>roe := (roe s)(c := False), wof := (wof s)(c := False)\<rparr>"

section \<open>State\<close>

text \<open>
  \<open>lockout_mutex\<close> is the mutex with the default alarm pool, whose timer is also the one of the
  timeouts and whose interrupt state is the one of the calling core.
\<close>

record 'v multicore =
  sio :: sio
  other_core :: 'v
  looks :: nat
  lockout_mutex :: "mutex world"
  lockout_in_progress :: bool
  lock_numbers :: sync_state

record 'v mc_env =
  this_core :: nat
  other_runs :: "nat \<Rightarrow> sio \<times> 'v \<Rightarrow> sio \<times> 'v"
  mtx_others :: "nat \<Rightarrow> mutex \<Rightarrow> mutex"
  mc_run :: run_callback
  mc_wake :: nat

definition mc_timer :: "'v multicore \<Rightarrow> timer_state" where
  "mc_timer m = ap_timer (alarms (lockout_mutex m))"

definition set_mc_timer :: "timer_state \<Rightarrow> 'v multicore \<Rightarrow> 'v multicore" where
  "set_mc_timer tm m =
     m\<lparr>lockout_mutex := (lockout_mutex m)\<lparr>alarms := (alarms (lockout_mutex m))\<lparr>ap_timer := tm\<rparr>\<rparr>\<rparr>"

definition set_mc_irq :: "irq_state \<Rightarrow> 'v multicore \<Rightarrow> 'v multicore" where
  "set_mc_irq i m = set_mc_timer ((mc_timer m)\<lparr>timer_irq := i\<rparr>) m"

text \<open>Before each access the other core runs.\<close>

definition sio_access :: "'v mc_env \<Rightarrow> 'v multicore \<Rightarrow> 'v multicore" where
  "sio_access E m =
     (let (s, v) = other_runs E (looks m) (sio m, other_core m) in m\<lparr>sio := s, other_core := v, looks := looks m + 1\<rparr>)"

section \<open>FIFO functions\<close>

definition multicore_fifo_get_status :: "'v mc_env \<Rightarrow> 'v multicore \<Rightarrow> u32 \<times> 'v multicore" where
  "multicore_fifo_get_status E m = (let m = sio_access E m in (fifo_st (this_core E) (sio m), m))"

definition multicore_fifo_rvalid :: "'v mc_env \<Rightarrow> 'v multicore \<Rightarrow> bool \<times> 'v multicore" where
  "multicore_fifo_rvalid E m = (let m = sio_access E m in (fifo_st (this_core E) (sio m) AND 0x01 \<noteq> 0, m))"

definition multicore_fifo_wready :: "'v mc_env \<Rightarrow> 'v multicore \<Rightarrow> bool \<times> 'v multicore" where
  "multicore_fifo_wready E m = (let m = sio_access E m in (fifo_st (this_core E) (sio m) AND 0x02 \<noteq> 0, m))"

definition read_word :: "'v mc_env \<Rightarrow> 'v multicore \<Rightarrow> (u32 \<times> 'v multicore) option" where
  "read_word E m = do {
     let m = sio_access E m;
     (x, s) \<leftarrow> fifo_rd (this_core E) (sio m);
     Some (x, m\<lparr>sio := s\<rparr>) }"

definition write_word :: "'v mc_env \<Rightarrow> u32 \<Rightarrow> 'v multicore \<Rightarrow> 'v multicore" where
  "write_word E x m = (let m = sio_access E m in m\<lparr>sio := fifo_wr (this_core E) x (sio m)\<rparr>)"

definition multicore_fifo_clear_irq :: "'v mc_env \<Rightarrow> 'v multicore \<Rightarrow> 'v multicore" where
  "multicore_fifo_clear_irq E m = (let m = sio_access E m in m\<lparr>sio := fifo_st_clear (this_core E) (sio m)\<rparr>)"

partial_function (option) multicore_fifo_drain :: "'v mc_env \<Rightarrow> 'v multicore \<Rightarrow> 'v multicore option" where
  "multicore_fifo_drain E m =
     (let (valid, m) = multicore_fifo_rvalid E m in
      if valid then do { (_, m) \<leftarrow> read_word E m; multicore_fifo_drain E m } else Some m)"

declare multicore_fifo_drain.simps [code]

partial_function (option) multicore_fifo_push_blocking :: "'v mc_env \<Rightarrow> u32 \<Rightarrow> 'v multicore \<Rightarrow> 'v multicore option" where
  "multicore_fifo_push_blocking E data m =
     (let (ready, m) = multicore_fifo_wready E m in
      if \<not> ready then multicore_fifo_push_blocking E data m else Some (write_word E data m))"

declare multicore_fifo_push_blocking.simps [code]

partial_function (option) push_until ::
    "'v mc_env \<Rightarrow> u32 \<Rightarrow> absolute_time \<Rightarrow> 'v multicore \<Rightarrow> (bool \<times> 'v multicore) option" where
  "push_until E data end_time m =
     (let (ready, m) = multicore_fifo_wready E m in
      if \<not> ready then
        (let (late, tm) = time_reached (mc_timer m) end_time; m = set_mc_timer tm m in
         if late then Some (False, m) else push_until E data end_time m)
      else Some (True, write_word E data m))"

declare push_until.simps [code]

definition multicore_fifo_push_timeout_us :: "'v mc_env \<Rightarrow> u32 \<Rightarrow> u64 \<Rightarrow> 'v multicore \<Rightarrow> (bool \<times> 'v multicore) option" where
  "multicore_fifo_push_timeout_us E data timeout_us m = do {
     (end_time, tm) \<leftarrow> make_timeout_time_us (mc_timer m) timeout_us;
     push_until E data end_time (set_mc_timer tm m) }"

partial_function (option) multicore_fifo_pop_blocking :: "'v mc_env \<Rightarrow> 'v multicore \<Rightarrow> (u32 \<times> 'v multicore) option" where
  "multicore_fifo_pop_blocking E m =
     (let (valid, m) = multicore_fifo_rvalid E m in
      if \<not> valid then multicore_fifo_pop_blocking E m else read_word E m)"

declare multicore_fifo_pop_blocking.simps [code]

text \<open>The word, if there was one in time.\<close>

partial_function (option) pop_until ::
    "'v mc_env \<Rightarrow> absolute_time \<Rightarrow> 'v multicore \<Rightarrow> (u32 option \<times> 'v multicore) option" where
  "pop_until E end_time m =
     (let (valid, m) = multicore_fifo_rvalid E m in
      if \<not> valid then
        (let (late, tm) = time_reached (mc_timer m) end_time; m = set_mc_timer tm m in
         if late then Some (None, m) else pop_until E end_time m)
      else do { (x, m) \<leftarrow> read_word E m; Some (Some x, m) })"

declare pop_until.simps [code]

definition multicore_fifo_pop_timeout_us :: "'v mc_env \<Rightarrow> u64 \<Rightarrow> 'v multicore \<Rightarrow> (u32 option \<times> 'v multicore) option" where
  "multicore_fifo_pop_timeout_us E timeout_us m = do {
     (end_time, tm) \<leftarrow> make_timeout_time_us (mc_timer m) timeout_us;
     pop_until E end_time (set_mc_timer tm m) }"

section \<open>Starting the second core\<close>

definition SIO_IRQ_PROC0 :: nat where "SIO_IRQ_PROC0 = 15"

definition mc_irq_is_enabled :: "nat \<Rightarrow> 'v multicore \<Rightarrow> bool option" where
  "mc_irq_is_enabled num m = irq_is_enabled (timer_irq (mc_timer m)) num"

definition mc_irq_set_enabled :: "nat \<Rightarrow> bool \<Rightarrow> 'v multicore \<Rightarrow> 'v multicore option" where
  "mc_irq_set_enabled num enabled m = do {
     i \<leftarrow> irq_set_enabled (timer_irq (mc_timer m)) num enabled;
     Some (set_mc_irq i m) }"

text \<open>The loop over the commands, each sent again from the first until it is echoed.\<close>

partial_function (option) launch_loop :: "'v mc_env \<Rightarrow> u32 list \<Rightarrow> nat \<Rightarrow> 'v multicore \<Rightarrow> 'v multicore option" where
  "launch_loop E cmd_sequence seq m = do {
     cmd \<leftarrow> c_read cmd_sequence seq;
     m \<leftarrow> (if cmd = 0 then multicore_fifo_drain E m else Some m);
     m \<leftarrow> multicore_fifo_push_blocking E cmd m;
     (response, m) \<leftarrow> multicore_fifo_pop_blocking E m;
     let seq = (if cmd = response then seq + 1 else 0);
     if seq < length cmd_sequence then launch_loop E cmd_sequence seq m else Some m }"

declare launch_loop.simps [code]

definition multicore_launch_core1_raw :: "'v mc_env \<Rightarrow> u32 \<Rightarrow> u32 \<Rightarrow> u32 \<Rightarrow> 'v multicore \<Rightarrow> 'v multicore option" where
  "multicore_launch_core1_raw E entry sp vector_table m = do {
     enabled \<leftarrow> mc_irq_is_enabled SIO_IRQ_PROC0 m;
     m \<leftarrow> mc_irq_set_enabled SIO_IRQ_PROC0 False m;
     m \<leftarrow> launch_loop E [0, 0, 1, vector_table, sp, entry] 0 m;
     mc_irq_set_enabled SIO_IRQ_PROC0 enabled m }"

text \<open>
  The stack is the list of its words, at \<open>stack_bottom\<close>; the addresses of \<open>core1_trampoline\<close> and
  \<open>core1_wrapper\<close> and the vector table register are arguments.
\<close>

definition multicore_launch_core1_with_stack ::
    "'v mc_env \<Rightarrow> u32 \<Rightarrow> u32 \<Rightarrow> u32 \<Rightarrow> u32 \<Rightarrow> u32 \<Rightarrow> nat \<Rightarrow> u32 list \<Rightarrow> 'v multicore \<Rightarrow> (u32 list \<times> 'v multicore) option" where
  "multicore_launch_core1_with_stack E trampoline wrapper vtor entry stack_bottom stack_size_bytes stack m = do {
     c_assert (stack_size_bytes mod 4 = 0);
     c_assert (3 \<le> stack_size_bytes div 4);
     let i = stack_size_bytes div 4 - 3;
     stack \<leftarrow> c_write stack i entry;
     stack \<leftarrow> c_write stack (i + 1) stack_bottom;
     stack \<leftarrow> c_write stack (i + 2) wrapper;
     m \<leftarrow> multicore_launch_core1_raw E trampoline (stack_bottom + of_nat (4 * i)) vtor m;
     Some (stack, m) }"

section \<open>Lockout: the core that asks\<close>

definition LOCKOUT_MAGIC_START :: u32 where "LOCKOUT_MAGIC_START = 0x73a8831e"
definition LOCKOUT_MAGIC_END :: u32 where "LOCKOUT_MAGIC_END = NOT LOCKOUT_MAGIC_START"

definition check_lockout_mutex_init :: "'v multicore \<Rightarrow> 'v multicore option" where
  "check_lockout_mutex_init m =
     (if \<not> mutex_is_initialized (memory (lockout_mutex m)) then do {
        (x, s) \<leftarrow> mutex_init (lock_numbers m);
        Some (m\<lparr>lockout_mutex := (lockout_mutex m)\<lparr>memory := x\<rparr>, lock_numbers := s\<rparr>) }
      else Some m)"

text \<open>On the calling core, with the address of the handler.\<close>

definition multicore_lockout_victim_init :: "'v mc_env \<Rightarrow> u32 \<Rightarrow> 'v multicore \<Rightarrow> 'v multicore option" where
  "multicore_lockout_victim_init E addr m = do {
     m \<leftarrow> check_lockout_mutex_init m;
     let num = SIO_IRQ_PROC0 + this_core E;
     i \<leftarrow> irq_set_exclusive_handler (timer_irq (mc_timer m)) num addr;
     mc_irq_set_enabled num True (set_mc_irq i m) }"

partial_function (option) handshake_loop ::
    "'v mc_env \<Rightarrow> u32 \<Rightarrow> absolute_time \<Rightarrow> 'v multicore \<Rightarrow> (bool \<times> 'v multicore) option" where
  "handshake_loop E magic until m = do {
     (now, tm) \<leftarrow> get_absolute_time (mc_timer m);
     let m = set_mc_timer tm m;
     let next_timeout_us = absolute_time_diff_us now until;
     if next_timeout_us < 0 then Some (False, m)
     else do {
       (_, m) \<leftarrow> multicore_fifo_push_timeout_us E magic (word_of_int next_timeout_us) m;
       (now, tm) \<leftarrow> get_absolute_time (mc_timer m);
       let m = set_mc_timer tm m;
       let next_timeout_us = absolute_time_diff_us now until;
       if next_timeout_us < 0 then Some (False, m)
       else do {
         (word, m) \<leftarrow> multicore_fifo_pop_timeout_us E (word_of_int next_timeout_us) m;
         if word = None then Some (False, m)
         else if word = Some magic then Some (True, m)
         else handshake_loop E magic until m } } }"

declare handshake_loop.simps [code]

definition multicore_lockout_handshake ::
    "'v mc_env \<Rightarrow> u32 \<Rightarrow> absolute_time \<Rightarrow> 'v multicore \<Rightarrow> (bool \<times> 'v multicore) option" where
  "multicore_lockout_handshake E magic until m = do {
     let irq_num = SIO_IRQ_PROC0 + this_core E;
     enabled \<leftarrow> mc_irq_is_enabled irq_num m;
     m \<leftarrow> (if enabled then mc_irq_set_enabled irq_num False m else Some m);
     (rc, m) \<leftarrow> handshake_loop E magic until m;
     m \<leftarrow> (if enabled then mc_irq_set_enabled irq_num True m else Some m);
     Some (rc, m) }"

definition enter_lockout_mutex :: "'v mc_env \<Rightarrow> absolute_time \<Rightarrow> 'v multicore \<Rightarrow> (bool \<times> 'v multicore) option" where
  "enter_lockout_mutex E until m = do {
     (ok, w) \<leftarrow> mutex_enter_block_until (mc_run E) (mc_wake E) (this_core E) (mtx_others E) (lockout_mutex m) until;
     Some (ok, m\<lparr>lockout_mutex := w\<rparr>) }"

definition exit_lockout_mutex :: "'v multicore \<Rightarrow> 'v multicore option" where
  "exit_lockout_mutex m = do {
     x \<leftarrow> mutex_exit (memory (lockout_mutex m));
     Some (m\<lparr>lockout_mutex := (lockout_mutex m)\<lparr>memory := x\<rparr>\<rparr>) }"

definition multicore_lockout_start_block_until ::
    "'v mc_env \<Rightarrow> absolute_time \<Rightarrow> 'v multicore \<Rightarrow> (bool \<times> 'v multicore) option" where
  "multicore_lockout_start_block_until E until m = do {
     m \<leftarrow> check_lockout_mutex_init m;
     (ok, m) \<leftarrow> enter_lockout_mutex E until m;
     if \<not> ok then Some (False, m)
     else do {
       c_assert (\<not> lockout_in_progress m);
       (rc, m) \<leftarrow> multicore_lockout_handshake E LOCKOUT_MAGIC_START until m;
       m \<leftarrow> exit_lockout_mutex (m\<lparr>lockout_in_progress := rc\<rparr>);
       Some (rc, m) } }"

definition multicore_lockout_start_timeout_us :: "'v mc_env \<Rightarrow> u64 \<Rightarrow> 'v multicore \<Rightarrow> (bool \<times> 'v multicore) option" where
  "multicore_lockout_start_timeout_us E timeout_us m = do {
     (until, tm) \<leftarrow> make_timeout_time_us (mc_timer m) timeout_us;
     multicore_lockout_start_block_until E until (set_mc_timer tm m) }"

definition multicore_lockout_start_blocking :: "'v mc_env \<Rightarrow> 'v multicore \<Rightarrow> 'v multicore option" where
  "multicore_lockout_start_blocking E m = do {
     (_, m) \<leftarrow> multicore_lockout_start_block_until E at_the_end_of_time m;
     Some m }"

definition multicore_lockout_end_block_until ::
    "'v mc_env \<Rightarrow> absolute_time \<Rightarrow> 'v multicore \<Rightarrow> (bool \<times> 'v multicore) option" where
  "multicore_lockout_end_block_until E until m = do {
     c_assert (mutex_is_initialized (memory (lockout_mutex m)));
     (ok, m) \<leftarrow> enter_lockout_mutex E until m;
     if \<not> ok then Some (False, m)
     else do {
       c_assert (lockout_in_progress m);
       (rc, m) \<leftarrow> multicore_lockout_handshake E LOCKOUT_MAGIC_END until m;
       m \<leftarrow> exit_lockout_mutex (if rc then m\<lparr>lockout_in_progress := False\<rparr> else m);
       Some (rc, m) } }"

definition multicore_lockout_end_timeout_us :: "'v mc_env \<Rightarrow> u64 \<Rightarrow> 'v multicore \<Rightarrow> (bool \<times> 'v multicore) option" where
  "multicore_lockout_end_timeout_us E timeout_us m = do {
     (until, tm) \<leftarrow> make_timeout_time_us (mc_timer m) timeout_us;
     multicore_lockout_end_block_until E until (set_mc_timer tm m) }"

definition multicore_lockout_end_blocking :: "'v mc_env \<Rightarrow> 'v multicore \<Rightarrow> 'v multicore option" where
  "multicore_lockout_end_blocking E m = do {
     (_, m) \<leftarrow> multicore_lockout_end_block_until E at_the_end_of_time m;
     Some m }"

section \<open>Lockout: the handler on the other core\<close>

text \<open>
  Where the other core is: in its own code, or at a line of \<open>multicore_lockout_handler\<close>. The
  interrupt is taken when the core has a word to read or an error flag and interrupts are on.
\<close>

datatype victim_pc = V_user | V_clear_irq | V_rvalid | V_read | V_disable | V_push_start | V_pop | V_restore | V_push_end

record victim =
  vpc :: victim_pc
  primask :: u32
  vsave :: u32

fun multicore_lockout_handler :: "nat \<Rightarrow> sio \<times> victim \<Rightarrow> sio \<times> victim" where
  "multicore_lockout_handler c (s, v) =
     (case vpc v of
        V_user \<Rightarrow> (s, if fifo_st c s AND 0x0D \<noteq> 0 \<and> primask v = 0 then v\<lparr>vpc := V_clear_irq\<rparr> else v)
      | V_clear_irq \<Rightarrow> (fifo_st_clear c s, v\<lparr>vpc := V_rvalid\<rparr>)
      | V_rvalid \<Rightarrow> (s, v\<lparr>vpc := if fifo_st c s AND 0x01 \<noteq> 0 then V_read else V_user\<rparr>)
      | V_read \<Rightarrow>
          (case fifo_rd c s of
             None \<Rightarrow> (s, v)
           | Some (x, s) \<Rightarrow> (s, v\<lparr>vpc := if x = LOCKOUT_MAGIC_START then V_disable else V_rvalid\<rparr>))
      | V_disable \<Rightarrow> (s, v\<lparr>vsave := primask v, primask := 1, vpc := V_push_start\<rparr>)
      | V_push_start \<Rightarrow>
          (if fifo_st c s AND 0x02 \<noteq> 0 then (fifo_wr c LOCKOUT_MAGIC_START s, v\<lparr>vpc := V_pop\<rparr>) else (s, v))
      | V_pop \<Rightarrow>
          (if fifo_st c s AND 0x01 \<noteq> 0 then
             (case fifo_rd c s of
                None \<Rightarrow> (s, v)
              | Some (x, s) \<Rightarrow> (s, v\<lparr>vpc := if x \<noteq> LOCKOUT_MAGIC_END then V_pop else V_restore\<rparr>))
           else (s, v))
      | V_restore \<Rightarrow> (s, v\<lparr>primask := vsave v, vpc := V_push_end\<rparr>)
      | V_push_end \<Rightarrow>
          (if fifo_st c s AND 0x02 \<noteq> 0 then (fifo_wr c LOCKOUT_MAGIC_END s, v\<lparr>vpc := V_rvalid\<rparr>) else (s, v)))"

text \<open>The other core's own code turns its interrupts on and off.\<close>

datatype victim_act = Handler | Set_primask u32

fun victim_do :: "nat \<Rightarrow> victim_act \<Rightarrow> sio \<times> victim \<Rightarrow> sio \<times> victim" where
  "victim_do c Handler sv = multicore_lockout_handler c sv"
| "victim_do c (Set_primask p) (s, v) = (s, if vpc v = V_user then v\<lparr>primask := p\<rparr> else v)"

end
