(* ===== verification/Multicore_Props.thy ===== *)
theory Multicore_Props
  imports Multicore Sync_Correct
begin

text \<open>
  The lockout between the two cores: what the words in the FIFOs say about where the handler
  is, and so that a core that has locked the other one out can rely on it.
\<close>

abbreviation START :: u32 where "START \<equiv> LOCKOUT_MAGIC_START"
abbreviation END :: u32 where "END \<equiv> LOCKOUT_MAGIC_END"

lemma START_END [simp]: "START \<noteq> END" "END \<noteq> START"
  by (simp_all add: LOCKOUT_MAGIC_START_def LOCKOUT_MAGIC_END_def)

declare multicore_lockout_handler.simps [simp del]

lemma other_index: "c < 2 \<Longrightarrow> 1 - c \<noteq> c \<and> c \<noteq> 1 - c \<and> 1 - (1 - c) = c" for c :: nat
  by (auto simp: less_2_cases_iff)

section \<open>FIFO registers\<close>

lemma fifo_st_bits [simp]:
  "(fifo_st c s AND 1 \<noteq> 0) = (fifo s c \<noteq> [])" "(fifo_st c s AND 2 \<noteq> 0) = (length (fifo s (1 - c)) < 8)"
  "(fifo_st c s AND 1 = 0) = (fifo s c = [])" "(fifo_st c s AND 2 = 0) = (\<not> length (fifo s (1 - c)) < 8)"
  by (auto simp: fifo_st_def)

lemma fifo_rd_eq: "fifo_rd c s = Some (x, s') \<longleftrightarrow> (\<exists>xs. fifo s c = x # xs \<and> s' = s\<lparr>fifo := (fifo s)(c := xs)\<rparr>)"
  by (auto simp: fifo_rd_def split: list.splits)

lemma fifo_wr_fifo: "fifo (fifo_wr c x s) =
    (if length (fifo s (1 - c)) < 8 then (fifo s)(1 - c := fifo s (1 - c) @ [x]) else fifo s)"
  by (simp add: fifo_wr_def)

lemma fifo_st_clear_fifo [simp]: "fifo (fifo_st_clear c s) = fifo s"
  by (simp add: fifo_st_clear_def)

section \<open>The invariant\<close>

text \<open>Words END and then words START; and the other way round.\<close>

fun ends_then_starts :: "u32 list \<Rightarrow> bool" where
  "ends_then_starts [] = True"
| "ends_then_starts (x # xs) = (x = END \<and> ends_then_starts xs \<or> x = START \<and> set xs \<subseteq> {START})"

fun starts_then_ends :: "u32 list \<Rightarrow> bool" where
  "starts_then_ends [] = True"
| "starts_then_ends (x # xs) = (x = START \<and> starts_then_ends xs \<or> x = END \<and> set xs \<subseteq> {END})"

lemma ends_then_starts_snoc: "ends_then_starts xs \<Longrightarrow> ends_then_starts (xs @ [START])"
  by (induction xs) auto

lemma starts_then_ends_snoc: "starts_then_ends xs \<Longrightarrow> starts_then_ends (xs @ [END])"
  by (induction xs) auto

lemma ends_only: "set xs \<subseteq> {END} \<Longrightarrow> ends_then_starts xs"
  by (induction xs) auto

lemma starts_only: "set xs \<subseteq> {START} \<Longrightarrow> starts_then_ends xs \<and> ends_then_starts xs"
  by (induction xs) auto

text \<open>
  \<open>to_victim\<close> and \<open>to_locker\<close> are the FIFOs. While no lockout is in progress the handler gets
  no END once it has taken a START, and its answer is in the FIFO; during a lockout it is
  waiting for an END, or has answered one.
\<close>

fun lockout_words :: "bool \<Rightarrow> victim_pc \<Rightarrow> u32 list \<Rightarrow> u32 list \<Rightarrow> bool" where
  "lockout_words False pc to_victim to_locker =
     (if pc = V_pop then set to_victim \<subseteq> {START} \<and> to_locker = [START]
      else if pc = V_disable \<or> pc = V_push_start then set to_victim \<subseteq> {START} \<and> to_locker = []
      else pc \<noteq> V_restore \<and> pc \<noteq> V_push_end \<and> ends_then_starts to_victim \<and> to_locker = [])"
| "lockout_words True pc to_victim to_locker =
     (if pc = V_pop then starts_then_ends to_victim \<and> to_locker = []
      else if pc = V_restore \<or> pc = V_push_end then set to_victim \<subseteq> {END} \<and> to_locker = []
      else pc \<noteq> V_disable \<and> pc \<noteq> V_push_start \<and> set to_victim \<subseteq> {END} \<and> to_locker = [END])"

definition victim_irqs :: "victim \<Rightarrow> bool" where
  "victim_irqs v \<longleftrightarrow>
     (if vpc v \<in> {V_push_start, V_pop, V_restore} then primask v = 1 \<and> vsave v = 0 else vpc v = V_user \<or> primask v = 0)"

definition lockout_inv :: "nat \<Rightarrow> bool \<Rightarrow> sio \<times> victim \<Rightarrow> bool" where
  "lockout_inv c b = (\<lambda>(s, v). lockout_words b (vpc v) (fifo s c) (fifo s (1 - c)) \<and> victim_irqs v)"

definition locked_out :: "nat \<Rightarrow> sio \<times> victim \<Rightarrow> bool" where
  "locked_out c = (\<lambda>(s, v). vpc v = V_pop \<and> primask v = 1 \<and> END \<notin> set (fifo s c))"

definition victim_free :: "sio \<times> victim \<Rightarrow> bool" where
  "victim_free = (\<lambda>(s, v). vpc v \<in> {V_user, V_clear_irq, V_rvalid, V_read} \<and> (vpc v \<noteq> V_user \<longrightarrow> primask v = 0))"

lemma handler_inv:
  assumes c: "c < 2" and inv: "lockout_inv c b (s, v)"
  shows "lockout_inv c b (multicore_lockout_handler c (s, v))"
proof -
  have c1: "1 - c \<noteq> c" "1 - (1 - c) = c"
    using other_index [OF c] by blast+
  show ?thesis
    using inv c1 by (cases "vpc v"; cases b; cases "fifo s c")
      (auto simp: multicore_lockout_handler.simps lockout_inv_def victim_irqs_def fifo_rd_def fifo_wr_fifo)
qed

lemma victim_do_inv:
  assumes "c < 2" "lockout_inv c b sv"
  shows "lockout_inv c b (victim_do c act sv)"
proof (cases act)
  case Handler
  then show ?thesis
    using handler_inv [OF assms(1), of b "fst sv" "snd sv"] assms(2) by simp
next
  case (Set_primask p)
  then show ?thesis
    using assms(2) by (cases sv; cases "vpc (snd sv)") (auto simp: lockout_inv_def victim_irqs_def)
qed

lemma victim_run_inv: "c < 2 \<Longrightarrow> lockout_inv c b sv \<Longrightarrow> lockout_inv c b (fold (victim_do c) acts sv)"
  by (induction acts arbitrary: sv) (simp_all add: victim_do_inv)

lemma handler_locked: "locked_out c (s, v) \<Longrightarrow> locked_out c (multicore_lockout_handler c (s, v))"
  by (cases "fifo s c") (auto simp: multicore_lockout_handler.simps locked_out_def fifo_rd_def)

lemma victim_run_locked: "locked_out c sv \<Longrightarrow> locked_out c (fold (victim_do c) acts sv)"
proof (induction acts arbitrary: sv)
  case (Cons act acts)
  have "locked_out c (victim_do c act sv)"
    using Cons.prems handler_locked by (cases act; cases sv) (auto simp: locked_out_def)
  then show ?case
    using Cons.IH by simp
qed simp

section \<open>The asking core\<close>

text \<open>The FIFOs and the other core as the asking core's state has them.\<close>

abbreviation link :: "victim multicore \<Rightarrow> sio \<times> victim" where
  "link m \<equiv> (sio m, other_core m)"

definition victim_runs :: "victim mc_env \<Rightarrow> (nat \<Rightarrow> victim_act list) \<Rightarrow> bool" where
  "victim_runs E acts \<longleftrightarrow> this_core E < 2 \<and> other_runs E = (\<lambda>n. fold (victim_do (1 - this_core E)) (acts n))"

text \<open>\<open>asks E b m\<close>: the invariant, seen from the asking core.\<close>

abbreviation asks :: "victim mc_env \<Rightarrow> bool \<Rightarrow> victim multicore \<Rightarrow> bool" where
  "asks E b m \<equiv> lockout_inv (1 - this_core E) b (link m)"

lemma link_timer [simp]:
  "sio (set_mc_timer tm m) = sio m" "other_core (set_mc_timer tm m) = other_core m"
  "lockout_in_progress (set_mc_timer tm m) = lockout_in_progress m"
  by (simp_all add: set_mc_timer_def)

lemma access_inv:
  assumes "victim_runs E acts" "asks E b m"
  shows "asks E b (sio_access E m) \<and> lockout_in_progress (sio_access E m) = lockout_in_progress m"
proof -
  have "lockout_inv (1 - this_core E) b (fold (victim_do (1 - this_core E)) (acts (looks m)) (link m))"
    by (rule victim_run_inv [OF _ assms(2)]) (use assms(1) in \<open>simp add: victim_runs_def\<close>)
  then show ?thesis
    using assms(1) by (auto simp: sio_access_def victim_runs_def split: prod.splits)
qed

lemma write_word_inv:
  assumes E: "victim_runs E acts" and inv: "asks E b m"
  shows "asks E b (write_word E (if b then END else START) m) \<and>
    lockout_in_progress (write_word E (if b then END else START) m) = lockout_in_progress m"
proof -
  have c: "this_core E \<noteq> 1 - this_core E" "1 - (1 - this_core E) = this_core E"
    using E other_index by (simp_all add: victim_runs_def)
  show ?thesis
    using access_inv [OF E inv] c
    by (cases b) (auto simp: write_word_def Let_def lockout_inv_def fifo_wr_fifo ends_then_starts_snoc starts_then_ends_snoc)
qed

text \<open>What the asking core sends, and what it then knows when it gets its answer.\<close>

abbreviation magic_of :: "bool \<Rightarrow> u32" where
  "magic_of b \<equiv> if b then END else START"

definition answered :: "victim mc_env \<Rightarrow> bool \<Rightarrow> victim multicore \<Rightarrow> bool" where
  "answered E b m \<longleftrightarrow> asks E (\<not> b) m \<and> (if b then victim_free (link m) else locked_out (1 - this_core E) (link m))"

lemma read_word_answer:
  assumes E: "victim_runs E acts" and inv: "asks E b m" and r: "read_word E m = Some (x, m')"
  shows "x = magic_of b \<and> answered E b m' \<and> lockout_in_progress m' = lockout_in_progress m"
proof -
  let ?m = "sio_access E m"
  have c: "this_core E \<noteq> 1 - this_core E" "1 - (1 - this_core E) = this_core E"
    using E other_index by (simp_all add: victim_runs_def)
  obtain xs where xs: "fifo (sio ?m) (this_core E) = x # xs" "m' = ?m\<lparr>sio := (sio ?m)\<lparr>fifo := (fifo (sio ?m))(this_core E := xs)\<rparr>\<rparr>"
    using r by (auto simp: read_word_def Let_def bind_eq_Some_conv fifo_rd_eq)
  have i: "asks E b ?m" "lockout_in_progress ?m = lockout_in_progress m"
    using access_inv [OF E inv] by simp_all
  show ?thesis
    using i xs c starts_only ends_only
    by (cases b; cases "vpc (other_core ?m)")
      (auto simp: answered_def lockout_inv_def locked_out_def victim_free_def victim_irqs_def split: if_splits)
qed

lemma wready_inv:
  "victim_runs E acts \<Longrightarrow> asks E b m \<Longrightarrow> multicore_fifo_wready E m = (r, m') \<Longrightarrow>
    asks E b m' \<and> lockout_in_progress m' = lockout_in_progress m"
  using access_inv [of E acts b m] by (auto simp: multicore_fifo_wready_def Let_def)

lemma rvalid_inv:
  "victim_runs E acts \<Longrightarrow> asks E b m \<Longrightarrow> multicore_fifo_rvalid E m = (r, m') \<Longrightarrow>
    asks E b m' \<and> lockout_in_progress m' = lockout_in_progress m"
  using access_inv [of E acts b m] by (auto simp: multicore_fifo_rvalid_def Let_def)

lemma push_until_inv:
  assumes "push_until E data end_time m = Some y"
  shows "victim_runs E acts \<longrightarrow> data = magic_of b \<longrightarrow> asks E b m \<longrightarrow>
    asks E b (snd y) \<and> lockout_in_progress (snd y) = lockout_in_progress m"
proof (rule push_until.raw_induct [where P = "\<lambda>E data t m y. victim_runs E acts \<longrightarrow> data = magic_of b \<longrightarrow> asks E b m \<longrightarrow>
    asks E b (snd y) \<and> lockout_in_progress (snd y) = lockout_in_progress m", OF _ assms], intro impI, goal_cases)
  case (1 rec E data t m y)
  obtain ready m1 where m1: "multicore_fifo_wready E m = (ready, m1)"
    by fastforce
  have i: "asks E b m1" "lockout_in_progress m1 = lockout_in_progress m"
    using wready_inv [OF 1(3,5) m1] by simp_all
  obtain late tm where tm: "time_reached (mc_timer m1) t = (late, tm)"
    by fastforce
  show ?case
  proof (cases "ready \<or> late")
    case True
    then show ?thesis
      using 1(2) m1 tm i write_word_inv [OF 1(3) i(1)] 1(4) by (auto split: if_splits)
  next
    case False
    then have "rec E data t (set_mc_timer tm m1) = Some y"
      using 1(2) m1 tm by simp
    from 1(1) [OF this] show ?thesis
      using 1(3,4) i by simp
  qed
qed

lemma pop_until_answer:
  assumes "pop_until E end_time m = Some y"
  shows "victim_runs E acts \<longrightarrow> asks E b m \<longrightarrow> lockout_in_progress (snd y) = lockout_in_progress m \<and>
    (case fst y of None \<Rightarrow> asks E b (snd y) | Some x \<Rightarrow> x = magic_of b \<and> answered E b (snd y))"
proof (rule pop_until.raw_induct [where P = "\<lambda>E t m y. victim_runs E acts \<longrightarrow> asks E b m \<longrightarrow>
    lockout_in_progress (snd y) = lockout_in_progress m \<and>
    (case fst y of None \<Rightarrow> asks E b (snd y) | Some x \<Rightarrow> x = magic_of b \<and> answered E b (snd y))", OF _ assms], intro impI, goal_cases)
  case (1 rec E t m y)
  obtain valid m1 where m1: "multicore_fifo_rvalid E m = (valid, m1)"
    by fastforce
  have i: "asks E b m1" "lockout_in_progress m1 = lockout_in_progress m"
    using rvalid_inv [OF 1(3,4) m1] by simp_all
  obtain late tm where tm: "time_reached (mc_timer m1) t = (late, tm)"
    by fastforce
  show ?case
  proof (cases valid)
    case True
    then obtain x m2 where r: "read_word E m1 = Some (x, m2)" "y = (Some x, m2)"
      using 1(2) m1 by (auto simp: bind_eq_Some_conv)
    then show ?thesis
      using read_word_answer [OF 1(3) i(1) r(1)] i(2) by simp
  next
    case False
    then show ?thesis
    proof (cases late)
      case True
      then show ?thesis
        using False 1(2) m1 tm i by auto
    next
      case nl: False
      then have "rec E t (set_mc_timer tm m1) = Some y"
        using 1(2) m1 tm False by simp
      from 1(1) [OF this] show ?thesis
        using 1(3) i by simp
    qed
  qed
qed

lemma handshake_loop_answer:
  assumes "handshake_loop E magic until m = Some y"
  shows "victim_runs E acts \<longrightarrow> magic = magic_of b \<longrightarrow> asks E b m \<longrightarrow> lockout_in_progress (snd y) = lockout_in_progress m \<and>
    (if fst y then answered E b (snd y) else asks E b (snd y))"
proof (rule handshake_loop.raw_induct [where P = "\<lambda>E magic until m y. victim_runs E acts \<longrightarrow> magic = magic_of b \<longrightarrow> asks E b m \<longrightarrow>
    lockout_in_progress (snd y) = lockout_in_progress m \<and>
    (if fst y then answered E b (snd y) else asks E b (snd y))", OF _ assms], intro impI, goal_cases)
  case (1 rec E magic until m y)
  obtain now tm where tm: "get_absolute_time (mc_timer m) = Some (now, tm)"
    using 1(2) by (auto simp: bind_eq_Some_conv)
  show ?case
  proof (cases "absolute_time_diff_us now until < 0")
    case True
    then show ?thesis
      using 1(2,5) tm by auto
  next
    case False
    then obtain b1 m1 now' tm' where m1: "multicore_fifo_push_timeout_us E magic (word_of_int (absolute_time_diff_us now until)) (set_mc_timer tm m) = Some (b1, m1)"
        "get_absolute_time (mc_timer m1) = Some (now', tm')"
      using 1(2) tm by (auto simp: bind_eq_Some_conv)
    obtain t1 m0 where "push_until E magic t1 m0 = Some (b1, m1)" "link m0 = link m" "lockout_in_progress m0 = lockout_in_progress m"
      using m1(1) by (auto simp: multicore_fifo_push_timeout_us_def bind_eq_Some_conv)
    then have i: "asks E b m1" "lockout_in_progress m1 = lockout_in_progress m"
      using push_until_inv [of E magic t1 m0 "(b1, m1)" acts b] 1(3-5) by simp_all
    show ?thesis
    proof (cases "absolute_time_diff_us now' until < 0")
      case True
      then show ?thesis
        using 1(2) tm m1 False i by auto
    next
      case nl: False
      then obtain word m2 where m2: "multicore_fifo_pop_timeout_us E (word_of_int (absolute_time_diff_us now' until)) (set_mc_timer tm' m1) = Some (word, m2)"
          "y = (if word = None then (False, m2) else (True, m2)) \<or> word \<noteq> None \<and> word \<noteq> Some magic"
        using 1(2) tm m1 False by (auto simp: bind_eq_Some_conv split: if_splits)
      obtain t2 m3 where "pop_until E t2 m3 = Some (word, m2)" "link m3 = link m1" "lockout_in_progress m3 = lockout_in_progress m1"
        using m2(1) by (auto simp: multicore_fifo_pop_timeout_us_def bind_eq_Some_conv)
      then show ?thesis
        using pop_until_answer [of E t2 m3 "(word, m2)" acts b] 1(3,4) i m2(2) by (auto split: option.splits)
    qed
  qed
qed

section \<open>The calls\<close>

lemma lockout_mutex_calls:
  "check_lockout_mutex_init m = Some m1 \<Longrightarrow> link m1 = link m \<and> lockout_in_progress m1 = lockout_in_progress m"
  "enter_lockout_mutex E t m = Some (ok, m1) \<Longrightarrow> link m1 = link m \<and> lockout_in_progress m1 = lockout_in_progress m"
  "exit_lockout_mutex m = Some m1 \<Longrightarrow> link m1 = link m \<and> lockout_in_progress m1 = lockout_in_progress m"
  "mc_irq_set_enabled n e m = Some m1 \<Longrightarrow> link m1 = link m \<and> lockout_in_progress m1 = lockout_in_progress m"
  by (auto simp: check_lockout_mutex_init_def enter_lockout_mutex_def exit_lockout_mutex_def mc_irq_set_enabled_def
    set_mc_irq_def bind_eq_Some_conv split: if_splits)

lemma handshake_answer:
  assumes E: "victim_runs E acts" and inv: "asks E b m" and r: "multicore_lockout_handshake E (magic_of b) t m = Some (rc, m')"
  shows "lockout_in_progress m' = lockout_in_progress m \<and> (if rc then answered E b m' else asks E b m')"
proof -
  obtain e m1 m2 where e: "(if e then mc_irq_set_enabled (SIO_IRQ_PROC0 + this_core E) False m else Some m) = Some m1"
      "handshake_loop E (magic_of b) t m1 = Some (rc, m2)"
      "(if e then mc_irq_set_enabled (SIO_IRQ_PROC0 + this_core E) True m2 else Some m2) = Some m'"
    using r by (auto simp: multicore_lockout_handshake_def Let_def bind_eq_Some_conv)
  have "link m1 = link m \<and> lockout_in_progress m1 = lockout_in_progress m"
      "link m' = link m2 \<and> lockout_in_progress m' = lockout_in_progress m2"
    using e(1,3) lockout_mutex_calls(4) by (auto split: if_splits)
  then show ?thesis
    using handshake_loop_answer [OF e(2), of acts b] E inv by (auto simp: answered_def)
qed

text \<open>The invariant between the calls.\<close>

abbreviation lockout_state_ok :: "victim mc_env \<Rightarrow> victim multicore \<Rightarrow> bool" where
  "lockout_state_ok E m \<equiv> asks E (lockout_in_progress m) m"

lemma start_answer:
  assumes E: "victim_runs E acts" and ok: "lockout_state_ok E m" and r: "multicore_lockout_start_block_until E t m = Some (rc, m')"
  shows "lockout_state_ok E m' \<and> (rc \<longrightarrow> locked_out (1 - this_core E) (link m'))"
proof -
  obtain m1 ent m2 where m: "check_lockout_mutex_init m = Some m1" "enter_lockout_mutex E t m1 = Some (ent, m2)"
    using r by (auto simp: multicore_lockout_start_block_until_def bind_eq_Some_conv)
  have l: "link m2 = link m" "lockout_in_progress m2 = lockout_in_progress m"
    using lockout_mutex_calls(1) [OF m(1)] lockout_mutex_calls(2) [OF m(2)] by simp_all
  show ?thesis
  proof (cases ent)
    case False
    then show ?thesis
      using r m l ok by (simp add: multicore_lockout_start_block_until_def)
  next
    case True
    then obtain m3 where m3: "\<not> lockout_in_progress m2" "multicore_lockout_handshake E (magic_of False) t m2 = Some (rc, m3)"
        "exit_lockout_mutex (m3\<lparr>lockout_in_progress := rc\<rparr>) = Some m'"
      using r m by (auto simp: multicore_lockout_start_block_until_def bind_eq_Some_conv split: if_splits)
    have "asks E False m2"
      using ok l m3(1) by simp
    from handshake_answer [OF E this m3(2)] lockout_mutex_calls(3) [OF m3(3)] show ?thesis
      by (auto simp: answered_def split: if_splits)
  qed
qed

lemma end_answer:
  assumes E: "victim_runs E acts" and ok: "lockout_state_ok E m" and r: "multicore_lockout_end_block_until E t m = Some (rc, m')"
  shows "lockout_state_ok E m' \<and> (rc \<longrightarrow> victim_free (link m'))"
proof -
  obtain ent m2 where m: "mutex_is_initialized (memory (lockout_mutex m))" "enter_lockout_mutex E t m = Some (ent, m2)"
    using r by (auto simp: multicore_lockout_end_block_until_def bind_eq_Some_conv split: if_splits)
  have l: "link m2 = link m" "lockout_in_progress m2 = lockout_in_progress m"
    using lockout_mutex_calls(2) [OF m(2)] by simp_all
  show ?thesis
  proof (cases ent)
    case False
    then show ?thesis
      using r m l ok by (simp add: multicore_lockout_end_block_until_def)
  next
    case True
    then obtain m3 where m3: "lockout_in_progress m2" "multicore_lockout_handshake E (magic_of True) t m2 = Some (rc, m3)"
        "exit_lockout_mutex (if rc then m3\<lparr>lockout_in_progress := False\<rparr> else m3) = Some m'"
      using r m by (auto simp: multicore_lockout_end_block_until_def bind_eq_Some_conv split: if_splits)
    have "asks E True m2"
      using ok l m3(1) by simp
    from handshake_answer [OF E this m3(2)] lockout_mutex_calls(3) [OF m3(3)] m3(1) show ?thesis
      by (auto simp: answered_def split: if_splits)
  qed
qed

text \<open>What may happen: calls with any deadline and result, and the other core running in between.\<close>

datatype lockout_event = Start_lockout absolute_time | End_lockout absolute_time | Other_core "victim_act list"

fun lockout_do :: "victim mc_env \<Rightarrow> lockout_event \<Rightarrow> victim multicore \<Rightarrow> victim multicore option" where
  "lockout_do E (Start_lockout t) m = map_option snd (multicore_lockout_start_block_until E t m)"
| "lockout_do E (End_lockout t) m = map_option snd (multicore_lockout_end_block_until E t m)"
| "lockout_do E (Other_core acts) m =
     (let (s, v) = fold (victim_do (1 - this_core E)) acts (link m) in Some (m\<lparr>sio := s, other_core := v\<rparr>))"

fun lockout_history :: "victim mc_env \<Rightarrow> lockout_event list \<Rightarrow> victim multicore \<Rightarrow> victim multicore option" where
  "lockout_history E [] m = Some m"
| "lockout_history E (e # es) m = do { m \<leftarrow> lockout_do E e m; lockout_history E es m }"

lemma lockout_do_ok:
  assumes E: "victim_runs E acts" and ok: "lockout_state_ok E m" and r: "lockout_do E e m = Some m'"
  shows "lockout_state_ok E m'"
proof (cases e)
  case (Start_lockout t)
  then show ?thesis
    using r start_answer [OF E ok] by auto
next
  case (End_lockout t)
  then show ?thesis
    using r end_answer [OF E ok] by auto
next
  case (Other_core as)
  have "lockout_inv (1 - this_core E) (lockout_in_progress m) (fold (victim_do (1 - this_core E)) as (link m))"
    by (rule victim_run_inv [OF _ ok]) (use E in \<open>simp add: victim_runs_def\<close>)
  then show ?thesis
    using r Other_core by (auto split: prod.splits)
qed

lemma lockout_history_ok:
  "victim_runs E acts \<Longrightarrow> lockout_state_ok E m \<Longrightarrow> lockout_history E es m = Some m' \<Longrightarrow> lockout_state_ok E m'"
proof (induction es arbitrary: m)
  case (Cons e es)
  then obtain m1 where m1: "lockout_do E e m = Some m1" "lockout_history E es m1 = Some m'"
    by (auto simp: bind_eq_Some_conv)
  from Cons.IH [OF Cons.prems(1) lockout_do_ok [OF Cons.prems(1,2) m1(1)] m1(2)] show ?case .
qed simp

text \<open>At first the FIFOs are empty and the other core is not in the handler.\<close>

definition lockout_fresh :: "victim multicore \<Rightarrow> bool" where
  "lockout_fresh m \<longleftrightarrow> fifo (sio m) = (\<lambda>_. []) \<and> vpc (other_core m) = V_user \<and> \<not> lockout_in_progress m"

lemma lockout_fresh_ok: "lockout_fresh m \<Longrightarrow> lockout_state_ok E m"
  by (simp add: lockout_fresh_def lockout_inv_def victim_irqs_def)

text \<open>
  Whatever calls were made before, with whatever timeouts and results, and however the
  cores interleave: when starting a lockout returns true the other core is in its handler with
  interrupts off, and it stays there whatever it does until it is sent the word that ends
  the lockout, which it has not been; when ending one returns true the other core has left.
\<close>

theorem lockout_holds_other_core:
  assumes E: "victim_runs E acts" and fresh: "lockout_fresh m0" and before: "lockout_history E es m0 = Some m"
  shows "(multicore_lockout_start_block_until E t m = Some (True, m1) \<longrightarrow>
      (\<forall>as. locked_out (1 - this_core E) (fold (victim_do (1 - this_core E)) as (link m1)))) \<and>
    (multicore_lockout_end_block_until E t m = Some (True, m2) \<longrightarrow> victim_free (link m2))"
proof -
  have ok: "lockout_state_ok E m"
    by (rule lockout_history_ok [OF E lockout_fresh_ok [OF fresh] before])
  show ?thesis
    using start_answer [OF E ok, of t True m1] end_answer [OF E ok, of t True m2] victim_run_locked by blast
qed

text \<open>
  For the witness: core 0 asks and the time stands still.
\<close>

definition lockout_test :: "(nat \<Rightarrow> u64) \<Rightarrow> victim multicore" where
  "lockout_test rt = \<lparr>sio = \<lparr>fifo = (\<lambda>_. []), roe = (\<lambda>_. False), wof = (\<lambda>_. False)\<rparr>,
     other_core = \<lparr>vpc = V_user, primask = 0, vsave = 0\<rparr>, looks = 0,
     lockout_mutex = \<lparr>memory = \<lparr>mtx_core = \<lparr>spin_lock = Some 0\<rparr>, owner = LOCK_INVALID_OWNER_ID\<rparr>,
       alarms = \<lparr>heap = the (ph_create 1), entries = [], entry_ids_high = [], alarm_in_progress = 0, hardware_alarm_num = 0,
         ap_timer = timer_boot rt (irq_boot 0 0) 0\<rparr>\<rparr>,
     lockout_in_progress = False, lock_numbers = sync_boot\<rparr>"

definition runs_of :: "(nat \<Rightarrow> victim_act list) \<Rightarrow> nat \<Rightarrow> sio \<times> victim \<Rightarrow> sio \<times> victim" where
  "runs_of acts n sv = fold (victim_do 1) (acts n) sv"

definition lockout_env :: "(nat \<Rightarrow> victim_act list) \<Rightarrow> victim mc_env" where
  "lockout_env acts = \<lparr>this_core = 0, other_runs = runs_of acts, mtx_others = (\<lambda>_ x. x),
     mc_run = (\<lambda>_ _ _ p. Some (0, p)), mc_wake = 0\<rparr>"

lemma lockout_env_runs: "victim_runs (lockout_env acts) acts"
  by (simp add: victim_runs_def lockout_env_def runs_of_def fun_eq_iff)

lemma lockout_test_fresh: "lockout_fresh (lockout_test rt)"
  by (simp add: lockout_fresh_def lockout_test_def)

definition once_told :: "nat \<Rightarrow> victim_act list" where
  "once_told n = (if n = 2 then replicate 6 Handler else if n = 6 then replicate 3 Handler else [])"

theorem lockout_holds_other_core_witness:
  "\<exists>m1 m2. multicore_lockout_start_block_until (lockout_env once_told) (Absolute_time 10) (lockout_test (\<lambda>_. 0)) = Some (True, m1) \<and>
    (\<forall>as. locked_out 1 (fold (victim_do 1) as (link m1))) \<and>
    multicore_lockout_end_block_until (lockout_env once_told) (Absolute_time 10) m1 = Some (True, m2) \<and> victim_free (link m2)"
proof -
  let ?E = "lockout_env once_told" and ?t = "Absolute_time 10" and ?m = "lockout_test (\<lambda>_. 0)"
  have "(case multicore_lockout_start_block_until ?E ?t ?m of None \<Rightarrow> None
      | Some (r, m) \<Rightarrow> map_option (\<lambda>(r', m'). (r, r')) (multicore_lockout_end_block_until ?E ?t m)) = Some (True, True)"
    by code_simp
  then obtain m1 m2 where m: "multicore_lockout_start_block_until ?E ?t ?m = Some (True, m1)"
      "multicore_lockout_end_block_until ?E ?t m1 = Some (True, m2)"
    by (auto split: option.splits)
  have "lockout_history ?E [] ?m = Some ?m" "lockout_history ?E [Start_lockout ?t] ?m = Some m1"
    using m(1) by simp_all
  from lockout_holds_other_core [OF lockout_env_runs lockout_test_fresh this(1), of ?t m1 m1]
    lockout_holds_other_core [OF lockout_env_runs lockout_test_fresh this(2), of ?t m1 m2] m show ?thesis
    by (auto simp: lockout_env_def)
qed

section \<open>Timeouts\<close>

text \<open>A free mutex is entered at once.\<close>

lemma enter_free_lockout_mutex:
  assumes "spin_lock (mtx_core (memory (lockout_mutex m))) \<noteq> None" "\<not> lock_is_owner_id_valid (owner (memory (lockout_mutex m)))"
  shows "enter_lockout_mutex E t m = Some (True, m\<lparr>lockout_mutex := (lockout_mutex m)\<lparr>memory :=
    (memory (lockout_mutex m))\<lparr>owner := lock_get_caller_owner_id (this_core E)\<rparr>\<rparr>\<rparr>)"
  using assms by (simp add: enter_lockout_mutex_def mutex_enter_block_until_def retry.simps mutex_attempt_def)

text \<open>
  A start of a lockout that times out between sending its word and looking for the answer
  returns false, but the other core takes the word, and then it waits with interrupts off for
  ever: ending the lockout fails its assert, since none is in progress.
\<close>

theorem lockout_timeout_strands_victim:
  "\<exists>E m0 m. victim_runs E (\<lambda>_. []) \<and> lockout_fresh m0 \<and>
    multicore_lockout_start_block_until E (Absolute_time 10) m0 = Some (False, m) \<and>
    (\<forall>as. locked_out 1 (fold (victim_do 1) (replicate 6 Handler @ as) (link m))) \<and>
    (\<forall>t. multicore_lockout_end_block_until E t m = None)"
proof -
  let ?E = "lockout_env (\<lambda>_. [])" and ?m = "lockout_test (\<lambda>n. if n < 6 then 0 else 100)"
  have "map_option (\<lambda>(r, m). (r, locked_out 1 (fold (victim_do 1) (replicate 6 Handler) (link m)), lockout_in_progress m,
      spin_lock (mtx_core (memory (lockout_mutex m))), lock_is_owner_id_valid (owner (memory (lockout_mutex m)))))
      (multicore_lockout_start_block_until ?E (Absolute_time 10) ?m) = Some (False, True, False, Some 0, False)"
    by code_simp
  then obtain m where m: "multicore_lockout_start_block_until ?E (Absolute_time 10) ?m = Some (False, m)"
      "locked_out 1 (fold (victim_do 1) (replicate 6 Handler) (link m))" "\<not> lockout_in_progress m"
      "spin_lock (mtx_core (memory (lockout_mutex m))) = Some 0" "\<not> lock_is_owner_id_valid (owner (memory (lockout_mutex m)))"
    by auto
  have "multicore_lockout_end_block_until ?E t m = None" for t
    using m(3-5) enter_free_lockout_mutex [of m ?E t] by (simp add: multicore_lockout_end_block_until_def mutex_is_initialized_def)
  moreover have "locked_out 1 (fold (victim_do 1) (replicate 6 Handler @ as) (link m))" for as
    using victim_run_locked [OF m(2)] by simp
  ultimately show ?thesis
    using m(1) lockout_env_runs lockout_test_fresh by blast
qed

lemma deadline_overflows:
  assumes "a < b" "b \<le> INT64_MAX"
  shows "delayed_by_us (Absolute_time b) (word_of_int (absolute_time_diff_us (Absolute_time a) at_the_end_of_time)) = None"
    "\<not> absolute_time_diff_us (Absolute_time a) at_the_end_of_time < 0"
proof -
  have ab: "uint a < uint b" "uint b < 9223372036854775808"
    using assms by (simp_all add: word_less_def word_le_def uint_INT64_MAX)
  have d: "word_of_int (absolute_time_diff_us (Absolute_time a) at_the_end_of_time) = INT64_MAX - a"
    by (simp add: absolute_time_diff_us_def at_the_end_of_time_def to_us_since_boot_def)
  have "uint (INT64_MAX - a) = 2 ^ 63 - 1 - uint a"
  proof -
    have "(9223372036854775807 - uint a) mod 18446744073709551616 = 9223372036854775807 - uint a"
      using ab uint_ge_0 [of a] by (intro mod_pos_pos_trivial) linarith+
    then show ?thesis
      by (simp add: uint_word_ariths uint_INT64_MAX)
  qed
  moreover have "(uint b + (9223372036854775807 - uint a)) mod 18446744073709551616 = uint b + (9223372036854775807 - uint a)"
    using ab uint_ge_0 [of a] by (intro mod_pos_pos_trivial) linarith+
  ultimately have "uint (b + (INT64_MAX - a)) = uint b + (2 ^ 63 - 1 - uint a)"
    by (simp add: uint_word_arith_bintrs take_bit_eq_mod)
  then have "\<not> b + (INT64_MAX - a) < b" "\<not> b + (INT64_MAX - a) \<le> INT64_MAX"
    using ab by (simp_all add: word_less_def word_le_def uint_INT64_MAX)
  then show "delayed_by_us (Absolute_time b) (word_of_int (absolute_time_diff_us (Absolute_time a) at_the_end_of_time)) = None"
    unfolding d by (simp add: delayed_by_us_def update_us_since_boot_def to_us_since_boot_def Let_def)
  have "valid_time (Absolute_time a)" "valid_time at_the_end_of_time"
    using ab by (simp_all add: valid_time_def word_le_def uint_INT64_MAX to_us_since_boot_def at_the_end_of_time_def)
  then show "\<not> absolute_time_diff_us (Absolute_time a) at_the_end_of_time < 0"
    using ab by (simp add: absolute_time_diff_us_eq at_the_end_of_time_def uint_INT64_MAX)
qed

text \<open>
  \<open>multicore_lockout_start_blocking\<close> fails an assert, with its mutex taken, when the clock
  moves on between its first look at it and the next, for the deadline it computes for the
  FIFO is the time left until the last time there is, from the later look on.
\<close>

theorem lockout_blocking_deadline_overflows:
  assumes free: "spin_lock (mtx_core (memory (lockout_mutex m))) = Some k" "\<not> lock_is_owner_id_valid (owner (memory (lockout_mutex m)))"
    and idle: "\<not> lockout_in_progress m" "mc_irq_is_enabled (SIO_IRQ_PROC0 + this_core E) m = Some False"
    and clock: "time_us_64 (mc_timer m) = Some (a, tm)" "time_us_64 tm = Some (b, tm')" "a < b" "b \<le> INT64_MAX"
  shows "multicore_lockout_start_blocking E m = None"
proof -
  let ?m = "m\<lparr>lockout_mutex := (lockout_mutex m)\<lparr>memory := (memory (lockout_mutex m))\<lparr>owner := lock_get_caller_owner_id (this_core E)\<rparr>\<rparr>\<rparr>"
  have t: "mc_timer ?m = mc_timer m" "mc_irq_is_enabled n ?m = mc_irq_is_enabled n m" "mc_timer (set_mc_timer tm ?m) = tm" for n
    by (simp_all add: mc_timer_def mc_irq_is_enabled_def set_mc_timer_def)
  have "a \<le> INT64_MAX"
    using clock by simp
  then have now: "get_absolute_time (mc_timer ?m) = Some (Absolute_time a, tm)" "get_absolute_time tm = Some (Absolute_time b, tm')"
    using clock unfolding t by (simp_all add: get_absolute_time_def update_us_since_boot_def)
  have "handshake_loop E START at_the_end_of_time ?m = None"
    unfolding handshake_loop.simps [of E START at_the_end_of_time ?m]
    using deadline_overflows [OF clock(3,4)] now t(3)
    by (simp add: multicore_fifo_push_timeout_us_def make_timeout_time_us_def Let_def)
  then show ?thesis
    using free idle t(2) enter_free_lockout_mutex [of m E at_the_end_of_time]
    by (simp add: multicore_lockout_start_blocking_def multicore_lockout_start_block_until_def check_lockout_mutex_init_def
      mutex_is_initialized_def multicore_lockout_handshake_def)
qed

theorem lockout_blocking_deadline_overflows_witness:
  "multicore_lockout_start_blocking (lockout_env (\<lambda>_. [])) (lockout_test (\<lambda>n. if n < 3 then 0 else 5)) = None"
proof -
  let ?m = "lockout_test (\<lambda>n. if n < 3 then 0 else 5)"
  have "(case time_us_64 (mc_timer ?m) of None \<Rightarrow> None | Some (a, tm) \<Rightarrow> map_option (\<lambda>(b, tm'). (a, b)) (time_us_64 tm)) = Some (0, 5)"
    by code_simp
  then obtain tm tm' where t: "time_us_64 (mc_timer ?m) = Some (0, tm)" "time_us_64 tm = Some (5, tm')"
    by (auto split: option.splits)
  have "mc_irq_is_enabled (SIO_IRQ_PROC0 + this_core (lockout_env (\<lambda>_. []))) ?m = Some False"
    by code_simp
  then show ?thesis
    by (intro lockout_blocking_deadline_overflows [where k = 0, OF _ _ _ _ t])
      (simp_all add: lockout_test_def lock_is_owner_id_valid_def LOCK_INVALID_OWNER_ID_def INT64_MAX_def)
qed

end
