(* ===== verification/Launch.thy ===== *)
theory Launch
  imports Multicore_Props
begin

section \<open>Starting the second core\<close>

text \<open>
  A core 1 that waits to be started and answers each word with the same word, whenever it gets
  to it (\<open>works\<close>); its state is the list of the words it has got.
\<close>

definition echo_core :: "(nat \<Rightarrow> bool) \<Rightarrow> nat \<Rightarrow> sio \<times> u32 list \<Rightarrow> sio \<times> u32 list" where
  "echo_core works n sv =
     (if works n then
        (case fifo_rd 1 (fst sv) of None \<Rightarrow> sv | Some (x, s) \<Rightarrow> (fifo_wr 1 x s, snd sv @ [x]))
      else sv)"

definition echoes :: "u32 list mc_env \<Rightarrow> (nat \<Rightarrow> bool) \<Rightarrow> bool" where
  "echoes E works \<longleftrightarrow> this_core E = 0 \<and> other_runs E = echo_core works \<and> (\<forall>n. \<exists>k\<ge>n. works k)"

definition holds :: "mutex world \<Rightarrow> u32 list multicore \<Rightarrow> u32 list \<Rightarrow> u32 list \<Rightarrow> u32 list \<Rightarrow> bool" where
  "holds L m to_1 to_0 got \<longleftrightarrow> lockout_mutex m = L \<and> fifo (sio m) 1 = to_1 \<and> fifo (sio m) 0 = to_0 \<and> other_core m = got"

lemma access_idle:
  "echoes E works \<Longrightarrow> holds L m [] ys got \<Longrightarrow> holds L (sio_access E m) [] ys got"
  by (auto simp: echoes_def holds_def sio_access_def echo_core_def fifo_rd_def)

lemma drain_idle:
  assumes E: "echoes E works"
  shows "holds L m [] ys got \<Longrightarrow> \<exists>m'. multicore_fifo_drain E m = Some m' \<and> holds L m' [] [] got"
proof (induction ys arbitrary: m)
  case Nil
  have "holds L (sio_access E m) [] [] got"
    by (rule access_idle [OF E Nil])
  then show ?case
    using E by (subst multicore_fifo_drain.simps) (auto simp: multicore_fifo_rvalid_def holds_def echoes_def)
next
  case (Cons y ys)
  let ?m = "sio_access E (sio_access E m)"
  let ?m1 = "?m\<lparr>sio := (sio ?m)\<lparr>fifo := (fifo (sio ?m))(0 := ys)\<rparr>\<rparr>"
  have h: "holds L (sio_access E m) [] (y # ys) got" "holds L ?m [] (y # ys) got"
    using access_idle [OF E] Cons.prems by blast+
  have "multicore_fifo_drain E m = multicore_fifo_drain E ?m1"
    using E h by (subst multicore_fifo_drain.simps)
      (auto simp: multicore_fifo_rvalid_def read_word_def fifo_rd_def holds_def echoes_def Let_def)
  moreover have "holds L ?m1 [] ys got"
    using h(2) by (simp add: holds_def)
  ultimately show ?case
    using Cons.IH by simp
qed

lemma push_idle:
  assumes E: "echoes E works" and h: "holds L m [] [] got"
  shows "\<exists>m'. multicore_fifo_push_blocking E x m = Some m' \<and> holds L m' [x] [] got"
proof -
  have "holds L (sio_access E m) [] [] got" "holds L (sio_access E (sio_access E m)) [] [] got"
    using access_idle [OF E] h by blast+
  then show ?thesis
    using E by (subst multicore_fifo_push_blocking.simps)
      (auto simp: multicore_fifo_wready_def write_word_def fifo_wr_fifo holds_def echoes_def Let_def fifo_wr_def)
qed

lemma pop_echoed:
  assumes E: "echoes E works" and h: "holds L m [] [x] got"
  shows "\<exists>m'. multicore_fifo_pop_blocking E m = Some (x, m') \<and> holds L m' [] [] got"
proof -
  have "holds L (sio_access E m) [] [x] got" "holds L (sio_access E (sio_access E m)) [] [x] got"
    using access_idle [OF E] h by blast+
  then show ?thesis
    using E by (subst multicore_fifo_pop_blocking.simps)
      (auto simp: multicore_fifo_rvalid_def read_word_def fifo_rd_def holds_def echoes_def Let_def)
qed

lemma access_pending:
  assumes E: "echoes E works" and h: "holds L m [x] [] got"
  shows "if works (looks m) then holds L (sio_access E m) [] [x] (got @ [x]) else holds L (sio_access E m) [x] [] got"
  using E h by (auto simp: echoes_def holds_def sio_access_def echo_core_def fifo_rd_def fifo_wr_def)

lemma looks_access [simp]: "looks (sio_access E m) = looks m + 1"
  by (simp add: sio_access_def split: prod.splits)

lemma pop_pending:
  assumes E: "echoes E works"
  shows "holds L m [x] [] got \<Longrightarrow> works (looks m + k) \<Longrightarrow>
    \<exists>m'. multicore_fifo_pop_blocking E m = Some (x, m') \<and> holds L m' [] [] (got @ [x])"
proof (induction k arbitrary: m)
  case 0
  let ?m = "sio_access E m"
  have h: "holds L ?m [] [x] (got @ [x])"
    using access_pending [OF E 0(1)] 0(2) by simp
  have "holds L (sio_access E ?m) [] [x] (got @ [x])"
    by (rule access_idle [OF E h])
  then show ?case
    using E h by (subst multicore_fifo_pop_blocking.simps)
      (auto simp: multicore_fifo_rvalid_def read_word_def fifo_rd_def holds_def echoes_def Let_def)
next
  case (Suc k)
  let ?m = "sio_access E m"
  show ?case
  proof (cases "works (looks m)")
    case True
    then have h: "holds L ?m [] [x] (got @ [x])"
      using access_pending [OF E Suc.prems(1)] by simp
    have "holds L (sio_access E ?m) [] [x] (got @ [x])"
      by (rule access_idle [OF E h])
    then show ?thesis
      using E h by (subst multicore_fifo_pop_blocking.simps)
        (auto simp: multicore_fifo_rvalid_def read_word_def fifo_rd_def holds_def echoes_def Let_def)
  next
    case False
    then have h: "holds L ?m [x] [] got"
      using access_pending [OF E Suc.prems(1)] by simp
    then have "multicore_fifo_pop_blocking E m = multicore_fifo_pop_blocking E ?m"
      using E by (subst multicore_fifo_pop_blocking.simps) (auto simp: multicore_fifo_rvalid_def holds_def echoes_def Let_def)
    then show ?thesis
      using Suc.IH [OF h] Suc.prems(2) by simp
  qed
qed

lemma launch_loop_sends:
  assumes E: "echoes E works"
  shows "seq < length cs \<Longrightarrow> holds L m [] ys got \<Longrightarrow> ys = [] \<or> cs ! seq = 0 \<Longrightarrow>
    \<exists>m'. launch_loop E cs seq m = Some m' \<and> holds L m' [] [] (got @ drop seq cs)"
proof (induction "length cs - seq" arbitrary: seq m ys got)
  case 0
  then show ?case
    by simp
next
  case (Suc n)
  let ?x = "cs ! seq"
  obtain m1 where m1: "(if ?x = 0 then multicore_fifo_drain E m else Some m) = Some m1" "holds L m1 [] [] got"
    using drain_idle [OF E Suc.prems(2)] Suc.prems(2,3) by (cases "?x = 0") auto
  obtain m2 where m2: "multicore_fifo_push_blocking E ?x m1 = Some m2" "holds L m2 [?x] [] got"
    using push_idle [OF E m1(2)] by blast
  obtain k where "k \<ge> looks m2" "works k"
    using E by (auto simp: echoes_def)
  then have "works (looks m2 + (k - looks m2))"
    by simp
  from pop_pending [OF E m2(2) this] obtain m3 where m3: "multicore_fifo_pop_blocking E m2 = Some (?x, m3)" "holds L m3 [] [] (got @ [?x])"
    by blast
  have run: "launch_loop E cs seq m = (if seq + 1 < length cs then launch_loop E cs (seq + 1) m3 else Some m3)"
    using m1(1) m2(1) m3(1) Suc.prems(1) by (subst launch_loop.simps) (simp add: Let_def)
  have d: "drop seq cs = ?x # drop (seq + 1) cs"
    using Suc.prems(1) by (simp add: Cons_nth_drop_Suc)
  show ?case
  proof (cases "seq + 1 < length cs")
    case True
    have n: "n = length cs - (seq + 1)"
      using Suc.hyps(2) by simp
    from Suc.hyps(1) [OF n True m3(2)] show ?thesis
      using run True d by simp
  next
    case False
    then show ?thesis
      using run m3(2) d by simp
  qed
qed

text \<open>
  Starting core 1 returns, whenever core 1 gets to its words and whatever the FIFO held
  before, and core 1 has been sent exactly the start sequence of the boot ROM; the FIFO
  interrupt is enabled again if it was.
\<close>

theorem launch_sends_sequence:
  assumes E: "echoes E works" and m: "fifo (sio m) 1 = []"
  shows "\<exists>m'. multicore_launch_core1_raw E entry sp vector_table m = Some m' \<and>
    other_core m' = other_core m @ [0, 0, 1, vector_table, sp, entry] \<and> fifo (sio m') 0 = [] \<and>
    mc_irq_is_enabled SIO_IRQ_PROC0 m' = mc_irq_is_enabled SIO_IRQ_PROC0 m"
proof -
  let ?i = "timer_irq (mc_timer m)" and ?b = "push_bit SIO_IRQ_PROC0 1 :: u32"
  let ?e = "0 \<noteq> ?b AND nvic_enabled ?i"
  let ?m0 = "set_mc_irq (irq_set_mask_enabled ?i ?b False) m"
  have p: "check_irq_param SIO_IRQ_PROC0 = Some ()"
    by (simp add: check_irq_param_def SIO_IRQ_PROC0_def NUM_IRQS_def)
  have t: "timer_irq (mc_timer (set_mc_irq i x)) = i" for i and x :: "u32 list multicore"
    by (simp add: set_mc_irq_def set_mc_timer_def mc_timer_def)
  have h: "holds (lockout_mutex ?m0) ?m0 [] (fifo (sio m) 0) (other_core m)"
    using m by (simp add: holds_def set_mc_irq_def set_mc_timer_def)
  obtain m1 where m1: "launch_loop E [0, 0, 1, vector_table, sp, entry] 0 ?m0 = Some m1"
      "holds (lockout_mutex ?m0) m1 [] [] (other_core m @ [0, 0, 1, vector_table, sp, entry])"
    using launch_loop_sends [OF E _ h, of 0 "[0, 0, 1, vector_table, sp, entry]"] by auto
  have i1: "timer_irq (mc_timer m1) = irq_set_mask_enabled ?i ?b False"
    using m1(2) t [of "irq_set_mask_enabled ?i ?b False" m] by (simp add: holds_def mc_timer_def)
  let ?m' = "set_mc_irq (irq_set_mask_enabled (timer_irq (mc_timer m1)) ?b ?e) m1"
  have run: "multicore_launch_core1_raw E entry sp vector_table m = Some ?m'"
    using m1(1) p by (simp add: multicore_launch_core1_raw_def mc_irq_is_enabled_def irq_is_enabled_def
      mc_irq_set_enabled_def irq_set_enabled_def)
  have "0 \<noteq> ?b AND nvic_enabled (irq_set_mask_enabled (irq_set_mask_enabled ?i ?b False) ?b ?e) \<longleftrightarrow> ?e"
  proof -
    have "?b AND (x AND NOT ?b) = 0" for x
      by (rule bit_word_eqI) (auto simp: bit_and_iff bit_not_iff simp del: push_bit_of_1 push_bit_numeral)
    moreover have "?b AND (x AND NOT ?b OR ?b) \<noteq> 0" for x
    proof -
      have "bit ?b SIO_IRQ_PROC0"
        by (simp add: SIO_IRQ_PROC0_def)
      then have set: "bit (?b AND (x AND NOT ?b OR ?b)) SIO_IRQ_PROC0"
        by (simp only: bit_and_iff bit_or_iff simp_thms)
      show ?thesis
      proof
        assume "?b AND (x AND NOT ?b OR ?b) = 0"
        with set have "bit (0 :: u32) SIO_IRQ_PROC0" by (simp only:)
        then show False by simp
      qed
    qed
    ultimately show ?thesis
      by (simp add: irq_set_mask_enabled_def and.assoc)
  qed
  then have "mc_irq_is_enabled SIO_IRQ_PROC0 ?m' = mc_irq_is_enabled SIO_IRQ_PROC0 m"
    using i1 p t by (simp add: mc_irq_is_enabled_def irq_is_enabled_def)
  moreover have "other_core ?m' = other_core m @ [0, 0, 1, vector_table, sp, entry]" "fifo (sio ?m') 0 = []"
    using m1(2) by (simp_all add: holds_def set_mc_irq_def set_mc_timer_def)
  ultimately show ?thesis
    using run by blast
qed

text \<open>A core that gets to its words at every fourth access.\<close>

definition core1_test :: "u32 list multicore" where
  "core1_test = \<lparr>sio = \<lparr>fifo = (\<lambda>_. [])(0 := [7, 8]), roe = (\<lambda>_. False), wof = (\<lambda>_. False)\<rparr>, other_core = [], looks = 0,
     lockout_mutex = lockout_mutex (lockout_test (\<lambda>_. 0)), lockout_in_progress = False, lock_numbers = sync_boot\<rparr>"

definition core1_env :: "u32 list mc_env" where
  "core1_env = \<lparr>this_core = 0, other_runs = echo_core (\<lambda>n. n mod 4 = 3), mtx_others = (\<lambda>_ x. x),
     mc_run = (\<lambda>_ _ _ p. Some (0, p)), mc_wake = 0\<rparr>"

theorem launch_sends_sequence_witness:
  "\<exists>m'. multicore_launch_core1_raw core1_env 0x10000101 0x20042000 0x20000000 core1_test = Some m' \<and>
    other_core m' = [0, 0, 1, 0x20000000, 0x20042000, 0x10000101]"
proof -
  have "\<exists>k\<ge>n. k mod 4 = 3" for n :: nat
    by (rule exI [of _ "4 * n + 3"]) simp
  then have "echoes core1_env (\<lambda>n. n mod 4 = 3)"
    by (simp add: echoes_def core1_env_def)
  moreover have "fifo (sio core1_test) 1 = []" "other_core core1_test = []"
    by (simp_all add: core1_test_def)
  ultimately show ?thesis
    using launch_sends_sequence [of core1_env "\<lambda>n. n mod 4 = 3" core1_test "0x10000101" "0x20042000" "0x20000000"] by auto
qed

end
