(* ===== verification/Spec2Isabelle.thy ===== *)
theory Spec2Isabelle
  imports Queue_Correct Heap4_Props Printf_Props Rtc_Props Crc Pio_Decode Pio_Props Pio_Pins Irq_Props Vfs_List Sd_Props Sd_Init Uart_Props Launch
begin

text \<open>
  A verification development for the Raspberry Pi Pico framework of this repository
  (framework-wizio-pico): the C code of the Pico SDK it ships (\<open>src/SDK\<close>) and of its own
  C library layer (\<open>src/wizio\<close>, \<open>src/arduino\<close>). The paths below are under \<open>src/\<close>.

  \<^bold>\<open>The program.\<close> The framework runs bare-metal on a chip with two Cortex-M0+ cores. At the
  bottom are bit arrays of claimed hardware (\<open>SDK/hardware/claim.c\<close>), the interrupt layer
  (\<open>irq.c\<close>), the 64-bit timer with four alarms (\<open>timer.c\<close>), the PIO blocks and the clock.
  On these are built the synchronisation primitives of \<open>SDK/pico/pico_sync\<close>, a queue
  between the cores and a pairing heap (\<open>pico_util\<close>), and alarm pools (\<open>pico_time\<close>), which
  keep their timers in a pairing heap and are driven by one hardware alarm. Beside these
  stand \<open>printf\<close>, the heap allocator and the C library calls that use them.

  \<^bold>\<open>Theories.\<close> Each component has a theory with its state and operations, translated
  function by function, and theories with the proofs.

  \<^item> \<open>Prelude\<close>: machine words, the option type for code that can stop, array accesses.
  \<^item> \<open>Claim\<close>: \<open>claim.c\<close>. The locale \<open>claim_bits\<close> states what a claimed-bit array promises; it
    extends to \<open>claim_client\<close> with the search for a free number.
  \<^item> \<open>Hw_Claims\<close>: the spin lock numbers (\<open>sync.c\<close>), DMA channels and timers (\<open>dma.c\<close>), PIO state
    machines (\<open>pio.c\<close>) and interpolator lanes (\<open>interp.c\<close>), each an interpretation of these
    locales; the timer alarms follow in \<open>Timer_Correct\<close>.
  \<^item> \<open>Irq\<close>, \<open>Irq_Chain\<close>, \<open>Irq_Props\<close>: \<open>irq.c\<close> and \<open>irq_handler_chain.S\<close>: vector table, NVIC bits,
    shared handler chains as slots of Thumb code with an interpreter of this code. The timer
    and the clock use it.
  \<^item> \<open>Timer\<close>, \<open>Timer_Correct\<close>: \<open>timer.c\<close>, \<open>pico/time.h\<close>, \<open>timeout_helper.c\<close>: reading the 64-bit
    counter, busy waits, hardware alarms and their interrupt.
  \<^item> \<open>Pheap\<close>, \<open>Pheap_Tree\<close>, \<open>Pheap_Correct\<close>, \<open>Pheap_Queue\<close>: the pairing heap on node ids, its
    refinement to heap-ordered trees and to a set with a minimum (locale \<open>id_heap\<close>), and the
    priority queue with a list of free ids that \<open>pheap.h\<close> documents.
  \<^item> \<open>Alarm_Pool\<close>, \<open>Alarm_Pool_Correct\<close>, \<open>Alarm_Pool_Props\<close>: alarms, repeating timers and sleeping
    of \<open>pico_time/time.c\<close>; the invariant over all interleavings of adds, cancels and the two
    halves of the interrupt handler.
  \<^item> \<open>Sync\<close>, \<open>Sync_Correct\<close>, \<open>Sync_Props\<close>: \<open>lock_core\<close>, mutexes of both kinds, semaphores, critical
    sections. The locale \<open>exclusive_lock\<close> gives mutual exclusion for both kinds of mutex.
  \<^item> \<open>Queue\<close>, \<open>Queue_Correct\<close>: \<open>queue.c\<close>, refining the bounded FIFO of locale \<open>bounded_fifo\<close>.
  \<^item> \<open>Heap4\<close>, \<open>Heap4_Correct\<close>, \<open>Heap4_Ops\<close>, \<open>Heap4_Malloc\<close>, \<open>Heap4_Props\<close>: the allocator
    \<open>arduino_heap_4.c\<close> and \<open>malloc\<close> to \<open>realloc\<close> of \<open>wizio/pico/memory.c\<close>.
  \<^item> \<open>Printf\<close>, \<open>Printf_Correct\<close>, \<open>Printf_Props\<close>: all of \<open>pico_printf/printf.c\<close>.
  \<^item> \<open>Rtc\<close>, \<open>Rtc_Props\<close>: \<open>rtc.c\<close> and \<open>wizio/newlib/time.c\<close>.
  \<^item> \<open>Pio_Instr\<close>, \<open>Pio_Decode\<close>: the instruction encoders of \<open>pio_instructions.h\<close>, and a decoder
    of the instruction format of the data sheet that reads back what they encode.
  \<^item> \<open>Pio_Config\<close>, \<open>Pio\<close>, \<open>Pio_Props\<close>, \<open>Pio_Pins\<close>: configurations, programs in instruction
    memory, state machine control and pins.
  \<^item> \<open>Vfs\<close>, \<open>Vfs_Props\<close>, \<open>Vfs_Drivers\<close>, \<open>Vfs_List\<close>: the virtual file system \<open>library/VFS/VFS.c\<close>, the
    system calls on it (\<open>wizio/newlib/syscall.c\<close>), its drivers for littlefs and FatFs, and the
    list of drives. A relation of runs carries the files that are open.
  \<^item> \<open>Spi\<close>, \<open>Spi_Props\<close>: \<open>spi.c\<close> and the inline functions of \<open>hardware/spi.h\<close>; a controller with two
    FIFOs and a shifter that works at times of its own.
  \<^item> \<open>Sd_Card\<close>, \<open>Sd_Disk\<close>: the SD card driver \<open>library/VFS/fatfs_sd.c\<close>, over \<open>Spi\<close> and \<open>Timer\<close>.
    \<open>Sd_Protocol\<close> is the automaton of a card in SPI mode; \<open>Sd_Blocks\<close>, \<open>Sd_Transfers\<close> and
    \<open>Sd_Props\<close> follow the driver through it and show that the disk is an array of blocks;
    \<open>Sd_Init\<close> is about its timeouts, with any card.
  \<^item> \<open>Stdio\<close>, \<open>Stdio_Props\<close>: the standard input and output \<open>pico_stdio/stdio.c\<close>: the list of drivers,
    the translation of line feeds, \<open>printf\<close> through its buffer, on \<open>Printf\<close> and the mutexes of \<open>Sync\<close>.
  \<^item> \<open>Uart\<close>, \<open>Uart_Props\<close>: \<open>uart.c\<close>, \<open>hardware/uart.h\<close> and the standard output over it
    (\<open>pico_stdio_uart/stdio_uart.c\<close>); what \<open>printf\<close> writes down to the bytes sent.
  \<^item> \<open>Multicore\<close>, \<open>Multicore_Props\<close>, \<open>Launch\<close>: \<open>pico_multicore/multicore.c\<close>: the FIFOs between the
    cores, the start of core 1, and the lockout with the handler on the other core as a
    machine that the asking core's steps interleave with.
  \<^item> \<open>Crc\<close>: the checksum \<open>lfs_crc\<close> of the file system.

  \<^bold>\<open>Conventions.\<close> A C function that can stop returns an option; \<open>None\<close> is a failed assert, a
  panic, undefined behaviour the model detects (an array or string read out of bounds), or a
  loop that never ends. Asserts and parameter checks are compiled in. \<open>uint32_t\<close>, \<open>uint8_t\<close>
  and the like are words of their width and wrap; ids, lane and channel numbers whose range
  the code checks are \<open>nat\<close>. What runs under a spin lock, or with interrupts off on the only
  core that uses it, is one step; code that gives up the lock in between is split there, and
  the steps of both cores and of interrupt handlers interleave freely.

  \<^bold>\<open>Parameters.\<close> Hardware and code outside the repository are arguments of the definitions:
  the timer counter at each register access (\<open>raw_time\<close>), the register blocks of the clock,
  PIO, SPI and UART (\<open>rtc_dev\<close>, \<open>pio_dev\<close>, \<open>spi_dev\<close>, \<open>uart_dev\<close>), the chip select (\<open>sd_pins\<close>), the arithmetic of \<open>double\<close> and \<open>float\<close> (\<open>double_ops\<close>,
  \<open>float_ops\<close>), \<open>mktime\<close> and \<open>localtime\<close>, user callbacks and comparators, the
  functions of littlefs and FatFs (\<open>lfs_api\<close>, \<open>fat_api\<close>), the functions of a standard output
  driver (\<open>driver_ops\<close>), what the other core does between two accesses to the FIFOs
  (\<open>other_runs\<close>) and \<open>malloc\<close>. What a property
  needs of them is an explicit hypothesis (\<open>rtc_documented\<close>, \<open>pio_pins_documented\<close>,
  \<open>spi_documented\<close>, \<open>sd_documented\<close>, \<open>uart_documented\<close>,
  \<open>stdio_documented\<close>, \<open>time_ok\<close>), which its witness meets with a concrete instance.

  \<^bold>\<open>Bounds.\<close> Loops over data end by a measure. Loops that wait for another core, an interrupt
  or a register are partial functions in the option type, so that not returning is \<open>None\<close>;
  that they return is proved (\<open>mutex_enter_blocking_iff\<close>, \<open>queue_add_blocking_iff\<close>,
  \<open>busy_wait_until_reaches\<close>), under the exact condition. The only depth bound is the
  nesting of \<open>_ftoa\<close> and \<open>_etoa\<close>: \<open>float_calls\<close> is 4, while for IEEE numbers no call is nested
  deeper than three, each handing the other a value in its range. The queue is built with
  \<open>PICO_QUEUE_MAX_LEVEL\<close>, the default alarm pool is on, the malloc-failed hook is off.

  \<^bold>\<open>What is shown.\<close> Refinement: the pairing heap to a priority queue, the queue to a FIFO, the SD
  card under the driver to an array of blocks.
  Invariants over all reachable states: alarm pools, mutexes, semaphores, lockout, allocator, PIO
  programs. Functional behaviour on every branch: allocation, cancelling, claims, PIO pins,
  the 64-bit time. Equivalence: integer output and CRC with reference definitions. Round
  trips: numbers printed and parsed, dates set and read, PIO instructions encoded and decoded. Liveness of the blocking calls.
  The error properties show where the code does not do what it means to; they are listed as
  findings of the manifest.

  \<^bold>\<open>Not modelled.\<close> Third-party trees: lwIP, TinyUSB, cyw43-driver, FatFs, littlefs (except the
  checksum), the FreeRTOS kernel, CMSIS; the second SDK copy \<open>SDK131\<close>; register headers and
  board files (only the constants the code uses); resetting core 1 and what it runs first; assembly for division, floating point and
  boot; start-up, linker scripts and USB, I2C, ADC, flash and clock drivers, which
  are register sequences with no state of their own; the C++ Arduino classes and
  debug printing. Freeing a whole pool, queue or heap passes memory to \<open>free\<close> and is
  left out.
\<close>

end
